(* ===== verification/Prelude.thy ===== *)
theory Prelude
  imports Main "HOL-Library.Word" "HOL-Library.Monad_Syntax"
begin

text \<open>
  The vocabulary every component of the development shares: the C integer types at their
  width, error codes, checked accesses to arrays, and the list and word lemmas the
  component proofs rest on.

  A C function that may trap (a failed \<open>ASSERT\<close>, which resets the chip, an access outside
  an array, a NULL or dangling pointer) is a function into \<open>option\<close>, composed with the
  \<open>do\<close> notation of the library: \<open>None\<close> is "does not return normally". Return codes are
  \<open>int\<close> values with the numbers of \<open>errno.h\<close>.
\<close>

type_synonym u8 = "8 word"
type_synonym u16 = "16 word"
type_synonym u32 = "32 word"
type_synonym u64 = "64 word"

abbreviation RET_OK :: int where "RET_OK \<equiv> 0"
abbreviation RET_ERR :: int where "RET_ERR \<equiv> - 1"
abbreviation ESRCH :: int where "ESRCH \<equiv> 3"
abbreviation EAGAIN :: int where "EAGAIN \<equiv> 11"
abbreviation ENOMEM :: int where "ENOMEM \<equiv> 12"
abbreviation EBUSY :: int where "EBUSY \<equiv> 16"
abbreviation ENODEV :: int where "ENODEV \<equiv> 19"
abbreviation EINVAL :: int where "EINVAL \<equiv> 22"
abbreviation EDEADLK :: int where "EDEADLK \<equiv> 35"
abbreviation ENOBUFS :: int where "ENOBUFS \<equiv> 105"
abbreviation ETIMEDOUT :: int where "ETIMEDOUT \<equiv> 110"

text \<open>The bytes of a string literal, without its terminator.\<close>

definition str_bytes :: "string \<Rightarrow> u8 list" where
  "str_bytes s = map (\<lambda>c. word_of_nat (of_char c)) s"

lemma length_str_bytes [simp]: "length (str_bytes s) = length s"
  by (simp add: str_bytes_def)

section \<open>Traps\<close>

definition assert_that :: "bool \<Rightarrow> unit option" where
  "assert_that b = (if b then Some () else None)"

lemma assert_that_simps [simp]:
  "assert_that True = Some ()" "assert_that False = None"
  by (simp_all add: assert_that_def)

lemma assert_that_Some [simp]: "assert_that b = Some u \<longleftrightarrow> b"
  by (simp add: assert_that_def)

section \<open>Checked memory accesses\<close>

text \<open>
  \<open>mem_rd\<close> reads one element, \<open>mem_wr\<close> writes one, \<open>mem_src\<close> is the source side of a
  \<open>memcpy\<close> (\<open>n\<close> elements from offset \<open>off\<close>) and \<open>mem_dst\<close> its destination side. Each is
  \<open>None\<close> when it leaves the object.
\<close>

definition mem_rd :: "'a list \<Rightarrow> nat \<Rightarrow> 'a option" where
  "mem_rd xs i = (if i < length xs then Some (xs ! i) else None)"

definition mem_wr :: "'a list \<Rightarrow> nat \<Rightarrow> 'a \<Rightarrow> 'a list option" where
  "mem_wr xs i v = (if i < length xs then Some (xs[i := v]) else None)"

definition mem_src :: "'a list \<Rightarrow> nat \<Rightarrow> nat \<Rightarrow> 'a list option" where
  "mem_src xs off n = (if off + n \<le> length xs then Some (take n (drop off xs)) else None)"

definition mem_dst :: "'a list \<Rightarrow> nat \<Rightarrow> 'a list \<Rightarrow> 'a list option" where
  "mem_dst xs off ys =
     (if off + length ys \<le> length xs
      then Some (take off xs @ ys @ drop (off + length ys) xs) else None)"

named_theorems mem_ok \<open>accesses that stay inside their object\<close>

lemma mem_rd_ok [mem_ok]: "i < length xs \<Longrightarrow> mem_rd xs i = Some (xs ! i)"
  by (simp add: mem_rd_def)

lemma mem_wr_ok [mem_ok]: "i < length xs \<Longrightarrow> mem_wr xs i v = Some (xs[i := v])"
  by (simp add: mem_wr_def)

lemma mem_src_ok [mem_ok]:
  "off + n \<le> length xs \<Longrightarrow> mem_src xs off n = Some (take n (drop off xs))"
  by (simp add: mem_src_def)

lemma mem_dst_ok [mem_ok]:
  "off + length ys \<le> length xs \<Longrightarrow>
   mem_dst xs off ys = Some (take off xs @ ys @ drop (off + length ys) xs)"
  by (simp add: mem_dst_def)

section \<open>Words\<close>

named_theorems word_nat \<open>unsigned words read as naturals\<close>

lemma unat_add_small [word_nat]:
  fixes a b :: "'a::len word"
  assumes "unat a + unat b < 2 ^ LENGTH('a)"
  shows "unat (a + b) = unat a + unat b"
  using assms by (simp add: unat_word_ariths)

lemma unat_sub_small [word_nat]:
  fixes a b :: "'a::len word"
  assumes "unat b \<le> unat a"
  shows "unat (a - b) = unat a - unat b"
  using assms by (simp add: unat_sub word_le_nat_alt)

lemma unat_lt_u32 [simp]: "unat (x :: u32) < 4294967296"
  using unsigned_less [of x] by simp

lemma unat_lt_u8 [simp]: "unat (x :: u8) < 256"
  using unsigned_less [of x] by simp

lemma unat_u8_u32 [simp]: "unat (ucast (x :: u8) :: u32) = unat x"
proof -
  have "unat x < 2 ^ 32" by (rule less_trans [OF unat_lt_u8]) simp
  then show ?thesis by (simp add: unsigned_ucast_eq take_bit_nat_eq_self)
qed

lemma sint_small:
  assumes "unat (x :: u32) < 2147483648"
  shows "sint x = int (unat x)"
proof -
  have "int (unat x) < int 2147483648" using assms by (simp only: of_nat_less_iff)
  then have b: "int (unat x) < 2 ^ 31" by simp
  have "signed_take_bit 31 (int (unat x)) = int (unat x)"
    by (rule signed_take_bit_int_eq_self [OF _ b]) (rule order_trans [OF _ of_nat_0_le_iff], simp)
  moreover have "sint x = signed_take_bit 31 (int (unat x))"
    unfolding sint_uint uint_nat by simp
  ultimately show ?thesis by simp
qed

lemmas word_cmp = word_le_nat_alt word_less_nat_alt word_unat_eq_iff

section \<open>Segments of a circular array\<close>

text \<open>\<open>ring_seg q r k\<close>: the \<open>k\<close> cells of the circular array \<open>q\<close> from index \<open>r\<close> on.\<close>

definition ring_seg :: "'a list \<Rightarrow> nat \<Rightarrow> nat \<Rightarrow> 'a list" where
  "ring_seg q r k = map (\<lambda>i. q ! ((r + i) mod length q)) [0..<k]"

lemma length_ring_seg [simp]: "length (ring_seg q r k) = k"
  by (simp add: ring_seg_def)

lemma ring_seg_0 [simp]: "ring_seg q r 0 = []"
  by (simp add: ring_seg_def)

lemma ring_seg_nth [simp]: "i < k \<Longrightarrow> ring_seg q r k ! i = q ! ((r + i) mod length q)"
  by (simp add: ring_seg_def)

lemma ring_seg_add:
  "ring_seg q r (a + b) = ring_seg q r a @ ring_seg q ((r + a) mod length q) b"
proof (rule nth_equalityI)
  fix i assume i: "i < length (ring_seg q r (a + b))"
  show "ring_seg q r (a + b) ! i = (ring_seg q r a @ ring_seg q ((r + a) mod length q) b) ! i"
  proof (cases "i < a")
    case True
    then show ?thesis by (simp add: nth_append)
  next
    case False
    have "((r + a) mod length q + (i - a)) mod length q = (r + a + (i - a)) mod length q"
      by (rule mod_add_left_eq)
    with False i show ?thesis by (simp add: nth_append)
  qed
qed simp

lemma ring_seg_take: "j \<le> k \<Longrightarrow> take j (ring_seg q r k) = ring_seg q r j"
  by (simp add: ring_seg_def take_map)

lemma ring_seg_drop:
  assumes "j \<le> k"
  shows "drop j (ring_seg q r k) = ring_seg q ((r + j) mod length q) (k - j)"
proof -
  have "ring_seg q r k = ring_seg q r j @ ring_seg q ((r + j) mod length q) (k - j)"
    using ring_seg_add [of q r j "k - j"] assms by simp
  then show ?thesis by simp
qed

lemma ring_seg_linear: "r + k \<le> length q \<Longrightarrow> ring_seg q r k = take k (drop r q)"
  by (rule nth_equalityI) auto

lemma ring_seg_wrap:
  assumes "r < length q" "k \<le> length q" "length q \<le> r + k"
  shows "ring_seg q r k = drop r q @ take (r + k - length q) q"
proof -
  let ?n = "length q"
  have "ring_seg q r (?n - r + (r + k - ?n))
      = ring_seg q r (?n - r) @ ring_seg q ((r + (?n - r)) mod ?n) (r + k - ?n)"
    by (rule ring_seg_add)
  moreover have "?n - r + (r + k - ?n) = k" using assms by simp
  ultimately show ?thesis using assms by (simp add: ring_seg_linear)
qed

text \<open>\<open>ring_put q w xs\<close>: \<open>xs\<close> written circularly from index \<open>w\<close> on.\<close>

definition ring_put :: "'a list \<Rightarrow> nat \<Rightarrow> 'a list \<Rightarrow> 'a list" where
  "ring_put q w xs =
     map (\<lambda>j. let d = (j + length q - w) mod length q
              in if d < length xs then xs ! d else q ! j) [0..<length q]"

lemma length_ring_put [simp]: "length (ring_put q w xs) = length q"
  by (simp add: ring_put_def)

lemma ring_dist:
  fixes w i n :: nat
  assumes "w < n" "i < n"
  shows "((w + i) mod n + n - w) mod n = i"
proof (cases "w + i < n")
  case True
  then show ?thesis using assms by (simp add: algebra_simps)
next
  case False
  then have "(w + i) mod n = w + i - n" using assms by (simp add: mod_if)
  then show ?thesis using assms False by simp
qed

lemma ring_put_nth:
  assumes "j < length q"
  shows "ring_put q w xs ! j =
    (let d = (j + length q - w) mod length q in if d < length xs then xs ! d else q ! j)"
  using assms by (simp add: ring_put_def Let_def)

lemma ring_put_nth_le:
  assumes "j < length q" "w < length q"
  shows "ring_put q w xs ! j =
    (if w \<le> j then (if j - w < length xs then xs ! (j - w) else q ! j)
     else (if j + length q - w < length xs then xs ! (j + length q - w) else q ! j))"
proof -
  have "(j + length q - w) mod length q = (if w \<le> j then j - w else j + length q - w)"
  proof (cases "w \<le> j")
    case True
    then have "j + length q - w = (j - w) + length q" by simp
    then have "(j + length q - w) mod length q = (j - w) mod length q"
      by (metis mod_add_self2)
    with True assms show ?thesis by simp
  qed (use assms in simp)
  then show ?thesis by (simp add: ring_put_nth [OF assms(1)])
qed

lemma ring_seg_put_same:
  assumes "w < length q" "length xs \<le> length q"
  shows "ring_seg (ring_put q w xs) w (length xs) = xs"
proof (rule nth_equalityI)
  fix i assume "i < length (ring_seg (ring_put q w xs) w (length xs))"
  then have i: "i < length xs" by simp
  have d: "((w + i) mod length q + length q - w) mod length q = i"
    using assms i by (intro ring_dist) auto
  have "(w + i) mod length q < length q" using assms by (intro mod_less_divisor) auto
  then have "ring_put q w xs ! ((w + i) mod length q) = xs ! i"
    using i by (simp add: ring_put_nth d)
  then show "ring_seg (ring_put q w xs) w (length xs) ! i = xs ! i"
    using i by simp
qed simp

lemma ring_seg_put_before:
  assumes "r < length q" "k + length xs \<le> length q"
  shows "ring_seg (ring_put q ((r + k) mod length q) xs) r k = ring_seg q r k"
proof (rule nth_equalityI)
  let ?n = "length q" let ?w = "(r + k) mod length q"
  fix i assume "i < length (ring_seg (ring_put q ?w xs) r k)"
  then have i: "i < k" by simp
  define d where "d = ?n - k + i"
  have d: "d < ?n" "length xs \<le> d" using i assms by (auto simp: d_def)
  have pos: "?w < ?n" "(r + i) mod ?n < ?n" using assms by (auto intro: mod_less_divisor)
  have "(?w + d) mod ?n = (r + k + d) mod ?n" by (simp add: mod_simps)
  also have "r + k + d = r + i + ?n" using assms i by (simp add: d_def)
  finally have eq: "(?w + d) mod ?n = (r + i) mod ?n" by simp
  have "((r + i) mod ?n + ?n - ?w) mod ?n = d"
    using ring_dist [OF pos(1) d(1)] by (simp only: eq)
  then have "ring_put q ?w xs ! ((r + i) mod ?n) = q ! ((r + i) mod ?n)"
    using d by (simp add: ring_put_nth [OF pos(2)])
  then show "ring_seg (ring_put q ?w xs) r k ! i = ring_seg q r k ! i"
    using i by simp
qed simp

lemma ring_put_linear:
  assumes "w + length xs \<le> length q" "w < length q"
  shows "take w q @ xs @ drop (w + length xs) q = ring_put q w xs"
proof (rule nth_equalityI)
  fix j assume "j < length (take w q @ xs @ drop (w + length xs) q)"
  then have j: "j < length q" using assms by simp
  consider "j < w" "\<not> j + length q - w < length xs" | "w \<le> j" "j - w < length xs"
    | "w \<le> j" "\<not> j - w < length xs" using assms by linarith
  then show "(take w q @ xs @ drop (w + length xs) q) ! j = ring_put q w xs ! j"
    using assms j
    by cases (simp_all add: ring_put_nth_le [OF j assms(2)] nth_append)
qed (use assms in simp)

lemma ring_put_wrap:
  assumes "w < length q" "length xs \<le> length q" "length q - w \<le> length xs"
  shows "drop (length q - w) xs @
           drop (length xs - (length q - w)) (take w q @ take (length q - w) xs)
       = ring_put q w xs" (is "?l = _")
proof (rule nth_equalityI)
  fix j assume "j < length ?l"
  then have j: "j < length q" using assms by simp
  consider "w \<le> j" | "j < w" "j + length q - w < length xs"
    | "j < w" "\<not> j + length q - w < length xs" by linarith
  then show "?l ! j = ring_put q w xs ! j"
    using assms j
    by cases (auto simp add: ring_put_nth_le [OF j assms(1)] nth_append intro!: arg_cong [where f = "(!) xs"])
qed (use assms in simp)

lemma mem_dst_ring_linear [mem_ok]:
  "w + length xs \<le> length q \<Longrightarrow> w < length q \<Longrightarrow> mem_dst q w xs = Some (ring_put q w xs)"
  by (simp add: mem_dst_def ring_put_linear)

lemma mem_dst_ring_wrap [mem_ok]:
  assumes "w < length q" "length xs \<le> length q" "length q - w \<le> length xs"
  shows "Option.bind (mem_dst q w (take (length q - w) xs))
           (\<lambda>q1. mem_dst q1 0 (drop (length q - w) xs)) = Some (ring_put q w xs)"
  using assms ring_put_wrap [OF assms] by (simp add: mem_dst_def min_absorb2)

lemma mem_src_ring_linear [mem_ok]:
  "r + k \<le> length q \<Longrightarrow> mem_src q r k = Some (ring_seg q r k)"
  by (simp add: mem_src_def ring_seg_linear)

lemma mem_src_ring_wrap [mem_ok]:
  assumes "r < length q" "k \<le> length q" "length q - r \<le> k"
  shows "do { y1 \<leftarrow> mem_src q r (length q - r); y2 \<leftarrow> mem_src q 0 (k - (length q - r));
              Some (y1 @ y2) } = Some (ring_seg q r k)"
proof -
  have "k - (length q - r) = r + k - length q" "r + k - length q \<le> length q"
    using assms by linarith+
  then show ?thesis using assms by (simp add: mem_src_def ring_seg_wrap)
qed

lemma mem_src_0 [mem_ok]: "n \<le> length xs \<Longrightarrow> mem_src xs 0 n = Some (take n xs)"
  by (simp add: mem_src_def)

section \<open>Counting\<close>

text \<open>How many elements of a list, the threads of a system for one, satisfy a predicate.\<close>

definition num :: "('a \<Rightarrow> bool) \<Rightarrow> 'a list \<Rightarrow> int" where
  "num P ts = int (length (filter P ts))"

lemma num_update:
  assumes "i < length ts"
  shows "num P (ts[i := p]) = num P ts - (if P (ts ! i) then 1 else 0) + (if P p then 1 else 0)"
proof -
  have s: "ts = take i ts @ ts ! i # drop (Suc i) ts" using assms by (rule id_take_nth_drop)
  have "num P (ts[i := p]) = num P (take i ts) + (if P p then 1 else 0) + num P (drop (Suc i) ts)"
    using assms by (simp add: num_def upd_conv_take_nth_drop)
  moreover have "num P ts = num P (take i ts) + (if P (ts ! i) then 1 else 0) + num P (drop (Suc i) ts)"
    by (subst s) (simp add: num_def)
  ultimately show ?thesis by simp
qed

lemma num_nonneg [simp]: "0 \<le> num P ts"
  by (simp add: num_def)

lemma num_pos: "i < length ts \<Longrightarrow> P (ts ! i) \<Longrightarrow> 0 < num P ts"
  by (auto simp: num_def filter_empty_conv)

lemma num_le_length: "num P ts \<le> int (length ts)"
  by (simp add: num_def)

lemma num_0: "num P ts = 0 \<longleftrightarrow> (\<forall>i < length ts. \<not> P (ts ! i))"
  by (simp add: num_def filter_empty_conv all_set_conv_all_nth)

lemma num_replicate: "num P (replicate n x) = (if P x then int n else 0)"
  by (simp add: num_def filter_replicate)

lemma num_two:
  assumes "i < length ts" "j < length ts" "i \<noteq> j" "P (ts ! i)" "P (ts ! j)"
  shows "2 \<le> num P ts"
proof -
  have "card {i, j} \<le> card {k. k < length ts \<and> P (ts ! k)}" using assms by (intro card_mono) auto
  then show ?thesis using assms(3) by (simp add: num_def length_filter_conv_card)
qed

end
