(* ===== verification/Fifo.thy ===== *)
theory Fifo
  imports Prelude
begin

text \<open>
  The contract of a byte (or element) stream buffer, as the callers of the SDK's ring
  buffers use it: a write appends a prefix of what it is offered and reports its length, a
  read removes a prefix of what is stored. The client theorem is the one a producer and a
  consumer rely on: over any interleaving of writes and reads the bytes come out exactly
  as they went in, none lost, duplicated or reordered.
\<close>

datatype 'a fifo_op = Wr "'a list" | Rd nat

text \<open>
  A run of operations, with the elements accepted by the writes and delivered by the reads
  collected in order; \<open>None\<close> if an operation traps.
\<close>

fun fifo_run :: "('s \<Rightarrow> 'a list \<Rightarrow> (nat \<times> 's) option) \<Rightarrow> ('s \<Rightarrow> nat \<Rightarrow> ('a list \<times> 's) option)
    \<Rightarrow> 's \<Rightarrow> 'a fifo_op list \<Rightarrow> ('a list \<times> 'a list \<times> 's) option" where
  "fifo_run wr rd s [] = Some ([], [], s)"
| "fifo_run wr rd s (Wr xs # ops) =
     do { (k, s1) \<leftarrow> wr s xs;
          (acc, got, s2) \<leftarrow> fifo_run wr rd s1 ops;
          Some (take k xs @ acc, got, s2) }"
| "fifo_run wr rd s (Rd n # ops) =
     do { (ys, s1) \<leftarrow> rd s n;
          (acc, got, s2) \<leftarrow> fifo_run wr rd s1 ops;
          Some (acc, ys @ got, s2) }"

locale stream_fifo =
  fixes inv :: "'s \<Rightarrow> bool"
    and contents :: "'s \<Rightarrow> 'a list"
    and wr :: "'s \<Rightarrow> 'a list \<Rightarrow> (nat \<times> 's) option"
    and rd :: "'s \<Rightarrow> nat \<Rightarrow> ('a list \<times> 's) option"
  assumes wr_law: "inv s \<Longrightarrow> \<exists>k s'. wr s xs = Some (k, s') \<and> inv s' \<and>
                     contents s' = contents s @ take k xs"
    and rd_law: "inv s \<Longrightarrow> \<exists>j s'. rd s n = Some (take j (contents s), s') \<and> inv s' \<and> j \<le> n \<and>
                     contents s' = drop j (contents s)"
begin

lemma run_conserves:
  "inv s \<Longrightarrow> \<exists>acc got s'. fifo_run wr rd s ops = Some (acc, got, s') \<and> inv s' \<and>
     contents s @ acc = got @ contents s'"
proof (induction ops arbitrary: s)
  case Nil
  then show ?case by simp
next
  case (Cons op ops)
  show ?case
  proof (cases op)
    case (Wr xs)
    obtain k s1 where w: "wr s xs = Some (k, s1)" "inv s1" "contents s1 = contents s @ take k xs"
      using wr_law [OF Cons.prems] by blast
    from Cons.IH [OF w(2)] obtain acc got s' where
      "fifo_run wr rd s1 ops = Some (acc, got, s')" "inv s'" "contents s1 @ acc = got @ contents s'"
      by blast
    with Wr w show ?thesis by simp
  next
    case (Rd n)
    obtain j s1 where r: "rd s n = Some (take j (contents s), s1)" "inv s1"
        "contents s1 = drop j (contents s)"
      using rd_law [OF Cons.prems] by blast
    from Cons.IH [OF r(2)] obtain acc got s' where
      ih: "fifo_run wr rd s1 ops = Some (acc, got, s')" "inv s'" "contents s1 @ acc = got @ contents s'"
      by blast
    then have "contents s @ acc = (take j (contents s) @ got) @ contents s'"
      using r(3) by (metis append.assoc append_take_drop_id)
    with Rd r ih show ?thesis by simp
  qed
qed

lemma run_from_empty:
  assumes "inv s" "contents s = []"
  shows "\<exists>acc got s'. fifo_run wr rd s ops = Some (acc, got, s') \<and> inv s' \<and>
     acc = got @ contents s'"
  using run_conserves [OF assms(1), of ops] assms(2) by simp

end

end
