(* ===== verification/RingBuffer.thy ===== *)
theory RingBuffer
  imports Fifo
begin

text \<open>
  The ring buffer of the SDK: the macros of \<open>sdk/include/lib/common/rbuffer.h\<close>
  (\<open>RB_NPOS\<close> to \<open>RB_INIT_R\<close>), used for queues of pointers, and the byte buffer of
  \<open>sdk/lib/common/rbuffer.c\<close> built on the same fields. Positions are 32-bit words, as in
  the code. The array \<open>rbq\<close> is \<open>None\<close> for a NULL pointer; a freed array has no cell left
  (\<open>Some []\<close>), so that every access to it traps.

  A section between \<open>disable_irq\<close> and \<open>enable_irq\<close> is one step of the model.
\<close>

section \<open>The structure and the macros\<close>

record 'a ring =
  rpos :: u32
  wpos :: u32
  qsize :: u32
  rbq :: "'a list option"

record rbuffer = "u8 ring" +
  bpos :: u32

definition RB_NPOS :: "('a, 'b) ring_scheme \<Rightarrow> u32 \<Rightarrow> u32 \<Rightarrow> u32" where
  "RB_NPOS rb pos i = (if pos + i \<ge> qsize rb then pos + i - qsize rb else pos + i)"

definition RB_EMPTY :: "('a, 'b) ring_scheme \<Rightarrow> bool" where
  "RB_EMPTY rb \<longleftrightarrow> wpos rb = rpos rb"

definition RB_FULL :: "('a, 'b) ring_scheme \<Rightarrow> bool" where
  "RB_FULL rb \<longleftrightarrow>
     (let r = rpos rb; w = wpos rb + 1
      in (if w \<ge> qsize rb then w - qsize rb else w) = r)"

definition RB_COUNT :: "('a, 'b) ring_scheme \<Rightarrow> u32" where
  "RB_COUNT rb =
     (let r = rpos rb; w = wpos rb in if r \<le> w then w - r else qsize rb - r + w)"

definition RB_IDLE :: "('a, 'b) ring_scheme \<Rightarrow> u32" where
  "RB_IDLE rb =
     (let r = rpos rb; w = wpos rb in if w < r then r - w - 1 else qsize rb - w + r - 1)"

definition RB_GET :: "('a, 'b) ring_scheme \<Rightarrow> ('a option \<times> ('a, 'b) ring_scheme) option" where
  "RB_GET rb =
     (if \<not> RB_EMPTY rb then
        do { q \<leftarrow> rbq rb;
             v \<leftarrow> mem_rd q (unat (rpos rb));
             Some (Some v, rb\<lparr>rpos := RB_NPOS rb (rpos rb) 1\<rparr>) }
      else Some (None, rb))"

definition RB_SET :: "('a, 'b) ring_scheme \<Rightarrow> 'a \<Rightarrow> (bool \<times> ('a, 'b) ring_scheme) option" where
  "RB_SET rb v =
     (if \<not> RB_FULL rb then
        do { q \<leftarrow> rbq rb;
             q' \<leftarrow> mem_wr q (unat (wpos rb)) v;
             Some (True, rb\<lparr>rbq := Some q', wpos := RB_NPOS rb (wpos rb) 1\<rparr>) }
      else Some (False, rb))"

definition RB_SET_F :: "('a, 'b) ring_scheme \<Rightarrow> 'a \<Rightarrow> ('a, 'b) ring_scheme option" where
  "RB_SET_F rb v =
     (let rb1 = (if RB_FULL rb then rb\<lparr>rpos := RB_NPOS rb (rpos rb) 1\<rparr> else rb)
      in do { q \<leftarrow> rbq rb1;
              q' \<leftarrow> mem_wr q (unat (wpos rb1)) v;
              Some (rb1\<lparr>rbq := Some q', wpos := RB_NPOS rb1 (wpos rb1) 1\<rparr>) })"

definition RB_INIT_R :: "('a, 'b) ring_scheme \<Rightarrow> u32 \<Rightarrow> 'a list option \<Rightarrow> ('a, 'b) ring_scheme" where
  "RB_INIT_R rb sz buff = rb\<lparr>qsize := sz, rpos := 0, wpos := 0, rbq := buff\<rparr>"

definition RB_RESET :: "('a, 'b) ring_scheme \<Rightarrow> ('a, 'b) ring_scheme" where
  "RB_RESET rb = rb\<lparr>rpos := 0, wpos := 0\<rparr>"

section \<open>The byte buffer\<close>

definition rbuffer_init :: "u32 \<Rightarrow> u8 list option \<Rightarrow> (int \<times> rbuffer) option" where
  "rbuffer_init sz buff =
     do { assert_that (buff \<noteq> None \<and> sz > 1);
          Some (RET_OK, \<lparr>rpos = 0, wpos = 0, qsize = sz, rbq = buff, bpos = - 1\<rparr>) }"

definition rbuffer_reset :: "rbuffer \<Rightarrow> rbuffer" where
  "rbuffer_reset rb = rb\<lparr>wpos := 0, rpos := 0\<rparr>"

definition rbuffer_destroy :: "rbuffer \<Rightarrow> rbuffer" where
  "rbuffer_destroy rb = (rbuffer_reset rb)\<lparr>qsize := 0\<rparr>"

text \<open>\<open>rbuffer_set rb data n\<close>: \<open>data\<close> is the object the caller's pointer points at.\<close>

definition rbuffer_set :: "rbuffer \<Rightarrow> u8 list \<Rightarrow> u32 \<Rightarrow> (int \<times> rbuffer) option" where
  "rbuffer_set rb data n =
     (case rbq rb of
        None \<Rightarrow> Some (- ENOBUFS, rb)
      | Some q \<Rightarrow>
          (let r = rpos rb; w = wpos rb;
               len = (if w < r then r - w - 1 else qsize rb - w + r - 1)
           in if len < n then Some (- ENOBUFS, rb)
              else do {
                q' \<leftarrow>
                  (if w < r then do { s \<leftarrow> mem_src data 0 (unat n); mem_dst q (unat w) s }
                   else
                     (let len = qsize rb - w
                      in if len < n then
                           do { s1 \<leftarrow> mem_src data 0 (unat len);
                                q1 \<leftarrow> mem_dst q (unat w) s1;
                                s2 \<leftarrow> mem_src data (unat len) (unat (n - len));
                                mem_dst q1 0 s2 }
                         else do { s \<leftarrow> mem_src data 0 (unat n); mem_dst q (unat w) s }));
                (let w1 = w + n;
                     w2 = (if w1 \<ge> qsize rb then w1 - qsize rb else w1)
                 in Some (sint n, rb\<lparr>rbq := Some q', wpos := w2\<rparr>)) }))"

definition rbuffer_set_force :: "rbuffer \<Rightarrow> u8 list \<Rightarrow> u32 \<Rightarrow> (int \<times> rbuffer) option" where
  "rbuffer_set_force rb data n =
     (if rbq rb = None \<or> qsize rb - 1 < n then Some (- ENOBUFS, rb)
      else
        (let len = RB_IDLE rb;
             rb1 = (if len < n then rb\<lparr>rpos := RB_NPOS rb (rpos rb) (n - len)\<rparr> else rb)
         in rbuffer_set rb1 data n))"

text \<open>
  \<open>rbuffer_get\<close> returns the count, the bytes copied out (the caller's destination holds at
  least \<open>sz\<close> bytes) and the buffer. \<open>count\<close> and \<open>len\<close> are \<open>int32\<close> in the code: the
  comparison of the two is signed, the one with \<open>sz\<close> unsigned.
\<close>

definition rbuffer_get :: "rbuffer \<Rightarrow> u32 \<Rightarrow> (int \<times> u8 list \<times> rbuffer) option" where
  "rbuffer_get rb sz =
     (let r = rpos rb; w = wpos rb in
      case rbq rb of
        None \<Rightarrow> Some (0, [], rb)
      | Some q \<Rightarrow>
          (if r = w then Some (0, [], rb)
           else
             (let count0 = (if r \<le> w then w - r else qsize rb - r + w);
                  count = (if count0 > sz then sz else count0)
              in do {
                ys \<leftarrow>
                  (if r \<le> w then mem_src q (unat r) (unat count)
                   else
                     (let len = qsize rb - r
                      in if sint len \<ge> sint count then mem_src q (unat r) (unat count)
                         else do { y1 \<leftarrow> mem_src q (unat r) (unat len);
                                   y2 \<leftarrow> mem_src q 0 (unat (count - len));
                                   Some (y1 @ y2) }));
                (let r1 = r + count;
                     r2 = (if r1 \<ge> qsize rb then r1 - qsize rb else r1)
                 in Some (sint count, ys, rb\<lparr>rpos := r2\<rparr>)) })))"

definition rbuffer_set_block :: "rbuffer \<Rightarrow> u8 list \<Rightarrow> u32 \<Rightarrow> bool \<Rightarrow> (int \<times> rbuffer) option" where
  "rbuffer_set_block rb data n block =
     (let b = wpos rb in
      do { (ret, rb1) \<leftarrow> rbuffer_set rb data n;
           if word_of_int ret = n \<and> block then Some (ret, rb1\<lparr>bpos := b\<rparr>)
           else Some (ret, rb1) })"

definition rbuffer_get_block ::
  "rbuffer \<Rightarrow> u32 \<Rightarrow> (int \<times> u8 list \<times> bool \<times> rbuffer) option" where
  "rbuffer_get_block rb sz =
     (let block = (rpos rb = bpos rb);
          rb1 = (if block then rb\<lparr>bpos := - 1\<rparr> else rb)
      in do { (ret, ys, rb2) \<leftarrow> rbuffer_get rb1 sz; Some (ret, ys, block, rb2) })"

text \<open>\<open>mem\<close> is what \<open>os_malloc(sz)\<close> returned.\<close>

definition rbuffer_alloc :: "u32 \<Rightarrow> u8 list option \<Rightarrow> (int \<times> rbuffer) option" where
  "rbuffer_alloc sz mem =
     do { assert_that (mem \<noteq> None); rbuffer_init sz mem }"

definition rbuffer_free :: "rbuffer \<Rightarrow> rbuffer" where
  "rbuffer_free rb = rb\<lparr>qsize := 0, rbq := map_option (\<lambda>_. []) (rbq rb)\<rparr>"

section \<open>The invariant and the abstract contents\<close>

definition ring_inv :: "('a, 'b) ring_scheme \<Rightarrow> bool" where
  "ring_inv rb \<longleftrightarrow>
     (\<exists>q. rbq rb = Some q \<and> length q = unat (qsize rb)) \<and>
     rpos rb < qsize rb \<and> wpos rb < qsize rb \<and> unat (qsize rb) < 2 ^ 31"

definition ring_contents :: "('a, 'b) ring_scheme \<Rightarrow> 'a list" where
  "ring_contents rb =
     (case rbq rb of None \<Rightarrow> []
      | Some q \<Rightarrow> ring_seg q (unat (rpos rb)) (unat (RB_COUNT rb)))"

definition ring_count :: "nat \<Rightarrow> nat \<Rightarrow> nat \<Rightarrow> nat" where
  "ring_count n r w = (if r \<le> w then w - r else n - r + w)"

lemma ring_count_pos:
  "r < n \<Longrightarrow> w < n \<Longrightarrow> ring_count n r w < n"
  "r < n \<Longrightarrow> w < n \<Longrightarrow> (r + ring_count n r w) mod n = w"
  by (auto simp: ring_count_def)

lemma ring_count_advance_w:
  assumes "r < n" "w < n" "ring_count n r w + k < n"
  shows "ring_count n r (if n \<le> w + k then w + k - n else w + k) = ring_count n r w + k"
  using assms by (auto simp: ring_count_def split: if_splits)

lemma ring_count_advance_r:
  assumes "r < n" "w < n" "k \<le> ring_count n r w"
  shows "ring_count n (if n \<le> r + k then r + k - n else r + k) w = ring_count n r w - k"
  using assms by (auto simp: ring_count_def split: if_splits)

lemma wrap_mod: "a < n \<Longrightarrow> k < n \<Longrightarrow> (if n \<le> a + k then a + k - n else a + k) = (a + k) mod (n::nat)"
  by (simp add: mod_if)

section \<open>The macros on naturals\<close>

lemma ring_invE:
  assumes "ring_inv rb"
  obtains q where "rbq rb = Some q" "length q = unat (qsize rb)"
    "unat (rpos rb) < unat (qsize rb)" "unat (wpos rb) < unat (qsize rb)"
    "unat (qsize rb) < 2147483648"
  using assms by (auto simp: ring_inv_def word_cmp)

lemma unat_wrap_add:
  fixes p i n :: u32
  assumes "unat p < unat n" "unat i < unat n" "unat n < 2147483648"
  shows "unat (if p + i \<ge> n then p + i - n else p + i) = (unat p + unat i) mod unat n"
proof -
  have s: "unat (p + i) = unat p + unat i" using assms by (intro unat_add_small) simp
  show ?thesis
  proof (cases "n \<le> p + i")
    case True
    then have "unat n \<le> unat p + unat i" using s by (simp add: word_le_nat_alt)
    then show ?thesis using True s assms by (simp add: unat_sub_small mod_if)
  next
    case False
    then have "unat p + unat i < unat n" using s by (simp add: word_le_nat_alt)
    then show ?thesis using False s by simp
  qed
qed

lemma RB_NPOS_nat:
  assumes "unat p < unat (qsize rb)" "unat i < unat (qsize rb)" "unat (qsize rb) < 2147483648"
  shows "unat (RB_NPOS rb p i) = (unat p + unat i) mod unat (qsize rb)"
  using unat_wrap_add [OF assms] by (simp add: RB_NPOS_def)

lemma unat_ring_count:
  fixes r w n :: u32
  assumes "unat r < unat n" "unat w < unat n" "unat n < 2147483648"
  shows "unat (if r \<le> w then w - r else n - r + w) = ring_count (unat n) (unat r) (unat w)"
proof (cases "r \<le> w")
  case True
  then show ?thesis by (simp add: ring_count_def word_le_nat_alt unat_sub_small)
next
  case False
  have "unat (n - r) = unat n - unat r" using assms by (intro unat_sub_small) simp
  moreover have "unat (n - r + w) = unat (n - r) + unat w"
    using assms calculation by (intro unat_add_small) simp
  ultimately show ?thesis using False by (simp add: ring_count_def word_le_nat_alt)
qed

lemma unat_ring_idle:
  fixes r w n :: u32
  assumes "unat r < unat n" "unat w < unat n" "unat n < 2147483648"
  shows "unat (if w < r then r - w - 1 else n - w + r - 1)
       = unat n - 1 - ring_count (unat n) (unat r) (unat w)"
proof (cases "w < r")
  case True
  then have lt: "unat w < unat r" by (simp add: word_less_nat_alt)
  then have "unat (r - w) = unat r - unat w" by (intro unat_sub_small) simp
  then have "unat (r - w - 1) = unat r - unat w - 1"
    using lt by (subst unat_sub_small) auto
  then show ?thesis using True lt assms by (simp add: ring_count_def)
next
  case False
  then have le: "unat r \<le> unat w" by (simp add: word_less_nat_alt)
  have "unat (n - w) = unat n - unat w" using assms by (intro unat_sub_small) simp
  moreover have "unat (n - w + r) = unat (n - w) + unat r"
    using assms calculation by (intro unat_add_small) simp
  ultimately have "unat (n - w + r - 1) = unat n - unat w + unat r - 1"
    using assms by (subst unat_sub_small) auto
  then show ?thesis using False le assms by (simp add: ring_count_def)
qed

lemma RB_COUNT_nat:
  assumes "ring_inv rb"
  shows "unat (RB_COUNT rb) = ring_count (unat (qsize rb)) (unat (rpos rb)) (unat (wpos rb))"
  using assms by (elim ring_invE) (simp only: RB_COUNT_def Let_def unat_ring_count)

lemma RB_IDLE_nat:
  assumes "ring_inv rb"
  shows "unat (RB_IDLE rb)
    = unat (qsize rb) - 1 - ring_count (unat (qsize rb)) (unat (rpos rb)) (unat (wpos rb))"
  using assms by (elim ring_invE) (simp only: RB_IDLE_def Let_def unat_ring_idle)

lemma ring_contents_alt:
  assumes "ring_inv rb" "rbq rb = Some q"
  shows "ring_contents rb
    = ring_seg q (unat (rpos rb)) (ring_count (unat (qsize rb)) (unat (rpos rb)) (unat (wpos rb)))"
  using assms by (simp add: ring_contents_def RB_COUNT_nat)

lemma RB_FULL_nat:
  assumes "ring_inv rb"
  shows "RB_FULL rb \<longleftrightarrow>
    ring_count (unat (qsize rb)) (unat (rpos rb)) (unat (wpos rb)) + 1 = unat (qsize rb)"
proof -
  obtain q where I: "unat (rpos rb) < unat (qsize rb)" "unat (wpos rb) < unat (qsize rb)"
    "unat (qsize rb) < 2147483648" using assms by (elim ring_invE)
  have s: "unat (wpos rb + 1) = unat (wpos rb) + 1" using I by (subst unat_add_small) auto
  let ?e = "if wpos rb + 1 \<ge> qsize rb then wpos rb + 1 - qsize rb else wpos rb + 1"
  have "unat ?e = (if unat (qsize rb) \<le> unat (wpos rb) + 1 then 0 else unat (wpos rb) + 1)"
    using s I by (auto simp: word_le_nat_alt unat_sub_small)
  then show ?thesis
    using I by (auto simp: RB_FULL_def Let_def word_unat_eq_iff ring_count_def)
qed

lemma RB_EMPTY_nat:
  assumes "ring_inv rb"
  shows "RB_EMPTY rb \<longleftrightarrow> ring_contents rb = []"
proof -
  obtain q where "rbq rb = Some q" "unat (rpos rb) < unat (qsize rb)"
      "unat (wpos rb) < unat (qsize rb)"
    using assms by (elim ring_invE)
  then show ?thesis using assms
    by (auto simp: RB_EMPTY_def ring_contents_alt ring_seg_def ring_count_def word_unat_eq_iff)
qed

section \<open>The byte buffer keeps the invariant and is a queue\<close>

lemma rbuffer_set_reject:
  assumes "ring_inv rb"
    and "unat (qsize rb) - 1 - ring_count (unat (qsize rb)) (unat (rpos rb)) (unat (wpos rb)) < unat n"
  shows "rbuffer_set rb data n = Some (- ENOBUFS, rb)"
proof -
  obtain q where I: "rbq rb = Some q" "unat (rpos rb) < unat (qsize rb)"
    "unat (wpos rb) < unat (qsize rb)" "unat (qsize rb) < 2147483648"
    using assms(1) by (elim ring_invE)
  have "(if wpos rb < rpos rb then rpos rb - wpos rb - 1 else qsize rb - wpos rb + rpos rb - 1) < n"
    using assms(2) unat_ring_idle [OF I(2-4)] by (simp only: word_less_nat_alt)
  then show ?thesis by (simp only: rbuffer_set_def I option.case Let_def if_True)
qed

lemma rbuffer_set_accept:
  assumes inv: "ring_inv rb"
    and room: "unat n \<le> unat (qsize rb) - 1
                 - ring_count (unat (qsize rb)) (unat (rpos rb)) (unat (wpos rb))"
    and src: "unat n \<le> length data"
  shows "\<exists>q w'. rbq rb = Some q \<and>
    rbuffer_set rb data n =
      Some (uint n, rb\<lparr>rbq := Some (ring_put q (unat (wpos rb)) (take (unat n) data)),
                            wpos := w'\<rparr>) \<and>
    unat w' = (unat (wpos rb) + unat n) mod unat (qsize rb)"
proof -
  let ?N = "unat (qsize rb)" and ?r = "unat (rpos rb)" and ?w = "unat (wpos rb)" and ?n = "unat n"
  let ?xs = "take ?n data"
  obtain q where I: "rbq rb = Some q" "length q = ?N" "?r < ?N" "?w < ?N" "?N < 2147483648"
    using inv by (elim ring_invE)
  have xs: "length ?xs = ?n" using src by simp
  have nN: "?n < ?N" using room I by simp
  have idle: "\<not> (if wpos rb < rpos rb then rpos rb - wpos rb - 1
                  else qsize rb - wpos rb + rpos rb - 1) < n"
    using room unat_ring_idle [OF I(3-5)] by (simp only: word_less_nat_alt not_less)
  have qw: "unat (qsize rb - wpos rb) = ?N - ?w" using I by (intro unat_sub_small) simp
  have store: "(if wpos rb < rpos rb
       then do { s \<leftarrow> mem_src data 0 ?n; mem_dst q ?w s }
       else if qsize rb - wpos rb < n
            then do { s1 \<leftarrow> mem_src data 0 (unat (qsize rb - wpos rb));
                      q1 \<leftarrow> mem_dst q ?w s1;
                      s2 \<leftarrow> mem_src data (unat (qsize rb - wpos rb)) (unat (n - (qsize rb - wpos rb)));
                      mem_dst q1 0 s2 }
            else do { s \<leftarrow> mem_src data 0 ?n; mem_dst q ?w s })
     = Some (ring_put q ?w ?xs)"
  proof (cases "\<not> wpos rb < rpos rb \<and> qsize rb - wpos rb < n")
    case True
    then have lt: "?N - ?w < ?n" using qw by (simp add: word_less_nat_alt)
    have d: "unat (n - (qsize rb - wpos rb)) = ?n - (?N - ?w)"
      using lt qw by (subst unat_sub_small) auto
    have s1: "mem_src data 0 (?N - ?w) = Some (take (length q - ?w) ?xs)"
      using src lt I by (simp add: mem_src_def min_absorb2)
    have s2: "mem_src data (?N - ?w) (?n - (?N - ?w)) = Some (drop (length q - ?w) ?xs)"
      using src lt I by (simp add: mem_src_def drop_take)
    have "Option.bind (mem_dst q ?w (take (length q - ?w) ?xs))
           (\<lambda>q1. mem_dst q1 0 (drop (length q - ?w) ?xs)) = Some (ring_put q ?w ?xs)"
      using I xs lt nN by (intro mem_dst_ring_wrap) auto
    then show ?thesis using True by (simp add: qw d s1 s2)
  next
    case False
    have "?w + ?n \<le> ?N"
      using False room qw I by (auto simp: word_less_nat_alt ring_count_def split: if_splits)
    then have "mem_dst q ?w ?xs = Some (ring_put q ?w ?xs)"
      using I xs by (intro mem_dst_ring_linear) auto
    then show ?thesis using False src by (auto simp: mem_src_0)
  qed
  let ?w' = "if wpos rb + n \<ge> qsize rb then wpos rb + n - qsize rb else wpos rb + n"
  have w': "unat ?w' = (?w + ?n) mod ?N" using I nN by (intro unat_wrap_add) auto
  have si: "sint n = uint n" using nN I by (subst sint_small) auto
  have "rbuffer_set rb data n =
      Some (uint n, rb\<lparr>rbq := Some (ring_put q ?w ?xs), wpos := ?w'\<rparr>)"
    using idle store by (simp only: rbuffer_set_def I(1) option.case Let_def if_False bind.bind_lunit si)
  with w' I(1) show ?thesis by blast
qed

lemma ring_append:
  assumes inv: "ring_inv rb" and q: "rbq rb = Some q"
    and room: "ring_count (unat (qsize rb)) (unat (rpos rb)) (unat (wpos rb)) + length xs < unat (qsize rb)"
    and w': "unat w' = (unat (wpos rb) + length xs) mod unat (qsize rb)"
  shows "ring_inv (rb\<lparr>rbq := Some (ring_put q (unat (wpos rb)) xs), wpos := w'\<rparr>)"
    and "ring_contents (rb\<lparr>rbq := Some (ring_put q (unat (wpos rb)) xs), wpos := w'\<rparr>)
       = ring_contents rb @ xs"
proof -
  let ?N = "unat (qsize rb)" and ?r = "unat (rpos rb)" and ?w = "unat (wpos rb)"
  let ?c = "ring_count ?N ?r ?w" and ?rb' = "rb\<lparr>rbq := Some (ring_put q ?w xs), wpos := w'\<rparr>"
  have I: "length q = ?N" "?r < ?N" "?w < ?N" "?N < 2147483648"
    using inv q by (auto elim!: ring_invE)
  have lt: "unat w' < ?N" using w' I by simp
  show inv': "ring_inv ?rb'"
    using I lt by (simp add: ring_inv_def word_less_nat_alt)
  have cnt: "ring_count ?N ?r (unat w') = ?c + length xs"
    using ring_count_advance_w [OF I(2,3) room] room w' I
    by (subst (asm) wrap_mod) auto
  have "ring_contents ?rb' = ring_seg (ring_put q ?w xs) ?r (?c + length xs)"
    using ring_contents_alt [OF inv', of "ring_put q ?w xs"] cnt by simp
  also have "\<dots> = ring_seg (ring_put q ?w xs) ?r ?c @ ring_seg (ring_put q ?w xs) ?w (length xs)"
    using ring_count_pos(2) [OF I(2,3)] I by (simp add: ring_seg_add)
  also have "ring_seg (ring_put q ?w xs) ?w (length xs) = xs"
    using I room by (intro ring_seg_put_same) auto
  also have "ring_seg (ring_put q ?w xs) ?r ?c = ring_seg q ?r ?c"
    using ring_seg_put_before [of ?r q ?c xs] ring_count_pos(2) [OF I(2,3)] I room by simp
  finally show "ring_contents ?rb' = ring_contents rb @ xs"
    using inv q by (simp add: ring_contents_alt)
qed

lemma ring_remove:
  assumes inv: "ring_inv rb"
    and k: "k \<le> length (ring_contents rb)"
    and r': "unat r' = (unat (rpos rb) + k) mod unat (qsize rb)"
  shows "ring_inv (rb\<lparr>rpos := r'\<rparr>)"
    and "ring_contents (rb\<lparr>rpos := r'\<rparr>) = drop k (ring_contents rb)"
proof -
  let ?N = "unat (qsize rb)" and ?r = "unat (rpos rb)" and ?w = "unat (wpos rb)"
  let ?c = "ring_count ?N ?r ?w"
  obtain q where I: "rbq rb = Some q" "length q = ?N" "?r < ?N" "?w < ?N" "?N < 2147483648"
    using inv by (elim ring_invE)
  have lt: "unat r' < ?N" using r' I by simp
  show inv': "ring_inv (rb\<lparr>rpos := r'\<rparr>)"
    using I lt by (simp add: ring_inv_def word_less_nat_alt)
  have kc: "k \<le> ?c" using k inv I by (simp add: ring_contents_alt)
  then have "k < ?N" using ring_count_pos(1) [OF I(3,4)] by simp
  then have "ring_count ?N (unat r') ?w = ?c - k"
    using ring_count_advance_r [OF I(3,4) kc] r' I by (subst (asm) wrap_mod) auto
  then have "ring_contents (rb\<lparr>rpos := r'\<rparr>) = ring_seg q (unat r') (?c - k)"
    using ring_contents_alt [OF inv', of q] I by simp
  also have "\<dots> = drop k (ring_seg q ?r ?c)"
    using kc r' I by (simp add: ring_seg_drop)
  finally show "ring_contents (rb\<lparr>rpos := r'\<rparr>) = drop k (ring_contents rb)"
    using inv I by (simp add: ring_contents_alt)
qed

lemma length_ring_contents:
  assumes "ring_inv rb"
  shows "length (ring_contents rb)
    = ring_count (unat (qsize rb)) (unat (rpos rb)) (unat (wpos rb))"
    and "length (ring_contents rb) < unat (qsize rb)"
proof -
  obtain q where I: "rbq rb = Some q" "unat (rpos rb) < unat (qsize rb)"
    "unat (wpos rb) < unat (qsize rb)" using assms by (elim ring_invE)
  show *: "length (ring_contents rb)
    = ring_count (unat (qsize rb)) (unat (rpos rb)) (unat (wpos rb))"
    using assms I by (simp add: ring_contents_alt)
  show "length (ring_contents rb) < unat (qsize rb)"
    unfolding * using I by (intro ring_count_pos)
qed

text \<open>The functional behaviour of \<open>rbuffer_set\<close>: all or nothing.\<close>

lemma rbuffer_set_spec:
  assumes inv: "ring_inv rb" and src: "unat n \<le> length data"
  shows "if unat n + length (ring_contents rb) < unat (qsize rb)
    then \<exists>rb'. rbuffer_set rb data n = Some (uint n, rb') \<and> ring_inv rb' \<and>
           ring_contents rb' = ring_contents rb @ take (unat n) data \<and>
           qsize rb' = qsize rb \<and> rpos rb' = rpos rb \<and> bpos rb' = bpos rb
    else rbuffer_set rb data n = Some (- ENOBUFS, rb)"
proof (cases "unat n + length (ring_contents rb) < unat (qsize rb)")
  case True
  then have "unat n \<le> unat (qsize rb) - 1
      - ring_count (unat (qsize rb)) (unat (rpos rb)) (unat (wpos rb))"
    using length_ring_contents [OF inv] by linarith
  from rbuffer_set_accept [OF inv this src] obtain q w' where
    q: "rbq rb = Some q" and
    eq: "rbuffer_set rb data n =
      Some (uint n, rb\<lparr>rbq := Some (ring_put q (unat (wpos rb)) (take (unat n) data)),
                            wpos := w'\<rparr>)" and
    w': "unat w' = (unat (wpos rb) + unat n) mod unat (qsize rb)"
    by blast
  have len: "length (take (unat n) data) = unat n" using src by simp
  have "ring_count (unat (qsize rb)) (unat (rpos rb)) (unat (wpos rb))
      + length (take (unat n) data) < unat (qsize rb)"
    using True len length_ring_contents [OF inv] by simp
  from ring_append [OF inv q this] w' len eq True show ?thesis by simp
next
  case False
  then show ?thesis
    using rbuffer_set_reject [OF inv] length_ring_contents [OF inv] by simp
qed

text \<open>The functional behaviour of \<open>rbuffer_get\<close>: the oldest bytes, as many as asked for.\<close>

lemma rbuffer_get_spec:
  fixes sz :: u32
  assumes inv: "ring_inv rb"
  defines "k \<equiv> min (unat sz) (length (ring_contents rb))"
  shows "\<exists>rb'. rbuffer_get rb sz = Some (int k, take k (ring_contents rb), rb') \<and>
    ring_inv rb' \<and> ring_contents rb' = drop k (ring_contents rb) \<and> qsize rb' = qsize rb \<and>
    wpos rb' = wpos rb \<and> bpos rb' = bpos rb"
proof -
  let ?N = "unat (qsize rb)" and ?r = "unat (rpos rb)" and ?w = "unat (wpos rb)"
  let ?c = "ring_count ?N ?r ?w"
  obtain q where I: "rbq rb = Some q" "length q = ?N" "?r < ?N" "?w < ?N" "?N < 2147483648"
    using inv by (elim ring_invE)
  have c: "length (ring_contents rb) = ?c" "?c < ?N" using length_ring_contents [OF inv] by auto
  have con: "ring_contents rb = ring_seg q ?r ?c" using inv I by (simp add: ring_contents_alt)
  show ?thesis
  proof (cases "rpos rb = wpos rb")
    case True
    then have "ring_contents rb = []" using RB_EMPTY_nat [OF inv] by (simp add: RB_EMPTY_def)
    with True inv I(1) show ?thesis by (simp add: rbuffer_get_def k_def)
  next
    case False
    define count0 where "count0 = (if rpos rb \<le> wpos rb then wpos rb - rpos rb
                                   else qsize rb - rpos rb + wpos rb)"
    define count where "count = (if count0 > sz then sz else count0)"
    have "unat count0 = ?c" unfolding count0_def by (rule unat_ring_count [OF I(3-5)])
    then have ck: "unat count = k"
      by (auto simp: count_def k_def c word_less_nat_alt)
    have kc: "k \<le> ?c" by (simp add: k_def c)
    then have kN: "k \<le> ?c" "k < ?N" using c(2) by linarith+
    define len where "len = qsize rb - rpos rb"
    have lr: "unat len = ?N - ?r" unfolding len_def using I by (intro unat_sub_small) simp
    have sl: "sint len = int (?N - ?r)" using lr I by (subst sint_small) auto
    have sc: "sint count = int k" using ck kN I by (subst sint_small) auto
    have cmp: "sint count \<le> sint len \<longleftrightarrow> k \<le> ?N - ?r"
      unfolding sl sc by (rule of_nat_le_iff)
    have read: "(if rpos rb \<le> wpos rb then mem_src q ?r (unat count)
        else if sint count \<le> sint len then mem_src q ?r (unat count)
        else do { y1 \<leftarrow> mem_src q ?r (unat len); y2 \<leftarrow> mem_src q 0 (unat (count - len));
                  Some (y1 @ y2) }) = Some (ring_seg q ?r k)"
    proof (cases "rpos rb \<le> wpos rb \<or> sint count \<le> sint len")
      case True
      then have "?r + k \<le> length q"
        using kN I by (auto simp: cmp word_le_nat_alt ring_count_def)
      then have "mem_src q ?r k = Some (ring_seg q ?r k)" by (rule mem_src_ring_linear)
      with True show ?thesis by (auto simp: ck)
    next
      case False
      then have lt: "?N - ?r < k" by (simp add: cmp)
      then have "unat (count - len) = k - (?N - ?r)"
        using ck lr by (subst unat_sub_small) auto
      with False lt I kN mem_src_ring_wrap [of ?r q k] show ?thesis
        by (simp add: ck lr)
    qed
    define r' where "r' = (if rpos rb + count \<ge> qsize rb then rpos rb + count - qsize rb
                           else rpos rb + count)"
    have r': "unat r' = (?r + k) mod ?N"
      unfolding r'_def using unat_wrap_add [OF I(3) _ I(5), of count] ck kN by simp
    have "rbuffer_get rb sz =
      Option.bind (if rpos rb \<le> wpos rb then mem_src q ?r (unat count)
        else if sint count \<le> sint len then mem_src q ?r (unat count)
        else do { y1 \<leftarrow> mem_src q ?r (unat len); y2 \<leftarrow> mem_src q 0 (unat (count - len));
                  Some (y1 @ y2) })
        (\<lambda>ys. Some (sint count, ys, rb\<lparr>rpos := r'\<rparr>))"
      unfolding count_def count0_def len_def r'_def
      by (simp only: rbuffer_get_def Let_def option.case I(1) False if_False)
    then have "rbuffer_get rb sz = Some (sint count, ring_seg q ?r k, rb\<lparr>rpos := r'\<rparr>)"
      by (simp only: read bind.bind_lunit)
    then have "rbuffer_get rb sz = Some (int k, ring_seg q ?r k, rb\<lparr>rpos := r'\<rparr>)"
      by (simp only: sc)
    moreover have "ring_seg q ?r k = take k (ring_contents rb)"
      using kN by (simp add: con ring_seg_take)
    moreover have "k \<le> length (ring_contents rb)" using kN c by simp
    ultimately show ?thesis using ring_remove [OF inv _ r'] by simp
  qed
qed

lemma rbuffer_set_force_spec:
  assumes inv: "ring_inv rb" and n: "unat n < unat (qsize rb)" and src: "unat n \<le> length data"
  shows "\<exists>rb'. rbuffer_set_force rb data n = Some (uint n, rb') \<and> ring_inv rb' \<and>
    qsize rb' = qsize rb \<and>
    ring_contents rb' =
      drop (length (ring_contents rb) + unat n - (unat (qsize rb) - 1)) (ring_contents rb)
      @ take (unat n) data"
proof -
  let ?N = "unat (qsize rb)" and ?c = "length (ring_contents rb)"
  obtain q where I: "rbq rb = Some q" "unat (rpos rb) < ?N" "?N < 2147483648"
    using inv by (elim ring_invE)
  have c: "?c < ?N" using length_ring_contents [OF inv] by simp
  have idle: "unat (RB_IDLE rb) = ?N - 1 - ?c"
    using RB_IDLE_nat [OF inv] length_ring_contents [OF inv] by simp
  have q1: "unat (qsize rb - 1) = ?N - 1" using n by (subst unat_sub_small) auto
  then have ok: "\<not> (rbq rb = None \<or> qsize rb - 1 < n)"
    using I n by (simp add: word_less_nat_alt)
  define rb1 where "rb1 = (if RB_IDLE rb < n then rb\<lparr>rpos := RB_NPOS rb (rpos rb) (n - RB_IDLE rb)\<rparr>
                           else rb)"
  define k where "k = ?c + unat n - (?N - 1)"
  have "ring_inv rb1 \<and> ring_contents rb1 = drop k (ring_contents rb) \<and> qsize rb1 = qsize rb"
  proof (cases "RB_IDLE rb < n")
    case True
    then have lt: "?N - 1 - ?c < unat n" using idle by (simp add: word_less_nat_alt)
    have "unat (n - RB_IDLE rb) = k"
      using idle lt c n by (subst unat_sub_small) (auto simp: k_def)
    then have "unat (RB_NPOS rb (rpos rb) (n - RB_IDLE rb)) = (unat (rpos rb) + k) mod ?N"
      using I n c by (subst RB_NPOS_nat) (auto simp: k_def)
    moreover have "k \<le> ?c" using n by (simp add: k_def)
    ultimately show ?thesis
      using ring_remove [OF inv] True by (simp add: rb1_def)
  next
    case False
    then have "k = 0" using idle c by (auto simp: k_def word_less_nat_alt)
    with False inv show ?thesis by (simp add: rb1_def)
  qed
  then have b1: "ring_inv rb1" "ring_contents rb1 = drop k (ring_contents rb)"
    "qsize rb1 = qsize rb" by simp_all
  have fit: "unat n + length (ring_contents rb1) < unat (qsize rb1)"
    using n c by (auto simp: b1 k_def)
  have "rbuffer_set_force rb data n = rbuffer_set rb1 data n"
    using ok by (simp only: rbuffer_set_force_def if_False Let_def rb1_def)
  moreover obtain rb' where "rbuffer_set rb1 data n = Some (uint n, rb')" "ring_inv rb'"
    "ring_contents rb' = ring_contents rb1 @ take (unat n) data" "qsize rb' = qsize rb1"
    using rbuffer_set_spec [OF b1(1) src] fit by auto
  ultimately show ?thesis unfolding k_def [symmetric] by (simp add: b1)
qed

lemma rbuffer_init_inv:
  assumes "1 < sz" "unat sz < 2 ^ 31" "length buff = unat sz"
  shows "\<exists>rb. rbuffer_init sz (Some buff) = Some (RET_OK, rb) \<and> ring_inv rb \<and>
    ring_contents rb = [] \<and> qsize rb = sz"
proof -
  have "0 < sz" using assms(1) by (simp add: word_less_nat_alt)
  then show ?thesis using assms
    by (simp add: rbuffer_init_def ring_inv_def ring_contents_def RB_COUNT_def)
qed

section \<open>The pointer queue of the macros\<close>

lemma RB_SET_spec:
  assumes inv: "ring_inv rb"
  shows "if length (ring_contents rb) + 1 < unat (qsize rb)
    then \<exists>rb'. RB_SET rb v = Some (True, rb') \<and> ring_inv rb' \<and>
           ring_contents rb' = ring_contents rb @ [v] \<and> qsize rb' = qsize rb
    else RB_SET rb v = Some (False, rb)"
proof -
  let ?N = "unat (qsize rb)" and ?w = "unat (wpos rb)"
  obtain q where I: "rbq rb = Some q" "length q = ?N" "?w < ?N" "?N < 2147483648"
    using inv by (elim ring_invE)
  have c: "length (ring_contents rb) = ring_count ?N (unat (rpos rb)) ?w"
      "length (ring_contents rb) < ?N"
    using length_ring_contents [OF inv] by auto
  show ?thesis
  proof (cases "length (ring_contents rb) + 1 < ?N")
    case True
    then have nf: "\<not> RB_FULL rb" using RB_FULL_nat [OF inv] c by simp
    have wr: "mem_wr q ?w v = Some (ring_put q ?w [v])"
    proof -
      have "ring_put q ?w [v] = take ?w q @ [v] @ drop (Suc ?w) q"
        using ring_put_linear [of ?w "[v]" q] I by simp
      then show ?thesis using I by (simp add: mem_wr_def upd_conv_take_nth_drop)
    qed
    have "unat (1 :: u32) < ?N" using True by simp
    then have w': "unat (RB_NPOS rb (wpos rb) 1) = (?w + length [v]) mod ?N"
      using I by (subst RB_NPOS_nat) auto
    have "RB_SET rb v = Some (True, rb\<lparr>rbq := Some (ring_put q ?w [v]),
                                       wpos := RB_NPOS rb (wpos rb) 1\<rparr>)"
      using nf I(1) wr by (simp add: RB_SET_def)
    then show ?thesis
      using ring_append [OF inv I(1) _ w'] True c by simp
  next
    case False
    then have "RB_FULL rb" using RB_FULL_nat [OF inv] c by simp
    with False show ?thesis by (simp add: RB_SET_def)
  qed
qed

lemma RB_GET_spec:
  assumes inv: "ring_inv rb"
  shows "case ring_contents rb of
      [] \<Rightarrow> RB_GET rb = Some (None, rb)
    | v # vs \<Rightarrow> \<exists>rb'. RB_GET rb = Some (Some v, rb') \<and> ring_inv rb' \<and> ring_contents rb' = vs \<and>
        qsize rb' = qsize rb"
proof (cases "ring_contents rb")
  case Nil
  then show ?thesis using RB_EMPTY_nat [OF inv] by (simp add: RB_GET_def)
next
  case (Cons v vs)
  let ?N = "unat (qsize rb)" and ?r = "unat (rpos rb)"
  obtain q where I: "rbq rb = Some q" "length q = ?N" "?r < ?N" "?N < 2147483648"
    using inv by (elim ring_invE)
  have ne: "\<not> RB_EMPTY rb" using RB_EMPTY_nat [OF inv] Cons by simp
  have len: "Suc (length vs) = ring_count ?N ?r (unat (wpos rb))" "Suc (length vs) < ?N"
    using length_ring_contents [OF inv] Cons by auto
  have "0 < ring_count ?N ?r (unat (wpos rb))" using len(1) by linarith
  then have "ring_contents rb ! 0 = q ! ?r"
    using ring_contents_alt [OF inv I(1)] I by simp
  then have v: "q ! ?r = v" using Cons by simp
  have "unat (1 :: u32) < ?N" using len by simp
  then have r': "unat (RB_NPOS rb (rpos rb) 1) = (?r + 1) mod ?N"
    using I by (subst RB_NPOS_nat) auto
  have "RB_GET rb = Some (Some v, rb\<lparr>rpos := RB_NPOS rb (rpos rb) 1\<rparr>)"
    using ne I v by (simp add: RB_GET_def mem_rd_ok)
  then show ?thesis using ring_remove [OF inv _ r'] Cons by simp
qed

section \<open>Both are stream buffers\<close>

definition rbuffer_write :: "rbuffer \<Rightarrow> u8 list \<Rightarrow> (nat \<times> rbuffer) option" where
  "rbuffer_write rb xs =
     map_option (\<lambda>(ret, rb'). (nat ret, rb')) (rbuffer_set rb xs (word_of_nat (length xs)))"

definition rbuffer_read :: "rbuffer \<Rightarrow> nat \<Rightarrow> (u8 list \<times> rbuffer) option" where
  "rbuffer_read rb k =
     map_option (\<lambda>(ret, ys, rb'). (ys, rb')) (rbuffer_get rb (word_of_nat k))"

definition RB_write :: "'a ring \<Rightarrow> 'a list \<Rightarrow> (nat \<times> 'a ring) option" where
  "RB_write rb xs =
     (case xs of [] \<Rightarrow> Some (0, rb)
      | v # _ \<Rightarrow> map_option (\<lambda>(ok, rb'). (of_bool ok, rb')) (RB_SET rb v))"

definition RB_read :: "'a ring \<Rightarrow> nat \<Rightarrow> ('a list \<times> 'a ring) option" where
  "RB_read rb k =
     (if k = 0 then Some ([], rb)
      else map_option (\<lambda>(v, rb'). (case v of None \<Rightarrow> [] | Some x \<Rightarrow> [x], rb')) (RB_GET rb))"

lemma unat_of_nat_le: "unat (word_of_nat k :: u32) \<le> k"
  by (simp add: unat_of_nat)

interpretation rbuf: stream_fifo ring_inv ring_contents rbuffer_write rbuffer_read
proof (unfold_locales, goal_cases)
  case (1 rb xs)
  let ?n = "word_of_nat (length xs) :: u32"
  show ?case
  proof (cases "unat ?n + length (ring_contents rb) < unat (qsize rb)")
    case True
    then obtain rb' where "rbuffer_set rb xs ?n = Some (uint ?n, rb')" "ring_inv rb'"
      "ring_contents rb' = ring_contents rb @ take (unat ?n) xs"
      using rbuffer_set_spec [OF 1 unat_of_nat_le, of xs] by (simp only: if_True) blast
    then show ?thesis
      by (intro exI [of _ "unat ?n"] exI [of _ rb']) (simp only: rbuffer_write_def option.map prod.case nat_uint_eq simp_thms)
  next
    case False
    then have "rbuffer_set rb xs ?n = Some (- ENOBUFS, rb)"
      using rbuffer_set_spec [OF 1 unat_of_nat_le, of xs] by (simp only: if_False)
    then show ?thesis using 1
      by (intro exI [of _ 0] exI [of _ rb]) (simp add: rbuffer_write_def)
  qed
next
  case (2 rb k)
  obtain rb' where "rbuffer_get rb (word_of_nat k) =
      Some (int (min (unat (word_of_nat k :: u32)) (length (ring_contents rb))),
            take (min (unat (word_of_nat k :: u32)) (length (ring_contents rb))) (ring_contents rb), rb')"
      "ring_inv rb'"
      "ring_contents rb' = drop (min (unat (word_of_nat k :: u32)) (length (ring_contents rb))) (ring_contents rb)"
    using rbuffer_get_spec [OF 2, of "word_of_nat k"] by blast
  then show ?case
    using unat_of_nat_le [of k]
    by (intro exI [of _ "min (unat (word_of_nat k :: u32)) (length (ring_contents rb))"] exI [of _ rb'])
       (simp add: rbuffer_read_def)
qed

interpretation rbq: stream_fifo ring_inv ring_contents RB_write RB_read
proof (unfold_locales, goal_cases)
  case (1 rb xs)
  then show ?case
  proof (cases xs)
    case (Cons v vs)
    then show ?thesis using RB_SET_spec [OF 1, of v] 1
      by (fastforce simp: RB_write_def split: if_splits)
  qed (use 1 in \<open>simp add: RB_write_def\<close>)
next
  case (2 rb k)
  show ?case
  proof (cases "k = 0 \<or> ring_contents rb = []")
    case True
    then show ?thesis using RB_GET_spec [OF 2] 2
      by (intro exI [of _ 0] exI [of _ rb]) (auto simp: RB_read_def)
  next
    case False
    then obtain v vs where "ring_contents rb = v # vs" by (cases "ring_contents rb") auto
    then show ?thesis using RB_GET_spec [OF 2] False
      by (intro exI [of _ 1]) (auto simp: RB_read_def)
  qed
qed

lemma rbuffer_set_qsize: "rbuffer_set rb xs n = Some (ret, rb') \<Longrightarrow> qsize rb' = qsize rb"
  by (auto simp: rbuffer_set_def Let_def bind_eq_Some_conv split: option.splits if_splits)

lemma rbuffer_get_qsize: "rbuffer_get rb n = Some (ret, ys, rb') \<Longrightarrow> qsize rb' = qsize rb"
  by (auto simp: rbuffer_get_def Let_def bind_eq_Some_conv split: option.splits if_splits)

lemma fifo_run_qsize:
  "fifo_run rbuffer_write rbuffer_read rb ops = Some (acc, got, rb') \<Longrightarrow> qsize rb' = qsize rb"
proof (induction ops arbitrary: rb acc got)
  case (Cons op ops)
  then show ?case
    by (cases op)
       (force simp: rbuffer_write_def rbuffer_read_def bind_eq_Some_conv
          dest: rbuffer_set_qsize rbuffer_get_qsize)+
qed simp

section \<open>Properties\<close>

text \<open>C17: a byte buffer made by \<open>rbuffer_init\<close> on a buffer of the given size runs any
  interleaving of \<open>rbuffer_set\<close> and \<open>rbuffer_get\<close> without an access outside the buffer, and
  the bytes accepted are the bytes delivered followed by the bytes still stored, in order.\<close>

theorem rbuffer_stream:
  assumes "1 < sz" and "unat sz < 2 ^ 31" and "length buff = unat sz"
  shows "\<exists>rb acc got rb'. rbuffer_init sz (Some buff) = Some (RET_OK, rb) \<and>
    fifo_run rbuffer_write rbuffer_read rb ops = Some (acc, got, rb') \<and>
    acc = got @ ring_contents rb' \<and> length (ring_contents rb') < unat sz"
proof -
  obtain rb where rb: "rbuffer_init sz (Some buff) = Some (RET_OK, rb)" "ring_inv rb"
      "ring_contents rb = []" "qsize rb = sz"
    using rbuffer_init_inv [OF assms] by blast
  obtain acc got rb' where run: "fifo_run rbuffer_write rbuffer_read rb ops = Some (acc, got, rb')"
      "ring_inv rb'" "acc = got @ ring_contents rb'"
    using rbuf.run_from_empty [OF rb(2,3)] by blast
  have "qsize rb' = sz" using fifo_run_qsize [OF run(1)] rb(4) by simp
  with run rb length_ring_contents(2) [OF run(2)] show ?thesis by auto
qed

theorem rbuffer_stream_witness:
  "\<exists>rb acc got rb'. rbuffer_init 4 (Some [0, 0, 0, 0]) = Some (RET_OK, rb) \<and>
    fifo_run rbuffer_write rbuffer_read rb [Wr [1, 2], Rd 1, Wr [3, 4], Rd 5] = Some (acc, got, rb') \<and>
    acc = got @ ring_contents rb' \<and> length (ring_contents rb') < unat (4 :: u32)"
  by (rule rbuffer_stream) (simp_all add: word_less_nat_alt)

text \<open>\<open>rbuffer_set_force\<close> on a well-formed buffer always stores data that fits the
  capacity (\<open>qsize - 1\<close>), and discards exactly the oldest bytes that had to make room.\<close>

theorem rbuffer_force_keeps_newest:
  assumes "ring_inv rb" and "unat n < unat (qsize rb)" and "unat n = length data"
  shows "\<exists>rb'. rbuffer_set_force rb data n = Some (uint n, rb') \<and> ring_inv rb' \<and>
    ring_contents rb' = drop (length (ring_contents rb @ data) - (unat (qsize rb) - 1))
                          (ring_contents rb @ data)"
proof -
  obtain rb' where "rbuffer_set_force rb data n = Some (uint n, rb')" "ring_inv rb'"
    "ring_contents rb' =
      drop (length (ring_contents rb) + unat n - (unat (qsize rb) - 1)) (ring_contents rb) @ data"
    using rbuffer_set_force_spec [OF assms(1,2), of data] assms(3) by auto
  moreover have "length (ring_contents rb) + unat n - (unat (qsize rb) - 1) \<le> length (ring_contents rb)"
    using assms(2) by linarith
  ultimately show ?thesis using assms(3) by simp
qed

theorem rbuffer_force_keeps_newest_witness:
  "\<exists>rb'. rbuffer_set_force \<lparr>rpos = 0, wpos = 2, qsize = 4, rbq = Some [1, 2, 3, 4], bpos = 0\<rparr> [7, 8] 2
      = Some (uint (2 :: u32), rb') \<and> ring_inv rb' \<and>
    ring_contents rb' = drop 1 (ring_contents
       \<lparr>rpos = 0, wpos = 2, qsize = 4, rbq = Some [1, 2, 3, 4 :: u8], bpos = 0 :: u32\<rparr> @ [7, 8])"
proof -
  let ?rb = "\<lparr>rpos = 0, wpos = 2, qsize = 4, rbq = Some [1, 2, 3, 4], bpos = 0\<rparr> :: rbuffer"
  have "ring_inv ?rb" by (simp add: ring_inv_def word_less_nat_alt)
  moreover have "length (ring_contents ?rb) = 2" by (simp add: ring_contents_def RB_COUNT_def)
  ultimately show ?thesis using rbuffer_force_keeps_newest [of ?rb 2 "[7, 8]"] by simp
qed



text \<open>\<open>rbuffer_destroy\<close> clears \<open>qsize\<close> but not \<open>rbq\<close>; the free space then computes to
  \<open>2^32 - 1\<close>, so a write after it is not refused: longer than the old array, it runs out of it.\<close>

theorem rbuffer_destroy_unguarded:
  assumes "rbq rb = Some q" and "length q < unat n" and "unat n \<le> length data"
  shows "rbuffer_set (rbuffer_destroy rb) data n = None"
proof -
  have n: "0 < n" using assms(2) by (simp add: word_less_nat_alt)
  have m: "\<not> (- 1 :: u32) < n" using word_n1_ge [of n] by (simp add: not_less)
  show ?thesis using assms n m
    by (simp add: rbuffer_destroy_def rbuffer_reset_def rbuffer_set_def mem_src_def mem_dst_def)
qed

theorem rbuffer_destroy_unguarded_witness:
  "rbuffer_set (rbuffer_destroy \<lparr>rpos = 0, wpos = 1, qsize = 2, rbq = Some [1, 2], bpos = 0\<rparr>) [7, 8, 9] 3
    = None"
  by (rule rbuffer_destroy_unguarded [where q = "[1, 2]"]) simp_all

end
