(* ===== verification/AudioRing.thy ===== *)
theory AudioRing
  imports RingBuffer
begin

text \<open>
  The audio ring buffer of \<open>sdk/lib/audio/ring_buffer/ring_buffer.c\<close>: elements of a fixed
  size in bytes, counted positions, and the free-running \<open>%\<close> arithmetic of the code on
  32-bit words. A pointer argument is \<open>None\<close> for NULL. A count of zero elements would make
  the code divide by zero; the model traps there.
\<close>

record RINGBUF =
  rb_data :: "u8 list"
  front :: u32
  rear :: u32
  elementsize :: u32
  elementcount :: u32

text \<open>\<open>zalloc_ok\<close>: whether the structure was allocated; \<open>malloc\<close>: what the allocator returns for
  the data, by size.\<close>

definition ringbuf_Init :: "bool \<Rightarrow> (u32 \<Rightarrow> u8 list option) \<Rightarrow> u8 \<Rightarrow> u32 \<Rightarrow> RINGBUF option" where
  "ringbuf_Init zalloc_ok malloc esize ecount =
     (if \<not> zalloc_ok then None
      else (case malloc (ucast esize * (ecount + 1)) of
              None \<Rightarrow> None
            | Some mem \<Rightarrow> Some \<lparr>rb_data = mem, front = 0, rear = 0,
                               elementsize = ucast esize, elementcount = ecount + 1\<rparr>))"

definition ringbuf_read_available :: "RINGBUF option \<Rightarrow> u32 option" where
  "ringbuf_read_available p =
     (case p of None \<Rightarrow> Some 0
      | Some rb \<Rightarrow> do { assert_that (elementcount rb \<noteq> 0);
                       Some ((rear rb + elementcount rb - front rb) mod elementcount rb) })"

definition ringbuf_write_available :: "RINGBUF option \<Rightarrow> u32 option" where
  "ringbuf_write_available p =
     (case p of None \<Rightarrow> Some 0
      | Some rb \<Rightarrow> do { assert_that (elementcount rb \<noteq> 0);
                       Some ((front rb + elementcount rb - rear rb - 1) mod elementcount rb) })"

definition ringbuf_read_nomove :: "RINGBUF option \<Rightarrow> u32 \<Rightarrow> (u32 \<times> u8 list) option" where
  "ringbuf_read_nomove p ecount =
     (case p of None \<Rightarrow> Some (0, [])
      | Some rb \<Rightarrow>
         (if front rb = rear rb then Some (0, [])
          else do {
            avail \<leftarrow> ringbuf_read_available p;
            (let readcount = (if ecount > avail then avail else ecount) in
             do { ys \<leftarrow>
                    (if front rb + readcount > elementcount rb then
                       do { y1 \<leftarrow> mem_src (rb_data rb) (unat (front rb * elementsize rb))
                                     (unat ((elementcount rb - front rb) * elementsize rb));
                            y2 \<leftarrow> mem_src (rb_data rb) 0
                                     (unat ((readcount - elementcount rb + front rb) * elementsize rb));
                            Some (y1 @ y2) }
                     else mem_src (rb_data rb) (unat (front rb * elementsize rb))
                            (unat (readcount * elementsize rb)));
                  Some (readcount, ys) }) }))"

definition ringbuf_read :: "RINGBUF option \<Rightarrow> u32 \<Rightarrow> (u32 \<times> u8 list \<times> RINGBUF option) option" where
  "ringbuf_read p ecount =
     (case p of None \<Rightarrow> Some (0, [], None)
      | Some rb \<Rightarrow>
         (if front rb = rear rb then Some (0, [], p)
          else do {
            avail \<leftarrow> ringbuf_read_available p;
            (let readcount = (if ecount > avail then avail else ecount) in
             do { ys \<leftarrow>
                    (if front rb + readcount > elementcount rb then
                       do { y1 \<leftarrow> mem_src (rb_data rb) (unat (front rb * elementsize rb))
                                     (unat ((elementcount rb - front rb) * elementsize rb));
                            y2 \<leftarrow> mem_src (rb_data rb) 0
                                     (unat ((readcount - elementcount rb + front rb) * elementsize rb));
                            Some (y1 @ y2) }
                     else mem_src (rb_data rb) (unat (front rb * elementsize rb))
                            (unat (readcount * elementsize rb)));
                  Some (readcount, ys,
                        Some (rb\<lparr>front := (front rb + readcount) mod elementcount rb\<rparr>)) }) }))"

definition ringbuf_write :: "RINGBUF option \<Rightarrow> u8 list \<Rightarrow> u32 \<Rightarrow> (u32 \<times> RINGBUF option) option" where
  "ringbuf_write p data ecount =
     (case p of None \<Rightarrow> Some (0, None)
      | Some rb \<Rightarrow>
         do { avail \<leftarrow> ringbuf_write_available p;
              (let writecount = (if ecount > avail then avail else ecount);
                   es = elementsize rb; ec = elementcount rb in
               do { mem \<leftarrow>
                      (if rear rb + writecount > ec then
                         do { s1 \<leftarrow> mem_src data 0 (unat ((ec - rear rb) * es));
                              m1 \<leftarrow> mem_dst (rb_data rb) (unat (rear rb * es)) s1;
                              s2 \<leftarrow> mem_src data (unat ((ec - rear rb) * es))
                                      (unat ((writecount - ec + rear rb) * es));
                              mem_dst m1 0 s2 }
                       else do { s \<leftarrow> mem_src data 0 (unat (writecount * es));
                                 mem_dst (rb_data rb) (unat (rear rb * es)) s });
                    Some (writecount,
                          Some (rb\<lparr>rb_data := mem,
                                   rear := (rear rb + writecount) mod ec\<rparr>)) }) })"

definition ringbuf_move_readptr :: "RINGBUF option \<Rightarrow> u32 \<Rightarrow> (u32 \<times> RINGBUF) option" where
  "ringbuf_move_readptr p ecount =
     do { avail \<leftarrow> ringbuf_read_available p;
          rb \<leftarrow> p;
          if avail < ecount
          then Some (avail, rb\<lparr>front := (front rb + avail) mod elementcount rb\<rparr>)
          else Some (ecount, rb\<lparr>front := (front rb + ecount) mod elementcount rb\<rparr>) }"

definition ringbuf_clean :: "RINGBUF option \<Rightarrow> RINGBUF option" where
  "ringbuf_clean p = do { rb \<leftarrow> p; Some (rb\<lparr>front := 0, rear := 0\<rparr>) }"

section \<open>Invariant and contents\<close>

definition ringbuf_inv :: "RINGBUF \<Rightarrow> bool" where
  "ringbuf_inv rb \<longleftrightarrow>
     length (rb_data rb) = unat (elementcount rb) * unat (elementsize rb) \<and>
     0 < unat (elementsize rb) \<and> front rb < elementcount rb \<and> rear rb < elementcount rb \<and>
     unat (elementcount rb) * unat (elementsize rb) < 2 ^ 31"

definition ringbuf_count :: "RINGBUF \<Rightarrow> nat" where
  "ringbuf_count rb =
     ring_count (unat (elementcount rb)) (unat (front rb)) (unat (rear rb))"

definition ringbuf_bytes :: "RINGBUF \<Rightarrow> u8 list" where
  "ringbuf_bytes rb =
     ring_seg (rb_data rb) (unat (front rb) * unat (elementsize rb))
       (ringbuf_count rb * unat (elementsize rb))"

lemma ring_count_mod:
  assumes "r < n" "w < n"
  shows "(w + n - r) mod n = ring_count n r w"
    and "(r + n - w - 1) mod n = n - 1 - ring_count n r w"
proof -
  show "(w + n - r) mod n = ring_count n r w"
  proof (cases "r \<le> w")
    case True
    then have "w + n - r = (w - r) + n" using assms by simp
    then have "(w + n - r) mod n = (w - r) mod n" by (metis mod_add_self2)
    with True assms show ?thesis by (simp add: ring_count_def)
  qed (use assms in \<open>simp add: ring_count_def\<close>)
  show "(r + n - w - 1) mod n = n - 1 - ring_count n r w"
  proof (cases "r \<le> w")
    case False
    then have "r + n - w - 1 = (r - w - 1) + n" using assms by simp
    then have "(r + n - w - 1) mod n = (r - w - 1) mod n" by (metis mod_add_self2)
    with False assms show ?thesis by (simp add: ring_count_def)
  qed (use assms in \<open>simp add: ring_count_def\<close>)
qed

lemma ring_count_scale:
  "ring_count (n * e) (r * e) (w * e) = ring_count n r w * e" if "0 < (e :: nat)"
  using that by (auto simp: ring_count_def diff_mult_distrib add_mult_distrib)

lemma unat_mult_small [word_nat]:
  fixes a b :: u32
  assumes "unat a * unat b < 4294967296"
  shows "unat (a * b) = unat a * unat b"
  using assms by (simp add: unat_word_ariths)

lemma ringbuf_invE:
  assumes "ringbuf_inv rb"
  obtains "length (rb_data rb) = unat (elementcount rb) * unat (elementsize rb)"
    "0 < unat (elementsize rb)" "unat (front rb) < unat (elementcount rb)"
    "unat (rear rb) < unat (elementcount rb)"
    "unat (elementcount rb) * unat (elementsize rb) < 2147483648"
    "unat (elementcount rb) < 2147483648"
proof -
  have "unat (elementcount rb) \<le> unat (elementcount rb) * unat (elementsize rb)"
    using assms by (simp add: ringbuf_inv_def)
  moreover have "unat (elementcount rb) * unat (elementsize rb) < 2147483648"
    using assms by (simp add: ringbuf_inv_def)
  ultimately have "unat (elementcount rb) < 2147483648" by (rule le_less_trans)
  then show thesis using assms that by (auto simp: ringbuf_inv_def word_less_nat_alt)
qed

lemma ringbuf_read_available_nat:
  assumes "ringbuf_inv rb"
  shows "\<exists>a. ringbuf_read_available (Some rb) = Some a \<and> unat a = ringbuf_count rb"
proof -
  have I: "unat (front rb) < unat (elementcount rb)" "unat (rear rb) < unat (elementcount rb)"
    "unat (elementcount rb) < 2147483648" using assms by (auto elim!: ringbuf_invE)
  have "unat (rear rb + elementcount rb - front rb)
      = unat (rear rb) + unat (elementcount rb) - unat (front rb)"
    using I by (simp add: unat_sub_small unat_add_small)
  then have "unat ((rear rb + elementcount rb - front rb) mod elementcount rb) = ringbuf_count rb"
    using ring_count_mod(1) [OF I(1,2)] by (simp add: ringbuf_count_def unat_mod_distrib)
  moreover have "elementcount rb \<noteq> 0" using I by auto
  ultimately show ?thesis by (simp add: ringbuf_read_available_def)
qed

lemma ringbuf_write_available_nat:
  assumes "ringbuf_inv rb"
  shows "\<exists>a. ringbuf_write_available (Some rb) = Some a \<and>
    unat a = unat (elementcount rb) - 1 - ringbuf_count rb"
proof -
  have I: "unat (front rb) < unat (elementcount rb)" "unat (rear rb) < unat (elementcount rb)"
    "unat (elementcount rb) < 2147483648" using assms by (auto elim!: ringbuf_invE)
  have s: "unat (front rb + elementcount rb) = unat (front rb) + unat (elementcount rb)"
    using I by (simp add: unat_add_small)
  have d: "unat (front rb + elementcount rb - rear rb)
      = unat (front rb) + unat (elementcount rb) - unat (rear rb)"
    using I by (subst unat_sub_small) (auto simp: s)
  have "unat (front rb + elementcount rb - rear rb - 1)
      = unat (front rb) + unat (elementcount rb) - unat (rear rb) - 1"
    using I by (subst unat_sub_small) (auto simp: d)
  then have "unat ((front rb + elementcount rb - rear rb - 1) mod elementcount rb)
      = unat (elementcount rb) - 1 - ringbuf_count rb"
    using ring_count_mod(2) [OF I(1,2)] by (simp add: ringbuf_count_def unat_mod_distrib)
  moreover have "elementcount rb \<noteq> 0" using I by auto
  ultimately show ?thesis by (simp add: ringbuf_write_available_def)
qed

text \<open>The position after a step, and the byte position it stands for.\<close>

lemma ringbuf_step_pos:
  fixes p k ec es :: u32
  assumes "unat p < unat ec" "unat k < unat ec" "unat ec * unat es < 2147483648" "0 < unat es"
  shows "unat ((p + k) mod ec) = (unat p + unat k) mod unat ec"
    and "unat ((p + k) mod ec) * unat es = (unat p * unat es + unat k * unat es) mod (unat ec * unat es)"
proof -
  have "unat ec \<le> unat ec * unat es" using assms(4) by simp
  then have "unat ec < 2147483648" using assms(3) by (rule le_less_trans)
  then have "unat (p + k) = unat p + unat k" using assms by (intro unat_add_small) simp
  then show *: "unat ((p + k) mod ec) = (unat p + unat k) mod unat ec"
    by (simp add: unat_mod_distrib)
  show "unat ((p + k) mod ec) * unat es = (unat p * unat es + unat k * unat es) mod (unat ec * unat es)"
    unfolding * by (simp add: mult_mod_left add_mult_distrib)
qed

lemma ring_seg_append:
  assumes "r < length q" "w < length q" "ring_count (length q) r w + length xs < length q"
  shows "ring_seg (ring_put q w xs) r (ring_count (length q) r w + length xs)
       = ring_seg q r (ring_count (length q) r w) @ xs"
proof -
  let ?c = "ring_count (length q) r w"
  have w: "(r + ?c) mod length q = w" using assms by (intro ring_count_pos)
  have "ring_seg (ring_put q w xs) r ?c = ring_seg q r ?c"
    using ring_seg_put_before [of r q ?c xs] assms w by simp
  moreover have "ring_seg (ring_put q w xs) w (length xs) = xs"
    using assms by (intro ring_seg_put_same) auto
  ultimately show ?thesis by (simp add: ring_seg_add w)
qed

text \<open>Both readers copy the first elements of the contents, in one piece or two.\<close>

lemma ringbuf_fetch:
  assumes inv: "ringbuf_inv rb" and k: "unat k \<le> ringbuf_count rb"
  shows "(if front rb + k > elementcount rb then
            do { y1 \<leftarrow> mem_src (rb_data rb) (unat (front rb * elementsize rb))
                          (unat ((elementcount rb - front rb) * elementsize rb));
                 y2 \<leftarrow> mem_src (rb_data rb) 0
                          (unat ((k - elementcount rb + front rb) * elementsize rb));
                 Some (y1 @ y2) }
          else mem_src (rb_data rb) (unat (front rb * elementsize rb))
                 (unat (k * elementsize rb)))
       = Some (take (unat k * unat (elementsize rb)) (ringbuf_bytes rb))"
proof -
  let ?n = "unat (elementcount rb)" and ?e = "unat (elementsize rb)"
  let ?f = "unat (front rb)" and ?k = "unat k" and ?q = "rb_data rb"
  have I: "length ?q = ?n * ?e" "0 < ?e" "?f < ?n" "unat (rear rb) < ?n"
      "?n * ?e < 2147483648" "?n < 2147483648"
    using inv by (auto elim!: ringbuf_invE)
  have kn: "?k < ?n" using k ring_count_pos(1) [OF I(3,4)] by (simp add: ringbuf_count_def)
  have small: "j * ?e < 4294967296" if "j \<le> ?n" for j
    using mult_le_mono1 [OF that, of ?e] I(5) by linarith
  have fe: "unat (front rb * elementsize rb) = ?f * ?e"
    and ke: "unat (k * elementsize rb) = ?k * ?e"
    using small [of ?f] small [of ?k] I kn by (simp_all add: unat_mult_small)
  have lt: "?f * ?e < ?n * ?e" using I by simp
  have kle: "?k * ?e \<le> ringbuf_count rb * ?e" using k by simp
  have target: "take (?k * ?e) (ringbuf_bytes rb) = ring_seg ?q (?f * ?e) (?k * ?e)"
    using kle by (simp add: ringbuf_bytes_def ring_seg_take)
  have s: "unat (front rb + k) = ?f + ?k" using I kn by (intro unat_add_small) simp
  show ?thesis
  proof (cases "front rb + k > elementcount rb")
    case True
    then have w: "?n < ?f + ?k" using s by (simp add: word_less_nat_alt)
    have d1: "unat (elementcount rb - front rb) = ?n - ?f" using I by (intro unat_sub_small) simp
    have "k - elementcount rb + front rb = front rb + k - elementcount rb" by simp
    also have "unat \<dots> = ?f + ?k - ?n" using w s by (subst unat_sub_small) auto
    finally have d2: "unat (k - elementcount rb + front rb) = ?f + ?k - ?n" .
    have m1: "unat ((elementcount rb - front rb) * elementsize rb) = ?n * ?e - ?f * ?e"
      using small [of "?n - ?f"] d1 by (simp add: unat_mult_small diff_mult_distrib)
    have m2: "unat ((k - elementcount rb + front rb) * elementsize rb)
        = ?k * ?e - (?n * ?e - ?f * ?e)"
    proof -
      have "unat ((k - elementcount rb + front rb) * elementsize rb) = (?f + ?k - ?n) * ?e"
        using small [of "?f + ?k - ?n"] d2 kn I by (subst unat_mult_small) auto
      also have "\<dots> = ?k * ?e - (?n * ?e - ?f * ?e)"
        using I(3) by (simp add: diff_mult_distrib add_mult_distrib)
      finally show ?thesis .
    qed
    have "?n * ?e - ?f * ?e \<le> ?k * ?e"
      using w mult_le_mono1 [of "?n - ?f" ?k ?e] by (simp add: diff_mult_distrib)
    then have "do { y1 \<leftarrow> mem_src ?q (?f * ?e) (length ?q - ?f * ?e);
               y2 \<leftarrow> mem_src ?q 0 (?k * ?e - (length ?q - ?f * ?e)); Some (y1 @ y2) }
          = Some (ring_seg ?q (?f * ?e) (?k * ?e))"
      using lt I kn by (intro mem_src_ring_wrap) auto
    then show ?thesis using True by (simp only: if_True fe m1 m2 target I(1))
  next
    case False
    then have "?f + ?k \<le> ?n" using s by (simp add: word_less_nat_alt)
    then have "?f * ?e + ?k * ?e \<le> ?n * ?e" by (metis add_mult_distrib mult_le_mono1)
    then have "mem_src ?q (?f * ?e) (?k * ?e) = Some (ring_seg ?q (?f * ?e) (?k * ?e))"
      using I by (intro mem_src_ring_linear) simp
    then show ?thesis using False by (simp only: if_False fe ke target)
  qed
qed

lemma ringbuf_store:
  assumes inv: "ringbuf_inv rb" and k: "unat k + ringbuf_count rb < unat (elementcount rb)"
    and src: "unat k * unat (elementsize rb) \<le> length data"
  shows "(if rear rb + k > elementcount rb then
            do { s1 \<leftarrow> mem_src data 0 (unat ((elementcount rb - rear rb) * elementsize rb));
                 m1 \<leftarrow> mem_dst (rb_data rb) (unat (rear rb * elementsize rb)) s1;
                 s2 \<leftarrow> mem_src data (unat ((elementcount rb - rear rb) * elementsize rb))
                         (unat ((k - elementcount rb + rear rb) * elementsize rb));
                 mem_dst m1 0 s2 }
          else do { s \<leftarrow> mem_src data 0 (unat (k * elementsize rb));
                    mem_dst (rb_data rb) (unat (rear rb * elementsize rb)) s })
       = Some (ring_put (rb_data rb) (unat (rear rb) * unat (elementsize rb))
                 (take (unat k * unat (elementsize rb)) data))"
proof -
  let ?n = "unat (elementcount rb)" and ?e = "unat (elementsize rb)"
  let ?w = "unat (rear rb)" and ?k = "unat k" and ?q = "rb_data rb"
  let ?xs = "take (?k * ?e) data"
  have I: "length ?q = ?n * ?e" "0 < ?e" "?w < ?n" "?n * ?e < 2147483648" "?n < 2147483648"
    using inv by (auto elim!: ringbuf_invE)
  have kn: "?k < ?n" using k by simp
  have small: "j * ?e < 4294967296" if "j \<le> ?n" for j
    using mult_le_mono1 [OF that, of ?e] I(4) by linarith
  have we: "unat (rear rb * elementsize rb) = ?w * ?e"
    and ke: "unat (k * elementsize rb) = ?k * ?e"
    using small [of ?w] small [of ?k] I kn by (simp_all add: unat_mult_small)
  have xs: "length ?xs = ?k * ?e" using src by simp
  have lt: "?w * ?e < ?n * ?e" using I by simp
  have s: "unat (rear rb + k) = ?w + ?k" using I kn by (intro unat_add_small) simp
  show ?thesis
  proof (cases "rear rb + k > elementcount rb")
    case True
    then have w: "?n < ?w + ?k" using s by (simp add: word_less_nat_alt)
    have d1: "unat (elementcount rb - rear rb) = ?n - ?w" using I by (intro unat_sub_small) simp
    have "k - elementcount rb + rear rb = rear rb + k - elementcount rb" by simp
    also have "unat \<dots> = ?w + ?k - ?n" using w s by (subst unat_sub_small) auto
    finally have d2: "unat (k - elementcount rb + rear rb) = ?w + ?k - ?n" .
    have m1: "unat ((elementcount rb - rear rb) * elementsize rb) = length ?q - ?w * ?e"
      using small [of "?n - ?w"] d1 I(1) by (simp add: unat_mult_small diff_mult_distrib)
    have m2: "unat ((k - elementcount rb + rear rb) * elementsize rb)
        = ?k * ?e - (length ?q - ?w * ?e)"
    proof -
      have "unat ((k - elementcount rb + rear rb) * elementsize rb) = (?w + ?k - ?n) * ?e"
        using small [of "?w + ?k - ?n"] d2 kn I by (subst unat_mult_small) auto
      also have "\<dots> = ?k * ?e - (?n * ?e - ?w * ?e)"
        using I(3) by (simp add: diff_mult_distrib add_mult_distrib)
      finally show ?thesis using I(1) by simp
    qed
    have le: "length ?q - ?w * ?e \<le> ?k * ?e"
      using w mult_le_mono1 [of "?n - ?w" ?k ?e] I(1) by (simp add: diff_mult_distrib)
    have s1: "mem_src data 0 (length ?q - ?w * ?e) = Some (take (length ?q - ?w * ?e) ?xs)"
      using src le by (simp add: mem_src_def min_absorb2 min_absorb1)
    have s2: "mem_src data (length ?q - ?w * ?e) (?k * ?e - (length ?q - ?w * ?e))
        = Some (drop (length ?q - ?w * ?e) ?xs)"
      using src le by (simp add: mem_src_def drop_take)
    have "Option.bind (mem_dst ?q (?w * ?e) (take (length ?q - ?w * ?e) ?xs))
            (\<lambda>q1. mem_dst q1 0 (drop (length ?q - ?w * ?e) ?xs))
          = Some (ring_put ?q (?w * ?e) ?xs)"
      using lt I kn le xs by (intro mem_dst_ring_wrap) auto
    then show ?thesis using True by (simp only: if_True we m1 m2 s1 s2 bind.bind_lunit)
  next
    case False
    then have "?w + ?k \<le> ?n" using s by (simp add: word_less_nat_alt)
    then have "?w * ?e + ?k * ?e \<le> ?n * ?e" by (metis add_mult_distrib mult_le_mono1)
    then have "mem_dst ?q (?w * ?e) ?xs = Some (ring_put ?q (?w * ?e) ?xs)"
      using I lt xs by (intro mem_dst_ring_linear) auto
    then show ?thesis using False src by (simp only: if_False we ke mem_src_0 bind.bind_lunit)
  qed
qed

section \<open>Functional behaviour\<close>

lemma ringbuf_write_spec:
  assumes inv: "ringbuf_inv rb"
    and m: "m = min (unat n) (unat (elementcount rb) - 1 - ringbuf_count rb)"
    and src: "m * unat (elementsize rb) \<le> length data"
  shows "\<exists>k rb'. ringbuf_write (Some rb) data n = Some (k, Some rb') \<and> unat k = m \<and>
    ringbuf_inv rb' \<and> elementsize rb' = elementsize rb \<and> elementcount rb' = elementcount rb \<and>
    ringbuf_bytes rb' = ringbuf_bytes rb @ take (m * unat (elementsize rb)) data"
proof -
  let ?n = "unat (elementcount rb)" and ?e = "unat (elementsize rb)"
  let ?f = "unat (front rb)" and ?w = "unat (rear rb)" and ?q = "rb_data rb"
  have I: "length ?q = ?n * ?e" "0 < ?e" "?f < ?n" "?w < ?n" "?n * ?e < 2147483648"
    using inv by (auto elim!: ringbuf_invE)
  obtain a where a: "ringbuf_write_available (Some rb) = Some a"
      "unat a = ?n - 1 - ringbuf_count rb"
    using ringbuf_write_available_nat [OF inv] by blast
  define k where "k = (if n > a then a else n)"
  have k: "unat k = m" using m a by (auto simp: k_def min_def word_less_nat_alt)
  have c: "ringbuf_count rb < ?n" using I by (simp add: ringbuf_count_def ring_count_pos)
  have room: "unat k + ringbuf_count rb < ?n" using k m c by simp
  let ?xs = "take (m * ?e) data" and ?w' = "(rear rb + k) mod elementcount rb"
  define rb' where "rb' = rb\<lparr>rb_data := ring_put ?q (?w * ?e) ?xs, rear := ?w'\<rparr>"
  have run: "ringbuf_write (Some rb) data n = Some (k, Some rb')"
    unfolding ringbuf_write_def option.case a(1) bind.bind_lunit Let_def k_def [symmetric]
    using ringbuf_store [OF inv room, of data] src k
    by (simp add: rb'_def)
  have kn: "unat k < ?n" using room by simp
  have pos: "unat ?w' = (?w + m) mod ?n" using ringbuf_step_pos(1) [OF I(4) kn I(5,2)] k by simp
  have cnt: "ring_count ?n ?f (unat ?w') = ringbuf_count rb + m"
    using ring_count_advance_w [OF I(3,4), of m] room k wrap_mod [OF I(4), of m] pos kn
    by (simp add: ringbuf_count_def add.commute)
  have inv': "ringbuf_inv rb'"
    using inv pos I(3,4) by (simp add: ringbuf_inv_def rb'_def word_less_nat_alt)
  have xs: "length ?xs = m * ?e" using src by simp
  have C: "ring_count (length ?q) (?f * ?e) (?w * ?e) = ringbuf_count rb * ?e"
    using I(1,2) by (simp add: ringbuf_count_def ring_count_scale)
  have "(ringbuf_count rb + m) * ?e < ?n * ?e" using room k I(2) by simp
  then have lt: "ring_count (length ?q) (?f * ?e) (?w * ?e) + length ?xs < length ?q"
    by (simp only: C xs) (simp add: I(1) add_mult_distrib)
  have b: "?f * ?e < length ?q" "?w * ?e < length ?q" using I by simp_all
  have cnt': "ringbuf_count rb' = ringbuf_count rb + m"
    by (subst ringbuf_count_def) (use cnt in \<open>simp add: rb'_def\<close>)
  have "ringbuf_bytes rb' = ringbuf_bytes rb @ ?xs"
    using ring_seg_append [OF b lt] unfolding C xs
    by (simp add: ringbuf_bytes_def cnt' add_mult_distrib) (simp add: rb'_def)
  with run k inv' show ?thesis by (auto simp: rb'_def)
qed

lemma ringbuf_advance:
  assumes inv: "ringbuf_inv rb" and k: "unat k \<le> ringbuf_count rb"
    and rb': "rb' = rb\<lparr>front := (front rb + k) mod elementcount rb\<rparr>"
  shows "ringbuf_inv rb'" and "ringbuf_count rb' = ringbuf_count rb - unat k"
    and "ringbuf_bytes rb' = drop (unat k * unat (elementsize rb)) (ringbuf_bytes rb)"
proof -
  let ?n = "unat (elementcount rb)" and ?e = "unat (elementsize rb)"
  let ?f = "unat (front rb)" and ?w = "unat (rear rb)" and ?q = "rb_data rb"
  have I: "length ?q = ?n * ?e" "0 < ?e" "?f < ?n" "?w < ?n" "?n * ?e < 2147483648"
    using inv by (auto elim!: ringbuf_invE)
  have kn: "unat k < ?n" using k ring_count_pos(1) [OF I(3,4)] by (simp add: ringbuf_count_def)
  note pos = ringbuf_step_pos [OF I(3) kn I(5,2)]
  show "ringbuf_inv rb'"
    using inv pos(1) I(3) by (simp add: ringbuf_inv_def rb' word_less_nat_alt)
  show cnt: "ringbuf_count rb' = ringbuf_count rb - unat k"
    using ring_count_advance_r [OF I(3,4), of "unat k"] k wrap_mod [OF I(3) kn] pos(1)
    by (simp only: ringbuf_count_def rb') simp
  have "unat k * ?e \<le> ringbuf_count rb * ?e" using k by simp
  then show "ringbuf_bytes rb' = drop (unat k * ?e) (ringbuf_bytes rb)"
    by (simp add: ringbuf_bytes_def cnt ring_seg_drop I(1))
       (simp add: rb' pos(2) diff_mult_distrib)
qed

lemma ringbuf_empty_iff: "ringbuf_inv rb \<Longrightarrow> ringbuf_count rb = 0 \<longleftrightarrow> front rb = rear rb"
  by (elim ringbuf_invE) (auto simp: ringbuf_count_def ring_count_def word_unat_eq_iff)

lemma length_ringbuf_bytes [simp]:
  "length (ringbuf_bytes rb) = ringbuf_count rb * unat (elementsize rb)"
  by (simp add: ringbuf_bytes_def)

lemma ringbuf_read_spec:
  assumes inv: "ringbuf_inv rb" and m: "m = min (unat n) (ringbuf_count rb)"
  shows "\<exists>k rb'. ringbuf_read (Some rb) n =
      Some (k, take (m * unat (elementsize rb)) (ringbuf_bytes rb), Some rb') \<and> unat k = m \<and>
    ringbuf_inv rb' \<and> elementsize rb' = elementsize rb \<and> elementcount rb' = elementcount rb \<and>
    ringbuf_bytes rb' = drop (m * unat (elementsize rb)) (ringbuf_bytes rb)"
proof (cases "front rb = rear rb")
  case True
  then have "m = 0" using ringbuf_empty_iff [OF inv] m by simp
  then show ?thesis using True inv by (simp add: ringbuf_read_def)
next
  case False
  obtain a where a: "ringbuf_read_available (Some rb) = Some a" "unat a = ringbuf_count rb"
    using ringbuf_read_available_nat [OF inv] by blast
  define k where "k = (if n > a then a else n)"
  have k: "unat k = m" using m a by (auto simp: k_def min_def word_less_nat_alt)
  have km: "unat k \<le> ringbuf_count rb" using k m by simp
  define rb' where "rb' = rb\<lparr>front := (front rb + k) mod elementcount rb\<rparr>"
  have "ringbuf_read (Some rb) n = Some (k, take (m * unat (elementsize rb)) (ringbuf_bytes rb), Some rb')"
    unfolding ringbuf_read_def option.case a(1) bind.bind_lunit Let_def k_def [symmetric]
      if_not_P [OF False] ringbuf_fetch [OF inv km] k rb'_def ..
  with ringbuf_advance [OF inv km rb'_def] k show ?thesis
    by (intro exI [of _ k] exI [of _ rb']) (simp add: rb'_def)
qed

lemma ringbuf_read_nomove_spec:
  assumes inv: "ringbuf_inv rb"
  shows "ringbuf_read_nomove (Some rb) n = map_option (\<lambda>(k, ys, rb'). (k, ys)) (ringbuf_read (Some rb) n)"
proof (cases "front rb = rear rb")
  case False
  obtain a where a: "ringbuf_read_available (Some rb) = Some a" "unat a = ringbuf_count rb"
    using ringbuf_read_available_nat [OF inv] by blast
  have km: "unat (if n > a then a else n) \<le> ringbuf_count rb" using a by (auto simp: word_less_nat_alt)
  show ?thesis
    unfolding ringbuf_read_nomove_def ringbuf_read_def option.case a(1) bind.bind_lunit Let_def
      if_not_P [OF False] ringbuf_fetch [OF inv km] by simp
qed (simp add: ringbuf_read_nomove_def ringbuf_read_def)

lemma ringbuf_move_readptr_spec:
  assumes inv: "ringbuf_inv rb" and m: "m = min (unat n) (ringbuf_count rb)"
  shows "\<exists>k rb'. ringbuf_move_readptr (Some rb) n = Some (k, rb') \<and> unat k = m \<and>
    ringbuf_inv rb' \<and> ringbuf_bytes rb' = drop (m * unat (elementsize rb)) (ringbuf_bytes rb)"
proof -
  obtain a where a: "ringbuf_read_available (Some rb) = Some a" "unat a = ringbuf_count rb"
    using ringbuf_read_available_nat [OF inv] by blast
  define k where "k = (if a < n then a else n)"
  have k: "unat k = m" using m a by (auto simp: k_def min_def word_less_nat_alt)
  have "unat k \<le> ringbuf_count rb" using k m by simp
  note adv = ringbuf_advance [OF inv this refl]
  have "ringbuf_move_readptr (Some rb) n = Some (k, rb\<lparr>front := (front rb + k) mod elementcount rb\<rparr>)"
    by (simp add: ringbuf_move_readptr_def a(1) k_def)
  with adv k show ?thesis by auto
qed

section \<open>The buffer as a stream of whole elements\<close>

definition ringbuf_put :: "RINGBUF \<Rightarrow> u8 list \<Rightarrow> (nat \<times> RINGBUF) option" where
  "ringbuf_put rb xs =
     do { (k, p) \<leftarrow> ringbuf_write (Some rb) xs (word_of_nat (length xs div unat (elementsize rb)));
          rb' \<leftarrow> p; Some (unat k * unat (elementsize rb), rb') }"

definition ringbuf_take :: "RINGBUF \<Rightarrow> nat \<Rightarrow> (u8 list \<times> RINGBUF) option" where
  "ringbuf_take rb n =
     do { (k, ys, p) \<leftarrow> ringbuf_read (Some rb) (word_of_nat (n div unat (elementsize rb)));
          rb' \<leftarrow> p; Some (ys, rb') }"

lemma unat_of_nat_le32: "unat (word_of_nat n :: u32) \<le> n"
  by (simp add: unat_of_nat)

interpretation audio: stream_fifo ringbuf_inv ringbuf_bytes ringbuf_put ringbuf_take
proof (unfold_locales, goal_cases)
  case (1 rb xs)
  let ?e = "unat (elementsize rb)" and ?n = "word_of_nat (length xs div unat (elementsize rb)) :: u32"
  define m where "m = min (unat ?n) (unat (elementcount rb) - 1 - ringbuf_count rb)"
  have "m \<le> length xs div ?e" using unat_of_nat_le32 [of "length xs div ?e"] by (simp add: m_def)
  then have "m * ?e \<le> length xs div ?e * ?e" by (rule mult_le_mono1)
  also have "\<dots> \<le> length xs" by simp
  finally obtain k rb' where w: "ringbuf_write (Some rb) xs ?n = Some (k, Some rb')" "unat k = m"
      "ringbuf_inv rb'" "ringbuf_bytes rb' = ringbuf_bytes rb @ take (m * ?e) xs"
    using ringbuf_write_spec [OF 1 m_def] by blast
  then show ?case by (simp add: ringbuf_put_def del: of_nat_div)
next
  case (2 rb n)
  let ?e = "unat (elementsize rb)" and ?n = "word_of_nat (n div unat (elementsize rb)) :: u32"
  define m where "m = min (unat ?n) (ringbuf_count rb)"
  have "m \<le> n div ?e" using unat_of_nat_le32 [of "n div ?e"] by (simp add: m_def)
  then have "m * ?e \<le> n div ?e * ?e" by (rule mult_le_mono1)
  also have "\<dots> \<le> n" by simp
  finally have "m * ?e \<le> n" .
  moreover obtain k rb' where "ringbuf_read (Some rb) ?n =
        Some (k, take (m * ?e) (ringbuf_bytes rb), Some rb')" "ringbuf_inv rb'"
      "ringbuf_bytes rb' = drop (m * ?e) (ringbuf_bytes rb)"
    using ringbuf_read_spec [OF 2 m_def] by blast
  ultimately show ?case
    by (intro exI [of _ "m * ?e"] exI [of _ rb']) (simp add: ringbuf_take_def)
qed

lemma ringbuf_Init_inv:
  assumes "0 < unat esize" and "(unat ecount + 1) * unat esize < 2 ^ 31"
    and "malloc (ucast esize * (ecount + 1)) = Some mem" and "length mem = (unat ecount + 1) * unat esize"
  shows "\<exists>rb. ringbuf_Init True malloc esize ecount = Some rb \<and> ringbuf_inv rb \<and> ringbuf_bytes rb = [] \<and>
    unat (elementcount rb) = unat ecount + 1 \<and> unat (elementsize rb) = unat esize"
proof -
  have "(unat ecount + 1) * 1 \<le> (unat ecount + 1) * unat esize"
    using assms(1) by (intro mult_le_mono2) simp
  then have "unat ecount + 1 < 2147483648" using assms(2) by simp
  then have c: "unat (ecount + 1) = unat ecount + 1" by (subst unat_add_small) simp_all
  show ?thesis
    using assms c
    by (simp add: ringbuf_Init_def ringbuf_inv_def ringbuf_bytes_def ringbuf_count_def
        ring_count_def word_less_nat_alt)
qed

section \<open>Properties\<close>

text \<open>C35: the audio buffer \<open>ringbuf_Init\<close> makes, whose data size does not overflow, delivers over
  any interleaving of \<open>ringbuf_write\<close> and \<open>ringbuf_read\<close> exactly the bytes it accepted, in order
  and without an access outside its memory.\<close>

theorem ringbuf_stream:
  assumes "0 < unat esize" and "(unat ecount + 1) * unat esize < 2 ^ 31"
    and "malloc (ucast esize * (ecount + 1)) = Some mem" and "length mem = (unat ecount + 1) * unat esize"
  shows "\<exists>rb acc got rb'. ringbuf_Init True malloc esize ecount = Some rb \<and>
    fifo_run ringbuf_put ringbuf_take rb ops = Some (acc, got, rb') \<and>
    acc = got @ ringbuf_bytes rb' \<and> ringbuf_inv rb'"
proof -
  obtain rb where rb: "ringbuf_Init True malloc esize ecount = Some rb" "ringbuf_inv rb"
      "ringbuf_bytes rb = []"
    using ringbuf_Init_inv [of esize ecount malloc mem] assms by blast
  then show ?thesis using audio.run_from_empty [OF rb(2,3), of ops] by auto
qed

theorem ringbuf_stream_witness:
  "\<exists>rb acc got rb'. ringbuf_Init True (\<lambda>_. Some (replicate 6 0)) 2 2 = Some rb \<and>
    fifo_run ringbuf_put ringbuf_take rb [Wr [1, 2, 3, 4], Rd 2, Wr [5, 6], Rd 9] = Some (acc, got, rb') \<and>
    acc = got @ ringbuf_bytes rb' \<and> ringbuf_inv rb'"
  by (rule ringbuf_stream [where mem = "replicate 6 0"]) simp_all

text \<open>one \<open>ringbuf_write\<close> stores as many whole elements as are offered and fit
  (\<open>elementcount - 1\<close> less what is stored), one \<open>ringbuf_read\<close> after it delivers the oldest
  elements, and \<open>ringbuf_read_nomove\<close> shows the same without consuming them.\<close>

theorem ringbuf_write_then_read:
  assumes "ringbuf_inv rb" and "ringbuf_count rb = 0"
    and "unat n < unat (elementcount rb)" and "unat n * unat (elementsize rb) \<le> length data"
  shows "\<exists>rb' rb''. ringbuf_write (Some rb) data n = Some (n, Some rb') \<and>
    ringbuf_read (Some rb') n = Some (n, take (unat n * unat (elementsize rb)) data, Some rb'') \<and>
    ringbuf_read_nomove (Some rb') n = Some (n, take (unat n * unat (elementsize rb)) data) \<and>
    ringbuf_bytes rb'' = []"
proof -
  let ?e = "unat (elementsize rb)"
  have m: "unat n = min (unat n) (unat (elementcount rb) - 1 - ringbuf_count rb)"
    using assms by simp
  obtain k rb' where w: "ringbuf_write (Some rb) data n = Some (k, Some rb')" "unat k = unat n"
      "ringbuf_inv rb'" "elementsize rb' = elementsize rb"
      "ringbuf_bytes rb' = ringbuf_bytes rb @ take (unat n * ?e) data"
    using ringbuf_write_spec [OF assms(1) m assms(4)] by blast
  have e: "0 < ?e" using assms(1) by (elim ringbuf_invE)
  have bytes: "ringbuf_bytes rb' = take (unat n * ?e) data"
    using w(5) assms(2) by (simp add: ringbuf_bytes_def)
  then have "length (ringbuf_bytes rb') = unat n * ?e" using assms(4) by simp
  then have cnt: "ringbuf_count rb' = unat n" using e w(4) by simp
  obtain k2 rb'' where r: "ringbuf_read (Some rb') n =
        Some (k2, take (unat n * ?e) (ringbuf_bytes rb'), Some rb'')" "unat k2 = unat n"
      "ringbuf_bytes rb'' = drop (unat n * ?e) (ringbuf_bytes rb')"
    using ringbuf_read_spec [OF w(3), of "unat n" n] w(4) cnt by auto
  have "k = n" "k2 = n" using w(2) r(2) by (simp_all add: word_unat_eq_iff)
  then show ?thesis
    using w(1) r bytes assms(4) ringbuf_read_nomove_spec [OF w(3), of n] by (simp add: min_absorb2)
qed

theorem ringbuf_write_then_read_witness:
  "\<exists>rb' rb''. ringbuf_write (Some \<lparr>rb_data = replicate 6 0, front = 2, rear = 2, elementsize = 2,
        elementcount = 3\<rparr>) [1, 2, 3, 4] 2 = Some (2, Some rb') \<and>
    ringbuf_read (Some rb') 2 = Some (2, [1, 2, 3, 4], Some rb'') \<and>
    ringbuf_read_nomove (Some rb') 2 = Some (2, [1, 2, 3, 4]) \<and> ringbuf_bytes rb'' = []"
  using ringbuf_write_then_read [of "\<lparr>rb_data = replicate 6 0, front = 2, rear = 2, elementsize = 2,
      elementcount = 3\<rparr>" 2 "[1, 2, 3, 4]"]
  by (simp add: ringbuf_inv_def ringbuf_count_def ring_count_def word_less_nat_alt)

text \<open>the multiplication in \<open>ringbuf_Init\<close> is not checked: with \<open>elementcount = 2^31 - 1\<close> and
  elements of two bytes the size asked of the allocator is 0, and the first write of one
  element then leaves the memory received.\<close>

theorem ringbuf_Init_overflow:
  "\<exists>rb. ringbuf_Init True (\<lambda>sz. Some (replicate (unat sz) 0)) 2 0x7FFFFFFF = Some rb \<and>
     rb_data rb = [] \<and> ringbuf_write (Some rb) [1, 2] 1 = None"
  by (simp add: ringbuf_Init_def ringbuf_write_def ringbuf_write_available_def
      mem_src_def mem_dst_def)

end
