(* ===== verification/ByteShift.thy ===== *)
theory ByteShift
  imports Prelude
begin

unbundle bit_operations_syntax

text \<open>
  The unaligned accessors of \<open>sdk/include/chip/arch/csky/byteshift.h\<close>, byte by byte as the
  header writes them. A pointer is an object (a byte list) and an offset into it; an access
  outside the object is \<open>None\<close>. The functions the header names with two leading underscores
  are \<open>raw_...\<close> here.
\<close>

section \<open>Little endian\<close>

definition raw_get_unaligned_le16 :: "u8 list \<Rightarrow> nat \<Rightarrow> u16 option" where
  "raw_get_unaligned_le16 p i =
     do { b0 \<leftarrow> mem_rd p i; b1 \<leftarrow> mem_rd p (i + 1);
          Some (ucast b0 OR push_bit 8 (ucast b1)) }"

definition raw_get_unaligned_le32 :: "u8 list \<Rightarrow> nat \<Rightarrow> u32 option" where
  "raw_get_unaligned_le32 p i =
     do { b0 \<leftarrow> mem_rd p i; b1 \<leftarrow> mem_rd p (i + 1);
          b2 \<leftarrow> mem_rd p (i + 2); b3 \<leftarrow> mem_rd p (i + 3);
          Some (ucast b0 OR push_bit 8 (ucast b1) OR push_bit 16 (ucast b2) OR push_bit 24 (ucast b3)) }"

definition raw_get_unaligned_le64 :: "u8 list \<Rightarrow> nat \<Rightarrow> u64 option" where
  "raw_get_unaligned_le64 p i =
     do { hi \<leftarrow> raw_get_unaligned_le32 p (i + 4); lo \<leftarrow> raw_get_unaligned_le32 p i;
          Some (push_bit 32 (ucast hi) OR ucast lo) }"

definition raw_put_unaligned_le16 :: "u16 \<Rightarrow> u8 list \<Rightarrow> nat \<Rightarrow> u8 list option" where
  "raw_put_unaligned_le16 val p i =
     do { p1 \<leftarrow> mem_wr p i (ucast val); mem_wr p1 (i + 1) (ucast (drop_bit 8 val)) }"

definition raw_put_unaligned_le32 :: "u32 \<Rightarrow> u8 list \<Rightarrow> nat \<Rightarrow> u8 list option" where
  "raw_put_unaligned_le32 val p i =
     do { p1 \<leftarrow> raw_put_unaligned_le16 (ucast (drop_bit 16 val)) p (i + 2);
          raw_put_unaligned_le16 (ucast val) p1 i }"

definition raw_put_unaligned_le64 :: "u64 \<Rightarrow> u8 list \<Rightarrow> nat \<Rightarrow> u8 list option" where
  "raw_put_unaligned_le64 val p i =
     do { p1 \<leftarrow> raw_put_unaligned_le32 (ucast (drop_bit 32 val)) p (i + 4);
          raw_put_unaligned_le32 (ucast val) p1 i }"

definition get_unaligned_le16 :: "u8 list \<Rightarrow> nat \<Rightarrow> u16 option" where
  "get_unaligned_le16 p i = raw_get_unaligned_le16 p i"

definition get_unaligned_le32 :: "u8 list \<Rightarrow> nat \<Rightarrow> u32 option" where
  "get_unaligned_le32 p i = raw_get_unaligned_le32 p i"

definition get_unaligned_le64 :: "u8 list \<Rightarrow> nat \<Rightarrow> u64 option" where
  "get_unaligned_le64 p i = raw_get_unaligned_le64 p i"

definition put_unaligned_le16 :: "u16 \<Rightarrow> u8 list \<Rightarrow> nat \<Rightarrow> u8 list option" where
  "put_unaligned_le16 val p i = raw_put_unaligned_le16 val p i"

definition put_unaligned_le32 :: "u32 \<Rightarrow> u8 list \<Rightarrow> nat \<Rightarrow> u8 list option" where
  "put_unaligned_le32 val p i = raw_put_unaligned_le32 val p i"

definition put_unaligned_le64 :: "u64 \<Rightarrow> u8 list \<Rightarrow> nat \<Rightarrow> u8 list option" where
  "put_unaligned_le64 val p i = raw_put_unaligned_le64 val p i"

section \<open>Big endian\<close>

definition raw_get_unaligned_be16 :: "u8 list \<Rightarrow> nat \<Rightarrow> u16 option" where
  "raw_get_unaligned_be16 p i =
     do { b0 \<leftarrow> mem_rd p i; b1 \<leftarrow> mem_rd p (i + 1);
          Some (push_bit 8 (ucast b0) OR ucast b1) }"

definition raw_get_unaligned_be32 :: "u8 list \<Rightarrow> nat \<Rightarrow> u32 option" where
  "raw_get_unaligned_be32 p i =
     do { b0 \<leftarrow> mem_rd p i; b1 \<leftarrow> mem_rd p (i + 1);
          b2 \<leftarrow> mem_rd p (i + 2); b3 \<leftarrow> mem_rd p (i + 3);
          Some (push_bit 24 (ucast b0) OR push_bit 16 (ucast b1) OR push_bit 8 (ucast b2) OR ucast b3) }"

definition raw_get_unaligned_be64 :: "u8 list \<Rightarrow> nat \<Rightarrow> u64 option" where
  "raw_get_unaligned_be64 p i =
     do { hi \<leftarrow> raw_get_unaligned_be32 p i; lo \<leftarrow> raw_get_unaligned_be32 p (i + 4);
          Some (push_bit 32 (ucast hi) OR ucast lo) }"

definition raw_put_unaligned_be16 :: "u16 \<Rightarrow> u8 list \<Rightarrow> nat \<Rightarrow> u8 list option" where
  "raw_put_unaligned_be16 val p i =
     do { p1 \<leftarrow> mem_wr p i (ucast (drop_bit 8 val)); mem_wr p1 (i + 1) (ucast val) }"

definition raw_put_unaligned_be32 :: "u32 \<Rightarrow> u8 list \<Rightarrow> nat \<Rightarrow> u8 list option" where
  "raw_put_unaligned_be32 val p i =
     do { p1 \<leftarrow> raw_put_unaligned_be16 (ucast (drop_bit 16 val)) p i;
          raw_put_unaligned_be16 (ucast val) p1 (i + 2) }"

definition raw_put_unaligned_be64 :: "u64 \<Rightarrow> u8 list \<Rightarrow> nat \<Rightarrow> u8 list option" where
  "raw_put_unaligned_be64 val p i =
     do { p1 \<leftarrow> raw_put_unaligned_be32 (ucast (drop_bit 32 val)) p i;
          raw_put_unaligned_be32 (ucast val) p1 (i + 4) }"

definition get_unaligned_be16 :: "u8 list \<Rightarrow> nat \<Rightarrow> u16 option" where
  "get_unaligned_be16 p i = raw_get_unaligned_be16 p i"

definition get_unaligned_be32 :: "u8 list \<Rightarrow> nat \<Rightarrow> u32 option" where
  "get_unaligned_be32 p i = raw_get_unaligned_be32 p i"

definition get_unaligned_be64 :: "u8 list \<Rightarrow> nat \<Rightarrow> u64 option" where
  "get_unaligned_be64 p i = raw_get_unaligned_be64 p i"

definition put_unaligned_be16 :: "u16 \<Rightarrow> u8 list \<Rightarrow> nat \<Rightarrow> u8 list option" where
  "put_unaligned_be16 val p i = raw_put_unaligned_be16 val p i"

definition put_unaligned_be32 :: "u32 \<Rightarrow> u8 list \<Rightarrow> nat \<Rightarrow> u8 list option" where
  "put_unaligned_be32 val p i = raw_put_unaligned_be32 val p i"

definition put_unaligned_be64 :: "u64 \<Rightarrow> u8 list \<Rightarrow> nat \<Rightarrow> u8 list option" where
  "put_unaligned_be64 val p i = raw_put_unaligned_be64 val p i"

section \<open>The contract of an accessor pair\<close>

text \<open>
  An accessor pair of \<open>n\<close> bytes reads and writes the \<open>n\<close> bytes at its offset through one
  encoding \<open>enc\<close> of the value, and nothing else.
\<close>

locale unaligned_pair =
  fixes n :: nat
    and enc :: "'v \<Rightarrow> u8 list"
    and get :: "u8 list \<Rightarrow> nat \<Rightarrow> 'v option"
    and put :: "'v \<Rightarrow> u8 list \<Rightarrow> nat \<Rightarrow> u8 list option"
  assumes len_enc: "length (enc v) = n"
    and put_enc: "i + n \<le> length p \<Longrightarrow> put v p i = mem_dst p i (enc v)"
    and get_enc: "i + n \<le> length p \<Longrightarrow> take n (drop i p) = enc v \<Longrightarrow> get p i = Some v"
    and enc_onto: "length ys = n \<Longrightarrow> \<exists>v. ys = enc v"
begin

lemma put_ok:
  assumes "i + n \<le> length p"
  shows "put v p i = Some (take i p @ enc v @ drop (i + n) p)"
  using put_enc [OF assms, of v] assms by (simp add: mem_dst_def len_enc)

lemma get_put:
  assumes "i + n \<le> length p" "put v p i = Some p'"
  shows "get p' i = Some v" and "length p' = length p"
proof -
  have p': "p' = take i p @ enc v @ drop (i + n) p" using put_ok assms by simp
  then show l: "length p' = length p" using assms(1) by (simp add: len_enc)
  show "get p' i = Some v"
    by (rule get_enc) (use assms(1) in \<open>simp_all add: l p' len_enc\<close>)
qed

lemma roundtrip:
  assumes "i + n \<le> length p"
  shows "Option.bind (put v p i) (\<lambda>p'. get p' i) = Some v"
  using get_put(1) [OF assms put_ok [OF assms]] by (simp add: put_ok [OF assms])

lemma put_get:
  assumes "i + n \<le> length p" "get p i = Some v"
  shows "put v p i = Some p"
proof -
  obtain v' where v': "take n (drop i p) = enc v'"
    using enc_onto [of "take n (drop i p)"] assms(1) by auto
  then have "v' = v" using get_enc [OF assms(1) v'] assms(2) by simp
  moreover have "p = take i p @ take n (drop i p) @ drop (i + n) p"
    by (metis append_take_drop_id drop_drop add.commute)
  ultimately show ?thesis using put_ok [OF assms(1), of v] v' by simp
qed

lemma put_elsewhere:
  assumes "i + n \<le> length p" "put v p i = Some p'" "j < i \<or> i + n \<le> j" "j < length p"
  shows "p' ! j = p ! j"
  using put_ok [OF assms(1), of v] assms by (auto simp: nth_append len_enc)

end

section \<open>The six pairs of the header\<close>

definition enc_le16 :: "u16 \<Rightarrow> u8 list" where
  "enc_le16 v = [ucast v, ucast (drop_bit 8 v)]"
definition enc_be16 :: "u16 \<Rightarrow> u8 list" where
  "enc_be16 v = [ucast (drop_bit 8 v), ucast v]"
definition enc_le32 :: "u32 \<Rightarrow> u8 list" where
  "enc_le32 v = enc_le16 (ucast v) @ enc_le16 (ucast (drop_bit 16 v))"
definition enc_be32 :: "u32 \<Rightarrow> u8 list" where
  "enc_be32 v = enc_be16 (ucast (drop_bit 16 v)) @ enc_be16 (ucast v)"
definition enc_le64 :: "u64 \<Rightarrow> u8 list" where
  "enc_le64 v = enc_le32 (ucast v) @ enc_le32 (ucast (drop_bit 32 v))"
definition enc_be64 :: "u64 \<Rightarrow> u8 list" where
  "enc_be64 v = enc_be32 (ucast (drop_bit 32 v)) @ enc_be32 (ucast v)"

lemmas enc_defs = enc_le16_def enc_be16_def enc_le32_def enc_be32_def enc_le64_def enc_be64_def

lemma mem_rd_take_drop:
  "j < n \<Longrightarrow> i + n \<le> length p \<Longrightarrow> mem_rd p (i + j) = Some (take n (drop i p) ! j)"
  by (simp add: mem_rd_def)

lemma mem_wr_dst1: "mem_wr p i v = mem_dst p i [v]"
  by (auto simp: mem_wr_def mem_dst_def upd_conv_take_nth_drop)

lemma mem_dst_append:
  assumes "i + length xs + length ys \<le> length p"
  shows "Option.bind (mem_dst p i xs) (\<lambda>p1. mem_dst p1 (i + length xs) ys) = mem_dst p i (xs @ ys)"
    and "Option.bind (mem_dst p (i + length xs) ys) (\<lambda>p1. mem_dst p1 i xs) = mem_dst p i (xs @ ys)"
  using assms by (simp_all add: mem_dst_def min_absorb2 ac_simps)

lemma join16:
  "ucast (ucast v :: u8) OR push_bit 8 (ucast (ucast (drop_bit 8 v) :: u8)) = (v :: u16)"
  by (rule bit_word_eqI) (auto simp: bit_simps)

lemma split16:
  "ucast (ucast a OR push_bit 8 (ucast b) :: u16) = (a :: u8)"
  "ucast (drop_bit 8 (ucast a OR push_bit 8 (ucast b) :: u16)) = (b :: u8)"
  by (rule bit_word_eqI, auto simp: bit_simps dest: bit_imp_le_length)+

lemma join32:
  "ucast (ucast v :: u16) OR push_bit 16 (ucast (ucast (drop_bit 16 v) :: u16)) = (v :: u32)"
  by (rule bit_word_eqI) (auto simp: bit_simps)

lemma split32:
  "ucast (ucast a OR push_bit 16 (ucast b) :: u32) = (a :: u16)"
  "ucast (drop_bit 16 (ucast a OR push_bit 16 (ucast b) :: u32)) = (b :: u16)"
  by (rule bit_word_eqI, auto simp: bit_simps dest: bit_imp_le_length)+

lemma join64:
  "ucast (ucast v :: u32) OR push_bit 32 (ucast (ucast (drop_bit 32 v) :: u32)) = (v :: u64)"
  by (rule bit_word_eqI) (auto simp: bit_simps)

lemma split64:
  "ucast (ucast a OR push_bit 32 (ucast b) :: u64) = (a :: u32)"
  "ucast (drop_bit 32 (ucast a OR push_bit 32 (ucast b) :: u64)) = (b :: u32)"
  by (rule bit_word_eqI, auto simp: bit_simps dest: bit_imp_le_length)+

lemma list2_exists:
  assumes "length ys = 2" obtains a b where "ys = [a, b]"
  using assms by (metis One_nat_def Suc_1 length_0_conv length_Suc_conv)

lemma list_halves:
  assumes "length ys = 2 * k" obtains as bs where "ys = as @ bs" "length as = k" "length bs = k"
  using assms that [of "take k ys" "drop k ys"] by simp

interpretation le16: unaligned_pair 2 enc_le16 get_unaligned_le16 put_unaligned_le16
proof
  fix i v and p :: "u8 list"
  show "length (enc_le16 v) = 2" by (simp add: enc_le16_def)
  assume b: "i + 2 \<le> length p"
  show "put_unaligned_le16 v p i = mem_dst p i (enc_le16 v)"
    using b mem_dst_append(1) [of i "[ucast v]" "[ucast (drop_bit 8 v)]" p]
    by (simp add: put_unaligned_le16_def raw_put_unaligned_le16_def mem_wr_dst1 enc_le16_def)
  assume "take 2 (drop i p) = enc_le16 v"
  then show "get_unaligned_le16 p i = Some v"
    using mem_rd_take_drop [of 0 2 i p] mem_rd_take_drop [of 1 2 i p] b
    by (simp add: get_unaligned_le16_def raw_get_unaligned_le16_def enc_le16_def join16)
next
  fix ys :: "u8 list" assume "length ys = 2"
  then obtain a b where "ys = [a, b]" by (rule list2_exists)
  then have "ys = enc_le16 (ucast a OR push_bit 8 (ucast b))" by (simp only: enc_le16_def split16)
  then show "\<exists>v. ys = enc_le16 v" ..
qed

interpretation be16: unaligned_pair 2 enc_be16 get_unaligned_be16 put_unaligned_be16
proof
  fix i v and p :: "u8 list"
  show "length (enc_be16 v) = 2" by (simp add: enc_be16_def)
  assume b: "i + 2 \<le> length p"
  show "put_unaligned_be16 v p i = mem_dst p i (enc_be16 v)"
    using b mem_dst_append(1) [of i "[ucast (drop_bit 8 v)]" "[ucast v]" p]
    by (simp add: put_unaligned_be16_def raw_put_unaligned_be16_def mem_wr_dst1 enc_be16_def)
  assume "take 2 (drop i p) = enc_be16 v"
  then show "get_unaligned_be16 p i = Some v"
    using mem_rd_take_drop [of 0 2 i p] mem_rd_take_drop [of 1 2 i p] b
    by (simp add: get_unaligned_be16_def raw_get_unaligned_be16_def enc_be16_def or.commute join16)
next
  fix ys :: "u8 list" assume "length ys = 2"
  then obtain a b where "ys = [a, b]" by (rule list2_exists)
  then have "ys = enc_be16 (ucast b OR push_bit 8 (ucast a))" by (simp only: enc_be16_def split16)
  then show "\<exists>v. ys = enc_be16 v" ..
qed

lemma join32_bytes:
  "ucast (ucast (ucast v :: u16) :: u8) OR push_bit 8 (ucast (ucast (drop_bit 8 (ucast v :: u16)) :: u8)) OR
   push_bit 16 (ucast (ucast (ucast (drop_bit 16 v) :: u16) :: u8)) OR
   push_bit 24 (ucast (ucast (drop_bit 8 (ucast (drop_bit 16 v) :: u16)) :: u8)) = (v :: u32)" (is "?l = v")
proof (rule bit_word_eqI)
  fix n assume n: "n < LENGTH(32)"
  consider "n < 8" | "8 \<le> n" "n < 16" | "16 \<le> n" "n < 24" | "24 \<le> n" by linarith
  then show "bit ?l n \<longleftrightarrow> bit v n" using n by cases (auto simp: bit_simps)
qed

lemma join32_bytes_be:
  "push_bit 24 (ucast (ucast (drop_bit 8 (ucast (drop_bit 16 v) :: u16)) :: u8)) OR
   push_bit 16 (ucast (ucast (ucast (drop_bit 16 v) :: u16) :: u8)) OR
   push_bit 8 (ucast (ucast (drop_bit 8 (ucast v :: u16)) :: u8)) OR
   ucast (ucast (ucast v :: u16) :: u8) = (v :: u32)"
  using join32_bytes [of v] by (simp only: ac_simps)

text \<open>The wider writers are two narrower ones, the high half first for little endian.\<close>

lemma mem_dst_length: "mem_dst p i xs = Some p' \<Longrightarrow> length p' = length p"
  by (auto simp: mem_dst_def split: if_splits)

lemma raw_put16_dst:
  "i + 2 \<le> length p \<Longrightarrow> raw_put_unaligned_le16 v p i = mem_dst p i (enc_le16 v)"
  "i + 2 \<le> length p \<Longrightarrow> raw_put_unaligned_be16 v p i = mem_dst p i (enc_be16 v)"
  using le16.put_enc [of i p v] be16.put_enc [of i p v]
  by (simp_all add: put_unaligned_le16_def put_unaligned_be16_def)

lemma raw_put32_dst:
  assumes "i + 4 \<le> length p"
  shows "raw_put_unaligned_le32 v p i = mem_dst p i (enc_le32 v)"
    and "raw_put_unaligned_be32 v p i = mem_dst p i (enc_be32 v)"
proof -
  let ?lo = "ucast v :: u16" and ?hi = "ucast (drop_bit 16 v) :: u16"
  have l: "length (enc_le16 x) = 2" "length (enc_be16 x) = 2" for x
    by (simp_all add: enc_defs)
  have b: "i + 2 + 2 \<le> length p" and b0: "i + 2 \<le> length p" using assms by simp_all
  have "raw_put_unaligned_le32 v p i
      = Option.bind (mem_dst p (i + 2) (enc_le16 ?hi)) (\<lambda>p1. mem_dst p1 i (enc_le16 ?lo))"
    unfolding raw_put_unaligned_le32_def raw_put16_dst(1) [OF b]
    by (rule Option.bind_cong [OF refl]) (use assms in \<open>simp add: raw_put16_dst mem_dst_length\<close>)
  then show "raw_put_unaligned_le32 v p i = mem_dst p i (enc_le32 v)"
    using mem_dst_append(2) [of i "enc_le16 ?lo" "enc_le16 ?hi" p] assms
    by (simp add: enc_le32_def l)
  have "raw_put_unaligned_be32 v p i
      = Option.bind (mem_dst p i (enc_be16 ?hi)) (\<lambda>p1. mem_dst p1 (i + 2) (enc_be16 ?lo))"
    unfolding raw_put_unaligned_be32_def raw_put16_dst(2) [OF b0]
    by (rule Option.bind_cong [OF refl]) (use assms in \<open>simp add: raw_put16_dst mem_dst_length\<close>)
  then show "raw_put_unaligned_be32 v p i = mem_dst p i (enc_be32 v)"
    using mem_dst_append(1) [of i "enc_be16 ?hi" "enc_be16 ?lo" p] assms
    by (simp add: enc_be32_def l)
qed

interpretation le32: unaligned_pair 4 enc_le32 get_unaligned_le32 put_unaligned_le32
proof
  fix i v and p :: "u8 list"
  show "length (enc_le32 v) = 4" by (simp add: enc_defs)
  assume b: "i + 4 \<le> length p"
  show "put_unaligned_le32 v p i = mem_dst p i (enc_le32 v)"
    using b by (simp add: put_unaligned_le32_def raw_put32_dst)
  assume "take 4 (drop i p) = enc_le32 v"
  then show "get_unaligned_le32 p i = Some v"
    using mem_rd_take_drop [of 0 4 i p] mem_rd_take_drop [of 1 4 i p]
      mem_rd_take_drop [of 2 4 i p] mem_rd_take_drop [of 3 4 i p] b
    by (simp add: get_unaligned_le32_def raw_get_unaligned_le32_def enc_defs join32_bytes)
next
  fix ys :: "u8 list" assume "length ys = 4"
  then obtain as bs where "ys = as @ bs" "length as = 2" "length bs = 2"
    using list_halves [of ys 2] by auto
  moreover from calculation obtain a b where "as = enc_le16 a" "bs = enc_le16 b"
    using le16.enc_onto [of as] le16.enc_onto [of bs] by blast
  ultimately have "ys = enc_le32 (ucast a OR push_bit 16 (ucast b))"
    by (simp only: enc_le32_def split32)
  then show "\<exists>v. ys = enc_le32 v" ..
qed

interpretation be32: unaligned_pair 4 enc_be32 get_unaligned_be32 put_unaligned_be32
proof
  fix i v and p :: "u8 list"
  show "length (enc_be32 v) = 4" by (simp add: enc_defs)
  assume b: "i + 4 \<le> length p"
  show "put_unaligned_be32 v p i = mem_dst p i (enc_be32 v)"
    using b by (simp add: put_unaligned_be32_def raw_put32_dst)
  assume "take 4 (drop i p) = enc_be32 v"
  then show "get_unaligned_be32 p i = Some v"
    using mem_rd_take_drop [of 0 4 i p] mem_rd_take_drop [of 1 4 i p]
      mem_rd_take_drop [of 2 4 i p] mem_rd_take_drop [of 3 4 i p] b
    by (simp add: get_unaligned_be32_def raw_get_unaligned_be32_def enc_defs join32_bytes_be)
next
  fix ys :: "u8 list" assume "length ys = 4"
  then obtain as bs where "ys = as @ bs" "length as = 2" "length bs = 2"
    using list_halves [of ys 2] by auto
  moreover from calculation obtain a b where "as = enc_be16 a" "bs = enc_be16 b"
    using be16.enc_onto [of as] be16.enc_onto [of bs] by blast
  ultimately have "ys = enc_be32 (ucast b OR push_bit 16 (ucast a))"
    by (simp only: enc_be32_def split32)
  then show "\<exists>v. ys = enc_be32 v" ..
qed

text \<open>The 64-bit pairs are made of two 32-bit ones.\<close>

lemma raw_put64_dst:
  assumes "i + 8 \<le> length p"
  shows "raw_put_unaligned_le64 v p i = mem_dst p i (enc_le64 v)"
    and "raw_put_unaligned_be64 v p i = mem_dst p i (enc_be64 v)"
proof -
  let ?lo = "ucast v :: u32" and ?hi = "ucast (drop_bit 32 v) :: u32"
  have b: "i + 4 + 4 \<le> length p" and b0: "i + 4 \<le> length p" using assms by simp_all
  have "raw_put_unaligned_le64 v p i
      = Option.bind (mem_dst p (i + 4) (enc_le32 ?hi)) (\<lambda>p1. mem_dst p1 i (enc_le32 ?lo))"
    unfolding raw_put_unaligned_le64_def raw_put32_dst(1) [OF b]
    by (rule Option.bind_cong [OF refl]) (use assms in \<open>simp add: raw_put32_dst mem_dst_length\<close>)
  then show "raw_put_unaligned_le64 v p i = mem_dst p i (enc_le64 v)"
    using mem_dst_append(2) [of i "enc_le32 ?lo" "enc_le32 ?hi" p] assms
    by (simp add: enc_le64_def le32.len_enc)
  have "raw_put_unaligned_be64 v p i
      = Option.bind (mem_dst p i (enc_be32 ?hi)) (\<lambda>p1. mem_dst p1 (i + 4) (enc_be32 ?lo))"
    unfolding raw_put_unaligned_be64_def raw_put32_dst(2) [OF b0]
    by (rule Option.bind_cong [OF refl]) (use assms in \<open>simp add: raw_put32_dst mem_dst_length\<close>)
  then show "raw_put_unaligned_be64 v p i = mem_dst p i (enc_be64 v)"
    using mem_dst_append(1) [of i "enc_be32 ?hi" "enc_be32 ?lo" p] assms
    by (simp add: enc_be64_def be32.len_enc)
qed

lemma take_halves:
  assumes "take (k + k) (drop i p) = xs @ ys" "length xs = k"
  shows "take k (drop i p) = xs" and "take k (drop (i + k) p) = ys"
proof -
  have "take k (take (k + k) (drop i p)) = take k (xs @ ys)" using assms(1) by simp
  then show "take k (drop i p) = xs" using assms(2) by simp
  have "drop k (take (k + k) (drop i p)) = drop k (xs @ ys)" using assms(1) by simp
  then show "take k (drop (i + k) p) = ys" using assms(2) by (simp add: drop_take add.commute)
qed

interpretation le64: unaligned_pair 8 enc_le64 get_unaligned_le64 put_unaligned_le64
proof
  fix i v and p :: "u8 list"
  show "length (enc_le64 v) = 8" by (simp add: enc_defs)
  assume b: "i + 8 \<le> length p"
  show "put_unaligned_le64 v p i = mem_dst p i (enc_le64 v)"
    using b by (simp add: put_unaligned_le64_def raw_put64_dst)
  let ?lo = "ucast v :: u32" and ?hi = "ucast (drop_bit 32 v) :: u32"
  assume "take 8 (drop i p) = enc_le64 v"
  then have t: "take (4 + 4) (drop i p) = enc_le32 ?lo @ enc_le32 ?hi" by (simp add: enc_le64_def)
  have "get_unaligned_le32 p i = Some ?lo" "get_unaligned_le32 p (i + 4) = Some ?hi"
    using take_halves [OF t] b by (simp_all add: le32.get_enc le32.len_enc)
  then show "get_unaligned_le64 p i = Some v"
    using join64 [of v]
    by (simp add: get_unaligned_le64_def raw_get_unaligned_le64_def get_unaligned_le32_def or.commute)
next
  fix ys :: "u8 list" assume "length ys = 8"
  then obtain as bs where "ys = as @ bs" "length as = 4" "length bs = 4"
    using list_halves [of ys 4] by auto
  moreover from calculation obtain a b where "as = enc_le32 a" "bs = enc_le32 b"
    using le32.enc_onto [of as] le32.enc_onto [of bs] by blast
  ultimately have "ys = enc_le64 (ucast a OR push_bit 32 (ucast b))"
    by (simp only: enc_le64_def split64)
  then show "\<exists>v. ys = enc_le64 v" ..
qed

interpretation be64: unaligned_pair 8 enc_be64 get_unaligned_be64 put_unaligned_be64
proof
  fix i v and p :: "u8 list"
  show "length (enc_be64 v) = 8" by (simp add: enc_defs)
  assume b: "i + 8 \<le> length p"
  show "put_unaligned_be64 v p i = mem_dst p i (enc_be64 v)"
    using b by (simp add: put_unaligned_be64_def raw_put64_dst)
  let ?lo = "ucast v :: u32" and ?hi = "ucast (drop_bit 32 v) :: u32"
  assume "take 8 (drop i p) = enc_be64 v"
  then have t: "take (4 + 4) (drop i p) = enc_be32 ?hi @ enc_be32 ?lo" by (simp add: enc_be64_def)
  have "get_unaligned_be32 p i = Some ?hi" "get_unaligned_be32 p (i + 4) = Some ?lo"
    using take_halves [OF t] b by (simp_all add: be32.get_enc be32.len_enc)
  then show "get_unaligned_be64 p i = Some v"
    using join64 [of v]
    by (simp add: get_unaligned_be64_def raw_get_unaligned_be64_def get_unaligned_be32_def or.commute)
next
  fix ys :: "u8 list" assume "length ys = 8"
  then obtain as bs where "ys = as @ bs" "length as = 4" "length bs = 4"
    using list_halves [of ys 4] by auto
  moreover from calculation obtain a b where "as = enc_be32 a" "bs = enc_be32 b"
    using be32.enc_onto [of as] be32.enc_onto [of bs] by blast
  ultimately have "ys = enc_be64 (ucast b OR push_bit 32 (ucast a))"
    by (simp only: enc_be64_def split64)
  then show "\<exists>v. ys = enc_be64 v" ..
qed

section \<open>Properties\<close>

text \<open>writing a value with any of the six writers and reading it back with its reader gives
  the value, wherever the bytes lie inside the object.\<close>

theorem unaligned_roundtrip:
  assumes "i + 8 \<le> length p"
  shows "do { p' \<leftarrow> put_unaligned_le16 a p i; get_unaligned_le16 p' i } = Some a \<and>
    do { p' \<leftarrow> put_unaligned_be16 a p i; get_unaligned_be16 p' i } = Some a \<and>
    do { p' \<leftarrow> put_unaligned_le32 b p i; get_unaligned_le32 p' i } = Some b \<and>
    do { p' \<leftarrow> put_unaligned_be32 b p i; get_unaligned_be32 p' i } = Some b \<and>
    do { p' \<leftarrow> put_unaligned_le64 c p i; get_unaligned_le64 p' i } = Some c \<and>
    do { p' \<leftarrow> put_unaligned_be64 c p i; get_unaligned_be64 p' i } = Some c"
proof -
  have "i + 2 \<le> length p" "i + 4 \<le> length p" using assms by simp_all
  then show ?thesis
    using le16.roundtrip be16.roundtrip le32.roundtrip be32.roundtrip
      le64.roundtrip [OF assms] be64.roundtrip [OF assms] by blast
qed

theorem unaligned_roundtrip_witness:
  "do { p' \<leftarrow> put_unaligned_be32 0x12345678 (replicate 9 0) 1; get_unaligned_be32 p' 1 } = Some 0x12345678"
  using unaligned_roundtrip [of 1 "replicate 9 0" _ "0x12345678"] by simp

text \<open>the writers touch only the bytes of their value: a 32-bit write, in either order of
  bytes, leaves every other byte of the object as it was, and it writes the same four bytes in
  reverse order.\<close>

theorem unaligned_put_frame:
  assumes "i + 4 \<le> length p"
  shows "\<exists>pl pb. put_unaligned_le32 v p i = Some pl \<and> put_unaligned_be32 v p i = Some pb \<and>
    (\<forall>j < length p. j < i \<or> i + 4 \<le> j \<longrightarrow> pl ! j = p ! j \<and> pb ! j = p ! j) \<and>
    take 4 (drop i pl) = rev (take 4 (drop i pb))"
proof -
  note l = le32.put_ok [OF assms, of v] and b = be32.put_ok [OF assms, of v]
  let ?pl = "take i p @ enc_le32 v @ drop (i + 4) p" and ?pb = "take i p @ enc_be32 v @ drop (i + 4) p"
  have "enc_le32 v = rev (enc_be32 v)" by (simp add: enc_defs)
  then have r: "take 4 (drop i ?pl) = rev (take 4 (drop i ?pb))"
    using assms by (simp add: le32.len_enc be32.len_enc)
  have "\<forall>j < length p. j < i \<or> i + 4 \<le> j \<longrightarrow> ?pl ! j = p ! j \<and> ?pb ! j = p ! j"
    using le32.put_elsewhere [OF assms l] be32.put_elsewhere [OF assms b] by blast
  with l b r show ?thesis by blast
qed

theorem unaligned_put_frame_witness:
  "\<exists>pl pb. put_unaligned_le32 0xAABBCCDD [1, 2, 3, 4, 5] 1 = Some pl \<and>
    put_unaligned_be32 0xAABBCCDD [1, 2, 3, 4, 5] 1 = Some pb \<and>
    (\<forall>j < length [1, 2, 3, 4, 5 :: u8]. j < 1 \<or> 1 + 4 \<le> j \<longrightarrow>
       pl ! j = [1, 2, 3, 4, 5] ! j \<and> pb ! j = [1, 2, 3, 4, 5] ! j) \<and>
    take 4 (drop 1 pl) = rev (take 4 (drop 1 pb))"
  by (rule unaligned_put_frame) simp

end
