(* ===== verification/Detector.thy ===== *)
theory Detector
  imports ByteShift
begin

text \<open>
  Media type detection, \<open>sdk/lib/multimedia/mplayer/detector.c\<close>: the signature tests of the
  container, picture and audio formats, the scans for raw video streams, and the priority
  chain \<open>txmplayer_detect_mtype\<close>. Offsets and lengths are naturals below \<open>2^32\<close>, with the
  wrap of a 32-bit sum written out where the code does not bound its operands. Every read goes through \<open>mem_rd\<close> or
  \<open>mem_src\<close>, in the order of the code's short-circuit tests, so a read past the object
  the caller passed is \<open>None\<close>. A \<open>for\<close> loop is a recursion on the list of its indices.
\<close>

datatype MEDIA_DATA_TYPE =
    MEDIA_DTYPE_PIC_JPG | MEDIA_DTYPE_PIC_PNG | MEDIA_DTYPE_PIC_BMP | MEDIA_DTYPE_PIC_GIF
  | MEDIA_DTYPE_PIC_WEBP | MEDIA_DTYPE_PIC_TIFF | MEDIA_DTYPE_PIC_HEIF | MEDIA_DTYPE_PIC_SVG
  | MEDIA_DTYPE_AUDIO_MP3 | MEDIA_DTYPE_AUDIO_AAC | MEDIA_DTYPE_AUDIO_WAV | MEDIA_DTYPE_AUDIO_FLAC
  | MEDIA_DTYPE_AUDIO_OGG | MEDIA_DTYPE_AUDIO_WMA | MEDIA_DTYPE_AUDIO_APE | MEDIA_DTYPE_AUDIO_M4A
  | MEDIA_DTYPE_VIDEO_MP4 | MEDIA_DTYPE_VIDEO_MKV | MEDIA_DTYPE_VIDEO_AVI | MEDIA_DTYPE_VIDEO_TS
  | MEDIA_DTYPE_VIDEO_FLV | MEDIA_DTYPE_VIDEO_MOV | MEDIA_DTYPE_VIDEO_WEBM | MEDIA_DTYPE_VIDEO_WMV
  | MEDIA_DTYPE_VIDEO_M2TS
  | MEDIA_DTYPE_RAW_H264 | MEDIA_DTYPE_RAW_H265 | MEDIA_DTYPE_RAW_AV1 | MEDIA_DTYPE_RAW_VP9
  | MEDIA_DTYPE_RAW_VP8 | MEDIA_DTYPE_RAW_MPEG2 | MEDIA_DTYPE_RAW_MPEG4
  | MEDIA_DTYPE_MAX

section \<open>Tests on bytes\<close>

text \<open>The short-circuit \<open>&&\<close> and \<open>||\<close> of C over tests that read memory.\<close>

definition cand :: "bool option \<Rightarrow> bool option \<Rightarrow> bool option" where
  "cand a b = do { x \<leftarrow> a; if x then b else Some False }"

definition cor :: "bool option \<Rightarrow> bool option \<Rightarrow> bool option" where
  "cor a b = do { x \<leftarrow> a; if x then Some True else b }"

definition test :: "u8 list \<Rightarrow> nat \<Rightarrow> (u8 \<Rightarrow> bool) \<Rightarrow> bool option" where
  "test data i P = do { b \<leftarrow> mem_rd data i; Some (P b) }"

definition memcmp_eq :: "u8 list \<Rightarrow> nat \<Rightarrow> u8 list \<Rightarrow> bool option" where
  "memcmp_eq data off sig = do { x \<leftarrow> mem_src data off (length sig); Some (x = sig) }"

definition found :: "MEDIA_DATA_TYPE \<Rightarrow> bool option \<Rightarrow> MEDIA_DATA_TYPE option" where
  "found t c = do { x \<leftarrow> c; Some (if x then t else MEDIA_DTYPE_MAX) }"

definition CHECK_SIGNATURE :: "u8 list \<Rightarrow> nat \<Rightarrow> u8 list \<Rightarrow> bool option" where
  "CHECK_SIGNATURE data len sig = cand (Some (len \<ge> length sig)) (memcmp_eq data 0 sig)"

fun skip_ws :: "u8 list \<Rightarrow> nat list \<Rightarrow> nat \<Rightarrow> nat option" where
  "skip_ws data [] p = Some p"
| "skip_ws data (i # is) p =
     do { b \<leftarrow> mem_rd data i;
          if b = 0x20 \<or> b = 0x09 \<or> b = 0x0D \<or> b = 0x0A then skip_ws data is (i + 1) else Some i }"

fun sig_loop :: "u8 list \<Rightarrow> nat \<Rightarrow> u8 list \<Rightarrow> nat list \<Rightarrow> bool option" where
  "sig_loop data data_pos sig [] = Some True"
| "sig_loop data data_pos sig (i # is) =
     do { b \<leftarrow> mem_rd data (data_pos + i); c \<leftarrow> mem_rd sig i;
          if b \<noteq> c \<and> b \<noteq> (c XOR 0x20) then Some False else sig_loop data data_pos sig is }"

definition check_signature_ignore_whitespace :: "u8 list \<Rightarrow> nat \<Rightarrow> u8 list \<Rightarrow> bool option" where
  "check_signature_ignore_whitespace data len sig =
     (if len < length sig then Some False
      else do { data_pos \<leftarrow> skip_ws data [0..<len] 0;
                if len - data_pos < length sig then Some False
                else sig_loop data data_pos sig [0..<length sig] })"

fun pattern_loop :: "u8 list \<Rightarrow> nat \<Rightarrow> u8 list \<Rightarrow> nat list \<Rightarrow> nat option option" where
  "pattern_loop data base needle [] = Some None"
| "pattern_loop data base needle (i # is) =
     do { m \<leftarrow> memcmp_eq data (base + i) needle;
          if m then Some (Some (base + i)) else pattern_loop data base needle is }"

text \<open>The haystack is the \<open>hlen\<close> bytes of \<open>data\<close> from \<open>base\<close> on; the result is an offset.\<close>

definition find_pattern :: "u8 list \<Rightarrow> nat \<Rightarrow> nat \<Rightarrow> u8 list \<Rightarrow> nat option option" where
  "find_pattern data base hlen needle =
     (if hlen < length needle then Some None
      else pattern_loop data base needle [0..<hlen - length needle + 1])"

fun packet_loop :: "u8 list \<Rightarrow> nat \<Rightarrow> nat \<Rightarrow> nat list \<Rightarrow> nat \<Rightarrow> nat option" where
  "packet_loop data len packet_size [] valid = Some valid"
| "packet_loop data len packet_size (i # is) valid =
     (if i * packet_size < len
      then do { p0 \<leftarrow> mem_rd data (i * packet_size);
                if p0 \<noteq> 0x47 then packet_loop data len packet_size is valid
                else if packet_size = 188
                then do { p1 \<leftarrow> mem_rd data (i * packet_size + 1);
                          p2 \<leftarrow> mem_rd data (i * packet_size + 2);
                          (let pid = push_bit 8 (ucast (p1 AND 0x1F)) OR ucast p2 :: u16 in
                           if pid AND 0x1FFF = 0x1FFF then packet_loop data len packet_size is valid
                           else packet_loop data len packet_size is (valid + 1)) }
                else packet_loop data len packet_size is (valid + 1) }
      else Some valid)"

definition check_packet_structure :: "u8 list \<Rightarrow> nat \<Rightarrow> nat \<Rightarrow> nat \<Rightarrow> bool option" where
  "check_packet_structure data len packet_size min_packets =
     (if len < packet_size * min_packets then Some False
      else do { valid \<leftarrow> packet_loop data len packet_size [0..<min_packets] 0;
                Some (valid \<ge> min_packets) })"

section \<open>MP4 boxes\<close>

function mp4_boxes :: "u8 list \<Rightarrow> nat \<Rightarrow> nat \<Rightarrow> MEDIA_DATA_TYPE option" where
  "mp4_boxes data len offset =
     (if (offset + 8) mod 2 ^ 32 \<le> len \<and> offset < 1024
      then do { box_size \<leftarrow> get_unaligned_be32 data offset;
                box_type \<leftarrow> get_unaligned_be32 data (offset + 4);
                if unat box_size < 8 \<or> unat box_size > len - offset then Some MEDIA_DTYPE_MAX
                else if box_type \<in> {0x66747970, 0x6D6F6F76, 0x6D6F6F66, 0x6D646174}
                then Some MEDIA_DTYPE_VIDEO_MP4
                else mp4_boxes data len (offset + unat box_size) }
      else Some MEDIA_DTYPE_MAX)"
  by pat_completeness auto
termination
  by (relation "measure (\<lambda>(data, len, offset). 1024 - offset)") auto

declare mp4_boxes.simps [simp del]

definition detect_mp4 :: "u8 list \<Rightarrow> nat \<Rightarrow> MEDIA_DATA_TYPE option" where
  "detect_mp4 data len = (if len < 8 then Some MEDIA_DTYPE_MAX else mp4_boxes data len 0)"

section \<open>Raw video streams\<close>

text \<open>The start code test at \<open>i\<close>: the offset of the NAL unit after a three- or four-byte start code.\<close>

definition start_code_at :: "u8 list \<Rightarrow> nat \<Rightarrow> nat \<Rightarrow> nat option option" where
  "start_code_at data len i =
     do { three \<leftarrow> cand (Some (i \<le> len - 3)) (cand (test data i (\<lambda>b. b = 0))
                    (cand (test data (i + 1) (\<lambda>b. b = 0)) (test data (i + 2) (\<lambda>b. b = 1))));
          if three then Some (Some (i + 3))
          else do { four \<leftarrow> cand (Some (i \<le> len - 4)) (cand (test data i (\<lambda>b. b = 0))
                      (cand (test data (i + 1) (\<lambda>b. b = 0)) (cand (test data (i + 2) (\<lambda>b. b = 0))
                        (test data (i + 3) (\<lambda>b. b = 1)))));
                    Some (if four then Some (i + 4) else None) } }"

fun h264_loop :: "u8 list \<Rightarrow> nat \<Rightarrow> nat list \<Rightarrow> nat \<Rightarrow> nat \<Rightarrow> nat \<Rightarrow> MEDIA_DATA_TYPE option" where
  "h264_loop data len [] start_code_count sps_count pps_count = Some MEDIA_DTYPE_MAX"
| "h264_loop data len (i # is) start_code_count sps_count pps_count =
     do { nal \<leftarrow> start_code_at data len i;
          case nal of
            None \<Rightarrow> h264_loop data len is start_code_count sps_count pps_count
          | Some nal_offset \<Rightarrow>
              (if nal_offset < len
               then do { b \<leftarrow> mem_rd data nal_offset;
                 (let nal_unit_type = b AND 0x1F;
                      sps = (if nal_unit_type = 7 then sps_count + 1 else sps_count);
                      pps = (if nal_unit_type = 8 then pps_count + 1 else pps_count);
                      scc = (if nal_unit_type = 5 \<or> nal_unit_type = 1
                             then start_code_count + 1 else start_code_count)
                  in if sps \<ge> 1 \<and> pps \<ge> 1 \<and> scc \<ge> 2 then Some MEDIA_DTYPE_RAW_H264
                     else h264_loop data len is scc sps pps) }
               else h264_loop data len is start_code_count sps_count pps_count) }"

definition detect_h264_raw :: "u8 list \<Rightarrow> nat \<Rightarrow> MEDIA_DATA_TYPE option" where
  "detect_h264_raw data len =
     (if len < 16 then Some MEDIA_DTYPE_MAX else h264_loop data len [0..<len - 4 + 1] 0 0 0)"

fun h265_loop :: "u8 list \<Rightarrow> nat \<Rightarrow> nat list \<Rightarrow> nat \<Rightarrow> nat \<Rightarrow> nat \<Rightarrow> nat \<Rightarrow> MEDIA_DATA_TYPE option" where
  "h265_loop data len [] start_code_count vps_count sps_count pps_count = Some MEDIA_DTYPE_MAX"
| "h265_loop data len (i # is) start_code_count vps_count sps_count pps_count =
     do { nal \<leftarrow> start_code_at data len i;
          case nal of
            None \<Rightarrow> h265_loop data len is start_code_count vps_count sps_count pps_count
          | Some nal_offset \<Rightarrow>
              (if nal_offset < len
               then do { b \<leftarrow> mem_rd data nal_offset;
                 (let nal_unit_type = drop_bit 1 b AND 0x3F;
                      vps = (if nal_unit_type = 32 then vps_count + 1 else vps_count);
                      sps = (if nal_unit_type = 33 then sps_count + 1 else sps_count);
                      pps = (if nal_unit_type = 34 then pps_count + 1 else pps_count);
                      scc = (if nal_unit_type = 19 \<or> nal_unit_type = 1
                             then start_code_count + 1 else start_code_count)
                  in if vps \<ge> 1 \<and> sps \<ge> 1 \<and> pps \<ge> 1 \<and> scc \<ge> 2 then Some MEDIA_DTYPE_RAW_H265
                     else h265_loop data len is scc vps sps pps) }
               else h265_loop data len is start_code_count vps_count sps_count pps_count) }"

definition detect_h265_raw :: "u8 list \<Rightarrow> nat \<Rightarrow> MEDIA_DATA_TYPE option" where
  "detect_h265_raw data len =
     (if len < 16 then Some MEDIA_DTYPE_MAX else h265_loop data len [0..<len - 4 + 1] 0 0 0 0)"

fun av1_loop :: "u8 list \<Rightarrow> nat list \<Rightarrow> nat \<Rightarrow> MEDIA_DATA_TYPE option" where
  "av1_loop data [] valid_obu_count = Some MEDIA_DTYPE_MAX"
| "av1_loop data (i # is) valid_obu_count =
     do { obu_header \<leftarrow> mem_rd data i;
          if obu_header AND 0xF0 \<noteq> 0 then av1_loop data is valid_obu_count
          else if obu_header AND 0x0F \<in> {1, 3, 6, 4}
          then (if valid_obu_count + 1 \<ge> 3 then Some MEDIA_DTYPE_RAW_AV1
                else av1_loop data is (valid_obu_count + 1))
          else av1_loop data is valid_obu_count }"

definition detect_av1_raw :: "u8 list \<Rightarrow> nat \<Rightarrow> MEDIA_DATA_TYPE option" where
  "detect_av1_raw data len =
     (if len < 8 then Some MEDIA_DTYPE_MAX else av1_loop data [0..<len - 2 + 1] 0)"

fun vp9_loop :: "u8 list \<Rightarrow> nat list \<Rightarrow> nat \<Rightarrow> MEDIA_DATA_TYPE option" where
  "vp9_loop data [] frame_count = Some MEDIA_DTYPE_MAX"
| "vp9_loop data (i # is) frame_count =
     do { b \<leftarrow> mem_rd data i;
          if b AND 0x80 = 0 \<and> drop_bit 4 b AND 0x07 \<le> 4
          then (if frame_count + 1 \<ge> 3 then Some MEDIA_DTYPE_RAW_VP9
                else vp9_loop data is (frame_count + 1))
          else vp9_loop data is frame_count }"

definition detect_vp9_raw :: "u8 list \<Rightarrow> nat \<Rightarrow> MEDIA_DATA_TYPE option" where
  "detect_vp9_raw data len =
     (if len < 8 then Some MEDIA_DTYPE_MAX else vp9_loop data [0..<len - 3 + 1] 0)"

fun vp8_loop :: "u8 list \<Rightarrow> nat list \<Rightarrow> nat \<Rightarrow> MEDIA_DATA_TYPE option" where
  "vp8_loop data [] frame_count = Some MEDIA_DTYPE_MAX"
| "vp8_loop data (i # is) frame_count =
     do { b \<leftarrow> mem_rd data i;
          if b AND 0xF0 = 0x90 \<and> b AND 0x07 \<le> 3
          then (if frame_count + 1 \<ge> 3 then Some MEDIA_DTYPE_RAW_VP8
                else vp8_loop data is (frame_count + 1))
          else vp8_loop data is frame_count }"

definition detect_vp8_raw :: "u8 list \<Rightarrow> nat \<Rightarrow> MEDIA_DATA_TYPE option" where
  "detect_vp8_raw data len =
     (if len < 8 then Some MEDIA_DTYPE_MAX else vp8_loop data [0..<len - 6 + 1] 0)"

definition prefix001 :: "u8 list \<Rightarrow> nat \<Rightarrow> bool option" where
  "prefix001 data i = cand (test data i (\<lambda>b. b = 0))
     (cand (test data (i + 1) (\<lambda>b. b = 0)) (test data (i + 2) (\<lambda>b. b = 1)))"

fun mpeg2_loop :: "u8 list \<Rightarrow> nat list \<Rightarrow> nat \<Rightarrow> nat \<Rightarrow> MEDIA_DATA_TYPE option" where
  "mpeg2_loop data [] start_code_count sequence_header_count = Some MEDIA_DTYPE_MAX"
| "mpeg2_loop data (i # is) start_code_count sequence_header_count =
     do { c \<leftarrow> prefix001 data i;
          if c then do { start_code \<leftarrow> mem_rd data (i + 3);
            (let seq = (if start_code = 0xB3
                        then sequence_header_count + 1 else sequence_header_count);
                 scc = (if start_code = 0x00 then start_code_count + 1
                        else if start_code = 0xB3 then start_code_count
                        else if start_code = 0xB8 then start_code_count + 1
                        else if start_code \<ge> 0x01 \<and> start_code \<le> 0xAF then start_code_count + 1
                        else start_code_count)
             in if seq \<ge> 1 \<and> scc \<ge> 3 then Some MEDIA_DTYPE_RAW_MPEG2
                else mpeg2_loop data is scc seq) }
          else mpeg2_loop data is start_code_count sequence_header_count }"

definition detect_mpeg2_raw :: "u8 list \<Rightarrow> nat \<Rightarrow> MEDIA_DATA_TYPE option" where
  "detect_mpeg2_raw data len =
     (if len < 16 then Some MEDIA_DTYPE_MAX else mpeg2_loop data [0..<len - 4 + 1] 0 0)"

fun mpeg4_loop :: "u8 list \<Rightarrow> nat list \<Rightarrow> nat \<Rightarrow> nat \<Rightarrow> MEDIA_DATA_TYPE option" where
  "mpeg4_loop data [] start_code_count vol_count = Some MEDIA_DTYPE_MAX"
| "mpeg4_loop data (i # is) start_code_count vol_count =
     do { c \<leftarrow> prefix001 data i;
          if c then do { start_code \<leftarrow> mem_rd data (i + 3);
            if start_code \<ge> 0x20 \<and> start_code \<le> 0x2F
            then (let vol = (if start_code = 0x20 then vol_count + 1 else vol_count);
                      scc = start_code_count + 1
                  in if vol \<ge> 1 \<and> scc \<ge> 3 then Some MEDIA_DTYPE_RAW_MPEG4
                     else mpeg4_loop data is scc vol)
            else mpeg4_loop data is start_code_count vol_count }
          else mpeg4_loop data is start_code_count vol_count }"

definition detect_mpeg4_raw :: "u8 list \<Rightarrow> nat \<Rightarrow> MEDIA_DATA_TYPE option" where
  "detect_mpeg4_raw data len =
     (if len < 16 then Some MEDIA_DTYPE_MAX else mpeg4_loop data [0..<len - 4 + 1] 0 0)"

section \<open>Pictures\<close>

definition detect_png :: "u8 list \<Rightarrow> nat \<Rightarrow> MEDIA_DATA_TYPE option" where
  "detect_png data len = found MEDIA_DTYPE_PIC_PNG
     (CHECK_SIGNATURE data len [0x89, 0x50, 0x4E, 0x47, 0x0D, 0x0A, 0x1A, 0x0A])"

definition detect_jpg :: "u8 list \<Rightarrow> nat \<Rightarrow> MEDIA_DATA_TYPE option" where
  "detect_jpg data len = found MEDIA_DTYPE_PIC_JPG
     (cand (cand (Some (len \<ge> 4)) (cand (test data 0 (\<lambda>b. b = 0xFF)) (test data 1 (\<lambda>b. b = 0xD8))))
        (cand (test data 2 (\<lambda>b. b = 0xFF)) (test data 3 (\<lambda>b. b AND 0xF0 = 0xE0))))"

definition detect_gif :: "u8 list \<Rightarrow> nat \<Rightarrow> MEDIA_DATA_TYPE option" where
  "detect_gif data len = found MEDIA_DTYPE_PIC_GIF
     (cand (Some (len \<ge> 6))
        (cor (memcmp_eq data 0 (str_bytes ''GIF87a'')) (memcmp_eq data 0 (str_bytes ''GIF89a''))))"

definition detect_bmp :: "u8 list \<Rightarrow> nat \<Rightarrow> MEDIA_DATA_TYPE option" where
  "detect_bmp data len = found MEDIA_DTYPE_PIC_BMP
     (cand (cand (Some (len \<ge> 6)) (cand (test data 0 (\<lambda>b. b = 0x42)) (test data 1 (\<lambda>b. b = 0x4D))))
        (do { file_size \<leftarrow> get_unaligned_le32 data 2;
              Some (unat file_size > 54 \<and> unat file_size \<le> len) }))"

definition detect_webp :: "u8 list \<Rightarrow> nat \<Rightarrow> MEDIA_DATA_TYPE option" where
  "detect_webp data len = found MEDIA_DTYPE_PIC_WEBP
     (cand (cand (Some (len \<ge> 16)) (cand (memcmp_eq data 0 (str_bytes ''RIFF''))
                                        (memcmp_eq data 8 (str_bytes ''WEBP''))))
        (do { riff_size \<leftarrow> get_unaligned_le32 data 4;
              Some (riff_size > 8 \<and> unat (riff_size + 8) \<le> len) }))"

definition detect_tiff :: "u8 list \<Rightarrow> nat \<Rightarrow> MEDIA_DATA_TYPE option" where
  "detect_tiff data len =
     (if len < 8 then Some MEDIA_DTYPE_MAX
      else found MEDIA_DTYPE_PIC_TIFF
        (do { ii \<leftarrow> cand (test data 0 (\<lambda>b. b = 0x49)) (cand (test data 1 (\<lambda>b. b = 0x49))
                     (cand (test data 2 (\<lambda>b. b = 0x2A)) (test data 3 (\<lambda>b. b = 0x00))));
              if ii then do { ifd_offset \<leftarrow> get_unaligned_le32 data 4;
                              Some (ifd_offset \<ge> 8 \<and> unat ifd_offset < len) }
              else do { mm \<leftarrow> cand (test data 0 (\<lambda>b. b = 0x4D)) (cand (test data 1 (\<lambda>b. b = 0x4D))
                          (cand (test data 2 (\<lambda>b. b = 0x00)) (test data 3 (\<lambda>b. b = 0x2A))));
                        if mm then do { ifd_offset \<leftarrow> get_unaligned_be32 data 4;
                                        Some (ifd_offset \<ge> 8 \<and> unat ifd_offset < len) }
                        else Some False } }))"

definition detect_svg :: "u8 list \<Rightarrow> nat \<Rightarrow> MEDIA_DATA_TYPE option" where
  "detect_svg data len = found MEDIA_DTYPE_PIC_SVG
     (cand (Some (len \<ge> 5))
        (cor (check_signature_ignore_whitespace data len (str_bytes ''<?xml''))
             (check_signature_ignore_whitespace data len (str_bytes ''<svg''))))"

section \<open>Audio\<close>

definition detect_mp3 :: "u8 list \<Rightarrow> nat \<Rightarrow> MEDIA_DATA_TYPE option" where
  "detect_mp3 data len =
     (if len < 10 then Some MEDIA_DTYPE_MAX
      else do {
        id3 \<leftarrow> cand (memcmp_eq data 0 (str_bytes ''ID3'')) (test data 3 (\<lambda>b. b \<le> 0x04));
        if id3 then Some MEDIA_DTYPE_AUDIO_MP3
        else do {
          sync \<leftarrow> cand (test data 0 (\<lambda>b. b = 0xFF)) (test data 1 (\<lambda>b. b AND 0xE0 = 0xE0));
          if sync then do {
            b1 \<leftarrow> mem_rd data 1; b2 \<leftarrow> mem_rd data 2;
            (let version = drop_bit 3 b1 AND 0x03; layer = drop_bit 1 b1 AND 0x03;
                 bitrate_index = drop_bit 4 b2 AND 0x0F; freq_index = drop_bit 2 b2 AND 0x03
             in Some (if version \<noteq> 0x01 \<and> layer \<noteq> 0x00 \<and> bitrate_index \<noteq> 0x0F \<and> freq_index \<noteq> 0x03
                      then MEDIA_DTYPE_AUDIO_MP3 else MEDIA_DTYPE_MAX)) }
          else Some MEDIA_DTYPE_MAX } })"

definition detect_wav :: "u8 list \<Rightarrow> nat \<Rightarrow> MEDIA_DATA_TYPE option" where
  "detect_wav data len = found MEDIA_DTYPE_AUDIO_WAV
     (cand (cand (Some (len \<ge> 16)) (cand (memcmp_eq data 0 (str_bytes ''RIFF''))
                                        (memcmp_eq data 8 (str_bytes ''WAVE''))))
        (memcmp_eq data 12 (str_bytes ''fmt '')))"

definition detect_flac :: "u8 list \<Rightarrow> nat \<Rightarrow> MEDIA_DATA_TYPE option" where
  "detect_flac data len = found MEDIA_DTYPE_AUDIO_FLAC (CHECK_SIGNATURE data len (str_bytes ''fLaC''))"

definition detect_aac :: "u8 list \<Rightarrow> nat \<Rightarrow> MEDIA_DATA_TYPE option" where
  "detect_aac data len = found MEDIA_DTYPE_AUDIO_AAC
     (cand (cand (Some (len \<ge> 7)) (cand (test data 0 (\<lambda>b. b = 0xFF)) (test data 1 (\<lambda>b. b AND 0xF0 = 0xF0))))
        (test data 2 (\<lambda>b. drop_bit 2 b AND 0x0F \<le> 0x0C)))"

definition detect_ogg :: "u8 list \<Rightarrow> nat \<Rightarrow> MEDIA_DATA_TYPE option" where
  "detect_ogg data len = found MEDIA_DTYPE_AUDIO_OGG
     (cand (Some (len \<ge> 5)) (cand (memcmp_eq data 0 (str_bytes ''OggS'')) (test data 4 (\<lambda>b. b = 0))))"

definition detect_ape :: "u8 list \<Rightarrow> nat \<Rightarrow> MEDIA_DATA_TYPE option" where
  "detect_ape data len = found MEDIA_DTYPE_AUDIO_APE
     (cand (cand (Some (len \<ge> 8)) (memcmp_eq data 0 (str_bytes ''APE '')))
        (do { version \<leftarrow> get_unaligned_le16 data 4; Some (version = 0x0F8C \<or> version = 0x0F96) }))"

section \<open>Video containers\<close>

definition detect_flv :: "u8 list \<Rightarrow> nat \<Rightarrow> MEDIA_DATA_TYPE option" where
  "detect_flv data len = found MEDIA_DTYPE_VIDEO_FLV
     (cand (cand (Some (len \<ge> 5)) (cand (memcmp_eq data 0 (str_bytes ''FLV'')) (test data 3 (\<lambda>b. b = 0x01))))
        (test data 4 (\<lambda>b. b AND 0x01 \<noteq> 0 \<or> b AND 0x04 \<noteq> 0)))"

definition detect_avi :: "u8 list \<Rightarrow> nat \<Rightarrow> MEDIA_DATA_TYPE option" where
  "detect_avi data len = found MEDIA_DTYPE_VIDEO_AVI
     (cand (cand (Some (len \<ge> 20)) (cand (memcmp_eq data 0 (str_bytes ''RIFF''))
                                        (memcmp_eq data 8 (str_bytes ''AVI ''))))
        (memcmp_eq data 12 (str_bytes ''hdrl'')))"

definition detect_ts :: "u8 list \<Rightarrow> nat \<Rightarrow> MEDIA_DATA_TYPE option" where
  "detect_ts data len = found MEDIA_DTYPE_VIDEO_TS (check_packet_structure data len 188 3)"

definition detect_m2ts :: "u8 list \<Rightarrow> nat \<Rightarrow> MEDIA_DATA_TYPE option" where
  "detect_m2ts data len = found MEDIA_DTYPE_VIDEO_M2TS (check_packet_structure data len 204 3)"

definition detect_mkv_webm :: "u8 list \<Rightarrow> nat \<Rightarrow> MEDIA_DATA_TYPE option" where
  "detect_mkv_webm data len =
     do { ebml \<leftarrow> CHECK_SIGNATURE data len [0x1A, 0x45, 0xDF, 0xA3];
          if \<not> ebml then Some MEDIA_DTYPE_MAX
          else do { mkv \<leftarrow> find_pattern data 4 (len - 4) (str_bytes ''matroska'');
                    if mkv \<noteq> None then Some MEDIA_DTYPE_VIDEO_MKV
                    else do { webm \<leftarrow> find_pattern data 4 (len - 4) (str_bytes ''webm'');
                              if webm \<noteq> None then Some MEDIA_DTYPE_VIDEO_WEBM
                              else Some MEDIA_DTYPE_VIDEO_MKV } } }"

definition detect_wmv_wma :: "u8 list \<Rightarrow> nat \<Rightarrow> MEDIA_DATA_TYPE option" where
  "detect_wmv_wma data len =
     do { asf \<leftarrow> CHECK_SIGNATURE data len [0x30, 0x26, 0xB2, 0x75, 0x8E, 0x66, 0xCF, 0x11,
                                         0xA6, 0xD9, 0x00, 0xAA, 0x00, 0x62, 0xCE, 0x6C];
          if \<not> asf \<or> len < 50 then Some MEDIA_DTYPE_MAX
          else do { video \<leftarrow> find_pattern data 30 (len - 30)
                      [0x91, 0x07, 0xDC, 0xB7, 0xB7, 0xA9, 0xCF, 0x11,
                       0x8E, 0xE6, 0x00, 0xC0, 0x0C, 0x20, 0x53, 0x65];
                    if video \<noteq> None then Some MEDIA_DTYPE_VIDEO_WMV
                    else do { audio \<leftarrow> find_pattern data 30 (len - 30)
                                [0x91, 0x07, 0xDC, 0xB7, 0xB7, 0xA9, 0xCF, 0x11,
                                 0x8E, 0xE6, 0x00, 0xC0, 0x0C, 0x20, 0x53, 0x66];
                              if audio \<noteq> None then Some MEDIA_DTYPE_AUDIO_WMA
                              else Some MEDIA_DTYPE_MAX } } }"

definition detect_mov :: "u8 list \<Rightarrow> nat \<Rightarrow> MEDIA_DATA_TYPE option" where
  "detect_mov data len =
     (if len < 12 then Some MEDIA_DTYPE_MAX
      else do { qt \<leftarrow> cand (memcmp_eq data 4 (str_bytes ''ftyp''))
                        (cand (Some (len \<ge> 16)) (memcmp_eq data 8 (str_bytes ''qt  '')));
                if qt then Some MEDIA_DTYPE_VIDEO_MOV
                else found MEDIA_DTYPE_VIDEO_MOV (memcmp_eq data 4 (str_bytes ''moov'')) })"

fun brand_loop :: "u8 list \<Rightarrow> string list \<Rightarrow> bool option" where
  "brand_loop data [] = Some False"
| "brand_loop data (b # bs) = cor (memcmp_eq data 8 (str_bytes b)) (brand_loop data bs)"

definition detect_ftyp_format :: "u8 list \<Rightarrow> nat \<Rightarrow> MEDIA_DATA_TYPE option" where
  "detect_ftyp_format data len =
     (if len < 8 then Some MEDIA_DTYPE_MAX
      else do {
        ftyp_size \<leftarrow> get_unaligned_be32 data 0;
        if unat ftyp_size < 8 \<or> unat ftyp_size > len \<or> unat ftyp_size > 1024 * 1024
        then Some MEDIA_DTYPE_MAX
        else do {
          ftyp \<leftarrow> memcmp_eq data 4 (str_bytes ''ftyp'');
          if \<not> ftyp then Some MEDIA_DTYPE_MAX
          else if ftyp_size = 8 then Some MEDIA_DTYPE_VIDEO_MP4
          else do {
            heif \<leftarrow> brand_loop data [''heic'', ''heix'', ''hevc'', ''hevx'', ''mif1'', ''msf1''];
            if heif then Some MEDIA_DTYPE_PIC_HEIF
            else do {
              m4a \<leftarrow> brand_loop data [''M4A '', ''mp4a'', ''aac ''];
              if m4a then Some MEDIA_DTYPE_AUDIO_M4A
              else do {
                qt \<leftarrow> memcmp_eq data 8 (str_bytes ''qt  '');
                if qt then Some MEDIA_DTYPE_VIDEO_MOV
                else found MEDIA_DTYPE_VIDEO_MP4
                       (brand_loop data [''isom'', ''mp41'', ''mp42'', ''avc1'', ''hev1'']) } } } } })"

section \<open>The priority chain\<close>

fun first_match :: "(u8 list \<Rightarrow> nat \<Rightarrow> MEDIA_DATA_TYPE option) list \<Rightarrow> u8 list \<Rightarrow> nat
    \<Rightarrow> MEDIA_DATA_TYPE option" where
  "first_match [] data len = Some MEDIA_DTYPE_MAX"
| "first_match (d # ds) data len =
     do { result \<leftarrow> d data len;
          if result \<noteq> MEDIA_DTYPE_MAX then Some result else first_match ds data len }"

definition txmplayer_detect_mtype :: "u8 list option \<Rightarrow> nat \<Rightarrow> MEDIA_DATA_TYPE option" where
  "txmplayer_detect_mtype data len =
     (case data of
        None \<Rightarrow> Some MEDIA_DTYPE_MAX
      | Some data \<Rightarrow>
          (if len < 12 then Some MEDIA_DTYPE_MAX
           else first_match
             [detect_ftyp_format, detect_mp4, detect_mov, detect_flv, detect_avi, detect_mkv_webm,
              detect_ts, detect_m2ts, detect_wmv_wma,
              detect_png, detect_jpg, detect_gif, detect_bmp, detect_webp, detect_tiff, detect_svg,
              detect_mp3, detect_wav, detect_flac, detect_aac, detect_ogg, detect_ape,
              detect_h264_raw, detect_h265_raw, detect_av1_raw, detect_vp9_raw, detect_vp8_raw,
              detect_mpeg2_raw, detect_mpeg4_raw] data len))"

section \<open>Every read stays inside the object\<close>

named_theorems safe \<open>tests and scans that do not trap\<close>

lemma bind_safe [safe]:
  "a \<noteq> None \<Longrightarrow> (\<And>x. a = Some x \<Longrightarrow> f x \<noteq> None) \<Longrightarrow> Option.bind a f \<noteq> None"
  by (cases a) auto

lemma cand_safe [safe]: "a \<noteq> None \<Longrightarrow> (a = Some True \<Longrightarrow> b \<noteq> None) \<Longrightarrow> cand a b \<noteq> None"
  unfolding cand_def by (intro safe) auto

lemma cor_safe [safe]: "a \<noteq> None \<Longrightarrow> b \<noteq> None \<Longrightarrow> cor a b \<noteq> None"
  unfolding cor_def by (intro safe) auto

lemma mem_rd_safe [safe]: "i < length p \<Longrightarrow> mem_rd p i \<noteq> None"
  by (simp add: mem_rd_def)

lemma test_safe [safe]: "i < length p \<Longrightarrow> test p i P \<noteq> None"
  by (simp add: test_def mem_rd_def)

lemma memcmp_safe [safe]: "off + length sig \<le> length p \<Longrightarrow> memcmp_eq p off sig \<noteq> None"
  by (simp add: memcmp_eq_def mem_src_def)

lemma found_safe [safe]: "c \<noteq> None \<Longrightarrow> found t c \<noteq> None"
  by (cases c) (simp_all add: found_def)

lemma some_safe [safe]: "Some x \<noteq> None"
  by simp

lemma if_safe [safe]: "(c \<Longrightarrow> a \<noteq> None) \<Longrightarrow> (\<not> c \<Longrightarrow> b \<noteq> None) \<Longrightarrow> (if c then a else b) \<noteq> None"
  by simp

lemma case_option_safe [safe]:
  "(x = None \<Longrightarrow> a \<noteq> None) \<Longrightarrow> (\<And>y. x = Some y \<Longrightarrow> f y \<noteq> None) \<Longrightarrow> case_option a f x \<noteq> None"
  by (cases x) auto

lemma get32_safe [safe]:
  "i + 4 \<le> length p \<Longrightarrow> get_unaligned_le32 p i \<noteq> None"
  "i + 4 \<le> length p \<Longrightarrow> get_unaligned_be32 p i \<noteq> None"
  "i + 2 \<le> length p \<Longrightarrow> get_unaligned_le16 p i \<noteq> None"
  by (simp_all add: get_unaligned_le32_def raw_get_unaligned_le32_def get_unaligned_be32_def
      raw_get_unaligned_be32_def get_unaligned_le16_def raw_get_unaligned_le16_def mem_rd_def)

lemma cand_True [simp]: "cand a b = Some True \<longleftrightarrow> a = Some True \<and> b = Some True"
  by (cases a) (auto simp: cand_def)

lemma CHECK_SIGNATURE_safe [safe]: "length p = len \<Longrightarrow> CHECK_SIGNATURE p len sig \<noteq> None"
  unfolding CHECK_SIGNATURE_def by (intro safe) auto

lemma skip_ws_safe: "\<forall>i \<in> set is. i < length p \<Longrightarrow> skip_ws p is q \<noteq> None"
  by (induction "is" arbitrary: q) (auto simp: mem_rd_def)

lemma sig_loop_safe:
  "\<forall>i \<in> set is. q + i < length p \<and> i < length sig \<Longrightarrow> sig_loop p q sig is \<noteq> None"
  by (induction "is") (auto simp: mem_rd_def)

lemma check_ws_safe [safe]:
  assumes "length p = len" "0 < length sig" shows "check_signature_ignore_whitespace p len sig \<noteq> None"
proof -
  have "skip_ws p [0..<len] 0 \<noteq> None" using assms by (intro skip_ws_safe) simp
  moreover have "sig_loop p q sig [0..<length sig] \<noteq> None" if "\<not> len - q < length sig" for q
    using that assms by (intro sig_loop_safe) auto
  ultimately show ?thesis
    unfolding check_signature_ignore_whitespace_def by (intro safe) auto
qed

lemma pattern_loop_safe:
  "\<forall>i \<in> set is. base + i + length needle \<le> length p \<Longrightarrow> pattern_loop p base needle is \<noteq> None"
  by (induction "is") (auto simp: memcmp_eq_def mem_src_def)

lemma find_pattern_safe [safe]:
  "base + hlen \<le> length p \<Longrightarrow> find_pattern p base hlen needle \<noteq> None"
  unfolding find_pattern_def by (intro safe pattern_loop_safe) auto

lemma packet_loop_safe:
  "\<forall>i \<in> set is. i * ps + 2 < length p \<Longrightarrow> packet_loop p len ps is v \<noteq> None"
  by (induction "is" arbitrary: v) (auto simp: mem_rd_def Let_def)

lemma check_packet_safe [safe]:
  assumes "length p = len" "2 < ps" shows "check_packet_structure p len ps 3 \<noteq> None"
proof -
  have "packet_loop p len ps [0..<3] 0 \<noteq> None" if "\<not> len < ps * 3"
    using that assms by (intro packet_loop_safe) (auto simp: numeral_3_eq_3 less_Suc_eq)
  then show ?thesis unfolding check_packet_structure_def by (intro safe) auto
qed

lemma mp4_boxes_safe [safe]:
  assumes "length p = len" "len < 2 ^ 32"
  shows "mp4_boxes p len off \<noteq> None"
  using assms
proof (induction p len off rule: mp4_boxes.induct)
  case (1 p len off)
  show ?case
  proof (cases "(off + 8) mod 2 ^ 32 \<le> len \<and> off < 1024")
    case True
    then have "(off + 8) mod 2 ^ 32 = off + 8" by (intro mod_less) simp
    with True have in_box: "off + 8 \<le> len" by (simp only:)
    then have "get_unaligned_be32 p off \<noteq> None" "get_unaligned_be32 p (off + 4) \<noteq> None"
      using 1(2) by (simp_all add: get32_safe del: not_None_eq)
    then obtain sz ty where g: "get_unaligned_be32 p off = Some sz" "get_unaligned_be32 p (off + 4) = Some ty"
      by blast
    with 1 True show ?thesis by (subst mp4_boxes.simps) (auto simp: mp4_boxes.simps)
  next
    case False
    then show ?thesis by (simp only: mp4_boxes.simps [of p len off] if_False option.distinct not_False_eq_True)
  qed
qed

lemma start_code_safe [safe]:
  "i + 4 \<le> length p \<Longrightarrow> start_code_at p (length p) i \<noteq> None"
  unfolding start_code_at_def by (intro safe) auto

lemma prefix001_safe [safe]: "i + 3 \<le> length p \<Longrightarrow> prefix001 p i \<noteq> None"
  unfolding prefix001_def by (intro safe) auto

lemma h264_loop_safe:
  "\<forall>i \<in> set is. i + 4 \<le> length p \<Longrightarrow> h264_loop p (length p) is a b c \<noteq> None"
proof (induction "is" arbitrary: a b c)
  case (Cons i "is")
  then show ?case
    unfolding h264_loop.simps Let_def
    by (intro bind_safe case_option_safe if_safe start_code_safe mem_rd_safe some_safe Cons.IH) simp_all
qed simp

lemma h265_loop_safe:
  "\<forall>i \<in> set is. i + 4 \<le> length p \<Longrightarrow> h265_loop p (length p) is a b c d \<noteq> None"
proof (induction "is" arbitrary: a b c d)
  case (Cons i "is")
  then show ?case
    unfolding h265_loop.simps Let_def
    by (intro bind_safe case_option_safe if_safe start_code_safe mem_rd_safe some_safe Cons.IH) simp_all
qed simp

lemma simple_loops_safe:
  assumes "\<forall>i \<in> set is. i < length p"
  shows "av1_loop p is n \<noteq> None" and "vp9_loop p is n \<noteq> None" and "vp8_loop p is n \<noteq> None"
  using assms by (induction "is" arbitrary: n) (auto simp: mem_rd_def)

lemma mpeg2_loop_safe:
  "\<forall>i \<in> set is. i + 4 \<le> length p \<Longrightarrow> mpeg2_loop p is a b \<noteq> None"
proof (induction "is" arbitrary: a b)
  case (Cons i "is")
  then show ?case
    unfolding mpeg2_loop.simps Let_def
    by (intro bind_safe if_safe prefix001_safe mem_rd_safe some_safe Cons.IH) simp_all
qed simp

lemma mpeg4_loop_safe:
  "\<forall>i \<in> set is. i + 4 \<le> length p \<Longrightarrow> mpeg4_loop p is a b \<noteq> None"
proof (induction "is" arbitrary: a b)
  case (Cons i "is")
  then show ?case
    unfolding mpeg4_loop.simps Let_def
    by (intro bind_safe if_safe prefix001_safe mem_rd_safe some_safe Cons.IH) simp_all
qed simp

lemma detectors_safe [safe]:
  assumes "length p = len"
  shows "12 \<le> len \<Longrightarrow> detect_ftyp_format p len \<noteq> None"
    and "len < 2 ^ 32 \<Longrightarrow> detect_mp4 p len \<noteq> None"
    and "detect_mov p len \<noteq> None" and "detect_flv p len \<noteq> None"
    and "detect_avi p len \<noteq> None" and "detect_ts p len \<noteq> None" and "detect_m2ts p len \<noteq> None"
    and "detect_png p len \<noteq> None" and "detect_jpg p len \<noteq> None" and "detect_gif p len \<noteq> None"
    and "detect_bmp p len \<noteq> None" and "detect_webp p len \<noteq> None" and "detect_tiff p len \<noteq> None"
    and "detect_svg p len \<noteq> None" and "detect_mp3 p len \<noteq> None" and "detect_wav p len \<noteq> None"
    and "detect_flac p len \<noteq> None" and "detect_aac p len \<noteq> None" and "detect_ogg p len \<noteq> None"
    and "detect_ape p len \<noteq> None"
  using assms
  unfolding detect_ftyp_format_def detect_mp4_def detect_mov_def detect_flv_def detect_avi_def
    detect_ts_def detect_m2ts_def detect_png_def detect_jpg_def detect_gif_def detect_bmp_def
    detect_webp_def detect_tiff_def detect_svg_def detect_mp3_def detect_wav_def detect_flac_def
    detect_aac_def detect_ogg_def detect_ape_def brand_loop.simps Let_def
  by - (intro safe; simp; fail)+

lemma detectors_safe2 [safe]:
  assumes "length p = len"
  shows "detect_mkv_webm p len \<noteq> None" and "detect_wmv_wma p len \<noteq> None"
proof -
  have len: "CHECK_SIGNATURE p len sig = Some True \<Longrightarrow> length sig \<le> len" for sig
    by (simp add: CHECK_SIGNATURE_def)
  show "detect_mkv_webm p len \<noteq> None"
    unfolding detect_mkv_webm_def
    by (intro safe assms) (use assms len [of "[0x1A, 0x45, 0xDF, 0xA3]"] in auto)
  show "detect_wmv_wma p len \<noteq> None"
    unfolding detect_wmv_wma_def by (intro safe assms) (use assms in auto)
qed

lemma raw_detectors_safe [safe]:
  assumes "length p = len"
  shows "detect_h264_raw p len \<noteq> None" and "detect_h265_raw p len \<noteq> None"
    and "detect_av1_raw p len \<noteq> None" and "detect_vp9_raw p len \<noteq> None"
    and "detect_vp8_raw p len \<noteq> None"
    and "detect_mpeg2_raw p len \<noteq> None" and "detect_mpeg4_raw p len \<noteq> None"
  unfolding detect_h264_raw_def detect_h265_raw_def detect_av1_raw_def detect_vp9_raw_def
    detect_vp8_raw_def detect_mpeg2_raw_def detect_mpeg4_raw_def assms [symmetric]
  by (intro if_safe some_safe h264_loop_safe h265_loop_safe simple_loops_safe mpeg2_loop_safe
      mpeg4_loop_safe; auto)+

lemma first_match_safe:
  "\<forall>d \<in> set ds. d p len \<noteq> None \<Longrightarrow> first_match ds p len \<noteq> None"
  by (induction ds) auto

section \<open>What a verdict implies\<close>

lemma first_match_Some:
  "first_match ds p len = Some r \<Longrightarrow> r \<noteq> MEDIA_DTYPE_MAX \<Longrightarrow> \<exists>d \<in> set ds. d p len = Some r"
  by (induction ds) (auto simp: bind_eq_Some_conv split: if_splits)

lemma first_match_append:
  assumes "first_match (xs @ ys) p len = Some r" "\<forall>d \<in> set xs. d p len \<noteq> Some r"
  shows "(\<forall>d \<in> set xs. d p len = Some MEDIA_DTYPE_MAX) \<and> first_match ys p len = Some r"
  using assms by (induction xs) (auto simp: bind_eq_Some_conv split: if_splits)

text \<open>\<open>yields S x\<close>: when \<open>x\<close> returns, it returns one of \<open>S\<close>.\<close>

definition yields :: "MEDIA_DATA_TYPE set \<Rightarrow> MEDIA_DATA_TYPE option \<Rightarrow> bool" where
  "yields S x \<longleftrightarrow> (\<forall>r. x = Some r \<longrightarrow> r \<in> S)"

named_theorems result \<open>which types a detector can answer\<close>

lemma yields_rules [result]:
  "(\<And>y. yields S (f y)) \<Longrightarrow> yields S (Option.bind a f)"
  "yields S x \<Longrightarrow> yields S z \<Longrightarrow> yields S (if c then x else z)"
  "yields S x \<Longrightarrow> (\<And>y. yields S (f y)) \<Longrightarrow> yields S (case_option x f b)"
  "t \<in> S \<Longrightarrow> yields S (Some t)"
  "t \<in> S \<Longrightarrow> MEDIA_DTYPE_MAX \<in> S \<Longrightarrow> yields S (found t tst)"
  by (auto simp: yields_def found_def bind_eq_Some_conv split: option.splits)

lemma mp4_boxes_result [result]: "yields {MEDIA_DTYPE_VIDEO_MP4, MEDIA_DTYPE_MAX} (mp4_boxes p len off)"
proof (induction p len off rule: mp4_boxes.induct)
  case (1 p len off)
  then show ?case
    by (subst mp4_boxes.simps) (auto simp: yields_def bind_eq_Some_conv split: if_splits)
qed

lemma raw_loop_results [result]:
  "yields {MEDIA_DTYPE_RAW_H264, MEDIA_DTYPE_MAX} (h264_loop p len is a b c)"
  "yields {MEDIA_DTYPE_RAW_H265, MEDIA_DTYPE_MAX} (h265_loop p len is a b c d)"
  "yields {MEDIA_DTYPE_RAW_AV1, MEDIA_DTYPE_MAX} (av1_loop p is a)"
  "yields {MEDIA_DTYPE_RAW_VP9, MEDIA_DTYPE_MAX} (vp9_loop p is a)"
  "yields {MEDIA_DTYPE_RAW_VP8, MEDIA_DTYPE_MAX} (vp8_loop p is a)"
  "yields {MEDIA_DTYPE_RAW_MPEG2, MEDIA_DTYPE_MAX} (mpeg2_loop p is a b)"
  "yields {MEDIA_DTYPE_RAW_MPEG4, MEDIA_DTYPE_MAX} (mpeg4_loop p is a b)"
  by (induction "is" arbitrary: a b c d;
      (unfold h264_loop.simps h265_loop.simps av1_loop.simps vp9_loop.simps vp8_loop.simps
         mpeg2_loop.simps mpeg4_loop.simps Let_def; intro result; simp))+

lemma detector_results:
  "yields {MEDIA_DTYPE_VIDEO_MP4, MEDIA_DTYPE_PIC_HEIF, MEDIA_DTYPE_AUDIO_M4A, MEDIA_DTYPE_VIDEO_MOV,
           MEDIA_DTYPE_MAX} (detect_ftyp_format p len)"
  "yields {MEDIA_DTYPE_VIDEO_MP4, MEDIA_DTYPE_MAX} (detect_mp4 p len)"
  "yields {MEDIA_DTYPE_VIDEO_MOV, MEDIA_DTYPE_MAX} (detect_mov p len)"
  "yields {MEDIA_DTYPE_VIDEO_FLV, MEDIA_DTYPE_MAX} (detect_flv p len)"
  "yields {MEDIA_DTYPE_VIDEO_AVI, MEDIA_DTYPE_MAX} (detect_avi p len)"
  "yields {MEDIA_DTYPE_VIDEO_MKV, MEDIA_DTYPE_VIDEO_WEBM, MEDIA_DTYPE_MAX} (detect_mkv_webm p len)"
  "yields {MEDIA_DTYPE_VIDEO_TS, MEDIA_DTYPE_MAX} (detect_ts p len)"
  "yields {MEDIA_DTYPE_VIDEO_M2TS, MEDIA_DTYPE_MAX} (detect_m2ts p len)"
  "yields {MEDIA_DTYPE_VIDEO_WMV, MEDIA_DTYPE_AUDIO_WMA, MEDIA_DTYPE_MAX} (detect_wmv_wma p len)"
  "yields {MEDIA_DTYPE_PIC_PNG, MEDIA_DTYPE_MAX} (detect_png p len)"
  "yields {MEDIA_DTYPE_PIC_JPG, MEDIA_DTYPE_MAX} (detect_jpg p len)"
  "yields {MEDIA_DTYPE_PIC_GIF, MEDIA_DTYPE_MAX} (detect_gif p len)"
  "yields {MEDIA_DTYPE_PIC_BMP, MEDIA_DTYPE_MAX} (detect_bmp p len)"
  "yields {MEDIA_DTYPE_PIC_WEBP, MEDIA_DTYPE_MAX} (detect_webp p len)"
  "yields {MEDIA_DTYPE_PIC_TIFF, MEDIA_DTYPE_MAX} (detect_tiff p len)"
  "yields {MEDIA_DTYPE_PIC_SVG, MEDIA_DTYPE_MAX} (detect_svg p len)"
  "yields {MEDIA_DTYPE_AUDIO_MP3, MEDIA_DTYPE_MAX} (detect_mp3 p len)"
  "yields {MEDIA_DTYPE_AUDIO_WAV, MEDIA_DTYPE_MAX} (detect_wav p len)"
  "yields {MEDIA_DTYPE_AUDIO_FLAC, MEDIA_DTYPE_MAX} (detect_flac p len)"
  "yields {MEDIA_DTYPE_AUDIO_AAC, MEDIA_DTYPE_MAX} (detect_aac p len)"
  "yields {MEDIA_DTYPE_AUDIO_OGG, MEDIA_DTYPE_MAX} (detect_ogg p len)"
  "yields {MEDIA_DTYPE_AUDIO_APE, MEDIA_DTYPE_MAX} (detect_ape p len)"
  "yields {MEDIA_DTYPE_RAW_H264, MEDIA_DTYPE_MAX} (detect_h264_raw p len)"
  "yields {MEDIA_DTYPE_RAW_H265, MEDIA_DTYPE_MAX} (detect_h265_raw p len)"
  "yields {MEDIA_DTYPE_RAW_AV1, MEDIA_DTYPE_MAX} (detect_av1_raw p len)"
  "yields {MEDIA_DTYPE_RAW_VP9, MEDIA_DTYPE_MAX} (detect_vp9_raw p len)"
  "yields {MEDIA_DTYPE_RAW_VP8, MEDIA_DTYPE_MAX} (detect_vp8_raw p len)"
  "yields {MEDIA_DTYPE_RAW_MPEG2, MEDIA_DTYPE_MAX} (detect_mpeg2_raw p len)"
  "yields {MEDIA_DTYPE_RAW_MPEG4, MEDIA_DTYPE_MAX} (detect_mpeg4_raw p len)"
  unfolding detect_ftyp_format_def detect_mp4_def detect_mov_def detect_flv_def detect_avi_def
    detect_mkv_webm_def detect_ts_def detect_m2ts_def detect_wmv_wma_def
    detect_png_def detect_jpg_def detect_gif_def detect_bmp_def
    detect_webp_def detect_tiff_def detect_svg_def detect_mp3_def detect_wav_def detect_flac_def
    detect_aac_def detect_ogg_def detect_ape_def detect_h264_raw_def detect_h265_raw_def
    detect_av1_raw_def detect_vp9_raw_def detect_vp8_raw_def detect_mpeg2_raw_def detect_mpeg4_raw_def
    Let_def
  by (intro result; simp; fail)+

lemmas verdicts = detector_results [unfolded yields_def, rule_format]

lemma vp9_loop_zeros:
  "vp9_loop p is n = Some MEDIA_DTYPE_MAX \<Longrightarrow> n < 3 \<Longrightarrow> n + length (filter (\<lambda>i. p ! i = 0) is) < 3"
proof (induction "is" arbitrary: n)
  case (Cons i "is")
  then show ?case
    using Cons.IH [of n] Cons.IH [of "n + 1"]
    by (auto simp: mem_rd_def bind_eq_Some_conv split: if_splits)
qed simp

lemma prefix001_zero: "prefix001 p i = Some True \<Longrightarrow> p ! i = 0"
  by (auto simp: prefix001_def test_def mem_rd_def split: if_splits)

lemma mpeg2_loop_zeros:
  "mpeg2_loop p is a b = Some MEDIA_DTYPE_RAW_MPEG2 \<Longrightarrow> 3 \<le> a + length (filter (\<lambda>i. p ! i = 0) is)"
proof (induction "is" arbitrary: a b)
  case (Cons i "is")
  then obtain c where c: "prefix001 p i = Some c" by (auto simp: bind_eq_Some_conv)
  show ?case
  proof (cases c)
    case True
    then show ?thesis
      using Cons.prems c prefix001_zero [of p i]
      by (auto simp: bind_eq_Some_conv Let_def split: if_splits dest!: Cons.IH)
  qed (use Cons c in force)
qed simp

lemma mpeg4_loop_zeros:
  "mpeg4_loop p is a b = Some MEDIA_DTYPE_RAW_MPEG4 \<Longrightarrow> 3 \<le> a + length (filter (\<lambda>i. p ! i = 0) is)"
proof (induction "is" arbitrary: a b)
  case (Cons i "is")
  then obtain c where c: "prefix001 p i = Some c" by (auto simp: bind_eq_Some_conv)
  show ?case
  proof (cases c)
    case True
    then show ?thesis
      using Cons.prems c prefix001_zero [of p i]
      by (auto simp: bind_eq_Some_conv Let_def split: if_splits dest!: Cons.IH)
  qed (use Cons c in force)
qed simp

lemma filter_upt_mono: "m \<le> n \<Longrightarrow> length (filter P [0..<m]) \<le> length (filter P [0..<n])"
  by (metis filter_append le_add1 length_append upt_add_eq_append le_Suc_ex zero_le)

lemma packet_loop_bound: "packet_loop p len ps is v = Some n \<Longrightarrow> n \<le> v + length is"
  by (induction "is" arbitrary: v)
     (fastforce simp: bind_eq_Some_conv Let_def split: if_splits)+

lemma not_ts:
  assumes "p ! 0 \<noteq> 0x47" "0 < len" "length p = len" "2 < ps"
  shows "check_packet_structure p len ps 3 = Some False"
proof (cases "len < ps * 3")
  case False
  obtain n where n: "packet_loop p len ps [1, 2] 0 = Some n"
    using packet_loop_safe [of "[1, 2]" ps p len 0] False assms by auto
  have "[0..<3] = [0, 1, 2 :: nat]" by (simp add: upt_rec)
  then have "packet_loop p len ps [0..<3] 0 = Some n"
    using n assms by (simp add: mem_rd_def)
  then show ?thesis using packet_loop_bound [OF n] False
    by (simp add: check_packet_structure_def)
qed (simp add: check_packet_structure_def)

section \<open>Properties\<close>

text \<open>C16: \<open>txmplayer_detect_mtype\<close> returns for every object of every length below \<open>2^32\<close>: its
  scans end and none of the 29 detectors reads a byte outside the \<open>len\<close> bytes it was given.\<close>

theorem detect_mtype_total:
  assumes "length data = len" and "len < 2 ^ 32"
  shows "\<exists>t. txmplayer_detect_mtype (Some data) len = Some t"
proof (cases "len < 12")
  case False
  then show ?thesis
    unfolding txmplayer_detect_mtype_def option.case if_not_P [OF False] not_None_eq [symmetric]
    by (intro first_match_safe) (use assms in \<open>simp add: safe del: not_None_eq\<close>)
qed (simp add: txmplayer_detect_mtype_def)

theorem detect_mtype_total_witness:
  "\<exists>t. txmplayer_detect_mtype (Some (replicate 20 0)) 20 = Some t"
  by (rule detect_mtype_total) simp_all

text \<open>the length guard is what keeps the ftyp test safe: on a well-formed box of nine bytes
  \<open>detect_ftyp_format\<close> alone reads the brand past the end of the object, where the exported
  function answers without looking.\<close>

theorem detect_ftyp_needs_guard:
  "detect_ftyp_format [0, 0, 0, 9, 0x66, 0x74, 0x79, 0x70, 0] 9 = None \<and>
   txmplayer_detect_mtype (Some [0, 0, 0, 9, 0x66, 0x74, 0x79, 0x70, 0]) 9 = Some MEDIA_DTYPE_MAX"
  by (simp add: detect_ftyp_format_def txmplayer_detect_mtype_def get_unaligned_be32_def
      raw_get_unaligned_be32_def mem_rd_def memcmp_eq_def mem_src_def str_bytes_def cor_def)

text \<open>an object that starts with the eight signature bytes of a PNG file is answered as PNG,
  through the nine container tests that come first.\<close>

theorem png_detected:
  assumes "take 8 data = [0x89, 0x50, 0x4E, 0x47, 0x0D, 0x0A, 0x1A, 0x0A]"
    and "length data = len" and "12 \<le> len" and "len < 2 ^ 31"
  shows "txmplayer_detect_mtype (Some data) len = Some MEDIA_DTYPE_PIC_PNG"
proof -
  obtain rest where data: "data = [0x89, 0x50, 0x4E, 0x47, 0x0D, 0x0A, 0x1A, 0x0A] @ rest"
    using assms(1) by (metis append_take_drop_id)
  have word: "get_unaligned_be32 data 0 = Some 0x89504E47"
    by (simp add: data get_unaligned_be32_def raw_get_unaligned_be32_def mem_rd_def)
  have ty: "get_unaligned_be32 data 4 = Some 0x0D0A1A0A"
    by (simp add: data get_unaligned_be32_def raw_get_unaligned_be32_def mem_rd_def)
  have big: "len < 2303741511" using assms(4) by simp
  have "detect_ftyp_format data len = Some MEDIA_DTYPE_MAX"
    using assms(3) by (simp add: detect_ftyp_format_def word)
  moreover have "detect_mp4 data len = Some MEDIA_DTYPE_MAX"
    using assms(3) big by (simp add: detect_mp4_def mp4_boxes.simps [of data len 0] word ty)
  moreover have no: "memcmp_eq data 4 (str_bytes ''ftyp'') = Some False"
    "memcmp_eq data 4 (str_bytes ''moov'') = Some False"
    "memcmp_eq data 0 (str_bytes ''FLV'') = Some False"
    "memcmp_eq data 0 (str_bytes ''RIFF'') = Some False"
    by (simp_all add: data memcmp_eq_def mem_src_def str_bytes_def)
  moreover have "detect_mkv_webm data len = Some MEDIA_DTYPE_MAX"
    "detect_wmv_wma data len = Some MEDIA_DTYPE_MAX"
    using assms(2,3)
    by (auto simp: detect_mkv_webm_def detect_wmv_wma_def CHECK_SIGNATURE_def cand_def memcmp_eq_def
        mem_src_def data)
  moreover have "detect_ts data len = Some MEDIA_DTYPE_MAX" "detect_m2ts data len = Some MEDIA_DTYPE_MAX"
    using not_ts [of data len] assms(2,3) by (simp_all add: detect_ts_def detect_m2ts_def found_def data)
  moreover have "detect_png data len = Some MEDIA_DTYPE_PIC_PNG"
    using assms(3)
    by (simp add: detect_png_def CHECK_SIGNATURE_def cand_def memcmp_eq_def mem_src_def found_def data)
  ultimately show ?thesis
    using assms(3)
    by (simp add: txmplayer_detect_mtype_def detect_mov_def detect_flv_def detect_avi_def cand_def found_def)
qed

theorem png_detected_witness:
  "txmplayer_detect_mtype (Some ([0x89, 0x50, 0x4E, 0x47, 0x0D, 0x0A, 0x1A, 0x0A] @ replicate 8 0)) 16
    = Some MEDIA_DTYPE_PIC_PNG"
  by (rule png_detected) simp_all

text \<open>an AVI verdict needs \<open>hdrl\<close> at offset 12. The AVI format has \<open>LIST\<close> there (the list
  header and its size come before the list's type), so no AVI file is ever answered as AVI.\<close>

theorem avi_needs_hdrl:
  assumes "txmplayer_detect_mtype (Some data) len = Some MEDIA_DTYPE_VIDEO_AVI"
  shows "take 4 (drop 12 data) = str_bytes ''hdrl'' \<and> take 4 (drop 12 data) \<noteq> str_bytes ''LIST''"
proof -
  from assms have "detect_avi data len = Some MEDIA_DTYPE_VIDEO_AVI"
    by (auto simp: txmplayer_detect_mtype_def split: if_splits
        dest!: first_match_Some verdicts simp del: first_match.simps)
  then have "take 4 (drop 12 data) = str_bytes ''hdrl''"
    by (auto simp: detect_avi_def found_def bind_eq_Some_conv memcmp_eq_def mem_src_def numeral_eq_Suc
        split: if_splits)
  then show ?thesis by (simp add: str_bytes_def)
qed

theorem avi_needs_hdrl_witness:
  "take 4 (drop 12 (str_bytes ''RIFF....AVI hdrl....'')) = str_bytes ''hdrl'' \<and>
   take 4 (drop 12 (str_bytes ''RIFF....AVI hdrl....'')) \<noteq> str_bytes ''LIST''"
  by (rule avi_needs_hdrl [of _ 20])
     (simp add: txmplayer_detect_mtype_def str_bytes_def detect_ftyp_format_def detect_mp4_def
        mp4_boxes.simps detect_mov_def detect_flv_def detect_avi_def get_unaligned_be32_def
        raw_get_unaligned_be32_def mem_rd_def memcmp_eq_def mem_src_def cand_def found_def)

text \<open>the MPEG-2 and MPEG-4 elementary stream verdicts are never given: the VP9 test before
  them accepts any three bytes below 0x50, which every stream with three start codes has.\<close>

theorem raw_mpeg_unreachable:
  "txmplayer_detect_mtype data len \<noteq> Some MEDIA_DTYPE_RAW_MPEG2 \<and>
   txmplayer_detect_mtype data len \<noteq> Some MEDIA_DTYPE_RAW_MPEG4"
proof -
  have False if r: "txmplayer_detect_mtype data len = Some r"
      "r \<in> {MEDIA_DTYPE_RAW_MPEG2, MEDIA_DTYPE_RAW_MPEG4}" for r
  proof -
    obtain p where p: "data = Some p" "\<not> len < 12"
      using r by (auto simp: txmplayer_detect_mtype_def split: option.splits if_splits)
    let ?pre = "[detect_ftyp_format, detect_mp4, detect_mov, detect_flv, detect_avi, detect_mkv_webm,
              detect_ts, detect_m2ts, detect_wmv_wma,
              detect_png, detect_jpg, detect_gif, detect_bmp, detect_webp, detect_tiff, detect_svg,
              detect_mp3, detect_wav, detect_flac, detect_aac, detect_ogg, detect_ape,
              detect_h264_raw, detect_h265_raw, detect_av1_raw, detect_vp9_raw, detect_vp8_raw]"
    have run: "first_match (?pre @ [detect_mpeg2_raw, detect_mpeg4_raw]) p len = Some r"
      using r(1) p by (simp add: txmplayer_detect_mtype_def del: first_match.simps)
    have "\<forall>d \<in> set ?pre. d p len \<noteq> Some r"
      using r(2) by (auto dest!: verdicts)
    from first_match_append [OF run this] have
      vp9: "detect_vp9_raw p len = Some MEDIA_DTYPE_MAX"
      and mpeg: "first_match [detect_mpeg2_raw, detect_mpeg4_raw] p len = Some r" by auto
    have few: "length (filter (\<lambda>i. p ! i = 0) [0..<len - 3 + 1]) < 3"
      using vp9_loop_zeros [of p "[0..<len - 3 + 1]" 0] vp9 p(2) by (simp add: detect_vp9_raw_def)
    from mpeg r(2) have "detect_mpeg2_raw p len = Some MEDIA_DTYPE_RAW_MPEG2 \<or>
        detect_mpeg4_raw p len = Some MEDIA_DTYPE_RAW_MPEG4"
      by (auto simp: bind_eq_Some_conv split: if_splits dest!: verdicts)
    then have "3 \<le> length (filter (\<lambda>i. p ! i = 0) [0..<len - 4 + 1])"
      by (auto simp: detect_mpeg2_raw_def detect_mpeg4_raw_def split: if_splits
          dest!: mpeg2_loop_zeros mpeg4_loop_zeros)
    also have "\<dots> \<le> length (filter (\<lambda>i. p ! i = 0) [0..<len - 3 + 1])"
      by (intro filter_upt_mono) simp
    finally show False using few by simp
  qed
  then show ?thesis by blast
qed

text \<open>a four-byte start code is counted twice (once as such, once as the three-byte code inside
  it): a stream with one SPS, one PPS and a single IDR unit already meets the test for two frames
  in \<open>detect_h264_raw\<close>.\<close>

theorem h264_single_frame_counts_twice:
  "detect_h264_raw [0, 0, 0, 1, 0x67, 0x42, 0, 0, 0, 1, 0x68, 0xCE, 0, 0, 0, 1, 0x65, 0x88] 18
     = Some MEDIA_DTYPE_RAW_H264 \<and>
   detect_h264_raw [0, 0, 1, 0x67, 0x42, 0, 0, 1, 0x68, 0xCE, 0, 0, 1, 0x65, 0x88, 0x84] 16
     = Some MEDIA_DTYPE_MAX"
  by (simp add: detect_h264_raw_def upt_rec start_code_at_def cand_def test_def mem_rd_def Let_def)

text \<open>the bound on the RIFF size of a WebP file is computed in 32 bits: a size of
  \<open>2^32 - 1\<close> passes on an object of 16 bytes.\<close>

theorem webp_size_wraps:
  "detect_webp (str_bytes ''RIFF'' @ [0xFF, 0xFF, 0xFF, 0xFF] @ str_bytes ''WEBPVP8 '') 16
     = Some MEDIA_DTYPE_PIC_WEBP"
  by (simp add: detect_webp_def str_bytes_def get_unaligned_le32_def raw_get_unaligned_le32_def
      mem_rd_def memcmp_eq_def mem_src_def cand_def found_def)

end
