(* ===== verification/Atomic.thy ===== *)
theory Atomic
  imports Prelude
begin

text \<open>
  The counters of \<open>sdk/include/osal/atomic.h\<close>. Each macro runs with interrupts off, so it is
  one step on the counter; the counter keeps its width (8 bits for a frame buffer's
  reference count, 32 for a component's), so that \<open>atomic_inc\<close> wraps, while the decrements stop at 0.
\<close>

definition atomic_read :: "'a::len word \<Rightarrow> 'a word" where
  "atomic_read v = v"

definition atomic_set :: "'a::len word \<Rightarrow> 'a word \<Rightarrow> 'a word" where
  "atomic_set v i = i"

definition atomic_add :: "'a::len word \<Rightarrow> 'a word \<Rightarrow> 'a word" where
  "atomic_add v i = v + i"

definition atomic_sub :: "'a::len word \<Rightarrow> 'a word \<Rightarrow> 'a word" where
  "atomic_sub v i = (if v > i then v - i else 0)"

definition atomic_inc :: "'a::len word \<Rightarrow> 'a word" where
  "atomic_inc v = v + 1"

definition atomic_dec :: "'a::len word \<Rightarrow> 'a word" where
  "atomic_dec v = (if v > 0 then v - 1 else v)"

definition atomic_inc_return :: "'a::len word \<Rightarrow> 'a word \<times> 'a word" where
  "atomic_inc_return v = (v + 1, v + 1)"

definition atomic_dec_return :: "'a::len word \<Rightarrow> 'a word \<times> 'a word" where
  "atomic_dec_return v = (if v > 0 then (v - 1, v - 1) else (0, v))"

definition atomic_dec2_return :: "'a::len word \<Rightarrow> 'a word \<times> 'a word" where
  "atomic_dec2_return v = (v, if v \<noteq> 0 then v - 1 else v)"

text \<open>The verdict first, then the counter.\<close>

definition atomic_dec_and_test :: "'a::len word \<Rightarrow> bool \<times> 'a word" where
  "atomic_dec_and_test v = (if v > 0 then (v - 1 = 0, v - 1) else (True, v))"

definition atomic_cmpxchg :: "'a::len word \<Rightarrow> 'a word \<Rightarrow> 'a word \<Rightarrow> 'a word \<times> 'a word" where
  "atomic_cmpxchg v old new = (v, if v = old then new else v)"

section \<open>Counting\<close>

lemma unat_atomic_inc [word_nat]:
  "unat v < 2 ^ LENGTH('a) - 1 \<Longrightarrow> unat (atomic_inc v) = unat (v :: 'a::len word) + 1"
  unfolding atomic_inc_def by (subst unat_add_small) auto

lemma unat_atomic_dec [word_nat]: "unat (atomic_dec v) = unat (v :: 'a::len word) - 1"
proof (cases "v = 0")
  case False
  then have "1 \<le> unat v" by (simp add: Suc_leI unat_gt_0)
  then show ?thesis using False by (simp add: atomic_dec_def word_gt_0 unat_sub_small)
qed (simp add: atomic_dec_def)

lemma atomic_dec_and_test_pos:
  "v \<noteq> 0 \<Longrightarrow> atomic_dec_and_test v = (v = 1, v - 1)"
  by (auto simp: atomic_dec_and_test_def word_gt_0)

lemma atomic_dec_and_test_0 [simp]: "atomic_dec_and_test 0 = (True, 0)"
  by (simp add: atomic_dec_and_test_def)

lemma snd_dec_and_test: "snd (atomic_dec_and_test v) = atomic_dec v"
  by (simp add: atomic_dec_and_test_def atomic_dec_def)

lemma fst_dec_and_test: "fst (atomic_dec_and_test v) \<longleftrightarrow> unat v \<le> 1"
proof -
  have "unat (v - 1) = unat v - 1" if "v \<noteq> 0"
    using that by (subst unat_sub_small) (simp_all add: Suc_leI unat_gt_0)
  then show ?thesis
    by (auto simp: atomic_dec_and_test_def word_gt_0 word_unat_eq_iff)
qed

lemma atomic_dec_inc [simp]: "v + 1 \<noteq> 0 \<Longrightarrow> atomic_dec (atomic_inc v) = v"
  by (simp add: atomic_dec_def atomic_inc_def word_gt_0)

text \<open>
  A client of a counter: takes and releases in any order; a release that answers \<open>True\<close> is
  the one that must free the object.
\<close>

datatype ref_op = Get | Put

fun ref_run :: "'a::len word \<Rightarrow> ref_op list \<Rightarrow> bool list \<times> 'a word" where
  "ref_run v [] = ([], v)"
| "ref_run v (Get # ops) = ref_run (atomic_inc v) ops"
| "ref_run v (Put # ops) =
     (let (last, v1) = atomic_dec_and_test v; (rs, v2) = ref_run v1 ops in (last # rs, v2))"

fun ref_level :: "nat \<Rightarrow> ref_op list \<Rightarrow> nat option" where
  "ref_level n [] = Some n"
| "ref_level n (Get # ops) = ref_level (n + 1) ops"
| "ref_level n (Put # ops) = (if n = 0 then None else ref_level (n - 1) ops)"

text \<open>The level stays positive and below the width of the counter until the last release.\<close>

fun ref_sane :: "nat \<Rightarrow> nat \<Rightarrow> ref_op list \<Rightarrow> bool" where
  "ref_sane w n [] \<longleftrightarrow> True"
| "ref_sane w n (Get # ops) \<longleftrightarrow> 0 < n \<and> n + 1 < 2 ^ w \<and> ref_sane w (n + 1) ops"
| "ref_sane w n (Put # ops) \<longleftrightarrow> 0 < n \<and> ref_sane w (n - 1) ops"

lemma ref_run_level:
  fixes v :: "'a::len word"
  assumes "ref_sane LENGTH('a) (unat v) ops"
  shows "ref_level (unat v) ops = Some (unat (snd (ref_run v ops)))"
    and "(True \<in> set (fst (ref_run v ops))) \<longleftrightarrow> (unat (snd (ref_run v ops)) = 0 \<and> ops \<noteq> [] \<and> v \<noteq> 0)"
proof -
  have dead: "ops = []" if "ref_sane LENGTH('a) 0 ops" for ops
    using that by (cases ops; cases "hd ops") auto
  have "ref_level (unat v) ops = Some (unat (snd (ref_run v ops))) \<and>
    ((True \<in> set (fst (ref_run v ops))) \<longleftrightarrow> (unat (snd (ref_run v ops)) = 0 \<and> ops \<noteq> [] \<and> v \<noteq> 0))"
    using assms
  proof (induction ops arbitrary: v)
    case (Cons op ops)
    show ?case
    proof (cases op)
      case Get
      then have s: "unat (atomic_inc v) = unat v + 1" using Cons.prems by (intro unat_atomic_inc) auto
      then have "atomic_inc v \<noteq> 0" "v \<noteq> 0" using Cons.prems Get by auto
      then show ?thesis using Cons.IH [of "atomic_inc v"] Cons.prems Get s
        by (cases ops) auto
    next
      case Put
      then have v: "0 < unat v" "v \<noteq> 0" using Cons.prems by auto
      let ?v1 = "atomic_dec v"
      have v1: "unat ?v1 = unat v - 1" by (rule unat_atomic_dec)
      have eq: "atomic_dec_and_test v = (unat v = 1, ?v1)"
        using v fst_dec_and_test [of v] snd_dec_and_test [of v]
        by (cases "atomic_dec_and_test v") auto
      have IH: "ref_level (unat ?v1) ops = Some (unat (snd (ref_run ?v1 ops)))"
        "(True \<in> set (fst (ref_run ?v1 ops))) \<longleftrightarrow>
           (unat (snd (ref_run ?v1 ops)) = 0 \<and> ops \<noteq> [] \<and> ?v1 \<noteq> 0)"
        using Cons.IH [of ?v1] Cons.prems Put v1 by auto
      have "ops = []" if "unat v = 1" using dead [of ops] Cons.prems Put that by simp
      moreover have "?v1 \<noteq> 0" if "unat v \<noteq> 1" using v v1 that by auto
      ultimately show ?thesis using Put eq IH v v1
        by (cases "unat v = 1") (auto simp: split_beta)
    qed
  qed simp
  then show "ref_level (unat v) ops = Some (unat (snd (ref_run v ops)))"
    and "(True \<in> set (fst (ref_run v ops))) \<longleftrightarrow> (unat (snd (ref_run v ops)) = 0 \<and> ops \<noteq> [] \<and> v \<noteq> 0)"
    by blast+
qed

section \<open>Properties\<close>

text \<open>a reference count used within its width tells exactly one holder to free the object:
  \<open>atomic_dec_and_test\<close> answers true in a run of gets and puts exactly when the run ends at
  level zero, and the counter is the level of the run.\<close>

theorem refcount_frees_at_zero:
  fixes v :: "'a::len word"
  assumes "ref_sane LENGTH('a) (unat v) ops" and "v \<noteq> 0" and "ops \<noteq> []"
  shows "ref_level (unat v) ops = Some (unat (snd (ref_run v ops))) \<and>
    ((True \<in> set (fst (ref_run v ops))) \<longleftrightarrow> ref_level (unat v) ops = Some 0)"
  using ref_run_level [OF assms(1)] assms(2,3) by simp

theorem refcount_frees_at_zero_witness:
  "ref_level (unat (1 :: 8 word)) [Get, Put, Put] = Some (unat (snd (ref_run (1 :: 8 word) [Get, Put, Put]))) \<and>
   ((True \<in> set (fst (ref_run (1 :: 8 word) [Get, Put, Put]))) \<longleftrightarrow>
     ref_level (unat (1 :: 8 word)) [Get, Put, Put] = Some 0)"
  by (rule refcount_frees_at_zero) simp_all

text \<open>the 8-bit count of a frame buffer wraps: after 256 gets on a buffer that has one user the
  counter is 1 again, and the next release answers true with 256 users left.\<close>

theorem refcount8_wraps:
  "ref_run (1 :: 8 word) (replicate 256 Get @ [Put]) = ([True], 0)"
proof -
  have inc: "ref_run v (replicate n Get @ ops) = ref_run (v + word_of_nat n) ops"
    for n ops and v :: "8 word"
    by (induction n arbitrary: v) (simp_all add: atomic_inc_def ac_simps)
  show ?thesis unfolding inc by (simp add: atomic_dec_and_test_def)
qed

end
