(* ===== verification/MsiState.thy ===== *)
theory MsiState
  imports Atomic RingBuffer
begin

text \<open>
  The state of the media stream interface, \<open>sdk/include/lib/multimedia/framebuff.h\<close> and
  \<open>msi.h\<close>: frame buffers, their queues and pools, and the stream components. Components
  share and release frame buffers through pointers, so the model has an explicit store: maps from addresses to records,
  with address 0 for NULL. Reading or writing through NULL or through an address that holds
  no object (never allocated, or freed) is \<open>None\<close>.

  A component's action is code of the application: it is the parameter \<open>act\<close>, a function of
  the action's address, the component, the command and its two parameters, which answers a
  code and may change the store. The mutex of the component list only serialises the
  operations; each operation is one step of the model.
\<close>

type_synonym ptr = u32

abbreviation NULL :: ptr where "NULL \<equiv> 0"

record framebuff =
  f_next :: ptr
  f_data :: ptr
  f_len :: u32
  f_time :: u32
  f_priv :: ptr
  f_mtype :: u8
  f_stype :: u8
  f_srcID :: u8
  f_datatag :: u8
  f_users :: u8
  f_index :: u8
  f_used :: bool
  f_pool :: bool
  f_clone :: bool
  f_keyfrm :: bool
  f_msi :: ptr

record fbqueue = "ptr ring" +
  q_sema :: nat
  reader_max :: u16
  q_init :: bool
  q_alloc :: bool
  readers :: "u32 list option"

record fbpool =
  p_size :: u8
  p_inited :: bool
  p_pool :: "ptr list"

text \<open>\<open>m_fbQ\<close> is the address of the queue inside the component.\<close>

record msi =
  m_next :: ptr
  m_name :: string
  m_action :: ptr
  output_list :: "ptr list"
  m_priv :: ptr
  m_enable :: bool
  m_deleted :: bool
  m_users :: u32
  m_bound :: u32
  m_inited :: u32
  m_fbQ :: ptr

abbreviation MSI_OUTIF_MAX :: nat where "MSI_OUTIF_MAX \<equiv> 4"

text \<open>The commands of \<open>enum MSI_CMDs\<close> the core itself sends.\<close>

abbreviation MSI_CMD_PRE_DESTROY :: u32 where "MSI_CMD_PRE_DESTROY \<equiv> 0"
abbreviation MSI_CMD_POST_DESTROY :: u32 where "MSI_CMD_POST_DESTROY \<equiv> 1"
abbreviation MSI_CMD_FREE_FB :: u32 where "MSI_CMD_FREE_FB \<equiv> 2"
abbreviation MSI_CMD_TRANS_FB :: u32 where "MSI_CMD_TRANS_FB \<equiv> 6"
abbreviation MSI_CMD_TRANS_FB_END :: u32 where "MSI_CMD_TRANS_FB_END \<equiv> 7"

record mst =
  fbs :: "ptr \<rightharpoonup> framebuff"
  queues :: "ptr \<rightharpoonup> fbqueue"
  msis :: "ptr \<rightharpoonup> msi"
  g_list :: ptr

type_synonym action = "ptr \<Rightarrow> ptr \<Rightarrow> u32 \<Rightarrow> u32 \<Rightarrow> u32 \<Rightarrow> mst \<Rightarrow> (int \<times> mst) option"

section \<open>Accesses to the store\<close>

definition rd_fb :: "ptr \<Rightarrow> mst \<Rightarrow> framebuff option" where
  "rd_fb p s = (if p = NULL then None else fbs s p)"

definition rd_q :: "ptr \<Rightarrow> mst \<Rightarrow> fbqueue option" where
  "rd_q p s = (if p = NULL then None else queues s p)"

definition rd_msi :: "ptr \<Rightarrow> mst \<Rightarrow> msi option" where
  "rd_msi p s = (if p = NULL then None else msis s p)"

definition up_fb :: "ptr \<Rightarrow> (framebuff \<Rightarrow> framebuff) \<Rightarrow> mst \<Rightarrow> mst option" where
  "up_fb p f s = do { x \<leftarrow> rd_fb p s; Some (s\<lparr>fbs := (fbs s)(p \<mapsto> f x)\<rparr>) }"

definition up_q :: "ptr \<Rightarrow> (fbqueue \<Rightarrow> fbqueue) \<Rightarrow> mst \<Rightarrow> mst option" where
  "up_q p f s = do { x \<leftarrow> rd_q p s; Some (s\<lparr>queues := (queues s)(p \<mapsto> f x)\<rparr>) }"

definition up_msi :: "ptr \<Rightarrow> (msi \<Rightarrow> msi) \<Rightarrow> mst \<Rightarrow> mst option" where
  "up_msi p f s = do { x \<leftarrow> rd_msi p s; Some (s\<lparr>msis := (msis s)(p \<mapsto> f x)\<rparr>) }"

named_theorems store \<open>reads and writes of the store\<close>

lemma rd_up_fb [store]:
  "p \<noteq> NULL \<Longrightarrow> fbs s p = Some x \<Longrightarrow> rd_fb p s = Some x"
  "p \<noteq> NULL \<Longrightarrow> fbs s p = Some x \<Longrightarrow> up_fb p f s = Some (s\<lparr>fbs := (fbs s)(p \<mapsto> f x)\<rparr>)"
  by (simp_all add: rd_fb_def up_fb_def)

lemma rd_up_q [store]:
  "p \<noteq> NULL \<Longrightarrow> queues s p = Some x \<Longrightarrow> rd_q p s = Some x"
  "p \<noteq> NULL \<Longrightarrow> queues s p = Some x \<Longrightarrow> up_q p f s = Some (s\<lparr>queues := (queues s)(p \<mapsto> f x)\<rparr>)"
  by (simp_all add: rd_q_def up_q_def)

lemma rd_up_msi [store]:
  "p \<noteq> NULL \<Longrightarrow> msis s p = Some x \<Longrightarrow> rd_msi p s = Some x"
  "p \<noteq> NULL \<Longrightarrow> msis s p = Some x \<Longrightarrow> up_msi p f s = Some (s\<lparr>msis := (msis s)(p \<mapsto> f x)\<rparr>)"
  by (simp_all add: rd_msi_def up_msi_def)

lemma rd_SomeD [dest]:
  "rd_fb p s = Some x \<Longrightarrow> p \<noteq> NULL \<and> fbs s p = Some x"
  "rd_q p s = Some y \<Longrightarrow> p \<noteq> NULL \<and> queues s p = Some y"
  "rd_msi p s = Some z \<Longrightarrow> p \<noteq> NULL \<and> msis s p = Some z"
  by (auto simp: rd_fb_def rd_q_def rd_msi_def split: if_splits)

definition FB_FREE :: "ptr \<Rightarrow> mst \<Rightarrow> mst option" where
  "FB_FREE p s = do { x \<leftarrow> rd_fb p s; Some (s\<lparr>fbs := (fbs s)(p := None)\<rparr>) }"

text \<open>\<open>os_free\<close> of a component, and of the queue inside it.\<close>

definition free_msi_mem :: "ptr \<Rightarrow> mst \<Rightarrow> mst option" where
  "free_msi_mem p s =
     do { x \<leftarrow> rd_msi p s;
          Some (s\<lparr>msis := (msis s)(p := None), queues := (queues s)(m_fbQ x := None)\<rparr>) }"

section \<open>The component's action and its reference count\<close>

definition msi_do_cmd :: "action \<Rightarrow> ptr \<Rightarrow> u32 \<Rightarrow> u32 \<Rightarrow> u32 \<Rightarrow> mst \<Rightarrow> (int \<times> mst) option" where
  "msi_do_cmd act msi cmd param1 param2 s =
     (if msi \<noteq> NULL
      then do { x \<leftarrow> rd_msi msi s;
                if m_action x \<noteq> NULL then act (m_action x) msi cmd param1 param2 s
                else Some (RET_OK, s) }
      else Some (RET_OK, s))"

definition msi_get :: "ptr \<Rightarrow> mst \<Rightarrow> mst option" where
  "msi_get msi s =
     (if msi \<noteq> NULL then up_msi msi (\<lambda>x. x\<lparr>m_users := atomic_inc (m_users x)\<rparr>) s else Some s)"

end
