(* ===== verification/FrameBuff.thy ===== *)
theory FrameBuff
  imports MsiState
begin

unbundle bit_operations_syntax

text \<open>
  Frame buffers and the release of references: \<open>framebuff.c\<close>, and with it the functions of
  \<open>fbqueue.c\<close> and \<open>msi.c\<close> that a release can reach (\<open>fbq_dequeue\<close>, \<open>fbq_destory\<close>, \<open>msi_put\<close>,
  \<open>msi_unbind\<close>, \<open>msi_free\<close>), all under \<open>sdk/lib/multimedia/msi\<close>. Loops over a linked list are partial
  functions: a list that never ends is \<open>None\<close>. The release functions call each other, so
  they carry fuel, the depth of the calls; too little of it is \<open>None\<close>.
\<close>

section \<open>Taking references\<close>

partial_function (option) fb_get :: "ptr \<Rightarrow> mst \<Rightarrow> mst option" where
  "fb_get fb s =
     (if fb \<noteq> NULL
      then do { x \<leftarrow> rd_fb fb s;
                s \<leftarrow> fb_get (f_next x) s;
                up_fb fb (\<lambda>x. x\<lparr>f_users := atomic_inc (f_users x)\<rparr>) s }
      else Some s)"

text \<open>\<open>mem\<close>: the address the allocator returns. The structure has 32 bytes; the data follow it.\<close>

definition zero_framebuff :: framebuff where
  "zero_framebuff = \<lparr>f_next = NULL, f_data = NULL, f_len = 0, f_time = 0, f_priv = NULL, f_mtype = 0,
     f_stype = 0, f_srcID = 0, f_datatag = 0, f_users = 0, f_index = 0, f_used = False,
     f_pool = False, f_clone = False, f_keyfrm = False, f_msi = NULL\<rparr>"

definition fb_alloc :: "ptr \<Rightarrow> ptr \<Rightarrow> u32 \<Rightarrow> u16 \<Rightarrow> ptr \<Rightarrow> mst \<Rightarrow> (ptr \<times> mst) option" where
  "fb_alloc mem data sz type msi s =
     (if mem \<noteq> NULL
      then (let fb = zero_framebuff\<lparr>f_users := 1, f_len := sz, f_msi := msi,
                       f_mtype := ucast (drop_bit 8 type AND 0xff), f_stype := ucast (type AND 0xff),
                       f_data := (if data \<noteq> NULL then data else if sz \<noteq> 0 then mem + 32 else NULL)\<rparr>
            in do { s \<leftarrow> msi_get msi (s\<lparr>fbs := (fbs s)(mem \<mapsto> fb)\<rparr>); Some (mem, s) })
      else Some (NULL, s))"

definition fb_clone :: "ptr \<Rightarrow> ptr \<Rightarrow> u16 \<Rightarrow> ptr \<Rightarrow> mst \<Rightarrow> (ptr \<times> mst) option" where
  "fb_clone mem fb type msi s =
     (if mem \<noteq> NULL
      then do { s \<leftarrow> msi_get msi (s\<lparr>fbs := (fbs s)(mem \<mapsto> zero_framebuff\<lparr>f_users := 1, f_clone := True,
                  f_msi := msi, f_mtype := ucast (drop_bit 8 type AND 0xff),
                  f_stype := ucast (type AND 0xff)\<rparr>)\<rparr>);
                x \<leftarrow> rd_fb fb s;
                s \<leftarrow> up_fb mem (\<lambda>n. n\<lparr>f_data := f_data x, f_len := f_len x, f_time := f_time x,
                       f_priv := f_priv x, f_srcID := f_srcID x, f_datatag := f_datatag x\<rparr>) s;
                s \<leftarrow> fb_get fb s;
                s \<leftarrow> up_fb mem (\<lambda>n. n\<lparr>f_next := fb\<rparr>) s;
                Some (mem, s) }
      else Some (NULL, s))"

definition fb_ref :: "ptr \<Rightarrow> ptr \<Rightarrow> mst \<Rightarrow> mst option" where
  "fb_ref fb_new fb_old s =
     do { x \<leftarrow> rd_fb fb_new s;
          assert_that (f_next x = NULL);
          s \<leftarrow> fb_get fb_old s;
          up_fb fb_new (\<lambda>x. x\<lparr>f_next := fb_old\<rparr>) s }"

section \<open>Looking into a chain\<close>

partial_function (option) fb_find_loop :: "ptr \<Rightarrow> u8 \<Rightarrow> u8 \<Rightarrow> mst \<Rightarrow> ptr option" where
  "fb_find_loop fb mtype stype s =
     (if fb \<noteq> NULL
      then do { x \<leftarrow> rd_fb fb s;
                if f_mtype x = mtype \<and> (f_stype x = stype \<or> stype = 0) then Some fb
                else fb_find_loop (f_next x) mtype stype s }
      else Some NULL)"

definition fb_find :: "ptr \<Rightarrow> u8 \<Rightarrow> u8 \<Rightarrow> mst \<Rightarrow> ptr option" where
  "fb_find fb mtype stype s =
     (if mtype = 0 \<or> fb = NULL then Some fb
      else do { x \<leftarrow> rd_fb fb s;
                if f_next x = NULL then Some fb else fb_find_loop fb mtype stype s })"

partial_function (option) fb_len_loop :: "ptr \<Rightarrow> u8 \<Rightarrow> u8 \<Rightarrow> u32 \<Rightarrow> mst \<Rightarrow> u32 option" where
  "fb_len_loop fb mtype stype len s =
     (if fb \<noteq> NULL
      then do { x \<leftarrow> rd_fb fb s;
                fb_len_loop (f_next x) mtype stype
                  (if f_mtype x = mtype \<and> (f_stype x = stype \<or> stype = 0) then len + f_len x else len) s }
      else Some len)"

definition fb_len :: "ptr \<Rightarrow> u8 \<Rightarrow> u8 \<Rightarrow> mst \<Rightarrow> u32 option" where
  "fb_len fb mtype stype s =
     (if mtype = 0 \<or> fb = NULL
      then (if fb \<noteq> NULL then do { x \<leftarrow> rd_fb fb s; Some (f_len x) } else Some 0)
      else do { x \<leftarrow> rd_fb fb s;
                if f_mtype x \<noteq> mtype then Some 0 else fb_len_loop fb mtype stype 0 s })"

datatype MEDIA_DATA_CATEGORY =
  MEDIA_DATA_VIDEO | MEDIA_DATA_AUDIO | MEDIA_DATA_PICTURE | MEDIA_DATA_TEXT | MEDIA_DATA_MAX

definition fb_category :: "ptr \<Rightarrow> mst \<Rightarrow> MEDIA_DATA_CATEGORY option" where
  "fb_category fb s =
     do { x \<leftarrow> rd_fb fb s;
          Some (if f_mtype x < 32 then MEDIA_DATA_VIDEO
                else if f_mtype x < 64 then MEDIA_DATA_AUDIO
                else if f_mtype x < 96 then MEDIA_DATA_PICTURE
                else if f_mtype x < 128 then MEDIA_DATA_TEXT
                else MEDIA_DATA_MAX) }"

section \<open>Leaving the queue and the component list\<close>

text \<open>
  \<open>fbq_dequeue\<close> waits on the queue's semaphore. What happens during a wait is an item of
  \<open>env\<close>: the milliseconds that passed, and what the other tasks did to the store. A run that
  would wait for an item that is not there has not returned: \<open>None\<close>.
\<close>

fun fbq_dequeue :: "ptr \<Rightarrow> u32 \<Rightarrow> (u64 \<times> (mst \<Rightarrow> mst)) list \<Rightarrow> mst \<Rightarrow> (ptr \<times> mst) option" where
  "fbq_dequeue q tmo_ms env s =
     (if q = NULL then Some (NULL, s)
      else do {
        r \<leftarrow> rd_q q s;
        if \<not> q_init r then Some (NULL, s)
        else if \<not> RB_EMPTY r
        then do { (v, r') \<leftarrow> RB_GET r; fb \<leftarrow> v; s \<leftarrow> up_q q (\<lambda>_. r') s; Some (fb, s) }
        else if tmo_ms = 0 then Some (NULL, s)
        else (case env of
                [] \<Rightarrow> None
              | (jiff, other) # env' \<Rightarrow>
                  (if jiff \<ge> ucast tmo_ms then Some (NULL, other s)
                   else fbq_dequeue q (tmo_ms - ucast jiff) env' (other s))) })"

declare fbq_dequeue.simps [simp del]

text \<open>The walk of \<open>msi_list_del\<close>, with the predecessor.\<close>

partial_function (option) list_del_loop :: "ptr \<Rightarrow> ptr \<Rightarrow> ptr \<Rightarrow> mst \<Rightarrow> mst option" where
  "list_del_loop msi prev p s =
     (if p \<noteq> NULL
      then do { x \<leftarrow> rd_msi p s;
                if p = msi
                then (if prev \<noteq> NULL then up_msi prev (\<lambda>y. y\<lparr>m_next := m_next x\<rparr>) s
                      else Some (s\<lparr>g_list := m_next x\<rparr>))
                else list_del_loop msi p (m_next x) s }
      else Some s)"

definition msi_list_del :: "ptr \<Rightarrow> mst \<Rightarrow> mst option" where
  "msi_list_del msi s = list_del_loop msi NULL (g_list s) s"

section \<open>Releasing references\<close>

text \<open>
  The release functions call each other. Each is a definition over \<open>rel\<close>, which performs the
  calls it makes; \<open>release\<close> ties the knot, with the depth of the calls as fuel.
\<close>

datatype release_call =
    Fb_put ptr
  | Fb_free ptr
  | Msi_put ptr
  | Fbq_destory ptr
  | Fbq_drain ptr
  | Msi_free ptr
  | Unbind_loop ptr ptr "nat list"

definition fb_put_code :: "(release_call \<Rightarrow> mst \<Rightarrow> mst option) \<Rightarrow> ptr \<Rightarrow> mst \<Rightarrow> mst option" where
  "fb_put_code rel fb s =
     (if fb = NULL then Some s
      else do { x \<leftarrow> rd_fb fb s; s \<leftarrow> rel (Fb_put (f_next x)) s; rel (Fb_free fb) s })"

definition fb_free_code :: "action \<Rightarrow> (release_call \<Rightarrow> mst \<Rightarrow> mst option) \<Rightarrow> ptr \<Rightarrow> mst \<Rightarrow> mst option" where
  "fb_free_code act rel fb s =
     (if fb = NULL then Some s
      else do {
        x \<leftarrow> rd_fb fb s;
        assert_that (atomic_read (f_users x) > 0);
        s \<leftarrow> up_fb fb (\<lambda>x. x\<lparr>f_users := snd (atomic_dec_and_test (f_users x))\<rparr>) s;
        if \<not> fst (atomic_dec_and_test (f_users x)) then Some s
        else do {
          (ret, s) \<leftarrow> msi_do_cmd act (f_msi x) MSI_CMD_FREE_FB fb 0 s;
          s \<leftarrow> rel (Msi_put (f_msi x)) s;
          if ret = RET_OK
          then do { x \<leftarrow> rd_fb fb s; assert_that (\<not> f_pool x); FB_FREE fb s }
          else Some s } })"

definition msi_put_code :: "action \<Rightarrow> (release_call \<Rightarrow> mst \<Rightarrow> mst option) \<Rightarrow> ptr \<Rightarrow> mst \<Rightarrow> mst option" where
  "msi_put_code act rel msi s =
     (if msi = NULL then Some s
      else do {
        x \<leftarrow> rd_msi msi s;
        assert_that (atomic_read (m_users x) > 0);
        s \<leftarrow> up_msi msi (\<lambda>x. x\<lparr>m_users := snd (atomic_dec_and_test (m_users x))\<rparr>) s;
        if fst (atomic_dec_and_test (m_users x)) \<and> atomic_read (m_inited x) = 0
        then do {
          (_, s) \<leftarrow> msi_do_cmd act msi MSI_CMD_POST_DESTROY 0 0 s;
          s \<leftarrow> up_msi msi (\<lambda>x. x\<lparr>m_priv := NULL, m_action := NULL\<rparr>) s;
          s \<leftarrow> rel (Fbq_destory (m_fbQ x)) s;
          if atomic_read (m_bound x) = 0 then rel (Msi_free msi) s
          else up_msi msi (\<lambda>x. x\<lparr>m_deleted := False\<rparr>) s }
        else Some s })"

definition fbq_destory_code :: "(release_call \<Rightarrow> mst \<Rightarrow> mst option) \<Rightarrow> ptr \<Rightarrow> mst \<Rightarrow> mst option" where
  "fbq_destory_code rel q s =
     (if q = NULL then Some s
      else do {
        r \<leftarrow> rd_q q s;
        if \<not> q_init r then Some s
        else do {
          s \<leftarrow> rel (Fbq_drain q) s;
          up_q q (\<lambda>r. r\<lparr>rbq := (if q_alloc r then Some [] else rbq r),
                       readers := (case readers r of None \<Rightarrow> None | Some _ \<Rightarrow> Some []),
                       q_sema := 0, q_init := False\<rparr>) s } })"

text \<open>The loop of \<open>fbq_destory\<close>.\<close>

definition fbq_drain_code :: "(release_call \<Rightarrow> mst \<Rightarrow> mst option) \<Rightarrow> ptr \<Rightarrow> mst \<Rightarrow> mst option" where
  "fbq_drain_code rel q s =
     do { r \<leftarrow> rd_q q s;
          if RB_COUNT r = 0 then Some s
          else do { (fb, s) \<leftarrow> fbq_dequeue q 0 [] s;
                    s \<leftarrow> rel (Fb_put fb) s;
                    rel (Fbq_drain q) s } }"

definition msi_free_code :: "(release_call \<Rightarrow> mst \<Rightarrow> mst option) \<Rightarrow> ptr \<Rightarrow> mst \<Rightarrow> mst option" where
  "msi_free_code rel msi s =
     (if msi = NULL then Some s
      else do { s \<leftarrow> msi_list_del msi s;
                s \<leftarrow> rel (Unbind_loop msi NULL [0..<MSI_OUTIF_MAX]) s;
                free_msi_mem msi s })"

text \<open>The loop of \<open>msi_unbind\<close> over the output slots.\<close>

definition unbind_loop_code :: "(release_call \<Rightarrow> mst \<Rightarrow> mst option) \<Rightarrow> ptr \<Rightarrow> ptr \<Rightarrow> nat list
    \<Rightarrow> mst \<Rightarrow> mst option" where
  "unbind_loop_code rel msi o_if is s =
     (case is of
        [] \<Rightarrow> Some s
      | i # is' \<Rightarrow>
          do { x \<leftarrow> rd_msi msi s;
               out \<leftarrow> mem_rd (output_list x) i;
               if out \<noteq> NULL \<and> (out = o_if \<or> o_if = NULL)
               then do {
                 s \<leftarrow> up_msi msi (\<lambda>x. x\<lparr>output_list := (output_list x)[i := NULL]\<rparr>) s;
                 y \<leftarrow> rd_msi out s;
                 s \<leftarrow> up_msi out (\<lambda>y. y\<lparr>m_bound := snd (atomic_dec_and_test (m_bound y))\<rparr>) s;
                 s \<leftarrow> (if fst (atomic_dec_and_test (m_bound y)) \<and> atomic_read (m_users y) = 0
                       then rel (Msi_free out) s else Some s);
                 if o_if \<noteq> NULL then Some s else rel (Unbind_loop msi o_if is') s }
               else rel (Unbind_loop msi o_if is') s })"

definition release_code :: "action \<Rightarrow> (release_call \<Rightarrow> mst \<Rightarrow> mst option) \<Rightarrow> release_call
    \<Rightarrow> mst \<Rightarrow> mst option" where
  "release_code act rel c s =
     (case c of
        Fb_put fb \<Rightarrow> fb_put_code rel fb s
      | Fb_free fb \<Rightarrow> fb_free_code act rel fb s
      | Msi_put msi \<Rightarrow> msi_put_code act rel msi s
      | Fbq_destory q \<Rightarrow> fbq_destory_code rel q s
      | Fbq_drain q \<Rightarrow> fbq_drain_code rel q s
      | Msi_free msi \<Rightarrow> msi_free_code rel msi s
      | Unbind_loop msi o_if is \<Rightarrow> unbind_loop_code rel msi o_if is s)"

primrec release :: "nat \<Rightarrow> action \<Rightarrow> release_call \<Rightarrow> mst \<Rightarrow> mst option" where
  "release 0 act c s = None"
| "release (Suc n) act c s = release_code act (release n act) c s"

definition fb_put :: "nat \<Rightarrow> action \<Rightarrow> ptr \<Rightarrow> mst \<Rightarrow> mst option" where
  "fb_put n act fb s = release n act (Fb_put fb) s"

definition msi_put :: "nat \<Rightarrow> action \<Rightarrow> ptr \<Rightarrow> mst \<Rightarrow> mst option" where
  "msi_put n act msi s = release n act (Msi_put msi) s"

definition fbq_destory :: "nat \<Rightarrow> action \<Rightarrow> ptr \<Rightarrow> mst \<Rightarrow> mst option" where
  "fbq_destory n act q s = release n act (Fbq_destory q) s"

definition msi_unbind :: "nat \<Rightarrow> action \<Rightarrow> ptr \<Rightarrow> ptr \<Rightarrow> mst \<Rightarrow> (int \<times> mst) option" where
  "msi_unbind n act msi o_if s =
     do { s \<leftarrow> release n act (Unbind_loop msi o_if [0..<MSI_OUTIF_MAX]) s; Some (RET_OK, s) }"

text \<open>More fuel never changes an answer.\<close>

definition below :: "'a option \<Rightarrow> 'a option \<Rightarrow> bool" where
  "below x y \<longleftrightarrow> (\<forall>v. x = Some v \<longrightarrow> y = Some v)"

lemma below_rules:
  "below x x"
  "below a b \<Longrightarrow> (\<And>z. below (f z) (g z)) \<Longrightarrow> below (Option.bind a f) (Option.bind b g)"
  "below a b \<Longrightarrow> below a' b' \<Longrightarrow> below (if c then a else a') (if c then b else b')"
  "(\<And>u v. below (h u v) (k u v)) \<Longrightarrow> below (case_prod h pr) (case_prod k pr)"
  "below a b \<Longrightarrow> (\<And>i is. below (m i is) (m' i is)) \<Longrightarrow> below (case_list a m xs) (case_list b m' xs)"
  by (auto simp: below_def bind_eq_Some_conv split: prod.splits list.splits)

lemma release_code_mono:
  assumes "\<And>c s. below (rel c s) (rel' c s)"
  shows "below (release_code act rel c s) (release_code act rel' c s)"
  by (cases c)
     (simp_all only: release_code_def release_call.case fb_put_code_def fb_free_code_def msi_put_code_def
        fbq_destory_code_def fbq_drain_code_def msi_free_code_def unbind_loop_code_def;
      intro below_rules assms)+

lemma release_below: "n \<le> m \<Longrightarrow> below (release n act c s) (release m act c s)"
proof (induction n arbitrary: m c s)
  case 0
  then show ?case by (simp add: below_def)
next
  case (Suc n)
  then obtain k where "m = Suc k" "n \<le> k" by (cases m) auto
  then show ?case using Suc.IH by (simp add: release_code_mono)
qed

lemma release_fuel:
  "release n act c s = Some s' \<Longrightarrow> n \<le> m \<Longrightarrow> release m act c s = Some s'"
  using release_below [of n m act c s] by (simp add: below_def)

section \<open>Chains of frame buffers\<close>

text \<open>\<open>chain F p ps\<close>: following \<open>next\<close> from \<open>p\<close> meets the buffers \<open>ps\<close> and ends at NULL.\<close>

fun chain :: "(ptr \<rightharpoonup> framebuff) \<Rightarrow> ptr \<Rightarrow> ptr list \<Rightarrow> bool" where
  "chain F p [] \<longleftrightarrow> p = NULL"
| "chain F p (q # qs) \<longleftrightarrow>
     p = q \<and> q \<noteq> NULL \<and> (case F q of None \<Rightarrow> False | Some x \<Rightarrow> chain F (f_next x) qs)"

text \<open>The store with the count of every buffer of \<open>ps\<close> changed by \<open>f\<close>.\<close>

definition recount :: "(u8 \<Rightarrow> u8) \<Rightarrow> ptr list \<Rightarrow> (ptr \<rightharpoonup> framebuff) \<Rightarrow> ptr \<rightharpoonup> framebuff" where
  "recount f ps F = (\<lambda>q. if q \<in> set ps then map_option (\<lambda>x. x\<lparr>f_users := f (f_users x)\<rparr>) (F q) else F q)"

definition users_in :: "(ptr \<rightharpoonup> framebuff) \<Rightarrow> ptr list \<Rightarrow> nat \<Rightarrow> nat \<Rightarrow> bool" where
  "users_in F ps lo hi \<longleftrightarrow>
     list_all (\<lambda>q. case F q of None \<Rightarrow> False | Some x \<Rightarrow> lo \<le> unat (f_users x) \<and> unat (f_users x) \<le> hi) ps"

lemma recount_Nil [simp]: "recount f [] F = F"
  by (simp add: recount_def)

lemma recount_Cons:
  "F p = Some x \<Longrightarrow> p \<notin> set ps \<Longrightarrow>
   recount f (p # ps) F = (recount f ps F)(p \<mapsto> x\<lparr>f_users := f (f_users x)\<rparr>)"
  by (auto simp: recount_def fun_eq_iff)

lemma recount_out [simp]: "p \<notin> set ps \<Longrightarrow> recount f ps F p = F p"
  by (simp add: recount_def)

lemma recount_upd: "p \<notin> set ps \<Longrightarrow> recount f ps (F(p := v)) = (recount f ps F)(p := v)"
  by (auto simp: recount_def fun_eq_iff)

lemma chain_recount [simp]: "chain (recount f ps' F) p ps = chain F p ps"
  by (induction ps arbitrary: p) (auto simp: recount_def split: option.splits)

lemma chain_upd: "q \<notin> set ps \<Longrightarrow> chain (F(q := v)) p ps = chain F p ps"
  by (induction ps arbitrary: p) (auto split: option.splits)

lemma chain_NULL [simp]: "chain F NULL ps \<longleftrightarrow> ps = []"
  by (cases ps) auto

lemma chainE:
  assumes "chain F p (q # qs)"
  obtains x where "p = q" "q \<noteq> NULL" "F q = Some x" "chain F (f_next x) qs"
  using assms by (auto split: option.splits)

lemma users_in_Cons:
  "users_in F (q # qs) lo hi \<longleftrightarrow>
   (\<exists>x. F q = Some x \<and> lo \<le> unat (f_users x) \<and> unat (f_users x) \<le> hi) \<and> users_in F qs lo hi"
  by (auto simp: users_in_def split: option.splits)

lemma users_in_Nil [simp]: "users_in F [] lo hi"
  by (simp add: users_in_def)

lemma recount_inverse:
  assumes "\<And>u. lo \<le> unat u \<Longrightarrow> unat u \<le> hi \<Longrightarrow> g (f u) = u" "users_in F ps lo hi"
  shows "recount g ps (recount f ps F) = F"
proof
  fix q
  show "recount g ps (recount f ps F) q = F q"
    using assms by (auto simp: recount_def users_in_def list_all_iff split: option.splits)
qed

lemma users_in_recount:
  assumes "\<And>u. lo \<le> unat u \<Longrightarrow> unat u \<le> hi \<Longrightarrow> lo' \<le> unat (f u) \<and> unat (f u) \<le> hi'" "users_in F ps lo hi"
  shows "users_in (recount f ps F) ps lo' hi'"
  using assms by (auto simp: recount_def users_in_def list_all_iff split: option.splits)

lemma fb_get_chain:
  assumes "chain (fbs s) p ps" "distinct ps"
  shows "fb_get p s = Some (s\<lparr>fbs := recount atomic_inc ps (fbs s)\<rparr>)"
  using assms
proof (induction ps arbitrary: p s)
  case Nil
  then show ?case by (simp add: fb_get.simps)
next
  case (Cons q qs)
  from Cons.prems(1) obtain x where x: "p = q" "q \<noteq> NULL" "fbs s q = Some x" "chain (fbs s) (f_next x) qs"
    by (rule chainE)
  let ?s1 = "s\<lparr>fbs := recount atomic_inc qs (fbs s)\<rparr>"
  have "fb_get (f_next x) s = Some ?s1" using Cons x by simp
  then show ?case
    using x Cons.prems(2) recount_Cons [of "fbs s" q x qs atomic_inc]
    by (subst fb_get.simps) (simp add: store del: fun_upd_apply)
qed

lemma fb_put_unfold:
  "fb_put (Suc n) act fb s =
     (if fb = NULL then Some s
      else do { x \<leftarrow> rd_fb fb s; s \<leftarrow> fb_put n act (f_next x) s; release n act (Fb_free fb) s })"
  by (simp add: fb_put_def release_code_def fb_put_code_def)

lemma fb_put_NULL [simp]: "0 < n \<Longrightarrow> fb_put n act NULL s = Some s"
  by (cases n) (simp_all add: fb_put_unfold)

text \<open>Releasing a buffer someone else still holds only lowers its count.\<close>

lemma fb_free_shared:
  assumes "0 < n" "fb \<noteq> NULL" "fbs s fb = Some x" "2 \<le> unat (f_users x)"
  shows "release n act (Fb_free fb) s
    = Some (s\<lparr>fbs := (fbs s)(fb \<mapsto> x\<lparr>f_users := atomic_dec (f_users x)\<rparr>)\<rparr>)"
proof -
  obtain k where n: "n = Suc k" using assms(1) by (cases n) auto
  have "f_users x > 0" "\<not> fst (atomic_dec_and_test (f_users x))"
    using assms(4) by (auto simp: fst_dec_and_test word_gt_0)
  then show ?thesis
    using assms(2,3)
    by (simp add: n release_code_def fb_free_code_def store atomic_read_def snd_dec_and_test)
qed

lemma fb_put_shared:
  assumes "chain (fbs s) p ps" "distinct ps" "users_in (fbs s) ps 2 255" "length ps < n"
  shows "fb_put n act p s = Some (s\<lparr>fbs := recount atomic_dec ps (fbs s)\<rparr>)"
  using assms
proof (induction ps arbitrary: p s n)
  case Nil
  then show ?case by simp
next
  case (Cons q qs)
  from Cons.prems(1) obtain x where x: "p = q" "q \<noteq> NULL" "fbs s q = Some x" "chain (fbs s) (f_next x) qs"
    by (rule chainE)
  obtain k where n: "n = Suc k" "length qs < k" using Cons.prems(4) by (cases n) auto
  have u: "2 \<le> unat (f_users x)" using Cons.prems(3) x by (simp add: users_in_Cons)
  let ?s1 = "s\<lparr>fbs := recount atomic_dec qs (fbs s)\<rparr>"
  have "fb_put k act (f_next x) s = Some ?s1"
    using Cons.IH [OF x(4) _ _ n(2)] Cons.prems by (simp add: users_in_Cons)
  moreover have "release k act (Fb_free q) ?s1
      = Some (?s1\<lparr>fbs := (fbs ?s1)(q \<mapsto> x\<lparr>f_users := atomic_dec (f_users x)\<rparr>)\<rparr>)"
    using n Cons.prems(2) x u by (intro fb_free_shared) auto
  ultimately show ?case
    using x Cons.prems(2) recount_Cons [of "fbs s" q x qs atomic_dec]
    by (simp add: n fb_put_unfold store del: fun_upd_apply)
qed

text \<open>Releasing the last reference frees the buffer and the reference on its component.\<close>

lemma msi_put_alive:
  assumes "0 < n" "m \<noteq> NULL" "msis s m = Some x" "m_users x \<noteq> 0" "m_inited x \<noteq> 0"
  shows "release n act (Msi_put m) s
    = Some (s\<lparr>msis := (msis s)(m \<mapsto> x\<lparr>m_users := atomic_dec (m_users x)\<rparr>)\<rparr>)"
proof -
  obtain k where n: "n = Suc k" using assms(1) by (cases n) auto
  show ?thesis
    using assms by (simp add: n release_code_def msi_put_code_def store atomic_read_def snd_dec_and_test
        word_gt_0)
qed

text \<open>An action that leaves a freed buffer to the core: no action, or one that answers \<open>RET_OK\<close> to
  \<open>MSI_CMD_FREE_FB\<close> and changes nothing.\<close>

definition plain_free :: "action \<Rightarrow> ptr \<Rightarrow> ptr \<Rightarrow> bool" where
  "plain_free act a m \<longleftrightarrow> a = NULL \<or> (\<forall>fb s. act a m MSI_CMD_FREE_FB fb 0 s = Some (RET_OK, s))"

lemma fb_free_last:
  assumes "2 \<le> n" "fb \<noteq> NULL" "fbs s fb = Some x" "f_users x = 1" "\<not> f_pool x"
    and "f_msi x = m" "m \<noteq> NULL" "msis s m = Some y" "m_users y \<noteq> 0" "m_inited y \<noteq> 0"
    and "plain_free act (m_action y) m"
  shows "release n act (Fb_free fb) s
    = Some (s\<lparr>fbs := (fbs s)(fb := None),
             msis := (msis s)(m \<mapsto> y\<lparr>m_users := atomic_dec (m_users y)\<rparr>)\<rparr>)"
proof -
  obtain k where n: "n = Suc k" "0 < k" using assms(1) by (cases n) auto
  let ?s1 = "s\<lparr>fbs := (fbs s)(fb \<mapsto> x\<lparr>f_users := 0\<rparr>)\<rparr>"
  have "release k act (Msi_put m) ?s1
      = Some (?s1\<lparr>msis := (msis s)(m \<mapsto> y\<lparr>m_users := atomic_dec (m_users y)\<rparr>)\<rparr>)"
    using assms n by (subst msi_put_alive) auto
  moreover have "msi_do_cmd act m MSI_CMD_FREE_FB fb 0 ?s1 = Some (RET_OK, ?s1)"
    using assms(7,8,11) by (auto simp: msi_do_cmd_def store plain_free_def)
  ultimately show ?thesis
    using assms(2-6)
    by (simp add: n release_code_def fb_free_code_def store atomic_read_def atomic_dec_and_test_def
        FB_FREE_def)
qed

text \<open>A chain nobody else holds: every buffer is freed.\<close>

definition owned_by :: "(ptr \<rightharpoonup> framebuff) \<Rightarrow> ptr list \<Rightarrow> ptr \<Rightarrow> bool" where
  "owned_by F ps m \<longleftrightarrow>
     list_all (\<lambda>q. case F q of None \<Rightarrow> False
                 | Some x \<Rightarrow> f_users x = 1 \<and> \<not> f_pool x \<and> f_msi x = m) ps"

lemma owned_by_Cons:
  "owned_by F (q # qs) m \<longleftrightarrow>
   (\<exists>x. F q = Some x \<and> f_users x = 1 \<and> \<not> f_pool x \<and> f_msi x = m) \<and> owned_by F qs m"
  by (auto simp: owned_by_def split: option.splits)

lemma fb_put_owned:
  assumes "chain (fbs s) p ps" "distinct ps" "owned_by (fbs s) ps m" "m \<noteq> NULL" "msis s m = Some y"
    and "length ps \<le> unat (m_users y)" "m_inited y \<noteq> 0" "plain_free act (m_action y) m"
    and "length ps + 1 < n"
  shows "fb_put n act p s
    = Some (s\<lparr>fbs := (\<lambda>q. if q \<in> set ps then None else fbs s q),
             msis := (msis s)(m \<mapsto> y\<lparr>m_users := m_users y - word_of_nat (length ps)\<rparr>)\<rparr>)"
  using assms
proof (induction ps arbitrary: p n)
  case Nil
  then have "(msis s)(m \<mapsto> y) = msis s" by (simp add: fun_upd_idem)
  with Nil show ?case by simp
next
  case (Cons q qs)
  from Cons.prems(1) obtain x where x: "p = q" "q \<noteq> NULL" "fbs s q = Some x" "chain (fbs s) (f_next x) qs"
    by (rule chainE)
  have o: "f_users x = 1" "\<not> f_pool x" "f_msi x = m" "owned_by (fbs s) qs m"
    using Cons.prems(3) x by (auto simp: owned_by_Cons)
  obtain k where n: "n = Suc k" "length qs + 1 < k" using Cons.prems(9) by (cases n) auto
  define y1 where "y1 = y\<lparr>m_users := m_users y - word_of_nat (length qs)\<rparr>"
  let ?s1 = "s\<lparr>fbs := (\<lambda>q. if q \<in> set qs then None else fbs s q), msis := (msis s)(m \<mapsto> y1)\<rparr>"
  have IH: "fb_put k act (f_next x) s = Some ?s1"
    using Cons.IH [OF x(4) _ o(4) Cons.prems(4,5) _ Cons.prems(7,8) n(2)] Cons.prems(2,6)
    by (simp add: y1_def del: fun_upd_apply)
  have len: "unat (word_of_nat (length qs) :: u32) = length qs"
    using Cons.prems(6) by (simp add: unat_of_nat take_bit_nat_eq_self_iff
        order.strict_trans1 [OF _ unat_lt_u32 [of "m_users y"]])
  then have "unat (m_users y1) = unat (m_users y) - length qs"
    using Cons.prems(6) by (simp add: y1_def unat_sub_small)
  then have u1: "m_users y1 \<noteq> 0" using Cons.prems(6) by auto
  then have d1: "atomic_dec (m_users y1) = m_users y - word_of_nat (length (q # qs))"
    by (simp add: atomic_dec_def word_gt_0 y1_def algebra_simps)
  have "release k act (Fb_free q) ?s1
      = Some (?s1\<lparr>fbs := (fbs ?s1)(q := None),
                 msis := (msis ?s1)(m \<mapsto> y1\<lparr>m_users := atomic_dec (m_users y1)\<rparr>)\<rparr>)"
    using Cons.prems x o u1 n(2) by (intro fb_free_last) (auto simp: y1_def)
  moreover have "(fbs ?s1)(q := None) = (\<lambda>r. if r \<in> set (q # qs) then None else fbs s r)"
    by auto
  ultimately show ?case
    using x IH d1 by (simp add: n fb_put_unfold store y1_def del: fun_upd_apply of_nat_Suc length_Cons)
qed

lemma fb_get_put_inverse:
  assumes "chain (fbs s) p ps" and "distinct ps" and "users_in (fbs s) ps 1 254" and "length ps < n"
  shows "\<exists>s1. fb_get p s = Some s1 \<and> users_in (fbs s1) ps 2 255 \<and> fb_put n act p s1 = Some s"
proof -
  let ?s1 = "s\<lparr>fbs := recount atomic_inc ps (fbs s)\<rparr>"
  have inc: "unat (atomic_inc u) = unat u + 1" if "unat u \<le> 254" for u :: u8
    using that by (intro unat_atomic_inc) simp
  have u: "users_in (fbs ?s1) ps 2 255"
    using assms(3) by (simp add: users_in_recount [of 1 254] inc)
  have undo: "recount atomic_dec ps (recount atomic_inc ps (fbs s)) = fbs s"
  proof (rule recount_inverse [OF _ assms(3)])
    fix w :: u8 assume "1 \<le> unat w" "unat w \<le> 254"
    then show "atomic_dec (atomic_inc w) = w"
      by (simp add: word_unat_eq_iff unat_atomic_dec inc)
  qed
  have "fb_put n act p ?s1 = Some (?s1\<lparr>fbs := recount atomic_dec ps (fbs ?s1)\<rparr>)"
    using assms u by (intro fb_put_shared) auto
  then show ?thesis
    using fb_get_chain [OF assms(1,2)] u undo by (intro exI [of _ ?s1]) simp
qed

section \<open>Properties\<close>

text \<open>taking a reference on a frame (a chain of buffers) and releasing it leaves the store as it was,
  whoever else holds the buffers, as long as the 8-bit counts do not overflow.\<close>

theorem fb_get_put_balance:
  assumes "chain (fbs s) p ps" and "distinct ps" and "users_in (fbs s) ps 1 254" and "length ps < n"
  shows "\<exists>s1. fb_get p s = Some s1 \<and> users_in (fbs s1) ps 2 255 \<and> fb_put n act p s1 = Some s"
  using assms by (rule fb_get_put_inverse)

text \<open>A frame of two buffers, for the witnesses.\<close>

definition sample_fb :: "ptr \<Rightarrow> u8 \<Rightarrow> ptr \<Rightarrow> framebuff" where
  "sample_fb nxt users msi = zero_framebuff\<lparr>f_next := nxt, f_users := users, f_msi := msi\<rparr>"

definition sample_msi :: "u32 \<Rightarrow> u32 \<Rightarrow> msi" where
  "sample_msi users inited = \<lparr>m_next = NULL, m_name = ''a'', m_action = NULL, output_list = [0, 0, 0, 0],
     m_priv = NULL, m_enable = True, m_deleted = False, m_users = users, m_bound = 0,
     m_inited = inited, m_fbQ = 101\<rparr>"

definition sample_mst :: "u8 \<Rightarrow> mst" where
  "sample_mst users = \<lparr>fbs = [10 \<mapsto> sample_fb 11 users 100, 11 \<mapsto> sample_fb NULL users 100],
     queues = Map.empty, msis = [100 \<mapsto> sample_msi 5 1], g_list = 100\<rparr>"

lemmas sample_defs = sample_fb_def sample_msi_def sample_mst_def zero_framebuff_def

theorem fb_get_put_balance_witness:
  "\<exists>s1. fb_get 10 (sample_mst 1) = Some s1 \<and> users_in (fbs s1) [10, 11] 2 255 \<and>
     fb_put 3 (\<lambda>_ _ _ _ _ _. None) 10 s1 = Some (sample_mst 1)"
  by (rule fb_get_put_balance) (simp_all add: sample_defs users_in_def)

text \<open>C6: releasing a frame nobody else holds frees every buffer of its chain, gives back one
  reference on the component per buffer, and touches nothing else.\<close>

theorem fb_put_frees_frame:
  assumes "chain (fbs s) p ps" and "distinct ps" and "owned_by (fbs s) ps m" and "m \<noteq> NULL"
    and "msis s m = Some y" and "length ps \<le> unat (m_users y)" and "m_inited y \<noteq> 0"
    and "plain_free act (m_action y) m" and "length ps + 1 < n"
  shows "fb_put n act p s
    = Some (s\<lparr>fbs := (\<lambda>q. if q \<in> set ps then None else fbs s q),
             msis := (msis s)(m \<mapsto> y\<lparr>m_users := m_users y - word_of_nat (length ps)\<rparr>)\<rparr>)"
  using assms by (rule fb_put_owned)

theorem fb_put_frees_frame_witness:
  "fb_put 4 (\<lambda>_ _ _ _ _ _. None) 10 (sample_mst 1)
    = Some ((sample_mst 1)\<lparr>fbs := (\<lambda>q. if q \<in> set [10, 11] then None else fbs (sample_mst 1) q),
        msis := (msis (sample_mst 1))(100 \<mapsto> (sample_msi 5 1)\<lparr>m_users := m_users (sample_msi 5 1) - word_of_nat (length [10, 11 :: ptr])\<rparr>)\<rparr>)"
  by (rule fb_put_frees_frame) (simp_all add: sample_defs owned_by_def plain_free_def)

text \<open>the reference count of a buffer is eight bits wide: a reference taken on a buffer with 255
  users leaves the count at 0, and the next release fails its assertion.\<close>

theorem fb_users_overflow:
  assumes "fb \<noteq> NULL" and "fbs s fb = Some x" and "f_next x = NULL" and "f_users x = 255"
  shows "\<exists>s1. fb_get fb s = Some s1 \<and> map_option f_users (fbs s1 fb) = Some 0 \<and> fb_put n act fb s1 = None"
proof -
  let ?s1 = "s\<lparr>fbs := (fbs s)(fb \<mapsto> x\<lparr>f_users := 0\<rparr>)\<rparr>"
  have top: "atomic_inc (255 :: u8) = 0" by (simp add: atomic_inc_def word_unat_eq_iff)
  have "fb_get NULL s = Some s" by (simp add: fb_get.simps)
  then have g: "fb_get fb s = Some ?s1"
    using assms by (subst fb_get.simps) (simp add: store top)
  have "fb_put n act fb ?s1 = None"
  proof (cases n)
    case (Suc k)
    have f: "release k act (Fb_free fb) ?s1 = None" using assms(1)
      by (cases k) (simp_all add: release_code_def fb_free_code_def store atomic_read_def)
    have "fb_put k act NULL ?s1 = None \<or> fb_put k act NULL ?s1 = Some ?s1"
      by (cases k) (simp_all add: fb_put_def release_code_def fb_put_code_def)
    moreover have "rd_fb fb ?s1 = Some (x\<lparr>f_users := 0\<rparr>)" using assms(1) by (simp add: store)
    ultimately show ?thesis
      unfolding Suc fb_put_unfold using assms(1,3) f by auto
  qed (simp add: fb_put_def)
  with g show ?thesis by simp
qed

theorem fb_users_overflow_witness:
  "\<exists>s1. fb_get 11 (sample_mst 255) = Some s1 \<and> map_option f_users (fbs s1 11) = Some 0 \<and>
     fb_put 3 (\<lambda>_ _ _ _ _ _. None) 11 s1 = None"
  by (rule fb_users_overflow [where x = "sample_fb NULL 255 100"]) (simp_all add: sample_defs)

text \<open>C30: a clone holds its source: making one with \<open>fb_clone\<close> raises every count of the source chain, and
  releasing the clone gives back the counts, the component's reference and the clone's memory.\<close>

theorem fb_clone_put_balance:
  assumes "mem \<noteq> NULL" and "fbs s mem = None" and "fb \<noteq> NULL" and "chain (fbs s) fb ps" and "distinct ps"
    and "users_in (fbs s) ps 1 254" and "m \<noteq> NULL" and "msis s m = Some y" and "m_inited y \<noteq> 0"
    and "m_users y + 1 \<noteq> 0" and "plain_free act (m_action y) m" and "length ps + 2 < n"
  shows "\<exists>s1. fb_clone mem fb type m s = Some (mem, s1) \<and> users_in (fbs s1) ps 2 255 \<and>
    fb_put n act mem s1 = Some s"
proof -
  have mem: "mem \<notin> set ps" using assms(2,6) by (auto simp: users_in_def list_all_iff)
  obtain q qs where ps: "ps = q # qs" using assms(3,4) by (cases ps) auto
  from assms(4) obtain x where x: "fb = q" "fbs s q = Some x" unfolding ps by (rule chainE)
  then have fbmem: "fb \<noteq> mem" using mem ps by auto
  define c where "c = zero_framebuff\<lparr>f_users := 1, f_clone := True, f_msi := m,
      f_mtype := ucast (drop_bit 8 type AND 0xff), f_stype := ucast (type AND 0xff)\<rparr>"
  define d where "d = c\<lparr>f_data := f_data x, f_len := f_len x, f_time := f_time x,
      f_priv := f_priv x, f_srcID := f_srcID x, f_datatag := f_datatag x\<rparr>"
  define y1 where "y1 = y\<lparr>m_users := atomic_inc (m_users y)\<rparr>"
  define s0 where "s0 = s\<lparr>fbs := (fbs s)(mem \<mapsto> d), msis := (msis s)(m \<mapsto> y1)\<rparr>"
  define s1 where "s1 = s0\<lparr>fbs := (recount atomic_inc ps (fbs s))(mem \<mapsto> d\<lparr>f_next := fb\<rparr>)\<rparr>"
  have g: "fb_get fb s0 = Some (s0\<lparr>fbs := recount atomic_inc ps (fbs s0)\<rparr>)"
    using assms(4,5) mem by (intro fb_get_chain) (simp_all add: s0_def chain_upd)
  define sA where "sA = s\<lparr>fbs := (fbs s)(mem \<mapsto> c), msis := (msis s)(m \<mapsto> y1)\<rparr>"
  have a: "msi_get m (s\<lparr>fbs := (fbs s)(mem \<mapsto> c)\<rparr>) = Some sA"
    using assms(7,8) by (simp add: msi_get_def store sA_def y1_def)
  have b: "rd_fb fb sA = Some x"
    using x assms(3) fbmem by (simp add: store sA_def)
  have e: "up_fb mem (\<lambda>n. n\<lparr>f_data := f_data x, f_len := f_len x, f_time := f_time x,
      f_priv := f_priv x, f_srcID := f_srcID x, f_datatag := f_datatag x\<rparr>) sA = Some s0"
    using assms(1) by (simp add: store sA_def s0_def d_def)
  have f: "up_fb mem (\<lambda>n. n\<lparr>f_next := fb\<rparr>) (s0\<lparr>fbs := recount atomic_inc ps (fbs s0)\<rparr>) = Some s1"
    using assms(1) mem by (simp add: store s0_def s1_def recount_upd)
  have clone: "fb_clone mem fb type m s = Some (mem, s1)"
    using assms(1) by (simp add: fb_clone_def c_def [symmetric] a b e g f)
  have inc: "unat (atomic_inc u) = unat u + 1" if "unat u \<le> 254" for u :: u8
    using that by (intro unat_atomic_inc) simp
  have "users_in (recount atomic_inc ps (fbs s)) ps 2 255"
    using assms(6) by (simp add: users_in_recount [of 1 254] inc)
  moreover have "users_in (F(mem := v)) ps lo hi = users_in F ps lo hi" for F v lo hi
    using mem by (auto simp: users_in_def list_all_iff)
  ultimately have u: "users_in (fbs s1) ps 2 255" by (simp add: s1_def)
  obtain k where n: "n = Suc k" "length ps + 1 < k" using assms(12) by (cases n) auto
  define t where "t = s1\<lparr>fbs := recount atomic_dec ps (fbs s1)\<rparr>"
  have put: "fb_put k act fb s1 = Some t"
    unfolding t_def using assms(4,5) u n mem by (intro fb_put_shared) (simp_all add: s1_def chain_upd)
  have undo: "recount atomic_dec ps (recount atomic_inc ps (fbs s)) = fbs s"
  proof (rule recount_inverse [OF _ assms(6)])
    fix w :: u8 assume "1 \<le> unat w" "unat w \<le> 254"
    then show "atomic_dec (atomic_inc w) = w" by (simp add: word_unat_eq_iff unat_atomic_dec inc)
  qed
  have t: "fbs t = (fbs s)(mem \<mapsto> d\<lparr>f_next := fb\<rparr>)" "msis t = (msis s)(m \<mapsto> y1)"
    using mem undo by (simp_all add: t_def s1_def s0_def recount_upd del: fun_upd_apply)
  have y1: "m_users y1 \<noteq> 0" "atomic_dec (m_users y1) = m_users y" "m_inited y1 = m_inited y"
      "m_action y1 = m_action y"
    using assms(10) by (simp_all add: y1_def) (simp add: atomic_inc_def)
  have tm: "fbs t mem = Some (d\<lparr>f_next := fb\<rparr>)" "msis t m = Some y1" by (simp_all add: t)
  have "release k act (Fb_free mem) t
      = Some (t\<lparr>fbs := (fbs t)(mem := None),
               msis := (msis t)(m \<mapsto> y1\<lparr>m_users := atomic_dec (m_users y1)\<rparr>)\<rparr>)"
    by (rule fb_free_last [OF _ assms(1) tm(1) _ _ _ assms(7) tm(2)])
       (use assms(9,11) n y1 in \<open>simp_all add: d_def c_def zero_framebuff_def\<close>)
  also have "\<dots> = Some s"
    using assms(2,8) y1(2) mem undo
    by (simp add: recount_upd t_def s1_def s0_def y1_def fun_upd_idem del: fun_upd_apply)
  finally have "fb_put n act mem s1 = Some s"
    using assms(1) put by (simp add: n fb_put_unfold store s1_def)
  with clone u show ?thesis by blast
qed

theorem fb_clone_put_balance_witness:
  "\<exists>s1. fb_clone 20 10 0x0102 100 (sample_mst 1) = Some (20, s1) \<and> users_in (fbs s1) [10, 11] 2 255 \<and>
     fb_put 5 (\<lambda>_ _ _ _ _ _. None) 20 s1 = Some (sample_mst 1)"
  by (rule fb_clone_put_balance [where y = "sample_msi 5 1"])
     (simp_all add: sample_defs users_in_def plain_free_def)

end
