(* ===== verification/FbQueue.thy ===== *)
theory FbQueue
  imports FrameBuff
begin

text \<open>
  The frame buffer queues of \<open>sdk/lib/multimedia/msi/fbqueue.c\<close>, with one reader (a FIFO) or
  several (each with its own read position), and the trace of \<open>utils.c\<close>. A queue holds one
  reference on each buffer it stores. Allocation results are parameters: \<open>malloc\<close> maps the
  number of cells to the memory received, \<open>None\<close> for NULL.
\<close>

section \<open>The operations\<close>

definition fbq_init :: "(nat \<Rightarrow> ptr list option) \<Rightarrow> ptr \<Rightarrow> ptr list option \<Rightarrow> u32 \<Rightarrow> mst \<Rightarrow> (int \<times> mst) option" where
  "fbq_init malloc q qbuff sz s =
     do { r \<leftarrow> rd_q q s;
          (let own = (qbuff = None \<and> sz \<noteq> 0);
               qbuff = (if own then malloc (unat (sz + 1)) else qbuff);
               r = (if own then r\<lparr>q_alloc := True\<rparr> else r)
           in do {
             assert_that (qbuff \<noteq> None);
             if sz \<noteq> 0
             then do { s \<leftarrow> up_q q (\<lambda>_. (RB_INIT_R r (sz + 1) qbuff)\<lparr>q_sema := 0, reader_max := 1,
                                      readers := None, q_init := True\<rparr>) s;
                       Some (RET_OK, s) }
             else do { s \<leftarrow> up_q q (\<lambda>_. r) s; Some (RET_ERR, s) } }) }"

text \<open>The readers that stand on the position about to be dropped move on with it.\<close>

fun bump_readers :: "u32 list \<Rightarrow> u32 \<Rightarrow> u32 \<Rightarrow> nat list \<Rightarrow> u32 list option" where
  "bump_readers rs old new [] = Some rs"
| "bump_readers rs old new (i # is) =
     do { p \<leftarrow> mem_rd rs i;
          rs \<leftarrow> (if p = old then mem_wr rs i new else Some rs);
          bump_readers rs old new is }"

definition fbq_enqueue :: "nat \<Rightarrow> action \<Rightarrow> ptr \<Rightarrow> ptr \<Rightarrow> mst \<Rightarrow> (int \<times> mst) option" where
  "fbq_enqueue n act q fb s =
     (if q = NULL then Some (0, s)
      else do {
        r \<leftarrow> rd_q q s;
        if \<not> q_init r \<or> fb = NULL then Some (0, s)
        else do {
          s \<leftarrow> fb_get fb s;
          r \<leftarrow> rd_q q s;
          if reader_max r > 1
          then do {
            (last, r) \<leftarrow>
              (if RB_FULL r
               then do { cells \<leftarrow> rbq r;
                         last \<leftarrow> mem_rd cells (unat (rpos r));
                         rs \<leftarrow> readers r;
                         (let new = RB_NPOS r (rpos r) 1 in
                          do { rs \<leftarrow> bump_readers rs (rpos r) new [0..<unat (reader_max r)];
                               Some (last, r\<lparr>readers := Some rs, rpos := new\<rparr>) }) }
               else Some (NULL, r));
            cells \<leftarrow> rbq r;
            cells \<leftarrow> mem_wr cells (unat (wpos r)) fb;
            s \<leftarrow> up_q q (\<lambda>_. r\<lparr>rbq := Some cells, wpos := RB_NPOS r (wpos r) 1\<rparr>) s;
            s \<leftarrow> fb_put n act last s;
            Some (1, s) }
          else do {
            (ok, r) \<leftarrow> RB_SET r fb;
            s \<leftarrow> up_q q (\<lambda>_. r) s;
            if ok
            then do { s \<leftarrow> up_q q (\<lambda>r. r\<lparr>q_sema := q_sema r + 1\<rparr>) s; Some (1, s) }
            else do { s \<leftarrow> fb_put n act fb s; Some (0, s) } } } })"

fun fbq_trace_pos :: "ptr list \<Rightarrow> ptr \<Rightarrow> nat list \<Rightarrow> bool \<Rightarrow> (bool \<times> ptr list) option" where
  "fbq_trace_pos cells fb [] discard = Some (False, cells)"
| "fbq_trace_pos cells fb (pos # ps) discard =
     do { v \<leftarrow> mem_rd cells pos;
          if v = fb then (if discard then do { cells \<leftarrow> mem_wr cells pos NULL; Some (True, cells) }
                          else Some (True, cells))
          else fbq_trace_pos cells fb ps discard }"

definition fbq_trace :: "nat \<Rightarrow> action \<Rightarrow> ptr \<Rightarrow> ptr \<Rightarrow> bool \<Rightarrow> mst \<Rightarrow> (int \<times> mst) option" where
  "fbq_trace n act q fb discard s =
     (if q = NULL then Some (0, s)
      else do {
        r \<leftarrow> rd_q q s;
        if \<not> q_init r \<or> fb = NULL then Some (0, s)
        else do {
          cells \<leftarrow> rbq r;
          (ret, cells) \<leftarrow>
            (if rpos r \<le> wpos r
             then fbq_trace_pos cells fb [unat (rpos r)..<unat (wpos r)] discard
             else do { (ret, cells) \<leftarrow> fbq_trace_pos cells fb [0..<unat (wpos r)] discard;
                       if \<not> ret then fbq_trace_pos cells fb [unat (rpos r)..<unat (qsize r)] discard
                       else Some (ret, cells) });
          s \<leftarrow> up_q q (\<lambda>r. r\<lparr>rbq := Some cells\<rparr>) s;
          s \<leftarrow> (if ret \<and> discard then fb_put n act fb s else Some s);
          Some (0, s) } })"

text \<open>The smallest of the readers' positions, as the code computes it.\<close>

fun min_pos :: "u32 list \<Rightarrow> u32 \<Rightarrow> nat list \<Rightarrow> u32 option" where
  "min_pos rs pos [] = Some pos"
| "min_pos rs pos (i # is) =
     do { p \<leftarrow> mem_rd rs i; min_pos rs (if p < pos then p else pos) is }"

definition NEXT_RPOS :: "u32 \<Rightarrow> u32 \<Rightarrow> u32 \<Rightarrow> u32" where
  "NEXT_RPOS p s i = (if p + i \<ge> s then p + i - s else p + i)"

definition fbq_dequeue_r :: "nat \<Rightarrow> action \<Rightarrow> ptr \<Rightarrow> u8 \<Rightarrow> mst \<Rightarrow> (ptr \<times> mst) option" where
  "fbq_dequeue_r n act q reader s =
     (if q = NULL then Some (NULL, s)
      else do {
        r \<leftarrow> rd_q q s;
        if \<not> q_init r then Some (NULL, s)
        else do {
          assert_that (reader > 0 \<and> unat reader \<le> unat (reader_max r));
          rs \<leftarrow> readers r;
          pos \<leftarrow> mem_rd rs (unat (reader - 1));
          assert_that (pos \<noteq> 0xffffffff);
          if pos = wpos r then Some (NULL, s)
          else do {
            cells \<leftarrow> rbq r;
            fb \<leftarrow> mem_rd cells (unat pos);
            rs \<leftarrow> mem_wr rs (unat (reader - 1)) (NEXT_RPOS pos (qsize r) 1);
            pos \<leftarrow> min_pos rs 0xffffffff [0..<unat (reader_max r)];
            (last, rpos') \<leftarrow>
              (if pos \<noteq> 0xffffffff \<and> rpos r \<noteq> pos
               then do { last \<leftarrow> mem_rd cells (unat (rpos r)); Some (last, pos) }
               else Some (NULL, rpos r));
            s \<leftarrow> up_q q (\<lambda>r. r\<lparr>readers := Some rs, rpos := rpos'\<rparr>) s;
            s \<leftarrow> fb_get fb s;
            s \<leftarrow> fb_put n act last s;
            Some (fb, s) } } })"

fun fill_readers :: "u32 list \<Rightarrow> nat list \<Rightarrow> u32 list option" where
  "fill_readers rs [] = Some rs"
| "fill_readers rs (i # is) = do { rs \<leftarrow> mem_wr rs i 0xffffffff; fill_readers rs is }"

text \<open>The initialising loop writes through \<open>q->readers\<close>, which is still the old pointer.\<close>

definition fbq_conf_readers :: "(nat \<Rightarrow> u32 list option) \<Rightarrow> ptr \<Rightarrow> u16 \<Rightarrow> mst \<Rightarrow> (int \<times> mst) option" where
  "fbq_conf_readers malloc q rmax s =
     (if q = NULL then Some (- EINVAL, s)
      else do {
        r \<leftarrow> rd_q q s;
        if \<not> q_init r \<or> rmax \<le> 1 \<or> readers r \<noteq> None then Some (- EINVAL, s)
        else (case malloc (unat rmax) of
                None \<Rightarrow> Some (- ENOMEM, s)
              | Some mem \<Rightarrow>
                  do { s \<leftarrow> (if reader_max r = 0 then Some s
                             else do { rs \<leftarrow> readers r;
                                       rs \<leftarrow> fill_readers rs [0..<unat (reader_max r)];
                                       up_q q (\<lambda>r. r\<lparr>readers := Some rs\<rparr>) s });
                       s \<leftarrow> up_q q (\<lambda>r. r\<lparr>readers := Some mem, reader_max := rmax\<rparr>) s;
                       Some (RET_OK, s) }) })"

text \<open>The index of the first free reader slot, or the number of slots.\<close>

fun free_slot :: "u32 list \<Rightarrow> nat \<Rightarrow> nat list \<Rightarrow> nat option" where
  "free_slot rs n [] = Some n"
| "free_slot rs n (i # is) =
     do { p \<leftarrow> mem_rd rs i; if p = 0xffffffff then Some i else free_slot rs n is }"

definition fbq_open_reader :: "ptr \<Rightarrow> mst \<Rightarrow> (int \<times> mst) option" where
  "fbq_open_reader q s =
     (if q = NULL then Some (0, s)
      else do {
        r \<leftarrow> rd_q q s;
        if \<not> q_init r \<or> readers r = None then Some (0, s)
        else do {
          rs \<leftarrow> readers r;
          i \<leftarrow> free_slot rs (unat (reader_max r)) [0..<unat (reader_max r)];
          if i < unat (reader_max r)
          then do { rs \<leftarrow> mem_wr rs i (rpos r);
                    s \<leftarrow> up_q q (\<lambda>r. r\<lparr>readers := Some rs\<rparr>) s;
                    Some (int i + 1, s) }
          else Some (0, s) } })"

definition fbq_close_reader :: "ptr \<Rightarrow> u8 \<Rightarrow> mst \<Rightarrow> (int \<times> mst) option" where
  "fbq_close_reader q reader s =
     (if q = NULL then Some (- EINVAL, s)
      else do {
        r \<leftarrow> rd_q q s;
        if \<not> q_init r \<or> readers r = None then Some (- EINVAL, s)
        else do {
          assert_that (reader > 0 \<and> unat reader \<le> unat (reader_max r));
          rs \<leftarrow> readers r;
          rs \<leftarrow> mem_wr rs (unat (reader - 1)) 0xffffffff;
          s \<leftarrow> up_q q (\<lambda>r. r\<lparr>readers := Some rs\<rparr>) s;
          Some (RET_OK, s) } })"

section \<open>The trace of utils.c\<close>

partial_function (option) exist_next :: "ptr \<Rightarrow> ptr \<Rightarrow> bool option" where
  "exist_next next fb =
     (if next \<noteq> NULL then (if next = fb then Some True else exist_next next fb) else Some False)"

fun msi_rbuffer_fb_exist :: "ptr list \<Rightarrow> ptr \<Rightarrow> nat list \<Rightarrow> mst \<Rightarrow> bool option" where
  "msi_rbuffer_fb_exist cells fb [] s = Some False"
| "msi_rbuffer_fb_exist cells fb (i # is) s =
     do { p \<leftarrow> mem_rd cells i;
          if p = fb then Some True
          else do { x \<leftarrow> rd_fb p s;
                    found \<leftarrow> exist_next (f_next x) fb;
                    if found then Some True else msi_rbuffer_fb_exist cells fb is s } }"

definition msi_rbuffer_trace_fb :: "ptr ring \<Rightarrow> ptr \<Rightarrow> mst \<Rightarrow> bool option" where
  "msi_rbuffer_trace_fb rb fb s =
     (if \<not> RB_EMPTY rb
      then do { cells \<leftarrow> rbq rb;
                if rpos rb < wpos rb
                then msi_rbuffer_fb_exist cells fb [unat (rpos rb)..<unat (wpos rb)] s
                else do { a \<leftarrow> msi_rbuffer_fb_exist cells fb [unat (rpos rb)..<unat (qsize rb)] s;
                          if a then Some True
                          else msi_rbuffer_fb_exist cells fb [0..<unat (wpos rb)] s } }
      else Some False)"

section \<open>A queue with one reader is a FIFO that holds references\<close>

definition fbq_ok :: "fbqueue \<Rightarrow> bool" where
  "fbq_ok r \<longleftrightarrow> ring_inv r \<and> q_init r \<and> reader_max r = 1"

lemma ring_more_fields:
  assumes "ring.more r' = ring.more r"
  shows "q_init r' = q_init r" "reader_max r' = reader_max r" "readers r' = readers r"
    "q_alloc r' = q_alloc r" "q_sema r' = q_sema r"
  using assms by (cases r; cases r'; simp)+

lemma RB_SET_more: "RB_SET r v = Some (ok, r') \<Longrightarrow> ring.more r' = ring.more r"
  by (auto simp: RB_SET_def bind_eq_Some_conv split: if_splits)

lemma RB_GET_more: "RB_GET r = Some (v, r') \<Longrightarrow> ring.more r' = ring.more r"
  by (auto simp: RB_GET_def bind_eq_Some_conv split: if_splits)

lemma ring_sema [simp]:
  "ring_inv (r\<lparr>q_sema := k\<rparr>) = ring_inv r" "ring_contents (r\<lparr>q_sema := k\<rparr>) = ring_contents r"
  "fbq_ok (r\<lparr>q_sema := k\<rparr>) = fbq_ok r"
  by (simp_all add: ring_inv_def ring_contents_def RB_COUNT_def Let_def fbq_ok_def split: option.split)

lemma fbq_enqueue_spec:
  assumes q: "q \<noteq> NULL" "queues s q = Some r" "fbq_ok r"
    and fb: "fb \<noteq> NULL" "chain (fbs s) fb ps" "distinct ps" "users_in (fbs s) ps 1 254" "length ps < n"
  shows "if length (ring_contents r) + 1 < unat (qsize r)
    then \<exists>r'. fbq_enqueue n act q fb s =
           Some (1, s\<lparr>fbs := recount atomic_inc ps (fbs s), queues := (queues s)(q \<mapsto> r')\<rparr>) \<and>
         fbq_ok r' \<and> ring_contents r' = ring_contents r @ [fb] \<and> qsize r' = qsize r
    else fbq_enqueue n act q fb s = Some (0, s)"
proof -
  let ?s1 = "s\<lparr>fbs := recount atomic_inc ps (fbs s)\<rparr>"
  have inv: "ring_inv r" "q_init r" "reader_max r = 1" using q(3) by (auto simp: fbq_ok_def)
  have get: "fb_get fb s = Some ?s1" using fb by (intro fb_get_chain)
  have rd: "rd_q q s = Some r" "rd_q q ?s1 = Some r" using q by (simp_all add: store)
  have run: "fbq_enqueue n act q fb s = do {
      (ok, r) \<leftarrow> RB_SET r fb;
      s \<leftarrow> up_q q (\<lambda>_. r) ?s1;
      if ok then do { s \<leftarrow> up_q q (\<lambda>r. r\<lparr>q_sema := q_sema r + 1\<rparr>) s; Some (1, s) }
      else do { s \<leftarrow> fb_put n act fb s; Some (0, s) } }"
    using q(1) fb(1) inv get rd by (simp add: fbq_enqueue_def)
  show ?thesis
  proof (cases "length (ring_contents r) + 1 < unat (qsize r)")
    case True
    then obtain r' where r': "RB_SET r fb = Some (True, r')" "ring_inv r'"
        "ring_contents r' = ring_contents r @ [fb]" "qsize r' = qsize r"
      using RB_SET_spec [OF inv(1), of fb] by auto
    let ?r = "r'\<lparr>q_sema := q_sema r' + 1\<rparr>"
    have "fbq_ok ?r"
      using ring_more_fields [OF RB_SET_more [OF r'(1)]] inv r' by (simp add: fbq_ok_def)
    moreover have "fbq_enqueue n act q fb s
        = Some (1, s\<lparr>fbs := recount atomic_inc ps (fbs s), queues := (queues s)(q \<mapsto> ?r)\<rparr>)"
      unfolding run r'(1) using q by (simp add: store)
    ultimately show ?thesis using True r' by auto
  next
    case False
    then have full: "RB_SET r fb = Some (False, r)" using RB_SET_spec [OF inv(1), of fb] by auto
    have same: "(queues s)(q \<mapsto> r) = queues s" using q by (simp add: fun_upd_idem)
    have up: "up_q q (\<lambda>_. r) ?s1 = Some ?s1" using q by (simp add: store same del: fun_upd_apply)
    obtain s1 where "fb_get fb s = Some s1" "fb_put n act fb s1 = Some s"
      using fb_get_put_inverse [OF fb(2-5), of act] by blast
    then have "fb_put n act fb ?s1 = Some s" using get by simp
    then show ?thesis unfolding run full using False up by simp
  qed
qed

lemma fbq_dequeue_spec:
  assumes q: "q \<noteq> NULL" "queues s q = Some r" "fbq_ok r"
  shows "case ring_contents r of
      [] \<Rightarrow> fbq_dequeue q 0 env s = Some (NULL, s)
    | v # vs \<Rightarrow> \<exists>r'. fbq_dequeue q tmo env s = Some (v, s\<lparr>queues := (queues s)(q \<mapsto> r')\<rparr>) \<and>
        fbq_ok r' \<and> ring_contents r' = vs \<and> qsize r' = qsize r \<and> ring.more r' = ring.more r"
proof (cases "ring_contents r")
  case Nil
  then have "RB_EMPTY r" using RB_EMPTY_nat [of r] q(3) by (simp add: fbq_ok_def)
  then show ?thesis using q Nil
    by (subst fbq_dequeue.simps) (simp add: store fbq_ok_def)
next
  case (Cons v vs)
  have inv: "ring_inv r" "q_init r" "reader_max r = 1" using q(3) by (auto simp: fbq_ok_def)
  have ne: "\<not> RB_EMPTY r" using RB_EMPTY_nat [OF inv(1)] Cons by simp
  obtain r' where r': "RB_GET r = Some (Some v, r')" "ring_inv r'" "ring_contents r' = vs" "qsize r' = qsize r"
    using RB_GET_spec [OF inv(1)] Cons by auto
  have more: "ring.more r' = ring.more r" by (rule RB_GET_more [OF r'(1)])
  have "fbq_dequeue q tmo env s = Some (v, s\<lparr>queues := (queues s)(q \<mapsto> r')\<rparr>)"
    using q(1,2) ne r' inv by (subst fbq_dequeue.simps) (simp add: store)
  moreover have "fbq_ok r'"
    using ring_more_fields [OF more] inv r' by (simp add: fbq_ok_def)
  ultimately show ?thesis using Cons r' more by auto
qed

lemma RB_COUNT_fields [simp]:
  "RB_COUNT (r\<lparr>rbq := a, readers := b, q_sema := c, q_init := d\<rparr>) = RB_COUNT r"
  by (simp add: RB_COUNT_def Let_def)

lemma RB_COUNT_zero:
  assumes "ring_inv r" shows "RB_COUNT r = 0 \<longleftrightarrow> ring_contents r = []"
proof -
  have "unat (RB_COUNT r) = length (ring_contents r)"
    using RB_COUNT_nat [OF assms] length_ring_contents(1) [OF assms] by simp
  then show ?thesis by (metis length_0_conv unat_0 unat_eq_zero)
qed

text \<open>Every buffer still queued is a single buffer that someone else holds too.\<close>

lemma fbq_drain_shared:
  assumes "q \<noteq> NULL" "queues s q = Some r" "fbq_ok r" "ring_contents r = xs"
    and "\<forall>x \<in> set xs. chain (fbs s) x [x]" "distinct xs" "users_in (fbs s) xs 2 255"
    and "length xs + 2 < n"
  shows "\<exists>r'. release n act (Fbq_drain q) s
      = Some (s\<lparr>fbs := recount atomic_dec xs (fbs s), queues := (queues s)(q \<mapsto> r')\<rparr>) \<and>
    fbq_ok r' \<and> ring_contents r' = [] \<and> ring.more r' = ring.more r"
  using assms
proof (induction xs arbitrary: s r n)
  case Nil
  then obtain k where "n = Suc k" by (cases n) auto
  moreover have "RB_COUNT r = 0" using Nil by (simp add: RB_COUNT_zero fbq_ok_def)
  moreover have "(queues s)(q \<mapsto> r) = queues s" using Nil by (simp add: fun_upd_idem)
  ultimately show ?case using Nil
    by (intro exI [of _ r]) (simp add: release_code_def fbq_drain_code_def store)
next
  case (Cons x xs)
  obtain k where n: "n = Suc k" "length xs + 2 < k" using Cons.prems(8) by (cases n) auto
  have cnt: "RB_COUNT r \<noteq> 0" using Cons.prems by (simp add: RB_COUNT_zero fbq_ok_def)
  obtain r' where r': "fbq_dequeue q 0 [] s = Some (x, s\<lparr>queues := (queues s)(q \<mapsto> r')\<rparr>)"
      "fbq_ok r'" "ring_contents r' = xs" "ring.more r' = ring.more r"
    using fbq_dequeue_spec [OF Cons.prems(1-3), where tmo = 0 and env = "[]"] Cons.prems(4) by auto
  let ?s1 = "s\<lparr>queues := (queues s)(q \<mapsto> r')\<rparr>"
  let ?s2 = "?s1\<lparr>fbs := recount atomic_dec [x] (fbs s)\<rparr>"
  have x: "chain (fbs s) x [x]" "users_in (fbs s) [x] 2 255" "x \<notin> set xs"
    using Cons.prems by (auto simp: users_in_def)
  have put: "release k act (Fb_put x) ?s1 = Some ?s2"
    using fb_put_shared [of ?s1 x "[x]" k act] x n(2) by (simp add: fb_put_def)
  have ne: "recount atomic_dec [x] (fbs s) y = fbs s y" if "y \<in> set xs" for y
    using that x(3) by (auto simp: recount_def)
  have tail: "\<forall>y \<in> set xs. chain (fbs ?s2) y [y]" "users_in (fbs ?s2) xs 2 255"
    using Cons.prems(5,7) ne by (auto simp: users_in_def list_all_iff split: option.splits)
  have rec: "recount atomic_dec xs (recount atomic_dec [x] (fbs s)) = recount atomic_dec (x # xs) (fbs s)"
    using x(3) by (auto simp: recount_def fun_eq_iff)
  have "\<exists>r''. release k act (Fbq_drain q) ?s2
      = Some (?s2\<lparr>fbs := recount atomic_dec xs (fbs ?s2), queues := (queues ?s2)(q \<mapsto> r'')\<rparr>) \<and>
      fbq_ok r'' \<and> ring_contents r'' = [] \<and> ring.more r'' = ring.more r'"
    using Cons.prems(6) by (intro Cons.IH [OF Cons.prems(1) _ r'(2,3) tail(1) _ tail(2) n(2)]) simp_all
  then obtain r'' where r'': "release k act (Fbq_drain q) ?s2
      = Some (?s2\<lparr>fbs := recount atomic_dec xs (fbs ?s2), queues := (queues ?s2)(q \<mapsto> r'')\<rparr>)"
      "fbq_ok r''" "ring_contents r'' = []" "ring.more r'' = ring.more r'" by blast
  have twice: "(queues s)(q \<mapsto> r', q \<mapsto> r'') = (queues s)(q \<mapsto> r'')" by simp
  have "release n act (Fbq_drain q) s
      = Some (s\<lparr>fbs := recount atomic_dec (x # xs) (fbs s), queues := (queues s)(q \<mapsto> r'')\<rparr>)"
    using Cons.prems(1,2) cnt r'(1) put r''(1)
    by (simp add: n release_code_def fbq_drain_code_def store rec twice del: fun_upd_apply)
  then show ?case using r'' r'(4) by (intro exI [of _ r'']) (simp del: fun_upd_apply)
qed

lemma fbq_trace_pos_found:
  assumes "\<forall>i \<in> set is. i < length cells"
  shows "fbq_trace_pos cells fb is False = Some (\<exists>i \<in> set is. cells ! i = fb, cells)"
  using assms by (induction "is") (auto simp: mem_rd_def)

text \<open>The loop of \<open>msi_rbuffer_fb_exist\<close> that assigns \<open>next\<close> to itself never ends.\<close>

lemma exist_next_diverges:
  assumes "next \<noteq> NULL" "next \<noteq> fb"
  shows "exist_next next fb = None"
proof -
  have "next = NULL \<or> next = fb" if "exist_next next fb = Some b" for b
    by (rule exist_next.raw_induct [OF _ that, where P = "\<lambda>next fb b. next = NULL \<or> next = fb"])
       (auto split: if_splits)
  then show ?thesis using assms by (cases "exist_next next fb") auto
qed

section \<open>Properties\<close>

text \<open>C8: a queue with one reader is a FIFO of buffers that holds one reference on each: \<open>fbq_enqueue\<close>
  appends the buffer and raises every count of its chain when there is room, and is without effect
  on a full queue; \<open>fbq_dequeue\<close> takes the oldest buffer out, with its reference, without waiting.\<close>

theorem fbq_fifo:
  assumes "q \<noteq> NULL" and "queues s q = Some r" and "fbq_ok r"
    and "fb \<noteq> NULL" and "chain (fbs s) fb ps" and "distinct ps" and "users_in (fbs s) ps 1 254"
    and "length ps < n"
  shows "(if length (ring_contents r) + 1 < unat (qsize r)
     then \<exists>r'. fbq_enqueue n act q fb s =
            Some (1, s\<lparr>fbs := recount atomic_inc ps (fbs s), queues := (queues s)(q \<mapsto> r')\<rparr>) \<and>
          fbq_ok r' \<and> ring_contents r' = ring_contents r @ [fb] \<and> qsize r' = qsize r
     else fbq_enqueue n act q fb s = Some (0, s)) \<and>
    (case ring_contents r of
       [] \<Rightarrow> fbq_dequeue q 0 env s = Some (NULL, s)
     | v # vs \<Rightarrow> \<exists>r'. fbq_dequeue q tmo env s = Some (v, s\<lparr>queues := (queues s)(q \<mapsto> r')\<rparr>) \<and>
         fbq_ok r' \<and> ring_contents r' = vs \<and> qsize r' = qsize r)"
  using fbq_enqueue_spec [OF assms, of act] fbq_dequeue_spec [OF assms(1-3), of env tmo]
  by (auto split: list.splits)

definition sample_q :: "ptr list \<Rightarrow> u32 \<Rightarrow> fbqueue" where
  "sample_q cells w = \<lparr>rpos = 0, wpos = w, qsize = word_of_nat (length cells), rbq = Some cells,
     q_sema = 0, reader_max = 1, q_init = True, q_alloc = True, readers = None\<rparr>"

definition sample_mstq :: "u8 \<Rightarrow> fbqueue \<Rightarrow> mst" where
  "sample_mstq users r = (sample_mst users)\<lparr>queues := [101 \<mapsto> r]\<rparr>"

lemma sample_q_ok: "fbq_ok (sample_q [10, 11, 12] 1)"
  by (simp add: fbq_ok_def sample_q_def ring_inv_def word_less_nat_alt)

lemma sample_q_contents: "ring_contents (sample_q [10, 11, 12] 1) = [10]"
  by (simp add: sample_q_def ring_contents_def RB_COUNT_def ring_seg_def upt_rec)

theorem fbq_fifo_witness:
  "(if length (ring_contents (sample_q [10, 11, 12] 1)) + 1 < unat (qsize (sample_q [10, 11, 12] 1))
     then \<exists>r'. fbq_enqueue 3 (\<lambda>_ _ _ _ _ _. None) 101 10 (sample_mstq 1 (sample_q [10, 11, 12] 1)) =
            Some (1, (sample_mstq 1 (sample_q [10, 11, 12] 1))
              \<lparr>fbs := recount atomic_inc [10, 11] (fbs (sample_mstq 1 (sample_q [10, 11, 12] 1))),
               queues := (queues (sample_mstq 1 (sample_q [10, 11, 12] 1)))(101 \<mapsto> r')\<rparr>) \<and>
          fbq_ok r' \<and> ring_contents r' = ring_contents (sample_q [10, 11, 12] 1) @ [10] \<and> qsize r' = qsize (sample_q [10, 11, 12] 1)
     else fbq_enqueue 3 (\<lambda>_ _ _ _ _ _. None) 101 10 (sample_mstq 1 (sample_q [10, 11, 12] 1)) = Some (0, (sample_mstq 1 (sample_q [10, 11, 12] 1)))) \<and>
    (case ring_contents (sample_q [10, 11, 12] 1) of
       [] \<Rightarrow> fbq_dequeue 101 0 [] (sample_mstq 1 (sample_q [10, 11, 12] 1)) = Some (NULL, (sample_mstq 1 (sample_q [10, 11, 12] 1)))
     | v # vs \<Rightarrow> \<exists>r'. fbq_dequeue 101 5 [] (sample_mstq 1 (sample_q [10, 11, 12] 1))
           = Some (v, (sample_mstq 1 (sample_q [10, 11, 12] 1))\<lparr>queues := (queues (sample_mstq 1 (sample_q [10, 11, 12] 1)))(101 \<mapsto> r')\<rparr>) \<and>
         fbq_ok r' \<and> ring_contents r' = vs \<and> qsize r' = qsize (sample_q [10, 11, 12] 1))"
  by (rule fbq_fifo [OF _ _ sample_q_ok])
     (simp_all add: sample_mstq_def sample_defs users_in_def)



text \<open>the multi-reader mode cannot be switched on: on a queue as \<open>fbq_init\<close> leaves it,
  \<open>fbq_conf_readers\<close> initialises the reader table through the pointer it has not set yet, NULL,
  whatever the allocator returns.\<close>

theorem fbq_conf_readers_null:
  assumes "q \<noteq> NULL" and "queues s q = Some r" and "q_init r" and "reader_max r = 1" and "readers r = None"
    and "1 < rmax" and "malloc (unat rmax) = Some mem"
  shows "fbq_conf_readers malloc q rmax s = None"
proof -
  have "\<not> rmax \<le> 1" using assms(6) by simp
  then show ?thesis using assms by (simp add: fbq_conf_readers_def store)
qed

theorem fbq_conf_readers_null_witness:
  "fbq_conf_readers (\<lambda>n. Some (replicate n 0)) 101 2 (sample_mstq 1 (sample_q [10, 11] 0)) = None"
  by (rule fbq_conf_readers_null [where r = "sample_q [10, 11] 0" and mem = "replicate 2 0"])
     (simp_all add: sample_mstq_def sample_q_def)

text \<open>\<open>fbq_trace\<close> answers 0 for a buffer that is in the queue: it searches, and drops the result.\<close>

theorem fbq_trace_hides:
  assumes "q \<noteq> NULL" and "queues s q = Some r" and "fbq_ok r" and "fb \<in> set (ring_contents r)"
  shows "fbq_trace n act q fb False s = Some (0, s)"
proof -
  have inv: "ring_inv r" "q_init r" using assms(3) by (auto simp: fbq_ok_def)
  then obtain cells where I: "rbq r = Some cells" "length cells = unat (qsize r)"
      "unat (rpos r) < unat (qsize r)" "unat (wpos r) < unat (qsize r)" by (elim ring_invE)
  have tr: "fbq_trace_pos cells fb [a..<b] False = Some (\<exists>i \<in> set [a..<b]. cells ! i = fb, cells)"
    if "b \<le> length cells" for a b
    using that by (intro fbq_trace_pos_found) auto
  have "(queues s)(q \<mapsto> r\<lparr>rbq := Some cells\<rparr>) = queues s"
    using assms(2) I(1) by (simp add: fun_upd_idem_iff)
  then show ?thesis
    using assms(1,2) inv I tr [of "unat (wpos r)"] tr [of "unat (qsize r)"]
    by (auto simp: fbq_trace_def store Let_def simp del: fun_upd_apply)
qed

theorem fbq_trace_hides_witness:
  "fbq_trace 3 (\<lambda>_ _ _ _ _ _. None) 101 10 False (sample_mstq 1 (sample_q [10, 11, 12] 1))
    = Some (0, sample_mstq 1 (sample_q [10, 11, 12] 1))"
  by (rule fbq_trace_hides [where r = "sample_q [10, 11, 12] 1"])
     (simp_all add: sample_mstq_def sample_q_ok sample_q_contents)

text \<open>tracing a buffer through a ring whose oldest frame has a second buffer, other than the one
  sought, never returns: the inner loop does not advance.\<close>

theorem msi_trace_never_returns:
  assumes "ring_inv rb" and "ring_contents rb = p # rest" and "p \<noteq> fb" and "p \<noteq> NULL"
    and "fbs s p = Some x" and "f_next x \<noteq> NULL" and "f_next x \<noteq> fb"
  shows "msi_rbuffer_trace_fb rb fb s = None"
proof -
  obtain cells where I: "rbq rb = Some cells" "length cells = unat (qsize rb)"
      "unat (rpos rb) < unat (qsize rb)" "unat (wpos rb) < unat (qsize rb)"
    using assms(1) by (elim ring_invE)
  have ne: "\<not> RB_EMPTY rb" using assms(1,2) by (simp add: RB_EMPTY_nat)
  have "length (ring_contents rb) = unat (RB_COUNT rb)" using I by (simp add: ring_contents_def)
  then have "0 < unat (RB_COUNT rb)" using assms(2) by simp
  then have "ring_contents rb ! 0 = cells ! unat (rpos rb)"
    using I by (simp add: ring_contents_def)
  then have hd: "cells ! unat (rpos rb) = p" using assms(2) by simp
  have stuck: "msi_rbuffer_fb_exist cells fb [unat (rpos rb)..<b] s = None" if "unat (rpos rb) < b" for b
    using that I hd assms exist_next_diverges [of "f_next x" fb]
    by (simp add: upt_conv_Cons mem_rd_def store)
  show ?thesis
    using ne I stuck [of "unat (wpos rb)"] stuck [of "unat (qsize rb)"]
    by (auto simp: msi_rbuffer_trace_fb_def word_less_nat_alt)
qed

theorem msi_trace_never_returns_witness:
  "msi_rbuffer_trace_fb \<lparr>rpos = 0, wpos = 1, qsize = 2, rbq = Some [10, 0]\<rparr> 12 (sample_mst 1) = None"
  by (rule msi_trace_never_returns [where p = 10 and rest = "[]" and x = "sample_fb 11 1 100"])
     (simp_all add: sample_defs ring_inv_def ring_contents_def RB_COUNT_def ring_seg_def upt_rec
        word_less_nat_alt)

text \<open>\<open>fbq_dequeue_r\<close> takes the smallest reader position for the oldest, which is wrong once the
  positions have wrapped: with readers at 0 (caught up) and 2 in a ring of four cells holding the buffers 10, 11, 12 from cell 2 on, the second reader's read moves the ring to cell 0, so buffer 11,
  which that reader has not seen, is no longer in the queue, and its reference is never released.\<close>

definition wrapped_mst :: mst where
  "wrapped_mst = \<lparr>fbs = [10 \<mapsto> sample_fb NULL 2 NULL, 11 \<mapsto> sample_fb NULL 1 NULL, 12 \<mapsto> sample_fb NULL 1 NULL],
     queues = [101 \<mapsto> \<lparr>rpos = 2, wpos = 1, qsize = 4, rbq = Some [12, 0, 10, 11],
        q_sema = 0, reader_max = 2, q_init = True, q_alloc = True, readers = Some [0, 2]\<rparr>],
     msis = Map.empty, g_list = NULL\<rparr>"

theorem fbq_dequeue_r_skips:
  "map_option ring_contents (queues wrapped_mst 101) = Some [10, 11, 12] \<and>
   (\<exists>s'. fbq_dequeue_r 2 (\<lambda>_ _ _ _ _ _. None) 101 2 wrapped_mst = Some (10, s') \<and>
      map_option ring_contents (queues s' 101) = Some [12] \<and>
      fbs s' 11 = Some (sample_fb NULL 1 NULL))"
proof -
  define s1 where "s1 = wrapped_mst\<lparr>queues := [101 \<mapsto> \<lparr>rpos = 0, wpos = 1, qsize = 4, rbq = Some [12, 0, 10, 11],
        q_sema = 0, reader_max = 2, q_init = True, q_alloc = True, readers = Some [0, 3]\<rparr>]\<rparr>"
  define R where "R = \<lparr>rpos = 2, wpos = 1, qsize = 4, rbq = Some [12, 0, 10, 11 :: ptr],
        q_sema = 0, reader_max = 2, q_init = True, q_alloc = True, readers = Some [0, 2]\<rparr>"
  have rd: "rd_q 101 wrapped_mst = Some \<lparr>rpos = 2, wpos = 1, qsize = 4, rbq = Some [12, 0, 10, 11 :: ptr],
        q_sema = 0, reader_max = 2, q_init = True, q_alloc = True, readers = Some [0, 2]\<rparr>"
    by (simp add: wrapped_mst_def store)
  have up: "up_q 101 f wrapped_mst = Some (wrapped_mst\<lparr>queues := [101 \<mapsto> f R]\<rparr>)" for f
    by (simp add: wrapped_mst_def store R_def)
  have ch: "chain (fbs s1) 10 [10]" "users_in (fbs s1) [10] 1 254"
    by (simp_all add: s1_def wrapped_mst_def sample_fb_def zero_framebuff_def users_in_def)
  obtain s2 where s2: "fb_get 10 s1 = Some s2" "fb_put 2 (\<lambda>_ _ _ _ _ _. None) 10 s2 = Some s1"
    using fb_get_put_inverse [OF ch(1) _ ch(2), of 2] by auto
  have "fbq_dequeue_r 2 (\<lambda>_ _ _ _ _ _. None) 101 2 wrapped_mst = do {
      s \<leftarrow> fb_get 10 s1; s \<leftarrow> fb_put 2 (\<lambda>_ _ _ _ _ _. None) 10 s; Some (10, s) }"
    by (simp add: fbq_dequeue_r_def rd up mem_rd_def mem_wr_def NEXT_RPOS_def upt_rec s1_def R_def)
  then have "fbq_dequeue_r 2 (\<lambda>_ _ _ _ _ _. None) 101 2 wrapped_mst = Some (10, s1)"
    using s2 by simp
  moreover have "map_option ring_contents (queues wrapped_mst 101) = Some [10, 11, 12]"
    "map_option ring_contents (queues s1 101) = Some [12]"
    by (simp_all add: wrapped_mst_def s1_def ring_contents_def RB_COUNT_def ring_seg_def upt_rec
        word_le_nat_alt)
  ultimately show ?thesis by (simp add: s1_def wrapped_mst_def)
qed

end
