(* ===== verification/Msi.thy ===== *)
theory Msi
  imports FbQueue
begin

text \<open>
  The components of \<open>sdk/lib/multimedia/msi/msi.c\<close>: the list of components and its reference,
  bind and init counts, the paths a frame takes from a component to the queues of its
  outputs, commands and notifications; and the frame buffer pools of \<open>fbpool.c\<close>. Pointers to
  new objects are parameters (\<open>mem\<close>, NULL when the allocator fails). Functions that release
  references take the fuel \<open>n\<close> of \<open>release\<close>.
\<close>

section \<open>Outputs\<close>

definition msi_bound :: "ptr \<Rightarrow> ptr \<Rightarrow> mst \<Rightarrow> bool option" where
  "msi_bound msi o_if s = do { x \<leftarrow> rd_msi msi s; Some (o_if \<in> set (output_list x)) }"

text \<open>The first free output slot.\<close>

fun null_slot :: "ptr list \<Rightarrow> nat \<Rightarrow> nat option" where
  "null_slot [] i = None"
| "null_slot (p # ps) i = (if p = NULL then Some i else null_slot ps (i + 1))"

definition msi_bind :: "ptr \<Rightarrow> ptr \<Rightarrow> mst \<Rightarrow> (int \<times> mst) option" where
  "msi_bind msi o_if s =
     do { b \<leftarrow> msi_bound msi o_if s;
          if b then Some (RET_OK, s)
          else do { x \<leftarrow> rd_msi msi s;
                    case null_slot (output_list x) 0 of
                      None \<Rightarrow> Some (RET_ERR, s)
                    | Some i \<Rightarrow>
                        do { s \<leftarrow> up_msi o_if (\<lambda>y. y\<lparr>m_bound := atomic_inc (m_bound y)\<rparr>) s;
                             s \<leftarrow> up_msi msi (\<lambda>x. x\<lparr>output_list := (output_list x)[i := o_if]\<rparr>) s;
                             Some (RET_OK, s) } } }"

section \<open>The component list\<close>

partial_function (option) find_loop :: "string \<Rightarrow> ptr \<Rightarrow> mst \<Rightarrow> ptr option" where
  "find_loop name msi s =
     (if msi \<noteq> NULL
      then do { x \<leftarrow> rd_msi msi s; if m_name x = name then Some msi else find_loop name (m_next x) s }
      else Some NULL)"

definition msi_find_lock :: "string \<Rightarrow> mst \<Rightarrow> ptr option" where
  "msi_find_lock name s = find_loop name (g_list s) s"

definition msi_list_add :: "ptr \<Rightarrow> mst \<Rightarrow> mst option" where
  "msi_list_add msi s =
     do { s \<leftarrow> up_msi msi (\<lambda>x. x\<lparr>m_next := g_list s\<rparr>) s; Some (s\<lparr>g_list := msi\<rparr>) }"

definition zero_fbqueue :: fbqueue where
  "zero_fbqueue = \<lparr>rpos = 0, wpos = 0, qsize = 0, rbq = None, q_sema = 0, reader_max = 0,
     q_init = False, q_alloc = False, readers = None\<rparr>"

lemma zero_fbqueue_init [simp]: "\<not> q_init zero_fbqueue"
  by (simp add: zero_fbqueue_def)

text \<open>A zeroed component; its queue is 48 bytes into the structure.\<close>

definition zero_msi :: "ptr \<Rightarrow> msi" where
  "zero_msi mem = \<lparr>m_next = NULL, m_name = [], m_action = NULL,
     output_list = replicate MSI_OUTIF_MAX NULL, m_priv = NULL, m_enable = False, m_deleted = False,
     m_users = 0, m_bound = 0, m_inited = 0, m_fbQ = mem + 48\<rparr>"

definition msi_new_lock :: "ptr \<Rightarrow> string \<Rightarrow> mst \<Rightarrow> (ptr \<times> mst) option" where
  "msi_new_lock mem name s =
     do { msi \<leftarrow> msi_find_lock name s;
          if msi = NULL \<and> mem \<noteq> NULL
          then do { s \<leftarrow> msi_list_add mem
                      (s\<lparr>msis := (msis s)(mem \<mapsto> (zero_msi mem)\<lparr>m_name := name\<rparr>),
                         queues := (queues s)(mem + 48 \<mapsto> zero_fbqueue)\<rparr>);
                    Some (mem, s) }
          else Some (msi, s) }"

definition msi_new :: "(nat \<Rightarrow> ptr list option) \<Rightarrow> ptr \<Rightarrow> string \<Rightarrow> u32 \<Rightarrow> mst \<Rightarrow> (ptr \<times> bool \<times> mst) option" where
  "msi_new malloc mem name sz s =
     do { (msi, s) \<leftarrow> msi_new_lock mem name s;
          msi \<leftarrow> (if msi \<noteq> NULL
                 then do { x \<leftarrow> rd_msi msi s; Some (if m_deleted x then NULL else msi) }
                 else Some NULL);
          if msi \<noteq> NULL
          then do { x \<leftarrow> rd_msi msi s;
                    s \<leftarrow> up_msi msi (\<lambda>x. x\<lparr>m_inited := atomic_inc (m_inited x),
                                         m_users := atomic_inc (m_users x)\<rparr>) s;
                    r \<leftarrow> rd_q (m_fbQ x) s;
                    s \<leftarrow> (if \<not> q_init r \<and> sz \<noteq> 0
                          then do { (_, s) \<leftarrow> fbq_init malloc (m_fbQ x) None (sz + 1) s; Some s }
                          else Some s);
                    Some (msi, m_inited x = 0, s) }
          else Some (NULL, False, s) }"

definition msi_destroy :: "nat \<Rightarrow> action \<Rightarrow> ptr \<Rightarrow> mst \<Rightarrow> mst option" where
  "msi_destroy n act msi s =
     (if msi = NULL then Some s
      else do { x \<leftarrow> rd_msi msi s;
                s \<leftarrow> up_msi msi (\<lambda>x. x\<lparr>m_inited := snd (atomic_dec_and_test (m_inited x))\<rparr>) s;
                if fst (atomic_dec_and_test (m_inited x))
                then do { s \<leftarrow> up_msi msi (\<lambda>x. x\<lparr>m_enable := False, m_deleted := True\<rparr>) s;
                          (_, s) \<leftarrow> msi_do_cmd act msi MSI_CMD_PRE_DESTROY 0 0 s;
                          msi_put n act msi s }
                else up_msi msi (\<lambda>x. x\<lparr>m_users := atomic_dec (m_users x)\<rparr>) s })"

definition msi_find :: "string option \<Rightarrow> bool \<Rightarrow> mst \<Rightarrow> (ptr \<times> mst) option" where
  "msi_find name inited s =
     (case name of
        None \<Rightarrow> Some (NULL, s)
      | Some name \<Rightarrow>
          do { msi \<leftarrow> msi_find_lock name s;
               drop_it \<leftarrow> (if msi \<noteq> NULL \<and> inited
                          then do { x \<leftarrow> rd_msi msi s; Some (atomic_read (m_inited x) = 0) }
                          else Some False);
               if drop_it then Some (NULL, s)
               else do { s \<leftarrow> msi_get msi s; Some (msi, s) } })"

definition msi_add_output :: "ptr \<Rightarrow> ptr \<Rightarrow> ptr \<Rightarrow> string \<Rightarrow> string \<Rightarrow> mst \<Rightarrow> (int \<times> mst) option" where
  "msi_add_output mem1 mem2 msi lname oname s =
     do { (l_msi, s) \<leftarrow> (if msi \<noteq> NULL then Some (msi, s) else msi_new_lock mem1 lname s);
          (o_msi, s) \<leftarrow> msi_new_lock mem2 oname s;
          if l_msi \<noteq> NULL \<and> o_msi \<noteq> NULL then msi_bind l_msi o_msi s else Some (RET_ERR, s) }"

definition msi_del_output :: "nat \<Rightarrow> action \<Rightarrow> ptr \<Rightarrow> string option \<Rightarrow> string option \<Rightarrow> mst
    \<Rightarrow> (int \<times> mst) option" where
  "msi_del_output n act msi lname oname s =
     do { (l_msi, s) \<leftarrow> (if msi \<noteq> NULL then Some (msi, s) else msi_find lname False s);
          (o_msi, s) \<leftarrow> msi_find oname False s;
          (ret, s) \<leftarrow> (if l_msi \<noteq> NULL \<and> o_msi \<noteq> NULL then msi_unbind n act l_msi o_msi s
                       else Some (RET_ERR, s));
          s \<leftarrow> (if msi = NULL then msi_put n act l_msi s else Some s);
          s \<leftarrow> msi_put n act o_msi s;
          Some (ret, s) }"

section \<open>Commands and notifications\<close>

fun output_cmd_loop :: "action \<Rightarrow> ptr \<Rightarrow> u32 \<Rightarrow> u32 \<Rightarrow> u32 \<Rightarrow> nat list \<Rightarrow> mst \<Rightarrow> mst option" where
  "output_cmd_loop act msi cmd p1 p2 [] s = Some s"
| "output_cmd_loop act msi cmd p1 p2 (i # is) s =
     do { x \<leftarrow> rd_msi msi s;
          out \<leftarrow> mem_rd (output_list x) i;
          (_, s) \<leftarrow> msi_do_cmd act out cmd p1 p2 s;
          output_cmd_loop act msi cmd p1 p2 is s }"

definition msi_output_cmd :: "action \<Rightarrow> ptr \<Rightarrow> u32 \<Rightarrow> u32 \<Rightarrow> u32 \<Rightarrow> mst \<Rightarrow> (int \<times> mst) option" where
  "msi_output_cmd act msi cmd p1 p2 s =
     (if msi = NULL then Some (RET_OK, s)
      else do { s \<leftarrow> output_cmd_loop act msi cmd p1 p2 [0..<MSI_OUTIF_MAX] s; Some (RET_OK, s) })"

text \<open>The walk of \<open>msi_notify_up\<close> from \<open>p\<close> on, with the depth of its recursion as fuel.\<close>

fun notify_up_loop :: "nat \<Rightarrow> action \<Rightarrow> ptr \<Rightarrow> u32 \<Rightarrow> u32 \<Rightarrow> u32 \<Rightarrow> ptr \<Rightarrow> mst \<Rightarrow> mst option" where
  "notify_up_loop 0 act msi cmd p1 p2 p s = None"
| "notify_up_loop (Suc n) act msi cmd p1 p2 p s =
     (if p = NULL then Some s
      else do {
        b \<leftarrow> (if p \<noteq> msi then msi_bound p msi s else Some False);
        s \<leftarrow> (if b then do { (_, s) \<leftarrow> msi_do_cmd act p cmd p1 p2 s;
                            notify_up_loop n act p cmd p1 p2 (g_list s) s }
              else Some s);
        x \<leftarrow> rd_msi p s;
        notify_up_loop n act msi cmd p1 p2 (m_next x) s })"

definition msi_notify_up :: "nat \<Rightarrow> action \<Rightarrow> ptr \<Rightarrow> u32 \<Rightarrow> u32 \<Rightarrow> u32 \<Rightarrow> mst \<Rightarrow> mst option" where
  "msi_notify_up n act msi cmd p1 p2 s = notify_up_loop n act msi cmd p1 p2 (g_list s) s"

definition msi_notify :: "nat \<Rightarrow> action \<Rightarrow> ptr \<Rightarrow> u32 \<Rightarrow> u32 \<Rightarrow> u32 \<Rightarrow> mst \<Rightarrow> mst option" where
  "msi_notify n act msi cmd p1 p2 s =
     do { s \<leftarrow> msi_notify_up n act msi cmd p1 p2 s;
          (_, s) \<leftarrow> msi_output_cmd act msi cmd p1 p2 s;
          Some s }"

definition msi_cmd :: "nat \<Rightarrow> action \<Rightarrow> string option \<Rightarrow> u32 \<Rightarrow> u32 \<Rightarrow> u32 \<Rightarrow> mst \<Rightarrow> mst option" where
  "msi_cmd n act name cmd p1 p2 s =
     do { (msi, s) \<leftarrow> msi_find name False s;
          if msi \<noteq> NULL
          then do { (_, s) \<leftarrow> msi_do_cmd act msi cmd p1 p2 s;
                    (_, s) \<leftarrow> msi_output_cmd act msi cmd p1 p2 s;
                    msi_put n act msi s }
          else Some s }"

section \<open>The path of a frame\<close>

text \<open>
  The loop of \<open>msi_output_fb\<close> over the output slots. The reference on an output is taken with
  interrupts off; \<open>ret\<close> counts the queues the frame went to, and is -1 when the frame is NULL and
  an enabled output exists.
\<close>

fun output_fb_loop :: "nat \<Rightarrow> action \<Rightarrow> ptr \<Rightarrow> ptr \<Rightarrow> nat list \<Rightarrow> int \<Rightarrow> mst \<Rightarrow> (int \<times> mst) option" where
  "output_fb_loop n act msi fb [] ret s = Some (ret, s)"
| "output_fb_loop n act msi fb (i # is) ret s =
     do { x \<leftarrow> rd_msi msi s;
          slot \<leftarrow> mem_rd (output_list x) i;
          (out, s) \<leftarrow>
            (if slot \<noteq> NULL
             then do { y \<leftarrow> rd_msi slot s;
                       if m_enable y then do { s \<leftarrow> msi_get slot s; Some (slot, s) } else Some (NULL, s) }
             else Some (NULL, s));
          if out \<noteq> NULL
          then do {
            y \<leftarrow> rd_msi out s;
            if m_enable y \<and> fb = NULL
            then do { s \<leftarrow> msi_put n act out s; Some (-1, s) }
            else do {
              (ret, s) \<leftarrow>
                (if m_enable y
                 then do {
                   (ok, s) \<leftarrow> msi_do_cmd act out MSI_CMD_TRANS_FB fb 0 s;
                   if ok = RET_OK
                   then do {
                     r \<leftarrow> rd_q (m_fbQ y) s;
                     if q_init r
                     then do {
                       (taken, s) \<leftarrow> fbq_enqueue n act (m_fbQ y) fb s;
                       if taken \<noteq> 0
                       then do { (_, s) \<leftarrow> msi_do_cmd act out MSI_CMD_TRANS_FB_END fb 0 s; Some (ret + 1, s) }
                       else Some (ret, s) }
                     else Some (ret, s) }
                   else Some (ret, s) }
                 else Some (ret, s));
              s \<leftarrow> msi_put n act out s;
              output_fb_loop n act msi fb is ret s } }
          else output_fb_loop n act msi fb is ret s }"

definition msi_output_fb :: "nat \<Rightarrow> action \<Rightarrow> ptr \<Rightarrow> ptr \<Rightarrow> mst \<Rightarrow> (int \<times> mst) option" where
  "msi_output_fb n act msi fb s =
     do { enabled \<leftarrow> (if msi \<noteq> NULL then do { x \<leftarrow> rd_msi msi s; Some (m_enable x) } else Some False);
          if \<not> enabled then do { s \<leftarrow> fb_put n act fb s; Some (0, s) }
          else do { (ret, s) \<leftarrow> output_fb_loop n act msi fb [0..<MSI_OUTIF_MAX] 0 s;
                    s \<leftarrow> fb_put n act fb s;
                    Some (ret, s) } }"

definition msi_delete_fb :: "nat \<Rightarrow> action \<Rightarrow> ptr \<Rightarrow> mst \<Rightarrow> (int \<times> mst) option" where
  "msi_delete_fb n act fb s = do { s \<leftarrow> fb_put n act fb s; Some (RET_OK, s) }"

definition msi_get_fb :: "ptr \<Rightarrow> u32 \<Rightarrow> (u64 \<times> (mst \<Rightarrow> mst)) list \<Rightarrow> mst \<Rightarrow> (ptr \<times> mst) option" where
  "msi_get_fb msi tmo_ms env s =
     (if msi = NULL then Some (NULL, s)
      else do { x \<leftarrow> rd_msi msi s; r \<leftarrow> rd_q (m_fbQ x) s;
                if q_init r then fbq_dequeue (m_fbQ x) tmo_ms env s else Some (NULL, s) })"

definition msi_get_fb_r :: "nat \<Rightarrow> action \<Rightarrow> ptr \<Rightarrow> u32 \<Rightarrow> mst \<Rightarrow> (ptr \<times> mst) option" where
  "msi_get_fb_r n act msi reader s =
     (if msi = NULL then Some (NULL, s)
      else do { x \<leftarrow> rd_msi msi s; r \<leftarrow> rd_q (m_fbQ x) s;
                if q_init r then fbq_dequeue_r n act (m_fbQ x) (ucast reader) s else Some (NULL, s) })"

text \<open>The loop of \<open>msi_fb_trace_discard\<close> asks the component's own queue once per output.\<close>

fun trace_loop :: "nat \<Rightarrow> action \<Rightarrow> ptr \<Rightarrow> ptr \<Rightarrow> bool \<Rightarrow> nat list \<Rightarrow> mst \<Rightarrow> mst option" where
  "trace_loop n act msi fb discard [] s = Some s"
| "trace_loop n act msi fb discard (i # is) s =
     do { x \<leftarrow> rd_msi msi s;
          out \<leftarrow> mem_rd (output_list x) i;
          s \<leftarrow> msi_get out s;
          s \<leftarrow> (if out \<noteq> NULL
                then do { y \<leftarrow> rd_msi out s; r \<leftarrow> rd_q (m_fbQ y) s;
                          if q_init r
                          then do { (_, s) \<leftarrow> fbq_trace n act (m_fbQ x) fb discard s; Some s }
                          else Some s }
                else Some s);
          s \<leftarrow> msi_put n act out s;
          trace_loop n act msi fb discard is s }"

definition msi_fb_trace_discard :: "nat \<Rightarrow> action \<Rightarrow> ptr \<Rightarrow> ptr \<Rightarrow> bool \<Rightarrow> mst \<Rightarrow> (int \<times> mst) option" where
  "msi_fb_trace_discard n act msi fb discard s =
     (if msi = NULL then Some (RET_OK, s)
      else do { x \<leftarrow> rd_msi msi s;
                (_, s) \<leftarrow> fbq_trace n act (m_fbQ x) fb discard s;
                s \<leftarrow> trace_loop n act msi fb discard [0..<MSI_OUTIF_MAX] s;
                Some (RET_OK, s) })"

definition msi_trace_fb :: "nat \<Rightarrow> action \<Rightarrow> ptr \<Rightarrow> ptr \<Rightarrow> mst \<Rightarrow> (int \<times> mst) option" where
  "msi_trace_fb n act msi fb s = msi_fb_trace_discard n act msi fb False s"

definition msi_discard_fb :: "nat \<Rightarrow> action \<Rightarrow> ptr \<Rightarrow> ptr \<Rightarrow> mst \<Rightarrow> (int \<times> mst) option" where
  "msi_discard_fb n act msi fb s = msi_fb_trace_discard n act msi fb True s"

section \<open>Pools of frame buffers\<close>

text \<open>\<open>mem\<close>: the addresses of the array of \<open>size\<close> buffers the allocator returns.\<close>

definition fbpool_init :: "ptr list option \<Rightarrow> fbpool option \<Rightarrow> u8 \<Rightarrow> mst \<Rightarrow> (int \<times> fbpool option \<times> mst) option" where
  "fbpool_init mem p sz s =
     (case p of
        None \<Rightarrow> Some (RET_OK, p, s)
      | Some pool \<Rightarrow>
          (if p_inited pool then Some (RET_OK, p, s)
           else do { cells \<leftarrow> mem;
                     Some (RET_OK,
                       Some (pool\<lparr>p_pool := cells, p_inited := True, p_size := sz\<rparr>),
                       s\<lparr>fbs := fold (\<lambda>i F. F(cells ! i \<mapsto> zero_framebuff\<lparr>f_index := word_of_nat i,
                                         f_used := False, f_pool := True\<rparr>)) [0..<unat sz] (fbs s)\<rparr>) }))"

fun pool_get_loop :: "ptr list \<Rightarrow> u16 \<Rightarrow> ptr \<Rightarrow> nat list \<Rightarrow> mst \<Rightarrow> (ptr \<times> mst) option" where
  "pool_get_loop cells type msi [] s = Some (NULL, s)"
| "pool_get_loop cells type msi (i # is) s =
     do { p \<leftarrow> mem_rd cells i;
          x \<leftarrow> rd_fb p s;
          if \<not> f_used x
          then do { s \<leftarrow> up_fb p (\<lambda>x. x\<lparr>f_mtype := ucast (drop_bit 8 type AND 0xff),
                                     f_stype := ucast (type AND 0xff), f_msi := msi, f_used := True,
                                     f_next := NULL\<rparr>) s;
                    s \<leftarrow> msi_get msi s;
                    s \<leftarrow> up_fb p (\<lambda>x. x\<lparr>f_users := atomic_inc (f_users x)\<rparr>) s;
                    Some (p, s) }
          else pool_get_loop cells type msi is s }"

definition fbpool_get :: "fbpool option \<Rightarrow> u16 \<Rightarrow> ptr \<Rightarrow> mst \<Rightarrow> (ptr \<times> mst) option" where
  "fbpool_get p type msi s =
     (case p of
        None \<Rightarrow> Some (NULL, s)
      | Some pool \<Rightarrow>
          (if p_inited pool then pool_get_loop (p_pool pool) type msi [0..<unat (p_size pool)] s
           else Some (NULL, s)))"

definition fbpool_put :: "fbpool option \<Rightarrow> ptr \<Rightarrow> mst \<Rightarrow> (int \<times> mst) option" where
  "fbpool_put p fb s =
     (case p of
        None \<Rightarrow> Some (RET_ERR, s)
      | Some pool \<Rightarrow>
          (if \<not> p_inited pool \<or> fb = NULL then Some (RET_ERR, s)
           else do {
             x \<leftarrow> rd_fb fb s;
             ours \<leftarrow> (if f_pool x \<and> f_index x < p_size pool
                     then do { c \<leftarrow> mem_rd (p_pool pool) (unat (f_index x)); Some (c = fb) }
                     else Some False);
             if ours
             then do { s \<leftarrow> up_fb fb (\<lambda>x. x\<lparr>f_used := False, f_msi := NULL, f_next := NULL, f_users := 0\<rparr>) s;
                       Some (RET_OK, s) }
             else Some (RET_ERR, s) }))"

fun pool_discard_loop :: "nat \<Rightarrow> action \<Rightarrow> ptr list \<Rightarrow> mst \<Rightarrow> mst option" where
  "pool_discard_loop n act [] s = Some s"
| "pool_discard_loop n act (p # ps) s =
     do { x \<leftarrow> rd_fb p s;
          (_, s) \<leftarrow> msi_discard_fb n act (f_msi x) p s;
          pool_discard_loop n act ps s }"

definition fbpool_destroy :: "nat \<Rightarrow> action \<Rightarrow> fbpool option \<Rightarrow> mst \<Rightarrow> (int \<times> fbpool option \<times> mst) option" where
  "fbpool_destroy n act p s =
     (case p of
        None \<Rightarrow> Some (RET_OK, p, s)
      | Some pool \<Rightarrow>
          (if \<not> p_inited pool then Some (RET_OK, p, s)
           else do { s \<leftarrow> pool_discard_loop n act (take (unat (p_size pool)) (p_pool pool)) s;
                     Some (RET_OK, Some (pool\<lparr>p_inited := False, p_size := 0\<rparr>),
                           s\<lparr>fbs := (\<lambda>a. if a \<in> set (p_pool pool) then None else fbs s a)\<rparr>) }))"

section \<open>Binding\<close>

lemma null_slot_Some:
  "null_slot ps k = Some i \<Longrightarrow> k \<le> i \<and> i < k + length ps \<and> ps ! (i - k) = NULL"
proof (induction ps arbitrary: k)
  case (Cons p ps)
  show ?case
  proof (cases "p = NULL")
    case False
    then have IH: "Suc k \<le> i" "i < Suc k + length ps" "ps ! (i - Suc k) = NULL"
      using Cons.IH [of "Suc k"] Cons.prems by auto
    then show ?thesis by (simp add: nth_Cons')
  qed (use Cons in auto)
qed simp

lemma release_unbind_Cons:
  "release (Suc n) act (Unbind_loop msi o_if (i # is)) s =
     do { x \<leftarrow> rd_msi msi s;
          out \<leftarrow> mem_rd (output_list x) i;
          if out \<noteq> NULL \<and> (out = o_if \<or> o_if = NULL)
          then do {
            s \<leftarrow> up_msi msi (\<lambda>x. x\<lparr>output_list := (output_list x)[i := NULL]\<rparr>) s;
            y \<leftarrow> rd_msi out s;
            s \<leftarrow> up_msi out (\<lambda>y. y\<lparr>m_bound := snd (atomic_dec_and_test (m_bound y))\<rparr>) s;
            s \<leftarrow> (if fst (atomic_dec_and_test (m_bound y)) \<and> atomic_read (m_users y) = 0
                  then release n act (Msi_free out) s else Some s);
            if o_if \<noteq> NULL then Some s else release n act (Unbind_loop msi o_if is) s }
          else release n act (Unbind_loop msi o_if is) s }"
  by (simp add: release_code_def unbind_loop_code_def)

lemma release_Msi_free:
  "release (Suc n) act (Msi_free msi) s =
     (if msi = NULL then Some s
      else do { s \<leftarrow> msi_list_del msi s;
                s \<leftarrow> release n act (Unbind_loop msi NULL [0..<MSI_OUTIF_MAX]) s;
                free_msi_mem msi s })"
  by (simp add: release_code_def msi_free_code_def)

text \<open>Slots before the one sought are passed over.\<close>

lemma unbind_skip:
  assumes "msi \<noteq> NULL" "msis s msi = Some x" "o_if \<noteq> NULL" "i \<le> j" "j \<le> length (output_list x)"
    and "\<forall>k. i \<le> k \<and> k < j \<longrightarrow> output_list x ! k \<noteq> o_if"
  shows "release (n + (j - i)) act (Unbind_loop msi o_if ([i..<j] @ is)) s
    = release n act (Unbind_loop msi o_if is) s"
  using assms(4-6)
proof (induction "j - i" arbitrary: i)
  case (Suc d)
  then have up: "[i..<j] = i # [Suc i..<j]" "j - i = Suc (j - Suc i)"
    by (simp_all add: upt_conv_Cons)
  have slot: "i < length (output_list x)" "output_list x ! i \<noteq> o_if"
    using Suc.prems Suc.hyps(2) by auto
  have "release (n + (j - i)) act (Unbind_loop msi o_if ([i..<j] @ is)) s
      = release (n + (j - Suc i)) act (Unbind_loop msi o_if ([Suc i..<j] @ is)) s"
    using assms(1-3) slot
    by (simp add: up release_unbind_Cons store mem_rd_def del: release.simps)
  moreover have "d = j - Suc i" using Suc.hyps(2) by simp
  ultimately show ?case using Suc.hyps(1) [of "Suc i"] Suc.prems Suc.hyps(2) by simp
qed simp

lemma msi_bind_spec:
  assumes "msi \<noteq> NULL" "msis s msi = Some x" "o_if \<noteq> NULL" "msis s o_if = Some y" "msi \<noteq> o_if"
    and "o_if \<notin> set (output_list x)" "null_slot (output_list x) 0 = Some i"
  shows "msi_bind msi o_if s = Some (RET_OK, s\<lparr>msis := (msis s)
      (o_if \<mapsto> y\<lparr>m_bound := atomic_inc (m_bound y)\<rparr>,
       msi \<mapsto> x\<lparr>output_list := (output_list x)[i := o_if]\<rparr>)\<rparr>)"
  using assms by (simp add: msi_bind_def msi_bound_def store)

section \<open>Creation and destruction\<close>

lemma list_del_head: "msi \<noteq> NULL \<Longrightarrow> g_list s = msi \<Longrightarrow> msis s msi = Some x \<Longrightarrow>
    msi_list_del msi s = Some (s\<lparr>g_list := m_next x\<rparr>)"
  by (simp add: msi_list_del_def list_del_loop.simps [of msi NULL msi] store)

lemma unbind_none:
  assumes "msi \<noteq> NULL" "msis s msi = Some x" "\<forall>i \<in> set is. i < length (output_list x) \<and> output_list x ! i = NULL"
    and "length is < n"
  shows "release n act (Unbind_loop msi NULL is) s = Some s"
  using assms(3,4)
proof (induction "is" arbitrary: n)
  case Nil
  then obtain k where "n = Suc k" by (cases n) auto
  then show ?case by (simp add: release_code_def unbind_loop_code_def)
next
  case (Cons i "is")
  then obtain k where "n = Suc k" "length is < k" by (cases n) auto
  then show ?case using Cons assms(1,2)
    by (simp add: release_unbind_Cons store mem_rd_def del: release.simps)
qed

text \<open>Releasing the last reference on a component that is neither bound nor initialised, has no
  action, no output and an empty queue: it leaves the list and its memory is freed.\<close>

lemma msi_put_last:
  assumes "msi \<noteq> NULL" "msis s msi = Some x" "m_users x = 1" "m_inited x = 0" "m_bound x = 0"
    and "m_action x = NULL" "output_list x = replicate MSI_OUTIF_MAX NULL" "g_list s = msi"
    and "m_fbQ x \<noteq> NULL" "queues s (m_fbQ x) = Some r" "RB_COUNT r = 0" "8 < n"
  shows "release n act (Msi_put msi) s
    = Some (s\<lparr>msis := (msis s)(msi := None), queues := (queues s)(m_fbQ x := None), g_list := m_next x\<rparr>)"
proof -
  define k where "k = n - 3"
  then have n: "n = Suc (Suc (Suc k))" "5 < k" using assms(12) by simp_all
  define x1 where "x1 = x\<lparr>m_users := 0, m_priv := NULL, m_action := NULL\<rparr>"
  define s1 where "s1 = s\<lparr>msis := (msis s)(msi \<mapsto> x1)\<rparr>"
  have q: "\<exists>r'. release (Suc (Suc k)) act (Fbq_destory (m_fbQ x)) s1
      = Some (s1\<lparr>queues := (queues s)(m_fbQ x \<mapsto> r')\<rparr>)"
  proof (cases "q_init r")
    case True
    then show ?thesis using assms(9-11)
      by (auto simp: release_code_def fbq_destory_code_def fbq_drain_code_def store s1_def
          simp del: fun_upd_apply)
  next
    case False
    then show ?thesis using assms(9,10)
      by (intro exI [of _ r]) (simp add: release_code_def fbq_destory_code_def store s1_def fun_upd_idem)
  qed
  then obtain r' where r': "release (Suc (Suc k)) act (Fbq_destory (m_fbQ x)) s1
      = Some (s1\<lparr>queues := (queues s)(m_fbQ x \<mapsto> r')\<rparr>)" by blast
  define s2 where "s2 = s1\<lparr>queues := (queues s)(m_fbQ x \<mapsto> r')\<rparr>"
  have s2: "msis s2 msi = Some x1" "g_list s2 = msi" using assms(8) by (simp_all add: s2_def s1_def)
  let ?s3 = "s2\<lparr>g_list := m_next x1\<rparr>"
  have "msi_list_del msi s2 = Some ?s3" using assms(1) s2 by (intro list_del_head)
  moreover have "release (Suc k) act (Unbind_loop msi NULL [0..<MSI_OUTIF_MAX]) ?s3 = Some ?s3"
    using assms(1,7) s2 n by (intro unbind_none [where x = x1]) (auto simp: x1_def)
  ultimately have "release (Suc (Suc k)) act (Msi_free msi) s2 = free_msi_mem msi ?s3"
    using assms(1) by (simp add: release_Msi_free del: release.simps)
  also have "\<dots> = Some (s\<lparr>msis := (msis s)(msi := None), queues := (queues s)(m_fbQ x := None), g_list := m_next x\<rparr>)"
    using assms(1) s2 by (simp add: free_msi_mem_def store s2_def s1_def x1_def)
  finally have free: "release (Suc (Suc k)) act (Msi_free msi) s2 = \<dots>" .
  have s1: "s\<lparr>msis := (msis s)(msi \<mapsto> x\<lparr>m_users := 0, m_priv := NULL, m_action := NULL\<rparr>)\<rparr> = s1"
    by (simp add: s1_def x1_def)
  show ?thesis
    using assms(1-6) r' free
    by (simp add: n(1) release.simps(2) [of "Suc (Suc k)"] release_code_def msi_put_code_def store atomic_read_def
        atomic_dec_and_test_def msi_do_cmd_def s1 s2_def del: release.simps)
qed

section \<open>Delivering a frame\<close>

definition qaddr :: "mst \<Rightarrow> ptr \<Rightarrow> ptr" where
  "qaddr s p = (case msis s p of None \<Rightarrow> NULL | Some y \<Rightarrow> m_fbQ y)"

text \<open>An output without an action, initialised, whose queue is not initialised or has one reader.\<close>

definition plain_output :: "mst \<Rightarrow> ptr \<Rightarrow> bool" where
  "plain_output s p \<longleftrightarrow>
     (case msis s p of
        None \<Rightarrow> False
      | Some y \<Rightarrow> m_action y = NULL \<and> m_inited y \<noteq> 0 \<and> m_users y + 1 \<noteq> 0 \<and> m_fbQ y \<noteq> NULL \<and>
          (case queues s (m_fbQ y) of None \<Rightarrow> False | Some r \<Rightarrow> q_init r \<longrightarrow> fbq_ok r))"

text \<open>The outputs that take a frame: enabled, with a queue that has room.\<close>

definition accepts :: "mst \<Rightarrow> ptr \<Rightarrow> bool" where
  "accepts s p \<longleftrightarrow>
     (case msis s p of
        None \<Rightarrow> False
      | Some y \<Rightarrow> m_enable y \<and>
          (case queues s (m_fbQ y) of
             None \<Rightarrow> False
           | Some r \<Rightarrow> q_init r \<and> length (ring_contents r) + 1 < unat (qsize r)))"

lemma plain_outputE:
  assumes "plain_output s p"
  obtains y r where "msis s p = Some y" "m_action y = NULL" "m_inited y \<noteq> 0" "m_users y + 1 \<noteq> 0"
    "m_fbQ y \<noteq> NULL" "queues s (m_fbQ y) = Some r" "q_init r \<Longrightarrow> fbq_ok r"
  using assms by (auto simp: plain_output_def split: option.splits)

lemma outputs_cong:
  assumes "msis s' = msis s" "queues s' (qaddr s p) = queues s (qaddr s p)"
  shows "plain_output s' p = plain_output s p" "accepts s' p = accepts s p" "qaddr s' p = qaddr s p"
  using assms by (auto simp: plain_output_def accepts_def qaddr_def split: option.splits)

lemma output_fb_slot:
  assumes msi: "msi \<noteq> NULL" "msis s msi = Some x" "i < length (output_list x)" "output_list x ! i = p"
    and fb: "fb \<noteq> NULL" "chain (fbs s) fb ps" "distinct ps" "users_in (fbs s) ps 1 254" "length ps < n"
    and p: "p \<noteq> NULL \<Longrightarrow> plain_output s p"
  shows "if p \<noteq> NULL \<and> accepts s p
    then \<exists>r r'. queues s (qaddr s p) = Some r \<and> ring_contents r' = ring_contents r @ [fb] \<and>
      output_fb_loop n act msi fb (i # is) ret s =
      output_fb_loop n act msi fb is (ret + 1)
        (s\<lparr>fbs := recount atomic_inc ps (fbs s), queues := (queues s)(qaddr s p \<mapsto> r')\<rparr>)
    else output_fb_loop n act msi fb (i # is) ret s = output_fb_loop n act msi fb is ret s"
proof (cases "p = NULL")
  case True
  then show ?thesis using msi by (simp add: store mem_rd_def)
next
  case False
  obtain y r where y: "msis s p = Some y" "m_action y = NULL" "m_inited y \<noteq> 0" "m_users y + 1 \<noteq> 0"
      "m_fbQ y \<noteq> NULL" "queues s (m_fbQ y) = Some r" "q_init r \<Longrightarrow> fbq_ok r"
    by (rule plain_outputE [OF p [OF False]]) (rule that)
  show ?thesis
  proof (cases "m_enable y")
    case False
    then show ?thesis using msi y \<open>p \<noteq> NULL\<close> by (simp add: store mem_rd_def accepts_def)
  next
    case en: True
    define y1 where "y1 = y\<lparr>m_users := atomic_inc (m_users y)\<rparr>"
    define s1 where "s1 = s\<lparr>msis := (msis s)(p \<mapsto> y1)\<rparr>"
    have get: "msi_get p s = Some s1" using y \<open>p \<noteq> NULL\<close> by (simp add: msi_get_def store s1_def y1_def)
    have u1: "m_users y1 \<noteq> 0" "atomic_dec (m_users y1) = m_users y" "m_inited y1 \<noteq> 0"
      using y by (simp_all add: y1_def) (simp add: atomic_inc_def)
    have cmd: "msi_do_cmd act p c fb 0 t = Some (RET_OK, t)" if "msis t = msis s1" for c t
      using that y \<open>p \<noteq> NULL\<close> by (simp add: msi_do_cmd_def store s1_def y1_def)
    have back_m: "(msis s)(p \<mapsto> y1, p \<mapsto> y1\<lparr>m_users := m_users y\<rparr>) = msis s"
      using y by (simp add: y1_def fun_upd_idem)
    have put: "msi_put n act p (s1\<lparr>fbs := F, queues := Q\<rparr>) = Some (s\<lparr>fbs := F, queues := Q\<rparr>)" for F Q
    proof -
      have "release n act (Msi_put p) (s1\<lparr>fbs := F, queues := Q\<rparr>)
        = Some (s1\<lparr>fbs := F, queues := Q, msis := (msis s1)(p \<mapsto> y1\<lparr>m_users := atomic_dec (m_users y1)\<rparr>)\<rparr>)"
        using msi_put_alive [of n p "s1\<lparr>fbs := F, queues := Q\<rparr>" y1 act] fb(5) \<open>p \<noteq> NULL\<close> u1
        by (simp add: s1_def)
      then show ?thesis using back_m u1(2) by (simp add: msi_put_def s1_def del: fun_upd_apply)
    qed
    have put0: "msi_put n act p s1 = Some s"
      using put [where F = "fbs s" and Q = "queues s"] by (simp add: s1_def)
    have rd: "rd_msi p s = Some y" "rd_msi p s1 = Some y1" "rd_q (m_fbQ y) s1 = Some r" "m_fbQ y1 = m_fbQ y"
        "m_enable y1"
      using y \<open>p \<noteq> NULL\<close> en by (simp_all add: store s1_def y1_def)
    note run = msi fb(1) en get cmd rd
    show ?thesis
    proof (cases "q_init r")
      case False
      then have "\<not> accepts s p" using y by (simp add: accepts_def)
      with False show ?thesis using run put0 y \<open>p \<noteq> NULL\<close> by (simp add: store mem_rd_def)
    next
      case True
      have spec: "if length (ring_contents r) + 1 < unat (qsize r)
        then \<exists>r'. fbq_enqueue n act (m_fbQ y) fb s1 =
             Some (1, s1\<lparr>fbs := recount atomic_inc ps (fbs s1), queues := (queues s1)(m_fbQ y \<mapsto> r')\<rparr>) \<and>
           fbq_ok r' \<and> ring_contents r' = ring_contents r @ [fb] \<and> qsize r' = qsize r
        else fbq_enqueue n act (m_fbQ y) fb s1 = Some (0, s1)"
        using y True fb by (intro fbq_enqueue_spec) (simp_all add: s1_def)
      show ?thesis
      proof (cases "length (ring_contents r) + 1 < unat (qsize r)")
        case room: True
        then obtain r' where r': "fbq_enqueue n act (m_fbQ y) fb s1 =
             Some (1, s1\<lparr>fbs := recount atomic_inc ps (fbs s), queues := (queues s)(m_fbQ y \<mapsto> r')\<rparr>)"
            "ring_contents r' = ring_contents r @ [fb]"
          using spec by (auto simp: s1_def)
        let ?t = "s1\<lparr>fbs := recount atomic_inc ps (fbs s), queues := (queues s)(m_fbQ y \<mapsto> r')\<rparr>"
        have "accepts s p" "qaddr s p = m_fbQ y" using y en True room by (simp_all add: accepts_def qaddr_def)
        moreover have "msi_do_cmd act p MSI_CMD_TRANS_FB_END fb 0 ?t = Some (RET_OK, ?t)" by (rule cmd) simp
        ultimately show ?thesis using run True put r' y \<open>p \<noteq> NULL\<close>
          by (simp add: store mem_rd_def del: fun_upd_apply) blast
      next
        case False
        then have "\<not> accepts s p" using y by (simp add: accepts_def)
        with False show ?thesis using run True put0 spec y \<open>p \<noteq> NULL\<close> by (simp add: store mem_rd_def)
      qed
    qed
  qed
qed

lemma recount_compose:
  "recount g ps (recount f ps F) = recount (g \<circ> f) ps F"
  by (auto simp: recount_def fun_eq_iff option.map_comp comp_def)

lemma recount_cong: "(\<And>u. f u = g u) \<Longrightarrow> recount f ps F = recount g ps F"
  by (rule arg_cong [where f = "\<lambda>h. recount h ps F"]) (simp add: fun_eq_iff)

lemma users_in_mono: "users_in F ps lo hi \<Longrightarrow> hi \<le> hi' \<Longrightarrow> users_in F ps lo hi'"
  by (induction ps) (auto simp: users_in_Cons)

lemma output_fb_slots:
  assumes "msi \<noteq> NULL" "msis s msi = Some x" "fb \<noteq> NULL" "distinct ps" "length ps < n"
    and "chain (fbs s) fb ps" "users_in (fbs s) ps 1 (255 - length is)" "length is \<le> 200"
    and "\<forall>i \<in> set is. i < length (output_list x)"
    and "outs = filter (\<lambda>p. p \<noteq> NULL) (map ((!) (output_list x)) is)"
    and "\<forall>p \<in> set outs. plain_output s p" "distinct (map (qaddr s) outs)"
  shows "\<exists>s'. output_fb_loop n act msi fb is ret s = Some (ret + int (length (filter (accepts s) outs)), s') \<and>
    msis s' = msis s \<and>
    fbs s' = recount (\<lambda>u. u + word_of_nat (length (filter (accepts s) outs))) ps (fbs s) \<and>
    (\<forall>a. a \<notin> qaddr s ` set outs \<longrightarrow> queues s' a = queues s a) \<and>
    (\<forall>p \<in> set outs. map_option ring_contents (queues s' (qaddr s p)) =
       map_option (\<lambda>r. if accepts s p then ring_contents r @ [fb] else ring_contents r) (queues s (qaddr s p)))"
  using assms
proof (induction "is" arbitrary: s ret outs)
  case Nil
  have "recount (\<lambda>u. u) ps (fbs s) = fbs s"
    by (auto simp: recount_def fun_eq_iff option.map_ident)
  with Nil show ?case by simp
next
  case (Cons i "is")
  define p where "p = output_list x ! i"
  define outs' where "outs' = filter (\<lambda>p. p \<noteq> NULL) (map ((!) (output_list x)) is)"
  have outs: "outs = (if p = NULL then outs' else p # outs')"
    using Cons.prems(10) by (simp add: outs'_def p_def)
  have lo: "users_in (fbs s) ps 1 254" "users_in (fbs s) ps 1 (255 - length is)"
    using Cons.prems(7) by (auto elim!: users_in_mono)
  have tl: "\<forall>q \<in> set outs'. plain_output s q" "distinct (map (qaddr s) outs')"
    using Cons.prems(11,12) unfolding outs by (auto split: if_splits)
  have pr: "length is \<le> 200" "\<forall>i \<in> set is. i < length (output_list x)" using Cons.prems(8,9) by auto
  have slot: "if p \<noteq> NULL \<and> accepts s p
    then \<exists>r r'. queues s (qaddr s p) = Some r \<and> ring_contents r' = ring_contents r @ [fb] \<and>
      output_fb_loop n act msi fb (i # is) ret s =
      output_fb_loop n act msi fb is (ret + 1)
        (s\<lparr>fbs := recount atomic_inc ps (fbs s), queues := (queues s)(qaddr s p \<mapsto> r')\<rparr>)
    else output_fb_loop n act msi fb (i # is) ret s = output_fb_loop n act msi fb is ret s"
    using Cons.prems lo outs by (intro output_fb_slot) (auto simp: p_def)
  show ?case
  proof (cases "p \<noteq> NULL \<and> accepts s p")
    case False
    then have run: "output_fb_loop n act msi fb (i # is) ret s = output_fb_loop n act msi fb is ret s"
      using slot by (simp only: if_False)
    have fl: "filter (accepts s) outs = filter (accepts s) outs'" using outs False by (cases "p = NULL") auto
    obtain s' where s': "output_fb_loop n act msi fb is ret s
        = Some (ret + int (length (filter (accepts s) outs')), s')"
      "msis s' = msis s"
      "fbs s' = recount (\<lambda>u. u + word_of_nat (length (filter (accepts s) outs'))) ps (fbs s)"
      "\<forall>a. a \<notin> qaddr s ` set outs' \<longrightarrow> queues s' a = queues s a"
      "\<forall>p \<in> set outs'. map_option ring_contents (queues s' (qaddr s p)) =
         map_option (\<lambda>r. if accepts s p then ring_contents r @ [fb] else ring_contents r) (queues s (qaddr s p))"
      using Cons.IH [OF Cons.prems(1-6) lo(2) pr outs'_def tl, of ret] by blast
    have "queues s' (qaddr s p) = queues s (qaddr s p)" if "p \<noteq> NULL"
      using s'(4) Cons.prems(12) outs that by auto
    with s' False show ?thesis unfolding run fl outs by (intro exI [of _ s']) auto
  next
    case True
    then obtain r r' where r: "queues s (qaddr s p) = Some r" "ring_contents r' = ring_contents r @ [fb]"
      and run: "output_fb_loop n act msi fb (i # is) ret s = output_fb_loop n act msi fb is (ret + 1)
        (s\<lparr>fbs := recount atomic_inc ps (fbs s), queues := (queues s)(qaddr s p \<mapsto> r')\<rparr>)"
      using slot by auto
    define t where "t = s\<lparr>fbs := recount atomic_inc ps (fbs s), queues := (queues s)(qaddr s p \<mapsto> r')\<rparr>"
    have nin: "qaddr s p \<notin> qaddr s ` set outs'" using Cons.prems(12) outs True by auto
    have tq: "msis t = msis s" "queues t (qaddr s q) = queues s (qaddr s q)" if "q \<in> set outs'" for q
    proof -
      have "qaddr s q \<noteq> qaddr s p" using nin that by (metis imageI)
      then show "msis t = msis s" "queues t (qaddr s q) = queues s (qaddr s q)" by (simp_all add: t_def)
    qed
    have same: "plain_output t q = plain_output s q" "accepts t q = accepts s q" "qaddr t q = qaddr s q"
      if "q \<in> set outs'" for q
      using outputs_cong [of t s q, OF tq [OF that]] by blast+
    have sets: "filter (accepts t) outs' = filter (accepts s) outs'" "map (qaddr t) outs' = map (qaddr s) outs'"
      "qaddr t ` set outs' = qaddr s ` set outs'"
      using same by (auto intro: filter_cong)
    have fl: "filter (accepts s) outs = p # filter (accepts s) outs'" using outs True by simp
    have hi: "users_in (fbs t) ps 1 (255 - length is)"
    proof -
      have "unat (atomic_inc u) = unat u + 1" if "unat u \<le> 254" for u :: u8
        using that by (intro unat_atomic_inc) simp
      then show ?thesis
        using Cons.prems(7,8) by (auto simp: t_def intro!: users_in_recount [of 1 "255 - length (i # is)"])
    qed
    have tm: "msis t msi = Some x" and tc: "chain (fbs t) fb ps"
      using Cons.prems(2,6) by (simp_all add: t_def)
    have tt: "\<forall>q \<in> set outs'. plain_output t q" "distinct (map (qaddr t) outs')"
      using tl(1) same(1) tl(2) [folded sets(2)] by auto
    obtain s' where h: "output_fb_loop n act msi fb is (ret + 1) t
        = Some (ret + 1 + int (length (filter (accepts t) outs')), s')"
      "msis s' = msis t"
      "fbs s' = recount (\<lambda>u. u + word_of_nat (length (filter (accepts t) outs'))) ps (fbs t)"
      "\<forall>a. a \<notin> qaddr t ` set outs' \<longrightarrow> queues s' a = queues t a"
      "\<forall>p \<in> set outs'. map_option ring_contents (queues s' (qaddr t p)) =
         map_option (\<lambda>r. if accepts t p then ring_contents r @ [fb] else ring_contents r) (queues t (qaddr t p))"
      using Cons.IH [OF Cons.prems(1) tm Cons.prems(3-5) tc hi pr outs'_def tt, of "ret + 1"] by blast
    note s' = h(1-4) [unfolded sets]
    have s5: "\<forall>p \<in> set outs'. map_option ring_contents (queues s' (qaddr s p)) =
         map_option (\<lambda>r. if accepts s p then ring_contents r @ [fb] else ring_contents r) (queues s (qaddr s p))"
      using h(5) same(2,3) tq(2) by auto
    have rc: "fbs s' = recount (\<lambda>u. u + word_of_nat (length (filter (accepts s) outs))) ps (fbs s)"
      unfolding s'(3) fl
      by (simp add: t_def recount_compose) (rule recount_cong, simp add: atomic_inc_def)
    have qs: "queues s' (qaddr s p) = Some r'" using s'(4) nin by (simp add: t_def)
    have "\<forall>a. a \<notin> qaddr s ` set outs \<longrightarrow> queues s' a = queues s a"
      using s'(4) outs True by (auto simp: t_def)
    moreover have "msis s' = msis s" using s'(2) by (simp add: t_def)
    moreover have "\<forall>p \<in> set outs. map_option ring_contents (queues s' (qaddr s p)) =
         map_option (\<lambda>r. if accepts s p then ring_contents r @ [fb] else ring_contents r) (queues s (qaddr s p))"
      using s5 qs r outs True by simp
    ultimately show ?thesis unfolding run t_def [symmetric]
      using s'(1) rc by (intro exI [of _ s']) (simp add: fl)
  qed
qed

lemma pool_get_loop_skip:
  assumes "i \<le> k" "k \<le> length cells" "NULL \<notin> set cells"
    and "\<forall>j. i \<le> j \<and> j < k \<longrightarrow> (\<exists>x. fbs s (cells ! j) = Some x \<and> f_used x)"
  shows "pool_get_loop cells type msi ([i..<k] @ js) s = pool_get_loop cells type msi js s"
  using assms
proof (induction "k - i" arbitrary: i)
  case (Suc d)
  then have i: "i < k" "[i..<k] = i # [Suc i..<k]" by (simp_all add: upt_conv_Cons)
  then obtain x where x: "fbs s (cells ! i) = Some x" "f_used x" using Suc.prems(4) by auto
  have "cells ! i \<noteq> NULL" using Suc.prems(2,3) i(1) by (metis less_le_trans nth_mem)
  then have "pool_get_loop cells type msi ([i..<k] @ js) s = pool_get_loop cells type msi ([Suc i..<k] @ js) s"
    using x i Suc.prems(2) by (simp add: mem_rd_def store)
  also have "\<dots> = pool_get_loop cells type msi js s"
    using Suc.hyps Suc.prems i(1) by (intro Suc.hyps(1)) auto
  finally show ?case .
qed simp

section \<open>Properties\<close>

text \<open>binding an output and unbinding it again leaves the store as it was: the first free slot is
  used and cleared, and the bind count of the output goes up and comes back.\<close>

theorem msi_bind_unbind_balance:
  assumes "msi \<noteq> NULL" and "msis s msi = Some x" and "o_if \<noteq> NULL" and "msis s o_if = Some y"
    and "msi \<noteq> o_if" and "length (output_list x) = MSI_OUTIF_MAX" and "o_if \<notin> set (output_list x)"
    and "NULL \<in> set (output_list x)" and "m_bound y + 1 \<noteq> 0" and "m_users y \<noteq> 0" and "4 < n"
  shows "\<exists>s1. msi_bind msi o_if s = Some (RET_OK, s1) \<and> msi_bound msi o_if s1 = Some True \<and>
    map_option m_bound (msis s1 o_if) = Some (m_bound y + 1) \<and>
    msi_unbind n act msi o_if s1 = Some (RET_OK, s)"
proof -
  have "\<exists>i. null_slot ps k = Some i" if "NULL \<in> set ps" for ps k
    using that by (induction ps arbitrary: k) auto
  then obtain i where i: "null_slot (output_list x) 0 = Some i" using assms(8) by blast
  then have il: "i < 4" "output_list x ! i = NULL" using null_slot_Some [OF i] assms(6) by auto
  define x1 where "x1 = x\<lparr>output_list := (output_list x)[i := o_if]\<rparr>"
  define y1 where "y1 = y\<lparr>m_bound := atomic_inc (m_bound y)\<rparr>"
  define s1 where "s1 = s\<lparr>msis := (msis s)(o_if \<mapsto> y1, msi \<mapsto> x1)\<rparr>"
  have bind: "msi_bind msi o_if s = Some (RET_OK, s1)"
    using assms i by (subst msi_bind_spec) (simp_all add: s1_def x1_def y1_def)
  have lk: "msis s1 msi = Some x1" "msis s1 o_if = Some y1" using assms(5) by (simp_all add: s1_def)
  have out: "output_list x1 ! i = o_if" "i < length (output_list x1)" using il assms(6) by (simp_all add: x1_def)
  define k where "k = n - i"
  then have n: "n = k + (i - 0)" "k = Suc (k - 1)" using assms(11) il by simp_all
  have split: "[0..<MSI_OUTIF_MAX] = [0..<i] @ (i # [Suc i..<MSI_OUTIF_MAX])"
    using il upt_add_eq_append [of 0 i "4 - i"] by (simp add: upt_conv_Cons)
  have "release n act (Unbind_loop msi o_if [0..<MSI_OUTIF_MAX]) s1
      = release k act (Unbind_loop msi o_if (i # [Suc i..<MSI_OUTIF_MAX])) s1"
    unfolding split n(1) using assms(1,3,6,7) lk il
    by (intro unbind_skip [where x = x1]) (auto simp: x1_def nth_list_update dest: nth_mem)
  also have "\<dots> = Some s"
  proof -
    have b: "atomic_dec (m_bound y1) = m_bound y" "m_users y1 = m_users y"
      using assms(9) by (simp_all add: y1_def)
    have "(msis s)(o_if \<mapsto> y1, msi \<mapsto> x1, msi \<mapsto> x1\<lparr>output_list := (output_list x1)[i := NULL]\<rparr>,
        o_if \<mapsto> y1\<lparr>m_bound := m_bound y\<rparr>) = msis s"
      using assms(2,4,5) il(2) by (auto simp: x1_def y1_def fun_eq_iff list_update_same_conv il assms(6))
    then show ?thesis
      using assms(1,3,5,10) lk out
      by (subst n(2)) (simp add: release_unbind_Cons store mem_rd_def atomic_read_def y1_def [symmetric]
          snd_dec_and_test b s1_def del: release.simps)
  qed
  finally have "msi_unbind n act msi o_if s1 = Some (RET_OK, s)" by (simp add: msi_unbind_def)
  moreover have "msi_bound msi o_if s1 = Some True"
    using assms(1) lk out by (auto simp: msi_bound_def store intro: nth_mem dest: sym)
  ultimately show ?thesis using bind lk by (auto simp: y1_def atomic_inc_def)
qed

definition two_msis :: mst where
  "two_msis = (sample_mst 1)\<lparr>msis := [100 \<mapsto> sample_msi 5 1, 200 \<mapsto> sample_msi 1 1]\<rparr>"

theorem msi_bind_unbind_balance_witness:
  "\<exists>s1. msi_bind 100 200 two_msis = Some (RET_OK, s1) \<and> msi_bound 100 200 s1 = Some True \<and>
    map_option m_bound (msis s1 200) = Some (m_bound (sample_msi 1 1) + 1) \<and>
    msi_unbind 5 (\<lambda>_ _ _ _ _ _. None) 100 200 s1 = Some (RET_OK, two_msis)"
  by (rule msi_bind_unbind_balance [where x = "sample_msi 5 1"]) (simp_all add: two_msis_def sample_msi_def)

text \<open>C31: creating a component whose name is new and destroying it leaves the store and the component
  list as they were; in between, the component is found under its name. Its queue, when one was asked for,
  and its own memory are released.\<close>

theorem msi_new_destroy_balance:
  assumes "mem \<noteq> NULL" and "mem + 48 \<noteq> NULL" and "msi_find_lock name s = Some NULL"
    and "msis s mem = None" and "queues s (mem + 48) = None"
    and "sz = 0 \<or> (sz + 1 \<noteq> 0 \<and> malloc (unat (sz + 1 + 1)) = Some cells)" and "8 < n"
  shows "\<exists>s1. msi_new malloc mem name sz s = Some (mem, True, s1) \<and> msi_find_lock name s1 = Some mem \<and>
    msi_destroy n act mem s1 = Some s"
proof -
  let ?q = "mem + 48"
  define x0 where "x0 = (zero_msi mem)\<lparr>m_name := name, m_next := g_list s\<rparr>"
  define x1 where "x1 = x0\<lparr>m_inited := 1, m_users := 1\<rparr>"
  define r1 where "r1 = (if sz = 0 then zero_fbqueue
     else (RB_INIT_R (zero_fbqueue\<lparr>q_alloc := True\<rparr>) (sz + 1 + 1) (Some cells))
            \<lparr>q_sema := 0, reader_max := 1, readers := None, q_init := True\<rparr>)"
  define s0 where "s0 = s\<lparr>msis := (msis s)(mem \<mapsto> x0), queues := (queues s)(?q \<mapsto> zero_fbqueue), g_list := mem\<rparr>"
  define s1 where "s1 = s\<lparr>msis := (msis s)(mem \<mapsto> x1), queues := (queues s)(?q \<mapsto> r1), g_list := mem\<rparr>"
  have fields: "m_fbQ x0 = ?q" "\<not> m_deleted x0" "m_inited x0 = 0" "m_users x0 = 0"
    by (simp_all add: x0_def zero_msi_def)
  have lock: "msi_new_lock mem name s = Some (mem, s0)"
    using assms(1,3) by (simp add: msi_new_lock_def msi_list_add_def store s0_def x0_def)
  have init: "fbq_init malloc ?q None (sz + 1) (s1\<lparr>queues := (queues s)(?q \<mapsto> zero_fbqueue)\<rparr>) = Some (RET_OK, s1)"
    if "sz \<noteq> 0"
    using that assms(2,6) by (simp add: fbq_init_def store s1_def r1_def)
  have mid: "s1\<lparr>queues := (queues s)(?q \<mapsto> zero_fbqueue)\<rparr> =
      s0\<lparr>msis := (msis s)(mem \<mapsto> x1)\<rparr>" by (simp add: s0_def s1_def)
  have inc: "x0\<lparr>m_inited := atomic_inc (m_inited x0), m_users := atomic_inc (m_users x0)\<rparr> = x1"
    by (simp add: x1_def fields atomic_inc_def)
  have up: "up_msi mem (\<lambda>x. x\<lparr>m_inited := atomic_inc (m_inited x), m_users := atomic_inc (m_users x)\<rparr>) s0
      = Some (s0\<lparr>msis := (msis s)(mem \<mapsto> x1)\<rparr>)"
    using assms(1) inc by (simp add: store s0_def)
  have rdq: "rd_q ?q (s0\<lparr>msis := (msis s)(mem \<mapsto> x1)\<rparr>) = Some zero_fbqueue"
    using assms(2) by (simp add: store s0_def)
  have rdm: "rd_msi mem s0 = Some x0" using assms(1) by (simp add: store s0_def)
  have new: "msi_new malloc mem name sz s = Some (mem, True, s1)"
  proof (cases "sz = 0")
    case True
    then have "s0\<lparr>msis := (msis s)(mem \<mapsto> x1)\<rparr> = s1" by (simp add: s0_def s1_def r1_def)
    then show ?thesis using assms(1) True rdq
      by (simp add: msi_new_def lock rdm up fields)
  next
    case False
    then show ?thesis using assms(1) init mid rdq
      by (simp add: msi_new_def lock rdm up fields)
  qed
  have found: "msi_find_lock name s1 = Some mem"
    using assms(1) by (simp add: msi_find_lock_def find_loop.simps [of name mem] store s1_def x1_def x0_def)
  define x2 where "x2 = x1\<lparr>m_inited := 0, m_enable := False, m_deleted := True\<rparr>"
  define s2 where "s2 = s1\<lparr>msis := (msis s)(mem \<mapsto> x2)\<rparr>"
  have cnt: "RB_COUNT r1 = 0"
    by (simp add: r1_def RB_COUNT_def RB_INIT_R_def zero_fbqueue_def)
  have "release n act (Msi_put mem) s2
      = Some (s2\<lparr>msis := (msis s2)(mem := None), queues := (queues s2)(m_fbQ x2 := None), g_list := m_next x2\<rparr>)"
    using assms(1,2,7) cnt
    by (intro msi_put_last [where r = r1]) (simp_all add: s2_def s1_def x2_def x1_def x0_def zero_msi_def)
  also have "\<dots> = Some s"
    using assms(4,5)
    by (simp add: s2_def s1_def x2_def x1_def x0_def zero_msi_def fun_upd_idem)
  finally have "msi_destroy n act mem s1 = Some s"
    using assms(1)
    by (simp add: msi_destroy_def store s1_def x1_def atomic_dec_and_test_def msi_do_cmd_def msi_put_def
        s2_def x2_def x0_def zero_msi_def)
  with new found show ?thesis by blast
qed

theorem msi_new_destroy_balance_witness:
  "\<exists>s1. msi_new (\<lambda>n. Some (replicate n 0)) 200 ''b'' 3 (sample_mst 1) = Some (200, True, s1) \<and>
    msi_find_lock ''b'' s1 = Some 200 \<and> msi_destroy 9 (\<lambda>_ _ _ _ _ _. None) 200 s1 = Some (sample_mst 1)"
  by (rule msi_new_destroy_balance [where cells = "replicate 5 0"])
     (simp_all add: msi_find_lock_def find_loop.simps [of _ 100] find_loop.simps [of _ NULL] store sample_defs)

definition cyclic_msis :: mst where
  "cyclic_msis = \<lparr>fbs = Map.empty, queues = Map.empty,
     msis = [100 \<mapsto> (sample_msi 1 1)\<lparr>m_next := 200, output_list := [200, 0, 0, 0]\<rparr>,
             200 \<mapsto> (sample_msi 1 1)\<lparr>output_list := [100, 0, 0, 0]\<rparr>], g_list = 100\<rparr>"

text \<open>a notification climbs from output to source without marking where it has been: with two
  components that are each other's output, \<open>msi_notify_up\<close> recurses without end.\<close>

theorem msi_notify_cycle_diverges:
  "msi_notify_up n act 100 cmd p1 p2 cyclic_msis = None"
proof -
  have b: "msi_bound 200 100 cyclic_msis = Some True" "msi_bound 100 200 cyclic_msis = Some True"
    by (simp_all add: msi_bound_def cyclic_msis_def store sample_msi_def)
  have rd: "rd_msi 100 cyclic_msis = Some ((sample_msi 1 1)\<lparr>m_next := 200, output_list := [200, 0, 0, 0]\<rparr>)"
    "g_list cyclic_msis = 100"
    by (simp_all add: cyclic_msis_def store)
  have cmd: "msi_do_cmd act m cmd p1 p2 cyclic_msis = Some (RET_OK, cyclic_msis)" if "m = 100 \<or> m = 200" for m
    using that by (auto simp: msi_do_cmd_def store cyclic_msis_def sample_msi_def)
  have "notify_up_loop n act 100 cmd p1 p2 100 cyclic_msis = None \<and>
      notify_up_loop n act 200 cmd p1 p2 100 cyclic_msis = None" for n
  proof (induction n rule: less_induct)
    case (less n)
    show ?case
    proof (cases n)
      case (Suc m)
      have "notify_up_loop m act 200 cmd p1 p2 100 cyclic_msis = None"
        "notify_up_loop m act 100 cmd p1 p2 100 cyclic_msis = None" using less Suc by auto
      moreover have "notify_up_loop m act 100 cmd p1 p2 200 cyclic_msis = None"
      proof (cases m)
        case (Suc k)
        then have "notify_up_loop k act 200 cmd p1 p2 100 cyclic_msis = None"
          using less \<open>n = Suc m\<close> by auto
        then show ?thesis using Suc b rd cmd by simp
      qed simp
      ultimately show ?thesis using Suc b rd cmd by (simp add: sample_msi_def)
    qed simp
  qed
  then show ?thesis by (simp add: msi_notify_up_def rd)
qed


definition pipe_mst :: mst where
  "pipe_mst = (sample_mst 1)\<lparr>
     msis := [100 \<mapsto> (sample_msi 5 1)\<lparr>output_list := [200, 0, 0, 0]\<rparr>, 200 \<mapsto> (sample_msi 1 1)\<lparr>m_fbQ := 201\<rparr>],
     queues := [201 \<mapsto> sample_q [10, 11, 12] 0]\<rparr>"


text \<open>asked with no frame whether anyone listens, \<open>msi_output_fb\<close> answers -1 for an enabled output
  in the first slot; the comment above it promises 0x80000000, which is \<open>- (2 ^ 31)\<close> as an \<open>int32\<close>.\<close>

theorem msi_output_fb_query:
  assumes "msi \<noteq> NULL" and "msis s msi = Some x" and "m_enable x" and "output_list x = out # rest"
    and "out \<noteq> NULL" and "msis s out = Some y" and "m_enable y" and "m_inited y \<noteq> 0" and "m_users y + 1 \<noteq> 0"
    and "0 < n"
  shows "msi_output_fb n act msi NULL s = Some (-1, s) \<and> (-1 :: int) \<noteq> - (2 ^ 31)"
proof -
  define y1 where "y1 = y\<lparr>m_users := atomic_inc (m_users y)\<rparr>"
  define s1 where "s1 = s\<lparr>msis := (msis s)(out \<mapsto> y1)\<rparr>"
  have get: "msi_get out s = Some s1" using assms by (simp add: msi_get_def store s1_def y1_def)
  have u1: "m_users y1 \<noteq> 0" "atomic_dec (m_users y1) = m_users y"
    using assms by (simp_all add: y1_def) (simp add: atomic_inc_def)
  have same: "(msis s)(out \<mapsto> y1, out \<mapsto> y1\<lparr>m_users := m_users y\<rparr>) = msis s"
    using assms by (simp add: y1_def fun_upd_idem)
  have "release n act (Msi_put out) s1
      = Some (s1\<lparr>msis := (msis s1)(out \<mapsto> y1\<lparr>m_users := atomic_dec (m_users y1)\<rparr>)\<rparr>)"
    using assms u1 by (intro msi_put_alive) (simp_all add: s1_def y1_def)
  then have put: "msi_put n act out s1 = Some s"
    using same u1(2) by (simp add: msi_put_def s1_def del: fun_upd_apply)
  have rd: "rd_msi out s1 = Some y1" using assms by (simp add: store s1_def)
  have up: "[0..<MSI_OUTIF_MAX] = 0 # [1, 2, 3]" by (simp add: upt_rec)
  have "output_fb_loop n act msi NULL [0..<MSI_OUTIF_MAX] 0 s = Some (-1, s)"
    unfolding up using assms get put rd by (simp add: store mem_rd_def y1_def)
  then show ?thesis using assms by (simp add: msi_output_fb_def store)
qed

theorem msi_output_fb_query_witness:
  "msi_output_fb 1 (\<lambda>_ _ _ _ _ _. None) 100 NULL pipe_mst = Some (-1, pipe_mst) \<and> (-1 :: int) \<noteq> - (2 ^ 31)"
  by (rule msi_output_fb_query [where x = "(sample_msi 5 1)\<lparr>output_list := [200, 0, 0, 0]\<rparr>" and out = 200
        and y = "(sample_msi 1 1)\<lparr>m_fbQ := 201\<rparr>"])
     (simp_all add: pipe_mst_def sample_defs)

text \<open>a pool hands out its first unused buffer, for the component asking, with one user and one more
  reference on the component, and takes it back with \<open>fbpool_put\<close>: the buffer is free again and no
  other buffer has changed. A full pool answers NULL.\<close>

theorem fbpool_get_put:
  assumes "p = Some pool" and "p_inited pool" and "length (p_pool pool) = unat (p_size pool)"
    and "NULL \<notin> set (p_pool pool)" and "i < length (p_pool pool)"
    and "\<forall>j < i. \<exists>y. fbs s (p_pool pool ! j) = Some y \<and> f_used y"
    and "fbs s (p_pool pool ! i) = Some x" and "\<not> f_used x" and "f_pool x" and "unat (f_index x) = i"
    and "f_users x = 0" and "msi \<noteq> NULL" and "msis s msi = Some y"
  shows "\<exists>s1 s2 x1 x2. fbpool_get p type msi s = Some (p_pool pool ! i, s1) \<and>
    fbs s1 = (fbs s)(p_pool pool ! i \<mapsto> x1) \<and> f_used x1 \<and> f_users x1 = 1 \<and> f_msi x1 = msi \<and>
    f_mtype x1 = ucast (drop_bit 8 type) \<and> f_stype x1 = ucast type \<and>
    msis s1 = (msis s)(msi \<mapsto> y\<lparr>m_users := m_users y + 1\<rparr>) \<and>
    fbpool_put p (p_pool pool ! i) s1 = Some (RET_OK, s2) \<and>
    fbs s2 = (fbs s)(p_pool pool ! i \<mapsto> x2) \<and> \<not> f_used x2 \<and> f_users x2 = 0 \<and> f_msi x2 = NULL"
proof -
  let ?c = "p_pool pool" and ?p = "p_pool pool ! i"
  have nz: "?p \<noteq> NULL" using assms(4,5) by (metis nth_mem)
  have split: "[0..<unat (p_size pool)] = [0..<i] @ (i # [Suc i..<unat (p_size pool)])"
    using assms(3,5) upt_add_eq_append [of 0 i "unat (p_size pool) - i"] by (simp add: upt_conv_Cons)
  define x1 where "x1 = x\<lparr>f_mtype := ucast (drop_bit 8 type AND 0xff), f_stype := ucast (type AND 0xff),
      f_msi := msi, f_used := True, f_next := NULL, f_users := 1\<rparr>"
  define s1 where "s1 = s\<lparr>fbs := (fbs s)(?p \<mapsto> x1), msis := (msis s)(msi \<mapsto> y\<lparr>m_users := m_users y + 1\<rparr>)\<rparr>"
  have "pool_get_loop ?c type msi [0..<unat (p_size pool)] s
      = pool_get_loop ?c type msi (i # [Suc i..<unat (p_size pool)]) s"
    unfolding split using assms(3-6) by (intro pool_get_loop_skip) auto
  also have "\<dots> = Some (?p, s1)"
    using assms(5,7,8,11-13) nz
    by (simp add: mem_rd_def store msi_get_def atomic_inc_def s1_def x1_def)
  finally have get: "fbpool_get p type msi s = Some (?p, s1)"
    using assms(1,2) by (simp add: fbpool_get_def)
  define x2 where "x2 = x1\<lparr>f_used := False, f_msi := NULL, f_next := NULL, f_users := 0\<rparr>"
  have idx: "f_index x < p_size pool" using assms(3,5,10) by (simp add: word_less_nat_alt)
  have put: "fbpool_put p ?p s1 = Some (RET_OK, s1\<lparr>fbs := (fbs s)(?p \<mapsto> x2)\<rparr>)"
    using assms(1,2,5,9,10) nz idx
    by (simp add: fbpool_put_def store s1_def x1_def x2_def mem_rd_def)
  have ff: "(0xff :: u16) = mask 8" by (simp add: mask_eq_exp_minus_1)
  have m: "ucast (drop_bit 8 type AND 0xff) = (ucast (drop_bit 8 type) :: u8)"
    "ucast (type AND 0xff) = (ucast type :: u8)"
    unfolding ff by (rule bit_word_eqI, auto simp: bit_simps)+
  show ?thesis
    using get put by (intro exI [of _ s1] exI [of _ "s1\<lparr>fbs := (fbs s)(?p \<mapsto> x2)\<rparr>"] exI [of _ x1] exI [of _ x2])
      (simp add: s1_def x1_def x2_def m)
qed

definition pool_mst :: mst where
  "pool_mst = (sample_mst 1)\<lparr>fbs := [20 \<mapsto> zero_framebuff\<lparr>f_pool := True, f_used := True, f_users := 1\<rparr>,
     21 \<mapsto> zero_framebuff\<lparr>f_pool := True, f_index := 1\<rparr>]\<rparr>"

theorem fbpool_get_put_witness:
  "\<exists>s1 s2 x1 x2. fbpool_get (Some \<lparr>p_size = 2, p_inited = True, p_pool = [20, 21]\<rparr>) 0x0102 100 pool_mst
      = Some ([20, 21] ! 1, s1) \<and>
    fbs s1 = (fbs pool_mst)([20, 21] ! 1 \<mapsto> x1) \<and> f_used x1 \<and> f_users x1 = 1 \<and> f_msi x1 = 100 \<and>
    f_mtype x1 = ucast (drop_bit 8 (0x0102 :: u16)) \<and> f_stype x1 = ucast (0x0102 :: u16) \<and>
    msis s1 = (msis pool_mst)(100 \<mapsto> (sample_msi 5 1)\<lparr>m_users := m_users (sample_msi 5 1) + 1\<rparr>) \<and>
    fbpool_put (Some \<lparr>p_size = 2, p_inited = True, p_pool = [20, 21]\<rparr>) ([20, 21] ! 1) s1 = Some (RET_OK, s2) \<and>
    fbs s2 = (fbs pool_mst)([20, 21] ! 1 \<mapsto> x2) \<and> \<not> f_used x2 \<and> f_users x2 = 0 \<and> f_msi x2 = NULL"
  by (rule fbpool_get_put [OF refl,
        where pool = "\<lparr>p_size = 2, p_inited = True, p_pool = [20, 21]\<rparr>" and i = 1
        and x = "zero_framebuff\<lparr>f_pool := True, f_index := 1\<rparr>", simplified fbpool.simps])
     (simp_all add: pool_mst_def sample_defs)

end
