(* ===== verification/KeyScan.thy ===== *)
theory KeyScan
  imports Prelude
begin

unbundle bit_operations_syntax

text \<open>
  The key scanner of \<open>sdk/lib/key\<close>: the ADC key table of \<open>adkey.c\<close> and \<open>power_checkkey.c\<close>,
  the debouncing state machine \<open>g_key_scan\<close> of \<open>keyScan.c\<close>, its timer callback and its
  initialisation. A key channel keeps the key of the last scan, the tick of the last change and
  the last event it sent; every 5 ticks the timer scans it and at most one message
  (key code in bits 8 and up, event below) is sent.

  Inputs of a scan are the hardware's: what the ADC reads (an argument of the scan functions)
  and the two readings of \<open>os_jiffies\<close> a scan can make, \<open>t1\<close> where it compares, \<open>t2\<close> where it
  stores. The subtraction of the 32-bit \<open>last_time\<close> from the 64-bit tick counter is kept as it is.
\<close>

section \<open>Channels and events\<close>

abbreviation KEY_EVENT_DOWN :: u32 where "KEY_EVENT_DOWN \<equiv> 0"
abbreviation KEY_EVENT_SUP :: u32 where "KEY_EVENT_SUP \<equiv> 1"
abbreviation KEY_EVENT_LDOWN :: u32 where "KEY_EVENT_LDOWN \<equiv> 2"
abbreviation KEY_EVENT_LUP :: u32 where "KEY_EVENT_LUP \<equiv> 3"
abbreviation KEY_EVENT_REPEAT :: u32 where "KEY_EVENT_REPEAT \<equiv> 4"
abbreviation KEY_EVENT_MAX :: u32 where "KEY_EVENT_MAX \<equiv> 5"

abbreviation KEY_NONE :: u8 where "KEY_NONE \<equiv> 0"
abbreviation AD_UP :: u8 where "AD_UP \<equiv> 1"
abbreviation AD_DOWN :: u8 where "AD_DOWN \<equiv> 2"
abbreviation AD_LEFT :: u8 where "AD_LEFT \<equiv> 3"
abbreviation AD_RIGHT :: u8 where "AD_RIGHT \<equiv> 4"
abbreviation AD_PRESS :: u8 where "AD_PRESS \<equiv> 5"
abbreviation AD_SPEACH :: u8 where "AD_SPEACH \<equiv> 9"
abbreviation LOWPOWER_CHECK :: u8 where "LOWPOWER_CHECK \<equiv> 16"

record keys_t =
  period_long :: u32
  period_repeat :: u32
  period_dither :: u32

text \<open>The table is a list of ADC thresholds with their key; \<open>key_send\<close> says whether a sender is set.\<close>

record key_channel =
  key_table :: "(int \<times> u8) list"
  key_arg :: keys_t
  key_send :: bool
  last_key :: u32
  last_time :: u32
  last_event :: u32
  extern_value :: u32
  enable :: u8

text \<open>The function pointers of a channel; \<open>'e\<close> is what the hardware shows at the scan.\<close>

record 'e key_fns =
  init_fn :: "(key_channel \<Rightarrow> key_channel) option"
  prepare_fn :: "('e \<Rightarrow> key_channel \<Rightarrow> key_channel) option"
  scan_fn :: "('e \<Rightarrow> key_channel \<Rightarrow> (u8 \<times> key_channel) option) option"

section \<open>The ADC key table\<close>

text \<open>
  The walk compares the unsigned reading with the signed threshold, which C converts to
  unsigned; it stops one entry back, and both the entry tested and the entry answered are
  read from the table.
\<close>

function key_walk :: "(int \<times> u8) list \<Rightarrow> u32 \<Rightarrow> nat \<Rightarrow> u8 option" where
  "key_walk tab vol i =
     (case mem_rd tab i of None \<Rightarrow> None
      | Some (adc, _) \<Rightarrow>
          if vol \<ge> word_of_int adc then key_walk tab vol (i + 1)
          else if i = 0 then None else map_option snd (mem_rd tab (i - 1)))"
  by pat_completeness auto
termination
  by (relation "measure (\<lambda>(tab, _, i). length tab - i)") (auto simp: mem_rd_def split: if_splits)

declare key_walk.simps [simp del]

definition key_adkey_scan :: "u32 \<Rightarrow> key_channel \<Rightarrow> (u8 \<times> key_channel) option" where
  "key_adkey_scan vol ch = do {
     key \<leftarrow> key_walk (key_table ch) vol 0;
     Some (key, ch\<lparr>extern_value := vol\<rparr>) }"

definition key_powerkey_scan :: "u32 \<Rightarrow> key_channel \<Rightarrow> (u8 \<times> key_channel) option" where
  "key_powerkey_scan vol ch = do {
     key \<leftarrow> key_walk (key_table ch) vol 0;
     Some (key, ch\<lparr>extern_value := vol\<rparr>) }"

text \<open>Both initialisers open the ADC channel and enable the key channel.\<close>

definition key_adkey_init :: "key_channel \<Rightarrow> key_channel" where
  "key_adkey_init ch = ch\<lparr>enable := 1\<rparr>"

definition key_powerkey_init :: "key_channel \<Rightarrow> key_channel" where
  "key_powerkey_init ch = ch\<lparr>enable := 1\<rparr>"

definition adkey_table :: "(int \<times> u8) list" where
  "adkey_table = [(0, AD_LEFT), (350, AD_DOWN), (800, AD_UP), (1200, AD_RIGHT), (1700, AD_PRESS),
     (2000, KEY_NONE), (3200, KEY_NONE), (3800, KEY_NONE), (4000, KEY_NONE), (4096, KEY_NONE)]"

definition adkey_table_walkie :: "(int \<times> u8) list" where
  "adkey_table_walkie = [(0, AD_DOWN), (200, AD_DOWN), (635, AD_SPEACH), (1275, AD_UP),
     (1620, AD_RIGHT), (2047, KEY_NONE), (3200, KEY_NONE), (3800, KEY_NONE), (4000, KEY_NONE),
     (4096, KEY_NONE)]"

definition powerkey_table :: "(int \<times> u8) list" where
  "powerkey_table = [(0, LOWPOWER_CHECK), (400, KEY_NONE), (4096, KEY_NONE)]"

definition adkey_arg :: keys_t where
  "adkey_arg = \<lparr>period_long = 500, period_repeat = 1000, period_dither = 80\<rparr>"

definition powerkey_arg :: keys_t where
  "powerkey_arg = \<lparr>period_long = 500, period_repeat = 1000, period_dither = 80\<rparr>"

definition key_channel_zero :: "(int \<times> u8) list \<Rightarrow> keys_t \<Rightarrow> key_channel" where
  "key_channel_zero tab arg = \<lparr>key_table = tab, key_arg = arg, key_send = False,
     last_key = 0, last_time = 0, last_event = 0, extern_value = 0, enable = 0\<rparr>"

definition adkey_key :: "u32 key_fns \<times> key_channel" where
  "adkey_key = (\<lparr>init_fn = Some key_adkey_init, prepare_fn = None, scan_fn = Some key_adkey_scan\<rparr>,
     key_channel_zero adkey_table adkey_arg)"

definition powercheck_key :: "u32 key_fns \<times> key_channel" where
  "powercheck_key = (\<lparr>init_fn = Some key_powerkey_init, prepare_fn = None,
     scan_fn = Some key_powerkey_scan\<rparr>, key_channel_zero powerkey_table powerkey_arg)"

section \<open>The debouncing state machine\<close>

definition elapsed :: "u64 \<Rightarrow> key_channel \<Rightarrow> u32 \<Rightarrow> bool" where
  "elapsed t1 ch period \<longleftrightarrow> t1 - ucast (last_time ch) > ucast period"

text \<open>The key is up: release events. Each piece answers the channel, the event and the key code.\<close>

definition key_up :: "u8 \<Rightarrow> key_channel \<Rightarrow> key_channel \<times> u32 \<times> u8" where
  "key_up key ch =
     (if last_key ch = 0 then (ch, KEY_EVENT_MAX, 5)
      else let (ch', ev, code) =
        (if last_event ch = KEY_EVENT_MAX then (ch, KEY_EVENT_MAX, 5)
         else if last_event ch = KEY_EVENT_LDOWN \<or> last_event ch = KEY_EVENT_REPEAT
           then (ch\<lparr>last_event := KEY_EVENT_MAX\<rparr>, KEY_EVENT_LUP, ucast (last_key ch))
         else if last_event ch = KEY_EVENT_DOWN
           then (ch\<lparr>last_event := KEY_EVENT_MAX\<rparr>, KEY_EVENT_SUP, ucast (last_key ch))
         else (ch, KEY_EVENT_MAX, 5))
      in (ch'\<lparr>last_key := ucast key\<rparr>, ev, code))"

text \<open>The same key as at the last scan: debouncing done, long press, repeat.\<close>

definition key_same :: "u64 \<Rightarrow> u64 \<Rightarrow> key_channel \<Rightarrow> key_channel \<times> u32 \<times> u8" where
  "key_same t1 t2 ch =
     (if last_event ch = KEY_EVENT_MAX then
        if elapsed t1 ch (period_dither (key_arg ch))
        then (ch\<lparr>last_event := KEY_EVENT_DOWN, last_time := ucast t2\<rparr>, KEY_EVENT_DOWN, ucast (last_key ch))
        else (ch, KEY_EVENT_MAX, 5)
      else if last_event ch = KEY_EVENT_DOWN then
        if elapsed t1 ch (period_long (key_arg ch))
        then (ch\<lparr>last_event := KEY_EVENT_LDOWN, last_time := ucast t2\<rparr>, KEY_EVENT_LDOWN, ucast (last_key ch))
        else (ch, KEY_EVENT_MAX, 5)
      else if last_event ch = KEY_EVENT_LDOWN \<or> last_event ch = KEY_EVENT_REPEAT then
        if elapsed t1 ch (period_repeat (key_arg ch))
        then (ch\<lparr>last_event := KEY_EVENT_REPEAT, last_time := ucast t2\<rparr>, KEY_EVENT_REPEAT, ucast (last_key ch))
        else (ch, KEY_EVENT_MAX, 5)
      else (ch, KEY_EVENT_MAX, 5))"

text \<open>Another key than at the last scan.\<close>

definition key_changed :: "u64 \<Rightarrow> u8 \<Rightarrow> key_channel \<Rightarrow> key_channel \<times> u32 \<times> u8" where
  "key_changed t2 key ch =
     (if last_event ch = KEY_EVENT_MAX
      then (ch\<lparr>last_time := ucast t2, last_key := ucast key\<rparr>, KEY_EVENT_MAX, 5)
      else let (ch', ev, code) =
        (if last_event ch = KEY_EVENT_LDOWN \<or> last_event ch = KEY_EVENT_REPEAT
           then (ch\<lparr>last_event := KEY_EVENT_MAX\<rparr>, KEY_EVENT_LUP, ucast (last_key ch))
         else if last_event ch = KEY_EVENT_DOWN
           then (ch\<lparr>last_event := KEY_EVENT_MAX, last_time := ucast t2\<rparr>, KEY_EVENT_SUP, ucast (last_key ch))
         else (ch, KEY_EVENT_MAX, 5))
      in (ch'\<lparr>last_key := 0\<rparr>, ev, code))"

definition key_judge :: "u64 \<Rightarrow> u64 \<Rightarrow> u8 \<Rightarrow> key_channel \<Rightarrow> key_channel \<times> u32 \<times> u8" where
  "key_judge t1 t2 key ch =
     (if key = 0 then key_up key ch
      else let (ch1, ev, code) =
        (if ucast key = last_key ch then key_same t1 t2 ch else (ch, KEY_EVENT_MAX, 5))
      in if last_key ch1 = 0 then (ch1\<lparr>last_time := ucast t2, last_key := ucast key\<rparr>, ev, code)
         else if last_key ch1 \<noteq> ucast key then key_changed t2 key ch1
         else (ch1, ev, code))"

definition key_msg :: "u8 \<Rightarrow> u32 \<Rightarrow> u32" where
  "key_msg code ev = push_bit 8 (ucast code) OR ev"

definition g_key_scan ::
  "('e \<Rightarrow> key_channel \<Rightarrow> (u8 \<times> key_channel) option) \<Rightarrow> 'e \<Rightarrow> u64 \<Rightarrow> u64 \<Rightarrow> key_channel
   \<Rightarrow> (key_channel \<times> (u32 \<times> u32) option) option" where
  "g_key_scan scan e t1 t2 ch = do {
     (key, ch) \<leftarrow> scan e ch;
     let (ch', ev, code) = key_judge t1 t2 key ch;
     Some (ch',
       if ev \<noteq> KEY_EVENT_MAX then
         let map_msg = key_msg code ev
         in if map_msg \<noteq> 0 \<and> key_send ch' then Some (map_msg, extern_value ch') else None
       else None) }"

text \<open>The timer: every enabled channel with a scan function is scanned, in order.\<close>

fun key_auto_timer_cb ::
  "(('e key_fns \<times> key_channel) \<times> 'e \<times> u64 \<times> u64) list
   \<Rightarrow> (('e key_fns \<times> key_channel) list \<times> (u32 \<times> u32) list) option" where
  "key_auto_timer_cb [] = Some ([], [])"
| "key_auto_timer_cb (((f, ch), e, t1, t2) # rest) =
     (if enable ch = 0 then do {
        (chs, ms) \<leftarrow> key_auto_timer_cb rest;
        Some ((f, ch) # chs, ms) }
      else do {
        let ch = (case prepare_fn f of None \<Rightarrow> ch | Some p \<Rightarrow> p e ch);
        (ch, m) \<leftarrow> (case scan_fn f of None \<Rightarrow> Some (ch, None) | Some s \<Rightarrow> g_key_scan s e t1 t2 ch);
        (chs, ms) \<leftarrow> key_auto_timer_cb rest;
        Some ((f, ch) # chs, (case m of None \<Rightarrow> ms | Some x \<Rightarrow> x # ms)) })"

definition key_button_scan_init :: "u64 \<Rightarrow> bool \<Rightarrow> ('e key_fns \<times> key_channel) list \<Rightarrow> ('e key_fns \<times> key_channel) list" where
  "key_button_scan_init t send channels =
     map (\<lambda>(f, ch).
       let ch = ch\<lparr>last_event := KEY_EVENT_MAX, last_key := KEY_EVENT_MAX, last_time := ucast t, key_send := send\<rparr>
       in (f, case init_fn f of None \<Rightarrow> ch | Some i \<Rightarrow> i ch)) channels"

section \<open>Reading the table\<close>

lemma key_walk_step:
  "i < length tab \<Longrightarrow> key_walk tab vol i =
     (if vol \<ge> word_of_int (fst (tab ! i)) then key_walk tab vol (i + 1)
      else if i = 0 then None else Some (snd (tab ! (i - 1))))"
  by (subst key_walk.simps, cases "tab ! i", cases "tab ! (i - 1)") (auto simp: mem_rd_def)

lemma key_walk_out: "length tab \<le> i \<Longrightarrow> key_walk tab vol i = None"
  by (subst key_walk.simps) (simp add: mem_rd_def)

lemma key_walk_skip:
  assumes "\<forall>j. i \<le> j \<and> j < n \<longrightarrow> word_of_int (fst (tab ! j)) \<le> vol" "i \<le> n" "n \<le> length tab"
  shows "key_walk tab vol i = key_walk tab vol n"
  using assms by (induction "n - i" arbitrary: i) (auto simp: key_walk_step)

lemma key_walk_band:
  assumes "Suc i < length tab" "\<forall>j \<le> i. word_of_int (fst (tab ! j)) \<le> vol"
    and "vol < word_of_int (fst (tab ! Suc i))"
  shows "key_walk tab vol 0 = Some (snd (tab ! i))"
proof -
  have "key_walk tab vol 0 = key_walk tab vol (Suc i)"
    using assms by (intro key_walk_skip) (auto simp: less_Suc_eq_le)
  moreover have "\<not> word_of_int (fst (tab ! Suc i)) \<le> vol" using assms(3) by (simp add: not_le)
  ultimately show ?thesis using assms(1) by (simp add: key_walk_step [of "Suc i"])
qed

lemma key_walk_none:
  assumes "\<forall>j < length tab. word_of_int (fst (tab ! j)) \<le> vol"
  shows "key_walk tab vol 0 = None"
proof -
  have "key_walk tab vol 0 = key_walk tab vol (length tab)"
    using assms by (intro key_walk_skip) auto
  then show ?thesis by (simp add: key_walk_out)
qed

lemma adkey_walk:
  "key_walk adkey_table vol 0 =
     (if vol < 350 then Some AD_LEFT else if vol < 800 then Some AD_DOWN
      else if vol < 1200 then Some AD_UP else if vol < 1700 then Some AD_RIGHT
      else if vol < 2000 then Some AD_PRESS else if vol < 4096 then Some KEY_NONE else None)"
  by (simp add: key_walk_step key_walk_out adkey_table_def not_le word_less_nat_alt word_le_nat_alt)

lemma powerkey_walk:
  "key_walk powerkey_table vol 0 =
     (if vol < 400 then Some LOWPOWER_CHECK else if vol < 4096 then Some KEY_NONE else None)"
  by (simp add: key_walk_step key_walk_out powerkey_table_def not_le word_less_nat_alt word_le_nat_alt)

section \<open>The protocol of events\<close>

text \<open>
  The contract of a channel towards its listeners: a press is DOWN, then either SUP, or LDOWN, any number
  of REPEAT and LUP, all with the key code of the press.
\<close>

datatype key_phase = Idle | Pressed u8 | Held u8

inductive key_trace :: "key_phase \<Rightarrow> u32 list \<Rightarrow> key_phase \<Rightarrow> bool" where
  key_quiet: "key_trace p [] p"
| key_down: "k \<noteq> 0 \<Longrightarrow> key_trace (Pressed k) ms q \<Longrightarrow> key_trace Idle (key_msg k KEY_EVENT_DOWN # ms) q"
| key_sup: "key_trace Idle ms q \<Longrightarrow> key_trace (Pressed k) (key_msg k KEY_EVENT_SUP # ms) q"
| key_ldown: "key_trace (Held k) ms q \<Longrightarrow> key_trace (Pressed k) (key_msg k KEY_EVENT_LDOWN # ms) q"
| key_repeat: "key_trace (Held k) ms q \<Longrightarrow> key_trace (Held k) (key_msg k KEY_EVENT_REPEAT # ms) q"
| key_lup: "key_trace Idle ms q \<Longrightarrow> key_trace (Held k) (key_msg k KEY_EVENT_LUP # ms) q"

inductive_cases key_trace_IdleE: "key_trace Idle ms q"
inductive_simps key_trace_Nil [simp]: "key_trace p [] q"

lemma key_trace_append:
  "key_trace p ms q \<Longrightarrow> key_trace q ns r \<Longrightarrow> key_trace p (ms @ ns) r"
  by (induction rule: key_trace.induct) (auto intro: key_trace.intros)

definition key_phase_of :: "key_channel \<Rightarrow> key_phase" where
  "key_phase_of ch =
     (if last_event ch = KEY_EVENT_MAX then Idle
      else if last_event ch = KEY_EVENT_DOWN then Pressed (ucast (last_key ch))
      else Held (ucast (last_key ch)))"

definition key_inv :: "key_channel \<Rightarrow> bool" where
  "key_inv ch \<longleftrightarrow> last_event ch \<in> {KEY_EVENT_MAX, KEY_EVENT_DOWN, KEY_EVENT_LDOWN, KEY_EVENT_REPEAT}
     \<and> last_key ch \<le> 255 \<and> (last_event ch \<noteq> KEY_EVENT_MAX \<longrightarrow> last_key ch \<noteq> 0)"

lemma ucast_u8_u32_le [simp]: "(ucast (k :: u8) :: u32) \<le> 255"
  using unat_lt_u8 [of k] by (simp add: word_le_nat_alt del: unat_lt_u8)

lemma ucast_u8_u32_0 [simp]: "(ucast (k :: u8) :: u32) = 0 \<longleftrightarrow> k = 0"
  by (simp add: word_unat_eq_iff)

lemma unat_ucast_u32_u8: "unat (ucast (x :: u32) :: u8) = unat x mod 256"
  by (simp add: unsigned_ucast_eq take_bit_eq_mod)

lemma ucast_u32_u8_0: "x \<le> 255 \<Longrightarrow> (ucast (x :: u32) :: u8) = 0 \<longleftrightarrow> x = 0"
  by (simp add: word_unat_eq_iff unat_ucast_u32_u8 word_le_nat_alt)

lemma ucast_u8_roundtrip: "x \<le> 255 \<Longrightarrow> (ucast (ucast (x :: u32) :: u8) :: u32) = x"
  by (simp add: word_unat_eq_iff unat_ucast_u32_u8 word_le_nat_alt)

lemma ucast_u32_u8_back [simp]: "(ucast (ucast (k :: u8) :: u32) :: u8) = k"
  by (simp add: word_unat_eq_iff unat_ucast_u32_u8)

lemma key_msg_nonzero: "k \<noteq> 0 \<Longrightarrow> key_msg k ev \<noteq> 0"
proof -
  assume k: "k \<noteq> 0"
  have "push_bit 8 (ucast k :: u32) \<noteq> 0"
  proof
    assume "push_bit 8 (ucast k :: u32) = 0"
    then have "drop_bit 8 (push_bit 8 (ucast k :: u32)) = 0" by simp
    moreover have "drop_bit 8 (push_bit 8 (ucast k :: u32)) = ucast k"
      by (rule bit_word_eqI) (auto simp: bit_simps dest: bit_imp_le_length)
    ultimately show False using k by simp
  qed
  then show ?thesis by (simp add: key_msg_def or_eq_0_iff)
qed

section \<open>The scanner refines the protocol\<close>

lemmas key_defs = key_up_def key_same_def key_changed_def

lemma key_judge_fields:
  assumes "key_judge t1 t2 key ch = (ch', ev, code)"
  shows "key_send ch' = key_send ch \<and> extern_value ch' = extern_value ch
    \<and> key_arg ch' = key_arg ch \<and> key_table ch' = key_table ch \<and> enable ch' = enable ch"
  using assms by (auto simp: key_judge_def key_defs Let_def split: if_splits prod.splits)

lemma key_judge_inv:
  assumes "key_judge t1 t2 key ch = (ch', ev, code)" "key_inv ch"
  shows "key_inv ch'"
  using assms by (auto simp: key_judge_def key_defs key_inv_def Let_def split: if_splits prod.splits)

lemma key_judge_phase:
  assumes "key_judge t1 t2 key ch = (ch', ev, code)" "key_inv ch"
  shows "key_trace (key_phase_of ch) (if ev \<noteq> KEY_EVENT_MAX then [key_msg code ev] else []) (key_phase_of ch')
    \<and> (ev \<noteq> KEY_EVENT_MAX \<longrightarrow> code \<noteq> 0)"
proof -
  note intros = key_down key_sup key_ldown key_repeat key_lup key_quiet
  show ?thesis using assms
    by (auto simp: key_judge_def key_defs key_inv_def key_phase_of_def ucast_u32_u8_0 Let_def
        split: if_splits intro!: intros)
qed

section \<open>Runs of a channel\<close>

fun key_scans ::
  "('e \<Rightarrow> key_channel \<Rightarrow> (u8 \<times> key_channel) option) \<Rightarrow> ('e \<times> u64 \<times> u64) list \<Rightarrow> key_channel
   \<Rightarrow> (key_channel \<times> u32 list) option" where
  "key_scans scan [] ch = Some (ch, [])"
| "key_scans scan ((e, t1, t2) # obs) ch = do {
     (ch, m) \<leftarrow> g_key_scan scan e t1 t2 ch;
     (ch, ms) \<leftarrow> key_scans scan obs ch;
     Some (ch, (case m of None \<Rightarrow> ms | Some (x, _) \<Rightarrow> x # ms)) }"

text \<open>What the scanner needs of a scan function: on the inputs it supports it answers, and it
  touches nothing but the auxiliary value of the channel.\<close>

locale key_source =
  fixes scan :: "'e \<Rightarrow> key_channel \<Rightarrow> (u8 \<times> key_channel) option"
    and tab :: "(int \<times> u8) list"
    and ok :: "'e \<Rightarrow> bool"
  assumes scan_ok: "ok e \<Longrightarrow> key_table ch = tab \<Longrightarrow> \<exists>k v. scan e ch = Some (k, ch\<lparr>extern_value := v\<rparr>)"
begin

lemma g_key_scan_phase:
  assumes "ok e" "key_table ch = tab" "key_inv ch" "key_send ch"
  shows "\<exists>ch' m. g_key_scan scan e t1 t2 ch = Some (ch', m) \<and> key_inv ch' \<and> key_send ch' \<and> key_table ch' = tab
    \<and> key_trace (key_phase_of ch) (case m of None \<Rightarrow> [] | Some (x, _) \<Rightarrow> [x]) (key_phase_of ch')"
proof -
  obtain k v where s: "scan e ch = Some (k, ch\<lparr>extern_value := v\<rparr>)" using scan_ok assms by blast
  obtain ch' ev code where j: "key_judge t1 t2 k (ch\<lparr>extern_value := v\<rparr>) = (ch', ev, code)"
    by (cases "key_judge t1 t2 k (ch\<lparr>extern_value := v\<rparr>)") auto
  have i: "key_inv (ch\<lparr>extern_value := v\<rparr>)" using assms by (simp add: key_inv_def)
  have p: "key_phase_of (ch\<lparr>extern_value := v\<rparr>) = key_phase_of ch" by (simp add: key_phase_of_def)
  show ?thesis
    using s j key_judge_fields [OF j] key_judge_inv [OF j i] key_judge_phase [OF j i] assms
    by (auto simp: g_key_scan_def p key_msg_nonzero)
qed

lemma key_scans_phase:
  "\<forall>(e, _) \<in> set obs. ok e \<Longrightarrow> key_table ch = tab \<Longrightarrow> key_inv ch \<Longrightarrow> key_send ch \<Longrightarrow>
   \<exists>ch' ms. key_scans scan obs ch = Some (ch', ms) \<and> key_inv ch'
     \<and> key_trace (key_phase_of ch) ms (key_phase_of ch')"
proof (induction obs arbitrary: ch)
  case (Cons a obs)
  obtain e t1 t2 where a: "a = (e, t1, t2)" by (cases a) auto
  have e: "ok e" and obs: "\<forall>(e, _) \<in> set obs. ok e" using Cons.prems a by auto
  obtain ch1 m where g: "g_key_scan scan e t1 t2 ch = Some (ch1, m)" "key_inv ch1" "key_send ch1"
      "key_table ch1 = tab"
      "key_trace (key_phase_of ch) (case m of None \<Rightarrow> [] | Some (x, _) \<Rightarrow> [x]) (key_phase_of ch1)"
    using g_key_scan_phase [OF e Cons.prems(2, 3, 4)] by blast
  obtain ch' ms where r: "key_scans scan obs ch1 = Some (ch', ms)" "key_inv ch'"
      "key_trace (key_phase_of ch1) ms (key_phase_of ch')"
    using Cons.IH [OF obs g(4, 2, 3)] by blast
  show ?case using g(1) r key_trace_append [OF g(5) r(3)]
    by (auto simp: a split: option.splits prod.splits)
qed (auto intro: key_quiet)

end

lemma key_adkey_scan_ok:
  assumes "vol < 4096" "key_table ch = adkey_table"
  shows "\<exists>k. key_adkey_scan vol ch = Some (k, ch\<lparr>extern_value := vol\<rparr>)"
  using assms by (simp add: key_adkey_scan_def adkey_walk)

lemma key_powerkey_scan_ok:
  assumes "vol < 4096" "key_table ch = powerkey_table"
  shows "\<exists>k. key_powerkey_scan vol ch = Some (k, ch\<lparr>extern_value := vol\<rparr>)"
  using assms by (simp add: key_powerkey_scan_def powerkey_walk)

interpretation adkey: key_source key_adkey_scan adkey_table "\<lambda>vol. vol < 4096"
  using key_adkey_scan_ok by unfold_locales blast

interpretation powerkey: key_source key_powerkey_scan powerkey_table "\<lambda>vol. vol < 4096"
  using key_powerkey_scan_ok by unfold_locales blast

section \<open>Debouncing\<close>

text \<open>The keys a channel has read, with the ticks of the scans, folded through the state machine.\<close>

definition key_judges :: "(u64 \<times> u64 \<times> u8) list \<Rightarrow> key_channel \<Rightarrow> key_channel" where
  "key_judges = fold (\<lambda>(t1, t2, k) ch. fst (key_judge t1 t2 k ch))"

text \<open>While a key waits for its debouncing, \<open>last_time\<close> is the tick of the scan that first read it and
  every scan since then has read it.\<close>

definition key_waits :: "(u64 \<times> u64 \<times> u8) list \<Rightarrow> key_channel \<Rightarrow> bool" where
  "key_waits hist ch \<longleftrightarrow> (last_event ch = KEY_EVENT_MAX \<and> last_key ch \<noteq> 0 \<longrightarrow>
     (\<exists>pre s1 s2 k mid. hist = pre @ (s1, s2, k) # mid \<and> (\<forall>(_, _, j) \<in> set mid. j = k)
        \<and> last_key ch = ucast k \<and> last_time ch = ucast s2))"

lemma key_waits_now:
  assumes "last_event ch' = KEY_EVENT_MAX \<and> last_key ch' \<noteq> 0 \<longrightarrow>
    last_key ch' = ucast k \<and> last_time ch' = ucast t2"
  shows "key_waits (hist @ [(t1, t2, k)]) ch'"
  using assms unfolding key_waits_def by (metis empty_iff list.set(1) split_beta)

lemma key_waits_on:
  assumes "key_waits hist ch" "last_event ch = KEY_EVENT_MAX" "last_key ch = ucast k" "k \<noteq> 0"
    and "last_key ch' = last_key ch" "last_time ch' = last_time ch"
  shows "key_waits (hist @ [(t1, t2, k)]) ch'"
proof -
  obtain pre s1 s2 k' mid where h: "hist = pre @ (s1, s2, k') # mid" "\<forall>(_, _, j) \<in> set mid. j = k'"
      "last_key ch = ucast k'" "last_time ch = ucast s2"
    using assms(1-4) unfolding key_waits_def by force
  have "k' = k" using h(3) assms(3) by (metis ucast_u32_u8_back)
  then have "hist @ [(t1, t2, k)] = pre @ (s1, s2, k) # (mid @ [(t1, t2, k)])"
    "\<forall>(_, _, j) \<in> set (mid @ [(t1, t2, k)]). j = k" using h by auto
  then show ?thesis unfolding key_waits_def using h(3, 4) assms(5, 6) \<open>k' = k\<close> by metis
qed

lemma key_judge_waits:
  assumes "key_waits hist ch" "key_inv ch"
  shows "key_waits (hist @ [(t1, t2, k)]) (fst (key_judge t1 t2 k ch))"
proof (cases "k \<noteq> 0 \<and> last_event ch = KEY_EVENT_MAX \<and> last_key ch = ucast k")
  case True
  show ?thesis
  proof (cases "elapsed t1 ch (period_dither (key_arg ch))")
    case True
    then show ?thesis using \<open>k \<noteq> 0 \<and> _\<close>
      by (auto simp: key_judge_def key_defs Let_def intro!: key_waits_now)
  next
    case False
    then show ?thesis using True assms(1)
      by (auto simp: key_judge_def key_defs Let_def intro!: key_waits_on [of hist ch])
  qed
next
  case False
  then show ?thesis using assms(2)
    by (intro key_waits_now) (auto simp: key_judge_def key_defs key_inv_def Let_def split: if_splits)
qed

lemma key_judges_waits:
  assumes "key_inv ch" "last_key ch = 0"
  shows "key_inv (key_judges obs ch) \<and> key_waits obs (key_judges obs ch)
    \<and> key_arg (key_judges obs ch) = key_arg ch"
proof (induction obs rule: rev_induct)
  case Nil
  then show ?case using assms by (simp add: key_judges_def key_waits_def)
next
  case (snoc ob obs)
  obtain t1 t2 k where ob: "ob = (t1, t2, k)" by (cases ob) auto
  let ?ch = "key_judges obs ch"
  obtain ch' ev c where j: "key_judge t1 t2 k ?ch = (ch', ev, c)" by (cases "key_judge t1 t2 k ?ch") auto
  have "key_judges (obs @ [ob]) ch = ch'" using j by (simp add: key_judges_def ob)
  then show ?case using key_judge_waits [of obs ?ch t1 t2 k] key_judge_inv [OF j] key_judge_fields [OF j] snoc j
    by (simp add: ob)
qed

lemma key_judge_down:
  assumes "key_judge t1 t2 k ch = (ch', KEY_EVENT_DOWN, c)"
  shows "k \<noteq> 0 \<and> ucast k = last_key ch \<and> last_event ch = KEY_EVENT_MAX
    \<and> elapsed t1 ch (period_dither (key_arg ch)) \<and> c = k"
  using assms by (auto simp: key_judge_def key_defs Let_def split: if_splits prod.splits)
    (metis ucast_u32_u8_back)

lemma unat_ucast_u64_u32_u64: "unat (ucast (ucast (s :: u64) :: u32) :: u64) = unat s mod 4294967296"
proof -
  have "unat (ucast s :: u32) = unat s mod 4294967296"
    by (simp add: unsigned_ucast_eq take_bit_eq_mod)
  moreover have "unat (ucast x :: u64) = unat x" for x :: u32
  proof -
    have "unat x < 2 ^ 64" by (rule less_trans [OF unat_lt_u32]) simp
    then show ?thesis by (simp add: unsigned_ucast_eq take_bit_nat_eq_self)
  qed
  ultimately show ?thesis by simp
qed

section \<open>Properties\<close>

definition adkey_booted :: "u64 \<Rightarrow> key_channel" where
  "adkey_booted t = snd (hd (key_button_scan_init t True [adkey_key]))"

lemma adkey_booted_ok:
  "key_table (adkey_booted t) = adkey_table \<and> key_inv (adkey_booted t) \<and> key_send (adkey_booted t)
   \<and> key_phase_of (adkey_booted t) = Idle"
  by (simp add: adkey_booted_def key_button_scan_init_def adkey_key_def key_adkey_init_def
      key_channel_zero_def key_inv_def key_phase_of_def word_le_nat_alt)

text \<open>C9: From start-up on, whatever voltages below 4096 the ADC reads at whatever ticks, the ADC key
  channel keeps returning (the walk over the key table stays inside it), and the messages it
  sends follow the protocol of a press: DOWN, then SUP, or LDOWN, any number of REPEAT and LUP,
  with the key code of the press.\<close>

theorem adkey_event_protocol:
  assumes "\<forall>(vol, t1, t2) \<in> set obs. vol < 4096"
  shows "\<exists>ch ms. key_scans key_adkey_scan obs (adkey_booted t) = Some (ch, ms)
    \<and> key_trace Idle ms (key_phase_of ch)"
proof -
  have "\<forall>(vol, _) \<in> set obs. vol < 4096" using assms by auto
  then show ?thesis using adkey.key_scans_phase [of obs "adkey_booted t"] adkey_booted_ok [of t] by auto
qed

theorem adkey_event_protocol_witness:
  "\<exists>ch ms. key_scans key_adkey_scan
      [(400, 5, 5), (400, 10, 10), (400, 91, 91), (400, 600, 600), (3000, 700, 700)] (adkey_booted 0) = Some (ch, ms)
    \<and> key_trace Idle ms (key_phase_of ch)"
  by (rule adkey_event_protocol) (simp add: word_less_nat_alt)



text \<open>Once the tick counter has passed 2 ^ 32 (49.7 days at 1000 ticks a second) the 32-bit copy of the
  tick makes every comparison succeed: a key is reported as pressed, as held and as repeated
  in three consecutive scans of one and the same tick, whatever the configured periods.\<close>

theorem key_periods_lost:
  assumes "2 ^ 32 \<le> unat t" "k \<noteq> 0" "last_key ch = 0" "last_event ch = KEY_EVENT_MAX"
  shows "\<exists>ch1 ch2 ch3 ch4. key_judge t t k ch = (ch1, KEY_EVENT_MAX, 5)
    \<and> key_judge t t k ch1 = (ch2, KEY_EVENT_DOWN, k)
    \<and> key_judge t t k ch2 = (ch3, KEY_EVENT_LDOWN, k)
    \<and> key_judge t t k ch3 = (ch4, KEY_EVENT_REPEAT, k)"
proof -
  have e: "ucast (p :: u32) < t - ucast (ucast t :: u32)" for p
  proof -
    have m: "unat t mod 4294967296 \<le> unat t" by simp
    have "unat t div 4294967296 \<ge> 1" using assms(1) by simp
    moreover have "unat t div 4294967296 * 4294967296 + unat t mod 4294967296 = unat t"
      by (rule div_mult_mod_eq)
    ultimately have "4294967296 \<le> unat t - unat t mod 4294967296" by linarith
    moreover have "unat (ucast p :: u64) < 4294967296"
      by (simp add: unsigned_ucast_eq take_bit_nat_eq_self less_trans [OF unat_lt_u32])
    moreover have "unat (t - ucast (ucast t :: u32)) = unat t - unat t mod 4294967296"
      using m by (subst unat_sub_small) (simp_all add: unat_ucast_u64_u32_u64)
    ultimately show ?thesis by (simp only: word_less_nat_alt)
  qed
  show ?thesis using assms(2-4) e by (simp add: key_judge_def key_defs elapsed_def)
qed

theorem key_periods_lost_witness:
  "\<exists>ch1 ch2 ch3 ch4. key_judge 4294967296 4294967296 3
        (key_channel_zero adkey_table adkey_arg\<lparr>last_event := KEY_EVENT_MAX\<rparr>) = (ch1, KEY_EVENT_MAX, 5)
    \<and> key_judge 4294967296 4294967296 3 ch1 = (ch2, KEY_EVENT_DOWN, 3)
    \<and> key_judge 4294967296 4294967296 3 ch2 = (ch3, KEY_EVENT_LDOWN, 3)
    \<and> key_judge 4294967296 4294967296 3 ch3 = (ch4, KEY_EVENT_REPEAT, 3)"
  by (rule key_periods_lost) (simp_all add: key_channel_zero_def)

text \<open>The ADC key of a voltage is the one of the band of the table it falls in, for any table whose
  thresholds up to this band are at most the voltage and whose next one is above it.\<close>

theorem key_adkey_scan_band:
  assumes "Suc i < length (key_table ch)" "\<forall>j \<le> i. word_of_int (fst (key_table ch ! j)) \<le> vol"
    and "vol < word_of_int (fst (key_table ch ! Suc i))"
  shows "key_adkey_scan vol ch = Some (snd (key_table ch ! i), ch\<lparr>extern_value := vol\<rparr>)"
  using key_walk_band [OF assms] by (simp add: key_adkey_scan_def)

theorem key_adkey_scan_band_witness:
  "key_adkey_scan 900 (key_channel_zero adkey_table_walkie adkey_arg) =
   Some (AD_SPEACH, key_channel_zero adkey_table_walkie adkey_arg\<lparr>extern_value := 900\<rparr>)"
  using key_adkey_scan_band [of "Suc (Suc 0)" "key_channel_zero adkey_table_walkie adkey_arg" 900]
  by (simp add: key_channel_zero_def adkey_table_walkie_def le_Suc_eq all_conj_distrib imp_disjL
      word_le_nat_alt word_less_nat_alt)

end
