(* ===== verification/KeyWork.thy ===== *)
theory KeyWork
  imports KeyScan
begin

text \<open>
  The listeners of the keys, \<open>sdk/lib/key/keyWork.c\<close>: modules register callbacks from any task;
  the work item \<open>key_read_loop\<close> first takes over the additions and removals asked for since its last
  run, then takes one message from the message queue and calls every registered callback with it.

  A list node is a number, the heap maps it to its fields (\<open>None\<close> once freed) and \<open>fresh_node\<close> is the
  next one \<open>os_zalloc\<close> hands out when it does not fail. \<open>heads_init\<close> says whether the two list heads
  have been initialised: before that they hold NULL links, and adding to them writes through NULL.
  The kernel's message queue is the environment: what \<open>csi_kernel_msgq_get\<close> delivers, what
  \<open>csi_kernel_msgq_put\<close> answers and whether \<open>csi_kernel_msgq_new\<close> succeeds are arguments.
\<close>

record key_callback_list_s =
  cb_set :: bool
  cb_priv :: nat
  cb_flag :: u8

record keywork =
  heads_init :: bool
  wait_register_list :: "nat list"
  register_list :: "nat list"
  cb_nodes :: "nat \<Rightarrow> key_callback_list_s option"
  fresh_node :: nat
  key_callback_change :: u8
  msgq_open :: bool

definition keywork_zero :: keywork where
  "keywork_zero = \<lparr>heads_init = False, wait_register_list = [], register_list = [],
     cb_nodes = Map.empty, fresh_node = 0, key_callback_change = 0, msgq_open = False\<rparr>"

definition add_keycallback :: "bool \<Rightarrow> bool \<Rightarrow> nat \<Rightarrow> keywork \<Rightarrow> (nat option \<times> keywork) option" where
  "add_keycallback alloc_ok callback priv st =
     (if \<not> alloc_ok then Some (None, st)
      else do {
        _ \<leftarrow> assert_that (heads_init st);
        let p = fresh_node st;
        Some (Some p, st\<lparr>cb_nodes := (cb_nodes st)(p \<mapsto> \<lparr>cb_set = callback, cb_priv = priv, cb_flag = 0\<rparr>),
          fresh_node := p + 1,
          wait_register_list := wait_register_list st @ [p],
          key_callback_change := 1\<rparr>) })"

definition remove_keycallback :: "nat \<Rightarrow> keywork \<Rightarrow> keywork option" where
  "remove_keycallback p st = do {
     n \<leftarrow> cb_nodes st p;
     Some (st\<lparr>cb_nodes := (cb_nodes st)(p \<mapsto> n\<lparr>cb_flag := 1\<rparr>), key_callback_change := 1\<rparr>) }"

text \<open>The two loops that bring the register list up to date.\<close>

fun take_waiting :: "nat list \<Rightarrow> keywork \<Rightarrow> keywork" where
  "take_waiting [] st = st"
| "take_waiting (p # ps) st = take_waiting ps
     (st\<lparr>wait_register_list := remove1 p (wait_register_list st),
        register_list := register_list st @ [p]\<rparr>)"

fun drop_flagged :: "nat list \<Rightarrow> keywork \<Rightarrow> keywork option" where
  "drop_flagged [] st = Some st"
| "drop_flagged (p # ps) st = do {
     n \<leftarrow> cb_nodes st p;
     if cb_flag n \<noteq> 0
     then drop_flagged ps (st\<lparr>register_list := remove1 p (register_list st),
            cb_nodes := (cb_nodes st)(p := None)\<rparr>)
     else drop_flagged ps st }"

text \<open>A callback is code of its module; what it does to the listeners is to add or remove some.\<close>

datatype cb_op = CbAdd bool bool nat | CbRemove nat

fun run_ops :: "cb_op list \<Rightarrow> keywork \<Rightarrow> keywork option" where
  "run_ops [] st = Some st"
| "run_ops (CbAdd a c v # ops) st = do { (_, st) \<leftarrow> add_keycallback a c v st; run_ops ops st }"
| "run_ops (CbRemove p # ops) st = do { st \<leftarrow> remove_keycallback p st; run_ops ops st }"

text \<open>The call loop walks the register list, which callbacks do not change; it records the calls.\<close>

fun call_listeners ::
  "(nat \<Rightarrow> u32 \<Rightarrow> u32 \<Rightarrow> cb_op list) \<Rightarrow> u32 \<Rightarrow> u32 \<Rightarrow> nat list \<Rightarrow> keywork
   \<Rightarrow> (keywork \<times> (nat \<times> u32 \<times> u32) list) option" where
  "call_listeners cb v x [] st = Some (st, [])"
| "call_listeners cb v x (p # ps) st = do {
     n \<leftarrow> cb_nodes st p;
     if cb_set n then do {
       st \<leftarrow> run_ops (cb p v x) st;
       (st, calls) \<leftarrow> call_listeners cb v x ps st;
       Some (st, (p, v, x) # calls) }
     else call_listeners cb v x ps st }"

definition update_listeners :: "keywork \<Rightarrow> keywork option" where
  "update_listeners st =
     (if key_callback_change st \<noteq> 0 then do {
        let st = take_waiting (wait_register_list st) st;
        st \<leftarrow> drop_flagged (register_list st) st;
        Some (st\<lparr>key_callback_change := 0\<rparr>) }
      else Some st)"

definition key_read_loop ::
  "(nat \<Rightarrow> u32 \<Rightarrow> u32 \<Rightarrow> cb_op list) \<Rightarrow> (u32 \<times> u32) option \<Rightarrow> keywork
   \<Rightarrow> (keywork \<times> (nat \<times> u32 \<times> u32) list) option" where
  "key_read_loop cb got st = do {
     st \<leftarrow> update_listeners st;
     case got of
       None \<Rightarrow> Some (st, [])
     | Some (val, ext) \<Rightarrow> call_listeners cb val ext (register_list st) st }"

definition key_send_msg_func :: "int \<Rightarrow> keywork \<Rightarrow> int" where
  "key_send_msg_func put_ret st = (if msgq_open st then put_ret else RET_ERR)"

definition keyWork_init ::
  "bool \<Rightarrow> u64 \<Rightarrow> (u32 key_fns \<times> key_channel) list \<Rightarrow> keywork
   \<Rightarrow> int \<times> keywork \<times> (u32 key_fns \<times> key_channel) list" where
  "keyWork_init msgq_ok t button_channels st =
     (let st = st\<lparr>heads_init := True, wait_register_list := [], register_list := []\<rparr>
      in if msgq_ok
         then (RET_OK, st\<lparr>msgq_open := True\<rparr>, key_button_scan_init t True button_channels)
         else (RET_ERR, st, button_channels))"

section \<open>The invariant of the listeners\<close>

definition keywork_ok :: "keywork \<Rightarrow> bool" where
  "keywork_ok st \<longleftrightarrow> heads_init st
     \<and> distinct (register_list st @ wait_register_list st)
     \<and> (\<forall>p \<in> set (register_list st @ wait_register_list st). cb_nodes st p \<noteq> None)
     \<and> (\<forall>p. fresh_node st \<le> p \<longrightarrow> cb_nodes st p = None)
     \<and> (key_callback_change st = 0 \<longrightarrow> wait_register_list st = []
          \<and> (\<forall>p n. p \<in> set (register_list st) \<and> cb_nodes st p = Some n \<longrightarrow> cb_flag n = 0))"

text \<open>The nodes asked to be removed, and the ones a message reaches.\<close>

definition flagged :: "keywork \<Rightarrow> nat \<Rightarrow> bool" where
  "flagged st p = (case cb_nodes st p of None \<Rightarrow> False | Some n \<Rightarrow> cb_flag n \<noteq> 0)"

definition listens :: "keywork \<Rightarrow> nat \<Rightarrow> bool" where
  "listens st p = (case cb_nodes st p of None \<Rightarrow> False | Some n \<Rightarrow> cb_set n \<and> cb_flag n = 0)"

lemma take_waiting_all:
  "distinct ps \<Longrightarrow> wait_register_list st = ps \<Longrightarrow>
   take_waiting ps st = st\<lparr>wait_register_list := [], register_list := register_list st @ ps\<rparr>"
  by (induction ps arbitrary: st) auto

lemma drop_flagged_all:
  "distinct ps \<Longrightarrow> (\<forall>p \<in> set ps. cb_nodes st p \<noteq> None) \<Longrightarrow> register_list st = qs @ ps \<Longrightarrow>
   set qs \<inter> set ps = {} \<Longrightarrow>
   drop_flagged ps st = Some (st\<lparr>register_list := qs @ filter (\<lambda>p. \<not> flagged st p) ps,
      cb_nodes := (\<lambda>p. if p \<in> set ps \<and> flagged st p then None else cb_nodes st p)\<rparr>)"
proof (induction ps arbitrary: st qs)
  case (Cons p ps)
  obtain n where n: "cb_nodes st p = Some n" using Cons.prems(2) by auto
  have ps: "p \<notin> set ps" "distinct ps" "p \<notin> set qs" using Cons.prems by auto
  show ?case
  proof (cases "cb_flag n = 0")
    case True
    have f: "\<not> flagged st p" using n True by (simp add: flagged_def)
    have "drop_flagged ps st = Some (st\<lparr>register_list := (qs @ [p]) @ filter (\<lambda>p. \<not> flagged st p) ps,
        cb_nodes := (\<lambda>p. if p \<in> set ps \<and> flagged st p then None else cb_nodes st p)\<rparr>)"
      using Cons.prems ps by (intro Cons.IH) auto
    moreover have "(\<lambda>q. if q \<in> set (p # ps) \<and> flagged st q then None else cb_nodes st q)
        = (\<lambda>q. if q \<in> set ps \<and> flagged st q then None else cb_nodes st q)"
      using f by (auto simp: fun_eq_iff)
    ultimately show ?thesis using n True f by simp
  next
    case False
    let ?st = "st\<lparr>register_list := remove1 p (register_list st), cb_nodes := (cb_nodes st)(p := None)\<rparr>"
    have f: "flagged st p" using n False by (simp add: flagged_def)
    have fl: "q \<noteq> p \<Longrightarrow> flagged ?st q = flagged st q" for q by (simp add: flagged_def)
    have "drop_flagged ps ?st = Some (?st\<lparr>register_list := qs @ filter (\<lambda>p. \<not> flagged ?st p) ps,
        cb_nodes := (\<lambda>p. if p \<in> set ps \<and> flagged ?st p then None else cb_nodes ?st p)\<rparr>)"
      using Cons.prems ps by (intro Cons.IH) (auto simp: remove1_append)
    moreover have "filter (\<lambda>p. \<not> flagged ?st p) ps = filter (\<lambda>p. \<not> flagged st p) ps"
      using ps by (intro filter_cong refl) (metis fl)
    moreover have "(\<lambda>q. if q \<in> set ps \<and> flagged ?st q then None else cb_nodes ?st q)
        = (\<lambda>q. if q \<in> set (p # ps) \<and> flagged st q then None else cb_nodes st q)"
      using ps f fl by (auto simp: fun_eq_iff)
    ultimately show ?thesis using n False f by simp
  qed
qed simp

lemma keywork_okD:
  assumes "keywork_ok st"
  shows "heads_init st" "distinct (register_list st @ wait_register_list st)"
    "\<forall>p \<in> set (register_list st @ wait_register_list st). cb_nodes st p \<noteq> None"
    "\<forall>p. fresh_node st \<le> p \<longrightarrow> cb_nodes st p = None"
    "key_callback_change st = 0 \<Longrightarrow> wait_register_list st = []"
    "key_callback_change st = 0 \<Longrightarrow> p \<in> set (register_list st) \<Longrightarrow> \<not> flagged st p"
  using assms by (auto simp: keywork_ok_def flagged_def split: option.splits)

lemma keywork_ok_fresh: "keywork_ok st \<Longrightarrow> fresh_node st \<notin> set (register_list st @ wait_register_list st)"
  using keywork_okD(3, 4) [of st] by (metis order_refl)

lemma add_keycallback_ok:
  assumes "keywork_ok st"
  shows "\<exists>r st'. add_keycallback a c v st = Some (r, st') \<and> keywork_ok st'
    \<and> register_list st' = register_list st
    \<and> (\<forall>p. cb_nodes st p \<noteq> None \<longrightarrow> cb_nodes st' p = cb_nodes st p)
    \<and> (a \<longrightarrow> r = Some (fresh_node st) \<and> wait_register_list st' = wait_register_list st @ [fresh_node st]
         \<and> cb_nodes st' (fresh_node st) = Some \<lparr>cb_set = c, cb_priv = v, cb_flag = 0\<rparr>)"
proof (cases a)
  case True
  have "fresh_node st \<notin> set (register_list st)" "fresh_node st \<notin> set (wait_register_list st)"
    using keywork_ok_fresh [OF assms] by auto
  then show ?thesis using True assms keywork_okD(4) [OF assms]
    by (auto simp: add_keycallback_def Let_def keywork_ok_def)
qed (use assms in \<open>simp add: add_keycallback_def\<close>)

lemma remove_keycallback_ok:
  assumes "keywork_ok st" "cb_nodes st p \<noteq> None"
  shows "\<exists>st'. remove_keycallback p st = Some st' \<and> keywork_ok st' \<and> register_list st' = register_list st
    \<and> wait_register_list st' = wait_register_list st \<and> (\<forall>q. cb_nodes st' q = None \<longleftrightarrow> cb_nodes st q = None)
    \<and> flagged st' p \<and> (\<forall>q. q \<noteq> p \<longrightarrow> cb_nodes st' q = cb_nodes st q)
    \<and> (\<forall>q n. cb_nodes st q = Some n \<longrightarrow> (\<exists>n'. cb_nodes st' q = Some n' \<and> cb_set n' = cb_set n))"
  using assms by (auto simp: remove_keycallback_def keywork_ok_def flagged_def)

lemma update_listeners_ok:
  assumes "keywork_ok st"
  shows "\<exists>st'. update_listeners st = Some st' \<and> keywork_ok st'
    \<and> register_list st' = filter (\<lambda>p. \<not> flagged st p) (register_list st @ wait_register_list st)
    \<and> wait_register_list st' = []
    \<and> cb_nodes st' = (\<lambda>p. if p \<in> set (register_list st @ wait_register_list st) \<and> flagged st p
                          then None else cb_nodes st p)"
proof (cases "key_callback_change st = 0")
  case True
  have "filter (\<lambda>p. \<not> flagged st p) (register_list st) = register_list st"
    using keywork_okD(6) [OF assms True] by (simp add: filter_id_conv)
  moreover have "cb_nodes st = (\<lambda>p. if p \<in> set (register_list st) \<and> flagged st p then None else cb_nodes st p)"
    using keywork_okD(6) [OF assms True] by (intro ext) auto
  ultimately show ?thesis using True assms keywork_okD(5) [OF assms True]
    by (simp add: update_listeners_def)
next
  case False
  let ?all = "register_list st @ wait_register_list st"
  let ?st = "st\<lparr>wait_register_list := [], register_list := ?all\<rparr>"
  have t: "take_waiting (wait_register_list st) st = ?st"
    using keywork_okD(2) [OF assms] by (intro take_waiting_all) auto
  have fl: "flagged ?st = flagged st" by (simp add: flagged_def fun_eq_iff)
  have d: "drop_flagged ?all ?st = Some (?st\<lparr>register_list := filter (\<lambda>p. \<not> flagged st p) ?all,
      cb_nodes := (\<lambda>p. if p \<in> set ?all \<and> flagged st p then None else cb_nodes st p)\<rparr>)"
    using drop_flagged_all [of ?all ?st "[]"] keywork_okD(2, 3) [OF assms]
    by (simp add: fl cong: if_cong)
  have "keywork_ok (?st\<lparr>register_list := filter (\<lambda>p. \<not> flagged st p) ?all,
      cb_nodes := (\<lambda>p. if p \<in> set ?all \<and> flagged st p then None else cb_nodes st p),
      key_callback_change := 0\<rparr>)"
    using keywork_okD(1-4) [OF assms] by (auto simp: keywork_ok_def flagged_def split: option.splits)
  then show ?thesis using False t d by (simp add: update_listeners_def)
qed

section \<open>Calling the listeners\<close>

definition ops_live :: "keywork \<Rightarrow> cb_op list \<Rightarrow> bool" where
  "ops_live st ops \<longleftrightarrow> (\<forall>p. CbRemove p \<in> set ops \<longrightarrow> cb_nodes st p \<noteq> None)"

definition keeps :: "keywork \<Rightarrow> keywork \<Rightarrow> bool" where
  "keeps st st' \<longleftrightarrow> register_list st' = register_list st
     \<and> (\<forall>p n. cb_nodes st p = Some n \<longrightarrow> (\<exists>n'. cb_nodes st' p = Some n' \<and> cb_set n' = cb_set n))"

lemma keeps_refl: "keeps st st" by (simp add: keeps_def)

lemma keeps_trans: "keeps a b \<Longrightarrow> keeps b c \<Longrightarrow> keeps a c"
  unfolding keeps_def by metis

lemma keeps_live: "keeps st st' \<Longrightarrow> ops_live st ops \<Longrightarrow> ops_live st' ops"
  unfolding keeps_def ops_live_def by (metis option.distinct(1) option.exhaust)

lemma run_ops_ok:
  "keywork_ok st \<Longrightarrow> ops_live st ops \<Longrightarrow> \<exists>st'. run_ops ops st = Some st' \<and> keywork_ok st' \<and> keeps st st'"
proof (induction ops arbitrary: st rule: list.induct)
  case (Cons op ops)
  have live: "ops_live st ops" using Cons.prems by (simp add: ops_live_def)
  obtain st1 where st1: "run_ops (op # ops) st = run_ops ops st1" "keywork_ok st1" "keeps st st1"
  proof (cases op)
    case (CbAdd a c v)
    obtain r st1 where "add_keycallback a c v st = Some (r, st1)" "keywork_ok st1"
        "register_list st1 = register_list st" "\<forall>p. cb_nodes st p \<noteq> None \<longrightarrow> cb_nodes st1 p = cb_nodes st p"
      using add_keycallback_ok [OF Cons.prems(1), of a c v] by blast
    with CbAdd that [of st1] show ?thesis by (simp add: keeps_def)
  next
    case (CbRemove p)
    have "cb_nodes st p \<noteq> None" using Cons.prems CbRemove by (simp add: ops_live_def)
    then obtain st1 where "remove_keycallback p st = Some st1" "keywork_ok st1"
        "register_list st1 = register_list st"
        "\<forall>q n. cb_nodes st q = Some n \<longrightarrow> (\<exists>n'. cb_nodes st1 q = Some n' \<and> cb_set n' = cb_set n)"
      using remove_keycallback_ok [OF Cons.prems(1)] by blast
    with CbRemove that [of st1] show ?thesis by (simp add: keeps_def)
  qed
  obtain st' where st': "run_ops ops st1 = Some st'" "keywork_ok st'" "keeps st1 st'"
    using Cons.IH [OF st1(2) keeps_live [OF st1(3) live]] by blast
  then show ?case using st1(1) keeps_trans [OF st1(3) st'(3)] by simp
qed (simp add: keeps_refl)

lemma call_listeners_ok:
  "keywork_ok st \<Longrightarrow> \<forall>p \<in> set ps. cb_nodes st p \<noteq> None \<and> ops_live st (cb p v x) \<Longrightarrow>
   \<exists>st'. call_listeners cb v x ps st =
       Some (st', map (\<lambda>p. (p, v, x)) (filter (\<lambda>p. cb_set (the (cb_nodes st p))) ps))
     \<and> keywork_ok st' \<and> keeps st st'"
proof (induction ps arbitrary: st)
  case (Cons p ps)
  obtain n where n: "cb_nodes st p = Some n" using Cons.prems(2) by auto
  obtain st1 where st1: "(if cb_set n then run_ops (cb p v x) st else Some st) = Some st1"
      "keywork_ok st1" "keeps st st1"
    using run_ops_ok [OF Cons.prems(1), of "cb p v x"] Cons.prems keeps_refl by (cases "cb_set n") auto
  have live: "\<forall>p \<in> set ps. cb_nodes st1 p \<noteq> None \<and> ops_live st1 (cb p v x)"
    using Cons.prems(2) keeps_live [OF st1(3)] st1(3) by (auto simp: keeps_def) (metis option.distinct(1) option.exhaust)
  obtain st' where st': "call_listeners cb v x ps st1 =
       Some (st', map (\<lambda>p. (p, v, x)) (filter (\<lambda>p. cb_set (the (cb_nodes st1 p))) ps))"
      "keywork_ok st'" "keeps st1 st'"
    using Cons.IH [OF st1(2) live] by blast
  have same: "filter (\<lambda>p. cb_set (the (cb_nodes st1 p))) ps = filter (\<lambda>p. cb_set (the (cb_nodes st p))) ps"
    using st1(3) Cons.prems(2) by (intro filter_cong refl) (force simp: keeps_def)
  show ?case
  proof (cases "cb_set n")
    case True
    then show ?thesis using n st1(1) st'(1, 2) keeps_trans [OF st1(3) st'(3)] by (simp add: same)
  next
    case False
    then have "st1 = st" using st1(1) by simp
    then show ?thesis using n st' False by simp
  qed
qed (simp add: keeps_refl)

section \<open>Properties\<close>

text \<open>C28: One run of the work item with a message calls every callback that is registered or waiting to be
  and not asked to be removed exactly once, in the order of registration; those asked to be removed
  are no longer in the list and are not called, whatever the callbacks themselves add or remove
  meanwhile, and the lists stay well formed.\<close>

theorem key_read_loop_calls:
  assumes "keywork_ok st"
    and "\<forall>p q. p \<in> set (register_list st @ wait_register_list st) \<and> CbRemove q \<in> set (cb p v x)
          \<longrightarrow> cb_nodes st q \<noteq> None \<and> \<not> flagged st q"
  shows "\<exists>st'. key_read_loop cb (Some (v, x)) st =
      Some (st', map (\<lambda>p. (p, v, x)) (filter (listens st) (register_list st @ wait_register_list st)))
    \<and> keywork_ok st' \<and> (\<forall>p. flagged st p \<longrightarrow> p \<notin> set (register_list st'))"
proof -
  let ?all = "register_list st @ wait_register_list st"
  obtain st1 where st1: "update_listeners st = Some st1" "keywork_ok st1"
      "register_list st1 = filter (\<lambda>p. \<not> flagged st p) ?all"
      "cb_nodes st1 = (\<lambda>p. if p \<in> set ?all \<and> flagged st p then None else cb_nodes st p)"
    using update_listeners_ok [OF assms(1)] by blast
  have "\<forall>p \<in> set (register_list st1). cb_nodes st1 p \<noteq> None \<and> ops_live st1 (cb p v x)"
  proof
    fix p assume p: "p \<in> set (register_list st1)"
    then have "p \<in> set ?all" using st1(3) by auto
    then have "\<forall>q. CbRemove q \<in> set (cb p v x) \<longrightarrow> cb_nodes st1 q \<noteq> None"
      using assms(2) st1(4) by simp
    then show "cb_nodes st1 p \<noteq> None \<and> ops_live st1 (cb p v x)"
      using p keywork_okD(3) [OF st1(2)] by (simp add: ops_live_def)
  qed
  then obtain st' where st': "call_listeners cb v x (register_list st1) st1 =
       Some (st', map (\<lambda>p. (p, v, x)) (filter (\<lambda>p. cb_set (the (cb_nodes st1 p))) (register_list st1)))"
      "keywork_ok st'" "keeps st1 st'"
    using call_listeners_ok [OF st1(2), of "register_list st1" cb v x] by blast
  have "filter (\<lambda>p. cb_set (the (cb_nodes st1 p))) (register_list st1) = filter (listens st) ?all"
    unfolding st1(3) filter_filter
  proof (intro filter_cong refl)
    fix p assume "p \<in> set ?all"
    then obtain n where "cb_nodes st p = Some n" using keywork_okD(3) [OF assms(1)] by blast
    then show "(\<not> flagged st p \<and> cb_set (the (cb_nodes st1 p))) = listens st p"
      by (auto simp: st1(4) listens_def flagged_def)
  qed
  moreover have "\<forall>p. flagged st p \<longrightarrow> p \<notin> set (register_list st')"
    using st'(3) st1(3) by (simp add: keeps_def)
  ultimately show ?thesis using st1(1) st'(1, 2) by (simp add: key_read_loop_def)
qed

text \<open>Listener 0 removes itself when it is called, listener 1 is asked to be removed, listener 2 waits.\<close>

definition three_listeners :: keywork where
  "three_listeners = \<lparr>heads_init = True, wait_register_list = [2], register_list = [0, 1],
     cb_nodes = [0 \<mapsto> \<lparr>cb_set = True, cb_priv = 7, cb_flag = 0\<rparr>,
                 1 \<mapsto> \<lparr>cb_set = True, cb_priv = 8, cb_flag = 1\<rparr>,
                 2 \<mapsto> \<lparr>cb_set = True, cb_priv = 9, cb_flag = 0\<rparr>],
     fresh_node = 3, key_callback_change = 1, msgq_open = True\<rparr>"

lemma three_listeners_ok: "keywork_ok three_listeners"
  by (simp add: keywork_ok_def three_listeners_def)

theorem key_read_loop_calls_witness:
  "\<exists>st'. key_read_loop (\<lambda>p _ _. if p = 0 then [CbRemove 0] else []) (Some (256, 900)) three_listeners
      = Some (st', map (\<lambda>p. (p, 256, 900)) (filter (listens three_listeners)
          (register_list three_listeners @ wait_register_list three_listeners)))
    \<and> keywork_ok st' \<and> (\<forall>p. flagged three_listeners p \<longrightarrow> p \<notin> set (register_list st'))"
  by (rule key_read_loop_calls [OF three_listeners_ok]) (simp add: three_listeners_def flagged_def)

text \<open>A callback asked to be removed is freed by the next run of the work item, after which asking
  again for its removal touches freed memory.\<close>

theorem remove_keycallback_frees:
  assumes "keywork_ok st" "p \<in> set (register_list st @ wait_register_list st)"
  shows "\<exists>st1 st2. remove_keycallback p st = Some st1 \<and> key_read_loop cb None st1 = Some (st2, [])
    \<and> keywork_ok st2 \<and> p \<notin> set (register_list st2) \<and> remove_keycallback p st2 = None"
proof -
  have "cb_nodes st p \<noteq> None" using keywork_okD(3) [OF assms(1)] assms(2) by blast
  then obtain st1 where st1: "remove_keycallback p st = Some st1" "keywork_ok st1"
      "register_list st1 = register_list st" "wait_register_list st1 = wait_register_list st" "flagged st1 p"
    using remove_keycallback_ok [OF assms(1)] by blast
  obtain st2 where st2: "update_listeners st1 = Some st2" "keywork_ok st2"
      "register_list st2 = filter (\<lambda>p. \<not> flagged st1 p) (register_list st1 @ wait_register_list st1)"
      "cb_nodes st2 = (\<lambda>p. if p \<in> set (register_list st1 @ wait_register_list st1) \<and> flagged st1 p
         then None else cb_nodes st1 p)"
    using update_listeners_ok [OF st1(2)] by blast
  have "cb_nodes st2 p = None" using assms(2) st1(3-5) unfolding st2(4) by simp
  moreover have "p \<notin> set (register_list st2)" using st1(5) unfolding st2(3) by simp
  ultimately show ?thesis using st1(1) st2(1, 2)
    by (simp add: key_read_loop_def remove_keycallback_def)
qed

theorem remove_keycallback_frees_witness:
  "\<exists>st1 st2. remove_keycallback 0 three_listeners = Some st1
    \<and> key_read_loop (\<lambda>_ _ _. []) None st1 = Some (st2, [])
    \<and> keywork_ok st2 \<and> 0 \<notin> set (register_list st2) \<and> remove_keycallback 0 st2 = None"
  by (rule remove_keycallback_frees [OF three_listeners_ok]) (simp add: three_listeners_def)

end
