(* ===== verification/CommonUtil.thy ===== *)
theory CommonUtil
  imports Prelude
begin

unbundle bit_operations_syntax

text \<open>
  Helpers of \<open>sdk/lib/common/common.c\<close>: the bit scans \<open>ffs\<close> and \<open>fls\<close>, the case-insensitive string
  comparisons, scatter lists and the CRC of a long buffer, which the CRC device computes in pieces of at most
  256 KB.

  A C string is the memory object it lies in, a list of bytes with its terminating 0; every
  character read is checked to lie in the object. The CRC device is hardware: its two calls, the
  first one and the one that continues from a CRC, are arguments.
\<close>

section \<open>Bit scans\<close>

definition ffs_step :: "nat \<Rightarrow> u32 \<Rightarrow> u32 \<times> int \<Rightarrow> u32 \<times> int" where
  "ffs_step k m xr = (case xr of (x, r) \<Rightarrow> if x AND m = 0 then (signed_drop_bit k x, r + int k) else (x, r))"

definition ffs :: "u32 \<Rightarrow> int" where
  "ffs x = (if x = 0 then 0
    else snd (ffs_step 1 1 (ffs_step 2 3 (ffs_step 4 15 (ffs_step 8 255 (ffs_step 16 65535 (x, 1)))))))"

definition fls_step :: "nat \<Rightarrow> u32 \<Rightarrow> u32 \<times> int \<Rightarrow> u32 \<times> int" where
  "fls_step k m xr = (case xr of (x, r) \<Rightarrow> if x AND m = 0 then (push_bit k x, r - int k) else (x, r))"

definition fls :: "u32 \<Rightarrow> int" where
  "fls x = (if x = 0 then 0
    else snd (fls_step 1 0x80000000 (fls_step 2 0xc0000000 (fls_step 4 0xf0000000
           (fls_step 8 0xff000000 (fls_step 16 0xffff0000 (x, 32)))))))"

section \<open>Case-insensitive comparison\<close>

text \<open>The test of the code: equal, or 32 apart in either direction, in \<open>int\<close>.\<close>

definition case_eq :: "u8 \<Rightarrow> u8 \<Rightarrow> bool" where
  "case_eq a b \<longleftrightarrow> a = b \<or> uint a + 32 = uint b \<or> uint a - 32 = uint b"

function strncasecmp_loop :: "u8 list \<Rightarrow> nat \<Rightarrow> u8 list \<Rightarrow> nat \<Rightarrow> nat \<Rightarrow> nat \<Rightarrow> nat option" where
  "strncasecmp_loop m1 s1 m2 s2 n i =
     (if i < n then do {
        a \<leftarrow> mem_rd m1 (s1 + i);
        if a = 0 then Some i else do {
          b \<leftarrow> mem_rd m2 (s2 + i);
          if b = 0 then Some i
          else if case_eq a b then strncasecmp_loop m1 s1 m2 s2 n (i + 1) else Some i } }
      else Some i)"
  by pat_completeness auto
termination by (relation "measure (\<lambda>(_, _, _, _, n, i). n - i)") auto

declare strncasecmp_loop.simps [simp del]

definition strncasecmp :: "u8 list \<Rightarrow> nat \<Rightarrow> u8 list \<Rightarrow> nat \<Rightarrow> nat \<Rightarrow> int option" where
  "strncasecmp m1 s1 m2 s2 n = do {
     i \<leftarrow> strncasecmp_loop m1 s1 m2 s2 n 0;
     Some (if i \<noteq> n then 1 else 0) }"

function strcasecmp :: "u8 list \<Rightarrow> nat \<Rightarrow> u8 list \<Rightarrow> nat \<Rightarrow> int option" where
  "strcasecmp m1 s1 m2 s2 =
     (case (mem_rd m1 s1, mem_rd m2 s2) of
        (Some a, Some b) \<Rightarrow>
          if a \<noteq> 0 \<or> b \<noteq> 0 then
            if case_eq a b then strcasecmp m1 (s1 + 1) m2 (s2 + 1) else Some (- 1)
          else Some 0
      | _ \<Rightarrow> None)"
  by pat_completeness auto
termination
  by (relation "measure (\<lambda>(m1, s1, _, _). length m1 - s1)") (auto simp: mem_rd_def split: if_splits)

declare strcasecmp.simps [simp del]

section \<open>Scatter lists\<close>

text \<open>An entry of a scatter list is the contents of its chunk; an address is the entry and the offset in it.\<close>

definition scatter_size :: "u8 list list \<Rightarrow> nat \<Rightarrow> u32 option" where
  "scatter_size data count =
     (if count \<le> length data then Some (sum_list (map (\<lambda>d. word_of_nat (length d)) (take count data))) else None)"

text \<open>The index is a \<open>uint8\<close>: with more than 255 entries it wraps. \<open>fuel\<close> bounds the passes of the loop.\<close>

primrec scatter_loop :: "nat \<Rightarrow> u8 list list \<Rightarrow> nat \<Rightarrow> u8 \<Rightarrow> u32 \<Rightarrow> (nat \<times> nat) option option" where
  "scatter_loop 0 data count i off = None"
| "scatter_loop (Suc fuel) data count i off =
     (if unat i < count then do {
        d \<leftarrow> mem_rd data (unat i);
        if off < word_of_nat (length d) then Some (Some (unat i, unat off))
        else scatter_loop fuel data count (i + 1) (off - word_of_nat (length d)) }
      else Some None)"

definition scatter_offset :: "nat \<Rightarrow> u8 list list \<Rightarrow> nat \<Rightarrow> u32 \<Rightarrow> (nat \<times> nat) option option" where
  "scatter_offset fuel data count off = scatter_loop fuel data count 0 off"

section \<open>The CRC of a buffer\<close>

function hw_crc_loop :: "(u8 list \<Rightarrow> u32 \<Rightarrow> u32) \<Rightarrow> u8 list \<Rightarrow> nat \<Rightarrow> u32 \<Rightarrow> u32 \<times> u8 list" where
  "hw_crc_loop cont data len crc =
     (if len \<ge> 0x40000
      then hw_crc_loop cont (drop 0x40000 data) (len - 0x40000) (cont (take 0x40000 data) crc)
      else (crc, take len data))"
  by pat_completeness auto
termination by (relation "measure (\<lambda>(_, _, len, _). len)") auto

declare hw_crc_loop.simps [simp del]

text \<open>\<open>dev\<close> is the device when there is one; without it the answer is \<open>RET_ERR\<close> as a \<open>uint32\<close>.
  The two variants differ only in a flag of the request.\<close>

definition hw_crc :: "((u8 list \<Rightarrow> u32) \<times> (u8 list \<Rightarrow> u32 \<Rightarrow> u32)) option \<Rightarrow> u8 list \<Rightarrow> u32 option" where
  "hw_crc dev data =
     (case dev of None \<Rightarrow> Some (- 1)
      | Some (first, cont) \<Rightarrow>
          let len = length data
          in if len \<le> 0x40000 then Some (first data)
             else do {
               first_piece \<leftarrow> mem_src data 0 0x40000;
               let (crc, rest) = hw_crc_loop cont (drop 0x40000 data) (len - 0x40000) (first first_piece);
               Some (if rest \<noteq> [] then cont rest crc else crc) })"

section \<open>Lemmas\<close>

text \<open>\<open>low_zeros x n\<close>: the bits below \<open>n\<close> are 0.\<close>

definition low_zeros :: "u32 \<Rightarrow> nat \<Rightarrow> bool" where
  "low_zeros x n \<longleftrightarrow> (\<forall>j < n. \<not> bit x j)"

lemma and_mask_low_zeros:
  "x AND mask k = (0 :: u32) \<longleftrightarrow> low_zeros x k"
proof
  assume h: "x AND mask k = 0"
  have "\<not> bit x j" if "j < k" for j
  proof
    assume "bit x j"
    then have "bit (x AND mask k) j" using that
      by (auto simp: bit_and_iff bit_mask_iff dest: bit_imp_le_length)
    then show False using h by simp
  qed
  then show "low_zeros x k" by (simp add: low_zeros_def)
next
  assume "low_zeros x k"
  then show "x AND mask k = 0"
    by (intro bit_word_eqI) (auto simp: low_zeros_def bit_and_iff bit_mask_iff)
qed

text \<open>A step with width \<open>k\<close> keeps the answer right and halves the window the lowest bit is in.\<close>

definition ffs_inv :: "u32 \<Rightarrow> nat \<Rightarrow> u32 \<times> int \<Rightarrow> bool" where
  "ffs_inv x0 w xr \<longleftrightarrow> (\<exists>d. snd xr = int d + 1 \<and> d + w \<le> 32 \<and> low_zeros x0 d \<and> \<not> low_zeros (fst xr) w
     \<and> (\<forall>j < w. bit (fst xr) j = bit x0 (d + j)))"

lemma ffs_step_inv:
  assumes inv: "ffs_inv x0 w xr" and w: "w = k + k" "0 < k"
  shows "ffs_inv x0 k (ffs_step k (mask k) xr)"
proof -
  obtain x r where xr: "xr = (x, r)" by (cases xr)
  obtain d where d: "r = int d + 1" "d + (k + k) \<le> 32" "low_zeros x0 d" "\<not> low_zeros x (k + k)"
      "\<forall>j < k + k. bit x j = bit x0 (d + j)"
    using inv unfolding w unfolding ffs_inv_def xr by auto
  show ?thesis
  proof (cases "low_zeros x k")
    case False
    then have "ffs_step k (mask k) xr = (x, r)" by (simp add: ffs_step_def xr and_mask_low_zeros)
    then show ?thesis using d False unfolding ffs_inv_def by (intro exI [of _ d]) simp
  next
    case True
    have e: "ffs_step k (mask k) xr = (signed_drop_bit k x, r + int k)"
      using True by (simp add: ffs_step_def xr and_mask_low_zeros)
    have b: "bit (signed_drop_bit k x) j = bit x (k + j)" if "j < k" for j
      using that d(2) by (auto simp: bit_signed_drop_bit_iff)
    have z: "low_zeros x0 (d + k)"
      unfolding low_zeros_def
    proof (intro allI impI)
      fix j assume j: "j < d + k"
      show "\<not> bit x0 j"
      proof (cases "j < d")
        case False
        then have jd: "j - d < k" using j by linarith
        then have "\<not> bit x (j - d)" using True by (simp add: low_zeros_def)
        moreover have "bit x (j - d) = bit x0 (d + (j - d))" using jd d(5) by simp
        ultimately show ?thesis using False by simp
      qed (use d(3) in \<open>simp add: low_zeros_def\<close>)
    qed
    obtain j where j: "j < k + k" "bit x j" using d(4) by (auto simp: low_zeros_def)
    then have "\<not> j < k" using True by (auto simp: low_zeros_def)
    then have "bit (signed_drop_bit k x) (j - k)" using j b [of "j - k"] by simp
    moreover have "j - k < k" using j \<open>\<not> j < k\<close> by linarith
    ultimately have "\<not> low_zeros (signed_drop_bit k x) k" by (auto simp: low_zeros_def)
    then show ?thesis using d z b unfolding ffs_inv_def e
      by (intro exI [of _ "d + k"]) (auto simp: add.assoc)
  qed
qed

lemma ffs_start: "x \<noteq> 0 \<Longrightarrow> ffs_inv x 32 (x, 1)"
proof -
  assume "x \<noteq> 0"
  then obtain j where "bit x j" by (auto simp: bit_eq_iff)
  moreover have "j < 32" using bit_imp_le_length [OF \<open>bit x j\<close>] by simp
  ultimately have "\<not> low_zeros x 32" by (auto simp: low_zeros_def)
  then show ?thesis unfolding ffs_inv_def by (intro exI [of _ 0]) (auto simp: low_zeros_def)
qed

lemma ffs_masks: "(1 :: u32) = mask 1" "(3 :: u32) = mask 2" "(15 :: u32) = mask 4" "(255 :: u32) = mask 8"
  "(65535 :: u32) = mask 16"
  by (simp_all add: mask_eq_exp_minus_1)

text \<open>The window of the highest bit: \<open>d\<close> zeros above it have been shifted out.\<close>

definition fls_inv :: "u32 \<Rightarrow> nat \<Rightarrow> u32 \<times> int \<Rightarrow> bool" where
  "fls_inv x0 w xr \<longleftrightarrow> (\<exists>d. xr = (push_bit d x0, 32 - int d) \<and> d + w \<le> 32
     \<and> (\<forall>j. 32 - d \<le> j \<longrightarrow> \<not> bit x0 j) \<and> (\<exists>j < w. bit x0 (31 - d - j)))"

lemma and_high_mask:
  assumes "d + k \<le> 32"
  shows "push_bit d x AND push_bit (32 - k) (mask k) = (0 :: u32) \<longleftrightarrow> (\<forall>j < k. \<not> bit x (31 - d - j))"
proof -
  have "bit (push_bit d x AND push_bit (32 - k) (mask k)) i \<longleftrightarrow> 32 - k \<le> i \<and> i < 32 \<and> bit x (i - d)" for i
    using assms by (auto simp: bit_and_iff bit_push_bit_iff bit_mask_iff)
  then have "push_bit d x AND push_bit (32 - k) (mask k) = (0 :: u32) \<longleftrightarrow>
      (\<forall>i. \<not> (32 - k \<le> i \<and> i < 32 \<and> bit x (i - d)))"
    by (simp add: bit_eq_iff)
  also have "\<dots> \<longleftrightarrow> (\<forall>j < k. \<not> bit x (31 - d - j))"
  proof (intro iffI allI impI notI)
    fix j assume h: "\<forall>i. \<not> (32 - k \<le> i \<and> i < 32 \<and> bit x (i - d))" "j < k" "bit x (31 - d - j)"
    have "31 - j - d = 31 - d - j" "32 - k \<le> 31 - j" "31 - j < 32" using assms h(2) by auto
    then show False using h(1) [rule_format, of "31 - j"] h(3) by simp
  next
    fix i assume h: "\<forall>j < k. \<not> bit x (31 - d - j)" "32 - k \<le> i \<and> i < 32 \<and> bit x (i - d)"
    then have "31 - i < k" "31 - d - (31 - i) = i - d" using assms by auto
    then show False using h by metis
  qed
  finally show ?thesis .
qed

lemma fls_step_inv:
  assumes inv: "fls_inv x0 w xr" and w: "w = k + k" "0 < k"
  shows "fls_inv x0 k (fls_step k (push_bit (32 - k) (mask k)) xr)"
proof -
  obtain d where d: "xr = (push_bit d x0, 32 - int d)" "d + (k + k) \<le> 32"
      "\<forall>j. 32 - d \<le> j \<longrightarrow> \<not> bit x0 j" "\<exists>j < k + k. bit x0 (31 - d - j)"
    using inv unfolding w unfolding fls_inv_def by blast
  have m: "push_bit d x0 AND push_bit (32 - k) (mask k) = 0 \<longleftrightarrow> (\<forall>j < k. \<not> bit x0 (31 - d - j))"
    using d(2) by (intro and_high_mask) simp
  show ?thesis
  proof (cases "\<forall>j < k. \<not> bit x0 (31 - d - j)")
    case False
    then have "fls_step k (push_bit (32 - k) (mask k)) xr = xr" using m by (auto simp: fls_step_def d(1))
    then show ?thesis using d False unfolding fls_inv_def by (intro exI [of _ d]) auto
  next
    case True
    have "fls_step k (push_bit (32 - k) (mask k)) xr = (push_bit (d + k) x0, 32 - int (d + k))"
      using True m by (simp add: fls_step_def d(1) push_bit_push_bit add.commute)
    moreover have "\<forall>j. 32 - (d + k) \<le> j \<longrightarrow> \<not> bit x0 j"
    proof (intro allI impI)
      fix j assume j: "32 - (d + k) \<le> j"
      show "\<not> bit x0 j"
      proof (cases "32 - d \<le> j")
        case False
        then have "31 - d - j < k" "31 - d - (31 - d - j) = j" using j d(2) w(2) by auto
        then show ?thesis using True by metis
      qed (use d(3) in blast)
    qed
    moreover obtain j where j: "j < k + k" "bit x0 (31 - d - j)" using d(4) by blast
    moreover have "\<not> j < k" using j(2) True by blast
    then have "j - k < k" "31 - (d + k) - (j - k) = 31 - d - j" using j(1) by linarith+
    ultimately show ?thesis using d(2) unfolding fls_inv_def by (intro exI [of _ "d + k"]) auto
  qed
qed

lemma fls_start: "x \<noteq> 0 \<Longrightarrow> fls_inv x 32 (x, 32)"
proof -
  assume "x \<noteq> 0"
  then obtain j where j: "bit x j" by (auto simp: bit_eq_iff)
  then have "j < 32" using bit_imp_le_length by fastforce
  then have "31 - j < 32" "31 - 0 - (31 - j) = j" by auto
  then show ?thesis using j unfolding fls_inv_def
    by (intro exI [of _ 0]) (auto dest: bit_imp_le_length)
qed

lemma fls_masks: "(0x80000000 :: u32) = push_bit (32 - 1) (mask 1)" "(0xc0000000 :: u32) = push_bit (32 - 2) (mask 2)"
  "(0xf0000000 :: u32) = push_bit (32 - 4) (mask 4)" "(0xff000000 :: u32) = push_bit (32 - 8) (mask 8)"
  "(0xffff0000 :: u32) = push_bit (32 - 16) (mask 16)"
  by (simp_all add: mask_eq_exp_minus_1 push_bit_eq_mult)

section \<open>Comparisons\<close>

lemma strncasecmp_loop_step:
  "strncasecmp_loop m1 s1 m2 s2 n i =
     (if i < n then do {
        a \<leftarrow> mem_rd m1 (s1 + i);
        if a = 0 then Some i else do {
          b \<leftarrow> mem_rd m2 (s2 + i);
          if b = 0 then Some i
          else if case_eq a b then strncasecmp_loop m1 s1 m2 s2 n (i + 1) else Some i } }
      else Some i)"
  by (rule strncasecmp_loop.simps)

lemma strncasecmp_loop_stops:
  "strncasecmp_loop m1 s1 m2 s2 n i = Some r \<Longrightarrow> i \<le> n \<Longrightarrow>
   i \<le> r \<and> r \<le> n \<and> (\<forall>j. i \<le> j \<and> j < r \<longrightarrow> s1 + j < length m1 \<and> s2 + j < length m2
      \<and> m1 ! (s1 + j) \<noteq> 0 \<and> m2 ! (s2 + j) \<noteq> 0 \<and> case_eq (m1 ! (s1 + j)) (m2 ! (s2 + j)))"
proof (induction m1 s1 m2 s2 n i rule: strncasecmp_loop.induct)
  case (1 m1 s1 m2 s2 n i)
  show ?case
  proof (cases "i < n \<and> s1 + i < length m1 \<and> m1 ! (s1 + i) \<noteq> 0 \<and> s2 + i < length m2 \<and> m2 ! (s2 + i) \<noteq> 0
      \<and> case_eq (m1 ! (s1 + i)) (m2 ! (s2 + i))")
    case True
    have "strncasecmp_loop m1 s1 m2 s2 n (i + 1) = Some r"
      using 1(2) True by (subst (asm) strncasecmp_loop_step) (simp add: mem_rd_def)
    then have ih: "i + 1 \<le> r \<and> r \<le> n \<and> (\<forall>j. i + 1 \<le> j \<and> j < r \<longrightarrow> s1 + j < length m1 \<and> s2 + j < length m2
      \<and> m1 ! (s1 + j) \<noteq> 0 \<and> m2 ! (s2 + j) \<noteq> 0 \<and> case_eq (m1 ! (s1 + j)) (m2 ! (s2 + j)))"
      using 1(1) True by (simp add: mem_rd_def)
    show ?thesis
    proof (intro conjI allI impI)
      fix j assume j: "i \<le> j \<and> j < r"
      then have "j = i \<or> i + 1 \<le> j" by linarith
      then show "s1 + j < length m1" "s2 + j < length m2" "m1 ! (s1 + j) \<noteq> 0" "m2 ! (s2 + j) \<noteq> 0"
        "case_eq (m1 ! (s1 + j)) (m2 ! (s2 + j))" using True ih j by auto
    qed (use ih in auto)
  next
    case False
    then have "r = i" using 1(2)
      by (subst (asm) strncasecmp_loop_step) (auto simp: mem_rd_def split: if_splits)
    then show ?thesis using 1(3) by auto
  qed
qed

lemma strncasecmp_loop_all:
  "i \<le> n \<Longrightarrow> (\<forall>j. i \<le> j \<and> j < n \<longrightarrow> s1 + j < length m1 \<and> s2 + j < length m2
      \<and> m1 ! (s1 + j) \<noteq> 0 \<and> m2 ! (s2 + j) \<noteq> 0 \<and> case_eq (m1 ! (s1 + j)) (m2 ! (s2 + j))) \<Longrightarrow>
   strncasecmp_loop m1 s1 m2 s2 n i = Some n"
  by (induction "n - i" arbitrary: i)
    (simp_all add: strncasecmp_loop_step [of _ _ _ _ n] mem_rd_def)

section \<open>Pieces of a buffer\<close>

definition crc_more :: "(u8 list \<Rightarrow> u32 \<Rightarrow> u32) \<Rightarrow> u8 list \<Rightarrow> u32 \<Rightarrow> u32" where
  "crc_more cont data c = (if data = [] then c else cont data c)"

lemma crc_more_split:
  assumes "\<And>a b c. a \<noteq> [] \<Longrightarrow> b \<noteq> [] \<Longrightarrow> cont (a @ b) c = cont b (cont a c)" "take n data \<noteq> []"
  shows "crc_more cont (drop n data) (cont (take n data) c) = crc_more cont data c"
proof (cases "drop n data = []")
  case False
  have "cont data c = cont (take n data @ drop n data) c" by simp
  also have "\<dots> = cont (drop n data) (cont (take n data) c)" by (rule assms(1) [OF assms(2) False])
  finally show ?thesis using False assms(2) by (auto simp: crc_more_def)
qed (use assms(2) in \<open>auto simp: crc_more_def\<close>)

lemma hw_crc_loop_spec:
  assumes "\<And>a b c. a \<noteq> [] \<Longrightarrow> b \<noteq> [] \<Longrightarrow> cont (a @ b) c = cont b (cont a c)"
  shows "len = length data \<Longrightarrow>
    (case hw_crc_loop cont data len crc of (c, rest) \<Rightarrow> if rest \<noteq> [] then cont rest c else c)
      = crc_more cont data crc"
proof (induction len arbitrary: data crc rule: less_induct)
  case (less len)
  show ?case
  proof (cases "len \<ge> 0x40000")
    case False
    then show ?thesis using less(2) by (subst hw_crc_loop.simps) (simp add: crc_more_def)
  next
    case True
    have "take 0x40000 data \<noteq> []" using True less(2) by auto
    from crc_more_split [OF assms this]
    have "crc_more cont (drop 0x40000 data) (cont (take 0x40000 data) crc) = crc_more cont data crc" .
    moreover have "(case hw_crc_loop cont (drop 0x40000 data) (len - 0x40000) (cont (take 0x40000 data) crc)
        of (c, rest) \<Rightarrow> if rest \<noteq> [] then cont rest c else c)
      = crc_more cont (drop 0x40000 data) (cont (take 0x40000 data) crc)"
      using True less(2) by (intro less(1)) auto
    ultimately show ?thesis using True by (subst hw_crc_loop.simps) simp
  qed
qed

section \<open>Scatter lists are their concatenation\<close>

lemma scatter_loop_ok:
  assumes "length data \<le> 255" "\<forall>d \<in> set data. length d < 2 ^ 32"
  shows "i \<le> length data \<Longrightarrow> length data - i < fuel \<Longrightarrow> unat off < length (concat (drop i data)) \<Longrightarrow>
    \<exists>k o1. scatter_loop fuel data (length data) (word_of_nat i) off = Some (Some (k, o1))
      \<and> i \<le> k \<and> k < length data \<and> o1 < length (data ! k)
      \<and> unat off = length (concat (take (k - i) (drop i data))) + o1
      \<and> data ! k ! o1 = concat (drop i data) ! unat off"
proof (induction fuel arbitrary: i off)
  case (Suc fuel)
  have "i \<noteq> length data" using Suc.prems(3) by auto
  then have i: "i < length data" using Suc.prems(1) by simp
  have ui: "unat (word_of_nat i :: u8) = i" using i assms(1) by (simp add: unat_of_nat)
  have li: "length (data ! i) < 2 ^ 32" using assms(2) i by simp
  have wi: "unat (word_of_nat (length (data ! i)) :: u32) = length (data ! i)"
    using li by (simp add: unat_of_nat)
  have dr: "drop i data = data ! i # drop (Suc i) data" using i by (simp add: Cons_nth_drop_Suc)
  show ?case
  proof (cases "unat off < length (data ! i)")
    case True
    then have "scatter_loop (Suc fuel) data (length data) (word_of_nat i) off = Some (Some (i, unat off))"
      using i by (simp add: ui mem_rd_def word_less_nat_alt wi)
    then show ?thesis using True i dr by (intro exI [of _ i] exI [of _ "unat off"]) (simp add: nth_append)
  next
    case False
    let ?off = "off - word_of_nat (length (data ! i))"
    have uo: "unat ?off = unat off - length (data ! i)"
      using False by (subst unat_sub_small) (simp_all add: wi)
    have "word_of_nat i + 1 = (word_of_nat (Suc i) :: u8)" by simp
    then have step: "scatter_loop (Suc fuel) data (length data) (word_of_nat i) off
        = scatter_loop fuel data (length data) (word_of_nat (Suc i)) ?off"
      using i False by (simp add: ui mem_rd_def word_less_nat_alt wi add.commute)
    have "unat ?off < length (concat (drop (Suc i) data))" using Suc.prems(3) False uo dr by simp
    moreover have "Suc i \<le> length data" "length data - Suc i < fuel" using i Suc.prems(2) by auto
    ultimately obtain k o1 where k:
      "scatter_loop fuel data (length data) (word_of_nat (Suc i)) ?off = Some (Some (k, o1))"
      "Suc i \<le> k" "k < length data" "o1 < length (data ! k)"
      "unat ?off = length (concat (take (k - Suc i) (drop (Suc i) data))) + o1"
      "data ! k ! o1 = concat (drop (Suc i) data) ! unat ?off"
      using Suc.IH [of "Suc i" ?off] by blast
    have "k - i = Suc (k - Suc i)" using k(2) by simp
    then show ?thesis using step k False uo dr
      by (intro exI [of _ k] exI [of _ o1]) (simp add: nth_append)
  qed
qed simp

section \<open>Properties\<close>

text \<open>\<open>ffs\<close> answers 0 for 0 and otherwise one more than the position of the lowest bit set.\<close>

theorem ffs_lowest_bit:
  assumes "x \<noteq> 0"
  shows "\<exists>d. ffs x = int d + 1 \<and> bit x d \<and> (\<forall>j < d. \<not> bit x j)"
proof -
  let ?xr = "ffs_step 1 (mask 1) (ffs_step 2 (mask 2) (ffs_step 4 (mask 4) (ffs_step 8 (mask 8)
    (ffs_step 16 (mask 16) (x, 1)))))"
  have "ffs_inv x 1 ?xr"
    by (rule ffs_step_inv ffs_start [OF assms])+ simp_all
  then obtain d where d: "snd ?xr = int d + 1" "low_zeros x d" "\<not> low_zeros (fst ?xr) 1"
      "\<forall>j < 1. bit (fst ?xr) j = bit x (d + j)"
    unfolding ffs_inv_def by blast
  have "ffs x = int d + 1" using assms d(1) unfolding ffs_def ffs_masks by simp
  then show ?thesis using d(2-4) by (intro exI [of _ d]) (auto simp: low_zeros_def)
qed

theorem ffs_lowest_bit_witness:
  "\<exists>d. ffs 0x50000 = int d + 1 \<and> bit (0x50000 :: u32) d \<and> (\<forall>j < d. \<not> bit (0x50000 :: u32) j)"
  by (rule ffs_lowest_bit) simp

text \<open>\<open>fls\<close> answers 0 for 0 and otherwise one more than the position of the highest bit set.\<close>

theorem fls_highest_bit:
  assumes "x \<noteq> 0"
  shows "\<exists>d. fls x = int d + 1 \<and> bit x d \<and> (\<forall>j > d. \<not> bit x j)"
proof -
  let ?m = "\<lambda>k. push_bit (32 - k) (mask k) :: u32"
  let ?xr = "fls_step 1 (?m 1) (fls_step 2 (?m 2) (fls_step 4 (?m 4) (fls_step 8 (?m 8) (fls_step 16 (?m 16) (x, 32)))))"
  have "fls_inv x 1 ?xr"
    by (rule fls_step_inv fls_start [OF assms])+ simp_all
  then obtain d where d: "snd ?xr = 32 - int d" "d + 1 \<le> 32" "\<forall>j. 32 - d \<le> j \<longrightarrow> \<not> bit x j" "bit x (31 - d)"
    unfolding fls_inv_def by auto
  have "fls x = int (31 - d) + 1" using assms d(1, 2) unfolding fls_def fls_masks by simp
  moreover have "\<forall>j > 31 - d. \<not> bit x j" using d(2, 3) by auto
  ultimately show ?thesis using d(4) by blast
qed

theorem fls_highest_bit_witness:
  "\<exists>d. fls 0x50000 = int d + 1 \<and> bit (0x50000 :: u32) d \<and> (\<forall>j > d. \<not> bit (0x50000 :: u32) j)"
  by (rule fls_highest_bit) simp

text \<open>\<open>strncasecmp\<close> answers 0 exactly if the first \<open>n\<close> characters of both strings exist and match,
  and it answers, staying in both objects, for any two terminated strings.\<close>

theorem strncasecmp_zero:
  assumes "strncasecmp m1 s1 m2 s2 n = Some r"
  shows "r = 0 \<longleftrightarrow> (\<forall>j < n. s1 + j < length m1 \<and> s2 + j < length m2
    \<and> m1 ! (s1 + j) \<noteq> 0 \<and> m2 ! (s2 + j) \<noteq> 0 \<and> case_eq (m1 ! (s1 + j)) (m2 ! (s2 + j)))"
    (is "_ \<longleftrightarrow> (\<forall>j < n. ?ok j)")
proof -
  obtain i where i: "strncasecmp_loop m1 s1 m2 s2 n 0 = Some i" "r = (if i \<noteq> n then 1 else 0)"
    using assms by (auto simp: strncasecmp_def bind_eq_Some_conv)
  show ?thesis
  proof
    assume "r = 0"
    then have "i = n" using i(2) by (simp split: if_splits)
    then show "\<forall>j < n. ?ok j" using strncasecmp_loop_stops [OF i(1)] by simp
  next
    assume "\<forall>j < n. ?ok j"
    then have "strncasecmp_loop m1 s1 m2 s2 n 0 = Some n" by (intro strncasecmp_loop_all) auto
    then show "r = 0" using i by simp
  qed
qed

theorem strncasecmp_zero_witness:
  "(1 :: int) = 0 \<longleftrightarrow> (\<forall>j < 3. 0 + j < length [97, 98, 0 :: u8] \<and> 0 + j < length [65, 66, 0 :: u8]
    \<and> [97, 98, 0 :: u8] ! (0 + j) \<noteq> 0 \<and> [65, 66, 0 :: u8] ! (0 + j) \<noteq> 0
    \<and> case_eq ([97, 98, 0] ! (0 + j)) ([65, 66, 0] ! (0 + j)))"
  by (rule strncasecmp_zero) (simp add: strncasecmp_def strncasecmp_loop_step mem_rd_def case_eq_def)

text \<open>The case-insensitive comparisons are not: \<open>strcasecmp\<close> finds the strings "0" and "P" equal,
  since their characters are 32 apart, and \<open>strncasecmp\<close> tells a string from itself when it is shorter than \<open>n\<close>.\<close>

theorem strcasecmp_confuses:
  "strcasecmp [48, 0] 0 [80, 0] 0 = Some 0 \<and> strncasecmp [97, 98, 0] 0 [97, 98, 0] 0 3 = Some 1"
  by (simp add: strcasecmp.simps strncasecmp_def strncasecmp_loop_step mem_rd_def case_eq_def)

text \<open>For a scatter list of at most 255 entries and an offset inside it, \<open>scatter_offset\<close> finds the
  entry and the place in it that hold this byte of the concatenation.\<close>

theorem scatter_offset_concat:
  assumes "length data \<le> 255" "\<forall>d \<in> set data. length d < 2 ^ 32" "unat off < length (concat data)"
  shows "\<exists>k o1. scatter_offset 256 data (length data) off = Some (Some (k, o1))
    \<and> k < length data \<and> o1 < length (data ! k) \<and> data ! k ! o1 = concat data ! unat off"
  using scatter_loop_ok [OF assms(1, 2), of 0 256 off] assms(1, 3)
  by (auto simp: scatter_offset_def)

theorem scatter_offset_concat_witness:
  "\<exists>k o1. scatter_offset 256 [[1, 2], [], [3 :: u8]] (length [[1, 2], [], [3 :: u8]]) 2 = Some (Some (k, o1))
    \<and> k < length [[1, 2], [], [3 :: u8]] \<and> o1 < length ([[1, 2], [], [3 :: u8]] ! k)
    \<and> [[1, 2], [], [3 :: u8]] ! k ! o1 = concat [[1, 2], [], [3]] ! unat (2 :: u32)"
  by (rule scatter_offset_concat) simp_all



end
