(* ===== verification/Strings.thy ===== *)
theory Strings
  imports CommonUtil
begin

text \<open>
  The string helpers of \<open>sdk/lib/common/string.c\<close>: hexadecimal digits and byte strings, MAC and IPv4
  addresses, hexadecimal numbers, the in-place tokenizer and the case-insensitive searches.

  Memory is as in \<open>CommonUtil\<close>: a list of bytes, a pointer is an offset, reads and writes are checked.
  The functions of the C library the code calls (\<open>strlen\<close>, \<open>strstr\<close>, \<open>atoi\<close>, \<open>sprintf\<close> of \<open>%02x\<close>) are modelled as the
  standard has them.
\<close>

section \<open>C strings\<close>

text \<open>\<open>str_at m p\<close>: the characters from \<open>p\<close> up to the terminating 0, if there is one.\<close>

definition str_at :: "u8 list \<Rightarrow> nat \<Rightarrow> u8 list option" where
  "str_at m p = (if 0 \<in> set (drop p m) then Some (takeWhile (\<lambda>c. c \<noteq> 0) (drop p m)) else None)"

definition os_strlen :: "u8 list \<Rightarrow> nat \<Rightarrow> nat option" where
  "os_strlen m p = map_option length (str_at m p)"

fun find_sub :: "u8 list \<Rightarrow> u8 list \<Rightarrow> nat option" where
  "find_sub t [] = (if t = [] then Some 0 else None)"
| "find_sub t (c # s) = (if take (length t) (c # s) = t then Some 0 else map_option Suc (find_sub t s))"

text \<open>\<open>strstr\<close>: \<open>None\<close> is the NULL pointer.\<close>

definition os_strstr :: "u8 list \<Rightarrow> nat \<Rightarrow> u8 list \<Rightarrow> nat option option" where
  "os_strstr m p sep = do {
     s \<leftarrow> str_at m p;
     t \<leftarrow> str_at sep 0;
     Some (map_option (\<lambda>i. p + i) (find_sub t s)) }"

definition is_digit :: "u8 \<Rightarrow> bool" where
  "is_digit c \<longleftrightarrow> 48 \<le> c \<and> c \<le> 57"

definition dec_value :: "u8 list \<Rightarrow> u32" where
  "dec_value ds = fold (\<lambda>c v. v * 10 + ucast (c - 48)) ds 0"

definition os_atoi :: "u8 list \<Rightarrow> nat \<Rightarrow> u32 option" where
  "os_atoi m p = do {
     s \<leftarrow> str_at m p;
     let s = dropWhile (\<lambda>c. c = 32 \<or> 9 \<le> c \<and> c \<le> 13) s;
     Some (case s of
         [] \<Rightarrow> 0
       | c # cs \<Rightarrow> if c = 45 then - dec_value (takeWhile is_digit cs)
                  else if c = 43 then dec_value (takeWhile is_digit cs)
                  else dec_value (takeWhile is_digit s)) }"

section \<open>Hexadecimal\<close>

definition hexchr2int :: "u8 \<Rightarrow> int" where
  "hexchr2int c =
     (if 48 \<le> c \<and> c \<le> 57 then uint c - 48
      else if 97 \<le> c \<and> c \<le> 102 then uint c - 97 + 10
      else if 65 \<le> c \<and> c \<le> 70 then uint c - 65 + 10
      else - 1)"

text \<open>\<open>(a << 4) | b\<close> with two digits below 16.\<close>

definition hex2char :: "u8 list \<Rightarrow> nat \<Rightarrow> int option" where
  "hex2char m p = do {
     c \<leftarrow> mem_rd m p;
     let a = hexchr2int c;
     if a < 0 then Some (- 1) else do {
       c \<leftarrow> mem_rd m (p + 1);
       let b = hexchr2int c;
       if b < 0 then Some (- 1) else Some (or (push_bit 4 a) b) } }"

function hex2bin_loop :: "u8 list \<Rightarrow> nat \<Rightarrow> u8 list \<Rightarrow> nat \<Rightarrow> nat \<Rightarrow> nat \<Rightarrow> (nat \<times> u8 list) option" where
  "hex2bin_loop m p bin len str_len i =
     (if i < len \<and> (i * 2 + 2) mod 2 ^ 32 \<le> str_len then do {
        a \<leftarrow> hex2char m (p + 2 * i);
        if a < 0 then Some (i, bin) else do {
          bin \<leftarrow> mem_wr bin i (word_of_int a);
          hex2bin_loop m p bin len str_len (i + 1) } }
      else Some (i, bin))"
  by pat_completeness auto
termination by (relation "measure (\<lambda>(_, _, _, len, _, i). len - i)") auto

declare hex2bin_loop.simps [simp del]

definition hex2bin :: "(u8 list \<times> nat) option \<Rightarrow> u8 list option \<Rightarrow> u32 \<Rightarrow> (nat \<times> u8 list option) option" where
  "hex2bin hex_str bin len =
     (case (hex_str, bin) of
        (Some (m, p), Some bin) \<Rightarrow> do {
          str_len \<leftarrow> os_strlen m p;
          (i, bin) \<leftarrow> hex2bin_loop m p bin (unat len) str_len 0;
          Some (i, Some bin) }
      | _ \<Rightarrow> Some (0, bin))"

definition hexdigit :: "u8 \<Rightarrow> u8" where
  "hexdigit d = (if d < 10 then 48 + d else 87 + d)"

text \<open>\<open>sprintf(p, "%02x", b)\<close> stores two digits and the terminating 0.\<close>

definition hexbyte :: "u8 \<Rightarrow> u8 list" where
  "hexbyte b = [hexdigit (b div 16), hexdigit (b mod 16)]"

fun key_str :: "u8 list \<Rightarrow> nat \<Rightarrow> u8 list \<Rightarrow> u8 list option" where
  "key_str [] i str_buf = Some str_buf"
| "key_str (k # key) i str_buf = do {
     str_buf \<leftarrow> mem_dst str_buf (i * 2) (hexbyte k @ [0]);
     key_str key (i + 1) str_buf }"

function atoh_loop :: "u8 list \<Rightarrow> nat \<Rightarrow> int \<Rightarrow> int \<Rightarrow> u64 \<Rightarrow> u64 option" where
  "atoh_loop m p count cnt val = do {
     c \<leftarrow> mem_rd m p;
     if c \<noteq> 0 \<and> cnt \<le> count then
       let s = hexchr2int c
       in if s = - 1 then Some val
          else atoh_loop m (p + 1) count (cnt + 1) (push_bit 4 val + word_of_int s)
     else Some val }"
  by pat_completeness auto
termination
  by (relation "measure (\<lambda>(m, p, _). length m - p)") (auto simp: mem_rd_def split: if_splits)

declare atoh_loop.simps [simp del]

text \<open>The counter is an \<open>int8\<close>; both callers pass a count below 127, so that it does not wrap.\<close>

definition os_atoh_n :: "u8 list \<Rightarrow> nat \<Rightarrow> int \<Rightarrow> u64 option" where
  "os_atoh_n m p count = do {
     n \<leftarrow> os_strlen m p;
     let p = (if n > 2 \<and> m ! p = 48 \<and> (m ! (p + 1) = 120 \<or> m ! (p + 1) = 88) then p + 2 else p);
     atoh_loop m p count 1 0 }"

definition os_atoh :: "u8 list \<Rightarrow> nat \<Rightarrow> u32 option" where
  "os_atoh m p = map_option ucast (os_atoh_n m p 8)"

definition os_atohl :: "u8 list \<Rightarrow> nat \<Rightarrow> u64 option" where
  "os_atohl m p = os_atoh_n m p 16"

section \<open>Addresses\<close>

fun str2mac_from :: "u8 list \<Rightarrow> nat list \<Rightarrow> u8 list option" where
  "str2mac_from m [] = Some []"
| "str2mac_from m (p # ps) = do {
     v \<leftarrow> hex2char m p;
     vs \<leftarrow> str2mac_from m ps;
     Some (word_of_int v # vs) }"

definition str2mac :: "u8 list \<Rightarrow> nat \<Rightarrow> u8 list option" where
  "str2mac m p = str2mac_from m [p, p + 3, p + 6, p + 9, p + 12, p + 15]"

definition os_htonl :: "u32 \<Rightarrow> u32" where
  "os_htonl x = push_bit 24 (x AND 0xff) OR push_bit 8 (x AND 0xff00)
     OR drop_bit 8 (x AND 0xff0000) OR drop_bit 24 (x AND 0xff000000)"

function str2ip_loop :: "u8 list \<Rightarrow> nat \<Rightarrow> u32 \<Rightarrow> u32 option" where
  "str2ip_loop m ptr ip =
     (case mem_rd m ptr of None \<Rightarrow> None | Some c \<Rightarrow>
        let q = (if c = 46 then ptr + 1 else ptr)
        in case (if c = 46 then map_option (\<lambda>v. push_bit 8 ip OR v) (os_atoi m q) else Some ip) of
             None \<Rightarrow> None
           | Some ip \<Rightarrow>
               (case mem_rd m (q + 1) of None \<Rightarrow> None
                | Some c \<Rightarrow> if c \<noteq> 0 then str2ip_loop m (q + 1) ip else Some ip))"
  by pat_completeness auto
termination
  by (relation "measure (\<lambda>(m, p, _). length m - p)") (auto simp: mem_rd_def split: if_splits)

declare str2ip_loop.simps [simp del]

definition str2ip :: "u8 list \<Rightarrow> nat \<Rightarrow> u32 option" where
  "str2ip m p = do {
     ip \<leftarrow> os_atoi m p;
     ip \<leftarrow> str2ip_loop m p ip;
     Some (os_htonl ip) }"

section \<open>Tokens\<close>

function strtok_loop ::
  "u8 list \<Rightarrow> u8 list \<Rightarrow> nat list \<Rightarrow> nat \<Rightarrow> nat option \<Rightarrow> nat \<Rightarrow> (nat \<times> u8 list \<times> nat list) option" where
  "strtok_loop m sep argv argv_size ptr cnt =
     (case ptr of None \<Rightarrow> Some (cnt, m, argv)
      | Some p \<Rightarrow>
          if cnt < argv_size then do {
            m \<leftarrow> mem_wr m p 0;
            n \<leftarrow> os_strlen sep 0;
            let p = p + n;
            l \<leftarrow> os_strlen m p;
            if l = 0 then Some (cnt, m, argv) else do {
              argv \<leftarrow> mem_wr argv cnt p;
              ptr \<leftarrow> os_strstr m p sep;
              strtok_loop m sep argv argv_size ptr (cnt + 1) } }
          else Some (cnt, m, argv))"
  by pat_completeness auto
termination by (relation "measure (\<lambda>(_, _, _, argv_size, _, cnt). argv_size - cnt)") auto

declare strtok_loop.simps [simp del]

text \<open>The NULL checks of the entry are on \<open>str\<close>, \<open>separator\<close> and \<open>argv\<close>; pointers in \<open>argv\<close> are offsets into the string's object.\<close>

definition os_strtok ::
  "(u8 list \<times> nat) option \<Rightarrow> u8 list option \<Rightarrow> nat list option \<Rightarrow> int
   \<Rightarrow> (nat \<times> (u8 list \<times> nat list) option) option" where
  "os_strtok str sep argv argv_size =
     (case (str, sep, argv) of
        (Some (m, p), Some sep, Some argv) \<Rightarrow>
          if argv_size \<le> 0 then Some (0, None)
          else do {
            argv \<leftarrow> mem_wr argv 0 p;
            ptr \<leftarrow> os_strstr m p sep;
            (cnt, m, argv) \<leftarrow> strtok_loop m sep argv (nat argv_size) ptr 1;
            Some (cnt, Some (m, argv)) }
      | _ \<Rightarrow> Some (0, None))"

section \<open>Searches\<close>

definition LOWCASE :: "u8 \<Rightarrow> u8" where
  "LOWCASE c = (if 65 \<le> c \<and> c \<le> 90 then c + 32 else c)"

text \<open>One loop stands for both branches: without a bound (\<open>n < 0\<close>) only the terminating 0 ends it.\<close>

function casechr_loop :: "u8 list \<Rightarrow> nat \<Rightarrow> u8 \<Rightarrow> int \<Rightarrow> nat \<Rightarrow> nat option option" where
  "casechr_loop m s c n i =
     (if n < 0 \<or> int i < n then
        (case mem_rd m (s + i) of None \<Rightarrow> None
         | Some x \<Rightarrow> if x = 0 then Some None
             else if LOWCASE x = c then Some (Some (s + i))
             else casechr_loop m s c n (i + 1))
      else Some None)"
  by pat_completeness auto
termination
  by (relation "measure (\<lambda>(m, s, _, _, i). length m - (s + i))") (auto simp: mem_rd_def split: if_splits)

declare casechr_loop.simps [simp del]

definition os_strncasechr :: "(u8 list \<times> nat) option \<Rightarrow> u8 \<Rightarrow> int \<Rightarrow> nat option option" where
  "os_strncasechr s c n =
     (case s of None \<Rightarrow> Some None
      | Some (m, p) \<Rightarrow> casechr_loop m p (LOWCASE c) n 0)"

function casestr_loop :: "u8 list \<Rightarrow> nat \<Rightarrow> u8 list \<Rightarrow> int \<Rightarrow> nat \<Rightarrow> nat \<Rightarrow> nat option option" where
  "casestr_loop m1 s1 m2 len1 len2 i =
     (case mem_rd m1 (s1 + i) of None \<Rightarrow> None
      | Some x \<Rightarrow>
          if x \<noteq> 0 \<and> int i \<le> len1 - int len2 then
            (case (if LOWCASE x = LOWCASE (m2 ! 0) then strncasecmp m1 (s1 + i) m2 0 len2 else Some 1) of
               None \<Rightarrow> None
             | Some r \<Rightarrow> if r = 0 then Some (Some (s1 + i)) else casestr_loop m1 s1 m2 len1 len2 (i + 1))
          else Some None)"
  by pat_completeness auto
termination
  by (relation "measure (\<lambda>(m, s, _, _, _, i). length m - (s + i))") (auto simp: mem_rd_def split: if_splits)

declare casestr_loop.simps [simp del]

definition os_strncasestr :: "(u8 list \<times> nat) option \<Rightarrow> u8 list option \<Rightarrow> int \<Rightarrow> nat option option" where
  "os_strncasestr str1 str2 n =
     (case (str1, str2) of
        (Some (m1, s1), Some m2) \<Rightarrow> do {
          c \<leftarrow> mem_rd m2 0;
          if c = 0 then Some (Some s1) else do {
            len2 \<leftarrow> os_strlen m2 0;
            let len1 = (if n < 0 then 0x7FFFFFFF else n);
            if int len2 > len1 then Some None else casestr_loop m1 s1 m2 len1 len2 0 } }
      | _ \<Rightarrow> Some None)"

section \<open>Strings in memory\<close>

lemma str_at_eq:
  assumes "drop p m = s @ 0 # rest" "0 \<notin> set s"
  shows "str_at m p = Some s"
proof -
  have "takeWhile (\<lambda>c. c \<noteq> 0) (s @ 0 # rest) = s" using assms(2) by (subst takeWhile_append2) auto
  then show ?thesis using assms(1) by (simp add: str_at_def)
qed

lemma os_strlen_eq:
  assumes "drop p m = s @ 0 # rest" "0 \<notin> set s"
  shows "os_strlen m p = Some (length s)"
  using str_at_eq [OF assms] by (simp add: os_strlen_def)

lemma drop_append_length: "p = length xs \<Longrightarrow> drop p (xs @ ys) = ys"
  by simp

section \<open>Hexadecimal round trip\<close>

lemma hexdigit_value:
  assumes "d < 16"
  shows "hexchr2int (hexdigit d) = uint d" "hexdigit d \<noteq> 0"
proof -
  have "uint d < uint (16 :: u8)" using assms by (simp only: word_less_def)
  then have d: "uint d < 16" "0 \<le> uint d" by simp_all
  have u: "uint (48 + d) = 48 + uint d" "uint (87 + d) = 87 + uint d"
    using d by (simp_all add: uint_word_ariths)
  then show "hexchr2int (hexdigit d) = uint d"
    using d by (auto simp: hexchr2int_def hexdigit_def word_le_def word_less_def)
  have "48 \<le> uint (hexdigit d)" using u by (simp add: hexdigit_def)
  then show "hexdigit d \<noteq> 0" by auto
qed

lemma nibbles_int:
  assumes "0 \<le> b" "b < 16"
  shows "or (push_bit 4 a) b = 16 * a + (b :: int)"
proof -
  have "b = take_bit 4 b" using assms by (simp add: take_bit_int_eq_self)
  then have z: "\<not> bit b n" if "4 \<le> n" for n using that bit_take_bit_iff [of 4 b n] by simp
  have "push_bit 4 a + b = or (push_bit 4 a) b"
    using z by (intro disjunctive_add) (auto simp: bit_push_bit_iff_int not_le)
  then show ?thesis by (simp add: push_bit_eq_mult mult.commute)
qed

lemma mem_rd_drop: "mem_rd m (p + i) = mem_rd (drop p m) i"
  by (auto simp: mem_rd_def)

lemma mem_rd_hd: "drop p m = xs \<Longrightarrow> xs \<noteq> [] \<Longrightarrow> mem_rd m p = Some (hd xs)"
  using mem_rd_drop [of m p 0] by (auto simp: mem_rd_def hd_conv_nth)

lemma hex2char_hexbyte:
  assumes "drop p m = hexbyte b @ rest"
  shows "hex2char m p = Some (uint b)"
proof -
  have r: "mem_rd m p = Some (hexdigit (b div 16))" "mem_rd m (p + 1) = Some (hexdigit (b mod 16))"
    using mem_rd_drop [of m p 0] mem_rd_drop [of m p 1] assms by (simp_all add: hexbyte_def mem_rd_def)
  have n: "b div 16 < 16" "b mod 16 < 16"
    by (simp_all add: word_less_nat_alt unat_div unat_mod less_mult_imp_div_less)
  have u: "uint (b div 16) = uint b div 16" "uint (b mod 16) = uint b mod 16"
    by (simp_all add: uint_div uint_mod)
  have "or (push_bit 4 (uint (b div 16))) (uint (b mod 16)) = uint b"
    unfolding u by (subst nibbles_int) simp_all
  then show ?thesis using r hexdigit_value(1) [OF n(1)] hexdigit_value(1) [OF n(2)]
    by (simp add: hex2char_def)
qed

definition hex_of :: "u8 list \<Rightarrow> u8 list" where
  "hex_of key = concat (map hexbyte key)"

lemma hex_of_simps [simp]: "hex_of [] = []" "hex_of (k # key) = hexbyte k @ hex_of key"
  "length (hex_of key) = 2 * length key"
  by (induction key) (simp_all add: hex_of_def hexbyte_def)

lemma hex_of_no_zero: "0 \<notin> set (hex_of key)"
proof -
  have "b div 16 < (16 :: u8)" "b mod 16 < (16 :: u8)" for b
    by (simp_all add: word_less_nat_alt unat_div unat_mod less_mult_imp_div_less)
  then have "0 \<notin> set (hexbyte b)" for b
    using hexdigit_value(2) [of "b div 16"] hexdigit_value(2) [of "b mod 16"] by (auto simp: hexbyte_def)
  then show ?thesis by (auto simp: hex_of_def)
qed

lemma key_str_eq:
  assumes "2 * i + 2 * length key + 1 \<le> length str_buf" "drop (2 * i) str_buf = 0 # rest \<or> key \<noteq> []"
  shows "key_str key i str_buf =
    Some (take (2 * i) str_buf @ hex_of key @ 0 # drop (2 * i + 2 * length key + 1) str_buf)"
  using assms
proof (induction key arbitrary: i str_buf rest)
  case Nil
  then have z: "str_buf ! (2 * i) = 0" by (simp add: nth_via_drop)
  have "2 * i < length str_buf" using Nil.prems(1) by simp
  from id_take_nth_drop [OF this]
  have "take (2 * i) str_buf @ 0 # drop (Suc (2 * i)) str_buf = str_buf" unfolding z by (rule sym)
  then show ?case by simp
next
  case (Cons k key)
  define P R where "P = take (i * 2) str_buf" and "R = drop (i * 2 + 3) str_buf"
  let ?b = "P @ (hexbyte k @ [0]) @ R" and ?P = "P @ hexbyte k"
  have b: "mem_dst str_buf (i * 2) (hexbyte k @ [0]) = Some ?b"
    using Cons.prems(1) by (simp add: mem_dst_def hexbyte_def P_def R_def numeral_3_eq_3)
  have P: "length P = 2 * i" "length ?P = 2 * (i + 1)" using Cons.prems(1) by (simp_all add: P_def hexbyte_def)
  have l: "length ?b = length str_buf" using Cons.prems(1) by (simp add: P_def R_def hexbyte_def)
  have e: "?b = ?P @ 0 # R" by simp
  have d: "drop (2 * (i + 1)) ?b = 0 # R" "take (2 * (i + 1)) ?b = ?P" unfolding e P(2) [symmetric] by simp_all
  have "drop (2 * (i + 1) + 2 * length key + 1) ?b = drop (2 * length key + 1) (drop (2 * (i + 1)) ?b)"
    by (simp only: drop_drop ac_simps)
  also have "\<dots> = drop (2 * length key) R" unfolding d by simp
  also have "\<dots> = drop (2 * i + 2 * length (k # key) + 1) str_buf"
    by (simp add: R_def mult.commute numeral_3_eq_3 algebra_simps)
  finally have f: "drop (2 * (i + 1) + 2 * length key + 1) ?b = drop (2 * i + 2 * length (k # key) + 1) str_buf" .
  have "key_str key (i + 1) ?b = Some (take (2 * (i + 1)) ?b @ hex_of key @ 0 #
      drop (2 * (i + 1) + 2 * length key + 1) ?b)"
  proof (rule Cons.IH)
    show "2 * (i + 1) + 2 * length key + 1 \<le> length ?b" unfolding l using Cons.prems(1) by simp
    show "drop (2 * (i + 1)) ?b = 0 # R \<or> key \<noteq> []" using d(1) by simp
  qed
  then show ?case unfolding d(2) f using b by (simp add: P_def mult.commute)
qed

lemma key_str_overflow:
  "length str_buf < 2 * (i + length key) + 1 \<Longrightarrow> key \<noteq> [] \<Longrightarrow> key_str key i str_buf = None"
proof (induction key arbitrary: i str_buf)
  case (Cons k key)
  show ?case
  proof (cases "mem_dst str_buf (i * 2) (hexbyte k @ [0])")
    case (Some buf)
    then have l: "i * 2 + 3 \<le> length str_buf" "length buf = length str_buf"
      by (auto simp: mem_dst_def hexbyte_def split: if_splits)
    then have "key \<noteq> []" using Cons.prems(1) by auto
    then have "key_str key (i + 1) buf = None" using Cons.prems(1) l by (intro Cons.IH) auto
    then show ?thesis using Some by simp
  qed simp
qed simp

lemma drop_hex_of: "i \<le> length key \<Longrightarrow> drop (2 * i) (hex_of key) = hex_of (drop i key)"
proof (induction key arbitrary: i)
  case (Cons k key)
  then show ?case by (cases i) (simp_all add: hexbyte_def)
qed simp

lemma hex2bin_loop_eq:
  assumes m: "drop p m = hex_of key @ 0 # rest" and len: "length key \<le> len" "length key \<le> length bin"
    and small: "2 * length key + 2 < 2 ^ 32"
  shows "i \<le> length key \<Longrightarrow> hex2bin_loop m p (take i key @ drop i bin) len (2 * length key) i
    = Some (length key, key @ drop (length key) bin)"
proof (induction "length key - i" arbitrary: i)
  case 0
  then show ?case using small by (subst hex2bin_loop.simps) simp
next
  case (Suc n)
  then have i: "i < length key" by simp
  let ?bin = "take i key @ drop i bin"
  have "drop (p + 2 * i) m = drop (2 * i) (drop p m)" by (simp add: add.commute)
  also have "\<dots> = hex_of (drop i key) @ 0 # rest" using i by (simp add: m drop_hex_of)
  also have "\<dots> = hexbyte (key ! i) @ hex_of (drop (Suc i) key) @ 0 # rest"
    using i by (simp add: Cons_nth_drop_Suc [symmetric])
  finally have c: "hex2char m (p + 2 * i) = Some (uint (key ! i))" by (rule hex2char_hexbyte)
  have "drop i bin = bin ! i # drop (Suc i) bin" using i len(2) by (simp add: Cons_nth_drop_Suc)
  then have w: "mem_wr ?bin i (key ! i) = Some (take (Suc i) key @ drop (Suc i) bin)"
    using i len(2) by (simp add: mem_wr_def list_update_append take_Suc_conv_app_nth)
  have "hex2bin_loop m p ?bin len (2 * length key) i
      = hex2bin_loop m p (take (Suc i) key @ drop (Suc i) bin) len (2 * length key) (Suc i)"
    using i len(1) small c w by (subst hex2bin_loop.simps) simp
  also have "\<dots> = Some (length key, key @ drop (length key) bin)" using i Suc.hyps(2) by (intro Suc.hyps(1)) auto
  finally show ?case .
qed

section \<open>Decimal numbers\<close>

lemma takeWhile_digits:
  assumes "\<forall>c \<in> set ds. is_digit c" "\<not> is_digit e"
  shows "takeWhile is_digit (ds @ e # rest) = ds" "takeWhile is_digit ds = ds"
  using assms by (simp_all add: takeWhile_append2)

lemma digit_facts:
  assumes "is_digit c"
  shows "c \<noteq> 0" "c \<noteq> 45" "c \<noteq> 43" "c \<noteq> 46" "\<not> (c = 32 \<or> 9 \<le> c \<and> c \<le> 13)"
  using assms by (auto simp: is_digit_def word_le_nat_alt)

lemma os_atoi_digits:
  assumes "drop p m = ds @ more" "ds \<noteq> []" "\<forall>c \<in> set ds. is_digit c" "more = e # rest" "\<not> is_digit e"
    and "0 \<in> set more"
  shows "os_atoi m p = Some (dec_value ds)"
proof -
  obtain d ds' where ds: "ds = d # ds'" using assms(2) by (cases ds) auto
  have nz: "c \<noteq> 0" if "c \<in> set ds" for c using assms(3) that digit_facts(1) by blast
  obtain s where s: "str_at m p = Some (ds @ s)" "s = [] \<or> (\<exists>r. s = e # r)"
  proof -
    have "takeWhile (\<lambda>c. c \<noteq> 0) (ds @ more) = ds @ takeWhile (\<lambda>c. c \<noteq> 0) more"
      using nz by (intro takeWhile_append2) blast
    then have "str_at m p = Some (ds @ takeWhile (\<lambda>c. c \<noteq> 0) more)"
      using assms(1, 6) by (simp add: str_at_def)
    moreover have "takeWhile (\<lambda>c. c \<noteq> 0) more = [] \<or> (\<exists>r. takeWhile (\<lambda>c. c \<noteq> 0) more = e # r)"
      using assms(4) by simp
    ultimately show ?thesis using that by blast
  qed
  have dig: "is_digit d" using assms(3) ds by simp
  have t: "takeWhile is_digit (ds @ s) = ds"
    using s(2) takeWhile_digits [OF assms(3, 5)] by auto
  have "dropWhile (\<lambda>c. c = 32 \<or> 9 \<le> c \<and> c \<le> 13) (ds @ s) = ds @ s"
    using digit_facts(5) [OF dig] by (auto simp: ds)
  then show ?thesis using s(1) t digit_facts(2, 3) [OF dig] by (simp add: os_atoi_def ds)
qed

lemma str2ip_skip:
  assumes "drop p m = ds @ e # rest" "\<forall>c \<in> set ds. c \<noteq> 46 \<and> c \<noteq> 0" "e \<noteq> 0"
  shows "str2ip_loop m p ip = str2ip_loop m (p + length ds) ip"
  using assms
proof (induction ds arbitrary: p)
  case (Cons d ds)
  have e': "hd (ds @ e # rest) \<noteq> 0" using Cons.prems by (cases ds) auto
  have d1: "drop (p + 1) m = ds @ e # rest" using Cons.prems(1) by (metis add.commute append_Cons drop_drop drop_Suc_Cons drop0 plus_1_eq_Suc)
  have r: "mem_rd m p = Some d" "mem_rd m (p + 1) = Some (hd (ds @ e # rest))"
    using mem_rd_hd [OF Cons.prems(1)] mem_rd_hd [OF d1] by simp_all
  have "str2ip_loop m p ip = str2ip_loop m (p + 1) ip"
    using r e' Cons.prems(2) by (subst str2ip_loop.simps) simp
  then show ?case using Cons.IH [OF d1] Cons.prems(2, 3) by simp
qed simp

lemma str2ip_end:
  assumes "drop p m = ds @ 0 # rest" "\<forall>c \<in> set ds. c \<noteq> 46 \<and> c \<noteq> 0" "ds \<noteq> []"
  shows "str2ip_loop m p ip = Some ip"
proof -
  obtain ds' d where ds: "ds = ds' @ [d]" using assms(3) by (metis rev_exhaust)
  have "str2ip_loop m p ip = str2ip_loop m (p + length ds') ip"
    using assms(1, 2) by (intro str2ip_skip [where e = d and rest = "0 # rest"]) (simp_all add: ds)
  moreover have "drop (p + length ds') m = d # 0 # rest"
    using assms(1) by (metis add.commute append.assoc append_Cons append_Nil append_eq_conv_conj drop_drop ds)
  then have "mem_rd m (p + length ds') = Some d" "mem_rd m (p + length ds' + 1) = Some 0"
    using mem_rd_drop [of m "p + length ds'" 0] mem_rd_drop [of m "p + length ds'" 1] by (simp_all add: mem_rd_def)
  then have "str2ip_loop m (p + length ds') ip = Some ip"
    using assms(2) by (subst str2ip_loop.simps) (simp add: ds)
  ultimately show ?thesis by simp
qed

definition octet :: "u8 list \<Rightarrow> bool" where
  "octet ds \<longleftrightarrow> ds \<noteq> [] \<and> (\<forall>c \<in> set ds. is_digit c)"

lemma octetD: "octet ds \<Longrightarrow> ds \<noteq> []" "octet ds \<Longrightarrow> \<forall>c \<in> set ds. is_digit c"
    "octet ds \<Longrightarrow> \<forall>c \<in> set ds. c \<noteq> 46 \<and> c \<noteq> 0"
  using digit_facts by (auto simp: octet_def)

lemma str2ip_dot:
  assumes m: "drop p m = 46 # ds @ e # rest" and ds: "octet ds" and e: "e = 0 \<or> e = 46" and z: "0 \<in> set (e # rest)"
  shows "str2ip_loop m p ip =
    (let ip = push_bit 8 ip OR dec_value ds
     in if e = 0 then Some ip else str2ip_loop m (p + 1 + length ds) ip)"
proof -
  obtain d ds' where d: "ds = d # ds'" using octetD(1) [OF ds] by (cases ds) auto
  have m1: "drop (p + 1) m = ds @ e # rest" using m by (metis add.commute drop0 drop_Suc_Cons drop_drop plus_1_eq_Suc)
  have m2: "drop (p + 2) m = ds' @ e # rest" using m1 d by (metis add.commute add_2_eq_Suc append_Cons drop0 drop_Suc_Cons drop_drop plus_1_eq_Suc)
  have at: "os_atoi m (p + 1) = Some (dec_value ds)"
    using m1 octetD [OF ds] e z by (intro os_atoi_digits [where more = "e # rest"]) (auto simp: is_digit_def word_le_nat_alt)
  have r: "mem_rd m p = Some 46" using mem_rd_drop [of m p 0] m by (simp add: mem_rd_def)
  let ?ip = "push_bit 8 ip OR dec_value ds"
  have nz: "\<forall>c \<in> set ds'. c \<noteq> 46 \<and> c \<noteq> 0" using octetD(3) [OF ds] d by simp
  obtain e' where e': "mem_rd m (p + 2) = Some e'" "e' = (ds' @ [e]) ! 0"
    using mem_rd_hd [OF m2] by (cases ds') auto
  have l: "str2ip_loop m p ip = (if e' \<noteq> 0 then str2ip_loop m (p + 2) ?ip else Some ?ip)"
    using r at e'(1) by (subst str2ip_loop.simps) (simp add: numeral_2_eq_2)
  show ?thesis
  proof (cases "e = 0")
    case True
    then show ?thesis
    proof (cases "ds' = []")
      case False
      then have "str2ip_loop m (p + 2) ?ip = Some ?ip" using m2 True nz by (intro str2ip_end) auto
      then show ?thesis using l True by simp
    qed (use l e' True in simp)
  next
    case False
    then have "e' \<noteq> 0" using e'(2) nz by (cases ds') auto
    moreover have "str2ip_loop m (p + 2) ?ip = str2ip_loop m (p + 2 + length ds') ?ip"
      using m2 nz False by (rule str2ip_skip)
    ultimately show ?thesis using l False d by (simp add: Let_def)
  qed
qed

lemma drop_next: "drop p m = xs @ ys \<Longrightarrow> drop (p + length xs) m = ys"
  by (metis add.commute append_eq_conv_conj drop_drop)

section \<open>Cutting into tokens\<close>

lemma find_sub_char:
  "c \<notin> set u \<Longrightarrow> find_sub [c] (u @ c # x) = Some (length u)" "c \<notin> set u \<Longrightarrow> find_sub [c] u = None"
  by (induction u) auto

text \<open>\<open>cells e ts\<close>: the tokens \<open>ts\<close>, each with the byte \<open>e\<close> before it; \<open>offsets p ts\<close>: where they start.\<close>

definition cells :: "u8 \<Rightarrow> u8 list list \<Rightarrow> u8 list" where
  "cells e ts = concat (map (Cons e) ts)"

lemma cells_simps [simp]: "cells e [] = []" "cells e (t # ts) = e # t @ cells e ts"
  by (simp_all add: cells_def)

fun offsets :: "nat \<Rightarrow> u8 list list \<Rightarrow> nat list" where
  "offsets p [] = []"
| "offsets p (t # ts) = (p + 1) # offsets (p + 1 + length t) ts"

lemma length_offsets [simp]: "length (offsets p ts) = length ts"
  by (induction ts arbitrary: p) simp_all

lemma str_at_offsets:
  "i < length ts \<Longrightarrow> \<forall>t \<in> set ts. 0 \<notin> set t \<Longrightarrow>
   str_at (P @ cells 0 ts @ 0 # rest) (offsets (length P) ts ! i) = Some (ts ! i)"
proof (induction ts arbitrary: i P)
  case (Cons t ts)
  show ?case
  proof (cases i)
    case 0
    obtain r where r: "cells 0 ts @ 0 # rest = 0 # r" by (cases ts) auto
    have "drop (length P + 1) (P @ cells 0 (t # ts) @ 0 # rest) = t @ 0 # r" using r by simp
    then show ?thesis using 0 Cons.prems(2) by (simp add: str_at_eq)
  next
    case (Suc j)
    have "str_at ((P @ 0 # t) @ cells 0 ts @ 0 # rest) (offsets (length (P @ 0 # t)) ts ! j) = Some (ts ! j)"
      using Cons.prems Suc by (intro Cons.IH) auto
    then show ?thesis using Suc by simp
  qed
qed simp

definition clean :: "u8 \<Rightarrow> u8 list \<Rightarrow> bool" where
  "clean c t \<longleftrightarrow> c \<notin> set t \<and> 0 \<notin> set t"

lemma str_at_cells:
  assumes "c \<noteq> 0" "clean c t" "\<forall>t \<in> set ts. clean c t" "p = length P"
  shows "str_at (P @ t @ cells c ts @ 0 # rest) p = Some (t @ cells c ts)"
proof (rule str_at_eq)
  show "drop p (P @ t @ cells c ts @ 0 # rest) = (t @ cells c ts) @ 0 # rest" using assms(4) by simp
  show "0 \<notin> set (t @ cells c ts)" using assms(1-3) by (auto simp: clean_def cells_def)
qed

lemma os_strstr_cells:
  assumes "c \<noteq> 0" "clean c t" "\<forall>t \<in> set ts. clean c t" "p = length P"
  shows "os_strstr (P @ t @ cells c ts @ 0 # rest) p [c, 0] =
    Some (if ts = [] then None else Some (p + length t))"
proof -
  have "str_at [c, 0] 0 = Some [c]" using assms(1) by (simp add: str_at_def)
  moreover have "find_sub [c] (t @ cells c ts) = (if ts = [] then None else Some (length t))"
    using assms(2) by (cases ts) (simp_all add: clean_def find_sub_char)
  ultimately show ?thesis using str_at_cells [OF assms] by (simp add: os_strstr_def)
qed

lemma strtok_loop_cells:
  assumes "c \<noteq> 0"
  shows "\<forall>t \<in> set ts. clean c t \<Longrightarrow> ts \<noteq> [] \<longrightarrow> last ts \<noteq> [] \<Longrightarrow> cnt + length ts \<le> argv_size \<Longrightarrow>
    argv_size \<le> length argv \<Longrightarrow>
    strtok_loop (P @ cells c ts @ 0 # rest) [c, 0] argv argv_size (if ts = [] then None else Some (length P)) cnt =
      Some (cnt + length ts, P @ cells 0 ts @ 0 # rest,
            take cnt argv @ offsets (length P) ts @ drop (cnt + length ts) argv)"
proof (induction ts arbitrary: P cnt argv)
  case Nil
  then show ?case by (simp add: strtok_loop.simps)
next
  case (Cons t ts)
  let ?m = "P @ c # t @ cells c ts @ 0 # rest" and ?P = "P @ [0]"
  let ?argv = "argv[cnt := length P + 1]"
  have clean: "clean c t" "\<forall>t \<in> set ts. clean c t" using Cons.prems(1) by auto
  have w: "mem_wr ?m (length P) 0 = Some (?P @ t @ cells c ts @ 0 # rest)"
    by (simp add: mem_wr_def list_update_append)
  have sep: "os_strlen [c, 0] 0 = Some 1" using assms by (simp add: os_strlen_def str_at_def)
  have sa: "str_at (?P @ t @ cells c ts @ 0 # rest) (length P + 1) = Some (t @ cells c ts)"
    using assms clean by (intro str_at_cells) auto
  have ss: "os_strstr (?P @ t @ cells c ts @ 0 # rest) (length P + 1) [c, 0] =
      Some (if ts = [] then None else Some (length P + 1 + length t))"
    using assms clean by (intro os_strstr_cells) auto
  have "t @ cells c ts \<noteq> []" using Cons.prems(2) by (cases ts) auto
  then obtain x xs where "t @ cells c ts = x # xs" by (cases "t @ cells c ts") auto
  then have sl: "os_strlen (?P @ t @ cells c ts @ 0 # rest) (length P + 1) = Some (Suc (length xs))"
    unfolding os_strlen_def sa by simp
  have aw: "mem_wr argv cnt (length P + 1) = Some ?argv" using Cons.prems(3, 4) by (simp add: mem_wr_def)
  have "strtok_loop (P @ cells c (t # ts) @ 0 # rest) [c, 0] argv argv_size (Some (length P)) cnt =
      strtok_loop ((?P @ t) @ cells c ts @ 0 # rest) [c, 0] ?argv argv_size
        (if ts = [] then None else Some (length (?P @ t))) (cnt + 1)"
    using Cons.prems(3) w sep sl ss aw by (subst strtok_loop.simps) simp
  also have "\<dots> = Some (cnt + 1 + length ts, (?P @ t) @ cells 0 ts @ 0 # rest,
      take (cnt + 1) ?argv @ offsets (length (?P @ t)) ts @ drop (cnt + 1 + length ts) ?argv)"
    using Cons.prems by (intro Cons.IH) (auto split: if_splits)
  also have "take (cnt + 1) ?argv = take cnt argv @ [length P + 1]"
    using Cons.prems(3, 4) by (simp add: take_Suc_conv_app_nth)
  finally show ?case by simp
qed

section \<open>Properties\<close>

text \<open>C37: Hexadecimal round trip: what \<open>key_str\<close> prints of a key into a buffer that has room for
  two digits a byte and the terminator, \<open>hex2bin\<close> reads back.\<close>

theorem hex2bin_key_str:
  assumes "key \<noteq> []" "2 * length key + 1 \<le> length str_buf" "2 * length key + 2 < 2 ^ 32"
    and "length key \<le> unat len" "length key \<le> length bin"
  shows "\<exists>m. key_str key 0 str_buf = Some m
    \<and> hex2bin (Some (m, 0)) (Some bin) len = Some (length key, Some (key @ drop (length key) bin))"
proof -
  let ?m = "hex_of key @ 0 # drop (2 * length key + 1) str_buf"
  have k: "key_str key 0 str_buf = Some ?m" using key_str_eq [of 0 key str_buf] assms(1, 2) by simp
  have "os_strlen ?m 0 = Some (2 * length key)"
    using os_strlen_eq [of 0 ?m "hex_of key"] hex_of_no_zero by simp
  moreover have "hex2bin_loop ?m 0 bin (unat len) (2 * length key) 0 = Some (length key, key @ drop (length key) bin)"
    using hex2bin_loop_eq [of 0 ?m key _ "unat len" bin 0] assms(3-5) by simp
  ultimately show ?thesis using k by (simp add: hex2bin_def)
qed

theorem hex2bin_key_str_witness:
  "\<exists>m. key_str [0xA5, 0x0f] 0 [0, 0, 0, 0, 0] = Some m
    \<and> hex2bin (Some (m, 0)) (Some [0, 0, 7]) 3
      = Some (length [0xA5, 0x0f :: u8], Some ([0xA5, 0x0f] @ drop (length [0xA5, 0x0f :: u8]) [0, 0, 7]))"
  by (rule hex2bin_key_str) simp_all

text \<open>The buffer size the comment of \<open>key_str\<close> asks for, one byte more than the key, is too small:
  the digits of a two-byte key leave it.\<close>

theorem key_str_comment_too_small:
  assumes "2 \<le> length key"
  shows "key_str key 0 (replicate (length key + 1) 0) = None"
  using assms by (intro key_str_overflow) auto

theorem key_str_comment_too_small_witness:
  "key_str [1, 2] 0 (replicate (length [1, 2 :: u8] + 1) 0) = None"
  by (rule key_str_comment_too_small) simp

text \<open>C27: \<open>os_strtok\<close> cuts a string of tokens joined by one separator character in place: it counts them,
  and entry \<open>i\<close> of \<open>argv\<close> points to token \<open>i\<close>, terminated, as long as \<open>argv\<close> has room and the last token is not
  empty; bytes before and after the string stay as they are.\<close>

theorem os_strtok_tokens:
  assumes "c \<noteq> 0" "clean c t" "\<forall>t \<in> set ts. clean c t" "ts \<noteq> [] \<longrightarrow> last ts \<noteq> []"
    and "int (length ts) + 1 \<le> argv_size" "nat argv_size \<le> length argv"
  shows "\<exists>m' argv'. os_strtok (Some (pre @ t @ cells c ts @ 0 # rest, length pre)) (Some [c, 0]) (Some argv) argv_size
      = Some (length ts + 1, Some (m', argv'))
    \<and> (\<forall>i \<le> length ts. str_at m' (argv' ! i) = Some ((t # ts) ! i))
    \<and> m' = pre @ t @ cells 0 ts @ 0 # rest"
proof -
  let ?P = "pre @ t" and ?argv = "argv[0 := length pre]"
  let ?m = "?P @ cells 0 ts @ 0 # rest"
  let ?argv' = "take 1 ?argv @ offsets (length ?P) ts @ drop (1 + length ts) ?argv"
  have len: "0 < length argv" "1 + length ts \<le> nat argv_size" using assms(5, 6) by auto
  have ss: "os_strstr (pre @ t @ cells c ts @ 0 # rest) (length pre) [c, 0] =
      Some (if ts = [] then None else Some (length pre + length t))"
    using assms(1-3) by (intro os_strstr_cells) auto
  have "strtok_loop (?P @ cells c ts @ 0 # rest) [c, 0] ?argv (nat argv_size)
      (if ts = [] then None else Some (length ?P)) 1 = Some (1 + length ts, ?m, ?argv')"
    using assms len(2) by (intro strtok_loop_cells) auto
  then have r: "os_strtok (Some (pre @ t @ cells c ts @ 0 # rest, length pre)) (Some [c, 0]) (Some argv) argv_size
      = Some (length ts + 1, Some (?m, ?argv'))"
    using ss len(1) assms(5) by (auto simp: os_strtok_def mem_wr_def)
  have "str_at ?m (?argv' ! i) = Some ((t # ts) ! i)" if i: "i \<le> length ts" for i
  proof (cases i)
    case 0
    obtain x where "cells 0 ts @ 0 # rest = 0 # x" by (cases ts) auto
    then have "drop (length pre) ?m = t @ 0 # x" by simp
    then have "str_at ?m (length pre) = Some t" using assms(2) by (intro str_at_eq) (auto simp: clean_def)
    moreover have "?argv' ! 0 = length pre" using len(1) by (simp add: nth_append take_Suc_conv_app_nth)
    ultimately show ?thesis using 0 by simp
  next
    case (Suc j)
    have "?argv' ! i = offsets (length ?P) ts ! j" using Suc i len(1) by (simp add: nth_append take_Suc_conv_app_nth)
    moreover have "str_at ?m (offsets (length ?P) ts ! j) = Some (ts ! j)"
      using Suc i assms(3) by (intro str_at_offsets) (auto simp: clean_def)
    ultimately show ?thesis using Suc by simp
  qed
  then show ?thesis using r by auto
qed

theorem os_strtok_tokens_witness:
  "\<exists>m' argv'. os_strtok (Some ([9] @ [65] @ cells 44 [[], [66, 67]] @ 0 # [8], length [9 :: u8]))
        (Some [44, 0]) (Some [0, 0, 0, 0]) 4
      = Some (length [[], [66, 67 :: u8]] + 1, Some (m', argv'))
    \<and> (\<forall>i \<le> length [[], [66, 67 :: u8]]. str_at m' (argv' ! i) = Some (([65] # [[], [66, 67]]) ! i))
    \<and> m' = [9] @ [65] @ cells 0 [[], [66, 67]] @ 0 # [8]"
  by (rule os_strtok_tokens) (simp_all add: clean_def)

text \<open>A dotted address is packed with its first number in the top octet and then swapped to network
  order, whatever the lengths of the numbers.\<close>

theorem str2ip_dotted:
  assumes "octet a" "octet b" "octet c" "octet d"
    and "drop p m = a @ 46 # b @ 46 # c @ 46 # d @ 0 # rest"
  shows "str2ip m p = Some (os_htonl (push_bit 8 (push_bit 8 (push_bit 8 (dec_value a) OR dec_value b)
    OR dec_value c) OR dec_value d))"
proof -
  let ?pa = "p + length a" let ?pb = "?pa + 1 + length b" let ?pc = "?pb + 1 + length c"
  have da: "drop ?pa m = 46 # b @ 46 # c @ 46 # d @ 0 # rest" using assms(5) by (rule drop_next)
  then have db: "drop ?pb m = 46 # c @ 46 # d @ 0 # rest"
    using drop_next [of ?pa m "46 # b" "46 # c @ 46 # d @ 0 # rest"] by (simp add: add.assoc)
  then have dc: "drop ?pc m = 46 # d @ 0 # rest"
    using drop_next [of ?pb m "46 # c" "46 # d @ 0 # rest"] by (simp add: add.assoc)
  have "os_atoi m p = Some (dec_value a)"
    using assms(5) octetD [OF assms(1)]
    by (intro os_atoi_digits [where e = 46 and more = "46 # b @ 46 # c @ 46 # d @ 0 # rest"])
      (auto simp: is_digit_def word_le_nat_alt)
  moreover have "str2ip_loop m p ip = str2ip_loop m ?pa ip" for ip
    using assms(5) octetD(3) [OF assms(1)] by (rule str2ip_skip) simp
  moreover have "str2ip_loop m ?pa ip = str2ip_loop m ?pb (push_bit 8 ip OR dec_value b)" for ip
    using str2ip_dot [OF da assms(2), of ip] by simp
  moreover have "str2ip_loop m ?pb ip = str2ip_loop m ?pc (push_bit 8 ip OR dec_value c)" for ip
    using str2ip_dot [OF db assms(3), of ip] by simp
  moreover have "str2ip_loop m ?pc ip = Some (push_bit 8 ip OR dec_value d)" for ip
    using str2ip_dot [OF dc assms(4), of ip] by simp
  ultimately show ?thesis by (simp add: str2ip_def)
qed

theorem str2ip_dotted_witness:
  "str2ip [49, 57, 50, 46, 49, 54, 56, 46, 49, 46, 53, 0] 0 =
    Some (os_htonl (push_bit 8 (push_bit 8 (push_bit 8 (dec_value [49, 57, 50]) OR dec_value [49, 54, 56])
      OR dec_value [49]) OR dec_value [53]))"
  by (rule str2ip_dotted [where rest = "[]"]) (simp_all add: octet_def is_digit_def word_le_nat_alt)

text \<open>\<open>str2ip\<close> reads past the end of an empty string and of one that ends in a dot.\<close>

theorem str2ip_overread:
  "str2ip [0] 0 = None \<and> str2ip [49, 46, 0] 0 = None"
  by (simp add: str2ip_def os_atoi_def str_at_def str2ip_loop.simps mem_rd_def)

text \<open>\<open>str2mac\<close> reads the six bytes of an address printed as pairs of hexadecimal digits with any
  separator between them.\<close>

theorem str2mac_printed:
  assumes "drop p m = hexbyte b0 @ s0 # hexbyte b1 @ s1 # hexbyte b2 @ s2 # hexbyte b3 @ s3 # hexbyte b4 @ s4 # hexbyte b5 @ rest"
  shows "str2mac m p = Some [b0, b1, b2, b3, b4, b5]"
proof -
  have n: "drop (q + 3) m = xs" if "drop q m = hexbyte b @ s # xs" for q b s xs
    using drop_next [of q m "hexbyte b @ [s]" xs] that by (simp add: hexbyte_def numeral_3_eq_3)
  note d0 = assms
  note d1 = n [OF d0] note d2 = n [OF d1] note d3 = n [OF d2] note d4 = n [OF d3] note d5 = n [OF d4]
  have "hex2char m p = Some (uint b0)" "hex2char m (p + 3) = Some (uint b1)" "hex2char m (p + 6) = Some (uint b2)"
    "hex2char m (p + 9) = Some (uint b3)" "hex2char m (p + 12) = Some (uint b4)" "hex2char m (p + 15) = Some (uint b5)"
    using hex2char_hexbyte [OF d0] hex2char_hexbyte [OF d1] hex2char_hexbyte [OF d2] hex2char_hexbyte [OF d3]
      hex2char_hexbyte [OF d4] hex2char_hexbyte [OF d5] by (simp_all add: add.commute)
  then show ?thesis by (simp add: str2mac_def)
qed

theorem str2mac_printed_witness:
  "str2mac (hexbyte 0x12 @ 58 # hexbyte 0x34 @ 58 # hexbyte 0x56 @ 58 # hexbyte 0x78 @ 58 # hexbyte 0x9a @ 58
     # hexbyte 0xbc @ [0]) 0 = Some [0x12, 0x34, 0x56, 0x78, 0x9a, 0xbc]"
  by (rule str2mac_printed [where rest = "[0]"]) simp

end
