(* ===== verification/Console.thy ===== *)
theory Console
  imports Strings
begin

unbundle bit_operations_syntax

text \<open>
  The console of \<open>sdk/lib/common/string.c\<close>: the print settings, the output of a text to the redirection hook, the
  UART and the error log, and \<open>hgvprintf\<close>, which formats into a static buffer of 256 bytes.

  What the C library renders is an argument: the text \<open>vsnprintf\<close> would print for the format left
  after the level prefix (\<open>None\<close> when it fails) and the texts of the time stamps. The buffer and
  every access to it are modelled; the outputs are recorded in order.
\<close>

abbreviation PRINT_BUFF_SIZE :: nat where "PRINT_BUFF_SIZE \<equiv> 256"

datatype print_out = Hook nat "u8 list" nat | Uart "u8 list" | Errlog "u8 list" nat int

record console =
  print_hook :: bool
  print_hook_priv :: nat
  print_level_now :: int
  print_ctrl :: u8
  print_buff_p :: "u8 list"

definition PRINT_DISABLED :: u8 where "PRINT_DISABLED = 1"
definition PRINT_COLOR_DISABLED :: u8 where "PRINT_COLOR_DISABLED = 2"
definition PRINT_TIME_DISABLED :: u8 where "PRINT_TIME_DISABLED = 4"
definition PRINT_TIME_NTP :: u8 where "PRINT_TIME_NTP = 8"
definition PRINT_REDIRECT_DUAL :: u8 where "PRINT_REDIRECT_DUAL = 16"

lemmas print_flags = PRINT_DISABLED_def PRINT_COLOR_DISABLED_def PRINT_TIME_DISABLED_def
  PRINT_TIME_NTP_def PRINT_REDIRECT_DUAL_def

text \<open>The escape sequences; entry 8 ends a colour.\<close>

definition print_color :: "nat \<Rightarrow> u8 list" where
  "print_color i =
     [[27, 91, 52, 48, 59, 51, 53, 59, 55, 109], [27, 91, 52, 48, 59, 51, 53, 59, 55, 109],
      [27, 91, 52, 48, 59, 51, 53, 59, 55, 109], [27, 91, 52, 48, 59, 51, 49, 109],
      [27, 91, 52, 48, 59, 51, 51, 109], [27, 91, 52, 48, 59, 51, 50, 109],
      [27, 91, 52, 48, 59, 51, 52, 109], [27, 91, 52, 48, 59, 51, 48, 109], [27, 91, 48, 109]] ! i"

definition set_ctrl :: "bool \<Rightarrow> u8 \<Rightarrow> console \<Rightarrow> console" where
  "set_ctrl on flag st = st\<lparr>print_ctrl := (if on then print_ctrl st OR flag else print_ctrl st AND NOT flag)\<rparr>"

definition print_redirect :: "bool \<Rightarrow> nat \<Rightarrow> u8 \<Rightarrow> console \<Rightarrow> console" where
  "print_redirect print priv dual_out st =
     set_ctrl (dual_out \<noteq> 0) PRINT_REDIRECT_DUAL (st\<lparr>print_hook := print, print_hook_priv := priv\<rparr>)"

definition print_level :: "int \<Rightarrow> console \<Rightarrow> console" where
  "print_level level st = st\<lparr>print_level_now := level\<rparr>"

definition disable_print :: "int \<Rightarrow> console \<Rightarrow> console" where
  "disable_print dis = set_ctrl (dis \<noteq> 0) PRINT_DISABLED"

definition disable_print_color :: "int \<Rightarrow> console \<Rightarrow> console" where
  "disable_print_color dis = set_ctrl (dis \<noteq> 0) PRINT_COLOR_DISABLED"

definition disable_print_time :: "int \<Rightarrow> console \<Rightarrow> console" where
  "disable_print_time dis = set_ctrl (dis \<noteq> 0) PRINT_TIME_DISABLED"

definition print_with_ntp :: "u8 \<Rightarrow> console \<Rightarrow> console" where
  "print_with_ntp en = set_ctrl (en \<noteq> 0) PRINT_TIME_NTP"

section \<open>Output\<close>

text \<open>A length of 0 asks for the string up to its terminator.\<close>

definition hgprintf_uart :: "u8 list \<Rightarrow> nat \<Rightarrow> print_out list option" where
  "hgprintf_uart str len = do {
     len \<leftarrow> (if len = 0 then os_strlen str 0 else Some len);
     cs \<leftarrow> mem_src str 0 len;
     Some [Uart cs] }"

definition hgprintf_out :: "u8 list \<Rightarrow> nat \<Rightarrow> int \<Rightarrow> console \<Rightarrow> print_out list option" where
  "hgprintf_out str len level st =
     (if print_level_now st \<noteq> 0 \<and> level > print_level_now st then Some []
      else
        let level = (if level > 7 then 7 else level);
            color = (if level < 7 \<and> print_ctrl st AND PRINT_COLOR_DISABLED = 0 then nat level else 0);
            on = (if color \<noteq> 0 then [(print_color color, 0)] else []);
            off = (if color \<noteq> 0 then [(print_color 8, 0)] else []);
            parts = on @ [(str, len)] @ off;
            hooked = (if print_hook st then map (\<lambda>(s, l). Hook (print_hook_priv st) s l) parts else [])
        in do {
          text \<leftarrow> (if \<not> print_hook st \<or> print_ctrl st AND PRINT_REDIRECT_DUAL \<noteq> 0
                  then do {
                    a \<leftarrow> (if color \<noteq> 0 then hgprintf_uart (print_color color @ [0]) 0 else Some []);
                    b \<leftarrow> hgprintf_uart str len;
                    c \<leftarrow> (if color \<noteq> 0 then hgprintf_uart (print_color 8 @ [0]) 0 else Some []);
                    Some (a @ b @ c) }
                  else Some []);
          Some (hooked @ text @ map (\<lambda>(s, l). Errlog s l level) parts) })"

section \<open>Formatting\<close>

text \<open>\<open>vsnprintf(buf + off, n, ...)\<close> of a text stores at most \<open>n - 1\<close> characters and a 0.\<close>

definition vsnprintf_at :: "u8 list \<Rightarrow> nat \<Rightarrow> nat \<Rightarrow> u8 list \<Rightarrow> u8 list option" where
  "vsnprintf_at buf off n text = (if n = 0 then Some buf else mem_dst buf off (take (n - 1) text @ [0]))"

text \<open>The end of \<open>hgvprintf\<close>: a lone newline becomes a carriage return and a newline. The index \<open>len - 2\<close> of a
  text of length 1 lies before the buffer.\<close>

definition crlf_fix :: "u8 list \<Rightarrow> nat \<Rightarrow> (u8 list \<times> nat) option" where
  "crlf_fix buf len = do {
     c \<leftarrow> mem_rd buf (len - 1);
     (buf, len) \<leftarrow>
       (if c = 10 then do {
          b \<leftarrow> (if len < 2 then None else mem_rd buf (len - 2));
          if b \<noteq> 13 then do {
            buf \<leftarrow> mem_wr buf (len - 1) 13;
            buf \<leftarrow> mem_wr buf len 10;
            Some (buf, len + 1) }
          else Some (buf, len) }
        else Some (buf, len));
     buf \<leftarrow> mem_wr buf len 0;
     Some (buf, len) }"

definition hgvprintf ::
  "u8 list \<Rightarrow> (nat \<Rightarrow> u8 list option) \<Rightarrow> u8 list \<Rightarrow> u8 list option \<Rightarrow> console
   \<Rightarrow> (console \<times> print_out list) option" where
  "hgvprintf fmt render tick_text ntp_text st =
     (if print_ctrl st AND PRINT_DISABLED \<noteq> 0 then Some (st, [])
      else do {
        c \<leftarrow> mem_rd fmt 0;
        let (tick, p) = (if c = 2 then (print_ctrl st AND PRINT_TIME_DISABLED = 0, 1) else (False, 0));
        c \<leftarrow> mem_rd fmt p;
        (level, p) \<leftarrow> (if c = 1 then do { l \<leftarrow> mem_rd fmt (p + 1); Some (uint (l - 48), p + 2) }
                       else Some (7, p));
        if print_level_now st \<noteq> 0 \<and> level > print_level_now st then Some (st, [])
        else do {
          let stamp = (if tick then tick_text @
                         (if print_ctrl st AND PRINT_TIME_NTP \<noteq> 0 then case_option [] id ntp_text else [])
                       else []);
          buf \<leftarrow> (if tick then mem_dst (print_buff_p st) 0 (stamp @ [0]) else Some (print_buff_p st));
          let len = length stamp;
          let room = PRINT_BUFF_SIZE - 2 - len;
          (buf, len) \<leftarrow>
            (case render p of
               None \<Rightarrow> do { buf \<leftarrow> mem_wr buf 254 10; buf \<leftarrow> mem_wr buf 253 13; Some (buf, 255) }
             | Some text \<Rightarrow> do {
                 buf \<leftarrow> vsnprintf_at buf len room text;
                 if length text > room
                 then do { buf \<leftarrow> mem_wr buf 254 10; buf \<leftarrow> mem_wr buf 253 13; Some (buf, 255) }
                 else Some (buf, len + length text) });
          if len > 0 then do {
            (buf, len) \<leftarrow> crlf_fix buf len;
            outs \<leftarrow> hgprintf_out buf len level st;
            Some (st\<lparr>print_buff_p := buf\<rparr>, outs) }
          else Some (st\<lparr>print_buff_p := buf\<rparr>, []) } })"

section \<open>Line ends\<close>

text \<open>The text as it leaves: a final newline without a carriage return gets one.\<close>

definition crlf :: "u8 list \<Rightarrow> u8 list" where
  "crlf s = (if 2 \<le> length s \<and> last s = 10 \<and> s ! (length s - 2) \<noteq> 13 then butlast s @ [13, 10] else s)"

lemma crlf_fix_eq:
  assumes "take len buf = s" "len = length s" "0 < len" "len < 255" "length buf = 256" "s \<noteq> [10]"
  shows "\<exists>buf'. crlf_fix buf len = Some (buf', length (crlf s)) \<and> take (length (crlf s)) buf' = crlf s
    \<and> length buf' = 256"
proof -
  have ne: "s \<noteq> []" using assms(2, 3) by auto
  have nth: "buf ! i = s ! i" if "i < len" for i using assms(1) that by (metis nth_take)
  have lst: "buf ! (len - 1) = last s" using nth [of "len - 1"] ne assms(2, 3) by (simp add: last_conv_nth)
  have r: "mem_rd buf (len - 1) = Some (last s)" using assms(4, 5) lst by (simp add: mem_rd_def)
  show ?thesis
  proof (cases "last s = 10")
    case False
    then show ?thesis using r assms by (simp add: crlf_fix_def crlf_def mem_wr_def)
  next
    case True
    have two: "2 \<le> len"
    proof (rule ccontr)
      assume "\<not> 2 \<le> len"
      then have "length s = 1" using assms(2, 3) by linarith
      then have "s = [last s]" by (cases s) auto
      then show False using True assms(6) by simp
    qed
    have r2: "mem_rd buf (len - 2) = Some (s ! (len - 2))"
      using nth [of "len - 2"] two assms(4, 5) by (simp add: mem_rd_def)
    show ?thesis
    proof (cases "s ! (len - 2) = 13")
      case True
      then show ?thesis using r r2 \<open>last s = 10\<close> two assms by (simp add: crlf_fix_def crlf_def mem_wr_def)
    next
      case False
      let ?b = "buf[len - 1 := 13, len := 10, Suc len := 0]"
      have c: "crlf s = butlast s @ [13, 10]" using False True two assms(2) by (simp add: crlf_def)
      have "crlf_fix buf len = Some (?b, Suc len)"
        using r r2 True False two assms(4, 5) by (simp add: crlf_fix_def mem_wr_def)
      moreover have "take (Suc len) ?b = butlast s @ [13, 10]"
      proof (rule nth_equalityI)
        show "length (take (Suc len) ?b) = length (butlast s @ [13, 10])" using assms(2, 4, 5) two by simp
      next
        fix i assume "i < length (take (Suc len) ?b)"
        then have i: "i < Suc len" by simp
        consider "i < len - 1" | "i = len - 1" | "i = len" using i by linarith
        then show "take (Suc len) ?b ! i = (butlast s @ [13, 10]) ! i"
          using nth [of i] two assms(2, 4, 5) by cases (auto simp: nth_append nth_butlast nth_list_update)
      qed
      moreover have "length (crlf s) = Suc len" using two assms(2) unfolding c by simp
      ultimately show ?thesis using c assms(5) by simp
    qed
  qed
qed

definition plain_fmt :: "u8 list \<Rightarrow> bool" where
  "plain_fmt fmt \<longleftrightarrow> fmt \<noteq> [] \<and> hd fmt \<noteq> 1 \<and> hd fmt \<noteq> 2"

definition quiet_console :: "console \<Rightarrow> bool" where
  "quiet_console st \<longleftrightarrow> print_ctrl st AND PRINT_DISABLED = 0 \<and> \<not> print_hook st
     \<and> (print_level_now st = 0 \<or> 7 \<le> print_level_now st) \<and> length (print_buff_p st) = 256"

lemma hgvprintf_plain:
  assumes "plain_fmt fmt" "quiet_console st" "render 0 = Some s" "s \<noteq> []"
    and "vsnprintf_at (print_buff_p st) 0 254 s = Some b1"
  shows "length s \<le> 254 \<Longrightarrow> hgvprintf fmt render tick ntp st = do {
     (buf, len) \<leftarrow> crlf_fix b1 (length s);
     outs \<leftarrow> hgprintf_out buf len 7 st;
     Some (st\<lparr>print_buff_p := buf\<rparr>, outs) }"
    "254 < length s \<Longrightarrow> length b1 = 256 \<Longrightarrow> hgvprintf fmt render tick ntp st = do {
     (buf, len) \<leftarrow> crlf_fix (b1[254 := 10, 253 := 13]) 255;
     outs \<leftarrow> hgprintf_out buf len 7 st;
     Some (st\<lparr>print_buff_p := buf\<rparr>, outs) }"
proof -
  obtain c fmt' where f: "fmt = c # fmt'" "c \<noteq> 1" "c \<noteq> 2" using assms(1) by (cases fmt) (auto simp: plain_fmt_def)
  have "mem_rd fmt 0 = Some c" by (simp add: f mem_rd_def)
  moreover have "\<not> (print_level_now st \<noteq> 0 \<and> 7 > print_level_now st)"
    using assms(2) by (auto simp: quiet_console_def)
  ultimately show "length s \<le> 254 \<Longrightarrow> hgvprintf fmt render tick ntp st = do {
     (buf, len) \<leftarrow> crlf_fix b1 (length s);
     outs \<leftarrow> hgprintf_out buf len 7 st;
     Some (st\<lparr>print_buff_p := buf\<rparr>, outs) }"
    "254 < length s \<Longrightarrow> length b1 = 256 \<Longrightarrow> hgvprintf fmt render tick ntp st = do {
     (buf, len) \<leftarrow> crlf_fix (b1[254 := 10, 253 := 13]) 255;
     outs \<leftarrow> hgprintf_out buf len 7 st;
     Some (st\<lparr>print_buff_p := buf\<rparr>, outs) }"
    using f assms(2-5) by (simp_all add: hgvprintf_def quiet_console_def mem_wr_def del: de_Morgan_conj)
qed

lemma hgprintf_out_quiet:
  assumes "quiet_console st" "0 < len" "len \<le> length buf"
  shows "hgprintf_out buf len 7 st = Some [Uart (take len buf), Errlog buf len 7]"
  using assms by (auto simp: hgprintf_out_def quiet_console_def hgprintf_uart_def mem_src_def)

lemma vsnprintf_fits:
  assumes "length (buf :: u8 list) = 256" "n = min 253 (length s)"
  shows "vsnprintf_at buf 0 254 s = Some (take 253 s @ 0 # drop (n + 1) buf)"
  using assms by (simp add: vsnprintf_at_def mem_dst_def min.commute)

lemma two_elems: "length xs = 2 \<Longrightarrow> \<exists>x y. xs = [x, y]"
  by (auto simp: length_Suc_conv numeral_2_eq_2)

lemma cut_text:
  assumes "length t = 253"
  shows "length (t @ [a, b, y]) = 256" "(t @ [a, b, y]) ! 254 = b" "(t @ [a, b, y]) ! 253 = a"
    "take 255 ((t @ [a, b, y])[255 := z]) = t @ [a, b]"
    "(t @ [w, x, y])[254 := b, 253 := a] = t @ [a, b, y]"
proof -
  have "length t = n \<Longrightarrow> (t @ [a, b, y]) ! (n + 1) = b \<and> (t @ [a, b, y]) ! n = a
      \<and> take (n + 2) ((t @ [a, b, y])[n + 2 := z]) = t @ [a, b]
      \<and> (t @ [w, x, y])[n + 1 := b, n := a] = t @ [a, b, y]" for n
    by (simp add: nth_append list_update_append)
  from this [OF assms] show "length (t @ [a, b, y]) = 256" "(t @ [a, b, y]) ! 254 = b"
    "(t @ [a, b, y]) ! 253 = a" "take 255 ((t @ [a, b, y])[255 := z]) = t @ [a, b]"
    "(t @ [w, x, y])[254 := b, 253 := a] = t @ [a, b, y]"
    using assms by simp_all
qed

section \<open>Properties\<close>


definition console0 :: console where
  "console0 = \<lparr>print_hook = False, print_hook_priv = 0, print_level_now = 0, print_ctrl = 0,
     print_buff_p = replicate 256 0\<rparr>"


text \<open>Printing a lone newline reads the byte before the buffer.\<close>

theorem hgvprintf_newline_underread:
  assumes "plain_fmt fmt" "quiet_console st" "render 0 = Some [10]"
  shows "hgvprintf fmt render tick ntp st = None"
proof -
  have l: "length (print_buff_p st) = 256" using assms(2) by (simp add: quiet_console_def)
  have v: "vsnprintf_at (print_buff_p st) 0 254 [10] = Some (10 # 0 # drop 2 (print_buff_p st))"
    using vsnprintf_fits [OF l, of 1 "[10]"] by (simp add: numeral_2_eq_2)
  show ?thesis
    using hgvprintf_plain(1) [where render = render and s = "[10]", OF assms(1, 2)] assms(3) v
    by (simp add: crlf_fix_def mem_rd_def)
qed

theorem hgvprintf_newline_underread_witness:
  "hgvprintf [10, 0] (\<lambda>_. Some [10]) [] None console0 = None"
  by (rule hgvprintf_newline_underread) (simp_all add: plain_fmt_def quiet_console_def console0_def)

text \<open>A longer text is cut: from 255 characters on its first 253 are printed, followed by a
  carriage return and a newline; one of exactly 254 loses its last character to a 0 byte, which is printed.\<close>

theorem hgvprintf_long:
  assumes "plain_fmt fmt" "quiet_console st" "render 0 = Some s" "254 \<le> length s"
  shows "\<exists>st' buf len. hgvprintf fmt render tick ntp st =
    Some (st', [Uart (take 253 s @ (if length s = 254 then [0] else [13, 10])), Errlog buf len 7])"
proof -
  have l: "length (print_buff_p st) = 256" using assms(2) by (simp add: quiet_console_def)
  let ?b = "take 253 s @ 0 # drop 254 (print_buff_p st)"
  have v: "vsnprintf_at (print_buff_p st) 0 254 s = Some ?b"
    using vsnprintf_fits [OF l, of 253 s] assms(4) by simp
  have ne: "s \<noteq> []" using assms(4) by auto
  have lt: "length (take 253 s) = 253" using assms(4) by simp
  show ?thesis
  proof (cases "length s = 254")
    case True
    have "crlf_fix ?b 254 = Some (?b[254 := 0], 254)"
      using lt l by (simp add: crlf_fix_def mem_rd_def mem_wr_def nth_append)
    moreover have "take 254 (?b[254 := 0]) = take 253 s @ [0]" using lt by simp
    ultimately show ?thesis using hgvprintf_plain(1) [where render = render, OF assms(1-3) ne v] True l
        hgprintf_out_quiet [OF assms(2), of 254 "?b[254 := 0]"] by simp
  next
    case False
    let ?c = "?b[254 := 10, 253 := 13]"
    have "length (drop 254 (print_buff_p st)) = 2" using l by simp
    then obtain x y where xy: "drop 254 (print_buff_p st) = [x, y]"
      using two_elems by blast
    have c: "?c = take 253 s @ [13, 10, y]" unfolding xy by (rule cut_text(5) [OF lt])
    define d where "d = take 253 s @ [13, 10, y]"
    have d: "length d = 256" "d ! 254 = 10" "d ! 253 = 13" "take 255 (d[255 := 0]) = take 253 s @ [13, 10]"
      unfolding d_def by (rule cut_text [OF lt])+
    then have "crlf_fix d 255 = Some (d[255 := 0], 255)"
      by (simp add: crlf_fix_def mem_rd_def mem_wr_def)
    moreover have "hgvprintf fmt render tick ntp st = do {
       (buf, len) \<leftarrow> crlf_fix d 255;
       outs \<leftarrow> hgprintf_out buf len 7 st;
       Some (st\<lparr>print_buff_p := buf\<rparr>, outs) }"
      unfolding d_def c [symmetric]
    proof (rule hgvprintf_plain(2) [where render = render, OF assms(1-3) ne v])
      show "254 < length s" using False assms(4) by simp
      show "length (take 253 s @ 0 # drop 254 (print_buff_p st)) = 256" using lt l by simp
    qed
    moreover have "hgprintf_out (d[255 := 0]) 255 7 st = Some [Uart (take 253 s @ [13, 10]), Errlog (d[255 := 0]) 255 7]"
      using hgprintf_out_quiet [OF assms(2), of 255 "d[255 := 0]"] d by simp
    ultimately show ?thesis using False by simp
  qed
qed

theorem hgvprintf_long_witness:
  "\<exists>st' buf len. hgvprintf [37, 115, 0] (\<lambda>_. Some (replicate 300 65)) [] None console0 =
    Some (st', [Uart (take 253 (replicate 300 65) @ (if length (replicate 300 (65 :: u8)) = 254 then [0] else [13, 10])),
      Errlog buf len 7])"
  by (rule hgvprintf_long) (simp_all add: plain_fmt_def quiet_console_def console0_def)

end
