(* ===== verification/OsSync.thy ===== *)
theory OsSync
  imports Atomic
begin

text \<open>
  The synchronisation objects of the operating system layer, \<open>sdk/osal/csky/mutex.c\<close>, \<open>semaphore.c\<close> and
  \<open>condv.c\<close>. An object carries a magic number and the handle of a kernel object; the handle is modelled
  by the state of the kernel object (\<open>None\<close> is NULL), with the behaviour the kernel's interface
  \<open>csi_kernel.h\<close> documents: a semaphore is a counter, a mutex has an owner and nests.

  A call that may wait answers \<open>Ret\<close> when it returns at once and \<open>Block\<close> when the caller is suspended;
  what happens to a suspended caller, a wake-up or the timeout, is a later step of the system. An
  \<open>ASSERT\<close> that fails is \<open>None\<close>. Whether the kernel has memory for a new object is an argument.
\<close>

datatype 'a waiting = Ret 'a | Block

abbreviation osWaitForever :: int where "osWaitForever \<equiv> - 1"
abbreviation EPERM :: int where "EPERM \<equiv> 1"

section \<open>Semaphores\<close>

record os_semaphore =
  sem_magic :: u32
  sem_hdl :: "nat option"

definition SEMA_MAGIC :: u32 where "SEMA_MAGIC = 0x3a8d7c1d"

definition csi_kernel_sem_new :: "bool \<Rightarrow> int \<Rightarrow> int \<Rightarrow> nat option" where
  "csi_kernel_sem_new alloc_ok max_count initial_count =
     (if max_count \<le> 0 \<or> initial_count < 0 \<or> max_count < initial_count \<or> \<not> alloc_ok then None
      else Some (nat initial_count))"

definition os_sema_init :: "bool \<Rightarrow> int \<Rightarrow> os_semaphore \<Rightarrow> int \<times> os_semaphore" where
  "os_sema_init alloc_ok val sem =
     (let sem = sem\<lparr>sem_hdl := csi_kernel_sem_new alloc_ok 65535 val\<rparr>
      in if sem_hdl sem \<noteq> None then (RET_OK, sem\<lparr>sem_magic := SEMA_MAGIC\<rparr>) else (RET_ERR, sem))"

text \<open>A wait of 0 ticks does not suspend the caller; a suspended caller whose time is over gets 0.\<close>

definition os_sema_down :: "int \<Rightarrow> os_semaphore \<Rightarrow> (int \<times> os_semaphore) waiting option" where
  "os_sema_down tmo_ms sem = do {
     n \<leftarrow> sem_hdl sem;
     Some (if n > 0 then Ret (1, sem\<lparr>sem_hdl := Some (n - 1)\<rparr>)
           else if tmo_ms = 0 then Ret (0, sem) else Block) }"

definition os_sema_up :: "os_semaphore \<Rightarrow> (int \<times> os_semaphore) option" where
  "os_sema_up sem = do { n \<leftarrow> sem_hdl sem; Some (0, sem\<lparr>sem_hdl := Some (n + 1)\<rparr>) }"

definition os_sema_del :: "os_semaphore \<Rightarrow> (int \<times> os_semaphore) option" where
  "os_sema_del sem = do { _ \<leftarrow> sem_hdl sem; Some (0, sem\<lparr>sem_hdl := None, sem_magic := 0\<rparr>) }"

definition os_sema_count :: "os_semaphore \<Rightarrow> int" where
  "os_sema_count sem = (case sem_hdl sem of None \<Rightarrow> 0 | Some n \<Rightarrow> int n)"

function os_sema_eat :: "os_semaphore \<Rightarrow> os_semaphore" where
  "os_sema_eat sem =
     (if os_sema_count sem > 0 then
        (case os_sema_down 0 sem of Some (Ret (ret, sem')) \<Rightarrow> if ret = 0 then sem' else os_sema_eat sem' | _ \<Rightarrow> sem)
      else sem)"
  by pat_completeness auto
termination
  by (relation "measure (\<lambda>sem. nat (os_sema_count sem))")
    (auto simp: os_sema_count_def os_sema_down_def split: option.splits if_splits)

declare os_sema_eat.simps [simp del]

section \<open>Mutexes\<close>

record kmutex =
  mutex_task :: "nat option"
  owner_nested :: nat

record os_mutex =
  mtx_magic :: u32
  mtx_hdl :: "kmutex option"

definition MUTEX_MAGIC :: u32 where "MUTEX_MAGIC = 0xa8b4c2d5"

definition os_mutex_init :: "bool \<Rightarrow> os_mutex \<Rightarrow> int \<times> os_mutex" where
  "os_mutex_init alloc_ok m =
     (let m = m\<lparr>mtx_hdl := (if alloc_ok then Some \<lparr>mutex_task = None, owner_nested = 0\<rparr> else None)\<rparr>
      in if mtx_hdl m \<noteq> None then (RET_OK, m\<lparr>mtx_magic := MUTEX_MAGIC\<rparr>) else (RET_ERR, m))"

definition os_mutex_lock :: "nat \<Rightarrow> int \<Rightarrow> os_mutex \<Rightarrow> (int \<times> os_mutex) waiting option" where
  "os_mutex_lock self tmo m = do {
     k \<leftarrow> mtx_hdl m;
     Some (case mutex_task k of
         None \<Rightarrow> Ret (0, m\<lparr>mtx_hdl := Some \<lparr>mutex_task = Some self, owner_nested = 1\<rparr>\<rparr>)
       | Some t \<Rightarrow>
           if t = self then Ret (0, m\<lparr>mtx_hdl := Some (k\<lparr>owner_nested := owner_nested k + 1\<rparr>)\<rparr>)
           else if tmo = 0 then Ret (- EPERM, m) else Block) }"

definition os_mutex_unlock :: "nat \<Rightarrow> os_mutex \<Rightarrow> (int \<times> os_mutex) option" where
  "os_mutex_unlock self m = do {
     k \<leftarrow> mtx_hdl m;
     Some (if mutex_task k \<noteq> Some self then (- EPERM, m)
           else if owner_nested k > 1 then (0, m\<lparr>mtx_hdl := Some (k\<lparr>owner_nested := owner_nested k - 1\<rparr>)\<rparr>)
           else (0, m\<lparr>mtx_hdl := Some \<lparr>mutex_task = None, owner_nested = 0\<rparr>\<rparr>)) }"

definition os_mutex_del :: "os_mutex \<Rightarrow> (int \<times> os_mutex) option" where
  "os_mutex_del m = do { _ \<leftarrow> mtx_hdl m; Some (0, m\<lparr>mtx_hdl := None, mtx_magic := 0\<rparr>) }"

definition os_mutex_owner :: "os_mutex \<Rightarrow> nat option option" where
  "os_mutex_owner m = do { k \<leftarrow> mtx_hdl m; Some (mutex_task k) }"

section \<open>Condition variables\<close>

text \<open>
  A condition variable counts its waiters in an atomic counter and lets them wait on a semaphore. A waiter
  enters (\<open>os_condv_enter\<close>: the counter goes up), releases the mutex, waits on the semaphore, takes
  the mutex again and leaves (\<open>os_condv_leave\<close>: the counter goes down). The retry loops around the
  compare-and-exchange make one pass when nothing comes between.
\<close>

record os_condv =
  cv_magic :: u32
  waitings :: u32
  cv_sema :: "nat option"

definition CONDV_MAGIC :: u32 where "CONDV_MAGIC = 0x3a8d7c1d"

definition os_condv_init :: "bool \<Rightarrow> os_condv \<Rightarrow> int \<times> os_condv" where
  "os_condv_init alloc_ok c =
     (let c = c\<lparr>cv_sema := csi_kernel_sem_new alloc_ok 65535 0\<rparr>
      in if cv_sema c \<noteq> None then (RET_OK, c\<lparr>cv_magic := CONDV_MAGIC, waitings := atomic_set (waitings c) 0\<rparr>)
         else (RET_ERR, c))"

definition condv_post :: "nat \<Rightarrow> os_condv \<Rightarrow> os_condv" where
  "condv_post k c = c\<lparr>cv_sema := map_option (\<lambda>n. n + k) (cv_sema c)\<rparr>"

definition os_condv_broadcast :: "os_condv \<Rightarrow> (int \<times> os_condv) option" where
  "os_condv_broadcast c = do {
     let wait = atomic_read (waitings c);
     _ \<leftarrow> assert_that (cv_magic c = CONDV_MAGIC);
     if wait > 0 then
       let (old, w) = atomic_cmpxchg (waitings c) wait 0;
           c = c\<lparr>waitings := w\<rparr>
       in Some (RET_OK, if wait = old then condv_post (unat wait) c else c)
     else Some (RET_OK, c) }"

definition os_condv_signal :: "os_condv \<Rightarrow> (int \<times> os_condv) option" where
  "os_condv_signal c = do {
     let wait = atomic_read (waitings c);
     _ \<leftarrow> assert_that (cv_magic c = CONDV_MAGIC);
     if wait > 0 then
       let (old, w) = atomic_cmpxchg (waitings c) wait (wait - 1);
           c = c\<lparr>waitings := w\<rparr>
       in Some (RET_OK, if wait = old then condv_post 1 c else c)
     else Some (RET_OK, c) }"

definition os_condv_del :: "os_condv \<Rightarrow> (int \<times> os_condv) option" where
  "os_condv_del c = do {
     _ \<leftarrow> assert_that (cv_magic c = CONDV_MAGIC);
     Some (RET_OK, c\<lparr>cv_sema := None, cv_magic := 0\<rparr>) }"

definition os_condv_enter :: "os_condv \<Rightarrow> os_condv option" where
  "os_condv_enter c = do {
     _ \<leftarrow> assert_that (cv_magic c = CONDV_MAGIC);
     Some (c\<lparr>waitings := atomic_inc (waitings c)\<rparr>) }"

text \<open>The wait itself: a post is there, or the time is over.\<close>

definition os_condv_wake :: "os_condv \<Rightarrow> os_condv option" where
  "os_condv_wake c =
     (case cv_sema c of Some (Suc n) \<Rightarrow> Some (c\<lparr>cv_sema := Some n\<rparr>) | _ \<Rightarrow> None)"

definition os_condv_leave :: "os_condv \<Rightarrow> os_condv" where
  "os_condv_leave c = c\<lparr>waitings := atomic_dec (waitings c)\<rparr>"

definition os_condv_ret :: "int \<Rightarrow> int" where
  "os_condv_ret ret = (if ret \<noteq> 0 then - ETIMEDOUT else RET_OK)"

section \<open>Lemmas\<close>

text \<open>A condition variable as its initialisation leaves it: \<open>w\<close> counted waiters, \<open>n\<close> posts.\<close>

definition cv :: "u32 \<Rightarrow> nat \<Rightarrow> os_condv" where
  "cv w n = \<lparr>cv_magic = CONDV_MAGIC, waitings = w, cv_sema = Some n\<rparr>"

named_theorems condv \<open>operations on an initialised condition variable\<close>

lemma os_condv_init_cv [condv]: "os_condv_init True c = (RET_OK, cv 0 0)"
  by (simp add: os_condv_init_def csi_kernel_sem_new_def cv_def atomic_set_def)

lemma os_condv_signal_cv [condv]:
  "os_condv_signal (cv w n) = Some (RET_OK, if w > 0 then cv (w - 1) (n + 1) else cv w n)"
  by (simp add: os_condv_signal_def cv_def atomic_read_def atomic_cmpxchg_def condv_post_def)

lemma os_condv_broadcast_cv [condv]:
  "os_condv_broadcast (cv w n) = Some (RET_OK, cv 0 (n + unat w))"
  by (auto simp: os_condv_broadcast_def cv_def atomic_read_def atomic_cmpxchg_def condv_post_def word_gt_0)

lemma os_condv_enter_cv [condv]: "os_condv_enter (cv w n) = Some (cv (w + 1) n)"
  by (simp add: os_condv_enter_def cv_def atomic_inc_def)

lemma os_condv_wake_cv [condv]:
  "os_condv_wake (cv w n) = (if n > 0 then Some (cv w (n - 1)) else None)"
  by (cases n) (simp_all add: os_condv_wake_def cv_def)

lemma os_condv_leave_cv [condv]: "os_condv_leave (cv w n) = cv (if w > 0 then w - 1 else w) n"
  by (simp add: os_condv_leave_def cv_def atomic_dec_def)

lemma cv_sel [simp]: "waitings (cv w n) = w" "cv_sema (cv w n) = Some n" "cv_magic (cv w n) = CONDV_MAGIC"
  by (simp_all add: cv_def)

lemma cv_eq [simp]: "cv w n = cv w' n' \<longleftrightarrow> w = w' \<and> n = n'"
  by (simp add: cv_def)

lemma os_sema_eat_empty: "sem_hdl sem = Some n \<Longrightarrow> os_sema_eat sem = sem\<lparr>sem_hdl := Some 0\<rparr>"
  by (induction n arbitrary: sem)
    (subst os_sema_eat.simps, simp add: os_sema_count_def os_sema_down_def)+

end
