(* ===== verification/Rwlock.thy ===== *)
theory Rwlock
  imports OsSync
begin

text \<open>
  The read-write lock of \<open>sdk/lib/posix/pthread_rwlock.c\<close> on the condition variables of \<open>OsSync\<close>, run by any number
  of threads. Every function holds \<open>rw_mutex\<close> from its entry to its return or to the point where
  \<open>pthread_cond_wait\<close> releases it, and from where that has taken it again; each such piece is one step.
  A thread in the wait is suspended until the semaphore of the condition variable has a post (or, in
  the timed variants, its time is over) and then competes for the mutex. A post is counted and can be
  taken by any waiter, which allows every order the kernel can choose.

  The entry checks are the same in all functions: \<open>NULL\<close> is refused with \<open>-EINVAL\<close>, and a lock that holds the static
  initialiser (\<open>attr = -1\<close>) is initialised first.
\<close>

section \<open>The lock\<close>

record pthread_rwlock =
  rw_attr :: int
  rw_condreaders :: os_condv
  rw_condwriters :: os_condv
  rw_nwaitreaders :: int
  rw_nwaitwriters :: int
  rw_refcount :: int

definition pthread_rwlock_init :: "pthread_rwlock option \<Rightarrow> int \<times> pthread_rwlock option" where
  "pthread_rwlock_init rw =
     (case rw of None \<Rightarrow> (- EINVAL, None)
      | Some rw \<Rightarrow> (0, Some \<lparr>rw_attr = 0, rw_condreaders = snd (os_condv_init True (rw_condreaders rw)),
          rw_condwriters = snd (os_condv_init True (rw_condwriters rw)),
          rw_nwaitreaders = 0, rw_nwaitwriters = 0, rw_refcount = 0\<rparr>))"

text \<open>The entry of every operation.\<close>

definition rw_entry :: "pthread_rwlock option \<Rightarrow> pthread_rwlock option" where
  "rw_entry rw =
     (case rw of None \<Rightarrow> None
      | Some l \<Rightarrow> if rw_attr l = - 1 then snd (pthread_rwlock_init rw) else rw)"

text \<open>Where a thread is with the lock: outside (with the last return code), waiting as a reader or writer (suspended,
  or awake with the result of the wait and competing for the mutex; the flag tells the timed variants), or holding it.\<close>

datatype rw_pc = Out int | RdWait bool | RdAwake bool int | WrWait bool | WrAwake bool int | RdHold | WrHold

section \<open>Operations, from one release of the mutex to the next\<close>

text \<open>The head of the readers' loop: wait again or take the lock.\<close>

definition rd_loop :: "bool \<Rightarrow> pthread_rwlock \<Rightarrow> (pthread_rwlock \<times> rw_pc) option" where
  "rd_loop timed l =
     (if rw_refcount l < 0 \<or> rw_nwaitwriters l > 0 then do {
        c \<leftarrow> os_condv_enter (rw_condreaders l);
        Some (l\<lparr>rw_nwaitreaders := rw_nwaitreaders l + 1, rw_condreaders := c\<rparr>, RdWait timed) }
      else Some (l\<lparr>rw_refcount := rw_refcount l + 1\<rparr>, RdHold))"

definition pthread_rwlock_rdlock :: "pthread_rwlock option \<Rightarrow> (pthread_rwlock \<times> rw_pc) option" where
  "pthread_rwlock_rdlock rw = do { l \<leftarrow> rw_entry rw; rd_loop False l }"

text \<open>The timed variant differs in the wait only, whose timeout is a step of the system.\<close>

definition pthread_rwlock_timedrdlock :: "pthread_rwlock option \<Rightarrow> (pthread_rwlock \<times> rw_pc) option" where
  "pthread_rwlock_timedrdlock rw = do { l \<leftarrow> rw_entry rw; rd_loop True l }"

definition rd_resume :: "bool \<Rightarrow> int \<Rightarrow> pthread_rwlock \<Rightarrow> (pthread_rwlock \<times> rw_pc) option" where
  "rd_resume timed ret l =
     (let l = l\<lparr>rw_condreaders := os_condv_leave (rw_condreaders l),
                rw_nwaitreaders := rw_nwaitreaders l - 1\<rparr>;
          result = os_condv_ret ret
      in if result \<noteq> 0 then Some (l, Out result) else rd_loop timed l)"

definition pthread_rwlock_tryrdlock :: "pthread_rwlock option \<Rightarrow> (pthread_rwlock \<times> rw_pc) option" where
  "pthread_rwlock_tryrdlock rw = do {
     l \<leftarrow> rw_entry rw;
     Some (if rw_refcount l < 0 \<or> rw_nwaitwriters l > 0 then (l, Out (- EBUSY))
           else (l\<lparr>rw_refcount := rw_refcount l + 1\<rparr>, RdHold)) }"

definition wr_loop :: "bool \<Rightarrow> pthread_rwlock \<Rightarrow> (pthread_rwlock \<times> rw_pc) option" where
  "wr_loop timed l =
     (if rw_refcount l \<noteq> 0 then do {
        c \<leftarrow> os_condv_enter (rw_condwriters l);
        Some (l\<lparr>rw_nwaitwriters := rw_nwaitwriters l + 1, rw_condwriters := c\<rparr>, WrWait timed) }
      else Some (l\<lparr>rw_refcount := - 1\<rparr>, WrHold))"

definition pthread_rwlock_wrlock :: "pthread_rwlock option \<Rightarrow> (pthread_rwlock \<times> rw_pc) option" where
  "pthread_rwlock_wrlock rw = do { l \<leftarrow> rw_entry rw; wr_loop False l }"

definition pthread_rwlock_timedwrlock :: "pthread_rwlock option \<Rightarrow> (pthread_rwlock \<times> rw_pc) option" where
  "pthread_rwlock_timedwrlock rw = do { l \<leftarrow> rw_entry rw; wr_loop True l }"

definition wr_resume :: "bool \<Rightarrow> int \<Rightarrow> pthread_rwlock \<Rightarrow> (pthread_rwlock \<times> rw_pc) option" where
  "wr_resume timed ret l =
     (let l = l\<lparr>rw_condwriters := os_condv_leave (rw_condwriters l),
                rw_nwaitwriters := rw_nwaitwriters l - 1\<rparr>;
          result = os_condv_ret ret
      in if result \<noteq> 0 then Some (l, Out result) else wr_loop timed l)"

definition pthread_rwlock_trywrlock :: "pthread_rwlock option \<Rightarrow> (pthread_rwlock \<times> rw_pc) option" where
  "pthread_rwlock_trywrlock rw = do {
     l \<leftarrow> rw_entry rw;
     Some (if rw_refcount l \<noteq> 0 then (l, Out (- EBUSY)) else (l\<lparr>rw_refcount := - 1\<rparr>, WrHold)) }"

definition pthread_rwlock_unlock :: "pthread_rwlock option \<Rightarrow> (pthread_rwlock \<times> rw_pc) option" where
  "pthread_rwlock_unlock rw = do {
     l \<leftarrow> rw_entry rw;
     let l = (if rw_refcount l > 0 then l\<lparr>rw_refcount := rw_refcount l - 1\<rparr>
              else if rw_refcount l = - 1 then l\<lparr>rw_refcount := 0\<rparr> else l);
     if rw_nwaitwriters l > 0 then
       if rw_refcount l = 0 then do {
         (result, c) \<leftarrow> os_condv_signal (rw_condwriters l);
         Some (l\<lparr>rw_condwriters := c\<rparr>, Out result) }
       else Some (l, Out 0)
     else if rw_nwaitreaders l > 0 then do {
       (result, c) \<leftarrow> os_condv_broadcast (rw_condreaders l);
       Some (l\<lparr>rw_condreaders := c\<rparr>, Out result) }
     else Some (l, Out 0) }"

text \<open>Destroying: the answer says too whether \<open>rw_mutex\<close> has been given back.\<close>

definition pthread_rwlock_destroy :: "pthread_rwlock option \<Rightarrow> (int \<times> bool \<times> pthread_rwlock option) option" where
  "pthread_rwlock_destroy rw =
     (case rw of None \<Rightarrow> Some (- EINVAL, True, None)
      | Some l \<Rightarrow>
          if rw_attr l = - 1 then Some (0, True, rw)
          else if rw_refcount l \<noteq> 0 \<or> rw_nwaitreaders l \<noteq> 0 \<or> rw_nwaitwriters l \<noteq> 0
          then Some (- EBUSY, False, rw)
          else do {
            (_, c) \<leftarrow> os_condv_del (rw_condreaders l);
            (_, d) \<leftarrow> os_condv_del (rw_condwriters l);
            Some (0, True, Some (l\<lparr>rw_condreaders := c, rw_condwriters := d\<rparr>)) })"

section \<open>Threads\<close>

record rw_system =
  lock :: pthread_rwlock
  threads :: "rw_pc list"

inductive rw_step :: "rw_system \<Rightarrow> nat \<Rightarrow> rw_system \<Rightarrow> bool" where
  rdlock: "i < length ts \<Longrightarrow> ts ! i = Out r \<Longrightarrow> pthread_rwlock_rdlock (Some l) = Some (l', p) \<Longrightarrow>
    rw_step \<lparr>lock = l, threads = ts\<rparr> i \<lparr>lock = l', threads = ts[i := p]\<rparr>"
| timedrdlock: "i < length ts \<Longrightarrow> ts ! i = Out r \<Longrightarrow> pthread_rwlock_timedrdlock (Some l) = Some (l', p) \<Longrightarrow>
    rw_step \<lparr>lock = l, threads = ts\<rparr> i \<lparr>lock = l', threads = ts[i := p]\<rparr>"
| tryrdlock: "i < length ts \<Longrightarrow> ts ! i = Out r \<Longrightarrow> pthread_rwlock_tryrdlock (Some l) = Some (l', p) \<Longrightarrow>
    rw_step \<lparr>lock = l, threads = ts\<rparr> i \<lparr>lock = l', threads = ts[i := p]\<rparr>"
| wrlock: "i < length ts \<Longrightarrow> ts ! i = Out r \<Longrightarrow> pthread_rwlock_wrlock (Some l) = Some (l', p) \<Longrightarrow>
    rw_step \<lparr>lock = l, threads = ts\<rparr> i \<lparr>lock = l', threads = ts[i := p]\<rparr>"
| timedwrlock: "i < length ts \<Longrightarrow> ts ! i = Out r \<Longrightarrow> pthread_rwlock_timedwrlock (Some l) = Some (l', p) \<Longrightarrow>
    rw_step \<lparr>lock = l, threads = ts\<rparr> i \<lparr>lock = l', threads = ts[i := p]\<rparr>"
| trywrlock: "i < length ts \<Longrightarrow> ts ! i = Out r \<Longrightarrow> pthread_rwlock_trywrlock (Some l) = Some (l', p) \<Longrightarrow>
    rw_step \<lparr>lock = l, threads = ts\<rparr> i \<lparr>lock = l', threads = ts[i := p]\<rparr>"
| unlock: "i < length ts \<Longrightarrow> ts ! i \<in> {RdHold, WrHold} \<Longrightarrow> pthread_rwlock_unlock (Some l) = Some (l', p) \<Longrightarrow>
    rw_step \<lparr>lock = l, threads = ts\<rparr> i \<lparr>lock = l', threads = ts[i := p]\<rparr>"
| rd_wake: "i < length ts \<Longrightarrow> ts ! i = RdWait b \<Longrightarrow> os_condv_wake (rw_condreaders l) = Some c \<Longrightarrow>
    rw_step \<lparr>lock = l, threads = ts\<rparr> i \<lparr>lock = l\<lparr>rw_condreaders := c\<rparr>, threads = ts[i := RdAwake b 0]\<rparr>"
| wr_wake: "i < length ts \<Longrightarrow> ts ! i = WrWait b \<Longrightarrow> os_condv_wake (rw_condwriters l) = Some c \<Longrightarrow>
    rw_step \<lparr>lock = l, threads = ts\<rparr> i \<lparr>lock = l\<lparr>rw_condwriters := c\<rparr>, threads = ts[i := WrAwake b 0]\<rparr>"
| rd_timeout: "i < length ts \<Longrightarrow> ts ! i = RdWait True \<Longrightarrow>
    rw_step \<lparr>lock = l, threads = ts\<rparr> i \<lparr>lock = l, threads = ts[i := RdAwake True (- ETIMEDOUT)]\<rparr>"
| wr_timeout: "i < length ts \<Longrightarrow> ts ! i = WrWait True \<Longrightarrow>
    rw_step \<lparr>lock = l, threads = ts\<rparr> i \<lparr>lock = l, threads = ts[i := WrAwake True (- ETIMEDOUT)]\<rparr>"
| rd_resume: "i < length ts \<Longrightarrow> ts ! i = RdAwake b r \<Longrightarrow> rd_resume b r l = Some (l', p) \<Longrightarrow>
    rw_step \<lparr>lock = l, threads = ts\<rparr> i \<lparr>lock = l', threads = ts[i := p]\<rparr>"
| wr_resume: "i < length ts \<Longrightarrow> ts ! i = WrAwake b r \<Longrightarrow> wr_resume b r l = Some (l', p) \<Longrightarrow>
    rw_step \<lparr>lock = l, threads = ts\<rparr> i \<lparr>lock = l', threads = ts[i := p]\<rparr>"

definition rw_start :: "nat \<Rightarrow> rw_system" where
  "rw_start n = \<lparr>lock = \<lparr>rw_attr = 0, rw_condreaders = cv 0 0, rw_condwriters = cv 0 0,
     rw_nwaitreaders = 0, rw_nwaitwriters = 0, rw_refcount = 0\<rparr>, threads = replicate n (Out 0)\<rparr>"

inductive rw_reach :: "nat \<Rightarrow> rw_system \<Rightarrow> bool" for n where
  rw_start: "rw_reach n (rw_start n)"
| rw_next: "rw_reach n s \<Longrightarrow> rw_step s i s' \<Longrightarrow> rw_reach n s'"

section \<open>Counting threads\<close>

fun is_rd_waiting :: "rw_pc \<Rightarrow> bool" where
  "is_rd_waiting (RdWait _) = True" | "is_rd_waiting (RdAwake _ _) = True" | "is_rd_waiting _ = False"

fun is_wr_waiting :: "rw_pc \<Rightarrow> bool" where
  "is_wr_waiting (WrWait _) = True" | "is_wr_waiting (WrAwake _ _) = True" | "is_wr_waiting _ = False"

section \<open>The invariant\<close>

text \<open>
  The counters of the lock count the threads: \<open>rw_refcount\<close> is -1 with one writer and no reader inside, and
  the number of readers otherwise; the waiting counters count the waiting threads.
\<close>

definition rw_inv :: "rw_system \<Rightarrow> bool" where
  "rw_inv s \<longleftrightarrow>
     (let l = lock s; ts = threads s; w = num (\<lambda>p. p = WrHold) ts; r = num (\<lambda>p. p = RdHold) ts
      in rw_attr l = 0
       \<and> (\<exists>a b. rw_condreaders l = cv a b) \<and> (\<exists>a b. rw_condwriters l = cv a b)
       \<and> (w = 0 \<and> rw_refcount l = r \<or> w = 1 \<and> r = 0 \<and> rw_refcount l = - 1)
       \<and> rw_nwaitreaders l = num is_rd_waiting ts \<and> rw_nwaitwriters l = num is_wr_waiting ts)"

text \<open>One thread moves from \<open>q\<close> to \<open>p\<close> and the lock from \<open>l\<close> to \<open>l'\<close>: what keeps the invariant.\<close>

abbreviation is1 :: "bool \<Rightarrow> int" where "is1 b \<equiv> (if b then 1 else 0)"

definition rw_moves :: "pthread_rwlock \<Rightarrow> rw_pc \<Rightarrow> pthread_rwlock \<Rightarrow> rw_pc \<Rightarrow> bool" where
  "rw_moves l q l' p \<longleftrightarrow> rw_attr l' = 0
     \<and> (\<exists>a b. rw_condreaders l' = cv a b) \<and> (\<exists>a b. rw_condwriters l' = cv a b)
     \<and> rw_nwaitreaders l' = rw_nwaitreaders l - is1 (is_rd_waiting q) + is1 (is_rd_waiting p)
     \<and> rw_nwaitwriters l' = rw_nwaitwriters l - is1 (is_wr_waiting q) + is1 (is_wr_waiting p)
     \<and> (rw_refcount l' = rw_refcount l \<and> (p = WrHold \<longleftrightarrow> q = WrHold) \<and> (p = RdHold \<longleftrightarrow> q = RdHold)
        \<or> rw_refcount l \<ge> 0 \<and> rw_refcount l' = rw_refcount l + 1 \<and> p = RdHold \<and> p \<noteq> WrHold \<and> q \<noteq> RdHold \<and> q \<noteq> WrHold
        \<or> rw_refcount l = 0 \<and> rw_refcount l' = - 1 \<and> p = WrHold \<and> p \<noteq> RdHold \<and> q \<noteq> RdHold \<and> q \<noteq> WrHold
        \<or> rw_refcount l > 0 \<and> rw_refcount l' = rw_refcount l - 1 \<and> q = RdHold \<and> q \<noteq> WrHold \<and> p \<noteq> RdHold \<and> p \<noteq> WrHold
        \<or> rw_refcount l = - 1 \<and> rw_refcount l' = 0 \<and> q = WrHold \<and> q \<noteq> RdHold \<and> p \<noteq> RdHold \<and> p \<noteq> WrHold)"

lemma count_move:
  fixes W R rc rc' :: int
  assumes "W = 0 \<and> rc = R \<or> W = 1 \<and> R = 0 \<and> rc = - 1" "0 \<le> R" "b \<Longrightarrow> 0 < R" "a \<Longrightarrow> 0 < W"
    and "rc' = rc \<and> (c \<longleftrightarrow> a) \<and> (e \<longleftrightarrow> b)
        \<or> rc \<ge> 0 \<and> rc' = rc + 1 \<and> e \<and> \<not> c \<and> \<not> b \<and> \<not> a
        \<or> rc = 0 \<and> rc' = - 1 \<and> c \<and> \<not> e \<and> \<not> b \<and> \<not> a
        \<or> rc > 0 \<and> rc' = rc - 1 \<and> b \<and> \<not> a \<and> \<not> e \<and> \<not> c
        \<or> rc = - 1 \<and> rc' = 0 \<and> a \<and> \<not> b \<and> \<not> e \<and> \<not> c"
  shows "W - is1 a + is1 c = 0 \<and> rc' = R - is1 b + is1 e
      \<or> W - is1 a + is1 c = 1 \<and> R - is1 b + is1 e = 0 \<and> rc' = - 1"
  using assms by (cases a; cases b; cases c; cases e) auto

lemma rw_moves_inv:
  assumes "rw_inv \<lparr>lock = l, threads = ts\<rparr>" "i < length ts" "rw_moves l (ts ! i) l' p"
  shows "rw_inv \<lparr>lock = l', threads = ts[i := p]\<rparr>"
proof -
  let ?w = "num (\<lambda>p. p = WrHold) ts" and ?r = "num (\<lambda>p. p = RdHold) ts"
  note up = num_update [OF assms(2)]
  have w: "num (\<lambda>p. p = WrHold) (ts[i := p]) = ?w - is1 (ts ! i = WrHold) + is1 (p = WrHold)"
    and r: "num (\<lambda>p. p = RdHold) (ts[i := p]) = ?r - is1 (ts ! i = RdHold) + is1 (p = RdHold)"
    by (rule up)+
  have pos: "ts ! i = RdHold \<Longrightarrow> 0 < ?r" "ts ! i = WrHold \<Longrightarrow> 0 < ?w"
    using num_pos [OF assms(2), of "\<lambda>p. p = RdHold"] num_pos [OF assms(2), of "\<lambda>p. p = WrHold"] by simp_all
  have i: "?w = 0 \<and> rw_refcount l = ?r \<or> ?w = 1 \<and> ?r = 0 \<and> rw_refcount l = - 1"
      "rw_nwaitreaders l = num is_rd_waiting ts" "rw_nwaitwriters l = num is_wr_waiting ts"
    using assms(1) by (simp_all add: rw_inv_def Let_def)
  note m = assms(3) [unfolded rw_moves_def]
  have nn: "0 \<le> ?r" by simp
  have d: "rw_refcount l' = rw_refcount l \<and> (p = WrHold \<longleftrightarrow> ts ! i = WrHold) \<and> (p = RdHold \<longleftrightarrow> ts ! i = RdHold)
        \<or> rw_refcount l \<ge> 0 \<and> rw_refcount l' = rw_refcount l + 1 \<and> p = RdHold \<and> p \<noteq> WrHold \<and> ts ! i \<noteq> RdHold \<and> ts ! i \<noteq> WrHold
        \<or> rw_refcount l = 0 \<and> rw_refcount l' = - 1 \<and> p = WrHold \<and> p \<noteq> RdHold \<and> ts ! i \<noteq> RdHold \<and> ts ! i \<noteq> WrHold
        \<or> rw_refcount l > 0 \<and> rw_refcount l' = rw_refcount l - 1 \<and> ts ! i = RdHold \<and> ts ! i \<noteq> WrHold \<and> p \<noteq> RdHold \<and> p \<noteq> WrHold
        \<or> rw_refcount l = - 1 \<and> rw_refcount l' = 0 \<and> ts ! i = WrHold \<and> ts ! i \<noteq> RdHold \<and> p \<noteq> RdHold \<and> p \<noteq> WrHold"
    using m by (elim conjE)
  have c: "num (\<lambda>p. p = WrHold) (ts[i := p]) = 0 \<and> rw_refcount l' = num (\<lambda>p. p = RdHold) (ts[i := p])
      \<or> num (\<lambda>p. p = WrHold) (ts[i := p]) = 1 \<and> num (\<lambda>p. p = RdHold) (ts[i := p]) = 0 \<and> rw_refcount l' = - 1"
    unfolding w r by (rule count_move [OF i(1) nn pos d])
  show ?thesis using m i(2, 3) c by (simp only: rw_inv_def Let_def up simp_thms rw_system.select_convs)
qed

lemma rw_inv_lock:
  assumes "rw_inv \<lparr>lock = l, threads = ts\<rparr>"
  obtains a b c d where "rw_attr l = 0" "rw_condreaders l = cv a b" "rw_condwriters l = cv c d"
    "- 1 \<le> rw_refcount l" "rw_entry (Some l) = Some l"
proof -
  have nn: "- 1 \<le> num P ts" for P by (rule order_trans [OF _ num_nonneg]) simp
  have "rw_attr l = 0" "- 1 \<le> rw_refcount l" "\<exists>a b. rw_condreaders l = cv a b" "\<exists>a b. rw_condwriters l = cv a b"
    using assms by (auto simp: rw_inv_def Let_def nn)
  then show ?thesis using that by (auto simp: rw_entry_def)
qed

lemma rw_inv_holder:
  assumes "rw_inv \<lparr>lock = l, threads = ts\<rparr>" "i < length ts"
  shows "(ts ! i = RdHold \<longrightarrow> rw_refcount l > 0) \<and> (ts ! i = WrHold \<longrightarrow> rw_refcount l = - 1)"
proof -
  have "ts ! i = RdHold \<Longrightarrow> 0 < num (\<lambda>p. p = RdHold) ts" "ts ! i = WrHold \<Longrightarrow> 0 < num (\<lambda>p. p = WrHold) ts"
    using num_pos [OF assms(2), of "\<lambda>p. p = RdHold"] num_pos [OF assms(2), of "\<lambda>p. p = WrHold"] by simp_all
  then show ?thesis using assms(1) unfolding rw_inv_def Let_def by auto
qed

lemma rd_loop_moves:
  assumes "rd_loop b l = Some (l', p)" "rw_attr l = 0" "rw_condreaders l = cv x y" "rw_condwriters l = cv z w"
  shows "p = RdWait b \<and> rw_moves l (Out 0) l' p \<or> p = RdHold \<and> rw_moves l (Out 0) l' p"
proof (cases "p = RdHold")
  case True
  then show ?thesis using assms by (auto simp: rd_loop_def rw_moves_def condv split: if_split_asm)
next
  case False
  then show ?thesis using assms by (auto simp: rd_loop_def rw_moves_def condv split: if_split_asm)
qed

lemma wr_loop_moves:
  assumes "wr_loop b l = Some (l', p)" "rw_attr l = 0" "rw_condreaders l = cv x y" "rw_condwriters l = cv z w"
  shows "p = WrWait b \<and> rw_moves l (Out 0) l' p \<or> p = WrHold \<and> rw_moves l (Out 0) l' p"
proof (cases "p = WrHold")
  case True
  then show ?thesis using assms by (auto simp: wr_loop_def rw_moves_def condv split: if_split_asm)
next
  case False
  then show ?thesis using assms by (auto simp: wr_loop_def rw_moves_def condv split: if_split_asm)
qed

lemma rw_moves_Out: "rw_moves l (Out r) l' p \<longleftrightarrow> rw_moves l (Out 0) l' p"
  by (simp add: rw_moves_def)

lemma disj_same: "A \<and> C \<or> B \<and> C \<Longrightarrow> C"
  by blast

lemma rd_resume_moves:
  assumes "rd_resume b r l = Some (l', p)" "rw_attr l = 0" "rw_condreaders l = cv x y" "rw_condwriters l = cv z w"
  shows "rw_moves l (RdAwake b r) l' p"
proof (cases "r = 0")
  case True
  let ?l = "l\<lparr>rw_condreaders := os_condv_leave (rw_condreaders l), rw_nwaitreaders := rw_nwaitreaders l - 1\<rparr>"
  have "rd_loop b ?l = Some (l', p)" using assms(1) True by (simp add: rd_resume_def os_condv_ret_def)
  then have "rw_moves ?l (Out 0) l' p" by (rule rd_loop_moves [THEN disj_same]) (simp_all add: assms condv)
  then show ?thesis unfolding rw_moves_def by simp
next
  case False
  then show ?thesis using assms by (auto simp: rd_resume_def os_condv_ret_def rw_moves_def condv Let_def)
qed

lemma wr_resume_moves:
  assumes "wr_resume b r l = Some (l', p)" "rw_attr l = 0" "rw_condreaders l = cv x y" "rw_condwriters l = cv z w"
  shows "rw_moves l (WrAwake b r) l' p"
proof (cases "r = 0")
  case True
  let ?l = "l\<lparr>rw_condwriters := os_condv_leave (rw_condwriters l), rw_nwaitwriters := rw_nwaitwriters l - 1\<rparr>"
  have "wr_loop b ?l = Some (l', p)" using assms(1) True by (simp add: wr_resume_def os_condv_ret_def)
  then have "rw_moves ?l (Out 0) l' p" by (rule wr_loop_moves [THEN disj_same]) (simp_all add: assms condv)
  then show ?thesis unfolding rw_moves_def by simp
next
  case False
  then show ?thesis using assms by (auto simp: wr_resume_def os_condv_ret_def rw_moves_def condv Let_def)
qed

lemma unlock_moves:
  assumes "pthread_rwlock_unlock (Some l) = Some (l', p)" "rw_attr l = 0" "rw_condreaders l = cv x y"
    "rw_condwriters l = cv z w" "q = RdHold \<and> rw_refcount l > 0 \<or> q = WrHold \<and> rw_refcount l = - 1"
  shows "rw_moves l q l' p"
proof -
  define m where "m = (if rw_refcount l > 0 then l\<lparr>rw_refcount := rw_refcount l - 1\<rparr> else l\<lparr>rw_refcount := 0\<rparr>)"
  have m: "rw_moves l q m (Out r)" for r
    using assms(2-) by (auto simp: rw_moves_def m_def)
  have u: "(\<exists>r. p = Out r) \<and> rw_attr l' = 0 \<and> rw_refcount l' = rw_refcount m \<and> rw_nwaitreaders l' = rw_nwaitreaders m
      \<and> rw_nwaitwriters l' = rw_nwaitwriters m \<and> (\<exists>a b. rw_condreaders l' = cv a b) \<and> (\<exists>a b. rw_condwriters l' = cv a b)"
    using assms by (auto simp: pthread_rwlock_unlock_def rw_entry_def m_def condv Let_def split: if_splits)
  then show ?thesis using m unfolding rw_moves_def by auto
qed

lemma rw_step_lock_moves:
  assumes "rw_step s i s'" "rw_inv s"
  shows "\<exists>l ts l' p. s = \<lparr>lock = l, threads = ts\<rparr> \<and> i < length ts \<and> s' = \<lparr>lock = l', threads = ts[i := p]\<rparr>
    \<and> rw_moves l (ts ! i) l' p"
  using assms
proof (induction rule: rw_step.induct)
  case (rdlock i ts r l l' p)
  obtain a b c d where "rw_attr l = 0" "rw_condreaders l = cv a b" "rw_condwriters l = cv c d" "rw_entry (Some l) = Some l"
    using rw_inv_lock [OF rdlock(4)] by metis
  then have "rw_moves l (ts ! i) l' p"
    using rd_loop_moves [THEN disj_same, of False l l' p] rdlock by (simp add: pthread_rwlock_rdlock_def rw_moves_Out [of l r])
  then show ?case using rdlock(1) by blast
next
  case (timedrdlock i ts r l l' p)
  obtain a b c d where "rw_attr l = 0" "rw_condreaders l = cv a b" "rw_condwriters l = cv c d" "rw_entry (Some l) = Some l"
    using rw_inv_lock [OF timedrdlock(4)] by metis
  then have "rw_moves l (ts ! i) l' p"
    using rd_loop_moves [THEN disj_same, of True l l' p] timedrdlock by (simp add: pthread_rwlock_timedrdlock_def rw_moves_Out [of l r])
  then show ?case using timedrdlock(1) by blast
next
  case (tryrdlock i ts r l l' p)
  obtain a b c d where "rw_attr l = 0" "rw_condreaders l = cv a b" "rw_condwriters l = cv c d" "rw_entry (Some l) = Some l"
    using rw_inv_lock [OF tryrdlock(4)] by metis
  then have "rw_moves l (ts ! i) l' p"
    using tryrdlock by (auto simp: pthread_rwlock_tryrdlock_def rw_moves_def split: if_splits)
  then show ?case using tryrdlock(1) by blast
next
  case (wrlock i ts r l l' p)
  obtain a b c d where "rw_attr l = 0" "rw_condreaders l = cv a b" "rw_condwriters l = cv c d" "rw_entry (Some l) = Some l"
    using rw_inv_lock [OF wrlock(4)] by metis
  then have "rw_moves l (ts ! i) l' p"
    using wr_loop_moves [THEN disj_same, of False l l' p] wrlock by (simp add: pthread_rwlock_wrlock_def rw_moves_Out [of l r])
  then show ?case using wrlock(1) by blast
next
  case (timedwrlock i ts r l l' p)
  obtain a b c d where "rw_attr l = 0" "rw_condreaders l = cv a b" "rw_condwriters l = cv c d" "rw_entry (Some l) = Some l"
    using rw_inv_lock [OF timedwrlock(4)] by metis
  then have "rw_moves l (ts ! i) l' p"
    using wr_loop_moves [THEN disj_same, of True l l' p] timedwrlock by (simp add: pthread_rwlock_timedwrlock_def rw_moves_Out [of l r])
  then show ?case using timedwrlock(1) by blast
next
  case (trywrlock i ts r l l' p)
  obtain a b c d where "rw_attr l = 0" "rw_condreaders l = cv a b" "rw_condwriters l = cv c d" "rw_entry (Some l) = Some l"
    using rw_inv_lock [OF trywrlock(4)] by metis
  then have "rw_moves l (ts ! i) l' p"
    using trywrlock by (auto simp: pthread_rwlock_trywrlock_def rw_moves_def split: if_splits)
  then show ?case using trywrlock(1) by blast
next
  case (unlock i ts l l' p)
  obtain a b c d where l: "rw_attr l = 0" "rw_condreaders l = cv a b" "rw_condwriters l = cv c d"
    using rw_inv_lock [OF unlock(4)] by metis
  have "ts ! i = RdHold \<and> rw_refcount l > 0 \<or> ts ! i = WrHold \<and> rw_refcount l = - 1"
    using rw_inv_holder [OF unlock(4, 1)] unlock(2) by blast
  then have "rw_moves l (ts ! i) l' p" using unlock_moves [OF unlock(3) l] by blast
  then show ?case using unlock(1) by blast
next
  case (rd_wake i ts b l c)
  then obtain x y z w where "rw_attr l = 0" "rw_condreaders l = cv x y" "rw_condwriters l = cv z w"
    using rw_inv_lock by metis
  then have "rw_moves l (ts ! i) (l\<lparr>rw_condreaders := c\<rparr>) (RdAwake b 0)"
    using rd_wake by (auto simp: rw_moves_def condv split: if_splits)
  then show ?case using rd_wake(1) by blast
next
  case (wr_wake i ts b l c)
  then obtain x y z w where "rw_attr l = 0" "rw_condreaders l = cv x y" "rw_condwriters l = cv z w"
    using rw_inv_lock by metis
  then have "rw_moves l (ts ! i) (l\<lparr>rw_condwriters := c\<rparr>) (WrAwake b 0)"
    using wr_wake by (auto simp: rw_moves_def condv split: if_splits)
  then show ?case using wr_wake(1) by blast
next
  case (rd_timeout i ts l)
  then obtain x y z w where "rw_attr l = 0" "rw_condreaders l = cv x y" "rw_condwriters l = cv z w"
    using rw_inv_lock by metis
  then have "rw_moves l (ts ! i) l (RdAwake True (- ETIMEDOUT))" using rd_timeout by (auto simp: rw_moves_def)
  then show ?case using rd_timeout(1) by blast
next
  case (wr_timeout i ts l)
  then obtain x y z w where "rw_attr l = 0" "rw_condreaders l = cv x y" "rw_condwriters l = cv z w"
    using rw_inv_lock by metis
  then have "rw_moves l (ts ! i) l (WrAwake True (- ETIMEDOUT))" using wr_timeout by (auto simp: rw_moves_def)
  then show ?case using wr_timeout(1) by blast
next
  case (rd_resume i ts b r l l' p)
  then obtain x y z w where "rw_attr l = 0" "rw_condreaders l = cv x y" "rw_condwriters l = cv z w"
    using rw_inv_lock by metis
  then have "rw_moves l (ts ! i) l' p" using rd_resume_moves [OF rd_resume(3)] rd_resume(2) by simp
  then show ?case using rd_resume(1) by blast
next
  case (wr_resume i ts b r l l' p)
  then obtain x y z w where "rw_attr l = 0" "rw_condreaders l = cv x y" "rw_condwriters l = cv z w"
    using rw_inv_lock by metis
  then have "rw_moves l (ts ! i) l' p" using wr_resume_moves [OF wr_resume(3)] wr_resume(2) by simp
  then show ?case using wr_resume(1) by blast
qed

lemma rw_reach_inv: "rw_reach n s \<Longrightarrow> rw_inv s"
proof (induction rule: rw_reach.induct)
  case rw_start
  show ?case by (simp add: rw_start_def rw_inv_def num_def filter_replicate)
next
  case (rw_next s i s')
  obtain l ts l' p where "s = \<lparr>lock = l, threads = ts\<rparr>" "i < length ts" "s' = \<lparr>lock = l', threads = ts[i := p]\<rparr>"
    "rw_moves l (ts ! i) l' p" using rw_step_lock_moves [OF rw_next(2, 3)] by metis
  then show ?case using rw_moves_inv rw_next(3) by blast
qed

section \<open>Exclusion and preference\<close>

text \<open>C7: In every run of any number of threads a writer holds the lock alone, and the lock knows it.\<close>

theorem rwlock_exclusion:
  assumes "rw_reach n s" "i < length (threads s)" "j < length (threads s)" "threads s ! i = WrHold"
  shows "rw_refcount (lock s) = - 1 \<and> threads s ! j \<noteq> RdHold \<and> (threads s ! j = WrHold \<longrightarrow> j = i)"
proof -
  obtain l ts where s: "s = \<lparr>lock = l, threads = ts\<rparr>" by (cases s)
  have inv: "rw_inv \<lparr>lock = l, threads = ts\<rparr>" using rw_reach_inv [OF assms(1)] s by simp
  have l: "i < length ts" "j < length ts" "ts ! i = WrHold" using assms s by simp_all
  have c: "rw_refcount l = - 1" "ts ! j \<noteq> RdHold"
    using rw_inv_holder [OF inv l(1)] rw_inv_holder [OF inv l(2)] l(3) by auto
  have "num (\<lambda>p. p = WrHold) ts \<le> 1" using inv unfolding rw_inv_def Let_def by auto
  then have "ts ! j = WrHold \<Longrightarrow> j = i" using num_two [of i ts j "\<lambda>p. p = WrHold"] l by fastforce
  then show ?thesis using c s by simp
qed

text \<open>The counters of the lock count the threads in every state.\<close>

theorem rwlock_counts:
  assumes "rw_reach n s"
  shows "rw_nwaitreaders (lock s) = num is_rd_waiting (threads s)
    \<and> rw_nwaitwriters (lock s) = num is_wr_waiting (threads s)
    \<and> rw_refcount (lock s) = num (\<lambda>p. p = RdHold) (threads s) - num (\<lambda>p. p = WrHold) (threads s)"
  using rw_reach_inv [OF assms] unfolding rw_inv_def Let_def by auto

text \<open>C33: While a writer waits no reader gets in: it is refused or made to wait, new or woken.\<close>

theorem rwlock_writer_preference:
  assumes "rw_reach n s" "i < length (threads s)" "is_wr_waiting (threads s ! i)"
  shows "pthread_rwlock_tryrdlock (Some (lock s)) = Some (lock s, Out (- EBUSY))
    \<and> (\<exists>l. pthread_rwlock_rdlock (Some (lock s)) = Some (l, RdWait False))
    \<and> (\<exists>l. pthread_rwlock_timedrdlock (Some (lock s)) = Some (l, RdWait True))
    \<and> (\<forall>b. \<exists>l. rd_resume b 0 (lock s) = Some (l, RdWait b))"
proof -
  obtain l ts where s: "s = \<lparr>lock = l, threads = ts\<rparr>" by (cases s)
  have inv: "rw_inv \<lparr>lock = l, threads = ts\<rparr>" using rw_reach_inv [OF assms(1)] s by simp
  obtain x y z w where l: "rw_attr l = 0" "rw_condreaders l = cv x y" "rw_condwriters l = cv z w" "rw_entry (Some l) = Some l"
    using rw_inv_lock [OF inv] by metis
  have "0 < num is_wr_waiting ts" using num_pos [of i ts is_wr_waiting] assms(2, 3) s by simp
  then have w: "rw_nwaitwriters l > 0" using inv unfolding rw_inv_def Let_def by simp
  show ?thesis using l w s
    by (simp add: pthread_rwlock_tryrdlock_def pthread_rwlock_rdlock_def pthread_rwlock_timedrdlock_def rd_resume_def
        rd_loop_def condv os_condv_ret_def)
qed

section \<open>Waking up\<close>


text \<open>States of three writers, for concrete runs.\<close>

definition rw3 :: "int \<Rightarrow> int \<Rightarrow> os_condv \<Rightarrow> rw_pc list \<Rightarrow> rw_system" where
  "rw3 rc nw c ts = \<lparr>lock = \<lparr>rw_attr = 0, rw_condreaders = cv 0 0, rw_condwriters = c,
     rw_nwaitreaders = 0, rw_nwaitwriters = nw, rw_refcount = rc\<rparr>, threads = ts\<rparr>"

named_theorems rw_exec \<open>running the operations on concrete states\<close>
lemmas [rw_exec] = rw3_def pthread_rwlock_wrlock_def wr_loop_def rw_entry_def condv pthread_rwlock_unlock_def wr_resume_def
  os_condv_ret_def

lemma rw_next_3: "rw_reach n s \<Longrightarrow> rw_step s i t \<Longrightarrow> rw_step t j u \<Longrightarrow> rw_step u k v \<Longrightarrow> rw_reach n v"
  by (rule rw_reach.rw_next [OF rw_reach.rw_next [OF rw_reach.rw_next]])

lemma rw_next_4:
  "rw_reach n s \<Longrightarrow> rw_step s i t \<Longrightarrow> rw_step t j u \<Longrightarrow> rw_step u k v \<Longrightarrow> rw_step v m w \<Longrightarrow> rw_reach n w"
  by (rule rw_reach.rw_next [OF rw_next_3])

lemma rw3_two_waiting: "rw_reach 3 (rw3 (- 1) 2 (cv 2 0) [WrHold, WrWait False, WrWait False])"
proof -
  have "rw_reach 3 (rw3 0 0 (cv 0 0) [Out 0, Out 0, Out 0])"
    using rw_reach.rw_start [of 3] by (simp add: rw_start_def rw3_def numeral_3_eq_3)
  moreover have "rw_step (rw3 0 0 (cv 0 0) [Out 0, Out 0, Out 0]) 0 (rw3 (- 1) 0 (cv 0 0) [WrHold, Out 0, Out 0])"
    using rw_step.wrlock [of 0 "[Out 0, Out 0, Out 0]" 0 "lock (rw3 0 0 (cv 0 0) [])"] by (simp add: rw_exec)
  moreover have "rw_step (rw3 (- 1) 0 (cv 0 0) [WrHold, Out 0, Out 0]) 1 (rw3 (- 1) 1 (cv 1 0) [WrHold, WrWait False, Out 0])"
    using rw_step.wrlock [of 1 "[WrHold, Out 0, Out 0]" 0 "lock (rw3 (- 1) 0 (cv 0 0) [])"] by (simp add: rw_exec)
  moreover have "rw_step (rw3 (- 1) 1 (cv 1 0) [WrHold, WrWait False, Out 0]) 2
      (rw3 (- 1) 2 (cv 2 0) [WrHold, WrWait False, WrWait False])"
    using rw_step.wrlock [of 2 "[WrHold, WrWait False, Out 0]" 0 "lock (rw3 (- 1) 1 (cv 1 0) [])"] by (simp add: rw_exec)
  ultimately show ?thesis by (rule rw_next_3)
qed

text \<open>C26: 
  A wake-up is lost with two waiting writers: the signal has taken the woken writer off the counter of the
  condition variable already when the writer itself takes one off again as it leaves, so that its own
  unlock finds the counter at 0 and wakes nobody. The lock is free, the last writer waits, and it has no step.
\<close>

theorem rwlock_lost_wakeup:
  "\<exists>s. rw_reach 3 s \<and> rw_refcount (lock s) = 0 \<and> rw_nwaitwriters (lock s) = 1 \<and> threads s = [Out 0, Out 0, WrWait False]
     \<and> (\<nexists>s'. rw_step s 2 s')"
proof -
  let ?s = "rw3 0 1 (cv 0 0) [Out 0, Out 0, WrWait False]"
  note rw3_two_waiting
  moreover have "rw_step (rw3 (- 1) 2 (cv 2 0) [WrHold, WrWait False, WrWait False]) 0
      (rw3 0 2 (cv 1 1) [Out 0, WrWait False, WrWait False])"
    using rw_step.unlock [of 0 "[WrHold, WrWait False, WrWait False]" "lock (rw3 (- 1) 2 (cv 2 0) [])"] by (simp add: rw_exec)
  moreover have "rw_step (rw3 0 2 (cv 1 1) [Out 0, WrWait False, WrWait False]) 1
      (rw3 0 2 (cv 1 0) [Out 0, WrAwake False 0, WrWait False])"
    using rw_step.wr_wake [of 1 "[Out 0, WrWait False, WrWait False]" False "lock (rw3 0 2 (cv 1 1) [])"] by (simp add: rw_exec)
  moreover have "rw_step (rw3 0 2 (cv 1 0) [Out 0, WrAwake False 0, WrWait False]) 1
      (rw3 (- 1) 1 (cv 0 0) [Out 0, WrHold, WrWait False])"
    using rw_step.wr_resume [of 1 "[Out 0, WrAwake False 0, WrWait False]" False 0 "lock (rw3 0 2 (cv 1 0) [])"]
    by (simp add: rw_exec)
  moreover have "rw_step (rw3 (- 1) 1 (cv 0 0) [Out 0, WrHold, WrWait False]) 1 ?s"
    using rw_step.unlock [of 1 "[Out 0, WrHold, WrWait False]" "lock (rw3 (- 1) 1 (cv 0 0) [])"] by (simp add: rw_exec)
  ultimately have "rw_reach 3 ?s" by (rule rw_next_4)
  moreover have "\<nexists>s'. rw_step ?s 2 s'"
    by (auto simp: rw3_def condv elim!: rw_step.cases)
  ultimately show ?thesis by (intro exI [of _ ?s]) (simp add: rw3_def)
qed

text \<open>Destroying a lock that is in use answers \<open>-EBUSY\<close> and returns with \<open>rw_mutex\<close> taken.\<close>

theorem rwlock_destroy_busy:
  assumes "rw_reach n s" "i < length (threads s)" "\<forall>r. threads s ! i \<noteq> Out r"
  shows "pthread_rwlock_destroy (Some (lock s)) = Some (- EBUSY, False, Some (lock s))"
proof -
  obtain l ts where s: "s = \<lparr>lock = l, threads = ts\<rparr>" by (cases s)
  have inv: "rw_inv \<lparr>lock = l, threads = ts\<rparr>" using rw_reach_inv [OF assms(1)] s by simp
  have i: "i < length ts" using assms(2) s by simp
  have "ts ! i = RdHold \<or> ts ! i = WrHold \<or> is_rd_waiting (ts ! i) \<or> is_wr_waiting (ts ! i)"
    using assms(3) s by (cases "ts ! i") auto
  then have "rw_refcount l \<noteq> 0 \<or> rw_nwaitreaders l \<noteq> 0 \<or> rw_nwaitwriters l \<noteq> 0"
    using rw_inv_holder [OF inv i] num_pos [OF i, of is_rd_waiting] num_pos [OF i, of is_wr_waiting] inv
    unfolding rw_inv_def Let_def by auto
  moreover have "rw_attr l = 0" using inv unfolding rw_inv_def Let_def by simp
  ultimately show ?thesis using s by (simp add: pthread_rwlock_destroy_def)
qed

section \<open>Concrete runs\<close>

theorem rwlock_exclusion_witness: "[WrHold, WrWait False, WrWait False] ! 2 \<noteq> (RdHold :: rw_pc)"
  using rwlock_exclusion [OF rw3_two_waiting, of 0 2] by (simp add: rw3_def)

theorem rwlock_counts_witness: "2 = num is_wr_waiting [WrHold, WrWait False, WrWait False]"
  using rwlock_counts [OF rw3_two_waiting] by (simp add: rw3_def)

theorem rwlock_writer_preference_witness:
  "pthread_rwlock_tryrdlock (Some (lock (rw3 (- 1) 2 (cv 2 0) [WrHold, WrWait False, WrWait False])))
     = Some (lock (rw3 (- 1) 2 (cv 2 0) [WrHold, WrWait False, WrWait False]), Out (- EBUSY))"
  by (rule rwlock_writer_preference [OF rw3_two_waiting, of 1, THEN conjunct1]) (simp_all add: rw3_def)


theorem rwlock_destroy_busy_witness:
  "pthread_rwlock_destroy (Some (lock (rw3 (- 1) 2 (cv 2 0) [WrHold, WrWait False, WrWait False])))
     = Some (- EBUSY, False, Some (lock (rw3 (- 1) 2 (cv 2 0) [WrHold, WrWait False, WrWait False])))"
  by (rule rwlock_destroy_busy [OF rw3_two_waiting, of 0]) (simp_all add: rw3_def)

end
