(* ===== verification/Barrier.thy ===== *)
theory Barrier
  imports OsSync
begin

text \<open>
  The barrier of \<open>sdk/lib/posix/pthread_barrier.c\<close>, run by any number of threads. \<open>pthread_barrier_wait\<close> holds the
  mutex of the barrier from its entry to its return or to the wait on the condition variable, and from
  the end of that wait to its return: these two pieces and the wake-up between them are the steps of the
  system. Initialisation is modelled with the memory for the condition variable available.
\<close>

abbreviation PTHREAD_PROCESS_PRIVATE :: int where "PTHREAD_PROCESS_PRIVATE \<equiv> 0"

section \<open>Attributes\<close>

text \<open>A pointer is an option; the answer is the return code and what the pointer leads to afterwards.\<close>

definition pthread_barrierattr_destroy :: "int option \<Rightarrow> int" where
  "pthread_barrierattr_destroy attr = (if attr = None then - EINVAL else 0)"

definition pthread_barrierattr_init :: "int option \<Rightarrow> int \<times> int option" where
  "pthread_barrierattr_init attr =
     (if attr = None then (- EINVAL, None) else (0, Some PTHREAD_PROCESS_PRIVATE))"

definition pthread_barrierattr_getpshared :: "int option \<Rightarrow> int \<Rightarrow> int \<times> int" where
  "pthread_barrierattr_getpshared attr pshared =
     (case attr of None \<Rightarrow> (- EINVAL, pshared) | Some a \<Rightarrow> (0, a))"

text \<open>The assignment changes the local pointer, not the attribute, and every path answers \<open>-EINVAL\<close>.\<close>

definition pthread_barrierattr_setpshared :: "int option \<Rightarrow> int \<Rightarrow> int \<times> int option" where
  "pthread_barrierattr_setpshared attr pshared = (- EINVAL, attr)"

section \<open>The barrier\<close>

record pthread_barrier =
  bar_count :: int
  bar_cond :: os_condv

definition pthread_barrier_init :: "pthread_barrier option \<Rightarrow> int option \<Rightarrow> int \<Rightarrow> int \<times> pthread_barrier option" where
  "pthread_barrier_init barrier attr count =
     (case barrier of None \<Rightarrow> (- EINVAL, None)
      | Some b \<Rightarrow>
          if attr \<noteq> None \<and> attr \<noteq> Some PTHREAD_PROCESS_PRIVATE then (- EINVAL, barrier)
          else (0, Some \<lparr>bar_count = count, bar_cond = snd (os_condv_init True (bar_cond b))\<rparr>))"

definition pthread_barrier_destroy :: "pthread_barrier option \<Rightarrow> (int \<times> pthread_barrier option) option" where
  "pthread_barrier_destroy barrier =
     (case barrier of None \<Rightarrow> Some (- EINVAL, None)
      | Some b \<Rightarrow> do { (_, c) \<leftarrow> os_condv_del (bar_cond b); Some (0, Some (b\<lparr>bar_cond := c\<rparr>)) })"

text \<open>A thread has not come yet, waits, is awake and competes for the mutex, or has the result.\<close>

datatype bar_pc = BIdle | BWait | BAwake | BRet int

definition barrier_wait_enter :: "pthread_barrier \<Rightarrow> (pthread_barrier \<times> bar_pc) option" where
  "barrier_wait_enter b =
     (if bar_count b = 0 then Some (b, BRet EINVAL)
      else let b = b\<lparr>bar_count := bar_count b - 1\<rparr>
           in if bar_count b = 0 then do {
                (_, c) \<leftarrow> os_condv_broadcast (bar_cond b);
                Some (b\<lparr>bar_cond := c\<rparr>, BRet 0) }
              else do {
                c \<leftarrow> os_condv_enter (bar_cond b);
                Some (b\<lparr>bar_cond := c\<rparr>, BWait) })"

text \<open>The end of the wait: the result is still that of taking the mutex, 0.\<close>

definition barrier_wait_leave :: "pthread_barrier \<Rightarrow> pthread_barrier \<times> bar_pc" where
  "barrier_wait_leave b = (b\<lparr>bar_cond := os_condv_leave (bar_cond b)\<rparr>, BRet 0)"

section \<open>Threads\<close>

record bar_system =
  barrier :: pthread_barrier
  arrivals :: "bar_pc list"

inductive bar_step :: "bar_system \<Rightarrow> nat \<Rightarrow> bar_system \<Rightarrow> bool" where
  bar_enter: "i < length ts \<Longrightarrow> ts ! i = BIdle \<or> (\<exists>r. ts ! i = BRet r) \<Longrightarrow> barrier_wait_enter b = Some (b', p) \<Longrightarrow>
    bar_step \<lparr>barrier = b, arrivals = ts\<rparr> i \<lparr>barrier = b', arrivals = ts[i := p]\<rparr>"
| bar_wake: "i < length ts \<Longrightarrow> ts ! i = BWait \<Longrightarrow> os_condv_wake (bar_cond b) = Some c \<Longrightarrow>
    bar_step \<lparr>barrier = b, arrivals = ts\<rparr> i \<lparr>barrier = b\<lparr>bar_cond := c\<rparr>, arrivals = ts[i := BAwake]\<rparr>"
| bar_leave: "i < length ts \<Longrightarrow> ts ! i = BAwake \<Longrightarrow> barrier_wait_leave b = (b', p) \<Longrightarrow>
    bar_step \<lparr>barrier = b, arrivals = ts\<rparr> i \<lparr>barrier = b', arrivals = ts[i := p]\<rparr>"

definition bar_start :: "int \<Rightarrow> nat \<Rightarrow> bar_system" where
  "bar_start count n = \<lparr>barrier = \<lparr>bar_count = count, bar_cond = cv 0 0\<rparr>, arrivals = replicate n BIdle\<rparr>"

inductive bar_reach :: "int \<Rightarrow> nat \<Rightarrow> bar_system \<Rightarrow> bool" for count n where
  bar_start: "bar_reach count n (bar_start count n)"
| bar_next: "bar_reach count n s \<Longrightarrow> bar_step s i s' \<Longrightarrow> bar_reach count n s'"

section \<open>The invariant\<close>

text \<open>
  While the barrier is closed (\<open>bar_count > 0\<close>) the threads that came all wait and the condition variable counts
  them; when it is open there is a post for every thread that still waits.
\<close>

definition bar_inv :: "int \<Rightarrow> bar_system \<Rightarrow> bool" where
  "bar_inv count s \<longleftrightarrow>
     (let b = barrier s; ts = arrivals s; w = num (\<lambda>p. p = BWait) ts
      in 0 \<le> bar_count b \<and> bar_count b \<le> count
       \<and> (if bar_count b > 0
          then bar_cond b = cv (of_int w) 0 \<and> w = count - bar_count b \<and> (\<forall>p \<in> set ts. p = BIdle \<or> p = BWait)
          else bar_cond b = cv 0 (nat w)))"

lemma bar_inv_start: "0 < count \<Longrightarrow> bar_inv count (bar_start count n)"
  by (simp add: bar_inv_def bar_start_def num_replicate)

lemma num_w: "i < length ts \<Longrightarrow>
  num (\<lambda>p. p = BWait) (ts[i := p]) = num (\<lambda>p. p = BWait) ts - (if ts ! i = BWait then 1 else 0) + (if p = BWait then 1 else 0)"
  by (rule num_update)

lemma unat_of_int_u32: "0 \<le> w \<Longrightarrow> w < 4294967296 \<Longrightarrow> unat (of_int w :: u32) = nat w"
  by (simp add: unsigned_of_int take_bit_int_eq_self)

lemma bar_enter_inv:
  assumes inv: "bar_inv count \<lparr>barrier = b, arrivals = ts\<rparr>" and c: "count < 2147483648"
    and i: "i < length ts" "ts ! i \<noteq> BWait" "barrier_wait_enter b = Some (b', p)"
  shows "bar_inv count \<lparr>barrier = b', arrivals = ts[i := p]\<rparr>"
proof -
  let ?w = "num (\<lambda>p. p = BWait) ts"
  have n: "num (\<lambda>p. p = BWait) (ts[i := p]) = ?w + (if p = BWait then 1 else 0)" for p
    using num_w [OF i(1)] i(2) by simp
  have nn: "0 \<le> ?w" by simp
  consider (open_) "bar_count b = 0" | (last_) "bar_count b = 1" | (more) "bar_count b > 1"
    using inv by (fastforce simp: bar_inv_def Let_def)
  then show ?thesis
  proof cases
    case open_
    then have "b' = b" "p = BRet EINVAL" using i(3) by (simp_all add: barrier_wait_enter_def)
    then show ?thesis using inv open_ by (simp add: bar_inv_def n Let_def)
  next
    case last_
    then have b: "bar_cond b = cv (of_int ?w) 0" "?w = count - 1" "0 < count" using inv by (auto simp: bar_inv_def Let_def)
    have u: "unat (of_int ?w :: u32) = nat ?w"
      using b c nn by (intro unat_of_int_u32) auto
    have "b' = b\<lparr>bar_count := 0, bar_cond := cv 0 (nat ?w)\<rparr>" "p = BRet 0"
      using i(3) last_ b u by (simp_all add: barrier_wait_enter_def condv)
    then show ?thesis using b n by (simp add: bar_inv_def Let_def)
  next
    case more
    then have b: "bar_cond b = cv (of_int ?w) 0" "?w = count - bar_count b" "bar_count b \<le> count"
        "\<forall>p \<in> set ts. p = BIdle \<or> p = BWait" using inv by (auto simp: bar_inv_def Let_def)
    have e: "b' = b\<lparr>bar_count := bar_count b - 1, bar_cond := cv (of_int ?w + 1) 0\<rparr>" "p = BWait"
      using i(3) more b(1) by (auto simp: barrier_wait_enter_def condv Let_def)
    have "\<forall>q \<in> set (ts[i := p]). q = BIdle \<or> q = BWait" using b(4) e(2) set_update_subset_insert [of ts i p] by blast
    then show ?thesis using more b(2, 3) e n [of BWait] by (simp add: bar_inv_def Let_def)
  qed
qed

lemma bar_step_inv:
  assumes "bar_step s i s'" "bar_inv count s" "count < 2147483648"
  shows "bar_inv count s'"
  using assms(1)
proof cases
  case (bar_enter ts b b' p)
  then show ?thesis using bar_enter_inv [of count b ts] assms(2, 3) by fastforce
next
  case (bar_wake ts b c)
  let ?w = "num (\<lambda>p. p = BWait) ts"
  have w: "0 < ?w" using num_pos [of i ts "\<lambda>p. p = BWait"] bar_wake by simp
  have "bar_count b = 0" "0 \<le> count" using assms(2) bar_wake by (auto simp: bar_inv_def Let_def condv split: if_splits)
  moreover from this have "c = cv 0 (nat ?w - 1)" using assms(2) bar_wake w by (simp add: bar_inv_def Let_def condv)
  ultimately show ?thesis using bar_wake w num_w [of i ts BAwake] by (simp add: bar_inv_def Let_def nat_diff_distrib)
next
  case (bar_leave ts b b' p)
  have "ts ! i \<in> set ts" "ts ! i \<noteq> BIdle" "ts ! i \<noteq> BWait" using bar_leave nth_mem [of i ts] by simp_all
  then have "bar_count b = 0" using assms(2) bar_leave(1) by (auto simp: bar_inv_def Let_def split: if_splits)
  then show ?thesis using assms(2) bar_leave num_w [of i ts p]
    by (auto simp: bar_inv_def Let_def barrier_wait_leave_def condv)
qed

lemma bar_reach_inv: "bar_reach count n s \<Longrightarrow> 0 < count \<Longrightarrow> count < 2147483648 \<Longrightarrow> bar_inv count s"
  by (induction rule: bar_reach.induct) (auto intro: bar_inv_start bar_step_inv)

section \<open>What the barrier promises\<close>

text \<open>C20: As long as the barrier is closed every thread that has come waits, they are fewer than \<open>count\<close>, and none
  of them can go on.\<close>

theorem barrier_closed:
  assumes "bar_reach count n s" "0 < count" "count < 2147483648" "bar_count (barrier s) > 0" "i < length (arrivals s)"
    "arrivals s ! i \<noteq> BIdle"
  shows "arrivals s ! i = BWait \<and> num (\<lambda>p. p = BWait) (arrivals s) = count - bar_count (barrier s) \<and> (\<nexists>s'. bar_step s i s')"
proof -
  have inv: "bar_inv count s" using bar_reach_inv [OF assms(1-3)] .
  then have w: "arrivals s ! i = BWait" and c: "num (\<lambda>p. p = BWait) (arrivals s) = count - bar_count (barrier s)"
    and cv: "\<exists>w. bar_cond (barrier s) = cv w 0" using assms(4-6) by (auto simp: bar_inv_def Let_def)
  have "\<nexists>s'. bar_step s i s'" using w cv by (auto elim!: bar_step.cases simp: condv)
  then show ?thesis using w c by blast
qed

text \<open>C23: Once \<open>count\<close> threads have come, each of them gets through with result 0, in whatever order they run.\<close>

theorem barrier_opens:
  assumes "bar_reach count n s" "0 < count" "count < 2147483648" "bar_count (barrier s) = 0" "i < length (arrivals s)"
    "arrivals s ! i = BWait"
  shows "\<exists>s1 s2. bar_step s i s1 \<and> bar_step s1 i s2 \<and> arrivals s2 ! i = BRet 0"
proof -
  obtain b ts where s: "s = \<lparr>barrier = b, arrivals = ts\<rparr>" by (cases s)
  have "bar_inv count s" using bar_reach_inv [OF assms(1-3)] .
  then have b: "bar_cond b = cv 0 (nat (num (\<lambda>p. p = BWait) ts))" using assms(4) s by (simp add: bar_inv_def Let_def)
  have "0 < num (\<lambda>p. p = BWait) ts" using num_pos [of i ts "\<lambda>p. p = BWait"] assms(5, 6) s by simp
  then obtain c where c: "os_condv_wake (bar_cond b) = Some c" using b by (simp add: condv)
  obtain b' where l: "barrier_wait_leave (b\<lparr>bar_cond := c\<rparr>) = (b', BRet 0)" by (simp add: barrier_wait_leave_def)
  have 1: "bar_step s i \<lparr>barrier = b\<lparr>bar_cond := c\<rparr>, arrivals = ts[i := BAwake]\<rparr>"
    unfolding s using assms(5, 6) s c by (intro bar_step.bar_wake) simp_all
  have 2: "bar_step \<lparr>barrier = b\<lparr>bar_cond := c\<rparr>, arrivals = ts[i := BAwake]\<rparr> i
      \<lparr>barrier = b', arrivals = ts[i := BAwake, i := BRet 0]\<rparr>"
    using assms(5) s l by (intro bar_step.bar_leave) simp_all
  show ?thesis using 1 2 assms(5) s by fastforce
qed

text \<open>The barrier opens once: after that it stays open and every further arrival is answered with \<open>EINVAL\<close>.\<close>

theorem barrier_once:
  assumes "bar_count (barrier s) = 0" "bar_step s i s'"
  shows "bar_count (barrier s') = 0 \<and> (arrivals s ! i = BIdle \<or> (\<exists>r. arrivals s ! i = BRet r) \<longrightarrow> arrivals s' ! i = BRet EINVAL)"
  using assms(2, 1) by cases (auto simp: barrier_wait_enter_def barrier_wait_leave_def)

section \<open>Concrete runs\<close>

text \<open>Two threads at a barrier for two: after the first arrival and after the second.\<close>

definition bar2 :: "int \<Rightarrow> os_condv \<Rightarrow> bar_pc list \<Rightarrow> bar_system" where
  "bar2 k c ts = \<lparr>barrier = \<lparr>bar_count = k, bar_cond = c\<rparr>, arrivals = ts\<rparr>"

lemmas bar_exec = bar2_def barrier_wait_enter_def condv

lemma bar2_first: "bar_reach 2 3 (bar2 1 (cv 1 0) [BWait, BIdle, BIdle])"
proof -
  have "bar_reach 2 3 (bar2 2 (cv 0 0) [BIdle, BIdle, BIdle])"
    using bar_reach.bar_start [of 2 3] by (simp add: bar_start_def bar2_def numeral_3_eq_3)
  moreover have "bar_step (bar2 2 (cv 0 0) [BIdle, BIdle, BIdle]) 0 (bar2 1 (cv 1 0) [BWait, BIdle, BIdle])"
    using bar_step.bar_enter [of 0 "[BIdle, BIdle, BIdle]" "barrier (bar2 2 (cv 0 0) [])"] by (simp add: bar_exec)
  ultimately show ?thesis by (rule bar_reach.bar_next)
qed

lemma bar2_second: "bar_reach 2 3 (bar2 0 (cv 0 1) [BWait, BRet 0, BIdle])"
proof -
  have "bar_step (bar2 1 (cv 1 0) [BWait, BIdle, BIdle]) 1 (bar2 0 (cv 0 1) [BWait, BRet 0, BIdle])"
    using bar_step.bar_enter [of 1 "[BWait, BIdle, BIdle]" "barrier (bar2 1 (cv 1 0) [])"] by (simp add: bar_exec)
  then show ?thesis by (rule bar_reach.bar_next [OF bar2_first])
qed

theorem barrier_closed_witness: "\<nexists>s'. bar_step (bar2 1 (cv 1 0) [BWait, BIdle, BIdle]) 0 s'"
  by (rule barrier_closed [OF bar2_first, of 0, THEN conjunct2, THEN conjunct2]) (simp_all add: bar2_def)

theorem barrier_opens_witness:
  "\<exists>s1 s2. bar_step (bar2 0 (cv 0 1) [BWait, BRet 0, BIdle]) 0 s1 \<and> bar_step s1 0 s2 \<and> arrivals s2 ! 0 = BRet 0"
  by (rule barrier_opens [OF bar2_second]) (simp_all add: bar2_def)

lemma bar2_third: "bar_step (bar2 0 (cv 0 1) [BWait, BRet 0, BIdle]) 2 (bar2 0 (cv 0 1) [BWait, BRet 0, BRet EINVAL])"
  using bar_step.bar_enter [of 2 "[BWait, BRet 0, BIdle]" "barrier (bar2 0 (cv 0 1) [])"] by (simp add: bar_exec)

theorem barrier_once_witness: "arrivals (bar2 0 (cv 0 1) [BWait, BRet 0, BRet EINVAL]) ! 2 = BRet EINVAL"
  using barrier_once [OF _ bar2_third] by (simp add: bar2_def)

end
