(* ===== verification/PosixThread.thy ===== *)
theory PosixThread
  imports OsSync "HOL-Library.Signed_Division"
begin

text \<open>
  POSIX threads on the tasks of the operating system layer: \<open>sdk/lib/posix/pthread.c\<close>, \<open>pthread_tls.c\<close> and
  \<open>pthread_attr.c\<close>, with the priority mapping of \<open>sdk/osal/csky/task.c\<close>.

  The handle of a thread is the address of its \<open>struct pthread_task\<close>, 0 is NULL. The state holds the table of the
  handles in use, the structures and the arrays of thread specific data that are allocated, and the table of keys. What an
  allocation returns, what the fresh memory of \<open>os_malloc\<close> holds and the data word of the task that runs
  (\<open>os_task_data(os_task_current())\<close>) are arguments. Calls of user functions, the destructors, are recorded in the order
  they are made. A use of freed memory or a call through NULL is \<open>None\<close>.
\<close>

abbreviation PTHREAD_MAX :: nat where "PTHREAD_MAX \<equiv> 32"
abbreviation PTHREAD_KEY_MAX :: nat where "PTHREAD_KEY_MAX \<equiv> 8"
abbreviation PTHREAD_CREATE_JOINABLE :: int where "PTHREAD_CREATE_JOINABLE \<equiv> 0"
abbreviation PTHREAD_CREATE_DETACHED :: int where "PTHREAD_CREATE_DETACHED \<equiv> 1"
abbreviation EOPNOTSUPP :: int where "EOPNOTSUPP \<equiv> 95"

section \<open>Attributes\<close>

record pthread_attr =
  detachstate :: int
  sched_priority :: int
  stacksize :: int

definition pthread_attr_init :: "pthread_attr option \<Rightarrow> int \<times> pthread_attr option" where
  "pthread_attr_init attr = (0, map_option (\<lambda>_. \<lparr>detachstate = 0, sched_priority = 0, stacksize = 1024\<rparr>) attr)"

definition pthread_attr_destroy :: "pthread_attr option \<Rightarrow> int \<times> pthread_attr option" where
  "pthread_attr_destroy attr = (0, map_option (\<lambda>_. \<lparr>detachstate = 0, sched_priority = 0, stacksize = 0\<rparr>) attr)"

definition pthread_attr_setdetachstate :: "pthread_attr \<Rightarrow> int \<Rightarrow> int \<times> pthread_attr" where
  "pthread_attr_setdetachstate attr state =
     (if state \<noteq> PTHREAD_CREATE_JOINABLE \<and> state \<noteq> PTHREAD_CREATE_DETACHED then (- EINVAL, attr)
      else (0, attr\<lparr>detachstate := state\<rparr>))"

definition pthread_attr_getdetachstate :: "pthread_attr \<Rightarrow> int \<times> int" where
  "pthread_attr_getdetachstate attr = (0, detachstate attr)"

definition pthread_attr_setschedparam :: "pthread_attr \<Rightarrow> int \<Rightarrow> int \<times> pthread_attr" where
  "pthread_attr_setschedparam attr param = (0, attr\<lparr>sched_priority := param\<rparr>)"

definition pthread_attr_getschedparam :: "pthread_attr \<Rightarrow> int \<times> int" where
  "pthread_attr_getschedparam attr = (0, sched_priority attr)"

definition pthread_attr_setstacksize :: "pthread_attr option \<Rightarrow> int \<Rightarrow> int \<times> pthread_attr option" where
  "pthread_attr_setstacksize attr stack_size = (0, map_option (\<lambda>a. a\<lparr>stacksize := stack_size\<rparr>) attr)"

definition pthread_attr_getstacksize :: "pthread_attr \<Rightarrow> int \<times> int" where
  "pthread_attr_getstacksize attr = (0, stacksize attr)"

text \<open>The size is rounded up to a multiple of 4 in 32 bits.\<close>

definition pthread_attr_setstack :: "pthread_attr \<Rightarrow> int \<Rightarrow> int \<times> pthread_attr" where
  "pthread_attr_setstack attr stack_size = (0, attr\<lparr>stacksize := ((stack_size + 3) mod 2 ^ 32) div 4 * 4\<rparr>)"

definition pthread_attr_getstack :: "pthread_attr \<Rightarrow> int \<times> nat \<times> int" where
  "pthread_attr_getstack attr = (0, 0, stacksize attr)"

section \<open>Priorities\<close>

abbreviation OS_TASK_PRIORITY_LOW :: int where "OS_TASK_PRIORITY_LOW \<equiv> 16"
abbreviation OS_TASK_PRIORITY_BELOW_NORMAL :: int where "OS_TASK_PRIORITY_BELOW_NORMAL \<equiv> 32"
abbreviation OS_TASK_PRIORITY_NORMAL :: int where "OS_TASK_PRIORITY_NORMAL \<equiv> 48"
abbreviation OS_TASK_PRIORITY_ABOVE_NORMAL :: int where "OS_TASK_PRIORITY_ABOVE_NORMAL \<equiv> 64"
abbreviation OS_TASK_PRIORITY_HIGH :: int where "OS_TASK_PRIORITY_HIGH \<equiv> 80"
abbreviation OS_TASK_PRIORITY_REALTIME :: int where "OS_TASK_PRIORITY_REALTIME \<equiv> 96"
abbreviation OS_TASK_PRIORITY_ISR :: int where "OS_TASK_PRIORITY_ISR \<equiv> 255"

abbreviation KPRIO_LOW0 :: int where "KPRIO_LOW0 \<equiv> 1"
abbreviation KPRIO_NORMAL_BELOW0 :: int where "KPRIO_NORMAL_BELOW0 \<equiv> 9"
abbreviation KPRIO_NORMAL :: int where "KPRIO_NORMAL \<equiv> 17"
abbreviation KPRIO_NORMAL_ABOVE0 :: int where "KPRIO_NORMAL_ABOVE0 \<equiv> 25"
abbreviation KPRIO_HIGH0 :: int where "KPRIO_HIGH0 \<equiv> 33"
abbreviation KPRIO_REALTIME0 :: int where "KPRIO_REALTIME0 \<equiv> 41"
abbreviation KPRIO_ISR :: int where "KPRIO_ISR \<equiv> 49"

definition pthread_priority :: "pthread_attr option \<Rightarrow> int" where
  "pthread_priority attr =
     (case attr of None \<Rightarrow> OS_TASK_PRIORITY_NORMAL
      | Some a \<Rightarrow>
          if sched_priority a = 0 then OS_TASK_PRIORITY_NORMAL
          else if sched_priority a \<le> 20 then OS_TASK_PRIORITY_LOW + sched_priority a sdiv 2
          else if sched_priority a \<le> 40 then OS_TASK_PRIORITY_BELOW_NORMAL + (sched_priority a - 20) sdiv 2
          else if sched_priority a \<le> 60 then OS_TASK_PRIORITY_NORMAL + (sched_priority a - 40) sdiv 2
          else OS_TASK_PRIORITY_ABOVE_NORMAL + (sched_priority a - 60) sdiv 4)"

text \<open>A band of eight kernel priorities for each of the levels; the low byte of the argument counts.\<close>

definition os_task_band :: "int \<Rightarrow> int" where
  "os_task_band prio =
     (let priority = prio mod 256
      in if priority < OS_TASK_PRIORITY_LOW then KPRIO_LOW0
         else if priority < OS_TASK_PRIORITY_BELOW_NORMAL
           then min (KPRIO_LOW0 + (priority - OS_TASK_PRIORITY_LOW)) (KPRIO_LOW0 + 7)
         else if priority < OS_TASK_PRIORITY_NORMAL
           then min (KPRIO_NORMAL_BELOW0 + (priority - OS_TASK_PRIORITY_BELOW_NORMAL)) (KPRIO_NORMAL_BELOW0 + 7)
         else if priority < OS_TASK_PRIORITY_ABOVE_NORMAL
           then min (KPRIO_NORMAL + (priority - OS_TASK_PRIORITY_NORMAL)) (KPRIO_NORMAL + 7)
         else if priority < OS_TASK_PRIORITY_HIGH
           then min (KPRIO_NORMAL_ABOVE0 + (priority - OS_TASK_PRIORITY_ABOVE_NORMAL)) (KPRIO_NORMAL_ABOVE0 + 7)
         else if priority < OS_TASK_PRIORITY_REALTIME
           then min (KPRIO_HIGH0 + (priority - OS_TASK_PRIORITY_HIGH)) (KPRIO_HIGH0 + 7)
         else if priority < OS_TASK_PRIORITY_ISR
           then min (KPRIO_REALTIME0 + (priority - OS_TASK_PRIORITY_REALTIME)) (KPRIO_REALTIME0 + 7)
         else KPRIO_ISR)"

definition os_task_set_priority :: "int \<Rightarrow> int" where
  "os_task_set_priority pri =
     (let priority = pri mod 256
      in if priority \<ge> OS_TASK_PRIORITY_HIGH
         then os_task_band (pri mod 2 ^ 32 - priority + (OS_TASK_PRIORITY_HIGH - 1))
         else os_task_band pri)"

section \<open>State\<close>

record pthread_task =
  inited :: bool
  task_hdl :: nat
  join_sema :: os_semaphore
  pt_attr :: pthread_attr
  pt_arg :: nat
  pt_start :: nat
  pt_tls :: nat

record pthread_key_data =
  is_used :: bool
  destructor :: nat

record pthread_state =
  pthreads :: "nat list"
  tasks :: "nat \<Rightarrow> pthread_task option"
  tlsmem :: "nat \<Rightarrow> nat list option"
  thread_keys :: "pthread_key_data list"
  dtor_calls :: "(nat \<times> nat) list"
  irq_off :: bool

definition pthread_init_state :: pthread_state where
  "pthread_init_state = \<lparr>pthreads = replicate PTHREAD_MAX 0, tasks = (\<lambda>_. None), tlsmem = (\<lambda>_. None),
     thread_keys = replicate PTHREAD_KEY_MAX \<lparr>is_used = False, destructor = 0\<rparr>, dtor_calls = [], irq_off = False\<rparr>"

section \<open>The table of threads\<close>

fun set_slot :: "nat \<Rightarrow> nat list \<Rightarrow> nat list option" where
  "set_slot t [] = None"
| "set_slot t (h # hs) = (if h = 0 then Some (t # hs) else map_option ((#) h) (set_slot t hs))"

fun del_slot :: "nat \<Rightarrow> nat list \<Rightarrow> nat list" where
  "del_slot t [] = []"
| "del_slot t (h # hs) = (if h = t then 0 # hs else h # del_slot t hs)"

fun get_slot :: "nat \<Rightarrow> nat list \<Rightarrow> nat" where
  "get_slot t [] = 0"
| "get_slot t (h # hs) = (if h = t then t else get_slot t hs)"

definition pthread_set :: "nat \<Rightarrow> pthread_state \<Rightarrow> bool \<times> pthread_state" where
  "pthread_set thread st =
     (if thread = 0 then (False, st)
      else case set_slot thread (pthreads st) of None \<Rightarrow> (False, st) | Some ps \<Rightarrow> (True, st\<lparr>pthreads := ps\<rparr>))"

definition pthread_get :: "nat \<Rightarrow> pthread_state \<Rightarrow> nat" where
  "pthread_get thread st = (if thread = 0 then 0 else get_slot thread (pthreads st))"

definition pthread_del :: "nat \<Rightarrow> pthread_state \<Rightarrow> pthread_state" where
  "pthread_del thread st = st\<lparr>pthreads := del_slot thread (pthreads st)\<rparr>"

definition pthread_self :: "nat \<Rightarrow> pthread_state \<Rightarrow> nat" where
  "pthread_self cur st = pthread_get cur st"

section \<open>Thread specific data\<close>

fun key_destroy_loop :: "pthread_key_data list \<Rightarrow> nat list \<Rightarrow> (nat \<times> nat) list option" where
  "key_destroy_loop [] data = Some []"
| "key_destroy_loop (k # ks) data =
     (if is_used k then
        (case data of [] \<Rightarrow> None
         | d # ds \<Rightarrow>
             if d \<noteq> 0 then do {
               _ \<leftarrow> assert_that (destructor k \<noteq> 0);
               calls \<leftarrow> key_destroy_loop ks ds;
               Some ((destructor k, d) # calls) }
             else key_destroy_loop ks ds)
      else key_destroy_loop ks (drop 1 data))"

definition pthread_key_destroy :: "nat \<Rightarrow> pthread_state \<Rightarrow> pthread_state option" where
  "pthread_key_destroy tls st =
     (if tls = 0 then Some st
      else do {
        data \<leftarrow> tlsmem st tls;
        calls \<leftarrow> key_destroy_loop (thread_keys st) data;
        Some (st\<lparr>dtor_calls := dtor_calls st @ calls\<rparr>) })"

text \<open>\<open>os_free\<close> of the array; NULL is ignored.\<close>

definition free_tls :: "nat \<Rightarrow> pthread_state \<Rightarrow> pthread_state option" where
  "free_tls tls st =
     (if tls = 0 then Some st
      else do { _ \<leftarrow> tlsmem st tls; Some (st\<lparr>tlsmem := (tlsmem st)(tls := None)\<rparr>) })"

text \<open>\<open>mem\<close>: what \<open>os_malloc\<close> returns, with the contents of the fresh memory.\<close>

definition pthread_tls :: "nat \<Rightarrow> bool \<Rightarrow> nat \<times> nat list \<Rightarrow> pthread_state \<Rightarrow> (nat \<times> pthread_state) option" where
  "pthread_tls thread create mem st =
     (let thd = pthread_get thread st
      in if thd = 0 then Some (0, st)
         else do {
           t \<leftarrow> tasks st thd;
           let ptr = pt_tls t;
           if \<not> create then do {
             st \<leftarrow> free_tls ptr (st\<lparr>tasks := (tasks st)(thd := Some (t\<lparr>pt_tls := 0\<rparr>))\<rparr>);
             Some (0, st) }
           else if ptr = 0 \<and> fst mem \<noteq> 0 then
             Some (fst mem, st\<lparr>tasks := (tasks st)(thd := Some (t\<lparr>pt_tls := fst mem\<rparr>)),
                               tlsmem := (tlsmem st)(fst mem := Some (snd mem))\<rparr>)
           else Some (ptr, st) })"

text \<open>A key is a signed int; a negative one indexes before the table.\<close>

definition pthread_getspecific :: "nat \<Rightarrow> int \<Rightarrow> pthread_state \<Rightarrow> (nat \<times> pthread_state) option" where
  "pthread_getspecific cur key st = do {
     (tls, st) \<leftarrow> pthread_tls (pthread_self cur st) False (0, []) st;
     if tls \<noteq> 0 \<and> key < int PTHREAD_KEY_MAX then do {
       _ \<leftarrow> assert_that (0 \<le> key);
       k \<leftarrow> mem_rd (thread_keys st) (nat key);
       if is_used k then do {
         data \<leftarrow> tlsmem st tls;
         d \<leftarrow> mem_rd data (nat key);
         Some (d, st) }
       else Some (0, st) }
     else Some (0, st) }"

definition pthread_setspecific :: "nat \<Rightarrow> int \<Rightarrow> nat \<Rightarrow> nat \<times> nat list \<Rightarrow> pthread_state \<Rightarrow> (int \<times> pthread_state) option" where
  "pthread_setspecific cur key value mem st = do {
     (tls, st) \<leftarrow> pthread_tls (pthread_self cur st) True mem st;
     if tls \<noteq> 0 \<and> key < int PTHREAD_KEY_MAX then do {
       _ \<leftarrow> assert_that (0 \<le> key);
       k \<leftarrow> mem_rd (thread_keys st) (nat key);
       if is_used k then do {
         data \<leftarrow> tlsmem st tls;
         data \<leftarrow> mem_wr data (nat key) value;
         Some (RET_OK, st\<lparr>tlsmem := (tlsmem st)(tls := Some data)\<rparr>) }
       else Some (- EINVAL, st) }
     else Some (- EINVAL, st) }"

fun free_key :: "pthread_key_data list \<Rightarrow> nat \<Rightarrow> nat option" where
  "free_key [] i = None"
| "free_key (k # ks) i = (if \<not> is_used k then Some i else free_key ks (Suc i))"

definition pthread_key_create :: "nat \<Rightarrow> pthread_state \<Rightarrow> (int \<times> nat option) \<times> pthread_state" where
  "pthread_key_create dtor st =
     (case free_key (thread_keys st) 0 of
        Some i \<Rightarrow> ((0, Some i), st\<lparr>thread_keys := (thread_keys st)[i := \<lparr>is_used = True, destructor = dtor\<rparr>]\<rparr>)
      | None \<Rightarrow> ((- EAGAIN, None), st))"

definition pthread_key_delete :: "int \<Rightarrow> pthread_state \<Rightarrow> (int \<times> pthread_state) option" where
  "pthread_key_delete key st =
     (if key \<ge> int PTHREAD_KEY_MAX then Some (- EINVAL, st)
      else do {
        _ \<leftarrow> assert_that (0 \<le> key);
        ks \<leftarrow> mem_wr (thread_keys st) (nat key) \<lparr>is_used = False, destructor = 0\<rparr>;
        Some (RET_OK, st\<lparr>thread_keys := ks\<rparr>) })"

section \<open>The life of a thread\<close>

definition pthread_free :: "nat \<Rightarrow> pthread_state \<Rightarrow> pthread_state option" where
  "pthread_free thd st = do {
     let st = pthread_del thd st;
     t \<leftarrow> tasks st thd;
     (_, sem) \<leftarrow> os_sema_del (join_sema t);
     let st = st\<lparr>tasks := (tasks st)(thd := Some (t\<lparr>join_sema := sem\<rparr>))\<rparr>;
     st \<leftarrow> pthread_key_destroy (pt_tls t) st;
     st \<leftarrow> free_tls (pt_tls t) st;
     Some (st\<lparr>tasks := (tasks st)(thd := None)\<rparr>) }"

text \<open>\<open>addr\<close> is the memory \<open>os_zalloc\<close> returns, \<open>hdl\<close> the handle of the new task (\<open>os_task_create\<close> resets the chip
  when the kernel cannot make one); \<open>thread_out\<close> is what \<open>*thread\<close> is set to.\<close>

definition pthread_create ::
  "pthread_attr option \<Rightarrow> nat \<Rightarrow> nat \<Rightarrow> nat \<Rightarrow> nat \<Rightarrow> pthread_state \<Rightarrow> (int \<times> nat option) \<times> pthread_state" where
  "pthread_create attr start arg addr hdl st =
     (if addr = 0 then ((- ENOMEM, None), st)
      else let (ok, st) = pthread_set addr st
           in if \<not> ok then ((- ESRCH, None), st)
              else let a = (case attr of
                         Some a \<Rightarrow> if sched_priority a > 99 then a\<lparr>sched_priority := 99\<rparr> else a
                       | None \<Rightarrow> \<lparr>detachstate = 0, sched_priority = 0, stacksize = 1024\<rparr>);
                       sem = snd (os_sema_init True 0 \<lparr>sem_magic = 0, sem_hdl = None\<rparr>)
                   in ((RET_OK, Some addr),
                       st\<lparr>tasks := (tasks st)(addr := Some \<lparr>inited = True, task_hdl = hdl, join_sema = sem, pt_attr = a,
                            pt_arg = arg, pt_start = start, pt_tls = 0\<rparr>)\<rparr>))"

text \<open>The task has returned from the start function; it polls while the creator is not done.\<close>

definition pthread_task_entry :: "nat \<Rightarrow> pthread_state \<Rightarrow> pthread_state waiting option" where
  "pthread_task_entry thd st = do {
     t \<leftarrow> tasks st thd;
     if \<not> inited t then Some Block
     else if detachstate (pt_attr t) = PTHREAD_CREATE_JOINABLE then do {
       (_, sem) \<leftarrow> os_sema_up (join_sema t);
       Some (Ret (st\<lparr>tasks := (tasks st)(thd := Some (t\<lparr>join_sema := sem\<rparr>))\<rparr>)) }
     else do { st \<leftarrow> pthread_free thd st; Some (Ret st) } }"

definition pthread_join :: "nat \<Rightarrow> nat \<Rightarrow> pthread_state \<Rightarrow> (int \<times> pthread_state) waiting option" where
  "pthread_join cur thread st =
     (let thd = pthread_get thread st
      in if thd = 0 then Some (Ret (0, st))
         else if thread = pthread_self cur st then Some (Ret (- EDEADLK, st))
         else do {
           t \<leftarrow> tasks st thd;
           if detachstate (pt_attr t) = PTHREAD_CREATE_DETACHED then Some (Ret (- EINVAL, st))
           else do {
             w \<leftarrow> os_sema_down osWaitForever (join_sema t);
             case w of Block \<Rightarrow> Some Block
             | Ret (_, sem) \<Rightarrow> do {
                 st \<leftarrow> pthread_free thd (st\<lparr>tasks := (tasks st)(thd := Some (t\<lparr>join_sema := sem\<rparr>))\<rparr>);
                 Some (Ret (0, st)) } } })"

definition pthread_detach :: "nat \<Rightarrow> pthread_state \<Rightarrow> (int \<times> pthread_state) option" where
  "pthread_detach thread st =
     (let thd = pthread_get thread st
      in if thd = 0 then Some (0, st)
         else do {
           t \<leftarrow> tasks st thd;
           Some (0, st\<lparr>tasks := (tasks st)(thd := Some (t\<lparr>pt_attr := (pt_attr t)\<lparr>detachstate := PTHREAD_CREATE_DETACHED\<rparr>\<rparr>))\<rparr>) })"

text \<open>The kernel does not return from deleting the task that runs (\<open>destroyed\<close>); when it refuses to delete it, the
  structure is freed.\<close>

definition pthread_exit :: "nat \<Rightarrow> bool \<Rightarrow> pthread_state \<Rightarrow> pthread_state option" where
  "pthread_exit cur destroyed st =
     (let thd = pthread_get (pthread_self cur st) st
      in if thd = 0 then Some st
         else if destroyed then Some st
         else pthread_free thd st)"

text \<open>\<open>pthread_once\<close>: the flag of the control, and whether the routine has been run.\<close>

definition pthread_once :: "bool option \<Rightarrow> bool \<Rightarrow> pthread_state \<Rightarrow> (int \<times> bool option \<times> bool) \<times> pthread_state" where
  "pthread_once once_control has_routine st =
     (let flag = irq_off st; st = st\<lparr>irq_off := True\<rparr>
      in case once_control of
           None \<Rightarrow> ((- EINVAL, None, False), st)
         | Some done_ \<Rightarrow>
             if \<not> has_routine then ((- EINVAL, once_control, False), st)
             else ((0, Some True, \<not> done_), st\<lparr>irq_off := flag\<rparr>))"

section \<open>The table as a set\<close>

lemma get_slot_iff: "get_slot t ps = (if t \<in> set ps then t else 0)"
  by (induction ps) auto

lemma pthread_get_iff: "pthread_get t st = (if t \<in> set (pthreads st) then t else 0)"
  by (simp add: pthread_get_def get_slot_iff)

lemma set_slot_Some: "set_slot t ps = Some qs \<Longrightarrow>
  length qs = length ps \<and> set qs \<subseteq> insert t (set ps) \<and> t \<in> set qs \<and> set ps - {0} \<subseteq> set qs"
  by (induction ps arbitrary: qs) (fastforce split: if_splits)+

lemma set_slot_None: "set_slot t ps = None \<longleftrightarrow> 0 \<notin> set ps"
  by (induction ps) auto

lemma set_slot_distinct:
  "set_slot t ps = Some qs \<Longrightarrow> t \<notin> set ps \<Longrightarrow> distinct (filter (\<lambda>h. h \<noteq> 0) ps) \<Longrightarrow> distinct (filter (\<lambda>h. h \<noteq> 0) qs)"
proof (induction ps arbitrary: qs)
  case (Cons h ps)
  then show ?case using set_slot_Some [of t ps] by (fastforce split: if_splits)
qed simp

lemma del_slot_filter:
  "t \<noteq> 0 \<Longrightarrow> distinct (filter (\<lambda>h. h \<noteq> 0) ps) \<Longrightarrow>
   filter (\<lambda>h. h \<noteq> 0) (del_slot t ps) = filter (\<lambda>h. h \<noteq> 0 \<and> h \<noteq> t) ps"
proof (induction ps)
  case (Cons h ps)
  have *: "t \<notin> set ps \<Longrightarrow> filter (\<lambda>h. h \<noteq> 0) ps = filter (\<lambda>h. h \<noteq> 0 \<and> h \<noteq> t) ps"
    by (rule filter_cong) auto
  show ?case
  proof (cases "h = t")
    case True
    then show ?thesis using Cons.prems * by simp
  next
    case False
    then show ?thesis using Cons by (simp split: if_splits)
  qed
qed simp

lemma length_del_slot [simp]: "length (del_slot t ps) = length ps"
  by (induction ps) auto

lemma del_set_slot: "set_slot t ps = Some qs \<Longrightarrow> t \<notin> set ps \<Longrightarrow> t \<noteq> 0 \<Longrightarrow> del_slot t qs = ps"
  by (induction ps arbitrary: qs) (auto split: if_splits)

text \<open>The handles in use.\<close>

definition live :: "pthread_state \<Rightarrow> nat list" where
  "live st = filter (\<lambda>h. h \<noteq> 0) (pthreads st)"

lemma live_iff: "t \<in> set (live st) \<longleftrightarrow> t \<noteq> 0 \<and> t \<in> set (pthreads st)"
  by (auto simp: live_def)

text \<open>Every handle in the table is there once and leads to a structure with a semaphore, and structures in memory
  are in the table.\<close>

definition pt_inv :: "pthread_state \<Rightarrow> bool" where
  "pt_inv st \<longleftrightarrow> length (pthreads st) = PTHREAD_MAX \<and> length (thread_keys st) = PTHREAD_KEY_MAX \<and> distinct (live st)
     \<and> (\<forall>h. tasks st h \<noteq> None \<longleftrightarrow> h \<in> set (live st))
     \<and> (\<forall>h t. tasks st h = Some t \<longrightarrow> sem_hdl (join_sema t) \<noteq> None)"

lemma pt_inv_init: "pt_inv pthread_init_state"
  by (simp add: pt_inv_def pthread_init_state_def live_def filter_replicate)

lemma pt_inv_upd:
  assumes "pt_inv st" "tasks st h = Some t" "sem_hdl (join_sema t') \<noteq> None"
  shows "pt_inv (st\<lparr>tasks := (tasks st)(h := Some t')\<rparr>)"
  using assms by (auto simp: pt_inv_def live_def)

lemma pt_inv_tlsmem [simp]: "pt_inv (st\<lparr>tlsmem := m\<rparr>) = pt_inv st"
  by (simp add: pt_inv_def live_def)

lemma live_tlsmem [simp]: "live (st\<lparr>tlsmem := m\<rparr>) = live st"
  by (simp add: live_def)

lemma pt_inv_dtor [simp]: "pt_inv (st\<lparr>dtor_calls := m\<rparr>) = pt_inv st"
  by (simp add: pt_inv_def live_def)

lemma pt_inv_task: "pt_inv st \<Longrightarrow> h \<in> set (live st) \<Longrightarrow> \<exists>t. tasks st h = Some t \<and> sem_hdl (join_sema t) \<noteq> None"
  unfolding pt_inv_def by blast

lemma pt_inv_None: "pt_inv st \<Longrightarrow> tasks st h = None \<longleftrightarrow> h \<notin> set (live st)"
  unfolding pt_inv_def by blast

lemma pthread_key_destroy_dtor:
  "pthread_key_destroy tls st = Some st' \<Longrightarrow> \<exists>c. st' = st\<lparr>dtor_calls := c\<rparr>"
  by (auto simp: pthread_key_destroy_def bind_eq_Some_conv split: if_splits intro: exI [of _ "dtor_calls st"])

lemma free_tls_tlsmem: "free_tls tls st = Some st' \<Longrightarrow> \<exists>m. st' = st\<lparr>tlsmem := m\<rparr>"
  by (auto simp: free_tls_def bind_eq_Some_conv split: if_splits intro: exI [of _ "tlsmem st"])

lemma pthread_create_inv:
  assumes "pt_inv st" "tasks st addr = None"
  shows "pt_inv (snd (pthread_create attr start arg addr hdl st))"
proof (cases "addr = 0 \<or> set_slot addr (pthreads st) = None")
  case True
  then show ?thesis using assms(1) by (auto simp: pthread_create_def pthread_set_def Let_def)
next
  case False
  then obtain qs where a: "addr \<noteq> 0" "set_slot addr (pthreads st) = Some qs" by auto
  have n: "addr \<notin> set (pthreads st)" using pt_inv_None [OF assms(1), of addr] assms(2) a(1) by (simp add: live_iff)
  note q = set_slot_Some [OF a(2)]
  have l: "set (filter (\<lambda>h. h \<noteq> 0) qs) = insert addr (set (live st))" using q a(1) by (auto simp: live_def)
  have d: "distinct (filter (\<lambda>h. h \<noteq> 0) qs)"
    using set_slot_distinct [OF a(2) n] assms(1) by (simp add: pt_inv_def live_def)
  show ?thesis using assms a q l d
    by (auto simp: pthread_create_def pthread_set_def Let_def pt_inv_def os_sema_init_def csi_kernel_sem_new_def live_def)
qed

lemma pthread_free_inv:
  assumes "pt_inv st" "thd \<in> set (live st)" "pthread_free thd st = Some st'"
  shows "pt_inv st' \<and> live st' = filter (\<lambda>h. h \<noteq> thd) (live st) \<and> tasks st' thd = None"
proof -
  have l: "filter (\<lambda>h. h \<noteq> 0) (del_slot thd (pthreads st)) = filter (\<lambda>h. h \<noteq> thd) (live st)"
    using assms(1, 2) by (subst del_slot_filter) (auto simp: pt_inv_def live_def intro: filter_cong)
  obtain t sem r st2 st3 where f: "tasks st thd = Some t"
      "pthread_key_destroy (pt_tls t) ((pthread_del thd st)\<lparr>tasks := (tasks st)(thd := Some (t\<lparr>join_sema := sem\<rparr>))\<rparr>) = Some st2"
      "free_tls (pt_tls t) st2 = Some st3" "st' = st3\<lparr>tasks := (tasks st3)(thd := None)\<rparr>"
    using assms(3) by (auto simp: pthread_free_def pthread_del_def bind_eq_Some_conv Let_def split: prod.splits)
  obtain calls m where "st2 = (pthread_del thd st)\<lparr>tasks := (tasks st)(thd := Some (t\<lparr>join_sema := sem\<rparr>)), dtor_calls := calls\<rparr>"
      "st3 = st2\<lparr>tlsmem := m\<rparr>"
    using pthread_key_destroy_dtor [OF f(2)] free_tls_tlsmem [OF f(3)] by auto
  then have e: "st' = st\<lparr>pthreads := del_slot thd (pthreads st), tasks := (tasks st)(thd := None), dtor_calls := calls, tlsmem := m\<rparr>"
    using f(4) by (simp add: pthread_del_def)
  have lv: "live st' = filter (\<lambda>h. h \<noteq> thd) (live st)" unfolding live_def [of st'] using l by (simp add: e)
  have "pt_inv st'" using assms(1, 2) e unfolding pt_inv_def lv by auto
  then show ?thesis using e lv by simp
qed

lemma pthread_tls_inv:
  assumes "pt_inv st" "pthread_tls thread create mem st = Some (p, st')"
  shows "pt_inv st' \<and> live st' = live st"
proof (cases "pthread_get thread st = 0")
  case True
  then show ?thesis using assms by (simp add: pthread_tls_def)
next
  case False
  then obtain t where t: "tasks st (pthread_get thread st) = Some t"
    using assms(2) by (auto simp: pthread_tls_def bind_eq_Some_conv Let_def)
  let ?u = "\<lambda>a. st\<lparr>tasks := (tasks st)(pthread_get thread st := Some (t\<lparr>pt_tls := a\<rparr>))\<rparr>"
  have u: "pt_inv (?u a)" for a
    using assms(1) t by (intro pt_inv_upd) (auto simp: pt_inv_def)
  have "\<exists>m. st' = st \<or> st' = (?u (fst mem))\<lparr>tlsmem := m\<rparr> \<or> st' = (?u 0)\<lparr>tlsmem := m\<rparr>"
    using assms(2) t False free_tls_tlsmem [of "pt_tls t" "?u 0"]
    by (auto simp: pthread_tls_def bind_eq_Some_conv Let_def split: if_splits)
  then show ?thesis using assms(1) u by (auto simp: live_def simp del: fun_upd_apply)
qed

lemma pt_inv_keys: "pt_inv st \<Longrightarrow> length ks = PTHREAD_KEY_MAX \<Longrightarrow> pt_inv (st\<lparr>thread_keys := ks\<rparr>)"
  by (simp add: pt_inv_def live_def)

lemma pt_inv_keys_len: "pt_inv st \<Longrightarrow> length (thread_keys st) = PTHREAD_KEY_MAX"
  by (simp add: pt_inv_def)

lemma pthread_getspecific_inv:
  assumes "pt_inv st" "pthread_getspecific cur key st = Some (d, st')"
  shows "pt_inv st' \<and> live st' = live st"
proof -
  obtain p st1 where "pthread_tls (pthread_self cur st) False (0, []) st = Some (p, st1)" "st' = st1"
    using assms(2) by (auto simp: pthread_getspecific_def bind_eq_Some_conv split: if_splits)
  then show ?thesis using pthread_tls_inv [OF assms(1)] by blast
qed

lemma pthread_setspecific_inv:
  assumes "pt_inv st" "pthread_setspecific cur key v mem st = Some (d, st')"
  shows "pt_inv st' \<and> live st' = live st"
proof -
  obtain p st1 m where t: "pthread_tls (pthread_self cur st) True mem st = Some (p, st1)" and "st' = st1 \<or> st' = st1\<lparr>tlsmem := m\<rparr>"
    using assms(2) by (fastforce simp: pthread_setspecific_def bind_eq_Some_conv split: if_splits)
  then show ?thesis using pthread_tls_inv [OF assms(1) t] by auto
qed

lemma pthread_task_entry_inv:
  assumes "pt_inv st" "thd \<in> set (live st)" "pthread_task_entry thd st = Some (Ret st')"
  shows "pt_inv st'"
proof -
  obtain t where t: "tasks st thd = Some t" using pt_inv_task [OF assms(1, 2)] by blast
  show ?thesis
  proof (cases "detachstate (pt_attr t) = PTHREAD_CREATE_JOINABLE")
    case True
    then obtain r sem where "os_sema_up (join_sema t) = Some (r, sem)"
        "st' = st\<lparr>tasks := (tasks st)(thd := Some (t\<lparr>join_sema := sem\<rparr>))\<rparr>"
      using assms(3) t by (auto simp: pthread_task_entry_def bind_eq_Some_conv split: if_splits)
    then show ?thesis using pt_inv_upd [OF assms(1) t] by (auto simp: os_sema_up_def bind_eq_Some_conv)
  next
    case False
    then have "pthread_free thd st = Some st'"
      using assms(3) t by (auto simp: pthread_task_entry_def bind_eq_Some_conv split: if_splits)
    then show ?thesis using pthread_free_inv [OF assms(1, 2)] by blast
  qed
qed

lemma pthread_join_inv:
  assumes "pt_inv st" "pthread_join cur thread st = Some (Ret (r, st'))"
  shows "pt_inv st'"
proof (cases "st' = st")
  case False
  let ?thd = "pthread_get thread st"
  obtain t w where w: "tasks st ?thd = Some t" "os_sema_down osWaitForever (join_sema t) = Some w" "?thd \<noteq> 0"
      "(case w of Block \<Rightarrow> Some Block
         | Ret (_, sem) \<Rightarrow> pthread_free ?thd (st\<lparr>tasks := (tasks st)(?thd := Some (t\<lparr>join_sema := sem\<rparr>))\<rparr>)
             \<bind> (\<lambda>st. Some (Ret (0, st)))) = Some (Ret (r, st'))"
    using assms(2) False by (auto simp: pthread_join_def bind_eq_Some_conv Let_def split: if_splits)
  then obtain sem q where t: "tasks st ?thd = Some t" "os_sema_down osWaitForever (join_sema t) = Some (Ret (q, sem))"
      "pthread_free ?thd (st\<lparr>tasks := (tasks st)(?thd := Some (t\<lparr>join_sema := sem\<rparr>))\<rparr>) = Some st'"
    by (cases w) (auto simp: bind_eq_Some_conv)
  let ?st = "st\<lparr>tasks := (tasks st)(?thd := Some (t\<lparr>join_sema := sem\<rparr>))\<rparr>"
  have "sem_hdl sem \<noteq> None" using t(2) by (auto simp: os_sema_down_def bind_eq_Some_conv split: if_splits)
  then have i: "pt_inv ?st" using pt_inv_upd [OF assms(1) t(1)] by simp
  have "?thd \<in> set (live ?st)" using assms(1) t(1) by (auto simp: pt_inv_def live_def)
  then show ?thesis using pthread_free_inv [OF i _ t(3)] by blast
qed (use assms in simp)

text \<open>Whatever the program does with the layer.\<close>

inductive pt_reach :: "pthread_state \<Rightarrow> bool" where
  pt_init: "pt_reach pthread_init_state"
| pt_create: "pt_reach st \<Longrightarrow> tasks st addr = None \<Longrightarrow> pthread_create attr start arg addr hdl st = (r, st') \<Longrightarrow> pt_reach st'"
| pt_return: "pt_reach st \<Longrightarrow> thd \<in> set (live st) \<Longrightarrow> pthread_task_entry thd st = Some (Ret st') \<Longrightarrow> pt_reach st'"
| pt_join: "pt_reach st \<Longrightarrow> pthread_join cur thread st = Some (Ret (r, st')) \<Longrightarrow> pt_reach st'"
| pt_detach: "pt_reach st \<Longrightarrow> pthread_detach thread st = Some (r, st') \<Longrightarrow> pt_reach st'"
| pt_exit: "pt_reach st \<Longrightarrow> pthread_exit cur destroyed st = Some st' \<Longrightarrow> pt_reach st'"
| pt_key_create: "pt_reach st \<Longrightarrow> pthread_key_create dtor st = (r, st') \<Longrightarrow> pt_reach st'"
| pt_key_delete: "pt_reach st \<Longrightarrow> pthread_key_delete key st = Some (r, st') \<Longrightarrow> pt_reach st'"
| pt_getspecific: "pt_reach st \<Longrightarrow> pthread_getspecific cur key st = Some (v, st') \<Longrightarrow> pt_reach st'"
| pt_setspecific: "pt_reach st \<Longrightarrow> pthread_setspecific cur key v mem st = Some (r, st') \<Longrightarrow> pt_reach st'"

lemma pt_reach_inv: "pt_reach st \<Longrightarrow> pt_inv st"
proof (induction rule: pt_reach.induct)
  case pt_init
  show ?case by (rule pt_inv_init)
next
  case (pt_create st addr attr start arg hdl r st')
  then show ?case using pthread_create_inv [of st addr attr start arg hdl] by simp
next
  case (pt_detach st thread r st')
  then show ?case
    by (auto simp: pthread_detach_def Let_def bind_eq_Some_conv pt_inv_def live_def split: if_splits)
next
  case (pt_exit st cur destroyed st')
  let ?thd = "pthread_get (pthread_self cur st) st"
  have "st' = st \<or> ?thd \<noteq> 0 \<and> pthread_free ?thd st = Some st'"
    using pt_exit(2) by (auto simp: pthread_exit_def Let_def split: if_splits)
  moreover have "?thd \<noteq> 0 \<Longrightarrow> ?thd \<in> set (live st)" by (simp add: pthread_get_iff live_iff split: if_splits)
  ultimately show ?case using pt_exit(3) pthread_free_inv by blast
next
  case (pt_key_create st dtor r st')
  then show ?case by (auto simp: pthread_key_create_def intro!: pt_inv_keys dest: pt_inv_keys_len split: option.splits)
next
  case (pt_key_delete st key r st')
  then show ?case
    by (auto simp: pthread_key_delete_def mem_wr_def bind_eq_Some_conv intro!: pt_inv_keys dest: pt_inv_keys_len split: if_splits)
qed (auto dest: pthread_task_entry_inv pthread_join_inv pthread_getspecific_inv pthread_setspecific_inv)

section \<open>Properties of the layer\<close>


lemma live_full: "0 \<notin> set (pthreads st) \<longleftrightarrow> length (live st) = length (pthreads st)"
proof
  assume "length (live st) = length (pthreads st)"
  then have "\<not> length (filter (\<lambda>h. h \<noteq> 0) (pthreads st)) < length (pthreads st)" by (simp add: live_def)
  then show "0 \<notin> set (pthreads st)" using length_filter_less [of 0 "pthreads st" "\<lambda>h. h \<noteq> 0"] by auto
next
  assume "0 \<notin> set (pthreads st)"
  then have "live st = pthreads st" unfolding live_def by (intro filter_True ballI notI) simp
  then show "length (live st) = length (pthreads st)" by simp
qed

text \<open>A thread can be created as long as fewer than 32 are in the table.\<close>

theorem pthread_create_limit:
  assumes "pt_reach st" "addr \<noteq> 0" "tasks st addr = None"
  shows "fst (fst (pthread_create attr start arg addr hdl st)) = (if length (live st) = PTHREAD_MAX then - ESRCH else RET_OK)"
proof -
  have "set_slot addr (pthreads st) = None \<longleftrightarrow> length (live st) = PTHREAD_MAX"
    using pt_reach_inv [OF assms(1)] live_full [of st] by (simp add: set_slot_None pt_inv_def)
  then show ?thesis using assms(2) by (auto simp: pthread_create_def pthread_set_def Let_def split: option.splits)
qed


text \<open>A value that has been set is never found again: \<open>pthread_getspecific\<close> asks \<open>pthread_tls\<close> not to create the
  array, and that frees it and answers NULL.\<close>

theorem pthread_specific_lost:
  assumes "pthread_setspecific cur key v mem st = Some (RET_OK, st1)" "cur \<noteq> 0"
  shows "\<exists>st2 t. pthread_getspecific cur key st1 = Some (0, st2) \<and> tasks st1 cur = Some t \<and> pt_tls t \<noteq> 0
    \<and> tlsmem st2 = (tlsmem st1)(pt_tls t := None)"
proof -
  obtain tls st0 k data where a: "pthread_tls (pthread_self cur st) True mem st = Some (tls, st0)" "tls \<noteq> 0"
      "tlsmem st0 tls = Some data" "st1 = st0\<lparr>tlsmem := (tlsmem st0)(tls := Some (data[nat key := v]))\<rparr>"
    using assms(1) by (fastforce simp: pthread_setspecific_def bind_eq_Some_conv mem_wr_def split: if_splits)
  have c: "pthread_get cur st = cur" "pthread_get (pthread_self cur st) st = cur"
    using a(1, 2) by (auto simp: pthread_tls_def pthread_self_def pthread_get_iff Let_def split: if_splits)
  obtain t where t: "tasks st0 cur = Some t" "pt_tls t = tls" "pthreads st0 = pthreads st"
    using a(1, 2) assms(2) c by (auto simp: pthread_tls_def Let_def bind_eq_Some_conv split: if_splits)
  have g: "pthread_get cur st1 = cur" using c(1) t(3) a(4) by (simp add: pthread_get_iff)
  have "pthread_tls (pthread_self cur st1) False (0, []) st1
      = Some (0, st1\<lparr>tasks := (tasks st1)(cur := Some (t\<lparr>pt_tls := 0\<rparr>)), tlsmem := (tlsmem st1)(tls := None)\<rparr>)"
    using t a(2-4) assms(2) g by (simp add: pthread_tls_def pthread_self_def free_tls_def del: fun_upd_apply) simp
  then have "pthread_getspecific cur key st1
      = Some (0, st1\<lparr>tasks := (tasks st1)(cur := Some (t\<lparr>pt_tls := 0\<rparr>)), tlsmem := (tlsmem st1)(tls := None)\<rparr>)"
    by (simp add: pthread_getspecific_def)
  moreover have "tasks st1 cur = Some t" using a(4) t(1) by simp
  ultimately show ?thesis using t(2) a(2) by auto
qed

text \<open>A thread that ends with \<open>pthread_exit\<close> keeps its place in the table, and joining it never returns: the
  semaphore is posted by a return of the start function only.\<close>

theorem pthread_exit_join_blocks:
  assumes "pthread_exit thd True st = Some st'" "tasks st thd = Some t" "thd \<in> set (live st)" "cur \<noteq> thd"
    "detachstate (pt_attr t) = PTHREAD_CREATE_JOINABLE" "sem_hdl (join_sema t) = Some 0"
  shows "st' = st \<and> pthread_join cur thd st' = Some Block"
proof -
  have "st' = st" using assms(1) by (simp add: pthread_exit_def Let_def split: if_splits)
  moreover have "pthread_join cur thd st = Some Block"
    using assms(2-6) by (simp add: pthread_join_def pthread_get_iff live_iff pthread_self_def os_sema_down_def)
  ultimately show ?thesis by simp
qed

text \<open>Refused arguments leave \<open>pthread_once\<close> with the interrupts disabled.\<close>

theorem pthread_once_null_irq:
  "irq_off (snd (pthread_once None has_routine st)) \<and> irq_off (snd (pthread_once c False st))
   \<and> snd (pthread_once (Some d) True st) = st"
  by (simp add: pthread_once_def Let_def split: option.splits)

section \<open>Priorities are ordered\<close>

lemma sdiv_pos: "0 \<le> a \<Longrightarrow> 0 < b \<Longrightarrow> a sdiv b = a div (b :: int)"
  by (simp add: signed_divide_int_def sgn_if)

text \<open>The kernel priority of a POSIX priority from 1 to 99.\<close>

definition kprio_of :: "int \<Rightarrow> int" where
  "kprio_of p = (if p \<le> 20 then min (1 + p div 2) 8 else if p \<le> 40 then min (9 + (p - 20) div 2) 16
     else if p \<le> 60 then min (17 + (p - 40) div 2) 24 else min (25 + (p - 60) div 4) 32)"

lemma os_task_set_priority_bands:
  assumes "0 \<le> k" "k \<le> 15"
  shows "os_task_set_priority (16 + k) = min (1 + k) 8" "os_task_set_priority (32 + k) = min (9 + k) 16"
    "os_task_set_priority (48 + k) = min (17 + k) 24" "os_task_set_priority (64 + k) = min (25 + k) 32"
proof -
  have "(16 + k) mod 256 = 16 + k" "(32 + k) mod 256 = 32 + k" "(48 + k) mod 256 = 48 + k" "(64 + k) mod 256 = 64 + k"
    using assms by (simp_all add: mod_pos_pos_trivial)
  then show "os_task_set_priority (16 + k) = min (1 + k) 8" "os_task_set_priority (32 + k) = min (9 + k) 16"
    "os_task_set_priority (48 + k) = min (17 + k) 24" "os_task_set_priority (64 + k) = min (25 + k) 32"
    using assms by (simp_all add: os_task_set_priority_def os_task_band_def)
qed

lemma kprio_value:
  assumes "1 \<le> sched_priority a" "sched_priority a \<le> 99"
  shows "os_task_set_priority (pthread_priority (Some a)) = kprio_of (sched_priority a)"
proof -
  let ?p = "sched_priority a"
  consider "?p \<le> 20" | "20 < ?p" "?p \<le> 40" | "40 < ?p" "?p \<le> 60" | "60 < ?p" by linarith
  then show ?thesis
  proof cases
    case 1
    moreover have "0 \<le> ?p div 2" "?p div 2 \<le> 10" using assms 1 by auto
    ultimately show ?thesis using assms os_task_set_priority_bands(1) [of "?p div 2"]
      by (simp add: pthread_priority_def kprio_of_def sdiv_pos)
  next
    case 2
    moreover have "0 \<le> (?p - 20) div 2" "(?p - 20) div 2 \<le> 10" using 2 by auto
    ultimately show ?thesis using assms os_task_set_priority_bands(2) [of "(?p - 20) div 2"]
      by (simp add: pthread_priority_def kprio_of_def sdiv_pos)
  next
    case 3
    moreover have "0 \<le> (?p - 40) div 2" "(?p - 40) div 2 \<le> 10" using 3 by auto
    ultimately show ?thesis using assms os_task_set_priority_bands(3) [of "(?p - 40) div 2"]
      by (simp add: pthread_priority_def kprio_of_def sdiv_pos)
  next
    case 4
    moreover have "0 \<le> (?p - 60) div 4" "(?p - 60) div 4 \<le> 9" using 4 assms by auto
    ultimately show ?thesis using assms os_task_set_priority_bands(4) [of "(?p - 60) div 4"]
      by (simp add: pthread_priority_def kprio_of_def sdiv_pos)
  qed
qed

lemma bands_mono:
  fixes p q :: int
  assumes "p \<le> q" "a \<le> a'" "b \<le> b'" "c \<le> c'" "d \<le> d'" "20 < q \<longrightarrow> 0 \<le> b'" "40 < q \<longrightarrow> 0 \<le> c'" "60 < q \<longrightarrow> (0 :: int) \<le> d'"
  shows "(if p \<le> 20 then min (1 + a) 8 else if p \<le> 40 then min (9 + b) 16 else if p \<le> 60 then min (17 + c) 24 else min (25 + d) 32)
    \<le> (if q \<le> 20 then min (1 + a') 8 else if q \<le> 40 then min (9 + b') 16 else if q \<le> 60 then min (17 + c') 24 else min (25 + d') 32)"
  using assms by (cases "p \<le> 20"; cases "p \<le> 40"; cases "p \<le> 60"; cases "q \<le> 20"; cases "q \<le> 40"; cases "q \<le> 60")
    (simp_all add: min_def)

lemma kprio_of_mono: "p \<le> q \<Longrightarrow> kprio_of p \<le> kprio_of q"
  unfolding kprio_of_def by (rule bands_mono) (simp_all add: zdiv_mono1 pos_imp_zdiv_nonneg_iff)

lemma kprio_of_bounds: "1 \<le> p \<Longrightarrow> 1 \<le> kprio_of p \<and> kprio_of p \<le> 32"
  unfolding kprio_of_def by auto

text \<open>The POSIX priorities 1 to 99 keep their order on the kernel's scale and stay below the real-time levels.\<close>

theorem pthread_priority_mono:
  assumes "1 \<le> sched_priority a" "sched_priority a \<le> sched_priority b" "sched_priority b \<le> 99"
  shows "1 \<le> os_task_set_priority (pthread_priority (Some a))
    \<and> os_task_set_priority (pthread_priority (Some a)) \<le> os_task_set_priority (pthread_priority (Some b))
    \<and> os_task_set_priority (pthread_priority (Some b)) \<le> 32"
  using assms kprio_of_mono [of "sched_priority a" "sched_priority b"] kprio_of_bounds by (simp add: kprio_value)

text \<open>A negative priority, which nothing refuses, wraps to the highest one.\<close>

theorem pthread_priority_negative:
  assumes "- 385 \<le> sched_priority a" "sched_priority a \<le> - 34"
  shows "os_task_set_priority (pthread_priority (Some a)) = 32"
proof -
  let ?n = "- sched_priority a div 2"
  have d: "sched_priority a sdiv 2 = - ?n" using assms by (simp add: signed_divide_int_def sgn_if)
  have n: "17 \<le> ?n" "?n \<le> 192" using assms by auto
  have "(16 - ?n) mod 256 = (16 - ?n + 256) mod 256" by (rule mod_add_self2 [symmetric])
  also have "\<dots> = 16 - ?n + 256" using n by (intro mod_pos_pos_trivial) auto
  finally have b: "(16 - ?n) mod 256 \<ge> 80" using n by simp
  have band: "os_task_band (x mod 2 ^ 32 - x mod 256 + 79) = 32" for x
  proof -
    let ?y = "x mod 2 ^ 32"
    have "?y mod 256 = x mod 256" by (simp add: mod_mod_cancel)
    then have "?y - x mod 256 + 79 = 79 + 256 * (?y div 256)" by (simp add: minus_mod_eq_mult_div [symmetric])
    then have "(?y - x mod 256 + 79) mod 256 = 79 mod 256" by (simp only: mod_mult_self2)
    then show ?thesis by (simp add: os_task_band_def Let_def)
  qed
  have "pthread_priority (Some a) = 16 - ?n" using d assms by (simp add: pthread_priority_def)
  then show ?thesis using b band [of "16 - ?n"] by (simp only: os_task_set_priority_def Let_def if_True) simp
qed

section \<open>Concrete runs\<close>

abbreviation attr0 :: "int \<Rightarrow> pthread_attr" where
  "attr0 p \<equiv> \<lparr>detachstate = 0, sched_priority = p, stacksize = 1024\<rparr>"

lemma live_init [simp]: "live pthread_init_state = []"
  by (simp add: live_def pthread_init_state_def filter_replicate)

lemma init_sel [simp]: "tasks pthread_init_state = (\<lambda>_. None)" "irq_off pthread_init_state = False"
  by (simp_all add: pthread_init_state_def)


theorem pthread_create_limit_witness: "fst (fst (pthread_create None 7 0 4096 1 pthread_init_state)) = RET_OK"
  using pthread_create_limit [OF pt_init, of 4096 None 7 0 1] by simp


text \<open>A thread at 4096 with one key in use.\<close>

definition one_thread :: pthread_state where
  "one_thread = \<lparr>pthreads = [4096], tasks = (\<lambda>_. None)(4096 := Some \<lparr>inited = True, task_hdl = 1,
      join_sema = \<lparr>sem_magic = SEMA_MAGIC, sem_hdl = Some 0\<rparr>, pt_attr = attr0 0, pt_arg = 0, pt_start = 7, pt_tls = 0\<rparr>),
     tlsmem = (\<lambda>_. None), thread_keys = [\<lparr>is_used = True, destructor = 9\<rparr>], dtor_calls = [], irq_off = False\<rparr>"

lemma one_thread_set: "\<exists>st1. pthread_setspecific 4096 0 77 (512, [0]) one_thread = Some (RET_OK, st1)"
  by (simp add: pthread_setspecific_def pthread_tls_def pthread_self_def pthread_get_iff one_thread_def mem_rd_def mem_wr_def)

theorem pthread_specific_lost_witness:
  "\<exists>st1 st2. pthread_setspecific 4096 0 77 (512, [0]) one_thread = Some (RET_OK, st1) \<and> pthread_getspecific 4096 0 st1 = Some (0, st2)"
  using one_thread_set pthread_specific_lost [of 4096 0 77 "(512, [0])" one_thread] by fastforce

theorem pthread_exit_join_blocks_witness: "pthread_join 0 4096 one_thread = Some Block"
  by (rule pthread_exit_join_blocks [of 4096 one_thread one_thread _ 0, THEN conjunct2])
    (simp_all add: pthread_exit_def pthread_get_iff pthread_self_def one_thread_def live_def, simp_all)

theorem pthread_priority_mono_witness:
  "os_task_set_priority (pthread_priority (Some (attr0 10))) \<le> os_task_set_priority (pthread_priority (Some (attr0 90)))"
  using pthread_priority_mono [of "attr0 10" "attr0 90"] by simp

theorem pthread_priority_negative_witness: "os_task_set_priority (pthread_priority (Some (attr0 (- 100)))) = 32"
  using pthread_priority_negative [of "attr0 (- 100)"] by simp

end
