(* ===== verification/PosixMq.thy ===== *)
theory PosixMq
  imports OsSync
begin

text \<open>
  POSIX message queues, \<open>sdk/lib/posix/mqueue.c\<close>, on the message queues of the operating system layer,
  \<open>sdk/osal/csky/msgqueue.c\<close>. A kernel queue holds 32-bit words, here any values, in order up to a capacity, as
  \<open>csi_kernel.h\<close> documents it. The words the POSIX layer sends are addresses of \<open>struct pthread_mq_data\<close>, which are
  kept, with the copy of the message they own, in a store; queues are structures at addresses, in the order of the
  list \<open>mq_list\<close>. Addresses that allocations return are arguments, 0 is NULL. A failed \<open>ASSERT\<close> or a use of freed
  memory is \<open>None\<close>.
\<close>

section \<open>Kernel queues\<close>

record 'a os_msgqueue =
  msgq_magic :: u32
  msgq_hdl :: "(int \<times> 'a list) option"

definition MSGQ_MAGIC :: u32 where "MSGQ_MAGIC = 0x4a8b1c9d"

definition os_msgq_init :: "bool \<Rightarrow> int \<Rightarrow> 'a os_msgqueue \<Rightarrow> int \<times> 'a os_msgqueue" where
  "os_msgq_init alloc_ok count msgq =
     (let msgq = msgq\<lparr>msgq_hdl := (if count \<le> 0 \<or> \<not> alloc_ok then None else Some (count, []))\<rparr>
      in if msgq_hdl msgq \<noteq> None then (RET_OK, msgq\<lparr>msgq_magic := MSGQ_MAGIC\<rparr>) else (RET_ERR, msgq))"

text \<open>Without a message in time the answer is the initial value of \<open>val\<close>, 0.\<close>

definition os_msgq_get :: "int \<Rightarrow> nat os_msgqueue \<Rightarrow> (nat \<times> nat os_msgqueue) waiting option" where
  "os_msgq_get tmo_ms msgq = do {
     (cap, q) \<leftarrow> msgq_hdl msgq;
     Some (case q of x # xs \<Rightarrow> Ret (x, msgq\<lparr>msgq_hdl := Some (cap, xs)\<rparr>)
           | [] \<Rightarrow> if tmo_ms = 0 then Ret (0, msgq) else Block) }"

definition os_msgq_put :: "'a \<Rightarrow> int \<Rightarrow> 'a os_msgqueue \<Rightarrow> (int \<times> 'a os_msgqueue) waiting option" where
  "os_msgq_put x tmo_ms msgq = do {
     (cap, q) \<leftarrow> msgq_hdl msgq;
     Some (if int (length q) < cap then Ret (0, msgq\<lparr>msgq_hdl := Some (cap, q @ [x])\<rparr>)
           else if tmo_ms = 0 then Ret (- EPERM, msgq) else Block) }"

text \<open>The kernel is asked for the back of the queue here too.\<close>

definition os_msgq_put_head :: "'a \<Rightarrow> int \<Rightarrow> 'a os_msgqueue \<Rightarrow> (int \<times> 'a os_msgqueue) waiting option" where
  "os_msgq_put_head x tmo_ms msgq = os_msgq_put x tmo_ms msgq"

definition os_msgq_del :: "'a os_msgqueue \<Rightarrow> (int \<times> 'a os_msgqueue) option" where
  "os_msgq_del msgq = do { _ \<leftarrow> msgq_hdl msgq; Some (RET_OK, msgq\<lparr>msgq_hdl := None, msgq_magic := 0\<rparr>) }"

definition os_msgq_cnt :: "'a os_msgqueue \<Rightarrow> int" where
  "os_msgq_cnt msgq = (case msgq_hdl msgq of None \<Rightarrow> - EINVAL | Some (_, q) \<Rightarrow> int (length q))"

section \<open>State\<close>

record pthread_mq =
  mq_name :: string
  mq_unlinked :: bool
  mq_msgq :: "nat os_msgqueue"

record mq_state =
  mq_list :: "nat list"
  mqs :: "nat \<Rightarrow> pthread_mq option"
  mq_vals :: "nat \<Rightarrow> u8 list option"

section \<open>The list of queues\<close>

fun mq_find_loop :: "string \<Rightarrow> mq_state \<Rightarrow> nat list \<Rightarrow> nat option" where
  "mq_find_loop name st [] = Some 0"
| "mq_find_loop name st (a # as) = do {
     mq \<leftarrow> mqs st a;
     if mq_name mq = name then Some a else mq_find_loop name st as }"

definition mq_list_find :: "string \<Rightarrow> bool \<Rightarrow> mq_state \<Rightarrow> (nat \<times> mq_state) option" where
  "mq_list_find name unlink st = do {
     a \<leftarrow> mq_find_loop name st (mq_list st);
     if a \<noteq> 0 \<and> unlink then do {
       mq \<leftarrow> mqs st a;
       Some (a, st\<lparr>mq_list := remove1 a (mq_list st), mqs := (mqs st)(a := Some (mq\<lparr>mq_unlinked := True\<rparr>))\<rparr>) }
     else Some (a, st) }"

definition mq_list_add :: "nat \<Rightarrow> mq_state \<Rightarrow> mq_state" where
  "mq_list_add a st = st\<lparr>mq_list := a # mq_list st\<rparr>"

section \<open>Operations\<close>

text \<open>The message size of the attributes becomes the length of the queue; the result of \<open>os_msgq_init\<close> is not looked at.\<close>

definition mq_open :: "string \<Rightarrow> int option \<Rightarrow> nat \<Rightarrow> bool \<Rightarrow> mq_state \<Rightarrow> (int \<times> mq_state) option" where
  "mq_open name msgsize addr alloc_ok st = do {
     (a, st) \<leftarrow> mq_list_find name False st;
     if a \<noteq> 0 then Some (int a, st)
     else if addr = 0 then Some (- ENOMEM, st)
     else let q = snd (os_msgq_init alloc_ok (case msgsize of Some n \<Rightarrow> n | None \<Rightarrow> 32) \<lparr>msgq_magic = 0, msgq_hdl = None\<rparr>);
              st = st\<lparr>mqs := (mqs st)(addr := Some \<lparr>mq_name = take 31 name, mq_unlinked = False, mq_msgq = q\<rparr>)\<rparr>
          in Some (int addr, mq_list_add addr st) }"

definition mq_close :: "nat \<Rightarrow> int" where "mq_close mqdes = 0"
definition mq_getattr :: "nat \<Rightarrow> int" where "mq_getattr mqdes = 0"

text \<open>The answer carries what has been copied to the caller's buffer, if anything. \<open>os_free\<close> of both blocks of a
  message is one removal from the store.\<close>

definition mq_receive_tmo :: "nat \<Rightarrow> nat \<Rightarrow> int \<Rightarrow> mq_state \<Rightarrow> ((int \<times> u8 list option) \<times> mq_state) waiting option" where
  "mq_receive_tmo mqdes msg_len tmo st = do {
     mq \<leftarrow> mqs st mqdes;
     if mq_unlinked mq then Some (Ret ((- ENODEV, None), st))
     else do {
       w \<leftarrow> os_msgq_get tmo (mq_msgq mq);
       case w of Block \<Rightarrow> Some Block
       | Ret (v, q) \<Rightarrow>
           (let st = st\<lparr>mqs := (mqs st)(mqdes := Some (mq\<lparr>mq_msgq := q\<rparr>))\<rparr>
            in if v = 0 then Some (Ret ((- 1, None), st))
               else do {
                 d \<leftarrow> mq_vals st v;
                 Some (Ret ((0, if msg_len \<ge> length d then Some d else None), st\<lparr>mq_vals := (mq_vals st)(v := None)\<rparr>)) }) } }"

text \<open>\<open>addr\<close> and \<open>data_ok\<close>: the two allocations of a message. A sender that blocks keeps them.\<close>

definition mq_send_tmo :: "nat \<Rightarrow> u8 list \<Rightarrow> int \<Rightarrow> nat \<Rightarrow> bool \<Rightarrow> mq_state \<Rightarrow> (int \<times> mq_state) waiting option" where
  "mq_send_tmo mqdes msg tmo addr data_ok st = do {
     mq \<leftarrow> mqs st mqdes;
     if mq_unlinked mq then Some (Ret (- ENODEV, st))
     else if addr = 0 \<or> \<not> data_ok then Some (Ret (- ENOMEM, st))
     else do {
       w \<leftarrow> os_msgq_put addr tmo (mq_msgq mq);
       case w of Block \<Rightarrow> Some Block
       | Ret (ret, q) \<Rightarrow>
           Some (Ret (if ret = 0
             then (RET_OK, st\<lparr>mqs := (mqs st)(mqdes := Some (mq\<lparr>mq_msgq := q\<rparr>)), mq_vals := (mq_vals st)(addr := Some msg)\<rparr>)
             else (- ENOMEM, st))) } }"

definition mq_receive :: "nat \<Rightarrow> nat \<Rightarrow> mq_state \<Rightarrow> ((int \<times> u8 list option) \<times> mq_state) waiting option" where
  "mq_receive mqdes msg_len st = mq_receive_tmo mqdes msg_len osWaitForever st"

definition mq_send :: "nat \<Rightarrow> u8 list \<Rightarrow> nat \<Rightarrow> bool \<Rightarrow> mq_state \<Rightarrow> (int \<times> mq_state) waiting option" where
  "mq_send mqdes msg addr data_ok st = mq_send_tmo mqdes msg osWaitForever addr data_ok st"

text \<open>The timed variants take the timeout in milliseconds, as \<open>pthread_timespec_delta\<close> computes it.\<close>

definition mq_timedreceive :: "nat \<Rightarrow> nat \<Rightarrow> int \<Rightarrow> mq_state \<Rightarrow> ((int \<times> u8 list option) \<times> mq_state) waiting option" where
  "mq_timedreceive mqdes msg_len delta st = mq_receive_tmo mqdes msg_len delta st"

definition mq_timedsend :: "nat \<Rightarrow> u8 list \<Rightarrow> int \<Rightarrow> nat \<Rightarrow> bool \<Rightarrow> mq_state \<Rightarrow> (int \<times> mq_state) waiting option" where
  "mq_timedsend mqdes msg delta addr data_ok st = mq_send_tmo mqdes msg delta addr data_ok st"

text \<open>Taking the messages that are left off the queue and freeing them.\<close>

fun mq_drain :: "nat list \<Rightarrow> (nat \<Rightarrow> u8 list option) \<Rightarrow> (nat \<Rightarrow> u8 list option) option" where
  "mq_drain [] vals = Some vals"
| "mq_drain (v # vs) vals =
     (if v = 0 then mq_drain vs vals
      else do { _ \<leftarrow> vals v; mq_drain vs (vals(v := None)) })"

definition mq_unlink :: "string \<Rightarrow> mq_state \<Rightarrow> (int \<times> mq_state) option" where
  "mq_unlink name st = do {
     (a, st) \<leftarrow> mq_list_find name True st;
     if a = 0 then Some (- ENODEV, st)
     else do {
       mq \<leftarrow> mqs st a;
       vals \<leftarrow> mq_drain (case msgq_hdl (mq_msgq mq) of Some (_, q) \<Rightarrow> q | None \<Rightarrow> []) (mq_vals st);
       _ \<leftarrow> os_msgq_del (mq_msgq mq);
       Some (0, st\<lparr>mq_vals := vals, mqs := (mqs st)(a := None)\<rparr>) } }"

section \<open>The invariant\<close>

text \<open>The messages a queue holds, by address.\<close>

definition mq_queue :: "mq_state \<Rightarrow> nat \<Rightarrow> nat list" where
  "mq_queue st a = (case mqs st a of Some mq \<Rightarrow> (case msgq_hdl (mq_msgq mq) of Some (_, q) \<Rightarrow> q | None \<Rightarrow> []) | None \<Rightarrow> [])"

text \<open>The list holds the queues in memory, once each; every queue owns its messages, which are in memory.\<close>

definition mq_inv :: "mq_state \<Rightarrow> bool" where
  "mq_inv st \<longleftrightarrow> distinct (mq_list st) \<and> 0 \<notin> set (mq_list st)
     \<and> (\<forall>a. mqs st a \<noteq> None \<longleftrightarrow> a \<in> set (mq_list st))
     \<and> (\<forall>a mq. mqs st a = Some mq \<longrightarrow> \<not> mq_unlinked mq \<and> length (mq_name mq) \<le> 31)
     \<and> (\<forall>a. distinct (mq_queue st a) \<and> (\<forall>v \<in> set (mq_queue st a). v \<noteq> 0 \<and> mq_vals st v \<noteq> None))
     \<and> (\<forall>a b v. v \<in> set (mq_queue st a) \<longrightarrow> v \<in> set (mq_queue st b) \<longrightarrow> a = b)"

text \<open>The abstract queue: the messages themselves.\<close>

definition mq_contents :: "mq_state \<Rightarrow> nat \<Rightarrow> u8 list list" where
  "mq_contents st a = map (\<lambda>v. the (mq_vals st v)) (mq_queue st a)"

lemma mq_inv_queue: "mq_inv st \<Longrightarrow> v \<in> set (mq_queue st a) \<Longrightarrow> v \<noteq> 0 \<and> mq_vals st v \<noteq> None"
  unfolding mq_inv_def by blast

lemma mq_queue_upd [simp]:
  "mq_queue (st\<lparr>mqs := (mqs st)(a := Some mq)\<rparr>) b =
    (if b = a then (case msgq_hdl (mq_msgq mq) of Some (_, xs) \<Rightarrow> xs | None \<Rightarrow> []) else mq_queue st b)"
  by (simp add: mq_queue_def)

lemma mq_queue_vals [simp]: "mq_queue (st\<lparr>mq_vals := m\<rparr>) a = mq_queue st a"
  by (simp add: mq_queue_def)

text \<open>The outcomes of a send and of a receive.\<close>

lemma mq_send_eq:
  assumes "mqs st a = Some mq" "\<not> mq_unlinked mq" "addr \<noteq> 0" "data_ok" "msgq_hdl (mq_msgq mq) = Some (cap, q)"
  shows "mq_send_tmo a msg tmo addr data_ok st =
    Some (if int (length q) < cap
          then Ret (RET_OK, st\<lparr>mqs := (mqs st)(a := Some (mq\<lparr>mq_msgq := (mq_msgq mq)\<lparr>msgq_hdl := Some (cap, q @ [addr])\<rparr>\<rparr>)),
                               mq_vals := (mq_vals st)(addr := Some msg)\<rparr>)
          else if tmo = 0 then Ret (- ENOMEM, st) else Block)"
  using assms by (simp add: mq_send_tmo_def os_msgq_put_def)

lemma mq_receive_eq:
  assumes "mqs st a = Some mq" "\<not> mq_unlinked mq" "msgq_hdl (mq_msgq mq) = Some (cap, q)" "\<forall>v \<in> set q. v \<noteq> 0"
  shows "mq_receive_tmo a n tmo st =
    (case q of [] \<Rightarrow> Some (if tmo = 0 then Ret ((- 1, None), st) else Block)
     | v # q \<Rightarrow> (case mq_vals st v of None \<Rightarrow> None
         | Some d \<Rightarrow> Some (Ret ((0, if n \<ge> length d then Some d else None),
             st\<lparr>mqs := (mqs st)(a := Some (mq\<lparr>mq_msgq := (mq_msgq mq)\<lparr>msgq_hdl := Some (cap, q)\<rparr>\<rparr>)),
                mq_vals := (mq_vals st)(v := None)\<rparr>))))"
proof (cases q)
  case Nil
  have "st\<lparr>mqs := (mqs st)(a := Some mq)\<rparr> = st" using assms(1) by (simp add: fun_upd_idem)
  then show ?thesis using assms Nil by (simp add: mq_receive_tmo_def os_msgq_get_def del: fun_upd_apply)
next
  case (Cons v q)
  then show ?thesis using assms by (cases "mq_vals st v") (simp_all add: mq_receive_tmo_def os_msgq_get_def)
qed

lemma mq_send_cases:
  assumes "mq_send_tmo a msg tmo addr data_ok st = Some (Ret (r, st'))"
  obtains "r \<noteq> RET_OK" "st' = st"
  | mq cap q where "r = RET_OK" "mqs st a = Some mq" "\<not> mq_unlinked mq" "addr \<noteq> 0" "msgq_hdl (mq_msgq mq) = Some (cap, q)"
      "st' = st\<lparr>mqs := (mqs st)(a := Some (mq\<lparr>mq_msgq := (mq_msgq mq)\<lparr>msgq_hdl := Some (cap, q @ [addr])\<rparr>\<rparr>)),
                mq_vals := (mq_vals st)(addr := Some msg)\<rparr>"
proof -
  obtain mq where mq: "mqs st a = Some mq" using assms by (auto simp: mq_send_tmo_def bind_eq_Some_conv)
  show ?thesis
  proof (cases "mq_unlinked mq \<or> addr = 0 \<or> \<not> data_ok")
    case True
    then show ?thesis using assms mq that(1) by (auto simp: mq_send_tmo_def split: if_splits)
  next
    case False
    then obtain cap q where "msgq_hdl (mq_msgq mq) = Some (cap, q)"
      using assms mq by (auto simp: mq_send_tmo_def os_msgq_put_def bind_eq_Some_conv)
    then show ?thesis using assms mq False that mq_send_eq [of st a mq addr data_ok cap q msg tmo] by (auto split: if_splits)
  qed
qed

lemma mq_inv_mq:
  assumes "mq_inv st" "mqs st a = Some mq"
  shows "\<not> mq_unlinked mq" "msgq_hdl (mq_msgq mq) = Some (cap, q) \<Longrightarrow> \<forall>v \<in> set q. v \<noteq> 0 \<and> mq_vals st v \<noteq> None"
proof -
  show "\<not> mq_unlinked mq" using assms unfolding mq_inv_def by blast
  show "msgq_hdl (mq_msgq mq) = Some (cap, q) \<Longrightarrow> \<forall>v \<in> set q. v \<noteq> 0 \<and> mq_vals st v \<noteq> None"
    using mq_inv_queue [OF assms(1), of _ a] assms(2) by (simp add: mq_queue_def)
qed

lemma mq_receive_cases:
  assumes inv: "mq_inv st" and r: "mq_receive_tmo a n tmo st = Some (Ret ((r, out), st'))"
  obtains "r \<noteq> 0" "st' = st"
  | mq cap v q d where "r = 0" "mqs st a = Some mq" "msgq_hdl (mq_msgq mq) = Some (cap, v # q)" "mq_vals st v = Some d"
      "out = (if length d \<le> n then Some d else None)"
      "st' = st\<lparr>mqs := (mqs st)(a := Some (mq\<lparr>mq_msgq := (mq_msgq mq)\<lparr>msgq_hdl := Some (cap, q)\<rparr>\<rparr>)),
                mq_vals := (mq_vals st)(v := None)\<rparr>"
proof -
  obtain mq where mq: "mqs st a = Some mq" using r by (auto simp: mq_receive_tmo_def bind_eq_Some_conv)
  note u = mq_inv_mq [OF inv mq]
  obtain cap q where q: "msgq_hdl (mq_msgq mq) = Some (cap, q)"
    using r mq u(1) by (auto simp: mq_receive_tmo_def os_msgq_get_def bind_eq_Some_conv)
  have nz: "\<forall>v \<in> set q. v \<noteq> 0" using u(2) [OF q] by blast
  show ?thesis
  proof (cases q)
    case Nil
    then show ?thesis using r mq_receive_eq [OF mq u(1) q nz] that(1) by (auto split: if_splits)
  next
    case (Cons v q')
    then obtain d where "mq_vals st v = Some d" using u(2) [OF q] by auto
    then show ?thesis using r mq_receive_eq [OF mq u(1) q nz] Cons q mq that(2) by auto
  qed
qed

text \<open>A send that returns with success appends the message to the contents of its queue and touches no other.\<close>

lemma mq_send_appends:
  assumes inv: "mq_inv st" and s: "mq_send_tmo a msg tmo addr data_ok st = Some (Ret (r, st'))"
    and f: "mq_vals st addr = None"
  shows "mq_inv st' \<and> (\<forall>b. mq_contents st' b = mq_contents st b @ (if r = RET_OK \<and> b = a then [msg] else []))"
  using s
proof (cases rule: mq_send_cases)
  case 1
  then show ?thesis using inv by simp
next
  case (2 mq cap q)
  have n: "addr \<notin> set (mq_queue st b)" for b using f inv mq_inv_queue by blast
  have q: "mq_queue st a = q" using 2 by (simp add: mq_queue_def)
  have q': "mq_queue st' b = mq_queue st b @ (if b = a then [addr] else [])" for b
    unfolding 2(6) using q by (simp add: mq_queue_def)
  have "mq_inv st'"
    unfolding mq_inv_def q' using inv n 2(2-4) q by (auto simp: mq_inv_def 2(6) split: if_splits)
  moreover have "mq_contents st' b = mq_contents st b @ (if b = a then [msg] else [])" for b
    using n [of b] q by (auto simp: mq_contents_def 2(6) intro!: map_cong)
  ultimately show ?thesis using 2(1) by auto
qed

text \<open>A receive that returns with success takes the oldest message.\<close>

lemma mq_receive_takes:
  assumes inv: "mq_inv st" and r: "mq_receive_tmo a n tmo st = Some (Ret ((r, out), st'))"
  shows "mq_inv st'
    \<and> (if r = 0 then (\<exists>m. mq_contents st a = m # mq_contents st' a \<and> out = (if length m \<le> n then Some m else None))
                   \<and> (\<forall>b. b \<noteq> a \<longrightarrow> mq_contents st' b = mq_contents st b)
       else st' = st)"
  using inv r
proof (cases rule: mq_receive_cases)
  case 1
  then show ?thesis using inv by simp
next
  case (2 mq cap v q d)
  have q: "mq_queue st a = v # q" using 2 by (simp add: mq_queue_def)
  have q': "mq_queue st' b = (if b = a then q else mq_queue st b)" for b
    unfolding 2(6) by (simp add: mq_queue_def)
  have u: "\<forall>a b v. v \<in> set (mq_queue st a) \<longrightarrow> v \<in> set (mq_queue st b) \<longrightarrow> a = b" and d: "distinct (v # q)"
    using inv q unfolding mq_inv_def by metis+
  have va: "v \<in> set (mq_queue st a)" using q by simp
  have n: "v \<notin> set q" "b \<noteq> a \<Longrightarrow> v \<notin> set (mq_queue st b)" for b using d u va by auto
  have "set q \<subseteq> set (mq_queue st a)" using q by auto
  then have "mq_inv st'"
    unfolding mq_inv_def q' using inv n d u 2(2) by (auto simp: mq_inv_def 2(6) split: if_splits)
  moreover have "mq_contents st a = d # mq_contents st' a"
    using n 2(4) by (auto simp: mq_contents_def q 2(6) intro!: map_cong)
  moreover have "b \<noteq> a \<Longrightarrow> mq_contents st' b = mq_contents st b" for b
    using n(2) [of b] by (auto simp: mq_contents_def 2(6) intro!: map_cong)
  ultimately show ?thesis using 2(1, 5) by auto
qed

section \<open>Properties\<close>

text \<open>Any sequence of sends and receives on any queues, seen at the queue \<open>a\<close>: the messages it accepted and what it
  handed out, a message or, for a buffer that is too small, nothing.\<close>

inductive mq_run :: "nat \<Rightarrow> mq_state \<Rightarrow> u8 list list \<Rightarrow> u8 list option list \<Rightarrow> bool" for a where
  mq_begin: "mq_inv st \<Longrightarrow> mq_contents st a = [] \<Longrightarrow> mq_run a st [] []"
| mq_sent: "mq_run a st ss rs \<Longrightarrow> mq_vals st addr = None \<Longrightarrow> mq_send_tmo b msg tmo addr data_ok st = Some (Ret (r, st')) \<Longrightarrow>
    mq_run a st' (if r = RET_OK \<and> b = a then ss @ [msg] else ss) rs"
| mq_received: "mq_run a st ss rs \<Longrightarrow> mq_receive_tmo b n tmo st = Some (Ret ((r, out), st')) \<Longrightarrow>
    mq_run a st' ss (if r = 0 \<and> b = a then rs @ [out] else rs)"


text \<open>A message that does not fit the buffer is lost, and the call succeeds.\<close>

theorem mq_receive_short_buffer:
  assumes "mq_inv st" "mq_contents st a = m # ms" "n < length m"
  shows "\<exists>st'. mq_receive a n st = Some (Ret ((0, None), st')) \<and> mq_contents st' a = ms"
proof -
  obtain v q where q: "mq_queue st a = v # q" "the (mq_vals st v) = m" using assms(2) by (auto simp: mq_contents_def)
  then obtain mq cap where mq: "mqs st a = Some mq" "msgq_hdl (mq_msgq mq) = Some (cap, v # q)"
    by (auto simp: mq_queue_def split: option.splits)
  note u = mq_inv_mq [OF assms(1) mq(1)]
  have v: "mq_vals st v = Some m" "\<forall>w \<in> set (v # q). w \<noteq> 0" using u(2) [OF mq(2)] q(2) by auto
  obtain st' where r: "mq_receive_tmo a n osWaitForever st = Some (Ret ((0, None), st'))"
    using mq_receive_eq [OF mq(1) u(1) mq(2) v(2)] v(1) assms(3) by simp
  then show ?thesis using mq_receive_takes [OF assms(1) r] assms(2) by (auto simp: mq_receive_def)
qed

lemma mq_find_total:
  assumes "\<forall>a \<in> set as. mqs st a \<noteq> None"
  shows "\<exists>a. mq_find_loop name st as = Some a \<and> (a = 0 \<or> a \<in> set as \<and> (\<exists>mq. mqs st a = Some mq \<and> mq_name mq = name))"
  using assms by (induction as) auto

lemma mq_find_inv:
  assumes "mq_inv st"
  shows "\<exists>a. mq_find_loop name st (mq_list st) = Some a \<and> (a = 0 \<or> a \<in> set (mq_list st) \<and> (\<exists>mq. mqs st a = Some mq \<and> mq_name mq = name))"
  using assms by (intro mq_find_total) (auto simp: mq_inv_def)

text \<open>A name of more than 31 characters is stored cut off and never found again: every \<open>mq_open\<close> makes a new queue,
  and \<open>mq_unlink\<close> finds none.\<close>

theorem mq_long_name:
  assumes "mq_inv st" "31 < length name" "addr \<noteq> 0" "mqs st addr = None"
  shows "(\<exists>st'. mq_open name attr addr alloc_ok st = Some (int addr, st') \<and> mqs st' addr \<noteq> None)
    \<and> mq_unlink name st = Some (- ENODEV, st)"
proof -
  have "mqs st a = Some mq \<Longrightarrow> length (mq_name mq) \<le> 31" for a mq using assms(1) unfolding mq_inv_def by blast
  then have "mq_find_loop name st (mq_list st) = Some 0"
    using mq_find_inv [OF assms(1), of name] assms(2) by fastforce
  then show ?thesis using assms(3) by (simp add: mq_open_def mq_unlink_def mq_list_find_def mq_list_add_def)
qed

lemma mq_drain_all:
  "distinct vs \<Longrightarrow> \<forall>v \<in> set vs. v \<noteq> 0 \<and> vals v \<noteq> None \<Longrightarrow> mq_drain vs vals = Some (\<lambda>v. if v \<in> set vs then None else vals v)"
proof (induction vs arbitrary: vals)
  case (Cons v vs)
  then have "mq_drain vs (vals(v := None)) = Some (\<lambda>w. if w \<in> set vs then None else (vals(v := None)) w)" by (intro Cons.IH) auto
  then show ?case using Cons.prems by (auto intro!: ext)
qed simp

text \<open>Unlinking takes the queue off the list and gives back its structure and every message left in it; another
  thread that still uses the descriptor touches freed memory.\<close>

theorem mq_unlink_releases:
  assumes inv: "mq_inv st" and f: "mq_find_loop name st (mq_list st) = Some a" "a \<noteq> 0"
    and h: "mqs st a = Some mq" "msgq_hdl (mq_msgq mq) = Some (cap, q)"
  shows "\<exists>st'. mq_unlink name st = Some (0, st') \<and> mq_inv st' \<and> mqs st' = (mqs st)(a := None)
    \<and> mq_vals st' = (\<lambda>v. if v \<in> set q then None else mq_vals st v) \<and> mq_receive a n st' = None"
proof -
  have q: "mq_queue st a = q" using h by (simp add: mq_queue_def)
  have d: "distinct q" "\<forall>v \<in> set q. v \<noteq> 0 \<and> mq_vals st v \<noteq> None" using inv q unfolding mq_inv_def by blast+
  let ?st = "st\<lparr>mq_list := remove1 a (mq_list st), mqs := (mqs st)(a := None), mq_vals := \<lambda>v. if v \<in> set q then None else mq_vals st v\<rparr>"
  have u: "mq_unlink name st = Some (0, ?st)"
    using f h mq_drain_all [OF d] by (simp add: mq_unlink_def mq_list_find_def os_msgq_del_def)
  have q': "mq_queue ?st b = (if b = a then [] else mq_queue st b)" for b by (simp add: mq_queue_def)
  have n: "b \<noteq> a \<Longrightarrow> v \<in> set (mq_queue st b) \<Longrightarrow> v \<notin> set q" for b v using inv q unfolding mq_inv_def by metis
  have "mq_inv ?st"
    unfolding mq_inv_def q' using inv n by (auto simp: mq_inv_def set_remove1_eq)
  moreover have "mq_receive a n ?st = None" by (simp add: mq_receive_def mq_receive_tmo_def)
  ultimately show ?thesis using u by auto
qed

text \<open>A queue that is opened anew and unlinked leaves everything as it was.\<close>

theorem mq_open_unlink:
  assumes inv: "mq_inv st" and n: "length name \<le> 31" "mq_find_loop name st (mq_list st) = Some 0"
    and f: "addr \<noteq> 0" "mqs st addr = None" "msgsize > 0"
  shows "\<exists>st1. mq_open name (Some msgsize) addr True st = Some (int addr, st1) \<and> mq_unlink name st1 = Some (0, st)"
proof -
  let ?mq = "\<lparr>mq_name = name, mq_unlinked = False, mq_msgq = \<lparr>msgq_magic = MSGQ_MAGIC, msgq_hdl = Some (msgsize, [])\<rparr>\<rparr>"
  let ?st = "st\<lparr>mqs := (mqs st)(addr := Some ?mq), mq_list := addr # mq_list st\<rparr>"
  have "mq_open name (Some msgsize) addr True st = Some (int addr, ?st)"
    using n f by (simp add: mq_open_def mq_list_find_def mq_list_add_def os_msgq_init_def del: fun_upd_apply)
  moreover have "mq_unlink name ?st = Some (0, st)"
    using f by (simp add: mq_unlink_def mq_list_find_def os_msgq_del_def fun_upd_idem)
  ultimately show ?thesis by blast
qed

section \<open>Concrete runs\<close>

text \<open>One queue of four places at address 64, empty or with a message of three bytes.\<close>

definition mq_one :: "nat list \<Rightarrow> (nat \<Rightarrow> u8 list option) \<Rightarrow> mq_state" where
  "mq_one q vals = \<lparr>mq_list = [64], mqs = (\<lambda>_. None)(64 := Some \<lparr>mq_name = ''q'', mq_unlinked = False,
     mq_msgq = \<lparr>msgq_magic = MSGQ_MAGIC, msgq_hdl = Some (4, q)\<rparr>\<rparr>), mq_vals = vals\<rparr>"

lemma mq_one_queue [simp]: "mq_queue (mq_one q vals) a = (if a = 64 then q else [])"
  by (simp add: mq_queue_def mq_one_def)

lemma mq_one_inv: "distinct q \<Longrightarrow> \<forall>v \<in> set q. v \<noteq> 0 \<and> vals v \<noteq> None \<Longrightarrow> mq_inv (mq_one q vals)"
  by (simp add: mq_inv_def) (simp add: mq_one_def)

lemma mq_one_run: "mq_run 64 (mq_one [8] [8 \<mapsto> [1, 2, 3]]) [[1, 2, 3]] []"
proof -
  have "mq_run 64 (mq_one [] Map.empty) [] []"
    by (intro mq_begin mq_one_inv) (simp_all add: mq_contents_def)
  moreover have "mq_send_tmo 64 [1, 2, 3] 0 8 True (mq_one [] Map.empty) = Some (Ret (RET_OK, mq_one [8] [8 \<mapsto> [1, 2, 3]]))"
    by (subst mq_send_eq) (auto simp: mq_one_def)
  ultimately show ?thesis
    using mq_sent [of 64 "mq_one [] Map.empty" "[]" "[]" 8 64 "[1, 2, 3]" 0 True] by (simp add: mq_one_def)
qed


theorem mq_receive_short_buffer_witness:
  "\<exists>st'. mq_receive 64 2 (mq_one [8] [8 \<mapsto> [1, 2, 3]]) = Some (Ret ((0, None), st')) \<and> mq_contents st' 64 = []"
  by (rule mq_receive_short_buffer [where m = "[1, 2, 3]"])
    (simp_all add: mq_one_inv mq_contents_def, simp add: mq_one_def)

theorem mq_long_name_witness: "mq_unlink (replicate 32 CHR ''x'') (mq_one [] Map.empty) = Some (- ENODEV, mq_one [] Map.empty)"
  using mq_long_name [of "mq_one [] Map.empty" "replicate 32 CHR ''x''" 5] by (simp add: mq_one_inv) (simp add: mq_one_def)

theorem mq_unlink_releases_witness: "\<exists>st'. mq_unlink ''q'' (mq_one [8] [8 \<mapsto> [1, 2, 3]]) = Some (0, st') \<and> mq_receive 64 9 st' = None"
proof -
  have i: "mq_inv (mq_one [8] [8 \<mapsto> [1, 2, 3]])" by (rule mq_one_inv) simp_all
  have f: "mq_find_loop ''q'' (mq_one [8] [8 \<mapsto> [1, 2, 3]]) (mq_list (mq_one [8] [8 \<mapsto> [1, 2, 3]])) = Some 64" by (simp add: mq_one_def)
  obtain mq where m: "mqs (mq_one [8] [8 \<mapsto> [1, 2, 3]]) 64 = Some mq" "msgq_hdl (mq_msgq mq) = Some (4, [8])" by (simp add: mq_one_def)
  show ?thesis using mq_unlink_releases [OF i f _ m] by auto
qed

theorem mq_open_unlink_witness:
  "\<exists>st1. mq_open ''n'' (Some 4) 128 True (mq_one [] Map.empty) = Some (int 128, st1) \<and> mq_unlink ''n'' st1 = Some (0, mq_one [] Map.empty)"
  by (rule mq_open_unlink) (simp_all add: mq_one_inv, simp_all add: mq_one_def)

end
