(* ===== verification/TimeSpec.thy ===== *)
theory TimeSpec
  imports Prelude "HOL-Library.Signed_Division"
begin

text \<open>
  Time on the C-SKY port, \<open>sdk/osal/csky/time.c\<close>: the system time, kept as the pair of the kernel's
  nanosecond counter and the wall clock at the last \<open>settimeofday\<close>, and the arithmetic on \<open>struct timespec\<close>
  that the timed waits of the POSIX layer use.

  Values are integers, every assignment to a C type is written out: \<open>wrap b\<close> is the conversion to a
  signed type of \<open>b\<close> bits (\<open>long\<close> has 32 bits on this CPU), \<open>u64_of\<close> the one to \<open>uint64\<close>. The width of
  \<open>time_t\<close> is the toolchain's and an argument, \<open>tb\<close>. What \<open>krhino_curr_nanosec\<close> reads is an argument
  too. A pointer argument is an option; a function answers its return code and what it leaves in
  \<open>*result\<close>.
\<close>

definition wrap :: "nat \<Rightarrow> int \<Rightarrow> int" where
  "wrap b x = signed_take_bit (b - 1) x"

definition u64_of :: "int \<Rightarrow> int" where
  "u64_of x = x mod 2 ^ 64"

abbreviation NANOSECONDS_PER_SECOND :: int where "NANOSECONDS_PER_SECOND \<equiv> 1000000000"
abbreviation OS_SYSTICK_HZ :: int where "OS_SYSTICK_HZ \<equiv> 1000"
abbreviation NANOSECONDS_PER_TICK :: int where "NANOSECONDS_PER_TICK \<equiv> 1000000"

record timespec =
  tv_sec :: int
  tv_nsec :: int

record timeval =
  tvl_sec :: int
  tvl_usec :: int

section \<open>Clocks\<close>

record systime =
  sys_time_base_ns :: int
  sys_time_real_ns :: int

definition os_jiffies :: "int \<Rightarrow> int" where
  "os_jiffies g_sys_tick_count = g_sys_tick_count"

definition os_cpuloading :: "int \<Rightarrow> int" where
  "os_cpuloading g_cpuloading = g_cpuloading"

definition os_seconds :: "int \<Rightarrow> int" where
  "os_seconds now = now div 1000000000 mod 2 ^ 32"

definition os_mseconds :: "int \<Rightarrow> int" where
  "os_mseconds now = now div 1000000"

definition os_useconds :: "int \<Rightarrow> int" where
  "os_useconds now = now div 1000"

definition os_systime :: "nat \<Rightarrow> int \<Rightarrow> systime \<Rightarrow> timespec" where
  "os_systime tb now st =
     (let diff_ns = u64_of (now - sys_time_base_ns st)
      in \<lparr>tv_sec = wrap tb (u64_of (sys_time_real_ns st + diff_ns) div NANOSECONDS_PER_SECOND),
          tv_nsec = wrap 32 (u64_of (sys_time_real_ns st + diff_ns) mod NANOSECONDS_PER_SECOND)\<rparr>)"

definition gettimeofday :: "nat \<Rightarrow> int \<Rightarrow> systime \<Rightarrow> int \<times> timeval" where
  "gettimeofday tb now st =
     (let diff_ns = u64_of (now - sys_time_base_ns st)
      in (0, \<lparr>tvl_sec = wrap tb (u64_of (sys_time_real_ns st + diff_ns) div NANOSECONDS_PER_SECOND),
              tvl_usec = wrap 32 (u64_of (sys_time_real_ns st + diff_ns) mod NANOSECONDS_PER_SECOND div 1000)\<rparr>))"

definition settimeofday :: "int \<Rightarrow> timeval \<Rightarrow> systime \<Rightarrow> int \<times> systime" where
  "settimeofday now tv st =
     (0, st\<lparr>sys_time_base_ns := now,
            sys_time_real_ns := u64_of (u64_of (tvl_sec tv) * NANOSECONDS_PER_SECOND + u64_of (tvl_usec tv) * 1000)\<rparr>)"

definition time_of :: "nat \<Rightarrow> int \<Rightarrow> systime \<Rightarrow> int" where
  "time_of tb now st =
     (let diff_ns = u64_of (now - sys_time_base_ns st)
      in wrap tb (u64_of (sys_time_real_ns st + diff_ns) div NANOSECONDS_PER_SECOND))"

definition clock_gettime :: "nat \<Rightarrow> int \<Rightarrow> timespec option \<Rightarrow> int \<times> timespec option" where
  "clock_gettime tb now tp =
     (0, map_option (\<lambda>_. \<lparr>tv_sec = wrap tb (now div NANOSECONDS_PER_SECOND),
                          tv_nsec = wrap 32 (now mod NANOSECONDS_PER_SECOND)\<rparr>) tp)"

section \<open>Arithmetic on timespec\<close>

definition timespec_validate :: "timespec option \<Rightarrow> int" where
  "timespec_validate time =
     (case time of None \<Rightarrow> 0
      | Some t \<Rightarrow> if tv_nsec t \<ge> 0 \<and> tv_nsec t < NANOSECONDS_PER_SECOND then 1 else 0)"

definition timespec_cmp :: "timespec option \<Rightarrow> timespec option \<Rightarrow> int" where
  "timespec_cmp x y =
     (case (x, y) of
        (None, None) \<Rightarrow> 0
      | (_, None) \<Rightarrow> 1
      | (None, _) \<Rightarrow> - 1
      | (Some x, Some y) \<Rightarrow>
          if tv_sec x > tv_sec y then 1
          else if tv_sec x < tv_sec y then - 1
          else if tv_nsec x > tv_nsec y then 1
          else if tv_nsec x < tv_nsec y then - 1
          else 0)"

definition timespec_to_ticks :: "timespec option \<Rightarrow> int option \<Rightarrow> int \<times> int option" where
  "timespec_to_ticks time result =
     (case (time, result) of
        (Some t, Some _) \<Rightarrow>
          if timespec_validate time = 0 then (- EINVAL, result)
          else let llTotalTicks = u64_of (OS_SYSTICK_HZ * u64_of (tv_sec t));
                   lNanoseconds = wrap 32 (tv_nsec t sdiv NANOSECONDS_PER_TICK
                                    + (if tv_nsec t smod NANOSECONDS_PER_TICK \<noteq> 0 then 1 else 0))
               in (0, Some (u64_of (llTotalTicks + u64_of lNanoseconds)))
      | _ \<Rightarrow> (- EINVAL, result))"

definition nanosec_to_timespec :: "nat \<Rightarrow> int \<Rightarrow> timespec" where
  "nanosec_to_timespec tb llSource =
     (let sec = wrap tb (llSource sdiv NANOSECONDS_PER_SECOND);
          nsec = wrap 32 (llSource smod NANOSECONDS_PER_SECOND)
      in if nsec < 0 then
           let lCarrySec = wrap 32 (nsec sdiv NANOSECONDS_PER_SECOND + 1)
           in \<lparr>tv_sec = wrap tb (sec - wrap tb lCarrySec),
               tv_nsec = wrap 32 (nsec + wrap 32 (lCarrySec * NANOSECONDS_PER_SECOND))\<rparr>
         else \<lparr>tv_sec = sec, tv_nsec = nsec\<rparr>)"

definition timespec_add ::
  "nat \<Rightarrow> timespec option \<Rightarrow> timespec option \<Rightarrow> timespec option \<Rightarrow> int \<times> timespec option" where
  "timespec_add tb x y result =
     (case (result, x, y) of
        (Some r, Some x, Some y) \<Rightarrow>
          let r = r\<lparr>tv_nsec := wrap 32 (tv_nsec x + tv_nsec y)\<rparr>
          in if tv_nsec r < 0 then (1, Some r)
             else let llPartialSec = tv_nsec r sdiv NANOSECONDS_PER_SECOND;
                      r = r\<lparr>tv_nsec := wrap 32 (tv_nsec r smod NANOSECONDS_PER_SECOND),
                            tv_sec := wrap tb (tv_sec x + tv_sec y + llPartialSec)\<rparr>
                  in (if tv_sec r < 0 then 1 else 0, Some r)
      | _ \<Rightarrow> (- 1, result))"

definition timespec_add_nanosec ::
  "nat \<Rightarrow> timespec option \<Rightarrow> int \<Rightarrow> timespec option \<Rightarrow> int \<times> timespec option" where
  "timespec_add_nanosec tb x llNanoseconds result =
     (case (result, x) of
        (Some r, Some x) \<Rightarrow>
          let llTotalNSec = wrap 64 (tv_nsec x + llNanoseconds)
          in if llTotalNSec < 0 then (1, Some r)
             else let r = r\<lparr>tv_nsec := wrap 32 (llTotalNSec smod NANOSECONDS_PER_SECOND),
                            tv_sec := wrap tb (tv_sec x + llTotalNSec sdiv NANOSECONDS_PER_SECOND)\<rparr>
                  in (if tv_sec r < 0 then 1 else 0, Some r)
      | _ \<Rightarrow> (- 1, result))"

definition timespec_sub ::
  "nat \<Rightarrow> timespec option \<Rightarrow> timespec option \<Rightarrow> timespec option \<Rightarrow> int \<times> timespec option" where
  "timespec_sub tb x y result =
     (case (result, x, y) of
        (Some r, Some a, Some b) \<Rightarrow>
          let cmp_ret = timespec_cmp x y
          in if cmp_ret = - 1 then (1, Some r)
             else if cmp_ret = 0 then (0, Some (r\<lparr>tv_sec := 0, tv_nsec := 0\<rparr>))
             else let r = r\<lparr>tv_sec := wrap tb (tv_sec a - tv_sec b),
                            tv_nsec := wrap 32 (tv_nsec a - tv_nsec b)\<rparr>;
                      r = (if tv_nsec r < 0
                           then r\<lparr>tv_sec := wrap tb (tv_sec r - 1),
                                  tv_nsec := wrap 32 (tv_nsec r + NANOSECONDS_PER_SECOND)\<rparr>
                           else r)
                  in (if tv_nsec r < 0 then - 1 else 0, Some r)
      | _ \<Rightarrow> (- 1, result))"

definition timespec_detal_ticks ::
  "nat \<Rightarrow> timespec option \<Rightarrow> timespec option \<Rightarrow> int option \<Rightarrow> int \<times> int option" where
  "timespec_detal_ticks tb abstime curtime result =
     (if abstime = None \<or> curtime = None \<or> result = None then (- EINVAL, result)
      else let (ret, diff) = timespec_sub tb abstime curtime (Some \<lparr>tv_sec = 0, tv_nsec = 0\<rparr>);
               ret = (if ret = 1 then - ETIMEDOUT else if ret = - 1 then - EINVAL else ret)
           in if ret = 0 then timespec_to_ticks diff result else (ret, result))"

definition OS_MS_PERIOD_TICK :: int where
  "OS_MS_PERIOD_TICK = 1000 div OS_SYSTICK_HZ"

definition os_jiffies_to_msecs :: "int \<Rightarrow> int" where
  "os_jiffies_to_msecs jiff = u64_of (jiff * OS_MS_PERIOD_TICK)"

definition os_msecs_to_jiffies :: "int \<Rightarrow> int" where
  "os_msecs_to_jiffies msec = msec div OS_MS_PERIOD_TICK"

section \<open>Conversions that keep the value\<close>

definition fits :: "nat \<Rightarrow> int \<Rightarrow> bool" where
  "fits b x \<longleftrightarrow> - (2 ^ (b - 1)) \<le> x \<and> x < 2 ^ (b - 1)"

lemma wrap_id: "fits b x \<Longrightarrow> wrap b x = x"
  by (simp add: wrap_def fits_def signed_take_bit_int_eq_self)

lemma wrap32_id: "- 2147483648 \<le> x \<Longrightarrow> x < 2147483648 \<Longrightarrow> wrap 32 x = x"
  by (rule wrap_id) (simp add: fits_def)

lemma wrap64_id: "- 9223372036854775808 \<le> x \<Longrightarrow> x < 9223372036854775808 \<Longrightarrow> wrap 64 x = x"
  by (rule wrap_id) (simp add: fits_def)

lemma fits_between: "fits b lo \<Longrightarrow> fits b hi \<Longrightarrow> lo \<le> x \<Longrightarrow> x \<le> hi \<Longrightarrow> fits b x"
  by (simp add: fits_def)

lemma fits_0 [simp]: "fits b 0"
  by (simp add: fits_def)

lemma u64_of_id: "0 \<le> x \<Longrightarrow> x < 18446744073709551616 \<Longrightarrow> u64_of x = x"
  by (simp add: u64_of_def)

lemma sdiv_nonneg: "0 \<le> a \<Longrightarrow> 0 < b \<Longrightarrow> a sdiv b = a div (b :: int)"
  by (simp add: signed_divide_int_def sgn_if)

lemma smod_nonneg: "0 \<le> a \<Longrightarrow> a smod b = a mod \<bar>b :: int\<bar>"
  by (simp add: signed_modulo_int_def sgn_if)

text \<open>The duration a timespec stands for, and the timespecs that are normalised.\<close>

definition ts_ns :: "timespec \<Rightarrow> int" where
  "ts_ns t = tv_sec t * NANOSECONDS_PER_SECOND + tv_nsec t"

definition ts_ok :: "nat \<Rightarrow> timespec \<Rightarrow> bool" where
  "ts_ok tb t \<longleftrightarrow> 0 \<le> tv_nsec t \<and> tv_nsec t < NANOSECONDS_PER_SECOND \<and> 0 \<le> tv_sec t \<and> fits tb (tv_sec t)"

lemma timespec_cmp_ns:
  assumes "ts_ok tb x" "ts_ok tb y"
  shows "timespec_cmp (Some x) (Some y) = sgn (ts_ns x - ts_ns y)"
  using assms by (auto simp: timespec_cmp_def ts_ok_def ts_ns_def sgn_if)

lemma ts_okD:
  assumes "ts_ok tb t"
  shows "0 \<le> tv_nsec t" "tv_nsec t < NANOSECONDS_PER_SECOND" "0 \<le> tv_sec t" "fits tb (tv_sec t)"
  using assms by (auto simp: ts_ok_def)

lemma ts_ns_div_mod:
  assumes "ts_ok tb t"
  shows "ts_ns t div NANOSECONDS_PER_SECOND = tv_sec t" "ts_ns t mod NANOSECONDS_PER_SECOND = tv_nsec t"
  using ts_okD(1, 2) [OF assms] by (simp_all add: ts_ns_def)

lemma ts_ns_inj:
  assumes "ts_ok tb x" "ts_ok tb y" "ts_ns x = ts_ns y"
  shows "x = y"
  using ts_ns_div_mod [OF assms(1)] ts_ns_div_mod [OF assms(2)] assms(3) by simp

lemma timespec_sub_gt:
  assumes x: "ts_ok tb x" and y: "ts_ok tb y" and gt: "ts_ns y < ts_ns x"
  shows "\<exists>d. timespec_sub tb (Some x) (Some y) (Some r) = (0, Some d) \<and> ts_ok tb d
    \<and> ts_ns d = ts_ns x - ts_ns y"
proof -
  have c: "timespec_cmp (Some x) (Some y) = 1"
    using timespec_cmp_ns [OF x y] gt by simp
  note xs = ts_okD [OF x] and ys = ts_okD [OF y]
  have le: "tv_sec y \<le> tv_sec x" using gt xs(1, 2) ys(1, 2) by (simp add: ts_ns_def)
  have f: "fits tb (tv_sec x - tv_sec y)"
    using le ys(3) by (intro fits_between [OF fits_0 xs(4)]) auto
  have w: "wrap 32 (tv_nsec x - tv_nsec y) = tv_nsec x - tv_nsec y"
    using xs(1, 2) ys(1, 2) by (intro wrap32_id) auto
  show ?thesis
  proof (cases "tv_nsec x < tv_nsec y")
    case False
    then show ?thesis using c le xs(1-3) ys(1-3) f w
      by (auto simp: timespec_sub_def wrap_id [OF f] ts_ok_def ts_ns_def)
  next
    case True
    then have lt: "tv_sec y < tv_sec x" using gt xs(2) ys(1) le by (simp add: ts_ns_def)
    have f': "fits tb (tv_sec x - tv_sec y - 1)"
      using lt ys(3) by (intro fits_between [OF fits_0 xs(4)]) auto
    have w': "wrap 32 (tv_nsec x - tv_nsec y + NANOSECONDS_PER_SECOND) = tv_nsec x - tv_nsec y + NANOSECONDS_PER_SECOND"
      using xs(1, 2) ys(1, 2) True by (intro wrap32_id) auto
    show ?thesis using True c lt xs(1-3) ys(1-3) f' w'
      by (auto simp: timespec_sub_def wrap_id [OF f] w wrap_id [OF f'] w' ts_ok_def ts_ns_def)
  qed
qed

lemma timespec_add_value:
  assumes x: "ts_ok tb x" and y: "ts_ok tb y" and f: "fits tb (tv_sec x + tv_sec y + 1)"
  shows "\<exists>r'. timespec_add tb (Some x) (Some y) (Some r) = (0, Some r') \<and> ts_ok tb r'
    \<and> ts_ns r' = ts_ns x + ts_ns y"
proof -
  note xs = ts_okD [OF x] and ys = ts_okD [OF y]
  let ?n = "tv_nsec x + tv_nsec y" and ?s = "tv_sec x + tv_sec y"
  have n: "0 \<le> ?n" "?n < 2 * NANOSECONDS_PER_SECOND" using xs(1, 2) ys(1, 2) by auto
  have w: "wrap 32 ?n = ?n" using n by (intro wrap32_id) auto
  have q: "0 \<le> ?n div NANOSECONDS_PER_SECOND" "?n div NANOSECONDS_PER_SECOND \<le> 1" using n by auto
  have m: "0 \<le> ?n mod NANOSECONDS_PER_SECOND" "?n mod NANOSECONDS_PER_SECOND < NANOSECONDS_PER_SECOND" by auto
  have wm: "wrap 32 (?n mod NANOSECONDS_PER_SECOND) = ?n mod NANOSECONDS_PER_SECOND"
    using m by (intro wrap32_id) auto
  have fs: "fits tb (?s + ?n div NANOSECONDS_PER_SECOND)"
    using q xs(3) ys(3) by (intro fits_between [OF fits_0 f]) auto
  have e: "?n div NANOSECONDS_PER_SECOND * NANOSECONDS_PER_SECOND + ?n mod NANOSECONDS_PER_SECOND = ?n" by simp
  have a: "timespec_add tb (Some x) (Some y) (Some r) =
     (0, Some (r\<lparr>tv_nsec := ?n mod NANOSECONDS_PER_SECOND, tv_sec := ?s + ?n div NANOSECONDS_PER_SECOND\<rparr>))"
    using n q xs(3) ys(3) by (simp add: timespec_add_def w sdiv_nonneg smod_nonneg wm wrap_id [OF fs] Let_def)
  let ?r = "r\<lparr>tv_nsec := ?n mod NANOSECONDS_PER_SECOND, tv_sec := ?s + ?n div NANOSECONDS_PER_SECOND\<rparr>"
  have "ts_ok tb ?r" using m fs q xs(3) ys(3) by (simp add: ts_ok_def)
  moreover have "ts_ns ?r = ts_ns x + ts_ns y"
    using e by (simp add: ts_ns_def distrib_right)
  ultimately show ?thesis using a by blast
qed

lemma ceil_div:
  fixes n d :: int
  assumes "0 < d"
  shows "n div d + (if n mod d \<noteq> 0 then 1 else 0) = (n + d - 1) div d"
proof -
  let ?m = "n mod d"
  have m: "0 \<le> ?m" "?m < d" using assms by auto
  have "n + d - 1 = (?m + d - 1) + n div d * d" by (simp add: algebra_simps)
  then have "(n + d - 1) div d = ((?m + d - 1) + n div d * d) div d" by (rule arg_cong)
  also have "\<dots> = n div d + (?m + d - 1) div d" using assms by (subst div_mult_self1) auto
  also have "(?m + d - 1) div d = (if ?m \<noteq> 0 then 1 else 0)"
  proof (cases "?m = 0")
    case False
    then have "(?m - 1 + 1 * d) div d = 1 + (?m - 1) div d" using assms by (subst div_mult_self1) auto
    moreover have "(?m - 1) div d = 0" using m False by (intro div_pos_pos_trivial) auto
    moreover have "?m + d - 1 = ?m - 1 + 1 * d" by simp
    ultimately show ?thesis using False by (simp only: if_True) simp
  qed (use assms in simp)
  finally show ?thesis by simp
qed

lemma timespec_to_ticks_value:
  assumes "ts_ok tb t" "tv_sec t < 9223372036854775"
  shows "timespec_to_ticks (Some t) (Some r) =
    (0, Some ((ts_ns t + NANOSECONDS_PER_TICK - 1) div NANOSECONDS_PER_TICK))"
proof -
  note t = ts_okD [OF assms(1)]
  let ?n = "tv_nsec t"
  have up: "?n div NANOSECONDS_PER_TICK + (if ?n mod NANOSECONDS_PER_TICK \<noteq> 0 then 1 else 0)
      = (?n + NANOSECONDS_PER_TICK - 1) div NANOSECONDS_PER_TICK" by (rule ceil_div) simp
  have b: "0 \<le> (?n + NANOSECONDS_PER_TICK - 1) div NANOSECONDS_PER_TICK"
      "(?n + NANOSECONDS_PER_TICK - 1) div NANOSECONDS_PER_TICK \<le> 1000" using t(1, 2) by auto
  have "(ts_ns t + NANOSECONDS_PER_TICK - 1) div NANOSECONDS_PER_TICK
      = (?n + NANOSECONDS_PER_TICK - 1 + (OS_SYSTICK_HZ * tv_sec t) * NANOSECONDS_PER_TICK) div NANOSECONDS_PER_TICK"
    by (simp add: ts_ns_def algebra_simps)
  also have "\<dots> = OS_SYSTICK_HZ * tv_sec t + (?n + NANOSECONDS_PER_TICK - 1) div NANOSECONDS_PER_TICK"
    by (simp only: div_mult_self1)
  finally have r: "(ts_ns t + NANOSECONDS_PER_TICK - 1) div NANOSECONDS_PER_TICK
      = OS_SYSTICK_HZ * tv_sec t + (?n + NANOSECONDS_PER_TICK - 1) div NANOSECONDS_PER_TICK" .
  have v: "timespec_validate (Some t) = 1" using t by (simp add: timespec_validate_def)
  have w: "wrap 32 ((?n + NANOSECONDS_PER_TICK - 1) div NANOSECONDS_PER_TICK)
      = (?n + NANOSECONDS_PER_TICK - 1) div NANOSECONDS_PER_TICK" using b by (intro wrap32_id) auto
  have u: "u64_of (tv_sec t) = tv_sec t" "u64_of (OS_SYSTICK_HZ * tv_sec t) = OS_SYSTICK_HZ * tv_sec t"
    using t(3) assms(2) by (simp_all add: u64_of_id)
  have un: "u64_of ((?n + NANOSECONDS_PER_TICK - 1) div NANOSECONDS_PER_TICK)
      = (?n + NANOSECONDS_PER_TICK - 1) div NANOSECONDS_PER_TICK" using b by (intro u64_of_id) auto
  have us: "u64_of (OS_SYSTICK_HZ * tv_sec t + (?n + NANOSECONDS_PER_TICK - 1) div NANOSECONDS_PER_TICK)
      = OS_SYSTICK_HZ * tv_sec t + (?n + NANOSECONDS_PER_TICK - 1) div NANOSECONDS_PER_TICK"
    using b t(3) assms(2) by (intro u64_of_id) auto
  show ?thesis unfolding r
    by (simp only: timespec_to_ticks_def v Let_def prod.case option.case u sdiv_nonneg [OF t(1)] smod_nonneg [OF t(1)]
        abs_numeral up w un us zero_less_numeral if_False zero_neq_one [symmetric])
qed

lemma timespec_sub_not_gt:
  assumes "ts_ok tb x" "ts_ok tb y"
  shows "ts_ns x < ts_ns y \<Longrightarrow> timespec_sub tb (Some x) (Some y) (Some r) = (1, Some r)"
    "ts_ns x = ts_ns y \<Longrightarrow> timespec_sub tb (Some x) (Some y) (Some r) = (0, Some (r\<lparr>tv_sec := 0, tv_nsec := 0\<rparr>))"
  using timespec_cmp_ns [OF assms] by (simp_all add: timespec_sub_def)

section \<open>Properties\<close>

text \<open>The deadline of a timed wait: for normalised times, \<open>timespec_detal_ticks\<close> answers the distance
  rounded up to whole ticks, so that a wait of that many ticks never ends early, and
  \<open>-ETIMEDOUT\<close>, leaving the result alone, when the deadline has passed.\<close>

theorem timespec_detal_ticks_ceil:
  assumes "ts_ok tb abstime" "ts_ok tb curtime" "ts_ns abstime < 9223372036854775 * NANOSECONDS_PER_SECOND"
  shows "timespec_detal_ticks tb (Some abstime) (Some curtime) (Some r) =
    (if ts_ns abstime < ts_ns curtime then (- ETIMEDOUT, Some r)
     else (0, Some ((ts_ns abstime - ts_ns curtime + NANOSECONDS_PER_TICK - 1) div NANOSECONDS_PER_TICK)))"
proof -
  let ?z = "\<lparr>tv_sec = 0, tv_nsec = 0\<rparr>"
  have z: "timespec_to_ticks (Some ?z) (Some r) = (0, Some 0)"
    using timespec_to_ticks_value [of tb ?z r] by (simp add: ts_ok_def ts_ns_def)
  consider "ts_ns abstime < ts_ns curtime" | "ts_ns abstime = ts_ns curtime" | "ts_ns curtime < ts_ns abstime"
    by linarith
  then show ?thesis
  proof cases
    case 1
    then show ?thesis using timespec_sub_not_gt(1) [OF assms(1, 2)]
      by (simp add: timespec_detal_ticks_def)
  next
    case 2
    then show ?thesis using timespec_sub_not_gt(2) [OF assms(1, 2), of ?z] z
      by (simp add: timespec_detal_ticks_def)
  next
    case 3
    obtain d where d: "timespec_sub tb (Some abstime) (Some curtime) (Some ?z) = (0, Some d)" "ts_ok tb d"
        "ts_ns d = ts_ns abstime - ts_ns curtime"
      using timespec_sub_gt [OF assms(1, 2) 3] by blast
    have "0 \<le> ts_ns curtime" using ts_okD(1, 3) [OF assms(2)] by (simp add: ts_ns_def)
    then have "tv_sec d * NANOSECONDS_PER_SECOND < 9223372036854775 * NANOSECONDS_PER_SECOND"
      using d(3) assms(3) ts_okD(1) [OF d(2)] by (simp add: ts_ns_def)
    then have "tv_sec d < 9223372036854775" by simp
    then show ?thesis using timespec_to_ticks_value [OF d(2), of r] d 3
      by (simp add: timespec_detal_ticks_def)
  qed
qed

theorem timespec_detal_ticks_ceil_witness:
  "timespec_detal_ticks 64 (Some \<lparr>tv_sec = 7, tv_nsec = 1\<rparr>) (Some \<lparr>tv_sec = 5, tv_nsec = 999999999\<rparr>) (Some 0) =
    (if ts_ns \<lparr>tv_sec = 7, tv_nsec = 1\<rparr> < ts_ns \<lparr>tv_sec = 5, tv_nsec = 999999999\<rparr> then (- ETIMEDOUT, Some 0)
     else (0, Some ((ts_ns \<lparr>tv_sec = 7, tv_nsec = 1\<rparr> - ts_ns \<lparr>tv_sec = 5, tv_nsec = 999999999\<rparr>
            + NANOSECONDS_PER_TICK - 1) div NANOSECONDS_PER_TICK)))"
  by (rule timespec_detal_ticks_ceil) (simp_all add: ts_ok_def ts_ns_def fits_def)

text \<open>Subtraction and addition are inverse: for an earlier \<open>y\<close>, \<open>timespec_sub\<close> answers a normalised
  difference, and adding it to \<open>y\<close> gives the time back.\<close>

theorem timespec_sub_add:
  assumes "ts_ok tb x" "ts_ok tb y" "ts_ns y < ts_ns x" "fits tb (tv_sec x + 1)"
  shows "\<exists>d. timespec_sub tb (Some x) (Some y) (Some r) = (0, Some d) \<and> ts_ok tb d
    \<and> timespec_add tb (Some y) (Some d) (Some r') = (0, Some x)"
proof -
  obtain d where d: "timespec_sub tb (Some x) (Some y) (Some r) = (0, Some d)" "ts_ok tb d"
      "ts_ns d = ts_ns x - ts_ns y"
    using timespec_sub_gt [OF assms(1-3)] by blast
  note xs = ts_okD [OF assms(1)] and ys = ts_okD [OF assms(2)] and ds = ts_okD [OF d(2)]
  have "tv_sec y + tv_sec d \<le> tv_sec x"
    using d(3) xs(1, 2) ys(1) ds(1) by (simp add: ts_ns_def)
  then have "fits tb (tv_sec y + tv_sec d + 1)"
    using ys(3) ds(3) by (intro fits_between [OF fits_0 assms(4)]) auto
  then obtain z where z: "timespec_add tb (Some y) (Some d) (Some r') = (0, Some z)" "ts_ok tb z"
      "ts_ns z = ts_ns x"
    using timespec_add_value [OF assms(2) d(2)] d(3) by force
  have "z = x" by (rule ts_ns_inj [OF z(2) assms(1) z(3)])
  then show ?thesis using d z by blast
qed

theorem timespec_sub_add_witness:
  "\<exists>d. timespec_sub 64 (Some \<lparr>tv_sec = 7, tv_nsec = 1\<rparr>) (Some \<lparr>tv_sec = 5, tv_nsec = 999999999\<rparr>)
      (Some \<lparr>tv_sec = 0, tv_nsec = 0\<rparr>) = (0, Some d) \<and> ts_ok 64 d
    \<and> timespec_add 64 (Some \<lparr>tv_sec = 5, tv_nsec = 999999999\<rparr>) (Some d) (Some \<lparr>tv_sec = 0, tv_nsec = 0\<rparr>)
      = (0, Some \<lparr>tv_sec = 7, tv_nsec = 1\<rparr>)"
  by (rule timespec_sub_add) (simp_all add: ts_ok_def ts_ns_def fits_def)

text \<open>C38: Setting the time of day and reading it \<open>d\<close> nanoseconds later gives the time set plus \<open>d\<close>, in
  microseconds, also when the kernel's nanosecond counter wraps in between.\<close>

theorem settimeofday_gettimeofday:
  assumes "0 \<le> tvl_sec tv" "0 \<le> tvl_usec tv" "tvl_usec tv < 1000000" "0 \<le> d" "0 \<le> now"
    and tot: "tot = tvl_sec tv * NANOSECONDS_PER_SECOND + tvl_usec tv * 1000 + d"
    and "tot < 2 ^ 64" "fits tb (tot div NANOSECONDS_PER_SECOND)"
  shows "gettimeofday tb (u64_of (now + d)) (snd (settimeofday now tv st)) =
    (0, \<lparr>tvl_sec = tot div NANOSECONDS_PER_SECOND,
         tvl_usec = tot mod NANOSECONDS_PER_SECOND div 1000\<rparr>)"
proof -
  let ?v = "tvl_sec tv * NANOSECONDS_PER_SECOND + tvl_usec tv * 1000"
  have b: "0 \<le> ?v" "?v < 2 ^ 64" "d < 2 ^ 64" using assms(1-7) by auto
  have s: "u64_of (tvl_sec tv) = tvl_sec tv" "u64_of (tvl_usec tv) = tvl_usec tv" "u64_of ?v = ?v"
    using assms(1-3) b by (auto intro!: u64_of_id)
  have "u64_of (u64_of (now + d) - now) = u64_of d" by (simp add: u64_of_def mod_diff_left_eq)
  also have "\<dots> = d" using assms(4) b(3) by (intro u64_of_id) auto
  finally have e: "u64_of (u64_of (now + d) - now) = d" .
  have t: "u64_of (?v + d) = tot" using b(1) assms(4, 7) unfolding tot by (intro u64_of_id) auto
  have m: "wrap 32 (tot mod NANOSECONDS_PER_SECOND div 1000) = tot mod NANOSECONDS_PER_SECOND div 1000"
  proof (rule wrap32_id)
    have "0 \<le> tot mod NANOSECONDS_PER_SECOND" "tot mod NANOSECONDS_PER_SECOND < NANOSECONDS_PER_SECOND" by auto
    then show "- 2147483648 \<le> tot mod NANOSECONDS_PER_SECOND div 1000"
      "tot mod NANOSECONDS_PER_SECOND div 1000 < 2147483648" by auto
  qed
  show ?thesis
    by (simp add: gettimeofday_def settimeofday_def s e t m wrap_id [OF assms(8)] Let_def)
qed

theorem settimeofday_gettimeofday_witness:
  "gettimeofday 64 (u64_of (18446744073709551000 + 1700)) (snd (settimeofday 18446744073709551000
      \<lparr>tvl_sec = 1700000000, tvl_usec = 999999\<rparr> \<lparr>sys_time_base_ns = 0, sys_time_real_ns = 0\<rparr>)) =
    (0, \<lparr>tvl_sec = 1700000001000000700 div NANOSECONDS_PER_SECOND,
         tvl_usec = 1700000001000000700 mod NANOSECONDS_PER_SECOND div 1000\<rparr>)"
  by (rule settimeofday_gettimeofday) (simp_all add: fits_def)

text \<open>\<open>nanosec_to_timespec\<close> normalises every 64-bit count, negative ones included: the nanoseconds lie
  in one second and the value is kept.\<close>

theorem nanosec_to_timespec_value:
  assumes "fits tb (ll div NANOSECONDS_PER_SECOND)" "fits tb (ll sdiv NANOSECONDS_PER_SECOND)" "fits tb 1"
  shows "ts_ns (nanosec_to_timespec tb ll) = ll \<and> 0 \<le> tv_nsec (nanosec_to_timespec tb ll)
    \<and> tv_nsec (nanosec_to_timespec tb ll) < NANOSECONDS_PER_SECOND"
proof -
  let ?N = "NANOSECONDS_PER_SECOND"
  have sum: "ll sdiv ?N * ?N + ll smod ?N = ll" by (rule sdiv_mult_smod_eq)
  have r: "- ?N < ll smod ?N" "ll smod ?N < ?N"
    by (auto simp: signed_modulo_int_def sgn_if abs_if)
  have w: "wrap 32 (ll smod ?N) = ll smod ?N" using r by (intro wrap32_id) auto
  show ?thesis
  proof (cases "ll smod ?N < 0")
    case False
    then show ?thesis using sum r by (simp add: nanosec_to_timespec_def w wrap_id [OF assms(2)] ts_ns_def)
  next
    case True
    have c: "ll smod ?N sdiv ?N = 0" using True r by (simp add: signed_divide_int_def sgn_if)
    have v: "wrap tb 1 = 1" "wrap 32 1 = 1" "wrap 32 ?N = ?N"
        "wrap 32 (ll smod ?N + ?N) = ll smod ?N + ?N"
      using assms(3) r True by (auto intro!: wrap_id simp: fits_def)
    have "ll = (ll sdiv ?N - 1) * ?N + (ll smod ?N + ?N)" using sum by (simp add: algebra_simps)
    then have "ll div ?N = ll sdiv ?N - 1"
      using True r by (intro int_div_pos_eq [where r = "ll smod ?N + ?N"]) (simp_all add: mult.commute)
    then have "wrap tb (ll sdiv ?N - 1) = ll sdiv ?N - 1" using wrap_id [OF assms(1)] by simp
    then show ?thesis using True sum r
      by (simp add: nanosec_to_timespec_def w wrap_id [OF assms(2)] c v ts_ns_def Let_def)
  qed
qed

theorem nanosec_to_timespec_value_witness:
  "ts_ns (nanosec_to_timespec 64 (- 1500000000)) = - 1500000000
    \<and> 0 \<le> tv_nsec (nanosec_to_timespec 64 (- 1500000000))
    \<and> tv_nsec (nanosec_to_timespec 64 (- 1500000000)) < NANOSECONDS_PER_SECOND"
  by (rule nanosec_to_timespec_value) (simp_all add: fits_def signed_divide_int_def)

end
