(* ===== verification/PosixTime.thy ===== *)
theory PosixTime
  imports TimeSpec OsSync
begin

text \<open>
  The parts of the POSIX layer that deal with time: the timeout of the timed waits (\<open>pthread_timespec_delta\<close> of
  \<open>sdk/lib/posix/pthread.c\<close>), the semaphores of \<open>semaphore.c\<close> and the timers of \<open>timer.c\<close>. The kernel's tick and
  nanosecond counters are arguments. Times in ticks are integers, with the conversions to \<open>uint64\<close> and the 32 bits of
  \<open>unsigned long\<close> written out; the tick is a millisecond.
\<close>

unbundle bit_operations_syntax

section \<open>Timeouts\<close>

text \<open>The answer is an \<open>unsigned int\<close> of milliseconds. \<open>osWaitForever\<close>, -1, is its largest value.\<close>

definition pthread_timespec_delta :: "nat \<Rightarrow> int \<Rightarrow> systime \<Rightarrow> timespec option \<Rightarrow> int" where
  "pthread_timespec_delta tb now st abstime =
     (let tmo = osWaitForever mod 2 ^ 32
      in if abstime = None then tmo
         else case timespec_detal_ticks tb abstime (Some (os_systime tb now st)) (Some 0) of
             (ret, Some ticks) \<Rightarrow> if ret = RET_OK then os_jiffies_to_msecs ticks mod 2 ^ 32 else tmo
           | (ret, None) \<Rightarrow> tmo)"

section \<open>Semaphores\<close>

text \<open>A \<open>sem_t\<close> is the address of an \<open>os_semaphore\<close>, here the object itself. The initial value is not used.\<close>

definition sem_init :: "bool \<Rightarrow> bool \<Rightarrow> bool \<Rightarrow> nat \<Rightarrow> int \<times> os_semaphore option" where
  "sem_init nonnull alloc_ok kernel_ok value =
     (if \<not> nonnull then (- EINVAL, None)
      else if \<not> alloc_ok then (- ENOMEM, None)
      else (RET_OK, Some (snd (os_sema_init kernel_ok 0 \<lparr>sem_magic = 0, sem_hdl = None\<rparr>))))"

definition sem_destroy :: "os_semaphore \<Rightarrow> int option" where
  "sem_destroy sem = do { _ \<leftarrow> os_sema_del sem; Some 0 }"

definition sem_getvalue :: "os_semaphore \<Rightarrow> int \<times> int" where
  "sem_getvalue sem = (0, os_sema_count sem)"

definition sem_post :: "os_semaphore \<Rightarrow> (int \<times> os_semaphore) option" where
  "sem_post sem = os_sema_up sem"

text \<open>The milliseconds become the signed argument of \<open>os_sema_down\<close>.\<close>

definition sem_timedwait ::
  "nat \<Rightarrow> int \<Rightarrow> systime \<Rightarrow> os_semaphore \<Rightarrow> timespec option \<Rightarrow> (int \<times> os_semaphore) waiting option" where
  "sem_timedwait tb now st sem abstime = os_sema_down (wrap 32 (pthread_timespec_delta tb now st abstime)) sem"

definition sem_trywait :: "os_semaphore \<Rightarrow> (int \<times> os_semaphore) waiting option" where
  "sem_trywait sem = os_sema_down 0 sem"

definition sem_wait :: "os_semaphore \<Rightarrow> (int \<times> os_semaphore) waiting option" where
  "sem_wait sem = os_sema_down osWaitForever sem"

section \<open>Timers\<close>

abbreviation SIGEV_SIGNAL :: int where "SIGEV_SIGNAL \<equiv> 1"
abbreviation SIGEV_THREAD :: int where "SIGEV_THREAD \<equiv> 2"
abbreviation TIMER_ABSTIME :: nat where "TIMER_ABSTIME \<equiv> 4"
abbreviation ENOTSUP :: int where "ENOTSUP \<equiv> 524"

record itimerspec =
  it_interval :: timespec
  it_value :: timespec

text \<open>\<open>sigev_attrs\<close>: the detach state of the thread attributes, when there are any.\<close>

record sigevent =
  sigev_notify :: int
  sigev_attrs :: "int option"

datatype notification = Called | ThreadCreated

text \<open>\<open>ktimer\<close> is the kernel's one-shot timer, the tick it expires at while it is active; \<open>fired\<close> records the
  notifications.\<close>

record posix_timer =
  ptm_event :: sigevent
  period_time :: int
  expired_time :: int
  ktimer :: "int option"
  fired :: "notification list"

text \<open>The kernel refuses to start a timer for 0 ticks; nobody looks at the result.\<close>

definition os_timer_start :: "int \<Rightarrow> int \<Rightarrow> int option \<Rightarrow> int option" where
  "os_timer_start tick expires kt = (if expires mod 2 ^ 32 = 0 then kt else Some (tick + expires mod 2 ^ 32))"

definition os_timer_stat :: "int option \<Rightarrow> bool" where
  "os_timer_stat kt \<longleftrightarrow> kt \<noteq> None"

definition posix_timer_cb :: "int \<Rightarrow> posix_timer \<Rightarrow> posix_timer" where
  "posix_timer_cb tick pt =
     (let pt = (if period_time pt > 0 then pt\<lparr>ktimer := os_timer_start tick (period_time pt) (ktimer pt)\<rparr> else pt)
      in if sigev_notify (ptm_event pt) = SIGEV_THREAD
         then pt\<lparr>fired := fired pt @ [if sigev_attrs (ptm_event pt) = None then Called else ThreadCreated]\<rparr>
         else pt)"

text \<open>The kernel's timer expires: it is inactive and calls back.\<close>

definition posix_timer_expire :: "int \<Rightarrow> posix_timer \<Rightarrow> posix_timer" where
  "posix_timer_expire tick pt = posix_timer_cb tick (pt\<lparr>ktimer := None\<rparr>)"

text \<open>Attributes of threads that are not detached are changed, in the caller's object too, to detached (1).\<close>

definition timer_create :: "sigevent option \<Rightarrow> bool \<Rightarrow> bool \<Rightarrow> int \<times> posix_timer option" where
  "timer_create evp alloc_ok kernel_ok =
     (case evp of None \<Rightarrow> (- ENOTSUP, None)
      | Some ev \<Rightarrow>
          if sigev_notify ev = SIGEV_SIGNAL then (- ENOTSUP, None)
          else if \<not> alloc_ok then (- ENOMEM, None)
          else let ev = ev\<lparr>sigev_attrs := map_option (\<lambda>d. if d \<noteq> 1 then 1 else d) (sigev_attrs ev)\<rparr>
               in if kernel_ok
                  then (0, Some \<lparr>ptm_event = ev, period_time = 0, expired_time = 0, ktimer = None, fired = []\<rparr>)
                  else (- 1, None))"

definition ts_zero :: "timespec \<Rightarrow> bool" where
  "ts_zero t \<longleftrightarrow> tv_sec t = 0 \<and> tv_nsec t = 0"

definition timer_gettime :: "nat \<Rightarrow> int \<Rightarrow> posix_timer \<Rightarrow> int \<times> itimerspec" where
  "timer_gettime tb tick pt =
     (let expired = u64_of (expired_time pt - os_jiffies tick);
          period = period_time pt;
          split_time = \<lambda>t. \<lparr>tv_sec = wrap tb (t div OS_SYSTICK_HZ), tv_nsec = wrap 32 (t mod OS_SYSTICK_HZ * NANOSECONDS_PER_TICK)\<rparr>;
          zero = \<lparr>tv_sec = 0, tv_nsec = 0\<rparr>
      in (0, \<lparr>it_interval = (if period \<noteq> u64_of osWaitForever then split_time period else zero),
              it_value = (if os_timer_stat (ktimer pt) then split_time expired else zero)\<rparr>))"

definition ticks_of :: "timespec \<Rightarrow> int" where
  "ticks_of t = (case timespec_to_ticks (Some t) (Some 0) of (_, Some n) \<Rightarrow> n | (_, None) \<Rightarrow> 0)"

text \<open>\<open>tick\<close> and \<open>ns\<close>: the counters at the call. An absolute time is measured with \<open>clock_gettime\<close>, the time since
  the start.\<close>

definition timer_settime ::
  "nat \<Rightarrow> int \<Rightarrow> int \<Rightarrow> nat \<Rightarrow> itimerspec \<Rightarrow> posix_timer \<Rightarrow> (int \<times> itimerspec option) \<times> posix_timer" where
  "timer_settime tb tick ns flags v pt =
     (if \<not> ts_zero (it_value v)
         \<and> (timespec_validate (Some (it_interval v)) = 0 \<or> timespec_validate (Some (it_value v)) = 0)
      then ((- EINVAL, None), pt)
      else let ovalue = Some (snd (timer_gettime tb tick pt));
               pt = (if os_timer_stat (ktimer pt) then pt\<lparr>ktimer := None\<rparr> else pt)
           in if ts_zero (it_value v) then ((0, ovalue), pt)
              else let period_jiff = (if \<not> ts_zero (it_interval v) then ticks_of (it_interval v) else 0);
                       pt = pt\<lparr>period_time := period_jiff\<rparr>;
                       (ret, expired_jiff) =
                         (if flags AND TIMER_ABSTIME = TIMER_ABSTIME
                          then case clock_gettime tb ns (Some \<lparr>tv_sec = 0, tv_nsec = 0\<rparr>) of (cr, cur_tm) \<Rightarrow>
                            let (ret, j) = (if cr \<noteq> 0 then (- EINVAL, Some 0)
                                            else timespec_detal_ticks tb (Some (it_value v)) cur_tm (Some 0))
                            in if ret \<noteq> 0 then (if ret = - ETIMEDOUT then 0 else ret, 0)
                               else (0, case j of Some n \<Rightarrow> n | None \<Rightarrow> 0)
                          else (0, ticks_of (it_value v)))
                   in if expired_jiff = 0 then ((ret, ovalue), posix_timer_cb tick pt)
                      else ((ret, ovalue),
                        pt\<lparr>expired_time := u64_of (os_jiffies tick + expired_jiff),
                           ktimer := os_timer_start tick (os_jiffies_to_msecs expired_jiff) (ktimer pt)\<rparr>))"

definition timer_delete :: "posix_timer \<Rightarrow> (int \<times> posix_timer option) option" where
  "timer_delete pt =
     (let pt = pt\<lparr>ktimer := None\<rparr>
      in if os_timer_stat (ktimer pt) then None else Some (0, None))"

definition timer_getoverrun :: "posix_timer \<Rightarrow> int" where
  "timer_getoverrun pt = 0"

section \<open>Timed waits\<close>

lemma os_systime_ok:
  assumes "0 \<le> sys_time_real_ns st" "fits tb 18446744073"
  shows "ts_ok tb (os_systime tb now st)
    \<and> ts_ns (os_systime tb now st) = u64_of (sys_time_real_ns st + u64_of (now - sys_time_base_ns st))"
proof -
  let ?t = "u64_of (sys_time_real_ns st + u64_of (now - sys_time_base_ns st))"
  have t: "0 \<le> ?t" "?t < 18446744073709551616" by (simp_all add: u64_of_def)
  then have q: "0 \<le> ?t div NANOSECONDS_PER_SECOND" "?t div NANOSECONDS_PER_SECOND \<le> 18446744073" by auto
  have f: "fits tb (?t div NANOSECONDS_PER_SECOND)" using q by (intro fits_between [OF fits_0 assms(2)]) auto
  have m: "wrap 32 (?t mod NANOSECONDS_PER_SECOND) = ?t mod NANOSECONDS_PER_SECOND"
    by (intro wrap32_id) (auto intro: order_trans [OF _ pos_mod_sign] less_trans [OF pos_mod_bound])
  show ?thesis using q by (simp add: os_systime_def Let_def wrap_id [OF f] m ts_ok_def f ts_ns_def)
qed

text \<open>The system time as a count of nanoseconds.\<close>

definition systime_ns :: "int \<Rightarrow> systime \<Rightarrow> int" where
  "systime_ns now st = u64_of (sys_time_real_ns st + u64_of (now - sys_time_base_ns st))"

text \<open>The timeout of a timed wait is the distance to the deadline rounded up to milliseconds, as long as the
  deadline is ahead; for a deadline that has passed it is that of an endless wait.\<close>

lemma timespec_delta_value:
  assumes "0 \<le> sys_time_real_ns st" "fits tb 18446744073" "ts_ok tb t" "ts_ns t < systime_ns now st + 2147483648 * NANOSECONDS_PER_TICK"
  shows "pthread_timespec_delta tb now st (Some t) =
    (if ts_ns t < systime_ns now st then 4294967295
     else (ts_ns t - systime_ns now st + NANOSECONDS_PER_TICK - 1) div NANOSECONDS_PER_TICK)"
proof -
  note s = os_systime_ok [OF assms(1, 2), of now]
  have "systime_ns now st < 18446744073709551616" by (simp add: systime_ns_def u64_of_def)
  then have b: "ts_ns t < 9223372036854775 * NANOSECONDS_PER_SECOND" using assms(4) by simp
  let ?d = "ts_ns t - systime_ns now st"
  note c = timespec_detal_ticks_ceil [OF assms(3) conjunct1 [OF s] b, of 0]
  show ?thesis
  proof (cases "?d < 0")
    case True
    then show ?thesis using c conjunct2 [OF s] by (simp add: pthread_timespec_delta_def systime_ns_def)
  next
    case False
    have "(?d + NANOSECONDS_PER_TICK - 1) div NANOSECONDS_PER_TICK \<le> (2147483648 * NANOSECONDS_PER_TICK + NANOSECONDS_PER_TICK - 1) div NANOSECONDS_PER_TICK"
      using assms(4) by (intro zdiv_mono1) auto
    then have n: "(?d + NANOSECONDS_PER_TICK - 1) div NANOSECONDS_PER_TICK < 4294967296"
        "0 \<le> (?d + NANOSECONDS_PER_TICK - 1) div NANOSECONDS_PER_TICK" using False by (simp_all add: pos_imp_zdiv_nonneg_iff)
    then have "os_jiffies_to_msecs ((?d + NANOSECONDS_PER_TICK - 1) div NANOSECONDS_PER_TICK) mod 2 ^ 32
        = (?d + NANOSECONDS_PER_TICK - 1) div NANOSECONDS_PER_TICK"
      by (simp add: os_jiffies_to_msecs_def OS_MS_PERIOD_TICK_def u64_of_id mod_pos_pos_trivial)
    then show ?thesis using c conjunct2 [OF s] False by (simp add: pthread_timespec_delta_def systime_ns_def)
  qed
qed


section \<open>Timers that run\<close>

lemma ticks_of_value:
  assumes "ts_ok tb t" "tv_sec t < 9223372036854775"
  shows "ticks_of t = (ts_ns t + NANOSECONDS_PER_TICK - 1) div NANOSECONDS_PER_TICK"
  using timespec_to_ticks_value [OF assms, of 0] by (simp add: ticks_of_def)

text \<open>A number of ticks as a timespec.\<close>

lemma split_ticks:
  assumes "0 \<le> n" "n div 1000 \<le> m" "fits tb m"
  shows "ts_ns \<lparr>tv_sec = wrap tb (n div OS_SYSTICK_HZ), tv_nsec = wrap 32 (n mod OS_SYSTICK_HZ * NANOSECONDS_PER_TICK)\<rparr>
    = n * NANOSECONDS_PER_TICK"
proof -
  have q: "0 \<le> n div 1000" using assms(1) by simp
  have f: "fits tb (n div 1000)" using q assms(2) by (intro fits_between [OF fits_0 assms(3)]) auto
  have m: "0 \<le> n mod 1000" "n mod 1000 < 1000" by auto
  have w: "wrap 32 (n mod 1000 * NANOSECONDS_PER_TICK) = n mod 1000 * NANOSECONDS_PER_TICK" using m by (intro wrap32_id) auto
  have "n div 1000 * 1000 + n mod 1000 = n" by simp
  then have "n div 1000 * NANOSECONDS_PER_SECOND + n mod 1000 * NANOSECONDS_PER_TICK = n * NANOSECONDS_PER_TICK" by linarith
  then show ?thesis by (simp add: ts_ns_def wrap_id [OF f] w)
qed

lemma ticks_of_bounds:
  assumes "ts_ok tb t" "tv_sec t < 4294966"
  shows "0 \<le> ticks_of t" "ticks_of t < 4294967296" "ts_ns t > 0 \<Longrightarrow> 0 < ticks_of t"
proof -
  note v = ticks_of_value [OF assms(1)] and o = ts_okD [OF assms(1)]
  have n: "0 \<le> ts_ns t" "ts_ns t \<le> 4294966 * NANOSECONDS_PER_SECOND" using o assms(2) by (auto simp: ts_ns_def)
  show "0 \<le> ticks_of t" using n v assms(2) by (simp add: pos_imp_zdiv_nonneg_iff)
  have "(ts_ns t + NANOSECONDS_PER_TICK - 1) div NANOSECONDS_PER_TICK \<le> (4294966 * NANOSECONDS_PER_SECOND + NANOSECONDS_PER_TICK - 1) div NANOSECONDS_PER_TICK"
    using n(2) by (intro zdiv_mono1) auto
  then show "ticks_of t < 4294967296" using v assms(2) by simp
  show "ts_ns t > 0 \<Longrightarrow> 0 < ticks_of t" using v assms(2) by (simp add: pos_imp_zdiv_pos_iff)
qed

text \<open>A timer that is set to a relative time reports, while it runs, the time that is left, and its period.\<close>

theorem timer_set_get:
  assumes v: "ts_ok tb (it_value v)" "tv_sec (it_value v) < 4294966" "0 < ts_ns (it_value v)"
    and i: "ts_ok tb (it_interval v)" "tv_sec (it_interval v) < 4294966"
    and t: "0 \<le> tick" "tick \<le> later" "later < tick + ticks_of (it_value v)" "tick < 2 ^ 63" and tb: "fits tb 4294967"
  shows "\<exists>ov pt'. timer_settime tb tick ns 0 v pt = ((0, ov), pt')
    \<and> ts_ns (it_value (snd (timer_gettime tb later pt'))) = (ticks_of (it_value v) - (later - tick)) * NANOSECONDS_PER_TICK
    \<and> ts_ns (it_interval (snd (timer_gettime tb later pt'))) = ticks_of (it_interval v) * NANOSECONDS_PER_TICK"
proof -
  define n where "n = ticks_of (it_value v)"
  define p where "p = (if \<not> ts_zero (it_interval v) then ticks_of (it_interval v) else 0)"
  note nb = ticks_of_bounds [OF v(1, 2)] and pb = ticks_of_bounds [OF i]
  have n: "0 < n" "n < 4294967296" using nb(2) nb(3) v(3) by (simp_all add: n_def)
  have "ts_zero (it_interval v) \<Longrightarrow> ticks_of (it_interval v) = 0"
    using ticks_of_value [OF i(1)] i(2) by (simp add: ts_zero_def ts_ns_def)
  then have p: "p = ticks_of (it_interval v)" "0 \<le> p" "p < 4294967296" using pb(1, 2) by (auto simp: p_def)
  have nz: "\<not> ts_zero (it_value v)" using v(3) by (auto simp: ts_zero_def ts_ns_def)
  have va: "timespec_validate (Some (it_value v)) \<noteq> 0" "timespec_validate (Some (it_interval v)) \<noteq> 0"
    using ts_okD [OF v(1)] ts_okD [OF i(1)] by (simp_all add: timespec_validate_def)
  have ms: "os_jiffies_to_msecs n mod 2 ^ 32 = n" using n by (simp add: os_jiffies_to_msecs_def OS_MS_PERIOD_TICK_def u64_of_id)
  have u: "u64_of (tick + n) = tick + n" using n t by (intro u64_of_id) auto
  let ?pt = "\<lambda>k. pt\<lparr>ktimer := k, period_time := p, expired_time := tick + n, ktimer := Some (tick + n)\<rparr>"
  have s: "\<exists>ov. timer_settime tb tick ns 0 v pt = ((0, ov), ?pt None)"
    using nz va n ms u by (auto simp: timer_settime_def Let_def n_def [symmetric] p_def [symmetric] os_timer_start_def os_jiffies_def)
  have left: "u64_of (tick + n - later) = n - (later - tick)" using t n by (subst u64_of_id) (auto simp: n_def)
  have d: "(n - (later - tick)) div 1000 \<le> 4294967296 div 1000" "p div 1000 \<le> 4294967296 div 1000"
    using n p t by (intro zdiv_mono1; simp add: n_def)+
  have "p \<noteq> u64_of osWaitForever" using p by (simp add: u64_of_def)
  then have "ts_ns (it_value (snd (timer_gettime tb later (?pt None)))) = (n - (later - tick)) * NANOSECONDS_PER_TICK
      \<and> ts_ns (it_interval (snd (timer_gettime tb later (?pt None)))) = p * NANOSECONDS_PER_TICK"
    using split_ticks [OF _ d(1)] split_ticks [OF p(2) d(2)] tb t left
    by (simp add: timer_gettime_def os_timer_stat_def os_jiffies_def Let_def n_def)
  then show ?thesis using s p(1) by (auto simp: n_def)
qed

text \<open>Once a periodic timer has expired and runs again, the time it reports as left is that to the expiry that is over:
  a negative number of ticks, read as an unsigned one of 64 bits.\<close>

theorem timer_periodic_gettime_wraps:
  assumes "0 < period_time pt" "period_time pt < 4294967296" "expired_time pt = tick" "tick < later" "later \<le> tick + period_time pt"
    "fits tb 18446744073709552"
  shows "ts_ns (it_value (snd (timer_gettime tb later (posix_timer_expire tick pt)))) = (2 ^ 64 - (later - tick)) * NANOSECONDS_PER_TICK"
proof -
  have p: "period_time pt mod 2 ^ 32 = period_time pt" using assms(1, 2) by simp
  then have k: "ktimer (posix_timer_expire tick pt) = Some (tick + period_time pt)"
    "expired_time (posix_timer_expire tick pt) = tick"
    using assms(1, 3) by (simp_all add: posix_timer_expire_def posix_timer_cb_def os_timer_start_def Let_def)
  have "u64_of (tick - later) = (tick - later + 2 ^ 64) mod 2 ^ 64" unfolding u64_of_def by (rule mod_add_self2 [symmetric])
  also have "\<dots> = tick - later + 2 ^ 64" using assms(2, 4, 5) by (intro mod_pos_pos_trivial) auto
  finally have u: "u64_of (tick - later) = 2 ^ 64 - (later - tick)" by simp
  have "(2 ^ 64 - (later - tick)) div 1000 \<le> (2 ^ 64 :: int) div 1000" using assms(4) by (intro zdiv_mono1) auto
  then have d: "(2 ^ 64 - (later - tick)) div 1000 \<le> 18446744073709552" by simp
  have nn: "0 \<le> 2 ^ 64 - (later - tick)" using assms(2, 5) by simp
  show ?thesis using split_ticks [OF nn d assms(6)] k u by (simp add: timer_gettime_def os_timer_stat_def os_jiffies_def Let_def)
qed

text \<open>A timer set to an absolute time that has passed notifies at once, and the call succeeds.\<close>

theorem timer_abs_past:
  assumes v: "ts_ok tb (it_value v)" "0 < ts_ns (it_value v)" "ts_ns (it_value v) < ns"
    and i: "timespec_validate (Some (it_interval v)) \<noteq> 0"
    and ns: "ns < 2 ^ 63" "fits tb 9223372036" and ev: "ptm_event pt = \<lparr>sigev_notify = SIGEV_THREAD, sigev_attrs = None\<rparr>"
  shows "\<exists>ov pt'. timer_settime tb tick ns TIMER_ABSTIME v pt = ((0, ov), pt') \<and> fired pt' = fired pt @ [Called]"
proof -
  define cur where "cur = \<lparr>tv_sec = wrap tb (ns div NANOSECONDS_PER_SECOND), tv_nsec = wrap 32 (ns mod NANOSECONDS_PER_SECOND)\<rparr>"
  have q: "0 \<le> ns div NANOSECONDS_PER_SECOND" "ns div NANOSECONDS_PER_SECOND \<le> 9223372036" using ns v by auto
  have f: "fits tb (ns div NANOSECONDS_PER_SECOND)" using q by (intro fits_between [OF fits_0 ns(2)]) auto
  have w: "wrap 32 (ns mod NANOSECONDS_PER_SECOND) = ns mod NANOSECONDS_PER_SECOND"
    by (intro wrap32_id) (auto intro: order_trans [OF _ pos_mod_sign] less_trans [OF pos_mod_bound])
  have c: "ts_ok tb cur" "ts_ns cur = ns"
    using q by (simp_all add: cur_def wrap_id [OF f] w ts_ok_def f ts_ns_def)
  have d: "timespec_detal_ticks tb (Some (it_value v)) (Some cur) (Some 0) = (- ETIMEDOUT, Some 0)"
    using timespec_detal_ticks_ceil [OF v(1) c(1), of 0] c(2) v(3) ns(1) by simp
  have nz: "\<not> ts_zero (it_value v)" using v(2) by (auto simp: ts_zero_def ts_ns_def)
  have va: "timespec_validate (Some (it_value v)) \<noteq> 0" using ts_okD [OF v(1)] by (simp add: timespec_validate_def)
  have g: "clock_gettime tb ns (Some x) = (0, Some cur)" for x by (simp add: clock_gettime_def cur_def)
  have "\<exists>ov pt'. timer_settime tb tick ns TIMER_ABSTIME v pt = ((0, ov), posix_timer_cb tick pt')
      \<and> fired pt' = fired pt \<and> ptm_event pt' = ptm_event pt"
    using nz va i d by (auto simp: timer_settime_def Let_def g)
  then show ?thesis using ev by (auto simp: posix_timer_cb_def Let_def)
qed

section \<open>Concrete runs\<close>


definition timer0 :: posix_timer where
  "timer0 = \<lparr>ptm_event = \<lparr>sigev_notify = SIGEV_THREAD, sigev_attrs = None\<rparr>, period_time = 20, expired_time = 1000,
     ktimer = None, fired = []\<rparr>"

definition its0 :: itimerspec where
  "its0 = \<lparr>it_interval = \<lparr>tv_sec = 0, tv_nsec = 20000000\<rparr>, it_value = \<lparr>tv_sec = 1, tv_nsec = 500000001\<rparr>\<rparr>"

lemma its0_ok: "ts_ok 64 (it_value its0)" "ts_ok 64 (it_interval its0)" "ts_ns (it_value its0) = 1500000001"
  "tv_sec (it_value its0) = 1" "tv_sec (it_interval its0) = 0" "timespec_validate (Some (it_interval its0)) \<noteq> 0"
  by (simp_all add: its0_def ts_ok_def fits_def ts_ns_def timespec_validate_def)

lemma its0_ticks: "ticks_of (it_value its0) = 1501"
  using ticks_of_value [OF its0_ok(1)] its0_ok by simp

theorem timer_set_get_witness:
  "\<exists>ov pt'. timer_settime 64 100 7 0 its0 timer0 = ((0, ov), pt') \<and> ts_ns (it_value (snd (timer_gettime 64 600 pt'))) = 1001000000"
  using timer_set_get [of 64 its0 100 600 7 timer0] by (auto simp: its0_ok its0_ticks fits_def)

theorem timer_periodic_gettime_wraps_witness:
  "ts_ns (it_value (snd (timer_gettime 64 1005 (posix_timer_expire 1000 timer0)))) = (2 ^ 64 - 5) * NANOSECONDS_PER_TICK"
  using timer_periodic_gettime_wraps [of timer0 1000 1005 64] by (simp add: timer0_def fits_def)

theorem timer_abs_past_witness:
  "\<exists>ov pt'. timer_settime 64 100 2000000000 TIMER_ABSTIME its0 timer0 = ((0, ov), pt') \<and> fired pt' = [] @ [Called]"
  using timer_abs_past [of 64 its0 2000000000 timer0 100] by (simp add: its0_ok fits_def timer0_def)

end
