(* ===== verification/Rtp.thy ===== *)
theory Rtp
  imports ByteShift
begin

text \<open>
  RTP transmission, \<open>sdk/app/spook/rtp.c\<close>: the packet header, the size limits, and sending over UDP or interleaved in
  the RTSP connection. A vector of buffers (\<open>struct iovec\<close>) is the list of their contents.

  The network is an argument: \<open>net k n\<close> is what the \<open>k\<close>-th call of \<open>sendmsg\<close> answers for \<open>n\<close> bytes, the return value
  and \<open>errno\<close>, and \<open>clock k\<close> the tick at that call. The endpoint counts the calls, and records the datagrams that were
  sent (\<open>wire\<close>) and the bytes that went into the connection (\<open>stream\<close>).
\<close>

unbundle bit_operations_syntax

abbreviation RTP_TRANS_UDP :: int where "RTP_TRANS_UDP \<equiv> 1"
abbreviation RTP_TRANS_INTER :: int where "RTP_TRANS_INTER \<equiv> 2"
abbreviation RTP_HEADER_SIZE :: int where "RTP_HEADER_SIZE \<equiv> 12"
abbreviation RTP_TCP_MAX_PACKET_SIZE :: int where "RTP_TCP_MAX_PACKET_SIZE \<equiv> 16384"
abbreviation MAX_DATA_PACKET_SIZE :: int where "MAX_DATA_PACKET_SIZE \<equiv> 1440"

type_synonym net = "nat \<Rightarrow> nat \<Rightarrow> int \<times> int"

record rtp_endpoint =
  ep_payload :: u8
  max_data_size :: int
  ssrc :: u32
  start_timestamp :: u32
  last_timestamp :: u32
  seqnum :: u32
  packet_count :: u32
  octet_count :: u32
  trans_type :: int
  sendEnable :: bool
  conn_ok :: bool
  rtp_chan :: u8
  calls :: nat
  wire :: "u8 list list"
  stream :: "u8 list"

section \<open>Header and sizes\<close>

definition PUT_16 :: "u32 \<Rightarrow> u8 list" where
  "PUT_16 v = [ucast (drop_bit 8 v AND 0xff), ucast (v AND 0xff)]"

definition PUT_32 :: "u32 \<Rightarrow> u8 list" where
  "PUT_32 v = [ucast (drop_bit 24 v AND 0xff), ucast (drop_bit 16 v AND 0xff), ucast (drop_bit 8 v AND 0xff), ucast (v AND 0xff)]"

definition GET_16 :: "u8 list \<Rightarrow> u32" where
  "GET_16 p = push_bit 8 (ucast (p ! 0)) OR ucast (p ! 1)"

definition rtp_get_packet_size_limit :: "rtp_endpoint \<Rightarrow> int" where
  "rtp_get_packet_size_limit ep =
     (if trans_type ep = RTP_TRANS_INTER then RTP_TCP_MAX_PACKET_SIZE
      else if max_data_size ep > 0 then max_data_size ep
      else MAX_DATA_PACKET_SIZE)"

definition rtp_get_payload_size_limit :: "rtp_endpoint \<Rightarrow> int \<Rightarrow> int" where
  "rtp_get_payload_size_limit ep packet_overhead =
     (let packet_limit = rtp_get_packet_size_limit ep
      in if packet_overhead < 0 then 0
         else if packet_limit \<le> packet_overhead then 0
         else packet_limit - packet_overhead)"

definition rtp_build_header :: "u32 \<Rightarrow> bool \<Rightarrow> rtp_endpoint \<Rightarrow> u8 list \<times> rtp_endpoint" where
  "rtp_build_header timestamp marker ep =
     (let ep = ep\<lparr>last_timestamp := start_timestamp ep + timestamp\<rparr>
      in ([0x80, if marker then ep_payload ep OR 0x80 else ep_payload ep]
            @ PUT_16 (seqnum ep) @ PUT_32 (last_timestamp ep) @ PUT_32 (ssrc ep), ep))"

definition rtp_get_payload_len :: "u8 list list \<Rightarrow> u32" where
  "rtp_get_payload_len v = of_nat (\<Sum>b\<leftarrow>drop 1 v. length b)"

fun rtp_advance_iov :: "u8 list list \<Rightarrow> nat \<Rightarrow> u8 list list" where
  "rtp_advance_iov [] n = []"
| "rtp_advance_iov (b # iov) n =
     (if n = 0 then b # iov
      else if n \<ge> length b then rtp_advance_iov iov (n - length b)
      else drop n b # iov)"

section \<open>Sending\<close>

fun rtp_send_udp :: "net \<Rightarrow> u8 list list \<Rightarrow> nat \<Rightarrow> rtp_endpoint \<Rightarrow> int \<times> rtp_endpoint" where
  "rtp_send_udp net iov tries ep =
     (case tries of 0 \<Rightarrow> (- 1, ep)
      | Suc tries \<Rightarrow>
          (let total_len = length (concat iov);
               (ret, errno) = net (calls ep) total_len;
               ep = ep\<lparr>calls := calls ep + 1\<rparr>
           in if ret = int total_len then (0, ep\<lparr>wire := wire ep @ [concat iov]\<rparr>)
              else if errno = ENOMEM then (- 1, ep)
              else if ret \<ge> 0 \<or> errno \<noteq> EAGAIN then (- 1, ep)
              else rtp_send_udp net iov tries ep))"

declare rtp_send_udp.simps [simp del]

text \<open>The loop of the interleaved transport: it goes on until everything is sent, an error, or 4000 ticks.\<close>

partial_function (option) tcp_loop ::
  "net \<Rightarrow> (nat \<Rightarrow> u32) \<Rightarrow> u32 \<Rightarrow> u8 list list \<Rightarrow> rtp_endpoint \<Rightarrow> (int \<times> rtp_endpoint) option" where
  "tcp_loop net clock start iov ep =
     (if iov = [] then Some (0, ep)
      else let ret = fst (net (calls ep) (length (concat iov)));
               errno = snd (net (calls ep) (length (concat iov)));
               now = clock (calls ep);
               ep = ep\<lparr>calls := calls ep + 1\<rparr>
           in if ret > 0 then
                tcp_loop net clock start (rtp_advance_iov iov (nat ret)) (ep\<lparr>stream := stream ep @ take (nat ret) (concat iov)\<rparr>)
              else if ret = 0 \<or> errno \<noteq> EAGAIN then Some (- 1, ep\<lparr>sendEnable := False\<rparr>)
              else if now - start \<ge> 4000 then Some (- 1, ep\<lparr>sendEnable := False\<rparr>)
              else tcp_loop net clock start iov ep)"

definition rtp_send_tcp :: "net \<Rightarrow> (nat \<Rightarrow> u32) \<Rightarrow> u8 list list \<Rightarrow> rtp_endpoint \<Rightarrow> (int \<times> rtp_endpoint) option" where
  "rtp_send_tcp net clock v ep =
     (if \<not> conn_ok ep then Some (- 1, ep)
      else if length v + 1 > 17 then Some (- 1, ep)
      else let payload_len = length (concat v)
           in if int payload_len > RTP_TCP_MAX_PACKET_SIZE then Some (- 1, ep)
              else tcp_loop net clock (clock (calls ep)) (([0x24, rtp_chan ep] @ PUT_16 (of_nat payload_len)) # v) ep)"

text \<open>The first buffer is filled with the header here; \<open>v\<close> are the others.\<close>

definition rtp_sendmsg ::
  "net \<Rightarrow> (nat \<Rightarrow> u32) \<Rightarrow> u8 list list \<Rightarrow> u32 \<Rightarrow> bool \<Rightarrow> int \<Rightarrow> rtp_endpoint \<Rightarrow> (int \<times> rtp_endpoint) option" where
  "rtp_sendmsg net clock v timestamp marker retries ep =
     (if \<not> sendEnable ep then Some (- 1, ep)
      else do {
        let (rtphdr, ep) = rtp_build_header timestamp marker ep;
        let payload_len = rtp_get_payload_len (rtphdr # v);
        (ret, ep) \<leftarrow>
          (if trans_type ep = RTP_TRANS_UDP then
             let (ret, ep) = rtp_send_udp net (rtphdr # v) (nat (if retries > 0 then retries else 10) + 1) ep
             in Some (ret, if ret < 0 then ep\<lparr>sendEnable := False\<rparr> else ep)
           else if trans_type ep = RTP_TRANS_INTER then rtp_send_tcp net clock (rtphdr # v) ep
           else Some (- 1, ep));
        Some (if ret < 0 then (- 1, ep)
              else (0, ep\<lparr>octet_count := octet_count ep + payload_len, packet_count := packet_count ep + 1,
                          seqnum := (seqnum ep + 1) AND 0xffff\<rparr>)) })"

text \<open>The loop the media run over the endpoints of the sessions that play.\<close>

fun endpoints_loop :: "(rtp_endpoint \<Rightarrow> rtp_endpoint option) \<Rightarrow> rtp_endpoint list \<Rightarrow> rtp_endpoint list option" where
  "endpoints_loop f [] = Some []"
| "endpoints_loop f (ep # eps) = do { ep \<leftarrow> f ep; eps \<leftarrow> endpoints_loop f eps; Some (ep # eps) }"

section \<open>Lemmas\<close>

lemma length_PUT [simp]: "length (PUT_16 v) = 2" "length (PUT_32 v) = 4"
  by (simp_all add: PUT_16_def PUT_32_def)

text \<open>Advancing the vector drops the bytes that are sent.\<close>

lemma rtp_advance_iov_concat: "concat (rtp_advance_iov iov n) = drop n (concat iov)"
  by (induction iov n rule: rtp_advance_iov.induct) auto

lemma rtp_advance_iov_shorter: "length (concat (rtp_advance_iov iov n)) = length (concat iov) - n"
  by (simp add: rtp_advance_iov_concat)

text \<open>What the loop of the interleaved transport puts into the connection: everything when it answers 0, else a
  beginning.\<close>

definition tcp_sent :: "u8 list list \<Rightarrow> rtp_endpoint \<Rightarrow> int \<times> rtp_endpoint \<Rightarrow> bool" where
  "tcp_sent iov ep res \<longleftrightarrow>
     (case res of (r, ep') \<Rightarrow> \<exists>pre rest. concat iov = pre @ rest \<and> stream ep' = stream ep @ pre
        \<and> (r = 0 \<and> rest = [] \<and> sendEnable ep' = sendEnable ep \<or> r = - 1 \<and> \<not> sendEnable ep')
        \<and> wire ep' = wire ep \<and> seqnum ep' = seqnum ep)"

lemma tcp_loop_sends:
  assumes "tcp_loop net clock start iov ep = Some res"
  shows "tcp_sent iov ep res"
proof (rule tcp_loop.raw_induct [OF _ assms, of "\<lambda>net clock start iov ep res. tcp_sent iov ep res"])
    fix loop :: "net \<Rightarrow> (nat \<Rightarrow> u32) \<Rightarrow> u32 \<Rightarrow> u8 list list \<Rightarrow> rtp_endpoint \<Rightarrow> (int \<times> rtp_endpoint) option"
      and net :: net and clock :: "nat \<Rightarrow> u32" and start :: u32 and iov :: "u8 list list" and ep :: rtp_endpoint
      and res :: "int \<times> rtp_endpoint"
    assume ih: "\<And>net clock start iov ep res. loop net clock start iov ep = Some res \<Longrightarrow> tcp_sent iov ep res"
      and eq: "(if iov = [] then Some (0, ep)
          else let ret = fst (net (calls ep) (length (concat iov)));
                   errno = snd (net (calls ep) (length (concat iov)));
                   now = clock (calls ep);
                   ep = ep\<lparr>calls := calls ep + 1\<rparr>
               in if ret > 0 then loop net clock start (rtp_advance_iov iov (nat ret)) (ep\<lparr>stream := stream ep @ take (nat ret) (concat iov)\<rparr>)
                  else if ret = 0 \<or> errno \<noteq> EAGAIN then Some (- 1, ep\<lparr>sendEnable := False\<rparr>)
                  else if now - start \<ge> 4000 then Some (- 1, ep\<lparr>sendEnable := False\<rparr>)
                  else loop net clock start iov ep) = Some res"
    let ?ret = "fst (net (calls ep) (length (concat iov)))"
    let ?ep = "ep\<lparr>calls := calls ep + 1\<rparr>"
    obtain r ep' where res: "res = (r, ep')" by (cases res)
    consider "iov = []" | "iov \<noteq> []" "?ret > 0" | "iov \<noteq> []" "?ret \<le> 0" by linarith
    then show "tcp_sent iov ep res"
    proof cases
      case 1
      then show ?thesis using eq by (auto simp: tcp_sent_def)
    next
      case 2
      let ?d = "take (nat ?ret) (concat iov)"
      have "loop net clock start (rtp_advance_iov iov (nat ?ret)) (?ep\<lparr>stream := stream ep @ ?d\<rparr>) = Some res"
        using eq 2 by (simp add: Let_def)
      from ih [OF this] obtain pre rest where d: "drop (nat ?ret) (concat iov) = pre @ rest"
          "stream ep' = (stream ep @ ?d) @ pre"
          "r = 0 \<and> rest = [] \<and> sendEnable ep' = sendEnable ep \<or> r = - 1 \<and> \<not> sendEnable ep'"
          "wire ep' = wire ep" "seqnum ep' = seqnum ep"
        unfolding res rtp_advance_iov_concat tcp_sent_def by auto
      have "concat iov = (?d @ pre) @ rest" using d(1) by (metis append.assoc append_take_drop_id)
      moreover have "stream ep' = stream ep @ (?d @ pre)" using d(2) by simp
      ultimately show ?thesis unfolding res tcp_sent_def using d(3-5) by blast
    next
      case 3
      show ?thesis
      proof (cases "?ret = 0 \<or> snd (net (calls ep) (length (concat iov))) \<noteq> EAGAIN \<or> clock (calls ep) - start \<ge> 4000")
        case True
        then have "res = (- 1, ?ep\<lparr>sendEnable := False\<rparr>)" using eq 3 by (auto simp: Let_def split: if_splits)
        then show ?thesis by (auto simp: tcp_sent_def)
      next
        case False
        then have "loop net clock start iov ?ep = Some res" using eq 3 by (simp add: Let_def)
        from ih [OF this] show ?thesis unfolding res tcp_sent_def by simp
      qed
    qed
qed

section \<open>Reading packets back\<close>

text \<open>Sequence number, marker and payload of a packet.\<close>

definition rtp_packet :: "u8 list \<Rightarrow> u32 \<times> bool \<times> u8 list" where
  "rtp_packet p = (GET_16 (drop 2 p), bit (p ! 1) 7, drop 12 p)"

definition interleaved :: "u8 \<Rightarrow> u8 list \<Rightarrow> u8 list" where
  "interleaved chan p = [0x24, chan] @ PUT_16 (of_nat (length p)) @ p"

function deframe :: "u8 list \<Rightarrow> u8 list list" where
  "deframe s = (if length s < 4 then []
     else let n = unat (GET_16 (drop 2 s)) in take n (drop 4 s) # deframe (drop (4 + n) s))"
  by pat_completeness auto
termination by (relation "measure length") (auto simp: Let_def)

declare deframe.simps [simp del]

lemma masks: "(0xff :: u32) = mask 8" "(0xffff :: u32) = mask 16"
  by (simp_all add: mask_eq_exp_minus_1)

lemma GET_16_PUT_16 [simp]: "GET_16 (PUT_16 v @ r) = v AND 0xffff"
  unfolding masks by (rule bit_eqI) (auto simp: GET_16_def PUT_16_def masks bit_simps nth_append)

lemma and_ffff_small: "x < 65536 \<Longrightarrow> x AND 0xffff = (x :: u32)"
  by (simp add: masks take_bit_eq_mask [symmetric] word_unat_eq_iff unsigned_take_bit_eq take_bit_nat_eq_self word_less_nat_alt)

lemma and_ffff_less: "x AND 0xffff < (65536 :: u32)"
  by (simp add: masks take_bit_eq_mask [symmetric] word_less_nat_alt unsigned_take_bit_eq take_bit_nat_eq_self)
    (simp add: take_bit_eq_mod)

lemma deframe_interleaved:
  assumes "length p < 65536"
  shows "deframe (interleaved chan p @ r) = p # deframe r"
proof -
  have "of_nat (length p) AND 0xffff = (of_nat (length p) :: u32)"
    using assms by (intro and_ffff_small) (simp add: word_less_nat_alt take_bit_nat_eq_self unsigned_of_nat)
  then have "unat (GET_16 (drop 2 (interleaved chan p @ r))) = length p"
    using assms by (simp add: interleaved_def unsigned_of_nat take_bit_nat_eq_self)
  then show ?thesis
    by (subst deframe.simps) (simp add: interleaved_def Let_def numeral_eq_Suc)
qed

definition framed :: "u8 list \<Rightarrow> bool" where
  "framed s \<longleftrightarrow> (\<exists>cps. (\<forall>(c, p) \<in> set cps. length p < 65536) \<and> s = concat (map (\<lambda>(c, p). interleaved c p) cps))"

lemma framed_deframe:
  assumes "framed s" "length p < 65536"
  shows "framed (s @ interleaved chan p) \<and> deframe (s @ interleaved chan p) = deframe s @ [p]"
proof -
  obtain cps where c: "\<forall>(c, p) \<in> set cps. length p < 65536" "s = concat (map (\<lambda>(c, p). interleaved c p) cps)"
    using assms(1) by (auto simp: framed_def)
  have "\<forall>(c, q) \<in> set (cps @ [(chan, p)]). length q < 65536" using c(1) assms(2) by auto
  then have "framed (s @ interleaved chan p)"
    unfolding framed_def using c(2) by (intro exI [of _ "cps @ [(chan, p)]"]) simp
  moreover have nil: "deframe [] = []" by (simp add: deframe.simps)
  have d: "deframe (concat (map (\<lambda>(c, p). interleaved c p) cps) @ r) = map snd cps @ deframe r" for r
    using c(1) by (induction cps) (auto simp: deframe_interleaved)
  have "deframe (interleaved chan p) = [p]" using deframe_interleaved [OF assms(2), of chan "[]"] nil by simp
  then have "deframe (s @ interleaved chan p) = deframe s @ [p]"
    using d [of "interleaved chan p"] d [of "[]"] c(2) nil by simp
  ultimately show ?thesis by blast
qed

section \<open>The transport as an interface\<close>

text \<open>
  What the packetisers of the media rely on: on an endpoint that is ready, sending a vector of non-empty buffers within
  the limit succeeds, the packet arrives with the next sequence number, and the endpoint stays ready.
\<close>

definition fits_packet :: "rtp_endpoint \<Rightarrow> u8 list list \<Rightarrow> bool" where
  "fits_packet ep v \<longleftrightarrow> v \<noteq> [] \<and> (\<forall>b \<in> set v. b \<noteq> []) \<and> length v \<le> 15
     \<and> int (length (concat v)) \<le> rtp_get_payload_size_limit ep RTP_HEADER_SIZE"

locale rtp_transport =
  fixes ready :: "net \<Rightarrow> rtp_endpoint \<Rightarrow> bool"
    and sent :: "rtp_endpoint \<Rightarrow> (u32 \<times> bool \<times> u8 list) list"
  assumes ready_enabled: "ready net ep \<Longrightarrow> sendEnable ep"
    and send_ready: "ready net ep \<Longrightarrow> fits_packet ep v \<Longrightarrow>
      \<exists>ep'. rtp_sendmsg net clock v ts m r ep = Some (0, ep') \<and> ready net ep'
        \<and> sent ep' = sent ep @ [(seqnum ep, m, concat v)] \<and> seqnum ep' = (seqnum ep + 1) AND 0xffff
        \<and> rtp_get_packet_size_limit ep' = rtp_get_packet_size_limit ep"

text \<open>The packets of a frame one after the other, up to the first that cannot be sent.\<close>

fun rtp_send_list ::
  "net \<Rightarrow> (nat \<Rightarrow> u32) \<Rightarrow> u32 \<Rightarrow> int \<Rightarrow> (u8 list list \<times> bool) list \<Rightarrow> rtp_endpoint \<Rightarrow> (int \<times> rtp_endpoint) option" where
  "rtp_send_list net clock ts r [] ep = Some (0, ep)"
| "rtp_send_list net clock ts r ((v, m) # ps) ep = do {
     (ret, ep) \<leftarrow> rtp_sendmsg net clock v ts m r ep;
     if ret < 0 then Some (- 1, ep\<lparr>sendEnable := False\<rparr>) else rtp_send_list net clock ts r ps ep }"

fun numbered :: "u32 \<Rightarrow> (u8 list list \<times> bool) list \<Rightarrow> (u32 \<times> bool \<times> u8 list) list" where
  "numbered s [] = []"
| "numbered s ((v, m) # ps) = (s, m, concat v) # numbered ((s + 1) AND 0xffff) ps"

lemma numbered_payloads [simp]: "map (\<lambda>(s, m, p). p) (numbered s ps) = map (\<lambda>(v, m). concat v) ps"
  by (induction s ps rule: numbered.induct) auto

lemma numbered_markers [simp]: "map (\<lambda>(s, m, p). m) (numbered s ps) = map snd ps"
  by (induction s ps rule: numbered.induct) auto

lemma numbered_append: "\<exists>s'. numbered s (ps @ qs) = numbered s ps @ numbered s' qs"
  by (induction s ps rule: numbered.induct) auto

context rtp_transport begin

lemma send_list_ready:
  assumes "ready net ep" "\<forall>(v, m) \<in> set ps. fits_packet ep v"
  shows "\<exists>ep'. rtp_send_list net clock ts r ps ep = Some (0, ep') \<and> ready net ep'
    \<and> sent ep' = sent ep @ numbered (seqnum ep) ps
    \<and> rtp_get_packet_size_limit ep' = rtp_get_packet_size_limit ep"
  using assms
proof (induction ps arbitrary: ep)
  case (Cons vm ps)
  obtain v m where vm: "vm = (v, m)" by (cases vm)
  obtain ep1 where s: "rtp_sendmsg net clock v ts m r ep = Some (0, ep1)" "ready net ep1"
      "sent ep1 = sent ep @ [(seqnum ep, m, concat v)]" "seqnum ep1 = (seqnum ep + 1) AND 0xffff"
      "rtp_get_packet_size_limit ep1 = rtp_get_packet_size_limit ep"
    using send_ready [OF Cons.prems(1), of v clock ts m r] Cons.prems(2) vm by auto
  have "\<forall>(v, m) \<in> set ps. fits_packet ep1 v"
    using Cons.prems(2) s(5) by (auto simp: fits_packet_def rtp_get_payload_size_limit_def)
  from Cons.IH [OF s(2) this] s show ?case by (auto simp: vm)
qed simp

end

text \<open>Over UDP, on a network that takes every datagram.\<close>

definition udp_ready :: "net \<Rightarrow> rtp_endpoint \<Rightarrow> bool" where
  "udp_ready net ep \<longleftrightarrow> trans_type ep = RTP_TRANS_UDP \<and> sendEnable ep \<and> seqnum ep < 65536 \<and> \<not> bit (ep_payload ep) 7
     \<and> (\<forall>k n. fst (net k n) = int n)"

definition udp_sent :: "rtp_endpoint \<Rightarrow> (u32 \<times> bool \<times> u8 list) list" where
  "udp_sent ep = map rtp_packet (wire ep)"

text \<open>Interleaved, on a connection that takes some bytes at every call.\<close>

definition tcp_ready :: "net \<Rightarrow> rtp_endpoint \<Rightarrow> bool" where
  "tcp_ready net ep \<longleftrightarrow> trans_type ep = RTP_TRANS_INTER \<and> sendEnable ep \<and> conn_ok ep \<and> seqnum ep < 65536
     \<and> \<not> bit (ep_payload ep) 7 \<and> framed (stream ep)
     \<and> (\<forall>k n. 0 < n \<longrightarrow> 0 < fst (net k n) \<and> fst (net k n) \<le> int n)"

definition tcp_sent_packets :: "rtp_endpoint \<Rightarrow> (u32 \<times> bool \<times> u8 list) list" where
  "tcp_sent_packets ep = map rtp_packet (deframe (stream ep))"

definition rtp_header :: "rtp_endpoint \<Rightarrow> u32 \<Rightarrow> bool \<Rightarrow> u8 list" where
  "rtp_header ep ts m = fst (rtp_build_header ts m ep)"

lemma rtp_build_header_eq:
  "rtp_build_header ts m ep = (rtp_header ep ts m, ep\<lparr>last_timestamp := start_timestamp ep + ts\<rparr>)"
  by (simp add: rtp_header_def rtp_build_header_def Let_def)

lemma length_rtp_header [simp]: "length (rtp_header ep ts m) = 12"
  by (simp add: rtp_header_def rtp_build_header_def Let_def)

lemma rtp_packet_header:
  assumes "seqnum ep < 65536" "\<not> bit (ep_payload ep) 7"
  shows "rtp_packet (rtp_header ep ts m @ p) = (seqnum ep, m, p)"
  using assms by (simp add: rtp_packet_def rtp_header_def rtp_build_header_def Let_def and_ffff_small bit_simps numeral_eq_Suc)

lemma rtp_send_udp_takes:
  assumes "\<forall>k n. fst (net k n) = int n" "0 < tries"
  shows "rtp_send_udp net iov tries ep = (0, ep\<lparr>calls := calls ep + 1, wire := wire ep @ [concat iov]\<rparr>)"
  using assms by (subst rtp_send_udp.simps) (simp add: case_prod_beta split: nat.split)

lemma udp_sendmsg:
  assumes "udp_ready net ep"
  shows "\<exists>ep'. rtp_sendmsg net clock v ts m r ep = Some (0, ep') \<and> udp_ready net ep'
    \<and> udp_sent ep' = udp_sent ep @ [(seqnum ep, m, concat v)] \<and> seqnum ep' = (seqnum ep + 1) AND 0xffff
    \<and> rtp_get_packet_size_limit ep' = rtp_get_packet_size_limit ep"
proof -
  let ?h = "rtp_header ep ts m" and ?ep = "ep\<lparr>last_timestamp := start_timestamp ep + ts\<rparr>"
  have "rtp_sendmsg net clock v ts m r ep = Some (0, ?ep\<lparr>calls := calls ep + 1, wire := wire ep @ [?h @ concat v],
      octet_count := octet_count ep + rtp_get_payload_len (?h # v), packet_count := packet_count ep + 1,
      seqnum := (seqnum ep + 1) AND 0xffff\<rparr>)"
    using assms by (simp add: udp_ready_def rtp_sendmsg_def rtp_build_header_eq rtp_send_udp_takes)
  then show ?thesis using assms
    by (auto simp: udp_ready_def udp_sent_def rtp_packet_header and_ffff_less rtp_get_packet_size_limit_def)
qed

lemma tcp_loop_completes:
  assumes p: "\<forall>k n. 0 < n \<longrightarrow> 0 < fst (net k n) \<and> fst (net k n) \<le> int n" and b: "\<forall>b \<in> set iov. b \<noteq> []"
  shows "\<exists>c. tcp_loop net clock start iov ep = Some (0, ep\<lparr>calls := c, stream := stream ep @ concat iov\<rparr>)"
  using b
proof (induction "length (concat iov)" arbitrary: iov ep rule: less_induct)
  case less
  show ?case
  proof (cases iov)
    case Nil
    then show ?thesis by (subst tcp_loop.simps) (auto intro!: exI [of _ "calls ep"])
  next
    case (Cons b bs)
    then have n: "0 < length (concat iov)" using less.prems by simp
    let ?ret = "fst (net (calls ep) (length (concat iov)))"
    have r: "0 < ?ret" "?ret \<le> int (length (concat iov))" using p n by auto
    let ?iov = "rtp_advance_iov iov (nat ?ret)"
    let ?ep = "ep\<lparr>calls := calls ep + 1, stream := stream ep @ take (nat ?ret) (concat iov)\<rparr>"
    have l: "length (concat ?iov) < length (concat iov)" using r n by (simp add: rtp_advance_iov_shorter)
    have "b \<in> set (rtp_advance_iov iov k) \<Longrightarrow> b \<noteq> []" for b k
      using less.prems by (induction iov k rule: rtp_advance_iov.induct) (auto split: if_splits)
    then obtain c where "tcp_loop net clock start ?iov ?ep = Some (0, ?ep\<lparr>calls := c, stream := stream ?ep @ concat ?iov\<rparr>)"
      using less.hyps [OF l, of ?ep] by blast
    then have "tcp_loop net clock start iov ep = Some (0, ep\<lparr>calls := c, stream := stream ep @ concat iov\<rparr>)"
      using r(1) Cons by (subst tcp_loop.simps) (simp add: Let_def rtp_advance_iov_concat)
    then show ?thesis by blast
  qed
qed

lemma tcp_sendmsg:
  assumes t: "tcp_ready net ep" and f: "fits_packet ep v"
  shows "\<exists>ep'. rtp_sendmsg net clock v ts m r ep = Some (0, ep') \<and> tcp_ready net ep'
    \<and> tcp_sent_packets ep' = tcp_sent_packets ep @ [(seqnum ep, m, concat v)] \<and> seqnum ep' = (seqnum ep + 1) AND 0xffff
    \<and> rtp_get_packet_size_limit ep' = rtp_get_packet_size_limit ep"
proof -
  let ?h = "rtp_header ep ts m" and ?ep = "ep\<lparr>last_timestamp := start_timestamp ep + ts\<rparr>"
  let ?p = "?h @ concat v"
  have l: "length v \<le> 15" "length (concat v) \<le> 16372"
    using t f by (auto simp: tcp_ready_def fits_packet_def rtp_get_payload_size_limit_def rtp_get_packet_size_limit_def)
  have e: "concat (([0x24, rtp_chan ep] @ PUT_16 (of_nat (length ?p))) # ?h # v) = interleaved (rtp_chan ep) ?p"
    by (simp add: interleaved_def)
  have "\<forall>b \<in> set (([0x24, rtp_chan ep] @ PUT_16 (of_nat (length ?p))) # ?h # v). b \<noteq> []"
    using f by (auto simp: fits_packet_def) (metis length_rtp_header list.size(3) zero_neq_numeral)
  from tcp_loop_completes [OF _ this, of net clock "clock (calls ep)" ?ep]
  obtain c where c: "tcp_loop net clock (clock (calls ep)) (([0x24, rtp_chan ep] @ PUT_16 (of_nat (length ?p))) # ?h # v) ?ep
      = Some (0, ?ep\<lparr>calls := c, stream := stream ep @ interleaved (rtp_chan ep) ?p\<rparr>)"
    using t unfolding e by (auto simp: tcp_ready_def)
  have q: "length ?p < 65536" using l by simp
  have "rtp_sendmsg net clock v ts m r ep = Some (0, ?ep\<lparr>calls := c, stream := stream ep @ interleaved (rtp_chan ep) ?p,
      octet_count := octet_count ep + rtp_get_payload_len (?h # v), packet_count := packet_count ep + 1,
      seqnum := (seqnum ep + 1) AND 0xffff\<rparr>)"
    using t l c by (simp add: rtp_sendmsg_def rtp_build_header_eq rtp_send_tcp_def tcp_ready_def)
  then show ?thesis
    using t framed_deframe [OF _ q, of "stream ep" "rtp_chan ep"]
    by (auto simp: tcp_ready_def tcp_sent_packets_def rtp_packet_header and_ffff_less rtp_get_packet_size_limit_def)
qed

interpretation udp: rtp_transport udp_ready udp_sent
proof
  show "udp_ready net ep \<Longrightarrow> sendEnable ep" for net ep by (simp add: udp_ready_def)
  show "udp_ready net ep \<Longrightarrow> fits_packet ep v \<Longrightarrow> \<exists>ep'. rtp_sendmsg net clock v ts m r ep = Some (0, ep') \<and> udp_ready net ep'
    \<and> udp_sent ep' = udp_sent ep @ [(seqnum ep, m, concat v)] \<and> seqnum ep' = (seqnum ep + 1) AND 0xffff
    \<and> rtp_get_packet_size_limit ep' = rtp_get_packet_size_limit ep" for net ep v clock ts m r
    by (rule udp_sendmsg)
qed

interpretation tcp: rtp_transport tcp_ready tcp_sent_packets
proof
  show "tcp_ready net ep \<Longrightarrow> sendEnable ep" for net ep by (simp add: tcp_ready_def)
  show "tcp_ready net ep \<Longrightarrow> fits_packet ep v \<Longrightarrow> \<exists>ep'. rtp_sendmsg net clock v ts m r ep = Some (0, ep') \<and> tcp_ready net ep'
    \<and> tcp_sent_packets ep' = tcp_sent_packets ep @ [(seqnum ep, m, concat v)] \<and> seqnum ep' = (seqnum ep + 1) AND 0xffff
    \<and> rtp_get_packet_size_limit ep' = rtp_get_packet_size_limit ep" for net ep v clock ts m r
    by (rule tcp_sendmsg)
qed

section \<open>Examples\<close>

text \<open>A network that takes everything, a connection that takes one byte at a time, and an endpoint, for the witnesses.\<close>

definition demo_net :: net where
  "demo_net k n = (int n, 0)"

definition demo_ep :: "int \<Rightarrow> int \<Rightarrow> rtp_endpoint" where
  "demo_ep transport limit = \<lparr>ep_payload = 96, max_data_size = limit, ssrc = 7, start_timestamp = 0, last_timestamp = 0,
     seqnum = 65535, packet_count = 0, octet_count = 0, trans_type = transport, sendEnable = True, conn_ok = True, rtp_chan = 2,
     calls = 0, wire = [], stream = []\<rparr>"

definition slow_net :: net where
  "slow_net k n = (1, 0)"

lemma udp_ready_demo: "udp_ready demo_net (demo_ep RTP_TRANS_UDP limit)"
  by (simp add: udp_ready_def demo_ep_def demo_net_def)

lemma tcp_ready_demo: "tcp_ready slow_net (demo_ep RTP_TRANS_INTER limit)"
proof -
  have "framed []" unfolding framed_def by (rule exI [of _ "[]"]) simp
  then show ?thesis by (simp add: tcp_ready_def demo_ep_def slow_net_def)
qed

lemma demo_ep_empty: "wire (demo_ep transport limit) = []" "deframe (stream (demo_ep transport limit)) = []"
  by (simp_all add: demo_ep_def deframe.simps)

end
