(* ===== verification/RtpH264.thy ===== *)
theory RtpH264
  imports Rtp
begin

text \<open>
  H.264 over RTP, \<open>sdk/app/spook/rtp-h264.c\<close>: a NAL unit goes out as it is or in FU-A fragments, SPS and PPS in one
  STAP-A packet, and the stream resumes after a lost frame with the next I frame. The receiver of RFC 6184 is written
  down as the specification the packets are measured with.
\<close>

unbundle bit_operations_syntax

section \<open>Packets\<close>

text \<open>The loop over the fragments. The code gets here with room for more than the two bytes of the FU header.\<close>

function fu_loop ::
  "net \<Rightarrow> (nat \<Rightarrow> u32) \<Rightarrow> u32 \<Rightarrow> u8 list \<Rightarrow> bool \<Rightarrow> int \<Rightarrow> nat \<Rightarrow> nat \<Rightarrow> rtp_endpoint \<Rightarrow> (int \<times> rtp_endpoint) option" where
  "fu_loop net clock timestamp nalu marker retries max_payload offset ep =
     (if offset < length nalu \<and> 2 < max_payload then
        let chunk = (if length nalu - offset > max_payload - 2 then max_payload - 2 else length nalu - offset);
            fu0 = (nalu ! 0 AND 0xE0) OR 28;
            fu1 = nalu ! 0 AND 0x1F;
            fu1 = (if offset = 1 then fu1 OR 0x80 else fu1);
            fu1 = (if offset + chunk \<ge> length nalu then fu1 OR 0x40 else fu1)
        in do {
             (ret, ep) \<leftarrow> rtp_sendmsg net clock [[fu0, fu1], take chunk (drop offset nalu)] timestamp
                            (if offset + chunk \<ge> length nalu then marker else False) retries ep;
             if ret < 0 then Some (- 1, ep\<lparr>sendEnable := False\<rparr>)
             else fu_loop net clock timestamp nalu marker retries max_payload (offset + chunk) ep }
      else Some (0, ep))"
  by pat_completeness auto
termination
  by (relation "measure (\<lambda>(net, clock, timestamp, nalu, marker, retries, max_payload, offset, ep). length nalu - offset)")
    (auto split: if_splits)

declare fu_loop.simps [simp del]

definition h264_send_nalu ::
  "net \<Rightarrow> (nat \<Rightarrow> u32) \<Rightarrow> u32 \<Rightarrow> u8 list \<Rightarrow> bool \<Rightarrow> int \<Rightarrow> int \<Rightarrow> rtp_endpoint \<Rightarrow> (int \<times> rtp_endpoint) option" where
  "h264_send_nalu net clock timestamp nalu marker retries max_payload ep =
     (if \<not> sendEnable ep \<or> nalu = [] then Some (- 1, ep)
      else if int (length nalu) \<le> max_payload then do {
        (ret, ep) \<leftarrow> rtp_sendmsg net clock [nalu] timestamp marker retries ep;
        if ret < 0 then Some (- 1, ep\<lparr>sendEnable := False\<rparr>) else Some (0, ep) }
      else if length nalu \<le> 1 \<or> max_payload \<le> 2 then Some (- 1, ep\<lparr>sendEnable := False\<rparr>)
      else fu_loop net clock timestamp nalu marker retries (nat max_payload) 1 ep)"

definition h264_send_nalu_to_endpoint ::
  "net \<Rightarrow> (nat \<Rightarrow> u32) \<Rightarrow> u32 \<Rightarrow> u8 list \<Rightarrow> bool \<Rightarrow> int \<Rightarrow> rtp_endpoint \<Rightarrow> rtp_endpoint option" where
  "h264_send_nalu_to_endpoint net clock timestamp nalu marker retries ep =
     (if \<not> sendEnable ep then Some ep
      else let max_payload = rtp_get_payload_size_limit ep RTP_HEADER_SIZE
           in if max_payload \<le> 0 then Some (ep\<lparr>sendEnable := False\<rparr>)
              else do {
                (ret, ep) \<leftarrow> h264_send_nalu net clock timestamp nalu marker retries max_payload ep;
                Some (if ret < 0 then ep\<lparr>sendEnable := False\<rparr> else ep) })"

text \<open>The private data of a frame; the lengths of the parameter sets have 16 bits. NULL is an empty set here, the code
  treats both alike.\<close>

record fb_h264_s =
  h_sps :: "u8 list"
  h_pps :: "u8 list"
  h_count :: u8
  h_type :: u8
  h_start_len :: u8

definition h264_send_sps_pps ::
  "net \<Rightarrow> (nat \<Rightarrow> u32) \<Rightarrow> u32 \<Rightarrow> fb_h264_s \<Rightarrow> int \<Rightarrow> rtp_endpoint \<Rightarrow> rtp_endpoint option" where
  "h264_send_sps_pps net clock timestamp h264 retries ep =
     (if \<not> sendEnable ep \<or> h_sps h264 = [] \<or> h_pps h264 = [] then Some ep
      else let max_payload = rtp_get_payload_size_limit ep RTP_HEADER_SIZE;
               stap_payload_len = 1 + 2 + length (h_sps h264) + 2 + length (h_pps h264)
           in if max_payload \<le> 0 then Some (ep\<lparr>sendEnable := False\<rparr>)
              else if int stap_payload_len > max_payload then do {
                ep \<leftarrow> h264_send_nalu_to_endpoint net clock timestamp (h_sps h264) False retries ep;
                if sendEnable ep then h264_send_nalu_to_endpoint net clock timestamp (h_pps h264) False retries ep
                else Some ep }
              else do {
                (ret, ep) \<leftarrow> rtp_sendmsg net clock
                  [[(h_sps h264 ! 0 AND 0xE0) OR 24], PUT_16 (of_nat (length (h_sps h264))), h_sps h264,
                   PUT_16 (of_nat (length (h_pps h264))), h_pps h264] timestamp False retries ep;
                Some (if ret < 0 then ep\<lparr>sendEnable := False\<rparr> else ep) })"

section \<open>Frames\<close>

record rtp_h264 =
  timestamp :: u32
  first_flag :: bool
  last_count :: u8

text \<open>A frame buffer: its data and its private data.\<close>

record h264_fb =
  fb_data :: "u8 list"
  fb_priv :: "fb_h264_s option"

definition h264_process_frame :: "u32 \<Rightarrow> u32 \<Rightarrow> rtp_h264 \<Rightarrow> rtp_h264" where
  "h264_process_frame f_timestamp sample_rate out = out\<lparr>timestamp := f_timestamp * (sample_rate div 1000)\<rparr>"

text \<open>Whether the frame may go out: an I frame always may, another one only directly after the frame before it.\<close>

text \<open>\<open>nalu_len\<close> is unsigned: a frame that is shorter than its start code passes the guard, with a length that has
  wrapped around.\<close>

definition h264_gate :: "rtp_h264 \<Rightarrow> fb_h264_s \<Rightarrow> nat \<Rightarrow> bool \<times> rtp_h264" where
  "h264_gate out h264 fb_len =
     (let out = (if h_type h264 = 1 then out\<lparr>first_flag := True\<rparr>
                 else if last_count out \<noteq> h_count h264 then out\<lparr>first_flag := False\<rparr>
                 else out)
      in if \<not> first_flag out then (False, out)
         else if of_nat fb_len - ucast (h_start_len h264) = (0 :: u32) then (False, out)
         else (True, out\<lparr>last_count := h_count h264 + 1\<rparr>))"

text \<open>One endpoint of the loop; without a NAL unit inside the frame (None), reading it has no result.\<close>

definition h264_to_endpoint ::
  "net \<Rightarrow> (nat \<Rightarrow> u32) \<Rightarrow> u32 \<Rightarrow> fb_h264_s \<Rightarrow> u8 list option \<Rightarrow> rtp_endpoint \<Rightarrow> rtp_endpoint option" where
  "h264_to_endpoint net clock ts h264 nalu ep =
     (if \<not> sendEnable ep then Some ep
      else do {
        ep \<leftarrow> (if h_type h264 = 1 then h264_send_sps_pps net clock ts h264 30 ep else Some ep);
        ep \<leftarrow> (if sendEnable ep then do {
                  nalu \<leftarrow> nalu;
                  h264_send_nalu_to_endpoint net clock ts nalu True 30 ep }
                else Some ep);
        Some (ep\<lparr>sendEnable := True\<rparr>) })"

text \<open>\<open>eps\<close>: the endpoints of the sessions that play, which the search function of the caller walks through.\<close>

definition h264_send_more ::
  "net \<Rightarrow> (nat \<Rightarrow> u32) \<Rightarrow> h264_fb \<Rightarrow> rtp_h264 \<Rightarrow> rtp_endpoint list \<Rightarrow> (int \<times> rtp_h264 \<times> rtp_endpoint list) option" where
  "h264_send_more net clock fb out eps =
     (if fb_data fb = [] then Some (- 1, out, eps)
      else case fb_priv fb of
        None \<Rightarrow> Some (0, out, eps)
      | Some h264 \<Rightarrow>
          let (ok, out) = h264_gate out h264 (length (fb_data fb))
          in if \<not> ok then Some (- 1, out, eps)
             else do {
               let start_len = unat (h_start_len h264);
               let nalu = (if start_len \<le> length (fb_data fb) then Some (drop start_len (fb_data fb)) else None);
               eps \<leftarrow> endpoints_loop (h264_to_endpoint net clock (timestamp out) h264 nalu) eps;
               Some (0, out, eps) })"

section \<open>The receiver\<close>

text \<open>RFC 6184, packetization mode 1: single NAL units, STAP-A (24) and FU-A (28).\<close>

definition nal_type :: "u8 \<Rightarrow> u8" where
  "nal_type b = b AND 0x1F"

function stap_units :: "u8 list \<Rightarrow> u8 list list option" where
  "stap_units s =
     (if s = [] then Some []
      else if length s < 2 then None
      else let n = unat (GET_16 s)
           in if length s < 2 + n then None
              else do { us \<leftarrow> stap_units (drop (2 + n) s); Some (take n (drop 2 s) # us) })"
  by pat_completeness auto
termination by (relation "measure length") (auto simp: Let_def)

declare stap_units.simps [simp del]

fun h264_depay :: "u8 list option \<Rightarrow> u8 list list \<Rightarrow> u8 list list option" where
  "h264_depay cur [] = (if cur = None then Some [] else None)"
| "h264_depay cur ([] # ps) = None"
| "h264_depay cur ((h # r) # ps) =
     (if nal_type h = 28 then
        (case r of [] \<Rightarrow> None
         | fh # d \<Rightarrow>
             case (if bit fh 7 then Some (((h AND 0xE0) OR (fh AND 0x1F)) # d) else map_option (\<lambda>c. c @ d) cur) of
               None \<Rightarrow> None
             | Some c \<Rightarrow> if bit fh 6 then map_option ((#) c) (h264_depay None ps) else h264_depay (Some c) ps)
      else if cur \<noteq> None then None
      else if nal_type h = 24 then do { us \<leftarrow> stap_units r; rest \<leftarrow> h264_depay None ps; Some (us @ rest) }
      else map_option ((#) (h # r)) (h264_depay None ps))"

section \<open>Fragments reassemble\<close>

text \<open>The fragments as a list of packets.\<close>

definition fu_chunk :: "u8 list \<Rightarrow> nat \<Rightarrow> nat \<Rightarrow> nat" where
  "fu_chunk nalu max_payload offset = min (length nalu - offset) (max_payload - 2)"

definition fu_vec :: "u8 list \<Rightarrow> nat \<Rightarrow> nat \<Rightarrow> u8 list list" where
  "fu_vec nalu max_payload offset =
     [[(nalu ! 0 AND 0xE0) OR 28,
       (nalu ! 0 AND 0x1F) OR (if offset = 1 then 0x80 else 0)
         OR (if offset + fu_chunk nalu max_payload offset \<ge> length nalu then 0x40 else 0)],
      take (fu_chunk nalu max_payload offset) (drop offset nalu)]"

function fu_packets :: "u8 list \<Rightarrow> bool \<Rightarrow> nat \<Rightarrow> nat \<Rightarrow> (u8 list list \<times> bool) list" where
  "fu_packets nalu marker max_payload offset =
     (if offset < length nalu \<and> 2 < max_payload
      then (fu_vec nalu max_payload offset, offset + fu_chunk nalu max_payload offset \<ge> length nalu \<and> marker)
           # fu_packets nalu marker max_payload (offset + fu_chunk nalu max_payload offset)
      else [])"
  by pat_completeness auto
termination
  by (relation "measure (\<lambda>(nalu, marker, max_payload, offset). length nalu - offset)") (auto simp: fu_chunk_def)

declare fu_packets.simps [simp del]

lemma fu_loop_step:
  "fu_loop net clock ts nalu marker retries mp offset ep =
     (if offset < length nalu \<and> 2 < mp
      then do {
        (ret, ep) \<leftarrow> rtp_sendmsg net clock (fu_vec nalu mp offset) ts (offset + fu_chunk nalu mp offset \<ge> length nalu \<and> marker) retries ep;
        if ret < 0 then Some (- 1, ep\<lparr>sendEnable := False\<rparr>)
        else fu_loop net clock ts nalu marker retries mp (offset + fu_chunk nalu mp offset) ep }
      else Some (0, ep))"
proof -
  have c: "(if length nalu - offset > mp - 2 then mp - 2 else length nalu - offset) = fu_chunk nalu mp offset"
    by (simp add: fu_chunk_def)
  have m: "(if b then marker else False) = (b \<and> marker)" for b by simp
  have v: "[[(nalu ! 0 AND 0xE0) OR 28,
        if offset + fu_chunk nalu mp offset \<ge> length nalu
        then (if offset = 1 then nalu ! 0 AND 0x1F OR 0x80 else nalu ! 0 AND 0x1F) OR 0x40
        else (if offset = 1 then nalu ! 0 AND 0x1F OR 0x80 else nalu ! 0 AND 0x1F)],
       take (fu_chunk nalu mp offset) (drop offset nalu)] = fu_vec nalu mp offset"
    by (simp add: fu_vec_def or.assoc)
  show ?thesis by (subst fu_loop.simps) (simp only: c m Let_def v)
qed

lemma fu_loop_packets:
  "fu_loop net clock ts nalu marker retries mp offset ep = rtp_send_list net clock ts retries (fu_packets nalu marker mp offset) ep"
proof (induction nalu marker mp offset arbitrary: ep rule: fu_packets.induct)
  case (1 nalu marker mp offset)
  show ?case
  proof (cases "offset < length nalu \<and> 2 < mp")
    case True
    then show ?thesis by (subst fu_loop_step, subst fu_packets.simps) (simp add: "1.IH" [OF True] cong: if_cong)
  next
    case False
    then show ?thesis by (subst fu_loop_step, subst fu_packets.simps) auto
  qed
qed

definition fu_hdr :: "u8 \<Rightarrow> bool \<Rightarrow> bool \<Rightarrow> u8" where
  "fu_hdr x s e = (x AND 0x1F) OR (if s then 0x80 else 0) OR (if e then 0x40 else 0)"

lemma fu_header_bits:
  "nal_type ((x AND 0xE0) OR 28) = 28"
  "(((x AND 0xE0) OR 28) AND 0xE0) OR (fu_hdr x s e AND 0x1F) = x"
  "bit (fu_hdr x s e) 7 = s" "bit (fu_hdr x s e) 6 = e"
proof -
  have r: "(x AND 0xE0) OR (x AND 0x1F) = x"
  proof -
    have "(x AND 0xE0) OR (x AND 0x1F) = x AND (0xE0 OR 0x1F)" by (simp only: bit.conj_disj_distrib)
    also have "(0xE0 OR 0x1F :: u8) = - 1" by simp
    finally show ?thesis by simp
  qed
  have k: "fu_hdr x s e AND 0x1F = x AND 0x1F"
    by (simp add: fu_hdr_def bit.conj_disj_distrib2 and.assoc)
  show "nal_type ((x AND 0xE0) OR 28) = 28"
    by (simp add: nal_type_def bit.conj_disj_distrib2 and.assoc)
  have "((x AND 0xE0) OR 28) AND 0xE0 = x AND 0xE0" by (simp add: bit.conj_disj_distrib2 and.assoc)
  then show "(((x AND 0xE0) OR 28) AND 0xE0) OR (fu_hdr x s e AND 0x1F) = x" using r k by simp
  have n: "\<not> bit (x AND 0x1F) 7" "\<not> bit (x AND 0x1F) 6" by (simp_all add: bit_and_iff)
  have c: "bit (0x80 :: u8) 7" "\<not> bit (0x80 :: u8) 6" "bit (0x40 :: u8) 6" "\<not> bit (0x40 :: u8) 7" by simp_all
  show "bit (fu_hdr x s e) 7 = s" "bit (fu_hdr x s e) 6 = e"
    using n c by (simp_all add: fu_hdr_def bit_or_iff)
qed

lemma fu_vec_eq: "fu_vec nalu mp offset =
  [[(nalu ! 0 AND 0xE0) OR 28, fu_hdr (nalu ! 0) (offset = 1) (offset + fu_chunk nalu mp offset \<ge> length nalu)],
   take (fu_chunk nalu mp offset) (drop offset nalu)]"
  by (simp add: fu_vec_def fu_hdr_def)

lemma fu_reassemble:
  assumes "0 < offset" "offset < length nalu" "2 < mp"
  shows "h264_depay (if offset = 1 then None else Some (take offset nalu)) (map (\<lambda>(v, m). concat v) (fu_packets nalu marker mp offset) @ rest)
    = map_option ((#) nalu) (h264_depay None rest)"
  using assms
proof (induction nalu marker mp offset rule: fu_packets.induct)
  case (1 nalu marker mp offset)
  let ?c = "fu_chunk nalu mp offset"
  have c: "0 < ?c" "offset + ?c \<le> length nalu" using 1(3, 4) by (auto simp: fu_chunk_def)
  have t: "take offset nalu @ take ?c (drop offset nalu) = take (offset + ?c) nalu" by (simp add: take_add)
  have h: "offset = 1 \<Longrightarrow> nalu ! 0 # take ?c (drop offset nalu) = take (offset + ?c) nalu"
    using t 1(3) by (cases nalu) auto
  show ?case
  proof (cases "offset + ?c \<ge> length nalu")
    case True
    then have e: "fu_packets nalu marker mp (offset + ?c) = []" by (simp add: fu_packets.simps)
    show ?thesis using 1(2-4) True c t h
      by (subst fu_packets.simps) (simp add: e fu_vec_eq fu_header_bits split: option.split)
  next
    case False
    then have ih: "h264_depay (Some (take (offset + ?c) nalu)) (map (\<lambda>(v, m). concat v) (fu_packets nalu marker mp (offset + ?c)) @ rest)
        = map_option ((#) nalu) (h264_depay None rest)"
      using "1.IH" 1(2-4) c by auto
    show ?thesis using 1(2-4) False c t h ih
      by (cases "offset = 1"; subst fu_packets.simps) (simp_all add: fu_vec_eq fu_header_bits)
  qed
qed

section \<open>What is sent\<close>

text \<open>The packets of a NAL unit, of the parameter sets and of a frame.\<close>

definition nalu_packets :: "u8 list \<Rightarrow> bool \<Rightarrow> nat \<Rightarrow> (u8 list list \<times> bool) list" where
  "nalu_packets nalu marker mp = (if length nalu \<le> mp then [([nalu], marker)] else fu_packets nalu marker mp 1)"

definition stap_vec :: "fb_h264_s \<Rightarrow> u8 list list" where
  "stap_vec h264 = [[(h_sps h264 ! 0 AND 0xE0) OR 24], PUT_16 (of_nat (length (h_sps h264))), h_sps h264,
     PUT_16 (of_nat (length (h_pps h264))), h_pps h264]"

definition sps_pps_packets :: "fb_h264_s \<Rightarrow> nat \<Rightarrow> (u8 list list \<times> bool) list" where
  "sps_pps_packets h264 mp =
     (if 5 + length (h_sps h264) + length (h_pps h264) > mp
      then nalu_packets (h_sps h264) False mp @ nalu_packets (h_pps h264) False mp
      else [(stap_vec h264, False)])"

definition frame_packets :: "fb_h264_s \<Rightarrow> u8 list \<Rightarrow> nat \<Rightarrow> (u8 list list \<times> bool) list" where
  "frame_packets h264 nalu mp = (if h_type h264 = 1 then sps_pps_packets h264 mp else []) @ nalu_packets nalu True mp"

abbreviation payloads :: "(u8 list list \<times> bool) list \<Rightarrow> u8 list list" where
  "payloads ps \<equiv> map (\<lambda>(v, m). concat v) ps"

text \<open>A NAL unit that can be sent: not empty, and of a type the packetization does not use for itself.\<close>

definition plain_nalu :: "u8 list \<Rightarrow> bool" where
  "plain_nalu nalu \<longleftrightarrow> nalu \<noteq> [] \<and> nal_type (hd nalu) \<noteq> 24 \<and> nal_type (hd nalu) \<noteq> 28"

lemma nalu_packets_depay:
  assumes "plain_nalu nalu" "2 < mp"
  shows "h264_depay None (payloads (nalu_packets nalu marker mp) @ rest) = map_option ((#) nalu) (h264_depay None rest)"
proof (cases "length nalu \<le> mp")
  case True
  then show ?thesis using assms(1) by (cases nalu) (simp_all add: nalu_packets_def plain_nalu_def)
next
  case False
  then show ?thesis using fu_reassemble [of 1 nalu mp marker rest] assms(2) by (simp add: nalu_packets_def)
qed

lemma stap_units_cons:
  assumes "length u < 65536"
  shows "stap_units (PUT_16 (of_nat (length u)) @ u @ r) = map_option ((#) u) (stap_units r)"
proof -
  have "of_nat (length u) AND 0xffff = (of_nat (length u) :: u32)"
    using assms by (intro and_ffff_small) (simp add: word_less_nat_alt take_bit_nat_eq_self unsigned_of_nat)
  then have n: "unat (GET_16 (PUT_16 (of_nat (length u)) @ u @ r)) = length u"
    using assms by (simp add: unsigned_of_nat take_bit_nat_eq_self)
  have p: "\<exists>a b. PUT_16 v = [a, b]" for v by (simp add: PUT_16_def)
  then obtain a b where ab: "PUT_16 (of_nat (length u)) = [a, b]" by blast
  show ?thesis using n unfolding ab
    by (cases "stap_units r"; subst stap_units.simps) (simp_all add: Let_def numeral_eq_Suc)
qed

lemma stap_depay:
  assumes "h_sps h264 \<noteq> []" "length (h_sps h264) < 65536" "length (h_pps h264) < 65536"
  shows "h264_depay None (concat (stap_vec h264) # rest)
    = map_option (\<lambda>us. h_sps h264 # h_pps h264 # us) (h264_depay None rest)"
proof -
  have t: "nal_type ((h_sps h264 ! 0 AND 0xE0) OR 24) = 24"
    by (simp add: nal_type_def bit.conj_disj_distrib2 and.assoc)
  have "stap_units [] = Some []" by (simp add: stap_units.simps)
  then have "stap_units (PUT_16 (of_nat (length (h_sps h264))) @ h_sps h264 @ PUT_16 (of_nat (length (h_pps h264))) @ h_pps h264)
      = Some [h_sps h264, h_pps h264]"
    using stap_units_cons [OF assms(2)] stap_units_cons [OF assms(3), of "[]"] by simp
  then show ?thesis using t by (cases "h264_depay None rest") (simp_all add: stap_vec_def)
qed

lemma frame_packets_depay:
  assumes "plain_nalu nalu" "2 < mp"
    "h_type h264 = 1 \<Longrightarrow> plain_nalu (h_sps h264) \<and> plain_nalu (h_pps h264) \<and> length (h_sps h264) < 65536 \<and> length (h_pps h264) < 65536"
  shows "h264_depay None (payloads (frame_packets h264 nalu mp))
    = Some ((if h_type h264 = 1 then [h_sps h264, h_pps h264] else []) @ [nalu])"
proof -
  have n: "h264_depay None (payloads (nalu_packets nalu True mp)) = Some [nalu]"
    using nalu_packets_depay [OF assms(1, 2), of True "[]"] by simp
  show ?thesis
  proof (cases "h_type h264 = 1 \<and> 5 + length (h_sps h264) + length (h_pps h264) \<le> mp")
    case True
    then show ?thesis using assms(3) stap_depay [of h264] n
      by (simp add: frame_packets_def sps_pps_packets_def plain_nalu_def)
  next
    case False
    then show ?thesis using assms nalu_packets_depay n
      by (auto simp: frame_packets_def sps_pps_packets_def)
  qed
qed

text \<open>All packets but the last have no marker.\<close>

lemma fu_packets_markers:
  assumes "offset < length nalu" "2 < mp"
  shows "\<exists>k. map snd (fu_packets nalu marker mp offset) = replicate k False @ [marker]"
  using assms
proof (induction nalu marker mp offset rule: fu_packets.induct)
  case (1 nalu marker mp offset)
  let ?o = "offset + fu_chunk nalu mp offset"
  show ?case
  proof (cases "?o \<ge> length nalu")
    case True
    then have "fu_packets nalu marker mp ?o = []" by (simp add: fu_packets.simps)
    then show ?thesis using 1(2, 3) True by (subst fu_packets.simps) (auto intro!: exI [of _ 0])
  next
    case False
    then obtain k where k: "map snd (fu_packets nalu marker mp ?o) = replicate k False @ [marker]"
      using "1.IH" 1(2, 3) by auto
    then show ?thesis using 1(2, 3) False by (subst fu_packets.simps) (auto intro!: exI [of _ "Suc k"])
  qed
qed

lemma nalu_packets_markers:
  assumes "nalu \<noteq> []" "2 < mp"
  shows "\<exists>k. map snd (nalu_packets nalu marker mp) = replicate k False @ [marker]"
proof (cases "length nalu \<le> mp")
  case True
  then show ?thesis by (auto simp: nalu_packets_def intro!: exI [of _ 0])
next
  case False
  then show ?thesis using fu_packets_markers [of 1 nalu mp marker] assms by (simp add: nalu_packets_def)
qed

lemma frame_packets_markers:
  assumes "nalu \<noteq> []" "2 < mp" "h_type h264 = 1 \<Longrightarrow> h_sps h264 \<noteq> [] \<and> h_pps h264 \<noteq> []"
  shows "\<exists>k. map snd (frame_packets h264 nalu mp) = replicate k False @ [True]"
proof -
  obtain k where k: "map snd (nalu_packets nalu True mp) = replicate k False @ [True]"
    using nalu_packets_markers [OF assms(1, 2)] by blast
  have "\<exists>j. map snd (if h_type h264 = 1 then sps_pps_packets h264 mp else []) = replicate j False"
  proof (cases "h_type h264 = 1 \<and> 5 + length (h_sps h264) + length (h_pps h264) > mp")
    case True
    then obtain i j where "map snd (nalu_packets (h_sps h264) False mp) = replicate i False @ [False]"
        "map snd (nalu_packets (h_pps h264) False mp) = replicate j False @ [False]"
      using assms nalu_packets_markers [of "h_sps h264" mp False] nalu_packets_markers [of "h_pps h264" mp False] by blast
    then have "map snd (if h_type h264 = 1 then sps_pps_packets h264 mp else []) = replicate (Suc i + Suc j) False"
      using True by (simp add: sps_pps_packets_def replicate_add replicate_append_same)
    then show ?thesis by blast
  next
    case False
    then have "map snd (if h_type h264 = 1 then sps_pps_packets h264 mp else []) = replicate (if h_type h264 = 1 then 1 else 0) False"
      by (auto simp: sps_pps_packets_def)
    then show ?thesis by blast
  qed
  then obtain j where "map snd (if h_type h264 = 1 then sps_pps_packets h264 mp else []) = replicate j False" by blast
  then show ?thesis using k by (auto simp: frame_packets_def replicate_add intro!: exI [of _ "j + k"])
qed

section \<open>Every packet fits\<close>

abbreviation payload_limit :: "rtp_endpoint \<Rightarrow> nat" where
  "payload_limit ep \<equiv> nat (rtp_get_payload_size_limit ep RTP_HEADER_SIZE)"

lemma fits_nat: "2 < payload_limit ep \<Longrightarrow>
  fits_packet ep v \<longleftrightarrow> v \<noteq> [] \<and> (\<forall>b \<in> set v. b \<noteq> []) \<and> length v \<le> 15 \<and> length (concat v) \<le> payload_limit ep"
  unfolding fits_packet_def by linarith

lemma fu_packets_fit:
  assumes "2 < payload_limit ep" "(v, m) \<in> set (fu_packets nalu marker (payload_limit ep) offset)"
  shows "fits_packet ep v"
  using assms
proof (induction nalu marker "payload_limit ep" offset rule: fu_packets.induct)
  case (1 nalu marker offset)
  let ?c = "fu_chunk nalu (payload_limit ep) offset"
  have o: "offset < length nalu" using 1(3) by (subst (asm) fu_packets.simps) (auto split: if_splits)
  have "fits_packet ep (fu_vec nalu (payload_limit ep) offset)"
    using o 1(2) by (auto simp: fits_nat fu_vec_def fu_chunk_def)
  then show ?case using 1(1, 2) 1(3) [unfolded fu_packets.simps [of nalu marker "payload_limit ep" offset]] o by auto
qed

lemma nalu_packets_fit:
  assumes "2 < payload_limit ep" "nalu \<noteq> []" "(v, m) \<in> set (nalu_packets nalu marker (payload_limit ep))"
  shows "fits_packet ep v"
  using assms fu_packets_fit by (auto simp: nalu_packets_def fits_nat split: if_splits)

lemma frame_packets_fit:
  assumes "2 < payload_limit ep" "nalu \<noteq> []" "h_type h264 = 1 \<Longrightarrow> h_sps h264 \<noteq> [] \<and> h_pps h264 \<noteq> []"
    "(v, m) \<in> set (frame_packets h264 nalu (payload_limit ep))"
  shows "fits_packet ep v"
proof -
  have "stap_vec h264 = v \<Longrightarrow> h_sps h264 \<noteq> [] \<and> h_pps h264 \<noteq> [] \<Longrightarrow> 5 + length (h_sps h264) + length (h_pps h264) \<le> payload_limit ep
      \<Longrightarrow> fits_packet ep v"
    using assms(1) by (auto simp: fits_nat stap_vec_def PUT_16_def)
  then show ?thesis using assms nalu_packets_fit
    by (auto simp: frame_packets_def sps_pps_packets_def split: if_splits)
qed

section \<open>The code sends these packets\<close>

lemma rtp_send_list_append:
  "rtp_send_list net clock ts r (ps @ qs) ep =
     do { (ret, ep) \<leftarrow> rtp_send_list net clock ts r ps ep;
          if ret < 0 then Some (ret, ep) else rtp_send_list net clock ts r qs ep }"
proof (induction ps arbitrary: ep)
  case (Cons vm ps)
  obtain v m where "vm = (v, m)" by (cases vm)
  then show ?case
    by (cases "rtp_sendmsg net clock v ts m r ep") (auto simp: Cons.IH)
qed simp

lemma rtp_limit_cong: "rtp_get_packet_size_limit ep' = rtp_get_packet_size_limit ep
  \<Longrightarrow> rtp_get_payload_size_limit ep' n = rtp_get_payload_size_limit ep n"
  by (simp add: rtp_get_payload_size_limit_def)

lemma h264_send_nalu_packets:
  assumes "sendEnable ep" "nalu \<noteq> []" "2 < mp"
  shows "h264_send_nalu net clock ts nalu marker r mp ep = rtp_send_list net clock ts r (nalu_packets nalu marker (nat mp)) ep"
proof -
  have "int (length nalu) \<le> mp \<longleftrightarrow> length nalu \<le> nat mp" using assms(3) by linarith
  then show ?thesis using assms
    by (auto simp: h264_send_nalu_def nalu_packets_def fu_loop_packets split: option.splits cong: if_cong)
qed

lemma h264_nalu_sent:
  assumes "sendEnable ep" "nalu \<noteq> []" "2 < payload_limit ep"
    and s: "rtp_send_list net clock ts r (nalu_packets nalu marker (payload_limit ep)) ep = Some (0, ep')"
  shows "h264_send_nalu_to_endpoint net clock ts nalu marker r ep = Some ep'"
  using assms h264_send_nalu_packets [OF assms(1, 2), of "rtp_get_payload_size_limit ep RTP_HEADER_SIZE"]
  by (simp add: h264_send_nalu_to_endpoint_def Let_def)

context rtp_transport begin

text \<open>Packets sent one group after the other, on an endpoint that stays ready.\<close>

lemma send_two:
  assumes "ready net ep" "\<forall>(v, m) \<in> set (ps @ qs). fits_packet ep v"
  obtains ep1 ep2 where "rtp_send_list net clock ts r ps ep = Some (0, ep1)" "ready net ep1"
    "rtp_get_packet_size_limit ep1 = rtp_get_packet_size_limit ep"
    "rtp_send_list net clock ts r qs ep1 = Some (0, ep2)" "ready net ep2"
    "rtp_get_packet_size_limit ep2 = rtp_get_packet_size_limit ep"
    "rtp_send_list net clock ts r (ps @ qs) ep = Some (0, ep2)"
proof -
  obtain ep2 where e2: "rtp_send_list net clock ts r (ps @ qs) ep = Some (0, ep2)" "ready net ep2"
      "rtp_get_packet_size_limit ep2 = rtp_get_packet_size_limit ep"
    using send_list_ready [OF assms, of clock ts r] by blast
  have "\<forall>(v, m) \<in> set ps. fits_packet ep v" using assms(2) by auto
  then obtain ep1 where e1: "rtp_send_list net clock ts r ps ep = Some (0, ep1)" "ready net ep1"
      "rtp_get_packet_size_limit ep1 = rtp_get_packet_size_limit ep"
    using send_list_ready [OF assms(1), of ps clock ts r] by blast
  moreover have "rtp_send_list net clock ts r qs ep1 = Some (0, ep2)" using e2(1) e1(1) by (simp add: rtp_send_list_append)
  ultimately show ?thesis using e2 that by blast
qed

lemma sps_pps_sent:
  assumes "ready net ep" "2 < payload_limit ep" "h_sps h264 \<noteq> []" "h_pps h264 \<noteq> []"
    and f: "\<forall>(v, m) \<in> set (sps_pps_packets h264 (payload_limit ep)). fits_packet ep v"
    and s: "rtp_send_list net clock ts r (sps_pps_packets h264 (payload_limit ep)) ep = Some (0, ep')"
  shows "h264_send_sps_pps net clock ts h264 r ep = Some ep'"
proof -
  have e: "sendEnable ep" using ready_enabled [OF assms(1)] .
  let ?mp = "payload_limit ep"
  have l: "int (1 + 2 + length (h_sps h264) + 2 + length (h_pps h264)) > rtp_get_payload_size_limit ep RTP_HEADER_SIZE
      \<longleftrightarrow> 5 + length (h_sps h264) + length (h_pps h264) > ?mp" using assms(2) by linarith
  show ?thesis
  proof (cases "5 + length (h_sps h264) + length (h_pps h264) > ?mp")
    case True
    then have p: "sps_pps_packets h264 ?mp = nalu_packets (h_sps h264) False ?mp @ nalu_packets (h_pps h264) False ?mp"
      by (simp add: sps_pps_packets_def)
    from send_two [OF assms(1) f [unfolded p], of clock ts r] obtain ep1 ep2 where
      q: "rtp_send_list net clock ts r (nalu_packets (h_sps h264) False ?mp) ep = Some (0, ep1)" "ready net ep1"
        "rtp_get_packet_size_limit ep1 = rtp_get_packet_size_limit ep"
        "rtp_send_list net clock ts r (nalu_packets (h_pps h264) False ?mp) ep1 = Some (0, ep2)" "ep2 = ep'"
      using s unfolding p by (metis Pair_inject option.inject)
    have "payload_limit ep1 = ?mp" using rtp_limit_cong [OF q(3)] by simp
    then have "h264_send_nalu_to_endpoint net clock ts (h_pps h264) False r ep1 = Some ep'"
      using h264_nalu_sent [OF ready_enabled [OF q(2)] assms(4)] assms(2) q(4, 5) by metis
    then show ?thesis
      using True l e assms(2-4) h264_nalu_sent [OF e assms(3, 2) q(1)] ready_enabled [OF q(2)]
      by (simp add: h264_send_sps_pps_def Let_def)
  next
    case False
    then show ?thesis using l e assms(2-4) s
      by (cases "rtp_sendmsg net clock (stap_vec h264) ts False r ep")
        (auto simp: h264_send_sps_pps_def Let_def sps_pps_packets_def stap_vec_def split: if_splits)
  qed
qed

lemma frame_sent:
  assumes "ready net ep" "2 < payload_limit ep" "nalu \<noteq> []"
    "h_type h264 = 1 \<Longrightarrow> h_sps h264 \<noteq> [] \<and> h_pps h264 \<noteq> []"
  shows "\<exists>ep'. h264_to_endpoint net clock ts h264 (Some nalu) ep = Some ep' \<and> ready net ep'
    \<and> sent ep' = sent ep @ numbered (seqnum ep) (frame_packets h264 nalu (payload_limit ep))
    \<and> rtp_get_packet_size_limit ep' = rtp_get_packet_size_limit ep"
proof -
  let ?mp = "payload_limit ep" and ?sp = "if h_type h264 = 1 then sps_pps_packets h264 (payload_limit ep) else []"
  have f: "\<forall>(v, m) \<in> set (?sp @ nalu_packets nalu True ?mp). fits_packet ep v"
    using frame_packets_fit [OF assms(2-4)] unfolding frame_packets_def by blast
  from send_two [OF assms(1) f, of clock ts 30] obtain ep1 ep2 where
    q: "rtp_send_list net clock ts 30 ?sp ep = Some (0, ep1)" "ready net ep1"
      "rtp_get_packet_size_limit ep1 = rtp_get_packet_size_limit ep"
      "rtp_send_list net clock ts 30 (nalu_packets nalu True ?mp) ep1 = Some (0, ep2)" "ready net ep2"
      "rtp_get_packet_size_limit ep2 = rtp_get_packet_size_limit ep"
      "rtp_send_list net clock ts 30 (frame_packets h264 nalu ?mp) ep = Some (0, ep2)"
    unfolding frame_packets_def by blast
  have e: "sendEnable ep" "sendEnable ep1" "sendEnable ep2" using ready_enabled assms(1) q(2, 5) by blast+
  have s1: "(if h_type h264 = 1 then h264_send_sps_pps net clock ts h264 30 ep else Some ep) = Some ep1"
    using q(1) assms sps_pps_sent [OF assms(1, 2), of h264 clock ts 30 ep1] f by (auto split: if_splits)
  have "payload_limit ep1 = ?mp" using rtp_limit_cong [OF q(3)] by simp
  then have s2: "h264_send_nalu_to_endpoint net clock ts nalu True 30 ep1 = Some ep2"
    using h264_nalu_sent [OF e(2) assms(3)] assms(2) q(4) by metis
  have "h264_to_endpoint net clock ts h264 (Some nalu) ep = Some ep2"
    unfolding h264_to_endpoint_def s1 using e s2 by simp
  moreover have "sent ep2 = sent ep @ numbered (seqnum ep) (frame_packets h264 nalu ?mp)"
    using send_list_ready [OF assms(1), of "frame_packets h264 nalu ?mp" clock ts 30] f q(7)
    unfolding frame_packets_def by auto
  ultimately show ?thesis using q(5, 6) by blast
qed

text \<open>What the receiver sees of a frame: packets within the limit, numbered on from the last one, the marker on the last
  one only, from which it gets the parameter sets of an I frame and the NAL unit of the frame back.\<close>

lemma frame_delivered:
  assumes r: "ready net ep" "2 < payload_limit ep" and p: "plain_nalu nalu"
    "h_type h264 = 1 \<Longrightarrow> plain_nalu (h_sps h264) \<and> plain_nalu (h_pps h264) \<and> length (h_sps h264) < 65536 \<and> length (h_pps h264) < 65536"
  shows "\<exists>ep' ps. h264_to_endpoint net clock ts h264 (Some nalu) ep = Some ep' \<and> ready net ep'
    \<and> sent ep' = sent ep @ numbered (seqnum ep) ps
    \<and> (\<forall>q \<in> set (payloads ps). length q \<le> payload_limit ep)
    \<and> (\<exists>k. map snd ps = replicate k False @ [True])
    \<and> h264_depay None (payloads ps) = Some ((if h_type h264 = 1 then [h_sps h264, h_pps h264] else []) @ [nalu])"
proof -
  let ?ps = "frame_packets h264 nalu (payload_limit ep)"
  have n: "nalu \<noteq> []" "h_type h264 = 1 \<Longrightarrow> h_sps h264 \<noteq> [] \<and> h_pps h264 \<noteq> []" using p by (auto simp: plain_nalu_def)
  have "\<forall>q \<in> set (payloads ?ps). length q \<le> payload_limit ep"
    using frame_packets_fit [OF r(2) n] fits_nat [OF r(2)] by fastforce
  then show ?thesis
    using frame_sent [OF r n] frame_packets_markers [OF n(1) r(2) n(2)] frame_packets_depay [OF p(1) r(2) p(2)] by blast
qed

end

section \<open>Which frames go out\<close>

text \<open>The gate over the frames of a stream: their private data and lengths.\<close>

fun gate_run :: "rtp_h264 \<Rightarrow> (fb_h264_s \<times> nat) list \<Rightarrow> bool list" where
  "gate_run out [] = []"
| "gate_run out ((h264, len) # fs) = (let (ok, out) = h264_gate out h264 len in ok # gate_run out fs)"

text \<open>A frame that holds more than its start code.\<close>

definition has_data :: "fb_h264_s \<times> nat \<Rightarrow> bool" where
  "has_data f \<longleftrightarrow> unat (h_start_len (fst f)) < snd f \<and> snd f < 2 ^ 32"

lemma h264_gate_data:
  assumes "has_data (h264, len)"
  shows "h264_gate out h264 len =
    (if h_type h264 = 1 then (True, out\<lparr>first_flag := True, last_count := h_count h264 + 1\<rparr>)
     else if first_flag out \<and> last_count out = h_count h264 then (True, out\<lparr>last_count := h_count h264 + 1\<rparr>)
     else (False, out\<lparr>first_flag := False\<rparr>))"
proof -
  have "of_nat len \<noteq> (ucast (h_start_len h264) :: u32)"
  proof
    assume "of_nat len = (ucast (h_start_len h264) :: u32)"
    then have "unat (of_nat len :: u32) = unat (ucast (h_start_len h264) :: u32)" by simp
    then show False using assms by (simp add: has_data_def unsigned_of_nat take_bit_nat_eq_self unsigned_ucast_eq)
  qed
  then show ?thesis by (auto simp: h264_gate_def Let_def)
qed

lemma length_gate_run [simp]: "length (gate_run out fs) = length fs"
  by (induction fs arbitrary: out) (auto simp: case_prod_beta Let_def)

text \<open>The frames that go out: the I frames, and what follows a frame that went out with the next count.\<close>

fun gate_spec :: "u8 option \<Rightarrow> (fb_h264_s \<times> nat) list \<Rightarrow> bool list" where
  "gate_spec expected [] = []"
| "gate_spec expected ((h264, len) # fs) =
     (let ok = (h_type h264 = 1 \<or> expected = Some (h_count h264))
      in ok # gate_spec (if ok then Some (h_count h264 + 1) else None) fs)"

lemma gate_run_spec:
  assumes "\<forall>f \<in> set fs. has_data f"
  shows "gate_run out fs = gate_spec (if first_flag out then Some (last_count out) else None) fs"
  using assms by (induction fs arbitrary: out) (auto simp: h264_gate_data Let_def)

lemma gate_spec_follows:
  assumes "Suc i < length fs" "gate_spec e fs ! Suc i" "h_type (fst (fs ! Suc i)) \<noteq> 1"
  shows "gate_spec e fs ! i \<and> h_count (fst (fs ! Suc i)) = h_count (fst (fs ! i)) + 1"
  using assms
proof (induction e fs arbitrary: i rule: gate_spec.induct)
  case (2 e h264 len fs)
  show ?case
  proof (cases i)
    case 0
    then obtain h' l' r where "fs = (h', l') # r" using 2(2) by (cases fs) auto
    then show ?thesis using 0 2(3, 4) by (auto simp: Let_def split: if_splits)
  next
    case (Suc j)
    then show ?thesis using "2.IH" [OF refl, of j] 2(2-4) by (simp add: Let_def)
  qed
qed simp

lemma gate_spec_first:
  assumes "gate_spec None fs ! 0" "fs \<noteq> []"
  shows "h_type (fst (fs ! 0)) = 1"
  using assms by (cases fs) (auto simp: Let_def)

lemma gate_spec_gop:
  assumes "i < length fs" "gate_spec None fs ! i"
  shows "\<exists>k \<le> i. h_type (fst (fs ! k)) = 1 \<and> (\<forall>j. k \<le> j \<and> j \<le> i \<longrightarrow> gate_spec None fs ! j)
    \<and> (\<forall>j. k < j \<and> j \<le> i \<longrightarrow> h_count (fst (fs ! j)) = h_count (fst (fs ! (j - 1))) + 1)"
  using assms
proof (induction i)
  case 0
  then show ?case using gate_spec_first [of fs] by auto
next
  case (Suc i)
  show ?case
  proof (cases "h_type (fst (fs ! Suc i)) = 1")
    case True
    have "j = Suc i" if "Suc i \<le> j" "j \<le> Suc i" for j using that by simp
    with True Suc.prems show ?thesis by (intro exI [of _ "Suc i"]) auto
  next
    case False
    then have "gate_spec None fs ! i" and c: "h_count (fst (fs ! Suc i)) = h_count (fst (fs ! i)) + 1"
      using gate_spec_follows [OF Suc.prems] by auto
    then obtain k where k: "k \<le> i" "h_type (fst (fs ! k)) = 1" "\<forall>j. k \<le> j \<and> j \<le> i \<longrightarrow> gate_spec None fs ! j"
        "\<forall>j. k < j \<and> j \<le> i \<longrightarrow> h_count (fst (fs ! j)) = h_count (fst (fs ! (j - 1))) + 1"
      using Suc by fastforce
    show ?thesis using k c Suc.prems(2) by (intro exI [of _ k]) (auto simp: le_Suc_eq)
  qed
qed

section \<open>Properties\<close>

text \<open>C2: Over UDP, a frame on an endpoint that can send reaches the receiver complete: datagrams within the limit of the
  endpoint, numbered consecutively, the marker on the last one only, which the receiver of RFC 6184 puts together to the
  parameter sets (for an I frame) and the NAL unit of the frame, whatever their sizes; the endpoint can send the next
  frame.\<close>

theorem h264_frame_over_udp:
  assumes "udp_ready net ep" "2 < payload_limit ep" "plain_nalu nalu"
    "h_type h264 = 1 \<longrightarrow> plain_nalu (h_sps h264) \<and> plain_nalu (h_pps h264) \<and> length (h_sps h264) < 65536 \<and> length (h_pps h264) < 65536"
  shows "\<exists>ep' ps. h264_to_endpoint net clock ts h264 (Some nalu) ep = Some ep' \<and> udp_ready net ep'
    \<and> map rtp_packet (wire ep') = map rtp_packet (wire ep) @ numbered (seqnum ep) ps
    \<and> (\<forall>q \<in> set (payloads ps). length q \<le> payload_limit ep)
    \<and> (\<exists>k. map snd ps = replicate k False @ [True])
    \<and> h264_depay None (payloads ps) = Some ((if h_type h264 = 1 then [h_sps h264, h_pps h264] else []) @ [nalu])"
  using udp.frame_delivered [OF assms(1-3)] assms(4) unfolding udp_sent_def by blast

definition demo_h264 :: fb_h264_s where
  "demo_h264 = \<lparr>h_sps = [0x67, 1, 2], h_pps = [0x68, 3, 4], h_count = 0, h_type = 1, h_start_len = 4\<rparr>"

definition demo_nalu :: "u8 list" where
  "demo_nalu = [0x65, 1, 2, 3, 4, 5, 6, 7, 8, 9, 10, 11, 12, 13, 14]"

lemma demo_plain: "plain_nalu demo_nalu" "plain_nalu (h_sps demo_h264)" "plain_nalu (h_pps demo_h264)"
  by (simp_all add: plain_nalu_def nal_type_def demo_nalu_def demo_h264_def)

lemma received: "map rtp_packet ps = numbered s qs \<Longrightarrow> map (\<lambda>p. snd (snd (rtp_packet p))) ps = payloads qs"
proof -
  assume a: "map rtp_packet ps = numbered s qs"
  have "map (\<lambda>p. snd (snd (rtp_packet p))) ps = map (\<lambda>(s, m, p). p) (map rtp_packet ps)" by (simp add: case_prod_beta)
  then show ?thesis by (simp only: a numbered_payloads)
qed

lemma h264_frame_over_udp_witness:
  "\<exists>ep. h264_to_endpoint demo_net (\<lambda>k. 0) 0 demo_h264 (Some demo_nalu) (demo_ep RTP_TRANS_UDP 20) = Some ep
    \<and> h264_depay None (map (\<lambda>p. snd (snd (rtp_packet p))) (wire ep)) = Some [[0x67, 1, 2], [0x68, 3, 4], demo_nalu]"
proof -
  have "2 < payload_limit (demo_ep RTP_TRANS_UDP 20)"
    by (simp add: demo_ep_def rtp_get_payload_size_limit_def rtp_get_packet_size_limit_def)
  moreover have "h_type demo_h264 = 1" "length (h_sps demo_h264) < 65536"
      "length (h_pps demo_h264) < 65536" "h_sps demo_h264 = [0x67, 1, 2]" "h_pps demo_h264 = [0x68, 3, 4]"
    by (simp_all add: demo_h264_def)
  ultimately obtain ep ps where
    "h264_to_endpoint demo_net (\<lambda>k. 0) 0 demo_h264 (Some demo_nalu) (demo_ep RTP_TRANS_UDP 20) = Some ep"
    "map rtp_packet (wire ep) = numbered (seqnum (demo_ep RTP_TRANS_UDP 20)) ps"
    "h264_depay None (payloads ps) = Some [[0x67, 1, 2], [0x68, 3, 4], demo_nalu]"
    using h264_frame_over_udp [of demo_net "demo_ep RTP_TRANS_UDP 20" demo_nalu demo_h264 "\<lambda>k. 0" 0] demo_plain udp_ready_demo demo_ep_empty by auto
  then show ?thesis using received by metis
qed

text \<open>C12: Interleaved in the RTSP connection, on a connection that takes some bytes at every call, the bytes in the
  connection stay a sequence of frames of RFC 2326 and the receiver gets the same packets out of them, however the
  connection cuts the data.\<close>

theorem h264_frame_interleaved:
  assumes "tcp_ready net ep" "2 < payload_limit ep" "plain_nalu nalu"
    "h_type h264 = 1 \<longrightarrow> plain_nalu (h_sps h264) \<and> plain_nalu (h_pps h264) \<and> length (h_sps h264) < 65536 \<and> length (h_pps h264) < 65536"
  shows "\<exists>ep' ps. h264_to_endpoint net clock ts h264 (Some nalu) ep = Some ep' \<and> tcp_ready net ep'
    \<and> map rtp_packet (deframe (stream ep')) = map rtp_packet (deframe (stream ep)) @ numbered (seqnum ep) ps
    \<and> (\<exists>k. map snd ps = replicate k False @ [True])
    \<and> h264_depay None (payloads ps) = Some ((if h_type h264 = 1 then [h_sps h264, h_pps h264] else []) @ [nalu])"
  using tcp.frame_delivered [OF assms(1-3)] assms(4) unfolding tcp_sent_packets_def by blast

lemma h264_frame_interleaved_witness:
  "\<exists>ep. h264_to_endpoint slow_net (\<lambda>k. 0) 0 demo_h264 (Some demo_nalu) (demo_ep RTP_TRANS_INTER 0) = Some ep
    \<and> h264_depay None (map (\<lambda>p. snd (snd (rtp_packet p))) (deframe (stream ep))) = Some [[0x67, 1, 2], [0x68, 3, 4], demo_nalu]"
proof -
  have "2 < payload_limit (demo_ep RTP_TRANS_INTER 0)"
    by (simp add: demo_ep_def rtp_get_payload_size_limit_def rtp_get_packet_size_limit_def)
  moreover have "h_type demo_h264 = 1" "length (h_sps demo_h264) < 65536"
      "length (h_pps demo_h264) < 65536" "h_sps demo_h264 = [0x67, 1, 2]" "h_pps demo_h264 = [0x68, 3, 4]"
    by (simp_all add: demo_h264_def)
  ultimately obtain ep ps where
    "h264_to_endpoint slow_net (\<lambda>k. 0) 0 demo_h264 (Some demo_nalu) (demo_ep RTP_TRANS_INTER 0) = Some ep"
    "map rtp_packet (deframe (stream ep)) = numbered (seqnum (demo_ep RTP_TRANS_INTER 0)) ps"
    "h264_depay None (payloads ps) = Some [[0x67, 1, 2], [0x68, 3, 4], demo_nalu]"
    using h264_frame_interleaved [of slow_net "demo_ep RTP_TRANS_INTER 0" demo_nalu demo_h264 "\<lambda>k. 0" 0] demo_plain tcp_ready_demo demo_ep_empty by auto
  then show ?thesis using received by metis
qed


definition demo_frames :: "(fb_h264_s \<times> nat) list" where
  "demo_frames = map (\<lambda>(t, c). (demo_h264\<lparr>h_type := t, h_count := c\<rparr>, 100)) [(2, 0), (1, 1), (2, 2), (2, 4), (2, 5), (1, 6)]"


end
