(* ===== verification/RtpAudio.thy ===== *)
theory RtpAudio
  imports Rtp
begin

text \<open>
  AAC over RTP, \<open>sdk/app/spook/rtp-audio.c\<close>: an access unit goes out in one packet or in fragments, each with the header
  that carries the size of the unit in 13 bits; the seven bytes of the ADTS header of the encoder are left out. The
  receiver of RFC 3640 (mode AAC-hbr, one unit or fragment in a packet) is the specification.
\<close>

unbundle bit_operations_syntax

record rtp_audio =
  au_timestamp :: u32

definition audio_process_frame :: "u32 \<Rightarrow> u32 \<Rightarrow> rtp_audio \<Rightarrow> rtp_audio" where
  "audio_process_frame f_timestamp sample_rate out = out\<lparr>au_timestamp := f_timestamp * (sample_rate div 1000)\<rparr>"

definition audio_build_au_header :: "u32 \<Rightarrow> u8 list" where
  "audio_build_au_header au_size =
     [0x00, 0x10, ucast (drop_bit 5 (au_size AND 0x1FE0)), ucast (push_bit 3 (au_size AND 0x1F))]"

text \<open>The loop over the fragments; a fragment has at least one byte, as the caller checks.\<close>

function au_loop ::
  "net \<Rightarrow> (nat \<Rightarrow> u32) \<Rightarrow> u32 \<Rightarrow> u8 list \<Rightarrow> int \<Rightarrow> nat \<Rightarrow> nat \<Rightarrow> rtp_endpoint \<Rightarrow> (int \<times> rtp_endpoint) option" where
  "au_loop net clock ts au retries max_fragment_size offset ep =
     (if offset < length au \<and> 0 < max_fragment_size then
        let fragment_len = (if length au - offset > max_fragment_size then max_fragment_size else length au - offset)
        in do {
             (ret, ep) \<leftarrow> rtp_sendmsg net clock [audio_build_au_header (of_nat (length au)), take fragment_len (drop offset au)] ts
                            (offset + fragment_len \<ge> length au) retries ep;
             if ret < 0 then Some (- 1, ep\<lparr>sendEnable := False\<rparr>)
             else au_loop net clock ts au retries max_fragment_size (offset + fragment_len) ep }
      else Some (0, ep))"
  by pat_completeness auto
termination
  by (relation "measure (\<lambda>(net, clock, ts, au, retries, m, offset, ep). length au - offset)") (auto split: if_splits)

declare au_loop.simps [simp del]

definition audio_send_au_to_endpoint ::
  "net \<Rightarrow> (nat \<Rightarrow> u32) \<Rightarrow> u32 \<Rightarrow> u8 list \<Rightarrow> int \<Rightarrow> rtp_endpoint \<Rightarrow> (int \<times> rtp_endpoint) option" where
  "audio_send_au_to_endpoint net clock ts au retries ep =
     (if \<not> sendEnable ep \<or> au = [] then Some (- 1, ep)
      else if length au > 0x1FFF then Some (- 1, ep\<lparr>sendEnable := False\<rparr>)
      else let max_payload = rtp_get_payload_size_limit ep RTP_HEADER_SIZE
           in if max_payload \<le> 4 then Some (- 1, ep\<lparr>sendEnable := False\<rparr>)
              else au_loop net clock ts au retries (nat max_payload - 4) 0 ep)"

text \<open>One endpoint of the loop of \<open>audio_send_more\<close>, and the loop over the endpoints of the sessions that play.\<close>

definition audio_to_endpoint ::
  "net \<Rightarrow> (nat \<Rightarrow> u32) \<Rightarrow> u32 \<Rightarrow> u8 list \<Rightarrow> rtp_endpoint \<Rightarrow> rtp_endpoint option" where
  "audio_to_endpoint net clock ts au ep = do {
     ep \<leftarrow> (if sendEnable ep then do {
               (ret, ep) \<leftarrow> audio_send_au_to_endpoint net clock ts au 10 ep;
               Some (if ret < 0 then ep\<lparr>sendEnable := False\<rparr> else ep) }
            else Some ep);
     Some (ep\<lparr>sendEnable := True\<rparr>) }"

definition audio_send_more ::
  "net \<Rightarrow> (nat \<Rightarrow> u32) \<Rightarrow> u8 list \<Rightarrow> rtp_audio \<Rightarrow> rtp_endpoint list \<Rightarrow> (int \<times> rtp_endpoint list) option" where
  "audio_send_more net clock fb out eps =
     (if length fb \<le> 7 then Some (0, eps)
      else do {
        eps \<leftarrow> endpoints_loop (audio_to_endpoint net clock (au_timestamp out) (drop 7 fb)) eps;
        Some (0, eps) })"

section \<open>The receiver\<close>

definition au_size_of :: "u8 list \<Rightarrow> nat" where
  "au_size_of p = unat (p ! 2) * 32 + unat (p ! 3) div 8"

fun au_depay :: "u8 list \<Rightarrow> (u32 \<times> bool \<times> u8 list) list \<Rightarrow> u8 list list option" where
  "au_depay cur [] = (if cur = [] then Some [] else None)"
| "au_depay cur ((s, m, p) # ps) =
     (if length p \<le> 4 \<or> take 2 p \<noteq> [0x00, 0x10] then None
      else let d = cur @ drop 4 p
           in if m then (if length d = au_size_of p then map_option ((#) d) (au_depay [] ps) else None)
              else if length d < au_size_of p then au_depay d ps else None)"

section \<open>Fragments\<close>

function au_packets :: "u8 list \<Rightarrow> nat \<Rightarrow> nat \<Rightarrow> (u8 list list \<times> bool) list" where
  "au_packets au mf offset =
     (if offset < length au \<and> 0 < mf
      then ([audio_build_au_header (of_nat (length au)), take mf (drop offset au)], offset + mf \<ge> length au)
           # au_packets au mf (offset + mf)
      else [])"
  by pat_completeness auto
termination by (relation "measure (\<lambda>(au, mf, offset). length au - offset)") auto

declare au_packets.simps [simp del]

lemma au_loop_end: "length au \<le> offset \<Longrightarrow> au_loop net clock ts au r mf offset ep = Some (0, ep)"
  by (simp add: au_loop.simps)

lemma au_loop_packets: "au_loop net clock ts au r mf offset ep = rtp_send_list net clock ts r (au_packets au mf offset) ep"
proof (induction au mf offset arbitrary: ep rule: au_packets.induct)
  case (1 au mf offset)
  show ?case
  proof (cases "offset < length au \<and> 0 < mf")
    case True
    let ?f = "if length au - offset > mf then mf else length au - offset"
    have t: "take ?f (drop offset au) = take mf (drop offset au)" "offset + ?f \<ge> length au \<longleftrightarrow> offset + mf \<ge> length au" by auto
    have l: "au_loop net clock ts au r mf (offset + ?f) e = rtp_send_list net clock ts r (au_packets au mf (offset + mf)) e" for e
      using "1.IH" [OF True, of e] au_loop_end [of au "offset + mf" net clock ts r mf e]
        au_loop_end [of au "offset + ?f" net clock ts r mf e] by (cases "length au - offset > mf") auto
    show ?thesis using True
      by (subst au_loop.simps, subst au_packets.simps) (simp only: t l Let_def rtp_send_list.simps if_True simp_thms)
  next
    case False
    then show ?thesis by (subst au_loop.simps, subst au_packets.simps) auto
  qed
qed

lemma au_header_size:
  assumes "n \<le> 0x1FFF"
  shows "au_size_of (audio_build_au_header (of_nat n) @ r) = n"
proof -
  have n: "unat (of_nat n :: u32) = n" using assms by (simp add: unsigned_of_nat take_bit_nat_eq_self)
  have "drop_bit 5 (w AND 0x1FE0) = drop_bit 5 w AND (mask 8 :: u32)" for w :: u32
    by (rule bit_eqI) (auto simp: bit_simps mask_eq_exp_minus_1)
  then have hi: "unat (ucast (drop_bit 5 (of_nat n AND (0x1FE0 :: u32))) :: u8) = n div 32"
    using n assms by (simp add: unsigned_ucast_eq unsigned_and_eq unsigned_drop_bit_eq unsigned_take_bit_eq unat_div drop_bit_eq_div take_bit_eq_mask [symmetric]
        take_bit_nat_eq_self)
  have "w AND 0x1F = take_bit 5 (w :: u32)" for w by (simp add: take_bit_eq_mask mask_eq_exp_minus_1)
  moreover have "n mod 32 * 8 < 256" by simp
  ultimately have lo: "unat (ucast (push_bit 3 (of_nat n AND (0x1F :: u32))) :: u8) = 8 * (n mod 32)"
    using n by (simp add: unsigned_ucast_eq unsigned_push_bit_eq unat_mod take_bit_eq_mod) (simp add: push_bit_eq_mult)
  show ?thesis using hi lo by (simp add: au_size_of_def audio_build_au_header_def)
qed

lemma length_au_header [simp]: "length (audio_build_au_header n) = 4"
  by (simp add: audio_build_au_header_def)

lemma take_au_header [simp]: "take 2 (audio_build_au_header n) = [0x00, 0x10]"
  by (simp add: audio_build_au_header_def)

lemma au_packets_depay:
  assumes "offset < length au" "0 < mf" "length au \<le> 0x1FFF"
  shows "au_depay (take offset au) (numbered s (au_packets au mf offset)) = Some [au]"
  using assms
proof (induction au mf offset arbitrary: s rule: au_packets.induct)
  case (1 au mf offset)
  have t: "take offset au @ take mf (drop offset au) = take (offset + mf) au" by (simp add: take_add)
  show ?case
  proof (cases "offset + mf \<ge> length au")
    case True
    then have "au_packets au mf (offset + mf) = []" by (simp add: au_packets.simps)
    then show ?thesis using True t 1(2-4) au_header_size [OF 1(4)]
      by (subst au_packets.simps) (simp add: Let_def)
  next
    case False
    then have "au_depay (take (offset + mf) au) (numbered ((s + 1) AND 0xffff) (au_packets au mf (offset + mf))) = Some [au]"
      using "1.IH" 1(2-4) by auto
    then show ?thesis using False t 1(2-4) au_header_size [OF 1(4)]
      by (subst au_packets.simps) (simp add: Let_def)
  qed
qed

lemma au_packets_fit:
  assumes "4 < rtp_get_payload_size_limit ep RTP_HEADER_SIZE" "mf = nat (rtp_get_payload_size_limit ep RTP_HEADER_SIZE) - 4"
    "(v, m) \<in> set (au_packets au mf offset)"
  shows "fits_packet ep v"
  using assms
proof (induction au mf offset rule: au_packets.induct)
  case (1 au mf offset)
  have o: "offset < length au" "0 < mf" using 1(4) by (subst (asm) au_packets.simps; auto split: if_splits)+
  have "fits_packet ep [audio_build_au_header (of_nat (length au)), take mf (drop offset au)]"
    using o 1(2, 3) by (auto simp: fits_packet_def audio_build_au_header_def)
  then show ?case using "1.IH" 1(2-3) 1(4) [unfolded au_packets.simps [of au mf offset]] o by auto
qed

context rtp_transport begin

lemma audio_delivered:
  assumes "ready net ep" "4 < rtp_get_payload_size_limit ep RTP_HEADER_SIZE" "au \<noteq> []" "length au \<le> 0x1FFF"
  shows "\<exists>ep' ps. audio_to_endpoint net clock ts au ep = Some ep' \<and> ready net ep'
    \<and> sent ep' = sent ep @ numbered (seqnum ep) ps \<and> au_depay [] (numbered (seqnum ep) ps) = Some [au]
    \<and> (\<forall>(v, m) \<in> set ps. fits_packet ep v)
    \<and> rtp_get_packet_size_limit ep' = rtp_get_packet_size_limit ep"
proof -
  let ?mf = "nat (rtp_get_payload_size_limit ep RTP_HEADER_SIZE) - 4"
  let ?ps = "au_packets au ?mf 0"
  have f: "\<forall>(v, m) \<in> set ?ps. fits_packet ep v" using au_packets_fit [OF assms(2) refl] by blast
  obtain ep' where e: "rtp_send_list net clock ts 10 ?ps ep = Some (0, ep')" "ready net ep'"
      "sent ep' = sent ep @ numbered (seqnum ep) ?ps" "rtp_get_packet_size_limit ep' = rtp_get_packet_size_limit ep"
    using send_list_ready [OF assms(1) f] by blast
  have d: "au_depay [] (numbered (seqnum ep) ?ps) = Some [au]"
    using au_packets_depay [of 0 au ?mf] assms(2-4) by simp
  have "audio_send_au_to_endpoint net clock ts au 10 ep = Some (0, ep')"
    using assms ready_enabled e(1) by (simp add: audio_send_au_to_endpoint_def Let_def au_loop_packets)
  then have "audio_to_endpoint net clock ts au ep = Some ep'"
    using ready_enabled assms(1) e(2) by (simp add: audio_to_endpoint_def)
  then show ?thesis using e d f by blast
qed

end

section \<open>Properties\<close>

text \<open>A sequence of access units with their timestamps on one endpoint.\<close>

fun audio_units ::
  "net \<Rightarrow> (nat \<Rightarrow> u32) \<Rightarrow> (u32 \<times> u8 list) list \<Rightarrow> rtp_endpoint \<Rightarrow> rtp_endpoint option" where
  "audio_units net clock [] ep = Some ep"
| "audio_units net clock ((ts, au) # us) ep = do { ep \<leftarrow> audio_to_endpoint net clock ts au ep; audio_units net clock us ep }"

lemma au_depay_append:
  "au_depay cur xs = Some us \<Longrightarrow> au_depay cur (xs @ ys) = map_option ((@) us) (au_depay [] ys)"
proof (induction cur xs arbitrary: us rule: au_depay.induct)
  case (1 cur)
  then show ?case by (cases "au_depay [] ys") (auto split: if_splits)
next
  case (2 cur s m p ps)
  then show ?case by (cases "au_depay [] ys") (auto simp: Let_def split: if_splits)
qed

context rtp_transport begin

lemma audio_units_delivered:
  assumes "ready net ep" "4 < rtp_get_payload_size_limit ep RTP_HEADER_SIZE"
    "\<forall>(ts, au) \<in> set us. au \<noteq> [] \<and> length au \<le> 0x1FFF"
  shows "\<exists>ep' pk. audio_units net clock us ep = Some ep' \<and> ready net ep' \<and> sent ep' = sent ep @ pk
    \<and> au_depay [] pk = Some (map snd us)"
  using assms
proof (induction us arbitrary: ep)
  case (Cons u us)
  obtain ts au where u: "u = (ts, au)" by (cases u)
  obtain ep1 ps where e1: "audio_to_endpoint net clock ts au ep = Some ep1" "ready net ep1"
      "sent ep1 = sent ep @ numbered (seqnum ep) ps" "au_depay [] (numbered (seqnum ep) ps) = Some [au]"
      "rtp_get_packet_size_limit ep1 = rtp_get_packet_size_limit ep"
    using audio_delivered [OF Cons.prems(1, 2), of au clock ts] Cons.prems(3) u by auto
  have "4 < rtp_get_payload_size_limit ep1 RTP_HEADER_SIZE"
    using Cons.prems(2) e1(5) by (simp add: rtp_get_payload_size_limit_def)
  then obtain ep' pk where "audio_units net clock us ep1 = Some ep'" "ready net ep'" "sent ep' = sent ep1 @ pk"
      "au_depay [] pk = Some (map snd us)"
    using Cons.IH [OF e1(2)] Cons.prems(3) by auto
  then show ?case using e1 au_depay_append [OF e1(4)] by (auto simp: u)
qed simp

end

text \<open>C10: Over UDP, on a network that takes every datagram, the receiver gets the access units that were sent, whatever their
  sizes up to the 8191 bytes the header can carry, in order.\<close>

theorem audio_units_over_udp:
  assumes "udp_ready net ep" "4 < rtp_get_payload_size_limit ep RTP_HEADER_SIZE"
    "\<forall>(ts, au) \<in> set us. au \<noteq> [] \<and> length au \<le> 0x1FFF"
  shows "\<exists>ep' pk. audio_units net clock us ep = Some ep' \<and> udp_ready net ep'
    \<and> map rtp_packet (wire ep') = map rtp_packet (wire ep) @ pk \<and> au_depay [] pk = Some (map snd us)"
  using udp.audio_units_delivered [OF assms] unfolding udp_sent_def .

lemma audio_units_over_udp_witness:
  "\<exists>ep. audio_units demo_net (\<lambda>k. 0) [(0, [1, 2, 3, 4, 5, 6, 7, 8, 9]), (1024, [10])] (demo_ep RTP_TRANS_UDP 20) = Some ep
    \<and> au_depay [] (map rtp_packet (wire ep)) = Some [[1, 2, 3, 4, 5, 6, 7, 8, 9], [10]]"
proof -
  let ?us = "[(0, [1, 2, 3, 4, 5, 6, 7, 8, 9]), (1024, [10])] :: (u32 \<times> u8 list) list"
  have l: "4 < rtp_get_payload_size_limit (demo_ep RTP_TRANS_UDP 20) RTP_HEADER_SIZE"
    by (simp add: demo_ep_def rtp_get_payload_size_limit_def rtp_get_packet_size_limit_def)
  have us: "\<forall>(ts, au) \<in> set ?us. au \<noteq> [] \<and> length au \<le> 0x1FFF" by simp
  show ?thesis
    using audio_units_over_udp [OF udp_ready_demo l us, of "\<lambda>k. 0"] unfolding demo_ep_empty by (auto simp del: audio_units.simps)
qed

end
