(* ===== verification/RtpJpeg.thy ===== *)
theory RtpJpeg
  imports Rtp "HOL-Library.Signed_Division"
begin

text \<open>
  Motion JPEG over RTP, \<open>sdk/app/spook/rtp-jpeg.c\<close>: the parser that finds the tables and the scan of a frame, and the
  packets of RFC 2435, whose payloads end at multiples of 32 in the buffer. A pointer into the frame is its offset; a read
  outside the frame has no result. The receiver of RFC 2435 is the specification.
\<close>

unbundle bit_operations_syntax

record rtp_jpeg =
  jtype :: u32
  width :: u32
  height :: u32
  luma_table :: int
  chroma_table :: int
  quant :: "int list"
  huffoff :: int
  hufflen :: int
  exthdr :: "u8 list"
  scan_data_len :: int
  scan_offset :: int
  init_done :: bool
  ts_incr :: int
  jtimestamp :: u32
  reset_interval :: u32

text \<open>A frame: \<open>fdata\<close> is the data of its buffer, which \<open>d\<close> and \<open>get_f\<close> lead to.\<close>

record jframe =
  fdata :: "u8 list"
  flen :: int
  node_len :: u32
  first_length :: int
  ftimestamp :: u32

section \<open>The parser\<close>

definition get_16 :: "u8 list \<Rightarrow> nat \<Rightarrow> u32 option" where
  "get_16 d i = map_option GET_16 (mem_src d i 2)"

text \<open>The parsers get the frame, the offset their pointer has in it, and the length.\<close>

function parse_DQT :: "u8 list \<Rightarrow> nat \<Rightarrow> int \<Rightarrow> nat \<Rightarrow> rtp_jpeg \<Rightarrow> (int \<times> rtp_jpeg) option" where
  "parse_DQT d off len i out =
     (if int i < len then do {
        b \<leftarrow> mem_rd d (off + i);
        if b AND 0xF0 \<noteq> 0 then Some (- 1, out)
        else parse_DQT d off len (i + 65) (out\<lparr>quant := (quant out)[unat (b AND 0xF) := int (off + i + 1)]\<rparr>) }
      else Some (0, out))"
  by pat_completeness auto
termination by (relation "measure (\<lambda>(d, off, len, i, out). nat len - i)") auto

declare parse_DQT.simps [simp del]

fun sof_loop :: "u8 list \<Rightarrow> nat \<Rightarrow> nat list \<Rightarrow> rtp_jpeg \<Rightarrow> (int \<times> rtp_jpeg) option" where
  "sof_loop d off [] out = Some (0, out)"
| "sof_loop d off (c # cs) out = do {
     cid \<leftarrow> mem_rd d (off + c);
     samp \<leftarrow> mem_rd d (off + c + 1);
     tq \<leftarrow> mem_rd d (off + c + 2);
     if cid = 1 then
       (if samp = 0x21 then sof_loop d off cs (out\<lparr>jtype := jtype out AND NOT 1, luma_table := uint tq\<rparr>)
        else if samp = 0x22 then sof_loop d off cs (out\<lparr>jtype := (jtype out AND NOT 1) OR 1, luma_table := uint tq\<rparr>)
        else Some (- 1, out))
     else if cid = 2 \<or> cid = 3 then
       (if samp \<noteq> 0x11 then Some (- 1, out)
        else if chroma_table out < 0 then sof_loop d off cs (out\<lparr>chroma_table := uint tq\<rparr>)
        else if chroma_table out \<noteq> uint tq then Some (- 1, out)
        else sof_loop d off cs out)
     else Some (- 1, out) }"

definition parse_SOF :: "u8 list \<Rightarrow> nat \<Rightarrow> rtp_jpeg \<Rightarrow> (int \<times> rtp_jpeg) option" where
  "parse_SOF d off out = do {
     let out = out\<lparr>chroma_table := - 1\<rparr>;
     p \<leftarrow> mem_rd d off;
     if p \<noteq> 8 then Some (- 1, out)
     else do {
       h \<leftarrow> get_16 d (off + 1);
       w \<leftarrow> get_16 d (off + 3);
       let out = out\<lparr>height := h, width := w\<rparr>;
       if h AND 7 \<noteq> 0 \<or> w AND 7 \<noteq> 0 then Some (- 1, out)
       else do {
         let out = out\<lparr>width := drop_bit 3 w, height := drop_bit 3 h\<rparr>;
         n \<leftarrow> mem_rd d (off + 5);
         if n \<noteq> 3 then Some (- 1, out) else sof_loop d off [6, 9, 12] out } } }"

definition parse_DHT :: "nat \<Rightarrow> int \<Rightarrow> rtp_jpeg \<Rightarrow> rtp_jpeg" where
  "parse_DHT off len out =
     (let out = (if hufflen out = 0 then out\<lparr>huffoff := int off - 4\<rparr> else out);
          out = out\<lparr>hufflen := hufflen out + len + 4\<rparr>
      in out\<lparr>exthdr := take 4 (exthdr out) @ PUT_16 (word_of_int (hufflen out))\<rparr>)"

definition parse_DRI :: "u8 list \<Rightarrow> nat \<Rightarrow> rtp_jpeg \<Rightarrow> rtp_jpeg option" where
  "parse_DRI d off out = do {
     r \<leftarrow> get_16 d off;
     Some (if r \<noteq> 0 then out\<lparr>jtype := jtype out OR 0x40, reset_interval := r,
             exthdr := take 2 (exthdr out) @ PUT_16 r @ drop 4 (exthdr out)\<rparr> else out) }"

text \<open>The cases of the switch on the marker that stay in the loop; a negative value is the error return.\<close>

definition jpeg_marker :: "u8 list \<Rightarrow> u8 \<Rightarrow> nat \<Rightarrow> int \<Rightarrow> rtp_jpeg \<Rightarrow> (int \<times> rtp_jpeg) option" where
  "jpeg_marker d m off len out =
     (if m = 0xDB then (if init_done out then Some (0, out) else parse_DQT d off len 0 out)
      else if m = 0xC0 then (if init_done out then Some (0, out) else parse_SOF d off out)
      else if m = 0xC4 then Some (0, parse_DHT off len out)
      else if m = 0xDD then (if init_done out then Some (0, out) else map_option (Pair 0) (parse_DRI d off out))
      else Some (0, out))"

text \<open>Fill bytes before a marker.\<close>

function skip_fill :: "u8 list \<Rightarrow> nat \<Rightarrow> nat option" where
  "skip_fill d i =
     (if i + 1 < length d then (if d ! (i + 1) = 0xFF then skip_fill d (i + 1) else Some i) else None)"
  by pat_completeness auto
termination by (relation "measure (\<lambda>(d, i). length d - i)") auto

declare skip_fill.simps [simp del]

lemma skip_fill_le: "skip_fill d i = Some j \<Longrightarrow> i \<le> j"
proof (induction d i rule: skip_fill.induct)
  case (1 d i)
  then show ?case by (subst (asm) (2) skip_fill.simps) (force split: if_splits)
qed

text \<open>The loop over the markers. At its end the code prints the first 0x290 bytes of the frame.\<close>

function jpeg_scan :: "jframe \<Rightarrow> nat \<Rightarrow> rtp_jpeg \<Rightarrow> (int \<times> rtp_jpeg) option" where
  "jpeg_scan f i out =
     (if int i < first_length f then do {
        b \<leftarrow> mem_rd (fdata f) i;
        if b \<noteq> 0xFF then Some (0, out\<lparr>scan_data_len := 0\<rparr>)
        else do {
          i \<leftarrow> skip_fill (fdata f) i;
          m \<leftarrow> mem_rd (fdata f) (i + 1);
          blen \<leftarrow> (if m = 0xD8 then Some 0 else get_16 (fdata f) (i + 2));
          if m = 0xDA then
            Some (1, out\<lparr>init_done := True, scan_data_len := flen f - int (i + 14), scan_offset := int (i + 14)\<rparr>)
          else do {
            (ret, out) \<leftarrow> jpeg_marker (fdata f) m (i + 4) (uint blen - 2) out;
            if ret < 0 then Some (0, out\<lparr>scan_data_len := 0\<rparr>)
            else jpeg_scan f (i + unat blen + 2) out } } }
      else do {
        _ \<leftarrow> mem_src (fdata f) 0 0x290;
        Some (0, out\<lparr>scan_data_len := 0\<rparr>) })"
  by pat_completeness auto
termination
  by (relation "measure (\<lambda>(f, i, out). nat (first_length f) - i)") (auto dest!: skip_fill_le)

declare jpeg_scan.simps [simp del]

text \<open>\<open>usb_en\<close>: the configuration \<open>USB_EN\<close>, with which every frame is parsed; else only the first is.\<close>

definition jpeg_process_frame :: "bool \<Rightarrow> jframe \<Rightarrow> rtp_jpeg \<Rightarrow> (int \<times> rtp_jpeg) option" where
  "jpeg_process_frame usb_en f out =
     (let per_ms_incr = word_of_int ((25 * ts_incr out) sdiv 1000) :: u32;
          out = out\<lparr>jtimestamp := per_ms_incr * ftimestamp f\<rparr>;
          out = (if usb_en then out\<lparr>init_done := False\<rparr> else out)
      in if init_done out then Some (1, out)
         else jpeg_scan f 0 (out\<lparr>quant := replicate 16 0, jtype := 0, reset_interval := 0, hufflen := 0,
                exthdr := [0, 0] @ drop 2 (exthdr out)\<rparr>))"

section \<open>Sending\<close>

definition jpeg_vhdr :: "rtp_jpeg \<Rightarrow> int \<Rightarrow> u8 list" where
  "jpeg_vhdr out i =
     [0, word_of_int (i div 65536), word_of_int ((i div 256) mod 256), word_of_int (i mod 256), ucast (jtype out), 255,
      ucast (width out), ucast (height out)]
     @ (if jtype out AND 0x40 \<noteq> 0 then [exthdr out ! 2, exthdr out ! 3] @ PUT_16 0xffff else [])"

text \<open>
  The loop over the payloads. \<open>qt\<close> holds the header and the quantization tables for the first packet and is empty after
  it, which gives \<open>vcnt\<close> and \<open>hdr_len\<close>. A loop that makes no progress has no result.
\<close>

partial_function (option) jpeg_loop ::
  "net \<Rightarrow> (nat \<Rightarrow> u32) \<Rightarrow> rtp_jpeg \<Rightarrow> u8 list \<Rightarrow> u32 \<Rightarrow> u8 list list \<Rightarrow> int \<Rightarrow> u32 \<Rightarrow> rtp_endpoint \<Rightarrow> rtp_endpoint option" where
  "jpeg_loop net clock out data nlen qt i node_offset ep =
     (if i < scan_data_len out then
        let node_offset = (if node_offset \<ge> nlen then 0 else node_offset);
            hdr_len = int (length (concat (jpeg_vhdr out i # qt)));
            max_data_size = rtp_get_payload_size_limit ep (RTP_HEADER_SIZE + hdr_len)
        in if max_data_size \<le> 0 then Some (ep\<lparr>sendEnable := False\<rparr>)
           else
             let plen = (if scan_data_len out - i > max_data_size then max_data_size else scan_data_len out - i);
                 plen = (if node_offset + word_of_int plen \<ge> nlen then sint (nlen - node_offset)
                         else sint (((node_offset + word_of_int plen) AND NOT 0x1F) - node_offset));
                 plen = (if i + plen \<ge> scan_data_len out then scan_data_len out - i else plen)
             in do {
                  _ \<leftarrow> assert_that (0 \<le> plen);
                  payload \<leftarrow> mem_src data (unat node_offset) (nat plen);
                  (ret, ep) \<leftarrow> rtp_sendmsg net clock (jpeg_vhdr out i # qt @ [payload]) (jtimestamp out)
                                 (plen + i = scan_data_len out) 30 ep;
                  if ret < 0 then Some (ep\<lparr>sendEnable := False\<rparr>)
                  else jpeg_loop net clock out data nlen [] (i + plen) (node_offset + word_of_int plen) ep }
      else Some ep)"

text \<open>The pointer to a quantization table, and what is read through it for the first packet.\<close>

definition jpeg_table :: "rtp_jpeg \<Rightarrow> u8 list \<Rightarrow> int \<Rightarrow> u8 list option" where
  "jpeg_table out data t = do {
     _ \<leftarrow> assert_that (0 \<le> t);
     q \<leftarrow> mem_rd (quant out) (nat t);
     if 0 < scan_data_len out then mem_src data (nat q) 64 else Some [] }"

definition jpeg_send_frame_to_endpoint ::
  "net \<Rightarrow> (nat \<Rightarrow> u32) \<Rightarrow> rtp_jpeg \<Rightarrow> jframe \<Rightarrow> rtp_endpoint \<Rightarrow> rtp_endpoint option" where
  "jpeg_send_frame_to_endpoint net clock out f ep =
     (if \<not> sendEnable ep then Some (ep\<lparr>sendEnable := True\<rparr>)
      else do {
        luma \<leftarrow> jpeg_table out (fdata f) (luma_table out);
        chroma \<leftarrow> jpeg_table out (fdata f) (chroma_table out);
        ep \<leftarrow> jpeg_loop net clock out (fdata f) (node_len f) [[0, 0] @ PUT_16 (2 * 64), luma, chroma] 0
                (word_of_int (scan_offset out)) ep;
        Some (ep\<lparr>sendEnable := True\<rparr>) })"

definition jpeg_send_more ::
  "net \<Rightarrow> (nat \<Rightarrow> u32) \<Rightarrow> rtp_jpeg \<Rightarrow> jframe \<Rightarrow> rtp_endpoint list \<Rightarrow> (rtp_jpeg \<times> rtp_endpoint list) option" where
  "jpeg_send_more net clock out f eps = do {
     let out = out\<lparr>scan_data_len := flen f - scan_offset out\<rparr>;
     eps \<leftarrow> endpoints_loop (jpeg_send_frame_to_endpoint net clock out f) eps;
     Some (out, eps) }"

section \<open>A JPEG file\<close>

text \<open>The frames an encoder with two quantization tables writes: any other segments, the tables, the frame header, Huffman
  tables, a restart interval unless it is 0, and the scan.\<close>

definition segment :: "u8 \<Rightarrow> u8 list \<Rightarrow> u8 list" where
  "segment m b = [0xFF, m] @ PUT_16 (of_nat (length b + 2)) @ b"

definition sof_body :: "u8 \<Rightarrow> u32 \<Rightarrow> u32 \<Rightarrow> u8 list" where
  "sof_body samp w h = [8] @ PUT_16 h @ PUT_16 w @ [3, 1, samp, 0, 2, 0x11, 1, 3, 0x11, 1]"

definition sos_body :: "u8 list" where
  "sos_body = [3, 1, 0, 2, 0x11, 3, 0x11, 0, 0x3F, 0]"

record jpeg_image =
  others :: "(u8 \<times> u8 list) list"
  luma :: "u8 list"
  chroma :: "u8 list"
  samp :: u8
  img_w :: u32
  img_h :: u32
  huffs :: "u8 list list"
  restart :: u32
  scan :: "u8 list"

definition segments :: "jpeg_image \<Rightarrow> (u8 \<times> u8 list) list" where
  "segments im = others im @ [(0xDB, 0 # luma im), (0xDB, 1 # chroma im), (0xC0, sof_body (samp im) (img_w im) (img_h im))]
     @ map (Pair 0xC4) (huffs im) @ (if restart im = 0 then [] else [(0xDD, PUT_16 (restart im))])"

definition jpeg_bytes :: "jpeg_image \<Rightarrow> u8 list" where
  "jpeg_bytes im = [0xFF, 0xD8] @ concat (map (\<lambda>(m, b). segment m b) (segments im)) @ segment 0xDA sos_body @ scan im"

definition image_ok :: "jpeg_image \<Rightarrow> bool" where
  "image_ok im \<longleftrightarrow> (\<forall>(m, b) \<in> set (others im). m \<notin> {0xFF, 0xD8, 0xDA, 0xDB, 0xC0, 0xC4, 0xDD})
     \<and> (\<forall>(m, b) \<in> set (segments im). length b < 65534)
     \<and> length (luma im) = 64 \<and> length (chroma im) = 64 \<and> (samp im = 0x21 \<or> samp im = 0x22)
     \<and> img_w im AND 7 = 0 \<and> img_h im AND 7 = 0 \<and> img_w im < 2048 \<and> img_h im < 2048 \<and> restart im < 65536"

lemma length_segment [simp]: "length (segment m b) = length b + 4"
  by (simp add: segment_def)

lemma get_16_PUT [simp]: "length pre = i \<Longrightarrow> get_16 (pre @ PUT_16 v @ r) i = Some (v AND 0xffff)"
proof -
  assume "length pre = i"
  then have "get_16 (pre @ PUT_16 v @ r) i = Some (GET_16 (PUT_16 v))" by (simp add: get_16_def mem_src_ok)
  then show ?thesis using GET_16_PUT_16 [of v "[]"] by simp
qed

lemma u16_of_nat:
  assumes "n < 65536"
  shows "of_nat n AND (0xffff :: u32) = of_nat n" "unat (of_nat n :: u32) = n"
proof -
  show "unat (of_nat n :: u32) = n" using assms by (simp add: take_bit_nat_eq_self unsigned_of_nat)
  then show "of_nat n AND (0xffff :: u32) = of_nat n" using assms by (intro and_ffff_small) (simp add: word_less_nat_alt)
qed

text \<open>One turn of the loop on a segment.\<close>

lemma jpeg_scan_segment:
  assumes d: "fdata f = pre @ segment m b @ post" and l: "length b < 65534" and f: "int (length pre) < first_length f"
    and m: "m \<notin> {0xFF, 0xD8, 0xDA}"
  shows "jpeg_scan f (length pre) out = do {
    (ret, out) \<leftarrow> jpeg_marker (fdata f) m (length pre + 4) (int (length b)) out;
    if ret < 0 then Some (0, out\<lparr>scan_data_len := 0\<rparr>) else jpeg_scan f (length (pre @ segment m b)) out }"
proof -
  define n :: u32 where "n = of_nat (length b + 2)"
  have n: "n AND 0xffff = n" "unat n = length b + 2"
    using l u16_of_nat [of "length b + 2"] unfolding n_def by auto
  have u: "uint n = int (length b) + 2" using n(2) by (metis int_ops(1) of_nat_add of_nat_numeral uint_nat)
  have d': "fdata f = pre @ [0xFF, m] @ PUT_16 n @ b @ post" by (simp add: d segment_def n_def del: of_nat_add)
  have g: "get_16 (fdata f) (length pre + 2) = Some n"
    using get_16_PUT [of "pre @ [0xFF, m]" "length pre + 2" n "b @ post"] n(1) by (simp add: d')
  have r: "mem_rd (fdata f) (length pre) = Some 0xFF" "mem_rd (fdata f) (Suc (length pre)) = Some m"
    by (simp_all add: d' mem_rd_def nth_append)
  have s: "skip_fill (fdata f) (length pre) = Some (length pre)"
    using m by (subst skip_fill.simps) (simp add: d' nth_append)
  have k: "length pre + unat n + 2 = length (pre @ segment m b)" using n(2) by simp
  have "jpeg_scan f (length pre) out = do {
    (ret, out) \<leftarrow> jpeg_marker (fdata f) m (length pre + 4) (uint n - 2) out;
    if ret < 0 then Some (0, out\<lparr>scan_data_len := 0\<rparr>) else jpeg_scan f (length pre + unat n + 2) out }"
    using m f by (subst jpeg_scan.simps) (simp add: r s g g [unfolded add_2_eq_Suc'])
  then show ?thesis unfolding k u by simp
qed

text \<open>What each segment does to the state.\<close>

definition seg_effect :: "nat \<Rightarrow> u8 \<times> u8 list \<Rightarrow> rtp_jpeg \<Rightarrow> rtp_jpeg \<Rightarrow> bool" where
  "seg_effect n mb out out' \<longleftrightarrow> (\<forall>pre post. length pre = n \<longrightarrow>
     jpeg_marker (pre @ segment (fst mb) (snd mb) @ post) (fst mb) (n + 4) (int (length (snd mb))) out = Some (0, out'))"

lemma seg_effectI:
  assumes "\<And>d. (\<And>k. k < length b \<Longrightarrow> mem_rd d (n + 4 + k) = Some (b ! k)) \<Longrightarrow>
      (\<And>k r v. drop k b = PUT_16 v @ r \<Longrightarrow> get_16 d (n + 4 + k) = Some (v AND 0xffff)) \<Longrightarrow>
      jpeg_marker d m (n + 4) (int (length b)) out = Some (0, out')"
  shows "seg_effect n (m, b) out out'"
  unfolding seg_effect_def fst_conv snd_conv
proof (intro allI impI assms)
  fix pre post :: "u8 list" and k assume p: "length pre = n"
  then show "k < length b \<Longrightarrow> mem_rd (pre @ segment m b @ post) (n + 4 + k) = Some (b ! k)"
    by (simp add: mem_rd_def segment_def nth_append)
  fix r v assume d: "drop k b = PUT_16 v @ r"
  then have k: "k < length b" by (metis drop_eq_Nil append_is_Nil_conv length_PUT(1) linorder_not_le list.size(3) zero_neq_numeral)
  have "pre @ segment m b @ post = (pre @ [0xFF, m] @ PUT_16 (of_nat (length b + 2)) @ take k b) @ PUT_16 v @ r @ post"
    using d by (simp add: segment_def) (metis append.assoc append_take_drop_id)
  then show "get_16 (pre @ segment m b @ post) (n + 4 + k) = Some (v AND 0xffff)"
    using p k get_16_PUT [of "pre @ [0xFF, m] @ PUT_16 (of_nat (length b + 2)) @ take k b" "n + 4 + k" v "r @ post"] by simp
qed

lemma dqt_effect:
  assumes "length t = 64" "\<not> init_done out" "tid = 0 \<or> tid = 1"
  shows "seg_effect n (0xDB, tid # t) out (out\<lparr>quant := (quant out)[unat tid := int (n + 5)]\<rparr>)"
proof (rule seg_effectI)
  fix d assume r: "\<And>k. k < length (tid # t) \<Longrightarrow> mem_rd d (n + 4 + k) = Some ((tid # t) ! k)"
  have "mem_rd d (n + 4) = Some tid" using r [of 0] by simp
  then show "jpeg_marker d 0xDB (n + 4) (int (length (tid # t))) out = Some (0, out\<lparr>quant := (quant out)[unat tid := int (n + 5)]\<rparr>)"
    using assms by (auto simp: jpeg_marker_def parse_DQT.simps [of _ _ _ 0] parse_DQT.simps [of _ _ _ 65] add.commute)
qed

lemma sof_effect:
  assumes "\<not> init_done out" "sp = 0x21 \<or> sp = 0x22" "w AND 7 = 0" "h AND 7 = 0" "w < 65536" "h < 65536"
  shows "seg_effect n (0xC0, sof_body sp w h) out (out\<lparr>jtype := (jtype out AND NOT 1) OR (if sp = 0x22 then 1 else 0),
    width := drop_bit 3 w, height := drop_bit 3 h, luma_table := 0, chroma_table := 1\<rparr>)"
proof (rule seg_effectI)
  let ?b = "sof_body sp w h"
  fix d assume r: "\<And>k. k < length ?b \<Longrightarrow> mem_rd d (n + 4 + k) = Some (?b ! k)"
    and g: "\<And>k r v. drop k ?b = PUT_16 v @ r \<Longrightarrow> get_16 d (n + 4 + k) = Some (v AND 0xffff)"
  have h: "get_16 d (n + 4 + 1) = Some h" using g [of 1 h] assms(6) by (simp add: sof_body_def and_ffff_small)
  have w: "get_16 d (n + 4 + 3) = Some w" using g [of 3 w] assms(5) by (simp add: sof_body_def and_ffff_small numeral_eq_Suc)
  have b: "length ?b = 15" "?b ! 0 = 8" "?b ! 5 = 3" "?b ! 6 = 1" "?b ! 7 = sp" "?b ! 8 = 0" "?b ! 9 = 2" "?b ! 10 = 0x11" "?b ! 11 = 1"
      "?b ! 12 = 3" "?b ! 13 = 0x11" "?b ! 14 = 1"
    by (simp_all add: sof_body_def nth_append PUT_16_def numeral_eq_Suc)
  have m: "mem_rd d (n + 4 + k) = Some (?b ! k)" if "k < 15" for k using r b(1) that by simp
  have m0: "mem_rd d (n + 4) = Some 8" using m [of 0] b by simp
  note ms = m [of 5, simplified b, simplified] m [of 6, simplified b, simplified] m [of 7, simplified b, simplified]
    m [of 8, simplified b, simplified] m [of 9, simplified b, simplified] m [of 10, simplified b, simplified]
    m [of 11, simplified b, simplified] m [of 12, simplified b, simplified] m [of 13, simplified b, simplified]
    m [of 14, simplified b, simplified]
  have p: "parse_SOF d (n + 4) out = sof_loop d (n + 4) [6, 9, 12]
      (out\<lparr>chroma_table := - 1, height := drop_bit 3 h, width := drop_bit 3 w\<rparr>)"
    unfolding parse_SOF_def m0 h w using ms assms(3, 4) by simp
  show "jpeg_marker d 0xC0 (n + 4) (int (length ?b)) out = Some (0, out\<lparr>jtype := (jtype out AND NOT 1) OR (if sp = 0x22 then 1 else 0),
    width := drop_bit 3 w, height := drop_bit 3 h, luma_table := 0, chroma_table := 1\<rparr>)"
    unfolding jpeg_marker_def p using ms assms(1, 2) by auto
qed

lemma dht_effect: "seg_effect n (0xC4, b) out (parse_DHT (n + 4) (int (length b)) out)"
  by (rule seg_effectI) (simp add: jpeg_marker_def)

lemma dri_effect:
  assumes "\<not> init_done out" "r < 65536" "r \<noteq> 0"
  shows "seg_effect n (0xDD, PUT_16 r) out (out\<lparr>jtype := jtype out OR 0x40, reset_interval := r,
    exthdr := take 2 (exthdr out) @ PUT_16 r @ drop 4 (exthdr out)\<rparr>)"
proof (rule seg_effectI)
  fix d assume "\<And>k p v. drop k (PUT_16 r) = PUT_16 v @ p \<Longrightarrow> get_16 d (n + 4 + k) = Some (v AND 0xffff)"
  from this [of 0 r "[]"] have "get_16 d (n + 4) = Some r" using assms(2) by (simp add: and_ffff_small)
  then show "jpeg_marker d 0xDD (n + 4) (int (length (PUT_16 r))) out = Some (0, out\<lparr>jtype := jtype out OR 0x40, reset_interval := r,
    exthdr := take 2 (exthdr out) @ PUT_16 r @ drop 4 (exthdr out)\<rparr>)"
    using assms by (simp add: jpeg_marker_def parse_DRI_def)
qed

lemma other_effect:
  assumes "m \<notin> {0xDB, 0xC0, 0xC4, 0xDD}"
  shows "seg_effect n (m, b) out out"
  by (rule seg_effectI) (use assms in \<open>simp add: jpeg_marker_def\<close>)

text \<open>A sequence of segments.\<close>

fun effects :: "nat \<Rightarrow> (u8 \<times> u8 list) list \<Rightarrow> rtp_jpeg \<Rightarrow> rtp_jpeg \<Rightarrow> bool" where
  "effects n [] out out' \<longleftrightarrow> out' = out"
| "effects n (s # ss) out out' \<longleftrightarrow> (\<exists>out1. seg_effect n s out out1 \<and> effects (n + 4 + length (snd s)) ss out1 out')"

abbreviation seg_bytes :: "(u8 \<times> u8 list) list \<Rightarrow> u8 list" where
  "seg_bytes ss \<equiv> concat (map (\<lambda>(m, b). segment m b) ss)"

lemma effects_append:
  "effects n (ss @ ts) out out' \<longleftrightarrow> (\<exists>out1. effects n ss out out1 \<and> effects (n + length (seg_bytes ss)) ts out1 out')"
proof (induction ss arbitrary: n out)
  case (Cons s ss)
  then show ?case by (cases s) (simp add: ac_simps, blast)
qed simp

lemma jpeg_scan_segments:
  assumes "effects (length pre) ss out out'" "fdata f = pre @ seg_bytes ss @ post" "post \<noteq> []" "first_length f = int (length (fdata f))"
    "\<forall>(m, b) \<in> set ss. length b < 65534 \<and> m \<notin> {0xFF, 0xD8, 0xDA}"
  shows "jpeg_scan f (length pre) out = jpeg_scan f (length (pre @ seg_bytes ss)) out'"
  using assms
proof (induction ss arbitrary: pre out)
  case (Cons s ss)
  obtain m b where s: "s = (m, b)" by (cases s)
  obtain out1 where o: "seg_effect (length pre) (m, b) out out1" "effects (length (pre @ segment m b)) ss out1 out'"
    using Cons.prems(1) by (auto simp: s ac_simps)
  have d: "fdata f = pre @ segment m b @ seg_bytes ss @ post" using Cons.prems(2) by (simp add: s)
  have "jpeg_marker (fdata f) m (length pre + 4) (int (length b)) out = Some (0, out1)"
    using o(1) unfolding seg_effect_def d by simp
  then have "jpeg_scan f (length pre) out = jpeg_scan f (length (pre @ segment m b)) out1"
    using jpeg_scan_segment [OF d, of out] Cons.prems(4, 5) by (simp add: d s)
  also have "\<dots> = jpeg_scan f (length ((pre @ segment m b) @ seg_bytes ss)) out'"
    using Cons.IH [OF o(2)] Cons.prems(3-5) d by simp
  finally show ?case by (simp add: s)
qed simp

section \<open>The parser finds the tables\<close>

definition quant_at :: "jpeg_image \<Rightarrow> nat" where
  "quant_at im = length (seg_bytes (others im)) + 7"

definition jpeg_type :: "jpeg_image \<Rightarrow> u32" where
  "jpeg_type im = (if samp im = 0x22 then 1 else 0) OR (if restart im = 0 then 0 else 0x40)"

definition scan_at :: "jpeg_image \<Rightarrow> nat" where
  "scan_at im = length (jpeg_bytes im) - length (scan im)"

text \<open>The state the parser leaves.\<close>

definition parsed :: "jpeg_image \<Rightarrow> rtp_jpeg \<Rightarrow> bool" where
  "parsed im out \<longleftrightarrow> jtype out = jpeg_type im \<and> width out = drop_bit 3 (img_w im) \<and> height out = drop_bit 3 (img_h im)
     \<and> luma_table out = 0 \<and> chroma_table out = 1 \<and> length (quant out) = 16
     \<and> quant out ! 0 = int (quant_at im) \<and> quant out ! 1 = int (quant_at im + 69)
     \<and> length (exthdr out) = 6 \<and> (restart im \<noteq> 0 \<longrightarrow> [exthdr out ! 2, exthdr out ! 3] = PUT_16 (restart im))"

lemma others_effects: "\<forall>(m, b) \<in> set ss. m \<notin> {0xDB, 0xC0, 0xC4, 0xDD} \<Longrightarrow> effects n ss out out"
  by (induction ss arbitrary: n) (auto intro!: exI other_effect)

lemma dht_effects:
  "length (exthdr out) = 6 \<Longrightarrow> \<exists>a b e. length e = 6 \<and> effects n (map (Pair 0xC4) hs) out (out\<lparr>huffoff := a, hufflen := b, exthdr := e\<rparr>)"
proof (induction hs arbitrary: n out)
  case Nil
  then show ?case by (intro exI [of _ "huffoff out"] exI [of _ "hufflen out"] exI [of _ "exthdr out"]) simp
next
  case (Cons h hs)
  let ?o = "parse_DHT (n + 4) (int (length h)) out"
  have l: "length (exthdr ?o) = 6" using Cons.prems by (simp add: parse_DHT_def Let_def)
  have o: "?o\<lparr>huffoff := a, hufflen := b, exthdr := e\<rparr> = out\<lparr>huffoff := a, hufflen := b, exthdr := e\<rparr>" for a b e
    by (simp add: parse_DHT_def Let_def)
  from Cons.IH [OF l, of "n + 4 + length h"] show ?case using dht_effect [of n h out] unfolding o by auto
qed

lemma put_in_exthdr:
  "length e = 6 \<Longrightarrow> [(take 2 e @ PUT_16 r @ drop 4 e) ! 2, (take 2 e @ PUT_16 r @ drop 4 e) ! 3] = PUT_16 r"
  by (simp add: nth_append PUT_16_def)

lemma image_effects:
  assumes i: "image_ok im" and o: "\<not> init_done out" "quant out = replicate 16 0" "jtype out = 0" "length (exthdr out) = 6"
  shows "\<exists>out'. effects 2 (segments im) out out' \<and> parsed im out' \<and> jtimestamp out' = jtimestamp out"
proof -
  let ?n = "2 + length (seg_bytes (others im))"
  define o1 where "o1 = out\<lparr>quant := (quant out)[0 := int (?n + 5)]\<rparr>"
  define o2 where "o2 = o1\<lparr>quant := (quant o1)[1 := int (?n + 69 + 5)]\<rparr>"
  define o3 where "o3 = o2\<lparr>jtype := (jtype o2 AND NOT 1) OR (if samp im = 0x22 then 1 else 0),
    width := drop_bit 3 (img_w im), height := drop_bit 3 (img_h im), luma_table := 0, chroma_table := 1\<rparr>"
  have e0: "effects 2 (others im) out out" using i by (intro others_effects) (auto simp: image_ok_def)
  have e1: "seg_effect ?n (0xDB, 0 # luma im) out o1"
    using dqt_effect [of "luma im" out 0 ?n] i o by (simp add: image_ok_def o1_def)
  have e2: "seg_effect (?n + 69) (0xDB, 1 # chroma im) o1 o2"
    using dqt_effect [of "chroma im" o1 1 "?n + 69"] i o by (simp add: image_ok_def o1_def o2_def)
  have w: "img_w im < 65536" "img_h im < 65536" using i by (auto simp: image_ok_def word_less_nat_alt)
  have e3: "seg_effect (?n + 138) (0xC0, sof_body (samp im) (img_w im) (img_h im)) o2 o3"
    using sof_effect [of o2 "samp im" "img_w im" "img_h im" "?n + 138"] i o w by (simp add: image_ok_def o1_def o2_def o3_def)
  have "length (exthdr o3) = 6" using o by (simp add: o1_def o2_def o3_def)
  then obtain a b e where h: "length e = 6"
      "effects (?n + 157) (map (Pair 0xC4) (huffs im)) o3 (o3\<lparr>huffoff := a, hufflen := b, exthdr := e\<rparr>)"
    using dht_effects [of o3 "?n + 157" "huffs im"] by blast
  define o4 where "o4 = o3\<lparr>huffoff := a, hufflen := b, exthdr := e\<rparr>"
  define o5 where "o5 = (if restart im = 0 then o4 else o4\<lparr>jtype := jtype o4 OR 0x40, reset_interval := restart im,
    exthdr := take 2 (exthdr o4) @ PUT_16 (restart im) @ drop 4 (exthdr o4)\<rparr>)"
  have e5: "effects m (if restart im = 0 then [] else [(0xDD, PUT_16 (restart im))]) o4 o5" for m
    using dri_effect [of o4 "restart im" m] i o by (simp add: o1_def o2_def o3_def o4_def o5_def image_ok_def)
  have l: "length (sof_body sp ww hh) = 15" for sp ww hh by (simp add: sof_body_def)
  have e: "effects 2 (segments im) out o5"
    unfolding segments_def effects_append using e0 e1 e2 e3 h(2) [folded o4_def] e5 i
    by (fastforce simp: image_ok_def l ac_simps)
  have q: "quant o5 = ((replicate 16 0)[0 := int (?n + 5)])[1 := int (?n + 69 + 5)]"
    using o(2) by (simp add: o1_def o2_def o3_def o4_def o5_def)
  have t: "jtype o5 = jpeg_type im" using o(3) by (simp add: o1_def o2_def o3_def o4_def o5_def jpeg_type_def)
  have x: "exthdr o5 = (if restart im = 0 then e else take 2 e @ PUT_16 (restart im) @ drop 4 e)"
    by (simp add: o4_def o5_def)
  have r: "width o5 = drop_bit 3 (img_w im)" "height o5 = drop_bit 3 (img_h im)" "luma_table o5 = 0" "chroma_table o5 = 1"
    "jtimestamp o5 = jtimestamp out" by (simp_all add: o1_def o2_def o3_def o4_def o5_def)
  have "parsed im o5 \<and> jtimestamp o5 = jtimestamp out"
    unfolding parsed_def q t x r quant_at_def using h(1) put_in_exthdr [OF h(1)] by simp
  then show ?thesis using e by blast
qed

lemma jpeg_scan_sos:
  assumes "fdata f = pre @ segment 0xDA sos_body @ post" "first_length f = int (length (fdata f))"
  shows "jpeg_scan f (length pre) out
    = Some (1, out\<lparr>init_done := True, scan_data_len := flen f - int (length pre + 14), scan_offset := int (length pre + 14)\<rparr>)"
proof -
  have d: "fdata f = pre @ [0xFF, 0xDA] @ PUT_16 12 @ sos_body @ post"
    using assms(1) by (simp add: segment_def sos_body_def)
  have r: "mem_rd (fdata f) (length pre) = Some 0xFF" "mem_rd (fdata f) (Suc (length pre)) = Some 0xDA"
    by (simp_all add: d mem_rd_def nth_append)
  have s: "skip_fill (fdata f) (length pre) = Some (length pre)"
    by (subst skip_fill.simps) (simp add: d nth_append)
  have g: "get_16 (fdata f) (length pre + 2) = Some 12"
    using get_16_PUT [of "pre @ [0xFF, 0xDA]" "length pre + 2" 12 "sos_body @ post"] by (simp add: d)
  have "int (length pre) < first_length f" by (simp add: assms(2) d)
  then show ?thesis by (subst jpeg_scan.simps) (simp add: r s g g [unfolded add_2_eq_Suc'])
qed

lemma jpeg_scan_soi:
  assumes "fdata f = [0xFF, 0xD8] @ post" "first_length f = int (length (fdata f))"
  shows "jpeg_scan f 0 out = jpeg_scan f 2 out"
proof -
  have s: "skip_fill (0xFF # 0xD8 # post) 0 = Some 0" by (subst skip_fill.simps) simp
  show ?thesis by (subst jpeg_scan.simps) (simp add: s assms jpeg_marker_def mem_rd_def, simp add: numeral_2_eq_2)
qed

lemma jpeg_image_parsed:
  assumes i: "image_ok im" and f: "fdata f = jpeg_bytes im" "first_length f = int (length (fdata f))" "flen f = int (length (fdata f))"
    and o: "length (exthdr out) = 6" "usb_en \<or> \<not> init_done out"
  shows "\<exists>out'. jpeg_process_frame usb_en f out = Some (1, out') \<and> parsed im out'
    \<and> scan_offset out' = int (scan_at im) \<and> scan_data_len out' = int (length (scan im))
    \<and> jtimestamp out' = word_of_int ((25 * ts_incr out) sdiv 1000) * ftimestamp f"
proof -
  let ?ts = "word_of_int ((25 * ts_incr out) sdiv 1000) * ftimestamp f"
  define o0 where "o0 = out\<lparr>jtimestamp := ?ts, init_done := False, quant := replicate 16 0, jtype := 0, reset_interval := 0,
    hufflen := 0, exthdr := [0, 0] @ drop 2 (exthdr out)\<rparr>"
  have p: "jpeg_process_frame usb_en f out = jpeg_scan f 0 o0"
    using o(2) by (cases usb_en; cases out) (simp_all add: jpeg_process_frame_def Let_def o0_def)
  obtain o1 where o1: "effects 2 (segments im) o0 o1" "parsed im o1" "jtimestamp o1 = ?ts"
    using image_effects [OF i, of o0] o(1) by (auto simp: o0_def)
  let ?pre = "[0xFF, 0xD8] @ seg_bytes (segments im)"
  have d: "fdata f = [0xFF, 0xD8] @ seg_bytes (segments im) @ segment 0xDA sos_body @ scan im"
    using f(1) by (simp add: jpeg_bytes_def)
  have m: "\<forall>(m, b) \<in> set (segments im). length b < 65534 \<and> m \<notin> {0xFF, 0xD8, 0xDA}"
    using i by (auto simp: image_ok_def segments_def)
  have "jpeg_scan f 0 o0 = jpeg_scan f 2 o0" using jpeg_scan_soi [of f "seg_bytes (segments im) @ segment 0xDA sos_body @ scan im"] d f(2) by simp
  also have "\<dots> = jpeg_scan f (length [0xFF :: u8, 0xD8]) o0" by (simp add: numeral_2_eq_2)
  also have "\<dots> = jpeg_scan f (length ?pre) o1"
  proof (rule jpeg_scan_segments [OF _ _ _ f(2) m])
    show "effects (length [0xFF :: u8, 0xD8]) (segments im) o0 o1" using o1(1) by (simp add: numeral_2_eq_2)
    show "fdata f = [0xFF, 0xD8] @ seg_bytes (segments im) @ segment 0xDA sos_body @ scan im" by (fact d)
    show "segment 0xDA sos_body @ scan im \<noteq> []" by (simp add: segment_def)
  qed
  also have "\<dots> = Some (1, o1\<lparr>init_done := True, scan_data_len := flen f - int (length ?pre + 14), scan_offset := int (length ?pre + 14)\<rparr>)"
    using jpeg_scan_sos [of f ?pre "scan im"] d f(2) by simp
  finally have r: "jpeg_process_frame usb_en f out
      = Some (1, o1\<lparr>init_done := True, scan_data_len := flen f - int (length ?pre + 14), scan_offset := int (length ?pre + 14)\<rparr>)"
    using p by simp
  have a: "length ?pre + 14 = scan_at im" by (simp add: scan_at_def jpeg_bytes_def sos_body_def)
  have "flen f - int (scan_at im) = int (length (scan im))" by (simp add: f(1, 3) scan_at_def jpeg_bytes_def)
  then show ?thesis using r o1(2, 3) unfolding a by (auto simp: parsed_def)
qed

section \<open>The receiver\<close>

text \<open>RFC 2435: the header of 8 bytes, the restart header of types from 64 on, and the tables in the packet at offset 0. The
  fragments have to follow one another with the same header, up to the marker.\<close>

definition pkt_hlen :: "u8 list \<Rightarrow> nat" where
  "pkt_hlen p = (if (p ! 4) AND 0x40 \<noteq> 0 then 12 else 8)"

definition pkt_hdr :: "u8 list \<Rightarrow> u8 list" where
  "pkt_hdr p = p ! 0 # take (pkt_hlen p - 4) (drop 4 p)"

definition pkt_off :: "u8 list \<Rightarrow> nat" where
  "pkt_off p = unat (p ! 1) * 65536 + unat (p ! 2) * 256 + unat (p ! 3)"

definition pkt_data :: "u8 list \<Rightarrow> u8 list" where
  "pkt_data p = drop (pkt_hlen p + (if pkt_off p = 0 then 132 else 0)) p"

fun jpeg_collect :: "u8 list \<Rightarrow> nat \<Rightarrow> (u32 \<times> bool \<times> u8 list) list \<Rightarrow> u8 list option" where
  "jpeg_collect hdr n [] = None"
| "jpeg_collect hdr n ((s, m, p) # ps) =
     (if pkt_hdr p \<noteq> hdr \<or> pkt_off p \<noteq> n then None
      else if m then (if ps = [] then Some (pkt_data p) else None)
      else map_option ((@) (pkt_data p)) (jpeg_collect hdr (n + length (pkt_data p)) ps))"

text \<open>Type, size, restart interval, tables and scan.\<close>

definition jpeg_receive ::
  "(u32 \<times> bool \<times> u8 list) list \<Rightarrow> (u8 \<times> nat \<times> nat \<times> u8 list \<times> u8 list \<times> u8 list \<times> u8 list) option" where
  "jpeg_receive ps = (case ps of [] \<Rightarrow> None
     | (s, m, p) # _ \<Rightarrow> do {
         _ \<leftarrow> assert_that (p ! 5 = 255 \<and> take 4 (drop (pkt_hlen p) p) = [0, 0, 0, 128]);
         sc \<leftarrow> jpeg_collect (pkt_hdr p) 0 ps;
         Some (p ! 4, 8 * unat (p ! 6), 8 * unat (p ! 7), take (pkt_hlen p - 8) (drop 8 p),
               take 64 (drop (pkt_hlen p + 4) p), take 64 (drop (pkt_hlen p + 68) p), sc) })"

lemma length_vhdr: "length (jpeg_vhdr out i) = (if jtype out AND 0x40 \<noteq> 0 then 12 else 8)"
  by (simp add: jpeg_vhdr_def)

lemma u8_of_int: "unat (word_of_int (int n) :: u8) = n mod 256"
  by (simp add: unsigned_of_nat take_bit_eq_mod)

lemma and_40_bit: "x AND (0x40 :: 'a::len word) = 0 \<longleftrightarrow> \<not> bit x 6"
  using and_exp_eq_0_iff_not_bit [of x 6] by simp

lemma vhdr_type: "(jpeg_vhdr out i @ r) ! 4 AND 0x40 = 0 \<longleftrightarrow> jtype out AND 0x40 = 0"
proof -
  have "(jpeg_vhdr out i @ r) ! 4 = ucast (jtype out)" by (simp add: jpeg_vhdr_def)
  then show ?thesis by (simp only: and_40_bit) (simp add: bit_simps)
qed

lemma vhdr_packet:
  assumes "i < 2 ^ 24"
  shows "pkt_hlen (jpeg_vhdr out (int i) @ r) = length (jpeg_vhdr out (int i))"
    "pkt_hdr (jpeg_vhdr out (int i) @ r) = pkt_hdr (jpeg_vhdr out 0)"
    "pkt_off (jpeg_vhdr out (int i) @ r) = i"
proof -
  show l: "pkt_hlen (jpeg_vhdr out (int i) @ r) = length (jpeg_vhdr out (int i))" for i r
    using vhdr_type [of out "int i" r] by (simp add: pkt_hlen_def length_vhdr)
  show "pkt_hdr (jpeg_vhdr out (int i) @ r) = pkt_hdr (jpeg_vhdr out 0)"
    using l [of i r] l [of 0 "[]"] by (simp add: pkt_hdr_def length_vhdr) (simp add: jpeg_vhdr_def)
  have "i div 65536 < 256" using assms by simp
  then have "unat ((jpeg_vhdr out (int i) @ r) ! 1) = i div 65536" "unat ((jpeg_vhdr out (int i) @ r) ! 2) = i div 256 mod 256"
      "unat ((jpeg_vhdr out (int i) @ r) ! 3) = i mod 256"
    using u8_of_int [of "i div 65536"] u8_of_int [of "i div 256 mod 256"] u8_of_int [of "i mod 256"]
    by (simp_all add: jpeg_vhdr_def zdiv_int zmod_int)
  moreover have "i div 65536 = i div 256 div 256" by (simp add: div_mult2_eq [symmetric])
  then have "i div 65536 * 65536 + i div 256 mod 256 * 256 + i mod 256 = i"
    using div_mult_mod_eq [of i 256] div_mult_mod_eq [of "i div 256" 256] by linarith
  ultimately show "pkt_off (jpeg_vhdr out (int i) @ r) = i" by (simp add: pkt_off_def)
qed

section \<open>The payloads\<close>

lemma unat_align: "unat (x AND NOT 0x1F :: u32) = unat x div 32 * 32"
proof -
  have "x AND NOT (mask 5) = push_bit 5 (drop_bit 5 x)" by (rule bit_eqI) (auto simp: bit_simps)
  then have "x AND NOT 0x1F = push_bit 5 (drop_bit 5 x)" by (simp add: mask_eq_exp_minus_1)
  moreover have "unat x div 32 * 32 < 2 ^ 32" using unat_lt_u32 [of x] by (simp add: less_mult_imp_div_less)
  ultimately show ?thesis
    by (simp add: unat_word_ariths drop_bit_eq_div push_bit_eq_mult)
qed

lemma sint_diff:
  assumes "unat (a :: u32) < 2 ^ 24" "unat b \<le> unat a"
  shows "sint (a - b) = int (unat a) - int (unat b)"
proof -
  have "unat (a - b) = unat a - unat b" using assms(2) by (rule unat_sub_small)
  then show ?thesis using assms by (subst sint_small) auto
qed

lemma jpeg_plen:
  assumes n: "k < n" "n < 2 ^ 24" "k + p \<le> n" and p: "32 \<le> p \<or> k + p = n"
  shows "(if of_nat k + word_of_int (int p) \<ge> (of_nat n :: u32) then sint (of_nat n - of_nat k :: u32)
      else sint (((of_nat k + word_of_int (int p)) AND NOT 0x1F) - of_nat k :: u32))
    = (if k + p = n then int p else int ((k + p) div 32 * 32 - k))"
proof -
  have u: "unat (of_nat j :: u32) = j" if "j \<le> n" for j
    using that n(2) by (simp add: unsigned_of_nat take_bit_nat_eq_self)
  have s: "of_nat k + word_of_int (int p) = (of_nat (k + p) :: u32)" by simp
  have g: "of_nat (k + p) \<ge> (of_nat n :: u32) \<longleftrightarrow> k + p = n"
    using u [of "k + p"] u [of n] n(3) by (auto simp: word_le_nat_alt simp del: of_nat_add)
  show ?thesis
  proof (cases "k + p = n")
    case True
    have "sint (of_nat n - of_nat k :: u32) = int n - int k" using sint_diff [of "of_nat n" "of_nat k"] u n by simp
    then show ?thesis unfolding s g using True by auto
  next
    case False
    then have p: "32 \<le> p" using p by simp
    have a: "unat (of_nat (k + p) AND NOT 0x1F :: u32) = (k + p) div 32 * 32" unfolding unat_align u [OF n(3)] ..
    have l: "k \<le> (k + p) div 32 * 32" "(k + p) div 32 * 32 \<le> n"
      using p n(3) div_mult_mod_eq [of "k + p" 32] mod_less_divisor [of 32 "k + p"] by linarith+
    have k: "unat (of_nat k :: u32) = k" using u n(1) by simp
    have "sint ((of_nat (k + p) AND NOT 0x1F) - of_nat k :: u32) = int ((k + p) div 32 * 32) - int k"
      using sint_diff [of "of_nat (k + p) AND NOT 0x1F" "of_nat k", unfolded a k] l n(2) by linarith
    then show ?thesis unfolding s g using False l by simp
  qed
qed

text \<open>How many bytes of the scan a packet takes, from an offset in the file, with room for some bytes.\<close>

definition jpeg_chunk :: "nat \<Rightarrow> nat \<Rightarrow> nat \<Rightarrow> nat" where
  "jpeg_chunk n k room = (let p = min (n - k) room in if k + p = n then p else (k + p) div 32 * 32 - k)"

lemma jpeg_chunk_bounds:
  assumes "k < n" "32 \<le> room"
  shows "0 < jpeg_chunk n k room" "jpeg_chunk n k room \<le> n - k" "jpeg_chunk n k room \<le> room"
proof -
  let ?p = "min (n - k) room"
  have "(k + ?p) div 32 * 32 \<le> k + ?p" "k + ?p < (k + ?p) div 32 * 32 + 32"
    using div_mult_mod_eq [of "k + ?p" 32] mod_less_divisor [of 32 "k + ?p"] by linarith+
  moreover have "k + ?p \<noteq> n \<Longrightarrow> ?p = room" using assms(1) by linarith
  ultimately show "0 < jpeg_chunk n k room" "jpeg_chunk n k room \<le> n - k" "jpeg_chunk n k room \<le> room"
    using assms unfolding jpeg_chunk_def Let_def by auto
qed

text \<open>One turn of the loop.\<close>

lemma jpeg_loop_turn:
  assumes k: "scan_data_len out = int l" "start + l = length data" "length data < 2 ^ 24" "i < l"
    and room: "rtp_get_payload_size_limit ep (RTP_HEADER_SIZE + int (length (concat (jpeg_vhdr out (int i) # qt)))) = int room" "32 \<le> room"
    and c: "c = jpeg_chunk (length data) (start + i) room"
    and s: "rtp_sendmsg net clock (jpeg_vhdr out (int i) # qt @ [take c (drop (start + i) data)]) (jtimestamp out) (i + c = l) 30 ep
      = Some (0, ep')"
  shows "jpeg_loop net clock out data (of_nat (length data)) qt (int i) (of_nat (start + i)) ep
    = jpeg_loop net clock out data (of_nat (length data)) [] (int (i + c)) (of_nat (start + i + c)) ep'"
proof -
  let ?n = "length data" and ?k = "start + i" and ?p = "min (l - i) room"
  have b: "0 < c" "c \<le> l - i" using jpeg_chunk_bounds [of ?k ?n room] k room(2) by (auto simp: c)
  have u: "unat (of_nat j :: u32) = j" if "j \<le> ?n" for j
    using that k(3) by (simp add: unsigned_of_nat take_bit_nat_eq_self)
  have o: "(if of_nat ?k \<ge> (of_nat ?n :: u32) then 0 else of_nat ?k) = (of_nat ?k :: u32)"
    using u [of ?k] u [of ?n] k by (simp add: word_le_nat_alt del: of_nat_add)
  have p: "(if scan_data_len out - int i > int room then int room else scan_data_len out - int i) = int ?p"
    using k by auto
  have q: "(if of_nat ?k + word_of_int (int ?p) \<ge> (of_nat ?n :: u32) then sint (of_nat ?n - of_nat ?k :: u32)
      else sint (((of_nat ?k + word_of_int (int ?p)) AND NOT 0x1F) - of_nat ?k :: u32)) = int c"
  proof -
    have d: "?n - ?k = l - i" "?k < ?n" "?k + ?p \<le> ?n" "32 \<le> ?p \<or> ?k + ?p = ?n" using k(2, 4) room(2) by auto
    have "int c = (if ?k + ?p = ?n then int ?p else int ((?k + ?p) div 32 * 32 - ?k))"
      unfolding c jpeg_chunk_def Let_def d(1) by simp
    then show ?thesis using jpeg_plen [OF d(2) k(3) d(3, 4)] by simp
  qed
  have e: "(if int i + int c \<ge> scan_data_len out then scan_data_len out - int i else int c) = int c"
    using b k(1, 4) by auto
  have m: "mem_src data (unat (of_nat ?k :: u32)) (nat (int c)) = Some (take c (drop ?k data))"
    using b k(2, 4) u [of ?k] by (simp add: mem_src_def)
  have f: "(int c + int i = scan_data_len out) = (i + c = l)" using k(1) by auto
  have h: "(int i < scan_data_len out) = True" and z: "(int room \<le> 0) = False" using k(1, 4) room(2) by auto
  have "jpeg_loop net clock out data (of_nat ?n) qt (int i) (of_nat ?k) ep
    = jpeg_loop net clock out data (of_nat ?n) [] (int i + int c) (of_nat ?k + word_of_int (int c)) ep'"
    by (subst jpeg_loop.simps) (simp only: Let_def h o room(1) z p q e m f if_True if_False, simp add: s)
  then show ?thesis by (simp add: add.assoc)
qed

context rtp_transport begin

text \<open>The loop from an offset on sends the rest of the scan.\<close>

lemma jpeg_loop_sends:
  assumes "ready net ep" "scan_data_len out = int l" "start + l = length data" "length data < 2 ^ 24" "i < l"
    "0 < i \<or> qt \<noteq> []" "i = 0 \<longrightarrow> length (concat qt) = 132" "0 < i \<longrightarrow> qt = []" "\<forall>b \<in> set qt. b \<noteq> []" "length qt \<le> 10"
    "176 \<le> rtp_get_payload_size_limit ep RTP_HEADER_SIZE"
  shows "\<exists>ep' ps. jpeg_loop net clock out data (of_nat (length data)) qt (int i) (of_nat (start + i)) ep = Some ep' \<and> ready net ep'
    \<and> sent ep' = sent ep @ ps
    \<and> (\<forall>(s, m, p) \<in> set ps. int (length p) \<le> rtp_get_payload_size_limit ep RTP_HEADER_SIZE)
    \<and> (\<exists>s m d. fst (hd ps) = s \<and> ps \<noteq> [] \<and> snd (snd (hd ps)) = jpeg_vhdr out (int i) @ concat qt @ d)
    \<and> jpeg_collect (pkt_hdr (jpeg_vhdr out 0)) i ps = Some (drop (start + i) data)"
  using assms
proof (induction "l - i" arbitrary: i qt ep rule: less_induct)
  case less
  note a = less.prems
  let ?hl = "length (concat (jpeg_vhdr out (int i) # qt))"
  have hl: "?hl \<le> 144" using a(6-8) by (cases "i = 0") (auto simp: length_vhdr)
  define room where "room = nat (rtp_get_payload_size_limit ep (RTP_HEADER_SIZE + int ?hl))"
  have r: "rtp_get_payload_size_limit ep (RTP_HEADER_SIZE + int ?hl) = int room"
      "int room = rtp_get_payload_size_limit ep RTP_HEADER_SIZE - int ?hl" "32 \<le> room"
    using a(11) hl by (auto simp: room_def rtp_get_payload_size_limit_def Let_def split: if_splits)
  define c where "c = jpeg_chunk (length data) (start + i) room"
  have b: "0 < c" "c \<le> l - i" "c \<le> room"
    using jpeg_chunk_bounds [of "start + i" "length data" room] a(3, 5) r(3) by (auto simp: c_def)
  let ?v = "jpeg_vhdr out (int i) # qt @ [take c (drop (start + i) data)]"
  have lt: "length (take c (drop (start + i) data)) = c" using a(3, 5) b(2) by simp
  have vh: "jpeg_vhdr out (int i) \<noteq> []" by (simp add: jpeg_vhdr_def)
  have n: "take c (drop (start + i) data) \<noteq> []" using lt b(1) by fastforce
  have cv: "concat ?v = jpeg_vhdr out (int i) @ concat qt @ take c (drop (start + i) data)" by simp
  have lv: "int (length (concat ?v)) \<le> rtp_get_payload_size_limit ep RTP_HEADER_SIZE"
    unfolding cv using lt b(3) r(2) by simp
  have "fits_packet ep ?v" unfolding fits_packet_def using lv a(9, 10) vh n by auto
  then obtain ep1 where s: "rtp_sendmsg net clock ?v (jtimestamp out) (i + c = l) 30 ep = Some (0, ep1)" "ready net ep1"
      "sent ep1 = sent ep @ [(seqnum ep, i + c = l, concat ?v)]" "rtp_get_packet_size_limit ep1 = rtp_get_packet_size_limit ep"
    using send_ready [OF a(1)] by blast
  have t: "jpeg_loop net clock out data (of_nat (length data)) qt (int i) (of_nat (start + i)) ep
      = jpeg_loop net clock out data (of_nat (length data)) [] (int (i + c)) (of_nat (start + i + c)) ep1"
    using jpeg_loop_turn [OF a(2-5) r(1, 3) c_def s(1)] .
  have i: "i < 2 ^ 24" using a(3-5) by simp
  have ph: "pkt_hdr (concat ?v) = pkt_hdr (jpeg_vhdr out 0)" "pkt_off (concat ?v) = i"
      "pkt_hlen (concat ?v) = length (jpeg_vhdr out (int i))"
    unfolding cv using vhdr_packet [OF i] by simp_all
  have pd: "pkt_data (concat ?v) = take c (drop (start + i) data)"
    unfolding pkt_data_def ph unfolding cv using a(6-8) by auto
  have lim: "rtp_get_payload_size_limit ep1 m = rtp_get_payload_size_limit ep m" for m
    using s(4) by (simp add: rtp_get_payload_size_limit_def)
  show ?case
  proof (cases "i + c = l")
    case True
    have "jpeg_loop net clock out data (of_nat (length data)) [] (int (i + c)) (of_nat (start + i + c)) ep1 = Some ep1"
      by (subst jpeg_loop.simps) (use True a(2) in simp)
    moreover have "take c (drop (start + i) data) = drop (start + i) data" using True a(3) by simp
    ultimately show ?thesis using t s lv ph pd True
      by (intro exI [of _ ep1] exI [of _ "[(seqnum ep, i + c = l, concat ?v)]"]) (simp add: cv)
  next
    case False
    then have i': "i + c < l" using b(2) a(5) by linarith
    obtain ep' ps where e: "jpeg_loop net clock out data (of_nat (length data)) [] (int (i + c)) (of_nat (start + (i + c))) ep1 = Some ep'"
        "ready net ep'" "sent ep' = sent ep1 @ ps" "\<forall>(s, m, p) \<in> set ps. int (length p) \<le> rtp_get_payload_size_limit ep1 RTP_HEADER_SIZE"
        "jpeg_collect (pkt_hdr (jpeg_vhdr out 0)) (i + c) ps = Some (drop (start + (i + c)) data)"
      using less.hyps [of "i + c" ep1 "[]"] b(1) i' s(2) a(2-4) a(11) lim a(5) by fastforce
    have "take c (drop (start + i) data) @ drop (start + (i + c)) data = drop (start + i) data"
      by (metis add.assoc add.commute append_take_drop_id drop_drop)
    then show ?thesis using t e s lv ph pd False lim lt
      by (intro exI [of _ ep'] exI [of _ "(seqnum ep, i + c = l, concat ?v) # ps"]) (simp add: cv add.assoc)
  qed
qed

end

section \<open>A frame on its way\<close>

definition frame_of :: "jpeg_image \<Rightarrow> u32 \<Rightarrow> jframe" where
  "frame_of im t = \<lparr>fdata = jpeg_bytes im, flen = int (length (jpeg_bytes im)), node_len = of_nat (length (jpeg_bytes im)),
     first_length = int (length (jpeg_bytes im)), ftimestamp = t\<rparr>"

definition received :: "jpeg_image \<Rightarrow> u8 \<times> nat \<times> nat \<times> u8 list \<times> u8 list \<times> u8 list \<times> u8 list" where
  "received im = (ucast (jpeg_type im), unat (img_w im), unat (img_h im),
     if restart im = 0 then [] else PUT_16 (restart im) @ [0xFF, 0xFF], luma im, chroma im, scan im)"

lemma size_field:
  assumes "w AND 7 = 0" "w < (2048 :: u32)"
  shows "8 * unat (ucast (drop_bit 3 w) :: u8) = unat w"
proof -
  have "w AND 7 = take_bit 3 w" by (simp add: take_bit_eq_mask mask_eq_exp_minus_1)
  moreover have "unat (take_bit 3 w) = unat w mod 8" by (subst unsigned_take_bit_eq) (simp add: take_bit_eq_mod)
  ultimately have "unat w mod 8 = 0" using assms(1) by simp
  then have "8 * (unat w div 8) = unat w" by presburger
  moreover have "unat w < 2048" using assms(2) by (simp add: word_less_nat_alt)
  ultimately show ?thesis
    by (simp add: unsigned_ucast_eq unsigned_drop_bit_eq drop_bit_eq_div take_bit_nat_eq_self unat_div)
qed

lemma mem_src_mid: "mem_src (xs @ ys @ zs) (length xs) (length ys) = Some ys"
  by (simp add: mem_src_def)

lemma tables_in_file:
  assumes "image_ok im"
  shows "mem_src (jpeg_bytes im) (quant_at im) 64 = Some (luma im)" "mem_src (jpeg_bytes im) (quant_at im + 69) 64 = Some (chroma im)"
proof -
  have l: "length (luma im) = 64" "length (chroma im) = 64" using assms by (auto simp: image_ok_def)
  have p: "PUT_16 v = [ucast (drop_bit 8 v AND 0xff), ucast (v AND 0xff)]" for v by (simp add: PUT_16_def)
  obtain a b r where "jpeg_bytes im = ([0xFF, 0xD8] @ seg_bytes (others im) @ [0xFF, 0xDB, a, b, 0]) @ luma im
      @ [0xFF, 0xDB, a, b, 1] @ chroma im @ r"
    using l by (auto simp: jpeg_bytes_def segments_def segment_def p)
  moreover have "length ([0xFF, 0xD8] @ seg_bytes (others im) @ [0xFF, 0xDB, a, b, 0]) = quant_at im" by (simp add: quant_at_def)
  ultimately obtain x y where d: "jpeg_bytes im = x @ luma im @ y @ chroma im @ r" "length x = quant_at im" "length y = 5"
    by - (rule that, assumption, assumption, simp)
  show "mem_src (jpeg_bytes im) (quant_at im) 64 = Some (luma im)"
    using mem_src_mid [of x "luma im" "y @ chroma im @ r"] l d by simp
  show "mem_src (jpeg_bytes im) (quant_at im + 69) 64 = Some (chroma im)"
    using mem_src_mid [of "x @ luma im @ y" "chroma im" r] l d by simp
qed

context rtp_transport begin

lemma jpeg_frame_sent:
  assumes r: "ready net ep" "176 \<le> rtp_get_payload_size_limit ep RTP_HEADER_SIZE"
    and i: "image_ok im" "scan im \<noteq> []" "length (jpeg_bytes im) < 2 ^ 24"
    and o: "parsed im out" "scan_offset out = int (scan_at im)" "scan_data_len out = int (length (scan im))"
  shows "\<exists>ep' ps. jpeg_send_frame_to_endpoint net clock out (frame_of im t) ep = Some ep' \<and> ready net ep'
    \<and> sent ep' = sent ep @ ps \<and> (\<forall>(s, m, p) \<in> set ps. int (length p) \<le> rtp_get_payload_size_limit ep RTP_HEADER_SIZE)
    \<and> jpeg_receive ps = Some (received im)"
proof -
  let ?qt = "[[0, 0] @ PUT_16 (2 * 64), luma im, chroma im]" and ?n = "length (jpeg_bytes im)"
  have l: "length (luma im) = 64" "length (chroma im) = 64" using i by (auto simp: image_ok_def)
  have s: "scan_at im + length (scan im) = ?n" "drop (scan_at im) (jpeg_bytes im) = scan im"
  proof -
    obtain pre where "jpeg_bytes im = pre @ scan im" by (simp add: jpeg_bytes_def)
    then show "scan_at im + length (scan im) = ?n" "drop (scan_at im) (jpeg_bytes im) = scan im" by (simp_all add: scan_at_def)
  qed
  have ne: "luma im \<noteq> []" "chroma im \<noteq> []" using l by auto
  have "\<exists>ep' ps. jpeg_loop net clock out (jpeg_bytes im) (of_nat ?n) ?qt (int 0) (of_nat (scan_at im + 0)) ep = Some ep' \<and> ready net ep'
    \<and> sent ep' = sent ep @ ps
    \<and> (\<forall>(s, m, p) \<in> set ps. int (length p) \<le> rtp_get_payload_size_limit ep RTP_HEADER_SIZE)
    \<and> (\<exists>s m d. fst (hd ps) = s \<and> ps \<noteq> [] \<and> snd (snd (hd ps)) = jpeg_vhdr out (int 0) @ concat ?qt @ d)
    \<and> jpeg_collect (pkt_hdr (jpeg_vhdr out 0)) 0 ps = Some (drop (scan_at im + 0) (jpeg_bytes im))"
    by (rule jpeg_loop_sends [OF r(1) o(3) s(1) i(3)]) (use r(2) i(2) l ne in \<open>simp_all\<close>)
  then obtain ep' ps d where e: "jpeg_loop net clock out (jpeg_bytes im) (of_nat ?n) ?qt 0 (of_nat (scan_at im)) ep = Some ep'"
      "ready net ep'" "sent ep' = sent ep @ ps"
      "\<forall>(s, m, p) \<in> set ps. int (length p) \<le> rtp_get_payload_size_limit ep RTP_HEADER_SIZE" "ps \<noteq> []"
      "snd (snd (hd ps)) = jpeg_vhdr out 0 @ concat ?qt @ d" "jpeg_collect (pkt_hdr (jpeg_vhdr out 0)) 0 ps = Some (scan im)"
    using s(2) by auto
  obtain sq m p qs where ps: "ps = (sq, m, p) # qs" using e(5) by (cases ps) auto
  have p: "p = jpeg_vhdr out 0 @ [0, 0, 0, 128] @ luma im @ chroma im @ d" using e(6) by (simp add: ps PUT_16_def)
  have h: "pkt_hlen p = length (jpeg_vhdr out 0)" "pkt_hdr p = pkt_hdr (jpeg_vhdr out 0)"
    unfolding p using vhdr_packet [of 0 out] by simp_all
  have j: "jtype out AND 0x40 \<noteq> 0 \<longleftrightarrow> restart im \<noteq> 0"
    using o(1) by (auto simp: parsed_def jpeg_type_def bit.conj_disj_distrib2)
  have v: "p ! 4 = ucast (jpeg_type im)" "p ! 5 = 255" "8 * unat (p ! 6) = unat (img_w im)" "8 * unat (p ! 7) = unat (img_h im)"
    using o(1) i(1) size_field by (simp_all add: p jpeg_vhdr_def parsed_def image_ok_def)
  have w: "take (pkt_hlen p - 8) (drop 8 p) = (if restart im = 0 then [] else PUT_16 (restart im) @ [0xFF, 0xFF])"
  proof (cases "restart im = 0")
    case True
    then show ?thesis using h(1) j by (simp add: length_vhdr)
  next
    case False
    have "drop 8 (jpeg_vhdr out 0) = [exthdr out ! 2, exthdr out ! 3] @ PUT_16 0xffff"
      using False j by (simp add: jpeg_vhdr_def)
    then show ?thesis using h(1) j False o(1) by (simp add: length_vhdr p parsed_def PUT_16_def)
  qed
  have x: "take 4 (drop (pkt_hlen p) p) = [0, 0, 0, 128]" "take 64 (drop (pkt_hlen p + 4) p) = luma im"
      "take 64 (drop (pkt_hlen p + 68) p) = chroma im"
    unfolding h(1) by (simp_all add: p l)
  have rc: "jpeg_receive ps = Some (received im)"
    using e(7) v x w h(2) unfolding ps by (simp add: jpeg_receive_def received_def del: jpeg_collect.simps)
  have nat_plus_69: "nat (int k + 69) = k + 69" for k by linarith
  have t: "jpeg_table out (jpeg_bytes im) (luma_table out) = Some (luma im)"
      "jpeg_table out (jpeg_bytes im) (chroma_table out) = Some (chroma im)"
    using o(1, 3) i(2) tables_in_file [OF i(1)] nat_plus_69 by (simp_all add: jpeg_table_def parsed_def mem_rd_def)
  have "jpeg_send_frame_to_endpoint net clock out (frame_of im t) ep = Some ep'"
    using ready_enabled [OF r(1)] ready_enabled [OF e(2)] t e(1) o(2)
    by (simp add: jpeg_send_frame_to_endpoint_def frame_of_def)
  then show ?thesis using e(2-4) rc by blast
qed

lemma jpeg_delivered:
  assumes r: "ready net ep" "176 \<le> rtp_get_payload_size_limit ep RTP_HEADER_SIZE"
    and i: "image_ok im" "scan im \<noteq> []" "length (jpeg_bytes im) < 2 ^ 24"
    and o: "length (exthdr out) = 6" "usb_en \<or> \<not> init_done out"
  shows "\<exists>out' out'' ep' ps. jpeg_process_frame usb_en (frame_of im t) out = Some (1, out')
    \<and> jpeg_send_more net clock out' (frame_of im t) [ep] = Some (out'', [ep']) \<and> ready net ep'
    \<and> sent ep' = sent ep @ ps \<and> (\<forall>(s, m, p) \<in> set ps. int (length p) \<le> rtp_get_payload_size_limit ep RTP_HEADER_SIZE)
    \<and> jpeg_receive ps = Some (received im)"
proof -
  obtain out' where p: "jpeg_process_frame usb_en (frame_of im t) out = Some (1, out')" "parsed im out'"
      "scan_offset out' = int (scan_at im)" "scan_data_len out' = int (length (scan im))"
    using jpeg_image_parsed [OF i(1), of "frame_of im t" out usb_en] o by (auto simp: frame_of_def)
  let ?o = "out'\<lparr>scan_data_len := flen (frame_of im t) - scan_offset out'\<rparr>"
  have "flen (frame_of im t) - scan_offset out' = int (length (scan im))"
    using p(3) by (simp add: frame_of_def scan_at_def jpeg_bytes_def)
  then have "parsed im ?o" "scan_offset ?o = int (scan_at im)" "scan_data_len ?o = int (length (scan im))"
    using p(2, 3) by (simp_all add: parsed_def)
  from jpeg_frame_sent [OF r i this, of clock t] show ?thesis using p(1) by (auto simp: jpeg_send_more_def)
qed

end

text \<open>C3: 
  A frame of an encoder, with any tables, sampling, size, restart interval and further segments, reaches the receiver over
  UDP: the parser finds its tables, the packets stay within the limit of the endpoint, and RFC 2435 puts the type, the size,
  the restart interval, both tables and the whole scan back together.
\<close>

theorem jpeg_frame_over_udp:
  assumes "udp_ready net ep" "176 \<le> rtp_get_payload_size_limit ep RTP_HEADER_SIZE"
    "image_ok im" "scan im \<noteq> []" "length (jpeg_bytes im) < 2 ^ 24" "length (exthdr out) = 6" "usb_en \<or> \<not> init_done out"
  shows "\<exists>out' out'' ep' ps. jpeg_process_frame usb_en (frame_of im t) out = Some (1, out')
    \<and> jpeg_send_more net clock out' (frame_of im t) [ep] = Some (out'', [ep']) \<and> udp_ready net ep'
    \<and> map rtp_packet (wire ep') = map rtp_packet (wire ep) @ ps
    \<and> (\<forall>(s, m, p) \<in> set ps. int (length p) \<le> rtp_get_payload_size_limit ep RTP_HEADER_SIZE)
    \<and> jpeg_receive ps = Some (received im)"
  using udp.jpeg_delivered [OF assms] unfolding udp_sent_def .

definition demo_image :: jpeg_image where
  "demo_image = \<lparr>others = [(0xE0, [74, 70, 73, 70, 0])], luma = replicate 64 16, chroma = replicate 64 17, samp = 0x22,
     img_w = 640, img_h = 480, huffs = [[0, 1, 2], [16, 3]], restart = 4, scan = replicate 100 7\<rparr>"

definition demo_jpeg :: rtp_jpeg where
  "demo_jpeg = \<lparr>jtype = 0, width = 0, height = 0, luma_table = 0, chroma_table = 0, quant = [], huffoff = 0, hufflen = 0,
     exthdr = replicate 6 0, scan_data_len = 0, scan_offset = 0, init_done = False, ts_incr = 3600, jtimestamp = 0, reset_interval = 0\<rparr>"

lemma demo_image_ok: "image_ok demo_image" "scan demo_image \<noteq> []" "length (jpeg_bytes demo_image) < 2 ^ 24"
  by (simp_all add: image_ok_def demo_image_def segments_def sof_body_def jpeg_bytes_def sos_body_def)

lemma jpeg_frame_over_udp_witness:
  "\<exists>out' out'' ep. jpeg_process_frame False (frame_of demo_image 0) demo_jpeg = Some (1, out')
    \<and> jpeg_send_more demo_net (\<lambda>k. 0) out' (frame_of demo_image 0) [demo_ep RTP_TRANS_UDP 200] = Some (out'', [ep])
    \<and> jpeg_receive (map rtp_packet (wire ep))
      = Some (0x41, 640, 480, [0, 4, 0xFF, 0xFF], replicate 64 16, replicate 64 17, replicate 100 7)"
proof -
  have l: "176 \<le> rtp_get_payload_size_limit (demo_ep RTP_TRANS_UDP 200) RTP_HEADER_SIZE"
    by (simp add: demo_ep_def rtp_get_payload_size_limit_def rtp_get_packet_size_limit_def)
  have j: "length (exthdr demo_jpeg) = 6" "False \<or> \<not> init_done demo_jpeg" by (simp_all add: demo_jpeg_def)
  have r: "received demo_image = (0x41, 640, 480, [0, 4, 0xFF, 0xFF], replicate 64 16, replicate 64 17, replicate 100 7)"
    by (simp add: received_def demo_image_def jpeg_type_def PUT_16_def)
  show ?thesis
    using jpeg_frame_over_udp [OF udp_ready_demo l demo_image_ok j, of 0 "\<lambda>k. 0"] unfolding r demo_ep_empty by auto
qed

end
