(* ===== verification/OsalFile.thy ===== *)
theory OsalFile
  imports Prelude
begin

text \<open>
  Files as \<open>sdk/lib/fs/fatfs/osal_file.c\<close> gives them to the application, and the interface of the muxers to a file,
  \<open>sdk/app/record/muxer_file_ops.h\<close>.

  FatFs itself is not modelled; what it documents of \<open>f_read\<close>, \<open>f_write\<close>, \<open>f_lseek\<close> and \<open>f_truncate\<close> is. An open file is
  its content, size and position. \<open>disk k n\<close> is the number of bytes the \<open>k\<close>-th write manages of the \<open>n\<close> it is asked for
  (0 for an error), an argument. Offsets are natural numbers, files stay below 4 GB.
\<close>

type_synonym disk = "nat \<Rightarrow> nat \<Rightarrow> nat"

record ffile =
  fcontent :: "nat \<Rightarrow> u8"
  fsize :: nat
  fpos :: nat
  fwritable :: bool
  fcalls :: nat

text \<open>Bytes laid over a content.\<close>

definition overlay :: "(nat \<Rightarrow> u8) \<Rightarrow> nat \<Rightarrow> u8 list \<Rightarrow> nat \<Rightarrow> u8" where
  "overlay c off bs = (\<lambda>i. if off \<le> i \<and> i < off + length bs then bs ! (i - off) else c i)"

definition bytes_at :: "(nat \<Rightarrow> u8) \<Rightarrow> nat \<Rightarrow> nat \<Rightarrow> u8 list" where
  "bytes_at c off n = map c [off..<off + n]"

section \<open>Operations\<close>

definition osal_fwrite :: "disk \<Rightarrow> u8 list \<Rightarrow> ffile \<Rightarrow> nat \<times> ffile" where
  "osal_fwrite disk bs f =
     (let n = min (disk (fcalls f) (length bs)) (length bs)
      in (n, f\<lparr>fcontent := overlay (fcontent f) (fpos f) (take n bs), fsize := max (fsize f) (fpos f + n),
               fpos := fpos f + n, fcalls := fcalls f + 1\<rparr>))"

definition osal_fread :: "nat \<Rightarrow> ffile \<Rightarrow> u8 list \<times> ffile" where
  "osal_fread n f =
     (let m = min n (fsize f - fpos f) in (bytes_at (fcontent f) (fpos f) m, f\<lparr>fpos := fpos f + m\<rparr>))"

text \<open>Seeking behind the end extends a file that is open for writing, and goes to the end of one that is not.\<close>

definition osal_fseek :: "nat \<Rightarrow> ffile \<Rightarrow> ffile" where
  "osal_fseek off f =
     (if fwritable f then f\<lparr>fpos := off, fsize := max (fsize f) off\<rparr> else f\<lparr>fpos := min off (fsize f)\<rparr>)"

definition osal_ftell :: "ffile \<Rightarrow> nat" where
  "osal_ftell f = fpos f"

definition osal_fsize :: "ffile \<Rightarrow> nat" where
  "osal_fsize f = fsize f"

definition osal_ftruncate :: "ffile \<Rightarrow> ffile" where
  "osal_ftruncate f = f\<lparr>fsize := fpos f\<rparr>"

section \<open>Lemmas\<close>

lemma overlay_Nil [simp]: "overlay c off [] = c"
  by (rule ext) (auto simp: overlay_def)

lemma overlay_outside: "i < off \<or> off + length bs \<le> i \<Longrightarrow> overlay c off bs i = c i"
  by (auto simp: overlay_def)

lemma overlay_inside: "off \<le> i \<Longrightarrow> i < off + length bs \<Longrightarrow> overlay c off bs i = bs ! (i - off)"
  by (simp add: overlay_def)

lemma overlay_append: "overlay c off (bs @ cs) = overlay (overlay c off bs) (off + length bs) cs"
  by (rule ext) (auto simp: overlay_def nth_append)

lemma overlay_overlay: "overlay (overlay c off bs) off cs = overlay c off (cs @ drop (length cs) bs)"
  by (rule ext) (auto simp: overlay_def nth_append)

lemma overlay_commute:
  "off + length bs \<le> off' \<or> off' + length cs \<le> off \<Longrightarrow>
   overlay (overlay c off bs) off' cs = overlay (overlay c off' cs) off bs"
  by (rule ext) (auto simp: overlay_def)

text \<open>A part laid inside another.\<close>

lemma overlay_within:
  assumes "off \<le> off'" "off' + length cs \<le> off + length bs"
  shows "overlay (overlay c off bs) off' cs
    = overlay c off (take (off' - off) bs @ cs @ drop (off' - off + length cs) bs)"
proof -
  define a where "a = take (off' - off) bs"
  define m where "m = take (length cs) (drop (off' - off) bs)"
  define d where "d = drop (off' - off + length cs) bs"
  have l: "off + length a = off'" "length m = length cs" using assms by (simp_all add: a_def m_def)
  have bs: "bs = a @ m @ d" by (simp add: a_def m_def d_def) (metis append_take_drop_id drop_drop add.commute)
  have "overlay (overlay c off bs) off' cs = overlay (overlay (overlay (overlay c off a) off' m) (off' + length cs) d) off' cs"
    unfolding bs overlay_append l ..
  also have "\<dots> = overlay (overlay (overlay (overlay c off a) off' m) off' cs) (off' + length cs) d"
    by (rule overlay_commute) simp
  also have "\<dots> = overlay (overlay (overlay c off a) off' cs) (off' + length cs) d"
    unfolding overlay_overlay using l(2) by simp
  also have "\<dots> = overlay c off (a @ cs @ d)" unfolding overlay_append l ..
  finally show ?thesis unfolding a_def d_def .
qed

lemma length_bytes_at [simp]: "length (bytes_at c off n) = n"
  by (simp add: bytes_at_def)

lemma bytes_at_cong: "(\<And>i. off \<le> i \<Longrightarrow> i < off + n \<Longrightarrow> c i = c' i) \<Longrightarrow> bytes_at c off n = bytes_at c' off n"
  by (simp add: bytes_at_def)

lemma bytes_at_overlay_same [simp]: "bytes_at (overlay c off bs) off (length bs) = bs"
  by (rule nth_equalityI) (auto simp: bytes_at_def overlay_def)

lemma bytes_at_overlay_outside:
  "off + length bs \<le> off' \<or> off' + n \<le> off \<Longrightarrow> bytes_at (overlay c off bs) off' n = bytes_at c off' n"
  by (rule bytes_at_cong) (auto simp: overlay_outside)

lemma bytes_at_add: "bytes_at c off (m + n) = bytes_at c off m @ bytes_at c (off + m) n"
  using upt_add_eq_append [of off "off + m" n] by (simp add: bytes_at_def add.assoc)

lemma bytes_at_0 [simp]: "bytes_at c off 0 = []"
  by (simp add: bytes_at_def)

lemma take_bytes_at: "m \<le> n \<Longrightarrow> take m (bytes_at c off n) = bytes_at c off m"
  by (simp add: bytes_at_def take_map)

lemma drop_bytes_at: "drop m (bytes_at c off n) = bytes_at c (off + m) (n - m)"
  by (cases "m \<le> n") (simp_all add: bytes_at_def drop_map)

text \<open>Bytes that lie somewhere in a content.\<close>

definition placed :: "(nat \<Rightarrow> u8) \<Rightarrow> nat \<Rightarrow> u8 list \<Rightarrow> bool" where
  "placed c off bs \<longleftrightarrow> bytes_at c off (length bs) = bs"

lemma placed_Nil [simp]: "placed c off []"
  by (simp add: placed_def)

lemma placed_append: "placed c off (as @ bs) \<longleftrightarrow> placed c off as \<and> placed c (off + length as) bs"
  by (simp add: placed_def bytes_at_add)

lemma placed_cong: "(\<And>i. off \<le> i \<Longrightarrow> i < off + length bs \<Longrightarrow> c i = c' i) \<Longrightarrow> placed c off bs \<longleftrightarrow> placed c' off bs"
  using bytes_at_cong [of off "length bs" c c'] by (simp add: placed_def)

lemma placed_overlay_same [simp]: "placed (overlay c off bs) off bs"
  by (simp add: placed_def)

lemma placed_overlay_other:
  "off' + length bs' \<le> off \<or> off + length bs \<le> off' \<Longrightarrow> placed (overlay c off' bs') off bs \<longleftrightarrow> placed c off bs"
  by (simp add: placed_def bytes_at_overlay_outside)

lemma placed_patch:
  assumes "placed c off (pre @ old @ post)" "length new = length old" "off' = off + length pre"
  shows "placed (overlay c off' new) off (pre @ new @ post)"
  using assms by (simp add: placed_append placed_overlay_other)

lemma placed_bytes_at: "placed c off bs \<Longrightarrow> n = length bs \<Longrightarrow> bytes_at c off n = bs"
  by (simp add: placed_def)

section \<open>The interface of the muxers\<close>

definition MUXER_FILE_ALIGN_SIZE :: nat where
  "MUXER_FILE_ALIGN_SIZE = 32768"

definition muxer_file_align_up :: "nat \<Rightarrow> nat" where
  "muxer_file_align_up value = ((value + MUXER_FILE_ALIGN_SIZE - 1) mod 2 ^ 32) div MUXER_FILE_ALIGN_SIZE * MUXER_FILE_ALIGN_SIZE"

text \<open>The pointers of \<open>file_ops_t\<close>; the object behind \<open>file\<close> is the state they are applied to.\<close>

record 's file_ops =
  op_write :: "u8 list \<Rightarrow> 's \<Rightarrow> int \<times> 's"
  op_skip :: "nat \<Rightarrow> 's \<Rightarrow> int \<times> 's"
  op_tell :: "'s \<Rightarrow> nat"
  op_write_at :: "nat \<Rightarrow> u8 list \<Rightarrow> 's \<Rightarrow> int \<times> 's"
  op_flush :: "'s \<Rightarrow> int \<times> 's"
  op_finish :: "'s \<Rightarrow> int \<times> 's"
  op_tail :: "u8 list \<Rightarrow> nat \<Rightarrow> nat \<Rightarrow> 's \<Rightarrow> int \<times> 's"

text \<open>A session of a muxer with its file: requests, run until one fails.\<close>

datatype file_req = FWrite "u8 list" | FSkip nat | FWriteAt nat "u8 list" | FFlush

primrec file_do :: "'s file_ops \<Rightarrow> file_req \<Rightarrow> 's \<Rightarrow> int \<times> 's" where
  "file_do ops (FWrite bs) s = op_write ops bs s"
| "file_do ops (FSkip n) s = op_skip ops n s"
| "file_do ops (FWriteAt off bs) s = op_write_at ops off bs s"
| "file_do ops FFlush s = op_flush ops s"

primrec file_run :: "'s file_ops \<Rightarrow> file_req list \<Rightarrow> 's \<Rightarrow> int \<times> 's" where
  "file_run ops [] s = (0, s)"
| "file_run ops (r # rs) s = (let (ret, s) = file_do ops r s in if ret \<noteq> 0 then (ret, s) else file_run ops rs s)"

text \<open>What the session promises: the position, and the bytes that are known; skipped ones are not.\<close>

primrec req_spec :: "file_req \<Rightarrow> nat \<times> (nat \<rightharpoonup> u8) \<Rightarrow> nat \<times> (nat \<rightharpoonup> u8)" where
  "req_spec (FWrite bs) pk = (fst pk + length bs, \<lambda>i. if fst pk \<le> i \<and> i < fst pk + length bs then Some (bs ! (i - fst pk)) else snd pk i)"
| "req_spec (FSkip n) pk = (fst pk + n, \<lambda>i. if fst pk \<le> i \<and> i < fst pk + n then None else snd pk i)"
| "req_spec (FWriteAt off bs) pk = (fst pk, \<lambda>i. if off \<le> i \<and> i < off + length bs then Some (bs ! (i - off)) else snd pk i)"
| "req_spec FFlush pk = pk"

definition run_spec :: "file_req list \<Rightarrow> nat \<times> (nat \<rightharpoonup> u8) \<Rightarrow> nat \<times> (nat \<rightharpoonup> u8)" where
  "run_spec rs pk = fold req_spec rs pk"

primrec req_fits :: "nat \<Rightarrow> file_req \<Rightarrow> nat \<Rightarrow> bool" where
  "req_fits room (FWrite bs) pos \<longleftrightarrow> pos + length bs \<le> room"
| "req_fits room (FSkip n) pos \<longleftrightarrow> pos + n \<le> room"
| "req_fits room (FWriteAt off bs) pos \<longleftrightarrow> off + length bs \<le> room"
| "req_fits room FFlush pos \<longleftrightarrow> True"

primrec run_fits :: "nat \<Rightarrow> file_req list \<Rightarrow> nat \<times> (nat \<rightharpoonup> u8) \<Rightarrow> bool" where
  "run_fits room [] pk \<longleftrightarrow> True"
| "run_fits room (r # rs) pk \<longleftrightarrow> req_fits room r (fst pk) \<and> run_fits room rs (req_spec r pk)"

lemma run_fits_mono:
  assumes "run_fits m rs pk" "m \<le> n"
  shows "run_fits n rs pk"
proof -
  have "req_fits m r p \<Longrightarrow> req_fits n r p" for r p using assms(2) by (cases r) auto
  then show ?thesis using assms(1) by (induction rs arbitrary: pk) auto
qed

text \<open>
  What a muxer relies on. \<open>view\<close> is the content the file will have, with what is still buffered. Inside the size of the
  file every operation succeeds, writing lays the bytes over the content, and the size stays. Closing a file pads the block
  that is begun, unless none is.
\<close>

locale muxer_file =
  fixes ops :: "'s file_ops"
    and ok :: "'s \<Rightarrow> bool"
    and view :: "'s \<Rightarrow> nat \<Rightarrow> u8"
    and fl :: "'s \<Rightarrow> ffile"
  assumes write_law: "ok s \<Longrightarrow> op_tell ops s + length bs \<le> fsize (fl s) \<Longrightarrow>
      \<exists>s'. op_write ops bs s = (0, s') \<and> ok s' \<and> op_tell ops s' = op_tell ops s + length bs
        \<and> fsize (fl s') = fsize (fl s) \<and> view s' = overlay (view s) (op_tell ops s) bs"
    and skip_law: "ok s \<Longrightarrow> op_tell ops s + n \<le> fsize (fl s) \<Longrightarrow>
      \<exists>s'. op_skip ops n s = (0, s') \<and> ok s' \<and> op_tell ops s' = op_tell ops s + n \<and> fsize (fl s') = fsize (fl s)
        \<and> (\<forall>i. i < op_tell ops s \<or> op_tell ops s + n \<le> i \<longrightarrow> view s' i = view s i)"
    and write_at_law: "ok s \<Longrightarrow> off + length bs \<le> fsize (fl s) \<Longrightarrow>
      \<exists>s'. op_write_at ops off bs s = (0, s') \<and> ok s' \<and> op_tell ops s' = op_tell ops s
        \<and> fsize (fl s') = fsize (fl s) \<and> view s' = overlay (view s) off bs"
    and flush_law: "ok s \<Longrightarrow>
      \<exists>s'. op_flush ops s = (0, s') \<and> ok s' \<and> op_tell ops s' = op_tell ops s \<and> fsize (fl s') = fsize (fl s) \<and> view s' = view s"
    and finish_law: "ok s \<Longrightarrow> MUXER_FILE_ALIGN_SIZE dvd op_tell ops s \<Longrightarrow>
      \<exists>s'. op_finish ops s = (0, s') \<and> ok s' \<and> op_tell ops s' = op_tell ops s \<and> fsize (fl s') = fsize (fl s) \<and> view s' = view s"
    and complete_law: "ok s \<Longrightarrow> MUXER_FILE_ALIGN_SIZE dvd op_tell ops s \<Longrightarrow> view s = fcontent (fl s)"
begin

lemma do_law:
  assumes "ok s" "req_fits (fsize (fl s)) r (op_tell ops s)" "\<forall>i b. known i = Some b \<longrightarrow> view s i = b"
  shows "\<exists>s'. file_do ops r s = (0, s') \<and> ok s' \<and> op_tell ops s' = fst (req_spec r (op_tell ops s, known))
    \<and> fsize (fl s') = fsize (fl s) \<and> (\<forall>i b. snd (req_spec r (op_tell ops s, known)) i = Some b \<longrightarrow> view s' i = b)"
proof (cases r)
  case (FWrite bs)
  then show ?thesis using write_law [OF assms(1), of bs] assms(2, 3) by (auto simp: overlay_def)
next
  case (FSkip n)
  then show ?thesis using skip_law [OF assms(1), of n] assms(2, 3) by (auto split: if_splits)
next
  case (FWriteAt off bs)
  then show ?thesis using write_at_law [OF assms(1), of off bs] assms(2, 3) by (auto simp: overlay_def)
next
  case FFlush
  then show ?thesis using flush_law [OF assms(1)] assms(3) by auto
qed

lemma run_law:
  assumes "ok s" "run_fits (fsize (fl s)) rs (op_tell ops s, known)" "\<forall>i b. known i = Some b \<longrightarrow> view s i = b"
  shows "\<exists>s'. file_run ops rs s = (0, s') \<and> ok s' \<and> op_tell ops s' = fst (run_spec rs (op_tell ops s, known))
    \<and> fsize (fl s') = fsize (fl s) \<and> (\<forall>i b. snd (run_spec rs (op_tell ops s, known)) i = Some b \<longrightarrow> view s' i = b)"
  using assms
proof (induction rs arbitrary: s known)
  case Nil
  then show ?case by (simp add: run_spec_def)
next
  case (Cons r rs)
  define pk where "pk = req_spec r (op_tell ops s, known)"
  obtain s1 where s1: "file_do ops r s = (0, s1)" "ok s1" "op_tell ops s1 = fst pk" "fsize (fl s1) = fsize (fl s)"
      "\<forall>i b. snd pk i = Some b \<longrightarrow> view s1 i = b"
    using do_law [OF Cons.prems(1) _ Cons.prems(3), of r] Cons.prems(2) unfolding pk_def run_fits.simps fst_conv by blast
  have "run_fits (fsize (fl s1)) rs (op_tell ops s1, snd pk)" using Cons.prems(2) s1(3, 4) by (simp add: pk_def)
  from Cons.IH [OF s1(2) this s1(5)] show ?case using s1(1, 3, 4) by (auto simp: run_spec_def pk_def)
qed

text \<open>A session that ends on a whole block and is finished leaves every byte it knows on the card.\<close>

lemma session_law:
  assumes "ok s" "run_fits (fsize (fl s)) rs (op_tell ops s, Map.empty)"
    and "MUXER_FILE_ALIGN_SIZE dvd fst (run_spec rs (op_tell ops s, Map.empty))"
  shows "\<exists>s1 s2. file_run ops rs s = (0, s1) \<and> op_finish ops s1 = (0, s2)
    \<and> (\<forall>i b. snd (run_spec rs (op_tell ops s, Map.empty)) i = Some b \<longrightarrow> fcontent (fl s2) i = b)"
proof -
  obtain s1 where s1: "file_run ops rs s = (0, s1)" "ok s1" "op_tell ops s1 = fst (run_spec rs (op_tell ops s, Map.empty))"
      "\<forall>i b. snd (run_spec rs (op_tell ops s, Map.empty)) i = Some b \<longrightarrow> view s1 i = b"
    using run_law [OF assms(1, 2)] by auto
  obtain s2 where "op_finish ops s1 = (0, s2)" "ok s2" "op_tell ops s2 = op_tell ops s1" "view s2 = view s1"
    using finish_law [OF s1(2)] assms(3) s1(3) by auto
  then show ?thesis using s1 complete_law [of s2] assms(3) by auto
qed

end

end
