(* ===== verification/MuxFile.thy ===== *)
theory MuxFile
  imports OsalFile
begin

text \<open>
  The file of the recorder, \<open>sdk/app/record/mux_file.c\<close>: what a muxer writes goes out in whole blocks of 32 KB, so that a
  card with such clusters is written aligned. The block that is begun is in \<open>buf\<close>, which holds the \<open>buf_len\<close> bytes in use.
\<close>

abbreviation ALIGN :: nat where "ALIGN \<equiv> MUXER_FILE_ALIGN_SIZE"

record mux_file =
  mf_fp :: ffile
  align_en :: bool
  mf_buf :: "u8 list"
  write_offset :: nat
  logical_offset :: nat
  prealloc_size :: nat

definition on_fp :: "(ffile \<Rightarrow> ffile) \<Rightarrow> mux_file \<Rightarrow> mux_file" where
  "on_fp g mf = mf\<lparr>mf_fp := g (mf_fp mf)\<rparr>"

section \<open>Operations\<close>

definition mux_file_direct_write :: "disk \<Rightarrow> u8 list \<Rightarrow> ffile \<Rightarrow> int \<times> ffile" where
  "mux_file_direct_write disk bs fp =
     (if bs = [] then (0, fp)
      else let (written, fp) = osal_fwrite disk bs fp in (if written = length bs then 0 else - 1, fp))"

function mux_file_write_zero_direct :: "disk \<Rightarrow> nat \<Rightarrow> ffile \<Rightarrow> int \<times> ffile" where
  "mux_file_write_zero_direct disk len fp =
     (if len = 0 then (0, fp)
      else let write_len = (if len > 64 then 64 else len);
               (r, fp) = mux_file_direct_write disk (replicate write_len 0) fp
           in if r \<noteq> 0 then (- 1, fp) else mux_file_write_zero_direct disk (len - write_len) fp)"
  by pat_completeness auto
termination by (relation "measure (\<lambda>(disk, len, fp). len)") auto

declare mux_file_write_zero_direct.simps [simp del]

definition mux_file_is_valid :: "mux_file \<Rightarrow> bool" where
  "mux_file_is_valid mf =
     (if \<not> align_en mf then True
      else if length (mf_buf mf) > ALIGN then False
      else logical_offset mf = write_offset mf + length (mf_buf mf))"

text \<open>A write at an offset.\<close>

definition fwrite_at :: "disk \<Rightarrow> nat \<Rightarrow> u8 list \<Rightarrow> mux_file \<Rightarrow> int \<times> mux_file" where
  "fwrite_at disk off bs mf =
     (let (r, fp) = mux_file_direct_write disk bs (osal_fseek off (mf_fp mf)) in (r, mf\<lparr>mf_fp := fp\<rparr>))"

definition mux_file_flush_block :: "disk \<Rightarrow> mux_file \<Rightarrow> int \<times> mux_file" where
  "mux_file_flush_block disk mf =
     (if \<not> mux_file_is_valid mf \<or> \<not> align_en mf \<or> length (mf_buf mf) \<noteq> ALIGN then (- 1, mf)
      else let (r, mf) = fwrite_at disk (write_offset mf) (mf_buf mf) mf
           in if r \<noteq> 0 then (- 1, mf)
              else (0, mf\<lparr>write_offset := write_offset mf + ALIGN, mf_buf := []\<rparr>))"

definition mux_file_flush_full_blocks :: "disk \<Rightarrow> mux_file \<Rightarrow> int \<times> mux_file" where
  "mux_file_flush_full_blocks disk mf =
     (if \<not> mux_file_is_valid mf then (- 1, mf)
      else if \<not> align_en mf then (0, mf)
      else if length (mf_buf mf) = ALIGN then mux_file_flush_block disk mf
      else (0, mf))"

definition mux_file_open :: "ffile \<Rightarrow> nat \<Rightarrow> bool \<Rightarrow> mux_file" where
  "mux_file_open fp prealloc align =
     (let size = (if align \<and> prealloc \<noteq> 0 then muxer_file_align_up prealloc else prealloc);
          fp = (if size \<noteq> 0 \<and> osal_fsize fp \<noteq> size then osal_fseek 0 (osal_ftruncate (osal_fseek size fp)) else fp)
      in \<lparr>mf_fp = fp, align_en = align, mf_buf = [], write_offset = 0, logical_offset = 0, prealloc_size = size\<rparr>)"

text \<open>The loop of \<open>mux_file_write\<close> over the blocks; the buffer is not longer than a block.\<close>

lemma flush_block_empties: "mux_file_flush_block disk mf = (0, mf') \<Longrightarrow> mf_buf mf' = []"
  by (auto simp: mux_file_flush_block_def case_prod_beta split: if_splits)

function mux_write_loop :: "disk \<Rightarrow> u8 list \<Rightarrow> mux_file \<Rightarrow> int \<times> mux_file" where
  "mux_write_loop disk src mf =
     (if src = [] \<or> length (mf_buf mf) > ALIGN then (0, mf)
      else let copy_len = min (ALIGN - length (mf_buf mf)) (length src);
               mf = mf\<lparr>mf_buf := mf_buf mf @ take copy_len src, logical_offset := logical_offset mf + copy_len\<rparr>
           in if length (mf_buf mf) = ALIGN then
                (case mux_file_flush_block disk mf of (r, mf) \<Rightarrow>
                   if r \<noteq> 0 then (- 1, mf) else mux_write_loop disk (drop copy_len src) mf)
              else mux_write_loop disk (drop copy_len src) mf)"
  by pat_completeness auto
termination
proof (relation "measure (\<lambda>(disk, src, mf). 2 * length src + (if length (mf_buf mf) = ALIGN then 1 else 0))", goal_cases)
  case (2 disk src mf c mf1 r mf2)
  then have "mf_buf mf2 = []" using flush_block_empties by auto
  then show ?case using 2 by (cases "length (mf_buf mf) = ALIGN") (auto simp: MUXER_FILE_ALIGN_SIZE_def)
qed (auto simp: MUXER_FILE_ALIGN_SIZE_def split: if_splits)

declare mux_write_loop.simps [simp del]

definition mux_file_write :: "disk \<Rightarrow> u8 list \<Rightarrow> mux_file \<Rightarrow> int \<times> mux_file" where
  "mux_file_write disk src mf =
     (if \<not> mux_file_is_valid mf then (- 1, mf)
      else if src = [] then (0, mf)
      else if \<not> align_en mf then
        let (r, mf) = fwrite_at disk (logical_offset mf) src mf
        in if r \<noteq> 0 then (- 1, mf)
           else (0, mf\<lparr>logical_offset := logical_offset mf + length src, write_offset := logical_offset mf + length src\<rparr>)
      else mux_write_loop disk src mf)"

text \<open>Whole blocks of zeros.\<close>

fun mux_skip_blocks :: "disk \<Rightarrow> nat \<Rightarrow> mux_file \<Rightarrow> int \<times> mux_file" where
  "mux_skip_blocks disk 0 mf = (0, mf)"
| "mux_skip_blocks disk (Suc k) mf =
     (let (r, mf) = fwrite_at disk (write_offset mf) (replicate ALIGN 0) mf
      in if r \<noteq> 0 then (- 1, mf)
         else mux_skip_blocks disk k (mf\<lparr>write_offset := write_offset mf + ALIGN, logical_offset := logical_offset mf + ALIGN\<rparr>))"

text \<open>The three phases of \<open>mux_file_skip\<close>: the rest of the block that is begun, whole blocks, and the begin of the last.\<close>

definition mux_skip_pad :: "disk \<Rightarrow> nat \<Rightarrow> mux_file \<Rightarrow> int \<times> nat \<times> mux_file" where
  "mux_skip_pad disk len mf =
     (if mf_buf mf = [] then (0, len, mf)
      else let pad_len = min (ALIGN - length (mf_buf mf)) len;
               mf = mf\<lparr>mf_buf := mf_buf mf @ replicate pad_len 0, logical_offset := logical_offset mf + pad_len\<rparr>;
               (r, mf) = (if length (mf_buf mf) = ALIGN then mux_file_flush_block disk mf else (0, mf))
           in (if r \<noteq> 0 then - 1 else 0, len - pad_len, mf))"

definition mux_skip_whole :: "disk \<Rightarrow> nat \<Rightarrow> mux_file \<Rightarrow> int \<times> nat \<times> mux_file" where
  "mux_skip_whole disk len mf =
     (if len < ALIGN then (0, len, mf)
      else let skip_len = len div ALIGN * ALIGN;
               (r, mf) =
                 (if prealloc_size mf \<noteq> 0 \<and> write_offset mf \<le> prealloc_size mf
                     \<and> skip_len \<le> prealloc_size mf - write_offset mf
                  then (0, mf\<lparr>write_offset := write_offset mf + skip_len, logical_offset := logical_offset mf + skip_len\<rparr>)
                  else mux_skip_blocks disk (len div ALIGN) mf)
           in (r, len - skip_len, mf))"

definition mux_file_skip :: "disk \<Rightarrow> nat \<Rightarrow> mux_file \<Rightarrow> int \<times> mux_file" where
  "mux_file_skip disk len mf =
     (if \<not> mux_file_is_valid mf then (- 1, mf)
      else if len = 0 then (0, mf)
      else if \<not> align_en mf then
        (0, mf\<lparr>logical_offset := logical_offset mf + len, write_offset := logical_offset mf + len,
               mf_fp := osal_fseek (logical_offset mf + len) (mf_fp mf)\<rparr>)
      else
        let (r, len, mf) = mux_skip_pad disk len mf
        in if r \<noteq> 0 then (- 1, mf)
           else
             let (r, len, mf) = mux_skip_whole disk len mf
             in if r \<noteq> 0 then (- 1, mf)
                else (0, if len \<noteq> 0 then mf\<lparr>mf_buf := replicate len 0, logical_offset := logical_offset mf + len\<rparr> else mf))"

definition mux_file_tell :: "mux_file \<Rightarrow> nat" where
  "mux_file_tell mf = logical_offset mf"

text \<open>The loop of \<open>mux_file_write_at\<close>: bytes in the block that is begun go into the buffer, the others into the file.\<close>

function mux_write_at_loop :: "disk \<Rightarrow> nat \<Rightarrow> u8 list \<Rightarrow> mux_file \<Rightarrow> int \<times> mux_file" where
  "mux_write_at_loop disk off src mf =
     (if src = [] then (0, mf)
      else let pending_start = write_offset mf; pending_end = write_offset mf + length (mf_buf mf)
           in if pending_start \<le> off \<and> off < pending_end then
                let copy_len = min (pending_end - off) (length src)
                in mux_write_at_loop disk (off + copy_len) (drop copy_len src)
                     (mf\<lparr>mf_buf := take (off - pending_start) (mf_buf mf) @ take copy_len src
                                 @ drop (off - pending_start + copy_len) (mf_buf mf)\<rparr>)
              else
                let write_len = (if off < pending_start \<and> off + length src > pending_start then pending_start - off else length src)
                in case fwrite_at disk off (take write_len src) mf of (r, mf) \<Rightarrow>
                     if r \<noteq> 0 then (- 1, mf)
                     else mux_write_at_loop disk (off + write_len) (drop write_len src) mf)"
  by pat_completeness auto
termination by (relation "measure (\<lambda>(disk, off, src, mf). length src)") auto

declare mux_write_at_loop.simps [simp del]

definition mux_file_write_at :: "disk \<Rightarrow> nat \<Rightarrow> u8 list \<Rightarrow> mux_file \<Rightarrow> int \<times> mux_file" where
  "mux_file_write_at disk off src mf =
     (if \<not> mux_file_is_valid mf then (- 1, mf)
      else let (r, mf) = mux_file_flush_full_blocks disk mf
           in if r \<noteq> 0 then (- 1, mf)
              else let (r, mf') = (if align_en mf then mux_write_at_loop disk off src mf else fwrite_at disk off src mf);
                       restore_offset = (if align_en mf then write_offset mf else logical_offset mf)
                   in if r \<noteq> 0 then (- 1, mf') else (0, on_fp (osal_fseek restore_offset) mf'))"

definition mux_file_flush :: "disk \<Rightarrow> mux_file \<Rightarrow> int \<times> mux_file" where
  "mux_file_flush disk mf =
     (if \<not> mux_file_is_valid mf then (- 1, mf)
      else let (r, mf) = mux_file_flush_full_blocks disk mf in (if r \<noteq> 0 then - 1 else 0, mf))"

definition mux_file_finish :: "disk \<Rightarrow> mux_file \<Rightarrow> int \<times> mux_file" where
  "mux_file_finish disk mf =
     (if \<not> mux_file_is_valid mf then (- 1, mf)
      else if \<not> align_en mf then (0, on_fp (osal_fseek (logical_offset mf)) mf)
      else if mf_buf mf \<noteq> [] then
        let pad_len = ALIGN - length (mf_buf mf);
            (r, mf) = mux_file_flush_block disk (mf\<lparr>mf_buf := mf_buf mf @ replicate pad_len 0, logical_offset := logical_offset mf + pad_len\<rparr>)
        in (if r \<noteq> 0 then - 1 else 0, mf)
      else (0, mf))"

text \<open>The rest of a tail that is longer than the block, block by block.\<close>

function mux_tail_blocks :: "disk \<Rightarrow> u8 list \<Rightarrow> ffile \<Rightarrow> int \<times> ffile" where
  "mux_tail_blocks disk rest fp =
     (if rest = [] then (0, fp)
      else let chunk = take ALIGN rest;
               (r, fp) = mux_file_direct_write disk (chunk @ replicate (ALIGN - length chunk) 0) fp
           in if r \<noteq> 0 then (- 1, fp) else mux_tail_blocks disk (drop ALIGN rest) fp)"
  by pat_completeness auto
termination by (relation "measure (\<lambda>(disk, rest, fp). length rest)") (auto simp: MUXER_FILE_ALIGN_SIZE_def)

declare mux_tail_blocks.simps [simp del]

definition mux_file_tail :: "disk \<Rightarrow> u8 list \<Rightarrow> nat \<Rightarrow> nat \<Rightarrow> mux_file \<Rightarrow> int \<times> mux_file" where
  "mux_file_tail disk tail logical_end reserved_end mf =
     (if \<not> mux_file_is_valid mf then (- 1, mf)
      else if reserved_end \<le> logical_end then (0, mf)
      else let remain = reserved_end - logical_end
           in if length tail > remain then (- 1, mf)
              else if \<not> align_en mf then
                let restore_offset = logical_offset mf;
                    (r, fp) = mux_file_direct_write disk tail (osal_fseek logical_end (mf_fp mf))
                in if r \<noteq> 0 then (- 1, mf\<lparr>mf_fp := fp\<rparr>)
                   else let (r, fp) = mux_file_write_zero_direct disk (remain - length tail) fp
                        in if r \<noteq> 0 then (- 1, mf\<lparr>mf_fp := fp\<rparr>) else (0, mf\<lparr>mf_fp := osal_fseek restore_offset fp\<rparr>)
              else if logical_offset mf \<noteq> logical_end then (- 1, mf)
              else
                let pending = length (mf_buf mf);
                    block_remain = ALIGN - pending;
                    copy_len = min (length tail) block_remain;
                    zero_len = min (block_remain - copy_len) (remain - length tail);
                    write_len = min (pending + remain) ALIGN;
                    snapshot = take write_len (mf_buf mf @ take copy_len tail @ replicate zero_len 0);
                    (r, mf) = fwrite_at disk (write_offset mf) snapshot mf
                in if r \<noteq> 0 then (- 1, mf)
                   else if length tail > copy_len then
                     let (r, fp) = mux_tail_blocks disk (drop copy_len tail) (osal_fseek (write_offset mf + ALIGN) (mf_fp mf))
                     in (r, mf\<lparr>mf_fp := fp\<rparr>)
                   else (0, mf))"

definition mux_file_get_ops :: "disk \<Rightarrow> mux_file file_ops" where
  "mux_file_get_ops disk = \<lparr>op_write = mux_file_write disk, op_skip = mux_file_skip disk, op_tell = mux_file_tell,
     op_write_at = mux_file_write_at disk, op_flush = mux_file_flush disk, op_finish = mux_file_finish disk,
     op_tail = mux_file_tail disk\<rparr>"

section \<open>The content it will have\<close>

text \<open>A card that takes every write.\<close>

definition full_disk :: disk where
  "full_disk k n = n"

definition mf_view :: "mux_file \<Rightarrow> nat \<Rightarrow> u8" where
  "mf_view mf = overlay (fcontent (mf_fp mf)) (write_offset mf) (mf_buf mf)"

definition mf_ok :: "mux_file \<Rightarrow> bool" where
  "mf_ok mf \<longleftrightarrow> fwritable (mf_fp mf) \<and> logical_offset mf = write_offset mf + length (mf_buf mf)
     \<and> logical_offset mf \<le> fsize (mf_fp mf)
     \<and> (if align_en mf then length (mf_buf mf) < ALIGN \<and> ALIGN dvd write_offset mf \<and> ALIGN dvd fsize (mf_fp mf)
          \<and> (prealloc_size mf \<noteq> 0 \<longrightarrow> prealloc_size mf \<le> fsize (mf_fp mf))
        else mf_buf mf = [])"

lemma mf_ok_valid [simp]: "mf_ok mf \<Longrightarrow> mux_file_is_valid mf"
  by (auto simp: mf_ok_def mux_file_is_valid_def split: if_splits)

lemma ALIGN_pos: "0 < ALIGN"
  by (simp add: MUXER_FILE_ALIGN_SIZE_def)

lemma direct_write_full:
  "fwritable fp \<Longrightarrow> off + length bs \<le> fsize fp \<Longrightarrow>
   \<exists>fp'. mux_file_direct_write full_disk bs (osal_fseek off fp) = (0, fp') \<and> fcontent fp' = overlay (fcontent fp) off bs
     \<and> fsize fp' = fsize fp \<and> fwritable fp'"
  by (cases "bs = []") (auto simp: mux_file_direct_write_def osal_fwrite_def osal_fseek_def full_disk_def Let_def)

lemma fwrite_at_full:
  assumes "fwritable (mf_fp mf)" "off + length bs \<le> fsize (mf_fp mf)"
  shows "\<exists>fp. fwrite_at full_disk off bs mf = (0, mf\<lparr>mf_fp := fp\<rparr>) \<and> fcontent fp = overlay (fcontent (mf_fp mf)) off bs
    \<and> fsize fp = fsize (mf_fp mf) \<and> fwritable fp"
  using direct_write_full [OF assms] by (auto simp: fwrite_at_def)

lemma flush_block_full:
  assumes "fwritable (mf_fp mf)" "align_en mf" "length (mf_buf mf) = ALIGN" "logical_offset mf = write_offset mf + ALIGN"
    "logical_offset mf \<le> fsize (mf_fp mf)"
  shows "\<exists>fp. mux_file_flush_block full_disk mf = (0, mf\<lparr>mf_fp := fp, write_offset := write_offset mf + ALIGN, mf_buf := []\<rparr>)
    \<and> fcontent fp = mf_view mf \<and> fsize fp = fsize (mf_fp mf) \<and> fwritable fp"
  using fwrite_at_full [of mf "write_offset mf" "mf_buf mf"] assms
  by (auto simp: mux_file_flush_block_def mux_file_is_valid_def mf_view_def)

text \<open>Appending to the block that is begun.\<close>

lemma mf_view_append:
  assumes "logical_offset mf = write_offset mf + length (mf_buf mf)"
  shows "mf_view (mf\<lparr>mf_buf := mf_buf mf @ bs, logical_offset := l\<rparr>) = overlay (mf_view mf) (logical_offset mf) bs"
  using assms by (simp add: mf_view_def overlay_append)

lemma append_block:
  assumes ok: "mf_ok mf" "align_en mf" and n: "length bs \<le> ALIGN - length (mf_buf mf)" "logical_offset mf + length bs \<le> fsize (mf_fp mf)"
    and mf1: "mf1 = mf\<lparr>mf_buf := mf_buf mf @ bs, logical_offset := logical_offset mf + length bs\<rparr>"
  shows "\<exists>mf'. (if length (mf_buf mf1) = ALIGN then mux_file_flush_block full_disk mf1 else (0, mf1)) = (0, mf') \<and> mf_ok mf'
    \<and> align_en mf' \<and> logical_offset mf' = logical_offset mf + length bs \<and> fsize (mf_fp mf') = fsize (mf_fp mf)
    \<and> mf_view mf' = overlay (mf_view mf) (logical_offset mf) bs \<and> prealloc_size mf' = prealloc_size mf
    \<and> (length (mf_buf mf) + length bs = ALIGN \<longrightarrow> mf_buf mf' = [])"
proof -
  have l: "logical_offset mf = write_offset mf + length (mf_buf mf)" using ok(1) by (simp add: mf_ok_def)
  have v: "mf_view mf1 = overlay (mf_view mf) (logical_offset mf) bs" unfolding mf1 by (rule mf_view_append [OF l])
  show ?thesis
  proof (cases "length (mf_buf mf1) = ALIGN")
    case True
    then obtain fp where "mux_file_flush_block full_disk mf1 = (0, mf1\<lparr>mf_fp := fp, write_offset := write_offset mf1 + ALIGN, mf_buf := []\<rparr>)"
        "fcontent fp = mf_view mf1" "fsize fp = fsize (mf_fp mf1)" "fwritable fp"
      using flush_block_full [of mf1] ok n(2) l by (auto simp: mf1 mf_ok_def)
    then show ?thesis using True ok n v l by (auto simp: mf1 mf_ok_def mf_view_def ALIGN_pos)
  next
    case False
    then show ?thesis using ok n v l by (auto simp: mf1 mf_ok_def)
  qed
qed

lemma write_loop_full:
  assumes "mf_ok mf" "align_en mf" "logical_offset mf + length src \<le> fsize (mf_fp mf)"
  shows "\<exists>mf'. mux_write_loop full_disk src mf = (0, mf') \<and> mf_ok mf' \<and> logical_offset mf' = logical_offset mf + length src
    \<and> fsize (mf_fp mf') = fsize (mf_fp mf) \<and> mf_view mf' = overlay (mf_view mf) (logical_offset mf) src"
  using assms
proof (induction "length src" arbitrary: src mf rule: less_induct)
  case less
  show ?case
  proof (cases "src = []")
    case True
    then show ?thesis using less.prems by (simp add: mux_write_loop.simps)
  next
    case False
    have b: "length (mf_buf mf) < ALIGN" using less.prems(1, 2) by (simp add: mf_ok_def)
    define c where "c = min (ALIGN - length (mf_buf mf)) (length src)"
    define mf1 where "mf1 = mf\<lparr>mf_buf := mf_buf mf @ take c src, logical_offset := logical_offset mf + c\<rparr>"
    have c: "0 < c" "c \<le> ALIGN - length (mf_buf mf)" "c \<le> length src" using b False by (auto simp: c_def)
    then have t: "length (take c src) = c" by simp
    obtain mf2 where m2: "(if length (mf_buf mf1) = ALIGN then mux_file_flush_block full_disk mf1 else (0, mf1)) = (0, mf2)"
        "mf_ok mf2" "align_en mf2" "logical_offset mf2 = logical_offset mf + c" "fsize (mf_fp mf2) = fsize (mf_fp mf)"
        "mf_view mf2 = overlay (mf_view mf) (logical_offset mf) (take c src)"
      using append_block [OF less.prems(1, 2), of "take c src" mf1] less.prems(3) c t unfolding mf1_def by auto
    have "length (drop c src) < length src" using c by simp
    moreover have "logical_offset mf2 + length (drop c src) \<le> fsize (mf_fp mf2)" using m2(4, 5) less.prems(3) c by simp
    ultimately obtain mf' where m': "mux_write_loop full_disk (drop c src) mf2 = (0, mf')" "mf_ok mf'"
        "logical_offset mf' = logical_offset mf2 + length (drop c src)" "fsize (mf_fp mf') = fsize (mf_fp mf2)"
        "mf_view mf' = overlay (mf_view mf2) (logical_offset mf2) (drop c src)"
      using less.hyps [of "drop c src" mf2] m2(2, 3) by blast
    have "mux_write_loop full_disk src mf = mux_write_loop full_disk (drop c src) mf2"
    proof -
      have "length (mf_buf mf1) = length (mf_buf mf) + c" "min (length src) c = c" using c(3) t by (simp_all add: mf1_def)
      then show ?thesis using False b m2(1)
        by (subst mux_write_loop.simps) (auto simp: Let_def c_def [symmetric] mf1_def [symmetric] split: if_splits)
    qed
    moreover have "mf_view mf' = overlay (mf_view mf) (logical_offset mf) src"
      using overlay_append [of "mf_view mf" "logical_offset mf" "take c src" "drop c src"] m'(5) m2(4, 6) t by simp
    ultimately show ?thesis using m' m2(4, 5) c by auto
  qed
qed

lemma mux_file_write_law:
  assumes "mf_ok mf" "logical_offset mf + length bs \<le> fsize (mf_fp mf)"
  shows "\<exists>mf'. mux_file_write full_disk bs mf = (0, mf') \<and> mf_ok mf' \<and> logical_offset mf' = logical_offset mf + length bs
    \<and> fsize (mf_fp mf') = fsize (mf_fp mf) \<and> mf_view mf' = overlay (mf_view mf) (logical_offset mf) bs"
proof (cases "align_en mf")
  case True
  then show ?thesis using write_loop_full [OF assms(1) True assms(2)] assms(1) by (auto simp: mux_file_write_def)
next
  case False
  then have b: "mf_buf mf = []" "fwritable (mf_fp mf)" using assms(1) by (auto simp: mf_ok_def)
  obtain fp where "fwrite_at full_disk (logical_offset mf) bs mf = (0, mf\<lparr>mf_fp := fp\<rparr>)"
      "fcontent fp = overlay (fcontent (mf_fp mf)) (logical_offset mf) bs" "fsize fp = fsize (mf_fp mf)" "fwritable fp"
    using fwrite_at_full [OF b(2) assms(2)] by blast
  then show ?thesis using False b assms by (auto simp: mux_file_write_def mf_ok_def mf_view_def)
qed

lemma skip_blocks_full:
  assumes "fwritable (mf_fp mf)" "mf_buf mf = []" "write_offset mf + k * ALIGN \<le> fsize (mf_fp mf)"
  shows "\<exists>fp. mux_skip_blocks full_disk k mf
      = (0, mf\<lparr>mf_fp := fp, write_offset := write_offset mf + k * ALIGN, logical_offset := logical_offset mf + k * ALIGN\<rparr>)
    \<and> fsize fp = fsize (mf_fp mf) \<and> fwritable fp
    \<and> (\<forall>i. i < write_offset mf \<or> write_offset mf + k * ALIGN \<le> i \<longrightarrow> fcontent fp i = fcontent (mf_fp mf) i)"
  using assms
proof (induction k arbitrary: mf)
  case 0
  then show ?case by (intro exI [of _ "mf_fp mf"]) simp
next
  case (Suc k)
  obtain fp where f: "fwrite_at full_disk (write_offset mf) (replicate ALIGN 0) mf = (0, mf\<lparr>mf_fp := fp\<rparr>)"
      "fcontent fp = overlay (fcontent (mf_fp mf)) (write_offset mf) (replicate ALIGN 0)" "fsize fp = fsize (mf_fp mf)" "fwritable fp"
    using fwrite_at_full [of mf "write_offset mf" "replicate ALIGN 0"] Suc.prems by auto
  let ?mf = "mf\<lparr>mf_fp := fp, write_offset := write_offset mf + ALIGN, logical_offset := logical_offset mf + ALIGN\<rparr>"
  obtain fp' where "mux_skip_blocks full_disk k ?mf
      = (0, ?mf\<lparr>mf_fp := fp', write_offset := write_offset ?mf + k * ALIGN, logical_offset := logical_offset ?mf + k * ALIGN\<rparr>)"
      "fsize fp' = fsize fp" "fwritable fp'"
      "\<forall>i. i < write_offset ?mf \<or> write_offset ?mf + k * ALIGN \<le> i \<longrightarrow> fcontent fp' i = fcontent fp i"
    using Suc.IH [of ?mf] Suc.prems f by auto
  then show ?case using f by (intro exI [of _ fp']) (auto simp: add.assoc overlay_outside)
qed

lemma skip_pad_full:
  assumes "mf_ok mf" "align_en mf" "logical_offset mf + n \<le> fsize (mf_fp mf)"
  shows "\<exists>mf'. mux_skip_pad full_disk n mf = (0, logical_offset mf + n - logical_offset mf', mf')
    \<and> mf_ok mf' \<and> align_en mf' \<and> logical_offset mf \<le> logical_offset mf' \<and> logical_offset mf' \<le> logical_offset mf + n
    \<and> fsize (mf_fp mf') = fsize (mf_fp mf) \<and> (logical_offset mf' < logical_offset mf + n \<longrightarrow> mf_buf mf' = [])
    \<and> (\<forall>i. i < logical_offset mf \<or> logical_offset mf + n \<le> i \<longrightarrow> mf_view mf' i = mf_view mf i)"
proof (cases "mf_buf mf = []")
  case True
  then show ?thesis using assms by (intro exI [of _ mf]) (simp add: mux_skip_pad_def)
next
  case False
  define p where "p = min (ALIGN - length (mf_buf mf)) n"
  define mf1 where "mf1 = mf\<lparr>mf_buf := mf_buf mf @ replicate p 0, logical_offset := logical_offset mf + p\<rparr>"
  have p: "p \<le> ALIGN - length (mf_buf mf)" "p \<le> n" "p < n \<longrightarrow> length (mf_buf mf) + p = ALIGN"
    using assms(1, 2) by (auto simp: p_def mf_ok_def)
  obtain mf' where m: "(if length (mf_buf mf1) = ALIGN then mux_file_flush_block full_disk mf1 else (0, mf1)) = (0, mf')"
      "mf_ok mf'" "align_en mf'" "logical_offset mf' = logical_offset mf + p" "fsize (mf_fp mf') = fsize (mf_fp mf)"
      "mf_view mf' = overlay (mf_view mf) (logical_offset mf) (replicate p 0)" "length (mf_buf mf) + p = ALIGN \<longrightarrow> mf_buf mf' = []"
    using append_block [OF assms(1, 2), of "replicate p 0" mf1] assms(3) p unfolding mf1_def by auto
  have "mux_skip_pad full_disk n mf = (0, n - p, mf')"
    unfolding mux_skip_pad_def Let_def p_def [symmetric] mf1_def [symmetric] m(1) using False by simp
  then show ?thesis using p m(2-7) by (intro exI [of _ mf']) (simp add: overlay_outside)
qed

lemma skip_whole_full:
  assumes "mf_ok mf" "align_en mf" "logical_offset mf + n \<le> fsize (mf_fp mf)" "n \<noteq> 0 \<longrightarrow> mf_buf mf = []"
  shows "\<exists>mf'. mux_skip_whole full_disk n mf = (0, n mod ALIGN, mf')
    \<and> mf_ok mf' \<and> align_en mf' \<and> logical_offset mf' = logical_offset mf + (n - n mod ALIGN)
    \<and> fsize (mf_fp mf') = fsize (mf_fp mf) \<and> (n \<noteq> 0 \<longrightarrow> mf_buf mf' = [])
    \<and> (\<forall>i. i < logical_offset mf \<or> logical_offset mf + n \<le> i \<longrightarrow> mf_view mf' i = mf_view mf i)"
proof (cases "n < ALIGN")
  case True
  then show ?thesis using assms by (intro exI [of _ mf]) (simp add: mux_skip_whole_def)
next
  case False
  let ?k = "n div ALIGN"
  have n: "n - ?k * ALIGN = n mod ALIGN" "?k * ALIGN \<le> n" "n - n mod ALIGN = ?k * ALIGN"
    using div_mult_mod_eq [of n ALIGN] by linarith+
  have b: "mf_buf mf = []" "write_offset mf = logical_offset mf" "fwritable (mf_fp mf)"
    using assms False ALIGN_pos by (auto simp: mf_ok_def)
  have s: "write_offset mf + ?k * ALIGN \<le> fsize (mf_fp mf)" using n(2) b(2) assms(3) by linarith
  have i: "i < logical_offset mf \<or> logical_offset mf + n \<le> i \<Longrightarrow> i < write_offset mf \<or> write_offset mf + ?k * ALIGN \<le> i" for i
    using n(2) b(2) by linarith
  show ?thesis
  proof (cases "prealloc_size mf \<noteq> 0 \<and> write_offset mf \<le> prealloc_size mf \<and> ?k * ALIGN \<le> prealloc_size mf - write_offset mf")
    case p: True
    let ?mf = "mf\<lparr>write_offset := write_offset mf + ?k * ALIGN, logical_offset := logical_offset mf + ?k * ALIGN\<rparr>"
    have "mf_ok ?mf" using assms(1, 2) s b ALIGN_pos by (auto simp: mf_ok_def)
    moreover have "mux_skip_whole full_disk n mf = (0, n mod ALIGN, ?mf)"
      unfolding mux_skip_whole_def Let_def using False p n(1) by simp
    ultimately show ?thesis using n(3) b assms(2) by (intro exI [of _ ?mf]) (simp add: mf_view_def)
  next
    case p: False
    obtain fp where f: "mux_skip_blocks full_disk ?k mf
        = (0, mf\<lparr>mf_fp := fp, write_offset := write_offset mf + ?k * ALIGN, logical_offset := logical_offset mf + ?k * ALIGN\<rparr>)"
        "fsize fp = fsize (mf_fp mf)" "fwritable fp"
        "\<forall>i. i < write_offset mf \<or> write_offset mf + ?k * ALIGN \<le> i \<longrightarrow> fcontent fp i = fcontent (mf_fp mf) i"
      using skip_blocks_full [of mf ?k] b s by auto
    let ?mf = "mf\<lparr>mf_fp := fp, write_offset := write_offset mf + ?k * ALIGN, logical_offset := logical_offset mf + ?k * ALIGN\<rparr>"
    have "mf_ok ?mf" using assms(1, 2) s b f(2, 3) ALIGN_pos by (auto simp: mf_ok_def)
    moreover have "mux_skip_whole full_disk n mf = (0, n mod ALIGN, ?mf)"
      unfolding mux_skip_whole_def Let_def if_not_P [OF p] f(1) using False n(1) by simp
    ultimately show ?thesis using n(3) b assms(2) f(2, 4) i by (intro exI [of _ ?mf]) (simp add: mf_view_def)
  qed
qed

lemma mux_file_skip_law:
  assumes "mf_ok mf" "logical_offset mf + n \<le> fsize (mf_fp mf)"
  shows "\<exists>mf'. mux_file_skip full_disk n mf = (0, mf') \<and> mf_ok mf' \<and> logical_offset mf' = logical_offset mf + n
    \<and> fsize (mf_fp mf') = fsize (mf_fp mf)
    \<and> (\<forall>i. i < logical_offset mf \<or> logical_offset mf + n \<le> i \<longrightarrow> mf_view mf' i = mf_view mf i)"
proof (cases "align_en mf \<and> n \<noteq> 0")
  case False
  then show ?thesis using assms
    by (cases "n = 0") (auto simp: mux_file_skip_def mf_ok_def mf_view_def osal_fseek_def mux_file_is_valid_def split: if_splits)
next
  case True
  obtain mf1 where m1: "mux_skip_pad full_disk n mf = (0, logical_offset mf + n - logical_offset mf1, mf1)"
      "mf_ok mf1" "align_en mf1" "logical_offset mf \<le> logical_offset mf1" "logical_offset mf1 \<le> logical_offset mf + n"
      "fsize (mf_fp mf1) = fsize (mf_fp mf)" "logical_offset mf1 < logical_offset mf + n \<longrightarrow> mf_buf mf1 = []"
      "\<forall>i. i < logical_offset mf \<or> logical_offset mf + n \<le> i \<longrightarrow> mf_view mf1 i = mf_view mf i"
    using skip_pad_full [OF assms(1) _ assms(2)] True by blast
  define k where "k = logical_offset mf + n - logical_offset mf1"
  have k: "logical_offset mf1 + k = logical_offset mf + n" using m1(5) by (simp add: k_def)
  obtain mf2 where m2: "mux_skip_whole full_disk k mf1 = (0, k mod ALIGN, mf2)"
      "mf_ok mf2" "align_en mf2" "logical_offset mf2 = logical_offset mf1 + (k - k mod ALIGN)"
      "fsize (mf_fp mf2) = fsize (mf_fp mf1)" "k \<noteq> 0 \<longrightarrow> mf_buf mf2 = []"
      "\<forall>i. i < logical_offset mf1 \<or> logical_offset mf1 + k \<le> i \<longrightarrow> mf_view mf2 i = mf_view mf1 i"
    using skip_whole_full [OF m1(2, 3), of k] m1(6, 7) assms(2) k by auto
  define mf3 where "mf3 = (if k mod ALIGN \<noteq> 0 then mf2\<lparr>mf_buf := replicate (k mod ALIGN) 0,
    logical_offset := logical_offset mf2 + k mod ALIGN\<rparr> else mf2)"
  have e: "mux_file_skip full_disk n mf = (0, mf3)"
    unfolding mux_file_skip_def m1(1) k_def [symmetric] Let_def prod.case m2(1) mf3_def using True assms(1) by simp
  have b: "k mod ALIGN \<noteq> 0 \<longrightarrow> mf_buf mf2 = []" using m2(6) by (cases "k = 0") auto
  have "k - k mod ALIGN + k mod ALIGN = k" by simp
  then have l: "logical_offset mf2 + k mod ALIGN = logical_offset mf + n" using m2(4) k by linarith
  then have l3: "logical_offset mf3 = logical_offset mf + n" by (simp add: mf3_def)
  have "k mod ALIGN < ALIGN" using ALIGN_pos by simp
  then have o: "mf_ok mf3" using m2(2, 3, 5) b l m1(6) assms(2) by (auto simp: mf_ok_def mf3_def)
  have v3: "mf_view mf3 i = mf_view mf2 i" if "i < logical_offset mf1 \<or> logical_offset mf1 + k \<le> i" for i
  proof (cases "k mod ALIGN = 0")
    case False
    then have "mf_view mf3 = overlay (mf_view mf2) (logical_offset mf2) (replicate (k mod ALIGN) 0)"
      using b m2(2, 3) by (simp add: mf3_def mf_view_def mf_ok_def)
    moreover have "i < logical_offset mf2 \<or> logical_offset mf2 + k mod ALIGN \<le> i" using that m2(4) l k by linarith
    ultimately show ?thesis by (simp add: overlay_outside)
  qed (simp add: mf3_def)
  have "mf_view mf3 i = mf_view mf i" if "i < logical_offset mf \<or> logical_offset mf + n \<le> i" for i
  proof -
    have "i < logical_offset mf1 \<or> logical_offset mf1 + k \<le> i" using that m1(4) k by linarith
    then have "mf_view mf3 i = mf_view mf1 i" using v3 m2(7) by simp
    then show ?thesis using spec [OF m1(8), of i] that by auto
  qed
  moreover have "fsize (mf_fp mf3) = fsize (mf_fp mf)" using m1(6) m2(5) by (simp add: mf3_def)
  ultimately show ?thesis using e o l3 by blast
qed

text \<open>A write at an offset: each pass of the loop lays a part of the bytes over the content.\<close>

lemma write_at_loop_full:
  assumes "mf_ok mf" "align_en mf" "off + length src \<le> fsize (mf_fp mf)"
  shows "\<exists>mf'. mux_write_at_loop full_disk off src mf = (0, mf') \<and> mf_ok mf' \<and> align_en mf'
    \<and> write_offset mf' = write_offset mf \<and> logical_offset mf' = logical_offset mf
    \<and> fsize (mf_fp mf') = fsize (mf_fp mf) \<and> mf_view mf' = overlay (mf_view mf) off src"
  using assms
proof (induction "length src" arbitrary: src off mf rule: less_induct)
  case less
  show ?case
  proof (cases "src = []")
    case True
    then show ?thesis using less.prems by (simp add: mux_write_at_loop.simps)
  next
    case False
    define s where "s = write_offset mf"
    define buf where "buf = mf_buf mf"
    have step: "\<exists>mf'. mux_write_at_loop full_disk (off + c) (drop c src) mf1 = (0, mf') \<and> mf_ok mf' \<and> align_en mf'
        \<and> write_offset mf' = write_offset mf \<and> logical_offset mf' = logical_offset mf
        \<and> fsize (mf_fp mf') = fsize (mf_fp mf) \<and> mf_view mf' = overlay (mf_view mf) off src"
      if "0 < c" "c \<le> length src" "mf_ok mf1" "align_en mf1" "write_offset mf1 = write_offset mf" "logical_offset mf1 = logical_offset mf"
        "fsize (mf_fp mf1) = fsize (mf_fp mf)" "mf_view mf1 = overlay (mf_view mf) off (take c src)" for c mf1
    proof -
      have "length (drop c src) < length src" "off + c + length (drop c src) \<le> fsize (mf_fp mf1)"
        using that(1, 2, 7) less.prems(3) by auto
      from less.hyps [OF this(1) that(3, 4) this(2)] obtain mf' where
        "mux_write_at_loop full_disk (off + c) (drop c src) mf1 = (0, mf')" "mf_ok mf'" "align_en mf'"
        "write_offset mf' = write_offset mf1" "logical_offset mf' = logical_offset mf1"
        "fsize (mf_fp mf') = fsize (mf_fp mf1)" "mf_view mf' = overlay (mf_view mf1) (off + c) (drop c src)" by blast
      moreover have "overlay (mf_view mf1) (off + c) (drop c src) = overlay (mf_view mf) off src"
        using overlay_append [of "mf_view mf" off "take c src" "drop c src"] that(2, 8) by simp
      ultimately show ?thesis using that(5-7) by auto
    qed
    show ?thesis
    proof (cases "s \<le> off \<and> off < s + length buf")
      case True
      define c where "c = min (s + length buf - off) (length src)"
      define mf1 where "mf1 = mf\<lparr>mf_buf := take (off - s) buf @ take c src @ drop (off - s + c) buf\<rparr>"
      have c: "0 < c" "c \<le> length src" "c \<le> s + length buf - off" using True False by (auto simp: c_def)
      then have l: "length (mf_buf mf1) = length buf" using True by (simp add: mf1_def)
      have v: "mf_view mf1 = overlay (mf_view mf) off (take c src)"
        using overlay_within [of s off "take c src" buf "fcontent (mf_fp mf)"] True c
        by (simp add: mf_view_def mf1_def s_def buf_def min_absorb2)
      have "mux_write_at_loop full_disk off src mf = mux_write_at_loop full_disk (off + c) (drop c src) mf1"
        using False True
        by (subst mux_write_at_loop.simps) (simp add: Let_def s_def [symmetric] buf_def [symmetric] c_def [symmetric] mf1_def)
      moreover have "mf_ok mf1" using less.prems(1, 2) l by (auto simp: mf_ok_def buf_def mf1_def)
      ultimately show ?thesis using step [OF c(1, 2)] v less.prems(2) by (simp add: mf1_def)
    next
      case outside: False
      define c where "c = (if off < s \<and> off + length src > s then s - off else length src)"
      have c: "0 < c" "c \<le> length src" using False by (auto simp: c_def)
      have d: "off + c \<le> s \<or> s + length buf \<le> off" using outside by (auto simp: c_def)
      obtain fp where f: "fwrite_at full_disk off (take c src) mf = (0, mf\<lparr>mf_fp := fp\<rparr>)"
          "fcontent fp = overlay (fcontent (mf_fp mf)) off (take c src)" "fsize fp = fsize (mf_fp mf)" "fwritable fp"
        using fwrite_at_full [of mf off "take c src"] less.prems c by (auto simp: mf_ok_def)
      define mf1 where "mf1 = mf\<lparr>mf_fp := fp\<rparr>"
      have v: "mf_view mf1 = overlay (mf_view mf) off (take c src)"
        using overlay_commute [of off "take c src" s buf "fcontent (mf_fp mf)"] d c f(2)
        by (simp add: mf_view_def mf1_def s_def buf_def)
      have "mux_write_at_loop full_disk off src mf = mux_write_at_loop full_disk (off + c) (drop c src) mf1"
        unfolding mux_write_at_loop.simps [of full_disk off src mf] Let_def s_def [symmetric] buf_def [symmetric]
          if_not_P [OF False] if_not_P [OF outside] c_def [symmetric] f(1) prod.case mf1_def by simp
      moreover have "mf_ok mf1" using less.prems(1, 2) f(3, 4) by (auto simp: mf_ok_def mf1_def)
      ultimately show ?thesis using step [OF c] v less.prems(2) f(3) by (simp add: mf1_def)
    qed
  qed
qed

lemma flush_full_blocks_ok [simp]: "mf_ok mf \<Longrightarrow> mux_file_flush_full_blocks disk mf = (0, mf)"
  by (auto simp: mux_file_flush_full_blocks_def mf_ok_def mux_file_is_valid_def)

lemma seek_back:
  assumes "mf_ok mf" "off \<le> fsize (mf_fp mf)"
  shows "mf_ok (on_fp (osal_fseek off) mf)" "mf_view (on_fp (osal_fseek off) mf) = mf_view mf"
    "fsize (mf_fp (on_fp (osal_fseek off) mf)) = fsize (mf_fp mf)" "logical_offset (on_fp (osal_fseek off) mf) = logical_offset mf"
  using assms by (auto simp: on_fp_def osal_fseek_def mf_ok_def mf_view_def)

lemma mux_file_write_at_law:
  assumes "mf_ok mf" "off + length bs \<le> fsize (mf_fp mf)"
  shows "\<exists>mf'. mux_file_write_at full_disk off bs mf = (0, mf') \<and> mf_ok mf' \<and> logical_offset mf' = logical_offset mf
    \<and> fsize (mf_fp mf') = fsize (mf_fp mf) \<and> mf_view mf' = overlay (mf_view mf) off bs"
proof (cases "align_en mf")
  case True
  obtain mf' where m: "mux_write_at_loop full_disk off bs mf = (0, mf')" "mf_ok mf'" "align_en mf'"
      "write_offset mf' = write_offset mf" "logical_offset mf' = logical_offset mf"
      "fsize (mf_fp mf') = fsize (mf_fp mf)" "mf_view mf' = overlay (mf_view mf) off bs"
    using write_at_loop_full [OF assms(1) True assms(2)] by blast
  have "write_offset mf \<le> fsize (mf_fp mf')" using m(6) assms(1) by (simp add: mf_ok_def)
  from seek_back [OF m(2) this] show ?thesis using True assms(1) m by (simp add: mux_file_write_at_def)
next
  case False
  then have b: "mf_buf mf = []" "fwritable (mf_fp mf)" using assms(1) by (auto simp: mf_ok_def)
  obtain fp where f: "fwrite_at full_disk off bs mf = (0, mf\<lparr>mf_fp := fp\<rparr>)"
      "fcontent fp = overlay (fcontent (mf_fp mf)) off bs" "fsize fp = fsize (mf_fp mf)" "fwritable fp"
    using fwrite_at_full [OF b(2) assms(2)] by blast
  have o: "mf_ok (mf\<lparr>mf_fp := fp\<rparr>)" "logical_offset mf \<le> fsize (mf_fp (mf\<lparr>mf_fp := fp\<rparr>))"
    using assms(1) False f(3, 4) by (auto simp: mf_ok_def)
  from seek_back [OF this] show ?thesis using False assms(1) b f by (simp add: mux_file_write_at_def mf_view_def)
qed

lemma mux_file_flush_law: "mf_ok mf \<Longrightarrow> mux_file_flush disk mf = (0, mf)"
  by (simp add: mux_file_flush_def)

lemma aligned_empty: "mf_ok mf \<Longrightarrow> ALIGN dvd logical_offset mf \<Longrightarrow> mf_buf mf = []"
  by (cases "align_en mf") (auto simp: mf_ok_def dvd_add_right_iff dest: nat_dvd_not_less)

lemma mux_file_finish_law:
  assumes "mf_ok mf" "ALIGN dvd logical_offset mf"
  shows "\<exists>mf'. mux_file_finish disk mf = (0, mf') \<and> mf_ok mf' \<and> logical_offset mf' = logical_offset mf
    \<and> fsize (mf_fp mf') = fsize (mf_fp mf) \<and> mf_view mf' = mf_view mf"
proof (cases "align_en mf")
  case True
  then show ?thesis using assms aligned_empty [OF assms] by (simp add: mux_file_finish_def)
next
  case False
  have "logical_offset mf \<le> fsize (mf_fp mf)" using assms(1) by (simp add: mf_ok_def)
  from seek_back [OF assms(1) this] show ?thesis using False assms by (simp add: mux_file_finish_def)
qed

interpretation mux: muxer_file "mux_file_get_ops full_disk" mf_ok mf_view mf_fp
proof (unfold_locales, goal_cases)
  case (1 s bs)
  then show ?case using mux_file_write_law [of s bs] by (simp add: mux_file_get_ops_def mux_file_tell_def)
next
  case (2 s n)
  then show ?case using mux_file_skip_law [of s n] by (simp add: mux_file_get_ops_def mux_file_tell_def)
next
  case (3 s off bs)
  then show ?case using mux_file_write_at_law [of s off bs] by (simp add: mux_file_get_ops_def mux_file_tell_def)
next
  case (4 s)
  then show ?case by (simp add: mux_file_get_ops_def mux_file_tell_def mux_file_flush_law)
next
  case (5 s)
  then show ?case using mux_file_finish_law [of s] by (simp add: mux_file_get_ops_def mux_file_tell_def)
next
  case (6 s)
  then show ?case using aligned_empty [of s] by (simp add: mux_file_get_ops_def mux_file_tell_def mf_view_def)
qed

section \<open>A session\<close>

lemma align_up:
  assumes "n < 2 ^ 32 - ALIGN"
  shows "ALIGN dvd muxer_file_align_up n" "n \<le> muxer_file_align_up n"
proof -
  have "(n + ALIGN - 1) mod 2 ^ 32 = n + (ALIGN - 1)" using assms by (simp add: MUXER_FILE_ALIGN_SIZE_def)
  then have e: "muxer_file_align_up n = (n + (ALIGN - 1)) div ALIGN * ALIGN" unfolding muxer_file_align_up_def by simp
  show "ALIGN dvd muxer_file_align_up n" unfolding e by simp
  show "n \<le> muxer_file_align_up n"
    using div_mult_mod_eq [of "n + (ALIGN - 1)" ALIGN] mod_less_divisor [OF ALIGN_pos, of "n + (ALIGN - 1)"] unfolding e by linarith
qed

lemma mux_open_ok:
  assumes "fwritable fp" "prealloc \<noteq> 0" "prealloc < 2 ^ 32 - ALIGN"
  shows "mf_ok (mux_file_open fp prealloc align)" "logical_offset (mux_file_open fp prealloc align) = 0"
    "fsize (mf_fp (mux_file_open fp prealloc align)) = (if align then muxer_file_align_up prealloc else prealloc)"
  using assms align_up [OF assms(3)]
  by (auto simp: mux_file_open_def mf_ok_def ALIGN_pos osal_fseek_def osal_ftruncate_def osal_fsize_def Let_def)

text \<open>C13: 
  Whatever sequence of writes, skips and writes at an offset a muxer makes inside a file it has reserved, when it ends on
  a whole block and finishes, every byte it wrote last at a place is on the card, in both modes.
\<close>

theorem mux_file_session:
  assumes "fwritable fp" "prealloc \<noteq> 0" "prealloc < 2 ^ 32 - ALIGN" "run_fits prealloc rs (0, Map.empty)"
    and "ALIGN dvd fst (run_spec rs (0, Map.empty))"
  shows "\<exists>mf1 mf2. file_run (mux_file_get_ops full_disk) rs (mux_file_open fp prealloc align) = (0, mf1)
    \<and> mux_file_finish full_disk mf1 = (0, mf2)
    \<and> (\<forall>i b. snd (run_spec rs (0, Map.empty)) i = Some b \<longrightarrow> fcontent (mf_fp mf2) i = b)"
proof -
  define mf where "mf = mux_file_open fp prealloc align"
  have o: "mf_ok mf" "logical_offset mf = 0" "prealloc \<le> fsize (mf_fp mf)"
    using mux_open_ok [OF assms(1-3), of align] align_up(2) [OF assms(3)] by (auto simp: mf_def)
  have t: "op_tell (mux_file_get_ops full_disk) mf = 0" using o(2) by (simp add: mux_file_get_ops_def mux_file_tell_def)
  have "run_fits (fsize (mf_fp mf)) rs (op_tell (mux_file_get_ops full_disk) mf, Map.empty)"
    unfolding t using run_fits_mono [OF assms(4) o(3)] .
  from mux.session_law [OF o(1) this] obtain mf1 mf2 where
      "file_run (mux_file_get_ops full_disk) rs mf = (0, mf1)" "op_finish (mux_file_get_ops full_disk) mf1 = (0, mf2)"
      "\<forall>i b. snd (run_spec rs (0, Map.empty)) i = Some b \<longrightarrow> fcontent (mf_fp mf2) i = b"
    using assms(5) unfolding t by blast
  then show ?thesis unfolding mf_def by (auto simp: mux_file_get_ops_def)
qed

theorem mux_file_session_witness:
  "\<exists>mf1 mf2. file_run (mux_file_get_ops full_disk) [FSkip 32768, FWriteAt 4 [1, 2], FFlush]
      (mux_file_open \<lparr>fcontent = \<lambda>_. 0, fsize = 0, fpos = 0, fwritable = True, fcalls = 0\<rparr> 40000 True) = (0, mf1)
    \<and> mux_file_finish full_disk mf1 = (0, mf2) \<and> fcontent (mf_fp mf2) 5 = 2"
proof -
  let ?rs = "[FSkip 32768, FWriteAt 4 [1, 2], FFlush]"
  have "run_fits 40000 ?rs (0, Map.empty)" "ALIGN dvd fst (run_spec ?rs (0, Map.empty))"
    by (simp_all add: run_spec_def MUXER_FILE_ALIGN_SIZE_def)
  moreover have "snd (run_spec ?rs (0, Map.empty)) 5 = Some 2" by (simp add: run_spec_def)
  ultimately show ?thesis
    using mux_file_session [of "\<lparr>fcontent = \<lambda>_. 0, fsize = 0, fpos = 0, fwritable = True, fcalls = 0\<rparr>" 40000 ?rs True]
    by (auto simp: MUXER_FILE_ALIGN_SIZE_def)
qed

section \<open>Snapshots\<close>

lemma dvd_room:
  assumes "ALIGN dvd off" "ALIGN dvd room" "off < room"
  shows "off + ALIGN \<le> room"
proof -
  have "ALIGN dvd room - off" using assms(2, 1) by (rule dvd_diff_nat)
  then have "ALIGN \<le> room - off" using assms(3) by (intro dvd_imp_le) auto
  then show ?thesis using assms(3) by linarith
qed

lemma direct_write_here:
  assumes "fwritable fp" "fpos fp + length bs \<le> fsize fp"
  shows "\<exists>fp'. mux_file_direct_write full_disk bs fp = (0, fp') \<and> fcontent fp' = overlay (fcontent fp) (fpos fp) bs
     \<and> fsize fp' = fsize fp \<and> fwritable fp' \<and> fpos fp' = fpos fp + length bs"
  using assms by (cases "bs = []") (auto simp: mux_file_direct_write_def osal_fwrite_def full_disk_def Let_def)

lemma tail_blocks_full:
  assumes "fwritable fp" "ALIGN dvd fpos fp" "ALIGN dvd fsize fp" "fpos fp + length rest \<le> fsize fp"
  shows "\<exists>fp'. mux_tail_blocks full_disk rest fp = (0, fp') \<and> bytes_at (fcontent fp') (fpos fp) (length rest) = rest
    \<and> (\<forall>i < fpos fp. fcontent fp' i = fcontent fp i) \<and> fsize fp' = fsize fp \<and> fwritable fp'"
  using assms
proof (induction "length rest" arbitrary: rest fp rule: less_induct)
  case less
  show ?case
  proof (cases "rest = []")
    case True
    then show ?thesis using less.prems by (simp add: mux_tail_blocks.simps)
  next
    case False
    define blk where "blk = take ALIGN rest @ replicate (ALIGN - length (take ALIGN rest)) 0"
    have l: "length blk = ALIGN" by (simp add: blk_def)
    have t: "take (length (take ALIGN rest)) blk = take ALIGN rest" by (simp add: blk_def min_def)
    have r: "fpos fp + ALIGN \<le> fsize fp" using dvd_room [OF less.prems(2, 3)] less.prems(4) False by (cases rest) auto
    obtain fp1 where f1: "mux_file_direct_write full_disk blk fp = (0, fp1)" "fcontent fp1 = overlay (fcontent fp) (fpos fp) blk"
        "fsize fp1 = fsize fp" "fwritable fp1" "fpos fp1 = fpos fp + ALIGN"
      using direct_write_here [of fp blk] less.prems(1) r l by auto
    have e: "mux_tail_blocks full_disk rest fp = mux_tail_blocks full_disk (drop ALIGN rest) fp1"
      unfolding mux_tail_blocks.simps [of full_disk rest fp] Let_def blk_def [symmetric] f1(1) using False by simp
    have b: "bytes_at (fcontent fp1) (fpos fp) (length (take ALIGN rest)) = take ALIGN rest"
      using take_bytes_at [of "length (take ALIGN rest)" ALIGN "fcontent fp1" "fpos fp"]
        bytes_at_overlay_same [of "fcontent fp" "fpos fp" blk] l t f1(2) by simp
    show ?thesis
    proof (cases "length rest \<le> ALIGN")
      case True
      then show ?thesis using e f1 b l by (auto simp: mux_tail_blocks.simps overlay_outside)
    next
      case long: False
      have "length (drop ALIGN rest) < length rest" using False ALIGN_pos by simp
      moreover have "ALIGN dvd fpos fp1" using f1(5) less.prems(2) by simp
      moreover have "fpos fp1 + length (drop ALIGN rest) \<le> fsize fp1" using f1(3, 5) less.prems(4) long by simp
      ultimately obtain fp' where m: "mux_tail_blocks full_disk (drop ALIGN rest) fp1 = (0, fp')"
          "bytes_at (fcontent fp') (fpos fp1) (length (drop ALIGN rest)) = drop ALIGN rest"
          "\<forall>i < fpos fp1. fcontent fp' i = fcontent fp1 i" "fsize fp' = fsize fp1" "fwritable fp'"
        using less.hyps [of "drop ALIGN rest" fp1] less.prems(3) f1(3, 4) by auto
      have n: "length rest = ALIGN + length (drop ALIGN rest)" "length (take ALIGN rest) = ALIGN" using long by auto
      have "bytes_at (fcontent fp') (fpos fp) ALIGN = bytes_at (fcontent fp1) (fpos fp) ALIGN"
        using m(3) f1(5) by (intro bytes_at_cong) simp
      then have "bytes_at (fcontent fp') (fpos fp) ALIGN = take ALIGN rest" using b n(2) by simp
      then have "bytes_at (fcontent fp') (fpos fp) (ALIGN + length (drop ALIGN rest)) = take ALIGN rest @ drop ALIGN rest"
        using m(2) unfolding bytes_at_add f1(5) by simp
      then have "bytes_at (fcontent fp') (fpos fp) (length rest) = rest" using n(1) by (simp only: append_take_drop_id)
      moreover have "\<forall>i < fpos fp. fcontent fp' i = fcontent fp i" using m(3) f1(2, 5) by (simp add: overlay_outside)
      ultimately show ?thesis using e m(1, 4, 5) f1(3) by simp
    qed
  qed
qed

text \<open>C14: 
  After a tail has been laid down, with blocks of 32 KB, the card alone holds the whole file up to the logical end and the
  tail behind it, even what is still buffered; the recording goes on as if nothing had happened.
\<close>

theorem mux_tail_snapshot:
  assumes "mf_ok mf" "align_en mf" "logical_offset mf < reserved_end" "reserved_end \<le> fsize (mf_fp mf)"
    and "length tail \<le> reserved_end - logical_offset mf"
  shows "\<exists>fp. mux_file_tail full_disk tail (logical_offset mf) reserved_end mf = (0, mf\<lparr>mf_fp := fp\<rparr>)
    \<and> (\<forall>i < logical_offset mf. fcontent fp i = mf_view mf i)
    \<and> bytes_at (fcontent fp) (logical_offset mf) (length tail) = tail
    \<and> mf_ok (mf\<lparr>mf_fp := fp\<rparr>) \<and> (\<forall>i < logical_offset mf. mf_view (mf\<lparr>mf_fp := fp\<rparr>) i = mf_view mf i)"
proof -
  define pending where "pending = length (mf_buf mf)"
  define remain where "remain = reserved_end - logical_offset mf"
  define c where "c = min (length tail) (ALIGN - pending)"
  define z where "z = min (ALIGN - pending - c) (remain - length tail)"
  define snap where "snap = mf_buf mf @ take c tail @ replicate z 0"
  have ok: "logical_offset mf = write_offset mf + pending" "pending < ALIGN" "ALIGN dvd write_offset mf"
      "ALIGN dvd fsize (mf_fp mf)" "fwritable (mf_fp mf)" "logical_offset mf \<le> fsize (mf_fp mf)"
    using assms(1, 2) by (simp_all add: mf_ok_def pending_def)
  have "length (take c tail) = c" by (simp add: c_def)
  then have l: "length snap = pending + c + z" by (simp add: snap_def pending_def)
  moreover have "pending + c + z = min (pending + remain) ALIGN"
    using assms(3, 5) ok(2) unfolding c_def z_def remain_def by linarith
  ultimately have w: "length snap = min (pending + remain) ALIGN" by simp
  have room: "write_offset mf + ALIGN \<le> fsize (mf_fp mf)"
    using dvd_room [OF ok(3, 4)] ok(1) assms(3, 4) by linarith
  have r: "write_offset mf + length snap \<le> fsize (mf_fp mf)" unfolding w using room by linarith
  obtain fp1 where f1: "fwrite_at full_disk (write_offset mf) snap mf = (0, mf\<lparr>mf_fp := fp1\<rparr>)"
      "fcontent fp1 = overlay (fcontent (mf_fp mf)) (write_offset mf) snap" "fsize fp1 = fsize (mf_fp mf)" "fwritable fp1"
    using fwrite_at_full [OF ok(5) r] by blast
  have below: "fcontent fp1 i = mf_view mf i" if "i < logical_offset mf" for i
    using that ok(1) unfolding f1(2) snap_def mf_view_def overlay_append pending_def by (simp add: overlay_outside)
  have first: "bytes_at (fcontent fp1) (logical_offset mf) c = take c tail"
    using bytes_at_overlay_outside [of "logical_offset mf + c" "replicate z 0" "logical_offset mf" c]
      bytes_at_overlay_same [of "overlay (fcontent (mf_fp mf)) (write_offset mf) (mf_buf mf)" "logical_offset mf" "take c tail"]
      ok(1) \<open>length (take c tail) = c\<close>
    unfolding f1(2) snap_def overlay_append pending_def by simp
  have okp: "mf_ok (mf\<lparr>mf_fp := fp\<rparr>)" "\<forall>i < logical_offset mf. mf_view (mf\<lparr>mf_fp := fp\<rparr>) i = mf_view mf i"
    if "fsize fp = fsize (mf_fp mf)" "fwritable fp" "\<forall>i < logical_offset mf. fcontent fp i = mf_view mf i" for fp
    using that assms(1) by (auto simp: mf_ok_def mf_view_def overlay_def)
  have call: "mux_file_tail full_disk tail (logical_offset mf) reserved_end mf
      = (if length tail > c then
           let (r, fp) = mux_tail_blocks full_disk (drop c tail) (osal_fseek (write_offset mf + ALIGN) fp1) in (r, mf\<lparr>mf_fp := fp\<rparr>)
         else (0, mf\<lparr>mf_fp := fp1\<rparr>))"
  proof -
    have "take (min (pending + remain) ALIGN) snap = snap" using w by simp
    then show ?thesis using assms(1-3, 5) f1(1)
      unfolding mux_file_tail_def Let_def remain_def [symmetric] pending_def [symmetric] c_def [symmetric] z_def [symmetric]
        snap_def [symmetric] by simp
  qed
  show ?thesis
  proof (cases "length tail > c")
    case False
    then have "c = length tail" by (simp add: c_def)
    then show ?thesis using call False first below okp [of fp1] f1(3, 4) by (intro exI [of _ fp1]) simp
  next
    case True
    then have c: "c = ALIGN - pending" "logical_offset mf + c = write_offset mf + ALIGN" using ok(1, 2) by (auto simp: c_def)
    define fp2 where "fp2 = osal_fseek (write_offset mf + ALIGN) fp1"
    have f2: "fwritable fp2" "fpos fp2 = write_offset mf + ALIGN" "fsize fp2 = fsize (mf_fp mf)" "fcontent fp2 = fcontent fp1"
      using f1(3, 4) room by (simp_all add: fp2_def osal_fseek_def)
    have "write_offset mf + ALIGN + length (drop c tail) \<le> fsize (mf_fp mf)"
      using assms(4, 5) c ok(1, 2) True by simp
    then obtain fp where m: "mux_tail_blocks full_disk (drop c tail) fp2 = (0, fp)"
        "bytes_at (fcontent fp) (write_offset mf + ALIGN) (length (drop c tail)) = drop c tail"
        "\<forall>i < write_offset mf + ALIGN. fcontent fp i = fcontent fp1 i" "fsize fp = fsize (mf_fp mf)" "fwritable fp"
      using tail_blocks_full [of fp2 "drop c tail"] f2 ok(3, 4) by auto
    have b: "\<forall>i < logical_offset mf. fcontent fp i = mf_view mf i" using below m(3) ok(1, 2) by auto
    have "bytes_at (fcontent fp) (logical_offset mf) c = take c tail"
      using first c(2) m(3) by (metis (no_types, lifting) bytes_at_cong)
    then have "bytes_at (fcontent fp) (logical_offset mf) (c + length (drop c tail)) = take c tail @ drop c tail"
      unfolding bytes_at_add c(2) m(2) by simp
    moreover have "c + length (drop c tail) = length tail" using True by simp
    ultimately have "bytes_at (fcontent fp) (logical_offset mf) (length tail) = tail" by (simp only: append_take_drop_id)
    moreover have "mux_file_tail full_disk tail (logical_offset mf) reserved_end mf = (0, mf\<lparr>mf_fp := fp\<rparr>)"
      using call True m(1) unfolding fp2_def by simp
    ultimately show ?thesis using b okp [OF m(4, 5) b] by blast
  qed
qed

theorem mux_tail_snapshot_witness:
  "\<exists>fp. mux_file_tail full_disk [7, 8] 3 9
      \<lparr>mf_fp = \<lparr>fcontent = \<lambda>_. 0, fsize = 32768, fpos = 0, fwritable = True, fcalls = 0\<rparr>, align_en = True,
       mf_buf = [4, 5, 6], write_offset = 0, logical_offset = 3, prealloc_size = 0\<rparr>
    = (0, \<lparr>mf_fp = fp, align_en = True, mf_buf = [4, 5, 6], write_offset = 0, logical_offset = 3, prealloc_size = 0\<rparr>)
    \<and> bytes_at (fcontent fp) 3 2 = [7, 8]"
  using mux_tail_snapshot [of "\<lparr>mf_fp = \<lparr>fcontent = \<lambda>_. 0, fsize = 32768, fpos = 0, fwritable = True, fcalls = 0\<rparr>, align_en = True,
       mf_buf = [4, 5, 6], write_offset = 0, logical_offset = 3, prealloc_size = 0\<rparr>" 9 "[7, 8]"]
  by (auto simp: mf_ok_def MUXER_FILE_ALIGN_SIZE_def numeral_2_eq_2)

end
