(* ===== verification/AviMux.thy ===== *)
theory AviMux
  imports MuxFile ByteShift
begin

text \<open>
  The AVI muxer, \<open>sdk/app/ffavimuxer/avimuxer.c\<close>. The file has its final size from the start: the header, a JUNK chunk up to
  the first whole block, the frames (the list \<open>movi\<close>), and in the last megabyte the index \<open>idx1\<close>, the rest of each part
  covered by a JUNK chunk.

  The file is any that has the operations of \<open>OsalFile\<close>; the muxer has one of its own for a plain file. \<open>ops_init\<close>
  holds once the muxer is initialised. Offsets and sizes are natural numbers, below the size of the file, which is less than 4 GB.
  The table of clusters for fast seeking is FatFs's and not modelled.
\<close>

section \<open>The plain file\<close>

definition pre_avi_seek :: "nat \<Rightarrow> ffile \<Rightarrow> ffile" where
  "pre_avi_seek offset fp = (if osal_fsize fp \<noteq> offset then osal_ftruncate (osal_fseek offset fp) else fp)"

definition avi_seek_set :: "nat \<Rightarrow> ffile \<Rightarrow> ffile" where
  "avi_seek_set offset fp =
     (let filesize = osal_fsize fp; fp = osal_fseek offset fp in if filesize < offset then osal_ftruncate fp else fp)"

definition avi_write :: "disk \<Rightarrow> u8 list \<Rightarrow> ffile \<Rightarrow> bool \<times> ffile" where
  "avi_write disk bs fp = (let (ret, fp) = osal_fwrite disk bs fp in (ret \<noteq> length bs, fp))"

definition av_write :: "disk \<Rightarrow> u8 list \<Rightarrow> ffile \<Rightarrow> int \<times> ffile" where
  "av_write disk bs fp = (let (e, fp) = avi_write disk bs fp in (if e then - 1 else 0, fp))"

definition avi_skip :: "nat \<Rightarrow> ffile \<Rightarrow> int \<times> ffile" where
  "avi_skip len fp =
     (let offset = osal_ftell fp + len; fp = osal_fseek offset fp
      in (0, if osal_fsize fp < offset then osal_ftruncate fp else fp))"

definition avi_tell :: "ffile \<Rightarrow> nat" where
  "avi_tell fp = osal_ftell fp"

definition avi_write_at :: "disk \<Rightarrow> nat \<Rightarrow> u8 list \<Rightarrow> ffile \<Rightarrow> int \<times> ffile" where
  "avi_write_at disk offset bs fp =
     (let restore_offset = osal_ftell fp; (e, fp) = avi_write disk bs (osal_fseek offset fp)
      in if e then (- 1, fp) else (0, osal_fseek restore_offset fp))"

definition avi_flush :: "ffile \<Rightarrow> int \<times> ffile" where
  "avi_flush fp = (0, fp)"

definition avi_finish :: "ffile \<Rightarrow> int \<times> ffile" where
  "avi_finish fp = avi_flush fp"

function avi_zeros :: "disk \<Rightarrow> nat \<Rightarrow> ffile \<Rightarrow> bool \<times> ffile" where
  "avi_zeros disk remain fp =
     (if remain = 0 then (False, fp)
      else let write_len = (if remain > 64 then 64 else remain); (e, fp) = avi_write disk (replicate write_len 0) fp
           in if e then (True, fp) else avi_zeros disk (remain - write_len) fp)"
  by pat_completeness auto
termination by (relation "measure (\<lambda>(disk, remain, fp). remain)") auto

declare avi_zeros.simps [simp del]

definition avi_tail :: "disk \<Rightarrow> u8 list \<Rightarrow> nat \<Rightarrow> nat \<Rightarrow> ffile \<Rightarrow> int \<times> ffile" where
  "avi_tail disk tail logical_end reserved_end fp =
     (if reserved_end < logical_end then (- 1, fp)
      else let remain = reserved_end - logical_end
           in if length tail > remain then (- 1, fp)
              else let restore_offset = osal_ftell fp; (e, fp) = avi_write disk tail (osal_fseek logical_end fp)
                   in if e then (- 1, fp)
                      else let (e, fp) = avi_zeros disk (remain - length tail) fp
                           in if e then (- 1, fp) else (0, osal_fseek restore_offset fp))"

definition avi_default_ops_init :: "disk \<Rightarrow> ffile file_ops" where
  "avi_default_ops_init disk = \<lparr>op_write = av_write disk, op_skip = avi_skip, op_tell = avi_tell, op_write_at = avi_write_at disk,
     op_flush = avi_flush, op_finish = avi_finish, op_tail = avi_tail disk\<rparr>"

section \<open>The muxer\<close>

text \<open>Numbers and tags as they lie in the file; a number is an offset or size below \<open>2 ^ 32\<close>.\<close>

definition le32 :: "nat \<Rightarrow> u8 list" where
  "le32 n = enc_le32 (word_of_nat n)"

definition le16 :: "nat \<Rightarrow> u8 list" where
  "le16 n = enc_le16 (word_of_nat n)"

lemma length_le32 [simp]: "length (le32 n) = 4"
  by (simp add: le32_def enc_le32_def enc_le16_def)

lemma length_le16 [simp]: "length (le16 n) = 2"
  by (simp add: le16_def enc_le16_def)

record AVI_HEADER =
  microsec_per_frame :: nat
  maxbytes_per_Sec :: nat
  flags :: nat
  number_streams :: nat
  suggested_bufsize :: nat
  width :: nat
  height :: nat

record STREAM_HEADER =
  fcc_type :: "u8 list"
  fcc_codec :: "u8 list"
  scale :: nat
  rate :: nat
  sh_suggested_bufsize :: nat
  quality :: nat
  sample_size :: nat
  vrect_right :: nat
  vrect_bottom :: nat

record WAVE_FORMAT =
  format_tag :: nat
  channels :: nat
  sample_per_sec :: nat
  avgbyte_per_sec :: nat
  block_align :: nat
  bits_per_sample :: nat

record BITMAP_FORMAT =
  bf_size :: nat
  bf_width :: nat
  bf_height :: nat
  planes :: nat
  bitcount :: nat
  compression :: "u8 list"
  image_size :: nat

text \<open>The packed structures, with the fields that are always 0, and the counters that are patched later as arguments.\<close>

definition AVI_HEADER_bytes :: "AVI_HEADER \<Rightarrow> nat \<Rightarrow> u8 list" where
  "AVI_HEADER_bytes h total_frames =
     le32 (microsec_per_frame h) @ le32 (maxbytes_per_Sec h) @ le32 0 @ le32 (flags h) @ le32 total_frames @ le32 0
       @ le32 (number_streams h) @ le32 (suggested_bufsize h) @ le32 (width h) @ le32 (height h) @ replicate 16 0"

definition STREAM_HEADER_bytes :: "STREAM_HEADER \<Rightarrow> nat \<Rightarrow> u8 list" where
  "STREAM_HEADER_bytes h len =
     fcc_type h @ fcc_codec h @ le32 0 @ le16 0 @ le16 0 @ le32 0 @ le32 (scale h) @ le32 (rate h) @ le32 0 @ le32 len
       @ le32 (sh_suggested_bufsize h) @ le32 (quality h) @ le32 (sample_size h) @ le16 0 @ le16 0
       @ le16 (vrect_right h) @ le16 (vrect_bottom h)"

definition WAVE_FORMAT_bytes :: "WAVE_FORMAT \<Rightarrow> u8 list" where
  "WAVE_FORMAT_bytes h =
     le16 (format_tag h) @ le16 (channels h) @ le32 (sample_per_sec h) @ le32 (avgbyte_per_sec h) @ le16 (block_align h)
       @ le16 (bits_per_sample h) @ le16 0"

definition BITMAP_FORMAT_bytes :: "BITMAP_FORMAT \<Rightarrow> u8 list" where
  "BITMAP_FORMAT_bytes h =
     le32 (bf_size h) @ le32 (bf_width h) @ le32 (bf_height h) @ le16 (planes h) @ le16 (bitcount h) @ compression h
       @ le32 (image_size h) @ replicate 16 0"

record 's avi_file =
  a_file :: 's
  idx1_addr :: nat
  idx1_size_addr :: nat
  idx1_data_addr :: nat
  idx1_end_addr :: nat
  idx1_data_size :: nat
  idx1_write_addr :: nat
  total_idx :: nat
  tmp_idx_data :: "u8 list"
  movi_addr :: nat
  movi_data_addr :: nat
  movi_addr_end :: nat
  movi_data_size :: nat
  cur_addr :: nat
  movi_guard_block_end :: nat
  last_video_offset :: nat
  last_video_size :: nat
  last_video_flags :: nat
  syn_time :: nat
  audio_enable :: bool
  video_tag :: "u8 list"
  riff_size_offset :: nat
  total_frames_offset :: nat
  audio_length_offset :: nat
  video_length_offset :: nat
  movi_size_offset :: nat
  avi_header :: AVI_HEADER
  strhdr_audio :: STREAM_HEADER
  strfmt_audio :: WAVE_FORMAT
  strhdr_video :: STREAM_HEADER
  strfmt_video :: BITMAP_FORMAT
  audio_length :: nat
  video_length :: nat

definition IDX_MAX_SIZE :: nat where "IDX_MAX_SIZE = 1024 * 1024"
definition AVI_IDX_ENTRY_SIZE :: nat where "AVI_IDX_ENTRY_SIZE = 16"
definition AVI_IDX_TMP_ENTRIES :: nat where "AVI_IDX_TMP_ENTRIES = 128"
definition AVIIF_KEYFRAME :: nat where "AVIIF_KEYFRAME = 16"

abbreviation AVIMUXER_OK :: int where "AVIMUXER_OK \<equiv> 0"
abbreviation AVIMUXER_FULL :: int where "AVIMUXER_FULL \<equiv> 1"
abbreviation AVIMUXER_ERR :: int where "AVIMUXER_ERR \<equiv> 2"

text \<open>A chain of calls \<open>f || g || ...\<close>: 1 when one fails, without the rest.\<close>

primrec calls :: "('x \<Rightarrow> int \<times> 'x) list \<Rightarrow> 'x \<Rightarrow> int \<times> 'x" where
  "calls [] x = (0, x)"
| "calls (f # fs) x = (let (r, x) = f x in if r \<noteq> 0 then (1, x) else calls fs x)"

declare calls.simps [simp del]

definition a_write :: "'s file_ops \<Rightarrow> u8 list \<Rightarrow> 's avi_file \<Rightarrow> int \<times> 's avi_file" where
  "a_write ops bs avi = (let (r, s) = op_write ops bs (a_file avi) in (r, avi\<lparr>a_file := s\<rparr>))"

definition a_skip :: "'s file_ops \<Rightarrow> nat \<Rightarrow> 's avi_file \<Rightarrow> int \<times> 's avi_file" where
  "a_skip ops n avi = (let (r, s) = op_skip ops n (a_file avi) in (r, avi\<lparr>a_file := s\<rparr>))"

definition a_write_at :: "'s file_ops \<Rightarrow> nat \<Rightarrow> u8 list \<Rightarrow> 's avi_file \<Rightarrow> int \<times> 's avi_file" where
  "a_write_at ops off bs avi = (let (r, s) = op_write_at ops off bs (a_file avi) in (r, avi\<lparr>a_file := s\<rparr>))"

definition a_tell :: "'s file_ops \<Rightarrow> 's avi_file \<Rightarrow> nat" where
  "a_tell ops avi = op_tell ops (a_file avi)"

section \<open>The index\<close>

definition avi_write_idx_tmp :: "u8 list \<Rightarrow> 's avi_file \<Rightarrow> int \<times> 's avi_file" where
  "avi_write_idx_tmp bs avi =
     (if length (tmp_idx_data avi) + length bs > AVI_IDX_TMP_ENTRIES * AVI_IDX_ENTRY_SIZE then (1, avi)
      else (0, avi\<lparr>tmp_idx_data := tmp_idx_data avi @ bs\<rparr>))"

definition avi_write_idx_syn :: "'s file_ops \<Rightarrow> 's avi_file \<Rightarrow> int \<times> 's avi_file" where
  "avi_write_idx_syn ops avi =
     (if tmp_idx_data avi = [] then (0, avi)
      else if idx1_write_addr avi + length (tmp_idx_data avi) > idx1_end_addr avi then (1, avi)
      else let (r, avi) = a_write_at ops (idx1_write_addr avi) (tmp_idx_data avi) avi
           in if r \<noteq> 0 then (1, avi)
              else (0, avi\<lparr>idx1_write_addr := idx1_write_addr avi + length (tmp_idx_data avi), tmp_idx_data := []\<rparr>))"

definition avi_idx_entry_fits :: "'s avi_file \<Rightarrow> bool" where
  "avi_idx_entry_fits avi =
     (if idx1_write_addr avi \<ge> idx1_end_addr avi then False
      else let next_offset = idx1_write_addr avi + length (tmp_idx_data avi)
           in if next_offset \<ge> idx1_end_addr avi then False
              else let remain = idx1_end_addr avi - next_offset
                   in if remain < AVI_IDX_ENTRY_SIZE then False
                      else let remain = remain - AVI_IDX_ENTRY_SIZE in remain = 0 \<or> remain \<ge> 8)"

definition avi_idx_write_entry :: "'s file_ops \<Rightarrow> u8 list \<Rightarrow> nat \<Rightarrow> nat \<Rightarrow> nat \<Rightarrow> 's avi_file \<Rightarrow> int \<times> 's avi_file" where
  "avi_idx_write_entry ops tag fl offset len avi =
     (let (r, avi) = (if length (tmp_idx_data avi) + AVI_IDX_ENTRY_SIZE > AVI_IDX_TMP_ENTRIES * AVI_IDX_ENTRY_SIZE
                      then avi_write_idx_syn ops avi else (0, avi))
      in if r \<noteq> 0 then (1, avi)
         else if \<not> avi_idx_entry_fits avi then (1, avi)
         else let (r1, avi) = avi_write_idx_tmp tag avi;
                  (r2, avi) = avi_write_idx_tmp (le32 fl) avi;
                  (r3, avi) = avi_write_idx_tmp (le32 offset) avi;
                  (r4, avi) = avi_write_idx_tmp (le32 len) avi
              in if r1 = 0 \<and> r2 = 0 \<and> r3 = 0 \<and> r4 = 0
                 then (0, avi\<lparr>idx1_data_size := idx1_data_size avi + AVI_IDX_ENTRY_SIZE\<rparr>) else (1, avi))"

definition avimuxer_written_duration_ms :: "'s avi_file \<Rightarrow> nat" where
  "avimuxer_written_duration_ms avi =
     (let video_ms = (if microsec_per_frame (avi_header avi) \<noteq> 0
                      then video_length avi * microsec_per_frame (avi_header avi) div 1000 mod 2 ^ 32 else 0);
          audio_ms = (if rate (strhdr_audio avi) \<noteq> 0
                      then audio_length avi * 1000 div rate (strhdr_audio avi) mod 2 ^ 32 else 0)
      in if video_ms > audio_ms then video_ms else audio_ms)"

section \<open>Frames\<close>

definition avi_chunk_fits :: "'s avi_file \<Rightarrow> nat \<Rightarrow> bool" where
  "avi_chunk_fits avi chunk_size =
     (if cur_addr avi \<ge> movi_addr_end avi then False
      else let remain = movi_addr_end avi - cur_addr avi
           in if chunk_size > remain then False
              else let remain = remain - chunk_size in remain = 0 \<or> remain \<ge> 8)"

text \<open>The answer carries \<open>chunk_offset\<close>.\<close>

definition avi_write_movi_chunk ::
    "'s file_ops \<Rightarrow> u8 list \<Rightarrow> nat \<Rightarrow> u8 list \<Rightarrow> 's avi_file \<Rightarrow> int \<times> nat \<times> 's avi_file" where
  "avi_write_movi_chunk ops tag fl buf avi =
     (let alignlen = (if odd (length buf) then length buf + 1 else length buf);
          offset = cur_addr avi - movi_addr avi + 4
      in if \<not> avi_chunk_fits avi (8 + alignlen) \<or> \<not> avi_idx_entry_fits avi then (AVIMUXER_FULL, 0, avi)
         else let (r, avi) = calls ([a_write ops tag, a_write ops (le32 alignlen), a_write ops buf]
                                    @ (if odd (length buf) then [a_write ops [0]] else [])) avi
              in if r \<noteq> 0 then (AVIMUXER_ERR, 0, avi)
                 else let (r, avi) = avi_idx_write_entry ops tag fl offset alignlen avi
                      in if r \<noteq> 0 then (AVIMUXER_ERR, 0, avi)
                         else (AVIMUXER_OK, offset, avi\<lparr>cur_addr := cur_addr avi + (8 + alignlen), total_idx := total_idx avi + 1\<rparr>))"

definition avimuxer_video :: "'s file_ops \<Rightarrow> u8 list \<Rightarrow> bool \<Rightarrow> bool \<Rightarrow> 's avi_file \<Rightarrow> int \<times> 's avi_file" where
  "avimuxer_video ops buf key ins avi =
     (let fl = (if key then AVIIF_KEYFRAME else 0);
          chunk_size = (if odd (length buf) then length buf + 1 else length buf)
      in if \<not> ins then
           let (ret, chunk_offset, avi) = avi_write_movi_chunk ops (video_tag avi) fl buf avi
           in if ret \<noteq> AVIMUXER_OK then (ret, avi)
              else (AVIMUXER_OK, avi\<lparr>last_video_offset := chunk_offset, last_video_size := chunk_size, last_video_flags := fl,
                                     video_length := video_length avi + 1\<rparr>)
         else if last_video_size avi \<noteq> 0 then
           if \<not> avi_idx_entry_fits avi then (AVIMUXER_FULL, avi)
           else let (r, avi) = avi_idx_write_entry ops (video_tag avi) (last_video_flags avi) (last_video_offset avi)
                                 (last_video_size avi) avi
                in if r \<noteq> 0 then (AVIMUXER_ERR, avi)
                   else (AVIMUXER_OK, avi\<lparr>total_idx := total_idx avi + 1, video_length := video_length avi + 1\<rparr>)
         else (AVIMUXER_OK, avi))"

definition avimuxer_audio :: "'s file_ops \<Rightarrow> u8 list \<Rightarrow> 's avi_file \<Rightarrow> int \<times> 's avi_file" where
  "avimuxer_audio ops buf avi =
     (if \<not> audio_enable avi then (AVIMUXER_OK, avi)
      else if buf = [] then (AVIMUXER_ERR, avi)
      else let (ret, chunk_offset, avi) = avi_write_movi_chunk ops (str_bytes ''00wb'') 0 buf avi
           in if ret \<noteq> AVIMUXER_OK then (ret, avi)
              else (AVIMUXER_OK, avi\<lparr>audio_length := audio_length avi + length buf div 2\<rparr>))"

section \<open>Fillers\<close>

function avi_movi_write_zero :: "'s file_ops \<Rightarrow> nat \<Rightarrow> 's avi_file \<Rightarrow> int \<times> 's avi_file" where
  "avi_movi_write_zero ops len avi =
     (if len = 0 then (0, avi)
      else let write_len = (if len > 64 then 64 else len); (r, avi) = a_write ops (replicate write_len 0) avi
           in if r \<noteq> 0 then (1, avi) else avi_movi_write_zero ops (len - write_len) avi)"
  by pat_completeness auto
termination by (relation "measure (\<lambda>(ops, len, avi). len)") auto

declare avi_movi_write_zero.simps [simp del]

definition avi_write_movi_junk_chunk :: "'s file_ops \<Rightarrow> nat \<Rightarrow> 's avi_file \<Rightarrow> int \<times> 's avi_file" where
  "avi_write_movi_junk_chunk ops chunk_size avi =
     (if chunk_size < 8 then (1, avi)
      else let junk_size = chunk_size - 8;
               (r, avi) = calls [a_write ops (str_bytes ''JUNK''), a_write ops (le32 junk_size), a_skip ops junk_size] avi
           in if r \<noteq> 0 then (1, avi) else (0, avi\<lparr>cur_addr := cur_addr avi + chunk_size\<rparr>))"

definition avi_write_movi_snapshot_tail :: "'s file_ops \<Rightarrow> 's avi_file \<Rightarrow> int \<times> 's avi_file" where
  "avi_write_movi_snapshot_tail ops avi =
     (if cur_addr avi \<ge> movi_addr_end avi then (0, avi)
      else if a_tell ops avi \<noteq> cur_addr avi then (1, avi)
      else let remain = movi_addr_end avi - cur_addr avi
           in if remain < 8 then (1, avi)
              else let junk_hdr = str_bytes ''JUNK'' @ le32 (remain - 8);
                       (r, s) = op_tail ops junk_hdr (cur_addr avi) (movi_addr_end avi) (a_file avi)
                   in (if r \<noteq> 0 then 1 else 0, avi\<lparr>a_file := s\<rparr>))"

definition avi_movi_guard_block_end :: "'s avi_file \<Rightarrow> nat" where
  "avi_movi_guard_block_end avi =
     (let block_end = muxer_file_align_up (cur_addr avi)
      in if block_end = cur_addr avi then block_end + MUXER_FILE_ALIGN_SIZE else block_end)"

definition avi_write_movi_guard :: "'s file_ops \<Rightarrow> 's avi_file \<Rightarrow> int \<times> 's avi_file" where
  "avi_write_movi_guard ops avi =
     (if cur_addr avi \<le> movi_data_addr avi then (0, avi)
      else let cur_block_end = avi_movi_guard_block_end avi
           in if cur_block_end \<le> movi_guard_block_end avi then (0, avi)
              else let (r, avi) = avi_write_movi_snapshot_tail ops avi
                   in if r \<noteq> 0 then (1, avi) else (0, avi\<lparr>movi_guard_block_end := cur_block_end\<rparr>))"

definition avi_write_movi_tail_junk :: "'s file_ops \<Rightarrow> 's avi_file \<Rightarrow> int \<times> 's avi_file" where
  "avi_write_movi_tail_junk ops avi =
     (if cur_addr avi \<ge> movi_addr_end avi then (0, avi)
      else let remain = movi_addr_end avi - cur_addr avi
           in if remain < 8 then
                let (r, avi) = avi_movi_write_zero ops remain avi
                in if r \<noteq> 0 then (1, avi) else (0, avi\<lparr>cur_addr := cur_addr avi + remain\<rparr>)
              else avi_write_movi_junk_chunk ops remain avi)"

definition avi_write_idx_tail_junk :: "'s file_ops \<Rightarrow> 's avi_file \<Rightarrow> int \<times> 's avi_file" where
  "avi_write_idx_tail_junk ops avi =
     (if idx1_write_addr avi \<ge> idx1_end_addr avi then (0, avi)
      else let (r, avi) = avi_write_idx_syn ops avi
           in if r \<noteq> 0 then (1, avi)
              else if idx1_write_addr avi \<ge> idx1_end_addr avi then (0, avi)
              else let remain = idx1_end_addr avi - idx1_write_addr avi
                   in if remain < 8 then
                        let (r, avi) = a_write_at ops (idx1_write_addr avi) (replicate remain 0) avi
                        in if r \<noteq> 0 then (1, avi) else (0, avi\<lparr>idx1_write_addr := idx1_end_addr avi\<rparr>)
                      else
                        let (r, avi) = calls [a_write_at ops (idx1_write_addr avi) (str_bytes ''JUNK''),
                                              a_write_at ops (idx1_write_addr avi + 4) (le32 (remain - 8))] avi
                        in if r \<noteq> 0 then (1, avi) else (0, avi\<lparr>idx1_write_addr := idx1_end_addr avi\<rparr>))"

definition avi_write_idx_snapshot_tail :: "'s file_ops \<Rightarrow> 's avi_file \<Rightarrow> int \<times> 's avi_file" where
  "avi_write_idx_snapshot_tail ops avi =
     (if idx1_write_addr avi \<ge> idx1_end_addr avi then (0, avi)
      else let remain = idx1_end_addr avi - idx1_write_addr avi
           in if remain < 8 then (1, avi)
              else calls [a_write_at ops (idx1_write_addr avi) (str_bytes ''JUNK''),
                          a_write_at ops (idx1_write_addr avi + 4) (le32 (remain - 8))] avi)"

definition avi_write_align_junk :: "'s file_ops \<Rightarrow> nat \<Rightarrow> nat \<Rightarrow> 's avi_file \<Rightarrow> int \<times> 's avi_file" where
  "avi_write_align_junk ops start stop avi =
     (if stop \<le> start then (0, avi)
      else let remain = stop - start
           in if a_tell ops avi \<noteq> start then (1, avi)
              else if remain \<ge> 8 then
                calls [a_write ops (str_bytes ''JUNK''), a_write ops (le32 (remain - 8)), a_skip ops (remain - 8)] avi
              else (1, avi))"

section \<open>Beginning a file\<close>

abbreviation avih_size :: nat where "avih_size \<equiv> 56"
abbreviation strhdr_size :: nat where "strhdr_size \<equiv> 56"
abbreviation strfmt1_size :: nat where "strfmt1_size \<equiv> 18"
abbreviation strfmt2_size :: nat where "strfmt2_size \<equiv> 40"

definition slist1_size :: nat where "slist1_size = 4 + 8 + strhdr_size + 8 + strfmt1_size"
definition slist2_size :: nat where "slist2_size = 4 + 4 + 4 + strhdr_size + 4 + 4 + strfmt2_size"

definition hlist_size :: "'s avi_file \<Rightarrow> nat" where
  "hlist_size avi = 4 + 8 + avih_size + 8 + slist2_size + (if audio_enable avi then 8 + slist1_size else 0)"

text \<open>The stream lists of \<open>avi_write_header\<close>.\<close>

definition avi_write_strl_audio :: "'s file_ops \<Rightarrow> 's avi_file \<Rightarrow> int \<times> 's avi_file" where
  "avi_write_strl_audio ops avi =
     (let (r, avi) = calls [a_write ops (str_bytes ''LIST''), a_write ops (le32 slist1_size), a_write ops (str_bytes ''strl'')] avi
      in if r \<noteq> 0 then (1, avi)
         else let avi = avi\<lparr>audio_length_offset := a_tell ops avi + 8 + 32\<rparr>
              in calls [a_write ops (str_bytes ''strh''), a_write ops (le32 strhdr_size),
                        a_write ops (STREAM_HEADER_bytes (strhdr_audio avi) 0), a_write ops (str_bytes ''strf''),
                        a_write ops (le32 strfmt1_size), a_write ops (WAVE_FORMAT_bytes (strfmt_audio avi))] avi)"

definition avi_write_strl_video :: "'s file_ops \<Rightarrow> 's avi_file \<Rightarrow> int \<times> 's avi_file" where
  "avi_write_strl_video ops avi =
     (let (r, avi) = calls [a_write ops (str_bytes ''LIST''), a_write ops (le32 slist2_size), a_write ops (str_bytes ''strl'')] avi
      in if r \<noteq> 0 then (1, avi)
         else let avi = avi\<lparr>video_length_offset := a_tell ops avi + 8 + 32\<rparr>;
                  (r, avi) = calls [a_write ops (str_bytes ''strh''), a_write ops (le32 strhdr_size),
                        a_write ops (STREAM_HEADER_bytes (strhdr_video avi) 0), a_write ops (str_bytes ''strf''),
                        a_write ops (le32 strfmt2_size), a_write ops (BITMAP_FORMAT_bytes (strfmt_video avi))] avi
              in if r \<noteq> 0 then (1, avi)
                 else let avi = avi\<lparr>movi_size_offset := a_tell ops avi + 4\<rparr>
                      in calls [a_write ops (str_bytes ''LIST''), a_write ops (le32 0), a_write ops (str_bytes ''movi'')] avi)"

text \<open>The sizes of the file and of \<open>movi\<close> and the counters are 0 in the structure; they are only patched in the file.\<close>

definition avi_write_header :: "'s file_ops \<Rightarrow> 's avi_file \<Rightarrow> int \<times> 's avi_file" where
  "avi_write_header ops avi =
     (let avi = avi\<lparr>riff_size_offset := a_tell ops avi + 4\<rparr>;
          (r, avi) = calls [a_write ops (str_bytes ''RIFF''), a_write ops (le32 0), a_write ops (str_bytes ''AVI ''),
                            a_write ops (str_bytes ''LIST''), a_write ops (le32 (hlist_size avi)), a_write ops (str_bytes ''hdrl'')] avi
      in if r \<noteq> 0 then (1, avi)
         else let avi = avi\<lparr>total_frames_offset := a_tell ops avi + 8 + 16\<rparr>;
                  (r, avi) = calls [a_write ops (str_bytes ''avih''), a_write ops (le32 avih_size),
                                    a_write ops (AVI_HEADER_bytes (avi_header avi) 0)] avi
              in if r \<noteq> 0 then (1, avi)
                 else let (r, avi) = (if audio_enable avi then avi_write_strl_audio ops avi else (0, avi))
                      in if r \<noteq> 0 then (1, avi)
                         else avi_write_strl_video ops avi)"

text \<open>The structures as \<open>avimuxer_init_with_file\<close> fills them. \<open>frate = 0\<close> divides by zero.\<close>

definition avi_init_fields :: "'s \<Rightarrow> nat \<Rightarrow> nat \<Rightarrow> nat \<Rightarrow> bool \<Rightarrow> bool \<Rightarrow> 's avi_file" where
  "avi_init_fields s w h frate h265 audio =
     \<lparr>a_file = s, idx1_addr = 0, idx1_size_addr = 0, idx1_data_addr = 0, idx1_end_addr = 0, idx1_data_size = 0, idx1_write_addr = 0,
      total_idx = 0, tmp_idx_data = [], movi_addr = 0, movi_data_addr = 0, movi_addr_end = 0, movi_data_size = 0, cur_addr = 0,
      movi_guard_block_end = 0, last_video_offset = 0, last_video_size = 0, last_video_flags = 0, syn_time = 0,
      audio_enable = audio, video_tag = str_bytes (if audio then ''01dc'' else ''00dc''),
      riff_size_offset = 0, total_frames_offset = 0, audio_length_offset = 0, video_length_offset = 0, movi_size_offset = 0,
      avi_header = \<lparr>microsec_per_frame = 1000000 div frate, maxbytes_per_Sec = w * h * 3, flags = 256 + 16,
        number_streams = (if audio then 2 else 1), suggested_bufsize = w * h * 3, width = w, height = h\<rparr>,
      strhdr_audio = (if audio then
         \<lparr>fcc_type = str_bytes ''auds'', fcc_codec = str_bytes ''PCM '', scale = 1, rate = 8000, sh_suggested_bufsize = 16000,
          quality = 0, sample_size = 2, vrect_right = 0, vrect_bottom = 0\<rparr>
       else \<lparr>fcc_type = replicate 4 0, fcc_codec = replicate 4 0, scale = 0, rate = 0, sh_suggested_bufsize = 0,
          quality = 0, sample_size = 0, vrect_right = 0, vrect_bottom = 0\<rparr>),
      strfmt_audio = (if audio then
         \<lparr>format_tag = 1, channels = 1, sample_per_sec = 8000, avgbyte_per_sec = 16000, block_align = 2, bits_per_sample = 16\<rparr>
       else \<lparr>format_tag = 0, channels = 0, sample_per_sec = 0, avgbyte_per_sec = 0, block_align = 0, bits_per_sample = 0\<rparr>),
      strhdr_video = \<lparr>fcc_type = str_bytes ''vids'', fcc_codec = str_bytes (if h265 then ''HEV1'' else ''MJPG''), scale = 1,
        rate = frate, sh_suggested_bufsize = 0, quality = 2 ^ 32 - 1, sample_size = 0, vrect_right = w, vrect_bottom = h\<rparr>,
      strfmt_video = \<lparr>bf_size = 40, bf_width = w, bf_height = h, planes = 1, bitcount = 24,
        compression = str_bytes (if h265 then ''HEV1'' else ''MJPG''), image_size = w * h * 3\<rparr>,
      audio_length = 0, video_length = 0\<rparr>"

text \<open>
  \<open>on_file\<close> reaches the file behind the operations, which the function has as \<open>fp\<close>. The inner \<open>None\<close> is NULL, the outer one the
  division.
\<close>

definition avimuxer_init_with_file :: "'s file_ops \<Rightarrow> ((ffile \<Rightarrow> ffile) \<Rightarrow> 's \<Rightarrow> 's) \<Rightarrow> 's \<Rightarrow> nat \<Rightarrow> nat \<Rightarrow> nat \<Rightarrow> nat \<Rightarrow> bool \<Rightarrow> bool
    \<Rightarrow> 's avi_file option option" where
  "avimuxer_init_with_file ops on_file s max_size w h frate h265 audio =
     (let max_size = muxer_file_align_up max_size
      in if max_size \<le> IDX_MAX_SIZE + MUXER_FILE_ALIGN_SIZE then Some None
         else if frate = 0 then None
         else Some
           (let avi = avi_init_fields (on_file (avi_seek_set 0) (on_file (pre_avi_seek max_size) s)) w h frate h265 audio;
                (r, avi) = avi_write_header ops avi
            in if r \<noteq> 0 then None
               else
                 let movi = a_tell ops avi;
                     data = muxer_file_align_up movi;
                     data = (if data \<noteq> movi \<and> data - movi < 8 then data + MUXER_FILE_ALIGN_SIZE else data);
                     idx1 = muxer_file_align_up (max_size - IDX_MAX_SIZE)
                 in if idx1 \<ge> max_size then None
                    else
                      let avi = avi\<lparr>movi_addr := movi, movi_data_addr := data, idx1_addr := idx1, idx1_end_addr := max_size,
                                    idx1_size_addr := idx1 + 4, idx1_data_addr := idx1 + 8, movi_data_size := idx1 - movi\<rparr>;
                          (r, avi) = avi_write_align_junk ops movi data avi
                      in if r \<noteq> 0 then None
                         else let (r, avi) = a_skip ops (data - a_tell ops avi) avi
                              in if r \<noteq> 0 then None
                                 else let (r, avi) = calls [a_write_at ops idx1 (str_bytes ''idx1''), a_write_at ops (idx1 + 4) (le32 0)] avi
                                      in if r \<noteq> 0 then None
                                         else Some (avi\<lparr>movi_addr_end := idx1, idx1_write_addr := idx1 + 8, cur_addr := data,
                                                        movi_guard_block_end := muxer_file_align_up data, syn_time := 0\<rparr>)))"

definition avimuxer_init :: "disk \<Rightarrow> ffile \<Rightarrow> nat \<Rightarrow> nat \<Rightarrow> nat \<Rightarrow> nat \<Rightarrow> bool \<Rightarrow> bool \<Rightarrow> ffile avi_file option option" where
  "avimuxer_init disk fp max_size w h frate h265 audio =
     avimuxer_init_with_file (avi_default_ops_init disk) (\<lambda>g. g) fp max_size w h frate h265 audio"

section \<open>Syncing and ending\<close>

text \<open>The patches of \<open>avimuxer_fix_data_aligned\<close>; their results are not looked at.\<close>

definition avi_patch :: "'s file_ops \<Rightarrow> nat \<Rightarrow> nat \<Rightarrow> 's avi_file \<Rightarrow> 's avi_file" where
  "avi_patch ops off n avi = snd (a_write_at ops off (le32 n) avi)"

definition avi_fix_fields :: "'s file_ops \<Rightarrow> bool \<Rightarrow> 's avi_file \<Rightarrow> 's avi_file" where
  "avi_fix_fields ops final_flush avi =
     (let avi = avi_patch ops (total_frames_offset avi) (video_length avi) avi;
          avi = (if audio_enable avi then avi_patch ops (audio_length_offset avi) (audio_length avi) avi else avi);
          avi = avi_patch ops (video_length_offset avi) (video_length avi) avi;
          avi = avi_patch ops (movi_size_offset avi) (movi_data_size avi + 4) avi;
          riffsize = (if final_flush then idx1_end_addr avi - 8 else idx1_data_addr avi + idx1_data_size avi - 8);
          avi = avi_patch ops (riff_size_offset avi) riffsize avi;
          avi = avi_patch ops (idx1_size_addr avi) (idx1_data_size avi) avi;
          avi = avi\<lparr>a_file := snd (op_flush ops (a_file avi))\<rparr>
      in avi\<lparr>syn_time := avimuxer_written_duration_ms avi\<rparr>)"

text \<open>The two branches of \<open>avimuxer_fix_data_aligned\<close>.\<close>

definition avi_fix_final :: "'s file_ops \<Rightarrow> 's avi_file \<Rightarrow> 's avi_file" where
  "avi_fix_final ops avi =
     (let (r, avi) = avi_write_movi_tail_junk ops avi
      in if r \<noteq> 0 then avi
         else let (r, s) = op_finish ops (a_file avi); avi = avi\<lparr>a_file := s\<rparr>
              in if r \<noteq> 0 then avi
                 else let (r, avi) = avi_write_idx_tail_junk ops avi
                      in if r \<noteq> 0 then avi else avi_fix_fields ops True avi)"

definition avi_fix_sync :: "'s file_ops \<Rightarrow> 's avi_file \<Rightarrow> 's avi_file" where
  "avi_fix_sync ops avi =
     (let (r, avi) = avi_write_idx_syn ops avi
      in if r \<noteq> 0 then avi
         else let (r, avi) = avi_write_idx_snapshot_tail ops avi
              in if r \<noteq> 0 then avi else avi_fix_fields ops False avi)"

definition avimuxer_fix_data_aligned :: "'s file_ops \<Rightarrow> bool \<Rightarrow> 's avi_file \<Rightarrow> 's avi_file" where
  "avimuxer_fix_data_aligned ops final_flush avi =
     (if final_flush then avi_fix_final ops avi
      else avi_fix_sync ops (avi\<lparr>movi_guard_block_end := avi_movi_guard_block_end avi\<rparr>))"

definition avimuxer_sync :: "'s file_ops \<Rightarrow> 's avi_file \<Rightarrow> 's avi_file" where
  "avimuxer_sync ops avi =
     (let avi = avimuxer_fix_data_aligned ops False avi in avi\<lparr>syn_time := avimuxer_written_duration_ms avi\<rparr>)"

definition avimuxer_sync_time :: "'s file_ops \<Rightarrow> nat \<Rightarrow> 's avi_file \<Rightarrow> 's avi_file" where
  "avimuxer_sync_time ops time_ms avi =
     (if time_ms = 0 then avimuxer_sync ops avi
      else let written_duration = avimuxer_written_duration_ms avi
           in if syn_time avi = 0 \<and> written_duration > 0 \<or> written_duration < syn_time avi
                 \<or> written_duration - syn_time avi \<ge> time_ms
              then avimuxer_sync ops avi else avi)"

text \<open>The file of the caller stays open; what is left is its state.\<close>

definition avimuxer_exit :: "'s file_ops \<Rightarrow> 's avi_file \<Rightarrow> 's" where
  "avimuxer_exit ops avi = a_file (avimuxer_fix_data_aligned ops True avi)"

section \<open>Interpretations of the file interface\<close>

text \<open>The muxer also sizes the file it is given, before it writes.\<close>

locale avi_muxer_file = muxer_file ops ok view fl
  for ops :: "'s file_ops" and ok :: "'s \<Rightarrow> bool" and view :: "'s \<Rightarrow> nat \<Rightarrow> u8" and fl :: "'s \<Rightarrow> ffile" +
  fixes on_file :: "(ffile \<Rightarrow> ffile) \<Rightarrow> 's \<Rightarrow> 's"
  assumes size_law: "ok s \<Longrightarrow> op_tell ops s = 0 \<Longrightarrow> MUXER_FILE_ALIGN_SIZE dvd n \<Longrightarrow> fsize (fl s) \<le> n \<Longrightarrow>
      ok (on_file (avi_seek_set 0) (on_file (pre_avi_seek n) s))
      \<and> op_tell ops (on_file (avi_seek_set 0) (on_file (pre_avi_seek n) s)) = 0
      \<and> fsize (fl (on_file (avi_seek_set 0) (on_file (pre_avi_seek n) s))) = n"

definition plain_ok :: "ffile \<Rightarrow> bool" where
  "plain_ok fp \<longleftrightarrow> fwritable fp \<and> fpos fp \<le> fsize fp"

lemma avi_write_full: "avi_write full_disk bs fp =
  (False, fp\<lparr>fcontent := overlay (fcontent fp) (fpos fp) bs, fsize := max (fsize fp) (fpos fp + length bs),
    fpos := fpos fp + length bs, fcalls := fcalls fp + 1\<rparr>)"
  by (simp add: avi_write_def osal_fwrite_def full_disk_def Let_def)

lemmas avi_plain_defs = avi_default_ops_init_def av_write_def avi_skip_def avi_tell_def avi_write_at_def avi_flush_def avi_finish_def
  avi_write_full osal_fseek_def osal_ftell_def osal_fsize_def osal_ftruncate_def plain_ok_def Let_def

interpretation plain: avi_muxer_file "avi_default_ops_init full_disk" plain_ok fcontent "\<lambda>fp. fp" "\<lambda>g. g"
  by unfold_locales (auto simp: avi_plain_defs pre_avi_seek_def avi_seek_set_def)

interpretation mux_avi: avi_muxer_file "mux_file_get_ops full_disk" mf_ok mf_view mf_fp on_fp
  by unfold_locales
    (auto simp: mux_file_get_ops_def mux_file_tell_def mf_ok_def on_fp_def pre_avi_seek_def avi_seek_set_def osal_fseek_def
      osal_ftruncate_def osal_fsize_def Let_def)

section \<open>Chains of calls\<close>

lemma calls_append: "calls (fs @ gs) x = (let (r, x) = calls fs x in if r \<noteq> 0 then (1, x) else calls gs x)"
  by (induction fs arbitrary: x) (auto simp: calls.simps Let_def split: prod.splits)

context muxer_file
begin

lemma a_write_law:
  assumes "ok (a_file a)" "op_tell ops (a_file a) + length bs \<le> fsize (fl (a_file a))"
  shows "\<exists>s. a_write ops bs a = (0, a\<lparr>a_file := s\<rparr>) \<and> ok s \<and> op_tell ops s = op_tell ops (a_file a) + length bs
    \<and> fsize (fl s) = fsize (fl (a_file a)) \<and> view s = overlay (view (a_file a)) (op_tell ops (a_file a)) bs"
  using write_law [OF assms] by (auto simp: a_write_def)

lemma a_writes_law:
  assumes "ok (a_file a)" "op_tell ops (a_file a) + length (concat bss) \<le> fsize (fl (a_file a))"
  shows "\<exists>s. calls (map (a_write ops) bss) a = (0, a\<lparr>a_file := s\<rparr>) \<and> ok s
    \<and> op_tell ops s = op_tell ops (a_file a) + length (concat bss)
    \<and> fsize (fl s) = fsize (fl (a_file a)) \<and> view s = overlay (view (a_file a)) (op_tell ops (a_file a)) (concat bss)"
  using assms
proof (induction bss arbitrary: a)
  case Nil
  then show ?case by (intro exI [of _ "a_file a"]) (simp add: calls.simps)
next
  case (Cons bs bss)
  obtain s where s: "a_write ops bs a = (0, a\<lparr>a_file := s\<rparr>)" "ok s" "op_tell ops s = op_tell ops (a_file a) + length bs"
      "fsize (fl s) = fsize (fl (a_file a))" "view s = overlay (view (a_file a)) (op_tell ops (a_file a)) bs"
    using a_write_law [OF Cons.prems(1), of bs] Cons.prems(2) by auto
  then show ?case using Cons.IH [of "a\<lparr>a_file := s\<rparr>"] Cons.prems(2) by (auto simp: calls.simps overlay_append add.assoc)
qed

lemma a_skip_law:
  assumes "ok (a_file a)" "op_tell ops (a_file a) + n \<le> fsize (fl (a_file a))"
  shows "\<exists>s. a_skip ops n a = (0, a\<lparr>a_file := s\<rparr>) \<and> ok s \<and> op_tell ops s = op_tell ops (a_file a) + n
    \<and> fsize (fl s) = fsize (fl (a_file a))
    \<and> (\<forall>i. i < op_tell ops (a_file a) \<or> op_tell ops (a_file a) + n \<le> i \<longrightarrow> view s i = view (a_file a) i)"
  using skip_law [OF assms] by (auto simp: a_skip_def)

lemma a_write_at_law:
  assumes "ok (a_file a)" "off + length bs \<le> fsize (fl (a_file a))"
  shows "\<exists>s. a_write_at ops off bs a = (0, a\<lparr>a_file := s\<rparr>) \<and> ok s \<and> op_tell ops s = op_tell ops (a_file a)
    \<and> fsize (fl s) = fsize (fl (a_file a)) \<and> view s = overlay (view (a_file a)) off bs"
  using write_at_law [OF assms] by (auto simp: a_write_at_def)

text \<open>A JUNK chunk covers the room before it; nothing else changes.\<close>

lemma junk_law:
  assumes "ok (a_file a)" "8 \<le> n" "op_tell ops (a_file a) + n \<le> fsize (fl (a_file a))"
  shows "\<exists>s. calls [a_write ops (str_bytes ''JUNK''), a_write ops (le32 (n - 8)), a_skip ops (n - 8)] a = (0, a\<lparr>a_file := s\<rparr>)
    \<and> ok s \<and> op_tell ops s = op_tell ops (a_file a) + n \<and> fsize (fl s) = fsize (fl (a_file a))
    \<and> placed (view s) (op_tell ops (a_file a)) (str_bytes ''JUNK'' @ le32 (n - 8))
    \<and> (\<forall>i. i < op_tell ops (a_file a) \<or> op_tell ops (a_file a) + n \<le> i \<longrightarrow> view s i = view (a_file a) i)"
proof -
  let ?bs = "str_bytes ''JUNK'' @ le32 (n - 8)"
  have l: "length ?bs = 8" by simp
  obtain s where s: "calls (map (a_write ops) [str_bytes ''JUNK'', le32 (n - 8)]) a = (0, a\<lparr>a_file := s\<rparr>)" "ok s"
      "op_tell ops s = op_tell ops (a_file a) + 8" "fsize (fl s) = fsize (fl (a_file a))"
      "view s = overlay (view (a_file a)) (op_tell ops (a_file a)) ?bs"
    using a_writes_law [OF assms(1), of "[str_bytes ''JUNK'', le32 (n - 8)]"] assms(2, 3) l by auto
  obtain s' where s': "a_skip ops (n - 8) (a\<lparr>a_file := s\<rparr>) = (0, a\<lparr>a_file := s'\<rparr>)" "ok s'" "op_tell ops s' = op_tell ops s + (n - 8)"
      "fsize (fl s') = fsize (fl s)" "\<forall>i. i < op_tell ops s \<or> op_tell ops s + (n - 8) \<le> i \<longrightarrow> view s' i = view s i"
    using a_skip_law [of "a\<lparr>a_file := s\<rparr>" "n - 8"] s(2-4) assms(2, 3) by auto
  have "placed (view s') (op_tell ops (a_file a)) ?bs \<longleftrightarrow> placed (view s) (op_tell ops (a_file a)) ?bs"
    by (rule placed_cong) (use s'(5) s(3) l in auto)
  then have "placed (view s') (op_tell ops (a_file a)) ?bs" using s(5) by simp
  moreover have "view s' i = view (a_file a) i" if "i < op_tell ops (a_file a) \<or> op_tell ops (a_file a) + n \<le> i" for i
    using that s'(5) s(3, 5) assms(2) l by (auto simp: overlay_outside)
  moreover have "calls [a_write ops (str_bytes ''JUNK''), a_write ops (le32 (n - 8)), a_skip ops (n - 8)] a = (0, a\<lparr>a_file := s'\<rparr>)"
    using s(1) s'(1) calls_append [of "map (a_write ops) [str_bytes ''JUNK'', le32 (n - 8)]" "[a_skip ops (n - 8)]" a] by (simp add: calls.simps)
  ultimately show ?thesis using s s' assms(2) by auto
qed

end

section \<open>The header\<close>

definition riff_head :: "'s avi_file \<Rightarrow> nat \<Rightarrow> nat \<Rightarrow> u8 list" where
  "riff_head a r t = str_bytes ''RIFF'' @ le32 r @ str_bytes ''AVI '' @ str_bytes ''LIST'' @ le32 (hlist_size a) @ str_bytes ''hdrl''
     @ str_bytes ''avih'' @ le32 avih_size @ AVI_HEADER_bytes (avi_header a) t"

definition strl_audio :: "'s avi_file \<Rightarrow> nat \<Rightarrow> u8 list" where
  "strl_audio a n = str_bytes ''LIST'' @ le32 slist1_size @ str_bytes ''strl'' @ str_bytes ''strh'' @ le32 strhdr_size
     @ STREAM_HEADER_bytes (strhdr_audio a) n @ str_bytes ''strf'' @ le32 strfmt1_size @ WAVE_FORMAT_bytes (strfmt_audio a)"

definition strl_video :: "'s avi_file \<Rightarrow> nat \<Rightarrow> u8 list" where
  "strl_video a n = str_bytes ''LIST'' @ le32 slist2_size @ str_bytes ''strl'' @ str_bytes ''strh'' @ le32 strhdr_size
     @ STREAM_HEADER_bytes (strhdr_video a) n @ str_bytes ''strf'' @ le32 strfmt2_size @ BITMAP_FORMAT_bytes (strfmt_video a)"

definition movi_head :: "nat \<Rightarrow> u8 list" where
  "movi_head m = str_bytes ''LIST'' @ le32 m @ str_bytes ''movi''"

definition hdr_image :: "'s avi_file \<Rightarrow> nat \<Rightarrow> nat \<Rightarrow> nat \<Rightarrow> nat \<Rightarrow> nat \<Rightarrow> u8 list" where
  "hdr_image a r t al vl m =
     riff_head a r t @ (if audio_enable a then strl_audio a al else []) @ strl_video a vl @ movi_head m"

definition hdr_wf :: "'s avi_file \<Rightarrow> bool" where
  "hdr_wf a \<longleftrightarrow> length (fcc_type (strhdr_audio a)) = 4 \<and> length (fcc_codec (strhdr_audio a)) = 4
     \<and> length (fcc_type (strhdr_video a)) = 4 \<and> length (fcc_codec (strhdr_video a)) = 4 \<and> length (compression (strfmt_video a)) = 4"

lemma header_lengths:
  "length (riff_head a r t) = 88" "hdr_wf a \<Longrightarrow> length (strl_audio a n) = 102" "hdr_wf a \<Longrightarrow> length (strl_video a n) = 124"
  "length (movi_head m) = 12"
  by (simp_all add: riff_head_def strl_audio_def strl_video_def movi_head_def AVI_HEADER_bytes_def STREAM_HEADER_bytes_def
      WAVE_FORMAT_bytes_def BITMAP_FORMAT_bytes_def hdr_wf_def)

lemma length_hdr_image: "hdr_wf a \<Longrightarrow> length (hdr_image a r t al vl m) = (if audio_enable a then 326 else 224)"
  by (simp add: hdr_image_def header_lengths)

context muxer_file
begin

lemma strl_audio_law:
  assumes "ok (a_file a)" "hdr_wf a" "op_tell ops (a_file a) + 102 \<le> fsize (fl (a_file a))"
  shows "\<exists>s. avi_write_strl_audio ops a = (0, a\<lparr>a_file := s, audio_length_offset := op_tell ops (a_file a) + 52\<rparr>) \<and> ok s
    \<and> op_tell ops s = op_tell ops (a_file a) + 102 \<and> fsize (fl s) = fsize (fl (a_file a))
    \<and> view s = overlay (view (a_file a)) (op_tell ops (a_file a)) (strl_audio a 0)"
proof -
  let ?x = "[str_bytes ''LIST'', le32 slist1_size, str_bytes ''strl'']"
  let ?y = "[str_bytes ''strh'', le32 strhdr_size, STREAM_HEADER_bytes (strhdr_audio a) 0, str_bytes ''strf'',
      le32 strfmt1_size, WAVE_FORMAT_bytes (strfmt_audio a)]"
  have e: "strl_audio a 0 = concat ?x @ concat ?y" by (simp add: strl_audio_def)
  have l: "length (concat ?x) = 12" "length (concat ?y) = 90"
    using header_lengths(2) [OF assms(2), of 0] unfolding e by simp_all
  obtain s where s: "calls (map (a_write ops) ?x) a = (0, a\<lparr>a_file := s\<rparr>)" "ok s"
      "op_tell ops s = op_tell ops (a_file a) + 12" "fsize (fl s) = fsize (fl (a_file a))"
      "view s = overlay (view (a_file a)) (op_tell ops (a_file a)) (concat ?x)"
    using a_writes_law [OF assms(1), of ?x] assms(3) unfolding l by auto
  let ?a = "a\<lparr>a_file := s, audio_length_offset := 40 + op_tell ops s\<rparr>"
  obtain s' where s': "calls (map (a_write ops) ?y) ?a = (0, ?a\<lparr>a_file := s'\<rparr>)" "ok s'"
      "op_tell ops s' = op_tell ops s + 90" "fsize (fl s') = fsize (fl s)"
      "view s' = overlay (view s) (op_tell ops s) (concat ?y)"
    using a_writes_law [of ?a ?y] s assms(3) unfolding l by auto
  have t: "40 + op_tell ops s = op_tell ops (a_file a) + 52" using s(3) by simp
  have "avi_write_strl_audio ops a = (0, ?a\<lparr>a_file := s'\<rparr>)"
    using s(1) s'(1) by (simp add: avi_write_strl_audio_def a_tell_def Let_def)
  moreover have "view s' = overlay (view (a_file a)) (op_tell ops (a_file a)) (strl_audio a 0)"
    unfolding e overlay_append l s'(5) s(3, 5) ..
  ultimately show ?thesis using s' s(3, 4) unfolding t by (intro exI [of _ s']) simp
qed

lemma strl_video_law:
  assumes "ok (a_file a)" "hdr_wf a" "op_tell ops (a_file a) + 136 \<le> fsize (fl (a_file a))"
  shows "\<exists>s. avi_write_strl_video ops a = (0, a\<lparr>a_file := s, video_length_offset := op_tell ops (a_file a) + 52,
      movi_size_offset := op_tell ops (a_file a) + 128\<rparr>) \<and> ok s
    \<and> op_tell ops s = op_tell ops (a_file a) + 136 \<and> fsize (fl s) = fsize (fl (a_file a))
    \<and> view s = overlay (view (a_file a)) (op_tell ops (a_file a)) (strl_video a 0 @ movi_head 0)"
proof -
  let ?x = "[str_bytes ''LIST'', le32 slist2_size, str_bytes ''strl'']"
  let ?y = "[str_bytes ''strh'', le32 strhdr_size, STREAM_HEADER_bytes (strhdr_video a) 0, str_bytes ''strf'',
      le32 strfmt2_size, BITMAP_FORMAT_bytes (strfmt_video a)]"
  let ?z = "[str_bytes ''LIST'', le32 0, str_bytes ''movi'']"
  have e: "strl_video a 0 @ movi_head 0 = concat ?x @ concat ?y @ concat ?z" by (simp add: strl_video_def movi_head_def)
  have l: "length (concat ?x) = 12" "length (concat ?y) = 112" "length (concat ?z) = 12"
    using header_lengths(3) [OF assms(2), of 0] by (simp_all add: strl_video_def)
  obtain s where s: "calls (map (a_write ops) ?x) a = (0, a\<lparr>a_file := s\<rparr>)" "ok s"
      "op_tell ops s = op_tell ops (a_file a) + 12" "fsize (fl s) = fsize (fl (a_file a))"
      "view s = overlay (view (a_file a)) (op_tell ops (a_file a)) (concat ?x)"
    using a_writes_law [OF assms(1), of ?x] assms(3) unfolding l by auto
  let ?a = "a\<lparr>a_file := s, video_length_offset := 40 + op_tell ops s\<rparr>"
  obtain s1 where s1: "calls (map (a_write ops) ?y) ?a = (0, ?a\<lparr>a_file := s1\<rparr>)" "ok s1"
      "op_tell ops s1 = op_tell ops s + 112" "fsize (fl s1) = fsize (fl s)"
      "view s1 = overlay (view s) (op_tell ops s) (concat ?y)"
    using a_writes_law [of ?a ?y] s assms(3) unfolding l by auto
  let ?b = "?a\<lparr>a_file := s1, movi_size_offset := op_tell ops s1 + 4\<rparr>"
  obtain s2 where s2: "calls (map (a_write ops) ?z) ?b = (0, ?b\<lparr>a_file := s2\<rparr>)" "ok s2"
      "op_tell ops s2 = op_tell ops s1 + 12" "fsize (fl s2) = fsize (fl s1)"
      "view s2 = overlay (view s1) (op_tell ops s1) (concat ?z)"
    using a_writes_law [of ?b ?z] s s1 assms(3) unfolding l by auto
  have t: "40 + op_tell ops s = op_tell ops (a_file a) + 52" "op_tell ops s1 + 4 = op_tell ops (a_file a) + 128"
    using s(3) s1(3) by simp_all
  have "avi_write_strl_video ops a = (0, ?b\<lparr>a_file := s2\<rparr>)"
    using s(1) s1(1) s2(1) by (simp add: avi_write_strl_video_def a_tell_def Let_def)
  moreover have "view s2 = overlay (view (a_file a)) (op_tell ops (a_file a)) (strl_video a 0 @ movi_head 0)"
    unfolding e overlay_append l s2(5) s1(3, 5) s(3, 5) ..
  ultimately show ?thesis using s2 s1(3, 4) s(3, 4) unfolding t by (intro exI [of _ s2]) simp
qed

lemma write_header_law:
  assumes "ok (a_file a)" "hdr_wf a" "op_tell ops (a_file a) = 0" "1000 \<le> fsize (fl (a_file a))"
  shows "\<exists>s x. avi_write_header ops a = (0, a\<lparr>a_file := s, riff_size_offset := 4, total_frames_offset := 48,
      audio_length_offset := x, video_length_offset := if audio_enable a then 242 else 140,
      movi_size_offset := if audio_enable a then 318 else 216\<rparr>)
    \<and> (audio_enable a \<longrightarrow> x = 140) \<and> ok s \<and> op_tell ops s = (if audio_enable a then 326 else 224)
    \<and> fsize (fl s) = fsize (fl (a_file a)) \<and> placed (view s) 0 (hdr_image a 0 0 0 0 0)"
proof -
  let ?x = "[str_bytes ''RIFF'', le32 0, str_bytes ''AVI '', str_bytes ''LIST'', le32 (hlist_size a), str_bytes ''hdrl'']"
  let ?y = "[str_bytes ''avih'', le32 avih_size, AVI_HEADER_bytes (avi_header a) 0]"
  have e: "riff_head a 0 0 = concat ?x @ concat ?y" by (simp add: riff_head_def)
  have l: "length (concat ?x) = 24" "length (concat ?y) = 64" using header_lengths(1) [of a 0 0] unfolding e by simp_all
  obtain s where s: "calls (map (a_write ops) ?x) (a\<lparr>riff_size_offset := 4\<rparr>) = (0, a\<lparr>riff_size_offset := 4, a_file := s\<rparr>)" "ok s"
      "op_tell ops s = 24" "fsize (fl s) = fsize (fl (a_file a))" "view s = overlay (view (a_file a)) 0 (concat ?x)"
    using a_writes_law [of "a\<lparr>riff_size_offset := 4\<rparr>" ?x] assms(1, 3, 4) unfolding l by auto
  let ?a = "a\<lparr>riff_size_offset := 4, a_file := s, total_frames_offset := 48\<rparr>"
  obtain s1 where s1: "calls (map (a_write ops) ?y) ?a = (0, ?a\<lparr>a_file := s1\<rparr>)" "ok s1"
      "op_tell ops s1 = 88" "fsize (fl s1) = fsize (fl (a_file a))" "view s1 = overlay (view s) 24 (concat ?y)"
    using a_writes_law [of ?a ?y] s assms(4) unfolding l by auto
  have v1: "view s1 = overlay (view (a_file a)) 0 (riff_head a 0 0)" unfolding e overlay_append l s1(5) s(5) by simp
  let ?b = "?a\<lparr>a_file := s1\<rparr>"
  define A where "A = (if audio_enable a then strl_audio a 0 else [])"
  obtain s2 x where s2: "(if audio_enable a then avi_write_strl_audio ops ?b else (0, ?b))
        = (0, ?b\<lparr>a_file := s2, audio_length_offset := x\<rparr>)" "audio_enable a \<longrightarrow> x = 140" "ok s2"
      "op_tell ops s2 = 88 + length A" "fsize (fl s2) = fsize (fl (a_file a))" "view s2 = overlay (view s1) 88 A"
  proof (cases "audio_enable a")
    case True
    have "hdr_wf ?b" "strl_audio ?b 0 = strl_audio a 0" using assms(2) by (simp_all add: hdr_wf_def strl_audio_def)
    moreover have "op_tell ops s1 + 102 \<le> fsize (fl s1)" using s1(3, 4) assms(4) by simp
    ultimately obtain t where "avi_write_strl_audio ops ?b = (0, ?b\<lparr>a_file := t, audio_length_offset := op_tell ops s1 + 52\<rparr>)" "ok t"
        "op_tell ops t = op_tell ops s1 + 102" "fsize (fl t) = fsize (fl s1)"
        "view t = overlay (view s1) (op_tell ops s1) (strl_audio a 0)"
      using strl_audio_law [of ?b] s1(2) by auto
    then show ?thesis using True s1(3, 4) header_lengths(2) [OF assms(2), of 0] that [of 140 t] by (simp add: A_def)
  next
    case False
    then show ?thesis using that [of "audio_length_offset a" "a_file ?b"] s1 by (simp add: A_def)
  qed
  have lA: "length A = (if audio_enable a then 102 else 0)" using header_lengths(2) [OF assms(2), of 0] by (simp add: A_def)
  let ?c = "?b\<lparr>a_file := s2, audio_length_offset := x\<rparr>"
  have w: "hdr_wf ?c" "strl_video ?c 0 = strl_video a 0" using assms(2) by (simp_all add: hdr_wf_def strl_video_def)
  have room: "op_tell ops s2 + 136 \<le> fsize (fl s2)" using s2(4, 5) lA assms(4) by simp
  obtain s3 where s3: "avi_write_strl_video ops ?c = (0, ?c\<lparr>a_file := s3, video_length_offset := op_tell ops s2 + 52,
        movi_size_offset := op_tell ops s2 + 128\<rparr>)" "ok s3" "op_tell ops s3 = op_tell ops s2 + 136"
      "fsize (fl s3) = fsize (fl s2)" "view s3 = overlay (view s2) (op_tell ops s2) (strl_video a 0 @ movi_head 0)"
    using strl_video_law [of ?c] w s2(3) room by auto
  have h: "hlist_size (a\<lparr>riff_size_offset := 4\<rparr>) = hlist_size a" by (simp add: hlist_size_def)
  have "avi_write_header ops a = (0, ?c\<lparr>a_file := s3, video_length_offset := op_tell ops s2 + 52,
      movi_size_offset := op_tell ops s2 + 128\<rparr>)"
    using s(1, 3) s1(1) s2(1) s3(1) assms(3) unfolding avi_write_header_def Let_def a_tell_def
    by (cases "audio_enable a") (simp_all add: h)
  moreover have "placed (view s3) 0 (hdr_image a 0 0 0 0 0)"
  proof -
    have "hdr_image a 0 0 0 0 0 = riff_head a 0 0 @ A @ strl_video a 0 @ movi_head 0" by (simp add: hdr_image_def A_def)
    moreover have "overlay c 0 (riff_head a 0 0 @ A @ bs) = overlay (overlay (overlay c 0 (riff_head a 0 0)) 88 A) (88 + length A) bs"
      for c bs by (simp add: overlay_append header_lengths(1))
    then have "view s3 = overlay (view (a_file a)) 0 (riff_head a 0 0 @ A @ strl_video a 0 @ movi_head 0)"
      unfolding s3(5) s2(4, 6) v1 by (rule sym)
    ultimately show ?thesis by simp
  qed
  ultimately show ?thesis using s2(2) s3 s2(4, 5) lA by (intro exI [of _ s3] exI [of _ x]) (simp split: if_splits)
qed

end

end
