(* ===== verification/AviRecord.thy ===== *)
theory AviRecord
  imports AviMux
begin

text \<open>
  A recording with the muxer of \<open>AviMux\<close>: what the file holds after every call, for any file that keeps the contract of the
  muxers, and what it holds when the recording has been synced or ended.
\<close>

section \<open>The image\<close>

definition avi_geo :: "'s avi_file \<Rightarrow> bool" where
  "avi_geo a \<longleftrightarrow> hdr_wf a \<and> ALIGN dvd idx1_addr a \<and> movi_addr a = (if audio_enable a then 326 else 224)
     \<and> movi_addr a + 8 \<le> movi_data_addr a \<and> movi_data_addr a \<le> idx1_addr a \<and> movi_addr_end a = idx1_addr a
     \<and> idx1_size_addr a = idx1_addr a + 4 \<and> idx1_data_addr a = idx1_addr a + 8 \<and> idx1_end_addr a = idx1_addr a + IDX_MAX_SIZE
     \<and> idx1_end_addr a < 2 ^ 32 \<and> movi_data_size a = idx1_addr a - movi_addr a
     \<and> riff_size_offset a = 4 \<and> total_frames_offset a = 48 \<and> (audio_enable a \<longrightarrow> audio_length_offset a = 140)
     \<and> video_length_offset a = (if audio_enable a then 242 else 140) \<and> movi_size_offset a = (if audio_enable a then 318 else 216)
     \<and> length (video_tag a) = 4"

text \<open>An entry of the index: tag, flags, offset and size.\<close>

type_synonym idx_entry = "u8 list \<times> nat \<times> nat \<times> nat"

definition entry_bytes :: "idx_entry \<Rightarrow> u8 list" where
  "entry_bytes e = (case e of (tag, fl, off, len) \<Rightarrow> tag @ le32 fl @ le32 off @ le32 len)"

definition idx_part :: "(nat \<Rightarrow> u8) \<Rightarrow> 's avi_file \<Rightarrow> idx_entry list \<Rightarrow> bool" where
  "idx_part V a es \<longleftrightarrow> placed V (idx1_addr a) (str_bytes ''idx1'') \<and> (\<forall>e \<in> set es. length (entry_bytes e) = 16)
     \<and> (\<exists>flushed. flushed @ tmp_idx_data a = concat (map entry_bytes es) \<and> placed V (idx1_data_addr a) flushed
          \<and> idx1_write_addr a = idx1_data_addr a + length flushed)
     \<and> length (tmp_idx_data a) \<le> AVI_IDX_TMP_ENTRIES * AVI_IDX_ENTRY_SIZE \<and> idx1_data_size a = 16 * length es
     \<and> 16 * length es + 16 \<le> IDX_MAX_SIZE"

text \<open>A frame that was recorded: tag, flags, where its data lies, and the data.\<close>

type_synonym frame = "u8 list \<times> nat \<times> nat \<times> u8 list"

definition frame_entry :: "nat \<Rightarrow> frame \<Rightarrow> idx_entry" where
  "frame_entry movi f = (case f of (tag, fl, p, d) \<Rightarrow> (tag, fl, p - 4 - movi, length d))"

definition frame_at :: "(nat \<Rightarrow> u8) \<Rightarrow> 's avi_file \<Rightarrow> frame \<Rightarrow> bool" where
  "frame_at V a f \<longleftrightarrow> (case f of (tag, fl, p, d) \<Rightarrow> length tag = 4 \<and> placed V p d
     \<and> movi_data_addr a + 8 \<le> p \<and> p + length d \<le> cur_addr a)"

definition last_is :: "(nat \<Rightarrow> u8) \<Rightarrow> 's avi_file \<Rightarrow> frame option \<Rightarrow> bool" where
  "last_is V a prev \<longleftrightarrow> (case prev of
      None \<Rightarrow> last_video_size a = 0
    | Some f \<Rightarrow> frame_at V a f \<and> (case f of (tag, fl, p, d) \<Rightarrow> tag = video_tag a \<and> last_video_flags a = fl
        \<and> last_video_offset a = p - 4 - movi_addr a \<and> last_video_size a = length d))"

definition avi_image :: "(nat \<Rightarrow> u8) \<Rightarrow> 's avi_file \<Rightarrow> frame list \<Rightarrow> frame option \<Rightarrow> bool" where
  "avi_image V a log prev \<longleftrightarrow> avi_geo a
     \<and> movi_data_addr a \<le> cur_addr a \<and> (cur_addr a = idx1_addr a \<or> cur_addr a + 8 \<le> idx1_addr a)
     \<and> (\<exists>r t al vl m. placed V 0 (hdr_image a r t al vl m))
     \<and> idx_part V a (map (frame_entry (movi_addr a)) log)
     \<and> (\<forall>f \<in> set log. frame_at V a f) \<and> last_is V a prev"

lemmas hdr_defs = hdr_image_def riff_head_def strl_audio_def strl_video_def hlist_size_def hdr_wf_def

lemma placed_agree:
  assumes "\<forall>i. i < lo \<or> hi \<le> i \<longrightarrow> V' i = V i" "off + length bs \<le> lo \<or> hi \<le> off"
  shows "placed V' off bs \<longleftrightarrow> placed V off bs"
  by (rule placed_cong) (use assms in auto)

lemma length_entries: "\<forall>e \<in> set es. length (entry_bytes e) = 16 \<Longrightarrow> length (concat (map entry_bytes es)) = 16 * length es"
  by (induction es) auto

section \<open>The index\<close>

lemma fits_iff:
  assumes "avi_geo a" "idx_part V a es"
  shows "avi_idx_entry_fits a \<longleftrightarrow> 16 * length es + 32 \<le> IDX_MAX_SIZE"
proof -
  obtain flushed where f: "flushed @ tmp_idx_data a = concat (map entry_bytes es)" "idx1_write_addr a = idx1_data_addr a + length flushed"
    using assms(2) by (auto simp: idx_part_def)
  have "length flushed + length (tmp_idx_data a) = 16 * length es"
    using arg_cong [OF f(1), of length] length_entries [of es] assms(2) by (simp add: idx_part_def)
  then have n: "idx1_write_addr a + length (tmp_idx_data a) = idx1_addr a + 8 + 16 * length es"
    using f(2) assms(1) by (simp add: avi_geo_def)
  have e: "idx1_end_addr a = idx1_addr a + 1048576" using assms(1) by (simp add: avi_geo_def IDX_MAX_SIZE_def)
  have b: "16 * length es + 16 \<le> 1048576" using assms(2) by (simp add: idx_part_def IDX_MAX_SIZE_def)
  define x where "x = 1048576 - 8 - 16 * length es"
  have x: "idx1_end_addr a - (idx1_write_addr a + length (tmp_idx_data a)) = x" unfolding e n x_def by simp
  have w: "idx1_write_addr a < idx1_end_addr a" "idx1_write_addr a + length (tmp_idx_data a) < idx1_end_addr a" using n e b by linarith+
  have "avi_idx_entry_fits a \<longleftrightarrow> 16 \<le> x \<and> (x = 16 \<or> 24 \<le> x)"
    unfolding avi_idx_entry_fits_def Let_def x AVI_IDX_ENTRY_SIZE_def using w by auto
  also have "\<dots> \<longleftrightarrow> 16 * length es + 32 \<le> 1048576" using b unfolding x_def by presburger
  finally show ?thesis by (simp add: IDX_MAX_SIZE_def)
qed

context muxer_file
begin

text \<open>The file under a muxer.\<close>

definition at_file :: "'s avi_file \<Rightarrow> bool" where
  "at_file a \<longleftrightarrow> ok (a_file a) \<and> fsize (fl (a_file a)) = idx1_end_addr a"

lemma syn_law:
  assumes "at_file a" "avi_geo a" "idx_part (view (a_file a)) a es"
  shows "\<exists>s w. avi_write_idx_syn ops a = (0, a\<lparr>a_file := s, idx1_write_addr := w, tmp_idx_data := []\<rparr>)
    \<and> at_file (a\<lparr>a_file := s, idx1_write_addr := w, tmp_idx_data := []\<rparr>) \<and> op_tell ops s = op_tell ops (a_file a)
    \<and> w = idx1_data_addr a + 16 * length es
    \<and> idx_part (view s) (a\<lparr>a_file := s, idx1_write_addr := w, tmp_idx_data := []\<rparr>) es
    \<and> (\<forall>i. i < idx1_data_addr a \<longrightarrow> view s i = view (a_file a) i)"
proof -
  obtain flushed where f: "flushed @ tmp_idx_data a = concat (map entry_bytes es)" "placed (view (a_file a)) (idx1_data_addr a) flushed"
      "idx1_write_addr a = idx1_data_addr a + length flushed"
    using assms(3) by (auto simp: idx_part_def)
  have l: "length flushed + length (tmp_idx_data a) = 16 * length es"
    using arg_cong [OF f(1), of length] length_entries [of es] assms(3) by (simp add: idx_part_def)
  show ?thesis
  proof (cases "tmp_idx_data a = []")
    case True
    then have "a\<lparr>a_file := a_file a, idx1_write_addr := idx1_write_addr a, tmp_idx_data := []\<rparr> = a" by simp
    moreover have "idx1_write_addr a = idx1_data_addr a + 16 * length es" using True l f(3) by simp
    moreover have "avi_write_idx_syn ops a = (0, a)" using True by (simp add: avi_write_idx_syn_def)
    ultimately show ?thesis using assms by (intro exI [of _ "a_file a"] exI [of _ "idx1_write_addr a"]) metis
  next
    case False
    have r: "idx1_write_addr a + length (tmp_idx_data a) \<le> idx1_end_addr a"
      using l f(3) assms(2, 3) by (simp add: avi_geo_def idx_part_def)
    obtain s where s: "a_write_at ops (idx1_write_addr a) (tmp_idx_data a) a = (0, a\<lparr>a_file := s\<rparr>)" "ok s"
        "op_tell ops s = op_tell ops (a_file a)" "fsize (fl s) = fsize (fl (a_file a))"
        "view s = overlay (view (a_file a)) (idx1_write_addr a) (tmp_idx_data a)"
      using a_write_at_law [of a "idx1_write_addr a" "tmp_idx_data a"] assms(1) r by (auto simp: at_file_def)
    let ?a = "a\<lparr>a_file := s, idx1_write_addr := idx1_data_addr a + 16 * length es, tmp_idx_data := []\<rparr>"
    have w: "idx1_write_addr a + length (tmp_idx_data a) = idx1_data_addr a + 16 * length es" using l f(3) by simp
    have e: "avi_write_idx_syn ops a = (0, ?a)" using False r s(1) w by (simp add: avi_write_idx_syn_def)
    have "placed (view s) (idx1_addr a) (str_bytes ''idx1'')"
      using assms(2, 3) f(3) unfolding s(5) by (subst placed_overlay_other) (auto simp: avi_geo_def idx_part_def)
    moreover have "placed (view s) (idx1_data_addr a) (flushed @ tmp_idx_data a)"
      using f(2, 3) unfolding s(5) placed_append by (simp add: placed_overlay_other)
    ultimately have "idx_part (view s) ?a es"
      using assms(3) f(1) l length_entries [of es] by (auto simp: idx_part_def intro!: exI [of _ "flushed @ tmp_idx_data a"])
    moreover have "\<forall>i. i < idx1_data_addr a \<longrightarrow> view s i = view (a_file a) i" using f(3) by (simp add: s(5) overlay_outside)
    ultimately show ?thesis using e s assms(1)
      by (intro exI [of _ s] exI [of _ "idx1_data_addr a + 16 * length es"]) (simp add: at_file_def)
  qed
qed

lemma idx_entry_law:
  assumes "at_file a" "avi_geo a" "idx_part (view (a_file a)) a es" "avi_idx_entry_fits a" "length tag = 4"
  shows "\<exists>s w t. avi_idx_write_entry ops tag f off n a
      = (0, a\<lparr>a_file := s, idx1_write_addr := w, tmp_idx_data := t, idx1_data_size := idx1_data_size a + 16\<rparr>)
    \<and> ok s \<and> fsize (fl s) = fsize (fl (a_file a)) \<and> op_tell ops s = op_tell ops (a_file a)
    \<and> idx_part (view s) (a\<lparr>a_file := s, idx1_write_addr := w, tmp_idx_data := t, idx1_data_size := idx1_data_size a + 16\<rparr>)
        (es @ [(tag, f, off, n)])
    \<and> (\<forall>i. i < idx1_data_addr a \<longrightarrow> view s i = view (a_file a) i)"
proof -
  have full: "16 * length es + 32 \<le> IDX_MAX_SIZE" using fits_iff [OF assms(2, 3)] assms(4) by simp
  define c where "c \<longleftrightarrow> length (tmp_idx_data a) + AVI_IDX_ENTRY_SIZE > AVI_IDX_TMP_ENTRIES * AVI_IDX_ENTRY_SIZE"
  obtain s w t where a1: "(if c then avi_write_idx_syn ops a else (0, a))
        = (0, a\<lparr>a_file := s, idx1_write_addr := w, tmp_idx_data := t\<rparr>)"
      "at_file (a\<lparr>a_file := s, idx1_write_addr := w, tmp_idx_data := t\<rparr>)" "op_tell ops s = op_tell ops (a_file a)"
      "idx_part (view s) (a\<lparr>a_file := s, idx1_write_addr := w, tmp_idx_data := t\<rparr>) es"
      "\<forall>i. i < idx1_data_addr a \<longrightarrow> view s i = view (a_file a) i"
      "length t + AVI_IDX_ENTRY_SIZE \<le> AVI_IDX_TMP_ENTRIES * AVI_IDX_ENTRY_SIZE"
  proof (cases c)
    case True
    then show ?thesis using syn_law [OF assms(1-3)] that by (auto simp: AVI_IDX_TMP_ENTRIES_def AVI_IDX_ENTRY_SIZE_def)
  next
    case False
    have "a\<lparr>a_file := a_file a, idx1_write_addr := idx1_write_addr a, tmp_idx_data := tmp_idx_data a\<rparr> = a" by simp
    then show ?thesis using that [where s = "a_file a" and w = "idx1_write_addr a" and t = "tmp_idx_data a"] assms False by (simp add: c_def)
  qed
  let ?a = "a\<lparr>a_file := s, idx1_write_addr := w, tmp_idx_data := t\<rparr>"
  let ?e = "tag @ le32 f @ le32 off @ le32 n"
  let ?b = "a\<lparr>a_file := s, idx1_write_addr := w, tmp_idx_data := t @ ?e, idx1_data_size := idx1_data_size a + 16\<rparr>"
  have g: "avi_geo ?a" using assms(2) by (simp add: avi_geo_def hdr_wf_def)
  have fits: "avi_idx_entry_fits ?a" using fits_iff [OF g a1(4)] full by simp
  have t: "length t + 16 \<le> 2048" using a1(6) by (simp add: AVI_IDX_TMP_ENTRIES_def AVI_IDX_ENTRY_SIZE_def)
  have "avi_idx_write_entry ops tag f off n a = (0, ?b)"
    unfolding avi_idx_write_entry_def c_def [symmetric] a1(1) using fits t assms(5)
    by (simp add: avi_write_idx_tmp_def AVI_IDX_TMP_ENTRIES_def AVI_IDX_ENTRY_SIZE_def)
  moreover have "idx_part (view s) ?b (es @ [(tag, f, off, n)])"
  proof -
    obtain flushed where "flushed @ t = concat (map entry_bytes es)" "placed (view s) (idx1_data_addr a) flushed"
        "w = idx1_data_addr a + length flushed"
      using a1(4) by (auto simp: idx_part_def)
    then show ?thesis using a1(4) t full assms(5)
      by (auto simp: idx_part_def entry_bytes_def AVI_IDX_TMP_ENTRIES_def AVI_IDX_ENTRY_SIZE_def intro!: exI [of _ flushed])
  qed
  ultimately show ?thesis using a1(2, 3, 5) assms(1)
    by (intro exI [of _ s] exI [of _ w] exI [of _ "t @ ?e"]) (simp add: at_file_def)
qed

end

section \<open>Recording frames\<close>

text \<open>A chunk has an even length.\<close>

definition pad :: "u8 list \<Rightarrow> u8 list" where
  "pad buf = buf @ (if odd (length buf) then [0] else [])"

lemma length_pad: "length (pad buf) = (if odd (length buf) then length buf + 1 else length buf)"
  by (simp add: pad_def)

text \<open>What never changes after the initialisation.\<close>

definition avi_conf :: "'s avi_file \<Rightarrow> bool \<times> u8 list \<times> AVI_HEADER \<times> STREAM_HEADER \<times> WAVE_FORMAT \<times> STREAM_HEADER \<times> BITMAP_FORMAT
    \<times> nat \<times> nat \<times> nat" where
  "avi_conf a = (audio_enable a, video_tag a, avi_header a, strhdr_audio a, strfmt_audio a, strhdr_video a, strfmt_video a,
     movi_addr a, movi_data_addr a, idx1_addr a)"

lemma hdr_image_conf: "avi_conf a' = avi_conf a \<Longrightarrow> hdr_image a' r t al vl m = hdr_image a r t al vl m"
  by (simp add: avi_conf_def hdr_defs)

lemma avi_file_upd [simp]:
  "idx_part V (a\<lparr>a_file := s\<rparr>) es = idx_part V a es" "avi_geo (a\<lparr>a_file := s\<rparr>) = avi_geo a"
  "avi_idx_entry_fits (a\<lparr>a_file := s\<rparr>) = avi_idx_entry_fits a"
  by (simp_all add: idx_part_def avi_geo_def hdr_wf_def avi_idx_entry_fits_def)

lemma idx_part_agree:
  assumes "\<forall>i. idx1_addr a \<le> i \<longrightarrow> V' i = V i" "avi_geo a"
  shows "idx_part V' a es \<longleftrightarrow> idx_part V a es"
proof -
  have *: "placed V' off bs \<longleftrightarrow> placed V off bs" if "idx1_addr a \<le> off" for off bs
    by (rule placed_cong) (use assms(1) that in auto)
  show ?thesis using assms(2) * unfolding idx_part_def avi_geo_def by simp
qed

lemma frame_at_agree:
  assumes "frame_at V a f" "\<forall>i. movi_data_addr a \<le> i \<longrightarrow> i < cur_addr a \<longrightarrow> V' i = V i" "cur_addr a \<le> cur_addr a'"
    and "movi_data_addr a' = movi_data_addr a"
  shows "frame_at V' a' f"
proof -
  obtain tag f' p d where f: "f = (tag, f', p, d)" by (cases f)
  have "placed V' p d \<longleftrightarrow> placed V p d" by (rule placed_cong) (use assms(1, 2) f in \<open>auto simp: frame_at_def\<close>)
  then show ?thesis using assms by (auto simp: frame_at_def f)
qed

lemma last_is_agree:
  assumes "last_is V a prev" "\<forall>i. movi_data_addr a \<le> i \<longrightarrow> i < cur_addr a \<longrightarrow> V' i = V i" "cur_addr a \<le> cur_addr a'"
    and "movi_data_addr a' = movi_data_addr a" "movi_addr a' = movi_addr a" "video_tag a' = video_tag a"
    and "last_video_size a' = last_video_size a" "last_video_offset a' = last_video_offset a" "last_video_flags a' = last_video_flags a"
  shows "last_is V' a' prev"
  using assms(1) frame_at_agree [OF _ assms(2-4)] assms(5-9) by (auto simp: last_is_def split: option.splits prod.splits)

context muxer_file
begin

definition rec_inv :: "'s avi_file \<Rightarrow> frame list \<Rightarrow> frame option \<Rightarrow> bool" where
  "rec_inv a log prev \<longleftrightarrow> at_file a \<and> op_tell ops (a_file a) = cur_addr a \<and> avi_image (view (a_file a)) a log prev"

lemma chunk_law:
  assumes "rec_inv a log prev" "length tag = 4" "avi_chunk_fits a (8 + length (pad buf))" "avi_idx_entry_fits a"
  shows "\<exists>a'. avi_write_movi_chunk ops tag f buf a = (0, cur_addr a + 8 - 4 - movi_addr a, a')
    \<and> rec_inv a' (log @ [(tag, f, cur_addr a + 8, pad buf)]) prev
    \<and> frame_at (view (a_file a')) a' (tag, f, cur_addr a + 8, pad buf)
    \<and> avi_conf a' = avi_conf a \<and> video_length a' = video_length a \<and> audio_length a' = audio_length a"
proof -
  define V where "V = view (a_file a)"
  define C where "C = cur_addr a"
  define n where "n = length (pad buf)"
  have inv: "ok (a_file a)" "fsize (fl (a_file a)) = idx1_end_addr a" "op_tell ops (a_file a) = C" "avi_image V a log prev"
    using assms(1) by (simp_all add: rec_inv_def at_file_def C_def V_def)
  have g: "avi_geo a" "movi_data_addr a \<le> C" "idx_part V a (map (frame_entry (movi_addr a)) log)" "\<forall>f \<in> set log. frame_at V a f"
      "last_is V a prev" "movi_addr a + 8 \<le> movi_data_addr a"
    using inv(4) by (auto simp: avi_image_def C_def avi_geo_def)
  obtain r t al vl m where h: "placed V 0 (hdr_image a r t al vl m)" using inv(4) by (auto simp: avi_image_def)
  have room: "C + 8 + n \<le> idx1_addr a" "C + (8 + n) = idx1_addr a \<or> C + (8 + n) + 8 \<le> idx1_addr a"
    using assms(3) g(1) by (auto simp: avi_chunk_fits_def avi_geo_def C_def n_def Let_def split: if_splits)
  have below: "idx1_addr a + 8 = idx1_data_addr a" "idx1_data_addr a \<le> idx1_end_addr a" using g(1) by (auto simp: avi_geo_def IDX_MAX_SIZE_def)
  let ?bss = "[tag, le32 n, buf] @ (if odd (length buf) then [[0]] else [])"
  have cc: "concat ?bss = tag @ le32 n @ pad buf" by (simp add: pad_def)
  then have lc: "length (concat ?bss) = 8 + n" using assms(2) by (simp add: n_def)
  obtain s where s: "calls (map (a_write ops) ?bss) a = (0, a\<lparr>a_file := s\<rparr>)" "ok s" "op_tell ops s = C + (8 + n)"
      "fsize (fl s) = idx1_end_addr a" "view s = overlay V C (concat ?bss)"
    using a_writes_law [OF inv(1), of ?bss] room below inv(2, 3) lc unfolding V_def by auto
  have low: "\<forall>i. i < C \<or> C + (8 + n) \<le> i \<longrightarrow> view s i = V i" using lc by (auto simp: s(5) overlay_outside)
  have data: "placed (view s) (C + 8) (pad buf)"
    using placed_overlay_same [of V C "concat ?bss"] assms(2) unfolding s(5) cc by (simp add: placed_append add.commute)
  let ?a = "a\<lparr>a_file := s\<rparr>"
  have i1: "idx_part (view s) ?a (map (frame_entry (movi_addr a)) log)"
    using idx_part_agree [of a "view s" V] low room g(1, 3) by simp
  have g1: "avi_geo ?a" "avi_idx_entry_fits ?a" "at_file ?a"
    using g(1) assms(4) s(2, 4) by (simp_all add: at_file_def)
  define off where "off = C - movi_addr a + 4"
  have off: "off = C + 8 - 4 - movi_addr a" using g(2, 6) by (simp add: off_def)
  obtain s2 w tmp where e: "avi_idx_write_entry ops tag f off n ?a
      = (0, ?a\<lparr>a_file := s2, idx1_write_addr := w, tmp_idx_data := tmp, idx1_data_size := idx1_data_size ?a + 16\<rparr>)"
      "ok s2" "fsize (fl s2) = fsize (fl s)" "op_tell ops s2 = op_tell ops s"
      "idx_part (view s2) (?a\<lparr>a_file := s2, idx1_write_addr := w, tmp_idx_data := tmp, idx1_data_size := idx1_data_size ?a + 16\<rparr>)
        (map (frame_entry (movi_addr a)) log @ [(tag, f, off, n)])"
      "\<forall>i. i < idx1_data_addr a \<longrightarrow> view s2 i = view s i"
    using idx_entry_law [OF g1(3, 1) _ g1(2) assms(2), of "map (frame_entry (movi_addr a)) log" f off n] i1 by auto
  define a' where "a' = a\<lparr>a_file := s2, idx1_write_addr := w, tmp_idx_data := tmp, idx1_data_size := idx1_data_size a + 16,
    cur_addr := C + (8 + n), total_idx := total_idx a + 1\<rparr>"
  have call: "avi_write_movi_chunk ops tag f buf a = (0, off, a')"
    using s(1) e(1) assms(3, 4) unfolding avi_write_movi_chunk_def Let_def length_pad [symmetric] n_def [symmetric] C_def [symmetric]
      off_def [symmetric] by (cases "odd (length buf)") (simp_all add: a'_def C_def)
  have low2: "\<forall>i. i < C \<longrightarrow> view s2 i = V i" using e(6) low room(1) below by auto
  have "placed (view s2) (C + 8) (pad buf) \<longleftrightarrow> placed (view s) (C + 8) (pad buf)"
    by (rule placed_cong) (use e(6) room(1) below in \<open>auto simp: n_def\<close>)
  then have new: "frame_at (view s2) a' (tag, f, C + 8, pad buf)"
    using data assms(2) g(2) by (simp add: frame_at_def a'_def n_def)
  have old: "frame_at (view s2) a' f" if "f \<in> set log" for f
    by (rule frame_at_agree [of V a]) (use that g(4) low2 in \<open>auto simp: a'_def C_def\<close>)
  have lst: "last_is (view s2) a' prev"
    by (rule last_is_agree [OF g(5)]) (use low2 in \<open>auto simp: a'_def C_def\<close>)
  have c: "avi_conf a' = avi_conf a" by (simp add: avi_conf_def a'_def)
  have "placed (view s2) 0 (hdr_image a r t al vl m) \<longleftrightarrow> placed V 0 (hdr_image a r t al vl m)"
    by (rule placed_cong) (use low2 g(1, 2, 6) length_hdr_image [of a r t al vl m] in \<open>auto simp: avi_geo_def split: if_splits\<close>)
  then have hd: "placed (view s2) 0 (hdr_image a' r t al vl m)" using h hdr_image_conf [OF c] by simp
  have "avi_geo a'" using g(1) by (simp add: avi_geo_def a'_def hdr_wf_def)
  moreover have "idx_part (view s2) a' (map (frame_entry (movi_addr a')) (log @ [(tag, f, C + 8, pad buf)]))"
    using e(5) off by (simp add: a'_def idx_part_def frame_entry_def n_def)
  ultimately have "avi_image (view s2) a' (log @ [(tag, f, C + 8, pad buf)]) prev"
    unfolding avi_image_def
  proof (intro conjI)
    show "\<exists>r t al vl m. placed (view s2) 0 (hdr_image a' r t al vl m)" using hd by blast
    show "\<forall>f \<in> set (log @ [(tag, f, C + 8, pad buf)]). frame_at (view s2) a' f" using old new by auto
    show "movi_data_addr a' \<le> cur_addr a'" "cur_addr a' = idx1_addr a' \<or> cur_addr a' + 8 \<le> idx1_addr a'"
      using g(2) room(2) by (simp_all add: a'_def)
  qed (use lst in auto)
  then have "rec_inv a' (log @ [(tag, f, C + 8, pad buf)]) prev"
    using e(2-4) s(3, 4) by (simp add: rec_inv_def at_file_def a'_def)
  then show ?thesis using call new c off unfolding C_def [symmetric] by (intro exI [of _ a']) (simp add: a'_def)
qed

lemma chunk_full:
  "\<not> (avi_chunk_fits a (8 + length (pad buf)) \<and> avi_idx_entry_fits a) \<Longrightarrow>
    avi_write_movi_chunk ops tag f buf a = (AVIMUXER_FULL, 0, a)"
  unfolding avi_write_movi_chunk_def Let_def length_pad [symmetric] by auto

end

section \<open>Patching the header\<close>

definition sh_pre :: "STREAM_HEADER \<Rightarrow> u8 list" where
  "sh_pre h = fcc_type h @ fcc_codec h @ le32 0 @ le16 0 @ le16 0 @ le32 0 @ le32 (scale h) @ le32 (rate h) @ le32 0"

definition sh_post :: "STREAM_HEADER \<Rightarrow> u8 list" where
  "sh_post h = le32 (sh_suggested_bufsize h) @ le32 (quality h) @ le32 (sample_size h) @ le16 0 @ le16 0
     @ le16 (vrect_right h) @ le16 (vrect_bottom h)"

lemma sh_split: "STREAM_HEADER_bytes h n = sh_pre h @ le32 n @ sh_post h"
  by (simp add: STREAM_HEADER_bytes_def sh_pre_def sh_post_def)

text \<open>Each counter of the header has a place that does not depend on the counters.\<close>

lemma patch_riff:
  "placed V 0 (hdr_image a r t al vl m) \<Longrightarrow> placed (overlay V 4 (le32 r')) 0 (hdr_image a r' t al vl m)"
  using placed_patch [of V 0 "str_bytes ''RIFF''" "le32 r" _ "le32 r'" 4]
  by (simp add: hdr_image_def riff_head_def)

lemma patch_frames:
  "placed V 0 (hdr_image a r t al vl m) \<Longrightarrow> placed (overlay V 48 (le32 t')) 0 (hdr_image a r t' al vl m)"
  using placed_patch [of V 0 "str_bytes ''RIFF'' @ le32 r @ str_bytes ''AVI '' @ str_bytes ''LIST'' @ le32 (hlist_size a) @ str_bytes ''hdrl''
     @ str_bytes ''avih'' @ le32 avih_size @ le32 (microsec_per_frame (avi_header a)) @ le32 (maxbytes_per_Sec (avi_header a))
     @ le32 0 @ le32 (flags (avi_header a))" "le32 t" _ "le32 t'" 48]
  by (simp add: hdr_image_def riff_head_def AVI_HEADER_bytes_def)

lemma patch_audio:
  assumes "hdr_wf a" "audio_enable a" "placed V 0 (hdr_image a r t al vl m)"
  shows "placed (overlay V 140 (le32 al')) 0 (hdr_image a r t al' vl m)"
proof -
  let ?pre = "riff_head a r t @ str_bytes ''LIST'' @ le32 slist1_size @ str_bytes ''strl'' @ str_bytes ''strh'' @ le32 strhdr_size
     @ sh_pre (strhdr_audio a)"
  have "length ?pre = 140" using assms(1) by (simp add: header_lengths sh_pre_def hdr_wf_def)
  then show ?thesis using placed_patch [of V 0 ?pre "le32 al" _ "le32 al'" 140] assms(2, 3)
    by (simp add: hdr_image_def strl_audio_def sh_split)
qed

lemma patch_video:
  assumes "hdr_wf a" "placed V 0 (hdr_image a r t al vl m)" "off = (if audio_enable a then 242 else 140)"
  shows "placed (overlay V off (le32 vl')) 0 (hdr_image a r t al vl' m)"
proof -
  let ?pre = "riff_head a r t @ (if audio_enable a then strl_audio a al else []) @ str_bytes ''LIST'' @ le32 slist2_size
     @ str_bytes ''strl'' @ str_bytes ''strh'' @ le32 strhdr_size @ sh_pre (strhdr_video a)"
  have "length ?pre = off" using assms(1, 3) by (simp add: header_lengths sh_pre_def hdr_wf_def)
  then show ?thesis using placed_patch [of V 0 ?pre "le32 vl" _ "le32 vl'" off] assms(2)
    by (simp add: hdr_image_def strl_video_def sh_split)
qed

lemma patch_movi:
  assumes "hdr_wf a" "placed V 0 (hdr_image a r t al vl m)" "off = (if audio_enable a then 318 else 216)"
  shows "placed (overlay V off (le32 m')) 0 (hdr_image a r t al vl m')"
proof -
  let ?pre = "riff_head a r t @ (if audio_enable a then strl_audio a al else []) @ strl_video a vl @ str_bytes ''LIST''"
  have "length ?pre = off" using assms(1, 3) by (simp add: header_lengths)
  then show ?thesis using placed_patch [of V 0 ?pre "le32 m" _ "le32 m'" off] assms(2)
    by (simp add: hdr_image_def movi_head_def)
qed

context muxer_file
begin

lemma patch_law:
  assumes "ok (a_file a)" "off + 4 \<le> fsize (fl (a_file a))"
  shows "\<exists>s. avi_patch ops off n a = a\<lparr>a_file := s\<rparr> \<and> ok s \<and> op_tell ops s = op_tell ops (a_file a)
    \<and> fsize (fl s) = fsize (fl (a_file a)) \<and> view s = overlay (view (a_file a)) off (le32 n)"
  using a_write_at_law [OF assms(1), of off "le32 n"] assms(2) by (auto simp: avi_patch_def)

lemma fix_law:
  assumes "at_file a" "avi_geo a" "placed (view (a_file a)) 0 (hdr_image a r t al vl m)"
  shows "\<exists>s x r'. avi_fix_fields ops final a = a\<lparr>a_file := s, syn_time := x\<rparr> \<and> at_file (a\<lparr>a_file := s, syn_time := x\<rparr>)
    \<and> op_tell ops s = op_tell ops (a_file a)
    \<and> placed (view s) 0 (hdr_image a r' (video_length a) (if audio_enable a then audio_length a else al) (video_length a)
        (movi_data_size a + 4))
    \<and> placed (view s) (idx1_addr a + 4) (le32 (idx1_data_size a))
    \<and> (\<forall>i. movi_addr a \<le> i \<longrightarrow> i < idx1_addr a + 4 \<or> idx1_addr a + 8 \<le> i \<longrightarrow> view s i = view (a_file a) i)"
proof -
  define sz where "sz = fsize (fl (a_file a))"
  define T where "T = op_tell ops (a_file a)"
  define H where "H = (if audio_enable a then 326 else 224 :: nat)"
  have g: "hdr_wf a" "movi_addr a = H" "H + 8 \<le> idx1_addr a" "idx1_addr a + 8 \<le> sz" "riff_size_offset a = 4"
      "total_frames_offset a = 48" "audio_enable a \<longrightarrow> audio_length_offset a = 140"
      "video_length_offset a = (if audio_enable a then 242 else 140)" "movi_size_offset a = (if audio_enable a then 318 else 216)"
      "idx1_size_addr a = idx1_addr a + 4"
    using assms(1, 2) by (auto simp: avi_geo_def at_file_def H_def sz_def IDX_MAX_SIZE_def)
  have H: "video_length_offset a + 4 \<le> H" "movi_size_offset a + 4 \<le> H" "52 \<le> H" "audio_enable a \<longrightarrow> 144 \<le> H"
    using g(8, 9) by (simp_all add: H_def)
  define keeps where "keeps s \<longleftrightarrow> ok s \<and> op_tell ops s = T \<and> fsize (fl s) = sz
    \<and> (\<forall>i. H \<le> i \<longrightarrow> i < idx1_addr a + 4 \<or> idx1_addr a + 8 \<le> i \<longrightarrow> view s i = view (a_file a) i)" for s
  have patch: "\<exists>s'. avi_patch ops off n (a\<lparr>a_file := s\<rparr>) = a\<lparr>a_file := s'\<rparr> \<and> keeps s' \<and> view s' = overlay (view s) off (le32 n)"
    if "keeps s" "off + 4 \<le> H \<or> off = idx1_addr a + 4" for s off n
  proof -
    have "off + 4 \<le> fsize (fl s)" using that g(3, 4) by (auto simp: keeps_def)
    then obtain s' where s': "avi_patch ops off n (a\<lparr>a_file := s\<rparr>) = a\<lparr>a_file := s'\<rparr>" "ok s'" "op_tell ops s' = op_tell ops s"
        "fsize (fl s') = fsize (fl s)" "view s' = overlay (view s) off (le32 n)"
      using patch_law [of "a\<lparr>a_file := s\<rparr>" off n] \<open>keeps s\<close> by (auto simp: keeps_def)
    have "view s' i = view (a_file a) i" if "H \<le> i" "i < idx1_addr a + 4 \<or> idx1_addr a + 8 \<le> i" for i
    proof -
      have "i < off \<or> off + 4 \<le> i" using \<open>off + 4 \<le> H \<or> off = idx1_addr a + 4\<close> that by auto
      then show ?thesis using \<open>keeps s\<close> that unfolding s'(5) keeps_def by (subst overlay_outside) auto
    qed
    then have "keeps s'" using \<open>keeps s\<close> s' by (simp add: keeps_def)
    then show ?thesis using s' by blast
  qed
  have k0: "keeps (a_file a)" using assms(1) by (simp add: keeps_def T_def sz_def at_file_def)
  obtain s1 where s1: "avi_patch ops 48 (video_length a) a = a\<lparr>a_file := s1\<rparr>" "keeps s1"
      "placed (view s1) 0 (hdr_image a r (video_length a) al vl m)"
    using patch [OF k0, of 48 "video_length a"] H(3) patch_frames [OF assms(3)] by auto
  define AL where "AL = (if audio_enable a then audio_length a else al)"
  obtain s2 where s2: "(if audio_enable a then avi_patch ops (audio_length_offset a) (audio_length a) (a\<lparr>a_file := s1\<rparr>)
        else a\<lparr>a_file := s1\<rparr>) = a\<lparr>a_file := s2\<rparr>" "keeps s2"
      "placed (view s2) 0 (hdr_image a r (video_length a) AL vl m)"
  proof (cases "audio_enable a")
    case True
    then show ?thesis using patch [OF s1(2), of 140 "audio_length a"] H(4) patch_audio [OF g(1) True s1(3)] g(7) that
      by (auto simp: AL_def)
  next
    case False
    then show ?thesis using s1 that [of s1] by (simp add: AL_def)
  qed
  obtain s3 where s3: "avi_patch ops (video_length_offset a) (video_length a) (a\<lparr>a_file := s2\<rparr>) = a\<lparr>a_file := s3\<rparr>" "keeps s3"
      "placed (view s3) 0 (hdr_image a r (video_length a) AL (video_length a) m)"
    using patch [OF s2(2), of "video_length_offset a" "video_length a"] H(1) patch_video [OF g(1) s2(3) g(8)] by auto
  obtain s4 where s4: "avi_patch ops (movi_size_offset a) (movi_data_size a + 4) (a\<lparr>a_file := s3\<rparr>) = a\<lparr>a_file := s4\<rparr>" "keeps s4"
      "placed (view s4) 0 (hdr_image a r (video_length a) AL (video_length a) (movi_data_size a + 4))"
    using patch [OF s3(2), of "movi_size_offset a" "movi_data_size a + 4"] H(2) patch_movi [OF g(1) s3(3) g(9)] by auto
  define R where "R = (if final then idx1_end_addr a - 8 else idx1_data_addr a + idx1_data_size a - 8)"
  obtain s5 where s5: "avi_patch ops 4 R (a\<lparr>a_file := s4\<rparr>) = a\<lparr>a_file := s5\<rparr>" "keeps s5"
      "placed (view s5) 0 (hdr_image a R (video_length a) AL (video_length a) (movi_data_size a + 4))"
    using patch [OF s4(2), of 4 R] H(3) patch_riff [OF s4(3)] by auto
  obtain s6 where s6: "avi_patch ops (idx1_addr a + 4) (idx1_data_size a) (a\<lparr>a_file := s5\<rparr>) = a\<lparr>a_file := s6\<rparr>" "keeps s6"
      "view s6 = overlay (view s5) (idx1_addr a + 4) (le32 (idx1_data_size a))"
    using patch [OF s5(2), of "idx1_addr a + 4" "idx1_data_size a"] by auto
  obtain s7 where s7: "op_flush ops s6 = (0, s7)" "keeps s7" "view s7 = view s6"
    using flush_law [of s6] s6(2) by (auto simp: keeps_def)
  define x where "x = avimuxer_written_duration_ms (a\<lparr>a_file := s7\<rparr>)"
  have "avi_fix_fields ops final a = a\<lparr>a_file := s7, syn_time := x\<rparr>"
    unfolding avi_fix_fields_def Let_def g(5, 6) s1(1)
    using s2(1) s3(1) s4(1) s5(1) s6(1) s7(1) g(5, 10) by (simp add: R_def x_def split del: if_split cong: if_cong)
  moreover have "placed (view s7) 0 (hdr_image a R (video_length a) AL (video_length a) (movi_data_size a + 4))"
    unfolding s7(3) s6(3) using s5(3) g(1, 3) length_hdr_image [of a R "video_length a" AL "video_length a" "movi_data_size a + 4"]
    by (subst placed_overlay_other) (auto simp: H_def split: if_splits)
  moreover have "placed (view s7) (idx1_addr a + 4) (le32 (idx1_data_size a))" unfolding s7(3) s6(3) by simp
  ultimately show ?thesis using s7(2) assms(1) unfolding keeps_def AL_def
    by (intro exI [of _ s7] exI [of _ x] exI [of _ R]) (auto simp: at_file_def sz_def T_def g(2))
qed

end

section \<open>Syncing and ending\<close>

text \<open>A file that plays: sizes and index are in place, and every frame of the index is.\<close>

definition idx_image :: "'s avi_file \<Rightarrow> frame list \<Rightarrow> u8 list" where
  "idx_image a log = concat (map (\<lambda>f. entry_bytes (frame_entry (movi_addr a) f)) log)
     @ str_bytes ''JUNK'' @ le32 (IDX_MAX_SIZE - 16 * length log - 16)"

definition avi_playable :: "(nat \<Rightarrow> u8) \<Rightarrow> 's avi_file \<Rightarrow> frame list \<Rightarrow> bool" where
  "avi_playable V a log \<longleftrightarrow> avi_geo a \<and> (\<exists>r t al vl. placed V 0 (hdr_image a r t al vl (movi_data_size a + 4)))
     \<and> placed V (idx1_addr a) (str_bytes ''idx1'' @ le32 (16 * length log) @ idx_image a log)
     \<and> 16 * length log + 16 \<le> IDX_MAX_SIZE
     \<and> (\<forall>(tag, fl, p, d) \<in> set log. length tag = 4 \<and> placed V p d \<and> movi_data_addr a + 8 \<le> p \<and> p + length d \<le> idx1_addr a)"

lemma length_idx1: "length (str_bytes ''idx1'') = 4"
  by simp

lemma frame_entry_16: "frame_at V a f \<Longrightarrow> length (entry_bytes (frame_entry m f)) = 16"
  by (cases f) (simp add: frame_at_def frame_entry_def entry_bytes_def)

context muxer_file
begin

lemma syn_junk_law:
  assumes "at_file a" "avi_geo a" "idx_part (view (a_file a)) a (map (frame_entry (movi_addr a)) log)"
  shows "\<exists>s1 s. avi_write_idx_syn ops a
        = (0, a\<lparr>a_file := s1, idx1_write_addr := idx1_data_addr a + 16 * length log, tmp_idx_data := []\<rparr>)
    \<and> calls [a_write_at ops (idx1_data_addr a + 16 * length log) (str_bytes ''JUNK''),
            a_write_at ops (idx1_data_addr a + 16 * length log + 4) (le32 (IDX_MAX_SIZE - 16 * length log - 16))]
          (a\<lparr>a_file := s1, idx1_write_addr := idx1_data_addr a + 16 * length log, tmp_idx_data := []\<rparr>)
        = (0, a\<lparr>a_file := s, idx1_write_addr := idx1_data_addr a + 16 * length log, tmp_idx_data := []\<rparr>)
    \<and> ok s \<and> fsize (fl s) = fsize (fl (a_file a)) \<and> op_tell ops s = op_tell ops (a_file a)
    \<and> idx_part (view s) (a\<lparr>idx1_write_addr := idx1_data_addr a + 16 * length log, tmp_idx_data := []\<rparr>)
        (map (frame_entry (movi_addr a)) log)
    \<and> placed (view s) (idx1_data_addr a) (idx_image a log)
    \<and> (\<forall>i. i < idx1_data_addr a \<longrightarrow> view s i = view (a_file a) i)"
proof -
  define w where "w = idx1_data_addr a + 16 * length log"
  define es where "es = map (frame_entry (movi_addr a)) log"
  obtain s1 where s1: "avi_write_idx_syn ops a = (0, a\<lparr>a_file := s1, idx1_write_addr := w, tmp_idx_data := []\<rparr>)"
      "at_file (a\<lparr>a_file := s1, idx1_write_addr := w, tmp_idx_data := []\<rparr>)" "op_tell ops s1 = op_tell ops (a_file a)"
      "idx_part (view s1) (a\<lparr>a_file := s1, idx1_write_addr := w, tmp_idx_data := []\<rparr>) es"
      "\<forall>i. i < idx1_data_addr a \<longrightarrow> view s1 i = view (a_file a) i"
    using syn_law [OF assms] by (auto simp: w_def es_def)
  let ?b = "a\<lparr>a_file := s1, idx1_write_addr := w, tmp_idx_data := []\<rparr>"
  let ?j = "str_bytes ''JUNK''" and ?x = "le32 (IDX_MAX_SIZE - 16 * length log - 16)"
  have room: "w + 8 \<le> idx1_end_addr a" "idx1_data_addr a = idx1_addr a + 8"
    using assms(2, 3) by (auto simp: avi_geo_def idx_part_def w_def)
  have lj: "length ?j = 4" by simp
  obtain s2 where s2: "a_write_at ops w ?j ?b = (0, ?b\<lparr>a_file := s2\<rparr>)" "ok s2" "op_tell ops s2 = op_tell ops (a_file a)"
      "fsize (fl s2) = idx1_end_addr a" "view s2 = overlay (view s1) w ?j"
    using a_write_at_law [of ?b w ?j] s1(2, 3) room by (auto simp: at_file_def)
  obtain s where s: "a_write_at ops (w + 4) ?x (?b\<lparr>a_file := s2\<rparr>) = (0, ?b\<lparr>a_file := s\<rparr>)" "ok s"
      "op_tell ops s = op_tell ops (a_file a)" "fsize (fl s) = idx1_end_addr a" "view s = overlay (view s2) (w + 4) ?x"
    using a_write_at_law [of "?b\<lparr>a_file := s2\<rparr>" "w + 4" ?x] s2 room by auto
  have v: "view s = overlay (view s1) w (?j @ ?x)" unfolding s(5) s2(5) overlay_append lj ..
  have e: "concat (map (\<lambda>f. entry_bytes (frame_entry (movi_addr a) f)) log) = concat (map entry_bytes es)"
    by (simp add: es_def comp_def)
  have len: "length (concat (map entry_bytes es)) = 16 * length log"
    using length_entries [of es] s1(4) by (simp add: idx_part_def es_def)
  have p: "placed (view s1) (idx1_addr a) (str_bytes ''idx1'')" "placed (view s1) (idx1_data_addr a) (concat (map entry_bytes es))"
    using s1(4) by (auto simp: idx_part_def)
  have p': "placed (view s) (idx1_addr a) (str_bytes ''idx1'')" "placed (view s) (idx1_data_addr a) (concat (map entry_bytes es))"
    unfolding v using p len room(2) by (simp_all add: placed_overlay_other w_def)
  have "placed (view s) (idx1_data_addr a) (idx_image a log)"
    unfolding idx_image_def e placed_append [of _ _ "concat (map entry_bytes es)"] len
    using p'(2) placed_overlay_same [of "view s1" w "?j @ ?x"] by (simp add: v w_def)
  moreover have "idx_part (view s) (a\<lparr>idx1_write_addr := w, tmp_idx_data := []\<rparr>) es"
    using s1(4) p' len by (auto simp: idx_part_def w_def)
  moreover have "\<forall>i. i < idx1_data_addr a \<longrightarrow> view s i = view (a_file a) i"
    using s1(5) by (simp add: v w_def overlay_outside)
  moreover have "calls [a_write_at ops w ?j, a_write_at ops (w + 4) ?x] ?b = (0, ?b\<lparr>a_file := s\<rparr>)"
    using s2(1) s(1) by (simp add: calls.simps)
  ultimately show ?thesis using s1(1) s(2-4) assms(1) unfolding w_def [symmetric] es_def [symmetric]
    by (intro exI [of _ s1] exI [of _ s]) (simp add: at_file_def)
qed

text \<open>After the patches the file plays.\<close>

lemma seal_law:
  assumes "at_file a" "avi_geo a" "placed (view (a_file a)) 0 (hdr_image a r t al vl m)"
    and "placed (view (a_file a)) (idx1_addr a) (str_bytes ''idx1'')" "placed (view (a_file a)) (idx1_data_addr a) (idx_image a log)"
    and "idx1_data_size a = 16 * length log" "16 * length log + 16 \<le> IDX_MAX_SIZE"
    and "\<forall>f \<in> set log. frame_at (view (a_file a)) a f" "cur_addr a \<le> idx1_addr a"
  shows "\<exists>s x. avi_fix_fields ops final a = a\<lparr>a_file := s, syn_time := x\<rparr> \<and> ok s \<and> fsize (fl s) = fsize (fl (a_file a))
    \<and> op_tell ops s = op_tell ops (a_file a) \<and> avi_playable (view s) a log
    \<and> (\<exists>r t al vl m. placed (view s) 0 (hdr_image a r t al vl m))
    \<and> (\<forall>i. movi_addr a \<le> i \<longrightarrow> i < idx1_addr a + 4 \<or> idx1_addr a + 8 \<le> i \<longrightarrow> view s i = view (a_file a) i)"
proof -
  obtain s x r' where s: "avi_fix_fields ops final a = a\<lparr>a_file := s, syn_time := x\<rparr>" "at_file (a\<lparr>a_file := s, syn_time := x\<rparr>)"
      "op_tell ops s = op_tell ops (a_file a)"
      "placed (view s) 0 (hdr_image a r' (video_length a) (if audio_enable a then audio_length a else al) (video_length a)
        (movi_data_size a + 4))"
      "placed (view s) (idx1_addr a + 4) (le32 (idx1_data_size a))"
      "\<forall>i. movi_addr a \<le> i \<longrightarrow> i < idx1_addr a + 4 \<or> idx1_addr a + 8 \<le> i \<longrightarrow> view s i = view (a_file a) i"
    using fix_law [OF assms(1-3)] by blast
  have g: "movi_addr a + 8 \<le> movi_data_addr a" "movi_data_addr a \<le> idx1_addr a" "idx1_data_addr a = idx1_addr a + 8"
    using assms(2) by (auto simp: avi_geo_def)
  have "placed (view s) (idx1_addr a) (str_bytes ''idx1'') \<longleftrightarrow> placed (view (a_file a)) (idx1_addr a) (str_bytes ''idx1'')"
    by (rule placed_cong) (use s(6) g in auto)
  moreover have "placed (view s) (idx1_addr a + 8) (idx_image a log) \<longleftrightarrow> placed (view (a_file a)) (idx1_addr a + 8) (idx_image a log)"
    by (rule placed_cong) (use s(6) g in auto)
  ultimately have idx: "placed (view s) (idx1_addr a) (str_bytes ''idx1'' @ le32 (16 * length log) @ idx_image a log)"
    using assms(4-6) s(5) g(3) unfolding placed_append length_idx1 length_le32 by (simp add: add.assoc)
  have "length tag = 4 \<and> placed (view s) p d \<and> movi_data_addr a + 8 \<le> p \<and> p + length d \<le> idx1_addr a"
    if "(tag, f, p, d) \<in> set log" for tag f p d
  proof -
    have "frame_at (view (a_file a)) a (tag, f, p, d)" using assms(8) that by blast
    moreover from this have "placed (view s) p d \<longleftrightarrow> placed (view (a_file a)) p d"
      by (intro placed_cong) (use s(6) g assms(9) in \<open>auto simp: frame_at_def\<close>)
    ultimately show ?thesis using assms(9) by (auto simp: frame_at_def)
  qed
  then have "avi_playable (view s) a log" using assms(2, 7) idx s(4) unfolding avi_playable_def by blast
  moreover have "ok s" "fsize (fl s) = fsize (fl (a_file a))" using s(2) assms(1) by (simp_all add: at_file_def)
  ultimately show ?thesis using s(1, 3, 4, 6) by blast
qed

end

lemma playable_conf:
  assumes "avi_conf a' = avi_conf a" "avi_geo a'" "avi_geo a"
  shows "avi_playable V a' log \<longleftrightarrow> avi_playable V a log"
proof -
  have "movi_addr a' = movi_addr a" "movi_data_addr a' = movi_data_addr a" "idx1_addr a' = idx1_addr a" "movi_data_size a' = movi_data_size a"
    using assms by (auto simp: avi_conf_def avi_geo_def)
  then show ?thesis using assms(2, 3) hdr_image_conf [OF assms(1)] by (simp add: avi_playable_def idx_image_def)
qed

text \<open>The state after the index is flushed.\<close>

abbreviation flushed_at :: "'s avi_file \<Rightarrow> nat \<Rightarrow> 's \<Rightarrow> 's avi_file" where
  "flushed_at a w s \<equiv> a\<lparr>a_file := s, idx1_write_addr := w, tmp_idx_data := []\<rparr>"

lemma flushed_at_simps [simp]:
  "avi_geo (flushed_at a w s) = avi_geo a" "avi_conf (flushed_at a w s) = avi_conf a"
  "hdr_image (flushed_at a w s) = hdr_image a" "idx_image (flushed_at a w s) = idx_image a"
  "frame_at V (flushed_at a w s) = frame_at V a"
  "avi_playable V (flushed_at a w s) = avi_playable V a"
  by (auto simp: avi_geo_def hdr_wf_def avi_conf_def hdr_defs idx_image_def frame_at_def avi_playable_def fun_eq_iff)

lemma idx_room:
  assumes "avi_geo a" "16 * n + 16 \<le> IDX_MAX_SIZE"
  shows "idx1_data_addr a + 16 * n < idx1_end_addr a" "idx1_end_addr a - (idx1_data_addr a + 16 * n) - 8 = IDX_MAX_SIZE - 16 * n - 16"
    "8 \<le> idx1_end_addr a - (idx1_data_addr a + 16 * n)"
  using assms by (auto simp: avi_geo_def)

context muxer_file
begin

text \<open>What a recording needs for its file to be sealed, whatever is in front of the index.\<close>

definition sealable :: "'s avi_file \<Rightarrow> frame list \<Rightarrow> bool" where
  "sealable a log \<longleftrightarrow> at_file a \<and> avi_geo a \<and> (\<exists>r t al vl m. placed (view (a_file a)) 0 (hdr_image a r t al vl m))
     \<and> idx_part (view (a_file a)) a (map (frame_entry (movi_addr a)) log) \<and> (\<forall>f \<in> set log. frame_at (view (a_file a)) a f)
     \<and> movi_data_addr a \<le> cur_addr a \<and> cur_addr a \<le> idx1_addr a"

lemma sealed_index:
  assumes "sealable a log" "w = idx1_data_addr a + 16 * length log"
  shows "\<exists>s1 s2. avi_write_idx_syn ops a = (0, flushed_at a w s1)
    \<and> calls [a_write_at ops w (str_bytes ''JUNK''), a_write_at ops (w + 4) (le32 (IDX_MAX_SIZE - 16 * length log - 16))]
        (flushed_at a w s1) = (0, flushed_at a w s2)
    \<and> at_file (flushed_at a w s2) \<and> op_tell ops s2 = op_tell ops (a_file a)
    \<and> idx_part (view s2) (flushed_at a w s2) (map (frame_entry (movi_addr a)) log)
    \<and> placed (view s2) (idx1_addr a) (str_bytes ''idx1'') \<and> placed (view s2) (idx1_data_addr a) (idx_image a log)
    \<and> (\<forall>f \<in> set log. frame_at (view s2) a f) \<and> (\<exists>r t al vl m. placed (view s2) 0 (hdr_image a r t al vl m))
    \<and> (\<forall>i. i < idx1_data_addr a \<longrightarrow> view s2 i = view (a_file a) i)"
proof -
  have a: "at_file a" "avi_geo a" "idx_part (view (a_file a)) a (map (frame_entry (movi_addr a)) log)" "cur_addr a \<le> idx1_addr a"
      "\<forall>f \<in> set log. frame_at (view (a_file a)) a f"
    using assms(1) by (auto simp: sealable_def)
  obtain s1 s2 where s: "avi_write_idx_syn ops a = (0, flushed_at a w s1)"
      "calls [a_write_at ops w (str_bytes ''JUNK''), a_write_at ops (w + 4) (le32 (IDX_MAX_SIZE - 16 * length log - 16))]
        (flushed_at a w s1) = (0, flushed_at a w s2)" "ok s2" "fsize (fl s2) = fsize (fl (a_file a))"
      "op_tell ops s2 = op_tell ops (a_file a)"
      "idx_part (view s2) (a\<lparr>idx1_write_addr := w, tmp_idx_data := []\<rparr>) (map (frame_entry (movi_addr a)) log)"
      "placed (view s2) (idx1_data_addr a) (idx_image a log)" "\<forall>i. i < idx1_data_addr a \<longrightarrow> view s2 i = view (a_file a) i"
    using syn_junk_law [OF a(1-3)] unfolding assms(2) [symmetric] by (elim exE conjE) (rule that; assumption)
  have g: "idx1_data_addr a = idx1_addr a + 8" "movi_addr a + 8 \<le> movi_data_addr a" "movi_data_addr a \<le> idx1_addr a"
      "movi_addr a = (if audio_enable a then 326 else 224)" "hdr_wf a"
    using a(2) by (auto simp: avi_geo_def)
  obtain r t al vl m where h: "placed (view (a_file a)) 0 (hdr_image a r t al vl m)" using assms(1) by (auto simp: sealable_def)
  have "placed (view s2) 0 (hdr_image a r t al vl m) \<longleftrightarrow> placed (view (a_file a)) 0 (hdr_image a r t al vl m)"
    by (rule placed_cong) (use s(8) g length_hdr_image [OF g(5), of r t al vl m] in \<open>auto split: if_splits\<close>)
  then have "\<exists>r t al vl m. placed (view s2) 0 (hdr_image a r t al vl m)" using h by blast
  moreover have "frame_at (view s2) a f" if "f \<in> set log" for f
    by (rule frame_at_agree [of "view (a_file a)" a]) (use a(4, 5) that s(8) g(1) in auto)
  then have "\<forall>f \<in> set log. frame_at (view s2) a f" by blast
  moreover have "at_file (flushed_at a w s2)" using s(3, 4) a(1) by (simp add: at_file_def)
  moreover have "idx_part (view s2) (flushed_at a w s2) (map (frame_entry (movi_addr a)) log)"
    "placed (view s2) (idx1_addr a) (str_bytes ''idx1'')" using s(6) by (auto simp: idx_part_def)
  ultimately show ?thesis using s by blast
qed

lemma fix_sync_law:
  assumes "sealable a log" "w = idx1_data_addr a + 16 * length log"
  shows "\<exists>s x. avi_fix_sync ops a = (flushed_at a w s)\<lparr>syn_time := x\<rparr> \<and> at_file (flushed_at a w s)
    \<and> op_tell ops s = op_tell ops (a_file a) \<and> avi_playable (view s) a log
    \<and> (\<exists>r t al vl m. placed (view s) 0 (hdr_image a r t al vl m))
    \<and> idx_part (view s) (flushed_at a w s) (map (frame_entry (movi_addr a)) log)
    \<and> (\<forall>i. movi_data_addr a \<le> i \<longrightarrow> i < idx1_addr a \<longrightarrow> view s i = view (a_file a) i)"
proof -
  have a: "avi_geo a" "cur_addr a \<le> idx1_addr a" "16 * length log + 16 \<le> IDX_MAX_SIZE" "idx1_data_size a = 16 * length log"
    using assms(1) by (auto simp: sealable_def idx_part_def)
  have g: "idx1_data_addr a = idx1_addr a + 8" "movi_addr a + 8 \<le> movi_data_addr a" "movi_data_addr a \<le> idx1_addr a"
    using a(1) by (auto simp: avi_geo_def)
  obtain s1 s2 where s: "avi_write_idx_syn ops a = (0, flushed_at a w s1)"
      "calls [a_write_at ops w (str_bytes ''JUNK''), a_write_at ops (w + 4) (le32 (IDX_MAX_SIZE - 16 * length log - 16))]
        (flushed_at a w s1) = (0, flushed_at a w s2)" "at_file (flushed_at a w s2)" "op_tell ops s2 = op_tell ops (a_file a)"
      "idx_part (view s2) (flushed_at a w s2) (map (frame_entry (movi_addr a)) log)"
      "placed (view s2) (idx1_addr a) (str_bytes ''idx1'')" "placed (view s2) (idx1_data_addr a) (idx_image a log)"
      "\<forall>f \<in> set log. frame_at (view s2) a f" "\<exists>r t al vl m. placed (view s2) 0 (hdr_image a r t al vl m)"
      "\<forall>i. i < idx1_data_addr a \<longrightarrow> view s2 i = view (a_file a) i"
    using sealed_index [OF assms] by (elim exE conjE) (rule that; (assumption | blast))
  obtain r t al vl m where h: "placed (view s2) 0 (hdr_image a r t al vl m)" using s(9) by blast
  define b where "b = flushed_at a w s2"
  have bs: "a_file b = s2" "idx1_addr b = idx1_addr a" "movi_addr b = movi_addr a" "hdr_image b = hdr_image a"
      "avi_playable V b = avi_playable V a" for V by (simp_all add: b_def)
  have j: "avi_write_idx_snapshot_tail ops (flushed_at a w s1) = (0, b)"
    using s(2) idx_room [OF a(1, 3)] by (simp add: avi_write_idx_snapshot_tail_def assms(2) b_def Let_def)
  have "\<exists>s x. avi_fix_fields ops False b = b\<lparr>a_file := s, syn_time := x\<rparr> \<and> ok s \<and> fsize (fl s) = fsize (fl (a_file b))
      \<and> op_tell ops s = op_tell ops (a_file b) \<and> avi_playable (view s) b log
      \<and> (\<exists>r t al vl m. placed (view s) 0 (hdr_image b r t al vl m))
      \<and> (\<forall>i. movi_addr b \<le> i \<longrightarrow> i < idx1_addr b + 4 \<or> idx1_addr b + 8 \<le> i \<longrightarrow> view s i = view (a_file b) i)"
    by (rule seal_law [of b r t al vl m log False]) (use s(3, 6-8) h a in \<open>simp_all add: b_def\<close>)
  then obtain s3 x where s3: "avi_fix_fields ops False b = b\<lparr>a_file := s3, syn_time := x\<rparr>" "ok s3" "fsize (fl s3) = fsize (fl s2)"
      "op_tell ops s3 = op_tell ops s2" "avi_playable (view s3) a log" "\<exists>r t al vl m. placed (view s3) 0 (hdr_image a r t al vl m)"
      "\<forall>i. movi_addr a \<le> i \<longrightarrow> i < idx1_addr a + 4 \<or> idx1_addr a + 8 \<le> i \<longrightarrow> view s3 i = view s2 i"
    unfolding bs by blast
  have same: "view s3 i = view s2 i" if "movi_data_addr a \<le> i" "i < idx1_addr a + 4 \<or> idx1_addr a + 8 \<le> i" for i
    using s3(7) that g(2) by auto
  have "idx_part (view s3) (flushed_at a w s3) (map (frame_entry (movi_addr a)) log)"
  proof -
    have "placed (view s3) (idx1_addr a) (str_bytes ''idx1'') \<longleftrightarrow> placed (view s2) (idx1_addr a) (str_bytes ''idx1'')"
      by (rule placed_cong) (use same g in auto)
    moreover have "placed (view s3) (idx1_data_addr a) bs \<longleftrightarrow> placed (view s2) (idx1_data_addr a) bs" for bs
      by (rule placed_cong) (use same g in auto)
    ultimately show ?thesis using s(5) by (simp add: idx_part_def)
  qed
  moreover have "view s3 i = view (a_file a) i" if "movi_data_addr a \<le> i" "i < idx1_addr a" for i
    using same [of i] s(10) that g(1) by simp
  moreover have "avi_fix_sync ops a = (flushed_at a w s3)\<lparr>syn_time := x\<rparr>"
    unfolding avi_fix_sync_def s(1) using j s3(1) by (simp add: b_def)
  moreover have "at_file (flushed_at a w s3)" using s(3) s3(2, 3) by (simp add: at_file_def)
  moreover have "op_tell ops s3 = op_tell ops (a_file a)" using s3(4) s(4) by simp
  ultimately show ?thesis using s3(5, 6) by blast
qed

end

lemma avi_geo_inert [simp]:
  "avi_geo (a\<lparr>movi_guard_block_end := g\<rparr>) = avi_geo a" "avi_geo (a\<lparr>syn_time := x\<rparr>) = avi_geo a"
  "avi_geo (a\<lparr>total_idx := x\<rparr>) = avi_geo a" "avi_geo (a\<lparr>video_length := x\<rparr>) = avi_geo a"
  "avi_geo (a\<lparr>audio_length := x\<rparr>) = avi_geo a" "avi_geo (a\<lparr>cur_addr := x\<rparr>) = avi_geo a"
  by (simp_all add: avi_geo_def hdr_wf_def)

lemma avi_conf_inert [simp]:
  "avi_conf (a\<lparr>movi_guard_block_end := g\<rparr>) = avi_conf a" "avi_conf (a\<lparr>syn_time := x\<rparr>) = avi_conf a"
  "avi_conf (a\<lparr>total_idx := x\<rparr>) = avi_conf a" "avi_conf (a\<lparr>video_length := x\<rparr>) = avi_conf a"
  "avi_conf (a\<lparr>audio_length := x\<rparr>) = avi_conf a" "avi_conf (a\<lparr>cur_addr := x\<rparr>) = avi_conf a"
  "avi_conf (a\<lparr>a_file := s\<rparr>) = avi_conf a"
  by (simp_all add: avi_conf_def)

lemma avi_image_inert [simp]:
  "avi_image V (a\<lparr>movi_guard_block_end := g\<rparr>) log prev = avi_image V a log prev"
  "avi_image V (a\<lparr>syn_time := x\<rparr>) log prev = avi_image V a log prev"
  "avi_image V (a\<lparr>total_idx := x\<rparr>) log prev = avi_image V a log prev"
  "avi_image V (a\<lparr>video_length := x\<rparr>) log prev = avi_image V a log prev"
  "avi_image V (a\<lparr>audio_length := x\<rparr>) log prev = avi_image V a log prev"
  by (simp_all add: avi_image_def idx_part_def frame_at_def last_is_def hdr_defs split: option.split)

context muxer_file
begin

lemma rec_inv_inert [simp]:
  "rec_inv (a\<lparr>movi_guard_block_end := g\<rparr>) log prev = rec_inv a log prev"
  "rec_inv (a\<lparr>syn_time := x\<rparr>) log prev = rec_inv a log prev"
  "rec_inv (a\<lparr>total_idx := x\<rparr>) log prev = rec_inv a log prev"
  "rec_inv (a\<lparr>video_length := x\<rparr>) log prev = rec_inv a log prev"
  "rec_inv (a\<lparr>audio_length := x\<rparr>) log prev = rec_inv a log prev"
  by (simp_all add: rec_inv_def at_file_def)

lemma sealable_file:
  assumes "sealable a log" "ok s" "fsize (fl s) = fsize (fl (a_file a))" "view s = view (a_file a)"
  shows "sealable (a\<lparr>a_file := s\<rparr>) log"
proof -
  have "hdr_image (a\<lparr>a_file := s\<rparr>) = hdr_image a" "frame_at V (a\<lparr>a_file := s\<rparr>) = frame_at V a" for V
    by (auto simp: hdr_defs frame_at_def fun_eq_iff)
  then show ?thesis using assms by (simp add: sealable_def at_file_def)
qed

lemma rec_sealable: "rec_inv a log prev \<Longrightarrow> sealable a log"
  by (auto simp: rec_inv_def sealable_def avi_image_def)

lemma sync_law:
  assumes "rec_inv a log prev"
  shows "rec_inv (avimuxer_sync ops a) log prev \<and> avi_conf (avimuxer_sync ops a) = avi_conf a
    \<and> avi_playable (view (a_file (avimuxer_sync ops a))) a log"
proof -
  define a0 where "a0 = a\<lparr>movi_guard_block_end := avi_movi_guard_block_end a\<rparr>"
  have i0: "rec_inv a0 log prev" "avi_conf a0 = avi_conf a" using assms by (simp_all add: a0_def)
  then have ig: "avi_geo a0" "avi_geo a" using assms by (simp_all add: rec_inv_def avi_image_def)
  define w where "w = idx1_data_addr a0 + 16 * length log"
  obtain s x where s: "avi_fix_sync ops a0 = (flushed_at a0 w s)\<lparr>syn_time := x\<rparr>" "at_file (flushed_at a0 w s)"
      "op_tell ops s = op_tell ops (a_file a0)" "avi_playable (view s) a0 log" "\<exists>r t al vl m. placed (view s) 0 (hdr_image a0 r t al vl m)"
      "idx_part (view s) (flushed_at a0 w s) (map (frame_entry (movi_addr a0)) log)"
      "\<forall>i. movi_data_addr a0 \<le> i \<longrightarrow> i < idx1_addr a0 \<longrightarrow> view s i = view (a_file a0) i"
    using fix_sync_law [OF rec_sealable [OF i0(1)] w_def] by blast
  define b where "b = flushed_at a0 w s"
  have inv: "movi_data_addr a0 \<le> cur_addr a0" "cur_addr a0 = idx1_addr a0 \<or> cur_addr a0 + 8 \<le> idx1_addr a0"
      "\<forall>f \<in> set log. frame_at (view (a_file a0)) a0 f" "last_is (view (a_file a0)) a0 prev" "op_tell ops (a_file a0) = cur_addr a0"
    using i0(1) by (auto simp: rec_inv_def avi_image_def)
  have bs: "a_file b = s" "cur_addr b = cur_addr a0" "movi_data_addr b = movi_data_addr a0" "idx1_addr b = idx1_addr a0"
      "movi_addr b = movi_addr a0" "avi_geo b" "hdr_image b = hdr_image a0" "at_file b"
    using ig(1) s(2) by (simp_all add: b_def)
  have same: "\<forall>i. movi_data_addr a0 \<le> i \<longrightarrow> i < cur_addr a0 \<longrightarrow> view s i = view (a_file a0) i" using s(7) inv(2) by auto
  have "frame_at (view s) b f" if "f \<in> set log" for f
    by (rule frame_at_agree [OF _ same]) (use inv(3) that bs in simp_all)
  then have "\<forall>f \<in> set log. frame_at (view s) b f" by blast
  moreover have "last_is (view s) b prev"
    by (rule last_is_agree [OF inv(4) same]) (simp_all add: b_def)
  moreover have "idx_part (view s) b (map (frame_entry (movi_addr b)) log)" using s(6) by (simp add: b_def)
  ultimately have "avi_image (view s) b log prev" using inv(1, 2) s(5) unfolding avi_image_def bs by (simp add: bs(6))
  then have "rec_inv b log prev" using bs(8) s(3) inv(5) unfolding rec_inv_def bs(1, 2) by simp
  moreover have "avimuxer_sync ops a = b\<lparr>syn_time := avimuxer_written_duration_ms (b\<lparr>syn_time := x\<rparr>)\<rparr>"
    unfolding avimuxer_sync_def avimuxer_fix_data_aligned_def Let_def a0_def [symmetric] using s(1) by (simp add: b_def)
  moreover have "avi_conf b = avi_conf a" using i0(2) by (simp add: b_def)
  moreover have "avi_playable (view s) a log" using s(4) playable_conf [OF i0(2) ig] by simp
  ultimately show ?thesis using bs(1) by simp
qed

text \<open>Ending covers the rest of \<open>movi\<close>, writes out the block that is begun and seals the file.\<close>

lemma movi_tail_law:
  assumes "rec_inv a log prev"
  shows "\<exists>s. avi_write_movi_tail_junk ops a = (0, a\<lparr>a_file := s, cur_addr := idx1_addr a\<rparr>)
    \<and> sealable (a\<lparr>a_file := s, cur_addr := idx1_addr a\<rparr>) log \<and> op_tell ops s = idx1_addr a"
proof -
  have inv: "at_file a" "op_tell ops (a_file a) = cur_addr a" "avi_geo a" "sealable a log"
      "cur_addr a = idx1_addr a \<or> cur_addr a + 8 \<le> idx1_addr a"
    using assms rec_sealable [OF assms] by (auto simp: rec_inv_def avi_image_def)
  show ?thesis
  proof (cases "cur_addr a = idx1_addr a")
    case True
    have "a\<lparr>a_file := a_file a, cur_addr := cur_addr a\<rparr> = a" by simp
    then have "a\<lparr>a_file := a_file a, cur_addr := idx1_addr a\<rparr> = a" unfolding True .
    moreover have "avi_write_movi_tail_junk ops a = (0, a)"
      using True inv(3) by (simp add: avi_write_movi_tail_junk_def avi_geo_def)
    ultimately show ?thesis using inv(2, 4) True by (intro exI [of _ "a_file a"]) metis
  next
    case False
    define n where "n = idx1_addr a - cur_addr a"
    have n: "8 \<le> n" "cur_addr a + n = idx1_addr a" "cur_addr a + n \<le> fsize (fl (a_file a))" "cur_addr a < movi_addr_end a"
        "movi_addr_end a - cur_addr a = n"
      using False inv(1, 3, 5) by (auto simp: n_def at_file_def avi_geo_def)
    obtain s where s: "calls [a_write ops (str_bytes ''JUNK''), a_write ops (le32 (n - 8)), a_skip ops (n - 8)] a = (0, a\<lparr>a_file := s\<rparr>)"
        "ok s" "op_tell ops s = cur_addr a + n" "fsize (fl s) = fsize (fl (a_file a))"
        "\<forall>i. i < cur_addr a \<or> cur_addr a + n \<le> i \<longrightarrow> view s i = view (a_file a) i"
      using junk_law [of a n] inv(1, 2) n by (auto simp: at_file_def)
    define b where "b = a\<lparr>a_file := s, cur_addr := idx1_addr a\<rparr>"
    have bs: "a_file b = s" "cur_addr b = idx1_addr a" "movi_data_addr b = movi_data_addr a" "idx1_addr b = idx1_addr a"
      "movi_addr b = movi_addr a" "avi_geo b" "hdr_image b = hdr_image a" "idx_part (view s) b = idx_part (view s) a"
      using inv(3) by (auto simp: b_def avi_geo_def hdr_wf_def idx_part_def hdr_defs fun_eq_iff)
    have e: "avi_write_movi_tail_junk ops a = (0, b)"
      unfolding avi_write_movi_tail_junk_def avi_write_movi_junk_chunk_def Let_def n(5) using n s(1) by (simp add: b_def)
    have sa: "movi_data_addr a \<le> cur_addr a" "cur_addr a \<le> idx1_addr a" "\<forall>f \<in> set log. frame_at (view (a_file a)) a f"
        "idx_part (view (a_file a)) a (map (frame_entry (movi_addr a)) log)" "hdr_wf a" "movi_addr a + 8 \<le> movi_data_addr a"
        "movi_addr a = (if audio_enable a then 326 else 224)"
      using inv(4) by (auto simp: sealable_def avi_geo_def)
    have "idx_part (view s) a (map (frame_entry (movi_addr a)) log)"
      using idx_part_agree [of a "view s" "view (a_file a)"] s(5) n(2) sa(4) inv(3) by simp
    moreover have "\<forall>f \<in> set log. frame_at (view s) b f"
    proof
      fix f assume f: "f \<in> set log"
      show "frame_at (view s) b f"
        by (rule frame_at_agree [of "view (a_file a)" a]) (use f sa(2, 3) s(5) in \<open>simp_all add: bs\<close>)
    qed
    moreover have "\<exists>r t al vl m. placed (view s) 0 (hdr_image a r t al vl m)"
    proof -
      obtain r t al vl m where h: "placed (view (a_file a)) 0 (hdr_image a r t al vl m)" using inv(4) by (auto simp: sealable_def)
      have "placed (view s) 0 (hdr_image a r t al vl m) \<longleftrightarrow> placed (view (a_file a)) 0 (hdr_image a r t al vl m)"
        by (rule placed_cong) (use s(5) sa length_hdr_image [OF sa(5), of r t al vl m] in \<open>auto split: if_splits\<close>)
      then show ?thesis using h by blast
    qed
    moreover have "at_file b" using s(2, 4) inv(1) by (simp add: at_file_def b_def)
    ultimately have "sealable b log" using sa(1, 2) bs(6) unfolding sealable_def bs by simp
    then show ?thesis using e s(3) n(2) unfolding b_def by auto
  qed
qed

lemma exit_law:
  assumes "rec_inv a log prev"
  shows "\<exists>s. avimuxer_exit ops a = s \<and> ok s \<and> fsize (fl s) = idx1_end_addr a \<and> avi_playable (fcontent (fl s)) a log"
proof -
  obtain s0 where s0: "avi_write_movi_tail_junk ops a = (0, a\<lparr>a_file := s0, cur_addr := idx1_addr a\<rparr>)"
      "sealable (a\<lparr>a_file := s0, cur_addr := idx1_addr a\<rparr>) log" "op_tell ops s0 = idx1_addr a"
    using movi_tail_law [OF assms] by blast
  have ga: "avi_geo a" "ALIGN dvd idx1_addr a" using assms by (auto simp: rec_inv_def avi_image_def avi_geo_def)
  obtain s1 where s1: "op_finish ops s0 = (0, s1)" "ok s1" "op_tell ops s1 = idx1_addr a" "fsize (fl s1) = fsize (fl s0)"
      "view s1 = view s0"
    using finish_law [of s0] s0(2, 3) ga(2) by (auto simp: sealable_def at_file_def)
  define b where "b = (a\<lparr>a_file := s0, cur_addr := idx1_addr a\<rparr>)\<lparr>a_file := s1\<rparr>"
  have sb: "sealable b log"
    unfolding b_def by (rule sealable_file [OF s0(2)]) (use s1 in simp_all)
  have sc: "avi_conf b = avi_conf a" "avi_geo b" "op_tell ops (a_file b) = idx1_addr a" "idx1_end_addr b = idx1_end_addr a"
    using s1 ga(1) by (simp_all add: b_def)
  define w where "w = idx1_data_addr b + 16 * length log"
  have n: "16 * length log + 16 \<le> IDX_MAX_SIZE" "idx1_data_size b = 16 * length log"
      "idx1_write_addr b < idx1_end_addr b" "cur_addr b \<le> idx1_addr b"
    using sb sc(2) length_entries [of "map (frame_entry (movi_addr b)) log"]
    by (auto simp: sealable_def idx_part_def avi_geo_def dest: arg_cong [where f = length])
  obtain s2 s3 where s: "avi_write_idx_syn ops b = (0, flushed_at b w s2)"
      "calls [a_write_at ops w (str_bytes ''JUNK''), a_write_at ops (w + 4) (le32 (IDX_MAX_SIZE - 16 * length log - 16))]
        (flushed_at b w s2) = (0, flushed_at b w s3)" "at_file (flushed_at b w s3)" "op_tell ops s3 = op_tell ops (a_file b)"
      "placed (view s3) (idx1_addr b) (str_bytes ''idx1'')" "placed (view s3) (idx1_data_addr b) (idx_image b log)"
      "\<forall>f \<in> set log. frame_at (view s3) b f" "\<exists>r t al vl m. placed (view s3) 0 (hdr_image b r t al vl m)"
    using sealed_index [OF sb w_def] by blast
  obtain r t al vl m where h: "placed (view s3) 0 (hdr_image b r t al vl m)" using s(8) by blast
  define c where "c = (flushed_at b w s3)\<lparr>idx1_write_addr := idx1_end_addr b\<rparr>"
  have cs: "avi_conf c = avi_conf a" "avi_geo c" "a_file c = s3" "idx1_end_addr c = idx1_end_addr a"
    using sc by (simp_all add: c_def avi_conf_def avi_geo_def hdr_wf_def)
  have ce: "hdr_image c = hdr_image b" "idx_image c = idx_image b" "frame_at V c = frame_at V b" "a_file c = s3"
      "idx1_addr c = idx1_addr b" "idx1_data_addr c = idx1_data_addr b" "idx1_data_size c = idx1_data_size b"
      "cur_addr c = cur_addr b" "at_file c = at_file (flushed_at b w s3)" for V
    by (auto simp: c_def hdr_defs idx_image_def frame_at_def at_file_def fun_eq_iff)
  have tj: "avi_write_idx_tail_junk ops b = (0, c)"
    using s(1, 2) idx_room [OF sc(2) n(1)] n(3) by (simp add: avi_write_idx_tail_junk_def w_def c_def Let_def)
  have "\<exists>s x. avi_fix_fields ops True c = c\<lparr>a_file := s, syn_time := x\<rparr> \<and> ok s \<and> fsize (fl s) = fsize (fl (a_file c))
      \<and> op_tell ops s = op_tell ops (a_file c) \<and> avi_playable (view s) c log
      \<and> (\<exists>r t al vl m. placed (view s) 0 (hdr_image c r t al vl m))
      \<and> (\<forall>i. movi_addr c \<le> i \<longrightarrow> i < idx1_addr c + 4 \<or> idx1_addr c + 8 \<le> i \<longrightarrow> view s i = view (a_file c) i)"
    by (rule seal_law [of c r t al vl m log True])
      (use s(3, 5-7) h n cs(2) ce in simp_all)
  then obtain s4 x where s4: "avi_fix_fields ops True c = c\<lparr>a_file := s4, syn_time := x\<rparr>" "ok s4" "fsize (fl s4) = fsize (fl s3)"
      "op_tell ops s4 = op_tell ops s3" "avi_playable (view s4) c log"
    unfolding cs(3) by blast
  have "avimuxer_exit ops a = s4"
    unfolding avimuxer_exit_def avimuxer_fix_data_aligned_def avi_fix_final_def
    using s0(1) s1(1) tj s4(1) by (simp add: b_def)
  moreover have "view s4 = fcontent (fl s4)" using complete_law [OF s4(2)] s4(4) s(4) sc(3) ga(2) by simp
  moreover have "avi_playable (view s4) a log" using s4(5) playable_conf [OF cs(1, 2) ga(1)] by simp
  moreover have "fsize (fl s4) = idx1_end_addr a" using s4(3) s(3) sc(4) by (simp add: at_file_def)
  ultimately show ?thesis using s4(2) by simp
qed

end

end
