(* ===== verification/AviSession.thy ===== *)
theory AviSession
  imports AviRecord
begin

text \<open>
  A whole recording with the AVI muxer: the calls of the recorder in any order, and what the file then holds.
\<close>

datatype avi_call = Video "u8 list" bool bool | Audio "u8 list" | Sync | SyncTime nat

primrec avi_call_do :: "'s file_ops \<Rightarrow> avi_call \<Rightarrow> 's avi_file \<Rightarrow> int \<times> 's avi_file" where
  "avi_call_do ops (Video buf key ins) a = avimuxer_video ops buf key ins a"
| "avi_call_do ops (Audio buf) a = avimuxer_audio ops buf a"
| "avi_call_do ops Sync a = (0, avimuxer_sync ops a)"
| "avi_call_do ops (SyncTime t) a = (0, avimuxer_sync_time ops t a)"

primrec avi_run :: "'s file_ops \<Rightarrow> avi_call list \<Rightarrow> 's avi_file \<Rightarrow> int list \<times> 's avi_file" where
  "avi_run ops [] a = ([], a)"
| "avi_run ops (c # cs) a = (let (r, a) = avi_call_do ops c a; (rs, a) = avi_run ops cs a in (r # rs, a))"

text \<open>What is recorded: tag, flags and data of every frame that was accepted, and the last video frame, which can be repeated.\<close>

type_synonym rec_frame = "u8 list \<times> nat \<times> u8 list"

fun call_spec :: "bool \<Rightarrow> u8 list \<Rightarrow> avi_call \<Rightarrow> int \<Rightarrow> rec_frame list \<times> rec_frame option \<Rightarrow> rec_frame list \<times> rec_frame option" where
  "call_spec audio vtag (Video buf key ins) ret (log, prev) =
     (if ret \<noteq> AVIMUXER_OK then (log, prev)
      else if \<not> ins then (log @ [(vtag, if key then AVIIF_KEYFRAME else 0, pad buf)], Some (vtag, if key then AVIIF_KEYFRAME else 0, pad buf))
      else case prev of None \<Rightarrow> (log, prev) | Some f \<Rightarrow> if snd (snd f) = [] then (log, prev) else (log @ [f], prev))"
| "call_spec audio vtag (Audio buf) ret (log, prev) =
     (if ret = AVIMUXER_OK \<and> audio then (log @ [(str_bytes ''00wb'', 0, pad buf)], prev) else (log, prev))"
| "call_spec audio vtag Sync ret (log, prev) = (log, prev)"
| "call_spec audio vtag (SyncTime t) ret (log, prev) = (log, prev)"

fun run_spec_avi :: "bool \<Rightarrow> u8 list \<Rightarrow> avi_call list \<Rightarrow> int list \<Rightarrow> rec_frame list \<times> rec_frame option \<Rightarrow> rec_frame list \<times> rec_frame option" where
  "run_spec_avi audio vtag (c # cs) (r # rs) lp = run_spec_avi audio vtag cs rs (call_spec audio vtag c r lp)"
| "run_spec_avi audio vtag _ _ lp = lp"

definition recorded :: "bool \<Rightarrow> avi_call list \<Rightarrow> int list \<Rightarrow> rec_frame list" where
  "recorded audio cs rs = fst (run_spec_avi audio (str_bytes (if audio then ''01dc'' else ''00dc'')) cs rs ([], None))"

definition strip :: "frame \<Rightarrow> rec_frame" where
  "strip f = (case f of (tag, fl, p, d) \<Rightarrow> (tag, fl, d))"

lemma conf_sel:
  assumes "avi_conf a' = avi_conf a"
  shows "audio_enable a' = audio_enable a" "video_tag a' = video_tag a" "movi_addr a' = movi_addr a" "idx1_addr a' = idx1_addr a"
    "movi_data_addr a' = movi_data_addr a" "strhdr_video a' = strhdr_video a" "strhdr_audio a' = strhdr_audio a"
    "strfmt_audio a' = strfmt_audio a" "avi_header a' = avi_header a" "strfmt_video a' = strfmt_video a"
  using assms by (auto simp: avi_conf_def)

context muxer_file
begin

lemma rec_inv_last:
  assumes "rec_inv a log prev" "frame_at (view (a_file a)) a (video_tag a, f, p, d)"
  shows "rec_inv (a\<lparr>last_video_offset := p - 4 - movi_addr a, last_video_size := length d, last_video_flags := f\<rparr>) log
    (Some (video_tag a, f, p, d))"
proof -
  let ?b = "a\<lparr>last_video_offset := p - 4 - movi_addr a, last_video_size := length d, last_video_flags := f\<rparr>"
  have "avi_geo ?b = avi_geo a" "hdr_image ?b = hdr_image a" "idx_part V ?b = idx_part V a" "frame_at V ?b = frame_at V a" for V
    by (auto simp: avi_geo_def hdr_wf_def hdr_defs idx_part_def frame_at_def fun_eq_iff)
  moreover from this have "last_is (view (a_file a)) ?b (Some (video_tag a, f, p, d))" using assms(2) by (simp add: last_is_def)
  ultimately show ?thesis using assms(1) by (simp add: rec_inv_def avi_image_def at_file_def)
qed

text \<open>One more entry for a frame that is already there.\<close>

lemma entry_again:
  assumes "rec_inv a log prev" "frame_at (view (a_file a)) a (tag, f, p, d)" "avi_idx_entry_fits a"
  shows "\<exists>b. avi_idx_write_entry ops tag f (p - 4 - movi_addr a) (length d) a = (0, b)
    \<and> rec_inv b (log @ [(tag, f, p, d)]) prev \<and> avi_conf b = avi_conf a"
proof -
  have inv: "at_file a" "avi_geo a" "op_tell ops (a_file a) = cur_addr a" "avi_image (view (a_file a)) a log prev"
      "idx_part (view (a_file a)) a (map (frame_entry (movi_addr a)) log)" "length tag = 4"
    using assms(1, 2) by (auto simp: rec_inv_def avi_image_def avi_geo_def frame_at_def)
  obtain s w t where e: "avi_idx_write_entry ops tag f (p - 4 - movi_addr a) (length d) a
      = (0, a\<lparr>a_file := s, idx1_write_addr := w, tmp_idx_data := t, idx1_data_size := idx1_data_size a + 16\<rparr>)" "ok s"
      "fsize (fl s) = fsize (fl (a_file a))" "op_tell ops s = op_tell ops (a_file a)"
      "idx_part (view s) (a\<lparr>a_file := s, idx1_write_addr := w, tmp_idx_data := t, idx1_data_size := idx1_data_size a + 16\<rparr>)
        (map (frame_entry (movi_addr a)) log @ [(tag, f, p - 4 - movi_addr a, length d)])"
      "\<forall>i. i < idx1_data_addr a \<longrightarrow> view s i = view (a_file a) i"
    using idx_entry_law [OF inv(1, 2, 5) assms(3) inv(6)] by blast
  define b where "b = a\<lparr>a_file := s, idx1_write_addr := w, tmp_idx_data := t, idx1_data_size := idx1_data_size a + 16\<rparr>"
  have bs: "a_file b = s" "cur_addr b = cur_addr a" "movi_data_addr b = movi_data_addr a" "idx1_addr b = idx1_addr a"
      "movi_addr b = movi_addr a" "hdr_image b = hdr_image a" "avi_geo b"
    using inv(2) by (auto simp: b_def hdr_defs avi_geo_def fun_eq_iff)
  have g: "movi_data_addr a \<le> cur_addr a" "cur_addr a = idx1_addr a \<or> cur_addr a + 8 \<le> idx1_addr a"
      "idx1_data_addr a = idx1_addr a + 8" "movi_addr a + 8 \<le> movi_data_addr a" "hdr_wf a"
      "movi_addr a = (if audio_enable a then 326 else 224)" "\<forall>f \<in> set log. frame_at (view (a_file a)) a f"
      "last_is (view (a_file a)) a prev"
    using inv(2, 4) by (auto simp: avi_image_def avi_geo_def)
  have same: "\<forall>i. movi_data_addr a \<le> i \<longrightarrow> i < cur_addr a \<longrightarrow> view s i = view (a_file a) i" using e(6) g(2, 3) by auto
  have fr: "frame_at (view s) b f" if "frame_at (view (a_file a)) a f" for f
    by (rule frame_at_agree [OF that same]) (simp_all add: bs)
  have "last_is (view s) b prev" by (rule last_is_agree [OF g(8) same]) (simp_all add: b_def)
  moreover have "\<exists>r t al vl m. placed (view s) 0 (hdr_image b r t al vl m)"
  proof -
    obtain r t al vl m where h: "placed (view (a_file a)) 0 (hdr_image a r t al vl m)" using inv(4) by (auto simp: avi_image_def)
    have "placed (view s) 0 (hdr_image a r t al vl m) \<longleftrightarrow> placed (view (a_file a)) 0 (hdr_image a r t al vl m)"
      by (rule placed_cong) (use e(6) g(1-6) length_hdr_image [OF g(5), of r t al vl m] in \<open>auto split: if_splits\<close>)
    then show ?thesis using h bs(6) by metis
  qed
  moreover have "idx_part (view s) b (map (frame_entry (movi_addr b)) (log @ [(tag, f, p, d)]))"
    using e(5) by (simp add: b_def frame_entry_def)
  moreover have "\<forall>f \<in> set (log @ [(tag, f, p, d)]). frame_at (view s) b f" using fr g(7) assms(2) by auto
  ultimately have "avi_image (view s) b (log @ [(tag, f, p, d)]) prev"
    using g(1, 2) bs(7) unfolding avi_image_def bs by blast
  then have "rec_inv b (log @ [(tag, f, p, d)]) prev"
    using e(2-4) inv(1, 3) by (simp add: rec_inv_def at_file_def b_def)
  then show ?thesis using e(1) by (intro exI [of _ b]) (simp add: b_def avi_conf_def)
qed

lemma video_law:
  assumes "rec_inv a log prev"
  shows "\<exists>ret a' log' prev'. avimuxer_video ops buf key ins a = (ret, a') \<and> rec_inv a' log' prev' \<and> avi_conf a' = avi_conf a
    \<and> (map strip log', map_option strip prev')
      = call_spec (audio_enable a) (video_tag a) (Video buf key ins) ret (map strip log, map_option strip prev)"
proof (cases ins)
  case False
  define f where "f = (if key then AVIIF_KEYFRAME else 0)"
  show ?thesis
  proof (cases "avi_chunk_fits a (8 + length (pad buf)) \<and> avi_idx_entry_fits a")
    case fits: True
    have t: "length (video_tag a) = 4" using assms by (simp add: rec_inv_def avi_image_def avi_geo_def)
    define p where "p = cur_addr a + 8"
    obtain a1 where a1: "avi_write_movi_chunk ops (video_tag a) f buf a = (0, p - 4 - movi_addr a, a1)"
        "rec_inv a1 (log @ [(video_tag a, f, p, pad buf)]) prev" "frame_at (view (a_file a1)) a1 (video_tag a, f, p, pad buf)"
        "avi_conf a1 = avi_conf a"
      using chunk_law [OF assms t, of buf f] fits unfolding p_def by blast
    let ?b = "a1\<lparr>last_video_offset := p - 4 - movi_addr a, last_video_size := length (pad buf), last_video_flags := f\<rparr>"
    let ?c = "?b\<lparr>video_length := video_length a1 + 1\<rparr>"
    have "rec_inv ?c (log @ [(video_tag a, f, p, pad buf)]) (Some (video_tag a, f, p, pad buf))"
      using rec_inv_last [OF a1(2), of f p "pad buf"] a1(3) conf_sel [OF a1(4)] by simp
    moreover have "avimuxer_video ops buf key ins a = (0, ?c)"
      unfolding avimuxer_video_def Let_def length_pad [symmetric] f_def [symmetric] a1(1) using False by simp
    moreover have "avi_conf ?c = avi_conf a" using a1(4) by (simp add: avi_conf_def)
    moreover have "(map strip (log @ [(video_tag a, f, p, pad buf)]), map_option strip (Some (video_tag a, f, p, pad buf)))
        = call_spec (audio_enable a) (video_tag a) (Video buf key ins) 0 (map strip log, map_option strip prev)"
      using False by (simp add: strip_def f_def)
    ultimately show ?thesis by blast
  next
    case full: False
    have "avimuxer_video ops buf key ins a = (AVIMUXER_FULL, a)"
      unfolding avimuxer_video_def Let_def chunk_full [OF full] using False by simp
    then show ?thesis using assms by (intro exI [of _ AVIMUXER_FULL] exI [of _ a] exI [of _ log] exI [of _ prev]) simp
  qed
next
  case True
  show ?thesis
  proof (cases "last_video_size a = 0")
    case none: True
    have "case map_option strip prev of None \<Rightarrow> True | Some f \<Rightarrow> snd (snd f) = []"
      using assms none by (auto simp: rec_inv_def avi_image_def last_is_def strip_def split: option.splits prod.splits)
    moreover have "avimuxer_video ops buf key ins a = (0, a)" using True none by (simp add: avimuxer_video_def)
    ultimately show ?thesis using assms True
      by (intro exI [of _ 0] exI [of _ a] exI [of _ log] exI [of _ prev]) (cases prev, auto)
  next
    case some: False
    have inv: "last_is (view (a_file a)) a prev" using assms by (simp add: rec_inv_def avi_image_def)
    obtain f p d where pr: "prev = Some (video_tag a, f, p, d)" "frame_at (view (a_file a)) a (video_tag a, f, p, d)"
        "last_video_flags a = f" "last_video_offset a = p - 4 - movi_addr a" "last_video_size a = length d"
      using inv some by (auto simp: last_is_def split: option.splits prod.splits)
    show ?thesis
    proof (cases "avi_idx_entry_fits a")
      case full: False
      have "avimuxer_video ops buf key ins a = (AVIMUXER_FULL, a)" using True some full by (simp add: avimuxer_video_def)
      then show ?thesis using assms by (intro exI [of _ AVIMUXER_FULL] exI [of _ a] exI [of _ log] exI [of _ prev]) simp
    next
      case fits: True
      obtain b where b: "avi_idx_write_entry ops (video_tag a) f (p - 4 - movi_addr a) (length d) a = (0, b)"
          "rec_inv b (log @ [(video_tag a, f, p, d)]) prev" "avi_conf b = avi_conf a"
        using entry_again [OF assms pr(2) fits] by blast
      then have "avimuxer_video ops buf key ins a
          = (0, b\<lparr>total_idx := total_idx b + 1, video_length := video_length b + 1\<rparr>)"
        using True some fits pr(3-5) by (simp add: avimuxer_video_def)
      moreover have "d \<noteq> []" using some pr(5) by auto
      ultimately show ?thesis using True pr(1) b(2, 3)
        by (intro exI [of _ 0] exI [of _ "b\<lparr>total_idx := total_idx b + 1, video_length := video_length b + 1\<rparr>"]
            exI [of _ "log @ [(video_tag a, f, p, d)]"] exI [of _ prev]) (simp add: strip_def)
    qed
  qed
qed

lemma audio_law:
  assumes "rec_inv a log prev"
  shows "\<exists>ret a' log' prev'. avimuxer_audio ops buf a = (ret, a') \<and> rec_inv a' log' prev' \<and> avi_conf a' = avi_conf a
    \<and> (map strip log', map_option strip prev')
      = call_spec (audio_enable a) (video_tag a) (Audio buf) ret (map strip log, map_option strip prev)"
proof (cases "audio_enable a \<and> buf \<noteq> [] \<and> avi_chunk_fits a (8 + length (pad buf)) \<and> avi_idx_entry_fits a")
  case True
  have t: "length (str_bytes ''00wb'') = 4" by simp
  define p where "p = cur_addr a + 8"
  obtain a1 where a1: "avi_write_movi_chunk ops (str_bytes ''00wb'') 0 buf a = (0, p - 4 - movi_addr a, a1)"
      "rec_inv a1 (log @ [(str_bytes ''00wb'', 0, p, pad buf)]) prev" "avi_conf a1 = avi_conf a"
    using chunk_law [OF assms t, of buf 0] True unfolding p_def by blast
  let ?b = "a1\<lparr>audio_length := audio_length a1 + length buf div 2\<rparr>"
  have "avimuxer_audio ops buf a = (0, ?b)" using True a1(1) by (simp add: avimuxer_audio_def)
  then show ?thesis using True a1(2, 3)
    by (intro exI [of _ 0] exI [of _ ?b] exI [of _ "log @ [(str_bytes ''00wb'', 0, p, pad buf)]"] exI [of _ prev]) (simp add: strip_def)
next
  case False
  have "avi_write_movi_chunk ops (str_bytes ''00wb'') 0 buf a = (AVIMUXER_FULL, 0, a)" if "audio_enable a" "buf \<noteq> []"
    using False that chunk_full by blast
  then have "\<exists>r. avimuxer_audio ops buf a = (r, a) \<and> (audio_enable a \<longrightarrow> r \<noteq> 0)"
    by (auto simp: avimuxer_audio_def)
  then obtain r where r: "avimuxer_audio ops buf a = (r, a)" "audio_enable a \<longrightarrow> r \<noteq> 0" by blast
  then show ?thesis using assms by (intro exI [of _ r] exI [of _ a] exI [of _ log] exI [of _ prev]) auto
qed

lemma call_law:
  assumes "rec_inv a log prev"
  shows "\<exists>ret a' log' prev'. avi_call_do ops c a = (ret, a') \<and> rec_inv a' log' prev' \<and> avi_conf a' = avi_conf a
    \<and> (map strip log', map_option strip prev') = call_spec (audio_enable a) (video_tag a) c ret (map strip log, map_option strip prev)"
proof (cases c)
  case (Video buf key ins)
  then show ?thesis using video_law [OF assms, of buf key ins] by simp
next
  case (Audio buf)
  then show ?thesis using audio_law [OF assms, of buf] by simp
next
  case Sync
  then show ?thesis using sync_law [OF assms]
    by (intro exI [of _ 0] exI [of _ "avimuxer_sync ops a"] exI [of _ log] exI [of _ prev]) simp
next
  case (SyncTime t)
  have "avimuxer_sync_time ops t a = a \<or> avimuxer_sync_time ops t a = avimuxer_sync ops a"
    by (simp add: avimuxer_sync_time_def Let_def)
  then show ?thesis using SyncTime sync_law [OF assms] assms
    by (intro exI [of _ 0] exI [of _ "avimuxer_sync_time ops t a"] exI [of _ log] exI [of _ prev]) auto
qed

lemma run_law:
  assumes "rec_inv a log prev"
  shows "\<exists>rs a' log' prev'. avi_run ops cs a = (rs, a') \<and> rec_inv a' log' prev' \<and> avi_conf a' = avi_conf a
    \<and> (map strip log', map_option strip prev')
      = run_spec_avi (audio_enable a) (video_tag a) cs rs (map strip log, map_option strip prev)"
  using assms
proof (induction cs arbitrary: a log prev)
  case Nil
  then show ?case by (intro exI [of _ "[]"] exI [of _ a] exI [of _ log] exI [of _ prev]) simp
next
  case (Cons c cs)
  obtain r a1 log1 prev1 where c: "avi_call_do ops c a = (r, a1)" "rec_inv a1 log1 prev1" "avi_conf a1 = avi_conf a"
      "(map strip log1, map_option strip prev1) = call_spec (audio_enable a) (video_tag a) c r (map strip log, map_option strip prev)"
    using call_law [OF Cons.prems, of c] by blast
  obtain rs a2 log2 prev2 where d: "avi_run ops cs a1 = (rs, a2)" "rec_inv a2 log2 prev2" "avi_conf a2 = avi_conf a1"
      "(map strip log2, map_option strip prev2)
        = run_spec_avi (audio_enable a1) (video_tag a1) cs rs (map strip log1, map_option strip prev1)"
    using Cons.IH [OF c(2)] by blast
  show ?case
    using c(1, 3, 4) d conf_sel(1, 2) [OF c(3)]
    by (intro exI [of _ "r # rs"] exI [of _ a2] exI [of _ log2] exI [of _ prev2]) simp
qed

end

section \<open>Beginning\<close>

lemma init_fields:
  "hdr_wf (avi_init_fields s w h fr h265 audio)" "audio_enable (avi_init_fields s w h fr h265 audio) = audio"
  "a_file (avi_init_fields s w h fr h265 audio) = s"
  by (simp_all add: hdr_wf_def avi_init_fields_def)

context avi_muxer_file
begin

lemma init_law:
  assumes "ok s" "op_tell ops s = 0" "max_size < 2 ^ 32 - ALIGN" "fsize (fl s) \<le> muxer_file_align_up max_size"
    and "muxer_file_align_up max_size > IDX_MAX_SIZE + ALIGN" "fr \<noteq> 0"
  shows "\<exists>a. avimuxer_init_with_file ops on_file s max_size w h fr h265 audio = Some (Some a) \<and> rec_inv a [] None
    \<and> audio_enable a = audio \<and> video_tag a = str_bytes (if audio then ''01dc'' else ''00dc'')
    \<and> strhdr_video a = strhdr_video (avi_init_fields s w h fr h265 audio)
    \<and> strhdr_audio a = strhdr_audio (avi_init_fields s w h fr h265 audio)
    \<and> strfmt_audio a = strfmt_audio (avi_init_fields s w h fr h265 audio)
    \<and> avi_header a = avi_header (avi_init_fields s w h fr h265 audio)
    \<and> idx1_end_addr a = muxer_file_align_up max_size \<and> cur_addr a = ALIGN"
proof -
  define M where "M = muxer_file_align_up max_size"
  define s0 where "s0 = on_file (avi_seek_set 0) (on_file (pre_avi_seek M) s)"
  define H where "H = (if audio then 326 else 224 :: nat)"
  have M: "ALIGN dvd M" "fsize (fl s) \<le> M" "IDX_MAX_SIZE + ALIGN < M" "M < 2 ^ 32"
  proof -
    show "ALIGN dvd M" "fsize (fl s) \<le> M" "IDX_MAX_SIZE + ALIGN < M" using align_up [OF assms(3)] assms(4, 5) by (simp_all add: M_def)
    have "M \<le> (max_size + ALIGN - 1) mod 2 ^ 32" unfolding M_def muxer_file_align_up_def by (rule div_times_less_eq_dividend)
    then show "M < 2 ^ 32" using mod_less_divisor [of "2 ^ 32" "max_size + ALIGN - 1"] by simp
  qed
  have s0: "ok s0" "op_tell ops s0 = 0" "fsize (fl s0) = M" using size_law [OF assms(1, 2) M(1, 2)] by (simp_all add: s0_def)
  define a0 where "a0 = avi_init_fields s0 w h fr h265 audio"
  have a0: "hdr_wf a0" "audio_enable a0 = audio" "a_file a0 = s0" by (simp_all add: a0_def init_fields)
  obtain s1 x where h: "avi_write_header ops a0 = (0, a0\<lparr>a_file := s1, riff_size_offset := 4, total_frames_offset := 48,
        audio_length_offset := x, video_length_offset := if audio then 242 else 140, movi_size_offset := if audio then 318 else 216\<rparr>)"
      "audio \<longrightarrow> x = 140" "ok s1" "op_tell ops s1 = H" "fsize (fl s1) = M" "placed (view s1) 0 (hdr_image a0 0 0 0 0 0)"
    using write_header_law [of a0] a0 s0 M(3) by (auto simp: H_def IDX_MAX_SIZE_def)
  define I where "I = M - IDX_MAX_SIZE"
  have I: "ALIGN dvd I" "ALIGN \<le> I" "I + IDX_MAX_SIZE = M" "muxer_file_align_up I = I"
  proof -
    have "ALIGN dvd IDX_MAX_SIZE" by (simp add: IDX_MAX_SIZE_def MUXER_FILE_ALIGN_SIZE_def)
    then show "ALIGN dvd I" unfolding I_def using M(1) by (rule dvd_diff_nat [rotated])
    then obtain k where k: "I = ALIGN * k" ..
    show "ALIGN \<le> I" "I + IDX_MAX_SIZE = M" using M(3) by (simp_all add: I_def)
    have "I < 2 ^ 32 - ALIGN" using M(4) by (simp add: I_def IDX_MAX_SIZE_def MUXER_FILE_ALIGN_SIZE_def)
    then have "(I + ALIGN - 1) mod 2 ^ 32 = I + (ALIGN - 1)" by (simp add: MUXER_FILE_ALIGN_SIZE_def)
    moreover have "(ALIGN * k + (ALIGN - 1)) div ALIGN = k" unfolding MUXER_FILE_ALIGN_SIZE_def by presburger
    ultimately show "muxer_file_align_up I = I" unfolding muxer_file_align_up_def k by simp
  qed
  have D: "muxer_file_align_up H = ALIGN" by (simp add: H_def muxer_file_align_up_def MUXER_FILE_ALIGN_SIZE_def)
  have HA: "H + 8 \<le> ALIGN" by (simp add: H_def MUXER_FILE_ALIGN_SIZE_def)
  define a1 where "a1 = a0\<lparr>a_file := s1, riff_size_offset := 4, total_frames_offset := 48,
        audio_length_offset := x, video_length_offset := if audio then 242 else 140, movi_size_offset := if audio then 318 else 216,
        movi_addr := H, movi_data_addr := ALIGN, idx1_addr := I, idx1_end_addr := M, idx1_size_addr := I + 4, idx1_data_addr := I + 8,
        movi_data_size := I - H\<rparr>"
  have a1s: "a_file a1 = s1" by (simp add: a1_def)
  have HT: "H + (ALIGN - H) = ALIGN" and HR: "8 \<le> ALIGN - H" "ALIGN \<le> M" using HA M(3) by simp_all
  obtain s2 where s2: "calls [a_write ops (str_bytes ''JUNK''), a_write ops (le32 (ALIGN - H - 8)), a_skip ops (ALIGN - H - 8)] a1
        = (0, a1\<lparr>a_file := s2\<rparr>)" "ok s2" "op_tell ops s2 = ALIGN" "fsize (fl s2) = M"
      "\<forall>i. i < H \<or> ALIGN \<le> i \<longrightarrow> view s2 i = view s1 i"
    using junk_law [of a1 "ALIGN - H", unfolded a1s h(4, 5) HT, OF h(3) HR] by blast
  obtain s3 where s3: "a_skip ops 0 (a1\<lparr>a_file := s2\<rparr>) = (0, a1\<lparr>a_file := s3\<rparr>)" "ok s3" "op_tell ops s3 = ALIGN" "fsize (fl s3) = M"
      "\<forall>i. i < ALIGN \<or> ALIGN \<le> i \<longrightarrow> view s3 i = view s2 i"
    using a_skip_law [of "a1\<lparr>a_file := s2\<rparr>" 0] s2(2-4) M(3) by auto
  obtain s4 where s4: "a_write_at ops I (str_bytes ''idx1'') (a1\<lparr>a_file := s3\<rparr>) = (0, a1\<lparr>a_file := s4\<rparr>)" "ok s4"
      "op_tell ops s4 = ALIGN" "fsize (fl s4) = M" "view s4 = overlay (view s3) I (str_bytes ''idx1'')"
    using a_write_at_law [of "a1\<lparr>a_file := s3\<rparr>" I "str_bytes ''idx1''"] s3(2-4) I(3) by (auto simp: IDX_MAX_SIZE_def)
  obtain s5 where s5: "a_write_at ops (I + 4) (le32 0) (a1\<lparr>a_file := s4\<rparr>) = (0, a1\<lparr>a_file := s5\<rparr>)" "ok s5"
      "op_tell ops s5 = ALIGN" "fsize (fl s5) = M" "view s5 = overlay (view s4) (I + 4) (le32 0)"
    using a_write_at_law [of "a1\<lparr>a_file := s4\<rparr>" "I + 4" "le32 0"] s4(2-4) I(3) by (auto simp: IDX_MAX_SIZE_def)
  define a where "a = a1\<lparr>a_file := s5, movi_addr_end := I, idx1_write_addr := I + 8, cur_addr := ALIGN,
    movi_guard_block_end := muxer_file_align_up ALIGN, syn_time := 0\<rparr>"
  have e: "avimuxer_init_with_file ops on_file s max_size w h fr h265 audio = Some (Some a)"
  proof -
    have *: "\<not> M \<le> IDX_MAX_SIZE + ALIGN" "I < M" "\<not> M \<le> I" "ALIGN \<noteq> H" "\<not> ALIGN - H < 8" "\<not> ALIGN \<le> H" "8 \<le> ALIGN - H"
      using M(3) I(3) HA by (auto simp: IDX_MAX_SIZE_def MUXER_FILE_ALIGN_SIZE_def)
    have aj: "avi_write_align_junk ops H ALIGN a1 = (0, a1\<lparr>a_file := s2\<rparr>)"
      using s2(1) * h(4) by (simp add: avi_write_align_junk_def a_tell_def a1_def Let_def)
    show ?thesis
      unfolding avimuxer_init_with_file_def Let_def M_def [symmetric] s0_def [symmetric] a0_def [symmetric] h(1) prod.case a_tell_def
      using * aj s3(1) s4(1) s5(1) h(4) s2(3) assms(6)
      by (simp add: D I_def [symmetric] I(4) a1_def [symmetric] calls.simps a_def)
  qed
  have cf: "avi_conf a = avi_conf a1" "hdr_image a = hdr_image a0" by (auto simp: a_def a1_def avi_conf_def hdr_defs fun_eq_iff)
  have geo: "avi_geo a"
    using a0(1, 2) h(2) I M(4) HA by (simp add: avi_geo_def a_def a1_def hdr_wf_def H_def a0_def avi_init_fields_def)
  have "placed (view s5) 0 (hdr_image a0 0 0 0 0 0) \<longleftrightarrow> placed (view s1) 0 (hdr_image a0 0 0 0 0 0)"
    by (rule placed_cong) (use s2(5) s3(5) s4(5) s5(5) I(2) HA length_hdr_image [OF a0(1), of 0 0 0 0 0] in
      \<open>auto simp: overlay_outside H_def a0(2) split: if_splits\<close>)
  then have "\<exists>r t al vl m. placed (view s5) 0 (hdr_image a r t al vl m)" using h(6) cf(2) by metis
  moreover have "placed (view s5) I (str_bytes ''idx1'')" unfolding s5(5) s4(5) by (subst placed_overlay_other) auto
  then have "idx_part (view s5) a []" by (simp add: idx_part_def a_def a1_def a0_def avi_init_fields_def IDX_MAX_SIZE_def)
  moreover have "last_is (view s5) a None" by (simp add: last_is_def a_def a1_def a0_def avi_init_fields_def)
  moreover have "cur_addr a = ALIGN" "movi_data_addr a = ALIGN" "idx1_addr a = I" by (simp_all add: a_def a1_def)
  moreover have "ALIGN = I \<or> ALIGN + 8 \<le> I"
    using dvd_room [of ALIGN I] I(1, 2) by (cases "ALIGN = I") (auto simp: MUXER_FILE_ALIGN_SIZE_def)
  ultimately have "avi_image (view s5) a [] None" using geo unfolding avi_image_def by auto
  then have "rec_inv a [] None" using s5(2-4) by (simp add: rec_inv_def at_file_def a_def a1_def)
  moreover have "strhdr_video a = strhdr_video (avi_init_fields s w h fr h265 audio)"
    "strhdr_audio a = strhdr_audio (avi_init_fields s w h fr h265 audio)"
    "strfmt_audio a = strfmt_audio (avi_init_fields s w h fr h265 audio)"
    "avi_header a = avi_header (avi_init_fields s w h fr h265 audio)"
    "audio_enable a = audio" "video_tag a = str_bytes (if audio then ''01dc'' else ''00dc'')" "idx1_end_addr a = M"
    "cur_addr a = ALIGN"
    by (simp_all add: a_def a1_def a0_def avi_init_fields_def)
  ultimately show ?thesis using e unfolding M_def by blast
qed

end

end
