(* ===== verification/AviRead.thy ===== *)
theory AviRead
  imports OsalFile ByteShift CommonUtil
begin

text \<open>
  The reader of AVI files, \<open>sdk/app/playback/avi.c\<close>: opening a file (\<open>avi_read_init\<close>), the next video and audio frame of the
  index, the table for jumping, and jumping. Numbers of the file are 32-bit words and the arithmetic on them wraps, as the
  files come from a card and can hold anything.

  A loop that does not end, and a division by zero, is \<open>None\<close>. Local structures are not initialised: what the stack holds is an
  argument, \<open>stk k\<close> for the \<open>k\<close>-th stream list. Allocations succeed.
\<close>

section \<open>Buffers and tags\<close>

unbundle bit_operations_syntax

text \<open>Bytes read into a buffer; what is not overwritten stays.\<close>

definition into :: "u8 list \<Rightarrow> u8 list \<Rightarrow> u8 list" where
  "into buf bs = bs @ drop (length bs) buf"

definition u32_at :: "u8 list \<Rightarrow> nat \<Rightarrow> u32" where
  "u32_at bs i = ucast (bs ! i) OR push_bit 8 (ucast (bs ! (i + 1))) OR push_bit 16 (ucast (bs ! (i + 2)))
     OR push_bit 24 (ucast (bs ! (i + 3)))"

definition u16_at :: "u8 list \<Rightarrow> nat \<Rightarrow> u16" where
  "u16_at bs i = ucast (bs ! i) OR push_bit 8 (ucast (bs ! (i + 1)))"

text \<open>\<open>strncasecmp(p, tag, 4) == 0\<close>.\<close>

definition fcc_is :: "u8 list \<Rightarrow> nat \<Rightarrow> string \<Rightarrow> bool" where
  "fcc_is p i tag \<longleftrightarrow> strncasecmp p i (str_bytes tag @ [0]) 0 4 = Some 0"

section \<open>Opening a file\<close>

record idx_reader =
  ir_buf :: "u8 list"
  ir_file_addr :: u32
  ir_frame_num :: u32
  ir_not_read_size :: u32
  ir_cache_remain :: int
  ir_idx1 :: nat

record fast_index =
  fi_avi_index :: u32
  fi_audio_index :: u32
  fi_offset :: u32

record avi_read_msg =
  addr_offset :: u32
  avi_index :: u32
  audio_index :: u32
  remain_read_size :: u32
  rm_buf :: "u8 list"

record avi_msg =
  am_avi :: "u8 list"
  am_fp :: ffile
  am_fps :: u32
  am_sample :: u32
  am_movi_addr :: u32
  am_idx1_addr :: u32
  am_idx1_size :: u32
  am_read_msg :: "avi_read_msg option"
  am_fast_index :: "fast_index list"
  am_video :: idx_reader
  am_audio :: idx_reader
  am_offset :: u8
  am_v_id :: u32
  am_a_id :: u32

definition seek_to :: "u32 \<Rightarrow> ffile \<Rightarrow> ffile" where
  "seek_to off fp = osal_fseek (unat off) fp"

definition tell32 :: "ffile \<Rightarrow> u32" where
  "tell32 fp = word_of_nat (osal_ftell fp)"

text \<open>The chunks of the file; the answer is \<open>None\<close> for an error, or the state at the end of the file with \<open>hdrl_offset\<close>.\<close>

partial_function (option) read_chunks :: "u8 list \<Rightarrow> u32 \<Rightarrow> avi_msg \<Rightarrow> (u8 list \<times> u32 \<times> avi_msg) option option" where
  "read_chunks data hdrl m =
     (let (bs, fp) = osal_fread 8 (am_fp m); data = into data bs; m = m\<lparr>am_fp := fp\<rparr>
      in if length bs < 8 then Some (if bs = [] then Some (data, hdrl, m) else None)
         else let chunk_size = (u32_at data 4 + 1) AND NOT 1
              in if fcc_is data 0 ''LIST'' then
                   let (bs, fp) = osal_fread 4 fp; data = into data bs; m = m\<lparr>am_fp := fp\<rparr>;
                       seek_offset = (chunk_size - 4) + tell32 fp
                   in if fcc_is data 0 ''hdrl'' then read_chunks data (tell32 fp) (m\<lparr>am_fp := seek_to seek_offset fp\<rparr>)
                      else if fcc_is data 0 ''INFO'' then read_chunks data hdrl (m\<lparr>am_fp := seek_to seek_offset fp\<rparr>)
                      else if fcc_is data 0 ''movi'' then
                        read_chunks data hdrl (m\<lparr>am_fp := seek_to seek_offset fp, am_movi_addr := tell32 fp - 4\<rparr>)
                      else Some None
                 else if fcc_is data 0 ''JUNK'' then
                   read_chunks data hdrl (m\<lparr>am_fp := seek_to (chunk_size + tell32 fp) fp\<rparr>)
                 else if fcc_is data 0 ''idx1'' then
                   read_chunks data hdrl (m\<lparr>am_fp := seek_to (chunk_size + tell32 fp) fp, am_idx1_addr := tell32 fp,
                                            am_idx1_size := chunk_size\<rparr>)
                 else Some None)"

text \<open>One stream header: the identifiers and the rate.\<close>

definition stream_header :: "u8 list \<Rightarrow> bool \<Rightarrow> avi_msg \<Rightarrow> (bool \<times> avi_msg) option" where
  "stream_header stream audio m =
     (if fcc_is stream 0 ''vids'' then
        let dwScale = u32_at stream 20; dwRate = u32_at stream 24
        in if dwScale = 0 then None
           else Some (False, m\<lparr>am_v_id := (if am_offset m = 0 then 0x63643030 else 0x63643130),
                               am_fps := (dwRate + drop_bit 2 dwScale) div dwScale, am_offset := am_offset m + 1\<rparr>)
      else if fcc_is stream 0 ''auds'' then
        Some (True, m\<lparr>am_a_id := (if am_offset m = 0 then 0x62773030 else 0x62773130), am_offset := am_offset m + 1\<rparr>)
      else Some (audio, m))"

partial_function (option) read_strh_strf :: "u8 list \<Rightarrow> u8 list \<Rightarrow> u8 list \<Rightarrow> bool \<Rightarrow> avi_msg \<Rightarrow> avi_msg option" where
  "read_strh_strf str stream wav audio m =
     (let (bs, fp) = osal_fread 8 (am_fp m); str = into str bs; offset = tell32 fp
      in if fcc_is str 0 ''strh'' then
           let (bs, fp) = osal_fread 56 fp; stream = into stream bs
           in do { (audio, m) \<leftarrow> stream_header stream audio m;
                   read_strh_strf str stream wav audio (m\<lparr>am_fp := seek_to (offset + u32_at str 4) fp\<rparr>) }
         else if fcc_is str 0 ''strf'' then
           if audio then
             let (bs, fp) = osal_fread 20 fp; wav = into wav bs
             in Some (m\<lparr>am_fp := seek_to (offset + u32_at str 4) fp,
                        am_sample := (if u16_at wav 0 = 1 then u32_at wav 4 else 0)\<rparr>)
           else Some (m\<lparr>am_fp := seek_to (offset + u32_at str 4) fp\<rparr>)
         else Some (m\<lparr>am_fp := fp\<rparr>))"

text \<open>The lists behind the main header.\<close>

partial_function (option) read_lists :: "(nat \<Rightarrow> u8 list \<times> u8 list \<times> u8 list) \<Rightarrow> nat \<Rightarrow> u8 list \<Rightarrow> u8 list \<Rightarrow> avi_msg \<Rightarrow> avi_msg option" where
  "read_lists stk k List_msg data m =
     (let (bs, fp) = osal_fread 8 (am_fp m); List_msg = into List_msg bs; offset = tell32 fp
      in if fcc_is List_msg 0 ''LIST'' then
           let (bs, fp) = osal_fread 4 fp; data = into data bs
           in if fcc_is data 0 ''strl'' then
                do { m \<leftarrow> (case stk k of (str, stream, wav) \<Rightarrow> read_strh_strf str stream wav False (m\<lparr>am_fp := fp\<rparr>));
                     read_lists stk (k + 1) List_msg data (m\<lparr>am_fp := seek_to (offset + u32_at List_msg 4) (am_fp m)\<rparr>) }
              else Some (m\<lparr>am_fp := fp\<rparr>)
         else Some (m\<lparr>am_fp := fp\<rparr>))"

definition idx_start :: "avi_msg \<Rightarrow> idx_reader \<Rightarrow> idx_reader" where
  "idx_start m r = r\<lparr>ir_frame_num := 0, ir_file_addr := am_idx1_addr m, ir_not_read_size := am_idx1_size m, ir_cache_remain := 0\<rparr>"

definition read_msg_init :: "u8 list \<Rightarrow> avi_msg \<Rightarrow> avi_msg" where
  "read_msg_init buf m = m\<lparr>am_read_msg := Some \<lparr>addr_offset = am_idx1_addr m, avi_index = 0, audio_index = 0,
     remain_read_size = am_idx1_size m, rm_buf = buf\<rparr>\<rparr>"

definition zero_reader :: idx_reader where
  "zero_reader = \<lparr>ir_buf = replicate 512 0, ir_file_addr = 0, ir_frame_num = 0, ir_not_read_size = 0, ir_cache_remain = 0, ir_idx1 = 0\<rparr>"

definition zero_msg :: "ffile \<Rightarrow> avi_msg" where
  "zero_msg fp = \<lparr>am_avi = replicate 64 0, am_fp = fp, am_fps = 0, am_sample = 0, am_movi_addr = 0, am_idx1_addr = 0, am_idx1_size = 0,
     am_read_msg = None, am_fast_index = [], am_video = zero_reader, am_audio = zero_reader, am_offset = 0, am_v_id = 0, am_a_id = 0\<rparr>"

text \<open>\<open>fp\<close> is the open file, or \<open>None\<close> when it cannot be opened. The inner \<open>None\<close> of the answer is NULL.\<close>

definition avi_read_init :: "u8 list \<Rightarrow> u8 list \<Rightarrow> u8 list \<Rightarrow> (nat \<Rightarrow> u8 list \<times> u8 list \<times> u8 list) \<Rightarrow> ffile option \<Rightarrow> avi_msg option option" where
  "avi_read_init data List_msg rbuf stk file =
     (case file of None \<Rightarrow> Some None
      | Some fp \<Rightarrow>
        let (bs, fp) = osal_fread 12 fp; data = into data bs
        in if length bs < 12 \<or> \<not> fcc_is data 0 ''RIFF'' \<or> \<not> fcc_is data 8 ''AVI '' then Some None
           else do { r \<leftarrow> read_chunks data 0 (zero_msg fp);
             case r of None \<Rightarrow> Some None
             | Some (data, hdrl, m) \<Rightarrow> do {
                 m \<leftarrow> (if hdrl \<noteq> 0 then
                        let (bs, fp) = osal_fread 64 (seek_to hdrl (am_fp m))
                        in read_lists stk 0 List_msg data (m\<lparr>am_avi := into (am_avi m) bs, am_fp := fp\<rparr>)
                      else Some m);
                 let m = read_msg_init rbuf m
                 in Some (Some (m\<lparr>am_video := idx_start m (am_video m), am_audio := idx_start m (am_audio m)\<rparr>)) } })"

section \<open>The next frame\<close>

text \<open>
  \<open>avi_read_next_index\<close> and \<open>avi_read_next_audio_index\<close> are the same loop with another identifier; a video frame counts 1,
  an audio frame its size. The answer is offset, size and frame number.
\<close>

function next_index :: "u32 \<Rightarrow> (u32 \<Rightarrow> u32) \<Rightarrow> u32 \<Rightarrow> u32 \<Rightarrow> ffile \<Rightarrow> idx_reader \<Rightarrow> (u32 \<times> u32 \<times> u32) \<times> ffile \<times> idx_reader" where
  "next_index ident count movi frame_num fp r =
     (if ir_cache_remain r > 0 then
        let e = ir_idx1 r;
            r' = r\<lparr>ir_idx1 := e + 16, ir_cache_remain := ir_cache_remain r - 16\<rparr>;
            dwSize = u32_at (ir_buf r) (e + 12)
        in if \<not> (u32_at (ir_buf r) e = ident \<and> u32_at (ir_buf r) (e + 4) \<noteq> 0) then next_index ident count movi frame_num fp r'
           else let r' = r'\<lparr>ir_frame_num := ir_frame_num r + count dwSize\<rparr>
                in if frame_num \<ge> ir_frame_num r' then next_index ident count movi frame_num fp r'
                   else ((u32_at (ir_buf r) (e + 8) + movi + 8, dwSize, ir_frame_num r'), fp, r')
      else let read_size = (if ir_not_read_size r \<ge> 512 then 512 else ir_not_read_size r)
           in if read_size \<noteq> 0 then
                let (bs, fp) = osal_fread (unat read_size) (seek_to (ir_file_addr r) fp)
                in next_index ident count movi frame_num fp
                     (r\<lparr>ir_buf := into (ir_buf r) bs, ir_not_read_size := ir_not_read_size r - read_size,
                        ir_file_addr := ir_file_addr r + read_size, ir_cache_remain := int (unat read_size), ir_idx1 := 0\<rparr>)
              else ((0, 0, frame_num), fp, r))"
  by pat_completeness auto
termination
proof (relation "measures [\<lambda>(i, c, m, n, fp, r). unat (ir_not_read_size r), \<lambda>(i, c, m, n, fp, r). nat (ir_cache_remain r)]", goal_cases)
  case (4 ident count movi frame_num fp r read_size x bs fp')
  then have "read_size \<le> ir_not_read_size r" by auto
  moreover have "0 < unat read_size" using 4 by (simp add: unat_gt_0)
  ultimately have "unat (ir_not_read_size r - read_size) < unat (ir_not_read_size r)"
    by (simp add: unat_sub word_le_nat_alt)
  then show ?case by simp
qed auto

declare next_index.simps [simp del]

definition avi_read_next_index :: "avi_msg \<Rightarrow> u32 \<Rightarrow> (u32 \<times> u32 \<times> u32) \<times> avi_msg" where
  "avi_read_next_index m frame_num =
     (let (res, fp, r) = next_index (am_v_id m) (\<lambda>size. 1) (am_movi_addr m) frame_num (am_fp m) (am_video m)
      in (res, m\<lparr>am_fp := fp, am_video := r\<rparr>))"

definition avi_read_next_audio_index :: "avi_msg \<Rightarrow> u32 \<Rightarrow> (u32 \<times> u32 \<times> u32) \<times> avi_msg" where
  "avi_read_next_audio_index m frame_num =
     (let (res, fp, r) = next_index (am_a_id m) (\<lambda>size. size) (am_movi_addr m) frame_num (am_fp m) (am_audio m)
      in (res, m\<lparr>am_fp := fp, am_audio := r\<rparr>))"

section \<open>Jumping\<close>

fun parse_entries :: "avi_msg \<Rightarrow> u8 list \<Rightarrow> nat list \<Rightarrow> u32 \<Rightarrow> u32 \<times> u32 \<times> fast_index list \<Rightarrow> u32 \<times> u32 \<times> fast_index list" where
  "parse_entries m buf [] offset st = st"
| "parse_entries m buf (i # is) offset (vi, ai, fl) =
     parse_entries m buf is (offset + 16)
       (if u32_at buf (16 * i) = am_a_id m \<and> u32_at buf (16 * i + 4) \<noteq> 0 then (vi, ai + u32_at buf (16 * i + 12), fl)
        else if u32_at buf (16 * i) = am_v_id m then
          (vi + 1, ai, if vi mod 512 = 0 \<and> vi > 0 then fl @ [\<lparr>fi_avi_index = vi, fi_audio_index = ai, fi_offset = offset\<rparr>] else fl)
        else (vi, ai, fl))"

definition parse_idx1_continue :: "avi_msg \<Rightarrow> avi_read_msg \<Rightarrow> nat \<Rightarrow> avi_msg \<times> avi_read_msg" where
  "parse_idx1_continue m rm n =
     (if n mod 16 \<noteq> 0 then (m, rm)
      else let (vi, ai, fl) = parse_entries m (rm_buf rm) [0..<n div 16] (addr_offset rm) (avi_index rm, audio_index rm, am_fast_index m)
           in (m\<lparr>am_fast_index := fl\<rparr>, rm\<lparr>avi_index := vi, audio_index := ai\<rparr>))"

definition gen_fast_index_list :: "avi_msg \<Rightarrow> avi_msg" where
  "gen_fast_index_list m =
     (case am_read_msg m of None \<Rightarrow> m
      | Some rm \<Rightarrow>
        if remain_read_size rm = 0 then m\<lparr>am_read_msg := None\<rparr>
        else let read_size = (if remain_read_size rm \<ge> 512 then 512 else remain_read_size rm);
                 (bs, fp) = osal_fread (unat read_size) (seek_to (addr_offset rm) (am_fp m));
                 (m, rm) = parse_idx1_continue (m\<lparr>am_fp := fp\<rparr>) (rm\<lparr>rm_buf := into (rm_buf rm) bs\<rparr>) (unat read_size)
             in m\<lparr>am_read_msg := Some (rm\<lparr>addr_offset := addr_offset rm + read_size,
                                           remain_read_size := remain_read_size rm - read_size\<rparr>)\<rparr>)"

text \<open>The last entry that is not behind the target, and the loop stops at one that equals \<open>eq\<close>; with the entry the loop stops at.\<close>

fun find_fast :: "(fast_index \<Rightarrow> u32) \<Rightarrow> u32 \<Rightarrow> u32 \<Rightarrow> fast_index list \<Rightarrow> fast_index option \<Rightarrow> fast_index option \<times> fast_index option" where
  "find_fast key target eq [] last_index = (last_index, None)"
| "find_fast key target eq (x # xs) last_index =
     (if key x > target then (last_index, Some x)
      else if key x = eq then (Some x, Some x)
      else find_fast key target eq xs (Some x))"

definition idx_from :: "avi_msg \<Rightarrow> u32 \<Rightarrow> u32 \<Rightarrow> idx_reader \<Rightarrow> idx_reader" where
  "idx_from m fnum off r = r\<lparr>ir_frame_num := fnum, ir_cache_remain := 0,
     ir_not_read_size := am_idx1_size m - (off - am_idx1_addr m), ir_file_addr := off\<rparr>"

text \<open>
  Where the loop over the table has run off its end, the code reads \<open>list->audio_index\<close> of a NULL pointer; that is \<open>None\<close>, like the
  division by a rate of 0.
\<close>

definition locate_avi_index :: "avi_msg \<Rightarrow> u32 \<Rightarrow> avi_msg option" where
  "locate_avi_index m index =
     (if index = 0 then Some (m\<lparr>am_video := idx_start m (am_video m), am_audio := idx_start m (am_audio m)\<rparr>)
      else let m = (case fst (find_fast fi_avi_index index index (am_fast_index m) None) of
                      Some x \<Rightarrow> m\<lparr>am_video := idx_from m (fi_avi_index x) (fi_offset x) (am_video m)\<rparr>
                    | None \<Rightarrow> m\<lparr>am_video := idx_start m (am_video m), am_audio := idx_start m (am_audio m)\<rparr>)
           in if am_sample m = 0 then Some m
              else if am_fps m = 0 then None
              else let video_time = index * 1000 div am_fps m;
                       audio_offset = video_time * am_sample m * 2 div 1000
                   in case find_fast fi_audio_index audio_offset index (am_fast_index m) None of
                        (None, _) \<Rightarrow> Some (m\<lparr>am_audio := idx_start m (am_audio m)\<rparr>)
                      | (Some x, None) \<Rightarrow> None
                      | (Some x, Some l) \<Rightarrow> Some (m\<lparr>am_audio := idx_from m (fi_audio_index l) (fi_offset x) (am_audio m)\<rparr>))"

section \<open>Reading what lies in the file\<close>

lemma fread_placed:
  assumes "placed (fcontent f) (fpos f) bs" "fpos f + length bs \<le> fsize f" "length bs = n"
  shows "osal_fread n f = (bs, f\<lparr>fpos := fpos f + n\<rparr>)"
  using assms by (simp add: osal_fread_def Let_def placed_def min_absorb1)

lemma length_fread: "length (fst (osal_fread n f)) = min n (fsize f - fpos f)"
  by (simp add: osal_fread_def Let_def)

lemma u32_at_le32:
  assumes "take 4 (drop i bs) = enc_le32 v"
  shows "u32_at bs i = v"
proof -
  have "length (take 4 (drop i bs)) = 4" unfolding assms by (simp add: enc_defs)
  then have l: "i + 4 \<le> length bs" by simp
  then have "raw_get_unaligned_le32 bs i = Some (u32_at bs i)"
    by (simp add: raw_get_unaligned_le32_def u32_at_def mem_rd_def)
  moreover have "get_unaligned_le32 bs i = Some v" using le32.get_enc [OF l assms] .
  ultimately show ?thesis by (simp add: get_unaligned_le32_def)
qed

text \<open>Tags: what is compared with what.\<close>

definition fcc_match :: "u8 list \<Rightarrow> u8 list \<Rightarrow> bool" where
  "fcc_match xs ys \<longleftrightarrow> list_all2 (\<lambda>a b. a \<noteq> 0 \<and> case_eq a b) xs ys"

lemma fcc_is_match:
  assumes "take 4 (drop i p) = x" "length x = 4" "length tag = 4" "0 \<notin> set (str_bytes tag)"
  shows "fcc_is p i tag \<longleftrightarrow> fcc_match x (str_bytes tag)"
proof -
  obtain b0 b1 b2 b3 where b: "str_bytes tag = [b0, b1, b2, b3]"
    using assms(3) length_str_bytes [of tag] by (auto simp: length_Suc_conv numeral_eq_Suc simp del: length_str_bytes)
  obtain a0 a1 a2 a3 where a: "x = [a0, a1, a2, a3]" using assms(2) by (auto simp: length_Suc_conv numeral_eq_Suc)
  have l: "i + 4 \<le> length p" using arg_cong [OF assms(1), of length] assms(2) by simp
  have n: "p ! (i + k) = x ! k" if "k < 4" for k using arg_cong [OF assms(1), of "\<lambda>xs. xs ! k"] that l by simp
  have r: "mem_rd p i = Some a0" "mem_rd p (i + 1) = Some a1" "mem_rd p (i + 2) = Some a2" "mem_rd p (i + 3) = Some a3"
    using l n [of 0] n [of 1] n [of 2] n [of 3] unfolding mem_rd_def a by simp_all
  have z: "b0 \<noteq> 0" "b1 \<noteq> 0" "b2 \<noteq> 0" "b3 \<noteq> 0" using assms(4) unfolding b by auto
  have s: "strncasecmp_loop p i [b0, b1, b2, b3, 0] 0 4 4 = Some 4"
    "strncasecmp_loop p i [b0, b1, b2, b3, 0] 0 4 3 = Some (if a3 \<noteq> 0 \<and> case_eq a3 b3 then 4 else 3)"
    by (subst strncasecmp_loop_step; use r z in \<open>simp add: mem_rd_def [of "[b0, b1, b2, b3, 0]"] strncasecmp_loop_step [of _ _ _ _ 4 4]\<close>)+
  have s2: "strncasecmp_loop p i [b0, b1, b2, b3, 0] 0 4 2
      = (if a2 \<noteq> 0 \<and> case_eq a2 b2 then Some (if a3 \<noteq> 0 \<and> case_eq a3 b3 then 4 else 3) else Some 2)"
    using r z s(2) by (subst strncasecmp_loop_step) (simp add: mem_rd_def [of "[b0, b1, b2, b3, 0]"])
  have s1: "strncasecmp_loop p i [b0, b1, b2, b3, 0] 0 4 1
      = (if a1 \<noteq> 0 \<and> case_eq a1 b1 then strncasecmp_loop p i [b0, b1, b2, b3, 0] 0 4 2 else Some 1)"
    using r z by (subst strncasecmp_loop_step) (simp add: mem_rd_def [of "[b0, b1, b2, b3, 0]"] numeral_2_eq_2)
  have s0: "strncasecmp_loop p i [b0, b1, b2, b3, 0] 0 4 0
      = (if a0 \<noteq> 0 \<and> case_eq a0 b0 then strncasecmp_loop p i [b0, b1, b2, b3, 0] 0 4 1 else Some 0)"
    using r z by (subst strncasecmp_loop_step) (simp add: mem_rd_def [of "[b0, b1, b2, b3, 0]"])
  show ?thesis unfolding fcc_is_def strncasecmp_def b a fcc_match_def
    using s0 s1 s2 by (auto split: if_splits)
qed

lemma fcc_known:
  assumes "take 4 (drop i p) = str_bytes x" "length x = 4" "length tag = 4"
    and "0 \<notin> set (str_bytes tag)" "fcc_match (str_bytes x) (str_bytes tag) = r"
  shows "fcc_is p i tag = r"
  using fcc_is_match [OF assms(1) _ assms(3, 4)] assms(2, 5) by simp

end
