(* ===== verification/AviOpen.thy ===== *)
theory AviOpen
  imports AviSession AviRead
begin

text \<open>
  The reader of \<open>AviRead\<close> on a file that plays (\<open>avi_playable\<close>, what the muxer of \<open>AviMux\<close> leaves): it opens it, and the entries of the
  index come one by one.
\<close>

unbundle bit_operations_syntax

section \<open>Steps of the reader\<close>

text \<open>Numbers below \<open>2 ^ 32\<close> as words, and an open file at a position.\<close>

abbreviation w32 :: "nat \<Rightarrow> u32" where "w32 n \<equiv> word_of_nat n"

abbreviation at_pos :: "ffile \<Rightarrow> nat \<Rightarrow> ffile" where "at_pos fp x \<equiv> fp\<lparr>fpos := x\<rparr>"

lemma unat_w32: "n < 2 ^ 32 \<Longrightarrow> unat (w32 n) = n"
  by (simp add: unat_of_nat take_bit_nat_eq_self)

lemma even_round:
  assumes "even n" "n < 2 ^ 32"
  shows "(w32 n + 1) AND NOT 1 = w32 n"
proof -
  obtain k where "n = 2 * k" using assms(1) by blast
  then have "w32 n = 2 * w32 k" by simp
  then have e: "even (w32 n)" by (metis dvd_triv_left)
  then have "w32 n + 1 = w32 n OR 1" by (simp add: or_one_eq)
  then show ?thesis using e by (auto intro!: bit_word_eqI simp: bit_simps) 
qed

text \<open>A file that is only read.\<close>

definition ro :: "ffile \<Rightarrow> bool" where
  "ro fp \<longleftrightarrow> \<not> fwritable fp \<and> fsize fp < 2 ^ 32"

lemma seek_at: "ro fp \<Longrightarrow> off \<le> fsize fp \<Longrightarrow> seek_to (w32 off) (at_pos fp x) = at_pos fp off"
  by (simp add: seek_to_def osal_fseek_def ro_def unat_w32 min_absorb1)

lemma tell_at [simp]: "tell32 (at_pos fp x) = w32 x"
  by (simp add: tell32_def osal_ftell_def)

lemma read_at: "placed (fcontent fp) x bs \<Longrightarrow> x + length bs \<le> fsize fp \<Longrightarrow> length bs = n \<Longrightarrow> osal_fread n (at_pos fp x) = (bs, at_pos fp (x + n))"
  using fread_placed [of "at_pos fp x" bs n] by simp

lemma take_into: "i + n \<le> length bs \<Longrightarrow> take n (drop i (into buf bs)) = take n (drop i bs)"
  by (simp add: into_def)

lemma take_fits:
  assumes "take n (drop i bs) = x" "length x = n" "0 < n"
  shows "i + n \<le> length bs"
  using arg_cong [OF assms(1), of length] assms(2, 3) by (auto simp: min_def split: if_splits)

lemma u32_into: "take 4 (drop i bs) = le32 v \<Longrightarrow> u32_at (into buf bs) i = w32 v"
proof -
  assume a: "take 4 (drop i bs) = le32 v"
  then have "i + 4 \<le> length bs" using take_fits [OF a] by simp
  then show ?thesis using a by (intro u32_at_le32) (simp add: take_into le32_def)
qed

lemma u16_into:
  assumes "take 2 (drop i bs) = le16 v"
  shows "u16_at (into buf bs) i = word_of_nat v"
proof -
  have l: "i + 2 \<le> length bs" using take_fits [OF assms] by simp
  have "take 2 (drop i (into buf bs)) = enc_le16 (word_of_nat v)" using assms l by (simp add: take_into le16_def)
  moreover have "i + 2 \<le> length (into buf bs)" using l by (simp add: into_def)
  ultimately have "get_unaligned_le16 (into buf bs) i = Some (word_of_nat v)" by (intro le16.get_enc)
  then show ?thesis using l
    by (simp add: get_unaligned_le16_def raw_get_unaligned_le16_def u16_at_def mem_rd_def into_def)
qed

text \<open>Which tags are equal.\<close>

lemma fcc_into:
  assumes "take 4 (drop i bs) = str_bytes x" "length x = 4" "length tag = 4"
    and "0 \<notin> set (str_bytes tag)" "fcc_match (str_bytes x) (str_bytes tag) = r"
  shows "fcc_is (into buf bs) i tag = r"
proof -
  have "i + 4 \<le> length bs" using take_fits [OF assms(1)] assms(2) by simp
  then show ?thesis using assms by (intro fcc_known [of i _ x]) (simp_all add: take_into)
qed

lemmas tag_defs = fcc_match_def str_bytes_def case_eq_def

lemma fcc_table:
  "fcc_match (str_bytes ''LIST'') (str_bytes ''LIST'')"
  "\<not> fcc_match (str_bytes ''JUNK'') (str_bytes ''LIST'')" "fcc_match (str_bytes ''JUNK'') (str_bytes ''JUNK'')"
  "\<not> fcc_match (str_bytes ''idx1'') (str_bytes ''LIST'')" "\<not> fcc_match (str_bytes ''idx1'') (str_bytes ''JUNK'')"
  "fcc_match (str_bytes ''idx1'') (str_bytes ''idx1'')"
  "fcc_match (str_bytes ''hdrl'') (str_bytes ''hdrl'')"
  "\<not> fcc_match (str_bytes ''movi'') (str_bytes ''hdrl'')" "\<not> fcc_match (str_bytes ''movi'') (str_bytes ''INFO'')"
  "fcc_match (str_bytes ''movi'') (str_bytes ''movi'')" "\<not> fcc_match (str_bytes ''movi'') (str_bytes ''strl'')"
  "fcc_match (str_bytes ''strl'') (str_bytes ''strl'')" "fcc_match (str_bytes ''strh'') (str_bytes ''strh'')"
  "\<not> fcc_match (str_bytes ''strf'') (str_bytes ''strh'')" "fcc_match (str_bytes ''strf'') (str_bytes ''strf'')"
  "fcc_match (str_bytes ''vids'') (str_bytes ''vids'')" "\<not> fcc_match (str_bytes ''auds'') (str_bytes ''vids'')"
  "fcc_match (str_bytes ''auds'') (str_bytes ''auds'')"
  "fcc_match (str_bytes ''RIFF'') (str_bytes ''RIFF'')" "fcc_match (str_bytes ''AVI '') (str_bytes ''AVI '')"
  by (code_simp)+

text \<open>The chunks of a file, one by one.\<close>

lemma chunk_step:
  assumes "am_fp m = at_pos fp x" "placed (fcontent fp) x (str_bytes tag @ le32 n)" "length tag = 4" "x + 8 \<le> fsize fp"
  shows "osal_fread 8 (am_fp m) = (str_bytes tag @ le32 n, at_pos fp (x + 8))"
  unfolding assms(1) by (rule read_at [OF assms(2)]) (use assms(3, 4) in simp_all)

lemma chunk_size:
  assumes "even n" "n < 2 ^ 32" "length tag = 4"
  shows "(u32_at (into data (str_bytes tag @ le32 n)) 4 + 1) AND NOT 1 = w32 n"
proof -
  have "u32_at (into data (str_bytes tag @ le32 n)) 4 = w32 n" by (rule u32_into) (use assms(3) in simp)
  then show ?thesis using even_round [OF assms(1, 2)] by simp
qed

lemma tag_into:
  assumes "length x = 4" "length tag = 4" "0 \<notin> set (str_bytes tag)"
  shows "fcc_is (into buf (str_bytes x @ bs)) 0 tag = fcc_match (str_bytes x) (str_bytes tag)"
    "fcc_is (into buf (str_bytes x)) 0 tag = fcc_match (str_bytes x) (str_bytes tag)"
  by (rule fcc_into; use assms in simp)+

lemma tags_clean:
  "0 \<notin> set (str_bytes ''LIST'')" "0 \<notin> set (str_bytes ''JUNK'')" "0 \<notin> set (str_bytes ''idx1'')" "0 \<notin> set (str_bytes ''hdrl'')"
  "0 \<notin> set (str_bytes ''INFO'')" "0 \<notin> set (str_bytes ''movi'')" "0 \<notin> set (str_bytes ''strl'')" "0 \<notin> set (str_bytes ''strh'')"
  "0 \<notin> set (str_bytes ''strf'')" "0 \<notin> set (str_bytes ''vids'')" "0 \<notin> set (str_bytes ''auds'')" "0 \<notin> set (str_bytes ''RIFF'')"
  "0 \<notin> set (str_bytes ''AVI '')"
  by (code_simp)+

lemmas tag_simps = tag_into tags_clean fcc_table

lemma chunk_end:
  assumes "am_fp m = at_pos fp (fsize fp)"
  shows "\<exists>data'. read_chunks data h m = Some (Some (data', h, m))"
proof -
  have "osal_fread 8 (am_fp m) = ([], am_fp m)" unfolding assms by (simp add: osal_fread_def)
  then show ?thesis by (simp add: read_chunks.simps [of data])
qed

lemma chunk_junk:
  assumes "ro fp" "am_fp m = at_pos fp x" "placed (fcontent fp) x (str_bytes ''JUNK'' @ le32 n)" "even n" "x + 8 + n \<le> fsize fp"
  shows "\<exists>data'. read_chunks data h m = read_chunks data' h (m\<lparr>am_fp := at_pos fp (x + 8 + n)\<rparr>)"
proof -
  have n: "n < 2 ^ 32" using assms(1, 5) by (simp add: ro_def)
  have sz: "(u32_at (into data (str_bytes ''JUNK'' @ le32 n)) 4 + 1) AND NOT 1 = w32 n"
    by (rule chunk_size [OF assms(4) n]) simp
  have r: "osal_fread 8 (am_fp m) = (str_bytes ''JUNK'' @ le32 n, at_pos fp (x + 8))"
    using chunk_step [OF assms(2, 3)] assms(5) by simp
  have k: "seek_to (w32 n + tell32 (at_pos fp (x + 8))) (at_pos fp (x + 8)) = at_pos fp (x + 8 + n)"
    using seek_at [OF assms(1, 5), of "x + 8"] by (simp add: add.commute)
  show ?thesis
    unfolding read_chunks.simps [of data] r Let_def prod.case sz
    using k by (auto simp: tag_simps)
qed

lemma chunk_idx1:
  assumes "ro fp" "am_fp m = at_pos fp x" "placed (fcontent fp) x (str_bytes ''idx1'' @ le32 n)" "even n" "x + 8 + n \<le> fsize fp"
  shows "\<exists>data'. read_chunks data h m
    = read_chunks data' h (m\<lparr>am_fp := at_pos fp (x + 8 + n), am_idx1_addr := w32 (x + 8), am_idx1_size := w32 n\<rparr>)"
proof -
  have n: "n < 2 ^ 32" using assms(1, 5) by (simp add: ro_def)
  have sz: "(u32_at (into data (str_bytes ''idx1'' @ le32 n)) 4 + 1) AND NOT 1 = w32 n"
    by (rule chunk_size [OF assms(4) n]) simp
  have r: "osal_fread 8 (am_fp m) = (str_bytes ''idx1'' @ le32 n, at_pos fp (x + 8))"
    using chunk_step [OF assms(2, 3)] assms(5) by simp
  have k: "seek_to (w32 n + tell32 (at_pos fp (x + 8))) (at_pos fp (x + 8)) = at_pos fp (x + 8 + n)"
    using seek_at [OF assms(1, 5), of "x + 8"] by (simp add: add.commute)
  show ?thesis
    unfolding read_chunks.simps [of data] r Let_def prod.case sz
    using k by (auto simp: tag_simps)
qed

lemma chunk_list:
  assumes "ro fp" "am_fp m = at_pos fp x" "placed (fcontent fp) x (str_bytes ''LIST'' @ le32 n @ str_bytes t)" "length t = 4"
    and "even n" "4 \<le> n" "x + 8 + n \<le> fsize fp"
  shows "osal_fread 8 (am_fp m) = (str_bytes ''LIST'' @ le32 n, at_pos fp (x + 8))"
    "osal_fread 4 (at_pos fp (x + 8)) = (str_bytes t, at_pos fp (x + 12))"
    "seek_to ((w32 n - 4) + tell32 (at_pos fp (x + 12))) (at_pos fp (x + 12)) = at_pos fp (x + 8 + n)"
proof -
  have p: "placed (fcontent fp) x (str_bytes ''LIST'' @ le32 n)" "placed (fcontent fp) (x + 8) (str_bytes t)"
    using assms(3) unfolding placed_append by (simp_all add: add.commute)
  show "osal_fread 8 (am_fp m) = (str_bytes ''LIST'' @ le32 n, at_pos fp (x + 8))"
    using chunk_step [OF assms(2) p(1)] assms(7) by simp
  show "osal_fread 4 (at_pos fp (x + 8)) = (str_bytes t, at_pos fp (x + 12))"
    using read_at [OF p(2), of 4] assms(4, 6, 7) by simp
  have "(w32 n - 4) + w32 (x + 12) = w32 n + w32 x + 8" by simp
  also have "\<dots> = w32 (x + 8 + n)" by simp
  finally show "seek_to ((w32 n - 4) + tell32 (at_pos fp (x + 12))) (at_pos fp (x + 12)) = at_pos fp (x + 8 + n)"
    using seek_at [OF assms(1, 7), of "x + 12"] by (simp add: ac_simps)
qed

lemma chunk_hdrl:
  assumes "ro fp" "am_fp m = at_pos fp x" "placed (fcontent fp) x (str_bytes ''LIST'' @ le32 n @ str_bytes ''hdrl'')"
    and "even n" "4 \<le> n" "x + 8 + n \<le> fsize fp"
  shows "\<exists>data'. read_chunks data h m = read_chunks data' (w32 (x + 12)) (m\<lparr>am_fp := at_pos fp (x + 8 + n)\<rparr>)"
proof -
  have n: "n < 2 ^ 32" using assms(1, 6) by (simp add: ro_def)
  have sz: "(u32_at (into data (str_bytes ''LIST'' @ le32 n)) 4 + 1) AND NOT 1 = w32 n"
    by (rule chunk_size [OF assms(4) n]) simp
  have t: "length ''hdrl'' = 4" by simp
  note r = chunk_list [OF assms(1-3) t assms(4-6)]
  show ?thesis
    unfolding read_chunks.simps [of data] r(1) Let_def prod.case sz
    using r(2, 3) by (auto simp: tag_simps)
qed

lemma chunk_movi:
  assumes "ro fp" "am_fp m = at_pos fp x" "placed (fcontent fp) x (str_bytes ''LIST'' @ le32 n @ str_bytes ''movi'')"
    and "even n" "4 \<le> n" "x + 8 + n \<le> fsize fp"
  shows "\<exists>data'. read_chunks data h m
    = read_chunks data' h (m\<lparr>am_fp := at_pos fp (x + 8 + n), am_movi_addr := w32 (x + 8)\<rparr>)"
proof -
  have n: "n < 2 ^ 32" using assms(1, 6) by (simp add: ro_def)
  have sz: "(u32_at (into data (str_bytes ''LIST'' @ le32 n)) 4 + 1) AND NOT 1 = w32 n"
    by (rule chunk_size [OF assms(4) n]) simp
  have t: "length ''movi'' = 4" by simp
  note r = chunk_list [OF assms(1-3) t assms(4-6)]
  show ?thesis
    unfolding read_chunks.simps [of data] r(1) Let_def prod.case sz
    using r(2, 3) by (auto simp: tag_simps add.commute)
qed

text \<open>The stream lists.\<close>

lemma length_headers:
  "length (fcc_type h) = 4 \<Longrightarrow> length (fcc_codec h) = 4 \<Longrightarrow> length (STREAM_HEADER_bytes h n) = 56"
  "length (WAVE_FORMAT_bytes w) = 18" "length (compression b) = 4 \<Longrightarrow> length (BITMAP_FORMAT_bytes b) = 40"
  by (simp_all add: STREAM_HEADER_bytes_def WAVE_FORMAT_bytes_def BITMAP_FORMAT_bytes_def)

lemma strh_law:
  assumes "ro fp" "am_fp m = at_pos fp x" "placed (fcontent fp) x (str_bytes ''strh'' @ le32 strhdr_size @ sh)" "length sh = 56"
    and "x + 64 \<le> fsize fp"
  shows "\<exists>str' stream'. read_strh_strf str stream wav audio m
    = do { (audio, m) \<leftarrow> stream_header (into stream sh) audio m;
           read_strh_strf str' stream' wav audio (m\<lparr>am_fp := at_pos fp (x + 64)\<rparr>) }"
proof -
  have p: "placed (fcontent fp) x (str_bytes ''strh'' @ le32 strhdr_size)" "placed (fcontent fp) (x + 8) sh"
    using assms(3) unfolding placed_append by (simp_all add: add.commute)
  have r: "osal_fread 8 (am_fp m) = (str_bytes ''strh'' @ le32 strhdr_size, at_pos fp (x + 8))"
    using chunk_step [OF assms(2) p(1)] assms(5) by simp
  have r2: "osal_fread 56 (at_pos fp (x + 8)) = (sh, at_pos fp (x + 64))"
    using read_at [OF p(2), of 56] assms(4, 5) by simp
  have u: "u32_at (into str (str_bytes ''strh'' @ le32 strhdr_size)) 4 = w32 strhdr_size" by (rule u32_into) simp
  have k: "seek_to (tell32 (at_pos fp (x + 8)) + w32 strhdr_size) (at_pos fp (x + 64)) = at_pos fp (x + 64)"
    using seek_at [OF assms(1, 5), of "x + 64"] by (simp add: add.commute)
  have t: "fcc_is (into str (str_bytes ''strh'' @ le32 strhdr_size)) 0 ''strh''" by (simp add: tag_simps)
  show ?thesis unfolding read_strh_strf.simps [of str] r Let_def prod.case r2 u k using t by auto
qed

lemma strf_video_law:
  assumes "ro fp" "am_fp m = at_pos fp x" "placed (fcontent fp) x (str_bytes ''strf'' @ le32 n)" "x + 8 + n \<le> fsize fp"
  shows "read_strh_strf str stream wav False m = Some (m\<lparr>am_fp := at_pos fp (x + 8 + n)\<rparr>)"
proof -
  have r: "osal_fread 8 (am_fp m) = (str_bytes ''strf'' @ le32 n, at_pos fp (x + 8))"
    using chunk_step [OF assms(2, 3)] assms(4) by simp
  have u: "u32_at (into str (str_bytes ''strf'' @ le32 n)) 4 = w32 n" by (rule u32_into) simp
  have k: "seek_to (tell32 (at_pos fp (x + 8)) + w32 n) (at_pos fp (x + 8)) = at_pos fp (x + 8 + n)"
    using seek_at [OF assms(1, 4), of "x + 8"] by simp
  have t: "\<not> fcc_is (into str (str_bytes ''strf'' @ le32 n)) 0 ''strh''" "fcc_is (into str (str_bytes ''strf'' @ le32 n)) 0 ''strf''"
    by (simp_all add: tag_simps)
  show ?thesis unfolding read_strh_strf.simps [of str] r Let_def prod.case u k using t by simp
qed

lemma strf_audio_law:
  assumes "ro fp" "am_fp m = at_pos fp x" "placed (fcontent fp) x (str_bytes ''strf'' @ le32 strfmt1_size @ WAVE_FORMAT_bytes w)"
    and "x + 28 \<le> fsize fp"
  shows "read_strh_strf str stream wav True m
    = Some (m\<lparr>am_fp := at_pos fp (x + 26), am_sample := if (word_of_nat (format_tag w) :: u16) = 1 then w32 (sample_per_sec w) else 0\<rparr>)"
proof -
  have p: "placed (fcontent fp) x (str_bytes ''strf'' @ le32 strfmt1_size)" "placed (fcontent fp) (x + 8) (WAVE_FORMAT_bytes w)"
    using assms(3) unfolding placed_append by (simp_all add: add.commute)
  have r: "osal_fread 8 (am_fp m) = (str_bytes ''strf'' @ le32 strfmt1_size, at_pos fp (x + 8))"
    using chunk_step [OF assms(2) p(1)] assms(4) by simp
  define bs where "bs = bytes_at (fcontent fp) (x + 8) (18 + 2)"
  have bs: "bs = WAVE_FORMAT_bytes w @ bytes_at (fcontent fp) (x + 8 + 18) 2"
    unfolding bs_def bytes_at_add placed_bytes_at [OF p(2) length_headers(2) [symmetric]] ..
  have r2: "osal_fread 20 (at_pos fp (x + 8)) = (bs, at_pos fp (x + 28))"
    using assms(4) by (simp add: osal_fread_def Let_def bs_def min_absorb1)
  have v: "u16_at (into wav bs) 0 = word_of_nat (format_tag w)" "u32_at (into wav bs) 4 = w32 (sample_per_sec w)"
    by (rule u16_into, simp add: bs WAVE_FORMAT_bytes_def) (rule u32_into, simp add: bs WAVE_FORMAT_bytes_def)
  have u: "u32_at (into str (str_bytes ''strf'' @ le32 strfmt1_size)) 4 = w32 strfmt1_size" by (rule u32_into) simp
  have k: "seek_to (tell32 (at_pos fp (x + 8)) + w32 strfmt1_size) (at_pos fp (x + 28)) = at_pos fp (x + 26)"
    using seek_at [OF assms(1), of "x + 26" "x + 28"] assms(4) by (simp add: add.commute)
  have t: "\<not> fcc_is (into str (str_bytes ''strf'' @ le32 strfmt1_size)) 0 ''strh''"
    "fcc_is (into str (str_bytes ''strf'' @ le32 strfmt1_size)) 0 ''strf''"
    by (simp_all add: tag_simps)
  show ?thesis unfolding read_strh_strf.simps [of str] r Let_def prod.case u r2 k v using t by simp
qed

lemma stream_header_vids:
  assumes "fcc_type h = str_bytes ''vids''" "length (fcc_codec h) = 4" "scale h = 1"
  shows "stream_header (into stream (STREAM_HEADER_bytes h n)) audio m
    = Some (False, m\<lparr>am_v_id := (if am_offset m = 0 then 0x63643030 else 0x63643130), am_fps := w32 (rate h),
        am_offset := am_offset m + 1\<rparr>)"
proof -
  have t: "fcc_is (into stream (STREAM_HEADER_bytes h n)) 0 ''vids''"
    using fcc_into [of 0 "STREAM_HEADER_bytes h n" "''vids''" "''vids''" True stream] assms(1)
    by (simp add: STREAM_HEADER_bytes_def tag_simps)
  have "u32_at (into stream (STREAM_HEADER_bytes h n)) 20 = w32 1" "u32_at (into stream (STREAM_HEADER_bytes h n)) 24 = w32 (rate h)"
    by (rule u32_into; use assms in \<open>simp add: STREAM_HEADER_bytes_def\<close>)+
  then show ?thesis using t by (simp add: stream_header_def Let_def)
qed

lemma stream_header_auds:
  assumes "fcc_type h = str_bytes ''auds''"
  shows "stream_header (into stream (STREAM_HEADER_bytes h n)) audio m
    = Some (True, m\<lparr>am_a_id := (if am_offset m = 0 then 0x62773030 else 0x62773130), am_offset := am_offset m + 1\<rparr>)"
proof -
  have "fcc_is (into stream (STREAM_HEADER_bytes h n)) 0 ''auds''" "\<not> fcc_is (into stream (STREAM_HEADER_bytes h n)) 0 ''vids''"
    using fcc_into [of 0 "STREAM_HEADER_bytes h n" "''auds''" "''auds''" True stream]
      fcc_into [of 0 "STREAM_HEADER_bytes h n" "''auds''" "''vids''" False stream] assms
    by (simp_all add: STREAM_HEADER_bytes_def tag_simps)
  then show ?thesis by (simp add: stream_header_def)
qed

lemma strl_head:
  assumes "ro fp" "am_fp m = at_pos fp x" "placed (fcontent fp) x (str_bytes ''LIST'' @ le32 n @ str_bytes t)" "length t = 4"
    and "x + 12 \<le> fsize fp"
  shows "osal_fread 8 (am_fp m) = (str_bytes ''LIST'' @ le32 n, at_pos fp (x + 8))"
    "osal_fread 4 (at_pos fp (x + 8)) = (str_bytes t, at_pos fp (x + 12))"
    "fcc_is (into lm (str_bytes ''LIST'' @ le32 n)) 0 ''LIST''" "u32_at (into lm (str_bytes ''LIST'' @ le32 n)) 4 = w32 n"
proof -
  have p: "placed (fcontent fp) x (str_bytes ''LIST'' @ le32 n)" "placed (fcontent fp) (x + 8) (str_bytes t)"
    using assms(3) unfolding placed_append by (simp_all add: add.commute)
  show "osal_fread 8 (am_fp m) = (str_bytes ''LIST'' @ le32 n, at_pos fp (x + 8))"
    using chunk_step [OF assms(2) p(1)] assms(5) by simp
  show "osal_fread 4 (at_pos fp (x + 8)) = (str_bytes t, at_pos fp (x + 12))"
    using read_at [OF p(2), of 4] assms(4, 5) by simp
  show "fcc_is (into lm (str_bytes ''LIST'' @ le32 n)) 0 ''LIST''" by (simp add: tag_simps)
  show "u32_at (into lm (str_bytes ''LIST'' @ le32 n)) 4 = w32 n" by (rule u32_into) simp
qed

lemma lists_end:
  assumes "ro fp" "am_fp m = at_pos fp x" "placed (fcontent fp) x (str_bytes ''LIST'' @ le32 n @ str_bytes ''movi'')"
    and "x + 12 \<le> fsize fp"
  shows "\<exists>y. read_lists stk k lm data m = Some (m\<lparr>am_fp := at_pos fp y\<rparr>)"
proof -
  have t: "length ''movi'' = 4" by simp
  note r = strl_head [OF assms(1-3) t assms(4)]
  have "\<not> fcc_is (into data (str_bytes ''movi'')) 0 ''strl''" by (simp add: tag_simps)
  then have "read_lists stk k lm data m = Some (m\<lparr>am_fp := at_pos fp (x + 12)\<rparr>)"
    unfolding read_lists.simps [of stk k] r(1) Let_def prod.case r(2) using r(3) by simp
  then show ?thesis by blast
qed

text \<open>A stream list of which \<open>read_strh_strf\<close> does what is known.\<close>

lemma lists_step:
  assumes "ro fp" "am_fp m = at_pos fp x" "placed (fcontent fp) x (str_bytes ''LIST'' @ le32 n @ str_bytes ''strl'')"
    and "x + 8 + n \<le> fsize fp" "12 \<le> 8 + n"
    and "\<And>str stream wav. read_strh_strf str stream wav False (m\<lparr>am_fp := at_pos fp (x + 12)\<rparr>) = Some (m'\<lparr>am_fp := at_pos fp y\<rparr>)"
  shows "\<exists>lm' data'. read_lists stk k lm data m = read_lists stk (k + 1) lm' data' (m'\<lparr>am_fp := at_pos fp (x + 8 + n)\<rparr>)"
proof -
  have t: "length ''strl'' = 4" by simp
  have h: "x + 12 \<le> fsize fp" using assms(4, 5) by linarith
  note r = strl_head [OF assms(1-3) t h]
  have k: "seek_to (tell32 (at_pos fp (x + 8)) + w32 n) (at_pos fp y) = at_pos fp (x + 8 + n)"
    using seek_at [OF assms(1, 4), of y] by simp
  have d: "fcc_is (into data (str_bytes ''strl'')) 0 ''strl''" by (simp add: tag_simps)
  show ?thesis
    unfolding read_lists.simps [of stk k] r(1) Let_def prod.case r(2, 4) using r(3) d k assms(6)
    by (auto split: prod.splits)
qed

lemma strl_video_step:
  assumes "ro fp" "am_fp m = at_pos fp x" "placed (fcontent fp) x (strl_video a n)" "hdr_wf a" "x + 124 \<le> fsize fp"
    and "fcc_type (strhdr_video a) = str_bytes ''vids''" "scale (strhdr_video a) = 1"
  shows "\<exists>lm' data'. read_lists stk k lm data m = read_lists stk (k + 1) lm' data'
    (m\<lparr>am_v_id := (if am_offset m = 0 then 0x63643030 else 0x63643130), am_fps := w32 (rate (strhdr_video a)),
       am_offset := am_offset m + 1, am_fp := at_pos fp (x + 124)\<rparr>)"
proof -
  let ?sh = "STREAM_HEADER_bytes (strhdr_video a) n"
  have l: "length ?sh = 56" "length (fcc_codec (strhdr_video a)) = 4" using assms(4) by (auto simp: hdr_wf_def intro!: length_headers)
  have p: "placed (fcontent fp) x (str_bytes ''LIST'' @ le32 slist2_size @ str_bytes ''strl'')"
    "placed (fcontent fp) (x + 12) (str_bytes ''strh'' @ le32 strhdr_size @ ?sh)"
    "placed (fcontent fp) (x + 76) (str_bytes ''strf'' @ le32 strfmt2_size)"
    using assms(3) l(1) unfolding strl_video_def placed_append by (simp_all add: add.commute)
  let ?m = "m\<lparr>am_v_id := (if am_offset m = 0 then 0x63643030 else 0x63643130), am_fps := w32 (rate (strhdr_video a)),
       am_offset := am_offset m + 1\<rparr>"
  have "read_strh_strf str stream wav False (m\<lparr>am_fp := at_pos fp (x + 12)\<rparr>) = Some (?m\<lparr>am_fp := at_pos fp (x + 124)\<rparr>)" for str stream wav
  proof -
    obtain str' stream' where "read_strh_strf str stream wav False (m\<lparr>am_fp := at_pos fp (x + 12)\<rparr>)
        = do { (audio, m) \<leftarrow> stream_header (into stream ?sh) False (m\<lparr>am_fp := at_pos fp (x + 12)\<rparr>);
               read_strh_strf str' stream' wav audio (m\<lparr>am_fp := at_pos fp (x + 12 + 64)\<rparr>) }"
      using strh_law [OF assms(1) _ p(2) l(1), where m = "m\<lparr>am_fp := at_pos fp (x + 12)\<rparr>" and str = str and stream = stream
          and wav = wav and audio = False] assms(5) by auto
    then show ?thesis
      using stream_header_vids [OF assms(6) l(2) assms(7)] strf_video_law [OF assms(1) _ p(3), of "?m\<lparr>am_fp := at_pos fp (x + 76)\<rparr>"] assms(5)
      by (simp split del: if_split add: add.commute [of x])
  qed
  then show ?thesis using lists_step [OF assms(1, 2) p(1), where m' = ?m and y = "x + 124" and stk = stk and k = k and lm = lm and data = data] assms(5)
    by (simp split del: if_split add: slist2_size_def add.commute [of x])
qed

lemma strl_audio_step:
  assumes "ro fp" "am_fp m = at_pos fp x" "placed (fcontent fp) x (strl_audio a n)" "hdr_wf a" "x + 104 \<le> fsize fp"
    and "fcc_type (strhdr_audio a) = str_bytes ''auds''" "format_tag (strfmt_audio a) = 1"
  shows "\<exists>lm' data'. read_lists stk k lm data m = read_lists stk (k + 1) lm' data'
    (m\<lparr>am_a_id := (if am_offset m = 0 then 0x62773030 else 0x62773130), am_offset := am_offset m + 1,
       am_sample := w32 (sample_per_sec (strfmt_audio a)), am_fp := at_pos fp (x + 102)\<rparr>)"
proof -
  let ?sh = "STREAM_HEADER_bytes (strhdr_audio a) n"
  have l: "length ?sh = 56" using assms(4) by (auto simp: hdr_wf_def intro!: length_headers)
  have p: "placed (fcontent fp) x (str_bytes ''LIST'' @ le32 slist1_size @ str_bytes ''strl'')"
    "placed (fcontent fp) (x + 12) (str_bytes ''strh'' @ le32 strhdr_size @ ?sh)"
    "placed (fcontent fp) (x + 76) (str_bytes ''strf'' @ le32 strfmt1_size @ WAVE_FORMAT_bytes (strfmt_audio a))"
    using assms(3) l unfolding strl_audio_def placed_append by (simp_all add: add.commute)
  let ?m = "m\<lparr>am_a_id := (if am_offset m = 0 then 0x62773030 else 0x62773130), am_offset := am_offset m + 1,
       am_sample := w32 (sample_per_sec (strfmt_audio a))\<rparr>"
  have "read_strh_strf str stream wav False (m\<lparr>am_fp := at_pos fp (x + 12)\<rparr>) = Some (?m\<lparr>am_fp := at_pos fp (x + 102)\<rparr>)" for str stream wav
  proof -
    obtain str' stream' where "read_strh_strf str stream wav False (m\<lparr>am_fp := at_pos fp (x + 12)\<rparr>)
        = do { (audio, m) \<leftarrow> stream_header (into stream ?sh) False (m\<lparr>am_fp := at_pos fp (x + 12)\<rparr>);
               read_strh_strf str' stream' wav audio (m\<lparr>am_fp := at_pos fp (x + 12 + 64)\<rparr>) }"
      using strh_law [OF assms(1) _ p(2) l, where m = "m\<lparr>am_fp := at_pos fp (x + 12)\<rparr>" and str = str and stream = stream
          and wav = wav and audio = False] assms(5) by auto
    then show ?thesis
      using stream_header_auds [OF assms(6)] assms(5, 7)
        strf_audio_law [OF assms(1) _ p(3), of "m\<lparr>am_a_id := (if am_offset m = 0 then 0x62773030 else 0x62773130),
          am_offset := am_offset m + 1, am_fp := at_pos fp (x + 76)\<rparr>"]
      by (simp split del: if_split add: add.commute [of x])
  qed
  then show ?thesis using lists_step [OF assms(1, 2) p(1), where m' = ?m and y = "x + 102" and stk = stk and k = k and lm = lm and data = data] assms(5)
    by (simp split del: if_split add: slist1_size_def add.commute [of x])
qed

section \<open>Opening\<close>

text \<open>The streams as \<open>avimuxer_init_with_file\<close> describes them.\<close>

definition streams_ok :: "'s avi_file \<Rightarrow> bool" where
  "streams_ok a \<longleftrightarrow> fcc_type (strhdr_video a) = str_bytes ''vids'' \<and> scale (strhdr_video a) = 1
     \<and> (audio_enable a \<longrightarrow> fcc_type (strhdr_audio a) = str_bytes ''auds'' \<and> format_tag (strfmt_audio a) = 1
       \<and> sample_per_sec (strfmt_audio a) = 8000)"

lemma parts_placed:
  assumes "placed V 0 (hdr_image a r t al vl m)" "hdr_wf a"
  shows "placed V 0 (str_bytes ''RIFF'' @ le32 r @ str_bytes ''AVI '')"
    "placed V 12 (str_bytes ''LIST'' @ le32 (hlist_size a) @ str_bytes ''hdrl'')"
    "placed V 24 (str_bytes ''avih'' @ le32 avih_size @ AVI_HEADER_bytes (avi_header a) t)"
    "audio_enable a \<Longrightarrow> placed V 88 (strl_audio a al)"
    "placed V (if audio_enable a then 190 else 88) (strl_video a vl)"
    "placed V (if audio_enable a then 314 else 212) (str_bytes ''LIST'' @ le32 m @ str_bytes ''movi'')"
proof -
  have l: "length (riff_head a r t) = 88" "length (strl_audio a al) = 102" "length (strl_video a vl) = 124"
    using header_lengths assms(2) by auto
  have p: "placed V 0 (riff_head a r t)" "audio_enable a \<Longrightarrow> placed V 88 (strl_audio a al)"
    "placed V (if audio_enable a then 190 else 88) (strl_video a vl)"
    "placed V (if audio_enable a then 314 else 212) (movi_head m)"
    using assms(1) l by (auto simp: hdr_image_def placed_append split: if_splits)
  show "placed V 0 (str_bytes ''RIFF'' @ le32 r @ str_bytes ''AVI '')"
    "placed V 12 (str_bytes ''LIST'' @ le32 (hlist_size a) @ str_bytes ''hdrl'')"
    "placed V 24 (str_bytes ''avih'' @ le32 avih_size @ AVI_HEADER_bytes (avi_header a) t)"
    using p(1) by (simp_all add: riff_head_def placed_append)
  show "audio_enable a \<Longrightarrow> placed V 88 (strl_audio a al)" "placed V (if audio_enable a then 190 else 88) (strl_video a vl)"
    using p by auto
  show "placed V (if audio_enable a then 314 else 212) (str_bytes ''LIST'' @ le32 m @ str_bytes ''movi'')"
    using p(4) by (simp add: movi_head_def)
qed

lemma lists_law:
  assumes "ro fp" "placed (fcontent fp) 0 (hdr_image a r t al vl n)" "hdr_wf a" "streams_ok a" "am_fp m = at_pos fp 88"
    and "am_offset m = 0" "400 \<le> fsize fp"
  shows "\<exists>y. read_lists stk k lm data m = Some (m\<lparr>am_a_id := (if audio_enable a then 0x62773030 else am_a_id m),
    am_sample := (if audio_enable a then w32 (sample_per_sec (strfmt_audio a)) else am_sample m),
    am_v_id := (if audio_enable a then 0x63643130 else 0x63643030), am_fps := w32 (rate (strhdr_video a)),
    am_offset := (if audio_enable a then 2 else 1), am_fp := at_pos fp y\<rparr>)"
proof -
  note pl = parts_placed [OF assms(2, 3)]
  show ?thesis
  proof (cases "audio_enable a")
    case True
    obtain lm1 d1 where s1: "read_lists stk k lm data m = read_lists stk (k + 1) lm1 d1
        (m\<lparr>am_a_id := 0x62773030, am_offset := 1, am_sample := w32 (sample_per_sec (strfmt_audio a)), am_fp := at_pos fp 190\<rparr>)"
      using strl_audio_step [OF assms(1, 5) pl(4) [OF True] assms(3), of stk k lm data] assms(4, 6, 7) True by (auto simp: streams_ok_def)
    define m1 where "m1 = m\<lparr>am_a_id := 0x62773030, am_offset := 1, am_sample := w32 (sample_per_sec (strfmt_audio a)), am_fp := at_pos fp 190\<rparr>"
    have m1: "am_fp m1 = at_pos fp 190" "am_offset m1 = 1" by (simp_all add: m1_def)
    obtain lm2 d2 where s2: "read_lists stk (k + 1) lm1 d1 m1 = read_lists stk (k + 1 + 1) lm2 d2
        (m1\<lparr>am_v_id := 0x63643130, am_fps := w32 (rate (strhdr_video a)), am_offset := 2, am_fp := at_pos fp 314\<rparr>)"
      using strl_video_step [OF assms(1) m1(1) _ assms(3), of vl stk "k + 1" lm1 d1] pl(5) assms(4, 7) True m1(2)
      by (auto simp: streams_ok_def)
    obtain y where "read_lists stk (k + 1 + 1) lm2 d2
        (m1\<lparr>am_v_id := 0x63643130, am_fps := w32 (rate (strhdr_video a)), am_offset := 2, am_fp := at_pos fp 314\<rparr>)
        = Some (m1\<lparr>am_v_id := 0x63643130, am_fps := w32 (rate (strhdr_video a)), am_offset := 2, am_fp := at_pos fp y\<rparr>)"
      using lists_end [OF assms(1), where x = 314 and n = n and m = "m1\<lparr>am_v_id := 0x63643130, am_fps := w32 (rate (strhdr_video a)),
          am_offset := 2, am_fp := at_pos fp 314\<rparr>" and stk = stk and k = "k + 1 + 1" and lm = lm2 and data = d2] pl(6) True assms(7)
      by auto
    then show ?thesis using s1 s2 True unfolding m1_def [symmetric] by (auto simp: m1_def)
  next
    case False
    obtain lm1 d1 where s1: "read_lists stk k lm data m = read_lists stk (k + 1) lm1 d1
        (m\<lparr>am_v_id := 0x63643030, am_fps := w32 (rate (strhdr_video a)), am_offset := 1, am_fp := at_pos fp 212\<rparr>)"
      using strl_video_step [OF assms(1, 5) _ assms(3), of vl stk k lm data] pl(5) assms(4, 6, 7) False by (auto simp: streams_ok_def)
    obtain y where "read_lists stk (k + 1) lm1 d1
        (m\<lparr>am_v_id := 0x63643030, am_fps := w32 (rate (strhdr_video a)), am_offset := 1, am_fp := at_pos fp 212\<rparr>)
        = Some (m\<lparr>am_v_id := 0x63643030, am_fps := w32 (rate (strhdr_video a)), am_offset := 1, am_fp := at_pos fp y\<rparr>)"
      using lists_end [OF assms(1), where x = 212 and n = n and m = "m\<lparr>am_v_id := 0x63643030, am_fps := w32 (rate (strhdr_video a)),
          am_offset := 1, am_fp := at_pos fp 212\<rparr>" and stk = stk and k = "k + 1" and lm = lm1 and data = d1] pl(6) False assms(7)
      by auto
    then show ?thesis using s1 False by auto
  qed
qed

lemma chunks_law:
  assumes "avi_playable (fcontent fp) a log" "ro fp" "fsize fp = idx1_end_addr a" "am_fp m = at_pos fp 12"
  shows "\<exists>data'. read_chunks data 0 m = Some (Some (data', w32 24, m\<lparr>am_movi_addr := w32 (movi_addr a - 4),
    am_idx1_addr := w32 (idx1_addr a + 8), am_idx1_size := w32 (16 * length log), am_fp := at_pos fp (fsize fp)\<rparr>))"
proof -
  define H where "H = movi_addr a"
  define I where "I = idx1_addr a"
  define N where "N = 16 * length log"
  have g: "hdr_wf a" "ALIGN dvd I" "H = (if audio_enable a then 326 else 224)" "H + 8 \<le> I" "idx1_end_addr a = I + IDX_MAX_SIZE"
      "movi_data_size a = I - H"
    using assms(1) by (auto simp: avi_playable_def avi_geo_def H_def I_def)
  obtain r t al vl where h: "placed (fcontent fp) 0 (hdr_image a r t al vl (movi_data_size a + 4))"
    using assms(1) by (auto simp: avi_playable_def)
  have N: "N + 16 \<le> IDX_MAX_SIZE" "even N" using assms(1) by (simp_all add: avi_playable_def N_def)
  have evI: "even I"
  proof -
    have "2 dvd (ALIGN :: nat)" by (simp add: MUXER_FILE_ALIGN_SIZE_def)
    then show ?thesis using g(2) dvd_trans by blast
  qed
  have le: "length (idx_image a log) = N + 8"
  proof -
    have "length (entry_bytes (frame_entry (movi_addr a) f)) = 16" if "f \<in> set log" for f
      using assms(1) that by (cases f) (auto simp: avi_playable_def frame_entry_def entry_bytes_def)
    then have "length (concat (map (\<lambda>f. entry_bytes (frame_entry (movi_addr a) f)) log)) = N" unfolding N_def by (induction log) auto
    then show ?thesis by (simp add: idx_image_def)
  qed
  have px: "placed (fcontent fp) I (str_bytes ''idx1'' @ le32 N)"
    "placed (fcontent fp) (I + 8 + N) (str_bytes ''JUNK'' @ le32 (IDX_MAX_SIZE - N - 16))"
  proof -
    have p: "placed (fcontent fp) I ((str_bytes ''idx1'' @ le32 N) @ concat (map (\<lambda>f. entry_bytes (frame_entry (movi_addr a) f)) log)
        @ str_bytes ''JUNK'' @ le32 (IDX_MAX_SIZE - N - 16))"
      using assms(1) by (simp add: avi_playable_def I_def N_def idx_image_def)
    show "placed (fcontent fp) I (str_bytes ''idx1'' @ le32 N)" using p unfolding placed_append [of _ _ "str_bytes ''idx1'' @ le32 N"] by simp
    have "length (concat (map (\<lambda>f. entry_bytes (frame_entry (movi_addr a) f)) log)) = N" using le by (simp add: idx_image_def)
    then show "placed (fcontent fp) (I + 8 + N) (str_bytes ''JUNK'' @ le32 (IDX_MAX_SIZE - N - 16))"
      using p unfolding placed_append [of _ _ "str_bytes ''idx1'' @ le32 N"] placed_append [of _ _ "concat _"]
      by (simp add: ac_simps)
  qed
  note pl = parts_placed [OF h g(1)]
  have hs: "12 + 8 + hlist_size a = H - 12" "even (hlist_size a)" "4 \<le> hlist_size a"
    using g(3) by (simp_all add: hlist_size_def slist1_size_def slist2_size_def)
  have sz: "fsize fp = I + IDX_MAX_SIZE" using assms(3) g(5) by simp
  have fit: "12 + 8 + hlist_size a \<le> fsize fp" using hs(1) g(4) sz by simp
  obtain d1 where s1: "read_chunks data 0 m = read_chunks d1 (w32 24) (m\<lparr>am_fp := at_pos fp (H - 12)\<rparr>)"
    using chunk_hdrl [OF assms(2, 4) pl(2) hs(2, 3) fit, of data 0] unfolding hs(1) by auto
  define m1 where "m1 = m\<lparr>am_fp := at_pos fp (H - 12)\<rparr>"
  have m1: "am_fp m1 = at_pos fp (H - 12)" by (simp add: m1_def)
  have pm: "placed (fcontent fp) (H - 12) (str_bytes ''LIST'' @ le32 (I - H + 4) @ str_bytes ''movi'')"
    using pl(6) g(3, 6) by (simp split: if_splits)
  have em: "even (I - H + 4)" "4 \<le> I - H + 4" "H - 4 + (I - H + 4) = I" "H - 12 + 8 = H - 4"
    using evI g(3, 4) by (auto split: if_splits)
  obtain d2 where s2: "read_chunks d1 (w32 24) m1 = read_chunks d2 (w32 24) (m1\<lparr>am_fp := at_pos fp I, am_movi_addr := w32 (H - 4)\<rparr>)"
    using chunk_movi [OF assms(2) m1 pm em(1, 2), of d1 "w32 24"] unfolding em(4) em(3) sz by auto
  define m2 where "m2 = m1\<lparr>am_fp := at_pos fp I, am_movi_addr := w32 (H - 4)\<rparr>"
  have m2: "am_fp m2 = at_pos fp I" by (simp add: m2_def)
  obtain d3 where s3: "read_chunks d2 (w32 24) m2 = read_chunks d3 (w32 24)
      (m2\<lparr>am_fp := at_pos fp (I + 8 + N), am_idx1_addr := w32 (I + 8), am_idx1_size := w32 N\<rparr>)"
    using chunk_idx1 [OF assms(2) m2 px(1) N(2), of d2 "w32 24"] N(1) sz by auto
  define m3 where "m3 = m2\<lparr>am_fp := at_pos fp (I + 8 + N), am_idx1_addr := w32 (I + 8), am_idx1_size := w32 N\<rparr>"
  have m3: "am_fp m3 = at_pos fp (I + 8 + N)" by (simp add: m3_def)
  have ej: "even (IDX_MAX_SIZE - N - 16)" "I + 8 + N + 8 + (IDX_MAX_SIZE - N - 16) = fsize fp"
    using N sz by (simp_all add: IDX_MAX_SIZE_def)
  obtain d4 where s4: "read_chunks d3 (w32 24) m3 = read_chunks d4 (w32 24) (m3\<lparr>am_fp := at_pos fp (fsize fp)\<rparr>)"
    using chunk_junk [OF assms(2) m3 px(2) ej(1), of d3 "w32 24"] unfolding ej(2) by auto
  obtain d5 where "read_chunks d4 (w32 24) (m3\<lparr>am_fp := at_pos fp (fsize fp)\<rparr>)
      = Some (Some (d5, w32 24, m3\<lparr>am_fp := at_pos fp (fsize fp)\<rparr>))"
    using chunk_end [of "m3\<lparr>am_fp := at_pos fp (fsize fp)\<rparr>" fp d4 "w32 24"] by auto
  then have "read_chunks data 0 m = Some (Some (d5, w32 24, m3\<lparr>am_fp := at_pos fp (fsize fp)\<rparr>))"
    using s1 s2 s3 s4 unfolding m1_def [symmetric] m2_def [symmetric] m3_def [symmetric] by simp
  then show ?thesis by (auto simp: m3_def m2_def m1_def H_def I_def N_def)
qed

definition opened :: "'s avi_file \<Rightarrow> frame list \<Rightarrow> ffile \<Rightarrow> avi_msg \<Rightarrow> bool" where
  "opened a log fp m \<longleftrightarrow> (\<exists>x. am_fp m = at_pos fp x) \<and> am_movi_addr m = w32 (movi_addr a - 4)
     \<and> am_idx1_addr m = w32 (idx1_addr a + 8) \<and> am_idx1_size m = w32 (16 * length log)
     \<and> am_v_id m = (if audio_enable a then 0x63643130 else 0x63643030) \<and> am_a_id m = (if audio_enable a then 0x62773030 else 0)
     \<and> am_fps m = w32 (rate (strhdr_video a)) \<and> am_sample m = (if audio_enable a then w32 (sample_per_sec (strfmt_audio a)) else 0)
     \<and> am_video m = idx_start m (am_video m) \<and> am_audio m = idx_start m (am_audio m) \<and> am_fast_index m = []"

lemma playable_open:
  assumes "avi_playable (fcontent fp) a log" "ro fp" "fsize fp = idx1_end_addr a" "fpos fp = 0" "streams_ok a"
  shows "\<exists>m. avi_read_init data lm rbuf stk (Some fp) = Some (Some m) \<and> opened a log fp m"
proof -
  have g: "hdr_wf a" "400 \<le> fsize fp"
    using assms(1, 3) by (auto simp: avi_playable_def avi_geo_def IDX_MAX_SIZE_def)
  obtain r t al vl where h: "placed (fcontent fp) 0 (hdr_image a r t al vl (movi_data_size a + 4))"
    using assms(1) by (auto simp: avi_playable_def)
  note pl = parts_placed [OF h g(1)]
  have fp0: "fp = at_pos fp 0" using assms(4) by simp
  let ?bs = "str_bytes ''RIFF'' @ le32 r @ str_bytes ''AVI ''"
  have rd: "osal_fread 12 fp = (?bs, at_pos fp 12)"
    by (subst fp0, subst read_at [OF pl(1)]) (use g(2) in simp_all)
  have f: "fcc_is (into data ?bs) 0 ''RIFF''" "fcc_is (into data ?bs) 8 ''AVI ''"
    using fcc_into [of 0 ?bs "''RIFF''" "''RIFF''" True data] fcc_into [of 8 ?bs "''AVI ''" "''AVI ''" True data]
    by (simp_all add: tag_simps)
  obtain d' where c: "read_chunks (into data ?bs) 0 (zero_msg (at_pos fp 12))
      = Some (Some (d', w32 24, (zero_msg (at_pos fp 12))\<lparr>am_movi_addr := w32 (movi_addr a - 4),
    am_idx1_addr := w32 (idx1_addr a + 8), am_idx1_size := w32 (16 * length log), am_fp := at_pos fp (fsize fp)\<rparr>))"
    using chunks_law [OF assms(1-3), of "zero_msg (at_pos fp 12)" "into data ?bs"] by (auto simp: zero_msg_def)
  define m1 where "m1 = (zero_msg (at_pos fp 12))\<lparr>am_movi_addr := w32 (movi_addr a - 4),
    am_idx1_addr := w32 (idx1_addr a + 8), am_idx1_size := w32 (16 * length log), am_fp := at_pos fp (fsize fp)\<rparr>"
  define hdrl :: u32 where "hdrl = w32 24"
  have hdrl: "hdrl \<noteq> 0" by (simp add: hdrl_def)
  have sk: "seek_to hdrl (am_fp m1) = at_pos fp 24" unfolding hdrl_def using seek_at [OF assms(2), of 24 "fsize fp"] g(2) by (simp add: m1_def)
  let ?avih = "str_bytes ''avih'' @ le32 avih_size @ AVI_HEADER_bytes (avi_header a) t"
  have rd2: "osal_fread 64 (at_pos fp 24) = (?avih, at_pos fp 88)"
    using read_at [OF pl(3), of 64] g(2) by (simp add: AVI_HEADER_bytes_def)
  define m2 where "m2 = m1\<lparr>am_avi := into (am_avi m1) ?avih, am_fp := at_pos fp 88\<rparr>"
  have m2: "am_fp m2 = at_pos fp 88" "am_offset m2 = 0" by (simp_all add: m2_def m1_def zero_msg_def)
  obtain y where l: "read_lists stk 0 lm d' m2 = Some (m2\<lparr>am_a_id := (if audio_enable a then 0x62773030 else am_a_id m2),
    am_sample := (if audio_enable a then w32 (sample_per_sec (strfmt_audio a)) else am_sample m2),
    am_v_id := (if audio_enable a then 0x63643130 else 0x63643030), am_fps := w32 (rate (strhdr_video a)),
    am_offset := (if audio_enable a then 2 else 1), am_fp := at_pos fp y\<rparr>)"
    using lists_law [OF assms(2) h g(1) assms(5) m2 g(2), of stk 0 lm d'] by blast
  define m3 where "m3 = m2\<lparr>am_a_id := (if audio_enable a then 0x62773030 else am_a_id m2),
    am_sample := (if audio_enable a then w32 (sample_per_sec (strfmt_audio a)) else am_sample m2),
    am_v_id := (if audio_enable a then 0x63643130 else 0x63643030), am_fps := w32 (rate (strhdr_video a)),
    am_offset := (if audio_enable a then 2 else 1), am_fp := at_pos fp y\<rparr>"
  define m4 where "m4 = read_msg_init rbuf m3"
  have "(let (bs, fp) = osal_fread 64 (seek_to hdrl (am_fp m1))
      in read_lists stk 0 lm d' (m1\<lparr>am_avi := into (am_avi m1) bs, am_fp := fp\<rparr>)) = Some m3"
    unfolding sk rd2 Let_def prod.case m2_def [symmetric] l m3_def ..
  then have "avi_read_init data lm rbuf stk (Some fp)
      = Some (Some (m4\<lparr>am_video := idx_start m4 (am_video m4), am_audio := idx_start m4 (am_audio m4)\<rparr>))"
    unfolding avi_read_init_def option.case rd Let_def prod.case
    using f c [folded m1_def hdrl_def] hdrl by (simp add: m4_def)
  moreover have "opened a log fp (m4\<lparr>am_video := idx_start m4 (am_video m4), am_audio := idx_start m4 (am_audio m4)\<rparr>)"
    by (simp add: opened_def m4_def m3_def m2_def m1_def zero_msg_def read_msg_init_def idx_start_def) blast
  ultimately show ?thesis by blast
qed

section \<open>The index\<close>

lemma tag_word:
  assumes "length tag = 4" "length tag' = 4"
  shows "u32_at tag 0 = u32_at tag' 0 \<longleftrightarrow> tag = tag'"
proof -
  have "x = enc_le32 (u32_at x 0)" if l: "length x = 4" for x :: "u8 list"
  proof -
    obtain v where "x = enc_le32 v" using le32.enc_onto [OF l] by blast
    then show ?thesis using u32_at_le32 [of 0 x v] l by simp
  qed
  then show ?thesis using assms by metis
qed

text \<open>The entries the reader has still in front of it: some in its buffer, the rest in the file.\<close>

abbreviation entries :: "idx_entry list \<Rightarrow> u8 list" where "entries es \<equiv> concat (map entry_bytes es)"

definition reader_at :: "ffile \<Rightarrow> idx_reader \<Rightarrow> idx_entry list \<Rightarrow> bool" where
  "reader_at fp r es \<longleftrightarrow> (\<forall>e \<in> set es. length (entry_bytes e) = 16) \<and> (\<exists>cs ds. es = cs @ ds
     \<and> ir_cache_remain r = int (16 * length cs) \<and> take (16 * length cs) (drop (ir_idx1 r) (ir_buf r)) = entries cs
     \<and> placed (fcontent fp) (unat (ir_file_addr r)) (entries ds) \<and> ir_not_read_size r = w32 (16 * length ds)
     \<and> unat (ir_file_addr r) + 16 * length ds \<le> fsize fp)"

lemma reader_at_pos [simp]: "reader_at (fp\<lparr>fpos := x\<rparr>) r es = reader_at fp r es"
  by (simp add: reader_at_def)

lemma reader_at_num [simp]: "reader_at fp (r\<lparr>ir_frame_num := n\<rparr>) es = reader_at fp r es"
  by (simp add: reader_at_def)

lemma reader_atI:
  assumes "\<forall>e \<in> set (cs @ ds). length (entry_bytes e) = 16" "ir_cache_remain r = int (16 * length cs)"
    and "take (16 * length cs) (drop (ir_idx1 r) (ir_buf r)) = entries cs" "placed (fcontent fp) (unat (ir_file_addr r)) (entries ds)"
    and "ir_not_read_size r = w32 (16 * length ds)" "unat (ir_file_addr r) + 16 * length ds \<le> fsize fp"
  shows "reader_at fp r (cs @ ds)"
  using assms unfolding reader_at_def by blast

lemma reader_end:
  assumes "reader_at fp r []"
  shows "next_index ident count movi fnum fp r = ((0, 0, fnum), fp, r)"
proof -
  have "ir_cache_remain r = 0" "ir_not_read_size r = 0" using assms by (auto simp: reader_at_def)
  then show ?thesis by (simp add: next_index.simps [of ident])
qed

text \<open>The next 512 bytes, or what is left.\<close>

lemma refill:
  assumes "reader_at fp r es" "ir_cache_remain r = 0" "es \<noteq> []" "ro fp"
  shows "\<exists>x r'. next_index ident count movi fnum fp r = next_index ident count movi fnum (at_pos fp x) r'
    \<and> reader_at fp r' es \<and> 0 < ir_cache_remain r' \<and> ir_frame_num r' = ir_frame_num r"
proof -
  have l: "\<forall>e \<in> set es. length (entry_bytes e) = 16" using assms(1) by (simp add: reader_at_def)
  have d: "placed (fcontent fp) (unat (ir_file_addr r)) (entries es)" "ir_not_read_size r = w32 (16 * length es)"
      "unat (ir_file_addr r) + 16 * length es \<le> fsize fp"
    using assms(1, 2) by (auto simp: reader_at_def)
  define k where "k = min 32 (length es)"
  have b: "16 * length es < 2 ^ 32" using d(3) assms(4) by (simp add: ro_def)
  have k: "0 < k" "k \<le> length es" "16 * k < 2 ^ 32" using assms(3) b by (simp_all add: k_def)
  have rs: "(if ir_not_read_size r \<ge> 512 then 512 else ir_not_read_size r) = w32 (16 * k)"
  proof -
    have "(512 :: u32) \<le> w32 (16 * length es) \<longleftrightarrow> 512 \<le> 16 * length es" using unat_w32 [OF b] by (simp add: word_le_nat_alt)
    moreover have "k = (if 512 \<le> 16 * length es then 32 else length es)" by (auto simp: k_def min_def)
    ultimately show ?thesis unfolding d(2) by simp
  qed
  define bs where "bs = entries (take k es)"
  have lb: "length bs = 16 * k" using length_entries [of "take k es"] l k(2) by (auto simp: bs_def dest: in_set_takeD)
  have es: "entries es = bs @ entries (drop k es)" unfolding bs_def concat_append [symmetric] map_append [symmetric] append_take_drop_id ..
  have p: "placed (fcontent fp) (unat (ir_file_addr r)) bs" "placed (fcontent fp) (unat (ir_file_addr r) + 16 * k) (entries (drop k es))"
    using d(1) unfolding es placed_append lb by simp_all
  have fits: "unat (ir_file_addr r) + 16 * k \<le> fsize fp" using d(3) k(2) by linarith
  have rd: "osal_fread (16 * k) (seek_to (ir_file_addr r) fp) = (bs, at_pos fp (unat (ir_file_addr r) + 16 * k))"
  proof -
    have "unat (ir_file_addr r) \<le> fsize fp" using fits by linarith
    then have "seek_to (w32 (unat (ir_file_addr r))) (at_pos fp (fpos fp)) = at_pos fp (unat (ir_file_addr r))"
      by (rule seek_at [OF assms(4)])
    then have "seek_to (ir_file_addr r) fp = at_pos fp (unat (ir_file_addr r))" by simp
    then show ?thesis using read_at [OF p(1) _ lb] fits lb by simp
  qed
  define r' where "r' = r\<lparr>ir_buf := into (ir_buf r) bs, ir_not_read_size := ir_not_read_size r - w32 (16 * k),
    ir_file_addr := ir_file_addr r + w32 (16 * k), ir_cache_remain := int (16 * k), ir_idx1 := 0\<rparr>"
  have nz: "w32 (16 * k) \<noteq> 0" using unat_w32 [OF k(3)] k(1) by (metis unat_0 mult_eq_0_iff neq0_conv zero_neq_numeral)
  have "next_index ident count movi fnum fp r = next_index ident count movi fnum (at_pos fp (unat (ir_file_addr r) + 16 * k)) r'"
    unfolding next_index.simps [of ident count movi fnum fp r] Let_def rs unat_w32 [OF k(3)] rd prod.case
    using nz assms(2) by (simp add: r'_def)
  moreover have "unat (ir_file_addr r + w32 (16 * k)) = unat (ir_file_addr r) + 16 * k"
    using fits assms(4) unat_w32 [OF k(3)] by (simp add: unat_word_ariths(1) ro_def)
  then have "reader_at fp r' (take k es @ drop k es)"
    by (intro reader_atI)
      (use l lb p(2) d(2, 3) k(2) in \<open>simp_all add: r'_def into_def bs_def min_absorb2 of_nat_diff right_diff_distrib'\<close>)
  then have "reader_at fp r' es" by simp
  moreover have "0 < ir_cache_remain r'" "ir_frame_num r' = ir_frame_num r" using k(1) by (simp_all add: r'_def)
  ultimately show ?thesis by blast
qed

text \<open>One entry.\<close>

definition e_word :: "idx_entry \<Rightarrow> nat \<Rightarrow> u32" where
  "e_word e i = u32_at (entry_bytes e) i"

lemma cached_entry:
  assumes "reader_at fp r (e # es)" "0 < ir_cache_remain r"
  shows "u32_at (ir_buf r) (ir_idx1 r) = e_word e 0" "u32_at (ir_buf r) (ir_idx1 r + 4) = e_word e 4"
    "u32_at (ir_buf r) (ir_idx1 r + 8) = e_word e 8" "u32_at (ir_buf r) (ir_idx1 r + 12) = e_word e 12"
    "reader_at fp (r\<lparr>ir_idx1 := ir_idx1 r + 16, ir_cache_remain := ir_cache_remain r - 16\<rparr>) es"
proof -
  obtain cs ds where c: "e # es = cs @ ds" "ir_cache_remain r = int (16 * length cs)"
      "take (16 * length cs) (drop (ir_idx1 r) (ir_buf r)) = entries cs"
      "placed (fcontent fp) (unat (ir_file_addr r)) (entries ds)" "ir_not_read_size r = w32 (16 * length ds)"
      "unat (ir_file_addr r) + 16 * length ds \<le> fsize fp" "length (entry_bytes e) = 16" "\<forall>e \<in> set es. length (entry_bytes e) = 16"
    using assms(1) by (auto simp: reader_at_def)
  obtain cs' where cs: "cs = e # cs'" "es = cs' @ ds" using c(1, 2) assms(2) by (cases cs) auto
  have t: "take (16 + 16 * length cs') (drop (ir_idx1 r) (ir_buf r)) = entry_bytes e @ entries cs'" using c(3) by (simp add: cs(1))
  have t1: "take 16 (drop (ir_idx1 r) (ir_buf r)) = entry_bytes e"
    using arg_cong [OF t, of "take 16"] c(7) by (simp add: min_def)
  have t2: "take (16 * length cs') (drop (ir_idx1 r + 16) (ir_buf r)) = entries cs'"
    using arg_cong [OF t, of "drop 16"] c(7) by (simp add: drop_take add.commute)
  have n: "ir_buf r ! (ir_idx1 r + i) = entry_bytes e ! i" if "i < 16" for i
    using arg_cong [OF t1, of "\<lambda>xs. xs ! i"] take_fits [OF t1 c(7)] that by simp
  have w: "u32_at (ir_buf r) (ir_idx1 r + i) = e_word e i" if "i + 3 < 16" for i
    using n [of i] n [of "i + 1"] n [of "i + 2"] n [of "i + 3"] that by (simp add: e_word_def u32_at_def add.assoc)
  show "u32_at (ir_buf r) (ir_idx1 r) = e_word e 0" "u32_at (ir_buf r) (ir_idx1 r + 4) = e_word e 4"
    "u32_at (ir_buf r) (ir_idx1 r + 8) = e_word e 8" "u32_at (ir_buf r) (ir_idx1 r + 12) = e_word e 12"
    using w [of 0] w [of 4] w [of 8] w [of 12] by simp_all
  show "reader_at fp (r\<lparr>ir_idx1 := ir_idx1 r + 16, ir_cache_remain := ir_cache_remain r - 16\<rparr>) es"
    unfolding cs(2) by (rule reader_atI) (use c(2, 4-6, 8) cs t2 in auto)
qed

primrec next_spec :: "u32 \<Rightarrow> (u32 \<Rightarrow> u32) \<Rightarrow> u32 \<Rightarrow> u32 \<Rightarrow> u32 \<Rightarrow> idx_entry list \<Rightarrow> (u32 \<times> u32 \<times> u32) \<times> u32 \<times> idx_entry list" where
  "next_spec ident count movi fnum n [] = ((0, 0, fnum), n, [])"
| "next_spec ident count movi fnum n (e # es) =
     (if \<not> (e_word e 0 = ident \<and> e_word e 4 \<noteq> 0) then next_spec ident count movi fnum n es
      else if fnum \<ge> n + count (e_word e 12) then next_spec ident count movi fnum (n + count (e_word e 12)) es
      else ((e_word e 8 + movi + 8, e_word e 12, n + count (e_word e 12)), n + count (e_word e 12), es))"

definition finds :: "u32 \<Rightarrow> (u32 \<Rightarrow> u32) \<Rightarrow> u32 \<Rightarrow> u32 \<Rightarrow> ffile \<Rightarrow> idx_reader \<Rightarrow> (u32 \<times> u32 \<times> u32) \<times> u32 \<times> idx_entry list \<Rightarrow> bool" where
  "finds ident count movi fnum fp r spec \<longleftrightarrow> (\<exists>x r'. next_index ident count movi fnum fp r = (fst spec, at_pos fp x, r')
     \<and> reader_at fp r' (snd (snd spec)) \<and> ir_frame_num r' = fst (snd spec))"

lemma next_law:
  assumes "reader_at fp r es" "ro fp"
  shows "finds ident count movi fnum fp r (next_spec ident count movi fnum (ir_frame_num r) es)"
  using assms
proof (induction es arbitrary: fp r)
  case Nil
  have "fp = at_pos fp (fpos fp)" by simp
  moreover have "next_index ident count movi fnum fp r = ((0, 0, fnum), fp, r)" by (rule reader_end [OF Nil.prems(1)])
  ultimately show ?case using Nil.prems(1) unfolding finds_def next_spec.simps fst_conv snd_conv by metis
next
  case (Cons e es)
  have hit: "finds ident count movi fnum fp r (next_spec ident count movi fnum (ir_frame_num r) (e # es))" if pos: "0 < ir_cache_remain r" and at: "reader_at fp r (e # es)" and ro: "ro fp" for fp r
  proof -
    let ?r = "r\<lparr>ir_idx1 := ir_idx1 r + 16, ir_cache_remain := ir_cache_remain r - 16\<rparr>"
    note c = cached_entry [OF at pos]
    have r2: "reader_at fp (?r\<lparr>ir_frame_num := m\<rparr>) es" for m using c(5) by (subst reader_at_num)
    have n1: "ir_frame_num ?r = ir_frame_num r" by simp
    consider "\<not> (e_word e 0 = ident \<and> e_word e 4 \<noteq> 0)"
      | "e_word e 0 = ident" "e_word e 4 \<noteq> 0" "fnum \<ge> ir_frame_num r + count (e_word e 12)"
      | "e_word e 0 = ident" "e_word e 4 \<noteq> 0" "\<not> fnum \<ge> ir_frame_num r + count (e_word e 12)" by blast
    then show ?thesis
    proof cases
      case 1
      then have "next_index ident count movi fnum fp r = next_index ident count movi fnum fp ?r"
        unfolding next_index.simps [of ident count movi fnum fp r] Let_def c(1-4) using pos by simp
      then show ?thesis using Cons.IH [OF c(5) ro] 1 by (simp add: finds_def)
    next
      case 2
      then have "next_index ident count movi fnum fp r
          = next_index ident count movi fnum fp (?r\<lparr>ir_frame_num := ir_frame_num r + count (e_word e 12)\<rparr>)"
        unfolding next_index.simps [of ident count movi fnum fp r] Let_def c(1-4) using pos by simp
      then show ?thesis using Cons.IH [OF r2 ro, of "ir_frame_num r + count (e_word e 12)"] 2 by (simp add: finds_def)
    next
      case 3
      then have "next_index ident count movi fnum fp r = ((e_word e 8 + movi + 8, e_word e 12, ir_frame_num r + count (e_word e 12)),
          at_pos fp (fpos fp), ?r\<lparr>ir_frame_num := ir_frame_num r + count (e_word e 12)\<rparr>)"
        unfolding next_index.simps [of ident count movi fnum fp r] Let_def c(1-4) using pos by simp
      then show ?thesis using r2 3 unfolding finds_def
        by (intro exI [of _ "fpos fp"] exI [of _ "?r\<lparr>ir_frame_num := ir_frame_num r + count (e_word e 12)\<rparr>"])
          simp
    qed
  qed
  show ?case
  proof (cases "0 < ir_cache_remain r")
    case True
    then show ?thesis using hit Cons.prems by blast
  next
    case False
    then have z: "ir_cache_remain r = 0" using Cons.prems(1) by (auto simp: reader_at_def)
    obtain x r' where f: "next_index ident count movi fnum fp r = next_index ident count movi fnum (at_pos fp x) r'"
        "reader_at fp r' (e # es)" "0 < ir_cache_remain r'" "ir_frame_num r' = ir_frame_num r"
      using refill [OF Cons.prems(1) z _ Cons.prems(2)] by blast
    have "reader_at (at_pos fp x) r' (e # es)" "ro (at_pos fp x)" using f(2) Cons.prems(2) by (simp_all add: ro_def)
    from hit [OF f(3) this] show ?thesis unfolding finds_def f(1, 4) by simp
  qed
qed

end
