(* ===== verification/AviFile.thy ===== *)
theory AviFile
  imports AviOpen
begin

text \<open>
  The recorder and the player together: what \<open>AviMux\<close> has recorded \<open>AviRead\<close> plays. And a file that keeps the player busy for good.
\<close>

unbundle bit_operations_syntax

section \<open>Playing\<close>

text \<open>
  The video half of a round of \<open>avi_player_thread\<close>: the frame it puts out, if there is one. It is as long as the index says; here
  only the bytes the file has.
\<close>

definition player_video :: "avi_msg \<Rightarrow> u32 \<Rightarrow> u8 list option \<times> avi_msg \<times> u32" where
  "player_video m frame_number =
     (let ((offset, size, fnum), m) = avi_read_next_index m frame_number
      in if size = 0 then (None, m, fnum)
         else let (bs, fp) = osal_fread (unat size) (seek_to offset (am_fp m)) in (Some bs, m\<lparr>am_fp := fp\<rparr>, fnum))"

text \<open>What goes out in some rounds.\<close>

primrec play :: "nat \<Rightarrow> avi_msg \<Rightarrow> u32 \<Rightarrow> u8 list list" where
  "play 0 m fnum = []"
| "play (Suc n) m fnum =
     (case player_video m fnum of (None, m, fnum) \<Rightarrow> play n m fnum | (Some bs, m, fnum) \<Rightarrow> bs # play n m fnum)"

definition key_video :: "u8 list \<Rightarrow> frame \<Rightarrow> bool" where
  "key_video vtag f \<longleftrightarrow> (case f of (tag, fl, p, d) \<Rightarrow> tag = vtag \<and> fl \<noteq> 0)"

definition frame_data :: "frame \<Rightarrow> u8 list" where
  "frame_data f = (case f of (tag, fl, p, d) \<Rightarrow> d)"

text \<open>A frame of the index as the reader sees it.\<close>

definition frame_ok :: "ffile \<Rightarrow> nat \<Rightarrow> u8 list \<Rightarrow> frame \<Rightarrow> bool" where
  "frame_ok fp M vtag f \<longleftrightarrow> (case f of (tag, fl, p, d) \<Rightarrow> length tag = 4 \<and> fl < 2 ^ 32 \<and> placed (fcontent fp) p d \<and> M + 4 \<le> p
     \<and> p + length d \<le> fsize fp \<and> (key_video vtag f \<longrightarrow> d \<noteq> []))"

lemma frame_words:
  assumes "frame_ok fp M vtag (tag, fl, p, d)" "length vtag = 4"
  shows "e_word (frame_entry M (tag, fl, p, d)) 0 = u32_at vtag 0 \<longleftrightarrow> tag = vtag"
    "e_word (frame_entry M (tag, fl, p, d)) 4 = w32 fl" "e_word (frame_entry M (tag, fl, p, d)) 8 = w32 (p - 4 - M)"
    "e_word (frame_entry M (tag, fl, p, d)) 12 = w32 (length d)"
proof -
  have l: "length tag = 4" using assms(1) by (simp add: frame_ok_def)
  have "e_word (frame_entry M (tag, fl, p, d)) 0 = u32_at tag 0"
    using l by (simp add: e_word_def frame_entry_def entry_bytes_def u32_at_def nth_append)
  then show "e_word (frame_entry M (tag, fl, p, d)) 0 = u32_at vtag 0 \<longleftrightarrow> tag = vtag" using tag_word [OF l assms(2)] by simp
  show "e_word (frame_entry M (tag, fl, p, d)) 4 = w32 fl" "e_word (frame_entry M (tag, fl, p, d)) 8 = w32 (p - 4 - M)"
    "e_word (frame_entry M (tag, fl, p, d)) 12 = w32 (length d)"
    unfolding e_word_def frame_entry_def entry_bytes_def prod.case
    by (rule u32_at_le32; use l in \<open>simp add: le32_def [symmetric]\<close>)+
qed

lemma key_match:
  assumes "frame_ok fp M vtag f" "length vtag = 4"
  shows "e_word (frame_entry M f) 0 = u32_at vtag 0 \<and> e_word (frame_entry M f) 4 \<noteq> 0 \<longleftrightarrow> key_video vtag f"
proof -
  obtain tag fl p d where f: "f = (tag, fl, p, d)" by (cases f)
  have "fl < 2 ^ 32" using assms(1) by (simp add: f frame_ok_def)
  then have u: "unat (w32 fl) = fl" by (rule unat_w32)
  have "w32 fl = 0 \<longleftrightarrow> fl = 0" unfolding unat_eq_zero [symmetric] u ..
  then show ?thesis using frame_words(1, 2) [OF assms(1) [unfolded f] assms(2)] unfolding f by (simp add: key_video_def)
qed

lemma next_none:
  assumes "\<forall>f \<in> set fs. frame_ok fp M vtag f" "length vtag = 4" "filter (key_video vtag) fs = []"
  shows "next_spec (u32_at vtag 0) count movi n n (map (frame_entry M) fs) = ((0, 0, n), n, [])"
  using assms(1, 3) by (induction fs) (auto simp: key_match [OF _ assms(2)] simp del: de_Morgan_conj not_not split: if_splits)

lemma next_some:
  assumes "\<forall>f \<in> set fs. frame_ok fp M vtag f" "length vtag = 4" "filter (key_video vtag) fs = f # gs" "n + 1 > n"
  shows "\<exists>fs'. next_spec (u32_at vtag 0) (\<lambda>_. 1) movi n n (map (frame_entry M) fs)
        = ((e_word (frame_entry M f) 8 + movi + 8, e_word (frame_entry M f) 12, n + 1), n + 1, map (frame_entry M) fs')
      \<and> filter (key_video vtag) fs' = gs \<and> set fs' \<subseteq> set fs \<and> f \<in> set fs"
  using assms(1, 3)
proof (induction fs)
  case (Cons g fs)
  have k: "e_word (frame_entry M g) 0 = u32_at vtag 0 \<and> e_word (frame_entry M g) 4 \<noteq> 0 \<longleftrightarrow> key_video vtag g"
    by (rule key_match [of fp, OF _ assms(2)]) (use Cons.prems(1) in simp)
  show ?case
  proof (cases "key_video vtag g")
    case True
    then have "\<not> n \<ge> n + 1" "f = g" "filter (key_video vtag) fs = gs" using assms(4) Cons.prems(2) by auto
    then show ?thesis using k True by (intro exI [of _ fs]) auto
  next
    case False
    then show ?thesis using k Cons by fastforce
  qed
qed simp

text \<open>Rounds of the player put out the key frames, in order.\<close>

lemma play_law:
  assumes "ro fp" "am_fp m = at_pos fp x" "4 \<le> M" "am_movi_addr m = w32 (M - 4)" "am_v_id m = u32_at vtag 0" "length vtag = 4"
    and "reader_at fp (am_video m) (map (frame_entry M) fs)" "\<forall>f \<in> set fs. frame_ok fp M vtag f"
    and "unat (ir_frame_num (am_video m)) + length (filter (key_video vtag) fs) < 2 ^ 32"
  shows "play n m (ir_frame_num (am_video m)) = take n (map frame_data (filter (key_video vtag) fs))"
  using assms(2, 4, 5, 7-9)
proof (induction n arbitrary: m x fs)
  case (Suc n)
  define k where "k = ir_frame_num (am_video m)"
  define spec where "spec = next_spec (u32_at vtag 0) (\<lambda>_. 1) (w32 (M - 4)) k k (map (frame_entry M) fs)"
  have "finds (u32_at vtag 0) (\<lambda>_. 1) (w32 (M - 4)) k (at_pos fp x) (am_video m) spec"
    unfolding spec_def k_def by (rule next_law) (use Suc.prems(4) assms(1) in \<open>simp_all add: ro_def\<close>)
  then obtain y r' where nx: "next_index (u32_at vtag 0) (\<lambda>_. 1) (w32 (M - 4)) k (at_pos fp x) (am_video m) = (fst spec, at_pos fp y, r')"
      "reader_at fp r' (snd (snd spec))" "ir_frame_num r' = fst (snd spec)"
    by (auto simp: finds_def)
  have ar: "avi_read_next_index m k = (fst spec, m\<lparr>am_fp := at_pos fp y, am_video := r'\<rparr>)"
    unfolding avi_read_next_index_def Suc.prems(1-3) nx(1) by simp
  show ?case
  proof (cases "filter (key_video vtag) fs")
    case Nil
    have spec: "spec = ((0, 0, k), k, [])" unfolding spec_def by (rule next_none [OF Suc.prems(5) assms(6) Nil])
    have "player_video m k = (None, m\<lparr>am_fp := at_pos fp y, am_video := r'\<rparr>, k)"
      unfolding player_video_def ar spec by simp
    moreover have "play n (m\<lparr>am_fp := at_pos fp y, am_video := r'\<rparr>) (ir_frame_num r') = []"
      using Suc.IH [of "m\<lparr>am_fp := at_pos fp y, am_video := r'\<rparr>" y "[]"] nx(2, 3) Suc.prems(2, 3) unfolding spec by simp
    ultimately show ?thesis using Nil nx(3) unfolding spec k_def [symmetric] by simp
  next
    case (Cons f gs)
    have ku: "unat k + 1 < 2 ^ 32" using Suc.prems(6) Cons by (simp add: k_def)
    then have k1: "unat (k + 1) = unat k + 1" by (simp add: unat_word_ariths(1))
    then have kk: "k + 1 > k" by (simp add: word_less_nat_alt)
    obtain fs' where sp: "spec = ((e_word (frame_entry M f) 8 + w32 (M - 4) + 8, e_word (frame_entry M f) 12, k + 1), k + 1,
          map (frame_entry M) fs')" "filter (key_video vtag) fs' = gs" "set fs' \<subseteq> set fs" "f \<in> set fs"
      using next_some [OF Suc.prems(5) assms(6) Cons kk, of "w32 (M - 4)"] unfolding spec_def by blast
    obtain tag fl p d where f: "f = (tag, fl, p, d)" by (cases f)
    have ok: "frame_ok fp M vtag (tag, fl, p, d)" using Suc.prems(5) sp(4) f by blast
    have "key_video vtag f" using Cons by (metis filter_eq_ConsD)
    then have d: "d \<noteq> []" "M + 4 \<le> p" "p + length d \<le> fsize fp" "placed (fcontent fp) p d" using ok unfolding f by (auto simp: frame_ok_def)
    have ld: "length d < 2 ^ 32" using d(3) assms(1) by (simp add: ro_def)
    have "p - 4 - M + (M - 4) + 8 = p" using d(2) assms(3) by linarith
    then have "w32 (p - 4 - M) + w32 (M - 4) + 8 = w32 p" by (metis of_nat_add of_nat_numeral)
    then have of: "fst spec = (w32 p, w32 (length d), k + 1)" using frame_words(3, 4) [OF ok assms(6)] unfolding sp(1) f by simp
    have nz: "w32 (length d) \<noteq> 0" using unat_w32 [OF ld] d(1) by (metis length_0_conv unat_0)
    have rd: "osal_fread (unat (w32 (length d))) (seek_to (w32 p) (at_pos fp y)) = (d, at_pos fp (p + length d))"
      unfolding unat_w32 [OF ld] using seek_at [OF assms(1), of p y] read_at [OF d(4) d(3)] d(3) by simp
    define m' where "m' = m\<lparr>am_fp := at_pos fp (p + length d), am_video := r'\<rparr>"
    have "player_video m k = (Some d, m', k + 1)"
      unfolding player_video_def ar of Let_def prod.case using nz rd by (simp add: m'_def)
    moreover have "play n m' (ir_frame_num (am_video m')) = take n (map frame_data gs)"
      using Suc.IH [of m' "p + length d" fs'] Suc.prems nx(2, 3) sp k1 Cons unfolding k_def [symmetric] by (auto simp: m'_def)
    ultimately show ?thesis using Cons nx(3) sp(1) unfolding k_def [symmetric] 
      by (simp add: m'_def) (simp add: f frame_data_def)
  qed
qed simp

section \<open>What was recorded plays\<close>

text \<open>The file, closed and opened again for reading.\<close>

definition reopen :: "ffile \<Rightarrow> ffile" where
  "reopen fp = fp\<lparr>fpos := 0, fwritable := False\<rparr>"

abbreviation vtag_of :: "bool \<Rightarrow> u8 list" where
  "vtag_of audio \<equiv> str_bytes (if audio then ''01dc'' else ''00dc'')"

text \<open>The key frames of a recording.\<close>

definition key_frames :: "bool \<Rightarrow> rec_frame list \<Rightarrow> u8 list list" where
  "key_frames audio recs = map (\<lambda>(tag, fl, d). d) (filter (\<lambda>(tag, fl, d). tag = vtag_of audio \<and> fl \<noteq> 0) recs)"

lemma key_frames_strip: "key_frames audio (map strip log) = map frame_data (filter (key_video (vtag_of audio)) log)"
proof -
  have "filter (\<lambda>(tag, fl, d). tag = vtag_of audio \<and> fl \<noteq> 0) (map strip log) = map strip (filter (key_video (vtag_of audio)) log)"
    unfolding filter_map by (rule arg_cong [where f = "map strip"]) (auto intro!: filter_cong simp: strip_def key_video_def)
  then show ?thesis unfolding key_frames_def by (simp add: strip_def frame_data_def case_prod_beta)
qed

text \<open>What the muxer puts in the index: video frames with their flag, audio frames with none.\<close>

definition rec_ok :: "bool \<Rightarrow> rec_frame \<Rightarrow> bool" where
  "rec_ok audio f \<longleftrightarrow> (case f of (tag, fl, d) \<Rightarrow>
     tag = vtag_of audio \<and> (fl = 0 \<or> fl = AVIIF_KEYFRAME \<and> d \<noteq> []) \<or> audio \<and> tag = str_bytes ''00wb'' \<and> fl = 0)"

lemma pad_Nil [simp]: "pad bs = [] \<longleftrightarrow> bs = []"
  by (auto simp: pad_def)

lemma rec_ok_new:
  "key \<longrightarrow> buf \<noteq> [] \<Longrightarrow> rec_ok audio (vtag_of audio, if key then AVIIF_KEYFRAME else 0, pad buf)"
  "audio \<Longrightarrow> rec_ok audio (str_bytes ''00wb'', 0, pad buf)"
  by (simp_all add: rec_ok_def)

definition lp_ok :: "bool \<Rightarrow> rec_frame list \<times> rec_frame option \<Rightarrow> bool" where
  "lp_ok audio lp \<longleftrightarrow> (\<forall>f \<in> set (fst lp). rec_ok audio f) \<and> (\<forall>f. snd lp = Some f \<longrightarrow> rec_ok audio f)"

lemma call_rec_ok:
  assumes "c \<noteq> Video [] True False" "lp_ok audio (log, prev)"
  shows "lp_ok audio (call_spec audio (vtag_of audio) c r (log, prev))"
proof (cases c)
  case (Video buf key ins)
  have "rec_ok audio (vtag_of audio, if key then AVIIF_KEYFRAME else 0, pad buf)" if "\<not> ins"
    using assms(1) Video that by (intro rec_ok_new(1)) auto
  then show ?thesis using assms(2) Video by (cases prev) (auto simp: lp_ok_def)
next
  case (Audio buf)
  then show ?thesis using assms(2) rec_ok_new(2) by (auto simp: lp_ok_def)
qed (use assms(2) in simp_all)

lemma run_rec_ok:
  assumes "Video [] True False \<notin> set cs" "lp_ok audio lp"
  shows "lp_ok audio (run_spec_avi audio (vtag_of audio) cs rs lp)"
  using assms
proof (induction cs arbitrary: rs lp)
  case (Cons c cs)
  have c: "c \<noteq> Video [] True False" "Video [] True False \<notin> set cs" using Cons.prems(1) by auto
  have "lp_ok audio (call_spec audio (vtag_of audio) c r lp)" for r
    using call_rec_ok [OF c(1), of audio "fst lp" "snd lp" r] Cons.prems(2) by simp
  then show ?case using Cons.IH [OF c(2)] Cons.prems(2) by (cases rs) simp_all
qed simp

lemma recorded_ok: "Video [] True False \<notin> set cs \<Longrightarrow> \<forall>f \<in> set (recorded audio cs rs). rec_ok audio f"
  using run_rec_ok [of cs audio "([], None)" rs] by (simp add: recorded_def lp_ok_def)

lemma tag_words:
  "u32_at (str_bytes ''01dc'') 0 = 0x63643130" "u32_at (str_bytes ''00dc'') 0 = 0x63643030" "u32_at (str_bytes ''00wb'') 0 = 0x62773030"
  by (code_simp)+

lemma opened_reader:
  assumes "avi_playable (fcontent fp) a log" "fsize fp = idx1_end_addr a"
    and "r = idx_start m r0" "opened a log fp m"
  shows "reader_at fp r (map (frame_entry (movi_addr a)) log)" "ir_frame_num r = 0"
proof -
  have g: "idx1_end_addr a = idx1_addr a + IDX_MAX_SIZE" "idx1_end_addr a < 2 ^ 32" "16 * length log + 16 \<le> IDX_MAX_SIZE"
    using assms(1) by (auto simp: avi_playable_def avi_geo_def)
  have u: "unat (w32 (idx1_addr a + 8)) = idx1_addr a + 8" by (rule unat_w32) (use g in \<open>simp add: IDX_MAX_SIZE_def\<close>)
  have "placed (fcontent fp) (idx1_addr a) ((str_bytes ''idx1'' @ le32 (16 * length log))
      @ entries (map (frame_entry (movi_addr a)) log) @ str_bytes ''JUNK'' @ le32 (IDX_MAX_SIZE - 16 * length log - 16))"
    using assms(1) by (simp add: avi_playable_def idx_image_def comp_def)
  then have p: "placed (fcontent fp) (idx1_addr a + 8) (entries (map (frame_entry (movi_addr a)) log))"
    unfolding placed_append [of _ _ "str_bytes ''idx1'' @ le32 (16 * length log)"] placed_append [of _ _ "entries _"] by simp
  have l: "\<forall>e \<in> set (map (frame_entry (movi_addr a)) log). length (entry_bytes e) = 16"
    using assms(1) by (auto simp: avi_playable_def frame_entry_def entry_bytes_def)
  have "reader_at fp r ([] @ map (frame_entry (movi_addr a)) log)"
    by (rule reader_atI) (use assms(2-4) l p u g in \<open>auto simp: idx_start_def opened_def IDX_MAX_SIZE_def\<close>)
  then show "reader_at fp r (map (frame_entry (movi_addr a)) log)" by simp
  show "ir_frame_num r = 0" using assms(3) by (simp add: idx_start_def)
qed

text \<open>A file that the muxer wrote, and that the reader has opened.\<close>

definition taken :: "'s avi_file \<Rightarrow> frame list \<Rightarrow> ffile \<Rightarrow> bool" where
  "taken a log fp \<longleftrightarrow> avi_playable (fcontent fp) a log \<and> fsize fp = idx1_end_addr a \<and> streams_ok a
     \<and> video_tag a = vtag_of (audio_enable a) \<and> (\<forall>f \<in> set (map strip log). rec_ok (audio_enable a) f)"

lemma taken_open:
  assumes "taken a log fp"
  shows "\<exists>m. avi_read_init data lm rbuf stk (Some (reopen fp)) = Some (Some m) \<and> opened a log (reopen fp) m"
proof -
  have "ro (reopen fp)" using assms by (auto simp: taken_def avi_playable_def avi_geo_def ro_def reopen_def)
  then show ?thesis using playable_open [of "reopen fp" a log data lm rbuf stk] assms by (simp add: taken_def reopen_def)
qed

lemma taken_ro:
  assumes "taken a log fp" "opened a log (reopen fp) m"
  shows "ro (reopen fp)" "reader_at (reopen fp) (am_video m) (map (frame_entry (movi_addr a)) log)" "ir_frame_num (am_video m) = 0"
    "reader_at (reopen fp) (am_audio m) (map (frame_entry (movi_addr a)) log)" "ir_frame_num (am_audio m) = 0"
    "length (vtag_of audio) = 4" "4 \<le> movi_addr a" "16 * length log < 2 ^ 32"
    "\<forall>f \<in> set log. frame_ok (reopen fp) (movi_addr a) (vtag_of (audio_enable a)) f"
    "\<forall>f \<in> set log. frame_ok (reopen fp) (movi_addr a) (str_bytes ''00wb'') f"
proof -
  have t: "avi_playable (fcontent (reopen fp)) a log" "fsize (reopen fp) = idx1_end_addr a"
    using assms(1) by (simp_all add: taken_def reopen_def)
  have v: "am_video m = idx_start m (am_video m)" "am_audio m = idx_start m (am_audio m)" using assms(2) by (simp_all add: opened_def)
  show "ro (reopen fp)" using assms(1) by (auto simp: taken_def avi_playable_def avi_geo_def ro_def reopen_def)
  show "reader_at (reopen fp) (am_video m) (map (frame_entry (movi_addr a)) log)" "ir_frame_num (am_video m) = 0"
    "reader_at (reopen fp) (am_audio m) (map (frame_entry (movi_addr a)) log)" "ir_frame_num (am_audio m) = 0"
    using opened_reader [OF t v(1) assms(2)] opened_reader [OF t v(2) assms(2)] by simp_all
  show "length (vtag_of audio) = 4" by simp
  have g: "movi_addr a = (if audio_enable a then 326 else 224)" "movi_addr a + 8 \<le> movi_data_addr a"
      "idx1_end_addr a = idx1_addr a + IDX_MAX_SIZE" "16 * length log + 16 \<le> IDX_MAX_SIZE"
    using t(1) by (auto simp: avi_playable_def avi_geo_def)
  then show "4 \<le> movi_addr a" "16 * length log < 2 ^ 32" by (simp_all add: IDX_MAX_SIZE_def)
  have f: "length tag = 4 \<and> placed (fcontent (reopen fp)) p d \<and> movi_data_addr a + 8 \<le> p \<and> p + length d \<le> idx1_addr a
      \<and> rec_ok (audio_enable a) (tag, fl, d)" if "(tag, fl, p, d) \<in> set log" for tag fl p d
    using t(1) assms(1) that by (force simp: avi_playable_def taken_def strip_def)
  have n: "str_bytes ''00wb'' \<noteq> vtag_of audio" for audio
    using tag_word [of "str_bytes ''00wb''" "vtag_of audio"] tag_words by (auto split: if_splits)
  have fo: "frame_ok (reopen fp) (movi_addr a) vt (tag, fl, p, d)"
    if i: "(tag, fl, p, d) \<in> set log" and k: "tag = vt \<and> fl \<noteq> 0 \<longrightarrow> d \<noteq> []" for vt tag fl p d
  proof -
    have "fl < 2 ^ 32" using f [OF i] unfolding rec_ok_def prod.case by (auto simp: AVIIF_KEYFRAME_def)
    then show ?thesis using f [OF i] k g(2, 3) t(2) by (simp add: frame_ok_def key_video_def)
  qed
  show "\<forall>f \<in> set log. frame_ok (reopen fp) (movi_addr a) (vtag_of (audio_enable a)) f"
  proof
    fix x assume i: "x \<in> set log"
    obtain tag fl p d where x: "x = (tag, fl, p, d)" by (cases x)
    have "rec_ok (audio_enable a) (tag, fl, d)" using f i x by blast
    then have "tag = vtag_of (audio_enable a) \<and> fl \<noteq> 0 \<longrightarrow> d \<noteq> []" unfolding rec_ok_def prod.case by blast
    then show "frame_ok (reopen fp) (movi_addr a) (vtag_of (audio_enable a)) x" using fo i x by blast
  qed
  show "\<forall>f \<in> set log. frame_ok (reopen fp) (movi_addr a) (str_bytes ''00wb'') f"
  proof
    fix x assume i: "x \<in> set log"
    obtain tag fl p d where x: "x = (tag, fl, p, d)" by (cases x)
    have "rec_ok (audio_enable a) (tag, fl, d)" using f i x by blast
    then have "tag = str_bytes ''00wb'' \<and> fl \<noteq> 0 \<longrightarrow> d \<noteq> []" using n unfolding rec_ok_def prod.case by metis
    then show "frame_ok (reopen fp) (movi_addr a) (str_bytes ''00wb'') x" using fo i x by blast
  qed
qed

lemma taken_play:
  assumes "taken a log fp" "opened a log (reopen fp) m"
  shows "play n m 0 = take n (key_frames (audio_enable a) (map strip log))"
proof -
  note r = taken_ro [OF assms]
  obtain x where x: "am_fp m = at_pos (reopen fp) x" using assms(2) by (auto simp: opened_def)
  have v: "am_movi_addr m = w32 (movi_addr a - 4)" "am_v_id m = u32_at (vtag_of (audio_enable a)) 0"
    using assms(2) tag_words by (simp_all add: opened_def)
  have "length (filter (key_video (vtag_of (audio_enable a))) log) < 2 ^ 32"
    by (rule le_less_trans [OF length_filter_le]) (use r(8) in simp)
  then have "unat (ir_frame_num (am_video m)) + length (filter (key_video (vtag_of (audio_enable a))) log) < 2 ^ 32"
    unfolding r(3) unat_0 add_0 .
  from play_law [OF r(1) x r(7) v r(6) r(2) r(9) this, of n] show ?thesis unfolding r(3) key_frames_strip .
qed

lemma taken_mute:
  assumes "taken a log fp" "opened a log (reopen fp) m"
  shows "fst (avi_read_next_audio_index m k) = (0, 0, k)"
proof -
  note r = taken_ro [OF assms]
  obtain x where x: "am_fp m = at_pos (reopen fp) x" using assms(2) by (auto simp: opened_def)
  define ident where "ident = am_a_id m"
  have "\<not> (e_word (frame_entry (movi_addr a) f) 0 = ident \<and> e_word (frame_entry (movi_addr a) f) 4 \<noteq> 0)" if "f \<in> set log" for f
  proof -
    obtain tag fl p d where f: "f = (tag, fl, p, d)" by (cases f)
    have ok: "frame_ok (reopen fp) (movi_addr a) (vtag_of (audio_enable a)) (tag, fl, p, d)"
      "frame_ok (reopen fp) (movi_addr a) (str_bytes ''00wb'') (tag, fl, p, d)" using r(9, 10) that f by auto
    have "rec_ok (audio_enable a) (strip f)" using assms(1) that by (auto simp: taken_def)
    then have "tag = vtag_of (audio_enable a) \<or> fl = 0" by (auto simp: f strip_def rec_ok_def)
    moreover have "e_word (frame_entry (movi_addr a) f) 0 \<noteq> ident" if "tag = vtag_of (audio_enable a)"
      using frame_words(1) [OF ok(1) r(6)] that tag_words assms(2) by (auto simp: f ident_def opened_def)
    ultimately show ?thesis using frame_words(2) [OF ok(1) r(6)] by (auto simp: f)
  qed
  then have "next_spec ident (\<lambda>size. size) (am_movi_addr m) k 0 (map (frame_entry (movi_addr a)) log) = ((0, 0, k), 0, [])"
    by (induction log) (auto simp del: de_Morgan_conj not_not)
  moreover have "finds ident (\<lambda>size. size) (am_movi_addr m) k (at_pos (reopen fp) x) (am_audio m)
      (next_spec ident (\<lambda>size. size) (am_movi_addr m) k (ir_frame_num (am_audio m)) (map (frame_entry (movi_addr a)) log))"
    by (rule next_law) (use r(1, 4) in \<open>simp_all add: ro_def\<close>)
  ultimately show ?thesis unfolding avi_read_next_audio_index_def x ident_def [symmetric] r(5) finds_def by auto
qed

section \<open>Room\<close>

text \<open>What a call takes of the room for the frames.\<close>

primrec call_room :: "avi_call \<Rightarrow> nat" where
  "call_room (Video buf key ins) = (if ins then 0 else 8 + length (pad buf))"
| "call_room (Audio buf) = 8 + length (pad buf)"
| "call_room Sync = 0"
| "call_room (SyncTime t) = 0"

definition recording_fits :: "nat \<Rightarrow> avi_call list \<Rightarrow> bool" where
  "recording_fits max_size cs \<longleftrightarrow> ALIGN + sum_list (map call_room cs) + 8 + IDX_MAX_SIZE \<le> muxer_file_align_up max_size
     \<and> 16 * length cs + 16 \<le> IDX_MAX_SIZE \<and> Audio [] \<notin> set cs"

lemma cur_access: "cur_addr (snd (a_write ops bs a)) = cur_addr a" "cur_addr (snd (a_write_at ops off bs a)) = cur_addr a"
  by (simp_all add: a_write_def a_write_at_def case_prod_beta)

lemma cur_calls: "(\<And>f a. f \<in> set fs \<Longrightarrow> cur_addr (snd (f a)) = cur_addr a) \<Longrightarrow> cur_addr (snd (calls fs a)) = cur_addr a"
  by (induction fs arbitrary: a) (simp_all add: calls.simps Let_def case_prod_beta)

lemma cur_syn: "cur_addr (snd (avi_write_idx_syn ops a)) = cur_addr a"
  using cur_access(2) [of ops "idx1_write_addr a" "tmp_idx_data a" a]
  by (auto simp: avi_write_idx_syn_def Let_def split: prod.splits)

lemma cur_tmp: "cur_addr (snd (avi_write_idx_tmp bs a)) = cur_addr a"
  by (simp add: avi_write_idx_tmp_def)

lemma cur_entry: "cur_addr (snd (avi_idx_write_entry ops tag f off n a)) = cur_addr a"
  by (simp add: avi_idx_write_entry_def Let_def case_prod_beta cur_tmp cur_syn)

lemma cur_fields: "cur_addr (avi_fix_fields ops b a) = cur_addr a"
  by (simp add: avi_fix_fields_def avi_patch_def Let_def cur_access)

lemma cur_sync: "cur_addr (avimuxer_sync ops a) = cur_addr a"
proof -
  have "cur_addr (snd (avi_write_idx_snapshot_tail ops b)) = cur_addr b" for b
    by (auto simp: avi_write_idx_snapshot_tail_def Let_def cur_access intro!: cur_calls)
  then show ?thesis
    by (simp add: avimuxer_sync_def avimuxer_fix_data_aligned_def avi_fix_sync_def Let_def case_prod_beta cur_fields cur_syn)
qed

lemma cur_chunk:
  assumes "avi_write_movi_chunk ops tag f buf a = (0, off, b)"
  shows "cur_addr b = cur_addr a + (8 + length (pad buf))"
proof -
  have "cur_addr (snd (calls ([a_write ops tag, a_write ops (le32 n), a_write ops buf] @ (if odd (length buf) then [a_write ops [0]] else [])) a))
      = cur_addr a" for n
    by (rule cur_calls) (auto simp: cur_access split: if_splits)
  then show ?thesis using assms unfolding avi_write_movi_chunk_def Let_def length_pad [symmetric]
    by (auto simp: case_prod_beta cur_entry split: if_splits)
qed

context muxer_file
begin

lemma room_fits:
  assumes "rec_inv a log prev" "cur_addr a + (8 + length (pad buf)) + 8 \<le> idx1_addr a"
  shows "avi_chunk_fits a (8 + length (pad buf))"
  using assms by (auto simp: avi_chunk_fits_def rec_inv_def avi_image_def avi_geo_def Let_def)

lemma index_fits: "rec_inv a log prev \<Longrightarrow> 16 * length log + 32 \<le> IDX_MAX_SIZE \<Longrightarrow> avi_idx_entry_fits a"
  using fits_iff [of a "view (a_file a)" "map (frame_entry (movi_addr a)) log"] by (auto simp: rec_inv_def avi_image_def)

text \<open>While there is room every call succeeds.\<close>

lemma accept_law:
  assumes "rec_inv a log prev" "cur_addr a + call_room c + 8 \<le> idx1_addr a" "16 * length log + 32 \<le> IDX_MAX_SIZE" "c \<noteq> Audio []"
  shows "\<exists>a'. avi_call_do ops c a = (0, a') \<and> cur_addr a' \<le> cur_addr a + call_room c"
proof (cases c)
  case (Video buf key ins)
  show ?thesis
  proof (cases ins)
    case True
    have "\<exists>b. avi_idx_write_entry ops (video_tag a) (last_video_flags a) (last_video_offset a) (last_video_size a) a = (0, b)"
      if nz: "last_video_size a \<noteq> 0"
    proof -
      have "last_is (view (a_file a)) a prev" using assms(1) by (simp add: rec_inv_def avi_image_def)
      then obtain f p d where fr: "frame_at (view (a_file a)) a (video_tag a, f, p, d)" "last_video_flags a = f"
          "last_video_offset a = p - 4 - movi_addr a" "last_video_size a = length d"
        using nz by (auto simp: last_is_def split: option.splits prod.splits)
      show ?thesis using entry_again [OF assms(1) fr(1) index_fits [OF assms(1, 3)]] unfolding fr(2-4) by blast
    qed
    then obtain b where b: "last_video_size a \<noteq> 0 \<longrightarrow>
        avi_idx_write_entry ops (video_tag a) (last_video_flags a) (last_video_offset a) (last_video_size a) a = (0, b)" by blast
    then show ?thesis
      using True Video index_fits [OF assms(1, 3)] cur_entry [of ops "video_tag a" "last_video_flags a" "last_video_offset a" "last_video_size a" a]
      by (auto simp: avimuxer_video_def)
  next
    case False
    have t: "length (video_tag a) = 4" using assms(1) by (simp add: rec_inv_def avi_image_def avi_geo_def)
    obtain off b where "avi_write_movi_chunk ops (video_tag a) (if key then AVIIF_KEYFRAME else 0) buf a = (0, off, b)"
      using chunk_law [OF assms(1) t room_fits [OF assms(1)] index_fits [OF assms(1, 3)]] assms(2) Video False
      by (metis call_room.simps(1))
    then show ?thesis using cur_chunk Video False by (fastforce simp: avimuxer_video_def)
  qed
next
  case (Audio buf)
  have t: "length (str_bytes ''00wb'') = 4" by simp
  obtain off b where b: "avi_write_movi_chunk ops (str_bytes ''00wb'') 0 buf a = (0, off, b)"
    using chunk_law [OF assms(1) t room_fits [OF assms(1)] index_fits [OF assms(1, 3)]] assms(2) Audio by (metis call_room.simps(2))
  then show ?thesis using cur_chunk [OF b] assms(4) Audio by (auto simp: avimuxer_audio_def)
next
  case (SyncTime t)
  then show ?thesis by (simp add: avimuxer_sync_time_def Let_def cur_sync)
qed (simp add: cur_sync)

lemma call_spec_length: "length (fst (call_spec audio vtag c r (log, prev))) \<le> length log + 1"
  by (cases c; cases prev) auto

lemma accept_run:
  assumes "rec_inv a log prev" "cur_addr a + sum_list (map call_room cs) + 8 \<le> idx1_addr a"
    and "16 * (length log + length cs) + 16 \<le> IDX_MAX_SIZE" "Audio [] \<notin> set cs"
  shows "fst (avi_run ops cs a) = replicate (length cs) 0"
  using assms
proof (induction cs arbitrary: a log prev)
  case (Cons c cs)
  have c: "cur_addr a + call_room c + 8 \<le> idx1_addr a" "16 * length log + 32 \<le> IDX_MAX_SIZE" "c \<noteq> Audio []"
    using Cons.prems(2-4) by auto
  obtain a1 where a1: "avi_call_do ops c a = (0, a1)" "cur_addr a1 \<le> cur_addr a + call_room c"
    using accept_law [OF Cons.prems(1) c] by blast
  obtain log1 prev1 where l: "rec_inv a1 log1 prev1" "avi_conf a1 = avi_conf a"
      "(map strip log1, map_option strip prev1) = call_spec (audio_enable a) (video_tag a) c 0 (map strip log, map_option strip prev)"
    using call_law [OF Cons.prems(1), of c] a1(1) by auto
  have "length (map strip log1) \<le> length (map strip log) + 1"
    using call_spec_length [of "audio_enable a" "video_tag a" c 0 "map strip log" "map_option strip prev"] unfolding l(3) [symmetric] by simp
  then have "16 * (length log1 + length cs) + 16 \<le> IDX_MAX_SIZE" using Cons.prems(3) by simp
  moreover have "cur_addr a1 + sum_list (map call_room cs) + 8 \<le> idx1_addr a1"
    using Cons.prems(2) a1(2) conf_sel(4) [OF l(2)] by simp
  ultimately have "fst (avi_run ops cs a1) = replicate (length cs) 0" using Cons.IH [OF l(1)] Cons.prems(4) by simp
  then show ?case using a1(1) by (simp add: case_prod_beta)
qed simp

end

context avi_muxer_file
begin

lemma record_law:
  assumes "ok s" "op_tell ops s = 0" "max_size < 2 ^ 32 - ALIGN" "fsize (fl s) \<le> muxer_file_align_up max_size"
    and "muxer_file_align_up max_size > IDX_MAX_SIZE + ALIGN" "fr \<noteq> 0" "Video [] True False \<notin> set cs"
  shows "\<exists>a rs a' log prev. avimuxer_init_with_file ops on_file s max_size w h fr h265 audio = Some (Some a)
    \<and> avi_run ops cs a = (rs, a') \<and> rec_inv a' log prev \<and> audio_enable a' = audio \<and> map strip log = recorded audio cs rs
    \<and> (recording_fits max_size cs \<longrightarrow> rs = replicate (length cs) 0)
    \<and> (\<forall>fp. avi_playable (fcontent fp) a' log \<longrightarrow> fsize fp = idx1_end_addr a' \<longrightarrow> taken a' log fp)"
proof -
  obtain a where a: "avimuxer_init_with_file ops on_file s max_size w h fr h265 audio = Some (Some a)" "rec_inv a [] None"
      "audio_enable a = audio" "video_tag a = vtag_of audio"
      "strhdr_video a = strhdr_video (avi_init_fields s w h fr h265 audio)"
      "strhdr_audio a = strhdr_audio (avi_init_fields s w h fr h265 audio)"
      "strfmt_audio a = strfmt_audio (avi_init_fields s w h fr h265 audio)"
      "idx1_end_addr a = muxer_file_align_up max_size" "cur_addr a = ALIGN"
    using init_law [OF assms(1-6), of w h h265 audio] by (elim exE conjE) (rule that; assumption)
  obtain rs a' log prev where r: "avi_run ops cs a = (rs, a')" "rec_inv a' log prev" "avi_conf a' = avi_conf a"
      "(map strip log, map_option strip prev) = run_spec_avi audio (vtag_of audio) cs rs ([], None)"
    using run_law [OF a(2), of cs] unfolding a(3, 4) by auto
  have m: "map strip log = recorded audio cs rs" unfolding recorded_def r(4) [symmetric] by simp
  note c = conf_sel [OF r(3)]
  have so: "streams_ok a'"
    unfolding streams_ok_def c a(3, 5-7) by (simp add: avi_init_fields_def)
  have t: "taken a' log fp" if "avi_playable (fcontent fp) a' log" "fsize fp = idx1_end_addr a'" for fp
    using that so c(1, 2) a(3, 4) recorded_ok [OF assms(7), of audio rs] unfolding taken_def m by simp
  have "rs = replicate (length cs) 0" if "recording_fits max_size cs"
  proof -
    have "idx1_end_addr a = idx1_addr a + IDX_MAX_SIZE" using a(2) by (simp add: rec_inv_def avi_image_def avi_geo_def)
    then show ?thesis using accept_run [OF a(2), of cs] that a(8, 9) r(1) by (simp add: recording_fits_def)
  qed
  then show ?thesis using a(1) r(1, 2) m c(1) a(3) t by blast
qed

lemma record_exit:
  assumes "ok s" "op_tell ops s = 0" "max_size < 2 ^ 32 - ALIGN" "fsize (fl s) \<le> muxer_file_align_up max_size"
    and "muxer_file_align_up max_size > IDX_MAX_SIZE + ALIGN" "fr \<noteq> 0" "Video [] True False \<notin> set cs"
  shows "\<exists>a rs a' log. avimuxer_init_with_file ops on_file s max_size w h fr h265 audio = Some (Some a)
    \<and> avi_run ops cs a = (rs, a') \<and> audio_enable a' = audio \<and> map strip log = recorded audio cs rs
    \<and> (recording_fits max_size cs \<longrightarrow> rs = replicate (length cs) 0) \<and> taken a' log (fl (avimuxer_exit ops a'))"
proof -
  obtain a rs a' log prev where r: "avimuxer_init_with_file ops on_file s max_size w h fr h265 audio = Some (Some a)"
      "avi_run ops cs a = (rs, a')" "rec_inv a' log prev" "audio_enable a' = audio" "map strip log = recorded audio cs rs"
      "recording_fits max_size cs \<longrightarrow> rs = replicate (length cs) 0"
      "\<And>fp. avi_playable (fcontent fp) a' log \<Longrightarrow> fsize fp = idx1_end_addr a' \<Longrightarrow> taken a' log fp"
    using record_law [OF assms, of w h h265 audio] by blast
  then show ?thesis using exit_law [OF r(3)] by blast
qed

end

lemma mux_record:
  assumes "fwritable fp" "max_size < 2 ^ 32 - ALIGN" "muxer_file_align_up max_size > IDX_MAX_SIZE + ALIGN" "fr \<noteq> 0"
    and "Video [] True False \<notin> set cs"
  shows "\<exists>a rs a' log. avimuxer_init_with_file (mux_file_get_ops full_disk) on_fp (mux_file_open fp max_size align) max_size w h fr h265 audio
      = Some (Some a)
    \<and> avi_run (mux_file_get_ops full_disk) cs a = (rs, a') \<and> audio_enable a' = audio \<and> map strip log = recorded audio cs rs
    \<and> (recording_fits max_size cs \<longrightarrow> rs = replicate (length cs) 0)
    \<and> taken a' log (mf_fp (avimuxer_exit (mux_file_get_ops full_disk) a'))"
proof -
  have z: "max_size \<noteq> 0" using assms(3) by (auto simp: muxer_file_align_up_def MUXER_FILE_ALIGN_SIZE_def)
  note o = mux_open_ok [OF assms(1) z assms(2), of align]
  have t: "op_tell (mux_file_get_ops full_disk) (mux_file_open fp max_size align) = 0"
    using o(2) by (simp add: mux_file_get_ops_def mux_file_tell_def)
  have "fsize (mf_fp (mux_file_open fp max_size align)) \<le> muxer_file_align_up max_size" using o(3) align_up(2) [OF assms(2)] by simp
  from mux_avi.record_exit [OF o(1) t assms(2) this assms(3-5)] show ?thesis .
qed

text \<open>C4: 
  What the camera records it plays: whatever pictures and sound a recording was given and however often it was synced, once it has
  ended the player opens the file and puts out every picture that was accepted as a key frame, complete and in order, one in a
  round; and while the pictures and the sound fit the file, every call is accepted.
\<close>

theorem avi_record_play:
  assumes "fwritable fp" "max_size < 2 ^ 32 - ALIGN" "muxer_file_align_up max_size > IDX_MAX_SIZE + ALIGN" "fr \<noteq> 0"
    and "Video [] True False \<notin> set cs"
  shows "\<exists>a rs a' m. avimuxer_init_with_file (mux_file_get_ops full_disk) on_fp (mux_file_open fp max_size align) max_size w h fr h265 audio
      = Some (Some a)
    \<and> avi_run (mux_file_get_ops full_disk) cs a = (rs, a') \<and> (recording_fits max_size cs \<longrightarrow> rs = replicate (length cs) 0)
    \<and> avi_read_init data lm rbuf stk (Some (reopen (mf_fp (avimuxer_exit (mux_file_get_ops full_disk) a')))) = Some (Some m)
    \<and> (\<forall>n. play n m 0 = take n (key_frames audio (recorded audio cs rs)))"
proof -
  obtain a rs a' log where r: "avimuxer_init_with_file (mux_file_get_ops full_disk) on_fp (mux_file_open fp max_size align) max_size w h fr
        h265 audio = Some (Some a)"
      "avi_run (mux_file_get_ops full_disk) cs a = (rs, a')" "audio_enable a' = audio" "map strip log = recorded audio cs rs"
      "recording_fits max_size cs \<longrightarrow> rs = replicate (length cs) 0"
      "taken a' log (mf_fp (avimuxer_exit (mux_file_get_ops full_disk) a'))"
    using mux_record [OF assms, of align w h h265 audio] by blast
  obtain m where m: "avi_read_init data lm rbuf stk (Some (reopen (mf_fp (avimuxer_exit (mux_file_get_ops full_disk) a')))) = Some (Some m)"
      "opened a' log (reopen (mf_fp (avimuxer_exit (mux_file_get_ops full_disk) a'))) m"
    using taken_open [OF r(6)] by blast
  have "\<forall>n. play n m 0 = take n (key_frames audio (recorded audio cs rs))"
    using taken_play [OF r(6) m(2)] unfolding r(3, 4) by blast
  then show ?thesis using r(1, 2, 5) m(1) by blast
qed

abbreviation new_file :: ffile where
  "new_file \<equiv> \<lparr>fcontent = \<lambda>_. 0, fsize = 0, fpos = 0, fwritable = True, fcalls = 0\<rparr>"

theorem avi_record_play_witness:
  "\<exists>a a' m. avimuxer_init_with_file (mux_file_get_ops full_disk) on_fp (mux_file_open new_file 2000000 True) 2000000 640 480 30 False True
      = Some (Some a)
    \<and> avi_run (mux_file_get_ops full_disk) [Video [1, 2, 3] True False, Audio [4, 5], Video [] True True] a = ([0, 0, 0], a')
    \<and> avi_read_init [] [] [] (\<lambda>_. ([], [], [])) (Some (reopen (mf_fp (avimuxer_exit (mux_file_get_ops full_disk) a')))) = Some (Some m)
    \<and> play 9 m 0 = [[1, 2, 3, 0], [1, 2, 3, 0]]"
proof -
  let ?cs = "[Video [1, 2, 3] True False, Audio [4, 5], Video [] True True]"
  have s: "2000000 < 2 ^ 32 - ALIGN" "muxer_file_align_up 2000000 > IDX_MAX_SIZE + ALIGN" "recording_fits 2000000 ?cs"
    by (simp_all add: muxer_file_align_up_def MUXER_FILE_ALIGN_SIZE_def IDX_MAX_SIZE_def recording_fits_def length_pad)
  have k: "key_frames True (recorded True ?cs [0, 0, 0]) = [[1, 2, 3, 0], [1, 2, 3, 0]]"
    by (simp add: key_frames_def recorded_def pad_def AVIIF_KEYFRAME_def)
  obtain a rs a' m where r: "avimuxer_init_with_file (mux_file_get_ops full_disk) on_fp (mux_file_open new_file 2000000 True) 2000000
        640 480 30 False True = Some (Some a)"
      "avi_run (mux_file_get_ops full_disk) ?cs a = (rs, a')" "recording_fits 2000000 ?cs \<longrightarrow> rs = replicate (length ?cs) 0"
      "avi_read_init [] [] [] (\<lambda>_. ([], [], [])) (Some (reopen (mf_fp (avimuxer_exit (mux_file_get_ops full_disk) a')))) = Some (Some m)"
      "\<forall>n. play n m 0 = take n (key_frames True (recorded True ?cs rs))"
    using avi_record_play [of new_file 2000000 30 ?cs True 640 480 False True "[]" "[]" "[]" "\<lambda>_. ([], [], [])", OF _ s(1, 2)]
    by auto
  have rs: "rs = [0, 0, 0]" using r(3) s(3) by (simp add: numeral_3_eq_3)
  have "play 9 m 0 = [[1, 2, 3, 0], [1, 2, 3, 0]]" using r(5) k unfolding rs by simp
  then show ?thesis using r(1, 2, 4) unfolding rs by blast
qed



text \<open>C19: 
  The sound of a recording is never played: the muxer gives an audio frame no flags, and the reader passes over an entry without.
\<close>

theorem avi_sound_lost:
  assumes "fwritable fp" "max_size < 2 ^ 32 - ALIGN" "muxer_file_align_up max_size > IDX_MAX_SIZE + ALIGN" "fr \<noteq> 0"
    and "Video [] True False \<notin> set cs"
  shows "\<exists>a rs a' m. avimuxer_init_with_file (mux_file_get_ops full_disk) on_fp (mux_file_open fp max_size align) max_size w h fr h265 True
      = Some (Some a)
    \<and> avi_run (mux_file_get_ops full_disk) cs a = (rs, a') \<and> (recording_fits max_size cs \<longrightarrow> rs = replicate (length cs) 0)
    \<and> avi_read_init data lm rbuf stk (Some (reopen (mf_fp (avimuxer_exit (mux_file_get_ops full_disk) a')))) = Some (Some m)
    \<and> am_sample m = 8000 \<and> (\<forall>k. fst (avi_read_next_audio_index m k) = (0, 0, k))"
proof -
  obtain a rs a' log where r: "avimuxer_init_with_file (mux_file_get_ops full_disk) on_fp (mux_file_open fp max_size align) max_size w h fr
        h265 True = Some (Some a)"
      "avi_run (mux_file_get_ops full_disk) cs a = (rs, a')" "audio_enable a'" "recording_fits max_size cs \<longrightarrow> rs = replicate (length cs) 0"
      "taken a' log (mf_fp (avimuxer_exit (mux_file_get_ops full_disk) a'))"
    using mux_record [OF assms, of align w h h265 True] by blast
  obtain m where m: "avi_read_init data lm rbuf stk (Some (reopen (mf_fp (avimuxer_exit (mux_file_get_ops full_disk) a')))) = Some (Some m)"
      "opened a' log (reopen (mf_fp (avimuxer_exit (mux_file_get_ops full_disk) a'))) m"
    using taken_open [OF r(5)] by blast
  have "am_sample m = 8000" using m(2) r(3, 5) by (simp add: opened_def taken_def streams_ok_def)
  then show ?thesis using r(1, 2, 4) m(1) taken_mute [OF r(5) m(2)] by blast
qed

theorem avi_sound_lost_witness:
  "\<exists>a a' m. avimuxer_init_with_file (mux_file_get_ops full_disk) on_fp (mux_file_open new_file 2000000 True) 2000000 640 480 30 False True
      = Some (Some a)
    \<and> avi_run (mux_file_get_ops full_disk) [Audio [4, 5]] a = ([0], a')
    \<and> avi_read_init [] [] [] (\<lambda>_. ([], [], [])) (Some (reopen (mf_fp (avimuxer_exit (mux_file_get_ops full_disk) a')))) = Some (Some m)
    \<and> fst (avi_read_next_audio_index m 0) = (0, 0, 0)"
proof -
  have s: "2000000 < 2 ^ 32 - ALIGN" "muxer_file_align_up 2000000 > IDX_MAX_SIZE + ALIGN" "recording_fits 2000000 [Audio [4, 5]]"
    by (simp_all add: muxer_file_align_up_def MUXER_FILE_ALIGN_SIZE_def IDX_MAX_SIZE_def recording_fits_def length_pad)
  obtain a rs a' m where r: "avimuxer_init_with_file (mux_file_get_ops full_disk) on_fp (mux_file_open new_file 2000000 True) 2000000
        640 480 30 False True = Some (Some a)"
      "avi_run (mux_file_get_ops full_disk) [Audio [4, 5]] a = (rs, a')"
      "recording_fits 2000000 [Audio [4, 5]] \<longrightarrow> rs = replicate (length [Audio [4, 5]]) 0"
      "avi_read_init [] [] [] (\<lambda>_. ([], [], [])) (Some (reopen (mf_fp (avimuxer_exit (mux_file_get_ops full_disk) a')))) = Some (Some m)"
      "\<forall>k. fst (avi_read_next_audio_index m k) = (0, 0, k)"
    using avi_sound_lost [of new_file 2000000 30 "[Audio [4, 5]]" True 640 480 False "[]" "[]" "[]" "\<lambda>_. ([], [], [])", OF _ s(1, 2)]
    by auto
  then show ?thesis using s(3) by auto
qed

context muxer_file
begin

lemma refuse_law:
  assumes "rec_inv a log prev" "avi_call_do ops c a = (r, b)" "r \<noteq> 0"
  shows "b = a \<and> (r = AVIMUXER_FULL \<or> c = Audio [])"
proof -
  have chunk: "\<exists>off a'. avi_write_movi_chunk ops tag f buf a = (0, off, a')
      \<or> avi_write_movi_chunk ops tag f buf a = (AVIMUXER_FULL, 0, a)" if "length tag = 4" for tag f buf
    using chunk_law [OF assms(1) that, of buf f] chunk_full [of a buf tag f] by blast
  show ?thesis
  proof (cases c)
    case (Video buf key ins)
    show ?thesis
    proof (cases ins)
      case True
      have "b = a \<and> r = AVIMUXER_FULL"
      proof (cases "last_video_size a \<noteq> 0 \<and> avi_idx_entry_fits a")
        case room: True
        have "last_is (view (a_file a)) a prev" using assms(1) by (simp add: rec_inv_def avi_image_def)
        then obtain f p d where fr: "frame_at (view (a_file a)) a (video_tag a, f, p, d)" "last_video_flags a = f"
            "last_video_offset a = p - 4 - movi_addr a" "last_video_size a = length d"
          using room by (auto simp: last_is_def split: option.splits prod.splits)
        have fits: "avi_idx_entry_fits a" using room by blast
        obtain a' where "avi_idx_write_entry ops (video_tag a) f (p - 4 - movi_addr a) (length d) a = (0, a')"
          using entry_again [OF assms(1) fr(1) fits] by blast
        then have "r = 0" using assms(2) True Video fits fr(2-4) by (simp add: avimuxer_video_def split: if_splits)
        then show ?thesis using assms(3) by simp
      next
        case False
        then show ?thesis using assms(2, 3) True Video by (auto simp: avimuxer_video_def split: if_splits)
      qed
      then show ?thesis by blast
    next
      case False
      have t: "length (video_tag a) = 4" using assms(1) by (simp add: rec_inv_def avi_image_def avi_geo_def)
      show ?thesis using chunk [OF t, of "if key then AVIIF_KEYFRAME else 0" buf] assms(2, 3) False Video
        by (auto simp: avimuxer_video_def)
    qed
  next
    case (Audio buf)
    show ?thesis using chunk [of "str_bytes ''00wb''" 0 buf] assms(2, 3) Audio by (auto simp: avimuxer_audio_def split: if_splits)
  qed (use assms(2, 3) in auto)
qed

end



section \<open>Files that are not from the recorder\<close>

text \<open>The size of a chunk is added to the position in 32 bits. A JUNK chunk of size \<open>0xFFFFFFF8\<close> leads back to its own beginning.\<close>

definition junk_file :: "u8 list" where
  "junk_file = str_bytes ''RIFF'' @ le32 12 @ str_bytes ''AVI '' @ str_bytes ''JUNK'' @ le32 (2 ^ 32 - 8)"

lemma junk_loop:
  assumes "read_chunks data h m = Some y" "ro fp" "placed (fcontent fp) x (str_bytes ''JUNK'' @ le32 (2 ^ 32 - 8))" "x + 8 \<le> fsize fp"
  shows "am_fp m \<noteq> at_pos fp x"
proof (rule read_chunks.raw_induct [OF _ assms(1), of "\<lambda>data h m y. am_fp m \<noteq> at_pos fp x"], goal_cases)
  case (1 rc data h m y)
  show ?case
  proof
    assume m: "am_fp m = at_pos fp x"
    let ?d = "into data (str_bytes ''JUNK'' @ le32 (2 ^ 32 - 8))"
    have n: "even (2 ^ 32 - 8 :: nat)" "(2 ^ 32 - 8 :: nat) < 2 ^ 32" by simp_all
    have sz: "(u32_at ?d 4 + 1) AND NOT 1 = w32 (2 ^ 32 - 8)" by (rule chunk_size [OF n]) simp
    have r: "osal_fread 8 (am_fp m) = (str_bytes ''JUNK'' @ le32 (2 ^ 32 - 8), at_pos fp (x + 8))"
      using chunk_step [OF m assms(3)] assms(4) by simp
    have b: "w32 (2 ^ 32 - 8) + tell32 (at_pos fp (x + 8)) = w32 x"
    proof -
      have "w32 (2 ^ 32 - 8) + tell32 (at_pos fp (x + 8)) = w32 (2 ^ 32 + x)" unfolding tell_at of_nat_add [symmetric] by simp
      also have "\<dots> = w32 x" by (simp only: of_nat_add of_nat_power) simp
      finally show ?thesis .
    qed
    have k: "seek_to (w32 (2 ^ 32 - 8) + tell32 (at_pos fp (x + 8))) (at_pos fp (x + 8)) = at_pos fp x"
      unfolding b using seek_at [OF assms(2), of x "x + 8"] assms(4) by simp
    have t: "\<not> fcc_is ?d 0 ''LIST''" "fcc_is ?d 0 ''JUNK''" by (simp_all add: tag_simps)
    have "rc ?d h (m\<lparr>am_fp := at_pos fp x\<rparr>) = Some y"
      using 1(2) unfolding Let_def r prod.case sz k using t by simp
    from 1(1) [OF this] show False by simp
  qed
qed

text \<open>C40: A file of 20 bytes, a JUNK chunk of that size behind the head of an AVI file, keeps \<open>avi_read_init\<close> busy for good.\<close>

theorem avi_open_endless:
  assumes "placed (fcontent fp) 0 junk_file" "fsize fp = 20" "fpos fp = 0" "\<not> fwritable fp"
  shows "avi_read_init data lm rbuf stk (Some fp) = None"
proof -
  let ?bs = "str_bytes ''RIFF'' @ le32 12 @ str_bytes ''AVI ''"
  have p: "placed (fcontent fp) 0 ?bs" "placed (fcontent fp) 12 (str_bytes ''JUNK'' @ le32 (2 ^ 32 - 8))"
    using assms(1) by (simp_all add: junk_file_def placed_append)
  have fp0: "fp = at_pos fp 0" using assms(3) by simp
  have rd: "osal_fread 12 fp = (?bs, at_pos fp 12)"
    by (subst fp0, subst read_at [OF p(1)]) (use assms(2) in simp_all)
  have f: "fcc_is (into data ?bs) 0 ''RIFF''" "fcc_is (into data ?bs) 8 ''AVI ''"
    using fcc_into [of 0 ?bs "''RIFF''" "''RIFF''" True data] fcc_into [of 8 ?bs "''AVI ''" "''AVI ''" True data]
    by (simp_all add: tag_simps)
  have ro: "ro fp" using assms(2, 4) by (simp add: ro_def)
  have "read_chunks (into data ?bs) 0 (zero_msg (at_pos fp 12)) = None"
  proof (cases "read_chunks (into data ?bs) 0 (zero_msg (at_pos fp 12))")
    case (Some y)
    then show ?thesis using junk_loop [OF Some ro p(2)] assms(2) by (simp add: zero_msg_def)
  qed
  then show ?thesis unfolding avi_read_init_def option.case rd Let_def prod.case using f by simp
qed

theorem avi_open_endless_witness:
  "avi_read_init [] [] [] (\<lambda>_. ([], [], []))
     (Some \<lparr>fcontent = overlay (\<lambda>_. 0) 0 junk_file, fsize = 20, fpos = 0, fwritable = False, fcalls = 0\<rparr>) = None"
  by (rule avi_open_endless) simp_all

end
