(* ===== verification/Mp4Mux.thy ===== *)
theory Mp4Mux
  imports MuxFile ByteShift
begin

text \<open>
  The MP4 muxer, \<open>sdk/app/mp4/mp4_encode.c\<close>. The boxes \<open>ftyp\<close> and \<open>moov\<close> come first, with room reserved for the
  sample tables of each track, then \<open>mdat\<close> with the samples. Table entries are collected in buffers of 512 bytes and brought
  to the file by \<open>mp4_sync\<close>, with the counters and durations.

  The file is any that has the operations of \<open>OsalFile\<close>; the muxer keeps a position \<open>io_offset\<close> of its own beside that of the
  file. \<open>mp4_active_msg\<close> is the muxer itself in every call that is modelled, and \<open>ops_init\<close> holds, since a muxer without
  operations is not made. Offsets and sizes are natural numbers below \<open>2 ^ 32\<close>; where the code wraps in an ordinary run, it is
  written out. Memory behind a pointer is a function. The table of clusters for fast seeking is FatFs's and not modelled, allocation succeeds.
\<close>

section \<open>Numbers and structures\<close>

definition be32 :: "nat \<Rightarrow> u8 list" where
  "be32 n = enc_be32 (word_of_nat n)"

definition be16 :: "nat \<Rightarrow> u8 list" where
  "be16 n = enc_be16 (word_of_nat n)"

definition be24 :: "nat \<Rightarrow> u8 list" where
  "be24 n = drop 1 (be32 n)"

lemma length_be [simp]: "length (be32 n) = 4" "length (be16 n) = 2" "length (be24 n) = 3"
  by (simp_all add: be32_def be16_def be24_def enc_be32_def enc_be16_def)

text \<open>
  The five tables of a track: where the entries begin, where the next ones go, the bytes collected (\<open>need_write_len\<close> is
  their number), and the counter.
\<close>

record sample_table =
  tab_offset :: nat
  tab_write_offset :: nat
  tab_buf :: "u8 list"
  tab_count :: nat

record trak_key_msg =
  tkhd_duration_offset :: nat
  mdhd_duration_offset :: nat
  tk_duration :: nat
  tk_count :: nat
  stts :: sample_table
  last_sample_count :: nat
  last_delta :: nat
  stsc :: sample_table
  stsz :: sample_table
  stco :: sample_table
  stss :: sample_table

record mp4_key =
  mp4_init :: bool
  mp4_audio_enable :: bool
  asps_data :: "u8 list"
  video_w :: nat
  video_h :: nat
  mp4_syn_time :: nat
  sps_len :: nat
  pps_len :: nat
  sps_data :: "nat \<Rightarrow> u8"
  pps_data :: "nat \<Rightarrow> u8"
  trak_count :: nat
  file_max_size :: nat
  mdat_size :: nat
  mdat_offset :: nat
  mdat_nowoffset :: nat
  mvhd_duration_offset :: nat
  mdat_writer_init :: bool
  trak :: "trak_key_msg list"

record 's mp4 =
  m4_file :: 's
  io_offset :: nat
  msg_end :: nat
  mkey :: mp4_key

definition STTS_COUNT :: nat where "STTS_COUNT = 0x2000"
definition STSC_COUNT :: nat where "STSC_COUNT = 1"
definition STSZ_COUNT :: nat where "STSZ_COUNT = 0x20000"
definition STCO_COUNT :: nat where "STCO_COUNT = 0x20000"
definition STSS_COUNT :: nat where "STSS_COUNT = 0x10000"

definition empty_table :: sample_table where
  "empty_table = \<lparr>tab_offset = 0, tab_write_offset = 0, tab_buf = [], tab_count = 0\<rparr>"

definition empty_trak :: trak_key_msg where
  "empty_trak = \<lparr>tkhd_duration_offset = 0, mdhd_duration_offset = 0, tk_duration = 0, tk_count = 0, stts = empty_table,
     last_sample_count = 0, last_delta = 0, stsc = empty_table, stsz = empty_table, stco = empty_table, stss = empty_table\<rparr>"

definition on_key :: "(mp4_key \<Rightarrow> mp4_key) \<Rightarrow> 's mp4 \<Rightarrow> 's mp4" where
  "on_key g m = m\<lparr>mkey := g (mkey m)\<rparr>"

definition on_trak :: "nat \<Rightarrow> (trak_key_msg \<Rightarrow> trak_key_msg) \<Rightarrow> mp4_key \<Rightarrow> mp4_key" where
  "on_trak i g k = k\<lparr>trak := (trak k)[i := g (trak k ! i)]\<rparr>"

section \<open>The position\<close>

definition mp4_set_io_offset :: "'s file_ops \<Rightarrow> nat \<Rightarrow> 's mp4 \<Rightarrow> 's mp4" where
  "mp4_set_io_offset ops offset m =
     (let file_offset = op_tell ops (m4_file m);
          m = (if offset > file_offset then m\<lparr>m4_file := snd (op_skip ops (offset - file_offset) (m4_file m))\<rparr> else m)
      in m\<lparr>io_offset := offset, msg_end := (if msg_end m < offset then offset else msg_end m)\<rparr>)"

definition mp4_tell :: "'s mp4 \<Rightarrow> nat" where
  "mp4_tell m = io_offset m"

text \<open>\<open>mp4_seek\<close> with \<open>SEEK_SET\<close> and with \<open>SEEK_CUR\<close>; \<open>SEEK_END\<close> is not used.\<close>

definition mp4_seek_set :: "'s file_ops \<Rightarrow> nat \<Rightarrow> 's mp4 \<Rightarrow> 's mp4" where
  "mp4_seek_set ops offset m = mp4_set_io_offset ops offset m"

definition mp4_seek_cur :: "'s file_ops \<Rightarrow> nat \<Rightarrow> 's mp4 \<Rightarrow> 's mp4" where
  "mp4_seek_cur ops offset m = mp4_set_io_offset ops ((io_offset m + offset) mod 2 ^ 32) m"

definition mp4_truncate :: "'s file_ops \<Rightarrow> nat \<Rightarrow> 's mp4 \<Rightarrow> 's mp4" where
  "mp4_truncate ops offset m = mp4_set_io_offset ops ((io_offset m + offset) mod 2 ^ 32) m"

definition mp4_file_syn :: "'s file_ops \<Rightarrow> 's mp4 \<Rightarrow> 's mp4" where
  "mp4_file_syn ops m = m\<lparr>m4_file := snd (op_flush ops (m4_file m))\<rparr>"

text \<open>After a write.\<close>

definition io_advance :: "nat \<Rightarrow> 's mp4 \<Rightarrow> 's mp4" where
  "io_advance n m = m\<lparr>io_offset := io_offset m + n, msg_end := max (msg_end m) (io_offset m + n)\<rparr>"

text \<open>1 is a failure.\<close>

definition mp4_write :: "'s file_ops \<Rightarrow> u8 list \<Rightarrow> 's mp4 \<Rightarrow> u32 \<times> 's mp4" where
  "mp4_write ops bs m =
     (if op_tell ops (m4_file m) = io_offset m then
        let (r, s) = op_write ops bs (m4_file m); m = m\<lparr>m4_file := s\<rparr>
        in if r \<noteq> 0 then (1, m) else (0, io_advance (length bs) m)
      else
        let file_offset = op_tell ops (m4_file m); write_end = io_offset m + length bs;
            (r, s) = (if write_end > file_offset then op_skip ops (write_end - file_offset) (m4_file m) else (0, m4_file m))
        in if r \<noteq> 0 then (1, m\<lparr>m4_file := s\<rparr>)
           else let (r, s) = op_write_at ops (io_offset m) bs s; m = m\<lparr>m4_file := s\<rparr>
                in if r \<noteq> 0 then (1, m) else (0, io_advance (length bs) m))"

definition mp4_mdat_write_data :: "'s file_ops \<Rightarrow> u8 list \<Rightarrow> 's mp4 \<Rightarrow> u32 \<times> 's mp4" where
  "mp4_mdat_write_data ops bs m =
     (if \<not> mdat_writer_init (mkey m) then (1, m)
      else let (r, s) = op_write ops bs (m4_file m); m = m\<lparr>m4_file := s\<rparr>
           in if r \<noteq> 0 then (1, m) else (0, io_advance (length bs) m))"

definition mp4_written_duration_ms :: "mp4_key \<Rightarrow> nat" where
  "mp4_written_duration_ms k = fold (\<lambda>t d. if d > tk_duration t then d else tk_duration t) (take (trak_count k) (trak k)) 0"

definition mp4_reset_init_state :: "'s file_ops \<Rightarrow> 's mp4 \<Rightarrow> 's mp4" where
  "mp4_reset_init_state ops m = m\<lparr>io_offset := op_tell ops (m4_file m), msg_end := 0,
     mkey := (mkey m)\<lparr>mp4_init := False, mp4_syn_time := 0, trak_count := 0, mdat_size := 0, mdat_offset := 0,
       mdat_nowoffset := 0, mvhd_duration_offset := 0, mdat_writer_init := False, trak := [empty_trak, empty_trak]\<rparr>\<rparr>"

section \<open>Boxes\<close>

text \<open>
  \<open>ATOM\<close> notes the offset and steps over the structure, \<open>END_ATOM\<close> goes back to write it, and on to the end of what is written.
  The stack of open boxes is the nesting of the calls.
\<close>

definition ATOM :: "'s file_ops \<Rightarrow> nat \<Rightarrow> (nat \<Rightarrow> 's mp4 \<Rightarrow> 's mp4) \<Rightarrow> ('s mp4 \<Rightarrow> 's mp4) \<Rightarrow> 's mp4 \<Rightarrow> 's mp4" where
  "ATOM ops sz func body m =
     (let offset = mp4_tell m; m = func offset (body (mp4_seek_cur ops sz m)) in mp4_seek_set ops (msg_end m) m)"

definition steps :: "('x \<Rightarrow> 'x) list \<Rightarrow> 'x \<Rightarrow> 'x" where
  "steps fs = fold (\<lambda>f. f) fs"

definition note_end :: "'s mp4 \<Rightarrow> 's mp4" where
  "note_end m = m\<lparr>msg_end := (if msg_end m > mp4_tell m then msg_end m else mp4_tell m)\<rparr>"

definition put :: "'s file_ops \<Rightarrow> u8 list \<Rightarrow> 's mp4 \<Rightarrow> 's mp4" where
  "put ops bs m = snd (mp4_write ops bs m)"

text \<open>What the functions have in common: write a structure at the offset.\<close>

definition put_at :: "'s file_ops \<Rightarrow> u8 list \<Rightarrow> nat \<Rightarrow> 's mp4 \<Rightarrow> 's mp4" where
  "put_at ops bs offset m = note_end (put ops bs (mp4_seek_set ops offset m))"

definition common_box :: "nat \<Rightarrow> string \<Rightarrow> u8 list" where
  "common_box sz name = be32 sz @ str_bytes name"

definition full_box :: "nat \<Rightarrow> string \<Rightarrow> nat \<Rightarrow> u8 list" where
  "full_box sz name flags = common_box sz name @ [0] @ be24 flags"

definition box_ftyp :: "u8 list" where
  "box_ftyp = [0, 0, 0, 0x18] @ str_bytes ''ftyp'' @ str_bytes ''mp42'' @ [0, 0, 0, 0] @ str_bytes ''mp42'' @ str_bytes ''isom''"

definition matrix9 :: "u8 list" where
  "matrix9 = be32 0x10000 @ be32 0 @ be32 0 @ be32 0 @ be32 0x10000 @ be32 0 @ be32 0 @ be32 0 @ be32 0x40000000"

definition mp4_ftyp_write :: "'s file_ops \<Rightarrow> nat \<Rightarrow> 's mp4 \<Rightarrow> 's mp4" where
  "mp4_ftyp_write ops offset m = put_at ops box_ftyp offset m"

definition mp4_moov_write :: "'s file_ops \<Rightarrow> nat \<Rightarrow> 's mp4 \<Rightarrow> 's mp4" where
  "mp4_moov_write ops offset m = put_at ops (common_box (mp4_tell m - offset) ''moov'') offset m"

definition mvhd_bytes :: "u8 list" where
  "mvhd_bytes = full_box 108 ''mvhd'' 0 @ be32 0 @ be32 0 @ be32 1000 @ be32 0 @ be32 0x10000 @ be16 0x100 @ replicate 10 0
     @ matrix9 @ replicate 24 0 @ be32 3"

definition mp4_mvhd_write :: "'s file_ops \<Rightarrow> nat \<Rightarrow> 's mp4 \<Rightarrow> 's mp4" where
  "mp4_mvhd_write ops offset m =
     (let m = mp4_seek_set ops offset m; m = on_key (\<lambda>k. k\<lparr>mvhd_duration_offset := mp4_tell m + 24\<rparr>) m
      in note_end (put ops mvhd_bytes m))"

definition mp4_trak_write :: "'s file_ops \<Rightarrow> nat \<Rightarrow> 's mp4 \<Rightarrow> 's mp4" where
  "mp4_trak_write ops offset m = put_at ops (common_box (mp4_tell m - offset) ''trak'') offset m"

definition tkhd_bytes :: "mp4_key \<Rightarrow> u8 list" where
  "tkhd_bytes k = full_box 92 ''tkhd'' 7 @ be32 0 @ be32 0 @ be32 (trak_count k) @ be32 0 @ be32 19985 @ replicate 8 0
     @ be16 0 @ be16 0 @ be16 0x100 @ be16 0 @ matrix9
     @ (if trak_count k = 1 then be32 (video_w k * 2 ^ 16) @ be32 (video_h k * 2 ^ 16) else be32 0 @ be32 0)"

definition mp4_tkhd_write :: "'s file_ops \<Rightarrow> nat \<Rightarrow> 's mp4 \<Rightarrow> 's mp4" where
  "mp4_tkhd_write ops offset m =
     (let m = mp4_seek_set ops offset m;
          m = on_key (\<lambda>k. on_trak (trak_count k - 1) (\<lambda>t. t\<lparr>tkhd_duration_offset := mp4_tell m + 28\<rparr>) k) m
      in note_end (put ops (tkhd_bytes (mkey m)) m))"

definition mp4_mdia_write :: "'s file_ops \<Rightarrow> nat \<Rightarrow> 's mp4 \<Rightarrow> 's mp4" where
  "mp4_mdia_write ops offset m = put_at ops (common_box (mp4_tell m - offset) ''mdia'') offset m"

definition lang_code :: nat where
  "lang_code = (0x75 mod 32) * 2 ^ 10 + (0x6e mod 32) * 2 ^ 5 + 0x64 mod 32"

definition mdhd_bytes :: "u8 list" where
  "mdhd_bytes = full_box 32 ''mdhd'' 0 @ be32 0 @ be32 0 @ be32 90000 @ be32 1798650 @ be16 lang_code @ be16 0"

definition mp4_mdhd_write :: "'s file_ops \<Rightarrow> nat \<Rightarrow> 's mp4 \<Rightarrow> 's mp4" where
  "mp4_mdhd_write ops offset m =
     (let m = mp4_seek_set ops offset m;
          m = on_key (\<lambda>k. on_trak (trak_count k - 1) (\<lambda>t. t\<lparr>mdhd_duration_offset := mp4_tell m + 24\<rparr>) k) m
      in note_end (put ops mdhd_bytes m))"

definition hdlr_bytes :: "mp4_key \<Rightarrow> u8 list" where
  "hdlr_bytes k = full_box (32 + 12 + 1) ''hdlr'' 0 @ be32 0
     @ (if trak_count k = 1 then str_bytes ''vide'' else if trak_count k = 2 then str_bytes ''soun'' else be32 0) @ replicate 12 0"

definition mp4_hdlr_write :: "'s file_ops \<Rightarrow> nat \<Rightarrow> 's mp4 \<Rightarrow> 's mp4" where
  "mp4_hdlr_write ops offset m =
     (let m = put ops (hdlr_bytes (mkey m)) (mp4_seek_set ops offset m);
          m = (if trak_count (mkey m) = 1 then put ops (str_bytes ''VideoHandler'' @ [0]) m
               else if trak_count (mkey m) = 2 then put ops (str_bytes ''SoundHandler'' @ [0]) m else m)
      in note_end m)"

definition mp4_minf_write :: "'s file_ops \<Rightarrow> nat \<Rightarrow> 's mp4 \<Rightarrow> 's mp4" where
  "mp4_minf_write ops offset m = put_at ops (common_box (mp4_tell m - offset) ''minf'') offset m"

definition mp4_vmhd_write :: "'s file_ops \<Rightarrow> nat \<Rightarrow> 's mp4 \<Rightarrow> 's mp4" where
  "mp4_vmhd_write ops offset m = put_at ops (full_box 20 ''vmhd'' 1 @ replicate 8 0) offset m"

definition mp4_dinf_write :: "'s file_ops \<Rightarrow> nat \<Rightarrow> 's mp4 \<Rightarrow> 's mp4" where
  "mp4_dinf_write ops offset m = put_at ops (common_box (mp4_tell m - offset) ''dinf'') offset m"

definition mp4_dref_write :: "'s file_ops \<Rightarrow> nat \<Rightarrow> 's mp4 \<Rightarrow> 's mp4" where
  "mp4_dref_write ops offset m = put_at ops (full_box (mp4_tell m - offset) ''dref'' 0 @ be32 1) offset m"

definition mp4_url_write :: "'s file_ops \<Rightarrow> nat \<Rightarrow> 's mp4 \<Rightarrow> 's mp4" where
  "mp4_url_write ops offset m = put_at ops (full_box 12 ''url '' 1) offset m"

definition mp4_stbl_write :: "'s file_ops \<Rightarrow> nat \<Rightarrow> 's mp4 \<Rightarrow> 's mp4" where
  "mp4_stbl_write ops offset m = put_at ops (common_box (mp4_tell m - offset) ''stbl'') offset m"

definition mp4_stsd_write :: "'s file_ops \<Rightarrow> nat \<Rightarrow> 's mp4 \<Rightarrow> 's mp4" where
  "mp4_stsd_write ops offset m = put_at ops (full_box (mp4_tell m - offset) ''stsd'' 0 @ be32 1) offset m"

definition avc1_bytes :: "nat \<Rightarrow> mp4_key \<Rightarrow> u8 list" where
  "avc1_bytes sz k = common_box sz ''avc1'' @ replicate 6 0 @ be16 1 @ replicate 16 0 @ be16 (video_w k) @ be16 (video_h k)
     @ be32 0x480000 @ be32 0x480000 @ replicate 4 0 @ be16 1 @ replicate 32 0 @ be16 0x18 @ [0xff, 0xff]"

definition mp4_avc1_write :: "'s file_ops \<Rightarrow> nat \<Rightarrow> 's mp4 \<Rightarrow> 's mp4" where
  "mp4_avc1_write ops offset m = put_at ops (avc1_bytes (mp4_tell m - offset) (mkey m)) offset m"

text \<open>\<open>len\<close> is of 8 bits.\<close>

definition avcC_len :: "mp4_key \<Rightarrow> nat" where
  "avcC_len k = (1 + 2 + sps_len k + 1 + 2 + pps_len k) mod 256"

definition avcC_bytes :: "mp4_key \<Rightarrow> u8 list" where
  "avcC_bytes k = common_box (13 + avcC_len k) ''avcC'' @ [1, sps_data k 1, sps_data k 2, sps_data k 3, 0xff]"

definition sps_pps_bytes :: "mp4_key \<Rightarrow> u8 list" where
  "sps_pps_bytes k = [0xe1] @ be16 (sps_len k) @ bytes_at (sps_data k) 0 (sps_len k)
     @ [1] @ be16 (pps_len k) @ bytes_at (pps_data k) 0 (pps_len k)"

definition mp4_avcC_write :: "'s file_ops \<Rightarrow> nat \<Rightarrow> 's mp4 \<Rightarrow> 's mp4" where
  "mp4_avcC_write ops offset m =
     note_end (put ops (take (avcC_len (mkey m)) (sps_pps_bytes (mkey m)))
                (put ops (avcC_bytes (mkey m)) (mp4_seek_set ops offset m)))"

definition colr_bytes :: "u8 list" where
  "colr_bytes = common_box 19 ''colr'' @ str_bytes ''nclc'' @ be16 1 @ be16 1 @ be16 1 @ [80]"

definition mp4_colr_write :: "'s file_ops \<Rightarrow> nat \<Rightarrow> 's mp4 \<Rightarrow> 's mp4" where
  "mp4_colr_write ops offset m = put_at ops colr_bytes offset m"

text \<open>The tables: the structure up to \<open>end\<close>, the place of the entries, and the room for them.\<close>

definition table_at :: "((sample_table \<Rightarrow> sample_table) \<Rightarrow> trak_key_msg \<Rightarrow> trak_key_msg) \<Rightarrow> nat \<Rightarrow> 's mp4 \<Rightarrow> 's mp4" where
  "table_at upd off m = on_key (\<lambda>k. on_trak (trak_count k - 1) (upd (\<lambda>t. t\<lparr>tab_offset := off, tab_write_offset := off\<rparr>)) k) m"

definition mp4_stts_write :: "'s file_ops \<Rightarrow> nat \<Rightarrow> 's mp4 \<Rightarrow> 's mp4" where
  "mp4_stts_write ops offset m =
     (let m = mp4_seek_set ops offset m; m = table_at stts_update (mp4_tell m + 16) m;
          m = note_end (put ops (full_box (16 + STTS_COUNT * 8) ''stts'' 0 @ be32 0) m)
      in note_end (mp4_truncate ops (STTS_COUNT * 8) m))"

definition mp4_stsc_write :: "'s file_ops \<Rightarrow> nat \<Rightarrow> 's mp4 \<Rightarrow> 's mp4" where
  "mp4_stsc_write ops offset m =
     (let m = mp4_seek_set ops offset m; m = table_at stsc_update (mp4_tell m + 16) m;
          m = put ops (full_box (16 + STSC_COUNT * 12) ''stsc'' 0 @ be32 STSC_COUNT) m
      in note_end (put ops (be32 1 @ be32 1 @ be32 1) m))"

definition mp4_stsz_write :: "'s file_ops \<Rightarrow> nat \<Rightarrow> 's mp4 \<Rightarrow> 's mp4" where
  "mp4_stsz_write ops offset m =
     (let m = mp4_seek_set ops offset m; m = table_at stsz_update (mp4_tell m + 20) m;
          m = note_end (put ops (full_box (20 + STSZ_COUNT * 4) ''stsz'' 0 @ be32 0 @ be32 0) m)
      in note_end (mp4_truncate ops (STSZ_COUNT * 4) m))"

definition mp4_stco_write :: "'s file_ops \<Rightarrow> nat \<Rightarrow> 's mp4 \<Rightarrow> 's mp4" where
  "mp4_stco_write ops offset m =
     (let m = mp4_seek_set ops offset m; m = table_at stco_update (mp4_tell m + 16) m;
          m = note_end (put ops (full_box (16 + STCO_COUNT * 4) ''stco'' 0 @ be32 0) m)
      in note_end (mp4_truncate ops (STCO_COUNT * 4) m))"

definition mp4_stss_write :: "'s file_ops \<Rightarrow> nat \<Rightarrow> 's mp4 \<Rightarrow> 's mp4" where
  "mp4_stss_write ops offset m =
     (let m = mp4_seek_set ops offset m; m = table_at stss_update (mp4_tell m + 16) m;
          m = note_end (put ops (full_box (16 + STSS_COUNT * 4) ''stss'' 0 @ be32 0) m)
      in note_end (mp4_truncate ops (STSS_COUNT * 4) m))"

definition mp4_smhd_write :: "'s file_ops \<Rightarrow> nat \<Rightarrow> 's mp4 \<Rightarrow> 's mp4" where
  "mp4_smhd_write ops offset m = put_at ops (full_box 16 ''smhd'' 0 @ be16 0 @ be16 0) offset m"

definition mp4a_bytes :: "nat \<Rightarrow> u8 list" where
  "mp4a_bytes sz = common_box sz ''mp4a'' @ replicate 6 0 @ be16 1 @ be16 0 @ be16 0 @ be32 0 @ be16 1 @ be16 16 @ replicate 4 0
     @ be16 (90000 mod 2 ^ 16) @ [0, 0]"

definition mp4_mp4a_write :: "'s file_ops \<Rightarrow> nat \<Rightarrow> 's mp4 \<Rightarrow> 's mp4" where
  "mp4_mp4a_write ops offset m = put_at ops (mp4a_bytes (mp4_tell m - offset)) offset m"

function od_size_of_size :: "nat \<Rightarrow> nat" where
  "od_size_of_size i = (if i > 0x7F then 1 + od_size_of_size (i - 0x7F) else 1)"
  by pat_completeness auto
termination by (relation "measure (\<lambda>i. i)") auto

declare od_size_of_size.simps [simp del]

text \<open>The pieces that are written one after the other.\<close>

definition esds_parts :: "u8 list \<Rightarrow> u8 list list" where
  "esds_parts asps =
     (if asps \<noteq> [] then
        let dsi_bytes = length asps; dsi_size_size = od_size_of_size dsi_bytes;
            dcd_bytes = dsi_bytes + dsi_size_size + 1 + (1 + 1 + 3 + 4 + 4); dcd_size_size = od_size_of_size dcd_bytes;
            esd_bytes = dcd_bytes + dcd_size_size + 1 + 3
        in [full_box (12 + esd_bytes + 2) ''esds'' 0, [3], [word_of_nat esd_bytes], be16 0, [0], [4], [word_of_nat dcd_bytes],
            [0x40], [20], [0, 0x30, 0], be32 0, be32 0, [5], [word_of_nat dsi_bytes], asps]
      else [full_box 12 ''esds'' 0])"

definition mp4_esds_write :: "'s file_ops \<Rightarrow> nat \<Rightarrow> 's mp4 \<Rightarrow> 's mp4" where
  "mp4_esds_write ops offset m = note_end (steps (map (put ops) (esds_parts (asps_data (mkey m)))) (mp4_seek_set ops offset m))"

definition mp4_mdat_write :: "'s file_ops \<Rightarrow> nat \<Rightarrow> 's mp4 \<Rightarrow> 's mp4" where
  "mp4_mdat_write ops offset m =
     (let max_mdata_size = file_max_size (mkey m);
          m = note_end (mp4_seek_set ops offset m);
          m = on_key (\<lambda>k. k\<lparr>mdat_offset := mp4_tell m\<rparr>) m;
          mdat_data_offset = muxer_file_align_up (mdat_offset (mkey m) + 8);
          mdat_len = (if max_mdata_size \<noteq> 0 then max_mdata_size - mdat_offset (mkey m) else 8)
      in if max_mdata_size \<noteq> 0 \<and> max_mdata_size \<le> mdat_data_offset then m
         else
           let (r, m) = mp4_write ops (common_box mdat_len ''mdat'') m
           in if r \<noteq> 0 then m
              else
                let m = on_key (\<lambda>k. k\<lparr>mdat_nowoffset := mdat_data_offset, mdat_size := mdat_len\<rparr>) m;
                    (r, s) = op_skip ops (mdat_data_offset - io_offset m) (m4_file m); m = m\<lparr>m4_file := s\<rparr>
                in if r \<noteq> 0 then m
                   else
                     let m = m\<lparr>io_offset := mdat_data_offset, msg_end := max (msg_end m) mdat_data_offset\<rparr>;
                         m = on_key (\<lambda>k. k\<lparr>mdat_writer_init := True\<rparr>) m
                     in note_end (if max_mdata_size \<noteq> 0 then m else mp4_seek_set ops mdat_data_offset m))"

text \<open>A box that fills up to a multiple of 512; the rest behind its head may be negative.\<close>

definition mp4_free_write :: "'s file_ops \<Rightarrow> nat \<Rightarrow> 's mp4 \<Rightarrow> 's mp4" where
  "mp4_free_write ops offset m =
     (let m = mp4_seek_set ops offset m; align_size = 0x200 - mp4_tell m mod 512;
          m = note_end (put ops (common_box align_size ''free'') m)
      in note_end (mp4_truncate ops ((align_size + (2 ^ 32 - 8)) mod 2 ^ 32) m))"

section \<open>The begin of a file\<close>

definition new_trak :: "'s mp4 \<Rightarrow> 's mp4" where
  "new_trak m = on_key (\<lambda>k. k\<lparr>trak_count := trak_count k + 1\<rparr>) m"

definition init_dinf :: "'s file_ops \<Rightarrow> 's mp4 \<Rightarrow> 's mp4" where
  "init_dinf ops = ATOM ops 8 (mp4_dinf_write ops) (ATOM ops 16 (mp4_dref_write ops) (ATOM ops 12 (mp4_url_write ops) (\<lambda>m. m)))"

definition init_tables :: "'s file_ops \<Rightarrow> 's mp4 \<Rightarrow> 's mp4" where
  "init_tables ops = steps
     [ATOM ops 8 (mp4_free_write ops) (\<lambda>m. m), ATOM ops 24 (mp4_stts_write ops) (\<lambda>m. m), ATOM ops 28 (mp4_stsc_write ops) (\<lambda>m. m),
      ATOM ops 24 (mp4_stsz_write ops) (\<lambda>m. m), ATOM ops 20 (mp4_stco_write ops) (\<lambda>m. m)]"

definition init_video_trak :: "'s file_ops \<Rightarrow> 's mp4 \<Rightarrow> 's mp4" where
  "init_video_trak ops = ATOM ops 8 (mp4_trak_write ops) (steps
     [new_trak, ATOM ops 92 (mp4_tkhd_write ops) (\<lambda>m. m),
      ATOM ops 8 (mp4_mdia_write ops) (steps
        [ATOM ops 32 (mp4_mdhd_write ops) (\<lambda>m. m), ATOM ops 32 (mp4_hdlr_write ops) (\<lambda>m. m),
         ATOM ops 8 (mp4_minf_write ops) (steps
           [ATOM ops 20 (mp4_vmhd_write ops) (\<lambda>m. m), init_dinf ops,
            ATOM ops 8 (mp4_stbl_write ops) (steps
              [ATOM ops 16 (mp4_stsd_write ops) (ATOM ops 86 (mp4_avc1_write ops) (steps
                 [ATOM ops 13 (mp4_avcC_write ops) (\<lambda>m. m), ATOM ops 19 (mp4_colr_write ops) (\<lambda>m. m)])),
               init_tables ops, ATOM ops 20 (mp4_stss_write ops) (\<lambda>m. m)])])])])"

definition init_audio_trak :: "'s file_ops \<Rightarrow> 's mp4 \<Rightarrow> 's mp4" where
  "init_audio_trak ops = ATOM ops 8 (mp4_trak_write ops) (steps
     [new_trak, ATOM ops 92 (mp4_tkhd_write ops) (\<lambda>m. m),
      ATOM ops 8 (mp4_mdia_write ops) (steps
        [ATOM ops 32 (mp4_mdhd_write ops) (\<lambda>m. m), ATOM ops 32 (mp4_hdlr_write ops) (\<lambda>m. m),
         ATOM ops 8 (mp4_minf_write ops) (steps
           [ATOM ops 16 (mp4_smhd_write ops) (\<lambda>m. m), init_dinf ops,
            ATOM ops 8 (mp4_stbl_write ops) (steps
              [ATOM ops 16 (mp4_stsd_write ops) (ATOM ops 36 (mp4_mp4a_write ops) (ATOM ops 12 (mp4_esds_write ops) (\<lambda>m. m))),
               init_tables ops])])])])"

definition pre_mp4_seek :: "nat \<Rightarrow> ffile \<Rightarrow> ffile" where
  "pre_mp4_seek offset fp = (if osal_fsize fp \<noteq> offset then osal_ftruncate (osal_fseek offset fp) else fp)"

text \<open>\<open>onfp\<close> acts on the file below the operations. The answer is 0 or 1.\<close>

definition MP4_init :: "'s file_ops \<Rightarrow> ((ffile \<Rightarrow> ffile) \<Rightarrow> 's \<Rightarrow> 's) \<Rightarrow> 's mp4 \<Rightarrow> u32 \<times> 's mp4" where
  "MP4_init ops onfp m =
     (let m = mp4_reset_init_state ops m;
          m = (if file_max_size (mkey m) \<noteq> 0 then m\<lparr>m4_file := onfp (pre_mp4_seek (file_max_size (mkey m))) (m4_file m)\<rparr> else m);
          m = mp4_seek_set ops 0 m;
          m = steps [ATOM ops 12 (mp4_ftyp_write ops) (\<lambda>m. m),
                     ATOM ops 8 (mp4_moov_write ops) (steps
                       [ATOM ops 108 (mp4_mvhd_write ops) (\<lambda>m. m), init_video_trak ops,
                        (\<lambda>m. if mp4_audio_enable (mkey m) then init_audio_trak ops m else m)]),
                     ATOM ops 8 (mp4_mdat_write ops) (\<lambda>m. m)] m
      in (if mdat_writer_init (mkey m) then 0 else 1, m))"

section \<open>The tables brought to the file\<close>

text \<open>One table; the result of writing the entries counts for some only.\<close>

definition sync_table :: "'s file_ops \<Rightarrow> (trak_key_msg \<Rightarrow> sample_table) \<Rightarrow> ((sample_table \<Rightarrow> sample_table) \<Rightarrow> trak_key_msg \<Rightarrow> trak_key_msg)
    \<Rightarrow> nat \<Rightarrow> bool \<Rightarrow> nat \<Rightarrow> u32 \<times> 's mp4 \<Rightarrow> u32 \<times> 's mp4" where
  "sync_table ops get upd limit checked i rm =
     (let (ret, m) = rm; t = get (trak (mkey m) ! i)
      in if tab_buf t = [] then (ret, m)
         else
           let ret = (if tab_count t \<ge> limit then ret + 1 else ret);
               (r, m) = mp4_write ops (tab_buf t) (mp4_seek_set ops (tab_write_offset t) m);
               ret = (if checked then ret OR r else ret);
               m = on_key (on_trak i (upd (\<lambda>t. t\<lparr>tab_write_offset := tab_write_offset t + length (tab_buf t), tab_buf := []\<rparr>))) m;
               (r, m) = mp4_write ops (be32 (tab_count t)) (mp4_seek_set ops (tab_offset t - 4) m)
           in (ret OR r, m))"

text \<open>The table of times: behind the closed runs stands the one that is open.\<close>

definition sync_stts :: "'s file_ops \<Rightarrow> nat \<Rightarrow> u32 \<times> 's mp4 \<Rightarrow> u32 \<times> 's mp4" where
  "sync_stts ops i rm =
     (let (ret, m) = rm; v = trak (mkey m) ! i; t = stts v
      in if tab_buf t = [] \<and> last_sample_count v = 0 then (ret, m)
         else
           let ret = (if tab_count t \<ge> STTS_COUNT then ret + 1 else ret);
               m = mp4_seek_set ops (tab_write_offset t) m;
               m = (if tab_buf t \<noteq> [] then
                      on_key (on_trak i (stts_update (\<lambda>t. t\<lparr>tab_write_offset := tab_write_offset t + length (tab_buf t), tab_buf := []\<rparr>)))
                        (put ops (tab_buf t) m)
                    else m);
               (r, m) = (if last_sample_count v > 0 then mp4_write ops (be32 (last_sample_count v) @ be32 (last_delta v)) m else (0, m));
               stts_count = (if last_sample_count v > 0 then tab_count t + 1 else tab_count t);
               (r', m) = mp4_write ops (be32 stts_count) (mp4_seek_set ops (tab_offset t - 4) m)
           in (ret OR r OR r', m))"

definition sync_trak :: "'s file_ops \<Rightarrow> nat \<Rightarrow> u32 \<times> 's mp4 \<Rightarrow> u32 \<times> 's mp4" where
  "sync_trak ops i rm =
     (let (ret, m) = sync_table ops stss stss_update STSS_COUNT True i
                      (sync_table ops stco stco_update STCO_COUNT True i
                        (sync_table ops stsz stsz_update STSZ_COUNT False i
                          (sync_table ops stsc stsc_update STSC_COUNT False i (sync_stts ops i rm))));
          v = trak (mkey m) ! i;
          (r1, m) = mp4_write ops (be32 (tk_duration v * 90)) (mp4_seek_set ops (mdhd_duration_offset v) m);
          (r2, m) = mp4_write ops (be32 (tk_duration v)) (mp4_seek_set ops (tkhd_duration_offset v) m)
      in (ret OR r1 OR r2, m))"

definition mp4_sync :: "'s file_ops \<Rightarrow> 's mp4 \<Rightarrow> u32 \<times> 's mp4" where
  "mp4_sync ops m =
     (if \<not> mp4_init (mkey m) then (0, m)
      else
        let nowoffset = mp4_tell m;
            (ret, m) = fold (sync_trak ops) [0..<trak_count (mkey m)] (0, m);
            max_duration = mp4_written_duration_ms (mkey m);
            (r, m) = mp4_write ops (be32 max_duration) (mp4_seek_set ops (mvhd_duration_offset (mkey m)) m);
            ret = ret OR r;
            mdat_len = mdat_nowoffset (mkey m) - mdat_offset (mkey m);
            (r, m) = (if mdat_len > mdat_size (mkey m) then
                        mp4_write ops (be32 mdat_len)
                          (mp4_seek_set ops (mdat_offset (mkey m)) (on_key (\<lambda>k. k\<lparr>mdat_size := mdat_len\<rparr>) m))
                      else (0, m));
            ret = ret OR r;
            m = mp4_file_syn ops m;
            m = (if ret = 0 then on_key (\<lambda>k. k\<lparr>mp4_syn_time := max_duration\<rparr>) m else m)
        in (ret, mp4_seek_set ops nowoffset m))"

definition mp4_sync_time :: "'s file_ops \<Rightarrow> nat \<Rightarrow> 's mp4 \<Rightarrow> u32 \<times> 's mp4" where
  "mp4_sync_time ops time_ms m =
     (if time_ms = 0 then mp4_sync ops m
      else let written_duration = mp4_written_duration_ms (mkey m)
           in if written_duration < mp4_syn_time (mkey m) \<or> written_duration - mp4_syn_time (mkey m) \<ge> time_ms
              then mp4_sync ops m else (0, m))"

section \<open>Samples\<close>

definition tab_add :: "u8 list \<Rightarrow> sample_table \<Rightarrow> sample_table" where
  "tab_add bs t = t\<lparr>tab_buf := tab_buf t @ bs, tab_count := tab_count t + 1\<rparr>"

definition tab_full :: "nat \<Rightarrow> sample_table \<Rightarrow> bool" where
  "tab_full limit t \<longleftrightarrow> length (tab_buf t) \<ge> 512 \<or> tab_count t \<ge> limit"

definition mp4_update_sample_tables :: "nat \<Rightarrow> nat \<Rightarrow> nat \<Rightarrow> trak_key_msg \<Rightarrow> bool \<times> trak_key_msg" where
  "mp4_update_sample_tables sample_size sample_offset duration v =
     (let delta = duration * 90 mod 2 ^ 32;
          v = v\<lparr>tk_count := tk_count v + 1, tk_duration := tk_duration v + duration\<rparr>;
          v = (if last_delta v \<noteq> 0 \<and> last_delta v \<noteq> delta then
                 v\<lparr>stts := tab_add (be32 (last_sample_count v) @ be32 (last_delta v)) (stts v), last_sample_count := 0\<rparr>
               else v);
          v = v\<lparr>last_delta := delta, last_sample_count := last_sample_count v + 1\<rparr>;
          v = v\<lparr>stsz := tab_add (be32 sample_size) (stsz v)\<rparr>;
          v = v\<lparr>stco := tab_add (be32 sample_offset) (stco v)\<rparr>
      in (tab_full STTS_COUNT (stts v) \<or> tab_full STSZ_COUNT (stsz v) \<or> tab_full STCO_COUNT (stco v), v))"

definition set_trak :: "nat \<Rightarrow> trak_key_msg \<Rightarrow> 's mp4 \<Rightarrow> 's mp4" where
  "set_trak i v m = on_key (on_trak i (\<lambda>_. v)) m"

definition mp4_update_video_sample :: "'s file_ops \<Rightarrow> nat \<Rightarrow> nat \<Rightarrow> bool \<Rightarrow> 's mp4 \<Rightarrow> u32 \<times> 's mp4" where
  "mp4_update_video_sample ops sz duration keyflag m =
     (let (flag, v) = mp4_update_sample_tables sz (mdat_nowoffset (mkey m)) duration (trak (mkey m) ! 0);
          (flag, v) = (if keyflag then let v = v\<lparr>stss := tab_add (be32 (tk_count v)) (stss v)\<rparr> in (flag \<or> tab_full STSS_COUNT (stss v), v)
                       else (flag, v));
          m = on_key (\<lambda>k. k\<lparr>mdat_nowoffset := mdat_nowoffset k + sz\<rparr>) (set_trak 0 v m)
      in if flag then mp4_sync ops m else (0, m))"

definition mp4_update_audio_sample :: "'s file_ops \<Rightarrow> nat \<Rightarrow> nat \<Rightarrow> 's mp4 \<Rightarrow> u32 \<times> 's mp4" where
  "mp4_update_audio_sample ops sz duration m =
     (let (flag, v) = mp4_update_sample_tables sz (mdat_nowoffset (mkey m)) duration (trak (mkey m) ! 1);
          m = on_key (\<lambda>k. k\<lparr>mdat_nowoffset := mdat_nowoffset k + sz\<rparr>) (set_trak 1 v m)
      in if flag then mp4_sync ops m else (0, m))"

abbreviation MP4_FULL_ERR :: u32 where "MP4_FULL_ERR \<equiv> 0x4"
abbreviation MP4_V_TYPE_ERR :: u32 where "MP4_V_TYPE_ERR \<equiv> 0x8"
abbreviation MP4_I_ERR :: u32 where "MP4_I_ERR \<equiv> 0x10"
abbreviation MP4_P_ERR :: u32 where "MP4_P_ERR \<equiv> 0x40"
abbreviation MP4_WRITE_ERR :: u32 where "MP4_WRITE_ERR \<equiv> 0x80"
abbreviation MP4_AUDIO_ERR :: u32 where "MP4_AUDIO_ERR \<equiv> 0x100"

definition mdat_full :: "nat \<Rightarrow> mp4_key \<Rightarrow> bool" where
  "mdat_full sz k \<longleftrightarrow> file_max_size k > 0 \<and> mdat_nowoffset k - mdat_offset k + sz > mdat_size k"

definition write_h264_nal :: "'s file_ops \<Rightarrow> u8 list \<Rightarrow> nat \<Rightarrow> bool \<Rightarrow> 's mp4 \<Rightarrow> u32 \<times> 's mp4" where
  "write_h264_nal ops nal duration keyflag m =
     (let sample_size = length nal + 4
      in if mdat_full sample_size (mkey m) then (push_bit 16 MP4_FULL_ERR, m)
         else
           let (r1, m) = mp4_mdat_write_data ops (be32 (length nal)) m;
               (r2, m) = mp4_mdat_write_data ops nal m; ret = r1 OR r2
           in if ret \<noteq> 0 then (ret OR push_bit 16 MP4_WRITE_ERR, m)
              else let (ret, m) = mp4_update_video_sample ops sample_size duration keyflag m
                   in (if ret \<noteq> 0 then ret OR push_bit 16 MP4_WRITE_ERR else ret, m))"

definition write_aac_data :: "'s file_ops \<Rightarrow> u8 list \<Rightarrow> nat \<Rightarrow> 's mp4 \<Rightarrow> u32 \<times> 's mp4" where
  "write_aac_data ops aac duration m =
     (if trak_count (mkey m) < 2 \<or> \<not> mp4_audio_enable (mkey m) then (push_bit 16 MP4_AUDIO_ERR, m)
      else if mdat_full (length aac) (mkey m) then (push_bit 16 MP4_FULL_ERR, m)
      else
        let (ret, m) = mp4_mdat_write_data ops aac m
        in if ret \<noteq> 0 then (ret OR push_bit 16 MP4_WRITE_ERR, m)
           else let (ret, m) = mp4_update_audio_sample ops (length aac) duration m
                in (if ret \<noteq> 0 then ret OR push_bit 16 MP4_WRITE_ERR else ret, m))"

text \<open>The frames of a batch are their sizes and durations.\<close>

fun batch_update :: "nat \<Rightarrow> (nat \<times> nat) list \<Rightarrow> bool \<times> trak_key_msg \<Rightarrow> bool \<times> trak_key_msg" where
  "batch_update offset [] fv = fv"
| "batch_update offset ((sz, duration) # frames) (flag, v) =
     (let (f, v) = mp4_update_sample_tables sz offset duration v in batch_update (offset + sz) frames (flag \<or> f, v))"

definition write_aac_data_batch :: "'s file_ops \<Rightarrow> u8 list \<Rightarrow> (nat \<times> nat) list \<Rightarrow> 's mp4 \<Rightarrow> u32 \<times> 's mp4" where
  "write_aac_data_batch ops aac frames m =
     (let frame_count = length frames; total_size = length aac
      in if frame_count = 0 then (0, m)
         else if trak_count (mkey m) < 2 \<or> \<not> mp4_audio_enable (mkey m) then (push_bit 16 MP4_AUDIO_ERR, m)
         else if mdat_full total_size (mkey m) then (push_bit 16 MP4_FULL_ERR, m)
         else
           let v = trak (mkey m) ! 1;
               (ret, m) = (if length (tab_buf (stts v)) + frame_count * 8 > 512 \<or> length (tab_buf (stsz v)) + frame_count * 4 > 512
                              \<or> length (tab_buf (stco v)) + frame_count * 4 > 512 then mp4_sync ops m else (0, m))
           in if ret \<noteq> 0 then (ret, m)
              else
                let (ret, m) = mp4_mdat_write_data ops aac m
                in if ret \<noteq> 0 then (ret OR push_bit 16 MP4_WRITE_ERR, m)
                   else
                     let (flag, v) = batch_update (mdat_nowoffset (mkey m)) frames (False, trak (mkey m) ! 1);
                         m = on_key (\<lambda>k. k\<lparr>mdat_nowoffset := mdat_nowoffset k + total_size\<rparr>) (set_trak 1 v m)
                     in if flag then mp4_sync ops m else (0, m))"

section \<open>Parameter sets and frames\<close>

text \<open>The offset of the next start code and its length.\<close>

function get_nal_size :: "(nat \<Rightarrow> u8) \<Rightarrow> nat \<Rightarrow> nat \<Rightarrow> (nat \<times> nat) option" where
  "get_nal_size buf sz pos =
     (if sz - pos > 3 then
        if buf pos = 0 \<and> buf (pos + 1) = 0 \<and> buf (pos + 2) = 1 then Some (pos, 3)
        else if buf pos = 0 \<and> buf (pos + 1) = 0 \<and> buf (pos + 2) = 0 \<and> buf (pos + 3) = 1 then Some (pos, 4)
        else get_nal_size buf sz (pos + 1)
      else None)"
  by pat_completeness auto
termination by (relation "measure (\<lambda>(buf, sz, pos). sz - pos)") auto

declare get_nal_size.simps [simp del]

text \<open>The place of a parameter set, the length up to the next start code, and the length of that.\<close>

definition get_sps_pps_nal_size :: "(nat \<Rightarrow> u8) \<Rightarrow> nat \<Rightarrow> (nat \<times> nat \<times> nat) option" where
  "get_sps_pps_nal_size buf sz =
     (case get_nal_size buf sz 0 of None \<Rightarrow> None
      | Some (offset, nal_head_size) \<Rightarrow>
          if offset + nal_head_size < sz then
            let nal_type = buf (nal_head_size + offset) AND 0x1f
            in if nal_type = 7 \<or> nal_type = 8 then
                 case get_nal_size (\<lambda>i. buf (offset + nal_head_size + i)) (sz - (offset + nal_head_size)) 0 of
                   None \<Rightarrow> None | Some (nal_size, head_size) \<Rightarrow> Some (offset, nal_size, head_size)
               else None
          else None)"

text \<open>Two rounds; a set is its place and its length, of 8 bits.\<close>

primrec find_sps_pps :: "(nat \<Rightarrow> u8) \<Rightarrow> nat \<Rightarrow> nat \<Rightarrow> (nat \<times> nat) option \<times> (nat \<times> nat) option \<Rightarrow> (nat \<times> nat) option \<times> (nat \<times> nat) option" where
  "find_sps_pps buf 0 p sp = sp"
| "find_sps_pps buf (Suc n) p sp =
     (case get_sps_pps_nal_size (\<lambda>i. buf (p + i)) 64 of None \<Rightarrow> sp
      | Some (offset, nal_size, nal_head_size) \<Rightarrow>
          let q = p + offset + nal_head_size
          in if buf q AND 0x1f = 7 then find_sps_pps buf n (q + nal_size) (Some (q, nal_size mod 256), snd sp)
             else if buf q AND 0x1f = 8 then find_sps_pps buf n (q + nal_size) (fst sp, Some (q, nal_size mod 256))
             else sp)"

definition write_h264_pps_sps :: "'s file_ops \<Rightarrow> ((ffile \<Rightarrow> ffile) \<Rightarrow> 's \<Rightarrow> 's) \<Rightarrow> (nat \<Rightarrow> u8) \<Rightarrow> 's mp4 \<Rightarrow> u32 \<times> 's mp4" where
  "write_h264_pps_sps ops onfp nal_buf m =
     (if mp4_init (mkey m) then (0, m)
      else case find_sps_pps nal_buf 2 0 (None, None) of
        (Some (sps_buf, sps_n), Some (pps_buf, pps_n)) \<Rightarrow>
          let m = on_key (\<lambda>k. k\<lparr>sps_len := sps_n, pps_len := pps_n, sps_data := (\<lambda>i. nal_buf (sps_buf + i)),
                                 pps_data := (\<lambda>i. nal_buf (pps_buf + i))\<rparr>) m;
              (ret, m) = MP4_init ops onfp m
          in if ret = 0 then
               (0, on_key (\<lambda>k. k\<lparr>mp4_init := True, mp4_syn_time := mp4_written_duration_ms k\<rparr>) m)
             else (ret, (mp4_reset_init_state ops m)\<lparr>io_offset := op_tell ops (m4_file m)\<rparr>)
      | _ \<Rightarrow> (1, m))"

text \<open>A frame of a size of at least 4; the byte behind the start code tells the type.\<close>

definition write_h264_data :: "'s file_ops \<Rightarrow> (nat \<Rightarrow> u8) \<Rightarrow> nat \<Rightarrow> nat \<Rightarrow> 's mp4 \<Rightarrow> u32 \<times> 's mp4" where
  "write_h264_data ops nal_buf sz duration m =
     (let nal = bytes_at nal_buf 4 ((sz + (2 ^ 32 - 4)) mod 2 ^ 32)
      in if nal_buf 4 = 0x61 then
           let (ret, m) = write_h264_nal ops nal duration False m in (if ret \<noteq> 0 then ret OR push_bit 16 MP4_P_ERR else ret, m)
         else if nal_buf 4 = 0x65 then
           let (ret, m) = write_h264_nal ops nal duration True m in (if ret \<noteq> 0 then ret OR push_bit 16 MP4_I_ERR else ret, m)
         else (push_bit 16 MP4_V_TYPE_ERR, m))"

section \<open>Opening and closing\<close>

definition mp4_deinit :: "'s file_ops \<Rightarrow> 's mp4 \<Rightarrow> u32 \<times> 's mp4" where
  "mp4_deinit ops m =
     (let (ret, m) =
            (if mp4_init (mkey m) then
               let (ret, m) = (if mdat_writer_init (mkey m) then
                                 let m = on_key (\<lambda>k. k\<lparr>mdat_nowoffset := io_offset m\<rparr>) m; (r, s) = op_finish ops (m4_file m)
                                 in (word_of_int r, m\<lparr>m4_file := s\<rparr>)
                               else (0, m));
                   (r, m) = mp4_sync ops m
               in (ret OR r, m)
             else (0, m));
          m = (if mp4_init (mkey m) \<and> file_max_size (mkey m) = 0 then
                 let m = on_key (\<lambda>k. k\<lparr>mdat_size := mdat_nowoffset k - mdat_offset k\<rparr>) m
                 in mp4_file_syn ops (put ops (be32 (mdat_size (mkey m))) (mp4_seek_set ops (mdat_offset (mkey m)) m))
               else m)
      in (ret, m))"

definition mp4_audio_cfg_init :: "u8 list \<Rightarrow> 's mp4 \<Rightarrow> 's mp4" where
  "mp4_audio_cfg_init asps m = on_key (\<lambda>k. k\<lparr>asps_data := asps\<rparr>) m"

definition mp4_set_max_size :: "nat \<Rightarrow> 's mp4 \<Rightarrow> 's mp4" where
  "mp4_set_max_size max_size m = on_key (\<lambda>k. k\<lparr>file_max_size := (if max_size \<noteq> 0 then muxer_file_align_up max_size else 0)\<rparr>) m"

definition mp4_video_cfg_init :: "nat \<Rightarrow> nat \<Rightarrow> 's mp4 \<Rightarrow> 's mp4" where
  "mp4_video_cfg_init w h m = (if \<not> mp4_init (mkey m) then on_key (\<lambda>k. k\<lparr>video_w := w, video_h := h\<rparr>) m else m)"

definition empty_key :: mp4_key where
  "empty_key = \<lparr>mp4_init = False, mp4_audio_enable = False, asps_data = [], video_w = 0, video_h = 0, mp4_syn_time = 0, sps_len = 0,
     pps_len = 0, sps_data = (\<lambda>_. 0), pps_data = (\<lambda>_. 0), trak_count = 0, file_max_size = 0, mdat_size = 0, mdat_offset = 0,
     mdat_nowoffset = 0, mvhd_duration_offset = 0, mdat_writer_init = False, trak = [empty_trak, empty_trak]\<rparr>"

definition MP4_open_init_with_file :: "'s file_ops \<Rightarrow> 's \<Rightarrow> bool \<Rightarrow> 's mp4" where
  "MP4_open_init_with_file ops s audio_en =
     \<lparr>m4_file = s, io_offset = op_tell ops s, msg_end = 0, mkey = empty_key\<lparr>mp4_audio_enable := audio_en\<rparr>\<rparr>"

section \<open>The plain file\<close>

definition mp4_default_ops_write :: "disk \<Rightarrow> u8 list \<Rightarrow> ffile \<Rightarrow> int \<times> ffile" where
  "mp4_default_ops_write disk bs fp = (let (written, fp) = osal_fwrite disk bs fp in (if written = length bs then 0 else - 1, fp))"

definition mp4_default_ops_skip :: "nat \<Rightarrow> ffile \<Rightarrow> int \<times> ffile" where
  "mp4_default_ops_skip len fp =
     (let offset = osal_ftell fp + len; fp = osal_fseek offset fp
      in (0, if osal_fsize fp < offset then osal_ftruncate fp else fp))"

definition mp4_default_ops_tell :: "ffile \<Rightarrow> nat" where
  "mp4_default_ops_tell fp = osal_ftell fp"

definition mp4_default_ops_write_at :: "disk \<Rightarrow> nat \<Rightarrow> u8 list \<Rightarrow> ffile \<Rightarrow> int \<times> ffile" where
  "mp4_default_ops_write_at disk offset bs fp =
     (let restore_offset = osal_ftell fp; (r, fp) = mp4_default_ops_write disk bs (osal_fseek offset fp)
      in if r \<noteq> 0 then (- 1, fp) else (0, osal_fseek restore_offset fp))"

text \<open>Whether the card takes a sync is an argument.\<close>

definition mp4_default_ops_flush :: "(ffile \<Rightarrow> bool) \<Rightarrow> ffile \<Rightarrow> int \<times> ffile" where
  "mp4_default_ops_flush fsync fp = (if fsync fp then 0 else - 1, fp)"

definition mp4_default_ops_finish :: "(ffile \<Rightarrow> bool) \<Rightarrow> ffile \<Rightarrow> int \<times> ffile" where
  "mp4_default_ops_finish fsync fp = mp4_default_ops_flush fsync fp"

definition mp4_default_ops_tail :: "u8 list \<Rightarrow> nat \<Rightarrow> nat \<Rightarrow> ffile \<Rightarrow> int \<times> ffile" where
  "mp4_default_ops_tail tail logical_end reserved_end fp = (0, fp)"

definition mp4_default_ops_init :: "disk \<Rightarrow> (ffile \<Rightarrow> bool) \<Rightarrow> ffile file_ops" where
  "mp4_default_ops_init disk fsync =
     \<lparr>op_write = mp4_default_ops_write disk, op_skip = mp4_default_ops_skip, op_tell = mp4_default_ops_tell,
      op_write_at = mp4_default_ops_write_at disk, op_flush = mp4_default_ops_flush fsync,
      op_finish = mp4_default_ops_finish fsync, op_tail = mp4_default_ops_tail\<rparr>"

definition MP4_open_init :: "disk \<Rightarrow> (ffile \<Rightarrow> bool) \<Rightarrow> ffile \<Rightarrow> bool \<Rightarrow> ffile mp4" where
  "MP4_open_init disk fsync fp audio_en = MP4_open_init_with_file (mp4_default_ops_init disk fsync) fp audio_en"

end
