(* ===== verification/Mp4Init.thy ===== *)
theory Mp4Init
  imports Mp4Mux
begin

text \<open>
  What \<open>MP4_init\<close> of \<open>Mp4Mux\<close> lays down: a description of the begin of the file, box by box, and the proof that the code
  writes it into any file that keeps the contract of \<open>OsalFile\<close>, with the places of the tables noted in the muxer.
\<close>

section \<open>Layout\<close>

text \<open>Bytes of which some are not determined.\<close>

primrec laid :: "(nat \<Rightarrow> u8) \<Rightarrow> nat \<Rightarrow> u8 option list \<Rightarrow> bool" where
  "laid c off [] \<longleftrightarrow> True"
| "laid c off (x # pat) \<longleftrightarrow> (case x of None \<Rightarrow> True | Some b \<Rightarrow> c off = b) \<and> laid c (Suc off) pat"

declare laid.simps(2) [simp del]

lemma laid_append [simp]: "laid c off (p @ q) \<longleftrightarrow> laid c off p \<and> laid c (off + length p) q"
  by (induction p arbitrary: off) (simp_all add: laid.simps(2))

lemma placed_Cons: "placed c off (b # bs) \<longleftrightarrow> c off = b \<and> placed c (Suc off) bs"
  using placed_append [of c off "[b]" bs] by (simp add: placed_def bytes_at_def)

lemma laid_known [simp]: "laid c off (map Some bs) \<longleftrightarrow> placed c off bs"
  by (induction bs arbitrary: off) (simp_all add: laid.simps(2) placed_Cons)

lemma laid_unknown [simp]: "laid c off (replicate n None)"
  by (induction n arbitrary: off) (simp_all add: laid.simps(2))

lemma laid_cong:
  assumes "\<And>i. off \<le> i \<Longrightarrow> i < off + length pat \<Longrightarrow> c i = c' i"
  shows "laid c off pat \<longleftrightarrow> laid c' off pat"
  using assms by (induction pat arbitrary: off) (simp_all add: laid.simps(2) split: option.splits)

definition box8 :: "string \<Rightarrow> u8 option list \<Rightarrow> u8 option list" where
  "box8 name pat = map Some (common_box (8 + length pat) name) @ pat"

definition lay_dinf :: "u8 option list" where
  "lay_dinf = box8 ''dinf'' (map Some (full_box 28 ''dref'' 0 @ be32 1) @ map Some (full_box 12 ''url '' 1))"

definition lay_free :: "nat \<Rightarrow> u8 option list" where
  "lay_free n = map Some (common_box n ''free'') @ replicate (n - 8) None"

definition lay_table :: "u8 list \<Rightarrow> nat \<Rightarrow> u8 option list" where
  "lay_table head room = map Some head @ replicate room None"

definition stts_head :: "u8 list" where "stts_head = full_box (16 + STTS_COUNT * 8) ''stts'' 0 @ be32 0"
definition stsc_bytes :: "u8 list" where "stsc_bytes = (full_box 28 ''stsc'' 0 @ be32 1) @ be32 1 @ be32 1 @ be32 1"
definition stsz_head :: "u8 list" where "stsz_head = full_box (20 + STSZ_COUNT * 4) ''stsz'' 0 @ be32 0 @ be32 0"
definition stco_head :: "u8 list" where "stco_head = full_box (16 + STCO_COUNT * 4) ''stco'' 0 @ be32 0"
definition stss_head :: "u8 list" where "stss_head = full_box (16 + STSS_COUNT * 4) ''stss'' 0 @ be32 0"

definition lay_tables :: "nat \<Rightarrow> u8 option list" where
  "lay_tables free = lay_free free @ lay_table stts_head (STTS_COUNT * 8) @ map Some stsc_bytes
     @ lay_table stsz_head (STSZ_COUNT * 4) @ lay_table stco_head (STCO_COUNT * 4)"

definition lay_stsd :: "u8 option list \<Rightarrow> u8 option list" where
  "lay_stsd pat = map Some (full_box (16 + length pat) ''stsd'' 0 @ be32 1) @ pat"

definition lay_avcC :: "mp4_key \<Rightarrow> u8 list" where
  "lay_avcC k = avcC_bytes k @ take (avcC_len k) (sps_pps_bytes k)"

definition lay_avc1 :: "mp4_key \<Rightarrow> u8 option list" where
  "lay_avc1 k = map Some (avc1_bytes (86 + (length (lay_avcC k) + 19)) k) @ map Some (lay_avcC k) @ map Some colr_bytes"

definition lay_mp4a :: "mp4_key \<Rightarrow> u8 option list" where
  "lay_mp4a k = map Some (mp4a_bytes (36 + length (concat (esds_parts (asps_data k))))) @ map Some (concat (esds_parts (asps_data k)))"

definition lay_trak :: "mp4_key \<Rightarrow> string \<Rightarrow> u8 list \<Rightarrow> u8 option list \<Rightarrow> u8 option list" where
  "lay_trak k name vhead stbl = box8 ''trak'' (map Some (tkhd_bytes k) @ box8 ''mdia'' (map Some mdhd_bytes
     @ map Some (hdlr_bytes k @ str_bytes name @ [0])
     @ box8 ''minf'' (map Some vhead @ lay_dinf @ box8 ''stbl'' stbl)))"

definition lay_video :: "mp4_key \<Rightarrow> nat \<Rightarrow> u8 option list" where
  "lay_video k free = lay_trak k ''VideoHandler'' (full_box 20 ''vmhd'' 1 @ replicate 8 0)
     (lay_stsd (lay_avc1 k) @ lay_tables free @ lay_table stss_head (STSS_COUNT * 4))"

definition lay_audio :: "mp4_key \<Rightarrow> nat \<Rightarrow> u8 option list" where
  "lay_audio k free = lay_trak k ''SoundHandler'' (full_box 16 ''smhd'' 0 @ be16 0 @ be16 0)
     (lay_stsd (lay_mp4a k) @ lay_tables free)"

text \<open>What is noted: \<open>p\<close> is the place of the track and \<open>q\<close> the end of its filler.\<close>

definition place_table :: "nat \<Rightarrow> sample_table \<Rightarrow> sample_table" where
  "place_table off t = t\<lparr>tab_offset := off, tab_write_offset := off\<rparr>"

definition place_tables :: "nat \<Rightarrow> trak_key_msg \<Rightarrow> trak_key_msg" where
  "place_tables q t = stco_update (place_table (q + 589904)) (stsz_update (place_table (q + 65600))
     (stsc_update (place_table (q + 65568)) (stts_update (place_table (q + 16)) t)))"

definition place_trak :: "nat \<Rightarrow> nat \<Rightarrow> trak_key_msg \<Rightarrow> trak_key_msg" where
  "place_trak p q t = place_tables q (t\<lparr>tkhd_duration_offset := p + 36, mdhd_duration_offset := p + 132\<rparr>)"

definition place_video :: "nat \<Rightarrow> nat \<Rightarrow> trak_key_msg \<Rightarrow> trak_key_msg" where
  "place_video p q t = stss_update (place_table (q + 1114208)) (place_trak p q t)"

text \<open>The distance to the next multiple of 512.\<close>

definition free_size :: "nat \<Rightarrow> nat" where
  "free_size p = 512 - p mod 512"

lemma length_box [simp]: "length (common_box n s) = 4 + length s" "length (full_box n s f) = 8 + length s"
  by (simp_all add: common_box_def full_box_def)

lemma length_box8 [simp]: "length (box8 s pat) = 4 + length s + length pat"
  by (simp add: box8_def)

lemma length_matrix9 [simp]: "length matrix9 = 36"
  by (simp add: matrix9_def)

lemma length_structs [simp]:
  "length box_ftyp = 24" "length mvhd_bytes = 108" "length (tkhd_bytes k) = 92" "length mdhd_bytes = 32"
  "length (hdlr_bytes k) = 32" "length (avc1_bytes n k) = 86" "length (avcC_bytes k) = 13" "length colr_bytes = 19"
  "length (mp4a_bytes n) = 36" "length stts_head = 16" "length stsc_bytes = 28" "length stsz_head = 20" "length stco_head = 16"
  "length stss_head = 16"
  subgoal by (simp add: box_ftyp_def)
  subgoal by (simp add: mvhd_bytes_def)
  subgoal by (simp add: tkhd_bytes_def)
  subgoal by (simp add: mdhd_bytes_def)
  subgoal by (simp add: hdlr_bytes_def)
  subgoal by (simp add: avc1_bytes_def)
  subgoal by (simp add: avcC_bytes_def)
  subgoal by (simp add: colr_bytes_def)
  subgoal by (simp add: mp4a_bytes_def)
  subgoal by (simp add: stts_head_def)
  subgoal by (simp add: stsc_bytes_def)
  subgoal by (simp add: stsz_head_def)
  subgoal by (simp add: stco_head_def)
  subgoal by (simp add: stss_head_def)
  done

lemma length_lay [simp]:
  "length lay_dinf = 36" "8 \<le> n \<Longrightarrow> length (lay_free n) = n" "length (lay_table h n) = length h + n"
  "length (lay_stsd pat) = 16 + length pat"
  "length (lay_trak k name vh stbl) = 225 + length name + length vh + length stbl"
  by (simp_all add: lay_dinf_def lay_free_def lay_table_def lay_stsd_def lay_trak_def)

section \<open>The position moves forward\<close>

text \<open>Marks of the end change nothing when the position is not behind it.\<close>

definition fwd :: "'s mp4 \<Rightarrow> bool" where
  "fwd m \<longleftrightarrow> io_offset m \<le> msg_end m"

lemma note_end_fwd [simp]: "fwd m \<Longrightarrow> note_end m = m"
  by (simp add: fwd_def note_end_def mp4_tell_def)

lemma fwd_set_io [simp]: "fwd (mp4_set_io_offset ops q m)"
  by (simp add: fwd_def mp4_set_io_offset_def Let_def)

lemma fwd_seek [simp]: "fwd (mp4_seek_set ops q m)" "fwd (mp4_seek_cur ops q m)" "fwd (mp4_truncate ops q m)"
  by (simp_all add: mp4_seek_set_def mp4_seek_cur_def mp4_truncate_def)

lemma fwd_on_key [simp]: "fwd (on_key g m) \<longleftrightarrow> fwd m"
  by (simp add: fwd_def on_key_def)

lemma fwd_put [simp]: "fwd m \<Longrightarrow> fwd (put ops bs m)"
  by (auto simp: fwd_def put_def mp4_write_def io_advance_def Let_def case_prod_beta)

lemma steps_simps [simp]: "steps [] m = m" "steps (f # fs) m = steps fs (f m)"
  by (simp_all add: steps_def)

lemma fwd_steps [simp]: "fwd m \<Longrightarrow> fwd (steps (map (put ops) bss) m)"
  by (induction bss arbitrary: m) simp_all

lemma tell_seek [simp]: "mp4_tell (mp4_seek_set ops q m) = q"
  by (simp add: mp4_tell_def mp4_seek_set_def mp4_set_io_offset_def Let_def)

lemma tell_on_key [simp]: "mp4_tell (on_key g m) = mp4_tell m"
  by (simp add: mp4_tell_def on_key_def)

lemma mkey_simps [simp]: "mkey (on_key g m) = g (mkey m)" "mkey (mp4_seek_set ops q m) = mkey m" "mkey (put ops bs m) = mkey m"
    "mkey (mp4_set_io_offset ops q m) = mkey m"
  by (simp_all add: on_key_def mp4_seek_set_def mp4_set_io_offset_def put_def mp4_write_def io_advance_def Let_def case_prod_beta)

text \<open>The one shape of the functions that write a structure: note something, write pieces, leave room.\<close>

definition leaf :: "'s file_ops \<Rightarrow> (nat \<Rightarrow> mp4_key \<Rightarrow> mp4_key) \<Rightarrow> (nat \<Rightarrow> mp4_key \<Rightarrow> u8 list list) \<Rightarrow> (nat \<Rightarrow> nat option) \<Rightarrow> nat \<Rightarrow> 's mp4 \<Rightarrow> 's mp4" where
  "leaf ops upd parts room off m =
     (let m = on_key (upd off) (mp4_seek_set ops off m); m = steps (map (put ops) (parts off (mkey m))) m
      in case room off of None \<Rightarrow> m | Some r \<Rightarrow> mp4_truncate ops r m)"

definition note_table :: "((sample_table \<Rightarrow> sample_table) \<Rightarrow> trak_key_msg \<Rightarrow> trak_key_msg) \<Rightarrow> nat \<Rightarrow> nat \<Rightarrow> mp4_key \<Rightarrow> mp4_key" where
  "note_table upd n off k = on_trak (trak_count k - 1) (upd (place_table (off + n))) k"

definition no_note :: "nat \<Rightarrow> mp4_key \<Rightarrow> mp4_key" where
  "no_note off k = k"

lemma on_key_same [simp]: "on_key (no_note off) m = m" "on_key (\<lambda>k. k) m = m"
  by (simp_all add: on_key_def no_note_def)

lemma note_table_fun: "note_table upd n off = (\<lambda>k. on_trak (trak_count k - 1) (upd (\<lambda>t. t\<lparr>tab_offset := off + n, tab_write_offset := off + n\<rparr>)) k)"
  by (rule ext) (simp add: note_table_def place_table_def [abs_def])

lemma put_at_leaf: "put_at ops bs = leaf ops no_note (\<lambda>off k. [bs]) (\<lambda>_. None)"
  by (intro ext) (simp add: put_at_def leaf_def)

lemma leaves:
  "mp4_ftyp_write ops = leaf ops no_note (\<lambda>off k. [box_ftyp]) (\<lambda>_. None)"
  "mp4_mvhd_write ops = leaf ops (\<lambda>off k. k\<lparr>mvhd_duration_offset := off + 24\<rparr>) (\<lambda>off k. [mvhd_bytes]) (\<lambda>_. None)"
  "mp4_tkhd_write ops = leaf ops (\<lambda>off k. on_trak (trak_count k - 1) (\<lambda>t. t\<lparr>tkhd_duration_offset := off + 28\<rparr>) k)
     (\<lambda>off k. [tkhd_bytes k]) (\<lambda>_. None)"
  "mp4_mdhd_write ops = leaf ops (\<lambda>off k. on_trak (trak_count k - 1) (\<lambda>t. t\<lparr>mdhd_duration_offset := off + 24\<rparr>) k)
     (\<lambda>off k. [mdhd_bytes]) (\<lambda>_. None)"
  "mp4_hdlr_write ops = leaf ops no_note (\<lambda>off k. hdlr_bytes k #
     (if trak_count k = 1 then [str_bytes ''VideoHandler'' @ [0]]
      else if trak_count k = 2 then [str_bytes ''SoundHandler'' @ [0]] else [])) (\<lambda>_. None)"
  "mp4_vmhd_write ops = leaf ops no_note (\<lambda>off k. [full_box 20 ''vmhd'' 1 @ replicate 8 0]) (\<lambda>_. None)"
  "mp4_url_write ops = leaf ops no_note (\<lambda>off k. [full_box 12 ''url '' 1]) (\<lambda>_. None)"
  "mp4_avcC_write ops = leaf ops no_note (\<lambda>off k. [avcC_bytes k, take (avcC_len k) (sps_pps_bytes k)]) (\<lambda>_. None)"
  "mp4_colr_write ops = leaf ops no_note (\<lambda>off k. [colr_bytes]) (\<lambda>_. None)"
  "mp4_stts_write ops = leaf ops (note_table stts_update 16) (\<lambda>off k. [stts_head]) (\<lambda>_. Some (STTS_COUNT * 8))"
  "mp4_stsc_write ops = leaf ops (note_table stsc_update 16) (\<lambda>off k. [full_box 28 ''stsc'' 0 @ be32 1, be32 1 @ be32 1 @ be32 1]) (\<lambda>_. None)"
  "mp4_stsz_write ops = leaf ops (note_table stsz_update 20) (\<lambda>off k. [stsz_head]) (\<lambda>_. Some (STSZ_COUNT * 4))"
  "mp4_stco_write ops = leaf ops (note_table stco_update 16) (\<lambda>off k. [stco_head]) (\<lambda>_. Some (STCO_COUNT * 4))"
  "mp4_stss_write ops = leaf ops (note_table stss_update 16) (\<lambda>off k. [stss_head]) (\<lambda>_. Some (STSS_COUNT * 4))"
  "mp4_smhd_write ops = leaf ops no_note (\<lambda>off k. [full_box 16 ''smhd'' 0 @ be16 0 @ be16 0]) (\<lambda>_. None)"
  "mp4_free_write ops = leaf ops no_note (\<lambda>off k. [common_box (free_size off) ''free''])
     (\<lambda>off. Some ((free_size off + (2 ^ 32 - 8)) mod 2 ^ 32))"
  "mp4_esds_write ops = leaf ops no_note (\<lambda>off k. esds_parts (asps_data k)) (\<lambda>_. None)"
  by (intro ext, simp add: mp4_free_write_def free_size_def put_at_leaf mp4_ftyp_write_def mp4_mvhd_write_def mp4_tkhd_write_def mp4_mdhd_write_def mp4_hdlr_write_def
      mp4_vmhd_write_def mp4_url_write_def mp4_avcC_write_def mp4_colr_write_def mp4_stts_write_def mp4_stsc_write_def mp4_stsz_write_def
      mp4_stco_write_def mp4_stss_write_def mp4_smhd_write_def mp4_esds_write_def leaf_def Let_def table_at_def note_table_fun
      stts_head_def stsz_head_def stco_head_def stss_head_def STTS_COUNT_def STSC_COUNT_def STSZ_COUNT_def STCO_COUNT_def STSS_COUNT_def)+

section \<open>Triples\<close>

context muxer_file
begin

text \<open>
  \<open>m4_st room e q k c m\<close>: the muxer \<open>m\<close> stands at \<open>q\<close> in a file of size \<open>room\<close> that is written up to \<open>e\<close> and will have the
  content \<open>c\<close>; \<open>k\<close> is what it has noted.
\<close>

definition m4_st :: "nat \<Rightarrow> nat \<Rightarrow> nat \<Rightarrow> mp4_key \<Rightarrow> (nat \<Rightarrow> u8) \<Rightarrow> 's mp4 \<Rightarrow> bool" where
  "m4_st room e q k c m \<longleftrightarrow> ok (m4_file m) \<and> op_tell ops (m4_file m) = e \<and> msg_end m = e \<and> io_offset m = q \<and> q \<le> e \<and> e \<le> room
     \<and> fsize (fl (m4_file m)) = room \<and> room < 2 ^ 32 \<and> mkey m = k \<and> view (m4_file m) = c"

lemma st_key: "m4_st room e q k c m \<Longrightarrow> m4_st room e q (g k) c (on_key g m)"
  by (simp add: m4_st_def on_key_def)

lemma st_end: "m4_st room e q k c m \<Longrightarrow> msg_end m = e" "m4_st room e q k c m \<Longrightarrow> mp4_tell m = q" "m4_st room e q k c m \<Longrightarrow> mkey m = k"
  by (simp_all add: m4_st_def mp4_tell_def)

lemma st_set_io:
  assumes "m4_st room e q k c m" "q' \<le> room"
  shows "\<exists>c'. m4_st room (max e q') q' k c' (mp4_set_io_offset ops q' m) \<and> (\<forall>i. i < e \<or> q' \<le> i \<longrightarrow> c' i = c i)"
proof (cases "q' > e")
  case True
  obtain s' where s: "op_skip ops (q' - e) (m4_file m) = (0, s')" "ok s'" "op_tell ops s' = q'" "fsize (fl s') = room"
      "\<forall>i. i < e \<or> q' \<le> i \<longrightarrow> view s' i = view (m4_file m) i"
    using skip_law [of "m4_file m" "q' - e"] assms True by (auto simp: m4_st_def)
  then have "m4_st room (max e q') q' k (view s') (mp4_set_io_offset ops q' m)"
    using assms True by (auto simp: m4_st_def mp4_set_io_offset_def)
  then show ?thesis using s(5) assms(1) by (intro exI [of _ "view s'"]) (simp add: m4_st_def)
next
  case False
  then show ?thesis using assms by (intro exI [of _ c]) (simp add: m4_st_def mp4_set_io_offset_def)
qed

lemma st_back:
  assumes "m4_st room e q k c m" "q' \<le> e"
  shows "m4_st room e q' k c (mp4_seek_set ops q' m)"
  using assms by (simp add: m4_st_def mp4_seek_set_def mp4_set_io_offset_def)

lemma st_write:
  assumes "m4_st room e q k c m" "q + length bs \<le> room"
  shows "\<exists>m'. mp4_write ops bs m = (0, m') \<and> m4_st room (max e (q + length bs)) (q + length bs) k (overlay c q bs) m'"
proof (cases "q = e")
  case True
  then show ?thesis using write_law [of "m4_file m" bs] assms by (auto simp: m4_st_def mp4_write_def io_advance_def)
next
  case False
  have st: "ok (m4_file m)" "op_tell ops (m4_file m) = e" "q < e" "fsize (fl (m4_file m)) = room" "io_offset m = q" "msg_end m = e"
      "mkey m = k" "view (m4_file m) = c" "e \<le> room" "room < 2 ^ 32"
    using assms(1) False by (auto simp: m4_st_def)
  obtain s1 where s1: "(if q + length bs > e then op_skip ops (q + length bs - e) (m4_file m) else (0, m4_file m)) = (0, s1)" "ok s1"
      "op_tell ops s1 = max e (q + length bs)" "fsize (fl s1) = room" "\<forall>i. i < e \<or> q + length bs \<le> i \<longrightarrow> view s1 i = c i"
    using skip_law [of "m4_file m" "q + length bs - e"] st assms(2) by (cases "q + length bs > e") auto
  obtain s2 where s2: "op_write_at ops q bs s1 = (0, s2)" "ok s2" "op_tell ops s2 = max e (q + length bs)" "fsize (fl s2) = room"
      "view s2 = overlay (view s1) q bs"
    using write_at_law [OF s1(2), of q bs] s1(3, 4) assms(2) by auto
  have "view s2 = overlay c q bs" using s1(5) st(3) unfolding s2(5) by (intro ext) (auto simp: overlay_def)
  then show ?thesis using s1(1) s2 st assms(2) by (auto simp: m4_st_def mp4_write_def io_advance_def Let_def)
qed

lemma st_put:
  assumes "m4_st room e q k c m" "q + length bs \<le> room"
  shows "m4_st room (max e (q + length bs)) (q + length bs) k (overlay c q bs) (put ops bs m)"
  using st_write [OF assms] by (auto simp: put_def)

lemma st_puts:
  assumes "m4_st room e q k c m" "q + length (concat bss) \<le> room"
  shows "m4_st room (max e (q + length (concat bss))) (q + length (concat bss)) k (overlay c q (concat bss)) (steps (map (put ops) bss) m)"
  using assms
proof (induction bss arbitrary: e q c m)
  case Nil
  then show ?case by (auto simp: m4_st_def)
next
  case (Cons bs bss)
  from Cons.IH [OF st_put [OF Cons.prems(1), of bs]] Cons.prems(2)
  show ?case by (simp add: overlay_append add.assoc max.assoc)
qed

text \<open>
  \<open>writes room p k f pat k'\<close>: from \<open>p\<close> on, \<open>f\<close> writes what \<open>pat\<close> says, touches nothing else, and notes \<open>k'\<close> where \<open>k\<close> was.
\<close>

definition writes :: "nat \<Rightarrow> nat \<Rightarrow> mp4_key \<Rightarrow> ('s mp4 \<Rightarrow> 's mp4) \<Rightarrow> u8 option list \<Rightarrow> mp4_key \<Rightarrow> bool" where
  "writes room p k f pat k' \<longleftrightarrow> (\<forall>c m. m4_st room p p k c m \<longrightarrow> p + length pat \<le> room \<longrightarrow>
     (\<exists>c'. m4_st room (p + length pat) (p + length pat) k' c' (f m) \<and> laid c' p pat
       \<and> (\<forall>i. i < p \<or> p + length pat \<le> i \<longrightarrow> c' i = c i)))"

lemma writesI:
  assumes "\<And>c m. m4_st room p p k c m \<Longrightarrow> p + length pat \<le> room \<Longrightarrow>
    \<exists>c'. m4_st room (p + length pat) (p + length pat) k' c' (f m) \<and> laid c' p pat \<and> (\<forall>i. i < p \<or> p + length pat \<le> i \<longrightarrow> c' i = c i)"
  shows "writes room p k f pat k'"
  using assms by (simp add: writes_def)

lemma writesD:
  assumes "writes room p k f pat k'" "m4_st room p p k c m" "p + length pat \<le> room"
  obtains c' where "m4_st room (p + length pat) (p + length pat) k' c' (f m)" "laid c' p pat"
    "\<And>i. i < p \<or> p + length pat \<le> i \<Longrightarrow> c' i = c i"
  using assms unfolding writes_def by blast

lemma writes_skip: "writes room p k (\<lambda>m. m) [] k"
  by (rule writesI) auto

lemma writes_note: "writes room p k (on_key g) [] (g k)"
  by (rule writesI) (auto intro!: exI st_key)

lemma writes_Nil: "writes room p k (steps []) [] k"
  using writes_skip [of room p k] by (simp add: steps_def id_def)

lemma writes_Cons:
  assumes "writes room p k f a k1" "writes room (p + length a) k1 (steps fs) b k2"
  shows "writes room p k (steps (f # fs)) (a @ b) k2"
proof (rule writesI)
  fix c m assume m: "m4_st room p p k c m" "p + length (a @ b) \<le> room"
  then have r: "p + length a \<le> room" "p + length a + length b \<le> room" by auto
  obtain c1 where c1: "m4_st room (p + length a) (p + length a) k1 c1 (f m)" "laid c1 p a"
      "\<And>i. i < p \<or> p + length a \<le> i \<Longrightarrow> c1 i = c i"
    using writesD [OF assms(1) m(1) r(1)] by blast
  obtain c2 where c2: "m4_st room (p + length a + length b) (p + length a + length b) k2 c2 (steps fs (f m))" "laid c2 (p + length a) b"
      "\<And>i. i < p + length a \<or> p + length a + length b \<le> i \<Longrightarrow> c2 i = c1 i"
    using writesD [OF assms(2) c1(1) r(2)] by blast
  have "laid c2 p a \<longleftrightarrow> laid c1 p a" by (rule laid_cong) (simp add: c2(3))
  moreover have "i < p \<or> p + length (a @ b) \<le> i \<longrightarrow> c2 i = c i" for i using c1(3) c2(3) by auto
  ultimately show "\<exists>c'. m4_st room (p + length (a @ b)) (p + length (a @ b)) k2 c' (steps (f # fs) m)
      \<and> laid c' p (a @ b) \<and> (\<forall>i. i < p \<or> p + length (a @ b) \<le> i \<longrightarrow> c' i = c i)"
    using c1 c2(1, 2) by (intro exI [of _ c2]) (simp add: add.assoc)
qed

lemma writes_leaf:
  assumes "k' = upd p k" "bs = concat (parts p k')" "sz \<le> length bs + (case rm p of None \<Rightarrow> 0 | Some r \<Rightarrow> r)"
    and "pat = map Some bs @ replicate (case rm p of None \<Rightarrow> 0 | Some r \<Rightarrow> r) None"
  shows "writes room p k (ATOM ops sz (leaf ops upd parts rm) (\<lambda>m. m)) pat k'"
proof (rule writesI)
  fix c m assume m: "m4_st room p p k c m" "p + length pat \<le> room"
  define r where "r = (case rm p of None \<Rightarrow> 0 | Some r \<Rightarrow> r)"
  have n: "length pat = length bs + r" "sz \<le> length pat" "p + length bs + r \<le> room" using assms(3, 4) m(2) by (auto simp: r_def)
  have lim: "room < 2 ^ 32" using m(1) by (simp add: m4_st_def)
  have z: "(p + sz) mod 2 ^ 32 = p + sz" using n m(2) lim by (intro mod_less) simp
  obtain c1 where c1: "m4_st room (p + sz) (p + sz) k c1 (mp4_seek_cur ops sz m)" "\<forall>i. i < p \<or> p + sz \<le> i \<longrightarrow> c1 i = c i"
    using st_set_io [OF m(1), of "p + sz"] n m(2) z m(1) by (auto simp: mp4_seek_cur_def m4_st_def)
  define m2 where "m2 = steps (map (put ops) (parts p k')) (on_key (upd p) (mp4_seek_set ops p (mp4_seek_cur ops sz m)))"
  have "m4_st room (p + sz) p k' c1 (on_key (upd p) (mp4_seek_set ops p (mp4_seek_cur ops sz m)))"
    using st_key [OF st_back [OF c1(1)], of p "upd p"] assms(1) by simp
  from st_puts [OF this, of "parts p k'"]
  have m2: "m4_st room (max (p + sz) (p + length bs)) (p + length bs) k' (overlay c1 p bs) m2"
    using n(3) assms(2) by (simp add: m2_def)
  have "\<exists>c3. m4_st room (p + length pat) (p + length bs + r) k' c3 (case rm p of None \<Rightarrow> m2 | Some r \<Rightarrow> mp4_truncate ops r m2)
      \<and> (\<forall>i. i < max (p + sz) (p + length bs) \<or> p + length pat \<le> i \<longrightarrow> c3 i = overlay c1 p bs i)"
  proof (cases "rm p")
    case None
    then have "max (p + sz) (p + length bs) = p + length pat" using n by (simp add: r_def)
    then show ?thesis using m2 None by (intro exI [of _ "overlay c1 p bs"]) (simp add: r_def)
  next
    case (Some x)
    then have x: "x = r" by (simp add: r_def)
    have "io_offset m2 = p + length bs" using m2 by (simp add: m4_st_def)
    moreover have "(p + length bs + r) mod 2 ^ 32 = p + length bs + r" using n lim by (intro mod_less) simp
    moreover have "max (max (p + sz) (p + length bs)) (p + length bs + r) = p + length pat" using n by simp
    ultimately show ?thesis using st_set_io [OF m2 n(3)] Some n(1) unfolding mp4_truncate_def x by (auto simp: add.assoc)
  qed
  then obtain c3 where c3: "m4_st room (p + length pat) (p + length bs + r) k' c3 (case rm p of None \<Rightarrow> m2 | Some r \<Rightarrow> mp4_truncate ops r m2)"
      "\<forall>i. i < max (p + sz) (p + length bs) \<or> p + length pat \<le> i \<longrightarrow> c3 i = overlay c1 p bs i" by blast
  define m3 where "m3 = (case rm p of None \<Rightarrow> m2 | Some r \<Rightarrow> mp4_truncate ops r m2)"
  have e: "ATOM ops sz (leaf ops upd parts rm) (\<lambda>m. m) m = mp4_seek_set ops (p + length pat) m3"
  proof -
    have "upd p (mkey (mp4_seek_cur ops sz m)) = k'"
      using assms(1) st_end(3) [OF c1(1)] by simp
    then show ?thesis using st_end(2) [OF m(1)] st_end(1) [OF c3(1) [folded m3_def]]
      by (simp add: ATOM_def leaf_def Let_def m2_def [symmetric] m3_def [symmetric] cong: option.case_cong)
  qed
  have "m4_st room (p + length pat) (p + length pat) k' c3 (mp4_seek_set ops (p + length pat) m3)"
    using st_back [OF c3(1) [folded m3_def]] by simp
  moreover have "placed c3 p bs"
    using placed_cong [of p bs c3 "overlay c1 p bs"] c3(2) by simp
  moreover have "c3 i = c i" if "i < p \<or> p + length pat \<le> i" for i
    using that c3(2) c1(2) n by (auto simp: overlay_def)
  ultimately show "\<exists>c'. m4_st room (p + length pat) (p + length pat) k' c' (ATOM ops sz (leaf ops upd parts rm) (\<lambda>m. m) m)
      \<and> laid c' p pat \<and> (\<forall>i. i < p \<or> p + length pat \<le> i \<longrightarrow> c' i = c i)"
    unfolding e assms(4) by (intro exI [of _ c3]) simp
qed

text \<open>A box around others.\<close>

lemma writes_box:
  assumes "writes room (p + sz) k body pat k'" "length (h (sz + length pat) k') = sz"
  shows "writes room p k (ATOM ops sz (\<lambda>off m. put_at ops (h (mp4_tell m - off) (mkey m)) off m) body) (map Some (h (sz + length pat) k') @ pat) k'"
proof (rule writesI)
  let ?h = "h (sz + length pat) k'"
  fix c m assume m: "m4_st room p p k c m" "p + length (map Some ?h @ pat) \<le> room"
  have lim: "room < 2 ^ 32" "p + sz + length pat \<le> room" using m assms(2) by (auto simp: m4_st_def)
  then have z: "(p + sz) mod 2 ^ 32 = p + sz" by (intro mod_less) simp
  obtain c1 where c1: "m4_st room (p + sz) (p + sz) k c1 (mp4_seek_cur ops sz m)" "\<forall>i. i < p \<or> p + sz \<le> i \<longrightarrow> c1 i = c i"
    using st_set_io [OF m(1), of "p + sz"] lim z m(1) by (auto simp: mp4_seek_cur_def m4_st_def)
  define m1 where "m1 = body (mp4_seek_cur ops sz m)"
  obtain c2 where c2: "m4_st room (p + sz + length pat) (p + sz + length pat) k' c2 m1" "laid c2 (p + sz) pat"
      "\<And>i. i < p + sz \<or> p + sz + length pat \<le> i \<Longrightarrow> c2 i = c1 i"
    using writesD [OF assms(1) c1(1) lim(2)] unfolding m1_def by blast
  have "m4_st room (p + sz + length pat) p k' c2 (mp4_seek_set ops p m1)" using st_back [OF c2(1)] by simp
  from st_put [OF this, of ?h] have m2: "m4_st room (p + sz + length pat) (p + sz) k' (overlay c2 p ?h) (put ops ?h (mp4_seek_set ops p m1))"
    using assms(2) lim(2) by (simp add: max_absorb1)
  have e: "ATOM ops sz (\<lambda>off m. put_at ops (h (mp4_tell m - off) (mkey m)) off m) body m
      = mp4_seek_set ops (p + sz + length pat) (put ops ?h (mp4_seek_set ops p m1))"
    using st_end [OF m(1)] st_end [OF c2(1)] st_end(1) [OF m2] by (simp add: ATOM_def put_at_def Let_def m1_def [symmetric] add.assoc)
  have "m4_st room (p + sz + length pat) (p + sz + length pat) k' (overlay c2 p ?h)
      (mp4_seek_set ops (p + sz + length pat) (put ops ?h (mp4_seek_set ops p m1)))"
    using st_back [OF m2] by simp
  moreover have "laid (overlay c2 p ?h) (p + sz) pat"
    using laid_cong [of "p + sz" pat "overlay c2 p ?h" c2] c2(2) assms(2) by (simp add: overlay_outside)
  moreover have "overlay c2 p ?h i = c i" if "i < p \<or> p + sz + length pat \<le> i" for i
    using that c2(3) c1(2) assms(2) by (auto simp: overlay_def)
  ultimately show "\<exists>c'. m4_st room (p + length (map Some ?h @ pat)) (p + length (map Some ?h @ pat)) k' c'
        (ATOM ops sz (\<lambda>off m. put_at ops (h (mp4_tell m - off) (mkey m)) off m) body m)
      \<and> laid c' p (map Some ?h @ pat) \<and> (\<forall>i. i < p \<or> p + length (map Some ?h @ pat) \<le> i \<longrightarrow> c' i = c i)"
    unfolding e using assms(2) by (intro exI [of _ "overlay c2 p ?h"]) (simp add: add.assoc)
qed

end

end
