(* ===== verification/Mp4Layout.thy ===== *)
theory Mp4Layout
  imports Mp4Init
begin

text \<open>
  The begin of a file, box after box, by the triples of \<open>Mp4Init\<close>.
\<close>

lemma box_funs:
  "mp4_moov_write ops = (\<lambda>off m. put_at ops ((\<lambda>n k. common_box n ''moov'') (mp4_tell m - off) (mkey m)) off m)"
  "mp4_trak_write ops = (\<lambda>off m. put_at ops ((\<lambda>n k. common_box n ''trak'') (mp4_tell m - off) (mkey m)) off m)"
  "mp4_mdia_write ops = (\<lambda>off m. put_at ops ((\<lambda>n k. common_box n ''mdia'') (mp4_tell m - off) (mkey m)) off m)"
  "mp4_minf_write ops = (\<lambda>off m. put_at ops ((\<lambda>n k. common_box n ''minf'') (mp4_tell m - off) (mkey m)) off m)"
  "mp4_dinf_write ops = (\<lambda>off m. put_at ops ((\<lambda>n k. common_box n ''dinf'') (mp4_tell m - off) (mkey m)) off m)"
  "mp4_stbl_write ops = (\<lambda>off m. put_at ops ((\<lambda>n k. common_box n ''stbl'') (mp4_tell m - off) (mkey m)) off m)"
  "mp4_dref_write ops = (\<lambda>off m. put_at ops ((\<lambda>n k. full_box n ''dref'' 0 @ be32 1) (mp4_tell m - off) (mkey m)) off m)"
  "mp4_stsd_write ops = (\<lambda>off m. put_at ops ((\<lambda>n k. full_box n ''stsd'' 0 @ be32 1) (mp4_tell m - off) (mkey m)) off m)"
  "mp4_avc1_write ops = (\<lambda>off m. put_at ops (avc1_bytes (mp4_tell m - off) (mkey m)) off m)"
  "mp4_mp4a_write ops = (\<lambda>off m. put_at ops ((\<lambda>n k. mp4a_bytes n) (mp4_tell m - off) (mkey m)) off m)"
  by (intro ext, simp add: mp4_moov_write_def mp4_trak_write_def mp4_mdia_write_def mp4_minf_write_def mp4_dinf_write_def
      mp4_stbl_write_def mp4_dref_write_def mp4_stsd_write_def mp4_avc1_write_def mp4_mp4a_write_def)+

text \<open>The filler and the four tables of every track: \<open>q\<close> is the end of the filler.\<close>

definition note_tables :: "nat \<Rightarrow> mp4_key \<Rightarrow> mp4_key" where
  "note_tables q k = on_trak (trak_count k - 1) (place_tables q) k"

lemma on_trak_on_trak [simp]: "on_trak i f (on_trak i g k) = on_trak i (\<lambda>t. f (g t)) k"
proof (cases "i < length (trak k)")
  case False
  then show ?thesis by (simp add: on_trak_def list_update_beyond)
qed (simp add: on_trak_def)

lemma on_trak_simps [simp]: "trak_count (on_trak i g k) = trak_count k" "asps_data (on_trak i g k) = asps_data k"
    "avcC_len (on_trak i g k) = avcC_len k" "lay_avcC (on_trak i g k) = lay_avcC k" "hdlr_bytes (on_trak i g k) = hdlr_bytes k"
    "tkhd_bytes (on_trak i g k) = tkhd_bytes k" "avc1_bytes n (on_trak i g k) = avc1_bytes n k"
  by (simp_all add: on_trak_def avcC_len_def lay_avcC_def avcC_bytes_def sps_pps_bytes_def hdlr_bytes_def tkhd_bytes_def avc1_bytes_def)

definition new_video :: "nat \<Rightarrow> nat \<Rightarrow> mp4_key \<Rightarrow> mp4_key" where
  "new_video p q k = on_trak (trak_count k) (place_video p q) (k\<lparr>trak_count := trak_count k + 1\<rparr>)"

definition new_audio :: "nat \<Rightarrow> nat \<Rightarrow> mp4_key \<Rightarrow> mp4_key" where
  "new_audio p q k = on_trak (trak_count k) (place_trak p q) (k\<lparr>trak_count := trak_count k + 1\<rparr>)"

lemma length_tables: "8 \<le> n \<Longrightarrow> length (lay_tables n) = n + 1114192"
  by (simp add: lay_tables_def STTS_COUNT_def STSZ_COUNT_def STCO_COUNT_def)

text \<open>The samples begin on a whole block.\<close>

definition note_mdat :: "nat \<Rightarrow> mp4_key \<Rightarrow> mp4_key" where
  "note_mdat p k = k\<lparr>mdat_offset := p, mdat_nowoffset := muxer_file_align_up (p + 8),
     mdat_size := (if file_max_size k \<noteq> 0 then file_max_size k - p else 8), mdat_writer_init := True\<rparr>"

context muxer_file
begin

lemma writes_eq: "writes room p k f pat k1 \<Longrightarrow> pat = pat' \<Longrightarrow> k1 = k2 \<Longrightarrow> writes room p k f pat' k2"
  by simp

lemma writes_boxes:
  "writes room (p + 8) k body pat k' \<Longrightarrow> writes room p k (ATOM ops 8 (mp4_moov_write ops) body) (box8 ''moov'' pat) k'"
  "writes room (p + 8) k body pat k' \<Longrightarrow> writes room p k (ATOM ops 8 (mp4_trak_write ops) body) (box8 ''trak'' pat) k'"
  "writes room (p + 8) k body pat k' \<Longrightarrow> writes room p k (ATOM ops 8 (mp4_mdia_write ops) body) (box8 ''mdia'' pat) k'"
  "writes room (p + 8) k body pat k' \<Longrightarrow> writes room p k (ATOM ops 8 (mp4_minf_write ops) body) (box8 ''minf'' pat) k'"
  "writes room (p + 8) k body pat k' \<Longrightarrow> writes room p k (ATOM ops 8 (mp4_dinf_write ops) body) (box8 ''dinf'' pat) k'"
  "writes room (p + 8) k body pat k' \<Longrightarrow> writes room p k (ATOM ops 8 (mp4_stbl_write ops) body) (box8 ''stbl'' pat) k'"
  unfolding box8_def box_funs by (rule writes_box; simp)+

lemma writes_full_boxes:
  "writes room (p + 16) k body pat k' \<Longrightarrow>
   writes room p k (ATOM ops 16 (mp4_dref_write ops) body) (map Some (full_box (16 + length pat) ''dref'' 0 @ be32 1) @ pat) k'"
  "writes room (p + 16) k body pat k' \<Longrightarrow>
   writes room p k (ATOM ops 16 (mp4_stsd_write ops) body) (map Some (full_box (16 + length pat) ''stsd'' 0 @ be32 1) @ pat) k'"
  "writes room (p + 86) k body pat k' \<Longrightarrow>
   writes room p k (ATOM ops 86 (mp4_avc1_write ops) body) (map Some (avc1_bytes (86 + length pat) k') @ pat) k'"
  "writes room (p + 36) k body pat k' \<Longrightarrow>
   writes room p k (ATOM ops 36 (mp4_mp4a_write ops) body) (map Some (mp4a_bytes (36 + length pat)) @ pat) k'"
  unfolding box_funs by (rule writes_box; simp)+

lemma esds_parts_head: "12 \<le> length (concat (esds_parts asps))"
  by (simp add: esds_parts_def Let_def)

lemmas writes_leaf' = writes_leaf [OF refl refl]

lemma writes_leaves:
  "writes room p k (ATOM ops 12 (mp4_ftyp_write ops) (\<lambda>m. m)) (map Some box_ftyp) k"
  "writes room p k (ATOM ops 108 (mp4_mvhd_write ops) (\<lambda>m. m)) (map Some mvhd_bytes) (k\<lparr>mvhd_duration_offset := p + 24\<rparr>)"
  "writes room p k (ATOM ops 92 (mp4_tkhd_write ops) (\<lambda>m. m))
     (map Some (tkhd_bytes (on_trak (trak_count k - 1) (\<lambda>t. t\<lparr>tkhd_duration_offset := p + 28\<rparr>) k)))
     (on_trak (trak_count k - 1) (\<lambda>t. t\<lparr>tkhd_duration_offset := p + 28\<rparr>) k)"
  "writes room p k (ATOM ops 32 (mp4_mdhd_write ops) (\<lambda>m. m)) (map Some mdhd_bytes)
     (on_trak (trak_count k - 1) (\<lambda>t. t\<lparr>mdhd_duration_offset := p + 24\<rparr>) k)"
  "writes room p k (ATOM ops 20 (mp4_vmhd_write ops) (\<lambda>m. m)) (map Some (full_box 20 ''vmhd'' 1 @ replicate 8 0)) k"
  "writes room p k (ATOM ops 12 (mp4_url_write ops) (\<lambda>m. m)) (map Some (full_box 12 ''url '' 1)) k"
  "writes room p k (ATOM ops 13 (mp4_avcC_write ops) (\<lambda>m. m)) (map Some (lay_avcC k)) k"
  "writes room p k (ATOM ops 19 (mp4_colr_write ops) (\<lambda>m. m)) (map Some colr_bytes) k"
  "writes room p k (ATOM ops 24 (mp4_stts_write ops) (\<lambda>m. m)) (lay_table stts_head (STTS_COUNT * 8)) (note_table stts_update 16 p k)"
  "writes room p k (ATOM ops 28 (mp4_stsc_write ops) (\<lambda>m. m)) (map Some stsc_bytes) (note_table stsc_update 16 p k)"
  "writes room p k (ATOM ops 24 (mp4_stsz_write ops) (\<lambda>m. m)) (lay_table stsz_head (STSZ_COUNT * 4)) (note_table stsz_update 20 p k)"
  "writes room p k (ATOM ops 20 (mp4_stco_write ops) (\<lambda>m. m)) (lay_table stco_head (STCO_COUNT * 4)) (note_table stco_update 16 p k)"
  "writes room p k (ATOM ops 20 (mp4_stss_write ops) (\<lambda>m. m)) (lay_table stss_head (STSS_COUNT * 4)) (note_table stss_update 16 p k)"
  "writes room p k (ATOM ops 16 (mp4_smhd_write ops) (\<lambda>m. m)) (map Some (full_box 16 ''smhd'' 0 @ be16 0 @ be16 0)) k"
  "writes room p k (ATOM ops 12 (mp4_esds_write ops) (\<lambda>m. m)) (map Some (concat (esds_parts (asps_data k)))) k"
  unfolding leaves lay_table_def
  by (rule writes_eq, rule writes_leaf' [OF _ refl]; simp add: no_note_def lay_avcC_def stsc_bytes_def esds_parts_head STTS_COUNT_def STSZ_COUNT_def STCO_COUNT_def STSS_COUNT_def)+

lemma writes_hdlr:
  "writes room p k (ATOM ops 32 (mp4_hdlr_write ops) (\<lambda>m. m)) (map Some (hdlr_bytes k @
     (if trak_count k = 1 then str_bytes ''VideoHandler'' @ [0] else if trak_count k = 2 then str_bytes ''SoundHandler'' @ [0] else []))) k"
  by (subst leaves, rule writes_eq, rule writes_leaf' [OF _ refl]) (auto simp: no_note_def)

lemma writes_free:
  assumes "8 \<le> free_size p"
  shows "writes room p k (ATOM ops 8 (mp4_free_write ops) (\<lambda>m. m)) (lay_free (free_size p)) k"
proof -
  have "free_size p \<le> 512" by (simp add: free_size_def)
  then have "(free_size p + (2 ^ 32 - 8)) mod 2 ^ 32 = free_size p - 8" using assms by (simp add: mod_if)
  then show ?thesis unfolding leaves lay_free_def by (intro writes_eq [OF writes_leaf' [OF _ refl]]) (simp_all add: no_note_def)
qed

lemma writes_last:
  assumes "writes room p k f pat k'"
  shows "writes room p k (steps [f]) pat k'"
  using writes_Cons [OF assms writes_Nil] by simp

lemma writes_dinf: "writes room p k (init_dinf ops) lay_dinf k"
proof -
  have "writes room (p + 8) k (ATOM ops 16 (mp4_dref_write ops) (ATOM ops 12 (mp4_url_write ops) (\<lambda>m. m)))
      (map Some (full_box 28 ''dref'' 0 @ be32 1) @ map Some (full_box 12 ''url '' 1)) k"
    using writes_full_boxes(1) [OF writes_leaves(6)] by simp
  then show ?thesis unfolding init_dinf_def lay_dinf_def by (rule writes_boxes)
qed

lemma writes_new: "writes room p k new_trak [] (k\<lparr>trak_count := trak_count k + 1\<rparr>)"
  using writes_note [of room p k "\<lambda>k. k\<lparr>trak_count := trak_count k + 1\<rparr>"] by (simp add: new_trak_def [abs_def])

lemma writes_tables:
  assumes "8 \<le> free_size q0" "p = q0" "q = p + free_size p"
  shows "writes room p k (init_tables ops) (lay_tables (free_size q0)) (note_tables q k)"
  unfolding init_tables_def lay_tables_def
  apply (rule writes_eq)
    apply (rule writes_Cons, rule writes_free, simp add: assms)
    apply (rule writes_Cons, rule writes_leaves(9))
    apply (rule writes_Cons, rule writes_leaves(10))
    apply (rule writes_Cons, rule writes_leaves(11))
    apply (rule writes_last, rule writes_leaves(12))
   apply (simp add: assms(2))
  apply (simp add: assms note_tables_def note_table_def place_tables_def [abs_def] STTS_COUNT_def STSZ_COUNT_def algebra_simps)
  done

lemma writes_video:
  assumes "trak_count k = 0" "length (lay_avcC k) = x" and q: "q = p + 378 + x" "8 \<le> free_size q"
  shows "writes room p k (init_video_trak ops) (lay_video (k\<lparr>trak_count := 1\<rparr>) (free_size q)) (new_video p (q + free_size q) k)"
proof -
  have "lay_avcC (k\<lparr>trak_count := c\<rparr>) = lay_avcC k" for c
    by (simp add: lay_avcC_def avcC_bytes_def avcC_len_def sps_pps_bytes_def)
  then have l: "length (lay_avcC (k\<lparr>trak_count := c\<rparr>)) = x" for c using assms(2) by simp
  have q': "378 + (p + x) = q" using q(1) by simp
  show ?thesis
  unfolding init_video_trak_def lay_video_def lay_trak_def lay_stsd_def lay_avc1_def
  apply (rule writes_eq)
    apply (rule writes_boxes)
    apply (rule writes_Cons, rule writes_new)
    apply (rule writes_Cons, rule writes_leaves(3))
    apply (rule writes_last, rule writes_boxes)
    apply (rule writes_Cons, rule writes_leaves(4))
    apply (rule writes_Cons, rule writes_hdlr)
    apply (rule writes_last, rule writes_boxes)
    apply (rule writes_Cons, rule writes_leaves(5))
    apply (rule writes_Cons, rule writes_dinf)
    apply (rule writes_last, rule writes_boxes)
    apply (rule writes_Cons, rule writes_full_boxes, rule writes_full_boxes)
     apply (rule writes_Cons, rule writes_leaves(7))
     apply (rule writes_last, rule writes_leaves(8))
    apply (rule writes_Cons, rule writes_tables [OF q(2) _ refl])
     defer
     apply (rule writes_last, rule writes_leaves(13))
    apply (simp add: assms(1) l)
   apply (simp add: assms(1) l q')
   apply (simp add: note_table_def note_tables_def new_video_def place_video_def [abs_def] place_trak_def [abs_def] length_tables [OF q(2)] assms(1) algebra_simps)
  apply (simp add: assms(1) l q')
  done
qed

lemma writes_audio:
  assumes "trak_count k = 1" "length (concat (esds_parts (asps_data k))) = x" and q: "q = p + 305 + x" "8 \<le> free_size q"
  shows "writes room p k (init_audio_trak ops) (lay_audio (k\<lparr>trak_count := 2\<rparr>) (free_size q)) (new_audio p (q + free_size q) k)"
proof -
  have q': "305 + (p + x) = q" using q(1) by simp
  show ?thesis
  unfolding init_audio_trak_def lay_audio_def lay_trak_def lay_stsd_def lay_mp4a_def
  apply (rule writes_eq)
    apply (rule writes_boxes)
    apply (rule writes_Cons, rule writes_new)
    apply (rule writes_Cons, rule writes_leaves(3))
    apply (rule writes_last, rule writes_boxes)
    apply (rule writes_Cons, rule writes_leaves(4))
    apply (rule writes_Cons, rule writes_hdlr)
    apply (rule writes_last, rule writes_boxes)
    apply (rule writes_Cons, rule writes_leaves(14))
    apply (rule writes_Cons, rule writes_dinf)
    apply (rule writes_last, rule writes_boxes)
    apply (rule writes_Cons, rule writes_full_boxes, rule writes_full_boxes)
     apply (rule writes_leaves(15))
    apply (rule writes_last, rule writes_tables [OF q(2) _ refl])
    defer
    apply (simp add: assms(1, 2) numeral_2_eq_2)
   apply (simp add: assms(1, 2) q')
   apply (simp add: assms(1) numeral_2_eq_2 note_tables_def new_audio_def place_trak_def [abs_def] algebra_simps)
  apply (simp add: assms(1, 2) q')
  done
qed

lemma on_key_other [simp]: "io_offset (on_key g m) = io_offset m" "msg_end (on_key g m) = msg_end m" "m4_file (on_key g m) = m4_file m"
  by (simp_all add: on_key_def)

lemma mdat_law:
  assumes st: "m4_st room p p k c m" and d: "p + 8 < 2 ^ 32 - ALIGN" "muxer_file_align_up (p + 8) \<le> room"
    and F: "file_max_size k \<noteq> 0 \<longrightarrow> muxer_file_align_up (p + 8) < file_max_size k"
  shows "\<exists>c'. m4_st room (muxer_file_align_up (p + 8)) (muxer_file_align_up (p + 8)) (note_mdat p k) c'
      (ATOM ops 8 (mp4_mdat_write ops) (\<lambda>m. m) m)
    \<and> placed c' p (common_box (mdat_size (note_mdat p k)) ''mdat'') \<and> (\<forall>i < p. c' i = c i)"
proof -
  define data where "data = muxer_file_align_up (p + 8)"
  define h where "h = common_box (mdat_size (note_mdat p k)) ''mdat''"
  have p8: "p + 8 \<le> data" unfolding data_def by (rule align_up(2) [OF d(1)])
  have room: "data \<le> room" "room < 2 ^ 32" using d(2) st by (auto simp: data_def m4_st_def)
  have z: "(p + 8) mod 2 ^ 32 = p + 8" using p8 room by (intro mod_less) linarith
  obtain c1 where c1: "m4_st room (p + 8) (p + 8) k c1 (mp4_seek_cur ops 8 m)" "\<forall>i. i < p \<or> p + 8 \<le> i \<longrightarrow> c1 i = c i"
    using st_set_io [OF st, of "p + 8"] p8 room z st by (auto simp: mp4_seek_cur_def m4_st_def)
  define m1 where "m1 = on_key (\<lambda>k. k\<lparr>mdat_offset := p\<rparr>) (mp4_seek_set ops p (mp4_seek_cur ops 8 m))"
  have "m4_st room (p + 8) p (k\<lparr>mdat_offset := p\<rparr>) c1 m1"
    unfolding m1_def by (rule st_key, rule st_back [OF c1(1)]) simp
  from st_write [OF this, of h] obtain m2 where m2: "mp4_write ops h m1 = (0, m2)"
      "m4_st room (p + 8) (p + 8) (k\<lparr>mdat_offset := p\<rparr>) (overlay c1 p h) m2"
    using p8 room by (auto simp: h_def)
  obtain s3 where s3: "op_skip ops (data - (p + 8)) (m4_file m2) = (0, s3)" "ok s3" "op_tell ops s3 = data" "fsize (fl s3) = room"
      "\<forall>i. i < p + 8 \<or> data \<le> i \<longrightarrow> view s3 i = overlay c1 p h i"
    using skip_law [of "m4_file m2" "data - (p + 8)"] m2(2) p8 room by (auto simp: m4_st_def)
  define m3 where "m3 = on_key (\<lambda>_. note_mdat p k) (m2\<lparr>m4_file := s3, io_offset := data, msg_end := data\<rparr>)"
  have st3: "m4_st room data data (note_mdat p k) (view s3) m3"
    using s3 room m2(2) by (simp add: m3_def m4_st_def on_key_def)
  have r3: "mp4_seek_set ops data m3 = m3" using st3 by (simp add: m4_st_def mp4_seek_set_def mp4_set_io_offset_def)
  have w: "mp4_mdat_write ops p (mp4_seek_cur ops 8 m) = m3"
  proof -
    have k: "mkey (mp4_seek_cur ops 8 m) = k" "mkey m2 = k\<lparr>mdat_offset := p\<rparr>" "io_offset m2 = p + 8" "msg_end m2 = p + 8"
      using st_end(3) [OF c1(1)] m2(2) by (simp_all add: m4_st_def)
    define L where "L = mdat_size (note_mdat p k)"
    have M: "on_key (\<lambda>k. k\<lparr>mdat_writer_init := True\<rparr>)
        ((on_key (\<lambda>k. k\<lparr>mdat_nowoffset := data, mdat_size := L\<rparr>) m2)\<lparr>m4_file := s3, io_offset := data, msg_end := max (msg_end m2) data\<rparr>) = m3"
      using k p8 by (simp add: m3_def on_key_def note_mdat_def L_def data_def)
    have l: "(if file_max_size k \<noteq> 0 then file_max_size k - p else 8) = L" by (simp add: L_def note_mdat_def)
    have n: "\<not> (file_max_size k \<noteq> 0 \<and> file_max_size k \<le> data)" using F by (auto simp: data_def)
    have f: "fwd m3" using st3 by (simp add: m4_st_def fwd_def)
    have m1: "on_key (\<lambda>k. k\<lparr>mdat_offset := p\<rparr>) (mp4_seek_set ops p (mp4_seek_cur ops 8 m)) = m1" "mkey m1 = k\<lparr>mdat_offset := p\<rparr>"
      by (simp_all add: m1_def k)
    have mo: "mdat_offset (k\<lparr>mdat_offset := p\<rparr>) = p" "file_max_size (k\<lparr>mdat_offset := p\<rparr>) = file_max_size k" by simp_all
    have "mp4_mdat_write ops p (mp4_seek_cur ops 8 m) = note_end (if file_max_size k \<noteq> 0 then m3 else mp4_seek_set ops data m3)"
      unfolding mp4_mdat_write_def Let_def note_end_fwd [OF fwd_seek(1)] tell_seek m1(1) mkey_simps k(1) m1(2)
        mo data_def [symmetric] if_not_P [OF n] l
      using m2(1) s3(1) by (simp add: k(3) M h_def L_def [symmetric] split del: if_split cong: if_cong)
    then show ?thesis using f r3 by simp
  qed
  have e: "ATOM ops 8 (mp4_mdat_write ops) (\<lambda>m. m) m = m3"
    using w r3 st_end(2) [OF st] st_end(1) [OF st3] by (simp add: ATOM_def)
  have "placed (view s3) p h" using placed_cong [of p h "view s3" "overlay c1 p h"] s3(5) by (simp add: h_def)
  then show ?thesis using st3 s3(5) c1(2) unfolding e data_def [symmetric] h_def [symmetric]
    by (intro exI [of _ "view s3"]) (auto simp: overlay_def)
qed

end

section \<open>The whole begin\<close>

definition reset_key :: "mp4_key \<Rightarrow> mp4_key" where
  "reset_key k = k\<lparr>mp4_init := False, mp4_syn_time := 0, trak_count := 0, mdat_size := 0, mdat_offset := 0,
     mdat_nowoffset := 0, mvhd_duration_offset := 0, mdat_writer_init := False, trak := [empty_trak, empty_trak]\<rparr>"

definition moov_end :: "mp4_key \<Rightarrow> nat" where
  "moov_end k = (if mp4_audio_enable k then 2491984 else 1377376)"

text \<open>The samples begin at one of two places.\<close>

definition data_begin :: "mp4_key \<Rightarrow> nat" where
  "data_begin k = (if mp4_audio_enable k then 2523136 else 1409024)"

lemma data_begin_align: "muxer_file_align_up (moov_end k + 8) = data_begin k"
  by (simp add: data_begin_def moov_end_def muxer_file_align_up_def MUXER_FILE_ALIGN_SIZE_def)

definition init_key :: "mp4_key \<Rightarrow> mp4_key" where
  "init_key k = note_mdat (moov_end k) ((reset_key k)\<lparr>mvhd_duration_offset := 56, trak_count := (if mp4_audio_enable k then 2 else 1),
     trak := [place_video 140 1024 empty_trak, if mp4_audio_enable k then place_trak 1377376 1377792 empty_trak else empty_trak]\<rparr>)"

text \<open>Parameter sets and configurations of a usual length.\<close>

definition mp4_fits :: "mp4_key \<Rightarrow> bool" where
  "mp4_fits k \<longleftrightarrow> sps_len k + pps_len k \<le> 249 \<and> length (asps_data k) \<le> 69"

definition esds_len :: "mp4_key \<Rightarrow> nat" where
  "esds_len k = (if asps_data k = [] then 12 else 34 + length (asps_data k))"

definition lay_moov :: "mp4_key \<Rightarrow> u8 option list" where
  "lay_moov k = box8 ''moov'' (map Some mvhd_bytes @ lay_video (k\<lparr>trak_count := 1\<rparr>) (487 - (sps_len k + pps_len k))
     @ (if mp4_audio_enable k then lay_audio (k\<lparr>trak_count := 2\<rparr>) (111 - esds_len k) else []))"

definition lay_file :: "mp4_key \<Rightarrow> u8 option list" where
  "lay_file k = map Some box_ftyp @ lay_moov k @ map Some (common_box (mdat_size k) ''mdat'')"

lemma length_esds: "mp4_fits k \<Longrightarrow> length (concat (esds_parts (asps_data k))) = esds_len k"
  by (auto simp: mp4_fits_def esds_parts_def esds_len_def od_size_of_size.simps Let_def)

lemma length_avcC:
  assumes "mp4_fits k"
  shows "length (lay_avcC k) = 19 + (sps_len k + pps_len k)"
proof -
  have "avcC_len k = 6 + (sps_len k + pps_len k)" using assms by (simp add: mp4_fits_def avcC_len_def)
  then show ?thesis by (simp add: lay_avcC_def sps_pps_bytes_def)
qed

lemma length_tracks:
  assumes "mp4_fits k"
  shows "length (lay_video k (487 - (sps_len k + pps_len k))) = 1377236" "length (lay_audio k (111 - esds_len k)) = 1114608"
proof -
  have "8 \<le> 487 - (sps_len k + pps_len k)" "8 \<le> 111 - esds_len k" using assms by (auto simp: mp4_fits_def esds_len_def)
  then show "length (lay_video k (487 - (sps_len k + pps_len k))) = 1377236" "length (lay_audio k (111 - esds_len k)) = 1114608"
    using assms by (simp_all add: lay_video_def lay_audio_def lay_avc1_def lay_mp4a_def length_tables length_avcC length_esds STSS_COUNT_def)
qed

lemma mp4_fits_count [simp]: "mp4_fits (k\<lparr>trak_count := c\<rparr>) \<longleftrightarrow> mp4_fits k"
  by (simp add: mp4_fits_def)

lemma esds_len_count [simp]: "esds_len (k\<lparr>trak_count := c\<rparr>) = esds_len k"
  by (simp add: esds_len_def)

lemma length_lay_moov: "mp4_fits k \<Longrightarrow> length (lay_moov k) + 24 = moov_end k"
  using length_tracks [of "k\<lparr>trak_count := 1\<rparr>"] length_tracks [of "k\<lparr>trak_count := 2\<rparr>"]
  by (simp add: lay_moov_def moov_end_def)

lemma lay_moov_init: "lay_moov (init_key k) = lay_moov (reset_key k)"
  by (simp add: init_key_def reset_key_def note_mdat_def lay_moov_def lay_video_def lay_audio_def lay_trak_def tkhd_bytes_def hdlr_bytes_def
      lay_avc1_def avc1_bytes_def lay_avcC_def avcC_len_def avcC_bytes_def sps_pps_bytes_def lay_mp4a_def esds_len_def)

context muxer_file
begin

lemma writes_if:
  "\<not> b \<Longrightarrow> k' = k \<Longrightarrow> mp4_audio_enable k = b \<Longrightarrow> writes room p k (\<lambda>m. if mp4_audio_enable (mkey m) then f m else m) [] k'"
  "b \<Longrightarrow> mp4_audio_enable k = b \<Longrightarrow> writes room p k f pat k' \<Longrightarrow>
   writes room p k (\<lambda>m. if mp4_audio_enable (mkey m) then f m else m) pat k'"
  unfolding writes_def using st_end(3) by (auto intro: exI)

lemma moov_law:
  assumes fit: "mp4_fits k" and k: "trak_count k = 0" "trak k = [empty_trak, empty_trak]"
  shows "writes room 0 k (steps [ATOM ops 12 (mp4_ftyp_write ops) (\<lambda>m. m),
      ATOM ops 8 (mp4_moov_write ops) (steps
        [ATOM ops 108 (mp4_mvhd_write ops) (\<lambda>m. m), init_video_trak ops,
         (\<lambda>m. if mp4_audio_enable (mkey m) then init_audio_trak ops m else m)])])
    (map Some box_ftyp @ lay_moov k)
    (k\<lparr>mvhd_duration_offset := 56, trak_count := (if mp4_audio_enable k then 2 else 1),
       trak := [place_video 140 1024 empty_trak, if mp4_audio_enable k then place_trak 1377376 1377792 empty_trak else empty_trak]\<rparr>)"
proof -
  let ?n = "sps_len k + pps_len k"
  let ?k1 = "k\<lparr>mvhd_duration_offset := 56\<rparr>"
  let ?k2 = "new_video 140 1024 ?k1"
  have f1: "mp4_fits ?k1" using fit by (simp add: mp4_fits_def)
  have n: "?n \<le> 249" using fit by (simp add: mp4_fits_def)
  have "(537 + ?n) mod 512 = 25 + ?n" using n by (simp add: mod_if)
  then have fs: "free_size (537 + ?n) = 487 - ?n" using n by (simp add: free_size_def)
  have same: "lay_video (k\<lparr>mvhd_duration_offset := 56, trak_count := Suc 0\<rparr>) = lay_video (k\<lparr>trak_count := 1\<rparr>)"
    by (intro ext) (simp add: lay_video_def lay_trak_def tkhd_bytes_def hdlr_bytes_def lay_avc1_def avc1_bytes_def lay_avcC_def
        avcC_len_def avcC_bytes_def sps_pps_bytes_def)
  have v: "writes room 140 ?k1 (init_video_trak ops) (lay_video (k\<lparr>trak_count := 1\<rparr>) (487 - ?n)) ?k2"
    using writes_video [of ?k1 "19 + ?n" "537 + ?n" 140 room] length_avcC [OF f1] n k fs same by simp
  have k2: "trak_count ?k2 = 1" "asps_data ?k2 = asps_data k" "mp4_audio_enable ?k2 = mp4_audio_enable k" "mp4_fits ?k2"
    using fit k by (simp_all add: new_video_def on_trak_def mp4_fits_def)
  have e: "esds_len k \<le> 103" using fit by (auto simp: mp4_fits_def esds_len_def)
  then have "(1377681 + esds_len k) mod 512 = 401 + esds_len k" by (simp add: mod_if)
  then have fs2: "free_size (1377681 + esds_len k) = 111 - esds_len k" using e by (simp add: free_size_def)
  have same2: "lay_audio (?k2\<lparr>trak_count := 2\<rparr>) = lay_audio (k\<lparr>trak_count := 2\<rparr>)"
    by (intro ext) (simp add: lay_audio_def lay_trak_def tkhd_bytes_def hdlr_bytes_def lay_mp4a_def new_video_def on_trak_def)
  have au: "writes room 1377376 ?k2 (init_audio_trak ops) (lay_audio (k\<lparr>trak_count := 2\<rparr>) (111 - esds_len k)) (new_audio 1377376 1377792 ?k2)"
    using writes_audio [of ?k2 "esds_len k" "1377681 + esds_len k" 1377376 room] length_esds [OF k2(4)] k2 fs2 same2 e
    by (simp add: esds_len_def)
  define af :: "'s mp4 \<Rightarrow> 's mp4" where "af = (\<lambda>m. if mp4_audio_enable (mkey m) then init_audio_trak ops m else m)"
  let ?k3 = "if mp4_audio_enable k then new_audio 1377376 1377792 ?k2 else ?k2"
  have a: "writes room 1377376 ?k2 af (if mp4_audio_enable k then lay_audio (k\<lparr>trak_count := 2\<rparr>) (111 - esds_len k) else []) ?k3"
  proof (cases "mp4_audio_enable k")
    case True
    then show ?thesis using writes_if(2) [OF True _ au] k2(3) unfolding af_def by simp
  next
    case False
    then show ?thesis using writes_if(1) [OF False refl, of ?k2 room 1377376 "init_audio_trak ops"] k2(3) unfolding af_def by simp
  qed
  have l: "length (lay_video (k\<lparr>trak_count := 1\<rparr>) (487 - ?n)) = 1377236" using length_tracks(1) [of "k\<lparr>trak_count := 1\<rparr>"] fit by simp
  have a': "writes room (140 + length (lay_video (k\<lparr>trak_count := 1\<rparr>) (487 - ?n))) ?k2 (steps [af])
      (if mp4_audio_enable k then lay_audio (k\<lparr>trak_count := 2\<rparr>) (111 - esds_len k) else []) ?k3"
    unfolding l using writes_last [OF a] by simp
  have mv: "writes room 32 k (ATOM ops 108 (mp4_mvhd_write ops) (\<lambda>m. m)) (map Some mvhd_bytes) ?k1"
    using writes_leaves(2) [of room 32 k] by simp
  have pos: "32 + length (map Some mvhd_bytes) = 140" "24 + (8::nat) = 32" by simp_all
  have "writes room 24 k (ATOM ops 8 (mp4_moov_write ops) (steps [ATOM ops 108 (mp4_mvhd_write ops) (\<lambda>m. m), init_video_trak ops, af]))
      (lay_moov k) ?k3"
    unfolding lay_moov_def
    by (rule writes_boxes(1), unfold pos(2), rule writes_Cons [OF mv], unfold pos(1), rule writes_Cons [OF v a'])
  from writes_Cons [OF writes_leaves(1) writes_last, of room 0 k, simplified, OF this]
  have "writes room 0 k (steps [ATOM ops 12 (mp4_ftyp_write ops) (\<lambda>m. m),
      ATOM ops 8 (mp4_moov_write ops) (steps [ATOM ops 108 (mp4_mvhd_write ops) (\<lambda>m. m), init_video_trak ops, af])])
      (map Some box_ftyp @ lay_moov k) ?k3" .
  moreover have "?k3 = k\<lparr>mvhd_duration_offset := 56, trak_count := (if mp4_audio_enable k then 2 else 1),
       trak := [place_video 140 1024 empty_trak, if mp4_audio_enable k then place_trak 1377376 1377792 empty_trak else empty_trak]\<rparr>"
    using k by (simp add: new_audio_def new_video_def on_trak_def)
  ultimately show ?thesis unfolding af_def by simp
qed

lemma mp4_init_law:
  assumes s: "ok (m4_file m)" "op_tell ops (m4_file m) = 0" "fsize (fl (m4_file m)) < 2 ^ 32"
    and fp: "\<And>g. g (fl (m4_file m)) = fl (m4_file m) \<Longrightarrow> onfp g (m4_file m) = m4_file m"
    and fit: "mp4_fits (mkey m)" and F: "file_max_size (mkey m) = 0 \<or> file_max_size (mkey m) = fsize (fl (m4_file m))"
    and room: "data_begin (mkey m) < fsize (fl (m4_file m))"
  shows "\<exists>m' c. MP4_init ops onfp m = (0, m')
    \<and> m4_st (fsize (fl (m4_file m))) (data_begin (mkey m)) (data_begin (mkey m)) (init_key (mkey m)) c m'
    \<and> laid c 0 (lay_file (init_key (mkey m)))"
proof -
  let ?room = "fsize (fl (m4_file m))" and ?k = "reset_key (mkey m)" and ?d = "data_begin (mkey m)" and ?e = "moov_end (mkey m)"
  define m1 where "m1 = mp4_reset_init_state ops m"
  have k1: "mkey m1 = ?k" by (simp add: m1_def mp4_reset_init_state_def reset_key_def)
  have same: "file_max_size ?k = file_max_size (mkey m)" "trak_count ?k = 0" "trak ?k = [empty_trak, empty_trak]"
      "mp4_audio_enable ?k = mp4_audio_enable (mkey m)" "mp4_fits ?k"
    using fit by (simp_all add: reset_key_def mp4_fits_def)
  have f1: "m4_file m1 = m4_file m" "io_offset m1 = 0" "msg_end m1 = 0" using s(2) by (simp_all add: m1_def mp4_reset_init_state_def)
  have p: "(if file_max_size ?k \<noteq> 0 then m1\<lparr>m4_file := onfp (pre_mp4_seek (file_max_size ?k)) (m4_file m1)\<rparr> else m1) = m1"
    using F fp [of "pre_mp4_seek ?room"] same(1) by (auto simp: pre_mp4_seek_def osal_fsize_def f1)
  have z: "mp4_seek_set ops 0 m1 = m1" using f1 s(2) by (simp add: mp4_seek_set_def mp4_set_io_offset_def)
  have st: "m4_st ?room 0 0 ?k (view (m4_file m)) m1" using s f1 k1 by (simp add: m4_st_def)
  define fs where "fs = [ATOM ops 12 (mp4_ftyp_write ops) (\<lambda>m. m),
      ATOM ops 8 (mp4_moov_write ops) (steps
        [ATOM ops 108 (mp4_mvhd_write ops) (\<lambda>m. m), init_video_trak ops,
         (\<lambda>m. if mp4_audio_enable (mkey m) then init_audio_trak ops m else m)])]"
  define k2 where "k2 = ?k\<lparr>mvhd_duration_offset := 56, trak_count := (if mp4_audio_enable (mkey m) then 2 else 1),
       trak := [place_video 140 1024 empty_trak, if mp4_audio_enable (mkey m) then place_trak 1377376 1377792 empty_trak else empty_trak]\<rparr>"
  have w: "writes ?room 0 ?k (steps fs) (map Some box_ftyp @ lay_moov ?k) k2"
    using moov_law [OF same(5, 2, 3)] same(4) by (simp add: fs_def k2_def)
  have l: "length (map Some box_ftyp @ lay_moov ?k) = ?e"
    using length_lay_moov [OF same(5)] same(4) by (simp add: moov_end_def)
  have d: "?e + 8 < 2 ^ 32 - ALIGN" "muxer_file_align_up (?e + 8) = ?d" "?e \<le> ?d"
    using data_begin_align [of "mkey m"] by (simp_all add: moov_end_def data_begin_def MUXER_FILE_ALIGN_SIZE_def)
  obtain c2 where c2: "m4_st ?room ?e ?e k2 c2 (steps fs m1)" "laid c2 0 (map Some box_ftyp @ lay_moov ?k)"
    using writesD [OF w st] room d(3) unfolding l by auto
  have k2': "note_mdat ?e k2 = init_key (mkey m)" "file_max_size k2 = file_max_size (mkey m)"
    by (simp_all add: k2_def init_key_def reset_key_def)
  have "file_max_size k2 \<noteq> 0 \<longrightarrow> muxer_file_align_up (?e + 8) < file_max_size k2" using F room d(2) k2'(2) by auto
  then obtain c3 where c3: "m4_st ?room ?d ?d (init_key (mkey m)) c3 (ATOM ops 8 (mp4_mdat_write ops) (\<lambda>m. m) (steps fs m1))"
      "placed c3 ?e (common_box (mdat_size (init_key (mkey m))) ''mdat'')" "\<forall>i < ?e. c3 i = c2 i"
    using mdat_law [OF c2(1) d(1)] room unfolding d(2) k2'(1) by auto
  define m3 where "m3 = ATOM ops 8 (mp4_mdat_write ops) (\<lambda>m. m) (steps fs m1)"
  have "steps (fs @ [ATOM ops 8 (mp4_mdat_write ops) (\<lambda>m. m)]) m1 = m3" by (simp add: steps_def m3_def)
  moreover have "mdat_writer_init (mkey m3)" using st_end(3) [OF c3(1)] by (simp add: m3_def init_key_def note_mdat_def)
  ultimately have "MP4_init ops onfp m = (0, m3)"
    unfolding MP4_init_def Let_def m1_def [symmetric] k1 p z by (simp add: fs_def)
  moreover have "laid c3 0 (lay_file (init_key (mkey m)))"
  proof -
    have "laid c3 0 (map Some box_ftyp @ lay_moov ?k)" using c2(2) c3(3) laid_cong [of 0 "map Some box_ftyp @ lay_moov ?k" c3 c2] l by simp
    moreover have "lay_file (init_key (mkey m))
        = (map Some box_ftyp @ lay_moov ?k) @ map Some (common_box (mdat_size (init_key (mkey m))) ''mdat'')"
      by (simp add: lay_file_def lay_moov_init)
    ultimately show ?thesis using c3(2) l by (simp del: append_assoc)
  qed
  ultimately show ?thesis using c3(1) unfolding m3_def [symmetric] by blast
qed

end

end
