(* ===== verification/Mp4Tables.thy ===== *)
theory Mp4Tables
  imports Mp4Layout
begin

text \<open>
  The sample tables of a track, in the buffers and in the file, and that \<open>mp4_sync\<close> brings the one into the other.
\<close>

section \<open>Entries\<close>

definition words :: "nat list \<Rightarrow> u8 list" where
  "words ns = concat (map be32 ns)"

lemma be32_not_Nil [simp]: "be32 n \<noteq> []"
  by (metis length_be(1) list.size(3) zero_neq_numeral)

lemma words_simps [simp]: "words [] = []" "words (n # ns) = be32 n @ words ns" "words (ms @ ns) = words ms @ words ns"
  by (simp_all add: words_def)

lemma length_words [simp]: "length (words ns) = 4 * length ns"
  by (induction ns) simp_all

lemma words_Nil [simp]: "words ns = [] \<longleftrightarrow> ns = []"
  by (cases ns) simp_all

text \<open>The runs of times: a run is two words.\<close>

definition flat :: "(nat \<times> nat) list \<Rightarrow> nat list" where
  "flat R = concat (map (\<lambda>(n, d). [n, d]) R)"

lemma flat_simps [simp]: "flat [] = []" "flat (R @ R') = flat R @ flat R'" "flat ((n, d) # R) = n # d # flat R"
  by (simp_all add: flat_def)

lemma length_flat [simp]: "length (flat R) = 2 * length R"
  by (induction R) (auto simp: flat_def)

lemma flat_Nil [simp]: "flat R = [] \<longleftrightarrow> R = []"
  by (metis length_0_conv length_flat mult_eq_0_iff zero_neq_numeral)

definition expand :: "(nat \<times> nat) list \<Rightarrow> nat list" where
  "expand R = concat (map (\<lambda>(n, d). replicate n d) R)"

lemma expand_simps [simp]: "expand [] = []" "expand (R @ R') = expand R @ expand R'" "expand ((n, d) # R) = replicate n d @ expand R"
  by (simp_all add: expand_def)

text \<open>The number of changes in a list.\<close>

fun changes :: "nat list \<Rightarrow> nat" where
  "changes (a # b # ds) = (if a = b then 0 else 1) + changes (b # ds)"
| "changes ds = 0"

lemma changes_snoc: "changes (ds @ [d]) = changes ds + (if ds \<noteq> [] \<and> last ds \<noteq> d then 1 else 0)"
  by (induction ds rule: changes.induct) auto

text \<open>A table holds entries of which some are in the file.\<close>

definition tab_data :: "(nat \<Rightarrow> u8) \<Rightarrow> sample_table \<Rightarrow> nat list \<Rightarrow> nat list \<Rightarrow> bool" where
  "tab_data c t ws bs \<longleftrightarrow> tab_buf t = words bs \<and> tab_write_offset t = tab_offset t + 4 * length ws \<and> placed c (tab_offset t) (words ws)"

definition tab_inv :: "(nat \<Rightarrow> u8) \<Rightarrow> sample_table \<Rightarrow> nat list \<Rightarrow> bool" where
  "tab_inv c t es \<longleftrightarrow> (\<exists>ws bs. es = ws @ bs \<and> tab_data c t ws bs \<and> placed c (tab_offset t - 4) (be32 (length ws))) \<and> tab_count t = length es"

definition stts_inv :: "(nat \<Rightarrow> u8) \<Rightarrow> sample_table \<Rightarrow> (nat \<times> nat) list \<Rightarrow> bool" where
  "stts_inv c t R \<longleftrightarrow> (\<exists>ws bs. flat R = ws @ bs \<and> tab_data c t ws bs) \<and> tab_count t = length R"

text \<open>A table that is in the file.\<close>

definition tab_disk :: "(nat \<Rightarrow> u8) \<Rightarrow> nat \<Rightarrow> nat \<Rightarrow> nat list \<Rightarrow> bool" where
  "tab_disk c off n ws \<longleftrightarrow> placed c (off - 4) (be32 n) \<and> placed c off (words ws)"

definition flushed :: "sample_table \<Rightarrow> sample_table" where
  "flushed t = t\<lparr>tab_write_offset := tab_write_offset t + length (tab_buf t), tab_buf := []\<rparr>"

lemma flushed_empty [simp]: "tab_buf t = [] \<Longrightarrow> flushed t = t"
  by (simp add: flushed_def)

lemma flushed_simps [simp]: "tab_offset (flushed t) = tab_offset t" "tab_buf (flushed t) = []" "tab_count (flushed t) = tab_count t"
  by (simp_all add: flushed_def)

lemma tab_data_cong:
  assumes "\<And>x. tab_offset t \<le> x \<Longrightarrow> x < tab_offset t + 4 * length ws \<Longrightarrow> c x = c' x"
  shows "tab_data c t ws bs \<longleftrightarrow> tab_data c' t ws bs"
  using placed_cong [of "tab_offset t" "words ws" c c'] assms by (simp add: tab_data_def)

lemma tab_inv_cong:
  assumes "4 \<le> tab_offset t" "\<And>x. tab_offset t - 4 \<le> x \<Longrightarrow> x < tab_offset t + 4 * length es \<Longrightarrow> c x = c' x" "tab_inv c t es"
  shows "tab_inv c' t es"
proof -
  obtain ws bs where e: "es = ws @ bs" "tab_data c t ws bs" "placed c (tab_offset t - 4) (be32 (length ws))" "tab_count t = length es"
    using assms(3) by (auto simp: tab_inv_def)
  have "tab_data c' t ws bs" using e(1, 2) assms(1, 2) tab_data_cong [of t ws c c' bs] by simp
  moreover have "placed c' (tab_offset t - 4) (be32 (length ws))"
    using e(3) assms(1, 2) placed_cong [of "tab_offset t - 4" "be32 (length ws)" c c'] by simp
  ultimately show ?thesis using e(1, 4) by (auto simp: tab_inv_def)
qed

lemma stts_inv_cong:
  assumes "\<And>x. tab_offset t \<le> x \<Longrightarrow> x < tab_offset t + 8 * length R \<Longrightarrow> c x = c' x" "stts_inv c t R"
  shows "stts_inv c' t R"
proof -
  obtain ws bs where e: "flat R = ws @ bs" "tab_data c t ws bs" "tab_count t = length R" using assms(2) by (auto simp: stts_inv_def)
  have "length ws + length bs = 2 * length R" using arg_cong [OF e(1), of length] by simp
  then have "tab_data c' t ws bs" using e(2) assms(1) tab_data_cong [of t ws c c' bs] by simp
  then show ?thesis using e(1, 3) by (auto simp: stts_inv_def)
qed

lemma tab_disk_cong:
  assumes "4 \<le> off" "\<And>x. off - 4 \<le> x \<Longrightarrow> x < off + 4 * length ws \<Longrightarrow> c x = c' x" "tab_disk c off n ws"
  shows "tab_disk c' off n ws"
  using assms placed_cong [of "off - 4" "be32 n" c c'] placed_cong [of off "words ws" c c'] by (simp add: tab_disk_def)

text \<open>Adding an entry.\<close>

lemma tab_add_simps [simp]: "tab_offset (tab_add bs t) = tab_offset t" "tab_count (tab_add bs t) = tab_count t + 1"
    "tab_buf (tab_add bs t) = tab_buf t @ bs"
  by (simp_all add: tab_add_def)

lemma tab_inv_add: "tab_inv c t es \<Longrightarrow> tab_inv c (tab_add (be32 n) t) (es @ [n])"
  unfolding tab_inv_def tab_data_def
  by (elim conjE exE, intro conjI exI [of _ "_ :: nat list"]) (auto simp: tab_add_def)

lemma stts_inv_add:
  assumes "stts_inv c t R"
  shows "stts_inv c (tab_add (be32 n @ be32 d) t) (R @ [(n, d)])"
proof -
  obtain ws bs where "flat R = ws @ bs" "tab_data c t ws bs" "tab_count t = length R" using assms by (auto simp: stts_inv_def)
  then have "flat (R @ [(n, d)]) = ws @ (bs @ [n, d])" "tab_data c (tab_add (be32 n @ be32 d) t) ws (bs @ [n, d])"
    by (simp_all add: tab_data_def tab_add_def)
  then show ?thesis using \<open>tab_count t = length R\<close> unfolding stts_inv_def by auto
qed

lemma upd_same:
  "f (stts v) = stts v \<Longrightarrow> stts_update f v = v" "f (stsc v) = stsc v \<Longrightarrow> stsc_update f v = v" "f (stsz v) = stsz v \<Longrightarrow> stsz_update f v = v"
  "f (stco v) = stco v \<Longrightarrow> stco_update f v = v" "f (stss v) = stss v \<Longrightarrow> stss_update f v = v"
  by (cases v; simp)+

section \<open>Tables brought to the file\<close>

context muxer_file
begin

text \<open>
  The muxer in the middle of a file: where \<open>e\<close> bytes are behind it, the end it has noted does not matter. \<open>P\<close> is something
  that writes at a place and flushes keep.
\<close>

definition lasting :: "('s \<Rightarrow> bool) \<Rightarrow> bool" where
  "lasting P \<longleftrightarrow> (\<forall>s off bs. ok s \<longrightarrow> P s \<longrightarrow> off + length bs \<le> op_tell ops s \<longrightarrow> P (snd (op_write_at ops off bs s)))
     \<and> (\<forall>s. ok s \<longrightarrow> P s \<longrightarrow> P (snd (op_flush ops s)))"

definition m4_at :: "('s \<Rightarrow> bool) \<Rightarrow> nat \<Rightarrow> nat \<Rightarrow> nat \<Rightarrow> mp4_key \<Rightarrow> (nat \<Rightarrow> u8) \<Rightarrow> 's mp4 \<Rightarrow> bool" where
  "m4_at P room e q k c m \<longleftrightarrow> lasting P \<and> P (m4_file m) \<and> ok (m4_file m) \<and> op_tell ops (m4_file m) = e \<and> io_offset m = q \<and> q \<le> e \<and> e \<le> room
     \<and> fsize (fl (m4_file m)) = room \<and> room < 2 ^ 32 \<and> mkey m = k \<and> view (m4_file m) = c"

lemma at_st: "m4_st room e q k c m \<Longrightarrow> m4_at (\<lambda>_. True) room e q k c m"
  by (simp add: m4_st_def m4_at_def lasting_def)

lemma at_key: "m4_at P room e q k c m \<Longrightarrow> m4_at P room e q (g k) c (on_key g m)"
  by (simp add: m4_at_def)

lemma at_end: "m4_at P room e q k c m \<Longrightarrow> mkey m = k"
  by (simp add: m4_at_def)

lemma at_back: "m4_at P room e q k c m \<Longrightarrow> q' \<le> e \<Longrightarrow> m4_at P room e q' k c (mp4_seek_set ops q' m)"
  by (simp add: m4_at_def mp4_seek_set_def mp4_set_io_offset_def)

text \<open>A write at a place that is already written.\<close>

lemma at_here:
  assumes at: "m4_at P room e q k c m" and q: "q + length bs \<le> e" "bs \<noteq> []"
  shows "\<exists>m'. mp4_write ops bs m = (0, m') \<and> m4_at P room e (q + length bs) k (overlay c q bs) m'"
proof -
  have n: "q \<noteq> e" "\<not> q + length bs > e" using q by auto
  have m: "ok (m4_file m)" "op_tell ops (m4_file m) = e" "io_offset m = q" "q + length bs \<le> fsize (fl (m4_file m))" "P (m4_file m)" "lasting P"
    using at q by (auto simp: m4_at_def)
  obtain s where s: "op_write_at ops q bs (m4_file m) = (0, s)" "ok s" "op_tell ops s = e" "fsize (fl s) = fsize (fl (m4_file m))"
      "view s = overlay (view (m4_file m)) q bs"
    using write_at_law [OF m(1, 4)] m(2) by auto
  have "P (snd (op_write_at ops q bs (m4_file m)))" using m q unfolding lasting_def by blast
  then show ?thesis using s n m at q by (auto simp: m4_at_def mp4_write_def io_advance_def Let_def)
qed

lemma at_over:
  assumes "m4_at P room e q k c m" "off + length bs \<le> e" "bs \<noteq> []"
  shows "\<exists>m'. mp4_write ops bs (mp4_seek_set ops off m) = (0, m') \<and> m4_at P room e (off + length bs) k (overlay c off bs) m'"
proof -
  have "off \<le> e" using assms(2) by simp
  from at_here [OF at_back [OF assms(1) this] assms(2, 3)] show ?thesis .
qed

lemma sync_table_law:
  assumes st: "m4_at P room e q k c m" and t: "get (trak k ! i) = t" and inv: "tab_inv c t es"
    and fit: "4 \<le> tab_offset t" "tab_offset t + 4 * length es \<le> e" "length es < limit"
    and lens: "\<And>f. f t = t \<Longrightarrow> upd f (trak k ! i) = trak k ! i"
  shows "\<exists>m' q' c'. sync_table ops get upd limit chk i (ret, m) = (ret, m')
    \<and> m4_at P room e q' (on_trak i (upd flushed) k) c' m'
    \<and> tab_disk c' (tab_offset t) (length es) es
    \<and> (\<forall>x. x < tab_offset t - 4 \<or> tab_offset t + 4 * length es \<le> x \<longrightarrow> c' x = c x)"
proof -
  obtain ws bs where e: "es = ws @ bs" "tab_data c t ws bs" "placed c (tab_offset t - 4) (be32 (length ws))" "tab_count t = length es"
    using inv by (auto simp: tab_inv_def)
  have d: "tab_buf t = words bs" "tab_write_offset t = tab_offset t + 4 * length ws" "placed c (tab_offset t) (words ws)"
    using e(2) by (auto simp: tab_data_def)
  show ?thesis
  proof (cases "bs = []")
    case True
    then have "sync_table ops get upd limit chk i (ret, m) = (ret, m)" using d(1) t at_end [OF st] by (simp add: sync_table_def)
    moreover have "on_trak i (upd flushed) k = k" using lens [of flushed] True d(1) by (simp add: on_trak_def)
    moreover have "tab_disk c (tab_offset t) (length es) es" using True d(3) e(1, 3) by (simp add: tab_disk_def)
    ultimately show ?thesis using st d(1) True by (intro exI [of _ m] exI [of _ q] exI [of _ c]) simp
  next
    case False
    let ?c1 = "overlay c (tab_offset t + 4 * length ws) (words bs)"
    have fits: "tab_offset t + 4 * length ws + length (words bs) \<le> e" "tab_offset t - 4 + length (be32 (length es)) \<le> e"
      using fit e(1) by auto
    obtain m1 where m1: "mp4_write ops (words bs) (mp4_seek_set ops (tab_offset t + 4 * length ws) m) = (0, m1)"
        "m4_at P room e (tab_offset t + 4 * length ws + length (words bs)) k ?c1 m1"
      using at_over [OF st fits(1)] False by auto
    let ?k = "on_trak i (upd flushed) k"
    have "m4_at P room e (tab_offset t + 4 * length ws + length (words bs)) ?k ?c1 (on_key (on_trak i (upd flushed)) m1)"
      by (rule at_key [OF m1(2)])
    from at_over [OF this fits(2) be32_not_Nil] obtain m2 where m2:
        "mp4_write ops (be32 (length es)) (mp4_seek_set ops (tab_offset t - 4) (on_key (on_trak i (upd flushed)) m1)) = (0, m2)"
        "m4_at P room e (tab_offset t - 4 + length (be32 (length es))) ?k (overlay ?c1 (tab_offset t - 4) (be32 (length es))) m2"
      by blast
    have f: "flushed = (\<lambda>t. t\<lparr>tab_write_offset := tab_write_offset t + length (tab_buf t), tab_buf := []\<rparr>)"
      by (rule ext) (simp add: flushed_def)
    have "sync_table ops get upd limit chk i (ret, m) = (ret, m2)"
      using m1(1) m2(1) False d(1, 2) t at_end [OF st] e(4) fit(3)
      by (simp add: sync_table_def Let_def f [symmetric])
    moreover have "tab_disk (overlay ?c1 (tab_offset t - 4) (be32 (length es))) (tab_offset t) (length es) es"
    proof -
      have "placed c (tab_offset t) (words ws) \<longleftrightarrow> placed ?c1 (tab_offset t) (words ws)"
        by (rule placed_cong) (simp add: overlay_outside)
      then have "placed ?c1 (tab_offset t) (words es)" using d(3) e(1) by (simp add: placed_append)
      then show ?thesis using fit(1) by (simp add: tab_disk_def placed_overlay_other)
    qed
    moreover have "overlay ?c1 (tab_offset t - 4) (be32 (length es)) x = c x"
      if "x < tab_offset t - 4 \<or> tab_offset t + 4 * length es \<le> x" for x
      using that e(1) fit(1) by (auto simp: overlay_def)
    ultimately show ?thesis using m2(2) d(1) False by (intro exI [of _ m2]) auto
  qed
qed

text \<open>The table of times, with the run that is open.\<close>

lemma sync_stts_law:
  assumes st: "m4_at P room e q k c m" and v: "trak k ! i = v" and inv: "stts_inv c (stts v) R" and n: "0 < last_sample_count v"
    and fit: "4 \<le> tab_offset (stts v)" "tab_offset (stts v) + 8 * (length R + 1) \<le> e" "length R < STTS_COUNT"
  shows "\<exists>m' q' c'. sync_stts ops i (ret, m) = (ret, m')
    \<and> m4_at P room e q' (on_trak i (stts_update flushed) k) c' m'
    \<and> tab_disk c' (tab_offset (stts v)) (length R + 1) (flat (R @ [(last_sample_count v, last_delta v)]))
    \<and> (\<forall>x. x < tab_offset (stts v) - 4 \<or> tab_offset (stts v) + 8 * (length R + 1) \<le> x \<longrightarrow> c' x = c x)"
proof -
  define t where "t = stts v"
  obtain ws bs where e: "flat R = ws @ bs" "tab_data c t ws bs" "tab_count t = length R" using inv by (auto simp: stts_inv_def t_def)
  have d: "tab_buf t = words bs" "tab_write_offset t = tab_offset t + 4 * length ws" "placed c (tab_offset t) (words ws)"
    using e(2) by (auto simp: tab_data_def)
  have l: "length ws + length bs = 2 * length R" using arg_cong [OF e(1), of length] by simp
  define o1 where "o1 = tab_offset t + 4 * length ws"
  define o2 where "o2 = tab_offset t + 8 * length R"
  define last where "last = be32 (last_sample_count v) @ be32 (last_delta v)"
  let ?c1 = "overlay c o1 (words bs)"
  let ?k = "on_trak i (stts_update flushed) k"
  have o: "o1 + length (words bs) = o2" "o2 + 8 \<le> e" "o1 \<le> o2" using l fit(2) by (simp_all add: o1_def o2_def t_def)
  define m1 where "m1 = (if tab_buf t \<noteq> [] then on_key (on_trak i (stts_update flushed)) (put ops (tab_buf t) (mp4_seek_set ops o1 m)) else mp4_seek_set ops o1 m)"
  have m1: "m4_at P room e o2 ?k ?c1 m1"
  proof (cases "bs = []")
    case True
    have "stts_update flushed (trak k ! i) = trak k ! i"
      unfolding v by (rule upd_same(1)) (use True d(1) in \<open>simp add: t_def [symmetric]\<close>)
    then have "on_trak i (stts_update flushed) k = k" by (simp add: on_trak_def)
    then show ?thesis using True d(1) o at_back [OF st, of o1] by (simp add: m1_def)
  next
    case False
    have "m4_at P room e (o1 + length (words bs)) k ?c1 (put ops (words bs) (mp4_seek_set ops o1 m))"
      using at_over [OF st, of o1 "words bs"] o False by (auto simp: put_def)
    from at_key [OF this, of "on_trak i (stts_update flushed)"] show ?thesis using False d(1) o(1) by (simp add: m1_def)
  qed
  have "o2 + length last \<le> e" "last \<noteq> []" using o(2) by (simp_all add: last_def)
  from at_here [OF m1 this] obtain m2 where m2: "mp4_write ops last m1 = (0, m2)"
      "m4_at P room e (o2 + 8) ?k (overlay ?c1 o2 last) m2"
    by (auto simp: last_def)
  have "tab_offset t - 4 + length (be32 (length R + 1)) \<le> e" using fit(1, 2) by (simp add: t_def)
  from at_over [OF m2(2) this be32_not_Nil] obtain m3 where m3:
      "mp4_write ops (be32 (length R + 1)) (mp4_seek_set ops (tab_offset t - 4) m2) = (0, m3)"
      "m4_at P room e (tab_offset t - 4 + length (be32 (length R + 1))) ?k (overlay (overlay ?c1 o2 last) (tab_offset t - 4) (be32 (length R + 1))) m3"
    by blast
  let ?c3 = "overlay (overlay ?c1 o2 last) (tab_offset t - 4) (be32 (length R + 1))"
  have f: "flushed = (\<lambda>t. t\<lparr>tab_write_offset := tab_write_offset t + length (tab_buf t), tab_buf := []\<rparr>)"
    by (rule ext) (simp add: flushed_def)
  have "sync_stts ops i (ret, m) = (ret, m3)"
    using m2(1) m3(1) n v fit(3) e(3) at_end [OF st] d(2)
    by (simp add: sync_stts_def Let_def t_def [symmetric] f [symmetric] o1_def [symmetric] m1_def [symmetric] last_def [symmetric] split del: if_split cong: if_cong)
  moreover have "tab_disk ?c3 (tab_offset t) (length R + 1) (flat (R @ [(last_sample_count v, last_delta v)]))"
  proof -
    have "placed c (tab_offset t) (words ws) \<longleftrightarrow> placed ?c1 (tab_offset t) (words ws)"
      by (rule placed_cong) (simp add: overlay_outside o1_def)
    then have "placed ?c1 (tab_offset t) (words (flat R))" using d(3) unfolding e(1) by (simp add: placed_append o1_def)
    then have "placed (overlay ?c1 o2 last) (tab_offset t) (words (flat R) @ last)"
      unfolding placed_append by (simp add: o2_def placed_overlay_other)
    then have "placed ?c3 (tab_offset t) (words (flat R) @ last)"
      using placed_overlay_other [of "tab_offset t - 4" "be32 (length R + 1)" "tab_offset t" "words (flat R) @ last"] fit(1)
      by (simp add: t_def)
    then show ?thesis by (simp add: tab_disk_def last_def)
  qed
  moreover have "?c3 x = c x" if "x < tab_offset t - 4 \<or> tab_offset t + 8 * (length R + 1) \<le> x" for x
    using that o fit(1) by (auto simp: overlay_def last_def o1_def o2_def t_def)
  ultimately show ?thesis using m3(2) unfolding t_def by blast
qed

end

end
