(* ===== verification/Mp4Track.thy ===== *)
theory Mp4Track
  imports Mp4Tables
begin

text \<open>
  A track: the tables describe the samples that were written, and \<open>mp4_sync\<close> brings all of it to the file.
\<close>

section \<open>Samples\<close>

text \<open>A sample of a track: where it lies, its bytes, its duration in milliseconds and whether it is a key frame.\<close>

type_synonym gsample = "nat \<times> u8 list \<times> nat \<times> bool"

definition offs :: "gsample list \<Rightarrow> nat list" where "offs S = map fst S"
definition sizes :: "gsample list \<Rightarrow> nat list" where "sizes S = map (\<lambda>s. length (fst (snd s))) S"
definition durs :: "gsample list \<Rightarrow> nat list" where "durs S = map (\<lambda>s. fst (snd (snd s))) S"
definition keys :: "gsample list \<Rightarrow> nat list" where "keys S = map Suc (filter (\<lambda>i. snd (snd (snd (S ! i)))) [0..<length S])"

lemma samples_snoc [simp]:
  "offs (S @ [s]) = offs S @ [fst s]" "sizes (S @ [s]) = sizes S @ [length (fst (snd s))]" "durs (S @ [s]) = durs S @ [fst (snd (snd s))]"
  "keys (S @ [s]) = keys S @ (if snd (snd (snd s)) then [Suc (length S)] else [])"
proof -
  have "filter (\<lambda>i. snd (snd (snd ((S @ [s]) ! i)))) [0..<length S] = filter (\<lambda>i. snd (snd (snd (S ! i)))) [0..<length S]"
    by (rule filter_cong) (auto simp: nth_append)
  then show "keys (S @ [s]) = keys S @ (if snd (snd (snd s)) then [Suc (length S)] else [])" by (simp add: keys_def)
qed (simp_all add: offs_def sizes_def durs_def)

lemma samples_Nil [simp]: "offs [] = []" "sizes [] = []" "durs [] = []" "keys [] = []"
  by (simp_all add: offs_def sizes_def durs_def keys_def)

lemma length_samples [simp]: "length (offs S) = length S" "length (sizes S) = length S" "length (durs S) = length S"
  by (simp_all add: offs_def sizes_def durs_def)

lemma durs_Nil [simp]: "durs S = [] \<longleftrightarrow> S = []"
  by (simp add: durs_def)

lemma length_keys: "length (keys S) \<le> length S"
  using length_filter_le [of "\<lambda>i. snd (snd (snd (S ! i)))" "[0..<length S]"] by (simp add: keys_def)

section \<open>The invariant of a track\<close>

text \<open>What the tables of a track say of its samples; \<open>R\<close> are the runs of times that are closed.\<close>

definition trak_inv :: "bool \<Rightarrow> (nat \<Rightarrow> u8) \<Rightarrow> trak_key_msg \<Rightarrow> gsample list \<Rightarrow> (nat \<times> nat) list \<Rightarrow> bool" where
  "trak_inv vid c v S R \<longleftrightarrow>
     stts_inv c (stts v) R \<and> expand (R @ [(last_sample_count v, last_delta v)]) = map (\<lambda>d. d * 90) (durs S)
     \<and> length R = changes (durs S)
     \<and> (if S = [] then last_delta v = 0 \<and> last_sample_count v = 0 \<and> placed c (tab_offset (stts v) - 4) (be32 0)
        else 0 < last_sample_count v \<and> 0 < last_delta v \<and> last_delta v = last (durs S) * 90)
     \<and> tab_inv c (stsz v) (sizes S) \<and> tab_inv c (stco v) (offs S)
     \<and> (if vid then tab_inv c (stss v) (keys S) else tab_buf (stss v) = [])
     \<and> tab_buf (stsc v) = [] \<and> tk_count v = length S \<and> tk_duration v = sum_list (durs S)"

text \<open>The buffers hold whole entries, and room for one more.\<close>

definition bufs_ok :: "trak_key_msg \<Rightarrow> bool" where
  "bufs_ok v \<longleftrightarrow> (\<exists>a b c d. length (tab_buf (stts v)) = 8 * a \<and> a < 64 \<and> length (tab_buf (stsz v)) = 4 * b \<and> b < 128
     \<and> length (tab_buf (stco v)) = 4 * c \<and> c < 128 \<and> length (tab_buf (stss v)) = 4 * d \<and> d < 128)"

text \<open>They are never longer than they are.\<close>

definition bufs_bound :: "trak_key_msg \<Rightarrow> bool" where
  "bufs_bound v \<longleftrightarrow> length (tab_buf (stts v)) \<le> 512 \<and> length (tab_buf (stsc v)) \<le> 512 \<and> length (tab_buf (stsz v)) \<le> 512
     \<and> length (tab_buf (stco v)) \<le> 512 \<and> length (tab_buf (stss v)) \<le> 512"

definition flush_trak :: "trak_key_msg \<Rightarrow> trak_key_msg" where
  "flush_trak v = stss_update flushed (stco_update flushed (stsz_update flushed (stts_update flushed v)))"

definition add_sample :: "bool \<Rightarrow> nat \<Rightarrow> nat \<Rightarrow> nat \<Rightarrow> bool \<Rightarrow> trak_key_msg \<Rightarrow> bool \<times> trak_key_msg" where
  "add_sample vid sz off duration key v =
     (let (flag, v) = mp4_update_sample_tables sz off duration v
      in if key then let v = v\<lparr>stss := tab_add (be32 (tk_count v)) (stss v)\<rparr> in (flag \<or> tab_full STSS_COUNT (stss v), v) else (flag, v))"

definition same_place :: "trak_key_msg \<Rightarrow> trak_key_msg \<Rightarrow> bool" where
  "same_place v v' \<longleftrightarrow> tkhd_duration_offset v' = tkhd_duration_offset v \<and> mdhd_duration_offset v' = mdhd_duration_offset v
     \<and> tab_offset (stts v') = tab_offset (stts v) \<and> tab_offset (stsz v') = tab_offset (stsz v)
     \<and> tab_offset (stco v') = tab_offset (stco v) \<and> tab_offset (stss v') = tab_offset (stss v)"

lemma add_sample_inv:
  assumes inv: "trak_inv vid c v S R" and d: "0 < duration" "duration * 90 < 2 ^ 32" and key: "key \<longrightarrow> vid"
    and a: "add_sample vid (length b) off duration key v = (flag, v')"
  shows "\<exists>R'. trak_inv vid c v' (S @ [(off, b, duration, key)]) R'" "same_place v v'"
proof -
  define D where "D = duration * 90"
  have D: "duration * 90 mod 2 ^ 32 = D" "0 < D" using d by (simp_all add: D_def)
  define v1 where "v1 = v\<lparr>tk_count := tk_count v + 1, tk_duration := tk_duration v + duration\<rparr>"
  define cl where "cl = (last_delta v \<noteq> 0 \<and> last_delta v \<noteq> D)"
  define v2 where "v2 = (if cl then v1\<lparr>stts := tab_add (be32 (last_sample_count v) @ be32 (last_delta v)) (stts v), last_sample_count := 0\<rparr> else v1)"
  define v3 where "v3 = v2\<lparr>last_delta := D, last_sample_count := last_sample_count v2 + 1, stsz := tab_add (be32 (length b)) (stsz v),
      stco := tab_add (be32 off) (stco v)\<rparr>"
  have v': "v' = (if key then v3\<lparr>stss := tab_add (be32 (tk_count v3)) (stss v3)\<rparr> else v3)"
    using a D(1) by (auto simp: add_sample_def mp4_update_sample_tables_def Let_def v3_def v2_def v1_def cl_def split: if_splits)
  define R' where "R' = (if cl then R @ [(last_sample_count v, last_delta v)] else R)"
  have st: "stts_inv c (stts v') R'"
    using inv stts_inv_add [of c "stts v" R "last_sample_count v" "last_delta v"]
    by (simp add: v' v3_def v2_def v1_def R'_def trak_inv_def)
  have cl_iff: "cl \<longleftrightarrow> S \<noteq> [] \<and> last (durs S) \<noteq> duration"
    using inv D(2) by (auto simp: cl_def trak_inv_def D_def split: if_splits)
  have e: "expand (R' @ [(last_sample_count v', last_delta v')]) = map (\<lambda>d. d * 90) (durs S) @ [D]"
  proof (cases cl)
    case True
    then show ?thesis using inv by (simp add: R'_def v' v3_def v2_def trak_inv_def)
  next
    case False
    then have "S = [] \<or> last_delta v = D" using cl_iff inv by (auto simp: trak_inv_def D_def)
    then have "last_sample_count v = 0 \<or> last_delta v = D" using inv by (auto simp: trak_inv_def)
    then have r: "replicate (Suc (last_sample_count v)) D = replicate (last_sample_count v) (last_delta v) @ [D]"
      by (auto simp: replicate_append_same)
    have "last_sample_count v' = Suc (last_sample_count v)" "last_delta v' = D" "R' = R"
      using False by (simp_all add: R'_def v' v3_def v2_def v1_def)
    then have "expand (R' @ [(last_sample_count v', last_delta v')]) = expand R @ replicate (Suc (last_sample_count v)) D"
      by simp
    also have "\<dots> = expand (R @ [(last_sample_count v, last_delta v)]) @ [D]" unfolding r by simp
    also have "\<dots> = map (\<lambda>d. d * 90) (durs S) @ [D]" using inv by (simp only: trak_inv_def)
    finally show ?thesis .
  qed
  have rest: "tab_inv c (stsz v') (sizes S @ [length b])" "tab_inv c (stco v') (offs S @ [off])"
      "tab_buf (stsc v') = []" "tk_count v' = length S + 1" "tk_duration v' = sum_list (durs S) + duration"
      "0 < last_sample_count v'" "last_delta v' = D"
    using inv tab_inv_add by (auto simp: v' v3_def v2_def v1_def trak_inv_def)
  have ss: "if vid then tab_inv c (stss v') (keys S @ (if key then [Suc (length S)] else [])) else tab_buf (stss v') = []"
    using inv tab_inv_add key by (auto simp: v' v3_def v2_def v1_def trak_inv_def)
  have ch: "length R' = changes (durs S @ [duration])"
    using inv cl_iff by (simp add: R'_def changes_snoc trak_inv_def)
  show "\<exists>R'. trak_inv vid c v' (S @ [(off, b, duration, key)]) R'"
    using st e rest ss ch D_def d(1) unfolding trak_inv_def by (intro exI [of _ R']) simp
  show "same_place v v'" by (simp add: same_place_def v' v3_def v2_def v1_def)
qed

lemma add_sample_eq:
  assumes "add_sample vid sz off duration key v = (flag, v')"
  shows "tab_buf (stsz v') = tab_buf (stsz v) @ be32 sz" "tab_buf (stco v') = tab_buf (stco v) @ be32 off" "stsc v' = stsc v"
    "tab_buf (stts v') = tab_buf (stts v) @ (if last_delta v \<noteq> 0 \<and> last_delta v \<noteq> duration * 90 mod 2 ^ 32
       then be32 (last_sample_count v) @ be32 (last_delta v) else [])"
    "tab_buf (stss v') = tab_buf (stss v) @ (if key then be32 (tk_count v + 1) else [])"
    "flag \<longleftrightarrow> tab_full STTS_COUNT (stts v') \<or> tab_full STSZ_COUNT (stsz v') \<or> tab_full STCO_COUNT (stco v') \<or> key \<and> tab_full STSS_COUNT (stss v')"
  using assms by (simp_all add: add_sample_def mp4_update_sample_tables_def Let_def split: if_splits) auto

lemma add_sample_bufs:
  assumes "bufs_ok v" "tab_buf (stsc v) = []" "add_sample vid sz off duration key v = (flag, v')"
  shows "bufs_bound v'" "\<not> flag \<Longrightarrow> bufs_ok v'"
proof -
  obtain a b c d where l: "length (tab_buf (stts v)) = 8 * a" "a < 64" "length (tab_buf (stsz v)) = 4 * b" "b < 128"
      "length (tab_buf (stco v)) = 4 * c" "c < 128" "length (tab_buf (stss v)) = 4 * d" "d < 128"
    using assms(1) by (auto simp: bufs_ok_def)
  note e = add_sample_eq [OF assms(3)]
  obtain a' where a': "length (tab_buf (stts v')) = 8 * a'" "a' \<le> 64"
    using e(4) l(1, 2) that [of a] that [of "a + 1"] by (auto split: if_splits)
  obtain d' where d': "length (tab_buf (stss v')) = 4 * d'" "d' \<le> 128" "key \<or> d' = d"
    using e(5) l(7, 8) that [of d] that [of "d + 1"] by (auto split: if_splits)
  have b': "length (tab_buf (stsz v')) = 4 * (b + 1)" "length (tab_buf (stco v')) = 4 * (c + 1)" using e(1, 2) l(3, 5) by simp_all
  show "bufs_bound v'" using a' b' d'(1, 2) l(4, 6) e(3) assms(2) by (simp add: bufs_bound_def)
  show "bufs_ok v'" if nf: "\<not> flag"
  proof -
    have "length (tab_buf (stts v')) < 512" "length (tab_buf (stsz v')) < 512" "length (tab_buf (stco v')) < 512"
        "key \<longrightarrow> length (tab_buf (stss v')) < 512"
      using e(6) nf by (auto simp: tab_full_def)
    then have "a' < 64" "b + 1 < 128" "c + 1 < 128" "d' < 128" using a'(1) b' d' l(8) by auto
    then show ?thesis using a'(1) b' d'(1) unfolding bufs_ok_def by blast
  qed
qed

lemma flush_trak_simps [simp]: "same_place v (flush_trak v)" "tk_duration (flush_trak v) = tk_duration v"
  by (simp_all add: same_place_def flush_trak_def)

lemma flush_trak_bufs: "bufs_ok (flush_trak v)"
  by (auto simp: bufs_ok_def flush_trak_def)

lemma tab_inv_flushed:
  assumes "tab_inv c t es" "tab_disk c' (tab_offset t) (length es) es"
  shows "tab_inv c' (flushed t) es"
proof -
  obtain ws bs where e: "es = ws @ bs" "tab_data c t ws bs" "tab_count t = length es" using assms(1) by (auto simp: tab_inv_def)
  then have "tab_data c' (flushed t) es []" using assms(2) by (simp add: tab_data_def tab_disk_def flushed_def)
  then show ?thesis using assms(2) e(3) unfolding tab_inv_def tab_disk_def
    by (intro conjI exI [of _ es] exI [of _ "[]"]) simp_all
qed

lemma stts_inv_flushed:
  assumes "stts_inv c t R" "tab_disk c' (tab_offset t) n (flat (R @ R'))"
  shows "stts_inv c' (flushed t) R"
proof -
  obtain ws bs where e: "flat R = ws @ bs" "tab_data c t ws bs" "tab_count t = length R" using assms(1) by (auto simp: stts_inv_def)
  then have "tab_data c' (flushed t) (flat R) []" using assms(2) by (simp add: tab_data_def tab_disk_def flushed_def placed_append)
  then show ?thesis using e(3) unfolding stts_inv_def by (intro conjI exI [of _ "flat R"] exI [of _ "[]"]) simp_all
qed

section \<open>A track in the file\<close>

definition addr_ok :: "nat \<Rightarrow> nat \<Rightarrow> bool \<Rightarrow> trak_key_msg \<Rightarrow> bool" where
  "addr_ok p q vid v \<longleftrightarrow> tkhd_duration_offset v = p + 36 \<and> mdhd_duration_offset v = p + 132 \<and> tab_offset (stts v) = q + 16
     \<and> tab_offset (stsz v) = q + 65600 \<and> tab_offset (stco v) = q + 589904 \<and> (vid \<longrightarrow> tab_offset (stss v) = q + 1114208) \<and> p + 136 \<le> q"

text \<open>The bytes that are changed after the begin.\<close>

definition patch :: "nat \<Rightarrow> nat \<Rightarrow> bool \<Rightarrow> nat \<Rightarrow> bool" where
  "patch p q vid x \<longleftrightarrow> p + 36 \<le> x \<and> x < p + 40 \<or> p + 132 \<le> x \<and> x < p + 136 \<or> q + 12 \<le> x \<and> x < q + 65552
     \<or> q + 65596 \<le> x \<and> x < q + 589888 \<or> q + 589900 \<le> x \<and> x < q + 1114192 \<or> vid \<and> q + 1114204 \<le> x \<and> x < q + 1376352"

definition trak_end :: "nat \<Rightarrow> bool \<Rightarrow> nat" where
  "trak_end q vid = (if vid then q + 1376352 else q + 1114192)"

definition trak_disk :: "nat \<Rightarrow> nat \<Rightarrow> bool \<Rightarrow> (nat \<Rightarrow> u8) \<Rightarrow> gsample list \<Rightarrow> bool" where
  "trak_disk p q vid c S \<longleftrightarrow>
     (\<exists>R. expand R = map (\<lambda>d. d * 90) (durs S) \<and> length R \<le> STTS_COUNT \<and> tab_disk c (q + 16) (length R) (flat R) \<and> (S \<noteq> [] \<longrightarrow> R \<noteq> []))
     \<and> tab_disk c (q + 65600) (length S) (sizes S) \<and> tab_disk c (q + 589904) (length S) (offs S)
     \<and> (vid \<longrightarrow> tab_disk c (q + 1114208) (length (keys S)) (keys S))
     \<and> placed c (p + 132) (be32 (sum_list (durs S) * 90)) \<and> placed c (p + 36) (be32 (sum_list (durs S)))"

text \<open>Samples for which there is room.\<close>

definition track_room :: "bool \<Rightarrow> gsample list \<Rightarrow> bool" where
  "track_room vid S \<longleftrightarrow> changes (durs S) < STTS_COUNT \<and> length S < STSZ_COUNT \<and> (vid \<longrightarrow> length (keys S) < STSS_COUNT)"

context muxer_file
begin

lemma sync_stts_law':
  assumes st: "m4_at P room e q0 k c m" and v: "trak k ! i = v" and inv: "trak_inv vid c v S R" and a: "addr_ok p q vid v"
    and fit: "q + 65552 \<le> e" "changes (durs S) < STTS_COUNT"
  shows "\<exists>m' q' c' R'. sync_stts ops i (ret, m) = (ret, m') \<and> m4_at P room e q' (on_trak i (stts_update flushed) k) c' m'
    \<and> expand R' = map (\<lambda>d. d * 90) (durs S) \<and> length R' \<le> STTS_COUNT \<and> tab_disk c' (q + 16) (length R') (flat R') \<and> (S = [] \<longleftrightarrow> R' = [])
    \<and> stts_inv c' (flushed (stts v)) R \<and> (\<forall>x. \<not> (q + 12 \<le> x \<and> x < q + 65552) \<longrightarrow> c' x = c x)"
proof (cases "S = []")
  case True
  then have t: "R = []" "tab_buf (stts v) = []" "last_sample_count v = 0" "placed c (tab_offset (stts v) - 4) (be32 0)" "stts_inv c (stts v) R"
    using inv by (auto simp: trak_inv_def stts_inv_def tab_data_def)
  have "tab_offset (stts v) - 4 = q + 12" using a by (simp add: addr_ok_def)
  then have "placed c (q + 12) (be32 0)" using t(4) by metis
  moreover have "on_trak i (stts_update flushed) k = k"
  proof -
    have "stts_update flushed (trak k ! i) = trak k ! i" unfolding v by (rule upd_same(1)) (simp add: t(2))
    then show ?thesis by (simp add: on_trak_def)
  qed
  moreover have "sync_stts ops i (ret, m) = (ret, m)" using t v at_end [OF st] by (simp add: sync_stts_def)
  ultimately show ?thesis using st True t
    by (intro exI [of _ m] exI [of _ q0] exI [of _ c] exI [of _ "[]"]) (simp add: tab_disk_def add.commute [of q])
next
  case False
  let ?R = "R @ [(last_sample_count v, last_delta v)]"
  have n: "0 < last_sample_count v" "stts_inv c (stts v) R" "length R < STTS_COUNT" "tab_offset (stts v) = q + 16" "expand ?R = map (\<lambda>d. d * 90) (durs S)"
    using inv False a fit(2) by (auto simp: trak_inv_def addr_ok_def)
  have "4 \<le> tab_offset (stts v)" "tab_offset (stts v) + 8 * (length R + 1) \<le> e" using n(3, 4) fit(1) by (auto simp: STTS_COUNT_def)
  from sync_stts_law [OF st v n(2, 1) this n(3), of ret] obtain m' q' c' where
      "sync_stts ops i (ret, m) = (ret, m')" "m4_at P room e q' (on_trak i (stts_update flushed) k) c' m'"
      "tab_disk c' (q + 16) (length R + 1) (flat ?R)" "\<forall>x. x < q + 12 \<or> q + 16 + 8 * (length R + 1) \<le> x \<longrightarrow> c' x = c x"
    unfolding n(4) by auto
  moreover have "stts_inv c' (flushed (stts v)) R"
    by (rule stts_inv_flushed [OF n(2), of _ "length R + 1" "[(last_sample_count v, last_delta v)]"]) (use calculation(3) n(4) in simp)
  moreover have "q + 16 + 8 * (length R + 1) \<le> q + 65552" using n(3) by (simp add: STTS_COUNT_def)
  ultimately show ?thesis using n(3, 5) False
    by (intro exI [of _ m'] exI [of _ q'] exI [of _ c'] exI [of _ ?R]) auto
qed

lemma sync_table_none: "tab_buf (get (trak (mkey m) ! i)) = [] \<Longrightarrow> sync_table ops get upd limit chk i (ret, m) = (ret, m)"
  by (simp add: sync_table_def)

lemma sync_trak_law:
  assumes st: "m4_at P room e q0 k c m" and v: "trak k ! i = v" "i < length (trak k)" and inv: "trak_inv vid c v S R"
    and a: "addr_ok p q vid v" and fit: "trak_end q vid \<le> e" "track_room vid S"
  shows "\<exists>m' q' c'. sync_trak ops i (ret, m) = (ret, m') \<and> m4_at P room e q' (on_trak i flush_trak k) c' m'
    \<and> trak_disk p q vid c' S \<and> trak_inv vid c' (flush_trak v) S R \<and> (\<forall>x. \<not> patch p q vid x \<longrightarrow> c' x = c x)"
proof -
  have at: "tkhd_duration_offset v = p + 36" "mdhd_duration_offset v = p + 132" "tab_offset (stts v) = q + 16"
     "tab_offset (stsz v) = q + 65600" "tab_offset (stco v) = q + 589904" "vid \<Longrightarrow> tab_offset (stss v) = q + 1114208" "p + 136 \<le> q"
    using a by (auto simp: addr_ok_def)
  have i: "tab_inv c (stsz v) (sizes S)" "tab_inv c (stco v) (offs S)" "vid \<Longrightarrow> tab_inv c (stss v) (keys S)" "\<not> vid \<Longrightarrow> tab_buf (stss v) = []"
      "tab_buf (stsc v) = []" "tk_duration v = sum_list (durs S)"
    using inv by (auto simp: trak_inv_def)
  have r: "changes (durs S) < STTS_COUNT" "length S < 0x20000" "vid \<Longrightarrow> length (keys S) < 0x10000" and e: "q + 1114192 \<le> e" "vid \<Longrightarrow> q + 1376352 \<le> e"
    using fit by (auto simp: track_room_def STSZ_COUNT_def STSS_COUNT_def trak_end_def split: if_splits)
  have "q + 65552 \<le> e" using e(1) by simp
  from sync_stts_law' [OF st v(1) inv a this r(1), of ret] obtain m1 q1 c1 R1 where
      1: "sync_stts ops i (ret, m) = (ret, m1)" "m4_at P room e q1 (on_trak i (stts_update flushed) k) c1 m1"
      and R1: "expand R1 = map (\<lambda>d. d * 90) (durs S)" "length R1 \<le> STTS_COUNT" "tab_disk c1 (q + 16) (length R1) (flat R1)" "S = [] \<longleftrightarrow> R1 = []"
        "stts_inv c1 (flushed (stts v)) R"
      and c1: "\<And>x. \<not> (q + 12 \<le> x \<and> x < q + 65552) \<Longrightarrow> c1 x = c x" by metis
  define v1 where "v1 = stts_update flushed v"
  define k1 where "k1 = on_trak i (stts_update flushed) k"
  have k1: "trak k1 ! i = v1" "mkey m1 = k1" using v at_end [OF 1(2)] by (simp_all add: k1_def v1_def on_trak_def)
  have 2: "sync_table ops stsc stsc_update STSC_COUNT False i (ret, m1) = (ret, m1)"
    by (rule sync_table_none) (simp add: k1 v1_def i(5))
  have z1: "tab_inv c1 (stsz v1) (sizes S)" "tab_inv c1 (stco v1) (offs S)" "vid \<Longrightarrow> tab_inv c1 (stss v1) (keys S)"
    using tab_inv_cong [of "stsz v" "sizes S" c c1] tab_inv_cong [of "stco v" "offs S" c c1] tab_inv_cong [of "stss v" "keys S" c c1] i c1 at
    by (simp_all add: v1_def)
  have t3: "tab_offset (stsz v1) = q + 65600" "stsz (trak k1 ! i) = stsz v1" using at(4) by (simp_all add: k1 v1_def)
  have u3: "\<And>f. f (stsz v1) = stsz v1 \<Longrightarrow> stsz_update f (trak k1 ! i) = trak k1 ! i" unfolding k1(1) by (rule upd_same(3))
  have "4 \<le> tab_offset (stsz v1)" "tab_offset (stsz v1) + 4 * length (sizes S) \<le> e" "length (sizes S) < STSZ_COUNT"
    using e r(2, 3) t3(1) by (simp_all add: STSZ_COUNT_def)
  note sync_table_law [where get = stsz and upd = stsz_update, OF 1(2) [folded k1_def] t3(2) z1(1) this u3, of False ret, unfolded t3(1) length_samples]
  then obtain m2 q2 c2 where
      3: "sync_table ops stsz stsz_update STSZ_COUNT False i (ret, m1) = (ret, m2)" "m4_at P room e q2 (on_trak i (stsz_update flushed) k1) c2 m2"
        "tab_disk c2 (q + 65600) (length S) (sizes S)" and c2: "\<And>x. x < q + 65600 - 4 \<or> q + 65600 + 4 * length S \<le> x \<Longrightarrow> c2 x = c1 x"
    by blast
  define v2 where "v2 = stsz_update flushed v1"
  define k2 where "k2 = on_trak i (stsz_update flushed) k1"
  have k2: "trak k2 ! i = v2" "mkey m2 = k2" using v at_end [OF 3(2)] by (simp_all add: k2_def k1_def v2_def v1_def on_trak_def)
  have z2: "tab_inv c2 (stco v2) (offs S)" "vid \<Longrightarrow> tab_inv c2 (stss v2) (keys S)"
    using tab_inv_cong [of "stco v1" "offs S" c1 c2] tab_inv_cong [of "stss v1" "keys S" c1 c2] z1 c2 at r(2)
    by (simp_all add: v2_def v1_def)
  have t4: "tab_offset (stco v2) = q + 589904" "stco (trak k2 ! i) = stco v2" using at(5) by (simp_all add: k2 v2_def v1_def)
  have u4: "\<And>f. f (stco v2) = stco v2 \<Longrightarrow> stco_update f (trak k2 ! i) = trak k2 ! i" unfolding k2(1) by (rule upd_same(4))
  have "4 \<le> tab_offset (stco v2)" "tab_offset (stco v2) + 4 * length (offs S) \<le> e" "length (offs S) < STCO_COUNT"
    using e r(2, 3) t4(1) by (simp_all add: STCO_COUNT_def)
  note sync_table_law [where get = stco and upd = stco_update, OF 3(2) [folded k2_def] t4(2) z2(1) this u4, of True ret, unfolded t4(1) length_samples]
  then obtain m3 q3 c3 where
      4: "sync_table ops stco stco_update STCO_COUNT True i (ret, m2) = (ret, m3)" "m4_at P room e q3 (on_trak i (stco_update flushed) k2) c3 m3"
        "tab_disk c3 (q + 589904) (length S) (offs S)" and c3: "\<And>x. x < q + 589904 - 4 \<or> q + 589904 + 4 * length S \<le> x \<Longrightarrow> c3 x = c2 x"
    by blast
  define v3 where "v3 = stco_update flushed v2"
  define k3 where "k3 = on_trak i (stco_update flushed) k2"
  have k3: "trak k3 ! i = v3" "mkey m3 = k3" using v at_end [OF 4(2)] by (simp_all add: k3_def k2_def k1_def v3_def v2_def v1_def on_trak_def)
  have z3: "vid \<Longrightarrow> tab_inv c3 (stss v3) (keys S)"
    using tab_inv_cong [of "stss v2" "keys S" c2 c3] z2 c3 at r(2) by (simp add: v3_def v2_def v1_def)
  have v4: "flush_trak v = stss_update flushed v3" by (simp add: flush_trak_def v3_def v2_def v1_def)
  have k4: "on_trak i flush_trak k = on_trak i (stss_update flushed) k3"
    using v by (simp add: on_trak_def k3_def k2_def k1_def v4 v3_def v2_def v1_def)
  have "\<exists>m4 q4 c4. sync_table ops stss stss_update STSS_COUNT True i (ret, m3) = (ret, m4) \<and> m4_at P room e q4 (on_trak i flush_trak k) c4 m4
      \<and> (vid \<longrightarrow> tab_disk c4 (q + 1114208) (length (keys S)) (keys S))
      \<and> (\<forall>x. \<not> (vid \<and> q + 1114204 \<le> x \<and> x < q + 1376352) \<longrightarrow> c4 x = c3 x)"
  proof (cases vid)
    case False
    have b: "tab_buf (stss v3) = []" using i(4) False by (simp add: v3_def v2_def v1_def)
    then have "sync_table ops stss stss_update STSS_COUNT True i (ret, m3) = (ret, m3)"
      by (intro sync_table_none) (simp add: k3)
    moreover have "stss_update flushed (trak k3 ! i) = trak k3 ! i" unfolding k3(1) by (rule upd_same(5)) (simp add: b)
    then have "on_trak i (stss_update flushed) k3 = k3" by (simp add: on_trak_def)
    ultimately show ?thesis using 4(2) False unfolding k4 k3_def [symmetric] by auto
  next
    case True
    have t5: "tab_offset (stss v3) = q + 1114208" "stss (trak k3 ! i) = stss v3" using at(6) True by (simp_all add: k3 v3_def v2_def v1_def)
  have u5: "\<And>f. f (stss v3) = stss v3 \<Longrightarrow> stss_update f (trak k3 ! i) = trak k3 ! i" unfolding k3(1) by (rule upd_same(5))
  have "4 \<le> tab_offset (stss v3)" "tab_offset (stss v3) + 4 * length (keys S) \<le> e" "length (keys S) < STSS_COUNT"
    using e r(2, 3) t5(1) True by (simp_all add: STSS_COUNT_def)
  note sync_table_law [where get = stss and upd = stss_update, OF 4(2) [folded k3_def] t5(2) z3 [OF True] this u5, of True ret, unfolded t5(1) length_samples]
  then obtain m4 q4 c4 where
        "sync_table ops stss stss_update STSS_COUNT True i (ret, m3) = (ret, m4)" "m4_at P room e q4 (on_trak i (stss_update flushed) k3) c4 m4"
        "tab_disk c4 (q + 1114208) (length (keys S)) (keys S)"
        "\<And>x. x < q + 1114208 - 4 \<or> q + 1114208 + 4 * length (keys S) \<le> x \<Longrightarrow> c4 x = c3 x"
      by blast
    then show ?thesis using True r(3) unfolding k4 by (intro exI [of _ m4] exI [of _ q4] exI [of _ c4]) auto
  qed
  then obtain m4 q4 c4 where 5: "sync_table ops stss stss_update STSS_COUNT True i (ret, m3) = (ret, m4)"
      "m4_at P room e q4 (on_trak i flush_trak k) c4 m4" "vid \<Longrightarrow> tab_disk c4 (q + 1114208) (length (keys S)) (keys S)"
      and c4: "\<And>x. \<not> (vid \<and> q + 1114204 \<le> x \<and> x < q + 1376352) \<Longrightarrow> c4 x = c3 x" by metis
  have fv: "trak (mkey m4) ! i = flush_trak v" using at_end [OF 5(2)] v by (simp add: on_trak_def)
  have ad: "tkhd_duration_offset (flush_trak v) = p + 36" "mdhd_duration_offset (flush_trak v) = p + 132"
    using flush_trak_simps(1) [of v] at(1, 2) unfolding same_place_def by metis+
  have du: "tk_duration (flush_trak v) = sum_list (durs S)" by (simp add: i(6))
  have pe: "p + 132 + length (be32 (sum_list (durs S) * 90)) \<le> e" "p + 36 + length (be32 (sum_list (durs S))) \<le> e" using e(1) at(7) by simp_all
  define b5 where "b5 = be32 (sum_list (durs S) * 90)"
  define b6 where "b6 = be32 (sum_list (durs S))"
  have b: "length b5 = 4" "length b6 = 4" "b5 \<noteq> []" "b6 \<noteq> []" by (simp_all add: b5_def b6_def)
  obtain m5 where m5: "mp4_write ops b5 (mp4_seek_set ops (p + 132) m4) = (0, m5)"
      "m4_at P room e (p + 132 + length b5) (on_trak i flush_trak k) (overlay c4 (p + 132) b5) m5"
    using at_over [OF 5(2) pe(1) [folded b5_def]] b by blast
  obtain m6 where m6: "mp4_write ops b6 (mp4_seek_set ops (p + 36) m5) = (0, m6)"
      "m4_at P room e (p + 36 + length b6) (on_trak i flush_trak k) (overlay (overlay c4 (p + 132) b5) (p + 36) b6) m6"
    using at_over [OF m5(2) pe(2) [folded b6_def]] b by blast
  define c6 where "c6 = overlay (overlay c4 (p + 132) b5) (p + 36) b6"
  have run: "sync_trak ops i (ret, m) = (ret, m6)"
    using m5(1) m6(1) by (simp add: sync_trak_def 1(1) 2 3(1) 4(1) 5(1) fv ad i(6) b5_def b6_def Let_def)
  have above: "c6 x = c4 x" if "q \<le> x" for x using that at(7) b by (simp add: c6_def overlay_def)
  have d1: "tab_disk c6 (q + 16) (length R1) (flat R1)"
    by (rule tab_disk_cong [OF _ _ R1(3)]) (use R1(2) r(2) above c4 c3 c2 in \<open>auto simp: STTS_COUNT_def\<close>)
  have d2: "tab_disk c6 (q + 65600) (length S) (sizes S)"
    by (rule tab_disk_cong [OF _ _ 3(3)]) (use r(2) above c4 c3 in auto)
  have d3: "tab_disk c6 (q + 589904) (length S) (offs S)"
    by (rule tab_disk_cong [OF _ _ 4(3)]) (use r(2) above c4 in auto)
  have d4: "tab_disk c6 (q + 1114208) (length (keys S)) (keys S)" if vid
    by (rule tab_disk_cong [OF _ _ 5(3) [OF that]]) (use above in auto)
  have "placed c6 (p + 132) b5" "placed c6 (p + 36) b6" using b by (simp_all add: c6_def placed_overlay_other)
  then have disk: "trak_disk p q vid c6 S"
    using R1(1, 2, 4) d1 d2 d3 d4 unfolding trak_disk_def b5_def b6_def by blast
  have "stts_inv c6 (flushed (stts v)) R"
  proof (rule stts_inv_cong [OF _ R1(5)])
    fix x assume x: "tab_offset (flushed (stts v)) \<le> x" "x < tab_offset (flushed (stts v)) + 8 * length R"
    have "length R = changes (durs S)" using inv by (simp add: trak_inv_def)
    then show "c1 x = c6 x" using x at(3) r(1) above c4 c3 c2 by (simp add: STTS_COUNT_def)
  qed
  moreover have "placed c6 (tab_offset (stts v) - 4) (be32 0)" if "S = []"
    using d1 R1(4) that at(3) by (simp add: tab_disk_def add.commute [of q])
  moreover have "tab_inv c6 (flushed (stsz v)) (sizes S)" "tab_inv c6 (flushed (stco v)) (offs S)" "vid \<Longrightarrow> tab_inv c6 (flushed (stss v)) (keys S)"
    using tab_inv_flushed [OF i(1), of c6] tab_inv_flushed [OF i(2), of c6] tab_inv_flushed [OF i(3), of c6] d2 d3 d4 at by simp_all
  ultimately have "trak_inv vid c6 (flush_trak v) S R"
    using inv by (auto simp: trak_inv_def flush_trak_def)
  moreover have "c6 x = c x" if "\<not> patch p q vid x" for x
    using that b c4 [of x] c3 [of x] c2 [of x] c1 [of x] r(2) by (auto simp: patch_def c6_def overlay_def)
  ultimately show ?thesis using run m6(2) disk unfolding c6_def [symmetric] by blast
qed

end

end
