(* ===== verification/Mp4Sync.thy ===== *)
theory Mp4Sync
  imports Mp4Track
begin

text \<open>
  Both tracks: the tables that \<open>MP4_init\<close> leaves describe no sample, and \<open>mp4_sync\<close> brings the tables, the counters and the
  durations of all tracks to the file, and leaves the muxer where it stood.
\<close>

section \<open>What a track depends on\<close>

lemma patch_bound: "patch p q vid x \<Longrightarrow> p + 136 \<le> q \<Longrightarrow> p + 36 \<le> x \<and> x < trak_end q vid"
  by (auto simp: patch_def trak_end_def)

lemma trak_inv_cong:
  assumes inv: "trak_inv vid c v S R" and a: "addr_ok p q vid v" and r: "track_room vid S" and c: "\<And>x. patch p q vid x \<Longrightarrow> c' x = c x"
  shows "trak_inv vid c' v S R"
proof -
  have at: "tab_offset (stts v) = q + 16" "tab_offset (stsz v) = q + 65600" "tab_offset (stco v) = q + 589904" "vid \<Longrightarrow> tab_offset (stss v) = q + 1114208"
    using a by (auto simp: addr_ok_def)
  have n: "length R < 0x2000" "length S < 0x20000" "vid \<Longrightarrow> length (keys S) < 0x10000"
    using inv r by (auto simp: trak_inv_def track_room_def STTS_COUNT_def STSZ_COUNT_def STSS_COUNT_def)
  have "stts_inv c' (stts v) R"
    by (rule stts_inv_cong [of _ _ c]) (use inv at(1) n(1) c in \<open>auto simp: trak_inv_def patch_def\<close>)
  moreover have "tab_inv c' (stsz v) (sizes S)"
    by (rule tab_inv_cong [of _ _ c]) (use inv at(2) n(2) c in \<open>auto simp: trak_inv_def patch_def\<close>)
  moreover have "tab_inv c' (stco v) (offs S)"
    by (rule tab_inv_cong [of _ _ c]) (use inv at(3) n(2) c in \<open>auto simp: trak_inv_def patch_def\<close>)
  moreover have "tab_inv c' (stss v) (keys S)" if vid
    by (rule tab_inv_cong [of _ _ c]) (use inv at(4) n(3) c that in \<open>auto simp: trak_inv_def patch_def\<close>)
  moreover have "placed c' (tab_offset (stts v) - 4) (be32 0) \<longleftrightarrow> placed c (tab_offset (stts v) - 4) (be32 0)"
    by (rule placed_cong) (use at(1) c in \<open>auto simp: patch_def\<close>)
  ultimately show ?thesis using inv unfolding trak_inv_def by (cases vid; cases "S = []") simp_all
qed

lemma trak_disk_cong:
  assumes d: "trak_disk p q vid c S" and r: "track_room vid S" "p + 136 \<le> q" and c: "\<And>x. patch p q vid x \<Longrightarrow> c' x = c x"
  shows "trak_disk p q vid c' S"
proof -
  have n: "length S < 0x20000" "vid \<Longrightarrow> length (keys S) < 0x10000"
    using r by (auto simp: track_room_def STSZ_COUNT_def STSS_COUNT_def)
  obtain R where R: "expand R = map (\<lambda>d. d * 90) (durs S)" "length R \<le> STTS_COUNT" "tab_disk c (q + 16) (length R) (flat R)" "S \<noteq> [] \<longrightarrow> R \<noteq> []"
    using d by (auto simp: trak_disk_def)
  have "tab_disk c' (q + 16) (length R) (flat R)"
    by (rule tab_disk_cong [OF _ _ R(3)]) (use R(2) c in \<open>auto simp: patch_def STTS_COUNT_def\<close>)
  moreover have "tab_disk c' (q + 65600) (length S) (sizes S)"
    by (rule tab_disk_cong [of _ _ c]) (use d n(1) c in \<open>auto simp: trak_disk_def patch_def\<close>)
  moreover have "tab_disk c' (q + 589904) (length S) (offs S)"
    by (rule tab_disk_cong [of _ _ c]) (use d n(1) c in \<open>auto simp: trak_disk_def patch_def\<close>)
  moreover have "tab_disk c' (q + 1114208) (length (keys S)) (keys S)" if vid
    by (rule tab_disk_cong [of _ _ c]) (use d n(2) c that in \<open>auto simp: trak_disk_def patch_def\<close>)
  moreover have "placed c' (p + 132) (be32 (sum_list (durs S) * 90)) \<longleftrightarrow> placed c (p + 132) (be32 (sum_list (durs S) * 90))"
      "placed c' (p + 36) (be32 (sum_list (durs S))) \<longleftrightarrow> placed c (p + 36) (be32 (sum_list (durs S)))"
    by (rule placed_cong, simp add: c patch_def)+
  ultimately show ?thesis using d R unfolding trak_disk_def by blast
qed

section \<open>The tracks of a file\<close>

text \<open>The video track is at 140 and the audio track behind it.\<close>

definition tracks :: "mp4_key \<Rightarrow> (nat \<Rightarrow> u8) \<Rightarrow> gsample list \<Rightarrow> gsample list \<Rightarrow> bool" where
  "tracks k c SV SA \<longleftrightarrow> length (trak k) = 2 \<and> trak_count k = (if mp4_audio_enable k then 2 else 1) \<and> mvhd_duration_offset k = 56
     \<and> mdat_offset k = moov_end k \<and> (\<exists>R. trak_inv True c (trak k ! 0) SV R) \<and> addr_ok 140 1024 True (trak k ! 0)
     \<and> (if mp4_audio_enable k then (\<exists>R. trak_inv False c (trak k ! 1) SA R) \<and> addr_ok 1377376 1377792 False (trak k ! 1) else SA = [])"

definition rooms :: "gsample list \<Rightarrow> gsample list \<Rightarrow> bool" where
  "rooms SV SA \<longleftrightarrow> track_room True SV \<and> track_room False SA"

text \<open>The bytes of the begin that are changed later.\<close>

definition hdr_patch :: "mp4_key \<Rightarrow> nat \<Rightarrow> bool" where
  "hdr_patch k x \<longleftrightarrow> patch 140 1024 True x \<or> mp4_audio_enable k \<and> patch 1377376 1377792 False x \<or> 56 \<le> x \<and> x < 60
     \<or> file_max_size k = 0 \<and> moov_end k \<le> x \<and> x < moov_end k + 4"

definition track_end :: "mp4_key \<Rightarrow> nat" where
  "track_end k = (if mp4_audio_enable k then 2491984 else 1377376)"

lemma patches:
  "patch 140 1024 True x \<Longrightarrow> 176 \<le> x \<and> x < 1377376" "patch 1377376 1377792 False x \<Longrightarrow> 1377412 \<le> x \<and> x < 2491984"
  using patch_bound [of 140 1024 True x] patch_bound [of 1377376 1377792 False x] by (auto simp: trak_end_def)

lemma hdr_patch_bound: "hdr_patch k x \<Longrightarrow> x < moov_end k + 8"
  using patches [of x] by (auto simp: hdr_patch_def moov_end_def)

lemma tracks_cong:
  assumes "tracks k c SV SA" "rooms SV SA" "\<And>x. x < moov_end k \<Longrightarrow> c' x = c x"
  shows "tracks k c' SV SA"
proof -
  have "c' x = c x" if "patch 140 1024 True x" for x using patches(1) [OF that] assms(3) by (auto simp: moov_end_def)
  moreover have "c' x = c x" if "patch 1377376 1377792 False x" "mp4_audio_enable k" for x
    using patches(2) [OF that(1)] assms(3) that(2) by (auto simp: moov_end_def)
  ultimately show ?thesis
    using assms(1, 2) trak_inv_cong [of True c "trak k ! 0" SV _ 140 1024 c'] trak_inv_cong [of False c "trak k ! 1" SA _ 1377376 1377792 c']
    unfolding tracks_def rooms_def by (cases "mp4_audio_enable k") (simp_all, blast+)
qed

definition disk_tracks :: "mp4_key \<Rightarrow> (nat \<Rightarrow> u8) \<Rightarrow> gsample list \<Rightarrow> gsample list \<Rightarrow> bool" where
  "disk_tracks k c SV SA \<longleftrightarrow> trak_disk 140 1024 True c SV \<and> (mp4_audio_enable k \<longrightarrow> trak_disk 1377376 1377792 False c SA)
     \<and> placed c 56 (be32 (max (sum_list (durs SV)) (sum_list (durs SA))))"

definition flush_key :: "mp4_key \<Rightarrow> mp4_key" where
  "flush_key k = (if mp4_audio_enable k then on_trak 1 flush_trak (on_trak 0 flush_trak k) else on_trak 0 flush_trak k)"

lemma flush_key_simps [simp]: "mp4_audio_enable (flush_key k) = mp4_audio_enable k" "file_max_size (flush_key k) = file_max_size k"
    "mdat_size (flush_key k) = mdat_size k" "mdat_offset (flush_key k) = mdat_offset k" "mdat_nowoffset (flush_key k) = mdat_nowoffset k"
    "mvhd_duration_offset (flush_key k) = mvhd_duration_offset k" "trak_count (flush_key k) = trak_count k" "mp4_init (flush_key k) = mp4_init k"
    "mdat_writer_init (flush_key k) = mdat_writer_init k" "moov_end (flush_key k) = moov_end k"
  by (simp_all add: flush_key_def on_trak_def moov_end_def)

lemma tracks_duration:
  assumes "tracks k c SV SA"
  shows "mp4_written_duration_ms k = max (sum_list (durs SV)) (sum_list (durs SA))"
proof -
  obtain a b where k: "trak k = [a, b]" using assms by (auto simp: tracks_def length_Suc_conv numeral_2_eq_2)
  then show ?thesis using assms
    by (cases "mp4_audio_enable k") (auto simp: tracks_def mp4_written_duration_ms_def trak_inv_def max_def)
qed

text \<open>What is left out of a key that is only noted.\<close>

lemma tracks_key: "tracks (k\<lparr>mdat_size := a\<rparr>) c SV SA \<longleftrightarrow> tracks k c SV SA" "tracks (k\<lparr>mp4_syn_time := t\<rparr>) c SV SA \<longleftrightarrow> tracks k c SV SA"
    "tracks (k\<lparr>mdat_nowoffset := a\<rparr>) c SV SA \<longleftrightarrow> tracks k c SV SA"
  by (simp_all add: tracks_def moov_end_def)

definition synced :: "mp4_key \<Rightarrow> mp4_key" where
  "synced k = (flush_key k)\<lparr>mdat_size := max (mdat_size k) (mdat_nowoffset k - mdat_offset k), mp4_syn_time := mp4_written_duration_ms k\<rparr>"

context muxer_file
begin

lemma sync_tracks_law:
  assumes at: "m4_at P room e q k c m" and t: "tracks k c SV SA" "rooms SV SA" and e: "moov_end k \<le> e"
  shows "\<exists>m' q' c'. fold (sync_trak ops) [0..<trak_count k] (0, m) = (0, m') \<and> m4_at P room e q' (flush_key k) c' m'
    \<and> tracks (flush_key k) c' SV SA \<and> trak_disk 140 1024 True c' SV \<and> (mp4_audio_enable k \<longrightarrow> trak_disk 1377376 1377792 False c' SA)
    \<and> (\<forall>x. \<not> (patch 140 1024 True x \<or> mp4_audio_enable k \<and> patch 1377376 1377792 False x) \<longrightarrow> c' x = c x)"
proof -
  obtain RV where v: "trak_inv True c (trak k ! 0) SV RV" "addr_ok 140 1024 True (trak k ! 0)" "length (trak k) = 2"
    using t(1) by (auto simp: tracks_def)
  have e1: "trak_end 1024 True \<le> e" using e by (auto simp: trak_end_def moov_end_def split: if_splits)
  have r: "track_room True SV" "track_room False SA" using t(2) by (auto simp: rooms_def)
  have "0 < length (trak k)" using v(3) by simp
  from sync_trak_law [OF at refl this v(1, 2) e1 r(1), of 0] obtain m1 q1 c1 where
      1: "sync_trak ops 0 (0, m) = (0, m1)" "m4_at P room e q1 (on_trak 0 flush_trak k) c1 m1" "trak_disk 140 1024 True c1 SV"
        "trak_inv True c1 (flush_trak (trak k ! 0)) SV RV" "\<And>x. \<not> patch 140 1024 True x \<Longrightarrow> c1 x = c x" by blast
  have fa: "addr_ok p q vid (flush_trak v)" if "addr_ok p q vid v" for p q vid v
    using that flush_trak_simps(1) [of v] unfolding addr_ok_def same_place_def by metis
  show ?thesis
  proof (cases "mp4_audio_enable k")
    case False
    have "tracks (flush_key k) c1 SV SA" using t(1) 1(4) False v(2, 3) fa by (auto simp: tracks_def flush_key_def on_trak_def moov_end_def)
    then show ?thesis using 1 False t(1)
      by (intro exI [of _ m1] exI [of _ q1] exI [of _ c1]) (auto simp: tracks_def flush_key_def)
  next
    case True
    define k1 where "k1 = on_trak 0 flush_trak k"
    obtain RA where a: "trak_inv False c (trak k ! 1) SA RA" "addr_ok 1377376 1377792 False (trak k ! 1)" "trak_count k = 2"
      using t(1) True by (auto simp: tracks_def)
    have k1: "trak k1 ! 1 = trak k ! 1" "trak k1 ! 0 = flush_trak (trak k ! 0)" "length (trak k1) = 2" using v(3) by (simp_all add: k1_def on_trak_def)
    have "c1 x = c x" if "patch 1377376 1377792 False x" for x using 1(5) [of x] patches [of x] that by force
    from trak_inv_cong [OF a(1, 2) r(2) this] have a1: "trak_inv False c1 (trak k ! 1) SA RA" .
    have e2: "trak_end 1377792 False \<le> e" using e True by (simp add: trak_end_def moov_end_def)
    have "1 < length (trak k1)" using k1(3) by simp
    from sync_trak_law [OF 1(2) [folded k1_def] k1(1) this a1 a(2) e2 r(2), of 0] obtain m2 q2 c2 where
      2: "sync_trak ops 1 (0, m1) = (0, m2)" "m4_at P room e q2 (on_trak 1 flush_trak k1) c2 m2" "trak_disk 1377376 1377792 False c2 SA"
        "trak_inv False c2 (flush_trak (trak k ! 1)) SA RA" "\<And>x. \<not> patch 1377376 1377792 False x \<Longrightarrow> c2 x = c1 x" by blast
    have s: "c2 x = c1 x" if "patch 140 1024 True x" for x using 2(5) [of x] patches [of x] that by force
    have "trak_inv True c2 (flush_trak (trak k ! 0)) SV RV" by (rule trak_inv_cong [OF 1(4) fa [OF v(2)] r(1) s])
    moreover have fk: "flush_key k = on_trak 1 flush_trak k1" using True by (simp add: flush_key_def k1_def)
    moreover have "trak (on_trak 1 flush_trak k1) ! 0 = flush_trak (trak k ! 0)" "trak (on_trak 1 flush_trak k1) ! 1 = flush_trak (trak k ! 1)"
      using k1 by (simp_all add: on_trak_def)
    ultimately have "tracks (flush_key k) c2 SV SA"
      using t(1) True 2(4) fa [OF v(2)] fa [OF a(2)] k1(3) unfolding tracks_def flush_key_simps
      by (auto simp: on_trak_def)
    moreover have "trak_disk 140 1024 True c2 SV" by (rule trak_disk_cong [OF 1(3) r(1) _ s]) simp_all
    moreover have "fold (sync_trak ops) [0..<trak_count k] (0, m) = (0, m2)"
      using 1(1) 2(1) a(3) by (simp add: numeral_2_eq_2)
    moreover have "c2 x = c x" if "\<not> (patch 140 1024 True x \<or> mp4_audio_enable k \<and> patch 1377376 1377792 False x)" for x
      using that True 1(5) 2(5) by simp
    ultimately show ?thesis using 2(2, 3) fk by (intro exI [of _ m2] exI [of _ q2] exI [of _ c2]) simp
  qed
qed

lemma at_flush:
  assumes "m4_at P room e q k c m"
  shows "m4_at P room e q k c (mp4_file_syn ops m)"
proof -
  have m: "ok (m4_file m)" "P (m4_file m)" "lasting P" using assms by (auto simp: m4_at_def)
  then have "P (snd (op_flush ops (m4_file m)))" unfolding lasting_def by blast
  then show ?thesis using flush_law [OF m(1)] assms by (auto simp: m4_at_def mp4_file_syn_def)
qed

text \<open>\<open>mp4_sync\<close> succeeds, brings the tables to the file, changes nothing else there, and goes back to where it was.\<close>

lemma mp4_sync_law:
  assumes at: "m4_at P room e q k c m" and init: "mp4_init k" and t: "tracks k c SV SA" "rooms SV SA" and e: "moov_end k + 8 \<le> e"
    and sz: "file_max_size k \<noteq> 0 \<longrightarrow> mdat_nowoffset k - mdat_offset k \<le> mdat_size k"
  shows "\<exists>m' c'. mp4_sync ops m = (0, m') \<and> m4_at P room e q (synced k) c' m'
    \<and> tracks (synced k) c' SV SA \<and> disk_tracks k c' SV SA \<and> (\<forall>x. \<not> hdr_patch k x \<longrightarrow> c' x = c x)"
proof -
  let ?L = "mdat_nowoffset k - mdat_offset k" and ?D = "mp4_written_duration_ms k"
  have me: "60 \<le> moov_end k" "mdat_offset k = moov_end k" "moov_end k \<le> e" "mvhd_duration_offset k = 56" "q \<le> e"
    using t(1) e at by (simp_all add: tracks_def moov_end_def m4_at_def)
  obtain m1 q1 c1 where 1: "fold (sync_trak ops) [0..<trak_count k] (0, m) = (0, m1)" "m4_at P room e q1 (flush_key k) c1 m1"
      "tracks (flush_key k) c1 SV SA" "trak_disk 140 1024 True c1 SV" "mp4_audio_enable k \<longrightarrow> trak_disk 1377376 1377792 False c1 SA"
      "\<forall>x. \<not> (patch 140 1024 True x \<or> mp4_audio_enable k \<and> patch 1377376 1377792 False x) \<longrightarrow> c1 x = c x"
    using sync_tracks_law [OF at t me(3)] by blast
  have dur: "mp4_written_duration_ms (flush_key k) = ?D" using tracks_duration [OF t(1)] tracks_duration [OF 1(3)] by simp
  define b where "b = be32 ?D"
  have b: "length b = 4" "b \<noteq> []" by (simp_all add: b_def)
  have "56 + length b \<le> e" using me(1, 3) b by simp
  from at_over [OF 1(2) this b(2)] obtain m2 where 2: "mp4_write ops b (mp4_seek_set ops 56 m1) = (0, m2)"
      "m4_at P room e 60 (flush_key k) (overlay c1 56 b) m2" using b by auto
  define c2 where "c2 = overlay c1 56 b"
  define w where "w = (if ?L > mdat_size k then
      mp4_write ops (be32 ?L) (mp4_seek_set ops (mdat_offset k) (on_key (\<lambda>k. k\<lparr>mdat_size := ?L\<rparr>) m2)) else (0, m2))"
  have "\<exists>m3 c3 q3. w = (0, m3) \<and> m4_at P room e q3 ((flush_key k)\<lparr>mdat_size := max (mdat_size k) ?L\<rparr>) c3 m3
      \<and> (\<forall>x. \<not> (file_max_size k = 0 \<and> moov_end k \<le> x \<and> x < moov_end k + 4) \<longrightarrow> c3 x = c2 x)"
  proof (cases "?L > mdat_size k")
    case True
    have "m4_at P room e 60 ((flush_key k)\<lparr>mdat_size := ?L\<rparr>) c2 (on_key (\<lambda>k. k\<lparr>mdat_size := ?L\<rparr>) m2)"
      unfolding c2_def by (rule at_key [OF 2(2)])
    from at_over [OF this, of "mdat_offset k" "be32 ?L"] True sz e me(2) obtain m3 where
        "w = (0, m3)" "m4_at P room e (mdat_offset k + 4) ((flush_key k)\<lparr>mdat_size := ?L\<rparr>) (overlay c2 (mdat_offset k) (be32 ?L)) m3"
      by (auto simp: w_def)
    then show ?thesis using True sz me(2) by (intro exI conjI) (auto simp: overlay_def)
  next
    case False
    then have "(flush_key k)\<lparr>mdat_size := max (mdat_size k) ?L\<rparr> = flush_key k"
      by (simp add: max_absorb1 flush_key_def on_trak_def)
    moreover have "w = (0, m2)" using False by (simp add: w_def)
    ultimately show ?thesis using 2(2) by (intro exI [of _ m2] exI [of _ c2] exI [of _ 60]) (simp only: c2_def simp_thms)
  qed
  then obtain m3 c3 q3 where 3: "w = (0, m3)" "m4_at P room e q3 ((flush_key k)\<lparr>mdat_size := max (mdat_size k) ?L\<rparr>) c3 m3"
      "\<forall>x. \<not> (file_max_size k = 0 \<and> moov_end k \<le> x \<and> x < moov_end k + 4) \<longrightarrow> c3 x = c2 x" by blast
  have 4: "m4_at P room e q (synced k) c3 (mp4_seek_set ops q (on_key (\<lambda>k. k\<lparr>mp4_syn_time := ?D\<rparr>) (mp4_file_syn ops m3)))"
    unfolding synced_def by (rule at_back, rule at_key, rule at_flush [OF 3(2)]) (rule me(5))
  have k: "mkey m = k" "mkey m1 = flush_key k" "mkey m2 = flush_key k" "mp4_tell m = q"
    using at_end [OF at] at_end [OF 1(2)] at_end [OF 2(2)] at by (simp_all add: mp4_tell_def m4_at_def)
  have run: "mp4_sync ops m = (0, mp4_seek_set ops q (on_key (\<lambda>k. k\<lparr>mp4_syn_time := ?D\<rparr>) (mp4_file_syn ops m3)))"
    using 3(1) 2(1) init unfolding w_def
    by (simp add: mp4_sync_def Let_def 1(1) k dur b_def me(4) split del: if_split cong: if_cong)
  have out: "c3 x = c x" if "\<not> hdr_patch k x" for x
  proof -
    have "c3 x = c2 x" "c1 x = c x" using that 3(3) 1(6) by (auto simp: hdr_patch_def)
    then show ?thesis using that b(1) by (auto simp: hdr_patch_def c2_def overlay_def)
  qed
  have same: "c3 x = c1 x" if "x < moov_end k" "\<not> (56 \<le> x \<and> x < 60)" for x
    using that 3(3) b(1) by (auto simp: c2_def overlay_def)
  have p1: "c3 x = c1 x" if "patch 140 1024 True x" for x using patches(1) [OF that] same [of x] by (simp add: moov_end_def)
  have p2: "c3 x = c1 x" if "patch 1377376 1377792 False x" "mp4_audio_enable k" for x
    using patches(2) [OF that(1)] same [of x] that(2) by (simp add: moov_end_def)
  have disk: "trak_disk 140 1024 True c3 SV" "mp4_audio_enable k \<Longrightarrow> trak_disk 1377376 1377792 False c3 SA"
    using trak_disk_cong [OF 1(4), of c3] trak_disk_cong [of 1377376 1377792 False c1 SA c3] 1(5) t(2) p1 p2 by (auto simp: rooms_def)
  have "placed c3 56 b"
    using placed_cong [of 56 b c3 c2] 3(3) b(1) me(1) by (auto simp: c2_def)
  then have "disk_tracks k c3 SV SA" using disk tracks_duration [OF t(1)] by (simp add: disk_tracks_def b_def)
  moreover have "tracks (synced k) c3 SV SA"
  proof -
    have "tracks (flush_key k) c3 SV SA"
      using 1(3) t(2) trak_inv_cong [of True c1 "trak (flush_key k) ! 0" SV _ 140 1024 c3]
        trak_inv_cong [of False c1 "trak (flush_key k) ! 1" SA _ 1377376 1377792 c3] p1 p2
      unfolding tracks_def rooms_def by (cases "mp4_audio_enable k") (simp_all, blast+)
    then show ?thesis by (simp add: synced_def tracks_key)
  qed
  ultimately show ?thesis using run 4 out by blast
qed

end

end
