(* ===== verification/Mp4Record.thy ===== *)
theory Mp4Record
  imports Mp4Sync
begin

text \<open>
  A recording: frames and audio blocks in any order, with syncs between, and what the muxer holds of them at every moment.
\<close>

section \<open>What is recorded\<close>

datatype rec_req = RVideo "nat \<Rightarrow> u8" nat nat | RAudio "u8 list" nat | RBatch "u8 list" "(nat \<times> nat) list" | RSync nat

definition rec_do :: "'s file_ops \<Rightarrow> rec_req \<Rightarrow> 's mp4 \<Rightarrow> u32 \<times> 's mp4" where
  "rec_do ops r m = (case r of RVideo buf sz d \<Rightarrow> write_h264_data ops buf sz d m | RAudio aac d \<Rightarrow> write_aac_data ops aac d m
     | RBatch aac frames \<Rightarrow> write_aac_data_batch ops aac frames m | RSync t \<Rightarrow> mp4_sync_time ops t m)"

primrec rec_run :: "'s file_ops \<Rightarrow> rec_req list \<Rightarrow> 's mp4 \<Rightarrow> u32 \<times> 's mp4" where
  "rec_run ops [] m = (0, m)"
| "rec_run ops (r # rs) m = (let (ret, m) = rec_do ops r m in if ret \<noteq> 0 then (ret, m) else rec_run ops rs m)"

text \<open>The end of the file and the samples of both tracks. A frame is kept with its length where the start code was.\<close>

definition nal_sample :: "nat \<Rightarrow> (nat \<Rightarrow> u8) \<Rightarrow> nat \<Rightarrow> nat \<Rightarrow> gsample" where
  "nal_sample pos buf sz d = (pos, be32 (sz - 4) @ bytes_at buf 4 (sz - 4), d, buf 4 = 0x65)"

fun batch_samples :: "nat \<Rightarrow> u8 list \<Rightarrow> (nat \<times> nat) list \<Rightarrow> gsample list" where
  "batch_samples pos aac [] = []"
| "batch_samples pos aac ((sz, d) # frames) = (pos, take sz aac, d, False) # batch_samples (pos + sz) (drop sz aac) frames"

fun rec_spec :: "rec_req \<Rightarrow> nat \<times> gsample list \<times> gsample list \<Rightarrow> nat \<times> gsample list \<times> gsample list" where
  "rec_spec (RVideo buf sz d) (pos, SV, SA) = (pos + sz, SV @ [nal_sample pos buf sz d], SA)"
| "rec_spec (RAudio aac d) (pos, SV, SA) = (pos + length aac, SV, SA @ [(pos, aac, d, False)])"
| "rec_spec (RBatch aac frames) (pos, SV, SA) = (pos + length aac, SV, SA @ batch_samples pos aac frames)"
| "rec_spec (RSync t) st = st"

text \<open>Durations are positive, and there is room in the file and in the tables.\<close>

definition rec_fits :: "bool \<Rightarrow> nat \<Rightarrow> rec_req \<Rightarrow> nat \<times> gsample list \<times> gsample list \<Rightarrow> bool" where
  "rec_fits aud room r st \<longleftrightarrow>
     (case r of RVideo buf sz d \<Rightarrow> 4 \<le> sz \<and> (buf 4 = 0x61 \<or> buf 4 = 0x65) \<and> 0 < d \<and> d * 90 < 2 ^ 32
      | RAudio aac d \<Rightarrow> aud \<and> 0 < d \<and> d * 90 < 2 ^ 32
      | RBatch aac frames \<Rightarrow> aud \<and> sum_list (map fst frames) = length aac \<and> (\<forall>f \<in> set frames. 0 < snd f \<and> snd f * 90 < 2 ^ 32)
      | RSync t \<Rightarrow> True)
     \<and> (case rec_spec r st of (pos, SV, SA) \<Rightarrow> pos \<le> room \<and> rooms SV SA)"

primrec recs_fit :: "bool \<Rightarrow> nat \<Rightarrow> rec_req list \<Rightarrow> nat \<times> gsample list \<times> gsample list \<Rightarrow> bool" where
  "recs_fit aud room [] st \<longleftrightarrow> True"
| "recs_fit aud room (r # rs) st \<longleftrightarrow> rec_fits aud room r st \<and> recs_fit aud room rs (rec_spec r st)"

section \<open>Samples in the file\<close>

definition samples_in :: "nat \<Rightarrow> nat \<Rightarrow> (nat \<Rightarrow> u8) \<Rightarrow> gsample list \<Rightarrow> bool" where
  "samples_in lo hi c S \<longleftrightarrow> (\<forall>s \<in> set S. lo \<le> fst s \<and> fst s + length (fst (snd s)) \<le> hi \<and> placed c (fst s) (fst (snd s)))"

lemma samples_in_cong:
  assumes "samples_in lo hi c S" "\<And>x. lo \<le> x \<Longrightarrow> x < hi \<Longrightarrow> c' x = c x" "hi \<le> hi'"
  shows "samples_in lo hi' c' S"
proof -
  have "placed c' off bs \<longleftrightarrow> placed c off bs" if "lo \<le> off" "off + length bs \<le> hi" for off bs
    by (rule placed_cong) (use that assms(2) in auto)
  then show ?thesis using assms(1, 3) unfolding samples_in_def by fastforce
qed

lemma samples_in_snoc: "samples_in lo hi c (S @ [s]) \<longleftrightarrow> samples_in lo hi c S
    \<and> lo \<le> fst s \<and> fst s + length (fst (snd s)) \<le> hi \<and> placed c (fst s) (fst (snd s))"
  by (auto simp: samples_in_def)

lemma samples_in_Nil [simp]: "samples_in lo hi c []"
  by (simp add: samples_in_def)

section \<open>The invariant\<close>

text \<open>The begin of the file, but for what is changed later.\<close>

definition begin_kept :: "mp4_key \<Rightarrow> u8 option list \<Rightarrow> (nat \<Rightarrow> u8) \<Rightarrow> bool" where
  "begin_kept k pat c \<longleftrightarrow> (\<exists>c0. laid c0 0 pat \<and> (\<forall>x < moov_end k + 8. \<not> hdr_patch k x \<longrightarrow> c x = c0 x))"

definition key_ok :: "nat \<Rightarrow> nat \<Rightarrow> mp4_key \<Rightarrow> bool" where
  "key_ok room e k \<longleftrightarrow> mp4_init k \<and> mdat_writer_init k \<and> mdat_nowoffset k = e \<and> data_begin k \<le> e
     \<and> (file_max_size k \<noteq> 0 \<longrightarrow> file_max_size k = room \<and> mdat_size k = room - moov_end k)"

definition tracks_bufs :: "mp4_key \<Rightarrow> bool" where
  "tracks_bufs k \<longleftrightarrow> bufs_ok (trak k ! 0) \<and> (mp4_audio_enable k \<longrightarrow> bufs_ok (trak k ! 1))"

definition m4_inv :: "nat \<Rightarrow> nat \<Rightarrow> u8 option list \<Rightarrow> bool \<Rightarrow> mp4_key \<Rightarrow> (nat \<Rightarrow> u8) \<Rightarrow> nat \<times> gsample list \<times> gsample list \<Rightarrow> bool" where
  "m4_inv room F pat aud k c st \<longleftrightarrow> (case st of (e, SV, SA) \<Rightarrow>
     key_ok room e k \<and> tracks k c SV SA \<and> rooms SV SA \<and> samples_in (data_begin k) e c (SV @ SA) \<and> begin_kept k pat c
     \<and> mp4_audio_enable k = aud \<and> file_max_size k = F)"

lemma data_begin_moov: "moov_end k + 8 \<le> data_begin k"
  by (simp add: moov_end_def data_begin_def)

lemma begin_kept_cong:
  assumes "begin_kept k pat c" "\<And>x. x < moov_end k + 8 \<Longrightarrow> \<not> hdr_patch k x \<Longrightarrow> c' x = c x"
  shows "begin_kept k pat c'"
proof -
  obtain c0 where "laid c0 0 pat" "\<forall>x < moov_end k + 8. \<not> hdr_patch k x \<longrightarrow> c x = c0 x" using assms(1) by (auto simp: begin_kept_def)
  then show ?thesis using assms(2) unfolding begin_kept_def by (intro exI [of _ c0]) simp
qed

lemma same_kind:
  assumes "mp4_audio_enable k' = mp4_audio_enable k" "file_max_size k' = file_max_size k"
  shows "moov_end k' = moov_end k" "data_begin k' = data_begin k" "hdr_patch k' = hdr_patch k" "begin_kept k' = begin_kept k"
  using assms by (auto simp: moov_end_def data_begin_def hdr_patch_def begin_kept_def fun_eq_iff)

lemma synced_simps [simp]: "mp4_audio_enable (synced k) = mp4_audio_enable k" "file_max_size (synced k) = file_max_size k"
    "mdat_nowoffset (synced k) = mdat_nowoffset k" "mp4_init (synced k) = mp4_init k" "mdat_writer_init (synced k) = mdat_writer_init k"
    "mdat_size (synced k) = max (mdat_size k) (mdat_nowoffset k - mdat_offset k)" "mdat_offset (synced k) = mdat_offset k"
  by (simp_all add: synced_def)

lemma synced_bufs:
  assumes "length (trak k) = 2"
  shows "tracks_bufs (synced k)"
proof -
  obtain a b where "trak k = [a, b]" using assms by (auto simp: length_Suc_conv numeral_2_eq_2)
  then show ?thesis by (simp add: tracks_bufs_def synced_def flush_key_def on_trak_def flush_trak_bufs)
qed

text \<open>A sample that is noted: the bytes are in the file already.\<close>

definition noted :: "nat \<Rightarrow> trak_key_msg \<Rightarrow> nat \<Rightarrow> mp4_key \<Rightarrow> mp4_key" where
  "noted i v sz k = (on_trak i (\<lambda>_. v) k)\<lparr>mdat_nowoffset := mdat_nowoffset k + sz\<rparr>"

lemma same_place_addr: "same_place v v' \<Longrightarrow> addr_ok p q vid v \<Longrightarrow> addr_ok p q vid v'"
  unfolding addr_ok_def same_place_def by metis

lemma two_traks: "tracks k c SV SA \<Longrightarrow> \<exists>a b. trak k = [a, b]"
  by (auto simp: tracks_def length_Suc_conv numeral_2_eq_2)

lemma rec_over:
  assumes inv: "m4_inv room F pat aud k c (e, SV, SA)"
  shows "tracks k (overlay c e b) SV SA" "samples_in (data_begin k) (e + length b) (overlay c e b) (SV @ SA)" "begin_kept k pat (overlay c e b)"
    "placed (overlay c e b) e b"
proof -
  have i: "tracks k c SV SA" "rooms SV SA" "samples_in (data_begin k) e c (SV @ SA)" "begin_kept k pat c" "data_begin k \<le> e"
    using inv by (auto simp: m4_inv_def key_ok_def)
  have o: "overlay c e b x = c x" if "x < e" for x using that by (simp add: overlay_outside)
  have m: "moov_end k + 8 \<le> e" using data_begin_moov [of k] i(5) by linarith
  show "tracks k (overlay c e b) SV SA" by (rule tracks_cong [OF i(1, 2) o]) (use m in simp)
  show "samples_in (data_begin k) (e + length b) (overlay c e b) (SV @ SA)" by (rule samples_in_cong [OF i(3) o]) simp_all
  show "begin_kept k pat (overlay c e b)" by (rule begin_kept_cong [OF i(4) o]) (use m in simp)
qed simp

lemma rec_add_video:
  assumes inv: "m4_inv room F pat aud k c (e, SV, SA)" "tracks_bufs k" and d: "0 < d" "d * 90 < 2 ^ 32"
    and a: "add_sample True (length b) e d key (trak k ! 0) = (flag, v)" and r: "rooms (SV @ [(e, b, d, key)]) SA"
  shows "m4_inv room F pat aud (noted 0 v (length b) k) (overlay c e b) (e + length b, SV @ [(e, b, d, key)], SA)"
    and "\<not> flag \<Longrightarrow> tracks_bufs (noted 0 v (length b) k)"
proof -
  let ?k = "noted 0 v (length b) k" and ?c = "overlay c e b"
  note o = rec_over [OF inv(1), of b]
  obtain t0 t1 where t: "trak k = [t0, t1]" using two_traks [OF o(1)] by blast
  obtain R where R: "trak_inv True ?c t0 SV R" using o(1) t by (auto simp: tracks_def)
  have a': "add_sample True (length b) e d key t0 = (flag, v)" using a t by simp
  obtain R' where R': "trak_inv True ?c v (SV @ [(e, b, d, key)]) R'" "same_place t0 v"
    using add_sample_inv [OF R d _ a'] by auto
  have k: "trak ?k = [v, t1]" using t by (simp add: noted_def on_trak_def)
  have "addr_ok 140 1024 True v" using same_place_addr [OF R'(2)] o(1) t by (auto simp: tracks_def)
  then have tr: "tracks ?k ?c (SV @ [(e, b, d, key)]) SA" using o(1) R'(1) k t
    by (cases "mp4_audio_enable k") (auto simp: tracks_def noted_def on_trak_def moov_end_def)
  have same: "moov_end ?k = moov_end k" "data_begin ?k = data_begin k" "begin_kept ?k = begin_kept k"
    using same_kind [of ?k k] by (simp_all add: noted_def on_trak_def)
  show "m4_inv room F pat aud ?k ?c (e + length b, SV @ [(e, b, d, key)], SA)"
    using inv(1) tr r o(2-4) same by (auto simp: m4_inv_def key_ok_def noted_def on_trak_def samples_in_def)
  show "tracks_bufs ?k" if "\<not> flag"
    using add_sample_bufs(2) [OF _ _ a' that] inv(2) R t k by (auto simp: tracks_bufs_def trak_inv_def noted_def on_trak_def)
qed

lemma rec_set_audio:
  assumes inv: "m4_inv room F pat True k c (e, SV, SA)" and v: "trak_inv False (overlay c e b) v SA' R" "same_place (trak k ! 1) v"
    and r: "rooms SV SA'" "samples_in (data_begin k) (e + length b) (overlay c e b) SA'"
  shows "m4_inv room F pat True (noted 1 v (length b) k) (overlay c e b) (e + length b, SV, SA')"
proof -
  let ?k = "noted 1 v (length b) k" and ?c = "overlay c e b"
  note o = rec_over [OF inv, of b]
  have aud: "mp4_audio_enable k" using inv by (simp add: m4_inv_def)
  obtain t0 t1 where t: "trak k = [t0, t1]" using two_traks [OF o(1)] by blast
  have k: "trak ?k = [t0, v]" using t by (simp add: noted_def on_trak_def)
  have "addr_ok 1377376 1377792 False v" using same_place_addr [OF v(2)] o(1) aud by (auto simp: tracks_def)
  then have tr: "tracks ?k ?c SV SA'" using o(1) v(1) k t aud
    by (auto simp: tracks_def noted_def on_trak_def moov_end_def)
  have same: "moov_end ?k = moov_end k" "data_begin ?k = data_begin k" "begin_kept ?k = begin_kept k"
    using same_kind [of ?k k] by (simp_all add: noted_def on_trak_def)
  show ?thesis
    using inv tr r o(2-4) same by (auto simp: m4_inv_def key_ok_def noted_def on_trak_def samples_in_def)
qed

lemma rec_add_audio:
  assumes inv: "m4_inv room F pat True k c (e, SV, SA)" "tracks_bufs k" and d: "0 < d" "d * 90 < 2 ^ 32"
    and a: "add_sample False (length b) e d False (trak k ! 1) = (flag, v)" and r: "rooms SV (SA @ [(e, b, d, False)])"
  shows "m4_inv room F pat True (noted 1 v (length b) k) (overlay c e b) (e + length b, SV, SA @ [(e, b, d, False)])"
    and "\<not> flag \<Longrightarrow> tracks_bufs (noted 1 v (length b) k)"
proof -
  let ?k = "noted 1 v (length b) k" and ?c = "overlay c e b"
  note o = rec_over [OF inv(1), of b]
  have aud: "mp4_audio_enable k" "data_begin k \<le> e" using inv(1) by (simp_all add: m4_inv_def key_ok_def)
  obtain t0 t1 where t: "trak k = [t0, t1]" using two_traks [OF o(1)] by blast
  obtain R where R: "trak_inv False ?c (trak k ! 1) SA R" using o(1) aud(1) by (auto simp: tracks_def)
  obtain R' where R': "trak_inv False ?c v (SA @ [(e, b, d, False)]) R'" "same_place (trak k ! 1) v"
    using add_sample_inv [OF R d _ a] by auto
  have "samples_in (data_begin k) (e + length b) ?c (SA @ [(e, b, d, False)])"
    using o(2, 4) aud(2) by (auto simp: samples_in_def)
  from rec_set_audio [OF inv(1) R' r this] show "m4_inv room F pat True ?k ?c (e + length b, SV, SA @ [(e, b, d, False)])" .
  show "tracks_bufs ?k" if "\<not> flag"
    using add_sample_bufs(2) [OF _ _ a that] inv(2) R t aud(1) by (auto simp: tracks_bufs_def trak_inv_def noted_def on_trak_def)
qed

text \<open>A batch: the samples lie one behind the other.\<close>

lemma update_is_add: "mp4_update_sample_tables sz off d v = add_sample False sz off d False v"
  by (simp add: add_sample_def split: prod.split)

lemma batch_inv:
  assumes "batch_update off frames (flag, v) = (flag', v')" "trak_inv False c v S R" "\<forall>f \<in> set frames. 0 < snd f \<and> snd f * 90 < 2 ^ 32"
    "sum_list (map fst frames) = length aac"
  shows "\<exists>R'. trak_inv False c v' (S @ batch_samples off aac frames) R' \<and> same_place v v'"
  using assms
proof (induction frames arbitrary: off flag v S R aac)
  case Nil
  then show ?case by (auto simp: same_place_def)
next
  case (Cons f frames)
  obtain sz d where f: "f = (sz, d)" by (cases f)
  obtain f1 v1 where 1: "add_sample False sz off d False v = (f1, v1)" by fastforce
  have l: "length (take sz aac) = sz" "sum_list (map fst frames) = length (drop sz aac)" using Cons.prems(4) f by simp_all
  obtain R1 where R1: "trak_inv False c v1 (S @ [(off, take sz aac, d, False)]) R1" "same_place v v1"
    using add_sample_inv [of False c v S R d False "take sz aac" off f1 v1] Cons.prems(2, 3) 1 f unfolding l(1) by auto
  have "batch_update (off + sz) frames (flag \<or> f1, v1) = (flag', v')" using Cons.prems(1) 1 by (simp add: f update_is_add)
  from Cons.IH [OF this R1(1) _ l(2)] Cons.prems(3) R1(2) show ?case by (auto simp: f same_place_def)
qed

lemma batch_samples_in:
  "sum_list (map fst frames) = length aac \<Longrightarrow> placed c pos aac \<Longrightarrow> lo \<le> pos \<Longrightarrow> samples_in lo (pos + length aac) c (batch_samples pos aac frames)"
proof (induction frames arbitrary: pos aac)
  case (Cons f frames)
  obtain sz d where f: "f = (sz, d)" by (cases f)
  have l: "length (take sz aac) = sz" "sum_list (map fst frames) = length (drop sz aac)" "sz \<le> length aac" using Cons.prems(1) f by simp_all
  have "placed c pos (take sz aac @ drop sz aac)" using Cons.prems(2) by simp
  then have p: "placed c pos (take sz aac)" "placed c (pos + sz) (drop sz aac)" using l(1) unfolding placed_append by auto
  have "lo \<le> pos + sz" using Cons.prems(3) by simp
  from Cons.IH [OF l(2) p(2) this] show ?case using p(1) l(3) Cons.prems(3) by (simp add: f samples_in_def)
qed simp

text \<open>The buffers hold whole entries, however full they are.\<close>

definition bufs_whole :: "trak_key_msg \<Rightarrow> bool" where
  "bufs_whole v \<longleftrightarrow> 8 dvd length (tab_buf (stts v)) \<and> 4 dvd length (tab_buf (stsz v)) \<and> 4 dvd length (tab_buf (stco v))"

lemma bufs_ok_whole: "bufs_ok v \<Longrightarrow> bufs_whole v"
  by (auto simp: bufs_ok_def bufs_whole_def)

lemma bufs_whole_ok:
  assumes "bufs_whole v" "length (tab_buf (stts v)) < 512" "length (tab_buf (stsz v)) < 512" "length (tab_buf (stco v)) < 512" "tab_buf (stss v) = []"
  shows "bufs_ok v"
proof -
  obtain a b c where "length (tab_buf (stts v)) = 8 * a" "length (tab_buf (stsz v)) = 4 * b" "length (tab_buf (stco v)) = 4 * c"
    using assms(1) by (auto simp: bufs_whole_def dvd_def)
  then show ?thesis using assms(2-5) unfolding bufs_ok_def by (intro exI [of _ a] exI [of _ b] exI [of _ c] exI [of _ 0]) simp
qed

lemma batch_bufs:
  assumes "batch_update off frames (flag, v) = (flag', v')" "bufs_whole v"
  shows "bufs_whole v' \<and> tab_buf (stss v') = tab_buf (stss v) \<and> (\<not> flag' \<and> frames \<noteq> [] \<longrightarrow> length (tab_buf (stts v')) < 512
      \<and> length (tab_buf (stsz v')) < 512 \<and> length (tab_buf (stco v')) < 512)
    \<and> length (tab_buf (stts v')) \<le> length (tab_buf (stts v)) + length frames * 8
    \<and> length (tab_buf (stsz v')) = length (tab_buf (stsz v)) + length frames * 4
    \<and> length (tab_buf (stco v')) = length (tab_buf (stco v)) + length frames * 4 \<and> (flag \<longrightarrow> flag')"
  using assms
proof (induction frames arbitrary: off flag v)
  case Nil
  then show ?case by simp
next
  case (Cons f frames)
  obtain sz d where f: "f = (sz, d)" by (cases f)
  obtain f1 v1 where 1: "add_sample False sz off d False v = (f1, v1)" by fastforce
  note e = add_sample_eq [OF 1]
  have u: "batch_update (off + sz) frames (flag \<or> f1, v1) = (flag', v')" using Cons.prems(1) 1 by (simp add: f update_is_add)
  have w: "bufs_whole v1" using e(1, 2, 4) Cons.prems(2) by (auto simp: bufs_whole_def)
  have l: "length (tab_buf (stts v1)) \<le> length (tab_buf (stts v)) + 8" using e(4) by simp
  have n: "\<not> f1 \<longrightarrow> length (tab_buf (stts v1)) < 512 \<and> length (tab_buf (stsz v1)) < 512 \<and> length (tab_buf (stco v1)) < 512"
    using e(6) by (auto simp: tab_full_def)
  note IH = Cons.IH [OF u w]
  show ?case
  proof (cases "frames = []")
    case True
    then have "v' = v1" "flag' = (flag \<or> f1)" using u by auto
    then show ?thesis using w e l n True by auto
  next
    case False
    then show ?thesis using IH e(1, 2, 5) l by auto
  qed
qed

lemma update_video_eq:
  "mp4_update_video_sample ops sz d key m =
     (case add_sample True sz (mdat_nowoffset (mkey m)) d key (trak (mkey m) ! 0) of (flag, v) \<Rightarrow>
        let m = on_key (noted 0 v sz) m in if flag then mp4_sync ops m else (0, m))"
  by (simp add: mp4_update_video_sample_def add_sample_def set_trak_def noted_def [abs_def] on_key_def on_trak_def Let_def split: prod.split)

lemma update_audio_eq:
  "mp4_update_audio_sample ops sz d m =
     (case add_sample False sz (mdat_nowoffset (mkey m)) d False (trak (mkey m) ! 1) of (flag, v) \<Rightarrow>
        let m = on_key (noted 1 v sz) m in if flag then mp4_sync ops m else (0, m))"
  by (simp add: mp4_update_audio_sample_def add_sample_def set_trak_def noted_def [abs_def] on_key_def on_trak_def Let_def split: prod.split)

context muxer_file
begin

lemma rec_sync:
  assumes at: "m4_at P room e q k c m" and inv: "m4_inv room F pat aud k c (n, SV, SA)" and e: "n \<le> e" "n \<le> room"
  shows "\<exists>m' c'. mp4_sync ops m = (0, m') \<and> m4_at P room e q (synced k) c' m' \<and> m4_inv room F pat aud (synced k) c' (n, SV, SA)
    \<and> tracks_bufs (synced k) \<and> disk_tracks (synced k) c' SV SA"
proof -
  have i: "key_ok room n k" "tracks k c SV SA" "rooms SV SA" "samples_in (data_begin k) n c (SV @ SA)" "begin_kept k pat c" "mp4_audio_enable k = aud" "file_max_size k = F"
    using inv by (auto simp: m4_inv_def)
  have k: "mp4_init k" "mdat_nowoffset k = n" "data_begin k \<le> n" "mdat_offset k = moov_end k" "length (trak k) = 2"
      "file_max_size k \<noteq> 0 \<longrightarrow> file_max_size k = room \<and> mdat_size k = room - moov_end k"
    using i(1, 2) by (auto simp: key_ok_def tracks_def)
  have sz: "file_max_size k \<noteq> 0 \<longrightarrow> mdat_nowoffset k - mdat_offset k \<le> mdat_size k" using k e(2) by auto
  have me: "moov_end k + 8 \<le> e" using data_begin_moov [of k] k(3) e(1) by linarith
  obtain m' c' where s: "mp4_sync ops m = (0, m')" "m4_at P room e q (synced k) c' m'" "tracks (synced k) c' SV SA" "disk_tracks k c' SV SA"
      "\<And>x. \<not> hdr_patch k x \<Longrightarrow> c' x = c x"
    using mp4_sync_law [OF at k(1) i(2, 3) me sz] by blast
  have same: "moov_end (synced k) = moov_end k" "data_begin (synced k) = data_begin k" "begin_kept (synced k) = begin_kept k"
    using same_kind [of "synced k" k] by simp_all
  have "samples_in (data_begin k) n c' (SV @ SA)"
    using samples_in_cong [OF i(4), of c' n] s(5) hdr_patch_bound [of k] data_begin_moov [of k] by force
  moreover have "begin_kept k pat c'" using begin_kept_cong [OF i(5)] s(5) by blast
  moreover have "key_ok room n (synced k)" using i(1) sz by (auto simp: key_ok_def same max_absorb1)
  moreover have "disk_tracks (synced k) c' SV SA" using s(4) by (simp add: disk_tracks_def)
  ultimately show ?thesis using s(1, 2, 3) i(3, 6, 7) synced_bufs [OF k(5)] by (auto simp: m4_inv_def same)
qed

lemma at_data:
  assumes "m4_at (\<lambda>_. True) room e e k c m" "mdat_writer_init k" "e + length bs \<le> room"
  shows "\<exists>m'. mp4_mdat_write_data ops bs m = (0, m') \<and> m4_at (\<lambda>_. True) room (e + length bs) (e + length bs) k (overlay c e bs) m'"
  using write_law [of "m4_file m" bs] assms by (auto simp: m4_at_def mp4_mdat_write_data_def io_advance_def)

text \<open>A muxer that records: it stands at the end, its buffers have room, and the invariant holds.\<close>

definition recording :: "nat \<Rightarrow> nat \<Rightarrow> u8 option list \<Rightarrow> bool \<Rightarrow> nat \<times> gsample list \<times> gsample list \<Rightarrow> 's mp4 \<Rightarrow> bool" where
  "recording room F pat aud st m \<longleftrightarrow> (\<exists>k c. m4_at (\<lambda>_. True) room (fst st) (fst st) k c m \<and> m4_inv room F pat aud k c st \<and> tracks_bufs k)"

lemma recording_sync:
  assumes "m4_at (\<lambda>_. True) room n n k c m" "m4_inv room F pat aud k c (n, SV, SA)"
  shows "\<exists>m'. mp4_sync ops m = (0, m') \<and> recording room F pat aud (n, SV, SA) m'"
proof -
  have "n \<le> room" using assms(1) by (simp add: m4_at_def)
  from rec_sync [OF assms order_refl this] show ?thesis unfolding recording_def by fastforce
qed

lemma recording_noted:
  assumes "m4_at (\<lambda>_. True) room n n k c m" "m4_inv room F pat aud k c (n, SV, SA)" "\<not> flag \<Longrightarrow> tracks_bufs k"
  shows "\<exists>m'. (if flag then mp4_sync ops m else (0, m)) = (0, m') \<and> recording room F pat aud (n, SV, SA) m'"
proof (cases flag)
  case True
  then show ?thesis using recording_sync [OF assms(1, 2)] by simp
next
  case False
  then show ?thesis using assms unfolding recording_def by auto
qed

lemma not_full:
  assumes "m4_inv room F pat aud k c (e, SV, SA)" "e + sz \<le> room"
  shows "\<not> mdat_full sz k"
proof -
  have "mdat_nowoffset k = e" "mdat_offset k = moov_end k" "moov_end k \<le> e" "file_max_size k \<noteq> 0 \<longrightarrow> mdat_size k = room - moov_end k"
    using assms(1) data_begin_moov [of k] by (auto simp: m4_inv_def key_ok_def tracks_def)
  then show ?thesis using assms(2) by (auto simp: mdat_full_def)
qed

lemma recording_nal:
  assumes rec: "recording room F pat aud (e, SV, SA) m" and d: "0 < d" "d * 90 < 2 ^ 32" and r: "e + (length nal + 4) \<le> room"
    and rooms: "rooms (SV @ [(e, be32 (length nal) @ nal, d, key)]) SA"
  shows "\<exists>m'. write_h264_nal ops nal d key m = (0, m')
    \<and> recording room F pat aud (e + (length nal + 4), SV @ [(e, be32 (length nal) @ nal, d, key)], SA) m'"
proof -
  obtain k c where k: "m4_at (\<lambda>_. True) room e e k c m" "m4_inv room F pat aud k c (e, SV, SA)" "tracks_bufs k"
    using rec by (auto simp: recording_def)
  have w: "mdat_writer_init k" "mdat_nowoffset k = e" using k(2) by (auto simp: m4_inv_def key_ok_def)
  let ?b = "be32 (length nal) @ nal"
  obtain m1 where m1: "mp4_mdat_write_data ops (be32 (length nal)) m = (0, m1)"
      "m4_at (\<lambda>_. True) room (e + 4) (e + 4) k (overlay c e (be32 (length nal))) m1"
    using at_data [OF k(1) w(1), of "be32 (length nal)"] r by auto
  obtain m2 where m2: "mp4_mdat_write_data ops nal m1 = (0, m2)"
      "m4_at (\<lambda>_. True) room (e + length ?b) (e + length ?b) k (overlay c e ?b) m2"
    using at_data [OF m1(2) w(1), of nal] r by (auto simp: overlay_append add.assoc)
  obtain flag v where a: "add_sample True (length ?b) e d key (trak k ! 0) = (flag, v)" by fastforce
  note n = rec_add_video [OF k(2, 3) d a rooms]
  define N where "N = length nal + 4"
  have l: "length ?b = N" by (simp add: N_def)
  have "m4_at (\<lambda>_. True) room (e + N) (e + N) (noted 0 v N k) (overlay c e ?b) (on_key (noted 0 v N) m2)"
    by (rule at_key [OF m2(2) [unfolded l]])
  from recording_noted [OF this n [unfolded l]] obtain m3 where m3:
      "(if flag then mp4_sync ops (on_key (noted 0 v N) m2) else (0, on_key (noted 0 v N) m2)) = (0, m3)"
      "recording room F pat aud (e + N, SV @ [(e, ?b, d, key)], SA) m3" by blast
  then show ?thesis using m1(1) m2(1) a [unfolded l] at_end [OF k(1)] at_end [OF m2(2)] w(2) not_full [OF k(2) r]
    by (simp add: write_h264_nal_def update_video_eq N_def [symmetric] Let_def cong: if_cong)
qed

lemma recording_video:
  assumes rec: "recording room F pat aud (e, SV, SA) m" and f: "rec_fits aud room (RVideo buf sz d) (e, SV, SA)"
  shows "\<exists>m'. write_h264_data ops buf sz d m = (0, m') \<and> recording room F pat aud (rec_spec (RVideo buf sz d) (e, SV, SA)) m'"
proof -
  have f: "4 \<le> sz" "buf 4 = 0x61 \<or> buf 4 = 0x65" "0 < d" "d * 90 < 2 ^ 32" "e + sz \<le> room" "rooms (SV @ [nal_sample e buf sz d]) SA"
    using f by (simp_all add: rec_fits_def)
  define nal where "nal = bytes_at buf 4 (sz - 4)"
  have l: "length nal = sz - 4" by (simp add: nal_def)
  have "room < 2 ^ 32" using rec by (auto simp: recording_def m4_at_def)
  then have "sz < 2 ^ 32" using f(5) by linarith
  then have z: "(sz + (2 ^ 32 - 4)) mod 2 ^ 32 = sz - 4" using f(1) by (simp add: mod_if)
  have s: "nal_sample e buf sz d = (e, be32 (length nal) @ nal, d, buf 4 = 0x65)" by (simp add: nal_sample_def l) (simp add: nal_def)
  have sz: "length nal + 4 = sz" using l f(1) by simp
  obtain m' where m': "write_h264_nal ops nal d (buf 4 = 0x65) m = (0, m')"
      "recording room F pat aud (e + sz, SV @ [nal_sample e buf sz d], SA) m'"
    using recording_nal [OF rec f(3, 4), of nal "buf 4 = 0x65"] f(5, 6) unfolding s sz by blast
  then show ?thesis using f(2) unfolding write_h264_data_def z nal_def [symmetric] Let_def by auto
qed

lemma recording_audio:
  assumes rec: "recording room F pat aud (e, SV, SA) m" and f: "rec_fits aud room (RAudio aac d) (e, SV, SA)"
  shows "\<exists>m'. write_aac_data ops aac d m = (0, m') \<and> recording room F pat aud (rec_spec (RAudio aac d) (e, SV, SA)) m'"
proof -
  have f: "aud" "0 < d" "d * 90 < 2 ^ 32" "e + length aac \<le> room" "rooms SV (SA @ [(e, aac, d, False)])"
    using f by (simp_all add: rec_fits_def)
  obtain k c where k: "m4_at (\<lambda>_. True) room e e k c m" "m4_inv room F pat True k c (e, SV, SA)" "tracks_bufs k"
    using rec f(1) by (auto simp: recording_def)
  have w: "mdat_writer_init k" "mdat_nowoffset k = e" "trak_count k = 2" "mp4_audio_enable k" using k(2) by (auto simp: m4_inv_def key_ok_def tracks_def)
  obtain m2 where m2: "mp4_mdat_write_data ops aac m = (0, m2)"
      "m4_at (\<lambda>_. True) room (e + length aac) (e + length aac) k (overlay c e aac) m2"
    using at_data [OF k(1) w(1) f(4)] by blast
  obtain flag v where a: "add_sample False (length aac) e d False (trak k ! 1) = (flag, v)" by fastforce
  note n = rec_add_audio [OF k(2, 3) f(2, 3) a f(5)]
  have "m4_at (\<lambda>_. True) room (e + length aac) (e + length aac) (noted 1 v (length aac) k) (overlay c e aac) (on_key (noted 1 v (length aac)) m2)"
    by (rule at_key [OF m2(2)])
  from recording_noted [OF this n] obtain m3 where m3:
      "(if flag then mp4_sync ops (on_key (noted 1 v (length aac)) m2) else (0, on_key (noted 1 v (length aac)) m2)) = (0, m3)"
      "recording room F pat True (e + length aac, SV, SA @ [(e, aac, d, False)]) m3" by blast
  then show ?thesis using m2(1) a at_end [OF k(1)] at_end [OF m2(2)] w not_full [OF k(2) f(4)] f(1)
    by (simp add: write_aac_data_def update_audio_eq Let_def cong: if_cong)
qed

lemma recording_batch:
  assumes rec: "recording room F pat aud (e, SV, SA) m" and f: "rec_fits aud room (RBatch aac frames) (e, SV, SA)"
  shows "\<exists>m'. write_aac_data_batch ops aac frames m = (0, m') \<and> recording room F pat aud (rec_spec (RBatch aac frames) (e, SV, SA)) m'"
proof (cases "frames = []")
  case True
  then show ?thesis using rec f by (auto simp: write_aac_data_batch_def rec_fits_def Let_def)
next
  case False
  let ?S = "SA @ batch_samples e aac frames"
  have f: "aud" "sum_list (map fst frames) = length aac" "\<forall>f \<in> set frames. 0 < snd f \<and> snd f * 90 < 2 ^ 32" "e + length aac \<le> room" "rooms SV ?S"
    using f by (simp_all add: rec_fits_def)
  obtain k0 c0 where k0: "m4_at (\<lambda>_. True) room e e k0 c0 m" "m4_inv room F pat True k0 c0 (e, SV, SA)" "tracks_bufs k0"
    using rec f(1) by (auto simp: recording_def)
  have w0: "trak_count k0 = 2" "mp4_audio_enable k0" using k0(2) by (auto simp: m4_inv_def tracks_def)
  define full where "full = (length (tab_buf (stts (trak k0 ! 1))) + length frames * 8 > 512 \<or> length (tab_buf (stsz (trak k0 ! 1))) + length frames * 4 > 512
     \<or> length (tab_buf (stco (trak k0 ! 1))) + length frames * 4 > 512)"
  obtain m1 where m1: "(if full then mp4_sync ops m else (0, m)) = (0, m1)" "recording room F pat aud (e, SV, SA) m1"
  proof (cases full)
    case True
    then show ?thesis using recording_sync [OF k0(1, 2)] that f(1) by auto
  next
    case False
    then show ?thesis using rec that by simp
  qed
  obtain k c where k: "m4_at (\<lambda>_. True) room e e k c m1" "m4_inv room F pat True k c (e, SV, SA)" "tracks_bufs k"
    using m1(2) f(1) by (auto simp: recording_def)
  have w: "mdat_writer_init k" "mdat_nowoffset k = e" "mp4_audio_enable k" "data_begin k \<le> e" using k(2) by (auto simp: m4_inv_def key_ok_def)
  obtain m2 where m2: "mp4_mdat_write_data ops aac m1 = (0, m2)"
      "m4_at (\<lambda>_. True) room (e + length aac) (e + length aac) k (overlay c e aac) m2"
    using at_data [OF k(1) w(1) f(4)] by blast
  obtain flag v where a: "batch_update e frames (False, trak k ! 1) = (flag, v)" by fastforce
  note o = rec_over [OF k(2), of aac]
  obtain R where R: "trak_inv False (overlay c e aac) (trak k ! 1) SA R" using o(1) w(3) by (auto simp: tracks_def)
  obtain R' where R': "trak_inv False (overlay c e aac) v ?S R'" "same_place (trak k ! 1) v"
    using batch_inv [OF a R f(3, 2)] by blast
  have "samples_in (data_begin k) (e + length aac) (overlay c e aac) ?S"
    using o(2) batch_samples_in [OF f(2) o(4) w(4)] by (auto simp: samples_in_def)
  note n = rec_set_audio [OF k(2) R' f(5) this]
  have bk: "bufs_ok (trak k ! 1)" "bufs_ok (trak k ! 0)" using k(3) w(3) by (auto simp: tracks_bufs_def)
  have tb: "tracks_bufs (noted 1 v (length aac) k)" if "\<not> flag"
  proof -
    have "bufs_ok v" using batch_bufs [OF a bufs_ok_whole [OF bk(1)]] that False R by (intro bufs_whole_ok) (auto simp: trak_inv_def)
    then show ?thesis using bk(2) two_traks [OF o(1)] by (auto simp: tracks_bufs_def noted_def on_trak_def)
  qed
  have "m4_at (\<lambda>_. True) room (e + length aac) (e + length aac) (noted 1 v (length aac) k) (overlay c e aac) (on_key (noted 1 v (length aac)) m2)"
    by (rule at_key [OF m2(2)])
  from recording_noted [OF this n tb] obtain m3 where m3:
      "(if flag then mp4_sync ops (on_key (noted 1 v (length aac)) m2) else (0, on_key (noted 1 v (length aac)) m2)) = (0, m3)"
      "recording room F pat True (e + length aac, SV, ?S) m3" by blast
  have e: "on_key (\<lambda>k. k\<lparr>mdat_nowoffset := mdat_nowoffset k + length aac\<rparr>) (set_trak 1 v m2) = on_key (noted 1 v (length aac)) m2"
    by (simp add: set_trak_def noted_def [abs_def] on_key_def on_trak_def)
  have "write_aac_data_batch ops aac frames m = (0, m3)"
    using m2(1) a at_end [OF k0(1)] at_end [OF k(1)] at_end [OF m2(2)] w w0 not_full [OF k0(2) f(4)] False m1(1) m3(1)
    unfolding full_def by (simp add: write_aac_data_batch_def e [unfolded One_nat_def] Let_def cong: if_cong)
  then show ?thesis using m3(2) f(1) by simp
qed

lemma recording_sync_time:
  assumes "recording room F pat aud st m"
  shows "\<exists>m'. mp4_sync_time ops t m = (0, m') \<and> recording room F pat aud st m'"
proof -
  obtain e SV SA where st: "st = (e, SV, SA)" by (cases st) auto
  then obtain k c where k: "m4_at (\<lambda>_. True) room e e k c m" "m4_inv room F pat aud k c (e, SV, SA)" "tracks_bufs k"
    using assms by (auto simp: recording_def)
  then show ?thesis using recording_sync [OF k(1, 2)] assms unfolding mp4_sync_time_def st by (auto simp: Let_def)
qed

lemma recording_run:
  assumes "recording room F pat aud st m" "recs_fit aud room rs st"
  shows "\<exists>m'. rec_run ops rs m = (0, m') \<and> recording room F pat aud (fold rec_spec rs st) m'"
  using assms
proof (induction rs arbitrary: st m)
  case (Cons r rs)
  obtain e SV SA where st: "st = (e, SV, SA)" by (cases st) auto
  have f: "rec_fits aud room r st" "recs_fit aud room rs (rec_spec r st)" using Cons.prems(2) by simp_all
  have "\<exists>m'. rec_do ops r m = (0, m') \<and> recording room F pat aud (rec_spec r st) m'"
  proof (cases r)
    case (RVideo buf sz d)
    then show ?thesis using recording_video Cons.prems(1) f(1) unfolding st by (simp add: rec_do_def)
  next
    case (RAudio aac d)
    then show ?thesis using recording_audio Cons.prems(1) f(1) unfolding st by (simp add: rec_do_def)
  next
    case (RBatch aac frames)
    then show ?thesis using recording_batch Cons.prems(1) f(1) unfolding st by (simp add: rec_do_def)
  next
    case (RSync t)
    then show ?thesis using recording_sync_time [OF Cons.prems(1), of t] by (simp add: rec_do_def st)
  qed
  then obtain m1 where m1: "rec_do ops r m = (0, m1)" "recording room F pat aud (rec_spec r st) m1" by blast
  from Cons.IH [OF m1(2) f(2)] show ?case using m1(1) by simp
qed simp

end

end
