(* ===== verification/Mp4Session.thy ===== *)
theory Mp4Session
  imports Mp4Record
begin

text \<open>
  From the begin of a file to its end: the tables that \<open>MP4_init\<close> leaves describe no sample, and after \<open>mp4_deinit\<close> the card
  holds the samples and tables that describe all of them.
\<close>

section \<open>The begin\<close>

lemma laid_tables:
  assumes "laid c p (lay_tables n)" "8 \<le> n" "q = p + n"
  shows "placed c (q + 12) (be32 0)" "placed c (q + 65596) (be32 0)" "placed c (q + 589900) (be32 0)"
  using assms
  by (simp_all add: lay_tables_def lay_table_def stts_head_def stsz_head_def stco_head_def placed_append STTS_COUNT_def STSZ_COUNT_def STCO_COUNT_def add.assoc add.commute)

lemma laid_stbl: "laid c p (lay_trak k name vh stbl) \<Longrightarrow> laid c (p + 225 + length name + length vh) stbl"
  by (simp add: lay_trak_def box8_def lay_dinf_def laid.simps(2) algebra_simps)

lemma laid_counts:
  assumes l: "laid c 0 (lay_file k)" and fit: "mp4_fits k"
  shows "placed c 1036 (be32 0)" "placed c 66620 (be32 0)" "placed c 590924 (be32 0)" "placed c 1115228 (be32 0)"
    "mp4_audio_enable k \<Longrightarrow> placed c 1377804 (be32 0)" "mp4_audio_enable k \<Longrightarrow> placed c 1443388 (be32 0)" "mp4_audio_enable k \<Longrightarrow> placed c 1967692 (be32 0)"
proof -
  let ?n = "sps_len k + pps_len k" and ?k1 = "k\<lparr>trak_count := 1\<rparr>" and ?k2 = "k\<lparr>trak_count := 2\<rparr>"
  have n: "?n \<le> 249" "length (asps_data k) \<le> 69" "esds_len k \<le> 103" using fit by (auto simp: mp4_fits_def esds_len_def)
  have f: "mp4_fits ?k1" "mp4_fits ?k2" using fit by simp_all
  have m: "laid c 24 (lay_moov k)" using l by (simp add: lay_file_def)
  have v: "laid c 140 (lay_video ?k1 (487 - ?n))" using m by (simp add: lay_moov_def box8_def)
  from laid_stbl [OF this [unfolded lay_video_def]]
  have "laid c 397 (lay_stsd (lay_avc1 ?k1) @ lay_tables (487 - ?n) @ lay_table stss_head (STSS_COUNT * 4))" by simp
  then have t: "laid c (537 + ?n) (lay_tables (487 - ?n))" "laid c (537 + ?n + length (lay_tables (487 - ?n))) (lay_table stss_head (STSS_COUNT * 4))"
    using length_avcC [OF f(1)] by (simp_all add: lay_avc1_def)
  have 8: "8 \<le> 487 - ?n" "537 + ?n + (487 - ?n) = 1024" using n(1) by auto
  show "placed c 1036 (be32 0)" "placed c 66620 (be32 0)" "placed c 590924 (be32 0)"
    using laid_tables [OF t(1) 8(1) 8(2) [symmetric]] by simp_all
  have "537 + ?n + length (lay_tables (487 - ?n)) = 1115216" using length_tables [OF 8(1)] 8(2) by simp
  then show "placed c 1115228 (be32 0)" using t(2) by (simp add: lay_table_def stss_head_def placed_append)
  assume a: "mp4_audio_enable k"
  have "laid c 1377376 (lay_audio ?k2 (111 - esds_len k))" using m a length_tracks(1) [OF f(1)] by (simp add: lay_moov_def box8_def)
  from laid_stbl [OF this [unfolded lay_audio_def]]
  have "laid c 1377629 (lay_stsd (lay_mp4a ?k2) @ lay_tables (111 - esds_len k))" by simp
  then have t: "laid c (1377681 + esds_len k) (lay_tables (111 - esds_len k))"
    using length_esds [OF f(2)] by (simp add: lay_mp4a_def)
  have 9: "8 \<le> 111 - esds_len k" "1377681 + esds_len k + (111 - esds_len k) = 1377792" using n(3) by auto
  show "placed c 1377804 (be32 0)" "placed c 1443388 (be32 0)" "placed c 1967692 (be32 0)"
    using laid_tables [OF t 9(1) 9(2) [symmetric]] by simp_all
qed

lemma empty_tables [simp]: "tab_offset empty_table = 0" "tab_write_offset empty_table = 0" "tab_buf empty_table = []" "tab_count empty_table = 0"
  by (simp_all add: empty_table_def)

lemma empty_trak_simps [simp]: "stts empty_trak = empty_table" "stsc empty_trak = empty_table" "stsz empty_trak = empty_table"
    "stco empty_trak = empty_table" "stss empty_trak = empty_table" "last_sample_count empty_trak = 0" "last_delta empty_trak = 0"
    "tk_count empty_trak = 0" "tk_duration empty_trak = 0"
  by (simp_all add: empty_trak_def)

lemma place_table_simps [simp]: "tab_offset (place_table off t) = off" "tab_write_offset (place_table off t) = off" "tab_buf (place_table off t) = tab_buf t"
    "tab_count (place_table off t) = tab_count t"
  by (simp_all add: place_table_def)

lemma begin_tracks:
  assumes l: "laid c 0 (lay_file k)" and fit: "mp4_fits k" and k: "k = (init_key k0)\<lparr>mp4_init := True, mp4_syn_time := t\<rparr>"
  shows "tracks k c [] []" "tracks_bufs k"
proof -
  note p = laid_counts [OF l fit]
  have a: "mp4_audio_enable k0 = mp4_audio_enable k" by (simp add: k init_key_def note_mdat_def reset_key_def)
  have t: "trak k = [place_video 140 1024 empty_trak, if mp4_audio_enable k then place_trak 1377376 1377792 empty_trak else empty_trak]"
      "trak_count k = (if mp4_audio_enable k then 2 else 1)" "mvhd_duration_offset k = 56" "mdat_offset k = moov_end k"
    using a by (simp_all add: k init_key_def note_mdat_def reset_key_def moov_end_def)
  have v: "trak_inv True c (place_video 140 1024 empty_trak) [] []"
    using p(1-4) by (simp add: trak_inv_def stts_inv_def tab_inv_def tab_data_def place_video_def place_trak_def place_tables_def)
  have w: "trak_inv False c (place_trak 1377376 1377792 empty_trak) [] []" if "mp4_audio_enable k"
    using p(5-7) [OF that] by (simp add: trak_inv_def stts_inv_def tab_inv_def tab_data_def place_trak_def place_tables_def)
  have "addr_ok 140 1024 True (place_video 140 1024 empty_trak)" "addr_ok 1377376 1377792 False (place_trak 1377376 1377792 empty_trak)"
    by (simp_all add: addr_ok_def place_video_def place_trak_def place_tables_def)
  then show "tracks k c [] []" using t v w by (auto simp: tracks_def)
  show "tracks_bufs k" using t by (auto simp: tracks_bufs_def bufs_ok_def place_video_def place_trak_def place_tables_def)
qed

definition set_params :: "(nat \<Rightarrow> u8) \<Rightarrow> nat \<times> nat \<Rightarrow> nat \<times> nat \<Rightarrow> mp4_key \<Rightarrow> mp4_key" where
  "set_params buf sps pps k = k\<lparr>sps_len := snd sps, pps_len := snd pps, sps_data := (\<lambda>i. buf (fst sps + i)), pps_data := (\<lambda>i. buf (fst pps + i))\<rparr>"

definition begin_state :: "mp4_key \<Rightarrow> nat \<times> gsample list \<times> gsample list" where
  "begin_state k = (data_begin k, [], [])"

lemma rooms_Nil [simp]: "rooms [] []"
  by (simp add: rooms_def track_room_def STTS_COUNT_def STSZ_COUNT_def STSS_COUNT_def)

context muxer_file
begin

lemma pps_sps_law:
  assumes s: "ok (m4_file m)" "op_tell ops (m4_file m) = 0" "fsize (fl (m4_file m)) < 2 ^ 32"
    and fp: "\<And>g. g (fl (m4_file m)) = fl (m4_file m) \<Longrightarrow> onfp g (m4_file m) = m4_file m"
    and par: "find_sps_pps buf 2 0 (None, None) = (Some sps, Some pps)" and fit: "mp4_fits (set_params buf sps pps (mkey m))"
    and F: "file_max_size (mkey m) = 0 \<or> file_max_size (mkey m) = fsize (fl (m4_file m))"
    and room: "data_begin (mkey m) < fsize (fl (m4_file m))" and i: "\<not> mp4_init (mkey m)"
  shows "\<exists>m'. write_h264_pps_sps ops onfp buf m = (0, m')
    \<and> recording (fsize (fl (m4_file m))) (file_max_size (mkey m)) (lay_file (init_key (set_params buf sps pps (mkey m)))) (mp4_audio_enable (mkey m)) (begin_state (mkey m)) m'"
proof -
  let ?room = "fsize (fl (m4_file m))" and ?k0 = "set_params buf sps pps (mkey m)"
  define m1 where "m1 = on_key (set_params buf sps pps) m"
  have m1: "m4_file m1 = m4_file m" "mkey m1 = ?k0" by (simp_all add: m1_def on_key_def)
  have k: "file_max_size ?k0 = file_max_size (mkey m)" "data_begin ?k0 = data_begin (mkey m)" "mp4_audio_enable ?k0 = mp4_audio_enable (mkey m)"
    by (simp_all add: set_params_def data_begin_def)
  obtain m2 c where m2: "MP4_init ops onfp m1 = (0, m2)" "m4_st ?room (data_begin ?k0) (data_begin ?k0) (init_key ?k0) c m2" "laid c 0 (lay_file (init_key ?k0))"
    using mp4_init_law [of m1 onfp, unfolded m1, OF s fp fit F [folded k(1)] room [folded k(2)]] by blast
  define k1 where "k1 = (init_key ?k0)\<lparr>mp4_init := True, mp4_syn_time := mp4_written_duration_ms (init_key ?k0)\<rparr>"
  have at: "m4_at (\<lambda>_. True) ?room (data_begin ?k0) (data_begin ?k0) k1 c
      (on_key (\<lambda>k. k\<lparr>mp4_init := True, mp4_syn_time := mp4_written_duration_ms k\<rparr>) m2)"
    unfolding k1_def by (rule at_key [OF at_st [OF m2(2)]])
  have f1: "mp4_fits k1" "lay_file k1 = lay_file (init_key ?k0)" "mp4_audio_enable k1 = mp4_audio_enable (mkey m)" "file_max_size k1 = file_max_size (mkey m)"
    using fit by (simp_all add: k1_def mp4_fits_def init_key_def note_mdat_def reset_key_def set_params_def lay_file_def lay_moov_def
        lay_video_def lay_audio_def lay_trak_def tkhd_bytes_def hdlr_bytes_def
        lay_avc1_def avc1_bytes_def lay_avcC_def avcC_len_def avcC_bytes_def sps_pps_bytes_def lay_mp4a_def esds_len_def)
  have l: "laid c 0 (lay_file k1)" using m2(3) f1(2) by simp
  note b = begin_tracks [OF l f1(1) k1_def]
  have "begin_kept k1 (lay_file (init_key ?k0)) c" using m2(3) by (auto simp: begin_kept_def)
  moreover have "key_ok ?room (data_begin ?k0) k1"
    using F f1(3, 4) data_begin_align [of ?k0] by (auto simp: key_ok_def k1_def init_key_def note_mdat_def reset_key_def data_begin_def k moov_end_def set_params_def)
  ultimately have "m4_inv ?room (file_max_size (mkey m)) (lay_file (init_key ?k0)) (mp4_audio_enable (mkey m)) k1 c (begin_state (mkey m))"
    using b(1) f1(3, 4) k(2) by (simp add: m4_inv_def begin_state_def)
  then have "recording ?room (file_max_size (mkey m)) (lay_file (init_key ?k0)) (mp4_audio_enable (mkey m)) (begin_state (mkey m))
      (on_key (\<lambda>k. k\<lparr>mp4_init := True, mp4_syn_time := mp4_written_duration_ms k\<rparr>) m2)"
    using at b(2) k(2) unfolding recording_def by (auto simp: begin_state_def)
  moreover have "write_h264_pps_sps ops onfp buf m = (0, on_key (\<lambda>k. k\<lparr>mp4_init := True, mp4_syn_time := mp4_written_duration_ms k\<rparr>) m2)"
  proof -
    have e: "on_key (\<lambda>k. k\<lparr>sps_len := snd sps, pps_len := snd pps, sps_data := (\<lambda>i. buf (fst sps + i)), pps_data := (\<lambda>i. buf (fst pps + i))\<rparr>) m = m1"
      by (simp add: m1_def set_params_def [abs_def])
    show ?thesis using i m2(1) e by (cases sps; cases pps) (simp add: write_h264_pps_sps_def par)
  qed
  ultimately show ?thesis by blast
qed

end

section \<open>The end\<close>

text \<open>
  A file that can be finished: what is still buffered is padded and written. What was in the file before stays, nothing is
  buffered afterwards, and writing at a place and flushing leave it so.
\<close>

locale closing_file = muxer_file ops ok view fl
  for ops :: "'s file_ops" and ok :: "'s \<Rightarrow> bool" and view :: "'s \<Rightarrow> nat \<Rightarrow> u8" and fl :: "'s \<Rightarrow> ffile" +
  fixes closed :: "'s \<Rightarrow> bool"
  assumes close_law: "ok s \<Longrightarrow>
      \<exists>s'. op_finish ops s = (0, s') \<and> ok s' \<and> closed s' \<and> op_tell ops s \<le> op_tell ops s' \<and> op_tell ops s' \<le> fsize (fl s')
        \<and> fsize (fl s') = fsize (fl s) \<and> (\<forall>i < op_tell ops s. view s' i = view s i)"
    and closed_write_at: "ok s \<Longrightarrow> closed s \<Longrightarrow> off + length bs \<le> op_tell ops s \<Longrightarrow> closed (snd (op_write_at ops off bs s))"
    and closed_flush: "ok s \<Longrightarrow> closed s \<Longrightarrow> closed (snd (op_flush ops s))"
    and closed_content: "ok s \<Longrightarrow> closed s \<Longrightarrow> view s = fcontent (fl s)"

text \<open>What is on the card in the end.\<close>

definition mp4_card :: "mp4_key \<Rightarrow> u8 option list \<Rightarrow> (nat \<Rightarrow> u8) \<Rightarrow> nat \<times> gsample list \<times> gsample list \<Rightarrow> bool" where
  "mp4_card k pat c st \<longleftrightarrow> (case st of (e, SV, SA) \<Rightarrow>
     disk_tracks k c SV SA \<and> samples_in (data_begin k) e c (SV @ SA) \<and> begin_kept k pat c
     \<and> (file_max_size k = 0 \<longrightarrow> placed c (moov_end k) (be32 (e - moov_end k))))"

lemma mp4_card_kind:
  assumes "mp4_audio_enable k' = mp4_audio_enable k" "file_max_size k' = file_max_size k"
  shows "mp4_card k' = mp4_card k"
  using same_kind [OF assms] assms by (auto simp: mp4_card_def disk_tracks_def fun_eq_iff)

lemma m4_inv_cong:
  assumes inv: "m4_inv room F pat aud k c (e, SV, SA)" and c: "\<And>x. x < e \<Longrightarrow> c' x = c x"
  shows "m4_inv room F pat aud k c' (e, SV, SA)"
proof -
  have i: "tracks k c SV SA" "rooms SV SA" "samples_in (data_begin k) e c (SV @ SA)" "begin_kept k pat c" "data_begin k \<le> e"
    using inv by (auto simp: m4_inv_def key_ok_def)
  have m: "moov_end k + 8 \<le> e" using data_begin_moov [of k] i(5) by linarith
  have "tracks k c' SV SA" by (rule tracks_cong [OF i(1, 2) c]) (use m in simp)
  moreover have "samples_in (data_begin k) e c' (SV @ SA)" by (rule samples_in_cong [OF i(3) c]) simp_all
  moreover have "begin_kept k pat c'" by (rule begin_kept_cong [OF i(4) c]) (use m in simp)
  ultimately show ?thesis using inv by (simp add: m4_inv_def)
qed

lemma mdat_patch_other:
  "file_max_size k = 0 \<Longrightarrow> moov_end k \<le> x \<Longrightarrow> x < moov_end k + 4 \<Longrightarrow> hdr_patch k x"
  by (simp add: hdr_patch_def)

lemma mp4_card_size:
  assumes d: "disk_tracks k c SV SA" "samples_in (data_begin k) e c (SV @ SA)" "begin_kept k pat c" "rooms SV SA" and F: "file_max_size k = 0"
  shows "mp4_card k pat (overlay c (moov_end k) (be32 (e - moov_end k))) (e, SV, SA)"
proof -
  let ?c = "overlay c (moov_end k) (be32 (e - moov_end k))"
  have o: "?c x = c x" if "x < moov_end k \<or> moov_end k + 4 \<le> x" for x using that by (auto simp: overlay_def)
  have p1: "?c x = c x" if "patch 140 1024 True x" for x using patches(1) [OF that] o [of x] by (simp add: moov_end_def)
  have p2: "?c x = c x" if "patch 1377376 1377792 False x" "mp4_audio_enable k" for x
    using patches(2) [OF that(1)] o [of x] that(2) by (simp add: moov_end_def)
  have "trak_disk 140 1024 True ?c SV" "mp4_audio_enable k \<Longrightarrow> trak_disk 1377376 1377792 False ?c SA"
    using d(1, 4) trak_disk_cong [of 140 1024 True c SV ?c] trak_disk_cong [of 1377376 1377792 False c SA ?c] p1 p2
    by (auto simp: disk_tracks_def rooms_def)
  moreover have "placed ?c 56 (be32 n) \<longleftrightarrow> placed c 56 (be32 n)" for n
    by (rule placed_overlay_other) (simp add: moov_end_def)
  ultimately have "disk_tracks k ?c SV SA" using d(1) by (auto simp: disk_tracks_def)
  moreover have "samples_in (data_begin k) e ?c (SV @ SA)"
    by (rule samples_in_cong [OF d(2)]) (use o data_begin_moov [of k] in auto)
  moreover have "begin_kept k pat ?c"
  proof (rule begin_kept_cong [OF d(3)])
    fix x assume "\<not> hdr_patch k x"
    then have "x < moov_end k \<or> moov_end k + 4 \<le> x" using mdat_patch_other [OF F, of x] by linarith
    then show "?c x = c x" by (rule o)
  qed
  ultimately show ?thesis by (simp add: mp4_card_def)
qed

context closing_file
begin

lemma lasting_closed: "lasting closed"
  unfolding lasting_def using closed_write_at closed_flush by blast

lemma finish_at:
  assumes "m4_at (\<lambda>_. True) room e e k c m"
  shows "\<exists>s e' c'. op_finish ops (m4_file m) = (0, s) \<and> m4_at closed room e' e k c' (m\<lparr>m4_file := s\<rparr>) \<and> e \<le> e' \<and> (\<forall>x < e. c' x = c x)"
  using close_law [of "m4_file m"] assms lasting_closed by (auto simp: m4_at_def)

lemma deinit_law:
  assumes rec: "recording room F pat aud (e, SV, SA) m" and K: "mp4_audio_enable K = aud" "file_max_size K = F"
  shows "\<exists>m'. mp4_deinit ops m = (0, m') \<and> mp4_card K pat (fcontent (fl (m4_file m'))) (e, SV, SA)
    \<and> fsize (fl (m4_file m')) = room"
proof -
  obtain k c where k: "m4_at (\<lambda>_. True) room e e k c m" "m4_inv room F pat aud k c (e, SV, SA)"
    using rec by (auto simp: recording_def)
  have f: "mp4_init k" "mdat_writer_init k" "mdat_nowoffset k = e" "rooms SV SA" "data_begin k \<le> e" "mdat_offset k = moov_end k"
      using k(2) by (auto simp: m4_inv_def key_ok_def tracks_def)
  have m: "mkey m = k" "io_offset m = e" "e \<le> room" using k(1) by (simp_all add: m4_at_def)
  obtain s e1 c1 where 1: "op_finish ops (m4_file m) = (0, s)" "m4_at closed room e1 e k c1 (m\<lparr>m4_file := s\<rparr>)" "e \<le> e1" "\<And>x. x < e \<Longrightarrow> c1 x = c x"
    using finish_at [OF k(1)] by blast
  have kk: "mp4_card K = mp4_card k" by (rule mp4_card_kind) (use k(2) K in \<open>simp_all add: m4_inv_def\<close>)
  have same: "on_key (\<lambda>k. k\<lparr>mdat_nowoffset := io_offset m\<rparr>) m = m"
    using m f(3) by (cases m) (auto simp: on_key_def)
  define m1 where "m1 = m\<lparr>m4_file := s\<rparr>"
  obtain m2 c2 where 2: "mp4_sync ops m1 = (0, m2)" "m4_at closed room e1 e (synced k) c2 m2" "m4_inv room F pat aud (synced k) c2 (e, SV, SA)"
      "disk_tracks (synced k) c2 SV SA"
    using rec_sync [OF 1(2) m4_inv_cong [OF k(2) 1(4)] 1(3) m(3)] unfolding m1_def by blast
  have i2: "samples_in (data_begin (synced k)) e c2 (SV @ SA)" "begin_kept (synced k) pat c2" using 2(3) by (auto simp: m4_inv_def)
  have kind: "moov_end (synced k) = moov_end k" "data_begin (synced k) = data_begin k" "begin_kept (synced k) = begin_kept k"
      "disk_tracks (synced k) = disk_tracks k"
    using same_kind [of "synced k" k] by (auto simp: disk_tracks_def fun_eq_iff)
  have content: "fcontent (fl (m4_file m')) = c'" "fsize (fl (m4_file m')) = room" if "m4_at closed room e' q k' c' m'" for e' q k' c' m'
    using that closed_content [of "m4_file m'"] by (auto simp: m4_at_def)
  show ?thesis
  proof (cases "file_max_size k = 0")
    case False
    have "mp4_deinit ops m = (0, m2)"
      using 2(1) 1(1) f(1, 2) False at_end [OF 2(2)] unfolding m1_def
      by (simp add: mp4_deinit_def m(1) same Let_def)
    moreover have "mp4_card k pat c2 (e, SV, SA)" using 2(4) i2 False by (simp add: mp4_card_def kind)
    ultimately show ?thesis using content [OF 2(2)] kk by auto
  next
    case True
    define b where "b = be32 (e - moov_end k)"
    have b: "length b = 4" "b \<noteq> []" by (simp_all add: b_def)
    let ?k = "(synced k)\<lparr>mdat_size := e - moov_end k\<rparr>"
    have "m4_at closed room e1 e ?k c2 (on_key (\<lambda>k. k\<lparr>mdat_size := mdat_nowoffset k - mdat_offset k\<rparr>) m2)"
      using at_key [OF 2(2), of "\<lambda>k. k\<lparr>mdat_size := mdat_nowoffset k - mdat_offset k\<rparr>"] f(3, 6) by simp
    moreover have "moov_end k + length b \<le> e1" using b(1) data_begin_moov [of k] f(5) 1(3) by linarith
    ultimately obtain m3 where 3:
        "mp4_write ops b (mp4_seek_set ops (moov_end k) (on_key (\<lambda>k. k\<lparr>mdat_size := mdat_nowoffset k - mdat_offset k\<rparr>) m2)) = (0, m3)"
        "m4_at closed room e1 (moov_end k + length b) ?k (overlay c2 (moov_end k) b) m3"
      using at_over b(2) by blast
    have "mp4_deinit ops m = (0, mp4_file_syn ops m3)"
      using 2(1) 1(1) f True at_end [OF 2(2)] 3(1) unfolding m1_def b_def
      by (simp add: mp4_deinit_def m(1) same put_def Let_def)
    moreover have "mp4_card k pat (overlay c2 (moov_end k) b) (e, SV, SA)"
      unfolding b_def using mp4_card_size [of k c2 SV SA e pat] 2(4) i2 f(4) True by (simp add: kind)
    ultimately show ?thesis using content [OF at_flush [OF 3(2)]] kk by auto
  qed
qed

end

end
