(* ===== verification/Mp4Params.thy ===== *)
theory Mp4Params
  imports Mp4Mux
begin

text \<open>
  The search for the parameter sets in front of the first frame.
\<close>

section \<open>Start codes\<close>

definition start_at :: "(nat \<Rightarrow> u8) \<Rightarrow> nat \<Rightarrow> bool" where
  "start_at buf i \<longleftrightarrow> buf i = 0 \<and> buf (i + 1) = 0 \<and> (buf (i + 2) = 1 \<or> buf (i + 2) = 0 \<and> buf (i + 3) = 1)"

definition start4 :: "u8 list" where
  "start4 = [0, 0, 0, 1]"

lemma length_start4 [simp]: "length start4 = 4"
  by (simp add: start4_def)

lemma bytes_at_shift: "bytes_at (\<lambda>i. c (p + i)) off n = bytes_at c (p + off) n"
  by (rule nth_equalityI) (auto simp: bytes_at_def add.assoc)

lemma placed_shift: "placed (\<lambda>i. c (p + i)) off bs \<longleftrightarrow> placed c (p + off) bs"
  by (simp add: placed_def bytes_at_shift)

lemma placed_start4: "placed buf p start4 \<longleftrightarrow> buf p = 0 \<and> buf (p + 1) = 0 \<and> buf (p + 2) = 0 \<and> buf (p + 3) = 1"
  proof -
  have "placed buf p [a, b, c, d] \<longleftrightarrow> buf p = a \<and> buf (p + 1) = b \<and> buf (p + 2) = c \<and> buf (p + 3) = d" for a b c d
    by (auto simp: placed_def bytes_at_def upt_rec numeral_2_eq_2 numeral_3_eq_3)
  then show ?thesis unfolding start4_def by blast
qed

lemma get_nal_size_found:
  assumes "\<And>i. i < n \<Longrightarrow> \<not> start_at buf (p + i)" "placed buf (p + n) start4" "p + n + 3 < sz"
  shows "get_nal_size buf sz p = Some (p + n, 4)"
  using assms
proof (induction n arbitrary: p)
  case 0
  then show ?case by (simp add: get_nal_size.simps [of buf sz p] placed_start4)
next
  case (Suc n)
  have "\<not> start_at buf p" using Suc.prems(1) [of 0] by simp
  then have "get_nal_size buf sz p = get_nal_size buf sz (p + 1)"
    using Suc.prems(3) by (subst get_nal_size.simps) (auto simp: start_at_def)
  moreover have "\<not> start_at buf (p + 1 + i)" if "i < n" for i using Suc.prems(1) [of "Suc i"] that by simp
  ultimately show ?case using Suc.IH [of "p + 1"] Suc.prems(2, 3) by simp
qed

text \<open>A parameter set between two start codes of four bytes.\<close>

lemma get_set_found:
  assumes "placed buf 0 (start4 @ ps @ start4)" "\<And>i. i < length ps \<Longrightarrow> \<not> start_at buf (4 + i)" "length ps \<le> 56"
    and "buf 4 AND 0x1f = 7 \<or> buf 4 AND 0x1f = 8"
  shows "get_sps_pps_nal_size buf 64 = Some (0, length ps, 4)"
proof -
  have p: "placed buf 0 start4" "placed buf (4 + length ps) start4" using assms(1) by (simp_all add: placed_append)
  have "get_nal_size buf 64 0 = Some (0, 4)" using get_nal_size_found [of 0 buf 0 64] p(1) by simp
  moreover have "get_nal_size (\<lambda>i. buf (4 + i)) 60 0 = Some (length ps, 4)"
  proof -
    have "\<not> start_at (\<lambda>i. buf (4 + i)) (0 + i)" if "i < length ps" for i using assms(2) [OF that] by (simp add: start_at_def add.assoc)
    moreover have "placed (\<lambda>i. buf (4 + i)) (0 + length ps) start4" using p(2) by (simp add: placed_start4 add.assoc)
    ultimately show ?thesis using get_nal_size_found [of "length ps" "\<lambda>i. buf (4 + i)" 0 60] assms(3) by simp
  qed
  ultimately show ?thesis using assms(4) by (simp add: get_sps_pps_nal_size_def Let_def)
qed

lemma find_sps_pps_found:
  assumes "placed buf 0 (start4 @ sps @ start4 @ pps @ start4)"
    and "\<And>i. i < length sps \<Longrightarrow> \<not> start_at buf (4 + i)" "\<And>i. i < length pps \<Longrightarrow> \<not> start_at buf (8 + length sps + i)"
    and "length sps \<le> 56" "length pps \<le> 56" "buf 4 AND 0x1f = 7" "buf (8 + length sps) AND 0x1f = 8"
  shows "find_sps_pps buf 2 0 (None, None) = (Some (4, length sps), Some (8 + length sps, length pps))"
proof -
  let ?p = "4 + length sps"
  have p: "placed buf 0 (start4 @ sps @ start4)" "placed buf ?p (start4 @ pps @ start4)" using assms(1) by (simp_all add: placed_append)
  have g1: "get_sps_pps_nal_size (\<lambda>i. buf (0 + i)) 64 = Some (0, length sps, 4)"
    using get_set_found [of buf sps] p(1) assms(2, 4, 6) by simp
  have "placed (\<lambda>i. buf (?p + i)) 0 (start4 @ pps @ start4)"
    using p(2) by (simp add: placed_shift)
  moreover have "\<not> start_at (\<lambda>i. buf (?p + i)) (4 + i)" if "i < length pps" for i
    using assms(3) [OF that] by (simp add: start_at_def algebra_simps)
  ultimately have g2: "get_sps_pps_nal_size (\<lambda>i. buf (?p + i)) 64 = Some (0, length pps, 4)"
    using get_set_found [of "\<lambda>i. buf (?p + i)" pps] assms(5, 7) by (simp add: algebra_simps)
  show ?thesis using g1 g2 assms(4-7) by (simp add: numeral_2_eq_2 Let_def algebra_simps)
qed

end
