(* ===== verification/Mp4File.thy ===== *)
theory Mp4File
  imports Mp4Session Mp4Params
begin

text \<open>
  MP4 files of the recorder: the file of \<open>MuxFile\<close>, and the plain one, can be finished, so everything that is recorded into
  them is on the card.
\<close>

section \<open>The file of the recorder\<close>

definition mf_closed :: "mux_file \<Rightarrow> bool" where
  "mf_closed mf \<longleftrightarrow> mf_buf mf = []"

lemma fwrite_at_buf: "mf_buf (snd (fwrite_at disk off bs mf)) = mf_buf mf" "write_offset (snd (fwrite_at disk off bs mf)) = write_offset mf"
  by (simp_all add: fwrite_at_def case_prod_beta)

lemma write_at_loop_buf: "mf_buf mf = [] \<Longrightarrow> mf_buf (snd (mux_write_at_loop disk off src mf)) = []"
proof (induction "length src" arbitrary: off src mf rule: less_induct)
  case less
  show ?case
  proof (cases "src = []")
    case True
    then show ?thesis using less.prems by (simp add: mux_write_at_loop.simps)
  next
    case False
    define n where "n = (if off < write_offset mf \<and> off + length src > write_offset mf then write_offset mf - off else length src)"
    obtain r mf1 where 1: "fwrite_at disk off (take n src) mf = (r, mf1)" by fastforce
    then have b: "mf_buf mf1 = []" using fwrite_at_buf(1) [of disk off "take n src" mf] less.prems by simp
    have n: "0 < n" using False by (auto simp: n_def)
    have e: "mux_write_at_loop disk off src mf = (if r \<noteq> 0 then (- 1, mf1) else mux_write_at_loop disk (off + n) (drop n src) mf1)"
    proof -
      have "\<not> (write_offset mf \<le> off \<and> off < write_offset mf + length (mf_buf mf))" using less.prems by simp
      then show ?thesis using False 1 unfolding mux_write_at_loop.simps [of disk off src mf] Let_def n_def [symmetric] by (simp only: if_False split_conv)
    qed
    have "length (drop n src) < length src" using n False by simp
    from less.hyps [OF this b] show ?thesis using b by (simp add: e)
  qed
qed

lemma write_at_closed:
  assumes "mf_ok mf" "mf_closed mf"
  shows "mf_closed (snd (mux_file_write_at disk off bs mf))"
  using assms write_at_loop_buf [of mf disk off bs] fwrite_at_buf(1) [of disk off bs mf]
  by (simp add: mux_file_write_at_def mf_closed_def mux_file_flush_full_blocks_def MUXER_FILE_ALIGN_SIZE_def on_fp_def case_prod_beta)

lemma block_room:
  assumes "ALIGN dvd w" "ALIGN dvd room" "w + b \<le> room" "0 < b"
  shows "w + ALIGN \<le> room"
  using dvd_room [OF assms(1, 2)] assms(3, 4) by linarith

lemma mux_file_close_law:
  assumes ok: "mf_ok mf"
  shows "\<exists>mf'. mux_file_finish full_disk mf = (0, mf') \<and> mf_ok mf' \<and> mf_closed mf' \<and> logical_offset mf \<le> logical_offset mf'
    \<and> logical_offset mf' \<le> fsize (mf_fp mf') \<and> fsize (mf_fp mf') = fsize (mf_fp mf) \<and> (\<forall>i < logical_offset mf. mf_view mf' i = mf_view mf i)"
proof (cases "align_en mf \<and> mf_buf mf \<noteq> []")
  case True
  let ?n = "ALIGN - length (mf_buf mf)"
  have l: "length (mf_buf mf) < ALIGN" "logical_offset mf = write_offset mf + length (mf_buf mf)" "logical_offset mf \<le> fsize (mf_fp mf)"
      "ALIGN dvd write_offset mf" "ALIGN dvd fsize (mf_fp mf)"
    using ok True by (auto simp: mf_ok_def)
  have "write_offset mf + ALIGN \<le> fsize (mf_fp mf)"
    using block_room [OF l(4, 5)] l(2, 3) True by simp
  then have r: "logical_offset mf + length (replicate ?n (0::u8)) \<le> fsize (mf_fp mf)" using l by simp
  define mf1 where "mf1 = mf\<lparr>mf_buf := mf_buf mf @ replicate ?n 0, logical_offset := logical_offset mf + length (replicate ?n (0::u8))\<rparr>"
  obtain mf' where m: "(if length (mf_buf mf1) = ALIGN then mux_file_flush_block full_disk mf1 else (0, mf1)) = (0, mf')" "mf_ok mf'"
      "logical_offset mf' = logical_offset mf + ?n" "fsize (mf_fp mf') = fsize (mf_fp mf)"
      "mf_view mf' = overlay (mf_view mf) (logical_offset mf) (replicate ?n 0)" "mf_buf mf' = []"
    using append_block [OF ok _ _ r mf1_def] True l(1) by auto
  have "length (mf_buf mf1) = ALIGN" using l(1) by (simp add: mf1_def)
  then have "mux_file_finish full_disk mf = (0, mf')" using m(1) ok True by (simp add: mux_file_finish_def mf1_def Let_def)
  then show ?thesis using m l r by (auto simp: mf_closed_def overlay_outside)
next
  case False
  then have b: "mf_buf mf = []" using ok by (cases "align_en mf") (auto simp: mf_ok_def)
  have o: "logical_offset mf \<le> fsize (mf_fp mf)" using ok by (simp add: mf_ok_def)
  show ?thesis
  proof (cases "align_en mf")
    case True
    then show ?thesis using ok b o by (auto simp: mux_file_finish_def mf_closed_def)
  next
    case False
    then show ?thesis using seek_back [OF ok o] ok b o by (auto simp: mux_file_finish_def mf_closed_def on_fp_def)
  qed
qed

interpretation mux4: closing_file "mux_file_get_ops full_disk" mf_ok mf_view mf_fp mf_closed
proof (intro closing_file.intro mux.muxer_file_axioms closing_file_axioms.intro, goal_cases)
  case (1 s)
  then show ?case using mux_file_close_law [of s] by (simp add: mux_file_get_ops_def mux_file_tell_def)
next
  case (2 s off bs)
  then show ?case using write_at_closed [of s full_disk off bs] by (simp add: mux_file_get_ops_def)
next
  case (3 s)
  then show ?case by (simp add: mux_file_get_ops_def mux_file_flush_law)
next
  case (4 s)
  then show ?case by (simp add: mf_view_def mf_closed_def)
qed

section \<open>The plain file\<close>

definition ff_ok :: "ffile \<Rightarrow> bool" where
  "ff_ok f \<longleftrightarrow> fwritable f \<and> fpos f \<le> fsize f"

lemma default_write:
  assumes "ff_ok f" "fpos f + length bs \<le> fsize f"
  shows "mp4_default_ops_write full_disk bs f
    = (0, f\<lparr>fcontent := overlay (fcontent f) (fpos f) bs, fpos := fpos f + length bs, fcalls := fcalls f + 1\<rparr>)"
  using assms by (simp add: mp4_default_ops_write_def osal_fwrite_def full_disk_def Let_def)

interpretation plain4: closing_file "mp4_default_ops_init full_disk (\<lambda>_. True)" ff_ok fcontent "\<lambda>f. f" "\<lambda>_. True"
proof (intro closing_file.intro muxer_file.intro closing_file_axioms.intro, goal_cases)
  case (1 s bs)
  then show ?case using default_write [of s bs] by (simp add: mp4_default_ops_init_def mp4_default_ops_tell_def osal_ftell_def ff_ok_def)
next
  case (2 s n)
  then show ?case
    by (auto simp: mp4_default_ops_init_def mp4_default_ops_tell_def osal_ftell_def ff_ok_def mp4_default_ops_skip_def osal_fseek_def osal_fsize_def)
next
  case (3 s off bs)
  then have w: "ff_ok (osal_fseek off s)" "fpos (osal_fseek off s) + length bs \<le> fsize (osal_fseek off s)" by (auto simp: ff_ok_def osal_fseek_def)
  show ?case using default_write [OF w] 3
    by (simp add: mp4_default_ops_init_def mp4_default_ops_tell_def osal_ftell_def ff_ok_def mp4_default_ops_write_at_def osal_fseek_def Let_def)
qed (auto simp: mp4_default_ops_init_def mp4_default_ops_tell_def osal_ftell_def ff_ok_def mp4_default_ops_finish_def mp4_default_ops_flush_def)

section \<open>A recording\<close>

definition mp4_opened :: "ffile \<Rightarrow> nat \<Rightarrow> bool \<Rightarrow> bool \<Rightarrow> u8 list \<Rightarrow> nat \<Rightarrow> nat \<Rightarrow> mux_file mp4" where
  "mp4_opened fp filesize align aud asps w h = mp4_video_cfg_init w h (mp4_set_max_size filesize (mp4_audio_cfg_init asps
     (MP4_open_init_with_file (mux_file_get_ops full_disk) (mux_file_open fp filesize align) aud)))"

lemma mp4_opened_key:
  "mp4_audio_enable (mkey (mp4_opened fp n align aud asps w h)) = aud" "asps_data (mkey (mp4_opened fp n align aud asps w h)) = asps"
  "mp4_init (mkey (mp4_opened fp n align aud asps w h)) = False" "m4_file (mp4_opened fp n align aud asps w h) = mux_file_open fp n align"
  "file_max_size (mkey (mp4_opened fp n align aud asps w h)) = (if n = 0 then 0 else muxer_file_align_up n)"
  by (simp_all add: mp4_opened_def mp4_video_cfg_init_def mp4_set_max_size_def mp4_audio_cfg_init_def MP4_open_init_with_file_def on_key_def empty_key_def)

text \<open>
  A file of a reserved size, parameter sets of a usual length, and frames and audio that fit: nothing fails, and in the end
  the card holds the begin of the file, every sample at its place, and the tables and durations that describe them.
\<close>

theorem mp4_session:
  assumes fp: "fwritable fp" "filesize \<noteq> 0" "filesize < 2 ^ 32 - ALIGN"
    and par: "find_sps_pps buf 2 0 (None, None) = (Some sps, Some pps)" "snd sps + snd pps \<le> 249" "length asps \<le> 69"
    and k: "k = init_key (set_params buf sps pps (mkey (mp4_opened fp filesize True aud asps w h)))"
    and room: "data_begin k < muxer_file_align_up filesize" and fits: "recs_fit aud (muxer_file_align_up filesize) rs (begin_state k)"
  shows "\<exists>m1 m2 m3. write_h264_pps_sps (mux_file_get_ops full_disk) on_fp buf (mp4_opened fp filesize True aud asps w h) = (0, m1)
    \<and> rec_run (mux_file_get_ops full_disk) rs m1 = (0, m2) \<and> mp4_deinit (mux_file_get_ops full_disk) m2 = (0, m3)
    \<and> mp4_card k (lay_file k) (fcontent (mf_fp (m4_file m3))) (fold rec_spec rs (begin_state k))"
proof -
  let ?m = "mp4_opened fp filesize True aud asps w h" and ?ops = "mux_file_get_ops full_disk"
  let ?room = "fsize (mf_fp (m4_file ?m))"
  note o = mux_open_ok [OF fp, of True]
  note ok = mp4_opened_key [of fp filesize True aud asps w h]
  have r: "?room = muxer_file_align_up filesize" using o(3) ok(4) by simp
  have lim: "?room < 2 ^ 32"
  proof -
    have "muxer_file_align_up filesize \<le> filesize + MUXER_FILE_ALIGN_SIZE - 1"
      unfolding muxer_file_align_up_def by (rule order_trans [OF div_times_less_eq_dividend mod_less_eq_dividend])
    then show ?thesis using fp(2, 3) r by (simp add: MUXER_FILE_ALIGN_SIZE_def)
  qed
  have kk: "mp4_audio_enable k = aud" "file_max_size k = file_max_size (mkey ?m)" "data_begin (mkey ?m) = data_begin k" "begin_state (mkey ?m) = begin_state k"
    using ok(1) by (simp_all add: k init_key_def note_mdat_def reset_key_def set_params_def data_begin_def begin_state_def)
  have fit: "mp4_fits (set_params buf sps pps (mkey ?m))" using par ok(2) by (simp add: mp4_fits_def set_params_def)
  have fl: "on_fp g (m4_file ?m) = m4_file ?m" if "g (mf_fp (m4_file ?m)) = mf_fp (m4_file ?m)" for g
    using that by (simp add: on_fp_def)
  have s: "mf_ok (m4_file ?m)" "op_tell ?ops (m4_file ?m) = 0" using o(1, 2) ok(4) by (simp_all add: mux_file_get_ops_def mux_file_tell_def)
  have F: "file_max_size (mkey ?m) = 0 \<or> file_max_size (mkey ?m) = ?room" using ok(5) r fp(2) by simp
  have rm: "data_begin (mkey ?m) < ?room" "\<not> mp4_init (mkey ?m)" using room r kk(3) ok(3) by simp_all
  from mux.pps_sps_law [where m = ?m and onfp = on_fp, OF s lim fl par(1) fit F rm] obtain m1 where 1: "write_h264_pps_sps ?ops on_fp buf ?m = (0, m1)"
      "mux.recording ?room (file_max_size k) (lay_file k) aud (begin_state k) m1"
    unfolding kk(4) ok(1) k [symmetric] kk(2) [symmetric] by blast
  obtain m2 where 2: "rec_run ?ops rs m1 = (0, m2)" "mux.recording ?room (file_max_size k) (lay_file k) aud (fold rec_spec rs (begin_state k)) m2"
    using mux.recording_run [OF 1(2)] fits r by auto
  obtain e SV SA where st: "fold rec_spec rs (begin_state k) = (e, SV, SA)" by (cases "fold rec_spec rs (begin_state k)") auto
  obtain m3 where "mp4_deinit ?ops m2 = (0, m3)" "mp4_card k (lay_file k) (fcontent (mf_fp (m4_file m3))) (e, SV, SA)"
    using mux4.deinit_law [OF 2(2) [unfolded st] kk(1) refl] by blast
  then show ?thesis using 1(1) 2(1) st by auto
qed

lemma changes_le: "changes ds \<le> length ds"
  by (induction ds rule: changes.induct) auto

lemma track_room_few: "length S < 0x2000 \<Longrightarrow> track_room vid S"
  using changes_le [of "durs S"] length_keys [of S] by (auto simp: track_room_def STTS_COUNT_def STSZ_COUNT_def STSS_COUNT_def)

theorem mp4_session_witness:
  "\<exists>fp buf k m1 m2 m3. write_h264_pps_sps (mux_file_get_ops full_disk) on_fp buf (mp4_opened fp 3000000 True True [0x15, 0x88] 640 480) = (0, m1)
    \<and> rec_run (mux_file_get_ops full_disk) [RVideo (\<lambda>_. 0x65) 6 40, RAudio [1, 2, 3] 128, RSync 0] m1 = (0, m2)
    \<and> mp4_deinit (mux_file_get_ops full_disk) m2 = (0, m3)
    \<and> mp4_card k (lay_file k) (fcontent (mf_fp (m4_file m3)))
        (2523145, [(2523136, [0, 0, 0, 2, 0x65, 0x65], 40, True)], [(2523142, [1, 2, 3], 128, False)])"
proof -
  let ?fp = "\<lparr>fcontent = \<lambda>_. 0, fsize = 0, fpos = 0, fwritable = True, fcalls = 0\<rparr>"
  let ?l = "start4 @ [0x67, 1] @ start4 @ [0x68, 2] @ start4"
  let ?buf = "\<lambda>i. if i < length ?l then ?l ! i else 0"
  let ?rs = "[RVideo (\<lambda>_. 0x65) 6 40, RAudio [1, 2, 3] 128, RSync 0]"
  have p: "placed ?buf 0 ?l" by (simp add: placed_def bytes_at_def start4_def upt_rec)
  have ns: "\<not> start_at ?buf (4 + i)" "\<not> start_at ?buf (8 + length [0x67 :: u8, 1] + i)" if "i < 2" for i
    using that by (cases i; simp add: start_at_def start4_def)+
  have f: "find_sps_pps ?buf 2 0 (None, None) = (Some (4, 2), Some (10, 2))"
    using find_sps_pps_found [OF p] ns by (simp add: start4_def)
  define k where "k = init_key (set_params ?buf (4, 2) (10, 2) (mkey (mp4_opened ?fp 3000000 True True [0x15, 0x88] 640 480)))"
  have kd: "data_begin k = 2523136"
    by (simp add: k_def data_begin_def init_key_def note_mdat_def reset_key_def set_params_def mp4_opened_key)
  have b: "begin_state k = (2523136, [], [])" using kd by (simp add: begin_state_def)
  have sz: "muxer_file_align_up 3000000 = 3014656" by (simp add: muxer_file_align_up_def MUXER_FILE_ALIGN_SIZE_def)
  have n: "nal_sample 2523136 (\<lambda>_. 0x65) 6 40 = (2523136, [0, 0, 0, 2, 0x65, 0x65], 40, True)"
    by (simp add: nal_sample_def be32_def enc_be32_def enc_be16_def bytes_at_def upt_rec)
  have fits: "recs_fit True 3014656 ?rs (begin_state k)"
    by (simp add: b n rec_fits_def rooms_def track_room_few)
  have res: "fold rec_spec ?rs (begin_state k) = (2523145, [(2523136, [0, 0, 0, 2, 0x65, 0x65], 40, True)], [(2523142, [1, 2, 3], 128, False)])"
    by (simp add: b n)
  have a: "(3000000::nat) < 2 ^ 32 - ALIGN" by (simp add: MUXER_FILE_ALIGN_SIZE_def)
  have r: "data_begin k < muxer_file_align_up 3000000" "recs_fit True (muxer_file_align_up 3000000) ?rs (begin_state k)"
    using fits kd by (simp_all only: sz)
  have "fwritable ?fp" "(3000000::nat) \<noteq> 0" "snd (4::nat, 2::nat) + snd (10::nat, 2::nat) \<le> 249" "length [0x15::u8, 0x88] \<le> 69" by simp_all
  from mp4_session [OF this(1, 2) a f this(3, 4) k_def r] show ?thesis unfolding res by blast
qed

end
