(* ===== verification/Mp4Demux.thy ===== *)
theory Mp4Demux
  imports OsalFile
begin

unbundle bit_operations_syntax

text \<open>
  The MP4 reader of the player, \<open>sdk/lib/video/miniMP4/mp4_demux_msi.c\<close>, with the ADTS header of \<open>adts.c\<close>: the boxes of a file
  are read into tables, and the tables answer where a frame lies, when it is due and whether it is a key frame.

  Entries of a table are kept decoded. \<open>junk\<close> is what memory holds that nothing was read into: the rest of a structure when the
  file ends in it, and what lies behind a buffer. Sizes are of 32 bits, and signed where the code has \<open>int32_t\<close>. \<open>ret\<close> is only
  ever compared with 0, so it is a truth value here, True for a failure. \<open>None\<close> is a third track, of which there is no room for,
  a division by zero, or fuel that is used up: \<open>box_read\<close> takes some for each box, and a file can keep it busy for good.
\<close>

section \<open>Tables\<close>

type_synonym i32 = "32 word"

record main_box =
  b_stts_count :: nat
  b_stts :: "(nat \<times> nat) list option"
  b_stsc_count :: nat
  b_stsc :: "(nat \<times> nat \<times> nat) list option"
  b_stsz_count :: nat
  b_stsz :: "nat list option"
  b_stsz_time :: "nat list option"
  b_stco_count :: nat
  b_stco :: "nat list option"
  b_stss_count :: nat
  b_stss :: "nat list option"
  b_pps :: "u8 list option"
  b_pps_len :: nat
  b_sps :: "u8 list option"
  b_sps_len :: nat
  key_frame_bitmap :: "u32 list option"
  key_frame_bitmap_count :: nat
  b_timescale :: nat
  b_duration :: nat

record demux_trak =
  t_type :: nat
  t_init :: bool
  t_box :: main_box

record mp4_demux =
  d_fp :: ffile
  trak_t :: "demux_trak list"
  trak_index :: nat
  aac_dsi :: "u8 \<times> u8"
  d_w :: nat
  d_h :: nat
  audio_samplerate :: nat

definition empty_box :: main_box where
  "empty_box = \<lparr>b_stts_count = 0, b_stts = None, b_stsc_count = 0, b_stsc = None, b_stsz_count = 0, b_stsz = None, b_stsz_time = None,
     b_stco_count = 0, b_stco = None, b_stss_count = 0, b_stss = None, b_pps = None, b_pps_len = 0, b_sps = None, b_sps_len = 0,
     key_frame_bitmap = None, key_frame_bitmap_count = 0, b_timescale = 0, b_duration = 0\<rparr>"

definition empty_dtrak :: demux_trak where
  "empty_dtrak = \<lparr>t_type = 0, t_init = False, t_box = empty_box\<rparr>"

definition new_demux :: "ffile \<Rightarrow> mp4_demux" where
  "new_demux f = \<lparr>d_fp = f, trak_t = [empty_dtrak, empty_dtrak], trak_index = 0, aac_dsi = (0, 0), d_w = 0, d_h = 0, audio_samplerate = 0\<rparr>"

definition cur_trak :: "mp4_demux \<Rightarrow> demux_trak" where
  "cur_trak d = trak_t d ! trak_index d"

definition on_cur :: "(demux_trak \<Rightarrow> demux_trak) \<Rightarrow> mp4_demux \<Rightarrow> mp4_demux" where
  "on_cur g d = d\<lparr>trak_t := (trak_t d)[trak_index d := g (cur_trak d)]\<rparr>"

definition on_box :: "(main_box \<Rightarrow> main_box) \<Rightarrow> mp4_demux \<Rightarrow> mp4_demux" where
  "on_box g d = on_cur (t_box_update g) d"

definition big4 :: "u8 list \<Rightarrow> nat \<Rightarrow> nat" where
  "big4 bs i = ((unat (bs ! i) * 256 + unat (bs ! (i + 1))) * 256 + unat (bs ! (i + 2))) * 256 + unat (bs ! (i + 3))"

text \<open>A read of a structure: whether nothing was read, and the bytes of the structure.\<close>

definition fread_n :: "(nat \<Rightarrow> u8) \<Rightarrow> nat \<Rightarrow> mp4_demux \<Rightarrow> bool \<times> u8 list \<times> mp4_demux" where
  "fread_n junk n d = (let (bs, f) = osal_fread n (d_fp d) in (bs = [], bs @ map junk [length bs..<n], d\<lparr>d_fp := f\<rparr>))"

definition words_at :: "u8 list \<Rightarrow> nat \<Rightarrow> nat list" where
  "words_at bs n = map (\<lambda>i. big4 bs (4 * i)) [0..<n]"

section \<open>The boxes with a table\<close>

text \<open>Head and number of entries; then the entries, of \<open>k\<close> words each, unless there are some already.\<close>

definition read_head :: "(nat \<Rightarrow> u8) \<Rightarrow> mp4_demux \<Rightarrow> bool \<times> nat \<times> mp4_demux" where
  "read_head junk d =
     (let (e, bs, d) = fread_n junk 4 d
      in if e then (True, 0, d)
         else let (e, bs, d) = fread_n junk 4 d in (e, big4 bs 0, d))"

definition read_entries :: "(nat \<Rightarrow> u8) \<Rightarrow> nat \<Rightarrow> mp4_demux \<Rightarrow> bool \<times> nat list \<times> mp4_demux" where
  "read_entries junk n d = (let (e, bs, d) = fread_n junk (4 * n) d in (e, words_at bs n, d))"

text \<open>The times at which samples end, in milliseconds, without loss from rounding.\<close>

fun sample_times :: "nat \<Rightarrow> nat list \<Rightarrow> nat \<Rightarrow> nat \<Rightarrow> nat list" where
  "sample_times timescale [] time remain_mod = []"
| "sample_times timescale (delta # deltas) time remain_mod =
     (let v = (delta * 1000 + remain_mod) mod 2 ^ 32; time = (time + v div timescale) mod 2 ^ 32
      in time # sample_times timescale deltas time (v mod timescale))"

fun pairs :: "nat list \<Rightarrow> (nat \<times> nat) list" where
  "pairs (a # b # xs) = (a, b) # pairs xs"
| "pairs xs = []"

fun triples :: "nat list \<Rightarrow> (nat \<times> nat \<times> nat) list" where
  "triples (a # b # c # xs) = (a, b, c) # triples xs"
| "triples xs = []"

definition stts_sample_parse :: "(nat \<Rightarrow> u8) \<Rightarrow> mp4_demux \<Rightarrow> (bool \<times> mp4_demux) option" where
  "stts_sample_parse junk d =
     (let (e, entry_count, d) = read_head junk d
      in if e then Some (True, d)
         else
           let d = on_box (b_stts_count_update (\<lambda>_. entry_count)) d
           in if b_stts (t_box (cur_trak d)) \<noteq> None then Some (False, d)
              else
                let (e, ws, d) = read_entries junk (2 * entry_count) d;
                    d = on_box (b_stts_update (\<lambda>_. Some (pairs ws))) d
                in if e then Some (True, d)
                   else
                     let deltas = concat (map (\<lambda>(n, delta). replicate n delta) (pairs ws)); timescale = b_timescale (t_box (cur_trak d))
                     in if deltas \<noteq> [] \<and> timescale = 0 then None
                        else Some (False, on_box (b_stsz_time_update (\<lambda>_. Some (sample_times timescale deltas 0 0))) d))"

definition stsc_sample_parse :: "(nat \<Rightarrow> u8) \<Rightarrow> mp4_demux \<Rightarrow> bool \<times> mp4_demux" where
  "stsc_sample_parse junk d =
     (let (e, entry_count, d) = read_head junk d
      in if e then (True, d)
         else
           let d = on_box (b_stsc_count_update (\<lambda>_. entry_count)) d
           in if b_stsc (t_box (cur_trak d)) \<noteq> None then (False, d)
              else let (e, ws, d) = read_entries junk (3 * entry_count) d
                   in (e, on_box (b_stsc_update (\<lambda>_. Some (triples ws))) d))"

definition stsz_sample_parse :: "(nat \<Rightarrow> u8) \<Rightarrow> mp4_demux \<Rightarrow> bool \<times> mp4_demux" where
  "stsz_sample_parse junk d =
     (let (e, sample_size, d) = read_head junk d
      in if e then (True, d)
         else if sample_size \<noteq> 0 then (False, d)
         else
           let (e, bs, d) = fread_n junk 4 d; sample_count = big4 bs 0
           in if e then (True, d)
              else
                let d = on_box (b_stsz_count_update (\<lambda>_. sample_count)) d
                in if b_stsz (t_box (cur_trak d)) \<noteq> None then (False, d)
                   else let (e, ws, d) = read_entries junk sample_count d
                        in (e, on_box (b_stsz_update (\<lambda>_. Some ws)) d))"

definition stco_sample_parse :: "(nat \<Rightarrow> u8) \<Rightarrow> mp4_demux \<Rightarrow> bool \<times> mp4_demux" where
  "stco_sample_parse junk d =
     (let (e, entry_count, d) = read_head junk d
      in if e then (True, d)
         else
           let d = on_box (b_stco_count_update (\<lambda>_. entry_count)) d
           in if b_stco (t_box (cur_trak d)) \<noteq> None then (False, d)
              else let (e, ws, d) = read_entries junk entry_count d
                   in (e, on_box (b_stco_update (\<lambda>_. Some ws)) d))"

definition stss_sample_parse :: "(nat \<Rightarrow> u8) \<Rightarrow> mp4_demux \<Rightarrow> bool \<times> mp4_demux" where
  "stss_sample_parse junk d =
     (let (e, entry_count, d) = read_head junk d
      in if e then (True, d)
         else
           let d = on_box (b_stss_count_update (\<lambda>_. entry_count)) d
           in if b_stss (t_box (cur_trak d)) \<noteq> None then (False, d)
              else let (e, ws, d) = read_entries junk entry_count d
                   in (e, on_box (b_stss_update (\<lambda>_. Some ws)) d))"

definition hdlr_parse :: "(nat \<Rightarrow> u8) \<Rightarrow> mp4_demux \<Rightarrow> bool \<times> mp4_demux" where
  "hdlr_parse junk d =
     (let (e, bs, d) = fread_n junk 24 d; handler_type = take 4 (drop 8 bs)
      in (False, if handler_type = str_bytes ''vide'' then on_cur (t_type_update (\<lambda>_. 1)) d
                 else if handler_type = str_bytes ''soun'' then on_cur (t_type_update (\<lambda>_. 2)) d else d))"

definition mdhd_parse :: "(nat \<Rightarrow> u8) \<Rightarrow> mp4_demux \<Rightarrow> bool \<times> mp4_demux" where
  "mdhd_parse junk d =
     (let (e, bs, d) = fread_n junk 24 d
      in if e then (True, d) else (False, on_box (\<lambda>b. b\<lparr>b_timescale := big4 bs 12, b_duration := big4 bs 16\<rparr>) d))"

text \<open>The parameter sets, until one of each is found. A length of which nothing can be read is an error.\<close>

fun avcc_loop :: "nat \<Rightarrow> (nat \<Rightarrow> u8) \<Rightarrow> bool \<Rightarrow> bool \<Rightarrow> mp4_demux \<Rightarrow> (bool \<times> mp4_demux) option" where
  "avcc_loop 0 junk pps sps d = None"
| "avcc_loop (Suc n) junk pps sps d =
     (if pps \<and> sps then Some (False, d)
      else
        let (e, hd, d) = fread_n junk 3 d; len = unat (hd ! 1) * 256 + unat (hd ! 2)
        in if e then Some (True, d)
           else if hd ! 0 = 0xE1 then
             let (e, bs, d) = fread_n junk len d; d = on_box (b_sps_update (\<lambda>_. Some bs)) d
             in if e then Some (True, d) else avcc_loop n junk pps True (on_box (b_sps_len_update (\<lambda>_. len)) d)
           else if hd ! 0 = 0x01 then
             let (e, bs, d) = fread_n junk len d; d = on_box (b_pps_update (\<lambda>_. Some bs)) d
             in if e then Some (True, d) else avcc_loop n junk True sps (on_box (b_pps_len_update (\<lambda>_. len)) d)
           else avcc_loop n junk pps sps d)"

definition avcc_sample_parse :: "nat \<Rightarrow> (nat \<Rightarrow> u8) \<Rightarrow> mp4_demux \<Rightarrow> (bool \<times> mp4_demux) option" where
  "avcc_sample_parse n junk d = (let (e, bs, d) = fread_n junk 5 d in if e then Some (True, d) else avcc_loop n junk False False d)"

section \<open>The configuration of the sound\<close>

text \<open>The length of a descriptor: up to four bytes of seven bits. The value, the place behind, and whether it ended.\<close>

fun tag_len :: "nat \<Rightarrow> (nat \<Rightarrow> u8) \<Rightarrow> nat \<Rightarrow> nat \<Rightarrow> nat \<times> nat \<times> bool" where
  "tag_len 0 data p sz = (sz, p, False)"
| "tag_len (Suc k) data p sz =
     (let calc = data p; sz = sz * 128 mod 2 ^ 32 + unat (calc AND 0x7f)
      in if calc AND 0x80 = 0 then (sz, p + 1, True) else tag_len k data (p + 1) sz)"

definition get_tag :: "(nat \<Rightarrow> u8) \<Rightarrow> nat \<Rightarrow> nat \<Rightarrow> u8 \<times> nat \<times> nat" where
  "get_tag data p max_size =
     (let (sz, q, _) = tag_len 4 data (p + 1) 0
      in (data p, if (max_size + (2 ^ 32 - 5)) mod 2 ^ 32 \<ge> sz then sz else 0, q - p))"

lemma tag_len_pos: "p \<le> fst (snd (tag_len k data p sz))"
  by (induction k arbitrary: p sz) (auto simp: Let_def, meson le_trans le_Suc_eq le_refl Suc_leD)

lemma get_tag_head: "0 < snd (snd (get_tag data p max_size))"
  using tag_len_pos [of "p + 1" 4 data 0] by (simp add: get_tag_def case_prod_beta)

text \<open>The place of the value of a descriptor, and its length.\<close>

function get_tag_value :: "u8 \<Rightarrow> (nat \<Rightarrow> u8) \<Rightarrow> nat \<Rightarrow> nat \<Rightarrow> nat \<Rightarrow> (nat \<times> nat) option" where
  "get_tag_value tag_v data p max_size i =
     (if \<not> i < max_size then None
      else case get_tag data (p + i) max_size of (tag, tag_size, head_size) \<Rightarrow>
        if tag_size = 0 then None
        else if tag = tag_v then Some (p + i + head_size, tag_size)
        else get_tag_value tag_v data p max_size (i + (head_size + tag_size)))"
  by pat_completeness auto
termination by (relation "measure (\<lambda>(tag_v, data, p, max_size, i). max_size - i)") auto

declare get_tag_value.simps [simp del]

definition get_tag_5 :: "(nat \<Rightarrow> u8) \<Rightarrow> nat \<Rightarrow> nat \<Rightarrow> (nat \<times> nat) option" where
  "get_tag_5 data p max_size = get_tag_value 5 data p max_size 0"

definition get_tag_4 :: "(nat \<Rightarrow> u8) \<Rightarrow> nat \<Rightarrow> nat \<Rightarrow> (nat \<times> nat) option" where
  "get_tag_4 data p max_size = get_tag_value 4 data p max_size 0"

definition samplerate_of :: "u8 \<times> u8 \<Rightarrow> nat" where
  "samplerate_of dsi = (let i = push_bit 1 (fst dsi AND 7) OR drop_bit 7 (snd dsi) in if i = 8 then 16000 else 8000)"

definition esds_dsi :: "(nat \<Rightarrow> u8) \<Rightarrow> (u8 \<times> u8) option" where
  "esds_dsi data =
     (if data 4 \<noteq> 3 then None
      else case tag_len 4 data 5 0 of (es_size, p, found) \<Rightarrow>
        if \<not> found then None
        else case get_tag_4 data (p + 3) es_size of None \<Rightarrow> None
          | Some (q, sz) \<Rightarrow>
              case get_tag_5 data (if sz > 13 then q + 13 else q) ((sz + (2 ^ 32 - 13)) mod 2 ^ 32) of None \<Rightarrow> None
              | Some (r, n) \<Rightarrow> if n \<ge> 2 then Some (data r, data (r + 1)) else None)"

definition esds_parse :: "(nat \<Rightarrow> u8) \<Rightarrow> nat \<Rightarrow> mp4_demux \<Rightarrow> bool \<times> mp4_demux" where
  "esds_parse junk max_size d =
     (let n = (max_size + (2 ^ 32 - 8)) mod 2 ^ 32; (e, bs, d) = fread_n junk n d; data = (\<lambda>i. if i < n then bs ! i else junk i)
      in (False, case esds_dsi data of None \<Rightarrow> d | Some dsi \<Rightarrow> d\<lparr>aac_dsi := dsi, audio_samplerate := samplerate_of dsi\<rparr>))"

section \<open>The boxes of the file\<close>

text \<open>The key frames of a video track as bits.\<close>

definition set_key :: "nat \<Rightarrow> u32 list \<Rightarrow> u32 list" where
  "set_key n bm = (if n < length bm * 32 then bm[n div 32 := (bm ! (n div 32)) OR push_bit (n mod 32) 1] else bm)"

definition make_bitmap :: "main_box \<Rightarrow> main_box \<times> bool" where
  "make_bitmap b =
     (let key_frame_count = (b_stsz_count b + 31) mod 2 ^ 32 div 32
      in if key_frame_count = 0 then (b, True)
         else (b\<lparr>key_frame_bitmap_count := key_frame_count,
                  key_frame_bitmap := Some (fold (\<lambda>s. set_key ((s + (2 ^ 32 - 1)) mod 2 ^ 32)) (case b_stss b of None \<Rightarrow> [] | Some ss \<Rightarrow> ss)
                    (replicate key_frame_count 0))\<rparr>, False))"

definition trak_done :: "bool \<times> mp4_demux \<Rightarrow> bool \<times> mp4_demux" where
  "trak_done ed =
     (let (e, d) = ed
      in if \<not> e \<and> t_type (cur_trak d) = 1 then
           let (b, e) = make_bitmap (t_box (cur_trak d)) in (e, on_box (\<lambda>_. b) d)
         else (e, d))"

text \<open>One box: the function of its name is applied to what lies behind its head.\<close>

definition demux_seek :: "nat \<Rightarrow> mp4_demux \<Rightarrow> mp4_demux" where
  "demux_seek off d = d\<lparr>d_fp := osal_fseek off (d_fp d)\<rparr>"

text \<open>
  The functions of the boxes that hold boxes; \<open>rd\<close> is \<open>box_read\<close>. The sizes they pass on leave out their heads, and that of
  \<open>stsd\<close> eight bytes more.
\<close>

definition general_parse :: "(i32 \<Rightarrow> mp4_demux \<Rightarrow> (bool \<times> mp4_demux) option) \<Rightarrow> i32 \<Rightarrow> mp4_demux \<Rightarrow> (bool \<times> mp4_demux) option" where
  "general_parse rd max_size d = rd (max_size - 8) d"

definition trak_parse :: "(i32 \<Rightarrow> mp4_demux \<Rightarrow> (bool \<times> mp4_demux) option) \<Rightarrow> i32 \<Rightarrow> mp4_demux \<Rightarrow> (bool \<times> mp4_demux) option" where
  "trak_parse rd max_size d = map_option trak_done (rd (max_size - 8) d)"

definition stsd_parse :: "(nat \<Rightarrow> u8) \<Rightarrow> (i32 \<Rightarrow> mp4_demux \<Rightarrow> (bool \<times> mp4_demux) option) \<Rightarrow> i32 \<Rightarrow> mp4_demux \<Rightarrow> (bool \<times> mp4_demux) option" where
  "stsd_parse junk rd max_size d =
     (let (e, entry_count, d) = read_head junk d in if e then Some (True, d) else general_parse rd (max_size - 16) d)"

definition avc1_parse :: "(nat \<Rightarrow> u8) \<Rightarrow> (i32 \<Rightarrow> mp4_demux \<Rightarrow> (bool \<times> mp4_demux) option) \<Rightarrow> i32 \<Rightarrow> mp4_demux \<Rightarrow> (bool \<times> mp4_demux) option" where
  "avc1_parse junk rd max_size d =
     (let (e, bs, d) = fread_n junk 78 d; w = unat (bs ! 24) * 256 + unat (bs ! 25); h = unat (bs ! 26) * 256 + unat (bs ! 27)
      in if e then Some (True, d\<lparr>d_h := h\<rparr>)
         else map_option (\<lambda>(e, d). (e, (if e then d else d\<lparr>d_w := w\<rparr>)\<lparr>d_h := h\<rparr>)) (rd (max_size - 86) d))"

definition mp4a_parse :: "(nat \<Rightarrow> u8) \<Rightarrow> (i32 \<Rightarrow> mp4_demux \<Rightarrow> (bool \<times> mp4_demux) option) \<Rightarrow> i32 \<Rightarrow> mp4_demux \<Rightarrow> (bool \<times> mp4_demux) option" where
  "mp4a_parse junk rd max_size d =
     (let (e, bs, d) = fread_n junk 28 d
      in if e then Some (True, d) else if max_size - 36 = 0 then Some (False, d) else rd (max_size - 36) d)"

text \<open>The table \<open>MP4_func\<close> and \<open>get_func\<close>. A name that is not in the table, and \<open>mdat\<close>, are stepped over.\<close>

definition MP4_func :: "nat \<Rightarrow> (nat \<Rightarrow> u8) \<Rightarrow> (i32 \<Rightarrow> mp4_demux \<Rightarrow> (bool \<times> mp4_demux) option) \<Rightarrow> i32
    \<Rightarrow> (string \<times> (mp4_demux \<Rightarrow> (bool \<times> mp4_demux) option)) list" where
  "MP4_func n junk rd max_size =
     [(''moov'', general_parse rd max_size), (''trak'', trak_parse rd max_size), (''mdia'', general_parse rd max_size),
      (''minf'', general_parse rd max_size), (''stbl'', general_parse rd max_size), (''stts'', stts_sample_parse junk),
      (''stsc'', \<lambda>d. Some (stsc_sample_parse junk d)), (''stsz'', \<lambda>d. Some (stsz_sample_parse junk d)),
      (''stco'', \<lambda>d. Some (stco_sample_parse junk d)), (''stss'', \<lambda>d. Some (stss_sample_parse junk d)),
      (''mdat'', \<lambda>d. Some (False, d)), (''stsd'', stsd_parse junk rd max_size), (''avc1'', avc1_parse junk rd max_size),
      (''avcC'', avcc_sample_parse n junk), (''mp4a'', mp4a_parse junk rd max_size), (''hdlr'', \<lambda>d. Some (hdlr_parse junk d)),
      (''esds'', \<lambda>d. Some (esds_parse junk (unat max_size) d)), (''mdhd'', \<lambda>d. Some (mdhd_parse junk d))]"

fun get_func :: "u8 list \<Rightarrow> (string \<times> (mp4_demux \<Rightarrow> (bool \<times> mp4_demux) option)) list \<Rightarrow> mp4_demux \<Rightarrow> (bool \<times> mp4_demux) option" where
  "get_func name [] = (\<lambda>d. Some (False, d))"
| "get_func name ((n, f) # tab) = (if str_bytes n = name then f else get_func name tab)"

text \<open>What is noted of a track before its box is read.\<close>

definition enter_trak :: "bool \<Rightarrow> u8 list \<Rightarrow> mp4_demux \<Rightarrow> mp4_demux" where
  "enter_trak get_trak name d =
     (if name = str_bytes ''trak'' then on_cur (t_init_update (\<lambda>_. True)) (if get_trak then d\<lparr>trak_index := trak_index d + 1\<rparr> else d) else d)"

fun box_read :: "nat \<Rightarrow> (nat \<Rightarrow> u8) \<Rightarrow> bool \<Rightarrow> i32 \<Rightarrow> mp4_demux \<Rightarrow> (bool \<times> mp4_demux) option" where
  "box_read 0 junk get_trak read_size d = None"
| "box_read (Suc n) junk get_trak read_size d =
     (if \<not> 8 < sint read_size then Some (False, d)
      else
        let (e, bs, d) = fread_n junk 4 d; box_len = word_of_nat (big4 bs 0)
        in if e then Some (True, d)
           else
             let (e, box_name, d) = fread_n junk 4 d; cur_offset = osal_ftell (d_fp d); d' = enter_trak get_trak box_name d
             in if e then Some (True, d)
                else if \<not> trak_index d' < length (trak_t d') then None
                else
                  case get_func box_name (MP4_func n junk (\<lambda>sz d. box_read n junk False sz d) box_len) d' of None \<Rightarrow> None
                  | Some (e, d) \<Rightarrow>
                      if e then Some (True, d)
                      else box_read n junk (get_trak \<or> box_name = str_bytes ''trak'') (read_size - box_len)
                             (demux_seek (unat (word_of_nat cur_offset + box_len - 8 :: u32)) d))"

declare box_read.simps(2) [simp del]

section \<open>Samples in chunks\<close>

text \<open>When there are fewer chunks than samples the offset of every sample is worked out from those of the chunks.\<close>

fun chunk_loop :: "nat \<Rightarrow> nat \<Rightarrow> nat \<Rightarrow> nat list \<Rightarrow> nat list \<Rightarrow> nat list option" where
  "chunk_loop 0 frame_num base sizes ex = Some ex"
| "chunk_loop (Suc k) frame_num base sizes ex =
     (if frame_num < length ex \<and> frame_num < length sizes
      then chunk_loop k (frame_num + 1) ((base + sizes ! frame_num) mod 2 ^ 32) sizes (ex[frame_num := base]) else None)"

definition build_chunk :: "nat list \<Rightarrow> nat list \<Rightarrow> nat list \<Rightarrow> nat \<Rightarrow> nat \<Rightarrow> nat \<Rightarrow> nat list option" where
  "build_chunk chunks sizes ex frame_num stco_offset sample_per_chunk =
     (if stco_offset > length chunks then Some ex
      else if stco_offset = length chunks then None
      else chunk_loop sample_per_chunk frame_num (chunks ! stco_offset) sizes ex)"

text \<open>The state is the new table, the sample and the chunk.\<close>

fun chunk_run :: "nat \<Rightarrow> nat list \<Rightarrow> nat list \<Rightarrow> nat \<Rightarrow> nat list \<times> nat \<times> nat \<Rightarrow> (nat list \<times> nat \<times> nat) option" where
  "chunk_run 0 chunks sizes spc st = Some st"
| "chunk_run (Suc k) chunks sizes spc (ex, frame_num, stco_offset) =
     (case build_chunk chunks sizes ex frame_num stco_offset spc of None \<Rightarrow> None
      | Some ex \<Rightarrow> chunk_run k chunks sizes spc (ex, frame_num + spc, stco_offset + 1))"

fun rebuild_loop :: "(nat \<times> nat \<times> nat) list \<Rightarrow> nat list \<Rightarrow> nat list \<Rightarrow> nat list \<times> nat \<times> nat \<Rightarrow> (nat list \<times> nat \<times> nat) option" where
  "rebuild_loop [] chunks sizes st = Some st"
| "rebuild_loop [(first_chunk, spc, _)] chunks sizes (ex, frame_num, stco_offset) =
     chunk_run (length chunks - stco_offset) chunks sizes spc (ex, frame_num, stco_offset)"
| "rebuild_loop ((first_chunk, spc, _) # c # cs) chunks sizes st =
     (case chunk_run (fst c - first_chunk) chunks sizes spc st of None \<Rightarrow> None | Some st \<Rightarrow> rebuild_loop (c # cs) chunks sizes st)"

definition stco_rebuild :: "(nat \<Rightarrow> u8) \<Rightarrow> main_box \<Rightarrow> main_box option" where
  "stco_rebuild junk b =
     (if b_stsz_count b = b_stco_count b then Some b
      else
        let chunks = (case b_stco b of None \<Rightarrow> [] | Some cs \<Rightarrow> cs); sizes = (case b_stsz b of None \<Rightarrow> [] | Some ss \<Rightarrow> ss);
            stsc = (case b_stsc b of None \<Rightarrow> [] | Some cs \<Rightarrow> cs);
            ex = map (\<lambda>i. big4 (map (\<lambda>j. junk (4 * i + j)) [0..<4]) 0) [0..<b_stsz_count b]
        in map_option (\<lambda>(ex, _). b\<lparr>b_stco := Some ex\<rparr>) (rebuild_loop stsc chunks sizes (ex, 0, 0)))"

fun rebuild_traks :: "(nat \<Rightarrow> u8) \<Rightarrow> demux_trak list \<Rightarrow> demux_trak list option" where
  "rebuild_traks junk [] = Some []"
| "rebuild_traks junk (t # ts) =
     (case stco_rebuild junk (t_box t) of None \<Rightarrow> None | Some b \<Rightarrow> map_option (Cons (t\<lparr>t_box := b\<rparr>)) (rebuild_traks junk ts))"

definition mp4_demux_stco_rebuild :: "(nat \<Rightarrow> u8) \<Rightarrow> mp4_demux \<Rightarrow> mp4_demux option" where
  "mp4_demux_stco_rebuild junk d =
     map_option (\<lambda>ts. d\<lparr>trak_t := ts @ drop (trak_index d + 1) (trak_t d)\<rparr>) (rebuild_traks junk (take (trak_index d + 1) (trak_t d)))"

text \<open>A file is opened when it has both parameter sets, whatever became of the rest.\<close>

definition mp4_demux_open :: "nat \<Rightarrow> (nat \<Rightarrow> u8) \<Rightarrow> ffile \<Rightarrow> mp4_demux option option" where
  "mp4_demux_open n junk f =
     (case box_read n junk False (word_of_nat (osal_fsize f)) (new_demux f) of None \<Rightarrow> None
      | Some (e, d) \<Rightarrow>
          case (if e then Some d else mp4_demux_stco_rebuild junk d) of None \<Rightarrow> None
          | Some d \<Rightarrow> let b = t_box (trak_t d ! 0) in Some (if b_sps b \<noteq> None \<and> b_pps b \<noteq> None then Some d else None))"

section \<open>Looking up frames\<close>

text \<open>The place and the size of a frame; the size stays what it was when there is no such frame.\<close>

definition get_frame_offset :: "demux_trak \<Rightarrow> nat \<Rightarrow> nat \<Rightarrow> nat \<times> nat" where
  "get_frame_offset t sample_offset read_size =
     (let b = t_box t
      in if b_stsz_count b > sample_offset then
           (case b_stco b of None \<Rightarrow> 0 | Some cs \<Rightarrow> cs ! sample_offset, case b_stsz b of None \<Rightarrow> read_size | Some ss \<Rightarrow> ss ! sample_offset)
         else (0, read_size))"

definition get_frame_num_pts :: "demux_trak \<Rightarrow> nat \<Rightarrow> nat" where
  "get_frame_num_pts t n = (let b = t_box t in if n < b_stsz_count b then the (b_stsz_time b) ! n else 0)"

definition is_key_frame :: "demux_trak \<Rightarrow> nat \<Rightarrow> bool" where
  "is_key_frame t frame_num =
     (let b = t_box t
      in if b_stss b = None \<or> t_type t \<noteq> 1 then True
         else case key_frame_bitmap b of None \<Rightarrow> False
           | Some bm \<Rightarrow> key_frame_bitmap_count b * 32 > frame_num \<and> (bm ! (frame_num div 32)) AND push_bit (frame_num mod 32) 1 \<noteq> 0)"

text \<open>The two loops of the search for a time: the sample in whose time it falls, and the last key frame up to it.\<close>

fun find_time :: "nat \<Rightarrow> nat list \<Rightarrow> nat \<Rightarrow> nat \<Rightarrow> nat \<Rightarrow> nat \<Rightarrow> nat \<times> nat \<times> nat" where
  "find_time duration [] i now_frame last_dur now_dur = (now_frame, last_dur, now_dur)"
| "find_time duration (t # ts) i now_frame last_dur now_dur =
     (if last_dur \<le> duration \<and> duration \<le> t then (i, last_dur, t) else find_time duration ts (i + 1) i t t)"

fun find_key :: "nat \<Rightarrow> nat list \<Rightarrow> nat \<Rightarrow> nat" where
  "find_key now_frame [] last_key = 0"
| "find_key now_frame (s # ss) last_key = (if s > now_frame then last_key else find_key now_frame ss s)"

definition get_frame_num_from_pts :: "demux_trak \<Rightarrow> nat \<Rightarrow> nat" where
  "get_frame_num_from_pts t ms =
     (let b = t_box t;
          (now_frame, last_dur, now_dur) =
            (if b_stts b \<noteq> None \<and> b_stts_count b > 0 then find_time ms (take (b_stsz_count b) (the (b_stsz_time b))) 0 0 0 0 else (0, 0, 0))
      in if last_dur \<le> ms \<and> ms \<le> now_dur then
           case b_stss b of Some (s # ss) \<Rightarrow> find_key now_frame (s # ss) s | _ \<Rightarrow> 0
         else 0)"

text \<open>The jump of the player: the frame to go on with, and the answer.\<close>

definition demux_jmp_time :: "mp4_demux \<Rightarrow> nat \<Rightarrow> (nat \<times> nat) option" where
  "demux_jmp_time d arg =
     (let t = trak_t d ! 0; jmp_vframe_num = get_frame_num_from_pts t arg
      in if jmp_vframe_num \<noteq> 0 then Some (jmp_vframe_num - 1, get_frame_num_pts t jmp_vframe_num) else None)"

section \<open>What the player gets\<close>

text \<open>A frame of video without the four bytes of its length; its time, and whether it is a key frame.\<close>

definition demux_video :: "(nat \<Rightarrow> u8) \<Rightarrow> mp4_demux \<Rightarrow> nat \<Rightarrow> (nat \<times> u8 list \<times> bool) option" where
  "demux_video junk d n =
     (let t = trak_t d ! 0; (vframe_offset, vframe_size) = get_frame_offset t n 0
      in if vframe_offset = 0 \<or> vframe_size = 0 then None
         else let (e, bs, d) = fread_n junk ((vframe_size + (2 ^ 32 - 4)) mod 2 ^ 32) (demux_seek (vframe_offset + 4) d)
              in if e then None else Some (get_frame_num_pts t n, bs, is_key_frame t n))"

section \<open>ADTS\<close>

definition aac_dsi_to_adts :: "u8 \<times> u8 \<Rightarrow> nat \<Rightarrow> u8 list" where
  "aac_dsi_to_adts dsi aac_data_length =
     (let audio_object_type = drop_bit 3 (fst dsi) AND 0x1F; profile = audio_object_type - 1;
          samplerate_index = push_bit 1 (fst dsi AND 7) OR drop_bit 7 (snd dsi);
          channels = drop_bit 3 (snd dsi) AND 0x0F; frame_length = (word_of_nat (aac_data_length + 7) :: u32)
      in [0xFF, 0xF0 OR 8 OR 0 OR 1, push_bit 6 profile OR push_bit 2 samplerate_index OR 0 OR drop_bit 2 (channels AND 4),
          push_bit 6 (channels AND 3) OR ucast (drop_bit 11 frame_length), ucast (drop_bit 3 frame_length AND 0xFF),
          ucast (push_bit 5 (frame_length AND 7)) OR 0x1F, 0xFC])"

definition demux_audio :: "(nat \<Rightarrow> u8) \<Rightarrow> mp4_demux \<Rightarrow> nat \<Rightarrow> (nat \<times> u8 list) option" where
  "demux_audio junk d n =
     (let t = trak_t d ! 1; (aframe_offset, aframe_size) = get_frame_offset t n 0
      in if \<not> t_init t \<or> aframe_offset = 0 \<or> aframe_size = 0 then None
         else let (e, bs, d) = fread_n junk aframe_size (demux_seek aframe_offset d)
              in if e then None else Some (get_frame_num_pts t n, aac_dsi_to_adts (aac_dsi d) aframe_size @ bs))"

end
