(* ===== verification/Spec2Isabelle.thy ===== *)
theory Spec2Isabelle
  imports AudioRing Detector Msi KeyWork Console Rwlock Barrier PosixThread PosixMq PosixTime RtpH264 RtpAudio RtpJpeg AviFile Mp4File Mp4Params Mp4Demux
begin

text \<open>
  A verification library for the TXW82x FPV firmware (\<open>src/\<close>, C): the containers and helpers of its SDK, the media
  stream interface that moves frames between its components, the keys, the POSIX layer, the RTP transmission of the
  camera's pictures and sound, and the files its recorder writes and its player reads.

  \<^bold>\<open>How the program is put together.\<close> A camera or microphone driver fills a frame buffer and hands it to its component, which
  outputs it to the queues of the components bound to it (\<open>sdk/lib/multimedia/msi\<close>). A consumer takes it from its queue,
  uses it, and gives its reference back; when the last one goes, the buffer returns to the pool it came from. Two consumers
  are modelled to the end. The streaming server (\<open>sdk/app/spook\<close>) cuts H.264, JPEG and AAC frames into RTP packets. The
  recorder (\<open>sdk/app/ffavimuxer\<close>, \<open>sdk/app/record\<close>) writes AVI files through a file that buffers whole blocks, and the player
  (\<open>sdk/app/playback\<close>) reads them. Beside that run the key scanner in a timer and the key listeners in a task
  (\<open>sdk/lib/key\<close>). All of it rests on the operating system layer (\<open>sdk/osal/csky\<close>), the POSIX functions built on it
  (\<open>sdk/lib/posix\<close>) and the helpers of \<open>sdk/lib/common\<close>.

  \<^bold>\<open>The theories\<close>, in the order they build on each other.

  \<^item> \<open>Prelude\<close>: C integers at their width, error codes, checked accesses to arrays, C strings, lemmas on words and lists.
  \<^item> \<open>Fifo\<close>: the contract of a stream buffer, the locale \<open>stream_fifo\<close>, with its client theorem. \<open>RingBuffer\<close>
    (\<open>sdk/include/lib/common/rbuffer.h\<close>, \<open>sdk/lib/common/rbuffer.c\<close>) and \<open>AudioRing\<close> (\<open>sdk/lib/audio/ring_buffer\<close>)
    interpret it: what goes in comes out, in order, inside the array.
  \<^item> \<open>ByteShift\<close>: the unaligned accessors of \<open>sdk/include/chip/arch/csky/byteshift.h\<close>, the locale \<open>unaligned_pair\<close>.
    \<open>Detector\<close>: media type detection (\<open>sdk/lib/multimedia/mplayer/detector.c\<close>), every read checked. \<open>Atomic\<close>: the counters
    of \<open>sdk/include/osal/atomic.h\<close>.
  \<^item> \<open>MsiState\<close>, \<open>FrameBuff\<close>, \<open>FbQueue\<close>, \<open>Msi\<close>: the media stream interface. \<open>MsiState\<close> is the store of buffers, queues and
    components; \<open>FrameBuff\<close> has \<open>framebuff.c\<close> and the functions a release reaches; \<open>FbQueue\<close> has \<open>fbqueue.c\<close> and the trace of
    \<open>utils.c\<close>; \<open>Msi\<close> has \<open>msi.c\<close> and \<open>fbpool.c\<close>. The lemmas show that references balance, that a frame is freed once, that
    a queue is a FIFO and that a frame reaches every output that takes it.
  \<^item> \<open>KeyScan\<close>, \<open>KeyWork\<close>: the scanner as a state machine (\<open>key_trace\<close> is the protocol of its messages, the locale
    \<open>key_source\<close> the two ADC tables), and the listeners with their two lists.
  \<^item> \<open>TimeSpec\<close>, \<open>CommonUtil\<close>, \<open>Strings\<close>, \<open>Console\<close>: system time (\<open>sdk/osal/csky/time.c\<close>), \<open>sdk/lib/common/common.c\<close> and
    \<open>sdk/lib/common/string.c\<close>.
  \<^item> \<open>OsSync\<close>: semaphores, mutexes and condition variables of \<open>sdk/osal/csky\<close>. \<open>Rwlock\<close> and \<open>Barrier\<close> run the POSIX objects
    on them with any number of threads, as inductive step relations (\<open>rw_step\<close>, \<open>bar_step\<close>) whose invariants are proved by
    rule induction. \<open>PosixThread\<close> (thread table, thread specific data, attributes), \<open>PosixMq\<close> (message queues) and
    \<open>PosixTime\<close> (timed waits, timers) are the rest of \<open>sdk/lib/posix\<close>.
  \<^item> \<open>Rtp\<close>: \<open>sdk/app/spook/rtp.c\<close>; the locale \<open>rtp_transport\<close> is what the packetisers need of a transport, interpreted for UDP
    and for packets interleaved in the RTSP connection. \<open>RtpH264\<close>, \<open>RtpAudio\<close>, \<open>RtpJpeg\<close> are the packetisers of
    \<open>rtp-h264.c\<close>, \<open>rtp-audio.c\<close> and \<open>rtp-jpeg.c\<close>. Each is proved against a receiver written for the purpose after
    RFC 6184, RFC 3640 and RFC 2435: it gets back what was sent.
  \<^item> \<open>OsalFile\<close>, \<open>MuxFile\<close>: an open file of \<open>sdk/lib/fs/fatfs/osal_file.c\<close>; the locale \<open>muxer_file\<close>, what a muxer needs of a
    file (\<open>sdk/app/record/muxer_file_ops.h\<close>); and the file of \<open>sdk/app/record/mux_file.c\<close>, which writes whole blocks of 32 KB and
    is proved to have the content a plain file would have.
  \<^item> \<open>AviMux\<close> (\<open>sdk/app/ffavimuxer/avimuxer.c\<close>), \<open>AviRecord\<close>, \<open>AviSession\<close>: the AVI muxer over any file of the locale
    \<open>avi_muxer_file\<close>, interpreted for the plain file and for that of \<open>MuxFile\<close>. \<open>rec_inv\<close> is what the file holds during a recording,
    kept by every call; \<open>avi_playable\<close> what it holds after a sync or at the end. \<open>AviRead\<close> (\<open>sdk/app/playback/avi.c\<close>) is the reader;
    \<open>AviOpen\<close> and \<open>AviFile\<close> put the two together: what was recorded is played.

  \<^bold>\<open>How C is rendered.\<close> Integers keep their width (\<open>u8\<close>, \<open>u16\<close>, \<open>u32\<close> are words) wherever the code can wrap; where a value is a
  length or an offset of an object that is in memory, it is a natural number. A structure is a record, a
  structure reached through a pointer lives in a store that maps addresses to records, and address 0 is NULL. Memory that a
  function reads or writes through a pointer is a list, and every access to it is checked: an access outside, a use of freed
  memory, a call through NULL and a failed \<open>ASSERT\<close> are \<open>None\<close>. Errors the code returns are its own negative integers. What
  an allocator, a device, the network, the card or the clock answers is an argument, so that a theorem holds whatever it answers
  unless a hypothesis restricts it.

  \<^bold>\<open>Loops and fuel.\<close> Loops that run over data are structural or have a measure. A loop that may not end is a
  \<open>partial_function\<close> into options: not returning is \<open>None\<close>, and a theorem that gives \<open>Some\<close> proves that it returns. Two
  definitions carry fuel. \<open>FrameBuff.release\<close> ties the mutually recursive release functions; its fuel is the depth of the calls,
  more never changes an answer (\<open>release_fuel\<close>), and the theorems about releasing name a depth that suffices for every store of
  their kind. \<open>CommonUtil.scatter_offset\<close> takes the passes of its loop: the index is a byte, so 256 passes see every index.

  \<^bold>\<open>Concurrency.\<close> A function that runs with interrupts off or holds one mutex from entry to return is one step. Where a function
  waits it is split there, and the theories \<open>Rwlock\<close>, \<open>Barrier\<close>, \<open>FbQueue\<close> and \<open>PosixMq\<close> let other steps come between.

  \<^bold>\<open>What the theorems show.\<close> Most say that the code does what it is for. Some record what it does instead: the lost wake-up
  of the read-write lock, thread specific data that reading frees, comparisons that confuse characters, sound that is
  recorded and never played, a file that keeps the player busy for good.

  \<^bold>\<open>Not modelled.\<close> Prebuilt and third-party code: the RTOS kernels (\<open>csky\<close>, \<open>ohos\<close>), FatFs, LVGL, lwIP,
  mbed TLS, cJSON, curl, MQTT; the kernel objects and FatFs enter with the behaviour their headers document. Drivers and
  hardware layers (\<open>sdk/driver\<close>, \<open>sdk/hal\<close>, \<open>sdk/chip\<close>, display, sensor and touch tables) are register sequences whose meaning is
  in the device. The user interface is mostly data. The video and audio pipelines, the intercom and the recorder threads are glue
  that passes frames to codecs, devices and sockets. Of the parts that have logic of their own the MP4 muxer, the clock of the player,
  the RTSP session and its RTCP reports, the virtual file system, the web server and the command
  interpreter are left for later. In the modelled files left out are functions that only print, that only forward to the
  allocator or the file system, and the texts of the session descriptions.
\<close>

end
